(* ===== verification/Prelude.thy ===== *)
theory Prelude
  imports Main "HOL-Library.Word" "HOL-Library.Multiset" "HOL-Library.AList"
begin

text \<open>
  What every theory of the development shares: exceptions as values of a sum type and the
  combinators that thread them (\<open>ebind\<close>, \<open>emap\<close>, \<open>ensure\<close>), JavaScript's optional values, tables with
  a primary key (the shape in which the stores use SQLite), and the generic list facts behind
  the component proofs.

  The collection \<open>result_simps\<close> evaluates the exception combinators; \<open>table_simps\<close> holds the
  laws of keyed tables.
\<close>

named_theorems result_simps \<open>evaluation of the exception combinators\<close>
named_theorems table_simps \<open>laws of the keyed tables\<close>

section \<open>Exceptions\<close>

text \<open>
  The reasons of \<open>VerifyError\<close> (\<open>packages/sdk/src/errors.ts\<close>, \<open>VerifyErrorReason\<close>) and the
  exceptions the modelled code throws. A message keeps the text of the source; the values
  interpolated into it are dropped.
\<close>

datatype verify_reason =
    Malformed | FeedNotFound | DuplicateFeed | BadProof | WrongPublisherSet | Paused | BadSetIndex
  | BadSignature

datatype js_error =
    TypeError string
  | RangeError string
  | DecodeError string
  | VerifyError verify_reason
  | MirrorError string "int option"
  | BadRequest string
  | Failure string

type_synonym 'a result = "js_error + 'a"

definition ebind :: "'e + 'a \<Rightarrow> ('a \<Rightarrow> 'e + 'b) \<Rightarrow> 'e + 'b" where
  "ebind m f = (case m of Inl e \<Rightarrow> Inl e | Inr x \<Rightarrow> f x)"

lemma ebind_simps [simp, result_simps]:
  "ebind (Inl e) f = Inl e"
  "ebind (Inr x) f = f x"
  by (simp_all add: ebind_def)

lemma ebind_eq_Inr: "ebind m f = Inr y \<longleftrightarrow> (\<exists>x. m = Inr x \<and> f x = Inr y)"
  by (cases m) auto

lemma ebind_eq_Inl: "ebind m f = Inl e \<longleftrightarrow> m = Inl e \<or> (\<exists>x. m = Inr x \<and> f x = Inl e)"
  by (cases m) auto

lemma ebind_assoc: "ebind (ebind m f) g = ebind m (\<lambda>x. ebind (f x) g)"
  by (cases m) auto

lemma ebind_cong [fundef_cong]:
  "m = m' \<Longrightarrow> (\<And>x. m' = Inr x \<Longrightarrow> f x = f' x) \<Longrightarrow> ebind m f = ebind m' f'"
  by (cases m') auto

text \<open>\<open>if (!b) throw e\<close>.\<close>

definition ensure :: "bool \<Rightarrow> 'e \<Rightarrow> 'e + unit" where
  "ensure b e = (if b then Inr () else Inl e)"

lemma ensure_simps [simp, result_simps]:
  "ensure True e = Inr ()"
  "ensure False e = Inl e"
  by (simp_all add: ensure_def)

lemma ensure_eq_Inr [simp]: "ensure b e = Inr u \<longleftrightarrow> b"
  by (simp add: ensure_def)

lemma ensure_eq_Inl [simp]: "ensure b e = Inl e' \<longleftrightarrow> \<not> b \<and> e' = e"
  by (auto simp: ensure_def)

text \<open>\<open>xs.map(f)\<close> where \<open>f\<close> may throw: the first exception ends the loop.\<close>

fun emap :: "('a \<Rightarrow> 'e + 'b) \<Rightarrow> 'a list \<Rightarrow> 'e + 'b list" where
  "emap f [] = Inr []"
| "emap f (x # xs) = ebind (f x) (\<lambda>y. ebind (emap f xs) (\<lambda>ys. Inr (y # ys)))"

lemma emap_cong [fundef_cong]:
  "xs = ys \<Longrightarrow> (\<And>x. x \<in> set ys \<Longrightarrow> f x = g x) \<Longrightarrow> emap f xs = emap g ys"
  by (induction ys arbitrary: xs) auto

lemma emap_eq_Inr: "emap f xs = Inr ys \<longleftrightarrow> list_all2 (\<lambda>x y. f x = Inr y) xs ys"
proof (induction xs arbitrary: ys)
  case Nil
  show ?case by auto
next
  case (Cons x xs)
  show ?case
    by (cases ys) (auto simp: ebind_eq_Inr Cons.IH)
qed

lemma emap_Inr_map: "(\<And>x. x \<in> set xs \<Longrightarrow> f x = Inr (g x)) \<Longrightarrow> emap f xs = Inr (map g xs)"
  by (induction xs) auto

lemma emap_member: "emap f xs = Inr ys \<Longrightarrow> y \<in> set ys \<Longrightarrow> \<exists>x \<in> set xs. f x = Inr y"
  by (induction xs arbitrary: ys) (auto simp: ebind_eq_Inr)

lemma emap_covers: "emap f xs = Inr ys \<Longrightarrow> x \<in> set xs \<Longrightarrow> \<exists>y \<in> set ys. f x = Inr y"
  by (induction xs arbitrary: ys) (auto simp: ebind_eq_Inr)

lemma emap_length: "emap f xs = Inr ys \<Longrightarrow> length ys = length xs"
  by (auto simp: emap_eq_Inr dest: list_all2_lengthD)

lemma exists_list_all2:
  "(\<And>x. x \<in> set xs \<Longrightarrow> \<exists>y. P x y) \<Longrightarrow> \<exists>ys. list_all2 P xs ys"
proof (induction xs)
  case (Cons x xs)
  then obtain y ys where "P x y" "list_all2 P xs ys" by fastforce
  then show ?case by (intro exI[of _ "y # ys"]) simp
qed auto

text \<open>A left fold whose step may throw.\<close>

fun efold :: "('b \<Rightarrow> 'a \<Rightarrow> 'e + 'b) \<Rightarrow> 'b \<Rightarrow> 'a list \<Rightarrow> 'e + 'b" where
  "efold f b [] = Inr b"
| "efold f b (x # xs) = ebind (f b x) (\<lambda>b'. efold f b' xs)"

lemma efold_cong [fundef_cong]:
  "b = b' \<Longrightarrow> xs = ys \<Longrightarrow> (\<And>x c. x \<in> set ys \<Longrightarrow> f c x = g c x) \<Longrightarrow> efold f b xs = efold g b' ys"
proof (induction ys arbitrary: xs b b')
  case Nil
  then show ?case by simp
next
  case (Cons y ys)
  then have "f b' y = g b' y" and "\<And>c. efold f c ys = efold g c ys"
    by auto
  then show ?case using Cons.prems by simp
qed

lemma efold_append: "efold f b (xs @ ys) = ebind (efold f b xs) (\<lambda>c. efold f c ys)"
  by (induction xs arbitrary: b) (auto simp: ebind_assoc)

lemma efold_invariant:
  assumes "efold f b xs = Inr c" and "P b"
    and step: "\<And>x d d'. x \<in> set xs \<Longrightarrow> P d \<Longrightarrow> f d x = Inr d' \<Longrightarrow> P d'"
  shows "P c"
  using assms
  by (induction xs arbitrary: b) (auto simp: ebind_eq_Inr)

text \<open>\<open>xs.every(f)\<close> and \<open>xs.some(f)\<close> where \<open>f\<close> may throw: the first \<open>false\<close> (\<open>true\<close>) ends the loop.\<close>

fun eall :: "('a \<Rightarrow> 'e + bool) \<Rightarrow> 'a list \<Rightarrow> 'e + bool" where
  "eall f [] = Inr True"
| "eall f (x # xs) = ebind (f x) (\<lambda>b. if b then eall f xs else Inr False)"

lemma eall_True: "eall f xs = Inr True \<longleftrightarrow> (\<forall>x \<in> set xs. f x = Inr True)"
  by (induction xs) (auto simp: ebind_eq_Inr split: if_splits)

lemma eall_Inr: "(\<And>x. x \<in> set xs \<Longrightarrow> f x = Inr (g x)) \<Longrightarrow> eall f xs = Inr (list_all g xs)"
  by (induction xs) auto

lemma eall_total:
  assumes "\<And>x. x \<in> set xs \<Longrightarrow> \<exists>b. f x = Inr b"
  shows "\<exists>b. eall f xs = Inr b"
proof -
  have "eall f xs = Inr (list_all (\<lambda>x. f x = Inr True) xs)"
    by (rule eall_Inr) (use assms in fastforce)
  then show ?thesis ..
qed

lemma eall_enumerate: "eall f (enumerate 0 xs) = Inr True \<longleftrightarrow> (\<forall>i < length xs. f (i, xs ! i) = Inr True)"
proof -
  have "set (enumerate 0 xs) = (\<lambda>i. (i, xs ! i)) ` {..<length xs}"
    by (force simp: in_set_enumerate_eq)
  then show ?thesis by (auto simp: eall_True)
qed

text \<open>\<open>a && b\<close> and \<open>a || b\<close> where the operands may throw.\<close>

definition eand :: "'e + bool \<Rightarrow> 'e + bool \<Rightarrow> 'e + bool" where
  "eand a b = ebind a (\<lambda>x. if x then b else Inr False)"

lemma eand_True [simp]: "eand a b = Inr True \<longleftrightarrow> a = Inr True \<and> b = Inr True"
  by (auto simp: eand_def ebind_eq_Inr split: if_splits)

lemma eand_simps [simp, result_simps]:
  "eand (Inl e) b = Inl e" "eand (Inr True) b = b" "eand (Inr False) b = Inr False"
  by (simp_all add: eand_def)

text \<open>\<open>try { m } catch { h }\<close>.\<close>

definition ecatch :: "'e + 'a \<Rightarrow> ('e \<Rightarrow> 'e2 + 'a) \<Rightarrow> 'e2 + 'a" where
  "ecatch m h = (case m of Inl e \<Rightarrow> h e | Inr x \<Rightarrow> Inr x)"

lemma ecatch_simps [simp, result_simps]:
  "ecatch (Inl e) h = h e"
  "ecatch (Inr x) h = Inr x"
  by (simp_all add: ecatch_def)

lemma ecatch_rethrow [simp]: "ecatch m (\<lambda>e. Inl (g e)) = Inr x \<longleftrightarrow> m = Inr x"
  by (cases m) auto

definition of_option :: "'e \<Rightarrow> 'a option \<Rightarrow> 'e + 'a" where
  "of_option e x = (case x of None \<Rightarrow> Inl e | Some y \<Rightarrow> Inr y)"

lemma of_option_simps [simp, result_simps]:
  "of_option e None = Inl e"
  "of_option e (Some y) = Inr y"
  by (simp_all add: of_option_def)

lemma of_option_eq_Inr [simp]: "of_option e x = Inr y \<longleftrightarrow> x = Some y"
  by (cases x) auto

section \<open>JavaScript values\<close>

text \<open>\<open>xs[i]\<close> of an array: \<open>undefined\<close> out of range.\<close>

definition at_index :: "'a list \<Rightarrow> int \<Rightarrow> 'a option" where
  "at_index xs i = (if 0 \<le> i \<and> i < int (length xs) then Some (xs ! nat i) else None)"

lemma at_index_Some:
  "at_index xs i = Some x \<longleftrightarrow> 0 \<le> i \<and> i < int (length xs) \<and> xs ! nat i = x"
  by (auto simp: at_index_def)

lemma at_index_in_set: "at_index xs i = Some x \<Longrightarrow> x \<in> set xs"
  by (auto simp: at_index_Some)

text \<open>\<open>xs.indexOf(x)\<close>\<close>

definition index_of :: "'a \<Rightarrow> 'a list \<Rightarrow> int" where
  "index_of x xs = (if x \<in> set xs then int (length (takeWhile (\<lambda>y. y \<noteq> x) xs)) else - 1)"

lemma at_index_of: "x \<in> set xs \<Longrightarrow> at_index xs (index_of x xs) = Some x"
proof -
  assume x: "x \<in> set xs"
  then have less: "length (takeWhile (\<lambda>y. y \<noteq> x) xs) < length xs"
    by (induction xs) auto
  from nth_length_takeWhile[OF this] have "xs ! length (takeWhile (\<lambda>y. y \<noteq> x) xs) = x" by simp
  with less x show ?thesis by (simp add: index_of_def at_index_Some)
qed

lemma index_of_inject: "x \<in> set xs \<Longrightarrow> y \<in> set xs \<Longrightarrow> index_of x xs = index_of y xs \<longleftrightarrow> x = y"
  by (metis at_index_of option.inject)

lemma index_of_bounds: "x \<in> set xs \<Longrightarrow> 0 \<le> index_of x xs \<and> index_of x xs < int (length xs)"
  using at_index_of[of x xs] by (simp add: at_index_Some)

text \<open>\<open>[...new Set(xs)]\<close>: a \<open>Set\<close> keeps the order of insertion.\<close>

definition js_set :: "'a list \<Rightarrow> 'a list" where
  "js_set xs = rev (remdups (rev xs))"

lemma js_set_simps [simp]: "set (js_set xs) = set xs" "distinct (js_set xs)"
  by (simp_all add: js_set_def)

text \<open>
  A property read from a plain object by a computed name finds what the object inherits from
  \<open>Object.prototype\<close>, too.
\<close>

definition OBJECT_PROTOTYPE :: "string list" where
  "OBJECT_PROTOTYPE = [''constructor'', ''__proto__'', ''__defineGetter__'', ''__defineSetter__'', ''__lookupGetter__'',
    ''__lookupSetter__'', ''hasOwnProperty'', ''isPrototypeOf'', ''propertyIsEnumerable'', ''toLocaleString'',
    ''toString'', ''valueOf'']"

text \<open>\<open>a / b\<close> on \<open>bigint\<close> truncates towards zero; \<open>a % b\<close> takes the sign of \<open>a\<close>.\<close>

definition big_div :: "int \<Rightarrow> int \<Rightarrow> int" where
  "big_div a b = sgn a * sgn b * (\<bar>a\<bar> div \<bar>b\<bar>)"

definition big_rem :: "int \<Rightarrow> int \<Rightarrow> int" where
  "big_rem a b = a - big_div a b * b"

lemma big_div_nonneg: "0 \<le> a \<Longrightarrow> 0 < b \<Longrightarrow> big_div a b = a div b"
  by (cases "a = 0") (auto simp: big_div_def)

lemma big_rem_nonneg: "0 \<le> a \<Longrightarrow> 0 < b \<Longrightarrow> big_rem a b = a mod b"
  by (simp add: big_rem_def big_div_nonneg minus_div_mult_eq_mod)

lemma big_div_minus [simp]: "big_div (- a) b = - big_div a b"
  by (simp add: big_div_def)

lemma big_div_0 [simp]: "big_div 0 b = 0"
  by (simp add: big_div_def)

text \<open>\<open>Array.from({ length: n }, (_, i) \<Rightarrow> i)\<close>.\<close>

definition index_range :: "nat \<Rightarrow> int list" where
  "index_range n = map int [0..<n]"

lemma index_range_simps [simp]:
  "length (index_range n) = n"
  "set (index_range n) = {0..<int n}"
  "distinct (index_range n)"
proof -
  show "length (index_range n) = n" by (simp add: index_range_def)
  have "int ` {0..<n} = {0..<int n}"
  proof (rule set_eqI)
    fix i
    show "i \<in> int ` {0..<n} \<longleftrightarrow> i \<in> {0..<int n}"
      by (cases i) auto
  qed
  then show "set (index_range n) = {0..<int n}" by (simp add: index_range_def)
  show "distinct (index_range n)" by (simp add: index_range_def distinct_map inj_on_def)
qed

text \<open>Strictly ascending lists, as the codecs and the bundles require them.\<close>

fun ascending_by :: "('a \<Rightarrow> 'a \<Rightarrow> bool) \<Rightarrow> 'a list \<Rightarrow> bool" where
  "ascending_by lt [] \<longleftrightarrow> True"
| "ascending_by lt [x] \<longleftrightarrow> True"
| "ascending_by lt (x # y # zs) \<longleftrightarrow> lt x y \<and> ascending_by lt (y # zs)"

lemma ascending_by_Cons:
  "ascending_by lt (x # xs) \<longleftrightarrow> (case xs of [] \<Rightarrow> True | y # _ \<Rightarrow> lt x y) \<and> ascending_by lt xs"
  by (cases xs) auto

lemma ascending_by_tl: "ascending_by lt (x # xs) \<Longrightarrow> ascending_by lt xs"
  by (cases xs) auto

lemma ascending_by_hd:
  assumes "transp lt" and "ascending_by lt (x # xs)" and "y \<in> set xs"
  shows "lt x y"
  using assms(2,3)
proof (induction xs arbitrary: x)
  case Nil
  then show ?case by simp
next
  case (Cons z zs)
  have "lt x z" using Cons.prems by simp
  show ?case
  proof (cases "y = z")
    case False
    then have "lt z y" using Cons by simp
    with \<open>lt x z\<close> show ?thesis using assms(1) by (blast dest: transpD)
  qed (simp add: \<open>lt x z\<close>)
qed

lemma ascending_by_distinct:
  assumes "transp lt" and "irreflp lt" and "ascending_by lt xs"
  shows "distinct xs"
  using assms(3)
proof (induction xs)
  case (Cons x xs)
  then have "\<forall>y \<in> set xs. lt x y" using ascending_by_hd[OF assms(1)] by blast
  then have "x \<notin> set xs" using assms(2) by (auto dest: irreflpD)
  with Cons show ?case by (auto dest: ascending_by_tl)
qed simp

lemma ascending_by_map: "ascending_by lt (map f xs) \<longleftrightarrow> ascending_by (\<lambda>x y. lt (f x) (f y)) xs"
  by (induction xs rule: induct_list012) auto

lemma ascending_by_mono:
  assumes "\<And>x y. x \<in> set xs \<Longrightarrow> y \<in> set xs \<Longrightarrow> lt x y \<Longrightarrow> lt' x y" and "ascending_by lt xs"
  shows "ascending_by lt' xs"
  using assms
  by (induction xs rule: induct_list012) auto

lemma ascending_by_nth:
  "ascending_by lt xs \<longleftrightarrow> (\<forall>i < length xs. i = 0 \<or> lt (xs ! (i - 1)) (xs ! i))"
proof (induction xs rule: induct_list012)
  case (3 x y zs)
  have "(\<forall>i < length (x # y # zs). i = 0 \<or> lt ((x # y # zs) ! (i - 1)) ((x # y # zs) ! i)) \<longleftrightarrow>
      lt x y \<and> (\<forall>i < length (y # zs). i = 0 \<or> lt ((y # zs) ! (i - 1)) ((y # zs) ! i))"
    by (auto simp: nth_Cons less_Suc_eq_0_disj split: nat.splits)
  with 3 show ?case by simp
qed auto

lemma sorted_ascending: "sorted xs \<Longrightarrow> ascending_by (<) xs \<longleftrightarrow> distinct (xs :: 'a :: linorder list)"
  by (induction xs rule: induct_list012) auto

lemma sorted_adjacent: "sorted xs \<Longrightarrow> ascending_by (\<noteq>) xs \<longleftrightarrow> distinct (xs :: 'a :: linorder list)"
  by (induction xs rule: induct_list012) auto

lemma adjacent_distinct:
  assumes "sorted (map k ms)" and "\<And>m m'. m \<in> set ms \<Longrightarrow> m' \<in> set ms \<Longrightarrow> k m = k m' \<longleftrightarrow> g m = g m'"
  shows "\<not> list_ex (\<lambda>i. i > 0 \<and> g (ms ! i) = g (ms ! (i - 1))) [0..<length ms] \<longleftrightarrow> distinct (map g ms)"
proof -
  have "\<not> list_ex (\<lambda>i. i > 0 \<and> g (ms ! i) = g (ms ! (i - 1))) [0..<length ms] \<longleftrightarrow>
      ascending_by (\<lambda>a b. g a \<noteq> g b) ms"
    unfolding ascending_by_nth list_ex_iff set_upt Bex_def atLeastLessThan_iff
    by (metis le0 gr0I less_numeral_extra(3))
  also have "\<dots> \<longleftrightarrow> ascending_by (\<lambda>a b. k a \<noteq> k b) ms"
    using ascending_by_mono[of ms "\<lambda>a b. g a \<noteq> g b" "\<lambda>a b. k a \<noteq> k b"]
      ascending_by_mono[of ms "\<lambda>a b. k a \<noteq> k b" "\<lambda>a b. g a \<noteq> g b"] assms(2) by metis
  also have "\<dots> \<longleftrightarrow> distinct (map k ms)"
    using sorted_adjacent[OF assms(1)] by (simp add: ascending_by_map)
  also have "\<dots> \<longleftrightarrow> distinct (map g ms)"
    using assms(2) by (auto simp: distinct_map inj_on_def)
  finally show ?thesis .
qed

lemma sorted_wrt_less_unique:
  assumes "sorted_wrt (<) xs" and "sorted_wrt (<) ys" and "set xs = set (ys :: 'a :: linorder list)"
  shows "xs = ys"
  using assms by (simp add: strict_sorted_equal)

section \<open>Tables with a primary key\<close>

text \<open>
  The stores use SQLite tables with a primary key. A table is the list of its rows in insertion
  order; the key of a row is read by a function. \<open>INSERT OR IGNORE\<close> keeps an existing row,
  \<open>INSERT OR REPLACE\<close> replaces it, \<open>DELETE ... WHERE\<close> filters.
\<close>

definition tbl_find :: "('r \<Rightarrow> 'k) \<Rightarrow> 'k \<Rightarrow> 'r list \<Rightarrow> 'r option" where
  "tbl_find key k rows = find (\<lambda>r. key r = k) rows"

definition tbl_insert_ignore :: "('r \<Rightarrow> 'k) \<Rightarrow> 'r \<Rightarrow> 'r list \<Rightarrow> 'r list" where
  "tbl_insert_ignore key r rows = (if tbl_find key (key r) rows = None then rows @ [r] else rows)"

definition tbl_insert_replace :: "('r \<Rightarrow> 'k) \<Rightarrow> 'r \<Rightarrow> 'r list \<Rightarrow> 'r list" where
  "tbl_insert_replace key r rows = filter (\<lambda>r'. key r' \<noteq> key r) rows @ [r]"

definition tbl_delete :: "('r \<Rightarrow> bool) \<Rightarrow> 'r list \<Rightarrow> 'r list" where
  "tbl_delete p rows = filter (\<lambda>r. \<not> p r) rows"

definition tbl_wf :: "('r \<Rightarrow> 'k) \<Rightarrow> 'r list \<Rightarrow> bool" where
  "tbl_wf key rows \<longleftrightarrow> distinct (map key rows)"

lemma tbl_find_Nil [simp]: "tbl_find key k [] = None"
  by (simp add: tbl_find_def)

lemma tbl_find_Some: "tbl_find key k rows = Some r \<Longrightarrow> r \<in> set rows \<and> key r = k"
  by (auto simp: tbl_find_def find_Some_iff)

lemma tbl_find_None: "tbl_find key k rows = None \<longleftrightarrow> k \<notin> key ` set rows"
  by (auto simp: tbl_find_def find_None_iff)

lemma tbl_find_iff: "tbl_wf key rows \<Longrightarrow> tbl_find key k rows = Some r \<longleftrightarrow> r \<in> set rows \<and> key r = k"
proof
  assume wf: "tbl_wf key rows" and r: "r \<in> set rows \<and> key r = k"
  then obtain r' where r': "tbl_find key k rows = Some r'"
    using tbl_find_None[of key k rows] by (cases "tbl_find key k rows") auto
  with r wf have "r' = r"
    by (auto simp: tbl_wf_def distinct_map inj_on_def dest!: tbl_find_Some)
  with r' show "tbl_find key k rows = Some r" by simp
next
  assume "tbl_find key k rows = Some r"
  then show "r \<in> set rows \<and> key r = k" by (rule tbl_find_Some)
qed

lemma find_append: "find p (xs @ ys) = (case find p xs of None \<Rightarrow> find p ys | Some x \<Rightarrow> Some x)"
  by (induction xs) auto

lemma tbl_find_insert_ignore [table_simps]:
  "tbl_find key k (tbl_insert_ignore key r rows) =
    (if key r = k then Some (case tbl_find key k rows of None \<Rightarrow> r | Some r' \<Rightarrow> r')
     else tbl_find key k rows)"
  by (auto simp: tbl_insert_ignore_def tbl_find_def find_append split: option.splits)

lemma find_False [simp]: "find (\<lambda>x. False) xs = None"
  by (induction xs) auto

lemma find_filter: "find p (filter q xs) = find (\<lambda>x. q x \<and> p x) xs"
  by (induction xs) auto

lemma tbl_find_insert_replace [table_simps]:
  "tbl_find key k (tbl_insert_replace key r rows) =
    (if key r = k then Some r else tbl_find key k rows)"
proof (cases "key r = k")
  case True
  then show ?thesis
    by (simp add: tbl_insert_replace_def tbl_find_def find_append find_filter find_None_iff
        split: option.splits)
next
  case False
  then have "find (\<lambda>x. key x \<noteq> key r \<and> key x = k) rows = find (\<lambda>x. key x = k) rows"
    by (intro find_cong) auto
  with False show ?thesis
    by (simp add: tbl_insert_replace_def tbl_find_def find_append find_filter split: option.splits)
qed

lemma tbl_find_delete_keep [table_simps]:
  assumes "\<And>r. r \<in> set rows \<Longrightarrow> key r = k \<Longrightarrow> \<not> p r"
  shows "tbl_find key k (tbl_delete p rows) = tbl_find key k rows"
  unfolding tbl_find_def tbl_delete_def find_filter
  using assms by (intro find_cong) auto

lemma tbl_find_delete_gone:
  assumes "\<And>r. r \<in> set rows \<Longrightarrow> key r = k \<Longrightarrow> p r"
  shows "tbl_find key k (tbl_delete p rows) = None"
  using assms by (auto simp: tbl_find_None tbl_delete_def)

lemma set_tbl_delete [simp]: "set (tbl_delete p rows) = {r \<in> set rows. \<not> p r}"
  by (auto simp: tbl_delete_def)

lemma tbl_wf_insert_ignore [intro]: "tbl_wf key rows \<Longrightarrow> tbl_wf key (tbl_insert_ignore key r rows)"
  by (auto simp: tbl_wf_def tbl_insert_ignore_def tbl_find_None)

lemma tbl_wf_insert_replace [intro]: "tbl_wf key rows \<Longrightarrow> tbl_wf key (tbl_insert_replace key r rows)"
  by (auto simp: tbl_wf_def tbl_insert_replace_def distinct_map inj_on_def)

lemma tbl_wf_delete [intro]: "tbl_wf key rows \<Longrightarrow> tbl_wf key (tbl_delete p rows)"
  by (auto simp: tbl_wf_def tbl_delete_def distinct_map inj_on_def)

lemma tbl_wf_Nil [simp]: "tbl_wf key []"
  by (simp add: tbl_wf_def)

text \<open>\<open>ORDER BY key\<close>, and the least and greatest row of a selection.\<close>

definition tbl_first_by :: "('r \<Rightarrow> 'k :: linorder) \<Rightarrow> 'r list \<Rightarrow> 'r option" where
  "tbl_first_by key rows = (case sort_key key rows of [] \<Rightarrow> None | r # _ \<Rightarrow> Some r)"

definition tbl_last_by :: "('r \<Rightarrow> 'k :: linorder) \<Rightarrow> 'r list \<Rightarrow> 'r option" where
  "tbl_last_by key rows = (case sort_key key rows of [] \<Rightarrow> None | r # rs \<Rightarrow> Some (last (r # rs)))"

lemma tbl_first_by_None [simp]: "tbl_first_by key rows = None \<longleftrightarrow> rows = []"
  by (auto simp: tbl_first_by_def split: list.splits dest: arg_cong[where f = length])

lemma tbl_last_by_None [simp]: "tbl_last_by key rows = None \<longleftrightarrow> rows = []"
  by (auto simp: tbl_last_by_def split: list.splits dest: arg_cong[where f = length])

lemma tbl_first_by_Some:
  assumes "tbl_first_by key rows = Some r"
  shows "r \<in> set rows \<and> (\<forall>r' \<in> set rows. key r \<le> key r')"
proof -
  from assms obtain rs where s: "sort_key key rows = r # rs"
    by (auto simp: tbl_first_by_def split: list.splits)
  then have "set rows = set (r # rs)" by (metis set_sort)
  moreover have "sorted (map key (r # rs))" using s by (metis sorted_sort_key)
  ultimately show ?thesis by auto
qed

lemma sorted_last_max: "sorted xs \<Longrightarrow> xs \<noteq> [] \<Longrightarrow> x \<in> set xs \<Longrightarrow> x \<le> last xs"
  by (induction xs) (auto split: if_splits)

lemma tbl_last_by_Some:
  assumes "tbl_last_by key rows = Some r"
  shows "r \<in> set rows \<and> (\<forall>r' \<in> set rows. key r' \<le> key r)"
proof -
  from assms obtain x xs where s: "sort_key key rows = x # xs" and r: "r = last (x # xs)"
    by (auto simp: tbl_last_by_def split: list.splits)
  then have eq: "set rows = set (x # xs)" by (metis set_sort)
  have "sorted (map key (x # xs))" using s by (metis sorted_sort_key)
  then have "key r' \<le> last (map key (x # xs))" if "r' \<in> set rows" for r'
    using that eq sorted_last_max[of "map key (x # xs)" "key r'"] by auto
  with eq r show ?thesis by (auto simp: last_map)
qed

section \<open>Association lists as maps\<close>

lemma alist_update_subset: "set (AList.update k v al) \<subseteq> insert (k, v) (set al)"
  by (induction al) auto

lemma alist_update_new: "k \<notin> fst ` set al \<Longrightarrow> AList.update k v al = al @ [(k, v)]"
  by (induction al) auto

end
