(* ===== verification/Bytes.thy ===== *)
theory Bytes
  imports Prelude "HOL-Library.List_Lexorder" "HOL-Library.Char_ord"
begin

text \<open>
  Hex strings and byte arrays (\<open>packages/sdk/src/internal/bytes.ts\<close>). A \<open>Uint8Array\<close> is a list of
  8-bit words, a \<open>Hex\<close> is the string it is in the source, prefix and letter case included: the
  code compares hex strings with and without \<open>toLowerCase\<close>, and the difference matters.

  The lemmas give the two directions of the hex round trip, show that \<open>compareBytes\<close> is the
  lexicographic order of the library, and that writing bytes as lower-case hex keeps that order
  (the leader order and the entry merge sort hex strings, the codecs compare bytes).
\<close>

type_synonym byte = "8 word"
type_synonym bytes = "byte list"
type_synonym hex = string

section \<open>Characters\<close>

definition hex_value :: "char \<Rightarrow> nat option" where
  "hex_value c =
    (let n = (of_char c :: nat) in
     if 48 \<le> n \<and> n \<le> 57 then Some (n - 48)
     else if 97 \<le> n \<and> n \<le> 102 then Some (n - 87)
     else if 65 \<le> n \<and> n \<le> 70 then Some (n - 55)
     else None)"

definition hex_digit :: "nat \<Rightarrow> char" where
  "hex_digit n = char_of (if n < 10 then n + 48 else n + 87)"

definition lower_char :: "char \<Rightarrow> char" where
  "lower_char c = (let n = (of_char c :: nat) in if 65 \<le> n \<and> n \<le> 90 then char_of (n + 32) else c)"

text \<open>\<open>s.toLowerCase()\<close> on ASCII text.\<close>

definition toLowerCase :: "string \<Rightarrow> string" where
  "toLowerCase s = map lower_char s"

lemma of_char_hex_digit: "n < 16 \<Longrightarrow> of_char (hex_digit n) = (if n < 10 then n + 48 else n + 87 :: nat)"
  by (simp add: hex_digit_def)

lemma hex_value_digit [simp]: "n < 16 \<Longrightarrow> hex_value (hex_digit n) = Some n"
  by (simp add: hex_value_def of_char_hex_digit)

lemma hex_value_less: "hex_value c = Some n \<Longrightarrow> n < 16"
  by (auto simp: hex_value_def Let_def split: if_splits)

lemma char_eq_of_char: "(c = char_of n) \<longleftrightarrow> of_char c = n" if "n < 256" for n :: nat
  using that by (metis char_of_char of_char_of mod_less)

lemma hex_digit_value: "hex_value c = Some n \<Longrightarrow> hex_digit n = lower_char c"
  unfolding hex_value_def lower_char_def hex_digit_def Let_def
  by (auto split: if_splits simp: char_eq_of_char)

lemma hex_digit_mono: "m < 16 \<Longrightarrow> n < 16 \<Longrightarrow> hex_digit m < hex_digit n \<longleftrightarrow> m < n"
  by (auto simp: less_char_def of_char_hex_digit)

lemma hex_digit_inject: "m < 16 \<Longrightarrow> n < 16 \<Longrightarrow> hex_digit m = hex_digit n \<longleftrightarrow> m = n"
  by (metis hex_value_digit option.inject)

lemma lower_char_idem [simp]: "lower_char (lower_char c) = lower_char c"
  by (simp add: lower_char_def Let_def)

lemma toLowerCase_idem [simp]: "toLowerCase (toLowerCase s) = toLowerCase s"
  by (simp add: toLowerCase_def)

lemma toLowerCase_append [simp]: "toLowerCase (s @ t) = toLowerCase s @ toLowerCase t"
  by (simp add: toLowerCase_def)

lemma lower_hex_digit [simp]: "n < 16 \<Longrightarrow> lower_char (hex_digit n) = hex_digit n"
  by (simp add: lower_char_def Let_def of_char_hex_digit)

section \<open>Hex strings\<close>

text \<open>\<open>/^0x([0-9a-fA-F]{2})*$/\<close>\<close>

definition isHex :: "string \<Rightarrow> bool" where
  "isHex s \<longleftrightarrow> take 2 s = ''0x'' \<and> even (length s) \<and> list_all (\<lambda>c. hex_value c \<noteq> None) (drop 2 s)"

fun hex_pairs :: "string \<Rightarrow> bytes" where
  "hex_pairs (a # b # s) = word_of_nat (16 * the (hex_value a) + the (hex_value b)) # hex_pairs s"
| "hex_pairs _ = []"

definition hexToBytes :: "string \<Rightarrow> bytes result" where
  "hexToBytes s = (if \<not> isHex s then Inl (TypeError ''invalid 0x-prefixed hex'') else Inr (hex_pairs (drop 2 s)))"

definition hexToFixed :: "string \<Rightarrow> nat \<Rightarrow> bytes result" where
  "hexToFixed s len =
    ebind (hexToBytes s) (\<lambda>bs.
    if length bs \<noteq> len then Inl (TypeError ''field must be of fixed length'') else Inr bs)"

definition byte_hex :: "byte \<Rightarrow> string" where
  "byte_hex b = [hex_digit (unat b div 16), hex_digit (unat b mod 16)]"

definition bytesToHex :: "bytes \<Rightarrow> hex" where
  "bytesToHex bs = ''0x'' @ concat (map byte_hex bs)"

definition concatBytes :: "bytes list \<Rightarrow> bytes" where
  "concatBytes parts = concat parts"

definition equalBytes :: "bytes \<Rightarrow> bytes \<Rightarrow> bool" where
  "equalBytes a b \<longleftrightarrow> length a = length b \<and> list_all (\<lambda>(x, y). x = y) (zip a b)"

fun compareBytes :: "bytes \<Rightarrow> bytes \<Rightarrow> int" where
  "compareBytes (x # xs) (y # ys) = (if x \<noteq> y then uint x - uint y else compareBytes xs ys)"
| "compareBytes xs ys = int (length xs) - int (length ys)"

text \<open>\<open>BytesLike = Hex | Uint8Array\<close>\<close>

datatype bytes_like = HexStr hex | Raw bytes

fun toBytes :: "bytes_like \<Rightarrow> bytes result" where
  "toBytes (HexStr s) = hexToBytes s"
| "toBytes (Raw bs) = Inr bs"

section \<open>Round trips\<close>

lemma unat_byte_less [simp]: "unat (b :: byte) < 256"
  by (rule order_less_le_trans[OF unsigned_less]) simp

lemma unat_byte_div [simp]: "unat (b :: byte) div 16 < 16"
  using unat_byte_less[of b] by (simp add: less_mult_imp_div_less)

lemma hex_pairs_concat: "hex_pairs (concat (map byte_hex bs)) = bs"
proof (induction bs)
  case (Cons b bs)
  have "word_of_nat (16 * (unat b div 16) + unat b mod 16) = b"
    by (simp add: mult_div_mod_eq)
  with Cons show ?case by (simp add: byte_hex_def)
qed simp

lemma length_hex_body [simp]: "length (concat (map byte_hex bs)) = 2 * length bs"
  by (induction bs) (auto simp: byte_hex_def)

lemma hex_body_digits: "list_all (\<lambda>c. hex_value c \<noteq> None) (concat (map byte_hex bs))"
  by (induction bs) (auto simp: byte_hex_def)

lemma isHex_bytesToHex [simp]: "isHex (bytesToHex bs)"
  using hex_body_digits[of bs] by (simp add: isHex_def bytesToHex_def)

lemma hexToBytes_bytesToHex [simp]: "hexToBytes (bytesToHex bs) = Inr bs"
proof -
  have "drop 2 (bytesToHex bs) = concat (map byte_hex bs)"
    by (simp add: bytesToHex_def)
  then show ?thesis by (simp add: hexToBytes_def hex_pairs_concat)
qed

lemma bytesToHex_inject [simp]: "bytesToHex a = bytesToHex b \<longleftrightarrow> a = b"
  by (metis hexToBytes_bytesToHex sum.inject(2))

lemma hexToFixed_bytesToHex [simp]: "length bs = n \<Longrightarrow> hexToFixed (bytesToHex bs) n = Inr bs"
  by (simp add: hexToFixed_def)

lemma toBytes_simps [simp]: "toBytes (HexStr (bytesToHex bs)) = Inr bs"
  by simp

lemma hex_pairs_lower:
  "even (length s) \<Longrightarrow> list_all (\<lambda>c. hex_value c \<noteq> None) s \<Longrightarrow>
   concat (map byte_hex (hex_pairs s)) = toLowerCase s"
proof (induction s rule: hex_pairs.induct)
  case (1 a b s)
  then obtain m n where ab: "hex_value a = Some m" "hex_value b = Some n" by auto
  then have mn: "m < 16" "n < 16" by (auto dest: hex_value_less)
  have "16 * m + n < 256" using mn by simp
  then have "unat (word_of_nat (16 * m + n) :: byte) = 16 * m + n"
    by (simp only: unat_of_nat) simp
  then have "byte_hex (word_of_nat (16 * m + n)) = [hex_digit m, hex_digit n]"
    using mn by (simp add: byte_hex_def)
  with 1 ab show ?case
    by (simp add: toLowerCase_def hex_digit_value)
qed (auto simp: toLowerCase_def)

lemma bytesToHex_hexToBytes:
  assumes "hexToBytes s = Inr bs"
  shows "bytesToHex bs = toLowerCase s"
proof -
  from assms have h: "isHex s" and bs: "bs = hex_pairs (drop 2 s)"
    by (auto simp: hexToBytes_def split: if_splits)
  have "take 2 s @ drop 2 s = s" by simp
  then have s: "s = ''0x'' @ drop 2 s" using h by (metis isHex_def)
  have "length s = 2 + length (drop 2 s)" by (subst s) simp
  then have "even (length (drop 2 s))" using h by (simp add: isHex_def)
  then have "concat (map byte_hex bs) = toLowerCase (drop 2 s)"
    using h hex_pairs_lower unfolding bs isHex_def by blast
  moreover have "toLowerCase s = toLowerCase ''0x'' @ toLowerCase (drop 2 s)"
    by (subst s) (rule toLowerCase_append)
  moreover have "toLowerCase ''0x'' = ''0x''"
    by (simp add: toLowerCase_def lower_char_def Let_def)
  ultimately show ?thesis by (simp add: bytesToHex_def)
qed

lemma hexToBytes_same_iff:
  assumes "hexToBytes s = Inr a" and "hexToBytes t = Inr b"
  shows "a = b \<longleftrightarrow> toLowerCase s = toLowerCase t"
  using bytesToHex_hexToBytes[OF assms(1)] bytesToHex_hexToBytes[OF assms(2)] bytesToHex_inject
  by metis

lemma toLowerCase_bytesToHex [simp]: "toLowerCase (bytesToHex bs) = bytesToHex bs"
  using bytesToHex_hexToBytes[OF hexToBytes_bytesToHex] by simp

lemma hexToFixed_eq_Inr: "hexToFixed s n = Inr bs \<longleftrightarrow> hexToBytes s = Inr bs \<and> length bs = n"
  by (auto simp: hexToFixed_def ebind_eq_Inr)

lemma hexToFixed_toLowerCase: "hexToFixed s n = Inr bs \<Longrightarrow> hexToFixed (toLowerCase s) n = Inr bs"
  using bytesToHex_hexToBytes[of s bs] hexToBytes_bytesToHex[of bs] by (auto simp: hexToFixed_eq_Inr)

lemma isHex_iff: "isHex s \<longleftrightarrow> (\<exists>bs. hexToBytes s = Inr bs)"
  by (auto simp: hexToBytes_def split: if_splits)

lemma hexToBytes_toLowerCase:
  assumes "hexToBytes s = Inr bs"
  shows "hexToBytes (toLowerCase s) = Inr bs"
  using bytesToHex_hexToBytes[OF assms] hexToBytes_bytesToHex by metis

section \<open>Order\<close>

lemma equalBytes_iff [simp]: "equalBytes a b \<longleftrightarrow> a = b"
proof
  show "equalBytes a b \<Longrightarrow> a = b"
    by (auto simp: equalBytes_def list_eq_iff_zip_eq list_all_iff)
qed (auto simp: equalBytes_def list_all_iff zip_same)

lemma nil_less: "([] :: bytes) < ys \<longleftrightarrow> ys \<noteq> []"
  by (cases ys) auto

lemma compareBytes_neg: "compareBytes a b < 0 \<longleftrightarrow> a < b"
proof (induction a b rule: compareBytes.induct)
  case (1 x xs y ys)
  then show ?case by (auto simp: Cons_less_Cons word_less_def)
qed (auto simp: nil_less)

lemma compareBytes_zero: "compareBytes a b = 0 \<longleftrightarrow> a = b"
  by (induction a b rule: compareBytes.induct) (auto simp: word_uint_eq_iff)

lemma compareBytes_nonpos: "compareBytes a b \<le> 0 \<longleftrightarrow> a \<le> b"
  using compareBytes_neg[of a b] compareBytes_zero[of a b] by auto

lemma nat_less_div_mod: "m < n \<longleftrightarrow> m div 16 < n div 16 \<or> m div 16 = n div 16 \<and> m mod 16 < n mod 16"
  for m n :: nat
proof -
  have digits: "r < 16 \<Longrightarrow> s < 16 \<Longrightarrow> 16 * q + r < 16 * p + s \<longleftrightarrow> q < p \<or> q = p \<and> r < s"
    for q r p s :: nat by arith
  show ?thesis
    using digits[of "m mod 16" "n mod 16" "m div 16" "n div 16"] by simp
qed

lemma byte_hex_body_less:
  "concat (map byte_hex a) < concat (map byte_hex b) \<longleftrightarrow> a < b"
proof (induction a arbitrary: b)
  case Nil
  show ?case by (cases b) (auto simp: byte_hex_def)
next
  case (Cons x xs)
  show ?case
  proof (cases b)
    case (Cons y ys)
    let ?X = "concat (map byte_hex xs)" and ?Y = "concat (map byte_hex ys)"
    have eq: "x = y \<longleftrightarrow> unat x div 16 = unat y div 16 \<and> unat x mod 16 = unat y mod 16"
      by (metis mult_div_mod_eq word_unat_eq_iff)
    have "concat (map byte_hex (x # xs)) < concat (map byte_hex b) \<longleftrightarrow>
        unat x div 16 < unat y div 16 \<or>
        unat x div 16 = unat y div 16 \<and>
          (unat x mod 16 < unat y mod 16 \<or> unat x mod 16 = unat y mod 16 \<and> ?X < ?Y)"
      by (simp add: Cons byte_hex_def Cons_less_Cons hex_digit_mono hex_digit_inject)
    also have "\<dots> \<longleftrightarrow> unat x < unat y \<or> x = y \<and> xs < ys"
      unfolding Cons.IH nat_less_div_mod[of "unat x" "unat y"] eq by blast
    finally show ?thesis
      by (simp only: Cons Cons_less_Cons word_less_nat_alt)
  qed (auto simp: byte_hex_def)
qed

lemma bytesToHex_less: "bytesToHex a < bytesToHex b \<longleftrightarrow> a < b"
  by (simp add: bytesToHex_def Cons_less_Cons byte_hex_body_less)

lemma toLowerCase_less_iff:
  assumes "hexToBytes s = Inr a" and "hexToBytes t = Inr b"
  shows "toLowerCase s < toLowerCase t \<longleftrightarrow> a < b"
  using bytesToHex_less bytesToHex_hexToBytes[OF assms(1)] bytesToHex_hexToBytes[OF assms(2)]
  by metis

end
