(* ===== verification/Codec.thy ===== *)
theory Codec
  imports Bytes
begin

text \<open>
  The little-endian writer and reader of \<open>packages/sdk/src/internal/codec.ts\<close>. A \<open>Writer\<close> is the
  list of its parts; a chain of calls \<open>new Writer().u8(a).bytes(b)\<close> is the list of its steps, run
  from left to right, the first range error ending it. A \<open>Reader\<close> is a record of the data, the
  offset and the name it reports; a read returns the value and the moved reader.

  Lemmas: \<open>reads rd bs x\<close> says that \<open>rd\<close> consumes exactly \<open>bs\<close> and yields \<open>x\<close>, and composes along
  \<open>rbind\<close>; \<open>parses rd P\<close> is the converse, every successful read comes from bytes related to its
  value by \<open>P\<close>. The locale \<open>codec\<close> is the contract between a message format and the code that
  hashes and signs its encoding.
\<close>

named_theorems reads_intros \<open>what each reader consumes\<close>

section \<open>Writer\<close>

type_synonym writer = "bytes list"
type_synonym writing = "writer \<Rightarrow> writer result"

text \<open>\<open>size\<close> bytes of a non-negative number, least significant first.\<close>

fun le_bytes :: "nat \<Rightarrow> int \<Rightarrow> bytes" where
  "le_bytes 0 u = []"
| "le_bytes (Suc n) u = word_of_int (u mod 256) # le_bytes n (u div 256)"

lemma le_bytes_numeral:
  "le_bytes (numeral k) u = word_of_int (u mod 256) # le_bytes (pred_numeral k) (u div 256)"
  by (simp add: numeral_eq_Suc)

definition w_bytes :: "bytes \<Rightarrow> nat option \<Rightarrow> writing" where
  "w_bytes value len w =
    (case len of
       Some n \<Rightarrow> if length value \<noteq> n then Inl (RangeError ''expected bytes'') else Inr (w @ [value])
     | None \<Rightarrow> Inr (w @ [value]))"

definition w_int :: "int \<Rightarrow> nat \<Rightarrow> int \<Rightarrow> int \<Rightarrow> writing" where
  "w_int value sz lo hi w =
    (if value < lo \<or> value > hi then Inl (RangeError ''out of range'')
     else let u = (if value < 0 then value + 2 ^ (sz * 8) else value)
          in Inr (w @ [le_bytes sz u]))"

definition w_u8 :: "int \<Rightarrow> writing" where "w_u8 v = w_int v 1 0 0xff"
definition w_u16 :: "int \<Rightarrow> writing" where "w_u16 v = w_int v 2 0 0xffff"
definition w_u32 :: "int \<Rightarrow> writing" where "w_u32 v = w_int v 4 0 0xffffffff"
definition w_i32 :: "int \<Rightarrow> writing" where "w_i32 v = w_int v 4 (- (2 ^ 31)) (2 ^ 31 - 1)"
definition w_u64 :: "int \<Rightarrow> writing" where "w_u64 v = w_int v 8 0 (2 ^ 64 - 1)"
definition w_i64 :: "int \<Rightarrow> writing" where "w_i64 v = w_int v 8 (- (2 ^ 63)) (2 ^ 63 - 1)"

text \<open>\<open>.bytes(hexToFixed(s, n, ...))\<close>\<close>

definition w_hex :: "hex \<Rightarrow> nat \<Rightarrow> writing" where
  "w_hex s n w = ebind (hexToFixed s n) (\<lambda>bs. w_bytes bs None w)"

text \<open>\<open>.bytes(m)\<close> where computing \<open>m\<close> may throw, and \<open>if (!b) throw e\<close> before a write.\<close>

definition w_nested :: "bytes result \<Rightarrow> writing" where
  "w_nested m w = ebind m (\<lambda>bs. w_bytes bs None w)"

definition w_guard :: "bool \<Rightarrow> js_error \<Rightarrow> writing \<Rightarrow> writing" where
  "w_guard b e step w = (if b then step w else Inl e)"

definition w_run :: "writing list \<Rightarrow> writer \<Rightarrow> writer result" where
  "w_run steps w = efold (\<lambda>w step. step w) w steps"

definition w_finish :: "writer \<Rightarrow> bytes" where
  "w_finish w = concat w"

text \<open>\<open>new Writer()....finish()\<close>\<close>

definition run_writer :: "writing list \<Rightarrow> bytes result" where
  "run_writer steps = ebind (w_run steps []) (\<lambda>w. Inr (w_finish w))"

section \<open>Reader\<close>

record reader =
  rd_data :: bytes
  rd_offset :: nat
  rd_what :: string

type_synonym 'a reading = "reader \<Rightarrow> ('a \<times> reader) result"

definition reader_of :: "bytes \<Rightarrow> string \<Rightarrow> reader" where
  "reader_of data what = \<lparr>rd_data = data, rd_offset = 0, rd_what = what\<rparr>"

definition r_bytes :: "nat \<Rightarrow> bytes reading" where
  "r_bytes len r =
    (let e = rd_offset r + len in
     if e > length (rd_data r) then Inl (DecodeError (rd_what r @ '': truncated''))
     else Inr (take len (drop (rd_offset r) (rd_data r)), r\<lparr>rd_offset := e\<rparr>))"

text \<open>\<open>value = (value << 8n) | bytes[i]\<close> from the last byte to the first.\<close>

definition le_value :: "bytes \<Rightarrow> int" where
  "le_value bs = foldr (\<lambda>b v. v * 256 + uint b) bs 0"

definition r_uint :: "nat \<Rightarrow> int reading" where
  "r_uint sz r = ebind (r_bytes sz r) (\<lambda>(bs, r'). Inr (le_value bs, r'))"

text \<open>\<open>BigInt.asIntN(bits, x)\<close>\<close>

definition asIntN :: "nat \<Rightarrow> int \<Rightarrow> int" where
  "asIntN bits x = (x + 2 ^ (bits - 1)) mod 2 ^ bits - 2 ^ (bits - 1)"

definition r_u8 :: "int reading" where "r_u8 = r_uint 1"
definition r_u16 :: "int reading" where "r_u16 = r_uint 2"
definition r_u32 :: "int reading" where "r_u32 = r_uint 4"
definition r_i32 :: "int reading" where
  "r_i32 r = ebind (r_uint 4 r) (\<lambda>(v, r'). Inr (asIntN 32 v, r'))"
definition r_u64 :: "int reading" where "r_u64 = r_uint 8"
definition r_i64 :: "int reading" where
  "r_i64 r = ebind (r_uint 8 r) (\<lambda>(v, r'). Inr (asIntN 64 v, r'))"

definition r_remaining :: "reader \<Rightarrow> int" where
  "r_remaining r = int (length (rd_data r)) - int (rd_offset r)"

definition r_end :: "unit reading" where
  "r_end r =
    (if rd_offset r \<noteq> length (rd_data r) then Inl (DecodeError (rd_what r @ '': trailing bytes''))
     else Inr ((), r))"

text \<open>Sequencing, \<open>throw\<close>, and \<open>Array.from({ length: n }, () \<Rightarrow> ...)\<close>.\<close>

definition rbind :: "'a reading \<Rightarrow> ('a \<Rightarrow> 'b reading) \<Rightarrow> 'b reading" where
  "rbind rd f r = ebind (rd r) (\<lambda>(x, r'). f x r')"

definition rret :: "'a \<Rightarrow> 'a reading" where
  "rret x r = Inr (x, r)"

definition rcheck :: "bool \<Rightarrow> js_error \<Rightarrow> unit reading" where
  "rcheck b e r = (if b then Inr ((), r) else Inl e)"

definition rlift :: "'a result \<Rightarrow> 'a reading" where
  "rlift m r = ebind m (\<lambda>x. Inr (x, r))"

definition r_hex :: "nat \<Rightarrow> hex reading" where
  "r_hex n = rbind (r_bytes n) (\<lambda>bs. rret (bytesToHex bs))"

fun r_repeat :: "nat \<Rightarrow> 'a reading \<Rightarrow> 'a list reading" where
  "r_repeat 0 rd = rret []"
| "r_repeat (Suc n) rd = rbind rd (\<lambda>x. rbind (r_repeat n rd) (\<lambda>xs. rret (x # xs)))"

text \<open>Run a reader over a whole array, dropping the final reader.\<close>

definition run_reader :: "'a reading \<Rightarrow> bytes \<Rightarrow> string \<Rightarrow> 'a result" where
  "run_reader rd data what = ebind (rd (reader_of data what)) (\<lambda>(x, _). Inr x)"

section \<open>What a chain of writes produces\<close>

text \<open>\<open>emits step bs\<close>: the step succeeds and appends exactly the part \<open>bs\<close>.\<close>

definition emits :: "writing \<Rightarrow> bytes \<Rightarrow> bool" where
  "emits step bs \<longleftrightarrow> (\<forall>w. step w = Inr (w @ [bs]))"

lemma w_run_Cons: "w_run (s # ss) w = ebind (s w) (w_run ss)"
  by (cases "s w") (simp_all add: w_run_def)

lemma w_run_Nil [simp]: "w_run [] w = Inr w"
  by (simp add: w_run_def)

lemma w_run_append: "w_run (ss @ ts) w = ebind (w_run ss w) (w_run ts)"
  by (cases "efold (\<lambda>w step. step w) w ss") (simp_all add: w_run_def efold_append)

lemma w_run_emits: "list_all2 emits steps parts \<Longrightarrow> w_run steps w = Inr (w @ parts)"
  by (induction arbitrary: w rule: list_all2_induct) (auto simp: w_run_Cons emits_def)

lemma run_writer_emits: "list_all2 emits steps parts \<Longrightarrow> run_writer steps = Inr (concat parts)"
  by (simp add: run_writer_def w_run_emits w_finish_def)

lemma emits_bytes [simp]: "emits (w_bytes bs None) cs \<longleftrightarrow> cs = bs"
  by (auto simp: emits_def w_bytes_def)

definition int_bytes :: "nat \<Rightarrow> int \<Rightarrow> bytes" where
  "int_bytes sz v = le_bytes sz (v mod 2 ^ (sz * 8))"

lemma w_int_emits:
  assumes "lo \<le> v" "v \<le> hi" "- (2 ^ (sz * 8)) \<le> lo" "hi < 2 ^ (sz * 8)"
  shows "w_int v sz lo hi w = Inr (w @ [int_bytes sz v])"
proof -
  have "(if v < 0 then v + 2 ^ (sz * 8) else v) = v mod 2 ^ (sz * 8)"
  proof (cases "v < 0")
    case True
    then have "(v + 2 ^ (sz * 8)) mod 2 ^ (sz * 8) = v + 2 ^ (sz * 8)"
      using assms by (intro mod_pos_pos_trivial) auto
    then show ?thesis using True by simp
  next
    case False
    then show ?thesis using assms by (simp add: mod_pos_pos_trivial)
  qed
  with assms show ?thesis by (simp add: w_int_def int_bytes_def Let_def)
qed

lemma w_int_Inr_iff: "(\<exists>w'. w_int v sz lo hi w = Inr w') \<longleftrightarrow> lo \<le> v \<and> v \<le> hi"
  by (auto simp: w_int_def Let_def not_less)

text \<open>The ranges, once.\<close>

definition is_u8 :: "int \<Rightarrow> bool" where "is_u8 v \<longleftrightarrow> 0 \<le> v \<and> v < 2 ^ 8"
definition is_u16 :: "int \<Rightarrow> bool" where "is_u16 v \<longleftrightarrow> 0 \<le> v \<and> v < 2 ^ 16"
definition is_u32 :: "int \<Rightarrow> bool" where "is_u32 v \<longleftrightarrow> 0 \<le> v \<and> v < 2 ^ 32"
definition is_i32 :: "int \<Rightarrow> bool" where "is_i32 v \<longleftrightarrow> - (2 ^ 31) \<le> v \<and> v < 2 ^ 31"
definition is_u64 :: "int \<Rightarrow> bool" where "is_u64 v \<longleftrightarrow> 0 \<le> v \<and> v < 2 ^ 64"
definition is_i64 :: "int \<Rightarrow> bool" where "is_i64 v \<longleftrightarrow> - (2 ^ 63) \<le> v \<and> v < 2 ^ 63"

lemmas int_ranges = is_u8_def is_u16_def is_u32_def is_i32_def is_u64_def is_i64_def

lemma w_ints:
  "w_u8 v w = (if is_u8 v then Inr (w @ [int_bytes 1 v]) else Inl (RangeError ''out of range''))"
  "w_u16 v w = (if is_u16 v then Inr (w @ [int_bytes 2 v]) else Inl (RangeError ''out of range''))"
  "w_u32 v w = (if is_u32 v then Inr (w @ [int_bytes 4 v]) else Inl (RangeError ''out of range''))"
  "w_i32 v w = (if is_i32 v then Inr (w @ [int_bytes 4 v]) else Inl (RangeError ''out of range''))"
  "w_u64 v w = (if is_u64 v then Inr (w @ [int_bytes 8 v]) else Inl (RangeError ''out of range''))"
  "w_i64 v w = (if is_i64 v then Inr (w @ [int_bytes 8 v]) else Inl (RangeError ''out of range''))"
  by (auto simp: w_u8_def w_u16_def w_u32_def w_i32_def w_u64_def w_i64_def int_ranges w_int_emits)
     (auto simp: w_int_def)

lemma emits_ints [simp]:
  "emits (w_u8 v) bs \<longleftrightarrow> is_u8 v \<and> bs = int_bytes 1 v"
  "emits (w_u16 v) bs \<longleftrightarrow> is_u16 v \<and> bs = int_bytes 2 v"
  "emits (w_u32 v) bs \<longleftrightarrow> is_u32 v \<and> bs = int_bytes 4 v"
  "emits (w_i32 v) bs \<longleftrightarrow> is_i32 v \<and> bs = int_bytes 4 v"
  "emits (w_u64 v) bs \<longleftrightarrow> is_u64 v \<and> bs = int_bytes 8 v"
  "emits (w_i64 v) bs \<longleftrightarrow> is_i64 v \<and> bs = int_bytes 8 v"
  by (auto simp: emits_def w_ints)

lemma emits_hex [simp]: "emits (w_hex s n) bs \<longleftrightarrow> hexToFixed s n = Inr bs"
  by (cases "hexToFixed s n") (auto simp: emits_def w_hex_def w_bytes_def)

lemma emits_nested [simp]: "emits (w_nested m) bs \<longleftrightarrow> m = Inr bs"
  by (cases m) (auto simp: emits_def w_nested_def w_bytes_def)

lemma emits_guard [simp]: "emits (w_guard b e step) bs \<longleftrightarrow> b \<and> emits step bs"
  by (auto simp: emits_def w_guard_def)

text \<open>Every step of the codecs is one of these: it fails everywhere or emits a part.\<close>

definition uniform :: "writing \<Rightarrow> bool" where
  "uniform step \<longleftrightarrow> (\<exists>e. \<forall>w. step w = Inl e) \<or> (\<exists>bs. emits step bs)"

lemma uniform_steps [simp, intro]:
  "uniform (w_bytes bs None)" "uniform (w_hex s n)"
  "uniform (w_u8 v)" "uniform (w_u16 v)" "uniform (w_u32 v)" "uniform (w_i32 v)"
  "uniform (w_u64 v)" "uniform (w_i64 v)"
proof -
  show "uniform (w_hex s n)"
    by (cases "hexToFixed s n") (auto simp: uniform_def w_hex_def)
qed (auto simp: uniform_def w_ints)

lemma uniform_nested [simp, intro]: "uniform (w_nested m)"
  by (cases m) (auto simp: uniform_def w_nested_def)

lemma uniform_guard [simp, intro]: "uniform step \<Longrightarrow> uniform (w_guard b e step)"
  by (cases b) (auto simp: uniform_def w_guard_def emits_def)

lemma w_run_Inr:
  assumes "list_all uniform steps" and "w_run steps w = Inr w'"
  shows "\<exists>parts. list_all2 emits steps parts \<and> w' = w @ parts"
  using assms
proof (induction steps arbitrary: w)
  case (Cons s ss)
  from Cons.prems obtain bs where s: "emits s bs"
    by (cases "s w") (auto simp: uniform_def w_run_Cons)
  then have "w_run ss (w @ [bs]) = Inr w'"
    using Cons.prems by (simp add: w_run_Cons emits_def)
  moreover have "list_all uniform ss" using Cons.prems by simp
  ultimately obtain parts where "list_all2 emits ss parts" "w' = (w @ [bs]) @ parts"
    using Cons.IH[of "w @ [bs]"] by blast
  with s show ?case by (intro exI[of _ "bs # parts"]) simp
qed simp

lemma run_writer_Inr:
  assumes "list_all uniform steps" and "run_writer steps = Inr bs"
  shows "\<exists>parts. list_all2 emits steps parts \<and> bs = concat parts"
  using w_run_Inr[OF assms(1)] assms(2)
  by (fastforce simp: run_writer_def ebind_eq_Inr w_finish_def)

lemma run_writer_eq_Inr:
  "list_all uniform steps \<Longrightarrow>
   run_writer steps = Inr bs \<longleftrightarrow> (\<exists>parts. list_all2 emits steps parts \<and> bs = concat parts)"
  using run_writer_Inr run_writer_emits by blast

text \<open>The same, one step at a time: the rules that turn a successful encoding into its parts.\<close>

lemma run_writer_Nil [simp]: "run_writer [] = Inr []"
  by (simp add: run_writer_def w_finish_def)

lemma run_writer_Cons [simp]:
  assumes "uniform s" and "list_all uniform ss"
  shows "run_writer (s # ss) = Inr bs \<longleftrightarrow> (\<exists>a b. emits s a \<and> run_writer ss = Inr b \<and> bs = a @ b)"
  using assms by (fastforce simp: run_writer_eq_Inr list_all2_Cons1)

lemma run_writer_append:
  assumes "list_all uniform ss" and "list_all uniform ts"
  shows "run_writer (ss @ ts) = Inr bs \<longleftrightarrow>
    (\<exists>a b. run_writer ss = Inr a \<and> run_writer ts = Inr b \<and> bs = a @ b)"
proof -
  have u: "list_all uniform (ss @ ts)" using assms by simp
  have "(\<exists>p. list_all2 emits (ss @ ts) p \<and> bs = concat p) \<longleftrightarrow>
      (\<exists>p q. list_all2 emits ss p \<and> list_all2 emits ts q \<and> bs = concat p @ concat q)"
    (is "?L \<longleftrightarrow> ?R")
  proof
    assume ?L
    then obtain p q where "list_all2 emits ss p" "list_all2 emits ts q" "bs = concat (p @ q)"
      by (auto simp only: list_all2_append1)
    then show ?R by auto
  next
    assume ?R
    then obtain p q where "list_all2 emits ss p" "list_all2 emits ts q" "bs = concat p @ concat q"
      by blast
    then show ?L by (intro exI[of _ "p @ q"]) (simp add: list_all2_appendI)
  qed
  then show ?thesis
    unfolding run_writer_eq_Inr[OF u] run_writer_eq_Inr[OF assms(1)] run_writer_eq_Inr[OF assms(2)]
    by blast
qed

text \<open>A loop of writes over a list.\<close>

lemma run_writer_map:
  assumes "\<And>x. uniform (f x)"
  shows "run_writer (map f xs) = Inr bs \<longleftrightarrow> (\<exists>parts. list_all2 (\<lambda>x p. emits (f x) p) xs parts \<and> bs = concat parts)"
  using assms by (simp add: run_writer_eq_Inr list_all2_map1 list_all_iff)

lemma run_writer_concat:
  assumes "\<And>x. list_all uniform (f x)"
  shows "run_writer (concat (map f xs)) = Inr bs \<longleftrightarrow>
    (\<exists>parts. list_all2 (\<lambda>x p. run_writer (f x) = Inr p) xs parts \<and> bs = concat parts)"
proof (induction xs arbitrary: bs)
  case (Cons x xs)
  have "list_all uniform (concat (map f xs))" using assms by (auto simp: list_all_iff)
  with assms[of x] show ?case
    by (simp add: run_writer_append Cons.IH list_all2_Cons1) fastforce
qed auto

lemma uniform_concat: "(\<And>x. list_all uniform (f x)) \<Longrightarrow> list_all uniform (concat (map f xs))"
  by (auto simp: list_all_iff)

lemma length_le_bytes [simp]: "length (le_bytes n u) = n"
  by (induction n arbitrary: u) auto

lemma length_int_bytes [simp]: "length (int_bytes n v) = n"
  by (simp add: int_bytes_def)

section \<open>What a chain of reads consumes\<close>

definition rest :: "reader \<Rightarrow> bytes" where
  "rest r = drop (rd_offset r) (rd_data r)"

definition adv :: "nat \<Rightarrow> reader \<Rightarrow> reader" where
  "adv n r = r\<lparr>rd_offset := rd_offset r + n\<rparr>"

definition reads :: "'a reading \<Rightarrow> bytes \<Rightarrow> 'a \<Rightarrow> bool" where
  "reads rd bs x \<longleftrightarrow>
    (\<forall>r cs. rest r = bs @ cs \<and> rd_offset r \<le> length (rd_data r) \<longrightarrow> rd r = Inr (x, adv (length bs) r))"

definition parses :: "'a reading \<Rightarrow> (bytes \<Rightarrow> 'a \<Rightarrow> bool) \<Rightarrow> bool" where
  "parses rd P \<longleftrightarrow>
    (\<forall>r x r'. rd r = Inr (x, r') \<longrightarrow>
      (\<exists>bs. P bs x \<and> rest r = bs @ rest r' \<and> r' = adv (length bs) r))"

lemma rest_adv: "rest (adv n r) = drop n (rest r)"
  by (simp add: rest_def adv_def add.commute)

lemma adv_simps [simp]:
  "adv 0 r = r" "adv m (adv n r) = adv (n + m) r"
  "rd_data (adv n r) = rd_data r" "rd_what (adv n r) = rd_what r"
  "rd_offset (adv n r) = rd_offset r + n"
  by (simp_all add: adv_def add.assoc)

lemma rest_length: "rest r = bs @ cs \<Longrightarrow> rd_offset r \<le> length (rd_data r) \<Longrightarrow>
    rd_offset r + length bs \<le> length (rd_data r)"
  by (metis diff_add_inverse le_add1 le_diff_conv2 length_append length_drop rest_def add.commute)

lemma reads_bytes [reads_intros]:
  assumes n: "length bs = n"
  shows "reads (r_bytes n) bs bs"
  unfolding reads_def
proof (intro allI impI)
  fix r cs
  assume r: "rest r = bs @ cs \<and> rd_offset r \<le> length (rd_data r)"
  then have "rd_offset r + n \<le> length (rd_data r)" using n rest_length[of r bs cs] by simp
  moreover have "take n (drop (rd_offset r) (rd_data r)) = bs"
    using n r by (simp add: rest_def)
  ultimately show "r_bytes n r = Inr (bs, adv (length bs) r)"
    using n by (simp add: r_bytes_def Let_def adv_def)
qed

lemma parses_bytes: "parses (r_bytes n) (\<lambda>bs x. x = bs \<and> length bs = n)"
  unfolding parses_def
proof (intro allI impI)
  fix r x r'
  assume "r_bytes n r = Inr (x, r')"
  then have "rd_offset r + n \<le> length (rd_data r)" "x = take n (rest r)" "r' = adv n r"
    by (auto simp: r_bytes_def Let_def rest_def adv_def not_less split: if_splits)
  moreover from this have "length x = n" by (simp add: rest_def)
  ultimately show "\<exists>bs. (x = bs \<and> length bs = n) \<and> rest r = bs @ rest r' \<and> r' = adv (length bs) r"
    by (intro exI[of _ x]) (simp add: rest_adv)
qed

lemma reads_bind:
  assumes "reads rd bs x" and "reads (f x) cs y"
  shows "reads (rbind rd f) (bs @ cs) y"
  unfolding reads_def
proof (intro allI impI)
  fix r ds
  assume r: "rest r = (bs @ cs) @ ds \<and> rd_offset r \<le> length (rd_data r)"
  then have "rd r = Inr (x, adv (length bs) r)"
    using assms(1) by (auto simp: reads_def)
  moreover have "rd_offset r + length bs \<le> length (rd_data r)"
    using r rest_length[of r bs "cs @ ds"] by simp
  then have "f x (adv (length bs) r) = Inr (y, adv (length cs) (adv (length bs) r))"
    using assms(2) r by (auto simp: reads_def rest_adv)
  ultimately show "rbind rd f r = Inr (y, adv (length (bs @ cs)) r)"
    by (simp add: rbind_def)
qed

lemma reads_ret [reads_intros]: "x = y \<Longrightarrow> reads (rret x) [] y"
  by (simp add: reads_def rret_def)

lemma reads_check [reads_intros]: "b \<Longrightarrow> reads (rcheck b e) [] ()"
  by (simp add: reads_def rcheck_def)

lemma reads_check_then: "b \<Longrightarrow> reads (f ()) bs y \<Longrightarrow> reads (rbind (rcheck b e) f) bs y"
  using reads_bind[OF reads_check] by fastforce

lemma reads_lift: "m = Inr x \<Longrightarrow> reads (rlift m) [] x"
  by (simp add: reads_def rlift_def)

lemma reads_map:
  assumes "reads rd bs x" and "y = g x"
  shows "reads (rbind rd (\<lambda>x. rret (g x))) bs y"
  using reads_bind[where f = "\<lambda>x. rret (g x)", OF assms(1) reads_ret[OF assms(2)[symmetric]]] by simp

lemma reads_hex [reads_intros]: "length bs = n \<Longrightarrow> reads (r_hex n) bs (bytesToHex bs)"
  unfolding r_hex_def by (rule reads_map[OF reads_bytes]) auto

lemma reads_hexToFixed [reads_intros]: "hexToFixed s n = Inr p \<Longrightarrow> reads (r_hex n) p (toLowerCase s)"
  using reads_hex[of p n] bytesToHex_hexToBytes[of s p] by (auto simp: hexToFixed_eq_Inr)

lemma parses_bind:
  assumes "parses rd P" and "\<And>x. parses (f x) (Q x)"
  shows "parses (rbind rd f) (\<lambda>bs y. \<exists>b1 b2 x. bs = b1 @ b2 \<and> P b1 x \<and> Q x b2 y)"
  unfolding parses_def
proof (intro allI impI)
  fix r y r'
  assume "rbind rd f r = Inr (y, r')"
  then obtain x r1 where 1: "rd r = Inr (x, r1)" and 2: "f x r1 = Inr (y, r')"
    by (auto simp: rbind_def ebind_eq_Inr)
  from 1 assms(1) obtain b1 where b1: "P b1 x" "rest r = b1 @ rest r1" "r1 = adv (length b1) r"
    unfolding parses_def by blast
  from 2 assms(2) obtain b2 where b2: "Q x b2 y" "rest r1 = b2 @ rest r'" "r' = adv (length b2) r1"
    unfolding parses_def by blast
  show "\<exists>bs. (\<exists>b1 b2 x. bs = b1 @ b2 \<and> P b1 x \<and> Q x b2 y) \<and> rest r = bs @ rest r' \<and>
      r' = adv (length bs) r"
    using b1 b2 by (intro exI[of _ "b1 @ b2"]) auto
qed

lemma parses_mono: "parses rd P \<Longrightarrow> (\<And>bs x. P bs x \<Longrightarrow> Q bs x) \<Longrightarrow> parses rd Q"
  unfolding parses_def by meson

lemma parses_ret: "parses (rret x) (\<lambda>bs y. bs = [] \<and> y = x)"
  by (auto simp: parses_def rret_def)

lemma parses_check: "parses (rcheck b e) (\<lambda>bs _. bs = [] \<and> b)"
  by (auto simp: parses_def rcheck_def split: if_splits)

lemma parses_lift: "parses (rlift m) (\<lambda>bs x. bs = [] \<and> m = Inr x)"
  by (auto simp: parses_def rlift_def ebind_eq_Inr)

lemma parses_hex: "parses (r_hex n) (\<lambda>bs x. x = bytesToHex bs \<and> length bs = n)"
  unfolding r_hex_def
  by (rule parses_mono[OF parses_bind[OF parses_bytes parses_ret]]) auto

lemma parses_hexToFixed: "parses (r_hex n) (\<lambda>bs x. hexToFixed x n = Inr bs \<and> toLowerCase x = x)"
  by (rule parses_mono[OF parses_hex]) auto

text \<open>Integers.\<close>

lemma le_value_simps [simp]:
  "le_value [] = 0" "le_value (b # bs) = uint b + 256 * le_value bs"
  by (simp_all add: le_value_def)

lemma uint_byte_bounds [simp]: "0 \<le> uint (b :: byte)" "uint (b :: byte) < 256"
  using uint_bounded[of b] by simp_all

lemma le_value_bounds: "0 \<le> le_value bs \<and> le_value bs < 2 ^ (length bs * 8)"
proof (induction bs)
  case (Cons b bs)
  have "(2::int) ^ (length (b # bs) * 8) = 256 * 2 ^ (length bs * 8)"
    by (simp add: power_add)
  moreover have "uint b < 256" "0 \<le> uint b" by simp_all
  ultimately show ?case using Cons unfolding le_value_simps by linarith
qed simp

lemma le_value_le_bytes: "0 \<le> u \<Longrightarrow> u < 2 ^ (n * 8) \<Longrightarrow> le_value (le_bytes n u) = u"
proof (induction n arbitrary: u)
  case (Suc n)
  have "(2::int) ^ (Suc n * 8) = 256 * 2 ^ (n * 8)" by (simp add: power_add)
  then have "u div 256 < 2 ^ (n * 8)" using Suc.prems by linarith
  moreover have "uint (word_of_int (u mod 256) :: byte) = u mod 256"
    by (simp add: uint_word_of_int)
  ultimately show ?case using Suc by simp
qed simp

lemma le_bytes_le_value: "le_bytes (length bs) (le_value bs) = bs"
proof (induction bs)
  case (Cons b bs)
  have "(uint b + 256 * le_value bs) mod 256 = uint b" "(uint b + 256 * le_value bs) div 256 = le_value bs"
    using uint_byte_bounds[of b] by simp_all
  with Cons show ?case by simp
qed simp

lemma reads_uint: "0 \<le> v \<Longrightarrow> v < 2 ^ (n * 8) \<Longrightarrow> reads (r_uint n) (int_bytes n v) v"
  using reads_bytes[of "int_bytes n v" n]
  by (auto simp: reads_def r_uint_def int_bytes_def le_value_le_bytes)

lemma asIntN_mod: "- (2 ^ (n - 1)) \<le> v \<Longrightarrow> v < 2 ^ (n - 1) \<Longrightarrow> 0 < n \<Longrightarrow> asIntN n (v mod 2 ^ n) = v"
proof -
  assume v: "- (2 ^ (n - 1)) \<le> v" "v < 2 ^ (n - 1)" and "0 < n"
  then have "(2::int) ^ n = 2 * 2 ^ (n - 1)" by (metis power_minus_mult mult.commute)
  with v have "(v + 2 ^ (n - 1)) mod 2 ^ n = v + 2 ^ (n - 1)"
    by (intro mod_pos_pos_trivial) auto
  then show ?thesis by (simp add: asIntN_def mod_add_left_eq)
qed

lemma asIntN_range: "0 < n \<Longrightarrow> - (2 ^ (n - 1)) \<le> asIntN n u \<and> asIntN n u < 2 ^ (n - 1)"
proof -
  assume "0 < n"
  then have "(2::int) ^ n = 2 * 2 ^ (n - 1)" by (metis power_minus_mult mult.commute)
  moreover have "0 \<le> (u + 2 ^ (n - 1)) mod 2 ^ n" "(u + 2 ^ (n - 1)) mod 2 ^ n < 2 ^ n" by simp_all
  ultimately show ?thesis unfolding asIntN_def by linarith
qed

lemma mod_asIntN: "0 \<le> u \<Longrightarrow> u < 2 ^ n \<Longrightarrow> asIntN n u mod 2 ^ n = u"
proof -
  assume "0 \<le> u" "u < 2 ^ n"
  have "asIntN n u mod 2 ^ n = ((u + 2 ^ (n - 1)) - 2 ^ (n - 1)) mod 2 ^ n"
    unfolding asIntN_def by (rule mod_diff_left_eq)
  also have "\<dots> = u" using \<open>0 \<le> u\<close> \<open>u < 2 ^ n\<close> by simp
  finally show ?thesis .
qed

lemma reads_ints [reads_intros]:
  "is_u8 v \<Longrightarrow> reads r_u8 (int_bytes 1 v) v"
  "is_u16 v \<Longrightarrow> reads r_u16 (int_bytes 2 v) v"
  "is_u32 v \<Longrightarrow> reads r_u32 (int_bytes 4 v) v"
  "is_u64 v \<Longrightarrow> reads r_u64 (int_bytes 8 v) v"
  by (auto simp: r_u8_def r_u16_def r_u32_def r_u64_def int_ranges intro!: reads_uint)

lemma reads_signed [reads_intros]:
  "is_i32 v \<Longrightarrow> reads r_i32 (int_bytes 4 v) v"
  "is_i64 v \<Longrightarrow> reads r_i64 (int_bytes 8 v) v"
proof -
  have *: "int_bytes n (v mod 2 ^ (n * 8)) = int_bytes n v" for n
    by (simp add: int_bytes_def)
  show "reads r_i32 (int_bytes 4 v) v" if "is_i32 v"
    using reads_uint[of "v mod 2 ^ 32" 4] asIntN_mod[of 32 v] that *[of 4]
    by (auto simp: reads_def r_i32_def is_i32_def)
  show "reads r_i64 (int_bytes 8 v) v" if "is_i64 v"
    using reads_uint[of "v mod 2 ^ 64" 8] asIntN_mod[of 64 v] that *[of 8]
    by (auto simp: reads_def r_i64_def is_i64_def)
qed

lemma parses_uint: "parses (r_uint n) (\<lambda>bs x. bs = int_bytes n x \<and> 0 \<le> x \<and> x < 2 ^ (n * 8))"
  unfolding parses_def
proof (intro allI impI)
  fix r x r'
  assume "r_uint n r = Inr (x, r')"
  then obtain bs where bs: "r_bytes n r = Inr (bs, r')" "x = le_value bs"
    by (auto simp: r_uint_def ebind_eq_Inr)
  with parses_bytes[of n] have *: "length bs = n" "rest r = bs @ rest r'" "r' = adv (length bs) r"
    unfolding parses_def by blast+
  have "bs = int_bytes n x"
    using le_bytes_le_value[of bs] le_value_bounds[of bs] * bs by (simp add: int_bytes_def)
  moreover have "0 \<le> x \<and> x < 2 ^ (n * 8)"
    using le_value_bounds[of bs] *(1) bs(2) by simp
  ultimately show "\<exists>bs. (bs = int_bytes n x \<and> 0 \<le> x \<and> x < 2 ^ (n * 8)) \<and> rest r = bs @ rest r' \<and> r' = adv (length bs) r"
    using * by blast
qed

lemma parses_ints:
  "parses r_u8 (\<lambda>bs x. bs = int_bytes 1 x \<and> is_u8 x)"
  "parses r_u16 (\<lambda>bs x. bs = int_bytes 2 x \<and> is_u16 x)"
  "parses r_u32 (\<lambda>bs x. bs = int_bytes 4 x \<and> is_u32 x)"
  "parses r_u64 (\<lambda>bs x. bs = int_bytes 8 x \<and> is_u64 x)"
  unfolding r_u8_def r_u16_def r_u32_def r_u64_def
  by (rule parses_mono[OF parses_uint], simp add: int_ranges)+

lemma parses_asIntN:
  assumes "0 < n"
    and rd: "rd = (\<lambda>r. ebind (r_uint n r) (\<lambda>(v, r'). Inr (asIntN (n * 8) v, r')))"
  shows "parses rd (\<lambda>bs x. bs = int_bytes n x \<and> - (2 ^ (n * 8 - 1)) \<le> x \<and> x < 2 ^ (n * 8 - 1))"
  unfolding parses_def
proof (intro allI impI)
  fix r x r'
  assume "rd r = Inr (x, r')"
  then obtain v where v: "r_uint n r = Inr (v, r')" "x = asIntN (n * 8) v"
    by (auto simp: rd ebind_eq_Inr)
  with parses_uint[of n] obtain bs where
    bs: "bs = int_bytes n v" "0 \<le> v" "v < 2 ^ (n * 8)" "rest r = bs @ rest r'" "r' = adv (length bs) r"
    unfolding parses_def by blast
  have "bs = int_bytes n x"
    using bs(1-3) v(2) by (simp add: int_bytes_def mod_asIntN)
  moreover have "- (2 ^ (n * 8 - 1)) \<le> x \<and> x < 2 ^ (n * 8 - 1)"
    using asIntN_range[of "n * 8" v] assms(1) v(2) by simp
  ultimately show "\<exists>bs. (bs = int_bytes n x \<and> - (2 ^ (n * 8 - 1)) \<le> x \<and> x < 2 ^ (n * 8 - 1)) \<and>
      rest r = bs @ rest r' \<and> r' = adv (length bs) r"
    using bs(4,5) by blast
qed

lemma parses_signed:
  "parses r_i32 (\<lambda>bs x. bs = int_bytes 4 x \<and> is_i32 x)"
  "parses r_i64 (\<lambda>bs x. bs = int_bytes 8 x \<and> is_i64 x)"
proof -
  have "r_i32 = (\<lambda>r. ebind (r_uint 4 r) (\<lambda>(v, r'). Inr (asIntN (4 * 8) v, r')))"
    by (rule ext) (simp add: r_i32_def)
  from parses_asIntN[OF _ this] show "parses r_i32 (\<lambda>bs x. bs = int_bytes 4 x \<and> is_i32 x)"
    by (simp add: is_i32_def)
  have "r_i64 = (\<lambda>r. ebind (r_uint 8 r) (\<lambda>(v, r'). Inr (asIntN (8 * 8) v, r')))"
    by (rule ext) (simp add: r_i64_def)
  from parses_asIntN[OF _ this] show "parses r_i64 (\<lambda>bs x. bs = int_bytes 8 x \<and> is_i64 x)"
    by (simp add: is_i64_def)
qed

text \<open>Arrays.\<close>

lemma reads_repeat:
  assumes "list_all2 (\<lambda>bs x. reads rd bs x) parts xs" and "n = length xs"
  shows "reads (r_repeat n rd) (concat parts) xs"
  using assms
proof (induction arbitrary: n rule: list_all2_induct)
  case Nil
  then show ?case by (simp add: reads_ret)
next
  case (Cons bs parts x xs)
  then have "reads (r_repeat (length xs) rd) (concat parts) xs" by simp
  then have "reads (rbind (r_repeat (length xs) rd) (\<lambda>xs. rret (x # xs))) (concat parts) (x # xs)"
    by (rule reads_map) simp
  with Cons have "reads (r_repeat (Suc (length xs)) rd) (bs @ concat parts) (x # xs)"
    by (auto intro: reads_bind)
  with Cons.prems show ?case by simp
qed

lemma parses_repeat:
  assumes "parses rd P"
  shows "parses (r_repeat n rd) (\<lambda>bs xs. \<exists>parts. list_all2 P parts xs \<and> bs = concat parts \<and> length xs = n)"
proof (induction n)
  case 0
  show ?case by (simp, rule parses_mono[OF parses_ret]) auto
next
  case (Suc n)
  show ?case
    unfolding r_repeat.simps
  proof (rule parses_mono[OF parses_bind[OF assms parses_bind[OF Suc parses_ret]]], clarify)
    fix b1 b2 x b1a b2a xs parts
    assume "P b1 x" "list_all2 P parts xs"
    then show "\<exists>ps. list_all2 P ps (x # xs) \<and> b1 @ concat parts @ [] = concat ps \<and> length (x # xs) = Suc (length xs)"
      by (intro exI[of _ "b1 # parts"]) simp
  qed
qed

lemma reads_hex_list:
  assumes "list_all2 (\<lambda>s p. hexToFixed s n = Inr p) ss parts" and "m = length ss"
  shows "reads (r_repeat m (r_hex n)) (concat parts) (map toLowerCase ss)"
proof (rule reads_repeat)
  show "list_all2 (reads (r_hex n)) parts (map toLowerCase ss)"
    using assms(1) by (auto simp: list_all2_conv_all_nth reads_hexToFixed)
qed (simp add: assms(2))

lemma parses_hex_list:
  "parses (r_repeat m (r_hex n)) (\<lambda>bs ss. \<exists>parts. list_all2 (\<lambda>s p. hexToFixed s n = Inr p) ss parts \<and>
     bs = concat parts \<and> length ss = m \<and> map toLowerCase ss = ss)"
proof (rule parses_mono[OF parses_repeat[OF parses_hexToFixed]], clarify)
  fix parts ss
  assume *: "list_all2 (\<lambda>p s. hexToFixed s n = Inr p \<and> toLowerCase s = s) parts ss"
  then have "map toLowerCase ss = ss"
    by (intro nth_equalityI) (auto simp: list_all2_conv_all_nth)
  with * show "\<exists>ps. list_all2 (\<lambda>s p. hexToFixed s n = Inr p) ss ps \<and> concat parts = concat ps \<and>
      length ss = length ss \<and> map toLowerCase ss = ss"
    by (intro exI[of _ parts]) (auto simp: list_all2_conv_all_nth)
qed

text \<open>One step of a chain of reads: \<open>intro reads_then\<close> walks a whole reader.\<close>

named_theorems reads_then \<open>one step of a chain of reads\<close>

lemma reads_steps [reads_then]:
  "length bs = n \<Longrightarrow> reads (f bs) cs y \<Longrightarrow> reads (rbind (r_bytes n) f) (bs @ cs) y"
  "hexToFixed s n = Inr p \<Longrightarrow> reads (g (toLowerCase s)) cs y \<Longrightarrow> reads (rbind (r_hex n) g) (p @ cs) y"
  "is_u8 v \<Longrightarrow> reads (h v) cs y \<Longrightarrow> reads (rbind r_u8 h) (int_bytes 1 v @ cs) y"
  "is_u16 v \<Longrightarrow> reads (h v) cs y \<Longrightarrow> reads (rbind r_u16 h) (int_bytes 2 v @ cs) y"
  "is_u32 v \<Longrightarrow> reads (h v) cs y \<Longrightarrow> reads (rbind r_u32 h) (int_bytes 4 v @ cs) y"
  "is_i32 v \<Longrightarrow> reads (h v) cs y \<Longrightarrow> reads (rbind r_i32 h) (int_bytes 4 v @ cs) y"
  "is_u64 v \<Longrightarrow> reads (h v) cs y \<Longrightarrow> reads (rbind r_u64 h) (int_bytes 8 v @ cs) y"
  "is_i64 v \<Longrightarrow> reads (h v) cs y \<Longrightarrow> reads (rbind r_i64 h) (int_bytes 8 v @ cs) y"
  "list_all2 (\<lambda>s p. hexToFixed s n = Inr p) ss parts \<Longrightarrow> m = length ss \<Longrightarrow>
    reads (k (map toLowerCase ss)) cs y \<Longrightarrow> reads (rbind (r_repeat m (r_hex n)) k) (concat parts @ cs) y"
  "b \<Longrightarrow> reads (u ()) cs y \<Longrightarrow> reads (rbind (rcheck b e) u) cs y"
  "m' = Inr x \<Longrightarrow> reads (l x) cs y \<Longrightarrow> reads (rbind (rlift m') l) cs y"
  "z = y \<Longrightarrow> reads (rret z) [] y"
  using reads_bind[OF reads_lift, of m' x l cs y]
  by (auto intro!: reads_bind intro: reads_intros reads_hex_list reads_check_then simp del: One_nat_def)

text \<open>Whole arrays.\<close>

lemma reads_end: "reads rd bs x \<Longrightarrow> run_reader (rbind rd (\<lambda>x. rbind r_end (\<lambda>_. rret x))) bs what = Inr x"
proof -
  assume "reads rd bs x"
  then have "rd (reader_of bs what) = Inr (x, adv (length bs) (reader_of bs what))"
    by (auto simp: reads_def rest_def reader_of_def)
  then show ?thesis
    by (simp add: run_reader_def rbind_def r_end_def rret_def reader_of_def)
qed

lemma reads_run: "reads rd bs x \<Longrightarrow> run_reader rd bs what = Inr x"
  by (auto simp: reads_def rest_def reader_of_def run_reader_def)

lemma parses_run:
  assumes "parses rd P" and "run_reader rd bs what = Inr x"
  shows "\<exists>b1 b2. bs = b1 @ b2 \<and> P b1 x"
proof -
  from assms(2) obtain r' where "rd (reader_of bs what) = Inr (x, r')"
    by (auto simp: run_reader_def ebind_eq_Inr)
  with assms(1) show ?thesis
    unfolding parses_def by (fastforce simp: rest_def reader_of_def)
qed

lemma reader_of_simps [simp]:
  "rd_offset (reader_of data what) = 0" "rd_data (reader_of data what) = data"
  by (simp_all add: reader_of_def)

text \<open>A message at the start of a longer array.\<close>

lemma reads_prefix: "reads rd bs x \<Longrightarrow> rd (reader_of (bs @ cs) what) = Inr (x, adv (length bs) (reader_of (bs @ cs) what))"
  by (simp add: reads_def rest_def reader_of_def)

lemma parses_prefix:
  assumes "parses rd P" and "rd (reader_of data what) = Inr (x, r')"
  shows "\<exists>bs cs. data = bs @ cs \<and> P bs x \<and> rd_offset r' = length bs"
proof -
  from assms obtain bs where "P bs x" "rest (reader_of data what) = bs @ rest r'"
      "r' = adv (length bs) (reader_of data what)"
    unfolding parses_def by blast
  then show ?thesis by (auto simp: rest_def reader_of_def)
qed

lemma parses_run_end:
  assumes "parses rd P" and "run_reader (rbind rd (\<lambda>x. rbind r_end (\<lambda>_. rret x))) bs what = Inr x"
  shows "P bs x"
proof -
  from assms(2) obtain r' where r': "rd (reader_of bs what) = Inr (x, r')"
      and off: "rd_offset r' = length (rd_data r')"
    by (auto simp: run_reader_def rbind_def r_end_def rret_def ebind_eq_Inr split: if_splits)
  then obtain b1 where "P b1 x" "rest (reader_of bs what) = b1 @ rest r'"
    using assms(1) unfolding parses_def by blast
  moreover have "rest r' = []" using off by (simp add: rest_def)
  ultimately show ?thesis by (simp add: rest_def reader_of_def)
qed

section \<open>The contract of a message format\<close>

text \<open>
  What the code that hashes, signs and relays messages relies on. \<open>norm\<close> is what a round trip
  does to a message: it lower-cases its hex fields, and nothing else.
\<close>

locale codec =
  fixes enc :: "'a \<Rightarrow> bytes result"
    and dec :: "bytes \<Rightarrow> 'a result"
    and norm :: "'a \<Rightarrow> 'a"
    and ok :: "'a \<Rightarrow> bool"
  assumes dec_enc: "ok x \<Longrightarrow> enc x = Inr bs \<Longrightarrow> dec bs = Inr (norm x)"
    and enc_dec: "dec bs = Inr x \<Longrightarrow> enc x = Inr bs"
    and dec_ok: "dec bs = Inr x \<Longrightarrow> ok x"
begin

lemma enc_inj: "ok x \<Longrightarrow> ok y \<Longrightarrow> enc x = Inr bs \<Longrightarrow> enc y = Inr bs \<Longrightarrow> norm x = norm y"
  using dec_enc[of x bs] dec_enc[of y bs] by simp

lemma enc_norm: "ok x \<Longrightarrow> enc x = Inr bs \<Longrightarrow> enc (norm x) = Inr bs"
  using dec_enc[of x bs] enc_dec[of bs "norm x"] by simp

lemma dec_inj: "dec bs = Inr x \<Longrightarrow> dec cs = Inr x \<Longrightarrow> bs = cs"
  using enc_dec[of bs x] enc_dec[of cs x] by simp

lemma dec_norm: "dec bs = Inr x \<Longrightarrow> norm x = x"
  using dec_enc[of x bs] enc_dec[of bs x] dec_ok[of bs x] by simp

lemma dec_iff: "dec bs = Inr x \<longleftrightarrow> ok x \<and> enc x = Inr bs \<and> norm x = x"
proof
  assume "ok x \<and> enc x = Inr bs \<and> norm x = x"
  then show "dec bs = Inr x" using dec_enc[of x bs] by simp
qed (auto intro: enc_dec dec_ok dec_norm)

text \<open>A digest determines the message, as long as the hash does not confuse the two encodings.\<close>

lemma digest_binds:
  assumes "ok x" "ok y" "enc x = Inr bs" "enc y = Inr cs"
    and "inj_on h {d @ bs, d @ cs}" and "h (d @ bs) = h (d @ cs)"
  shows "norm x = norm y"
proof -
  have "d @ bs = d @ cs" by (rule inj_onD[OF assms(5,6)]) simp_all
  then have "cs = bs" by simp
  with assms(4) have "enc y = Inr bs" by simp
  with assms(1-3) show ?thesis by (rule enc_inj)
qed

end

end
