(* ===== verification/Hashing.thy ===== *)
theory Hashing
  imports Codec
begin

text \<open>
  \<open>packages/sdk/src/protocol/hash.ts\<close>: domain-separated hashing. The hash function and the curve
  come from \<open>@noble/hashes\<close> and \<open>@noble/curves\<close>, which are not part of the repository: they are
  the fields of the record \<open>crypto\<close>, an argument of every definition that uses them.

  \<^item> \<open>blake2b\<close> stands for \<open>blake2b(data, { dkLen: 32, personalization: "ckb-default-hash" })\<close>;
  \<^item> \<open>sec_fromCompact raw\<close> says that \<open>secp256k1.Signature.fromCompact\<close> accepts the 64 bytes;
  \<^item> \<open>sec_hasHighS raw\<close> is \<open>hasHighS()\<close> of the parsed signature;
  \<^item> \<open>sec_recover raw recid digest\<close> is \<open>recoverPublicKey(digest).toRawBytes(true)\<close>, \<open>None\<close> where it
    throws.
\<close>

record crypto =
  blake2b :: "bytes \<Rightarrow> bytes"
  sec_fromCompact :: "bytes \<Rightarrow> bool"
  sec_hasHighS :: "bytes \<Rightarrow> bool"
  sec_recover :: "bytes \<Rightarrow> nat \<Rightarrow> bytes \<Rightarrow> bytes option"

text \<open>\<open>new TextEncoder().encode(s)\<close>; the texts of the program are ASCII, one byte per character.\<close>

definition text_bytes :: "string \<Rightarrow> bytes" where
  "text_bytes s = map (\<lambda>c. word_of_nat (of_char c)) s"

lemma length_text_bytes [simp]: "length (text_bytes s) = length s"
  by (simp add: text_bytes_def)

definition DOMAIN_SET_STATE :: bytes where "DOMAIN_SET_STATE = text_bytes ''LEAN/PUBLISHER_SET_STATE/V2''"
definition DOMAIN_SET_UPDATE :: bytes where "DOMAIN_SET_UPDATE = text_bytes ''LEAN/PUBLISHER_SET_UPDATE/V2''"
definition DOMAIN_SET_POP :: bytes where "DOMAIN_SET_POP = text_bytes ''LEAN/PUBLISHER_SET_POP/V2''"
definition DOMAIN_FEED :: bytes where "DOMAIN_FEED = text_bytes ''LEAN/FEED/V1''"
definition DOMAIN_PRICE_UPDATE :: bytes where "DOMAIN_PRICE_UPDATE = text_bytes ''LEAN/PRICE_UPDATE/V1''"
definition DOMAIN_PRICE_LEAF :: bytes where "DOMAIN_PRICE_LEAF = text_bytes ''LEAN/PRICE_LEAF/V1''"
definition DOMAIN_PRICE_NODE :: bytes where "DOMAIN_PRICE_NODE = text_bytes ''LEAN/PRICE_NODE/V1''"
definition DOMAIN_OBSERVATION :: bytes where "DOMAIN_OBSERVATION = text_bytes ''LEAN/OBSERVATION/V1''"
definition DOMAIN_COMMITTEE_CONFIG :: bytes where "DOMAIN_COMMITTEE_CONFIG = text_bytes ''LEAN/COMMITTEE_CONFIG/V1''"
definition DOMAIN_LEADER_ORDER :: bytes where "DOMAIN_LEADER_ORDER = text_bytes ''LEAN/LEADER_ORDER/V1''"
definition DOMAIN_PEER_HELLO :: bytes where "DOMAIN_PEER_HELLO = text_bytes ''LEAN/PEER_HELLO/V1''"

definition ckbHash :: "crypto \<Rightarrow> bytes list \<Rightarrow> bytes" where
  "ckbHash C parts = blake2b C (concatBytes parts)"

definition feedId :: "crypto \<Rightarrow> string \<Rightarrow> hex" where
  "feedId C symbol = bytesToHex (ckbHash C [DOMAIN_FEED, text_bytes symbol])"

text \<open>\<open>setBigUint64(0, i, true)\<close> keeps the low 64 bits.\<close>

definition typeIdSeed :: "crypto \<Rightarrow> bytes_like \<Rightarrow> int \<Rightarrow> hex result" where
  "typeIdSeed C firstInput outputIndex =
    ebind (toBytes firstInput) (\<lambda>input.
    Inr (bytesToHex (ckbHash C [input, le_bytes 8 (outputIndex mod 2 ^ 64)])))"

section \<open>Protocol constants\<close>

text \<open>\<open>packages/sdk/src/protocol/constants.ts\<close>.\<close>

named_theorems protocol_constants \<open>the values of the protocol constants\<close>

definition MAX_PUBLISHERS :: int where [protocol_constants]: "MAX_PUBLISHERS = 9"
definition GOVERNANCE_PAUSED :: int where [protocol_constants]: "GOVERNANCE_PAUSED = 2"
definition MAX_UNTIL_AHEAD_MS :: int where [protocol_constants]: "MAX_UNTIL_AHEAD_MS = 3600000"
definition OP_ROTATE :: int where [protocol_constants]: "OP_ROTATE = 1"
definition OP_ROTATE_REVOKE :: int where [protocol_constants]: "OP_ROTATE_REVOKE = 2"
definition OP_PAUSE :: int where [protocol_constants]: "OP_PAUSE = 3"
definition OP_UNPAUSE :: int where [protocol_constants]: "OP_UNPAUSE = 4"
definition OP_REVOKE_PREVIOUS :: int where [protocol_constants]: "OP_REVOKE_PREVIOUS = 5"
definition SINCE_RELATIVE_TIMESTAMP :: int where
  [protocol_constants]: "SINCE_RELATIVE_TIMESTAMP = 0xc000000000000000"
definition SINCE_VALUE_MASK :: int where [protocol_constants]: "SINCE_VALUE_MASK = 0x00ffffffffffffff"
definition PUBLISHER_SET_MAGIC :: string where [protocol_constants]: "PUBLISHER_SET_MAGIC = ''PSET''"
definition PUBLISHER_SET_VERSION :: int where [protocol_constants]: "PUBLISHER_SET_VERSION = 2"
definition PRICE_UPDATE_MAGIC :: string where [protocol_constants]: "PRICE_UPDATE_MAGIC = ''LOPU''"
definition PRICE_UPDATE_VERSION :: int where [protocol_constants]: "PRICE_UPDATE_VERSION = 1"
definition HEADER_LEN :: nat where [protocol_constants]: "HEADER_LEN = 119"
definition MESSAGE_LEN :: nat where [protocol_constants]: "MESSAGE_LEN = 86"
definition MESSAGE_TYPE_PRICE :: int where [protocol_constants]: "MESSAGE_TYPE_PRICE = 0"
definition PRICE_FEED_LEN :: nat where [protocol_constants]: "PRICE_FEED_LEN = 129"
definition SIGNATURE_LEN :: nat where [protocol_constants]: "SIGNATURE_LEN = 65"
definition MAX_PROOF_LEN :: nat where [protocol_constants]: "MAX_PROOF_LEN = 16"
definition OBSERVATION_MAGIC :: string where [protocol_constants]: "OBSERVATION_MAGIC = ''LOOB''"
definition OBSERVATION_VERSION :: int where [protocol_constants]: "OBSERVATION_VERSION = 1"
definition OBSERVATION_HEADER_LEN :: nat where [protocol_constants]: "OBSERVATION_HEADER_LEN = 83"
definition OBSERVATION_ENTRY_LEN :: nat where [protocol_constants]: "OBSERVATION_ENTRY_LEN = 56"

text \<open>A hash of 32 bytes, as \<open>dkLen: 32\<close> asks for.\<close>

definition hash32 :: "crypto \<Rightarrow> bool" where
  "hash32 C \<longleftrightarrow> (\<forall>bs. length (blake2b C bs) = 32)"

lemma length_ckbHash [simp]: "hash32 C \<Longrightarrow> length (ckbHash C parts) = 32"
  by (simp add: hash32_def ckbHash_def)

lemma text_bytes_eq [simp]: "text_bytes s = text_bytes t \<longleftrightarrow> s = t"
proof
  assume "text_bytes s = text_bytes t"
  then have "map unat (text_bytes s) = map unat (text_bytes t)" by simp
  moreover have "map unat (text_bytes u) = map of_char u" for u
    by (simp add: text_bytes_def unat_of_nat)
  ultimately have "map (of_char :: char \<Rightarrow> nat) s = map of_char t" by simp
  then show "s = t" by (rule map_injective) (simp add: inj_def)
qed simp

text \<open>A concrete stand-in for the library, for the witnesses: the hash sums the bytes with
  position-dependent weights, and a signature is its signer's key, padded.\<close>

definition demo_hash :: "bytes \<Rightarrow> bytes" where
  "demo_hash bs = le_bytes 32 (foldl (\<lambda>h b. (h * 257 + uint b + 1) mod 2 ^ 61) 7 bs)"

definition demo_crypto :: crypto where
  "demo_crypto = \<lparr>blake2b = demo_hash, sec_fromCompact = (\<lambda>raw. True),
     sec_hasHighS = (\<lambda>raw. False), sec_recover = (\<lambda>raw recid digest. Some (take 33 raw))\<rparr>"

lemma blake_demo: "blake2b demo_crypto = demo_hash"
  by (simp add: demo_crypto_def)

lemma demo_hash32 [simp]: "hash32 demo_crypto"
  by (simp add: hash32_def demo_crypto_def demo_hash_def)

end
