(* ===== verification/Merkle.thy ===== *)
theory Merkle
  imports Hashing
begin

unbundle bit_operations_syntax

text \<open>
  \<open>packages/sdk/src/protocol/merkle.ts\<close>: the sorted-pair Merkle tree over price leaves, an odd node
  promoted unchanged. The definitions follow the code on hex strings; \<open>level_up\<close>, \<open>tree_root\<close>
  and \<open>tree_path\<close> are the same tree over any type of nodes, the abstract specification the code
  refines. The locales \<open>sorted_pair_tree\<close> and \<open>sealed_tree\<close> hold the two facts the protocol rests
  on: the path of a leaf leads to the root, and only leaves have such a path.
\<close>

section \<open>The code\<close>

definition leafHash :: "crypto \<Rightarrow> bytes_like \<Rightarrow> hex result" where
  "leafHash C messageBytes =
    ebind (toBytes messageBytes) (\<lambda>m. Inr (bytesToHex (ckbHash C [DOMAIN_PRICE_LEAF, m])))"

definition nodeHash :: "crypto \<Rightarrow> bytes_like \<Rightarrow> bytes_like \<Rightarrow> hex result" where
  "nodeHash C a b =
    ebind (toBytes a) (\<lambda>x.
    ebind (toBytes b) (\<lambda>y.
    let (lo, hi) = (if compareBytes x y \<le> 0 then (x, y) else (y, x))
    in Inr (bytesToHex (ckbHash C [DOMAIN_PRICE_NODE, lo, hi]))))"

fun nextLevel :: "crypto \<Rightarrow> hex list \<Rightarrow> hex list result" where
  "nextLevel C (a # b # level) =
    ebind (nodeHash C (HexStr a) (HexStr b)) (\<lambda>h.
    ebind (nextLevel C level) (\<lambda>out. Inr (h # out)))"
| "nextLevel C [a] = Inr [a]"
| "nextLevel C [] = Inr []"

lemma nextLevel_length: "nextLevel C level = Inr out \<Longrightarrow> length out = (length level + 1) div 2"
  by (induction C level arbitrary: out rule: nextLevel.induct) (auto simp: ebind_eq_Inr)

text \<open>The loop \<open>while (level.length > 1) level = nextLevel(level)\<close>.\<close>

function root_loop :: "crypto \<Rightarrow> hex list \<Rightarrow> hex list result" where
  "root_loop C level =
    (if 1 < length level then ebind (nextLevel C level) (\<lambda>level'. root_loop C level') else Inr level)"
  by pat_completeness auto
termination
  by (relation "measure (\<lambda>(C, level). length level)") (auto dest: nextLevel_length)

declare root_loop.simps [simp del]

definition merkleRoot :: "crypto \<Rightarrow> hex list \<Rightarrow> hex result" where
  "merkleRoot C leaves =
    (if length leaves = 0 then Inl (RangeError ''merkleRoot: no leaves'')
     else ebind (root_loop C leaves) (\<lambda>level. Inr (level ! 0)))"

function proof_loop :: "crypto \<Rightarrow> hex list \<Rightarrow> nat \<Rightarrow> hex list \<Rightarrow> hex list result" where
  "proof_loop C level index proof =
    (if 1 < length level then
       (let sibling = index XOR 1;
            proof' = (if sibling < length level then proof @ [level ! sibling] else proof)
        in ebind (nextLevel C level) (\<lambda>level'. proof_loop C level' (index div 2) proof'))
     else Inr proof)"
  by pat_completeness auto
termination
  by (relation "measure (\<lambda>(C, level, index, proof). length level)") (auto dest: nextLevel_length)

declare proof_loop.simps [simp del]

definition merkleProof :: "crypto \<Rightarrow> hex list \<Rightarrow> int \<Rightarrow> hex list result" where
  "merkleProof C leaves index =
    (if index < 0 \<or> index \<ge> int (length leaves) then Inl (RangeError ''merkleProof: index out of range'')
     else proof_loop C leaves (nat index) [])"

definition verifyProof :: "crypto \<Rightarrow> bytes_like \<Rightarrow> bytes_like \<Rightarrow> bytes_like list \<Rightarrow> bool result" where
  "verifyProof C root leaf proof =
    ebind (toBytes leaf) (\<lambda>l.
    ebind (efold (\<lambda>node sibling. nodeHash C (HexStr node) sibling) (bytesToHex l) proof) (\<lambda>current.
    ebind (toBytes root) (\<lambda>r. Inr (current = bytesToHex r))))"

section \<open>The tree it builds\<close>

fun level_up :: "('h \<Rightarrow> 'h \<Rightarrow> 'h) \<Rightarrow> 'h list \<Rightarrow> 'h list" where
  "level_up nd (a # b # level) = nd a b # level_up nd level"
| "level_up nd level = level"

lemma level_up_length [simp]: "length (level_up nd level) = (length level + 1) div 2"
  by (induction nd level rule: level_up.induct) auto

function tree_root :: "('h \<Rightarrow> 'h \<Rightarrow> 'h) \<Rightarrow> 'h list \<Rightarrow> 'h" where
  "tree_root nd level = (if 1 < length level then tree_root nd (level_up nd level) else hd level)"
  by pat_completeness auto
termination
  by (relation "measure (\<lambda>(nd, level). length level)") auto

function tree_path :: "('h \<Rightarrow> 'h \<Rightarrow> 'h) \<Rightarrow> 'h list \<Rightarrow> nat \<Rightarrow> 'h list" where
  "tree_path nd level i =
    (if 1 < length level then
       (if i XOR 1 < length level then [level ! (i XOR 1)] else []) @ tree_path nd (level_up nd level) (i div 2)
     else [])"
  by pat_completeness auto
termination
  by (relation "measure (\<lambda>(nd, level, i). length level)") auto

text \<open>The pairs whose hash the tree contains.\<close>

fun level_pairs :: "'h list \<Rightarrow> ('h \<times> 'h) list" where
  "level_pairs (a # b # level) = (a, b) # level_pairs level"
| "level_pairs level = []"

function tree_pairs :: "('h \<Rightarrow> 'h \<Rightarrow> 'h) \<Rightarrow> 'h list \<Rightarrow> ('h \<times> 'h) list" where
  "tree_pairs nd level =
    (if 1 < length level then level_pairs level @ tree_pairs nd (level_up nd level) else [])"
  by pat_completeness auto
termination
  by (relation "measure (\<lambda>(nd, level). length level)") auto

text \<open>The pairs hashed while checking a path.\<close>

fun path_pairs :: "('h \<Rightarrow> 'h \<Rightarrow> 'h) \<Rightarrow> 'h \<Rightarrow> 'h list \<Rightarrow> ('h \<times> 'h) list" where
  "path_pairs nd x [] = []"
| "path_pairs nd x (p # ps) = (x, p) # path_pairs nd (nd x p) ps"

declare tree_root.simps [simp del] tree_path.simps [simp del] tree_pairs.simps [simp del]

lemma xor_one: "i XOR 1 = (if even i then i + 1 else i - 1)" for i :: nat
  using xor_Suc_0_eq[of i] by (cases "even i") simp_all

lemmas xor_Suc_0_if = xor_one[unfolded One_nat_def]

lemma level_up_nth:
  assumes "i < length level"
  shows "level_up nd level ! (i div 2) =
    (if even i then (if i + 1 < length level then nd (level ! i) (level ! (i + 1)) else level ! i)
     else nd (level ! (i - 1)) (level ! i))"
  using assms
proof (induction nd level arbitrary: i rule: level_up.induct)
  case (1 nd a b level)
  consider "i = 0" | "i = 1" | j where "i = Suc (Suc j)" by (metis One_nat_def not0_implies_Suc)
  then show ?case
  proof cases
    case 3
    then have "0 < j" if "odd j" using that by (auto elim: oddE)
    with 1 3 show ?thesis by (auto simp: nth_Cons split: nat.splits)
  qed simp_all
qed auto

section \<open>The contract of the pair hash\<close>

text \<open>Checking a path folds the pair hash over it, whichever side each sibling is on.\<close>

locale sorted_pair_tree =
  fixes nd :: "'h \<Rightarrow> 'h \<Rightarrow> 'h"
  assumes nd_commute: "nd a b = nd b a"
begin

lemma path_leads_to_root:
  "i < length level \<Longrightarrow> foldl nd (level ! i) (tree_path nd level i) = tree_root nd level"
proof (induction "length level" arbitrary: level i rule: less_induct)
  case less
  show ?case
  proof (cases "1 < length level")
    case True
    have step: "foldl nd (level ! i) (if i XOR 1 < length level then [level ! (i XOR 1)] else [])
        = level_up nd level ! (i div 2)"
      using less.prems nd_commute level_up_nth[of i level nd] by (auto simp: xor_Suc_0_if)
    have "i div 2 < length (level_up nd level)" using less.prems by simp
    with less.hyps[of "level_up nd level" "i div 2"] True
    have "foldl nd (level_up nd level ! (i div 2)) (tree_path nd (level_up nd level) (i div 2))
        = tree_root nd (level_up nd level)" by simp
    with True step show ?thesis
      by (simp add: tree_path.simps[of nd level] tree_root.simps[of nd level])
  next
    case False
    with less.prems have "i = 0" and "length level = 1" by auto
    moreover then have "level ! 0 = hd level" by (cases level) auto
    ultimately show ?thesis
      by (simp add: tree_path.simps[of nd level] tree_root.simps[of nd level])
  qed
qed

lemma path_length: "length level \<le> 2 ^ k \<Longrightarrow> length (tree_path nd level i) \<le> k"
proof (induction k arbitrary: level i)
  case 0
  then show ?case by (simp add: tree_path.simps[of nd level])
next
  case (Suc k)
  then have "length (level_up nd level) \<le> 2 ^ k" by simp
  from Suc.IH[OF this, of "i div 2"] show ?case by (simp add: tree_path.simps[of nd level])
qed

end

text \<open>
  Only a leaf has a path to the root, provided the hashed pairs do not collide (\<open>nd_inj\<close> on the
  pairs of \<open>S\<close>) and leaves are no pair hashes: the domain separation of \<open>leafHash\<close> and \<open>nodeHash\<close>.
\<close>

definition tree_nodes :: "('h \<Rightarrow> 'h \<Rightarrow> 'h) \<Rightarrow> 'h list \<Rightarrow> 'h set" where
  "tree_nodes nd level = set level \<union> (\<lambda>(a, b). nd a b) ` set (tree_pairs nd level)"

lemma level_pairs_set: "(a, b) \<in> set (level_pairs level) \<Longrightarrow> a \<in> set level \<and> b \<in> set level"
  by (induction level rule: level_pairs.induct) auto

lemma level_up_set: "set (level_up nd level) \<subseteq> set level \<union> (\<lambda>(a, b). nd a b) ` set (level_pairs level)"
  by (induction nd level rule: level_up.induct) auto

lemma tree_nodes_step: "1 < length level \<Longrightarrow> tree_nodes nd (level_up nd level) \<subseteq> tree_nodes nd level"
  using level_up_set[of nd level] by (auto simp: tree_nodes_def tree_pairs.simps[of nd level])

lemma tree_nodes_pairs: "(a, b) \<in> set (tree_pairs nd level) \<Longrightarrow> a \<in> tree_nodes nd level \<and> b \<in> tree_nodes nd level"
proof (induction "length level" arbitrary: level rule: less_induct)
  case less
  then have gt: "1 < length level" by (simp add: tree_pairs.simps[of nd level] split: if_splits)
  show ?case
  proof (cases "(a, b) \<in> set (level_pairs level)")
    case True
    then show ?thesis using level_pairs_set by (fastforce simp: tree_nodes_def)
  next
    case False
    with less.prems gt have "(a, b) \<in> set (tree_pairs nd (level_up nd level))"
      by (simp add: tree_pairs.simps[of nd level])
    with less.hyps[of "level_up nd level"] gt tree_nodes_step[OF gt, of nd] show ?thesis by auto
  qed
qed

lemma tree_root_node: "level \<noteq> [] \<Longrightarrow> tree_root nd level \<in> tree_nodes nd level"
proof (induction "length level" arbitrary: level rule: less_induct)
  case less
  show ?case
  proof (cases "1 < length level")
    case True
    then have "level_up nd level \<noteq> []" using level_up_length[of nd level] by fastforce
    with less.hyps[of "level_up nd level"] True
    have "tree_root nd (level_up nd level) \<in> tree_nodes nd (level_up nd level)" by simp
    with tree_nodes_step[OF True, of nd] True show ?thesis
      by (auto simp: tree_root.simps[of nd level])
  next
    case False
    with less.prems show ?thesis
      by (simp add: tree_root.simps[of nd level] tree_nodes_def)
  qed
qed

locale sealed_tree = sorted_pair_tree nd
  for nd :: "'h \<Rightarrow> 'h \<Rightarrow> 'h" +
  fixes S :: "('h \<times> 'h) set" and L :: "'h set"
  assumes nd_inj: "(a, b) \<in> S \<Longrightarrow> (c, d) \<in> S \<Longrightarrow> nd a b = nd c d \<Longrightarrow> a \<in> {c, d}"
    and leaf_not_node: "(a, b) \<in> S \<Longrightarrow> nd a b \<notin> L"
begin

lemma path_stays_inside:
  assumes "set level \<subseteq> L" and "set (tree_pairs nd level) \<subseteq> S"
    and "set (path_pairs nd x path) \<subseteq> S" and "foldl nd x path \<in> tree_nodes nd level"
  shows "x \<in> tree_nodes nd level"
  using assms(3,4)
proof (induction path arbitrary: x)
  case (Cons p ps)
  then have "nd x p \<in> tree_nodes nd level" and xp: "(x, p) \<in> S" by simp_all
  moreover have "nd x p \<notin> set level" using leaf_not_node[OF xp] assms(1) by blast
  ultimately obtain a b where ab: "(a, b) \<in> set (tree_pairs nd level)" "nd x p = nd a b"
    by (auto simp: tree_nodes_def)
  then have "x \<in> {a, b}" using nd_inj[OF xp] assms(2) by blast
  with ab show ?case using tree_nodes_pairs by fastforce
qed simp

lemma only_leaves_have_paths:
  assumes "level \<noteq> []" and "set level \<subseteq> L" and "x \<in> L"
    and "set (tree_pairs nd level) \<subseteq> S" and "set (path_pairs nd x path) \<subseteq> S"
    and "foldl nd x path = tree_root nd level"
  shows "x \<in> set level"
proof -
  have "x \<in> tree_nodes nd level"
    using path_stays_inside[OF assms(2,4,5)] tree_root_node[OF assms(1), of nd] assms(6) by simp
  moreover have "x \<noteq> nd a b" if "(a, b) \<in> set (tree_pairs nd level)" for a b
    using leaf_not_node[of a b] that assms(3,4) by blast
  ultimately show ?thesis by (auto simp: tree_nodes_def)
qed

end

section \<open>The code computes that tree\<close>

text \<open>Hex strings of the same bytes; the letter case of the leaves may differ.\<close>

definition hexes :: "hex list \<Rightarrow> bytes list \<Rightarrow> bool" where
  "hexes ss bs \<longleftrightarrow> list_all2 (\<lambda>s b. hexToBytes s = Inr b) ss bs"

definition node_bytes :: "crypto \<Rightarrow> bytes \<Rightarrow> bytes \<Rightarrow> bytes" where
  "node_bytes C x y =
    ckbHash C (if compareBytes x y \<le> 0 then [DOMAIN_PRICE_NODE, x, y] else [DOMAIN_PRICE_NODE, y, x])"

lemma node_bytes_commute: "node_bytes C x y = node_bytes C y x"
  using compareBytes_nonpos[of x y] compareBytes_nonpos[of y x]
  by (auto simp: node_bytes_def)

interpretation price_tree: sorted_pair_tree "node_bytes C" for C
  by unfold_locales (rule node_bytes_commute)

lemma nodeHash_bytes:
  "toBytes a = Inr x \<Longrightarrow> toBytes b = Inr y \<Longrightarrow> nodeHash C a b = Inr (bytesToHex (node_bytes C x y))"
  by (simp add: nodeHash_def node_bytes_def)

lemma hexes_length: "hexes ss bs \<Longrightarrow> length ss = length bs"
  by (auto simp: hexes_def dest: list_all2_lengthD)

lemma hexes_nth: "hexes ss bs \<Longrightarrow> i < length bs \<Longrightarrow> hexToBytes (ss ! i) = Inr (bs ! i)"
  by (auto simp: hexes_def list_all2_conv_all_nth)

lemma hexes_append: "hexes ss bs \<Longrightarrow> hexes ss' bs' \<Longrightarrow> hexes (ss @ ss') (bs @ bs')"
  by (simp add: hexes_def list_all2_appendI)

lemma hexes_simps [simp]:
  "hexes [] bs \<longleftrightarrow> bs = []"
  "hexes [s] [b] \<longleftrightarrow> hexToBytes s = Inr b"
  by (auto simp: hexes_def)

lemma hexes_map [simp]: "hexes (map bytesToHex bs) bs"
  by (simp add: hexes_def list_all2_conv_all_nth)

lemma hexes_exists: "list_all isHex ss \<Longrightarrow> \<exists>bs. hexes ss bs"
proof (induction ss)
  case (Cons s ss)
  then obtain b bs where "hexToBytes s = Inr b" "hexes ss bs" by (auto simp: isHex_iff)
  then show ?case by (intro exI[of _ "b # bs"]) (simp add: hexes_def)
qed auto

lemma nextLevel_bytes:
  "hexes level bs \<Longrightarrow> \<exists>out. nextLevel C level = Inr out \<and> hexes out (level_up (node_bytes C) bs)"
proof (induction C level arbitrary: bs rule: nextLevel.induct)
  case (1 C a b level)
  then obtain x y zs where bs: "bs = x # y # zs" "hexToBytes a = Inr x" "hexToBytes b = Inr y"
      "hexes level zs"
    by (auto simp: hexes_def list_all2_Cons1)
  have n: "nodeHash C (HexStr a) (HexStr b) = Inr (bytesToHex (node_bytes C x y))"
    using bs by (simp add: nodeHash_bytes)
  from "1.IH"[OF n bs(4)] obtain out where
    "nextLevel C level = Inr out" "hexes out (level_up (node_bytes C) zs)" by blast
  then show ?case using n bs(1) by (simp add: hexes_def)
qed (auto simp: hexes_def list_all2_Cons1)

lemma root_loop_bytes:
  "hexes level bs \<Longrightarrow> bs \<noteq> [] \<Longrightarrow>
   \<exists>s. root_loop C level = Inr [s] \<and> hexToBytes s = Inr (tree_root (node_bytes C) bs)"
proof (induction "length bs" arbitrary: level bs rule: less_induct)
  case less
  note len = hexes_length[OF less.prems(1)]
  show ?case
  proof (cases "1 < length bs")
    case True
    from nextLevel_bytes[OF less.prems(1), of C] obtain out where
      out: "nextLevel C level = Inr out" "hexes out (level_up (node_bytes C) bs)" by blast
    have "level_up (node_bytes C) bs \<noteq> []"
      using True level_up_length[of "node_bytes C" bs] by fastforce
    with less.hyps[OF _ out(2)] True show ?thesis
      by (simp add: root_loop.simps[of C level] len out(1) tree_root.simps[of "node_bytes C" bs])
  next
    case False
    with less.prems(2) obtain x where "bs = [x]" by (cases bs) auto
    with less.prems(1) show ?thesis
      by (auto simp: root_loop.simps[of C level] tree_root.simps[of "node_bytes C" "[x]"]
          hexes_def list_all2_Cons2)
  qed
qed

lemma merkleRoot_bytes:
  assumes "hexes leaves bs" and "bs \<noteq> []"
  shows "\<exists>root. merkleRoot C leaves = Inr root \<and> hexToBytes root = Inr (tree_root (node_bytes C) bs)"
proof -
  from root_loop_bytes[OF assms, of C] obtain s where
    "root_loop C leaves = Inr [s]" "hexToBytes s = Inr (tree_root (node_bytes C) bs)" by blast
  moreover have "leaves \<noteq> []" using assms hexes_length by fastforce
  ultimately show ?thesis by (simp add: merkleRoot_def)
qed

lemma proof_loop_bytes:
  "hexes level bs \<Longrightarrow> hexes acc acc' \<Longrightarrow>
   \<exists>proof. proof_loop C level i acc = Inr proof \<and> hexes proof (acc' @ tree_path (node_bytes C) bs i)"
proof (induction "length bs" arbitrary: level bs i acc acc' rule: less_induct)
  case less
  note len = hexes_length[OF less.prems(1)]
  show ?case
  proof (cases "1 < length bs")
    case True
    from nextLevel_bytes[OF less.prems(1), of C] obtain out where
      out: "nextLevel C level = Inr out" "hexes out (level_up (node_bytes C) bs)" by blast
    define k where "k = i XOR 1"
    let ?acc = "if k < length level then acc @ [level ! k] else acc"
    let ?acc' = "acc' @ (if k < length bs then [bs ! k] else [])"
    have "hexes ?acc ?acc'"
      using less.prems len hexes_nth[OF less.prems(1)] by (auto intro!: hexes_append)
    from less.hyps[OF _ out(2) this, of "i div 2"] True
    have "\<exists>proof. proof_loop C out (i div 2) ?acc = Inr proof \<and>
        hexes proof (?acc' @ tree_path (node_bytes C) (level_up (node_bytes C) bs) (i div 2))"
      by simp
    moreover have "proof_loop C level i acc = proof_loop C out (i div 2) ?acc"
      using True by (simp add: proof_loop.simps[of C level] len out(1) Let_def k_def[symmetric] del: One_nat_def)
    moreover have "acc' @ tree_path (node_bytes C) bs i
        = ?acc' @ tree_path (node_bytes C) (level_up (node_bytes C) bs) (i div 2)"
      using True by (simp add: k_def[symmetric] tree_path.simps[of "node_bytes C" bs] del: One_nat_def)
    ultimately show ?thesis by simp
  next
    case False
    with less.prems(2) show ?thesis
      by (simp add: proof_loop.simps[of C level] len tree_path.simps[of "node_bytes C" bs])
  qed
qed

lemma merkleProof_bytes:
  assumes "hexes leaves bs" and "i < length leaves"
  shows "\<exists>proof. merkleProof C leaves (int i) = Inr proof \<and> hexes proof (tree_path (node_bytes C) bs i)"
  using proof_loop_bytes[OF assms(1), of "[]" "[]" C i] assms(2) by (simp add: merkleProof_def)

lemma verifyProof_bytes:
  assumes "toBytes root = Inr r" and "toBytes leaf = Inr l"
    and "list_all2 (\<lambda>s b. toBytes s = Inr b) proof bs"
  shows "verifyProof C root leaf proof = Inr (foldl (node_bytes C) l bs = r)"
proof -
  have "efold (\<lambda>node sibling. nodeHash C (HexStr node) sibling) (bytesToHex l) proof
      = Inr (bytesToHex (foldl (node_bytes C) l bs))" for l
    using assms(3)
    by (induction arbitrary: l rule: list_all2_induct) (simp_all add: nodeHash_bytes)
  with assms(1,2) show ?thesis by (simp add: verifyProof_def)
qed

lemma hexes_toBytes: "hexes ss bs \<Longrightarrow> list_all2 (\<lambda>s b. toBytes s = Inr b) (map HexStr ss) bs"
  by (simp add: hexes_def list_all2_map1)

lemma verifyProof_Inr:
  assumes "verifyProof C root leaf proof = Inr b"
  shows "\<exists>r l bs. toBytes root = Inr r \<and> toBytes leaf = Inr l \<and> list_all2 (\<lambda>s b. toBytes s = Inr b) proof bs"
proof -
  have "efold (\<lambda>node sibling. nodeHash C (HexStr node) sibling) s proof = Inr cur \<Longrightarrow>
      \<exists>bs. list_all2 (\<lambda>s b. toBytes s = Inr b) proof bs" for s cur
  proof (induction "proof" arbitrary: s)
    case (Cons p ps)
    then obtain s' y where "efold (\<lambda>node sibling. nodeHash C (HexStr node) sibling) s' ps = Inr cur"
        and y: "toBytes p = Inr y"
      by (auto simp: ebind_eq_Inr nodeHash_def[of C "HexStr s"])
    from Cons.IH[OF this(1)] obtain ys where "list_all2 (\<lambda>s b. toBytes s = Inr b) ps ys" by blast
    note y this
    then show ?case by (intro exI[of _ "y # ys"]) simp
  qed auto
  with assms show ?thesis by (fastforce simp: verifyProof_def ebind_eq_Inr)
qed

text \<open>The byte strings hashed while the tree of \<open>ms\<close> is built and while the path \<open>ps\<close> of \<open>m\<close> is
  checked: the strings on which the hash must not collide.\<close>

definition leaf_bytes :: "crypto \<Rightarrow> bytes \<Rightarrow> bytes" where
  "leaf_bytes C m = ckbHash C [DOMAIN_PRICE_LEAF, m]"

definition node_preimage :: "bytes \<times> bytes \<Rightarrow> bytes" where
  "node_preimage = (\<lambda>(x, y). DOMAIN_PRICE_NODE @ (if compareBytes x y \<le> 0 then x @ y else y @ x))"

definition hashed_pairs :: "crypto \<Rightarrow> bytes list \<Rightarrow> bytes \<Rightarrow> bytes list \<Rightarrow> (bytes \<times> bytes) list" where
  "hashed_pairs C ms m ps =
    tree_pairs (node_bytes C) (map (leaf_bytes C) ms) @ path_pairs (node_bytes C) (leaf_bytes C m) ps"

definition hashed_strings :: "crypto \<Rightarrow> bytes list \<Rightarrow> bytes \<Rightarrow> bytes list \<Rightarrow> bytes list" where
  "hashed_strings C ms m ps =
    map (\<lambda>m. DOMAIN_PRICE_LEAF @ m) (m # ms) @ map node_preimage (hashed_pairs C ms m ps)"

lemma leafHash_eq: "leafHash C (Raw m) = Inr (bytesToHex (leaf_bytes C m))"
  by (simp add: leafHash_def leaf_bytes_def)

lemma node_bytes_input: "node_bytes C x y = blake2b C (node_preimage (x, y))"
  by (simp add: node_bytes_def ckbHash_def concatBytes_def node_preimage_def)

lemma leaf_bytes_input: "leaf_bytes C m = blake2b C (DOMAIN_PRICE_LEAF @ m)"
  by (simp add: leaf_bytes_def ckbHash_def concatBytes_def)

lemma leaf_input_not_node: "DOMAIN_PRICE_LEAF @ m \<noteq> node_preimage p"
proof
  assume "DOMAIN_PRICE_LEAF @ m = node_preimage p"
  then have "DOMAIN_PRICE_LEAF = DOMAIN_PRICE_NODE"
    by (auto simp: node_preimage_def DOMAIN_PRICE_LEAF_def DOMAIN_PRICE_NODE_def append_eq_append_conv
        split: prod.splits if_splits)
  then show False by (simp add: DOMAIN_PRICE_LEAF_def DOMAIN_PRICE_NODE_def)
qed

lemma node_input_inj:
  assumes "node_preimage (a, b) = node_preimage (c, d)"
    and "length a = n" "length b = n" "length c = n" "length d = n"
  shows "a \<in> {c, d}"
  using assms by (auto simp: node_preimage_def append_eq_append_conv split: if_splits)

lemma length_node_bytes [simp]: "hash32 C \<Longrightarrow> length (node_bytes C x y) = 32"
  by (simp add: node_bytes_def)

lemma length_leaf_bytes [simp]: "hash32 C \<Longrightarrow> length (leaf_bytes C m) = 32"
  by (simp add: leaf_bytes_def)

lemma path_pairs_lengths:
  "hash32 C \<Longrightarrow> length x = 32 \<Longrightarrow> list_all (\<lambda>p. length p = 32) ps \<Longrightarrow>
   (a, b) \<in> set (path_pairs (node_bytes C) x ps) \<Longrightarrow> length a = 32 \<and> length b = 32"
proof (induction ps arbitrary: x)
  case (Cons p ps)
  from Cons.prems have "(a, b) = (x, p) \<or> (a, b) \<in> set (path_pairs (node_bytes C) (node_bytes C x p) ps)"
    by auto
  then show ?case
    using Cons.IH[OF Cons.prems(1) length_node_bytes[OF Cons.prems(1), of x p]] Cons.prems(2,3) by auto
qed simp

lemma hashed_pairs_lengths:
  assumes "hash32 C" and "list_all (\<lambda>p. length p = 32) ps" and "(a, b) \<in> set (hashed_pairs C ms m ps)"
  shows "length a = 32 \<and> length b = 32"
proof (cases "(a, b) \<in> set (path_pairs (node_bytes C) (leaf_bytes C m) ps)")
  case True
  then show ?thesis using path_pairs_lengths assms(1,2) length_leaf_bytes by blast
next
  case False
  have nodes: "length v = 32" if "v \<in> tree_nodes (node_bytes C) (map (leaf_bytes C) ms)" for v
    using that assms(1) by (auto simp: tree_nodes_def)
  from False assms(3) have "(a, b) \<in> set (tree_pairs (node_bytes C) (map (leaf_bytes C) ms))"
    by (auto simp: hashed_pairs_def)
  from tree_nodes_pairs[OF this] nodes show ?thesis by blast
qed

text \<open>The code's tree is a sealed tree wherever the hash does not collide on what it hashed.\<close>

definition collision_free :: "crypto \<Rightarrow> bytes list \<Rightarrow> bytes \<Rightarrow> bytes list \<Rightarrow> bool" where
  "collision_free C ms m ps \<longleftrightarrow> hash32 C \<and> list_all (\<lambda>p. length p = 32) ps \<and>
    inj_on (blake2b C) (set (hashed_strings C ms m ps))"

definition sealed_pairs :: "crypto \<Rightarrow> bytes list \<Rightarrow> bytes \<Rightarrow> bytes list \<Rightarrow> (bytes \<times> bytes) set" where
  "sealed_pairs C ms m ps = (if collision_free C ms m ps then set (hashed_pairs C ms m ps) else {})"

lemma sealed_pairsD:
  assumes "(a, b) \<in> sealed_pairs C ms m ps"
  shows "hash32 C" "list_all (\<lambda>p. length p = 32) ps" "inj_on (blake2b C) (set (hashed_strings C ms m ps))"
    "(a, b) \<in> set (hashed_pairs C ms m ps)" "node_preimage (a, b) \<in> set (hashed_strings C ms m ps)"
  using assms by (auto simp: sealed_pairs_def collision_free_def hashed_strings_def split: if_splits)

interpretation price_sealed:
  sealed_tree "node_bytes C" "sealed_pairs C ms m ps" "leaf_bytes C ` set (m # ms)" for C ms m ps
proof
  fix a b c d
  assume ab: "(a, b) \<in> sealed_pairs C ms m ps" and cd: "(c, d) \<in> sealed_pairs C ms m ps"
    and "node_bytes C a b = node_bytes C c d"
  then have "blake2b C (node_preimage (a, b)) = blake2b C (node_preimage (c, d))"
    by (simp add: node_bytes_input)
  then have "node_preimage (a, b) = node_preimage (c, d)"
    by (rule inj_onD[OF sealed_pairsD(3)[OF ab] _ sealed_pairsD(5)[OF ab] sealed_pairsD(5)[OF cd]])
  then show "a \<in> {c, d}"
    using hashed_pairs_lengths[OF sealed_pairsD(1,2,4)[OF ab]]
      hashed_pairs_lengths[OF sealed_pairsD(1,2,4)[OF cd]] node_input_inj by blast
next
  fix a b
  assume ab: "(a, b) \<in> sealed_pairs C ms m ps"
  show "node_bytes C a b \<notin> leaf_bytes C ` set (m # ms)"
  proof
    assume "node_bytes C a b \<in> leaf_bytes C ` set (m # ms)"
    then obtain m' where m': "m' \<in> set (m # ms)"
        "blake2b C (node_preimage (a, b)) = blake2b C (DOMAIN_PRICE_LEAF @ m')"
      by (auto simp: node_bytes_input leaf_bytes_input)
    have "DOMAIN_PRICE_LEAF @ m' \<in> set (hashed_strings C ms m ps)"
      using m'(1) by (auto simp: hashed_strings_def)
    from inj_onD[OF sealed_pairsD(3)[OF ab] m'(2) sealed_pairsD(5)[OF ab] this]
    show False using leaf_input_not_node[of m' "(a, b)"] by simp
  qed
qed

text \<open>The stand-in hash does not collide on the tree of two messages.\<close>

lemma demo_inj:
  "inj_on (blake2b demo_crypto) (set (hashed_strings demo_crypto [[1], [2]] [2] [leaf_bytes demo_crypto [1]]))"
proof -
  obtain a where a: "leaf_bytes demo_crypto [1] = a" "a = demo_hash (DOMAIN_PRICE_LEAF @ [1])"
    by (simp add: leaf_bytes_input blake_demo)
  obtain b where b: "leaf_bytes demo_crypto [2] = b" "b = demo_hash (DOMAIN_PRICE_LEAF @ [2])"
    by (simp add: leaf_bytes_input blake_demo)
  note eval = demo_hash_def DOMAIN_PRICE_LEAF_def DOMAIN_PRICE_NODE_def text_bytes_def le_bytes_numeral
  have vals: "a = le_bytes 32 185946598542400778" "b = le_bytes 32 185946598542400779"
    unfolding a(2) b(2) by (simp_all add: demo_hash_def DOMAIN_PRICE_LEAF_def text_bytes_def)
  have cmp: "compareBytes a b = -1" "compareBytes b a = 1"
    by (simp_all add: vals le_bytes_numeral)
  have strings: "hashed_strings demo_crypto [[1], [2]] [2] [a] =
      [DOMAIN_PRICE_LEAF @ [2], DOMAIN_PRICE_LEAF @ [1], DOMAIN_PRICE_LEAF @ [2],
       DOMAIN_PRICE_NODE @ a @ b, DOMAIN_PRICE_NODE @ a @ b]"
    by (simp add: hashed_strings_def hashed_pairs_def tree_pairs.simps a(1) b(1) node_preimage_def cmp
        del: One_nat_def)
  have "demo_hash (DOMAIN_PRICE_NODE @ a @ b) \<noteq> a" "demo_hash (DOMAIN_PRICE_NODE @ a @ b) \<noteq> b" "a \<noteq> b"
    by (simp_all add: vals eval)
  then show ?thesis
    unfolding a(1) strings blake_demo by (auto simp: a(2)[symmetric] b(2)[symmetric] inj_on_def)
qed

text \<open>Every proof the code computes verifies.\<close>

lemma proofs_verify:
  assumes "list_all isHex leaves" and "i < length leaves"
  shows "\<exists>root proof. merkleRoot C leaves = Inr root \<and> merkleProof C leaves (int i) = Inr proof \<and>
    verifyProof C (HexStr root) (HexStr (leaves ! i)) (map HexStr proof) = Inr True \<and>
    (length leaves \<le> 2 ^ k \<longrightarrow> length proof \<le> k)"
proof -
  from hexes_exists[OF assms(1)] obtain bs where bs: "hexes leaves bs" ..
  note len = hexes_length[OF bs]
  with assms(2) have "bs \<noteq> []" by auto
  from merkleRoot_bytes[OF bs this, of C] obtain root where
    root: "merkleRoot C leaves = Inr root" "hexToBytes root = Inr (tree_root (node_bytes C) bs)" by blast
  from merkleProof_bytes[OF bs assms(2), of C] obtain pr where
    pr: "merkleProof C leaves (int i) = Inr pr" "hexes pr (tree_path (node_bytes C) bs i)" by blast
  have "verifyProof C (HexStr root) (HexStr (leaves ! i)) (map HexStr pr) = Inr True"
    using verifyProof_bytes[OF _ _ hexes_toBytes[OF pr(2)]] root(2) hexes_nth[OF bs] assms(2) len
      price_tree.path_leads_to_root[of i bs C] by simp
  moreover have "length leaves \<le> 2 ^ k \<longrightarrow> length pr \<le> k"
    using price_tree.path_length[of bs k C i] hexes_length[OF pr(2)] len by simp
  ultimately show ?thesis using root pr by blast
qed

text \<open>Only a message of the list has a proof.\<close>

lemma only_leaves_verify:
  assumes "hash32 C" and "ms \<noteq> []"
    and "merkleRoot C (map (\<lambda>m. bytesToHex (leaf_bytes C m)) ms) = Inr root"
    and "leafHash C (Raw m) = Inr leaf"
    and "list_all2 (\<lambda>s b. toBytes s = Inr b \<and> length b = 32) proof ps"
    and "verifyProof C (HexStr root) (HexStr leaf) proof = Inr True"
    and "inj_on (blake2b C) (set (hashed_strings C ms m ps))"
  shows "m \<in> set ms"
proof -
  let ?leaves = "map (leaf_bytes C) ms"
  have ps: "list_all2 (\<lambda>s b. toBytes s = Inr b) proof ps" "list_all (\<lambda>p. length p = 32) ps"
    using assms(5) by (auto simp: list_all2_conv_all_nth list_all_length)
  have free: "collision_free C ms m ps" using assms(1,7) ps(2) by (simp add: collision_free_def)
  have "\<exists>r. merkleRoot C (map bytesToHex ?leaves) = Inr r \<and> hexToBytes r = Inr (tree_root (node_bytes C) ?leaves)"
    by (rule merkleRoot_bytes[OF hexes_map]) (use assms(2) in simp)
  then have r: "hexToBytes root = Inr (tree_root (node_bytes C) ?leaves)"
    using assms(3) by (auto simp: comp_def)
  have l: "hexToBytes leaf = Inr (leaf_bytes C m)"
    using assms(4) by (auto simp: leafHash_eq)
  have "foldl (node_bytes C) (leaf_bytes C m) ps = tree_root (node_bytes C) ?leaves"
    using verifyProof_bytes[of "HexStr root" _ "HexStr leaf", OF _ _ ps(1)] r l assms(6) by simp
  then have "leaf_bytes C m \<in> set ?leaves"
    by (intro price_sealed.only_leaves_have_paths[of ?leaves C m ms "leaf_bytes C m" ps])
       (use assms(2) free in \<open>auto simp: sealed_pairs_def hashed_pairs_def\<close>)
  then obtain m' where m': "m' \<in> set ms" "leaf_bytes C m = leaf_bytes C m'" by auto
  have "DOMAIN_PRICE_LEAF @ m \<in> set (hashed_strings C ms m ps)"
    "DOMAIN_PRICE_LEAF @ m' \<in> set (hashed_strings C ms m ps)"
    using m'(1) by (simp_all add: hashed_strings_def)
  from inj_onD[OF assms(7) m'(2)[unfolded leaf_bytes_input] this] m'(1) show ?thesis by simp
qed

section \<open>Properties\<close>

text \<open>Claim C17: for every list of hex leaves and every index in range, the root and the proof are
  computed and the proof verifies the leaf against the root.\<close>

theorem merkle_proof_complete:
  assumes "list_all isHex leaves" and "i < length leaves"
  shows "\<exists>root proof. merkleRoot C leaves = Inr root \<and> merkleProof C leaves (int i) = Inr proof \<and>
    verifyProof C (HexStr root) (HexStr (leaves ! i)) (map HexStr proof) = Inr True \<and>
    (length leaves \<le> 2 ^ k \<longrightarrow> length proof \<le> k)"
  by (rule proofs_verify[OF assms])

theorem merkle_proof_complete_witness:
  "\<exists>root proof. merkleRoot demo_crypto [''0x01'', ''0xAb'', ''0x03''] = Inr root \<and>
    merkleProof demo_crypto [''0x01'', ''0xAb'', ''0x03''] (int 1) = Inr proof \<and>
    verifyProof demo_crypto (HexStr root) (HexStr ''0xAb'') (map HexStr proof) = Inr True \<and>
    length proof \<le> 2"
proof -
  have "list_all isHex [''0x01'', ''0xAb'', ''0x03'']" by code_simp
  from merkle_proof_complete[OF this, of 1 demo_crypto 2] show ?thesis by fastforce
qed

text \<open>Claim C16: a proof that verifies against the root of a list of messages proves one of those
  messages, as long as the hash does not collide on the strings hashed to build the tree and to
  check the proof.\<close>

theorem merkle_proof_sound:
  assumes "hash32 C" and "ms \<noteq> []"
    and "merkleRoot C (map (\<lambda>m. bytesToHex (leaf_bytes C m)) ms) = Inr root"
    and "leafHash C (Raw m) = Inr leaf"
    and "list_all2 (\<lambda>s b. toBytes s = Inr b \<and> length b = 32) proof ps"
    and "verifyProof C (HexStr root) (HexStr leaf) proof = Inr True"
    and "inj_on (blake2b C) (set (hashed_strings C ms m ps))"
  shows "m \<in> set ms"
  by (rule only_leaves_verify[OF assms])

theorem merkle_proof_sound_witness: "([2] :: bytes) \<in> set [[1], [2]]"
proof -
  let ?C = demo_crypto and ?ms = "[[1], [2]] :: bytes list"
  let ?a = "leaf_bytes demo_crypto [1]" and ?b = "leaf_bytes demo_crypto [2]"
  let ?root = "bytesToHex (node_bytes ?C ?a ?b)"
  have root: "merkleRoot ?C (map (\<lambda>m. bytesToHex (leaf_bytes ?C m)) ?ms) = Inr ?root"
    by (simp add: merkleRoot_def root_loop.simps nodeHash_bytes del: One_nat_def)
  have ps: "list_all2 (\<lambda>s b. toBytes s = Inr b \<and> length b = 32) [HexStr (bytesToHex ?a)] [?a]"
    by simp
  have check: "verifyProof ?C (HexStr ?root) (HexStr (bytesToHex ?b)) [HexStr (bytesToHex ?a)] = Inr True"
    using verifyProof_bytes[of "HexStr ?root" _ "HexStr (bytesToHex ?b)" ?b "[HexStr (bytesToHex ?a)]" "[?a]"]
      node_bytes_commute[of ?C ?a ?b] by simp
  from merkle_proof_sound[OF demo_hash32 _ root leafHash_eq ps check demo_inj]
  show ?thesis by simp
qed

end
