(* ===== verification/Publisher_Set.thy ===== *)
theory Publisher_Set
  imports Hashing
begin

unbundle bit_operations_syntax

text \<open>
  \<open>packages/sdk/src/protocol/publisherSet.ts\<close>: the committee cell, its wire format and the governance
  transitions. Lemmas: the format is a \<open>codec\<close>; \<open>sameSet\<close>, which compares joined strings, is
  equality of sets of hex keys; and along every history of accepted transitions a set index names one
  key set and a set that is no longer trusted never becomes trusted again.
\<close>

section \<open>Data\<close>

record PublisherSet =
  setIndex :: int
  pubkeys :: "hex list"

record PreviousSet =
  previousSet :: PublisherSet
  untilMs :: int

record PublisherSetData =
  networkId :: hex
  governanceNonce :: int
  governanceFlags :: int
  minRotationIntervalS :: int
  currentSet :: PublisherSet
  previousOf :: "PreviousSet option"

text \<open>The bit operations of JavaScript work on 32-bit signed integers.\<close>

definition js_and :: "int \<Rightarrow> int \<Rightarrow> int" where
  "js_and a b = asIntN 32 a AND asIntN 32 b"

definition js_or :: "int \<Rightarrow> int \<Rightarrow> int" where
  "js_or a b = asIntN 32 a OR asIntN 32 b"

definition js_not :: "int \<Rightarrow> int" where
  "js_not a = NOT (asIntN 32 a)"

definition quorum :: "PublisherSet \<Rightarrow> int" where
  "quorum s = (2 * int (length (pubkeys s))) div 3 + 1"

definition isValidPublisherSet :: "PublisherSet \<Rightarrow> bool result" where
  "isValidPublisherSet s =
    ebind (emap (\<lambda>key. hexToFixed key 33) (pubkeys s)) (\<lambda>keys.
    Inr (length keys > 0 \<and> int (length keys) \<le> MAX_PUBLISHERS \<and>
      list_all (\<lambda>i. (keys ! i ! 0 = 2 \<or> keys ! i ! 0 = 3) \<and>
          (i = 0 \<or> compareBytes (keys ! (i - 1)) (keys ! i) < 0)) [0..<length keys]))"

definition isValidPublisherSetData :: "PublisherSetData \<Rightarrow> bool result" where
  "isValidPublisherSetData d =
    ebind (isValidPublisherSet (currentSet d)) (\<lambda>valid.
    if \<not> valid \<or> minRotationIntervalS d \<le> 0 then Inr False
    else if js_and (governanceFlags d) (js_not GOVERNANCE_PAUSED) \<noteq> 0 then Inr False
    else case previousOf d of
      None \<Rightarrow> Inr True
    | Some p \<Rightarrow>
        ebind (isValidPublisherSet (previousSet p)) (\<lambda>v.
        Inr (v \<and> untilMs p > 0 \<and> setIndex (previousSet p) + 1 = setIndex (currentSet d))))"

section \<open>Wire format\<close>

definition writeSet :: "PublisherSet \<Rightarrow> writing list" where
  "writeSet s =
    [w_u32 (setIndex s), w_u8 (int (length (pubkeys s)))] @ map (\<lambda>key. w_hex key 33) (pubkeys s)"

definition readSet :: "PublisherSet reading" where
  "readSet =
    rbind r_u32 (\<lambda>i.
    rbind r_u8 (\<lambda>count.
    rbind (r_repeat (nat count) (r_hex 33)) (\<lambda>keys.
    rret \<lparr>setIndex = i, pubkeys = keys\<rparr>)))"

definition writePrevious :: "PreviousSet option \<Rightarrow> writing list" where
  "writePrevious previous =
    (case previous of
       None \<Rightarrow> [w_u8 0]
     | Some p \<Rightarrow> w_u8 1 # writeSet (previousSet p) @ [w_u64 (untilMs p)])"

definition encodePublisherSetData :: "PublisherSetData \<Rightarrow> bytes result" where
  "encodePublisherSetData d =
    run_writer (
      [w_bytes (text_bytes PUBLISHER_SET_MAGIC) None,
       w_u8 PUBLISHER_SET_VERSION,
       w_hex (networkId d) 32,
       w_u64 (governanceNonce d),
       w_u8 (governanceFlags d),
       w_u8 0,
       w_u64 (minRotationIntervalS d)] @
      writeSet (currentSet d) @
      writePrevious (previousOf d))"

definition readPrevious :: "PreviousSet option reading" where
  "readPrevious =
    rbind r_u8 (\<lambda>marker.
    if marker = 1 then
      rbind readSet (\<lambda>s.
      rbind r_u64 (\<lambda>t.
      rret (Some \<lparr>previousSet = s, untilMs = t\<rparr>)))
    else rbind (rcheck (marker = 0) (DecodeError ''PublisherSetData: bad previous-set marker'')) (\<lambda>_. rret None))"

definition readPublisherSetData :: "PublisherSetData reading" where
  "readPublisherSetData =
    rbind (r_bytes 4) (\<lambda>magic.
    rbind (rcheck (magic = text_bytes PUBLISHER_SET_MAGIC) (DecodeError ''PublisherSetData: bad magic or version'')) (\<lambda>_.
    rbind r_u8 (\<lambda>version.
    rbind (rcheck (version = PUBLISHER_SET_VERSION) (DecodeError ''PublisherSetData: bad magic or version'')) (\<lambda>_.
    rbind (r_hex 32) (\<lambda>network.
    rbind r_u64 (\<lambda>nonce.
    rbind r_u8 (\<lambda>flags.
    rbind r_u8 (\<lambda>reserved.
    rbind (rcheck (reserved = 0) (DecodeError ''PublisherSetData: reserved byte must be zero'')) (\<lambda>_.
    rbind r_u64 (\<lambda>interval.
    rbind readSet (\<lambda>current.
    rbind readPrevious (\<lambda>previous.
    rret \<lparr>networkId = network, governanceNonce = nonce, governanceFlags = flags,
      minRotationIntervalS = interval, currentSet = current, previousOf = previous\<rparr>))))))))))))"

definition decodePublisherSetData :: "bytes_like \<Rightarrow> PublisherSetData result" where
  "decodePublisherSetData b =
    ebind (toBytes b) (\<lambda>data.
    ebind (run_reader (rbind readPublisherSetData (\<lambda>d. rbind r_end (\<lambda>_. rret d))) data ''PublisherSetData'') (\<lambda>d.
    ebind (isValidPublisherSetData d) (\<lambda>valid.
    if \<not> valid then Inl (DecodeError ''PublisherSetData: invalid publisher set'') else Inr d)))"

section \<open>Digests\<close>

definition publisherSetStateHash :: "crypto \<Rightarrow> PublisherSetData \<Rightarrow> hex result" where
  "publisherSetStateHash C d =
    ebind (encodePublisherSetData d) (\<lambda>e. Inr (bytesToHex (ckbHash C [DOMAIN_SET_STATE, e])))"

definition publisherSetUpdateHash ::
    "crypto \<Rightarrow> PublisherSetData \<Rightarrow> PublisherSetData \<Rightarrow> int \<Rightarrow> hex \<Rightarrow> hex result" where
  "publisherSetUpdateHash C current next' operation committeeTypeHash =
    ebind (hexToFixed committeeTypeHash 32) (\<lambda>committee.
    ebind (publisherSetStateHash C current) (\<lambda>h.
    ebind (hexToBytes h) (\<lambda>a.
    ebind (publisherSetStateHash C next') (\<lambda>h'.
    ebind (hexToBytes h') (\<lambda>b.
    Inr (bytesToHex (ckbHash C [DOMAIN_SET_UPDATE, committee, [word_of_int operation], a, b])))))))"

definition publisherSetPopHash :: "crypto \<Rightarrow> PublisherSetData \<Rightarrow> hex \<Rightarrow> hex result" where
  "publisherSetPopHash C next' committeeTypeHash =
    ebind (hexToFixed committeeTypeHash 32) (\<lambda>committee.
    ebind (publisherSetStateHash C next') (\<lambda>h.
    ebind (hexToBytes h) (\<lambda>a.
    Inr (bytesToHex (ckbHash C [DOMAIN_SET_POP, committee, a])))))"

section \<open>Who may sign\<close>

definition isPaused :: "PublisherSetData \<Rightarrow> bool" where
  "isPaused d \<longleftrightarrow> js_and (governanceFlags d) GOVERNANCE_PAUSED \<noteq> 0"

definition setFor :: "PublisherSetData \<Rightarrow> int \<Rightarrow> int \<Rightarrow> PublisherSet option" where
  "setFor d i publishTimeMs =
    (if i = setIndex (currentSet d) then Some (currentSet d)
     else case previousOf d of
       None \<Rightarrow> None
     | Some p \<Rightarrow> if setIndex (previousSet p) = i \<and> publishTimeMs < untilMs p then Some (previousSet p) else None)"

definition trustsSet :: "PublisherSetData \<Rightarrow> int \<Rightarrow> bool" where
  "trustsSet d i \<longleftrightarrow>
    i = setIndex (currentSet d) \<or> (case previousOf d of None \<Rightarrow> False | Some p \<Rightarrow> setIndex (previousSet p) = i)"

definition needsProofOfPossession :: "int \<Rightarrow> bool" where
  "needsProofOfPossession operation \<longleftrightarrow> operation = OP_ROTATE \<or> operation = OP_ROTATE_REVOKE"

definition needsRotationInterval :: "int \<Rightarrow> bool" where
  "needsRotationInterval operation \<longleftrightarrow> operation = OP_ROTATE"

section \<open>Transitions\<close>

text \<open>\<open>xs.join()\<close>\<close>

fun join_comma :: "string list \<Rightarrow> string" where
  "join_comma [] = []"
| "join_comma [x] = x"
| "join_comma (x # y # ys) = x @ CHR '','' # join_comma (y # ys)"

definition sameSet :: "PublisherSet \<Rightarrow> PublisherSet \<Rightarrow> bool" where
  "sameSet a b \<longleftrightarrow> setIndex a = setIndex b \<and> join_comma (pubkeys a) = join_comma (pubkeys b)"

definition samePrevious :: "PreviousSet option \<Rightarrow> PreviousSet option \<Rightarrow> bool" where
  "samePrevious a b =
    (case (a, b) of
       (None, None) \<Rightarrow> True
     | (Some p, Some q) \<Rightarrow> untilMs p = untilMs q \<and> sameSet (previousSet p) (previousSet q)
     | _ \<Rightarrow> False)"

definition transitionError :: "PublisherSetData \<Rightarrow> PublisherSetData \<Rightarrow> int \<Rightarrow> string option" where
  "transitionError current next' operation =
    (if toLowerCase (networkId next') \<noteq> toLowerCase (networkId current) \<or>
        governanceNonce next' \<noteq> governanceNonce current + 1 \<or>
        minRotationIntervalS next' \<noteq> minRotationIntervalS current
     then Some ''continuity: nonce must advance by one; network and interval must not change''
     else
       let sameFlags = (governanceFlags next' = governanceFlags current);
           sameSets = (sameSet (currentSet next') (currentSet current) \<and>
                       samePrevious (previousOf next') (previousOf current));
           nextIndex = (setIndex (currentSet next') = setIndex (currentSet current) + 1)
       in if operation = OP_ROTATE then
            (if sameFlags \<and> nextIndex \<and>
                (case previousOf next' of
                   None \<Rightarrow> False
                 | Some p \<Rightarrow> sameSet (previousSet p) (currentSet current) \<and>
                     (case previousOf current of None \<Rightarrow> True | Some q \<Rightarrow> untilMs p > untilMs q))
             then None
             else Some ''rotate: next set index +1, the current set becomes previous with a later switch tick, flags unchanged'')
          else if operation = OP_ROTATE_REVOKE then
            (if sameFlags \<and> nextIndex \<and> previousOf next' = None then None
             else Some ''rotate-revoke: next set index +1, no previous set, flags unchanged'')
          else if operation = OP_PAUSE then
            (if \<not> isPaused current \<and>
                governanceFlags next' = js_or (governanceFlags current) GOVERNANCE_PAUSED \<and> sameSets
             then None else Some ''pause: only sets the paused flag'')
          else if operation = OP_UNPAUSE then
            (if isPaused current \<and>
                governanceFlags next' = js_and (governanceFlags current) (js_not GOVERNANCE_PAUSED) \<and> sameSets
             then None else Some ''unpause: only clears the paused flag'')
          else if operation = OP_REVOKE_PREVIOUS then
            (if sameFlags \<and> previousOf current \<noteq> None \<and> previousOf next' = None \<and>
                sameSet (currentSet next') (currentSet current)
             then None else Some ''revoke-previous: drops the previous set only'')
          else Some ''unknown operation'')"

section \<open>The format is a codec\<close>

definition norm_set :: "PublisherSet \<Rightarrow> PublisherSet" where
  "norm_set s = s\<lparr>pubkeys := map toLowerCase (pubkeys s)\<rparr>"

definition norm_previous :: "PreviousSet \<Rightarrow> PreviousSet" where
  "norm_previous p = p\<lparr>previousSet := norm_set (previousSet p)\<rparr>"

definition norm_data :: "PublisherSetData \<Rightarrow> PublisherSetData" where
  "norm_data d = d\<lparr>networkId := toLowerCase (networkId d), currentSet := norm_set (currentSet d),
     previousOf := map_option norm_previous (previousOf d)\<rparr>"

lemma uniform_writeSet [simp]: "list_all uniform (writeSet s)"
  by (simp add: writeSet_def list_all_iff)

lemma uniform_writePrevious [simp]: "list_all uniform (writePrevious p)"
  by (auto simp: writePrevious_def split: option.split)

lemma writeSet_iff:
  "run_writer (writeSet s) = Inr bs \<longleftrightarrow>
    is_u32 (setIndex s) \<and> is_u8 (int (length (pubkeys s))) \<and>
    (\<exists>parts. list_all2 (\<lambda>k p. hexToFixed k 33 = Inr p) (pubkeys s) parts \<and>
      bs = int_bytes 4 (setIndex s) @ int_bytes 1 (int (length (pubkeys s))) @ concat parts)"
  by (auto simp: writeSet_def run_writer_map list_all_iff)

lemma reads_set:
  assumes "run_writer (writeSet s) = Inr bs"
  shows "reads readSet bs (norm_set s)"
proof -
  from assms obtain parts where *: "is_u32 (setIndex s)" "is_u8 (int (length (pubkeys s)))"
      "list_all2 (\<lambda>k p. hexToFixed k 33 = Inr p) (pubkeys s) parts"
      "bs = int_bytes 4 (setIndex s) @ int_bytes 1 (int (length (pubkeys s))) @ concat parts @ []"
    by (auto simp: writeSet_iff)
  show ?thesis
    unfolding readSet_def *(4)
    by (intro reads_then; (rule *)?) (simp_all add: norm_set_def)
qed

lemma parses_set: "parses readSet (\<lambda>bs s. run_writer (writeSet s) = Inr bs \<and> norm_set s = s)"
  unfolding readSet_def
proof (rule parses_mono[OF parses_bind[OF parses_ints(3) parses_bind[OF parses_ints(1)
        parses_bind[OF parses_hex_list parses_ret]]]], clarify)
  fix i c parts keys
  assume c: "is_u8 c" and len: "length keys = nat c" and lower: "map toLowerCase keys = keys"
    and i: "is_u32 i" and keys: "list_all2 (\<lambda>k p. hexToFixed k 33 = Inr p) keys parts"
  have "c = int (length keys)" using c len by (simp add: is_u8_def)
  with c i keys lower
  show "run_writer (writeSet \<lparr>setIndex = i, pubkeys = keys\<rparr>) =
      Inr (int_bytes 4 i @ int_bytes 1 c @ concat parts @ []) \<and>
    norm_set \<lparr>setIndex = i, pubkeys = keys\<rparr> = \<lparr>setIndex = i, pubkeys = keys\<rparr>"
    by (auto simp: writeSet_iff norm_set_def)
qed

lemma writePrevious_iff:
  "run_writer (writePrevious p) = Inr bs \<longleftrightarrow>
    (case p of
       None \<Rightarrow> bs = int_bytes 1 0
     | Some p \<Rightarrow> is_u64 (untilMs p) \<and>
         (\<exists>s. run_writer (writeSet (previousSet p)) = Inr s \<and> bs = int_bytes 1 1 @ s @ int_bytes 8 (untilMs p)))"
  by (auto simp: writePrevious_def run_writer_append is_u8_def split: option.split)

lemma reads_previous:
  assumes "run_writer (writePrevious p) = Inr bs"
  shows "reads readPrevious bs (map_option norm_previous p)"
proof (cases p)
  case None
  then have "bs = int_bytes 1 0 @ []" using assms by (simp add: writePrevious_iff)
  then show ?thesis
    unfolding readPrevious_def None \<open>bs = _\<close>
    by (intro reads_then) (auto intro!: reads_then simp: is_u8_def)
next
  case (Some q)
  then obtain s where *: "is_u64 (untilMs q)" "run_writer (writeSet (previousSet q)) = Inr s"
      "bs = int_bytes 1 1 @ s @ int_bytes 8 (untilMs q) @ []"
    using assms by (auto simp: writePrevious_iff)
  show ?thesis
    unfolding readPrevious_def *(3) Some
    by (rule reads_then(3), simp add: is_u8_def, simp only: simp_thms if_True,
        intro reads_then reads_bind[OF reads_set]; (rule *)?) (simp add: norm_previous_def)
qed

lemma parses_previous:
  "parses readPrevious (\<lambda>bs p. run_writer (writePrevious p) = Inr bs \<and> map_option norm_previous p = p)"
proof -
  let ?tail = "\<lambda>marker. if marker = 1 then
      rbind readSet (\<lambda>s. rbind r_u64 (\<lambda>t. rret (Some \<lparr>previousSet = s, untilMs = t\<rparr>)))
    else rbind (rcheck (marker = 0) (DecodeError ''PublisherSetData: bad previous-set marker'')) (\<lambda>_. rret None)"
  let ?Q = "\<lambda>marker bs p. run_writer (writePrevious p) = Inr (int_bytes 1 marker @ bs) \<and> map_option norm_previous p = p"
  have "parses (?tail marker) (?Q marker)" for marker
  proof (cases "marker = 1")
    case True
    have "parses (rbind readSet (\<lambda>s. rbind r_u64 (\<lambda>t. rret (Some \<lparr>previousSet = s, untilMs = t\<rparr>)))) (?Q 1)"
      by (rule parses_mono[OF parses_bind[OF parses_set parses_bind[OF parses_ints(4) parses_ret]]])
         (auto simp: writePrevious_iff norm_previous_def)
    with True show ?thesis by simp
  next
    case False
    have "parses (rbind (rcheck (marker = 0) e) (\<lambda>_. rret None)) (?Q marker)" for e
      by (rule parses_mono[OF parses_bind[OF parses_check parses_ret]]) (auto simp: writePrevious_iff)
    with False show ?thesis by simp
  qed
  from parses_bind[OF parses_ints(1) this]
  show ?thesis
    unfolding readPrevious_def by (rule parses_mono) auto
qed

lemma encode_iff:
  "encodePublisherSetData d = Inr bs \<longleftrightarrow>
    is_u64 (governanceNonce d) \<and> is_u8 (governanceFlags d) \<and> is_u64 (minRotationIntervalS d) \<and>
    (\<exists>n c p. hexToFixed (networkId d) 32 = Inr n \<and> run_writer (writeSet (currentSet d)) = Inr c \<and>
      run_writer (writePrevious (previousOf d)) = Inr p \<and>
      bs = text_bytes PUBLISHER_SET_MAGIC @ int_bytes 1 PUBLISHER_SET_VERSION @ n @
        int_bytes 8 (governanceNonce d) @ int_bytes 1 (governanceFlags d) @ int_bytes 1 0 @
        int_bytes 8 (minRotationIntervalS d) @ c @ p)"
  by (auto simp: encodePublisherSetData_def run_writer_append is_u8_def protocol_constants)

lemma reads_data:
  assumes "encodePublisherSetData d = Inr bs"
  shows "reads readPublisherSetData bs (norm_data d)"
proof -
  from assms obtain n c p where *: "is_u64 (governanceNonce d)" "is_u8 (governanceFlags d)"
      "is_u64 (minRotationIntervalS d)" "hexToFixed (networkId d) 32 = Inr n"
      "run_writer (writeSet (currentSet d)) = Inr c" "run_writer (writePrevious (previousOf d)) = Inr p"
      "bs = text_bytes PUBLISHER_SET_MAGIC @ int_bytes 1 PUBLISHER_SET_VERSION @ n @
        int_bytes 8 (governanceNonce d) @ int_bytes 1 (governanceFlags d) @ int_bytes 1 0 @
        int_bytes 8 (minRotationIntervalS d) @ c @ p @ []"
    by (auto simp: encode_iff)
  show ?thesis
    unfolding readPublisherSetData_def *(7)
    by (intro reads_then reads_bind[OF reads_set] reads_bind[OF reads_previous]; (rule *)?)
       (auto simp: protocol_constants is_u8_def norm_data_def)
qed

lemma parses_data:
  "parses readPublisherSetData (\<lambda>bs d. encodePublisherSetData d = Inr bs \<and> norm_data d = d)"
  unfolding readPublisherSetData_def
  by (rule parses_mono[OF parses_bind[OF parses_bytes parses_bind[OF parses_check
          parses_bind[OF parses_ints(1) parses_bind[OF parses_check parses_bind[OF parses_hexToFixed
          parses_bind[OF parses_ints(4) parses_bind[OF parses_ints(1) parses_bind[OF parses_ints(1)
          parses_bind[OF parses_check parses_bind[OF parses_ints(4) parses_bind[OF parses_set
          parses_bind[OF parses_previous parses_ret]]]]]]]]]]]]])
     (auto simp: encode_iff norm_data_def protocol_constants)

lemma emap_hexToFixed_lower:
  "emap (\<lambda>k. hexToFixed k n) ks = Inr bs \<Longrightarrow> emap (\<lambda>k. hexToFixed k n) (map toLowerCase ks) = Inr bs"
  by (auto simp: emap_eq_Inr list_all2_map1 intro: hexToFixed_toLowerCase elim: list_all2_mono)

lemma valid_norm_set: "isValidPublisherSet s = Inr b \<Longrightarrow> isValidPublisherSet (norm_set s) = Inr b"
  by (auto simp: isValidPublisherSet_def norm_set_def ebind_eq_Inr dest: emap_hexToFixed_lower)

lemma valid_norm_data:
  "isValidPublisherSetData d = Inr b \<Longrightarrow> isValidPublisherSetData (norm_data d) = Inr b"
proof -
  assume d: "isValidPublisherSetData d = Inr b"
  then obtain v where v: "isValidPublisherSet (currentSet d) = Inr v"
    by (auto simp: isValidPublisherSetData_def ebind_eq_Inr)
  have i: "setIndex (norm_set s) = setIndex s" for s by (simp add: norm_set_def)
  show ?thesis
  proof (cases "previousOf d")
    case None
    with d valid_norm_set[OF v] v show ?thesis
      by (simp add: isValidPublisherSetData_def norm_data_def split: if_splits)
  next
    case (Some p)
    with d v valid_norm_set[OF v] valid_norm_set[of "previousSet p"] show ?thesis
      by (cases "isValidPublisherSet (previousSet p)")
         (auto simp: isValidPublisherSetData_def norm_data_def norm_previous_def i split: if_splits)
  qed
qed

lemma decode_iff_read:
  "decodePublisherSetData (Raw bs) = Inr d \<longleftrightarrow>
    run_reader (rbind readPublisherSetData (\<lambda>d. rbind r_end (\<lambda>_. rret d))) bs ''PublisherSetData'' = Inr d \<and>
    isValidPublisherSetData d = Inr True"
  by (auto simp: decodePublisherSetData_def ebind_eq_Inr split: if_splits)

interpretation set_codec: codec encodePublisherSetData "\<lambda>bs. decodePublisherSetData (Raw bs)"
    norm_data "\<lambda>d. isValidPublisherSetData d = Inr True"
proof
  fix d bs
  assume "isValidPublisherSetData d = Inr True" and "encodePublisherSetData d = Inr bs"
  then show "decodePublisherSetData (Raw bs) = Inr (norm_data d)"
    by (simp add: decode_iff_read reads_end[OF reads_data] valid_norm_data)
next
  fix bs d
  assume "decodePublisherSetData (Raw bs) = Inr d"
  then show "encodePublisherSetData d = Inr bs" and "isValidPublisherSetData d = Inr True"
    using parses_run_end[OF parses_data, of bs "''PublisherSetData''" d] by (auto simp: decode_iff_read)
qed

section \<open>Facts about sets\<close>

lemma quorum_bounds: "3 * quorum s > 2 * int (length (pubkeys s))"
    "3 * (quorum s - 1) \<le> 2 * int (length (pubkeys s))"
  by (simp_all add: quorum_def)

lemma quorum_le: "0 < length (pubkeys s) \<Longrightarrow> quorum s \<le> int (length (pubkeys s))"
  unfolding quorum_def by linarith

lemma quorum_pos [simp]: "0 < quorum s"
  unfolding quorum_def by linarith

definition hex_set :: "PublisherSet \<Rightarrow> bool" where
  "hex_set s \<longleftrightarrow> list_all isHex (pubkeys s)"

lemma valid_hex_set: "isValidPublisherSet s = Inr b \<Longrightarrow> hex_set s"
  by (auto simp: isValidPublisherSet_def ebind_eq_Inr emap_eq_Inr hex_set_def list_all_length
      list_all2_conv_all_nth hexToFixed_eq_Inr isHex_iff)

lemma valid_data_sets:
  assumes "isValidPublisherSetData d = Inr True"
  shows "isValidPublisherSet (currentSet d) = Inr True"
    "previousOf d = Some p \<Longrightarrow>
      isValidPublisherSet (previousSet p) = Inr True \<and> setIndex (previousSet p) + 1 = setIndex (currentSet d)"
  using assms by (auto simp: isValidPublisherSetData_def ebind_eq_Inr split: if_splits option.splits)

lemma isHex_no_comma: "isHex s \<Longrightarrow> CHR '','' \<notin> set s \<and> s \<noteq> []"
proof -
  assume h: "isHex s"
  have "s = take 2 s @ drop 2 s" by simp
  then have s: "s = ''0x'' @ drop 2 s" using h by (metis isHex_def)
  have "hex_value CHR '','' = None" by (simp add: hex_value_def)
  then have "CHR '','' \<notin> set (drop 2 s)" using h by (auto simp: isHex_def list_all_iff)
  then have "CHR '','' \<notin> set (''0x'' @ drop 2 s) \<and> ''0x'' @ drop 2 s \<noteq> []" by simp
  then show ?thesis using s by metis
qed

lemma split_at_comma:
  assumes "x @ CHR '','' # r = y @ CHR '','' # t" and "CHR '','' \<notin> set x" and "CHR '','' \<notin> set y"
  shows "x = y \<and> r = t"
  using assms
proof (induction x arbitrary: y)
  case Nil
  then show ?case by (cases y) auto
next
  case (Cons c x)
  then show ?case by (cases y) auto
qed

lemma join_comma_inj:
  "list_all isHex xs \<Longrightarrow> list_all isHex ys \<Longrightarrow> join_comma xs = join_comma ys \<longleftrightarrow> xs = ys"
proof (induction xs arbitrary: ys rule: join_comma.induct)
  case 1
  show ?case using isHex_no_comma 1 by (cases ys rule: join_comma.cases) auto
next
  case (2 x)
  then have x: "CHR '','' \<notin> set x" "x \<noteq> []" using isHex_no_comma[of x] by auto
  then show ?case by (cases ys rule: join_comma.cases) auto
next
  case (3 x y xs)
  show ?case
  proof (cases ys rule: join_comma.cases)
    case (3 u v vs)
    have x: "CHR '','' \<notin> set x" and u: "CHR '','' \<notin> set u"
      using "3.prems" 3 isHex_no_comma by auto
    have "join_comma (x # y # xs) = join_comma ys \<longleftrightarrow> x = u \<and> join_comma (y # xs) = join_comma (v # vs)"
      unfolding 3 join_comma.simps(3) using split_at_comma[OF _ x u] by blast
    then show ?thesis using "3.IH"[of "v # vs"] "3.prems" 3 by simp
  next
    case (2 u)
    then show ?thesis using "3.prems" isHex_no_comma[of u] by auto
  qed auto
qed

lemma sameSet_iff: "hex_set a \<Longrightarrow> hex_set b \<Longrightarrow> sameSet a b \<longleftrightarrow> a = b"
  by (cases a, cases b) (simp add: sameSet_def hex_set_def join_comma_inj)

section \<open>Histories of transitions\<close>

text \<open>
  \<open>history d n d'\<close>: \<open>d'\<close> is a valid state reached from the valid state \<open>d\<close> by \<open>n\<close> transitions that
  \<open>transitionError\<close> accepts, whatever their operations.
\<close>

inductive history :: "PublisherSetData \<Rightarrow> nat \<Rightarrow> PublisherSetData \<Rightarrow> bool" where
  start: "isValidPublisherSetData d = Inr True \<Longrightarrow> history d 0 d"
| step: "history d n d' \<Longrightarrow> isValidPublisherSetData d'' = Inr True \<Longrightarrow>
    transitionError d' d'' operation = None \<Longrightarrow> history d (Suc n) d''"

lemma history_valid: "history d n d' \<Longrightarrow> isValidPublisherSetData d' = Inr True"
  by (induction rule: history.induct) auto

lemma history_valid_start: "history d n d' \<Longrightarrow> isValidPublisherSetData d = Inr True"
  by (induction rule: history.induct) auto

text \<open>The key set a state trusts under an index.\<close>

definition trusted_set :: "PublisherSetData \<Rightarrow> int \<Rightarrow> PublisherSet option" where
  "trusted_set d i =
    (if i = setIndex (currentSet d) then Some (currentSet d)
     else case previousOf d of
       None \<Rightarrow> None
     | Some p \<Rightarrow> if setIndex (previousSet p) = i then Some (previousSet p) else None)"

lemma trustsSet_iff: "trustsSet d i \<longleftrightarrow> trusted_set d i \<noteq> None"
  by (auto simp: trustsSet_def trusted_set_def split: option.splits)

lemma setFor_trusted: "setFor d i t = Some s \<Longrightarrow> trusted_set d i = Some s"
  by (auto simp: setFor_def trusted_set_def split: option.splits if_splits)

lemma samePrevious_iff:
  assumes "\<And>p. a = Some p \<Longrightarrow> hex_set (previousSet p)" and "\<And>p. b = Some p \<Longrightarrow> hex_set (previousSet p)"
  shows "samePrevious a b \<longleftrightarrow> a = b"
  using assms by (cases a; cases b) (auto simp: samePrevious_def sameSet_iff)

text \<open>What an accepted transition does to the sets, for valid states.\<close>

lemma transition_cases:
  assumes "isValidPublisherSetData d = Inr True" and "isValidPublisherSetData d' = Inr True"
    and ok: "transitionError d d' operation = None"
  obtains
    (rotate) p where "operation = OP_ROTATE" "governanceFlags d' = governanceFlags d"
      "setIndex (currentSet d') = setIndex (currentSet d) + 1"
      "previousOf d' = Some p" "previousSet p = currentSet d"
      "\<And>q. previousOf d = Some q \<Longrightarrow> untilMs p > untilMs q"
  | (revoke_all) "operation = OP_ROTATE_REVOKE" "governanceFlags d' = governanceFlags d"
      "setIndex (currentSet d') = setIndex (currentSet d) + 1" "previousOf d' = None"
  | (flags) "operation = OP_PAUSE \<and> \<not> isPaused d \<or> operation = OP_UNPAUSE \<and> isPaused d"
      "currentSet d' = currentSet d" "previousOf d' = previousOf d"
  | (revoke) q where "operation = OP_REVOKE_PREVIOUS" "governanceFlags d' = governanceFlags d"
      "previousOf d = Some q" "currentSet d' = currentSet d" "previousOf d' = None"
proof -
  have hex: "hex_set (currentSet d)" "hex_set (currentSet d')"
      "\<And>p. previousOf d = Some p \<Longrightarrow> hex_set (previousSet p)"
      "\<And>p. previousOf d' = Some p \<Longrightarrow> hex_set (previousSet p)"
    using valid_data_sets[OF assms(1)] valid_data_sets[OF assms(2)] valid_hex_set by blast+
  note same = sameSet_iff[OF hex(2,1)] samePrevious_iff[OF hex(4,3)] sameSet_iff[OF hex(4) hex(1)]
  consider "operation = OP_ROTATE" | "operation = OP_ROTATE_REVOKE" | "operation = OP_PAUSE"
    | "operation = OP_UNPAUSE" | "operation = OP_REVOKE_PREVIOUS"
    using ok by (auto simp: transitionError_def Let_def split: if_splits)
  then show thesis
  proof cases
    case 1
    then show thesis using ok rotate same
      by (auto simp: transitionError_def Let_def protocol_constants split: if_splits option.splits)
  next
    case 2
    then show thesis using ok revoke_all
      by (auto simp: transitionError_def Let_def protocol_constants split: if_splits)
  next
    case 3
    then show thesis using ok flags same
      by (auto simp: transitionError_def Let_def protocol_constants split: if_splits)
  next
    case 4
    then show thesis using ok flags same
      by (auto simp: transitionError_def Let_def protocol_constants split: if_splits)
  next
    case 5
    then show thesis using ok revoke same
      by (auto simp: transitionError_def Let_def protocol_constants split: if_splits)
  qed
qed

lemma transition_nonce: "transitionError d d' operation = None \<Longrightarrow> governanceNonce d' = governanceNonce d + 1"
  by (auto simp: transitionError_def split: if_splits)

lemma transition_network:
  "transitionError d d' operation = None \<Longrightarrow>
   toLowerCase (networkId d') = toLowerCase (networkId d) \<and> minRotationIntervalS d' = minRotationIntervalS d"
  by (auto simp: transitionError_def split: if_splits)

lemma transition_index:
  assumes "isValidPublisherSetData d = Inr True" "isValidPublisherSetData d' = Inr True"
    and "transitionError d d' operation = None"
  shows "setIndex (currentSet d) \<le> setIndex (currentSet d') \<and>
    setIndex (currentSet d') \<le> setIndex (currentSet d) + 1"
  using assms by (cases rule: transition_cases) auto

text \<open>An index that is already in use keeps its key set or loses its trust.\<close>

lemma transition_trusted:
  assumes "isValidPublisherSetData d = Inr True" "isValidPublisherSetData d' = Inr True"
    and "transitionError d d' operation = None"
    and "i \<le> setIndex (currentSet d)" and "trusted_set d' i = Some s"
  shows "trusted_set d i = Some s"
  using assms(1-3)
proof (cases rule: transition_cases)
  case (rotate p)
  then show ?thesis using assms(4,5) valid_data_sets(2)[OF assms(2)]
    by (auto simp: trusted_set_def split: if_splits)
next
  case revoke_all
  then show ?thesis using assms(4,5) by (auto simp: trusted_set_def split: if_splits)
next
  case flags
  then show ?thesis using assms(5) by (auto simp: trusted_set_def split: if_splits)
next
  case (revoke q)
  then show ?thesis using assms(5) by (auto simp: trusted_set_def split: if_splits)
qed

lemma history_index:
  "history d n d' \<Longrightarrow> setIndex (currentSet d) \<le> setIndex (currentSet d') \<and>
    setIndex (currentSet d') \<le> setIndex (currentSet d) + int n"
proof (induction rule: history.induct)
  case (step d n d' d'' operation)
  then show ?case
    using transition_index[OF history_valid[OF step.hyps(1)] step.hyps(2,3)] by auto
qed simp

lemma history_trusted:
  "history d n d' \<Longrightarrow> i \<le> setIndex (currentSet d) \<Longrightarrow> trusted_set d' i = Some s \<Longrightarrow> trusted_set d i = Some s"
proof (induction arbitrary: s rule: history.induct)
  case (step d n d' d'' operation)
  then have "i \<le> setIndex (currentSet d')" using history_index[OF step.hyps(1)] by simp
  with step show ?case
    using transition_trusted[OF history_valid[OF step.hyps(1)] step.hyps(2,3)] by blast
qed simp

text \<open>A committee of four keys and its rotation, for the witnesses.\<close>

definition demo_key :: "byte \<Rightarrow> hex" where
  "demo_key n = bytesToHex (2 # n # replicate 31 0)"

definition demo_set :: "int \<Rightarrow> PublisherSet" where
  "demo_set i = \<lparr>setIndex = i, pubkeys = map demo_key [1, 2, 3, 4]\<rparr>"

definition demo_committee :: PublisherSetData where
  "demo_committee = \<lparr>networkId = bytesToHex (replicate 32 7), governanceNonce = 5, governanceFlags = 0,
     minRotationIntervalS = 86400, currentSet = demo_set 1, previousOf = None\<rparr>"

definition demo_rotated :: PublisherSetData where
  "demo_rotated = demo_committee\<lparr>governanceNonce := 6, currentSet := demo_set 2,
     previousOf := Some \<lparr>previousSet = demo_set 1, untilMs = 9000\<rparr>\<rparr>"

lemma hexToFixed_demo_key [simp]: "hexToFixed (demo_key n) 33 = Inr (2 # n # replicate 31 0)"
  by (simp add: demo_key_def)

lemma demo_set_simps [simp]:
  "setIndex (demo_set i) = i" "pubkeys (demo_set i) = map demo_key [1, 2, 3, 4]"
  by (simp_all add: demo_set_def)

lemma demo_set_valid [simp]: "isValidPublisherSet (demo_set i) = Inr True"
  by (simp add: isValidPublisherSet_def MAX_PUBLISHERS_def upt_rec)

lemma demo_valid: "isValidPublisherSetData demo_committee = Inr True" "isValidPublisherSetData demo_rotated = Inr True"
  by (simp_all add: isValidPublisherSetData_def demo_committee_def demo_rotated_def js_and_def js_not_def
      asIntN_def GOVERNANCE_PAUSED_def)

lemma demo_history: "history demo_committee 1 demo_rotated"
proof -
  have "transitionError demo_committee demo_rotated OP_ROTATE = None"
    by (simp add: transitionError_def demo_committee_def demo_rotated_def sameSet_def)
  from history.step[OF history.start[OF demo_valid(1)] demo_valid(2) this] show ?thesis by simp
qed

section \<open>Properties\<close>

text \<open>Decoding the committee cell is exactly inverse to encoding it: the bytes that decode
  to a state are the encoding of that state, the state is valid with lower-case hex fields, and every
  such state decodes from its encoding.\<close>

theorem publisher_set_roundtrip:
  "decodePublisherSetData (Raw bs) = Inr d \<longleftrightarrow>
    isValidPublisherSetData d = Inr True \<and> encodePublisherSetData d = Inr bs \<and> norm_data d = d"
  by (rule set_codec.dec_iff)

text \<open>Claim C8: along every history of accepted governance transitions the nonce counts the
  transitions, the set index never goes back and grows by at most one per transition, the network and
  the rotation interval never change, and an index already in use keeps the key set it names: a set
  that lost its trust never gets it back.\<close>

theorem governance_history_safe:
  assumes "history d n d'"
  shows "governanceNonce d' = governanceNonce d + int n \<and>
    setIndex (currentSet d) \<le> setIndex (currentSet d') \<and>
    setIndex (currentSet d') \<le> setIndex (currentSet d) + int n \<and>
    toLowerCase (networkId d') = toLowerCase (networkId d) \<and>
    minRotationIntervalS d' = minRotationIntervalS d \<and>
    (\<forall>i s t. i \<le> setIndex (currentSet d) \<and> setFor d' i t = Some s \<longrightarrow> trusted_set d i = Some s) \<and>
    (\<forall>i. i \<le> setIndex (currentSet d) \<and> \<not> trustsSet d i \<longrightarrow> \<not> trustsSet d' i)"
proof -
  have "governanceNonce d' = governanceNonce d + int n \<and> toLowerCase (networkId d') = toLowerCase (networkId d) \<and>
      minRotationIntervalS d' = minRotationIntervalS d"
    using assms
  proof (induction rule: history.induct)
    case (step d n d' d'' operation)
    then show ?case using transition_nonce[OF step.hyps(3)] transition_network[OF step.hyps(3)] by simp
  qed simp
  moreover note history_index[OF assms]
  moreover have "trusted_set d i = Some s" if "i \<le> setIndex (currentSet d)" "setFor d' i t = Some s" for i s t
    using history_trusted[OF assms that(1) setFor_trusted[OF that(2)]] .
  moreover have "\<not> trustsSet d' i" if "i \<le> setIndex (currentSet d)" "\<not> trustsSet d i" for i
    using history_trusted[OF assms that(1)] that(2)
    by (cases "trusted_set d' i") (auto simp: trustsSet_iff)
  ultimately show ?thesis by blast
qed

theorem governance_history_safe_witness:
  "governanceNonce demo_rotated = governanceNonce demo_committee + int 1 \<and>
    setFor demo_rotated 1 8999 = Some (demo_set 1) \<and> trusted_set demo_committee 1 = Some (demo_set 1) \<and>
    \<not> trustsSet demo_rotated 0"
proof -
  have "setFor demo_rotated 1 8999 = Some (demo_set 1)"
    by (simp add: setFor_def demo_rotated_def demo_committee_def)
  moreover have "\<not> trustsSet demo_committee 0" "setIndex (currentSet demo_committee) = 1"
    by (simp_all add: trustsSet_def demo_committee_def)
  ultimately show ?thesis using governance_history_safe[OF demo_history] by auto
qed

end
