(* ===== verification/Signatures.thy ===== *)
theory Signatures
  imports Publisher_Set
begin

text \<open>
  \<open>packages/sdk/src/protocol/signatures.ts\<close>: bundles of recoverable signatures and the quorum check.
  Lemmas: the bundle format is a \<open>codec\<close>, also as a prefix of a longer array; \<open>verifyThreshold\<close>
  accepts exactly the bundles of a quorum of distinct signers of the set. The locale
  \<open>quorum_system\<close> holds the intersection argument.
\<close>

section \<open>The code\<close>

record IndexedSignature =
  publisherIndex :: int
  signature :: hex

type_synonym SignatureBundle = "IndexedSignature list"

definition writeSignature :: "IndexedSignature \<Rightarrow> writing list" where
  "writeSignature entry = [w_u8 (publisherIndex entry), w_hex (signature entry) SIGNATURE_LEN]"

definition encodeSignatureBundle :: "SignatureBundle \<Rightarrow> bytes result" where
  "encodeSignatureBundle bundle =
    run_writer (w_u8 (int (length bundle)) # concat (map writeSignature bundle))"

definition readSignature :: "IndexedSignature reading" where
  "readSignature =
    rbind r_u8 (\<lambda>i.
    rbind (r_hex SIGNATURE_LEN) (\<lambda>s.
    rret \<lparr>publisherIndex = i, signature = s\<rparr>))"

definition readSignatureBundle :: "SignatureBundle reading" where
  "readSignatureBundle = rbind r_u8 (\<lambda>count. r_repeat (nat count) readSignature)"

text \<open>The bundle at the start of the array and the number of bytes it uses.\<close>

definition decodeSignatureBundlePrefix :: "bytes \<Rightarrow> (SignatureBundle \<times> nat) result" where
  "decodeSignatureBundlePrefix data =
    ebind (readSignatureBundle (reader_of data ''SignatureBundle'')) (\<lambda>(bundle, reader).
    Inr (bundle, rd_offset reader))"

definition decodeSignatureBundle :: "bytes_like \<Rightarrow> SignatureBundle result" where
  "decodeSignatureBundle b =
    ebind (toBytes b) (\<lambda>data.
    ebind (decodeSignatureBundlePrefix data) (\<lambda>(bundle, used).
    if used \<noteq> length data then Inl (DecodeError ''SignatureBundle: trailing bytes'') else Inr bundle))"

definition recoverSigner :: "crypto \<Rightarrow> bytes_like \<Rightarrow> bytes_like \<Rightarrow> hex option result" where
  "recoverSigner C digest sig =
    ebind (toBytes sig) (\<lambda>raw.
    if length raw \<noteq> SIGNATURE_LEN \<or> raw ! 64 > 3 then Inr None
    else if \<not> sec_fromCompact C (take 64 raw) then Inr None
    else if sec_hasHighS C (take 64 raw) then Inr None
    else case toBytes digest of
      Inl _ \<Rightarrow> Inr None
    | Inr d \<Rightarrow>
        (case sec_recover C (take 64 raw) (unat (raw ! 64)) d of
           None \<Rightarrow> Inr None
         | Some key \<Rightarrow> Inr (Some (bytesToHex key))))"

definition signedBy :: "crypto \<Rightarrow> bytes \<Rightarrow> IndexedSignature \<Rightarrow> hex \<Rightarrow> bool result" where
  "signedBy C digest entry expected =
    ebind (recoverSigner C (Raw digest) (HexStr (signature entry))) (\<lambda>recovered.
    case recovered of
      None \<Rightarrow> Inr False
    | Some r \<Rightarrow>
        ebind (hexToBytes r) (\<lambda>a.
        ebind (hexToBytes expected) (\<lambda>b.
        Inr (equalBytes a b))))"

definition verifyThreshold :: "crypto \<Rightarrow> SignatureBundle \<Rightarrow> bytes_like \<Rightarrow> PublisherSet \<Rightarrow> bool result" where
  "verifyThreshold C bundle digest s =
    ebind (toBytes digest) (\<lambda>hash.
    if int (length bundle) < quorum s \<or> length bundle > length (pubkeys s) then Inr False
    else eall (\<lambda>(i, entry).
      if \<not> (i = 0 \<or> publisherIndex entry > publisherIndex (bundle ! (i - 1))) then Inr False
      else case at_index (pubkeys s) (publisherIndex entry) of
        None \<Rightarrow> Inr False
      | Some key \<Rightarrow> signedBy C hash entry key) (enumerate 0 bundle))"

definition verifyAll :: "crypto \<Rightarrow> SignatureBundle \<Rightarrow> bytes_like \<Rightarrow> PublisherSet \<Rightarrow> bool result" where
  "verifyAll C bundle digest s =
    ebind (toBytes digest) (\<lambda>hash.
    if length bundle \<noteq> length (pubkeys s) then Inr False
    else eall (\<lambda>(i, entry).
      if publisherIndex entry \<noteq> int i then Inr False
      else signedBy C hash entry (pubkeys s ! i)) (enumerate 0 bundle))"

text \<open>\<open>packages/sdk/src/publisher/sign.ts\<close>, \<open>toSignatureBundle\<close>.\<close>

definition toSignatureBundle :: "IndexedSignature list \<Rightarrow> SignatureBundle result" where
  "toSignatureBundle signatures =
    (let sorted_bundle = sort_key publisherIndex signatures
     in if list_ex (\<lambda>i. i > 0 \<and> publisherIndex (sorted_bundle ! i) = publisherIndex (sorted_bundle ! (i - 1)))
           [0..<length sorted_bundle]
        then Inl (RangeError ''duplicate publisher'') else Inr sorted_bundle)"

section \<open>The format is a codec\<close>

definition norm_signature :: "IndexedSignature \<Rightarrow> IndexedSignature" where
  "norm_signature e = e\<lparr>signature := toLowerCase (signature e)\<rparr>"

lemma uniform_writeSignature [simp]: "list_all uniform (writeSignature e)"
  by (simp add: writeSignature_def)

lemma writeSignature_iff:
  "run_writer (writeSignature e) = Inr bs \<longleftrightarrow> is_u8 (publisherIndex e) \<and>
    (\<exists>p. hexToFixed (signature e) SIGNATURE_LEN = Inr p \<and> bs = int_bytes 1 (publisherIndex e) @ p)"
  by (auto simp: writeSignature_def)

lemma reads_signature: "run_writer (writeSignature e) = Inr bs \<Longrightarrow> reads readSignature bs (norm_signature e)"
proof -
  assume "run_writer (writeSignature e) = Inr bs"
  then obtain p where *: "is_u8 (publisherIndex e)" "hexToFixed (signature e) SIGNATURE_LEN = Inr p"
      "bs = int_bytes 1 (publisherIndex e) @ p @ []"
    by (auto simp: writeSignature_iff)
  show ?thesis
    unfolding readSignature_def *(3) by (intro reads_then; (rule *)?) (simp add: norm_signature_def)
qed

lemma parses_signature:
  "parses readSignature (\<lambda>bs e. run_writer (writeSignature e) = Inr bs \<and> norm_signature e = e)"
  unfolding readSignature_def
  by (rule parses_mono[OF parses_bind[OF parses_ints(1) parses_bind[OF parses_hexToFixed parses_ret]]])
     (auto simp: writeSignature_iff norm_signature_def)

lemma encodeSignatureBundle_iff:
  "encodeSignatureBundle sigs = Inr bs \<longleftrightarrow> is_u8 (int (length sigs)) \<and>
    (\<exists>parts. list_all2 (\<lambda>e p. run_writer (writeSignature e) = Inr p) sigs parts \<and>
      bs = int_bytes 1 (int (length sigs)) @ concat parts)"
  by (auto simp: encodeSignatureBundle_def run_writer_concat uniform_concat)

lemma reads_bundle:
  assumes "encodeSignatureBundle sigs = Inr bs"
  shows "reads readSignatureBundle bs (map norm_signature sigs)"
proof -
  from assms obtain parts where *: "is_u8 (int (length sigs))"
      "list_all2 (\<lambda>e p. run_writer (writeSignature e) = Inr p) sigs parts"
      "bs = int_bytes 1 (int (length sigs)) @ concat parts"
    by (auto simp: encodeSignatureBundle_iff)
  have "list_all2 (reads readSignature) parts (map norm_signature sigs)"
    using *(2) by (auto simp: list_all2_conv_all_nth reads_signature)
  then have "reads (r_repeat (nat (int (length sigs))) readSignature) (concat parts) (map norm_signature sigs)"
    by (rule reads_repeat) simp
  then show ?thesis
    unfolding readSignatureBundle_def *(3) by (rule reads_then(3)[OF *(1)])
qed

lemma parses_bundle:
  "parses readSignatureBundle (\<lambda>bs sigs. encodeSignatureBundle sigs = Inr bs \<and> map norm_signature sigs = sigs)"
  unfolding readSignatureBundle_def
proof (rule parses_mono[OF parses_bind[OF parses_ints(1) parses_repeat[OF parses_signature]]], clarify)
  fix c parts sigs
  assume c: "is_u8 c" "length sigs = nat c"
    and *: "list_all2 (\<lambda>p e. run_writer (writeSignature e) = Inr p \<and> norm_signature e = e) parts sigs"
  have "c = int (length sigs)" using c by (simp add: is_u8_def)
  moreover have "list_all2 (\<lambda>e p. run_writer (writeSignature e) = Inr p) sigs parts"
    using * by (auto simp: list_all2_conv_all_nth)
  moreover have "map norm_signature sigs = sigs"
    using * by (intro nth_equalityI) (auto simp: list_all2_conv_all_nth)
  ultimately show "encodeSignatureBundle sigs = Inr (int_bytes 1 c @ concat parts) \<and>
      map norm_signature sigs = sigs"
    using c(1) by (auto simp: encodeSignatureBundle_iff)
qed

lemma decode_prefix_encode:
  "encodeSignatureBundle sigs = Inr bs \<Longrightarrow>
   decodeSignatureBundlePrefix (bs @ cs) = Inr (map norm_signature sigs, length bs)"
  by (simp add: decodeSignatureBundlePrefix_def reads_prefix[OF reads_bundle])

lemma encode_decode_prefix:
  "decodeSignatureBundlePrefix data = Inr (sigs, used) \<Longrightarrow>
   encodeSignatureBundle sigs = Inr (take used data) \<and> used \<le> length data \<and> map norm_signature sigs = sigs"
  using parses_prefix[OF parses_bundle, of data "''SignatureBundle''" sigs]
  by (fastforce simp: decodeSignatureBundlePrefix_def ebind_eq_Inr)

interpretation bundle_codec: codec encodeSignatureBundle "\<lambda>bs. decodeSignatureBundle (Raw bs)"
    "map norm_signature" "\<lambda>_. True"
proof
  fix sigs bs
  assume "encodeSignatureBundle sigs = Inr bs"
  from decode_prefix_encode[OF this, of "[]"]
  show "decodeSignatureBundle (Raw bs) = Inr (map norm_signature sigs)"
    by (simp add: decodeSignatureBundle_def)
next
  fix bs sigs
  assume "decodeSignatureBundle (Raw bs) = Inr sigs"
  then have "decodeSignatureBundlePrefix bs = Inr (sigs, length bs)"
    by (auto simp: decodeSignatureBundle_def ebind_eq_Inr split: if_splits)
  from encode_decode_prefix[OF this] show "encodeSignatureBundle sigs = Inr bs" by simp
qed simp

section \<open>Who signed\<close>

text \<open>\<open>signs C hash s i\<close>: somebody holds a signature of \<open>hash\<close> that recovers to the key of index \<open>i\<close>.\<close>

definition signature_of :: "crypto \<Rightarrow> bytes \<Rightarrow> PublisherSet \<Rightarrow> int \<Rightarrow> hex \<Rightarrow> bool" where
  "signature_of C hash s i sig \<longleftrightarrow>
    (\<exists>key r bs. at_index (pubkeys s) i = Some key \<and>
      recoverSigner C (Raw hash) (HexStr sig) = Inr (Some r) \<and>
      hexToBytes r = Inr bs \<and> hexToBytes key = Inr bs)"

definition signs :: "crypto \<Rightarrow> bytes \<Rightarrow> PublisherSet \<Rightarrow> int \<Rightarrow> bool" where
  "signs C hash s i \<longleftrightarrow> (\<exists>sig. signature_of C hash s i sig)"

lemma signedBy_True:
  "signedBy C hash e key = Inr True \<longleftrightarrow>
    (\<exists>r bs. recoverSigner C (Raw hash) (HexStr (signature e)) = Inr (Some r) \<and>
      hexToBytes r = Inr bs \<and> hexToBytes key = Inr bs)"
  by (auto simp: signedBy_def ebind_eq_Inr split: option.splits)

lemma verifyThreshold_True:
  assumes "toBytes digest = Inr hash"
  shows "verifyThreshold C sigs digest s = Inr True \<longleftrightarrow>
    quorum s \<le> int (length sigs) \<and> length sigs \<le> length (pubkeys s) \<and>
    ascending_by (<) (map publisherIndex sigs) \<and>
    (\<forall>e \<in> set sigs. signature_of C hash s (publisherIndex e) (signature e))"
proof -
  have step: "((if \<not> (i = 0 \<or> publisherIndex e > publisherIndex (sigs ! (i - 1))) then Inr False
      else case at_index (pubkeys s) (publisherIndex e) of
        None \<Rightarrow> Inr False | Some key \<Rightarrow> signedBy C hash e key) = Inr True) \<longleftrightarrow>
    (i = 0 \<or> publisherIndex e > publisherIndex (sigs ! (i - 1))) \<and>
      signature_of C hash s (publisherIndex e) (signature e)" for i e
    by (auto simp: signature_of_def signedBy_True split: option.splits)
  have every: "eall (\<lambda>(i, entry).
      if \<not> (i = 0 \<or> publisherIndex entry > publisherIndex (sigs ! (i - 1))) then Inr False
      else case at_index (pubkeys s) (publisherIndex entry) of
        None \<Rightarrow> Inr False | Some key \<Rightarrow> signedBy C hash entry key) (enumerate 0 sigs) = Inr True \<longleftrightarrow>
    (\<forall>i < length sigs. (i = 0 \<or> publisherIndex (sigs ! i) > publisherIndex (sigs ! (i - 1))) \<and>
      signature_of C hash s (publisherIndex (sigs ! i)) (signature (sigs ! i)))"
    by (simp only: eall_enumerate split_conv step)
  have "ascending_by (<) (map publisherIndex sigs) \<longleftrightarrow>
      (\<forall>i < length sigs. i = 0 \<or> publisherIndex (sigs ! i) > publisherIndex (sigs ! (i - 1)))"
    by (auto simp: ascending_by_nth)
  then show ?thesis
    using assms every unfolding verifyThreshold_def all_set_conv_all_nth by auto
qed

text \<open>The bundle holds signatures of a quorum of distinct publishers over the digest.\<close>

definition quorum_signed :: "crypto \<Rightarrow> SignatureBundle \<Rightarrow> bytes_like \<Rightarrow> PublisherSet \<Rightarrow> bool" where
  "quorum_signed C sigs digest s \<longleftrightarrow>
    (\<exists>hash. toBytes digest = Inr hash \<and>
      quorum s \<le> int (length sigs) \<and> length sigs \<le> length (pubkeys s) \<and>
      ascending_by (<) (map publisherIndex sigs) \<and>
      (\<forall>e \<in> set sigs. signature_of C hash s (publisherIndex e) (signature e)))"

lemma verifyThreshold_quorum: "verifyThreshold C sigs digest s = Inr True \<longleftrightarrow> quorum_signed C sigs digest s"
proof (cases "toBytes digest")
  case (Inl e)
  then show ?thesis by (simp add: verifyThreshold_def quorum_signed_def)
next
  case (Inr hash)
  then show ?thesis by (simp add: verifyThreshold_True quorum_signed_def)
qed

lemma accepted_signers:
  assumes "toBytes digest = Inr hash" and "verifyThreshold C sigs digest s = Inr True"
  shows "publisherIndex ` set sigs \<subseteq> {0..<int (length (pubkeys s))}"
    "int (card (publisherIndex ` set sigs)) \<ge> quorum s"
    "\<And>i. i \<in> publisherIndex ` set sigs \<Longrightarrow> signs C hash s i"
proof -
  note v = assms(2)[unfolded verifyThreshold_True[OF assms(1)]]
  show "publisherIndex ` set sigs \<subseteq> {0..<int (length (pubkeys s))}"
    using v by (auto simp: signature_of_def at_index_Some)
  have "distinct (map publisherIndex sigs)"
    using v by (intro ascending_by_distinct[of "(<)"]) auto
  then have "card (publisherIndex ` set sigs) = length sigs"
    by (metis distinct_card length_map list.set_map)
  with v show "int (card (publisherIndex ` set sigs)) \<ge> quorum s" by simp
  show "signs C hash s i" if "i \<in> publisherIndex ` set sigs" for i
    using v that by (auto simp: signs_def)
qed

section \<open>Quorums\<close>

text \<open>Any two quorums of more than two thirds share more than a third of the members.\<close>

locale quorum_system =
  fixes members :: "'p set" and q :: nat
  assumes finite_members: "finite members"
    and two_thirds: "2 * card members < 3 * q"
begin

lemma overlap:
  assumes "A \<subseteq> members" "B \<subseteq> members" "q \<le> card A" "q \<le> card B"
  shows "card members < 3 * card (A \<inter> B)"
proof -
  have "finite A" "finite B" using assms(1,2) finite_members finite_subset by auto
  then have "card A + card B = card (A \<union> B) + card (A \<inter> B)" by (rule card_Un_Int)
  moreover have "card (A \<union> B) \<le> card members"
    using assms(1,2) finite_members by (intro card_mono) auto
  ultimately show ?thesis using assms(3,4) two_thirds by linarith
qed

lemma honest_member:
  assumes "A \<subseteq> members" "B \<subseteq> members" "q \<le> card A" "q \<le> card B"
    and "F \<subseteq> members" "3 * card F \<le> card members"
  shows "\<exists>p \<in> A \<inter> B. p \<notin> F"
proof (rule ccontr)
  assume "\<not> (\<exists>p \<in> A \<inter> B. p \<notin> F)"
  then have "card (A \<inter> B) \<le> card F"
    using assms(5) finite_members finite_subset by (intro card_mono) auto
  with overlap[OF assms(1-4)] assms(6) show False by linarith
qed

end

interpretation publisher_quorum: quorum_system "{0..<int (length (pubkeys s))}" "nat (quorum s)" for s
  by unfold_locales (use quorum_bounds(1)[of s] in auto)

section \<open>Bundling\<close>

lemma toSignatureBundle_iff:
  "toSignatureBundle sigs = Inr b \<longleftrightarrow> distinct (map publisherIndex sigs) \<and> b = sort_key publisherIndex sigs"
proof -
  have "distinct (map publisherIndex (sort_key publisherIndex sigs)) \<longleftrightarrow> distinct (map publisherIndex sigs)"
  proof -
    have "mset (map publisherIndex (sort_key publisherIndex sigs)) = mset (map publisherIndex sigs)" by simp
    then show ?thesis by (metis mset_eq_imp_distinct_iff)
  qed
  with adjacent_distinct[of publisherIndex "sort_key publisherIndex sigs" publisherIndex]
  show ?thesis by (auto simp: toSignatureBundle_def Let_def)
qed

lemma distinct_signers_fit:
  assumes "distinct (map publisherIndex sigs)"
    and "\<forall>e \<in> set sigs. signature_of C hash s (publisherIndex e) (signature e)"
  shows "length sigs \<le> length (pubkeys s)"
proof -
  have "publisherIndex ` set sigs \<subseteq> {0..<int (length (pubkeys s))}"
    using assms(2) by (auto simp: signature_of_def at_index_Some)
  then have "card (publisherIndex ` set sigs) \<le> card {0..<int (length (pubkeys s))}" by (rule card_mono[rotated]) simp
  moreover have "card (publisherIndex ` set sigs) = length sigs"
    using assms(1) by (metis distinct_card length_map list.set_map)
  ultimately show ?thesis by simp
qed

lemma bundle_verifies:
  assumes "toBytes digest = Inr hash" "distinct (map publisherIndex sigs)" "quorum s \<le> int (length sigs)"
    and sig: "\<forall>e \<in> set sigs. signature_of C hash s (publisherIndex e) (signature e)"
  shows "toSignatureBundle sigs = Inr (sort_key publisherIndex sigs) \<and>
    verifyThreshold C (sort_key publisherIndex sigs) digest s = Inr True"
proof -
  have b: "toSignatureBundle sigs = Inr (sort_key publisherIndex sigs)"
    using assms(2) by (simp add: toSignatureBundle_iff)
  have "mset (map publisherIndex (sort_key publisherIndex sigs)) = mset (map publisherIndex sigs)" by simp
  then have "distinct (map publisherIndex (sort_key publisherIndex sigs))"
    using assms(2) by (metis mset_eq_imp_distinct_iff)
  then have "ascending_by (<) (map publisherIndex (sort_key publisherIndex sigs))"
    by (simp add: sorted_ascending)
  then show ?thesis
    using b assms(3) sig distinct_signers_fit[OF assms(2) sig] by (simp add: verifyThreshold_True[OF assms(1)])
qed

text \<open>Signatures for the witnesses: the stand-in recovery reads the signer's key from the signature.\<close>

definition demo_signature :: "byte \<Rightarrow> hex" where
  "demo_signature n = bytesToHex ((2 # n # replicate 31 0) @ replicate 32 0)"

definition demo_bundle :: SignatureBundle where
  "demo_bundle = [\<lparr>publisherIndex = 0, signature = demo_signature 1\<rparr>,
     \<lparr>publisherIndex = 1, signature = demo_signature 2\<rparr>, \<lparr>publisherIndex = 3, signature = demo_signature 4\<rparr>]"

lemma demo_recover:
  "recoverSigner demo_crypto (Raw hash) (HexStr (demo_signature n)) = Inr (Some (demo_key n))"
  by (simp add: recoverSigner_def demo_signature_def SIGNATURE_LEN_def demo_crypto_def demo_key_def nth_append)

lemma demo_signature_of:
  assumes "at_index (map demo_key [1, 2, 3, 4]) i = Some (demo_key n)"
  shows "signature_of demo_crypto hash (demo_set k) i (demo_signature n)"
  unfolding signature_of_def
  by (rule exI[of _ "demo_key n"], rule exI[of _ "demo_key n"])
     (use assms in \<open>simp add: demo_recover demo_key_def del: list.map\<close>)

lemma demo_bundle_signed:
  "\<forall>e \<in> set demo_bundle. signature_of demo_crypto hash (demo_set k) (publisherIndex e) (signature e)"
  by (auto simp: demo_bundle_def at_index_def intro!: demo_signature_of)

lemma demo_bundle_shape:
  "quorum (demo_set k) = 3" "length demo_bundle = 3" "ascending_by (<) (map publisherIndex demo_bundle)"
  by (simp_all add: quorum_def demo_bundle_def)

lemma demo_bundle_accepted:
  "toBytes d = Inr hash \<Longrightarrow> verifyThreshold demo_crypto demo_bundle d (demo_set k) = Inr True"
  using demo_bundle_signed by (simp add: verifyThreshold_True demo_bundle_shape)

lemma demo_bundle_verified: "verifyThreshold demo_crypto demo_bundle (Raw hash) (demo_set k) = Inr True"
  by (rule demo_bundle_accepted) simp

section \<open>Properties\<close>

text \<open>Claim C7: \<open>verifyThreshold\<close> accepts a bundle exactly when it holds between a quorum and all of the
  set's signatures, in strictly ascending index order, each of which recovers to the key of its index.\<close>

theorem threshold_characterised:
  "verifyThreshold C sigs digest s = Inr True \<longleftrightarrow>
    (\<exists>hash. toBytes digest = Inr hash \<and>
      quorum s \<le> int (length sigs) \<and> length sigs \<le> length (pubkeys s) \<and>
      ascending_by (<) (map publisherIndex sigs) \<and>
      list_all (\<lambda>e. signature_of C hash s (publisherIndex e) (signature e)) sigs)"
  using verifyThreshold_quorum[of C sigs digest s] unfolding quorum_signed_def list_all_iff .

text \<open>Two accepted bundles of one key set, over any two digests, have more than a third of the
  publishers in common: whoever gets two conflicting digests accepted has a double signature of more
  than a third of the committee.\<close>

theorem accepted_bundles_overlap:
  assumes "toBytes d1 = Inr h1" "toBytes d2 = Inr h2"
    and "verifyThreshold C sigs1 d1 s = Inr True" "verifyThreshold C sigs2 d2 s = Inr True"
  shows "\<exists>I \<subseteq> {0..<int (length (pubkeys s))}. length (pubkeys s) < 3 * card I \<and>
    (\<forall>i \<in> I. signs C h1 s i \<and> signs C h2 s i)"
proof -
  let ?A = "publisherIndex ` set sigs1" and ?B = "publisherIndex ` set sigs2"
  note a = accepted_signers[OF assms(1,3)] and b = accepted_signers[OF assms(2,4)]
  have "nat (quorum s) \<le> card ?A" "nat (quorum s) \<le> card ?B" using a(2) b(2) by auto
  from publisher_quorum.overlap[OF a(1) b(1) this]
  have "length (pubkeys s) < 3 * card (?A \<inter> ?B)" by simp
  with a b show ?thesis by (intro exI[of _ "?A \<inter> ?B"]) auto
qed

theorem accepted_bundles_overlap_witness:
  "\<exists>I. length (pubkeys (demo_set 1)) < 3 * card I \<and>
    I \<subseteq> {i. signs demo_crypto [1] (demo_set 1) i \<and> signs demo_crypto [2] (demo_set 1) i}"
proof -
  have "toBytes (Raw [1]) = Inr [1]" "toBytes (Raw [2]) = Inr [2]" by simp_all
  from accepted_bundles_overlap[OF this demo_bundle_verified[of _ 1] demo_bundle_verified[of _ 1]]
  show ?thesis by blast
qed

text \<open>Signatures of a quorum of distinct publishers, collected in any order, always bundle, and the
  bundle passes \<open>verifyThreshold\<close>; the bundle does not depend on the order they arrived in.\<close>

theorem collected_quorum_verifies:
  assumes "toBytes digest = Inr hash" "distinct (map publisherIndex sigs)" "quorum s \<le> int (length sigs)"
    and "\<forall>e \<in> set sigs. signature_of C hash s (publisherIndex e) (signature e)"
    and "mset sigs' = mset sigs"
  shows "\<exists>b. toSignatureBundle sigs = Inr b \<and> toSignatureBundle sigs' = Inr b \<and> verifyThreshold C b digest s = Inr True"
proof -
  have "mset (map publisherIndex sigs') = mset (map publisherIndex sigs)" using assms(5) by simp
  then have d: "distinct (map publisherIndex sigs')" using assms(2) by (metis mset_eq_imp_distinct_iff)
  then have "sort_key publisherIndex sigs' = sort_key publisherIndex sigs"
    using assms(5) by (intro sort_key_inj_key_eq) (simp_all add: distinct_map)
  with d bundle_verifies[OF assms(1-4)] show ?thesis by (simp add: toSignatureBundle_iff)
qed

theorem collected_quorum_verifies_witness:
  "\<exists>b. toSignatureBundle demo_bundle = Inr b \<and> toSignatureBundle (rev demo_bundle) = Inr b \<and>
    verifyThreshold demo_crypto b (Raw [7]) (demo_set 1) = Inr True"
proof -
  have "toBytes (Raw [7]) = Inr [7]" "distinct (map publisherIndex demo_bundle)"
    "quorum (demo_set 1) \<le> int (length demo_bundle)" "mset (rev demo_bundle) = mset demo_bundle"
    by (simp_all add: demo_bundle_shape demo_bundle_def)
  from collected_quorum_verifies[OF this(1-3) demo_bundle_signed this(4)] show ?thesis .
qed

end
