(* ===== verification/Price_Update.thy ===== *)
theory Price_Update
  imports Merkle Signatures
begin

text \<open>
  \<open>packages/sdk/src/protocol/priceUpdate.ts\<close>: the signed header, the per-feed messages, the update
  blob, and assembling an update from a tick's messages. Lemmas: the three formats are \<open>codec\<close>s with
  their fixed lengths; an assembled update holds every message once, in feed order, each with a proof
  that leads to the header's root; selecting feeds keeps that.
\<close>

section \<open>Data\<close>

record PriceUpdateHeader =
  h_publisherSetTypeHash :: hex
  h_setIndex :: int
  h_publishTimeMs :: int
  h_tickPeriodMs :: int
  h_configHash :: hex
  h_leafCount :: int
  h_merkleRoot :: hex

record PriceMessage =
  m_feedId :: hex
  m_price :: int
  m_conf :: int
  m_expo :: int
  m_prevPublishTimeMs :: int
  m_emaPrice :: int
  m_emaConf :: int
  m_sourceTimeMs :: int
  m_numPublishers :: int

record UpdateEntry =
  e_message :: PriceMessage
  e_proof :: "hex list"

record PriceUpdate =
  u_header :: PriceUpdateHeader
  u_signatures :: SignatureBundle
  u_entries :: "UpdateEntry list"

section \<open>Header\<close>

definition encodePriceUpdateHeader :: "PriceUpdateHeader \<Rightarrow> bytes result" where
  "encodePriceUpdateHeader h =
    run_writer
      [w_bytes (text_bytes PRICE_UPDATE_MAGIC) None,
       w_u8 PRICE_UPDATE_VERSION,
       w_hex (h_publisherSetTypeHash h) 32,
       w_u32 (h_setIndex h),
       w_u64 (h_publishTimeMs h),
       w_u32 (h_tickPeriodMs h),
       w_hex (h_configHash h) 32,
       w_u16 (h_leafCount h),
       w_hex (h_merkleRoot h) 32]"

definition readHeader :: "PriceUpdateHeader reading" where
  "readHeader =
    rbind (r_bytes 4) (\<lambda>magic.
    rbind (rcheck (magic = text_bytes PRICE_UPDATE_MAGIC) (DecodeError ''PriceUpdateHeader: bad magic or version'')) (\<lambda>_.
    rbind r_u8 (\<lambda>version.
    rbind (rcheck (version = PRICE_UPDATE_VERSION) (DecodeError ''PriceUpdateHeader: bad magic or version'')) (\<lambda>_.
    rbind (r_hex 32) (\<lambda>committee.
    rbind r_u32 (\<lambda>i.
    rbind r_u64 (\<lambda>t.
    rbind r_u32 (\<lambda>period.
    rbind (r_hex 32) (\<lambda>config.
    rbind r_u16 (\<lambda>n.
    rbind (r_hex 32) (\<lambda>root.
    rbind (rcheck (n \<noteq> 0) (DecodeError ''PriceUpdateHeader: leaf_count must be positive'')) (\<lambda>_.
    rret \<lparr>h_publisherSetTypeHash = committee, h_setIndex = i, h_publishTimeMs = t, h_tickPeriodMs = period,
      h_configHash = config, h_leafCount = n, h_merkleRoot = root\<rparr>))))))))))))"

definition decodePriceUpdateHeader :: "bytes_like \<Rightarrow> PriceUpdateHeader result" where
  "decodePriceUpdateHeader b =
    ebind (toBytes b) (\<lambda>data.
    if r_remaining (reader_of data ''PriceUpdateHeader'') \<noteq> int HEADER_LEN
    then Inl (DecodeError ''PriceUpdateHeader: expected bytes'')
    else run_reader readHeader data ''PriceUpdateHeader'')"

definition priceUpdateSigningHash :: "crypto \<Rightarrow> PriceUpdateHeader \<Rightarrow> hex result" where
  "priceUpdateSigningHash C h =
    ebind (encodePriceUpdateHeader h) (\<lambda>e. Inr (bytesToHex (ckbHash C [DOMAIN_PRICE_UPDATE, e])))"

section \<open>Message\<close>

definition encodePriceMessage :: "PriceMessage \<Rightarrow> bytes result" where
  "encodePriceMessage m =
    run_writer
      [w_u8 MESSAGE_TYPE_PRICE,
       w_hex (m_feedId m) 32,
       w_i64 (m_price m),
       w_u64 (m_conf m),
       w_i32 (m_expo m),
       w_u64 (m_prevPublishTimeMs m),
       w_i64 (m_emaPrice m),
       w_u64 (m_emaConf m),
       w_u64 (m_sourceTimeMs m),
       w_u8 (m_numPublishers m)]"

definition readMessage :: "PriceMessage reading" where
  "readMessage =
    rbind r_u8 (\<lambda>message_type.
    rbind (rcheck (message_type = MESSAGE_TYPE_PRICE) (DecodeError ''PriceMessage: bad length or message type'')) (\<lambda>_.
    rbind (r_hex 32) (\<lambda>feed.
    rbind r_i64 (\<lambda>price.
    rbind r_u64 (\<lambda>conf.
    rbind r_i32 (\<lambda>expo.
    rbind r_u64 (\<lambda>prev.
    rbind r_i64 (\<lambda>emaPrice.
    rbind r_u64 (\<lambda>emaConf.
    rbind r_u64 (\<lambda>sourceTime.
    rbind r_u8 (\<lambda>n.
    rret \<lparr>m_feedId = feed, m_price = price, m_conf = conf, m_expo = expo, m_prevPublishTimeMs = prev,
      m_emaPrice = emaPrice, m_emaConf = emaConf, m_sourceTimeMs = sourceTime, m_numPublishers = n\<rparr>)))))))))))"

definition decodePriceMessage :: "bytes_like \<Rightarrow> PriceMessage result" where
  "decodePriceMessage b =
    ebind (toBytes b) (\<lambda>data.
    if r_remaining (reader_of data ''PriceMessage'') \<noteq> int MESSAGE_LEN
    then Inl (DecodeError ''PriceMessage: bad length or message type'')
    else run_reader readMessage data ''PriceMessage'')"

section \<open>Update\<close>

definition writeEntry :: "UpdateEntry \<Rightarrow> writing list" where
  "writeEntry e =
    [w_guard (length (e_proof e) \<le> MAX_PROOF_LEN) (RangeError ''PriceUpdate: proof too long'')
       (w_nested (encodePriceMessage (e_message e))),
     w_u8 (int (length (e_proof e)))] @
    map (\<lambda>node. w_hex node 32) (e_proof e)"

definition encodePriceUpdate :: "PriceUpdate \<Rightarrow> bytes result" where
  "encodePriceUpdate u =
    (if length (u_entries u) = 0 \<or> length (u_entries u) > 255 then Inl (RangeError ''PriceUpdate: 1..=255 entries'')
     else run_writer (
       [w_nested (encodePriceUpdateHeader (u_header u)),
        w_nested (encodeSignatureBundle (u_signatures u)),
        w_u8 (int (length (u_entries u)))] @
       concat (map writeEntry (u_entries u))))"

definition readEntry :: "UpdateEntry reading" where
  "readEntry =
    rbind (r_bytes MESSAGE_LEN) (\<lambda>data.
    rbind (rlift (decodePriceMessage (Raw data))) (\<lambda>message.
    rbind r_u8 (\<lambda>proofLen.
    rbind (rcheck (\<not> proofLen > int MAX_PROOF_LEN) (DecodeError ''PriceUpdate: proof too long'')) (\<lambda>_.
    rbind (r_repeat (nat proofLen) (r_hex 32)) (\<lambda>proof.
    rret \<lparr>e_message = message, e_proof = proof\<rparr>)))))"

definition readEntries :: "UpdateEntry list reading" where
  "readEntries =
    rbind r_u8 (\<lambda>count.
    rbind (rcheck (count \<noteq> 0) (DecodeError ''PriceUpdate: no entries'')) (\<lambda>_.
    r_repeat (nat count) readEntry))"

definition decodePriceUpdate :: "bytes_like \<Rightarrow> PriceUpdate result" where
  "decodePriceUpdate b =
    ebind (toBytes b) (\<lambda>data.
    if length data < HEADER_LEN then Inl (DecodeError ''PriceUpdate: truncated header'')
    else
      ebind (decodePriceUpdateHeader (Raw (take HEADER_LEN data))) (\<lambda>header.
      ebind (decodeSignatureBundlePrefix (drop HEADER_LEN data)) (\<lambda>(signatures, used).
      ebind (run_reader (rbind readEntries (\<lambda>es. rbind r_end (\<lambda>_. rret es)))
        (drop (HEADER_LEN + used) data) ''PriceUpdate'') (\<lambda>entries.
      Inr \<lparr>u_header = header, u_signatures = signatures, u_entries = entries\<rparr>))))"

section \<open>Assembling\<close>

record UnsignedUpdateInput =
  i_publisherSetTypeHash :: hex
  i_setIndex :: int
  i_publishTimeMs :: int
  i_tickPeriodMs :: int
  i_configHash :: hex
  i_messages :: "PriceMessage list"

text \<open>\<open>[...messages].sort((a, b) \<Rightarrow> compareBytes(hexToBytes(a.feedId), hexToBytes(b.feedId)))\<close>: the
  comparator runs, and may throw, only on two messages or more.\<close>

definition sortMessages :: "PriceMessage list \<Rightarrow> PriceMessage list result" where
  "sortMessages ms =
    (if length ms < 2 then Inr ms
     else ebind (emap (\<lambda>m. ebind (hexToBytes (m_feedId m)) (\<lambda>k. Inr (k, m))) ms) (\<lambda>keyed.
       Inr (map snd (sort_key fst keyed))))"

definition assemblePriceUpdate ::
    "crypto \<Rightarrow> UnsignedUpdateInput \<Rightarrow> (PriceUpdateHeader \<times> UpdateEntry list) result" where
  "assemblePriceUpdate C inp =
    ebind (sortMessages (i_messages inp)) (\<lambda>messages.
    if list_ex (\<lambda>i. i > 0 \<and> toLowerCase (m_feedId (messages ! i)) = toLowerCase (m_feedId (messages ! (i - 1))))
         [0..<length messages]
    then Inl (RangeError ''duplicate feed'')
    else
      ebind (emap (\<lambda>m. ebind (encodePriceMessage m) (\<lambda>e. leafHash C (Raw e))) messages) (\<lambda>leaves.
      ebind (merkleRoot C leaves) (\<lambda>root.
      let header = \<lparr>h_publisherSetTypeHash = i_publisherSetTypeHash inp, h_setIndex = i_setIndex inp,
            h_publishTimeMs = i_publishTimeMs inp, h_tickPeriodMs = i_tickPeriodMs inp,
            h_configHash = i_configHash inp, h_leafCount = int (length messages), h_merkleRoot = root\<rparr>
      in ebind (emap (\<lambda>(i, message). ebind (merkleProof C leaves (int i)) (\<lambda>proof.
           Inr \<lparr>e_message = message, e_proof = proof\<rparr>)) (enumerate 0 messages)) (\<lambda>entries.
         Inr (header, entries)))))"

definition selectFeeds :: "PriceUpdate \<Rightarrow> hex list \<Rightarrow> PriceUpdate result" where
  "selectFeeds u feedIds =
    (let wanted = set (map toLowerCase feedIds);
         entries = filter (\<lambda>e. toLowerCase (m_feedId (e_message e)) \<in> wanted) (u_entries u)
     in if length entries = 0
        then Inl (RangeError ''selectFeeds: none of the requested feeds are in this update'')
        else Inr (u\<lparr>u_entries := entries\<rparr>))"

section \<open>The formats are codecs\<close>

definition norm_header :: "PriceUpdateHeader \<Rightarrow> PriceUpdateHeader" where
  "norm_header h = h\<lparr>h_publisherSetTypeHash := toLowerCase (h_publisherSetTypeHash h),
     h_configHash := toLowerCase (h_configHash h), h_merkleRoot := toLowerCase (h_merkleRoot h)\<rparr>"

definition norm_message :: "PriceMessage \<Rightarrow> PriceMessage" where
  "norm_message m = m\<lparr>m_feedId := toLowerCase (m_feedId m)\<rparr>"

definition norm_entry :: "UpdateEntry \<Rightarrow> UpdateEntry" where
  "norm_entry e = \<lparr>e_message = norm_message (e_message e), e_proof = map toLowerCase (e_proof e)\<rparr>"

definition norm_update :: "PriceUpdate \<Rightarrow> PriceUpdate" where
  "norm_update u = \<lparr>u_header = norm_header (u_header u), u_signatures = map norm_signature (u_signatures u),
     u_entries = map norm_entry (u_entries u)\<rparr>"

lemma encodeHeader_iff:
  "encodePriceUpdateHeader h = Inr bs \<longleftrightarrow>
    is_u32 (h_setIndex h) \<and> is_u64 (h_publishTimeMs h) \<and> is_u32 (h_tickPeriodMs h) \<and> is_u16 (h_leafCount h) \<and>
    (\<exists>p c r. hexToFixed (h_publisherSetTypeHash h) 32 = Inr p \<and> hexToFixed (h_configHash h) 32 = Inr c \<and>
      hexToFixed (h_merkleRoot h) 32 = Inr r \<and>
      bs = text_bytes PRICE_UPDATE_MAGIC @ int_bytes 1 PRICE_UPDATE_VERSION @ p @ int_bytes 4 (h_setIndex h) @
        int_bytes 8 (h_publishTimeMs h) @ int_bytes 4 (h_tickPeriodMs h) @ c @ int_bytes 2 (h_leafCount h) @ r @ [])"
  by (auto simp: encodePriceUpdateHeader_def is_u8_def protocol_constants)

lemma encodeHeader_length: "encodePriceUpdateHeader h = Inr bs \<Longrightarrow> length bs = HEADER_LEN"
  by (auto simp: encodeHeader_iff hexToFixed_eq_Inr protocol_constants)

lemma reads_header:
  assumes "encodePriceUpdateHeader h = Inr bs" and "h_leafCount h \<noteq> 0"
  shows "reads readHeader bs (norm_header h)"
proof -
  from assms obtain p c r where *: "is_u32 (h_setIndex h)" "is_u64 (h_publishTimeMs h)"
      "is_u32 (h_tickPeriodMs h)" "is_u16 (h_leafCount h)" "hexToFixed (h_publisherSetTypeHash h) 32 = Inr p"
      "hexToFixed (h_configHash h) 32 = Inr c" "hexToFixed (h_merkleRoot h) 32 = Inr r"
      "bs = text_bytes PRICE_UPDATE_MAGIC @ int_bytes 1 PRICE_UPDATE_VERSION @ p @ int_bytes 4 (h_setIndex h) @
        int_bytes 8 (h_publishTimeMs h) @ int_bytes 4 (h_tickPeriodMs h) @ c @ int_bytes 2 (h_leafCount h) @ r @ []"
    by (auto simp only: encodeHeader_iff)
  show ?thesis
    unfolding readHeader_def *(8)
    by (intro reads_then; (rule * assms(2))?) (auto simp: protocol_constants is_u8_def norm_header_def)
qed

lemma parses_header:
  "parses readHeader (\<lambda>bs h. encodePriceUpdateHeader h = Inr bs \<and> norm_header h = h \<and> h_leafCount h \<noteq> 0)"
  unfolding readHeader_def
  by (rule parses_mono[OF parses_bind[OF parses_bytes parses_bind[OF parses_check parses_bind[OF parses_ints(1)
          parses_bind[OF parses_check parses_bind[OF parses_hexToFixed parses_bind[OF parses_ints(3)
          parses_bind[OF parses_ints(4) parses_bind[OF parses_ints(3) parses_bind[OF parses_hexToFixed
          parses_bind[OF parses_ints(2) parses_bind[OF parses_hexToFixed parses_bind[OF parses_check parses_ret]]]]]]]]]]]]])
     (auto simp: encodeHeader_iff norm_header_def)

interpretation header_codec: codec encodePriceUpdateHeader "\<lambda>bs. decodePriceUpdateHeader (Raw bs)"
    norm_header "\<lambda>h. h_leafCount h \<noteq> 0"
proof
  fix h bs
  assume "h_leafCount h \<noteq> 0" and e: "encodePriceUpdateHeader h = Inr bs"
  then show "decodePriceUpdateHeader (Raw bs) = Inr (norm_header h)"
    using encodeHeader_length[OF e]
    by (simp add: decodePriceUpdateHeader_def r_remaining_def reads_run[OF reads_header])
next
  fix bs h
  assume "decodePriceUpdateHeader (Raw bs) = Inr h"
  then have "run_reader readHeader bs ''PriceUpdateHeader'' = Inr h" and len: "length bs = HEADER_LEN"
    by (auto simp: decodePriceUpdateHeader_def r_remaining_def split: if_splits)
  from parses_run[OF parses_header this(1)] obtain b1 b2 where
    b: "bs = b1 @ b2" "encodePriceUpdateHeader h = Inr b1" "h_leafCount h \<noteq> 0" by blast
  with encodeHeader_length len show "encodePriceUpdateHeader h = Inr bs" and "h_leafCount h \<noteq> 0" by auto
qed

lemma encodeMessage_iff:
  "encodePriceMessage m = Inr bs \<longleftrightarrow>
    is_i64 (m_price m) \<and> is_u64 (m_conf m) \<and> is_i32 (m_expo m) \<and> is_u64 (m_prevPublishTimeMs m) \<and>
    is_i64 (m_emaPrice m) \<and> is_u64 (m_emaConf m) \<and> is_u64 (m_sourceTimeMs m) \<and> is_u8 (m_numPublishers m) \<and>
    (\<exists>f. hexToFixed (m_feedId m) 32 = Inr f \<and>
      bs = int_bytes 1 MESSAGE_TYPE_PRICE @ f @ int_bytes 8 (m_price m) @ int_bytes 8 (m_conf m) @
        int_bytes 4 (m_expo m) @ int_bytes 8 (m_prevPublishTimeMs m) @ int_bytes 8 (m_emaPrice m) @
        int_bytes 8 (m_emaConf m) @ int_bytes 8 (m_sourceTimeMs m) @ int_bytes 1 (m_numPublishers m) @ [])"
  by (auto simp: encodePriceMessage_def is_u8_def protocol_constants)

lemma encodeMessage_length: "encodePriceMessage m = Inr bs \<Longrightarrow> length bs = MESSAGE_LEN"
  by (auto simp: encodeMessage_iff hexToFixed_eq_Inr protocol_constants)

lemma reads_message:
  assumes "encodePriceMessage m = Inr bs"
  shows "reads readMessage bs (norm_message m)"
proof -
  from assms obtain f where *: "is_i64 (m_price m)" "is_u64 (m_conf m)" "is_i32 (m_expo m)"
      "is_u64 (m_prevPublishTimeMs m)" "is_i64 (m_emaPrice m)" "is_u64 (m_emaConf m)" "is_u64 (m_sourceTimeMs m)"
      "is_u8 (m_numPublishers m)" "hexToFixed (m_feedId m) 32 = Inr f"
      "bs = int_bytes 1 MESSAGE_TYPE_PRICE @ f @ int_bytes 8 (m_price m) @ int_bytes 8 (m_conf m) @
        int_bytes 4 (m_expo m) @ int_bytes 8 (m_prevPublishTimeMs m) @ int_bytes 8 (m_emaPrice m) @
        int_bytes 8 (m_emaConf m) @ int_bytes 8 (m_sourceTimeMs m) @ int_bytes 1 (m_numPublishers m) @ []"
    by (auto simp only: encodeMessage_iff)
  show ?thesis
    unfolding readMessage_def *(10)
    by (intro reads_then; (rule *)?) (auto simp: protocol_constants is_u8_def norm_message_def)
qed

lemma parses_message:
  "parses readMessage (\<lambda>bs m. encodePriceMessage m = Inr bs \<and> norm_message m = m)"
  unfolding readMessage_def
  by (rule parses_mono[OF parses_bind[OF parses_ints(1) parses_bind[OF parses_check parses_bind[OF parses_hexToFixed
          parses_bind[OF parses_signed(2) parses_bind[OF parses_ints(4) parses_bind[OF parses_signed(1)
          parses_bind[OF parses_ints(4) parses_bind[OF parses_signed(2) parses_bind[OF parses_ints(4)
          parses_bind[OF parses_ints(4) parses_bind[OF parses_ints(1) parses_ret]]]]]]]]]]]])
     (auto simp: encodeMessage_iff norm_message_def)

interpretation message_codec: codec encodePriceMessage "\<lambda>bs. decodePriceMessage (Raw bs)"
    norm_message "\<lambda>_. True"
proof
  fix m bs
  assume e: "encodePriceMessage m = Inr bs"
  then show "decodePriceMessage (Raw bs) = Inr (norm_message m)"
    using encodeMessage_length[OF e]
    by (simp add: decodePriceMessage_def r_remaining_def reads_run[OF reads_message])
next
  fix bs m
  assume "decodePriceMessage (Raw bs) = Inr m"
  then have "run_reader readMessage bs ''PriceMessage'' = Inr m" and len: "length bs = MESSAGE_LEN"
    by (auto simp: decodePriceMessage_def r_remaining_def split: if_splits)
  from parses_run[OF parses_message this(1)] obtain b1 b2 where
    b: "bs = b1 @ b2" "encodePriceMessage m = Inr b1" by blast
  with encodeMessage_length len show "encodePriceMessage m = Inr bs" by auto
qed simp

lemma uniform_writeEntry [simp]: "list_all uniform (writeEntry e)"
  by (simp add: writeEntry_def list_all_iff)

lemma writeEntry_iff:
  "run_writer (writeEntry e) = Inr bs \<longleftrightarrow> length (e_proof e) \<le> MAX_PROOF_LEN \<and>
    (\<exists>m parts. encodePriceMessage (e_message e) = Inr m \<and>
      list_all2 (\<lambda>n p. hexToFixed n 32 = Inr p) (e_proof e) parts \<and>
      bs = m @ int_bytes 1 (int (length (e_proof e))) @ concat parts)"
  by (auto simp: writeEntry_def run_writer_map list_all_iff MAX_PROOF_LEN_def is_u8_def)

lemma reads_entry:
  assumes "run_writer (writeEntry e) = Inr bs"
  shows "reads readEntry bs (norm_entry e)"
proof -
  from assms obtain m parts where *: "length (e_proof e) \<le> MAX_PROOF_LEN"
      "encodePriceMessage (e_message e) = Inr m"
      "list_all2 (\<lambda>n p. hexToFixed n 32 = Inr p) (e_proof e) parts"
      "bs = m @ int_bytes 1 (int (length (e_proof e))) @ concat parts @ []"
    by (auto simp: writeEntry_iff)
  have d: "decodePriceMessage (Raw m) = Inr (norm_message (e_message e))"
    by (rule message_codec.dec_enc) (simp_all add: *(2))
  show ?thesis
    unfolding readEntry_def *(4)
    by (intro reads_then; (rule *(3) d encodeMessage_length[OF *(2)])?)
       (use *(1) in \<open>auto simp: is_u8_def MAX_PROOF_LEN_def norm_entry_def\<close>)
qed

lemma parses_entry:
  "parses readEntry (\<lambda>bs e. run_writer (writeEntry e) = Inr bs \<and> norm_entry e = e)"
  unfolding readEntry_def
proof (rule parses_mono[OF parses_bind[OF parses_bytes parses_bind[OF parses_lift parses_bind[OF parses_ints(1)
          parses_bind[OF parses_check parses_bind[OF parses_hex_list parses_ret]]]]]], clarify)
  fix data m c parts proof'
  assume m: "decodePriceMessage (Raw data) = Inr m" and c: "is_u8 c" "\<not> c > int MAX_PROOF_LEN"
    and p: "list_all2 (\<lambda>s p. hexToFixed s 32 = Inr p) proof' parts" "length proof' = nat c"
      "map toLowerCase proof' = proof'"
  have "c = int (length proof')" using c p(2) by (simp add: is_u8_def)
  then have "run_writer (writeEntry \<lparr>e_message = m, e_proof = proof'\<rparr>) = Inr (data @ int_bytes 1 c @ concat parts)"
    unfolding writeEntry_iff UpdateEntry.simps using c(2) message_codec.enc_dec[OF m] p(1)
    by (intro conjI exI[of _ data] exI[of _ parts]) simp_all
  then show "run_writer (writeEntry \<lparr>e_message = m, e_proof = proof'\<rparr>) =
      Inr (data @ [] @ int_bytes 1 c @ [] @ concat parts @ []) \<and>
    norm_entry \<lparr>e_message = m, e_proof = proof'\<rparr> = \<lparr>e_message = m, e_proof = proof'\<rparr>"
    using p(3) message_codec.dec_norm[OF m] by (simp add: norm_entry_def)
qed

text \<open>The entries as one part of the blob.\<close>

definition encodeEntries :: "UpdateEntry list \<Rightarrow> bytes result" where
  "encodeEntries es = run_writer (w_u8 (int (length es)) # concat (map writeEntry es))"

lemma encodeEntries_iff:
  "encodeEntries es = Inr bs \<longleftrightarrow> is_u8 (int (length es)) \<and>
    (\<exists>parts. list_all2 (\<lambda>e p. run_writer (writeEntry e) = Inr p) es parts \<and>
      bs = int_bytes 1 (int (length es)) @ concat parts)"
  by (auto simp: encodeEntries_def run_writer_concat uniform_concat)

lemma encodeUpdate_iff:
  "encodePriceUpdate u = Inr bs \<longleftrightarrow> u_entries u \<noteq> [] \<and>
    (\<exists>h s e. encodePriceUpdateHeader (u_header u) = Inr h \<and> encodeSignatureBundle (u_signatures u) = Inr s \<and>
      encodeEntries (u_entries u) = Inr e \<and> bs = h @ s @ e)"
  by (auto simp: encodePriceUpdate_def encodeEntries_def run_writer_concat uniform_concat is_u8_def)

lemma concat_length_bound:
  "list_all2 (\<lambda>e p. length p \<le> (n :: nat)) es parts \<Longrightarrow> length (concat parts) \<le> length es * n"
  by (induction rule: list_all2_induct) auto

lemma hex_parts_length:
  "list_all2 (\<lambda>s p. hexToFixed s n = Inr p) ss parts \<Longrightarrow> length (concat parts) = length ss * n"
  by (induction rule: list_all2_induct) (auto simp: hexToFixed_eq_Inr)

lemma entry_length_bound: "run_writer (writeEntry e) = Inr bs \<Longrightarrow> length bs \<le> 599"
proof -
  assume "run_writer (writeEntry e) = Inr bs"
  then obtain m parts where *: "length (e_proof e) \<le> MAX_PROOF_LEN" "encodePriceMessage (e_message e) = Inr m"
      "list_all2 (\<lambda>n p. hexToFixed n 32 = Inr p) (e_proof e) parts"
      "bs = m @ int_bytes 1 (int (length (e_proof e))) @ concat parts"
    unfolding writeEntry_iff by blast
  then have "length bs = MESSAGE_LEN + 1 + length (e_proof e) * 32"
    using encodeMessage_length[OF *(2)] hex_parts_length[OF *(3)] by simp
  with *(1) show ?thesis by (simp add: protocol_constants)
qed

text \<open>An update fits the length field of a frame with room to spare.\<close>

lemma update_length_bound:
  assumes "encodePriceUpdate u = Inr bs"
  shows "length bs < 2 ^ 18"
proof -
  from assms obtain h s e where *: "encodePriceUpdateHeader (u_header u) = Inr h"
      "encodeSignatureBundle (u_signatures u) = Inr s" "encodeEntries (u_entries u) = Inr e" "bs = h @ s @ e"
    unfolding encodeUpdate_iff by blast
  from *(2) obtain ps where ps: "is_u8 (int (length (u_signatures u)))"
      "list_all2 (\<lambda>e p. run_writer (writeSignature e) = Inr p) (u_signatures u) ps"
      "s = int_bytes 1 (int (length (u_signatures u))) @ concat ps"
    unfolding encodeSignatureBundle_iff by blast
  from *(3) obtain qs where qs: "is_u8 (int (length (u_entries u)))"
      "list_all2 (\<lambda>e p. run_writer (writeEntry e) = Inr p) (u_entries u) qs"
      "e = int_bytes 1 (int (length (u_entries u))) @ concat qs"
    unfolding encodeEntries_iff by blast
  have "list_all2 (\<lambda>e p. length p \<le> 66) (u_signatures u) ps"
    using ps(2) by (rule list_all2_mono) (auto simp: writeSignature_iff hexToFixed_eq_Inr protocol_constants)
  then have "length (concat ps) \<le> length (u_signatures u) * 66" by (rule concat_length_bound)
  moreover have "length (concat qs) \<le> length (u_entries u) * 599"
    by (rule concat_length_bound, rule list_all2_mono[OF qs(2)]) (rule entry_length_bound)
  moreover have "length (u_signatures u) \<le> 255" "length (u_entries u) \<le> 255"
    using ps(1) qs(1) by (simp_all add: int_ranges)
  ultimately show ?thesis
    using *(4) ps(3) qs(3) encodeHeader_length[OF *(1)] by (simp add: protocol_constants)
qed

lemma reads_entries:
  assumes "encodeEntries es = Inr bs" and "es \<noteq> []"
  shows "reads readEntries bs (map norm_entry es)"
proof -
  from assms(1) obtain parts where *: "is_u8 (int (length es))"
      "list_all2 (\<lambda>e p. run_writer (writeEntry e) = Inr p) es parts"
      "bs = int_bytes 1 (int (length es)) @ concat parts"
    by (auto simp: encodeEntries_iff)
  have "list_all2 (reads readEntry) parts (map norm_entry es)"
    using *(2) by (auto simp: list_all2_conv_all_nth reads_entry)
  then have "reads (r_repeat (nat (int (length es))) readEntry) (concat parts) (map norm_entry es)"
    by (rule reads_repeat) simp
  then show ?thesis
    unfolding readEntries_def *(3) using assms(2)
    by (intro reads_then(3)[OF *(1)] reads_check_then) simp_all
qed

lemma parses_entries:
  "parses readEntries (\<lambda>bs es. encodeEntries es = Inr bs \<and> map norm_entry es = es \<and> es \<noteq> [])"
  unfolding readEntries_def
proof (rule parses_mono[OF parses_bind[OF parses_ints(1) parses_bind[OF parses_check parses_repeat[OF parses_entry]]]],
    clarify)
  fix c parts es
  assume c: "is_u8 c" "c \<noteq> 0" "length es = nat c"
    and *: "list_all2 (\<lambda>p e. run_writer (writeEntry e) = Inr p \<and> norm_entry e = e) parts es"
  have "c = int (length es)" using c by (simp add: is_u8_def)
  moreover have "list_all2 (\<lambda>e p. run_writer (writeEntry e) = Inr p) es parts"
    using * by (auto simp: list_all2_conv_all_nth)
  moreover have "map norm_entry es = es"
    using * by (intro nth_equalityI) (auto simp: list_all2_conv_all_nth)
  ultimately show "encodeEntries es = Inr (int_bytes 1 c @ [] @ concat parts) \<and> map norm_entry es = es \<and> es \<noteq> []"
    using c(1,2) by (auto simp: encodeEntries_iff)
qed

interpretation update_codec: codec encodePriceUpdate "\<lambda>bs. decodePriceUpdate (Raw bs)"
    norm_update "\<lambda>u. h_leafCount (u_header u) \<noteq> 0"
proof
  fix u bs
  assume ok: "h_leafCount (u_header u) \<noteq> 0" and "encodePriceUpdate u = Inr bs"
  then obtain h s e where *: "u_entries u \<noteq> []" "encodePriceUpdateHeader (u_header u) = Inr h"
      "encodeSignatureBundle (u_signatures u) = Inr s" "encodeEntries (u_entries u) = Inr e" "bs = h @ s @ e"
    by (auto simp: encodeUpdate_iff)
  have h: "decodePriceUpdateHeader (Raw h) = Inr (norm_header (u_header u))" "length h = HEADER_LEN"
    using header_codec.dec_enc[OF ok *(2)] encodeHeader_length[OF *(2)] by auto
  have "drop (HEADER_LEN + length s) bs = e" "take HEADER_LEN bs = h" "drop HEADER_LEN bs = s @ e"
    using h(2) *(5) by (simp_all add: drop_append)
  with h * show "decodePriceUpdate (Raw bs) = Inr (norm_update u)"
    by (simp add: decodePriceUpdate_def decode_prefix_encode reads_end[OF reads_entries] norm_update_def)
next
  fix bs u
  assume "decodePriceUpdate (Raw bs) = Inr u"
  then obtain used where len: "\<not> length bs < HEADER_LEN"
      and h: "decodePriceUpdateHeader (Raw (take HEADER_LEN bs)) = Inr (u_header u)"
      and s: "decodeSignatureBundlePrefix (drop HEADER_LEN bs) = Inr (u_signatures u, used)"
      and e: "run_reader (rbind readEntries (\<lambda>es. rbind r_end (\<lambda>_. rret es))) (drop (HEADER_LEN + used) bs)
            ''PriceUpdate'' = Inr (u_entries u)"
    by (auto simp: decodePriceUpdate_def ebind_eq_Inr split: if_splits)
  have "bs = take HEADER_LEN bs @ take used (drop HEADER_LEN bs) @ drop (HEADER_LEN + used) bs"
    by (metis append_take_drop_id drop_drop add.commute)
  with header_codec.enc_dec[OF h] encode_decode_prefix[OF s] parses_run_end[OF parses_entries e]
  show "encodePriceUpdate u = Inr bs" by (auto simp: encodeUpdate_iff)
  show "h_leafCount (u_header u) \<noteq> 0" by (rule header_codec.dec_ok[OF h])
qed

section \<open>Assembled updates\<close>

definition feed_key :: "PriceMessage \<Rightarrow> bytes" where
  "feed_key m = hex_pairs (drop 2 (m_feedId m))"

lemma feed_key_hex: "isHex (m_feedId m) \<Longrightarrow> hexToBytes (m_feedId m) = Inr (feed_key m)"
  by (simp add: hexToBytes_def feed_key_def)

lemma insort_key_pairs: "map snd (insort_key fst (f x, x) (map (\<lambda>x. (f x, x)) xs)) = insort_key f x xs"
proof (induction xs)
  case (Cons y ys)
  then show ?case by (auto simp: comp_def)
qed simp

lemma sort_key_pairs: "sort_key fst (map (\<lambda>x. (f x, x)) xs) = map (\<lambda>x. (f x, x)) (sort_key f xs)"
proof (induction xs)
  case (Cons x xs)
  have "insort_key fst (f x, x) (map (\<lambda>x. (f x, x)) ys) = map (\<lambda>x. (f x, x)) (insort_key f x ys)" for ys
    by (induction ys) auto
  with Cons show ?case by simp
qed simp

lemma sortMessages_sorts:
  assumes "list_all (\<lambda>m. isHex (m_feedId m)) ms"
  shows "sortMessages ms = Inr (sort_key feed_key ms)"
proof (cases "length ms < 2")
  case True
  then have "ms = [] \<or> (\<exists>m. ms = [m])" by (cases ms; cases "tl ms") auto
  then show ?thesis by (auto simp: sortMessages_def)
next
  case False
  have "emap (\<lambda>m. ebind (hexToBytes (m_feedId m)) (\<lambda>k. Inr (k, m))) ms = Inr (map (\<lambda>m. (feed_key m, m)) ms)"
    using assms by (intro emap_Inr_map) (auto simp: list_all_iff feed_key_hex)
  with False show ?thesis by (simp add: sortMessages_def sort_key_pairs comp_def)
qed

lemma sortMessages_hex:
  assumes "sortMessages ms = Inr out" and "list_all (\<lambda>m. isHex (m_feedId m)) out"
  shows "list_all (\<lambda>m. isHex (m_feedId m)) ms"
proof (cases "length ms < 2")
  case True
  with assms show ?thesis by (simp add: sortMessages_def)
next
  case False
  with assms(1) obtain keyed where "emap (\<lambda>m. ebind (hexToBytes (m_feedId m)) (\<lambda>k. Inr (k, m))) ms = Inr keyed"
    by (auto simp: sortMessages_def ebind_eq_Inr)
  then show ?thesis
    by (auto simp: emap_eq_Inr list_all2_conv_all_nth list_all_length ebind_eq_Inr isHex_iff)
qed

text \<open>A message is encodable when its fields fit the format.\<close>

definition encodable :: "PriceMessage \<Rightarrow> bool" where
  "encodable m \<longleftrightarrow> (\<exists>e. encodePriceMessage m = Inr e)"

lemma encodable_hex: "encodable m \<Longrightarrow> isHex (m_feedId m)"
  by (auto simp: encodable_def encodeMessage_iff hexToFixed_eq_Inr isHex_iff)

definition message_bytes :: "PriceMessage \<Rightarrow> bytes" where
  "message_bytes m = (case encodePriceMessage m of Inr e \<Rightarrow> e | Inl _ \<Rightarrow> [])"

lemma message_bytes: "encodable m \<Longrightarrow> encodePriceMessage m = Inr (message_bytes m)"
  by (auto simp: encodable_def message_bytes_def)

definition message_leaf :: "crypto \<Rightarrow> PriceMessage \<Rightarrow> hex" where
  "message_leaf C m = bytesToHex (leaf_bytes C (message_bytes m))"

lemma leaves_emap:
  "(\<exists>ls. emap (\<lambda>m. ebind (encodePriceMessage m) (\<lambda>e. leafHash C (Raw e))) ms = Inr ls) \<longleftrightarrow> list_all encodable ms"
  "list_all encodable ms \<Longrightarrow>
    emap (\<lambda>m. ebind (encodePriceMessage m) (\<lambda>e. leafHash C (Raw e))) ms = Inr (map (message_leaf C) ms)"
proof -
  show *: "emap (\<lambda>m. ebind (encodePriceMessage m) (\<lambda>e. leafHash C (Raw e))) ms = Inr (map (message_leaf C) ms)"
    if "list_all encodable ms"
    using that by (intro emap_Inr_map) (auto simp: list_all_iff message_bytes leafHash_eq message_leaf_def)
  show "(\<exists>ls. emap (\<lambda>m. ebind (encodePriceMessage m) (\<lambda>e. leafHash C (Raw e))) ms = Inr ls) \<longleftrightarrow> list_all encodable ms"
  proof
    assume "\<exists>ls. emap (\<lambda>m. ebind (encodePriceMessage m) (\<lambda>e. leafHash C (Raw e))) ms = Inr ls"
    then show "list_all encodable ms"
      by (auto simp: emap_eq_Inr list_all2_conv_all_nth list_all_length ebind_eq_Inr encodable_def)
  qed (use * in blast)
qed

text \<open>When assembling succeeds, and what it then holds.\<close>

lemma assemble_sorted:
  assumes "assemblePriceUpdate C inp = Inr (header, entries)"
  obtains ms where "ms = sort_key feed_key (i_messages inp)" "ms \<noteq> []" "list_all encodable ms"
    "distinct (map (\<lambda>m. toLowerCase (m_feedId m)) ms)"
    "merkleRoot C (map (message_leaf C) ms) = Inr (h_merkleRoot header)"
    "h_leafCount header = int (length ms)"
    "h_publisherSetTypeHash header = i_publisherSetTypeHash inp" "h_setIndex header = i_setIndex inp"
    "h_publishTimeMs header = i_publishTimeMs inp" "h_tickPeriodMs header = i_tickPeriodMs inp"
    "h_configHash header = i_configHash inp"
    "length entries = length ms"
    "\<And>i. i < length ms \<Longrightarrow> e_message (entries ! i) = ms ! i \<and>
       merkleProof C (map (message_leaf C) ms) (int i) = Inr (e_proof (entries ! i))"
proof -
  from assms obtain ms ls where ms: "sortMessages (i_messages inp) = Inr ms"
      and dup: "\<not> list_ex (\<lambda>i. i > 0 \<and> toLowerCase (m_feedId (ms ! i)) = toLowerCase (m_feedId (ms ! (i - 1)))) [0..<length ms]"
      and ls: "emap (\<lambda>m. ebind (encodePriceMessage m) (\<lambda>e. leafHash C (Raw e))) ms = Inr ls"
      and root: "merkleRoot C ls = Inr (h_merkleRoot header)"
      and hd: "h_leafCount header = int (length ms)" "h_publisherSetTypeHash header = i_publisherSetTypeHash inp"
        "h_setIndex header = i_setIndex inp" "h_publishTimeMs header = i_publishTimeMs inp"
        "h_tickPeriodMs header = i_tickPeriodMs inp" "h_configHash header = i_configHash inp"
      and es: "emap (\<lambda>(i, message). ebind (merkleProof C ls (int i)) (\<lambda>proof.
           Inr \<lparr>e_message = message, e_proof = proof\<rparr>)) (enumerate 0 ms) = Inr entries"
    by (auto simp: assemblePriceUpdate_def ebind_eq_Inr Let_def split: if_splits)
  have enc: "list_all encodable ms" using leaves_emap(1)[of C ms] ls by blast
  then have hex: "list_all (\<lambda>m. isHex (m_feedId m)) ms" by (auto simp: list_all_iff encodable_hex)
  have sorted: "ms = sort_key feed_key (i_messages inp)"
    using sortMessages_sorts[OF sortMessages_hex[OF ms hex]] ms by simp
  have "distinct (map (\<lambda>m. toLowerCase (m_feedId m)) ms)"
  proof (rule adjacent_distinct[THEN iffD1, OF _ _ dup])
    show "sorted (map feed_key ms)" unfolding sorted by simp
    show "feed_key m = feed_key m' \<longleftrightarrow> toLowerCase (m_feedId m) = toLowerCase (m_feedId m')"
      if "m \<in> set ms" "m' \<in> set ms" for m m'
      using hex that feed_key_hex hexToBytes_same_iff by (auto simp: list_all_iff)
  qed
  moreover have "ls = map (message_leaf C) ms" using leaves_emap(2)[OF enc, of C] ls by simp
  moreover have "ms \<noteq> []" using root \<open>ls = map (message_leaf C) ms\<close> by (auto simp: merkleRoot_def)
  moreover have "length entries = length ms" using emap_length[OF es] by simp
  moreover have "e_message (entries ! i) = ms ! i \<and> merkleProof C ls (int i) = Inr (e_proof (entries ! i))"
    if "i < length ms" for i
    using es that by (auto simp: emap_eq_Inr list_all2_conv_all_nth nth_enumerate_eq ebind_eq_Inr)
      (metis UpdateEntry.select_convs)+
  ultimately show thesis using that sorted enc root hd by blast
qed

lemma assemble_total:
  assumes "i_messages inp \<noteq> []" "list_all encodable (i_messages inp)"
    "distinct (map (\<lambda>m. toLowerCase (m_feedId m)) (i_messages inp))"
  shows "\<exists>header entries. assemblePriceUpdate C inp = Inr (header, entries)"
proof -
  let ?ms = "sort_key feed_key (i_messages inp)"
  have hex: "list_all (\<lambda>m. isHex (m_feedId m)) (i_messages inp)" "list_all encodable ?ms"
    using assms(2) by (auto simp: list_all_iff encodable_hex)
  have "distinct (map (\<lambda>m. toLowerCase (m_feedId m)) ?ms)"
  proof -
    have "mset (map (\<lambda>m. toLowerCase (m_feedId m)) ?ms) = mset (map (\<lambda>m. toLowerCase (m_feedId m)) (i_messages inp))"
      by simp
    with assms(3) show ?thesis by (metis mset_eq_imp_distinct_iff)
  qed
  then have dup: "\<not> list_ex (\<lambda>i. i > 0 \<and> toLowerCase (m_feedId (?ms ! i)) = toLowerCase (m_feedId (?ms ! (i - 1))))
      [0..<length ?ms]"
  proof (rule adjacent_distinct[THEN iffD2, rotated 2])
    show "sorted (map feed_key ?ms)" by simp
    show "feed_key m = feed_key m' \<longleftrightarrow> toLowerCase (m_feedId m) = toLowerCase (m_feedId m')"
      if "m \<in> set ?ms" "m' \<in> set ?ms" for m m'
      using hex(1) that feed_key_hex hexToBytes_same_iff by (auto simp: list_all_iff)
  qed
  let ?ls = "map (message_leaf C) ?ms"
  have leaf: "list_all isHex ?ls" by (simp add: list_all_iff message_leaf_def)
  have "?ms \<noteq> []" using assms(1) by (metis length_0_conv length_sort)
  then have "0 < length ?ls" by (simp only: length_map length_greater_0_conv not_False_eq_True)
  then obtain root where root: "merkleRoot C ?ls = Inr root"
    using proofs_verify[OF leaf, of 0 C 0] by blast
  have "\<exists>pr. merkleProof C ?ls (int i) = Inr pr" if "i < length ?ms" for i
    using proofs_verify[OF leaf, of i C 0] that by auto
  then obtain pr where pr: "\<And>i. i < length ?ms \<Longrightarrow> merkleProof C ?ls (int i) = Inr (pr i)" by metis
  have "emap (\<lambda>(i, message). ebind (merkleProof C ?ls (int i)) (\<lambda>proof.
      Inr \<lparr>e_message = message, e_proof = proof\<rparr>)) (enumerate 0 ?ms) =
    Inr (map (\<lambda>(i, message). \<lparr>e_message = message, e_proof = pr i\<rparr>) (enumerate 0 ?ms))"
    using pr by (intro emap_Inr_map) (auto simp: in_set_enumerate_eq simp del: length_sort length_map)
  with sortMessages_sorts[OF hex(1)] dup leaves_emap(2)[OF hex(2), of C] root show ?thesis
    by (simp add: assemblePriceUpdate_def Let_def)
qed

lemma assemble_entry_verifies:
  assumes "assemblePriceUpdate C inp = Inr (header, entries)" and "e \<in> set entries"
  shows "\<exists>m leaf. encodePriceMessage (e_message e) = Inr m \<and> leafHash C (Raw m) = Inr leaf \<and>
    verifyProof C (HexStr (h_merkleRoot header)) (HexStr leaf) (map HexStr (e_proof e)) = Inr True \<and>
    (length entries \<le> 2 ^ k \<longrightarrow> length (e_proof e) \<le> k)"
  using assms(1)
proof (rule assemble_sorted)
  fix ms
  assume enc: "list_all encodable ms" and root: "merkleRoot C (map (message_leaf C) ms) = Inr (h_merkleRoot header)"
    and len: "length entries = length ms"
    and nth: "\<And>i. i < length ms \<Longrightarrow> e_message (entries ! i) = ms ! i \<and>
       merkleProof C (map (message_leaf C) ms) (int i) = Inr (e_proof (entries ! i))"
  from assms(2) obtain i where i: "i < length ms" "e = entries ! i" by (metis in_set_conv_nth len)
  have "list_all isHex (map (message_leaf C) ms)" by (simp add: list_all_iff message_leaf_def)
  from proofs_verify[OF this, of i C k] i nth root len
  have "verifyProof C (HexStr (h_merkleRoot header)) (HexStr (message_leaf C (ms ! i))) (map HexStr (e_proof e)) = Inr True \<and>
      (length entries \<le> 2 ^ k \<longrightarrow> length (e_proof e) \<le> k)" by auto
  moreover have "encodable (ms ! i)" using enc i by (simp add: list_all_length)
  ultimately show ?thesis using i nth by (auto simp: message_bytes leafHash_eq message_leaf_def)
qed

lemma assemble_order:
  assumes "assemblePriceUpdate C inp = Inr (header, entries)"
  shows "map e_message entries = sort_key feed_key (i_messages inp)"
    and "distinct (map (\<lambda>e. toLowerCase (m_feedId (e_message e))) entries)"
    and "sorted_wrt (<) (map (\<lambda>e. feed_key (e_message e)) entries)"
    and "list_all encodable (i_messages inp)" "i_messages inp \<noteq> []"
proof -
  from assms obtain ms where ms: "ms = sort_key feed_key (i_messages inp)" "ms \<noteq> []" "list_all encodable ms"
      "distinct (map (\<lambda>m. toLowerCase (m_feedId m)) ms)" "length entries = length ms"
      "\<And>i. i < length ms \<Longrightarrow> e_message (entries ! i) = ms ! i"
    by (rule assemble_sorted) blast
  have eq: "map e_message entries = ms" using ms(5,6) by (intro nth_equalityI) auto
  with ms(1) show "map e_message entries = sort_key feed_key (i_messages inp)" by simp
  show d: "distinct (map (\<lambda>e. toLowerCase (m_feedId (e_message e))) entries)"
    using ms(4) unfolding eq[symmetric] by (simp add: comp_def)
  show "list_all encodable (i_messages inp)" "i_messages inp \<noteq> []"
    using ms(1-3) by (auto simp: list_all_iff)
  have "feed_key x = feed_key y \<longleftrightarrow> toLowerCase (m_feedId x) = toLowerCase (m_feedId y)"
    if "x \<in> set ms" "y \<in> set ms" for x y
    using that ms(3) encodable_hex feed_key_hex hexToBytes_same_iff by (auto simp: list_all_iff)
  then have "distinct (map feed_key ms)"
    using ms(4) by (simp add: distinct_map inj_on_def)
  moreover have "sorted (map feed_key ms)" unfolding ms(1) by simp
  ultimately have "sorted_wrt (<) (map feed_key ms)" by (simp add: strict_sorted_iff)
  then show "sorted_wrt (<) (map (\<lambda>e. feed_key (e_message e)) entries)"
    unfolding eq[symmetric] by (simp add: comp_def)
qed

text \<open>Inputs for the witnesses.\<close>

definition demo_message :: "byte \<Rightarrow> PriceMessage" where
  "demo_message n = \<lparr>m_feedId = bytesToHex (n # replicate 31 0), m_price = -5, m_conf = 2, m_expo = -8,
     m_prevPublishTimeMs = 1000, m_emaPrice = 7, m_emaConf = 1, m_sourceTimeMs = 1900, m_numPublishers = 3\<rparr>"

definition demo_input :: UnsignedUpdateInput where
  "demo_input = \<lparr>i_publisherSetTypeHash = bytesToHex (replicate 32 9), i_setIndex = 1, i_publishTimeMs = 2000,
     i_tickPeriodMs = 1000, i_configHash = bytesToHex (replicate 32 8), i_messages = [demo_message 2, demo_message 1]\<rparr>"

lemma demo_encodable [simp]: "encodable (demo_message n)"
  by (simp add: encodable_def encodeMessage_iff demo_message_def int_ranges)

lemma demo_assembled: "\<exists>header entries. assemblePriceUpdate C demo_input = Inr (header, entries)"
proof (rule assemble_total)
  show "distinct (map (\<lambda>m. toLowerCase (m_feedId m)) (i_messages demo_input))"
    by (simp add: demo_input_def demo_message_def)
qed (simp_all add: demo_input_def)

definition demo_header :: PriceUpdateHeader where
  "demo_header = \<lparr>h_publisherSetTypeHash = bytesToHex (replicate 32 9), h_setIndex = 1, h_publishTimeMs = 2000,
     h_tickPeriodMs = 1000, h_configHash = bytesToHex (replicate 32 8), h_leafCount = 2,
     h_merkleRoot = bytesToHex (replicate 32 5)\<rparr>"

section \<open>Properties\<close>

text \<open>Claim C18: the update blob has exactly one reading: bytes decode to an update if and only if the
  update has a positive leaf count and lower-case hex fields and encodes to these very bytes.\<close>

theorem price_update_roundtrip:
  "decodePriceUpdate (Raw bs) = Inr u \<longleftrightarrow>
    h_leafCount (u_header u) \<noteq> 0 \<and> encodePriceUpdate u = Inr bs \<and> norm_update u = u"
  by (rule update_codec.dec_iff)

text \<open>The digest the committee signs determines the header. Two headers with one digest are
  the same up to the letter case of their hex fields, if the hash separates their two encodings.\<close>

theorem signing_hash_binds_header:
  assumes "priceUpdateSigningHash C h1 = Inr digest" "priceUpdateSigningHash C h2 = Inr digest"
    and "encodePriceUpdateHeader h1 = Inr e1" "encodePriceUpdateHeader h2 = Inr e2"
    and "h_leafCount h1 \<noteq> 0" "h_leafCount h2 \<noteq> 0"
    and "inj_on (blake2b C) {DOMAIN_PRICE_UPDATE @ e1, DOMAIN_PRICE_UPDATE @ e2}"
  shows "norm_header h1 = norm_header h2"
proof (rule header_codec.digest_binds[OF assms(5,6,3,4,7)])
  show "blake2b C (DOMAIN_PRICE_UPDATE @ e1) = blake2b C (DOMAIN_PRICE_UPDATE @ e2)"
    using assms(1-4) by (auto simp: priceUpdateSigningHash_def ckbHash_def concatBytes_def)
qed

theorem signing_hash_binds_header_witness:
  "norm_header (demo_header\<lparr>h_configHash := ''0x'' @ concat (replicate 32 ''AB'')\<rparr>) =
   norm_header (demo_header\<lparr>h_configHash := bytesToHex (replicate 32 0xab)\<rparr>)"
proof -
  let ?h1 = "demo_header\<lparr>h_configHash := ''0x'' @ concat (replicate 32 ''AB'')\<rparr>"
  let ?h2 = "demo_header\<lparr>h_configHash := bytesToHex (replicate 32 0xab)\<rparr>"
  have "hexToFixed (''0x'' @ concat (replicate 32 ''AB'')) 32 = Inr (replicate 32 0xab)"
    by code_simp
  then have "w_hex (''0x'' @ concat (replicate 32 ''AB'')) 32 = w_hex (bytesToHex (replicate 32 0xab)) 32"
    unfolding w_hex_def by (simp only: hexToFixed_bytesToHex length_replicate)
  moreover have "w_hex s 32 = w_hex t 32 \<Longrightarrow>
      encodePriceUpdateHeader (h\<lparr>h_configHash := s\<rparr>) = encodePriceUpdateHeader (h\<lparr>h_configHash := t\<rparr>)" for s t h
    by (simp add: encodePriceUpdateHeader_def)
  ultimately have "encodePriceUpdateHeader ?h1 = encodePriceUpdateHeader ?h2" by blast
  moreover obtain e where e: "encodePriceUpdateHeader ?h2 = Inr e"
    by (auto simp: encodeHeader_iff demo_header_def int_ranges)
  ultimately have e1: "encodePriceUpdateHeader ?h1 = Inr e" by simp
  have "priceUpdateSigningHash demo_crypto ?h1 = Inr (bytesToHex (ckbHash demo_crypto [DOMAIN_PRICE_UPDATE, e]))"
    "priceUpdateSigningHash demo_crypto ?h2 = Inr (bytesToHex (ckbHash demo_crypto [DOMAIN_PRICE_UPDATE, e]))"
    using e e1 by (simp_all add: priceUpdateSigningHash_def)
  from signing_hash_binds_header[OF this e1 e] show ?thesis by (simp add: demo_header_def)
qed

text \<open>Claim C20: \<open>assemblePriceUpdate\<close> succeeds exactly when it is given at least one message, every
  message fits the format and no feed appears twice (whatever the case of its id).\<close>

theorem assemble_succeeds_iff:
  "(\<exists>update. assemblePriceUpdate C inp = Inr update) \<longleftrightarrow>
    i_messages inp \<noteq> [] \<and> list_all encodable (i_messages inp) \<and>
    distinct (map (\<lambda>m. toLowerCase (m_feedId m)) (i_messages inp))"
proof
  assume "\<exists>update. assemblePriceUpdate C inp = Inr update"
  then obtain header entries where a: "assemblePriceUpdate C inp = Inr (header, entries)" by auto
  have "mset (map (\<lambda>m. toLowerCase (m_feedId m)) (map e_message entries)) =
      mset (map (\<lambda>m. toLowerCase (m_feedId m)) (i_messages inp))"
    unfolding assemble_order(1)[OF a] by simp
  moreover have "distinct (map (\<lambda>m. toLowerCase (m_feedId m)) (map e_message entries))"
    using assemble_order(2)[OF a] by (simp add: comp_def)
  ultimately show "i_messages inp \<noteq> [] \<and> list_all encodable (i_messages inp) \<and>
      distinct (map (\<lambda>m. toLowerCase (m_feedId m)) (i_messages inp))"
    using assemble_order(4,5)[OF a] by (metis mset_eq_imp_distinct_iff)
qed (use assemble_total in blast)

text \<open>An assembled update holds each of the tick's messages exactly once, in strictly
  ascending order of the feed id bytes, the header counts them, and the proof of each one leads from its
  leaf to the header's root and has at most 16 nodes whenever the count fits the header.\<close>

theorem assemble_correct:
  assumes "assemblePriceUpdate C inp = Inr (header, entries)"
  shows "mset (map e_message entries) = mset (i_messages inp) \<and>
    h_leafCount header = int (length entries) \<and>
    sorted_wrt (<) (map (\<lambda>e. feed_key (e_message e)) entries) \<and>
    (\<forall>e \<in> set entries. \<exists>m leaf. encodePriceMessage (e_message e) = Inr m \<and> leafHash C (Raw m) = Inr leaf \<and>
      verifyProof C (HexStr (h_merkleRoot header)) (HexStr leaf) (map HexStr (e_proof e)) = Inr True \<and>
      (length entries \<le> 2 ^ 16 \<longrightarrow> length (e_proof e) \<le> MAX_PROOF_LEN))"
proof -
  have "h_leafCount header = int (length entries)"
    using assms by (rule assemble_sorted) simp
  then show ?thesis
    using assemble_order[OF assms] assemble_entry_verifies[OF assms, of _ 16]
    by (simp add: MAX_PROOF_LEN_def)
qed

theorem assemble_correct_witness:
  "\<exists>header entries. assemblePriceUpdate demo_crypto demo_input = Inr (header, entries) \<and>
    h_leafCount header = int (length entries) \<and>
    mset (map e_message entries) = mset [demo_message 1, demo_message 2]"
proof -
  from demo_assembled[of demo_crypto] obtain header entries where
    a: "assemblePriceUpdate demo_crypto demo_input = Inr (header, entries)" by blast
  from assemble_correct[OF a] have "h_leafCount header = int (length entries)"
      "mset (map e_message entries) = mset (i_messages demo_input)" by blast+
  with a show ?thesis by (auto simp: demo_input_def)
qed

end
