(* ===== verification/Verify.thy ===== *)
theory Verify
  imports Price_Update
begin

text \<open>
  \<open>packages/sdk/src/protocol/verify.ts\<close> and \<open>packages/sdk/src/protocol/priceFeed.ts\<close>: verifying one
  feed of an update against the committee cell, and the feed cell a verified price is written to.
  Lemmas: what an accepted price guarantees, that every message of an assembled, signed and encoded
  update is accepted, and the feed cell's format as a \<open>codec\<close>.
\<close>

section \<open>Verification\<close>

record VerifiedPrice =
  v_header :: PriceUpdateHeader
  v_message :: PriceMessage

text \<open>The first argument is \<open>BytesLike | PriceUpdate\<close>.\<close>

datatype update_input = Blob bytes_like | Decoded PriceUpdate

fun decodeInput :: "update_input \<Rightarrow> PriceUpdate result" where
  "decodeInput (Blob b) = ecatch (decodePriceUpdate b) (\<lambda>_. Inl (VerifyError Malformed))"
| "decodeInput (Decoded u) = Inr u"

text \<open>The checks on the one entry of the feed, in the order of the code.\<close>

definition verifyEntry ::
    "crypto \<Rightarrow> PriceUpdate \<Rightarrow> UpdateEntry \<Rightarrow> hex \<Rightarrow> PublisherSetData \<Rightarrow> VerifiedPrice result" where
  "verifyEntry C decoded entry committee data =
    (let header = u_header decoded in
     ebind (encodePriceMessage (e_message entry)) (\<lambda>m.
     ebind (leafHash C (Raw m)) (\<lambda>leaf.
     ebind (verifyProof C (HexStr (h_merkleRoot header)) (HexStr leaf) (map HexStr (e_proof entry))) (\<lambda>proven.
     if \<not> proven then Inl (VerifyError BadProof)
     else if toLowerCase (h_publisherSetTypeHash header) \<noteq> toLowerCase committee
     then Inl (VerifyError WrongPublisherSet)
     else if js_and (governanceFlags data) GOVERNANCE_PAUSED \<noteq> 0 then Inl (VerifyError Paused)
     else case setFor data (h_setIndex header) (h_publishTimeMs header) of
       None \<Rightarrow> Inl (VerifyError BadSetIndex)
     | Some s \<Rightarrow>
         ebind (priceUpdateSigningHash C header) (\<lambda>digest.
         ebind (verifyThreshold C (u_signatures decoded) (HexStr digest) s) (\<lambda>signed.
         if \<not> signed then Inl (VerifyError BadSignature)
         else Inr \<lparr>v_header = header, v_message = e_message entry\<rparr>))))))"

definition verifyPriceUpdate ::
    "crypto \<Rightarrow> update_input \<Rightarrow> hex \<Rightarrow> hex \<Rightarrow> PublisherSetData \<Rightarrow> VerifiedPrice result" where
  "verifyPriceUpdate C update feed committee data =
    ebind (decodeInput update) (\<lambda>decoded.
    let matches = filter (\<lambda>e. toLowerCase (m_feedId (e_message e)) = toLowerCase feed) (u_entries decoded)
    in if length matches > 1 then Inl (VerifyError DuplicateFeed)
       else case at_index matches 0 of
         None \<Rightarrow> Inl (VerifyError FeedNotFound)
       | Some entry \<Rightarrow> verifyEntry C decoded entry committee data)"

section \<open>The feed cell\<close>

record PriceFeedData =
  f_feedId :: hex
  f_publisherSetTypeHash :: hex
  f_price :: int
  f_conf :: int
  f_expo :: int
  f_publishTimeMs :: int
  f_prevPublishTimeMs :: int
  f_emaPrice :: int
  f_emaConf :: int
  f_sourceTimeMs :: int
  f_numPublishers :: int
  f_setIndex :: int

definition encodePriceFeedData :: "PriceFeedData \<Rightarrow> bytes result" where
  "encodePriceFeedData d =
    run_writer
      [w_hex (f_feedId d) 32,
       w_hex (f_publisherSetTypeHash d) 32,
       w_i64 (f_price d),
       w_u64 (f_conf d),
       w_i32 (f_expo d),
       w_u64 (f_publishTimeMs d),
       w_u64 (f_prevPublishTimeMs d),
       w_i64 (f_emaPrice d),
       w_u64 (f_emaConf d),
       w_u64 (f_sourceTimeMs d),
       w_u8 (f_numPublishers d),
       w_u32 (f_setIndex d)]"

definition readFeed :: "PriceFeedData reading" where
  "readFeed =
    rbind (r_hex 32) (\<lambda>feed.
    rbind (r_hex 32) (\<lambda>committee.
    rbind r_i64 (\<lambda>price.
    rbind r_u64 (\<lambda>conf.
    rbind r_i32 (\<lambda>expo.
    rbind r_u64 (\<lambda>t.
    rbind r_u64 (\<lambda>prev.
    rbind r_i64 (\<lambda>emaPrice.
    rbind r_u64 (\<lambda>emaConf.
    rbind r_u64 (\<lambda>sourceTime.
    rbind r_u8 (\<lambda>n.
    rbind r_u32 (\<lambda>i.
    rret \<lparr>f_feedId = feed, f_publisherSetTypeHash = committee, f_price = price, f_conf = conf, f_expo = expo,
      f_publishTimeMs = t, f_prevPublishTimeMs = prev, f_emaPrice = emaPrice, f_emaConf = emaConf,
      f_sourceTimeMs = sourceTime, f_numPublishers = n, f_setIndex = i\<rparr>))))))))))))"

definition decodePriceFeedData :: "bytes_like \<Rightarrow> PriceFeedData result" where
  "decodePriceFeedData b =
    ebind (toBytes b) (\<lambda>data.
    if r_remaining (reader_of data ''PriceFeedData'') \<noteq> int PRICE_FEED_LEN
    then Inl (DecodeError ''PriceFeedData: expected bytes'')
    else run_reader readFeed data ''PriceFeedData'')"

definition uninitializedPriceFeed :: "hex \<Rightarrow> hex \<Rightarrow> PriceFeedData" where
  "uninitializedPriceFeed feed committee =
    \<lparr>f_feedId = feed, f_publisherSetTypeHash = committee, f_price = 0, f_conf = 0, f_expo = 0,
     f_publishTimeMs = 0, f_prevPublishTimeMs = 0, f_emaPrice = 0, f_emaConf = 0, f_sourceTimeMs = 0,
     f_numPublishers = 0, f_setIndex = 0\<rparr>"

definition isInitialized :: "PriceFeedData \<Rightarrow> bool" where
  "isInitialized d \<longleftrightarrow> f_publishTimeMs d \<noteq> 0"

definition applyVerifiedPrice :: "PriceFeedData \<Rightarrow> VerifiedPrice \<Rightarrow> PriceFeedData" where
  "applyVerifiedPrice current v =
    (let m = v_message v in
     current\<lparr>f_price := m_price m, f_conf := m_conf m, f_expo := m_expo m,
       f_publishTimeMs := h_publishTimeMs (v_header v), f_prevPublishTimeMs := m_prevPublishTimeMs m,
       f_emaPrice := m_emaPrice m, f_emaConf := m_emaConf m, f_sourceTimeMs := m_sourceTimeMs m,
       f_numPublishers := m_numPublishers m, f_setIndex := h_setIndex (v_header v)\<rparr>)"

definition isFeedPriceTrusted :: "PriceFeedData \<Rightarrow> PublisherSetData \<Rightarrow> bool" where
  "isFeedPriceTrusted d committee \<longleftrightarrow> isInitialized d \<and> \<not> isPaused committee \<and> trustsSet committee (f_setIndex d)"

section \<open>What an accepted price guarantees\<close>

lemma isPaused_iff: "isPaused d \<longleftrightarrow> js_and (governanceFlags d) GOVERNANCE_PAUSED \<noteq> 0"
  by (simp add: isPaused_def)

definition entry_accepted ::
    "crypto \<Rightarrow> PriceUpdate \<Rightarrow> UpdateEntry \<Rightarrow> hex \<Rightarrow> PublisherSetData \<Rightarrow> bool" where
  "entry_accepted C u e committee data \<longleftrightarrow>
    (\<exists>m leaf s digest.
      encodePriceMessage (e_message e) = Inr m \<and> leafHash C (Raw m) = Inr leaf \<and>
      verifyProof C (HexStr (h_merkleRoot (u_header u))) (HexStr leaf) (map HexStr (e_proof e)) = Inr True \<and>
      toLowerCase (h_publisherSetTypeHash (u_header u)) = toLowerCase committee \<and>
      \<not> isPaused data \<and>
      setFor data (h_setIndex (u_header u)) (h_publishTimeMs (u_header u)) = Some s \<and>
      priceUpdateSigningHash C (u_header u) = Inr digest \<and>
      verifyThreshold C (u_signatures u) (HexStr digest) s = Inr True)"

lemma verifyEntry_iff:
  "verifyEntry C u e committee data = Inr v \<longleftrightarrow>
    entry_accepted C u e committee data \<and> v = \<lparr>v_header = u_header u, v_message = e_message e\<rparr>"
  unfolding verifyEntry_def Let_def isPaused_def entry_accepted_def
  by (auto simp: ebind_eq_Inr ex_bool_eq split: if_splits option.splits)

text \<open>The entry the code picks.\<close>

lemma verifyPriceUpdate_iff:
  "verifyPriceUpdate C update feed committee data = Inr v \<longleftrightarrow>
    (\<exists>u e. decodeInput update = Inr u \<and>
      filter (\<lambda>e. toLowerCase (m_feedId (e_message e)) = toLowerCase feed) (u_entries u) = [e] \<and>
      entry_accepted C u e committee data \<and> v = \<lparr>v_header = u_header u, v_message = e_message e\<rparr>)"
proof -
  have pick: "(if length es > 1 then Inl (VerifyError DuplicateFeed)
      else case at_index es 0 of None \<Rightarrow> Inl (VerifyError FeedNotFound)
        | Some entry \<Rightarrow> verifyEntry C u entry committee data) = Inr v \<longleftrightarrow>
    (\<exists>e. es = [e] \<and> verifyEntry C u e committee data = Inr v)" for es u
    by (cases es; cases "tl es") (auto simp: at_index_def)
  show ?thesis
    unfolding verifyPriceUpdate_def Let_def ebind_eq_Inr pick verifyEntry_iff by blast
qed

lemma decodeInput_Blob [simp]: "decodeInput (Blob b) = Inr u \<longleftrightarrow> decodePriceUpdate b = Inr u"
  by (auto simp: ecatch_def split: sum.splits)

text \<open>The nodes of a decoded proof are 32 bytes each.\<close>

definition proof_bytes :: "UpdateEntry \<Rightarrow> bytes list" where
  "proof_bytes e = map (\<lambda>s. hex_pairs (drop 2 s)) (e_proof e)"

lemma decoded_proof:
  assumes "decodePriceUpdate (Raw bs) = Inr u" and "e \<in> set (u_entries u)"
  shows "list_all2 (\<lambda>s b. toBytes s = Inr b \<and> length b = 32) (map HexStr (e_proof e)) (proof_bytes e)"
    "norm_message (e_message e) = e_message e"
proof -
  from update_codec.enc_dec[OF assms(1)] obtain parts where
    "list_all2 (\<lambda>e p. run_writer (writeEntry e) = Inr p) (u_entries u) parts"
    by (auto simp: encodeUpdate_iff encodeEntries_iff)
  with assms(2) obtain p where "run_writer (writeEntry e) = Inr p"
    by (auto simp: list_all2_conv_all_nth in_set_conv_nth)
  then obtain ps where "list_all2 (\<lambda>n p. hexToFixed n 32 = Inr p) (e_proof e) ps"
    by (auto simp: writeEntry_iff)
  then show "list_all2 (\<lambda>s b. toBytes s = Inr b \<and> length b = 32) (map HexStr (e_proof e)) (proof_bytes e)"
    by (auto simp: list_all2_conv_all_nth hexToFixed_def ebind_eq_Inr proof_bytes_def hexToBytes_def
        split: if_splits)
  have "map norm_entry (u_entries u) = u_entries u"
    using update_codec.dec_norm[OF assms(1)] by (metis PriceUpdate.select_convs(3) norm_update_def)
  then have "norm_entry e = e" using assms(2) by (metis in_set_conv_nth length_map nth_map)
  then show "norm_message (e_message e) = e_message e"
    by (metis UpdateEntry.select_convs(1) norm_entry_def)
qed

text \<open>A verified message is one of those under the header's root.\<close>

lemma verified_message_in_tree:
  assumes dec: "decodePriceUpdate (Raw bs) = Inr u" and e: "e \<in> set (u_entries u)"
    and acc: "entry_accepted C u e committee data"
    and ms: "list_all encodable ms" "ms \<noteq> []"
    and root: "merkleRoot C (map (message_leaf C) ms) = Inr (h_merkleRoot (u_header u))"
    and free: "collision_free C (map message_bytes ms) (message_bytes (e_message e)) (proof_bytes e)"
  shows "\<exists>m \<in> set ms. e_message e = norm_message m"
proof -
  from acc obtain mb leaf where mb: "encodePriceMessage (e_message e) = Inr mb"
    and leaf: "leafHash C (Raw mb) = Inr leaf"
    and vp: "verifyProof C (HexStr (h_merkleRoot (u_header u))) (HexStr leaf) (map HexStr (e_proof e)) = Inr True"
    by (auto simp: entry_accepted_def)
  have mb': "message_bytes (e_message e) = mb" using mb by (simp add: message_bytes_def)
  have "mb \<in> set (map message_bytes ms)"
  proof (rule only_leaves_verify[OF _ _ _ leaf decoded_proof(1)[OF dec e] vp])
    show "hash32 C" using free by (simp add: collision_free_def)
    show "map message_bytes ms \<noteq> []" using ms(2) by simp
    show "merkleRoot C (map (\<lambda>m. bytesToHex (leaf_bytes C m)) (map message_bytes ms)) = Inr (h_merkleRoot (u_header u))"
      using root by (simp add: comp_def message_leaf_def[abs_def])
    show "inj_on (blake2b C) (set (hashed_strings C (map message_bytes ms) mb (proof_bytes e)))"
      using free mb' by (simp add: collision_free_def)
  qed
  then obtain m where m: "m \<in> set ms" "mb = message_bytes m" by auto
  then have "encodePriceMessage m = Inr mb" using ms(1) message_bytes by (auto simp: list_all_iff)
  from message_codec.enc_inj[OF _ _ this mb] decoded_proof(2)[OF dec e] m(1)
  show ?thesis by metis
qed

text \<open>Verification of an assembled update.\<close>

lemma assembled_entry_accepted:
  assumes a: "assemblePriceUpdate C inp = Inr (header, entries)"
    and e: "e \<in> set entries"
    and u: "u_header u = header" "u_signatures u = sigs"
    and set: "\<not> isPaused data" "setFor data (i_setIndex inp) (i_publishTimeMs inp) = Some s"
    and committee: "toLowerCase (i_publisherSetTypeHash inp) = toLowerCase committee"
    and signed: "priceUpdateSigningHash C header = Inr digest" "verifyThreshold C sigs (HexStr digest) s = Inr True"
  shows "entry_accepted C u e committee data"
proof -
  have h: "h_publisherSetTypeHash header = i_publisherSetTypeHash inp \<and> h_setIndex header = i_setIndex inp \<and>
      h_publishTimeMs header = i_publishTimeMs inp"
    using a by (rule assemble_sorted) simp
  from assemble_entry_verifies[OF a e] obtain m leaf where
    "encodePriceMessage (e_message e) = Inr m" "leafHash C (Raw m) = Inr leaf"
    "verifyProof C (HexStr (h_merkleRoot header)) (HexStr leaf) (map HexStr (e_proof e)) = Inr True"
    by blast
  with h u set committee signed show ?thesis unfolding entry_accepted_def by auto
qed

text \<open>Acceptance does not depend on the letter case of hex fields.\<close>

lemma toBytes_lower: "toBytes (HexStr s) = Inr bs \<Longrightarrow> toBytes (HexStr (toLowerCase s)) = Inr bs"
  by (simp add: hexToBytes_toLowerCase)

lemma verifyProof_lower:
  assumes "verifyProof C (HexStr root) leaf (map HexStr pr) = Inr b"
  shows "verifyProof C (HexStr (toLowerCase root)) leaf (map (HexStr \<circ> toLowerCase) pr) = Inr b"
proof -
  from verifyProof_Inr[OF assms] obtain r l bs where *: "toBytes (HexStr root) = Inr r" "toBytes leaf = Inr l"
      "list_all2 (\<lambda>s b. toBytes s = Inr b) (map HexStr pr) bs" by blast
  have "list_all2 (\<lambda>s b. toBytes s = Inr b) (map (HexStr \<circ> toLowerCase) pr) bs"
    using *(3) by (auto simp: list_all2_map1 intro: hexToBytes_toLowerCase elim!: list_all2_mono)
  from verifyProof_bytes[OF toBytes_lower[OF *(1)] *(2) this] verifyProof_bytes[OF *] assms
  show ?thesis by simp
qed

lemma signature_of_lower: "signature_of C hash s i sig \<Longrightarrow> signature_of C hash s i (toLowerCase sig)"
proof -
  have "recoverSigner C d (HexStr sig) = Inr x \<Longrightarrow> recoverSigner C d (HexStr (toLowerCase sig)) = Inr x" for d x
    by (auto simp: recoverSigner_def ebind_eq_Inr hexToBytes_toLowerCase)
  then show "signature_of C hash s i sig \<Longrightarrow> signature_of C hash s i (toLowerCase sig)"
    unfolding signature_of_def by blast
qed

lemma verifyThreshold_lower:
  assumes "verifyThreshold C sigs digest s = Inr True"
  shows "verifyThreshold C (map norm_signature sigs) digest s = Inr True"
proof -
  from assms obtain hash where h: "toBytes digest = Inr hash" by (auto simp: verifyThreshold_def ebind_eq_Inr)
  have "map publisherIndex (map norm_signature sigs) = map publisherIndex sigs"
    by (simp add: norm_signature_def comp_def)
  with assms show ?thesis
    unfolding verifyThreshold_True[OF h] by (auto simp: norm_signature_def signature_of_lower simp del: map_map)
qed

lemma signingHash_norm:
  assumes "priceUpdateSigningHash C h = Inr digest" "h_leafCount h \<noteq> 0"
  shows "priceUpdateSigningHash C (norm_header h) = Inr digest"
  using assms header_codec.enc_norm[of h] by (auto simp: priceUpdateSigningHash_def ebind_eq_Inr)

lemma entry_accepted_norm:
  assumes "entry_accepted C u e committee data" "h_leafCount (u_header u) \<noteq> 0"
  shows "entry_accepted C (norm_update u) (norm_entry e) committee data"
proof -
  from assms(1) obtain m leaf s digest where *: "encodePriceMessage (e_message e) = Inr m"
      "leafHash C (Raw m) = Inr leaf"
      "verifyProof C (HexStr (h_merkleRoot (u_header u))) (HexStr leaf) (map HexStr (e_proof e)) = Inr True"
      "toLowerCase (h_publisherSetTypeHash (u_header u)) = toLowerCase committee" "\<not> isPaused data"
      "setFor data (h_setIndex (u_header u)) (h_publishTimeMs (u_header u)) = Some s"
      "priceUpdateSigningHash C (u_header u) = Inr digest"
      "verifyThreshold C (u_signatures u) (HexStr digest) s = Inr True"
    unfolding entry_accepted_def by blast
  have "encodePriceMessage (e_message (norm_entry e)) = Inr m"
    using message_codec.enc_norm[OF _ *(1)] by (simp add: norm_entry_def)
  moreover have "verifyProof C (HexStr (h_merkleRoot (u_header (norm_update u)))) (HexStr leaf)
      (map HexStr (e_proof (norm_entry e))) = Inr True"
    using verifyProof_lower[OF *(3)] by (simp add: norm_update_def norm_header_def norm_entry_def)
  moreover have "priceUpdateSigningHash C (u_header (norm_update u)) = Inr digest"
    using signingHash_norm[OF *(7) assms(2)] by (simp add: norm_update_def)
  moreover have "verifyThreshold C (u_signatures (norm_update u)) (HexStr digest) s = Inr True"
    using verifyThreshold_lower[OF *(8)] by (simp add: norm_update_def)
  ultimately show ?thesis
    using *(2,4-6) unfolding entry_accepted_def by (auto simp: norm_update_def norm_header_def)
qed

text \<open>The entry of a feed in an assembled update is unique.\<close>

lemma filter_distinct_key:
  "distinct (map k xs) \<Longrightarrow> x \<in> set xs \<Longrightarrow> filter (\<lambda>y. k y = k x) xs = [x]"
proof (induction xs)
  case (Cons a xs)
  show ?case
  proof (cases "x = a")
    case True
    with Cons.prems have "\<forall>y \<in> set xs. k y \<noteq> k x" by (auto simp: image_iff)
    then have "filter (\<lambda>y. k y = k x) xs = []" by (simp add: filter_empty_conv)
    with True show ?thesis by simp
  next
    case False
    with Cons.prems have "k a \<noteq> k x" by auto
    with False Cons show ?thesis by simp
  qed
qed simp

lemma assembled_verifies:
  assumes a: "assemblePriceUpdate C inp = Inr (header, entries)"
    and m: "m \<in> set (i_messages inp)"
    and bytes: "encodePriceUpdate \<lparr>u_header = header, u_signatures = sigs, u_entries = entries\<rparr> = Inr bs"
    and set: "\<not> isPaused data" "setFor data (i_setIndex inp) (i_publishTimeMs inp) = Some s"
    and signed: "priceUpdateSigningHash C header = Inr digest" "verifyThreshold C sigs (HexStr digest) s = Inr True"
  shows "verifyPriceUpdate C (Blob (Raw bs)) (m_feedId m) (i_publisherSetTypeHash inp) data =
    Inr \<lparr>v_header = norm_header header, v_message = norm_message m\<rparr>"
proof -
  let ?u = "\<lparr>u_header = header, u_signatures = sigs, u_entries = entries\<rparr>"
  have count: "h_leafCount header \<noteq> 0"
    using a by (rule assemble_sorted) (simp only: length_0_conv of_nat_eq_0_iff not_False_eq_True)
  have dec: "decodePriceUpdate (Raw bs) = Inr (norm_update ?u)"
    by (rule update_codec.dec_enc[OF _ bytes]) (simp add: count)
  have "set (map e_message entries) = set (i_messages inp)"
    unfolding assemble_order(1)[OF a] by simp
  with m have "m \<in> e_message ` set entries" by simp
  then obtain e where e: "e \<in> set entries" "e_message e = m" by auto
  have "entry_accepted C (norm_update ?u) (norm_entry e) (i_publisherSetTypeHash inp) data"
    using assembled_entry_accepted[OF a e(1), where u = ?u and sigs = sigs, OF _ _ set refl signed] count
    by (intro entry_accepted_norm) simp_all
  moreover have "filter (\<lambda>e'. toLowerCase (m_feedId (e_message e')) = toLowerCase (m_feedId m)) (u_entries (norm_update ?u))
      = [norm_entry e]"
    using filter_distinct_key[OF assemble_order(2)[OF a] e(1)] e(2)
    by (simp add: norm_update_def filter_map comp_def norm_entry_def norm_message_def)
  ultimately show ?thesis
    unfolding verifyPriceUpdate_iff using dec e(2)
    by (intro exI[of _ "norm_update ?u"] exI[of _ "norm_entry e"]) (simp add: norm_update_def norm_entry_def)
qed

text \<open>An assembled update fits its format.\<close>

lemma tree_path_nodes: "i < length level \<Longrightarrow> set (tree_path nd level i) \<subseteq> tree_nodes nd level"
proof (induction "length level" arbitrary: level i rule: less_induct)
  case less
  show ?case
  proof (cases "1 < length level")
    case True
    have "i div 2 < length (level_up nd level)" "length (level_up nd level) < length level"
      using less.prems True by auto
    from less.hyps[OF this(2,1)] tree_nodes_step[OF True, of nd]
    have "set (tree_path nd (level_up nd level) (i div 2)) \<subseteq> tree_nodes nd level" by blast
    moreover have "j < length level \<Longrightarrow> level ! j \<in> tree_nodes nd level" for j by (simp add: tree_nodes_def)
    ultimately show ?thesis using True by (auto simp: tree_path.simps[of nd level])
  next
    case False
    then show ?thesis by (simp add: tree_path.simps[of nd level])
  qed
qed

lemma message_leaf_hexes: "hexes (map (message_leaf C) ms) (map (\<lambda>m. leaf_bytes C (message_bytes m)) ms)"
  by (simp add: hexes_def list_all2_conv_all_nth message_leaf_def)

lemma proof_nodes_fixed:
  assumes "hash32 C" "i < length ms" "merkleProof C (map (message_leaf C) ms) (int i) = Inr pr"
  shows "\<exists>ps. list_all2 (\<lambda>s p. hexToFixed s 32 = Inr p) pr ps"
proof -
  let ?bs = "map (\<lambda>m. leaf_bytes C (message_bytes m)) ms"
  have nodes: "length v = 32" if "v \<in> tree_nodes (node_bytes C) ?bs" for v
    using that assms(1) by (auto simp: tree_nodes_def)
  have "hexes pr (tree_path (node_bytes C) ?bs i)"
    using merkleProof_bytes[OF message_leaf_hexes[of C ms], of i C] assms(2,3) by auto
  moreover have "\<forall>v \<in> set (tree_path (node_bytes C) ?bs i). length v = 32"
    using tree_path_nodes[of i ?bs "node_bytes C"] nodes assms(2) by auto
  ultimately have "list_all2 (\<lambda>s p. hexToFixed s 32 = Inr p) pr (tree_path (node_bytes C) ?bs i)"
    by (auto simp: hexes_def list_all2_conv_all_nth hexToFixed_eq_Inr)
  then show ?thesis ..
qed

lemma root_fixed:
  assumes "hash32 C" "ms \<noteq> []" "merkleRoot C (map (message_leaf C) ms) = Inr root"
  shows "\<exists>r. hexToFixed root 32 = Inr r"
proof -
  let ?bs = "map (\<lambda>m. leaf_bytes C (message_bytes m)) ms"
  have "length v = 32" if "v \<in> tree_nodes (node_bytes C) ?bs" for v
    using that assms(1) by (auto simp: tree_nodes_def)
  then have "length (tree_root (node_bytes C) ?bs) = 32" using tree_root_node[of ?bs] assms(2) by simp
  moreover have "hexToBytes root = Inr (tree_root (node_bytes C) ?bs)"
    using merkleRoot_bytes[OF message_leaf_hexes[of C ms], of C] assms(2,3) by auto
  ultimately show ?thesis by (auto simp: hexToFixed_eq_Inr)
qed

definition input_fits :: "UnsignedUpdateInput \<Rightarrow> bool" where
  "input_fits inp \<longleftrightarrow> is_u32 (i_setIndex inp) \<and> is_u64 (i_publishTimeMs inp) \<and> is_u32 (i_tickPeriodMs inp) \<and>
    (\<exists>p. hexToFixed (i_publisherSetTypeHash inp) 32 = Inr p) \<and> (\<exists>c. hexToFixed (i_configHash inp) 32 = Inr c) \<and>
    length (i_messages inp) \<le> 255"

lemma assembled_encodes:
  assumes a: "assemblePriceUpdate C inp = Inr (header, entries)" and "hash32 C" and fits: "input_fits inp"
    and sigs: "encodeSignatureBundle sigs = Inr sb"
  shows "\<exists>h bs. encodePriceUpdateHeader header = Inr h \<and>
    encodePriceUpdate \<lparr>u_header = header, u_signatures = sigs, u_entries = entries\<rparr> = Inr bs"
  using a
proof (rule assemble_sorted)
  fix ms
  assume ms: "ms = sort_key feed_key (i_messages inp)" "ms \<noteq> []" "list_all encodable ms"
    and root: "merkleRoot C (map (message_leaf C) ms) = Inr (h_merkleRoot header)"
    and hd: "h_leafCount header = int (length ms)" "h_publisherSetTypeHash header = i_publisherSetTypeHash inp"
      "h_setIndex header = i_setIndex inp" "h_publishTimeMs header = i_publishTimeMs inp"
      "h_tickPeriodMs header = i_tickPeriodMs inp" "h_configHash header = i_configHash inp"
    and len: "length entries = length ms"
    and nth: "\<And>i. i < length ms \<Longrightarrow> e_message (entries ! i) = ms ! i \<and>
       merkleProof C (map (message_leaf C) ms) (int i) = Inr (e_proof (entries ! i))"
  have n: "length ms \<le> 255" using ms(1) fits by (simp add: input_fits_def)
  have h: "\<exists>h. encodePriceUpdateHeader header = Inr h"
    using root_fixed[OF assms(2) ms(2) root] fits n
    by (auto simp: encodeHeader_iff hd input_fits_def is_u16_def)
  have "\<exists>b. run_writer (writeEntry e) = Inr b" if e: "e \<in> set entries" for e
  proof -
    from e obtain i where i: "i < length ms" "e = entries ! i" by (metis in_set_conv_nth len)
    have "\<exists>m. encodePriceMessage (e_message e) = Inr m"
      using ms(3) i nth by (auto simp: list_all_length encodable_def)
    moreover have "\<exists>ps. list_all2 (\<lambda>s p. hexToFixed s 32 = Inr p) (e_proof e) ps"
      using proof_nodes_fixed[OF assms(2) i(1)] nth i by blast
    moreover have "length (e_proof e) \<le> MAX_PROOF_LEN"
      using assemble_entry_verifies[OF a e, of 16] len n by (auto simp: MAX_PROOF_LEN_def)
    ultimately show ?thesis by (auto simp: writeEntry_iff)
  qed
  from exists_list_all2[where P = "\<lambda>e b. run_writer (writeEntry e) = Inr b", OF this] obtain parts where
    "list_all2 (\<lambda>e b. run_writer (writeEntry e) = Inr b) entries parts" by blast
  then have "\<exists>b. encodeEntries entries = Inr b" using n len by (auto simp: encodeEntries_iff is_u8_def)
  moreover have "entries \<noteq> []" using ms(2) len by auto
  ultimately show ?thesis using h sigs by (auto simp: encodeUpdate_iff)
qed

lemma accepted_bundle_encodes:
  assumes "verifyThreshold C sigs digest s = Inr True" and "length (pubkeys s) \<le> 255"
  shows "\<exists>sb. encodeSignatureBundle sigs = Inr sb"
proof -
  from assms(1) obtain hash where "toBytes digest = Inr hash" by (auto simp: verifyThreshold_def ebind_eq_Inr)
  note v = assms(1)[unfolded verifyThreshold_True[OF this]]
  have "\<exists>b. run_writer (writeSignature e) = Inr b" if "e \<in> set sigs" for e
    using v that assms(2)
    by (auto simp: signature_of_def at_index_Some recoverSigner_def ebind_eq_Inr writeSignature_iff is_u8_def
        hexToFixed_eq_Inr split: if_splits)
  from exists_list_all2[where P = "\<lambda>e b. run_writer (writeSignature e) = Inr b", OF this] show ?thesis
    using v assms(2) by (auto simp: encodeSignatureBundle_iff is_u8_def)
qed

lemma setFor_small:
  assumes "isValidPublisherSetData data = Inr True" and "setFor data i t = Some s"
  shows "length (pubkeys s) \<le> 255"
proof -
  have "isValidPublisherSet s = Inr True"
    using assms(2) valid_data_sets[OF assms(1)] by (auto simp: setFor_def split: if_splits option.splits)
  then show ?thesis
    by (auto simp: isValidPublisherSet_def ebind_eq_Inr MAX_PUBLISHERS_def dest: emap_length)
qed

section \<open>The feed cell's format\<close>

definition norm_feed :: "PriceFeedData \<Rightarrow> PriceFeedData" where
  "norm_feed d = d\<lparr>f_feedId := toLowerCase (f_feedId d),
     f_publisherSetTypeHash := toLowerCase (f_publisherSetTypeHash d)\<rparr>"

lemma encodeFeed_iff:
  "encodePriceFeedData d = Inr bs \<longleftrightarrow>
    is_i64 (f_price d) \<and> is_u64 (f_conf d) \<and> is_i32 (f_expo d) \<and> is_u64 (f_publishTimeMs d) \<and>
    is_u64 (f_prevPublishTimeMs d) \<and> is_i64 (f_emaPrice d) \<and> is_u64 (f_emaConf d) \<and> is_u64 (f_sourceTimeMs d) \<and>
    is_u8 (f_numPublishers d) \<and> is_u32 (f_setIndex d) \<and>
    (\<exists>f c. hexToFixed (f_feedId d) 32 = Inr f \<and> hexToFixed (f_publisherSetTypeHash d) 32 = Inr c \<and>
      bs = f @ c @ int_bytes 8 (f_price d) @ int_bytes 8 (f_conf d) @ int_bytes 4 (f_expo d) @
        int_bytes 8 (f_publishTimeMs d) @ int_bytes 8 (f_prevPublishTimeMs d) @ int_bytes 8 (f_emaPrice d) @
        int_bytes 8 (f_emaConf d) @ int_bytes 8 (f_sourceTimeMs d) @ int_bytes 1 (f_numPublishers d) @
        int_bytes 4 (f_setIndex d) @ [])"
  by (auto simp: encodePriceFeedData_def)

lemma encodeFeed_length: "encodePriceFeedData d = Inr bs \<Longrightarrow> length bs = PRICE_FEED_LEN"
  by (auto simp: encodeFeed_iff hexToFixed_eq_Inr PRICE_FEED_LEN_def)

lemma reads_feed:
  assumes "encodePriceFeedData d = Inr bs"
  shows "reads readFeed bs (norm_feed d)"
proof -
  from assms obtain f c where *: "is_i64 (f_price d)" "is_u64 (f_conf d)" "is_i32 (f_expo d)"
      "is_u64 (f_publishTimeMs d)" "is_u64 (f_prevPublishTimeMs d)" "is_i64 (f_emaPrice d)" "is_u64 (f_emaConf d)"
      "is_u64 (f_sourceTimeMs d)" "is_u8 (f_numPublishers d)" "is_u32 (f_setIndex d)"
      "hexToFixed (f_feedId d) 32 = Inr f" "hexToFixed (f_publisherSetTypeHash d) 32 = Inr c"
      "bs = f @ c @ int_bytes 8 (f_price d) @ int_bytes 8 (f_conf d) @ int_bytes 4 (f_expo d) @
        int_bytes 8 (f_publishTimeMs d) @ int_bytes 8 (f_prevPublishTimeMs d) @ int_bytes 8 (f_emaPrice d) @
        int_bytes 8 (f_emaConf d) @ int_bytes 8 (f_sourceTimeMs d) @ int_bytes 1 (f_numPublishers d) @
        int_bytes 4 (f_setIndex d) @ []"
    by (auto simp only: encodeFeed_iff)
  show ?thesis
    unfolding readFeed_def *(13) by (intro reads_then; (rule *)?) (simp add: norm_feed_def)
qed

lemma parses_feed: "parses readFeed (\<lambda>bs d. encodePriceFeedData d = Inr bs \<and> norm_feed d = d)"
  unfolding readFeed_def
  by (rule parses_mono[OF parses_bind[OF parses_hexToFixed parses_bind[OF parses_hexToFixed
          parses_bind[OF parses_signed(2) parses_bind[OF parses_ints(4) parses_bind[OF parses_signed(1)
          parses_bind[OF parses_ints(4) parses_bind[OF parses_ints(4) parses_bind[OF parses_signed(2)
          parses_bind[OF parses_ints(4) parses_bind[OF parses_ints(4) parses_bind[OF parses_ints(1)
          parses_bind[OF parses_ints(3) parses_ret]]]]]]]]]]]]])
     (auto simp: encodeFeed_iff norm_feed_def)

interpretation feed_codec: codec encodePriceFeedData "\<lambda>bs. decodePriceFeedData (Raw bs)" norm_feed "\<lambda>_. True"
proof
  fix d bs
  assume e: "encodePriceFeedData d = Inr bs"
  then show "decodePriceFeedData (Raw bs) = Inr (norm_feed d)"
    using encodeFeed_length[OF e]
    by (simp add: decodePriceFeedData_def r_remaining_def reads_run[OF reads_feed])
next
  fix bs d
  assume "decodePriceFeedData (Raw bs) = Inr d"
  then have "run_reader readFeed bs ''PriceFeedData'' = Inr d" and len: "length bs = PRICE_FEED_LEN"
    by (auto simp: decodePriceFeedData_def r_remaining_def split: if_splits)
  from parses_run[OF parses_feed this(1)] obtain b1 b2 where
    "bs = b1 @ b2" "encodePriceFeedData d = Inr b1" by blast
  with encodeFeed_length len show "encodePriceFeedData d = Inr bs" by auto
qed simp

text \<open>A signed update of one message, for the witnesses.\<close>

definition demo_single :: UnsignedUpdateInput where
  "demo_single = demo_input\<lparr>i_messages := [demo_message 1]\<rparr>"

lemma norm_demo_message [simp]: "norm_message (demo_message n) = demo_message n"
  by (simp add: norm_message_def demo_message_def)

lemma demo_signed:
  assumes "encodePriceUpdateHeader header = Inr h"
  shows "\<exists>digest. priceUpdateSigningHash demo_crypto header = Inr digest \<and>
    verifyThreshold demo_crypto demo_bundle (HexStr digest) (demo_set 1) = Inr True"
  using assms by (auto simp: priceUpdateSigningHash_def intro!: demo_bundle_accepted)

lemma demo_setFor: "setFor demo_rotated 1 2000 = Some (demo_set 1)" "\<not> isPaused demo_rotated"
  by (simp_all add: setFor_def demo_rotated_def demo_committee_def isPaused_def js_and_def asIntN_def)

lemma demo_update:
  "\<exists>bs u v. decodePriceUpdate (Raw bs) = Inr u \<and>
    verifyPriceUpdate demo_crypto (Blob (Raw bs)) (m_feedId (demo_message 1)) (i_publisherSetTypeHash demo_single)
      demo_rotated = Inr v \<and> h_publishTimeMs (v_header v) = 2000 \<and>
    merkleRoot demo_crypto (map (message_leaf demo_crypto) [demo_message 1]) = Inr (h_merkleRoot (u_header u)) \<and>
    (\<forall>e \<in> set (u_entries u). e_message e = demo_message 1 \<and> e_proof e = [])"
proof -
  obtain header entries where a: "assemblePriceUpdate demo_crypto demo_single = Inr (header, entries)"
    using assemble_total[of demo_single demo_crypto] by (auto simp: demo_single_def)
  have fits: "input_fits demo_single" by (simp add: input_fits_def demo_single_def demo_input_def int_ranges)
  obtain eb where "encodeSignatureBundle [] = Inr eb" by (simp add: encodeSignatureBundle_iff is_u8_def)
  from assembled_encodes[OF a demo_hash32 fits this] obtain h where "encodePriceUpdateHeader header = Inr h"
    by blast
  from demo_signed[OF this] obtain digest where
    d: "priceUpdateSigningHash demo_crypto header = Inr digest"
      "verifyThreshold demo_crypto demo_bundle (HexStr digest) (demo_set 1) = Inr True" by blast
  obtain sb where "encodeSignatureBundle demo_bundle = Inr sb"
    using accepted_bundle_encodes[OF d(2)] by auto
  from assembled_encodes[OF a demo_hash32 fits this] obtain bs where
    bs: "encodePriceUpdate \<lparr>u_header = header, u_signatures = demo_bundle, u_entries = entries\<rparr> = Inr bs" by blast
  have "setFor demo_rotated (i_setIndex demo_single) (i_publishTimeMs demo_single) = Some (demo_set 1)"
    using demo_setFor by (simp add: demo_single_def demo_input_def)
  from assembled_verifies[OF a _ bs demo_setFor(2) this d, of "demo_message 1"]
  have v: "verifyPriceUpdate demo_crypto (Blob (Raw bs)) (m_feedId (demo_message 1)) (i_publisherSetTypeHash demo_single)
      demo_rotated = Inr \<lparr>v_header = norm_header header, v_message = demo_message 1\<rparr>"
    by (simp add: demo_single_def)
  have hd: "h_leafCount header = 1 \<and> h_publishTimeMs header = 2000 \<and>
      merkleRoot demo_crypto (map (message_leaf demo_crypto) [demo_message 1]) = Inr (h_merkleRoot header)"
    using a by (rule assemble_sorted) (simp add: demo_single_def demo_input_def)
  have msgs: "map e_message entries = [demo_message 1]" using assemble_order(1)[OF a] by (simp add: demo_single_def)
  have "e_message e = demo_message 1 \<and> e_proof e = []" if "e \<in> set entries" for e
    using msgs that assemble_entry_verifies[OF a that, of 0] by (cases entries) auto
  moreover have "decodePriceUpdate (Raw bs) = Inr (norm_update \<lparr>u_header = header, u_signatures = demo_bundle, u_entries = entries\<rparr>)"
    by (rule update_codec.dec_enc[OF _ bs]) (simp add: hd)
  moreover have "toLowerCase (h_merkleRoot header) = h_merkleRoot header"
    using hd by (auto simp: merkleRoot_def root_loop.simps message_leaf_def) (metis toLowerCase_bytesToHex)
  ultimately show ?thesis
    using v hd by (intro exI conjI) (auto simp: norm_update_def norm_header_def norm_entry_def)
qed

section \<open>Properties\<close>

text \<open>Claim C4: an accepted price is the message of the only entry of the feed; its leaf is proven under
  the header's root, the committee is the expected one and not paused, the header's key set may sign the
  header's tick, and a quorum of distinct publishers of that set signed the header's digest. Conversely
  an update that passes all of this is accepted.\<close>

theorem verification_characterised:
  "verifyPriceUpdate C update feed committee data = Inr v \<longleftrightarrow>
    (\<exists>u e m leaf s digest.
      decodeInput update = Inr u \<and>
      filter (\<lambda>e. toLowerCase (m_feedId (e_message e)) = toLowerCase feed) (u_entries u) = [e] \<and>
      encodePriceMessage (e_message e) = Inr m \<and> leafHash C (Raw m) = Inr leaf \<and>
      verifyProof C (HexStr (h_merkleRoot (u_header u))) (HexStr leaf) (map HexStr (e_proof e)) = Inr True \<and>
      toLowerCase (h_publisherSetTypeHash (u_header u)) = toLowerCase committee \<and>
      \<not> isPaused data \<and>
      setFor data (h_setIndex (u_header u)) (h_publishTimeMs (u_header u)) = Some s \<and>
      priceUpdateSigningHash C (u_header u) = Inr digest \<and>
      quorum_signed C (u_signatures u) (HexStr digest) s \<and>
      v = \<lparr>v_header = u_header u, v_message = e_message e\<rparr>)"
  unfolding verifyPriceUpdate_iff entry_accepted_def verifyThreshold_quorum by blast

text \<open>Whatever \<open>assemblePriceUpdate\<close> builds, once a quorum has signed its digest, has an
  encoding, and from these bytes \<open>verifyPriceUpdate\<close> returns the header and every one of the messages the
  tick was built from (with lower-case hex), as long as the committee is not paused and the header's set may
  sign its tick.\<close>

theorem assembled_update_verifies:
  assumes "assemblePriceUpdate C inp = Inr (header, entries)" and "hash32 C" and "input_fits inp"
    and "isValidPublisherSetData data = Inr True" and "\<not> isPaused data"
    and "setFor data (i_setIndex inp) (i_publishTimeMs inp) = Some s"
    and "priceUpdateSigningHash C header = Inr digest" and "quorum_signed C sigs (HexStr digest) s"
  shows "\<exists>bs. encodePriceUpdate \<lparr>u_header = header, u_signatures = sigs, u_entries = entries\<rparr> = Inr bs \<and>
    (\<forall>m \<in> set (i_messages inp).
      verifyPriceUpdate C (Blob (Raw bs)) (m_feedId m) (i_publisherSetTypeHash inp) data =
        Inr \<lparr>v_header = norm_header header, v_message = norm_message m\<rparr>)"
proof -
  have signed: "verifyThreshold C sigs (HexStr digest) s = Inr True"
    using assms(8) by (simp add: verifyThreshold_quorum)
  from accepted_bundle_encodes[OF signed setFor_small[OF assms(4,6)]] obtain sb where
    "encodeSignatureBundle sigs = Inr sb" by blast
  from assembled_encodes[OF assms(1-3) this] obtain bs where
    "encodePriceUpdate \<lparr>u_header = header, u_signatures = sigs, u_entries = entries\<rparr> = Inr bs" by blast
  with assembled_verifies[OF assms(1) _ this assms(5,6,7) signed] show ?thesis by blast
qed

theorem assembled_update_verifies_witness:
  "\<exists>bs header. verifyPriceUpdate demo_crypto (Blob (Raw bs)) (m_feedId (demo_message 2))
      (i_publisherSetTypeHash demo_input) demo_rotated =
    Inr \<lparr>v_header = norm_header header, v_message = norm_message (demo_message 2)\<rparr>"
proof -
  from demo_assembled[of demo_crypto] obtain header entries where
    a: "assemblePriceUpdate demo_crypto demo_input = Inr (header, entries)" by blast
  have fits: "input_fits demo_input" by (simp add: input_fits_def demo_input_def int_ranges)
  obtain sb where "encodeSignatureBundle [] = Inr sb" by (simp add: encodeSignatureBundle_iff is_u8_def)
  from assembled_encodes[OF a demo_hash32 fits this] obtain h where h: "encodePriceUpdateHeader header = Inr h"
    by blast
  define digest where "digest = bytesToHex (ckbHash demo_crypto [DOMAIN_PRICE_UPDATE, h])"
  have d: "priceUpdateSigningHash demo_crypto header = Inr digest" using h by (simp add: priceUpdateSigningHash_def digest_def)
  have "quorum_signed demo_crypto demo_bundle (HexStr digest) (demo_set 1)"
    unfolding verifyThreshold_quorum[symmetric] by (rule demo_bundle_accepted) (simp add: digest_def)
  moreover have "setFor demo_rotated (i_setIndex demo_input) (i_publishTimeMs demo_input) = Some (demo_set 1)"
    "\<not> isPaused demo_rotated" "demo_message 2 \<in> set (i_messages demo_input)"
    by (simp_all add: setFor_def demo_input_def demo_rotated_def demo_committee_def isPaused_def js_and_def asIntN_def)
  ultimately show ?thesis
    using assembled_update_verifies[OF a demo_hash32 fits demo_valid(2) _ _ d] by blast
qed

text \<open>Claim C3: a price verified from a blob is one of the messages the committee put under the root it
  signed: if the header's root is the root of the messages \<open>ms\<close> and the hash does not collide on what was
  hashed, the verified message is one of \<open>ms\<close> (with a lower-case id), namely the one of this feed.\<close>

theorem verified_price_was_committed:
  assumes "decodePriceUpdate (Raw bs) = Inr u"
    and "verifyPriceUpdate C (Blob (Raw bs)) feed committee data = Inr v"
    and "list_all encodable ms" "ms \<noteq> []"
    and "merkleRoot C (map (message_leaf C) ms) = Inr (h_merkleRoot (u_header u))"
    and "\<forall>e \<in> set (u_entries u).
      collision_free C (map message_bytes ms) (message_bytes (e_message e)) (proof_bytes e)"
  shows "\<exists>m \<in> set ms. v_message v = norm_message m \<and> toLowerCase (m_feedId m) = toLowerCase feed"
proof -
  from assms(2) obtain e where
    e: "filter (\<lambda>e. toLowerCase (m_feedId (e_message e)) = toLowerCase feed) (u_entries u) = [e]"
    and acc: "entry_accepted C u e committee data" and v: "v = \<lparr>v_header = u_header u, v_message = e_message e\<rparr>"
    using assms(1) unfolding verifyPriceUpdate_iff by auto
  from e have mem: "e \<in> set (u_entries u)" "toLowerCase (m_feedId (e_message e)) = toLowerCase feed"
    using filter_eq_ConsD[OF e] by auto
  from verified_message_in_tree[OF assms(1) mem(1) acc assms(3-5)] assms(6) mem(1) obtain m where
    "m \<in> set ms" "e_message e = norm_message m" by blast
  with v mem(2) show ?thesis by (intro bexI[of _ m]) (auto simp: norm_message_def)
qed

theorem verified_price_was_committed_witness:
  "\<exists>bs u v. decodePriceUpdate (Raw bs) = Inr u \<and>
    verifyPriceUpdate demo_crypto (Blob (Raw bs)) (m_feedId (demo_message 1)) (i_publisherSetTypeHash demo_single)
      demo_rotated = Inr v \<and> v_message v = norm_message (demo_message 1)"
proof -
  obtain bs u v where *: "decodePriceUpdate (Raw bs) = Inr u"
      "verifyPriceUpdate demo_crypto (Blob (Raw bs)) (m_feedId (demo_message 1)) (i_publisherSetTypeHash demo_single)
        demo_rotated = Inr v"
      "merkleRoot demo_crypto (map (message_leaf demo_crypto) [demo_message 1]) = Inr (h_merkleRoot (u_header u))"
      "\<forall>e \<in> set (u_entries u). e_message e = demo_message 1 \<and> e_proof e = []"
    using demo_update by blast
  have "collision_free demo_crypto (map message_bytes [demo_message 1]) (message_bytes (demo_message 1)) []"
    by (simp add: collision_free_def hashed_strings_def hashed_pairs_def tree_pairs.simps)
  then have "\<forall>e \<in> set (u_entries u). collision_free demo_crypto (map message_bytes [demo_message 1])
      (message_bytes (e_message e)) (proof_bytes e)"
    using *(4) by (simp add: proof_bytes_def)
  from verified_price_was_committed[OF *(1,2) _ _ *(3) this] *(1,2) show ?thesis by auto
qed

text \<open>Decoding a feed cell is exactly inverse to encoding it.\<close>

theorem feed_cell_roundtrip:
  "decodePriceFeedData (Raw bs) = Inr d \<longleftrightarrow> encodePriceFeedData d = Inr bs \<and> norm_feed d = d"
  by (simp add: feed_codec.dec_iff)

text \<open>The feed cell written from a price that verified against a committee is trusted against
  that same committee, keeps the cell's identity, and any cell written from an accepted price with a
  positive tick counts as initialized.\<close>

theorem applied_price_is_trusted:
  assumes "verifyPriceUpdate C update feed committee data = Inr v" and "0 < h_publishTimeMs (v_header v)"
  shows "isFeedPriceTrusted (applyVerifiedPrice cell v) data \<and>
    f_feedId (applyVerifiedPrice cell v) = f_feedId cell \<and>
    f_publisherSetTypeHash (applyVerifiedPrice cell v) = f_publisherSetTypeHash cell \<and>
    toLowerCase (m_feedId (v_message v)) = toLowerCase feed"
proof -
  from assms(1) obtain u e where
    e: "filter (\<lambda>e. toLowerCase (m_feedId (e_message e)) = toLowerCase feed) (u_entries u) = [e]"
    and acc: "entry_accepted C u e committee data" and v: "v = \<lparr>v_header = u_header u, v_message = e_message e\<rparr>"
    unfolding verifyPriceUpdate_iff by blast
  from acc obtain s where "\<not> isPaused data"
      "setFor data (h_setIndex (u_header u)) (h_publishTimeMs (u_header u)) = Some s"
    unfolding entry_accepted_def by blast
  then have "\<not> isPaused data \<and> trustsSet data (h_setIndex (v_header v))"
    using setFor_trusted trustsSet_iff v by fastforce
  moreover have "toLowerCase (m_feedId (v_message v)) = toLowerCase feed"
    using filter_eq_ConsD[OF e] v by auto
  ultimately show ?thesis
    using assms(2) by (simp add: isFeedPriceTrusted_def applyVerifiedPrice_def isInitialized_def Let_def)
qed

theorem applied_price_is_trusted_witness:
  "\<exists>v. isFeedPriceTrusted (applyVerifiedPrice (uninitializedPriceFeed ''0x01'' ''0x02'') v) demo_rotated"
proof -
  obtain bs u v where *: "decodePriceUpdate (Raw bs) = Inr u"
      "verifyPriceUpdate demo_crypto (Blob (Raw bs)) (m_feedId (demo_message 1)) (i_publisherSetTypeHash demo_single)
        demo_rotated = Inr v" "h_publishTimeMs (v_header v) = 2000"
    using demo_update by blast
  from applied_price_is_trusted[OF *(2)] *(3) show ?thesis by auto
qed

end
