(* ===== verification/Observation.thy ===== *)
theory Observation
  imports Signatures
begin

text \<open>
  \<open>packages/sdk/src/protocol/observation.ts\<close>: a publisher's signed observation of a tick. Lemmas: the
  observation and its signed wire form are \<open>codec\<close>s; a verified observation is signed by the key of its
  publisher index in its own key set.
\<close>

section \<open>The code\<close>

record ObservationEntry =
  oe_feedId :: hex
  oe_price :: int
  oe_conf :: int
  oe_sourceTimeMs :: int

record Observation =
  o_publisherSetTypeHash :: hex
  o_setIndex :: int
  o_tickMs :: int
  o_configHash :: hex
  o_publisherIndex :: int
  o_entries :: "ObservationEntry list"

record SignedObservation =
  so_observation :: Observation
  so_signature :: hex

definition assertSortedUnique :: "ObservationEntry list \<Rightarrow> unit result" where
  "assertSortedUnique entries =
    efold (\<lambda>_ i.
      if i > 0 then
        ebind (hexToBytes (oe_feedId (entries ! (i - 1)))) (\<lambda>a.
        ebind (hexToBytes (oe_feedId (entries ! i))) (\<lambda>b.
        ensure (\<not> compareBytes a b \<ge> 0) (RangeError ''Observation: entries must be strictly ascending by feed id'')))
      else Inr ()) () [0..<length entries]"

definition writeObservationEntry :: "ObservationEntry \<Rightarrow> writing list" where
  "writeObservationEntry e =
    [w_hex (oe_feedId e) 32, w_i64 (oe_price e), w_u64 (oe_conf e), w_u64 (oe_sourceTimeMs e)]"

definition encodeObservation :: "Observation \<Rightarrow> bytes result" where
  "encodeObservation ob =
    ebind (assertSortedUnique (o_entries ob)) (\<lambda>_.
    run_writer (
      [w_bytes (text_bytes OBSERVATION_MAGIC) None,
       w_u8 OBSERVATION_VERSION,
       w_hex (o_publisherSetTypeHash ob) 32,
       w_u32 (o_setIndex ob),
       w_u64 (o_tickMs ob),
       w_hex (o_configHash ob) 32,
       w_u8 (o_publisherIndex ob),
       w_u8 (int (length (o_entries ob)))] @
      concat (map writeObservationEntry (o_entries ob))))"

definition readObservationEntry :: "ObservationEntry reading" where
  "readObservationEntry =
    rbind (r_hex 32) (\<lambda>feed.
    rbind r_i64 (\<lambda>price.
    rbind r_u64 (\<lambda>conf.
    rbind r_u64 (\<lambda>t.
    rret \<lparr>oe_feedId = feed, oe_price = price, oe_conf = conf, oe_sourceTimeMs = t\<rparr>))))"

text \<open>The reader before the final order check; \<open>len\<close> is the length of the whole array.\<close>

definition readObservation :: "nat \<Rightarrow> Observation reading" where
  "readObservation len =
    rbind (r_bytes 4) (\<lambda>magic.
    rbind (rcheck (magic = text_bytes OBSERVATION_MAGIC) (DecodeError ''Observation: bad magic or version'')) (\<lambda>_.
    rbind r_u8 (\<lambda>version.
    rbind (rcheck (version = OBSERVATION_VERSION) (DecodeError ''Observation: bad magic or version'')) (\<lambda>_.
    rbind (r_hex 32) (\<lambda>committee.
    rbind r_u32 (\<lambda>i.
    rbind r_u64 (\<lambda>tick.
    rbind (r_hex 32) (\<lambda>config.
    rbind r_u8 (\<lambda>publisher.
    rbind r_u8 (\<lambda>count.
    rbind (rcheck (len = OBSERVATION_HEADER_LEN + nat count * OBSERVATION_ENTRY_LEN) (DecodeError ''Observation: bad length'')) (\<lambda>_.
    rbind (r_repeat (nat count) readObservationEntry) (\<lambda>entries.
    rret \<lparr>o_publisherSetTypeHash = committee, o_setIndex = i, o_tickMs = tick, o_configHash = config,
      o_publisherIndex = publisher, o_entries = entries\<rparr>))))))))))))"

definition decodeObservation :: "bytes_like \<Rightarrow> Observation result" where
  "decodeObservation b =
    ebind (toBytes b) (\<lambda>data.
    ebind (run_reader (rbind (readObservation (length data)) (\<lambda>ob. rbind r_end (\<lambda>_. rret ob))) data ''Observation'') (\<lambda>ob.
    ecatch (ebind (assertSortedUnique (o_entries ob)) (\<lambda>_. Inr ob))
      (\<lambda>e. Inl (DecodeError (case e of TypeError msg \<Rightarrow> msg | RangeError msg \<Rightarrow> msg | _ \<Rightarrow> [])))))"

definition observationSigningHash :: "crypto \<Rightarrow> Observation \<Rightarrow> hex result" where
  "observationSigningHash C ob =
    ebind (encodeObservation ob) (\<lambda>e. Inr (bytesToHex (ckbHash C [DOMAIN_OBSERVATION, e])))"

definition encodeSignedObservation :: "SignedObservation \<Rightarrow> bytes result" where
  "encodeSignedObservation so =
    ebind (encodeObservation (so_observation so)) (\<lambda>body.
    ebind (hexToFixed (so_signature so) SIGNATURE_LEN) (\<lambda>sig.
    Inr (body @ sig)))"

definition decodeSignedObservation :: "bytes_like \<Rightarrow> SignedObservation result" where
  "decodeSignedObservation b =
    ebind (toBytes b) (\<lambda>data.
    if length data < SIGNATURE_LEN then Inl (DecodeError ''SignedObservation: truncated'')
    else
      ebind (decodeObservation (Raw (take (length data - SIGNATURE_LEN) data))) (\<lambda>ob.
      Inr \<lparr>so_observation = ob, so_signature = bytesToHex (drop (length data - SIGNATURE_LEN) data)\<rparr>))"

definition verifyObservation :: "crypto \<Rightarrow> SignedObservation \<Rightarrow> PublisherSet \<Rightarrow> bool result" where
  "verifyObservation C so s =
    (let ob = so_observation so in
     case at_index (pubkeys s) (o_publisherIndex ob) of
       None \<Rightarrow> Inr False
     | Some expected \<Rightarrow>
         if o_setIndex ob \<noteq> setIndex s then Inr False
         else
           ebind (observationSigningHash C ob) (\<lambda>digest.
           ebind (recoverSigner C (HexStr digest) (HexStr (so_signature so))) (\<lambda>recovered.
           case recovered of
             None \<Rightarrow> Inr False
           | Some r \<Rightarrow>
               ebind (hexToBytes r) (\<lambda>a.
               ebind (hexToBytes expected) (\<lambda>e.
               Inr (equalBytes a e))))))"

section \<open>Order of the entries\<close>

definition entry_key :: "ObservationEntry \<Rightarrow> bytes" where
  "entry_key e = hex_pairs (drop 2 (oe_feedId e))"

lemma entry_key_hex: "isHex (oe_feedId e) \<Longrightarrow> hexToBytes (oe_feedId e) = Inr (entry_key e)"
  by (simp add: hexToBytes_def entry_key_def)

lemma efold_unit_ok: "efold (\<lambda>_ x. f x) () xs = Inr u \<longleftrightarrow> (\<forall>x \<in> set xs. f x = Inr ())"
  by (induction xs) (auto simp: ebind_eq_Inr)

lemma assertSorted_iff:
  assumes "list_all (\<lambda>e. isHex (oe_feedId e)) entries"
  shows "assertSortedUnique entries = Inr () \<longleftrightarrow> ascending_by (<) (map entry_key entries)"
proof -
  have "assertSortedUnique entries = Inr () \<longleftrightarrow> (\<forall>i < length entries. i = 0 \<or>
      compareBytes (entry_key (entries ! (i - 1))) (entry_key (entries ! i)) < 0)"
    unfolding assertSortedUnique_def efold_unit_ok using assms
    by (auto simp: entry_key_hex list_all_length)
  then show ?thesis by (auto simp: ascending_by_nth compareBytes_neg)
qed

section \<open>The formats are codecs\<close>

definition norm_oentry :: "ObservationEntry \<Rightarrow> ObservationEntry" where
  "norm_oentry e = e\<lparr>oe_feedId := toLowerCase (oe_feedId e)\<rparr>"

definition norm_observation :: "Observation \<Rightarrow> Observation" where
  "norm_observation ob = ob\<lparr>o_publisherSetTypeHash := toLowerCase (o_publisherSetTypeHash ob),
     o_configHash := toLowerCase (o_configHash ob), o_entries := map norm_oentry (o_entries ob)\<rparr>"

definition norm_signed :: "SignedObservation \<Rightarrow> SignedObservation" where
  "norm_signed so = \<lparr>so_observation = norm_observation (so_observation so), so_signature = toLowerCase (so_signature so)\<rparr>"

lemma uniform_writeObservationEntry [simp]: "list_all uniform (writeObservationEntry e)"
  by (simp add: writeObservationEntry_def)

lemma writeOEntry_iff:
  "run_writer (writeObservationEntry e) = Inr bs \<longleftrightarrow> is_i64 (oe_price e) \<and> is_u64 (oe_conf e) \<and> is_u64 (oe_sourceTimeMs e) \<and>
    (\<exists>f. hexToFixed (oe_feedId e) 32 = Inr f \<and>
      bs = f @ int_bytes 8 (oe_price e) @ int_bytes 8 (oe_conf e) @ int_bytes 8 (oe_sourceTimeMs e) @ [])"
  by (auto simp: writeObservationEntry_def)

lemma writeOEntry_length: "run_writer (writeObservationEntry e) = Inr bs \<Longrightarrow> length bs = OBSERVATION_ENTRY_LEN"
  by (auto simp: writeOEntry_iff hexToFixed_eq_Inr OBSERVATION_ENTRY_LEN_def)

lemma reads_oentry:
  assumes "run_writer (writeObservationEntry e) = Inr bs"
  shows "reads readObservationEntry bs (norm_oentry e)"
proof -
  from assms obtain f where *: "is_i64 (oe_price e)" "is_u64 (oe_conf e)" "is_u64 (oe_sourceTimeMs e)"
      "hexToFixed (oe_feedId e) 32 = Inr f"
      "bs = f @ int_bytes 8 (oe_price e) @ int_bytes 8 (oe_conf e) @ int_bytes 8 (oe_sourceTimeMs e) @ []"
    by (auto simp only: writeOEntry_iff)
  show ?thesis
    unfolding readObservationEntry_def *(5) by (intro reads_then; (rule *)?) (simp add: norm_oentry_def)
qed

lemma parses_oentry:
  "parses readObservationEntry (\<lambda>bs e. run_writer (writeObservationEntry e) = Inr bs \<and> norm_oentry e = e)"
  unfolding readObservationEntry_def
  by (rule parses_mono[OF parses_bind[OF parses_hexToFixed parses_bind[OF parses_signed(2)
          parses_bind[OF parses_ints(4) parses_bind[OF parses_ints(4) parses_ret]]]]])
     (auto simp: writeOEntry_iff norm_oentry_def)

text \<open>The bytes of an observation, whatever the order of its entries.\<close>

definition observation_body :: "Observation \<Rightarrow> bytes \<Rightarrow> bool" where
  "observation_body ob bs \<longleftrightarrow>
    is_u32 (o_setIndex ob) \<and> is_u64 (o_tickMs ob) \<and> is_u8 (o_publisherIndex ob) \<and> is_u8 (int (length (o_entries ob))) \<and>
    (\<exists>p c parts. hexToFixed (o_publisherSetTypeHash ob) 32 = Inr p \<and> hexToFixed (o_configHash ob) 32 = Inr c \<and>
      list_all2 (\<lambda>e b. run_writer (writeObservationEntry e) = Inr b) (o_entries ob) parts \<and>
      bs = text_bytes OBSERVATION_MAGIC @ int_bytes 1 OBSERVATION_VERSION @ p @ int_bytes 4 (o_setIndex ob) @
        int_bytes 8 (o_tickMs ob) @ c @ int_bytes 1 (o_publisherIndex ob) @ int_bytes 1 (int (length (o_entries ob))) @
        concat parts @ [])"

lemma body_hex: "observation_body ob bs \<Longrightarrow> list_all (\<lambda>e. isHex (oe_feedId e)) (o_entries ob)"
  by (auto simp: observation_body_def list_all2_conv_all_nth list_all_length writeOEntry_iff hexToFixed_eq_Inr isHex_iff)

lemma encodeObservation_iff:
  "encodeObservation ob = Inr bs \<longleftrightarrow> observation_body ob bs \<and> ascending_by (<) (map entry_key (o_entries ob))"
proof -
  have w: "run_writer (
      [w_bytes (text_bytes OBSERVATION_MAGIC) None, w_u8 OBSERVATION_VERSION, w_hex (o_publisherSetTypeHash ob) 32,
       w_u32 (o_setIndex ob), w_u64 (o_tickMs ob), w_hex (o_configHash ob) 32, w_u8 (o_publisherIndex ob),
       w_u8 (int (length (o_entries ob)))] @ concat (map writeObservationEntry (o_entries ob))) = Inr bs \<longleftrightarrow>
    observation_body ob bs"
    by (auto simp: observation_body_def run_writer_concat uniform_concat OBSERVATION_VERSION_def is_u8_def)
  show ?thesis
    unfolding encodeObservation_def ebind_eq_Inr w using assertSorted_iff body_hex by auto
qed

lemma body_length:
  assumes "observation_body ob bs"
  shows "length bs = OBSERVATION_HEADER_LEN + length (o_entries ob) * OBSERVATION_ENTRY_LEN"
proof -
  from assms obtain p c parts where *: "length p = 32" "length c = 32"
      "list_all2 (\<lambda>e b. run_writer (writeObservationEntry e) = Inr b) (o_entries ob) parts"
      "bs = text_bytes OBSERVATION_MAGIC @ int_bytes 1 OBSERVATION_VERSION @ p @ int_bytes 4 (o_setIndex ob) @
        int_bytes 8 (o_tickMs ob) @ c @ int_bytes 1 (o_publisherIndex ob) @ int_bytes 1 (int (length (o_entries ob))) @
        concat parts @ []"
    by (auto simp: observation_body_def hexToFixed_eq_Inr)
  have "length (concat parts) = length (o_entries ob) * OBSERVATION_ENTRY_LEN"
    using *(3) by (induction rule: list_all2_induct) (auto simp: writeOEntry_length)
  with * show ?thesis by (simp add: protocol_constants)
qed

lemma reads_observation:
  assumes "observation_body ob bs"
  shows "reads (readObservation (length bs)) bs (norm_observation ob)"
proof -
  from assms obtain p c parts where *: "is_u32 (o_setIndex ob)" "is_u64 (o_tickMs ob)" "is_u8 (o_publisherIndex ob)"
      "is_u8 (int (length (o_entries ob)))" "hexToFixed (o_publisherSetTypeHash ob) 32 = Inr p"
      "hexToFixed (o_configHash ob) 32 = Inr c"
      "list_all2 (\<lambda>e b. run_writer (writeObservationEntry e) = Inr b) (o_entries ob) parts"
    and bs: "bs = text_bytes OBSERVATION_MAGIC @ int_bytes 1 OBSERVATION_VERSION @ p @ int_bytes 4 (o_setIndex ob) @
        int_bytes 8 (o_tickMs ob) @ c @ int_bytes 1 (o_publisherIndex ob) @ int_bytes 1 (int (length (o_entries ob))) @
        concat parts @ []"
    by (auto simp only: observation_body_def)
  have "list_all2 (reads readObservationEntry) parts (map norm_oentry (o_entries ob))"
    using *(7) by (auto simp: list_all2_conv_all_nth reads_oentry)
  then have es: "reads (r_repeat (nat (int (length (o_entries ob)))) readObservationEntry) (concat parts)
      (map norm_oentry (o_entries ob))"
    by (rule reads_repeat) simp
  have "reads (readObservation len) (text_bytes OBSERVATION_MAGIC @ int_bytes 1 OBSERVATION_VERSION @ p @
      int_bytes 4 (o_setIndex ob) @ int_bytes 8 (o_tickMs ob) @ c @ int_bytes 1 (o_publisherIndex ob) @
      int_bytes 1 (int (length (o_entries ob))) @ concat parts @ []) (norm_observation ob)"
    if "len = OBSERVATION_HEADER_LEN + nat (int (length (o_entries ob))) * OBSERVATION_ENTRY_LEN" for len
    unfolding readObservation_def
    by (intro reads_then reads_bind[OF es]; (rule * that)?)
       (auto simp: OBSERVATION_MAGIC_def OBSERVATION_VERSION_def is_u8_def norm_observation_def)
  then show ?thesis using body_length[OF assms] bs by simp
qed

lemma parses_observation:
  "parses (readObservation len) (\<lambda>bs ob. observation_body ob bs \<and> norm_observation ob = ob)"
  unfolding readObservation_def
proof (rule parses_mono[OF parses_bind[OF parses_bytes parses_bind[OF parses_check parses_bind[OF parses_ints(1)
          parses_bind[OF parses_check parses_bind[OF parses_hexToFixed parses_bind[OF parses_ints(3)
          parses_bind[OF parses_ints(4) parses_bind[OF parses_hexToFixed parses_bind[OF parses_ints(1)
          parses_bind[OF parses_ints(1) parses_bind[OF parses_check
          parses_bind[OF parses_repeat[OF parses_oentry] parses_ret]]]]]]]]]]]]], clarify)
  fix p committee i tick c config publisher n parts entries
  assume n: "is_u8 n" "length entries = nat n"
    and es: "list_all2 (\<lambda>bs e. run_writer (writeObservationEntry e) = Inr bs \<and> norm_oentry e = e) parts entries"
    and *: "hexToFixed committee 32 = Inr p" "toLowerCase committee = committee" "is_u32 i" "is_u64 tick"
      "hexToFixed config 32 = Inr c" "toLowerCase config = config" "is_u8 publisher"
  have n': "n = int (length entries)" using n by (simp add: is_u8_def)
  have parts: "list_all2 (\<lambda>e bs. run_writer (writeObservationEntry e) = Inr bs) entries parts"
    using es by (auto simp: list_all2_conv_all_nth)
  have "map norm_oentry entries = entries"
    using es by (intro nth_equalityI) (auto simp: list_all2_conv_all_nth)
  let ?ob = "\<lparr>o_publisherSetTypeHash = committee, o_setIndex = i, o_tickMs = tick, o_configHash = config,
      o_publisherIndex = publisher, o_entries = entries\<rparr>"
  have "norm_observation ?ob = ?ob"
    using \<open>map norm_oentry entries = entries\<close> *(2,6) by (simp add: norm_observation_def)
  moreover have "observation_body ?ob (text_bytes OBSERVATION_MAGIC @ int_bytes 1 OBSERVATION_VERSION @ p @
      int_bytes 4 i @ int_bytes 8 tick @ c @ int_bytes 1 publisher @ int_bytes 1 n @ concat parts @ [])"
    unfolding observation_body_def Observation.simps using * n(1) parts
    by (intro conjI exI[of _ p] exI[of _ c] exI[of _ parts]) (simp_all add: n'[symmetric])
  ultimately show "observation_body ?ob
      (text_bytes OBSERVATION_MAGIC @ [] @ int_bytes 1 OBSERVATION_VERSION @ [] @ p @ int_bytes 4 i @ int_bytes 8 tick @ c @
        int_bytes 1 publisher @ int_bytes 1 n @ [] @ concat parts @ []) \<and> norm_observation ?ob = ?ob"
    by simp
qed

lemma entry_key_norm: "isHex (oe_feedId e) \<Longrightarrow> entry_key (norm_oentry e) = entry_key e"
  using hexToBytes_toLowerCase[OF entry_key_hex, of e]
  by (auto simp: entry_key_def norm_oentry_def hexToBytes_def split: if_splits)

lemma ascending_norm:
  assumes "list_all (\<lambda>e. isHex (oe_feedId e)) es"
  shows "map entry_key (map norm_oentry es) = map entry_key es"
    "list_all (\<lambda>e. isHex (oe_feedId e)) (map norm_oentry es)"
proof -
  show "map entry_key (map norm_oentry es) = map entry_key es"
    using assms by (auto simp: list_all_iff entry_key_norm)
  show "list_all (\<lambda>e. isHex (oe_feedId e)) (map norm_oentry es)"
    using assms hexToBytes_toLowerCase by (fastforce simp: list_all_iff isHex_iff norm_oentry_def)
qed

interpretation observation_codec: codec encodeObservation "\<lambda>bs. decodeObservation (Raw bs)" norm_observation "\<lambda>_. True"
proof
  fix ob bs
  assume "encodeObservation ob = Inr bs"
  then have b: "observation_body ob bs" and asc: "ascending_by (<) (map entry_key (o_entries ob))"
    by (auto simp: encodeObservation_iff)
  have "assertSortedUnique (o_entries (norm_observation ob)) = Inr ()"
    using assertSorted_iff[OF ascending_norm(2)[OF body_hex[OF b]]] ascending_norm(1)[OF body_hex[OF b]] asc
    by (simp add: norm_observation_def del: map_map)
  then show "decodeObservation (Raw bs) = Inr (norm_observation ob)"
    by (simp add: decodeObservation_def reads_end[OF reads_observation[OF b]])
next
  fix bs ob
  assume "decodeObservation (Raw bs) = Inr ob"
  then have r: "run_reader (rbind (readObservation (length bs)) (\<lambda>ob. rbind r_end (\<lambda>_. rret ob))) bs ''Observation'' = Inr ob"
    and a: "assertSortedUnique (o_entries ob) = Inr ()"
    by (auto simp: decodeObservation_def ebind_eq_Inr)
  from parses_run_end[OF parses_observation r] have "observation_body ob bs" by simp
  with a show "encodeObservation ob = Inr bs"
    using assertSorted_iff[OF body_hex] by (auto simp: encodeObservation_iff)
qed simp

interpretation signed_codec: codec encodeSignedObservation "\<lambda>bs. decodeSignedObservation (Raw bs)" norm_signed "\<lambda>_. True"
proof
  fix so bs
  assume "encodeSignedObservation so = Inr bs"
  then obtain body sig where b: "encodeObservation (so_observation so) = Inr body"
      and s: "hexToFixed (so_signature so) SIGNATURE_LEN = Inr sig" and bs: "bs = body @ sig"
    by (auto simp: encodeSignedObservation_def ebind_eq_Inr)
  from s have len: "length sig = SIGNATURE_LEN" and low: "bytesToHex sig = toLowerCase (so_signature so)"
    by (auto simp: hexToFixed_eq_Inr bytesToHex_hexToBytes)
  with observation_codec.dec_enc[OF _ b] bs show "decodeSignedObservation (Raw bs) = Inr (norm_signed so)"
    by (simp add: decodeSignedObservation_def norm_signed_def)
next
  fix bs so
  assume "decodeSignedObservation (Raw bs) = Inr so"
  then have "decodeObservation (Raw (take (length bs - SIGNATURE_LEN) bs)) = Inr (so_observation so)"
    "so_signature so = bytesToHex (drop (length bs - SIGNATURE_LEN) bs)" "\<not> length bs < SIGNATURE_LEN"
    by (auto simp: decodeSignedObservation_def ebind_eq_Inr split: if_splits)
  with observation_codec.enc_dec[OF this(1)] show "encodeSignedObservation so = Inr bs"
    by (simp add: encodeSignedObservation_def)
qed simp

section \<open>Properties\<close>

text \<open>A signed observation has exactly one reading: bytes decode to it if and only if they are its
  encoding and its hex fields are lower-case.\<close>

theorem signed_observation_roundtrip:
  "decodeSignedObservation (Raw bs) = Inr so \<longleftrightarrow> encodeSignedObservation so = Inr bs \<and> norm_signed so = so"
  by (simp add: signed_codec.dec_iff)

text \<open>\<open>verifyObservation\<close> accepts exactly the observations of the set's index whose entries are
  strictly ascending and encodable and whose signature over the observation digest recovers to the key at
  the observation's publisher index.\<close>

theorem observation_verified_iff:
  "verifyObservation C so s = Inr True \<longleftrightarrow>
    o_setIndex (so_observation so) = setIndex s \<and>
    (\<exists>digest hash. observationSigningHash C (so_observation so) = Inr digest \<and> toBytes (HexStr digest) = Inr hash \<and>
      signature_of C hash s (o_publisherIndex (so_observation so)) (so_signature so))"
proof -
  have same: "recoverSigner C (HexStr d) (HexStr sig) = recoverSigner C (Raw h) (HexStr sig)" if "hexToBytes d = Inr h"
    for d h sig
  proof -
    have "toBytes (HexStr d) = toBytes (Raw h)" using that by simp
    then show ?thesis unfolding recoverSigner_def by (simp only:)
  qed
  have hash: "\<exists>h. hexToBytes d = Inr h" if "observationSigningHash C ob = Inr d" for d ob
    using that by (auto simp: observationSigningHash_def ebind_eq_Inr)
  have tail: "(ebind (recoverSigner C (HexStr d) (HexStr sig)) (\<lambda>recovered.
      case recovered of None \<Rightarrow> Inr False
      | Some r \<Rightarrow> ebind (hexToBytes r) (\<lambda>a. ebind (hexToBytes key) (\<lambda>e. Inr (equalBytes a e)))) = Inr True) \<longleftrightarrow>
    (\<exists>r bs. recoverSigner C (Raw h) (HexStr sig) = Inr (Some r) \<and> hexToBytes r = Inr bs \<and> hexToBytes key = Inr bs)"
    if "hexToBytes d = Inr h" for d h sig key
    unfolding same[OF that] by (auto simp: ebind_eq_Inr split: option.splits)
  show ?thesis
  proof (cases "observationSigningHash C (so_observation so)")
    case (Inl e)
    then show ?thesis by (simp add: verifyObservation_def Let_def split: option.splits)
  next
    case (Inr digest)
    from hash[OF this] obtain h where h: "hexToBytes digest = Inr h" ..
    show ?thesis
      unfolding verifyObservation_def signature_of_def Let_def Inr ebind_simps(2) tail[OF h]
      using h tail[OF h] by (auto simp del: equalBytes_iff split: option.splits)
  qed
qed

end
