(* ===== verification/Committee_Config.thy ===== *)
theory Committee_Config
  imports Signatures
begin

text \<open>
  \<open>packages/sdk/src/protocol/committeeConfig.ts\<close>: the committee's versioned rules, their canonical JSON
  and hash, and their validation. Numbers are integers: a config with a fraction anywhere is outside the model.
  The code accepts none: \<open>canonicalJson\<close> throws for it, and \<open>validateCommitteeConfig\<close> lists it in the fields that it
  checks, except that a fractional \<open>tickPeriodMs\<close> with a decimal \<open>activationTickMs\<close> makes \<open>BigInt\<close> throw, as 0 does.
  A problem message keeps the text of the source without the interpolated names.

  Lemmas: canonical JSON is unambiguous, so the hash determines the config; a config without problems
  has its feeds in strictly ascending order of their ids, a market feed survives the loss of one venue,
  and a TWAP feed has a market feed of its config as source.
\<close>

section \<open>Data\<close>

record MarketConfig =
  mc_venue :: string
  mc_market :: string

datatype price_rule = Mid | Vwap

record PriceMethod =
  pm_method :: price_rule
  pm_windowMs :: int
  pm_maxQuoteAgeMs :: int
  pm_maxBookAgeMs :: "int option"
  pm_maxSpreadBps :: int
  pm_minTopNotional :: "int option"
  pm_maxDeviationBps :: "int option"
  pm_vwapClampToBook :: "bool option"
  pm_tradeBookToleranceMs :: "int option"
  pm_tradeBookSlackPct :: "int option"
  pm_vwapMinWindowNotional :: "int option"
  pm_minVenues :: int
  pm_markets :: "MarketConfig list"

record FeedBase =
  fb_symbol :: string
  fb_quote :: string
  fb_feedId :: hex
  fb_expo :: int
  fb_toleranceBps :: int
  fb_emaHalfLifeMs :: int

record TwapSpec =
  tw_source :: string
  tw_windowMs :: int
  tw_everyMs :: int
  tw_minTicks :: int

text \<open>\<open>MarketFeedConfig | TwapFeedConfig\<close>. A TWAP feed read from JSON may also carry fields of
  \<open>PriceMethod\<close>, which validation reports: the list holds their names.\<close>

datatype FeedConfig =
    MarketFeed (feed_base: FeedBase) (feed_method: PriceMethod)
  | TwapFeed (feed_base: FeedBase) (feed_twap: TwapSpec) (stray_fields: "string list")

record CommitteeConfig =
  c_version :: int
  c_committee :: string
  c_publisherSetTypeHash :: hex
  c_activationTickMs :: string
  c_tickPeriodMs :: int
  c_observationDeadlineMs :: int
  c_maxSigningLagMs :: int
  c_feeds :: "FeedConfig list"

record SignedCommitteeConfig =
  sc_config :: CommitteeConfig
  sc_signatures :: SignatureBundle

definition MARKET_FIELDS :: "string list" where
  "MARKET_FIELDS =
    [''method'', ''windowMs'', ''maxQuoteAgeMs'', ''maxBookAgeMs'', ''maxSpreadBps'', ''minTopNotional'',
     ''maxDeviationBps'', ''vwapClampToBook'', ''tradeBookToleranceMs'', ''tradeBookSlackPct'',
     ''vwapMinWindowNotional'', ''minVenues'', ''markets'']"

fun isTwapFeed :: "FeedConfig \<Rightarrow> bool" where
  "isTwapFeed (TwapFeed _ _ _) = True"
| "isTwapFeed (MarketFeed _ _) = False"

definition marketFeeds :: "FeedConfig list \<Rightarrow> FeedConfig list" where
  "marketFeeds feeds = filter (\<lambda>f. \<not> isTwapFeed f) feeds"

abbreviation feed_symbol :: "FeedConfig \<Rightarrow> string" where
  "feed_symbol f \<equiv> fb_symbol (feed_base f)"

abbreviation feed_id :: "FeedConfig \<Rightarrow> hex" where
  "feed_id f \<equiv> fb_feedId (feed_base f)"

section \<open>Canonical JSON\<close>

text \<open>JavaScript values as the config holds them; \<open>JUndefined\<close> is an absent optional field.\<close>

datatype json =
    JNull
  | JBool bool
  | JNum int
  | JStr string
  | JArr "json list"
  | JObj "(string \<times> json) list"
  | JUndefined

text \<open>\<open>String(n)\<close> of an integer.\<close>

fun digits_of :: "nat \<Rightarrow> string" where
  "digits_of n = (if n < 10 then [char_of (48 + n)] else digits_of (n div 10) @ [char_of (48 + n mod 10)])"

declare digits_of.simps [simp del]

definition int_string :: "int \<Rightarrow> string" where
  "int_string i = (if i < 0 then CHR ''-'' # digits_of (nat (- i)) else digits_of (nat i))"

text \<open>\<open>JSON.stringify\<close> of a string: quotes, backslashes and control characters are escaped.\<close>

definition escape_char :: "char \<Rightarrow> string" where
  "escape_char c =
    (let n = (of_char c :: nat) in
     if n = 34 then [char_of (92::nat), c]
     else if n = 92 then [c, c]
     else if n = 8 then [char_of (92::nat), CHR ''b'']
     else if n = 9 then [char_of (92::nat), CHR ''t'']
     else if n = 10 then [char_of (92::nat), CHR ''n'']
     else if n = 12 then [char_of (92::nat), CHR ''f'']
     else if n = 13 then [char_of (92::nat), CHR ''r'']
     else if n < 32 then [char_of (92::nat), CHR ''u'', CHR ''0'', CHR ''0'', hex_digit (n div 16), hex_digit (n mod 16)]
     else [c])"

definition json_string :: "string \<Rightarrow> string" where
  "json_string s = char_of (34::nat) # concat (map escape_char s) @ [char_of (34::nat)]"

definition is_safe_integer :: "int \<Rightarrow> bool" where
  "is_safe_integer i \<longleftrightarrow> \<bar>i\<bar> \<le> 2 ^ 53 - 1"

fun canonicalJson :: "json \<Rightarrow> string result" where
  "canonicalJson JNull = Inr ''null''"
| "canonicalJson (JBool b) = Inr (if b then ''true'' else ''false'')"
| "canonicalJson (JStr s) = Inr (json_string s)"
| "canonicalJson (JNum i) =
    (if \<not> is_safe_integer i then Inl (TypeError ''canonicalJson: non-integer number'') else Inr (int_string i))"
| "canonicalJson (JArr vs) =
    ebind (emap canonicalJson vs) (\<lambda>ss. Inr (CHR ''['' # join_comma ss @ '']''))"
| "canonicalJson (JObj kvs) =
    ebind (emap (\<lambda>(k, v). ebind (canonicalJson v) (\<lambda>s. Inr (json_string k @ CHR '':'' # s)))
      (sort_key fst (filter (\<lambda>(k, v). v \<noteq> JUndefined) kvs))) (\<lambda>ss.
    Inr (CHR ''{'' # join_comma ss @ ''}''))"
| "canonicalJson JUndefined = Inl (TypeError ''canonicalJson: unsupported'')"

text \<open>The config as the JavaScript object it is.\<close>

definition opt_num :: "int option \<Rightarrow> json" where
  "opt_num x = (case x of None \<Rightarrow> JUndefined | Some i \<Rightarrow> JNum i)"

definition opt_bool :: "bool option \<Rightarrow> json" where
  "opt_bool x = (case x of None \<Rightarrow> JUndefined | Some b \<Rightarrow> JBool b)"

definition market_json :: "MarketConfig \<Rightarrow> json" where
  "market_json m = JObj [(''venue'', JStr (mc_venue m)), (''market'', JStr (mc_market m))]"

definition method_fields :: "PriceMethod \<Rightarrow> (string \<times> json) list" where
  "method_fields m =
    [(''method'', JStr (case pm_method m of Mid \<Rightarrow> ''mid'' | Vwap \<Rightarrow> ''vwap'')),
     (''windowMs'', JNum (pm_windowMs m)),
     (''maxQuoteAgeMs'', JNum (pm_maxQuoteAgeMs m)),
     (''maxBookAgeMs'', opt_num (pm_maxBookAgeMs m)),
     (''maxSpreadBps'', JNum (pm_maxSpreadBps m)),
     (''minTopNotional'', opt_num (pm_minTopNotional m)),
     (''maxDeviationBps'', opt_num (pm_maxDeviationBps m)),
     (''vwapClampToBook'', opt_bool (pm_vwapClampToBook m)),
     (''tradeBookToleranceMs'', opt_num (pm_tradeBookToleranceMs m)),
     (''tradeBookSlackPct'', opt_num (pm_tradeBookSlackPct m)),
     (''vwapMinWindowNotional'', opt_num (pm_vwapMinWindowNotional m)),
     (''minVenues'', JNum (pm_minVenues m)),
     (''markets'', JArr (map market_json (pm_markets m)))]"

definition base_fields :: "FeedBase \<Rightarrow> (string \<times> json) list" where
  "base_fields b =
    [(''symbol'', JStr (fb_symbol b)), (''quote'', JStr (fb_quote b)), (''feedId'', JStr (fb_feedId b)),
     (''expo'', JNum (fb_expo b)), (''toleranceBps'', JNum (fb_toleranceBps b)),
     (''emaHalfLifeMs'', JNum (fb_emaHalfLifeMs b))]"

definition twap_json :: "TwapSpec \<Rightarrow> json" where
  "twap_json t =
    JObj [(''source'', JStr (tw_source t)), (''windowMs'', JNum (tw_windowMs t)),
      (''everyMs'', JNum (tw_everyMs t)), (''minTicks'', JNum (tw_minTicks t))]"

fun feed_json :: "FeedConfig \<Rightarrow> json" where
  "feed_json (MarketFeed b m) = JObj (base_fields b @ method_fields m)"
| "feed_json (TwapFeed b t stray) = JObj (base_fields b @ [(''twap'', twap_json t)] @ map (\<lambda>f. (f, JNull)) stray)"

definition config_json :: "CommitteeConfig \<Rightarrow> json" where
  "config_json c =
    JObj [(''version'', JNum (c_version c)), (''committee'', JStr (c_committee c)),
      (''publisherSetTypeHash'', JStr (c_publisherSetTypeHash c)),
      (''activationTickMs'', JStr (c_activationTickMs c)), (''tickPeriodMs'', JNum (c_tickPeriodMs c)),
      (''observationDeadlineMs'', JNum (c_observationDeadlineMs c)),
      (''maxSigningLagMs'', JNum (c_maxSigningLagMs c)), (''feeds'', JArr (map feed_json (c_feeds c)))]"

definition committeeConfigHash :: "crypto \<Rightarrow> CommitteeConfig \<Rightarrow> hex result" where
  "committeeConfigHash C c =
    ebind (canonicalJson (config_json c)) (\<lambda>s.
    Inr (bytesToHex (ckbHash C [DOMAIN_COMMITTEE_CONFIG, text_bytes s])))"

section \<open>Validation\<close>

definition positive :: "int \<Rightarrow> string list" where
  "positive v = (if \<not> is_safe_integer v \<or> v \<le> 0 then [''must be a positive integer''] else [])"

definition problem :: "bool \<Rightarrow> string \<Rightarrow> string list" where
  "problem b msg = (if b then [msg] else [])"

definition checkMethod :: "PriceMethod \<Rightarrow> string list" where
  "checkMethod m =
    positive (pm_windowMs m) @ positive (pm_maxQuoteAgeMs m) @ positive (pm_maxSpreadBps m) @
    positive (pm_minVenues m) @
    concat (map (\<lambda>v. case v of None \<Rightarrow> [] | Some i \<Rightarrow> positive i)
      [pm_maxBookAgeMs m, pm_minTopNotional m, pm_maxDeviationBps m, pm_tradeBookToleranceMs m,
       pm_tradeBookSlackPct m, pm_vwapMinWindowNotional m]) @
    problem ((pm_tradeBookToleranceMs m = None) \<noteq> (pm_tradeBookSlackPct m = None))
      ''tradeBookToleranceMs and tradeBookSlackPct go together'' @
    problem (pm_minVenues m < 2) ''minVenues must be at least 2'' @
    problem (int (length (pm_markets m)) < pm_minVenues m + 1) ''needs at least minVenues + 1 markets'' @
    (let venues = map mc_venue (pm_markets m)
     in problem (card (set venues) \<noteq> length venues) ''a venue is listed more than once'')"

text \<open>\<open>a % b !== 0\<close> on numbers, where \<open>a % 0\<close> is \<open>NaN\<close>, and \<open>n > a / b\<close>, stated without the division
  (\<open>a / 0\<close> is an infinity or \<open>NaN\<close>).\<close>

definition not_multiple :: "int \<Rightarrow> int \<Rightarrow> bool" where
  "not_multiple a b \<longleftrightarrow> b = 0 \<or> big_rem a b \<noteq> 0"

definition exceeds_quotient :: "int \<Rightarrow> int \<Rightarrow> int \<Rightarrow> bool" where
  "exceeds_quotient n a b \<longleftrightarrow> (if b > 0 then n * b > a else if b < 0 then n * b < a else a < 0)"


definition checkTwap :: "CommitteeConfig \<Rightarrow> FeedBase \<Rightarrow> TwapSpec \<Rightarrow> string list \<Rightarrow> string list" where
  "checkTwap config b t stray =
    positive (tw_windowMs t) @ positive (tw_everyMs t) @ positive (tw_minTicks t) @
    concat (map (\<lambda>field. problem (field \<in> set stray) ''a TWAP feed has no market field'') MARKET_FIELDS) @
    problem (tw_windowMs t > 3600000) ''twap.windowMs is at most 1 hour'' @
    (case find (\<lambda>f. feed_symbol f = tw_source t) (c_feeds config) of
       None \<Rightarrow> [''source is not a feed of this config'']
     | Some source \<Rightarrow>
         if isTwapFeed source then [''source is itself a TWAP'']
         else problem (fb_quote b \<noteq> fb_quote (feed_base source)) ''quote must equal its source's'' @
              problem (fb_expo b \<noteq> fb_expo (feed_base source)) ''expo must equal its source's'') @
    problem (not_multiple (tw_windowMs t) 1000 \<or>
        fb_symbol b \<noteq> tw_source t @ ''.TWAP'' @ int_string (tw_windowMs t div 1000))
      ''symbol must be <source>.TWAP<windowMs / 1000>'' @
    problem (not_multiple (tw_windowMs t) (c_tickPeriodMs config)) ''twap.windowMs must be a multiple of tickPeriodMs'' @
    problem (not_multiple (tw_everyMs t) (c_tickPeriodMs config)) ''twap.everyMs must be a multiple of tickPeriodMs'' @
    problem (exceeds_quotient (tw_minTicks t) (tw_windowMs t) (c_tickPeriodMs config))
      ''twap.minTicks exceeds the ticks in its window''"

text \<open>\<open>/^\d+$/\<close> and \<open>BigInt(s)\<close> of such a string.\<close>

definition is_digit :: "char \<Rightarrow> bool" where
  "is_digit c \<longleftrightarrow> CHR ''0'' \<le> c \<and> c \<le> CHR ''9''"

definition decimal_value :: "string \<Rightarrow> int" where
  "decimal_value s = foldl (\<lambda>v c. v * 10 + (int (of_char c) - 48)) 0 s"

definition is_decimal :: "string \<Rightarrow> bool" where
  "is_decimal s \<longleftrightarrow> s \<noteq> [] \<and> list_all is_digit s"

text \<open>\<open>symbol.split("/").at(-1)\<close>\<close>

definition last_segment :: "string \<Rightarrow> string" where
  "last_segment s = rev (takeWhile (\<lambda>c. c \<noteq> CHR ''/'') (rev s))"

definition checkFeed :: "crypto \<Rightarrow> CommitteeConfig \<Rightarrow> nat \<Rightarrow> FeedConfig \<Rightarrow> string list result" where
  "checkFeed C config i feed =
    (let b = feed_base feed;
         own = (case feed of
           TwapFeed _ t stray \<Rightarrow> checkTwap config b t stray
         | MarketFeed _ m \<Rightarrow> checkMethod m @
             problem (last_segment (fb_symbol b) \<noteq> fb_quote b) ''quote does not match the symbol'');
         shared = problem (feedId C (fb_symbol b) \<noteq> fb_feedId b) ''feedId does not match symbol'' @
           problem (fb_expo b < -18 \<or> fb_expo b > 18) ''expo out of range'' @
           positive (fb_toleranceBps b) @ positive (fb_emaHalfLifeMs b)
     in if i > 0 then
          ebind (hexToBytes (feed_id (c_feeds config ! (i - 1)))) (\<lambda>p.
          ebind (hexToBytes (fb_feedId b)) (\<lambda>q.
          Inr (own @ shared @ problem (compareBytes p q \<ge> 0) ''feeds must be strictly ascending by feedId'')))
        else Inr (own @ shared))"

text \<open>On a config whose numbers are integers; see above for fractions.\<close>

definition validateCommitteeConfig :: "crypto \<Rightarrow> CommitteeConfig \<Rightarrow> string list result" where
  "validateCommitteeConfig C config =
    (let basic = positive (c_version config) @ positive (c_tickPeriodMs config) @
           positive (c_observationDeadlineMs config) @ positive (c_maxSigningLagMs config) @
           problem (c_observationDeadlineMs config \<ge> c_tickPeriodMs config)
             ''observationDeadlineMs must be below tickPeriodMs''
     in ebind
       (if \<not> is_decimal (c_activationTickMs config) then Inr [''activationTickMs must be a tick boundary'']
        else if c_tickPeriodMs config = 0 then Inl (RangeError ''Division by zero'')
        else Inr (problem (big_rem (decimal_value (c_activationTickMs config)) (c_tickPeriodMs config) \<noteq> 0)
          ''activationTickMs must be a tick boundary'')) (\<lambda>activation.
     ebind (emap (\<lambda>(i, feed). checkFeed C config i feed) (enumerate 0 (c_feeds config))) (\<lambda>feeds.
     Inr (basic @ activation @ concat feeds @
       problem (length (c_feeds config) = 0 \<or> length (c_feeds config) > 255) ''1..=255 feeds required''))))"

definition verifyCommitteeConfig :: "crypto \<Rightarrow> SignedCommitteeConfig \<Rightarrow> PublisherSet \<Rightarrow> bool result" where
  "verifyCommitteeConfig C sc s =
    ebind (validateCommitteeConfig C (sc_config sc)) (\<lambda>problems.
    if length problems \<noteq> 0 then Inr False
    else
      ebind (committeeConfigHash C (sc_config sc)) (\<lambda>hash.
      verifyThreshold C (sc_signatures sc) (HexStr hash) s))"

section \<open>Canonical JSON is unambiguous\<close>

text \<open>Two values print alike only if they agree up to the order of fields and absent fields.\<close>

fun canon :: "json \<Rightarrow> json" where
  "canon (JArr vs) = JArr (map canon vs)"
| "canon (JObj kvs) = JObj (map (\<lambda>(k, v). (k, canon v)) (sort_key fst (filter (\<lambda>(k, v). v \<noteq> JUndefined) kvs)))"
| "canon v = v"

text \<open>What can follow a value in a printed text.\<close>

definition closes :: "string \<Rightarrow> bool" where
  "closes r \<longleftrightarrow> r = [] \<or> hd r \<in> {CHR '','', CHR '']'', CHR ''}''}"

lemma closes_simps [simp]:
  "closes []" "closes (CHR '','' # r)" "closes (CHR '']'' # r)" "closes (CHR ''}'' # r)"
  by (simp_all add: closes_def)

text \<open>Strings: the first character of an escaped text can be read back.\<close>

fun read_char :: "string \<Rightarrow> (char \<times> string) option" where
  "read_char [] = None"
| "read_char (c # s) =
    (if of_char c \<noteq> (92::nat) then Some (c, s)
     else case s of
       [] \<Rightarrow> None
     | d # s' \<Rightarrow>
         if d = CHR ''b'' then Some (char_of (8::nat), s')
         else if d = CHR ''t'' then Some (char_of (9::nat), s')
         else if d = CHR ''n'' then Some (char_of (10::nat), s')
         else if d = CHR ''f'' then Some (char_of (12::nat), s')
         else if d = CHR ''r'' then Some (char_of (13::nat), s')
         else if d = CHR ''u'' then
           Some (char_of (16 * the (hex_value (s' ! 2)) + the (hex_value (s' ! 3))), drop 4 s')
         else Some (d, s'))"

lemma char_of_char [simp]: "of_char c = (n::nat) \<Longrightarrow> char_of n = c"
  by (metis char_of_char)

lemma char_of_eq: "n < 256 \<Longrightarrow> char_of n = c \<longleftrightarrow> of_char c = n" for n :: nat
  using char_eq_of_char[of n c] by metis

lemma read_escape: "read_char (escape_char c @ x) = Some (c, x)"
proof -
  define n where "n = (of_char c :: nat)"
  then have c: "c = char_of n" by simp
  consider "n \<in> {34, 92, 8, 9, 10, 12, 13}" | "n < 32" "n \<notin> {34, 92, 8, 9, 10, 12, 13}"
    | "\<not> n < 32" "n \<noteq> 34" "n \<noteq> 92" by auto
  then show ?thesis
  proof cases
    case 1
    then show ?thesis
      by (auto simp: escape_char_def n_def[symmetric] c char_of_eq)
  next
    case 2
    then have "16 * (n div 16) + n mod 16 = n" "n div 16 < 16" "n mod 16 < 16" by simp_all
    with 2 show ?thesis
      by (simp add: escape_char_def n_def[symmetric] c)
  next
    case 3
    then show ?thesis by (simp add: escape_char_def n_def[symmetric])
  qed
qed

lemma escape_not_quote: "escape_char c @ x \<noteq> char_of (34::nat) # y"
  by (auto simp: escape_char_def Let_def)

lemma escaped_inj:
  "concat (map escape_char s) @ char_of (34::nat) # r = concat (map escape_char t) @ char_of (34::nat) # r' \<Longrightarrow>
   s = t \<and> r = r'"
proof (induction s arbitrary: t)
  case Nil
  then show ?case using escape_not_quote by (cases t) (auto, metis)
next
  case (Cons c s)
  show ?case
  proof (cases t)
    case Nil
    with Cons.prems show ?thesis using escape_not_quote by auto
  next
    case (Cons d t')
    with Cons.prems have "escape_char c @ concat (map escape_char s) @ char_of (34::nat) # r =
        escape_char d @ concat (map escape_char t') @ char_of (34::nat) # r'" by simp
    then have "c = d \<and> concat (map escape_char s) @ char_of (34::nat) # r =
        concat (map escape_char t') @ char_of (34::nat) # r'"
      using read_escape by (metis option.inject prod.inject)
    with Cons.IH Cons show ?thesis by blast
  qed
qed

lemma json_string_inj: "json_string s @ r = json_string t @ r' \<Longrightarrow> s = t \<and> r = r'"
  using escaped_inj[of s r t r'] by (simp add: json_string_def)

text \<open>Numbers end where the closing character begins.\<close>

definition num_char :: "char \<Rightarrow> bool" where
  "num_char c \<longleftrightarrow> c = CHR ''-'' \<or> is_digit c"

lemma digit_char: "n < 10 \<Longrightarrow> is_digit (char_of (48 + n)) \<and> int (of_char (char_of (48 + n) :: char)) = 48 + int n"
  for n :: nat
  by (simp add: is_digit_def less_eq_char_def)

lemma decimal_value_snoc: "decimal_value (s @ [c]) = decimal_value s * 10 + (int (of_char c) - 48)"
  by (simp add: decimal_value_def)

lemma digits_of_props: "list_all is_digit (digits_of n) \<and> decimal_value (digits_of n) = int n \<and> digits_of n \<noteq> []"
proof (induction n rule: digits_of.induct)
  case (1 n)
  show ?case
  proof (cases "n < 10")
    case True
    then show ?thesis
      using digit_char[of n] by (simp add: digits_of.simps[of n] decimal_value_def)
  next
    case False
    have "n mod 10 < 10" by simp
    moreover have "int (n div 10) * 10 + int (n mod 10) = int n"
      by (metis div_mult_mod_eq of_nat_add of_nat_mult of_nat_numeral)
    ultimately show ?thesis
      using digit_char[of "n mod 10"] 1[OF False] False
      by (simp add: digits_of.simps[of n] decimal_value_snoc list_all_iff)
  qed
qed

lemma int_string_chars: "list_all num_char (int_string i) \<and> int_string i \<noteq> []"
  using digits_of_props by (auto simp: int_string_def num_char_def list_all_iff)

lemma int_string_inject: "int_string i = int_string j \<Longrightarrow> i = j"
proof -
  have dv: "decimal_value (digits_of (nat k)) = k" if "0 \<le> k" for k
    using digits_of_props[of "nat k"] that by simp
  have no_minus: "hd (digits_of n) \<noteq> CHR ''-''" for n
  proof -
    have "is_digit (hd (digits_of n))" using digits_of_props[of n] by (auto simp: list_all_iff)
    then show ?thesis by (auto simp: is_digit_def less_eq_char_def)
  qed
  have minus: "CHR ''-'' # t \<noteq> digits_of n" for t n
    using no_minus[of n] by (cases "digits_of n") auto
  assume eq: "int_string i = int_string j"
  then have "(i < 0) = (j < 0)"
    using minus by (auto simp: int_string_def split: if_splits) metis+
  then consider "i < 0" "j < 0" "digits_of (nat (- i)) = digits_of (nat (- j))"
    | "0 \<le> i" "0 \<le> j" "digits_of (nat i) = digits_of (nat j)"
    using eq by (auto simp: int_string_def split: if_splits)
  then show "i = j"
  proof cases
    case 1
    then have "- i = - j" using dv[of "- i"] dv[of "- j"] by (metis neg_0_le_iff_le order_less_imp_le)
    then show ?thesis by simp
  next
    case 2
    then show ?thesis using dv[of i] dv[of j] by metis
  qed
qed

lemma num_not_closing: "closes r \<Longrightarrow> takeWhile num_char (int_string i @ r) = int_string i"
proof -
  assume r: "closes r"
  have "takeWhile num_char r = []"
    using r by (cases r) (auto simp: closes_def num_char_def is_digit_def less_eq_char_def)
  then show ?thesis using int_string_chars[of i] by (simp add: takeWhile_append list_all_iff)
qed

lemma int_string_inj:
  assumes "int_string i @ r = int_string j @ r'" "closes r" "closes r'"
  shows "i = j \<and> r = r'"
  using num_not_closing[OF assms(2), of i] num_not_closing[OF assms(3), of j] assms(1) int_string_inject
  by (metis same_append_eq)

text \<open>The first character tells the kind of value.\<close>

definition kind :: "string \<Rightarrow> nat" where
  "kind s =
    (let c = hd s in
     if c = CHR ''n'' then 0 else if c = CHR ''t'' then 1 else if c = CHR ''f'' then 2
     else if of_char c = (34::nat) then 3 else if c = CHR ''['' then 4 else if c = CHR ''{'' then 5
     else if num_char c then 6 else 7)"

lemma kind_int_string: "kind (int_string i @ r) = 6"
proof -
  obtain c s where cs: "int_string i = c # s" "num_char c"
    using int_string_chars[of i] by (cases "int_string i") auto
  then show ?thesis by (auto simp: kind_def num_char_def is_digit_def less_eq_char_def)
qed

lemma kind_simps:
  "kind (''null'' @ r) = 0" "kind ((if b then ''true'' else ''false'') @ r) = (if b then 1 else 2)"
  "kind (json_string s @ r) = 3" "kind (CHR ''['' # r) = 4" "kind (CHR ''{'' # r) = 5"
  by (simp_all add: kind_def json_string_def Let_def char_of_eq)

fun kind_of :: "json \<Rightarrow> nat" where
  "kind_of JNull = 0"
| "kind_of (JBool b) = (if b then 1 else 2)"
| "kind_of (JStr s) = 3"
| "kind_of (JArr vs) = 4"
| "kind_of (JObj kvs) = 5"
| "kind_of (JNum i) = 6"
| "kind_of JUndefined = 7"

lemma printed_kind_of: "canonicalJson v = Inr a \<Longrightarrow> kind (a @ r) = kind_of v"
proof (cases v)
  case (JBool b)
  then show "canonicalJson v = Inr a \<Longrightarrow> kind (a @ r) = kind_of v" using kind_simps(2)[of b r] by auto
next
  case JNull
  then show "canonicalJson v = Inr a \<Longrightarrow> kind (a @ r) = kind_of v" using kind_simps(1)[of r] by auto
qed (auto simp: kind_simps(3-5) kind_int_string ebind_eq_Inr split: if_splits)

lemma printed_kind: "canonicalJson v = Inr a \<Longrightarrow> kind (a @ r) < 7"
  using printed_kind_of[of v a r] by (cases v) auto

lemma closing_kind: "kind (CHR '']'' # r) = 7" "kind (CHR ''}'' # r) = 7" "kind (CHR '','' # r) = 7"
  by (simp_all add: kind_def num_char_def is_digit_def less_eq_char_def)

text \<open>A list of items between a comma-separated text and its closing bracket.\<close>

lemma join_unambiguous:
  assumes "\<And>x y a b r r'. x \<in> set xs \<Longrightarrow> f x = Inr a \<Longrightarrow> f y = Inr b \<Longrightarrow> a @ r = b @ r' \<Longrightarrow> closes r \<Longrightarrow>
      closes r' \<Longrightarrow> g x = g y \<and> r = r'"
    and starts: "\<And>x a r. f x = Inr a \<Longrightarrow> kind (a @ r) < 7"
    and c: "closes [c]" "c \<noteq> CHR '',''" "\<And>r. kind (c # r) = 7"
    and "list_all2 (\<lambda>x a. f x = Inr a) xs as" "list_all2 (\<lambda>x a. f x = Inr a) ys bs"
    and "join_comma as @ c # r = join_comma bs @ c # r'"
  shows "map g xs = map g ys \<and> r = r'"
  using assms(1) assms(6-8)
proof (induction xs arbitrary: as ys bs)
  case Nil
  then have as: "as = []" by simp
  have "bs = []"
  proof (rule ccontr)
    assume "bs \<noteq> []"
    then obtain y ys' b bs' where yb: "ys = y # ys'" "bs = b # bs'" "f y = Inr b"
      using Nil.prems(3) by (cases bs; cases ys) auto
    obtain t where "join_comma bs @ c # r' = b @ t" using yb(2) by (cases bs') auto
    then show False using starts[OF yb(3), of t] c(3)[of r] Nil.prems(4) as by auto
  qed
  with Nil as show ?case by auto
next
  case (Cons x xs)
  from Cons.prems(2) obtain a as' where a: "as = a # as'" "f x = Inr a" "list_all2 (\<lambda>x a. f x = Inr a) xs as'"
    by (auto simp: list_all2_Cons1)
  have "bs \<noteq> []"
  proof
    assume "bs = []"
    obtain t where "join_comma as @ c # r = a @ t" using a(1) by (cases as') auto
    then show False using starts[OF a(2), of t] c(3)[of r'] Cons.prems(4) \<open>bs = []\<close> by auto
  qed
  then obtain y ys' b bs' where b: "ys = y # ys'" "bs = b # bs'" "f y = Inr b" "list_all2 (\<lambda>x a. f x = Inr a) ys' bs'"
    using Cons.prems(3) by (cases bs; cases ys) auto
  define tail where "tail zs t = (if zs = [] then c # t else CHR '','' # join_comma zs @ c # t)" for zs :: "string list" and t
  have split: "join_comma (z # zs) @ c # t = z @ tail zs t" for z zs t
    by (cases zs) (simp_all add: tail_def)
  have closes: "closes (tail zs t)" for zs t using c(1) by (simp add: tail_def closes_def)
  have *: "g x = g y \<and> tail as' r = tail bs' r'"
    by (rule Cons.prems(1)[OF _ a(2) b(3) _ closes closes]) (use Cons.prems(4) a(1) b(2) split in simp_all)
  show ?case
  proof (cases "as' = []")
    case True
    with * c(2) have "bs' = [] \<and> r = r'" by (auto simp: tail_def split: if_splits)
    with * True a b show ?thesis by auto
  next
    case False
    with * c(2) have "bs' \<noteq> []" "join_comma as' @ c # r = join_comma bs' @ c # r'"
      by (auto simp: tail_def split: if_splits)
    with Cons.IH[OF Cons.prems(1) a(3) b(4)] * b(1) show ?thesis by simp
  qed
qed

lemma printed_array:
  "canonicalJson (JArr vs) = Inr a \<longleftrightarrow>
    (\<exists>ss. list_all2 (\<lambda>v s. canonicalJson v = Inr s) vs ss \<and> a = CHR ''['' # join_comma ss @ '']'')"
  by (auto simp: ebind_eq_Inr emap_eq_Inr)

lemma canonicalJson_unambiguous:
  "canonicalJson v = Inr a \<Longrightarrow> canonicalJson w = Inr b \<Longrightarrow> a @ r = b @ r' \<Longrightarrow> closes r \<Longrightarrow> closes r' \<Longrightarrow>
   canon v = canon w \<and> r = r'"
proof (induction v arbitrary: w a b r r' rule: canonicalJson.induct)
  case 1
  then have "kind_of w = 0" using printed_kind_of[OF "1.prems"(1), of r] printed_kind_of[OF "1.prems"(2), of r'] by simp
  with 1 show ?case by (cases w) (auto split: if_splits)
next
  case (2 c)
  then have "kind_of w = kind_of (JBool c)"
    using printed_kind_of[OF "2.prems"(1), of r] printed_kind_of[OF "2.prems"(2), of r'] by simp
  with 2 show ?case by (cases w) (auto split: if_splits)
next
  case (3 s)
  then have "kind_of w = 3" using printed_kind_of[OF "3.prems"(1), of r] printed_kind_of[OF "3.prems"(2), of r'] by simp
  then obtain t where "w = JStr t" by (cases w) (auto split: if_splits)
  with 3 show ?case using json_string_inj[of s r t r'] by simp
next
  case (4 i)
  then have "kind_of w = 6" using printed_kind_of[OF "4.prems"(1), of r] printed_kind_of[OF "4.prems"(2), of r'] by simp
  then obtain j where "w = JNum j" by (cases w) (auto split: if_splits)
  with 4 show ?case using int_string_inj[of i r j r'] by (simp split: if_splits)
next
  case (5 vs)
  from "5.prems"(1) obtain ss where ss: "list_all2 (\<lambda>v s. canonicalJson v = Inr s) vs ss" "a = CHR ''['' # join_comma ss @ '']''"
    by (auto simp only: printed_array)
  have "kind_of w = 4"
    using printed_kind_of[OF "5.prems"(1), of r] printed_kind_of[OF "5.prems"(2), of r'] "5.prems"(3) by simp
  then obtain ws where w: "w = JArr ws" by (cases w) (auto split: if_splits)
  then obtain ts where ts: "list_all2 (\<lambda>v s. canonicalJson v = Inr s) ws ts" "b = CHR ''['' # join_comma ts @ '']''"
    using "5.prems"(2) by (auto simp only: printed_array)
  have "map canon vs = map canon ws \<and> r = r'"
    by (rule join_unambiguous[where f = canonicalJson, OF "5.IH" printed_kind _ _ closing_kind(1) ss(1) ts(1)])
       (use ss(2) ts(2) "5.prems"(3) in simp_all)
  with w show ?case by simp
next
  case (6 kvs)
  let ?f = "\<lambda>(k, v). ebind (canonicalJson v) (\<lambda>t. Inr (json_string k @ CHR '':'' # t))"
  let ?g = "\<lambda>(k, v). (k, canon v)"
  let ?kvs = "\<lambda>kvs. sort_key fst (filter (\<lambda>(k, v). v \<noteq> JUndefined) kvs)"
  from "6.prems"(1) obtain ss where ss: "list_all2 (\<lambda>x s. ?f x = Inr s) (?kvs kvs) ss" "a = CHR ''{'' # join_comma ss @ ''}''"
    by (auto simp: ebind_eq_Inr emap_eq_Inr)
  have "kind_of w = 5"
    using printed_kind_of[OF "6.prems"(1), of r] printed_kind_of[OF "6.prems"(2), of r'] "6.prems"(3) by simp
  then obtain us where w: "w = JObj us" by (cases w) (auto split: if_splits)
  then obtain ts where ts: "list_all2 (\<lambda>x s. ?f x = Inr s) (?kvs us) ts" "b = CHR ''{'' # join_comma ts @ ''}''"
    using "6.prems"(2) by (auto simp: ebind_eq_Inr emap_eq_Inr)
  have "map ?g (?kvs kvs) = map ?g (?kvs us) \<and> r = r'"
  proof (rule join_unambiguous[where f = ?f, OF _ _ _ _ closing_kind(2) ss(1) ts(1)])
    fix x y c d t t'
    assume x: "x \<in> set (?kvs kvs)" "?f x = Inr c" and y: "?f y = Inr d" and eq: "c @ t = d @ t'" "closes t" "closes t'"
    obtain k v where xv: "x = (k, v)" by (cases x)
    obtain l u where yu: "y = (l, u)" by (cases y)
    from x(2) xv obtain p where p: "canonicalJson v = Inr p" "c = json_string k @ CHR '':'' # p" by (auto simp: ebind_eq_Inr)
    from y yu obtain q where q: "canonicalJson u = Inr q" "d = json_string l @ CHR '':'' # q" by (auto simp: ebind_eq_Inr)
    have "k = l \<and> CHR '':'' # p @ t = CHR '':'' # q @ t'"
      by (rule json_string_inj) (use eq(1) p(2) q(2) in simp)
    moreover from this have "canon v = canon u \<and> t = t'"
      using "6.IH"[OF x(1) xv[symmetric] p(1) q(1) _ eq(2,3)] by simp
    ultimately show "?g x = ?g y \<and> t = t'" using xv yu by simp
  qed (use ss(2) ts(2) "6.prems"(3) kind_simps(3) in \<open>auto simp: ebind_eq_Inr\<close>)
  with w show ?case by simp
next
  case 7
  then show ?case by simp
qed

section \<open>The hash determines the config\<close>

text \<open>A field of an object; canonical values have the same fields.\<close>

definition get :: "string \<Rightarrow> json \<Rightarrow> json option" where
  "get k v = (case v of JObj kvs \<Rightarrow> map_of (filter (\<lambda>(k, v). v \<noteq> JUndefined) kvs) k | _ \<Rightarrow> None)"

lemma map_of_filter_key: "map_of (filter (\<lambda>p. fst p = k) xs) k = map_of xs k"
  by (induction xs) auto

lemma map_of_sort_key: "map_of (sort_key fst xs) k = map_of xs k"
proof -
  have "filter (\<lambda>p. fst p = k) (sort_key fst xs) = filter (\<lambda>p. fst p = k) xs"
    by (rule sort_key_stable)
  then show ?thesis by (metis map_of_filter_key)
qed

lemma canon_get:
  assumes "canon (JObj xs) = canon (JObj ys)"
  shows "map_option canon (get k (JObj xs)) = map_option canon (get k (JObj ys))"
proof -
  have "map_of (map (\<lambda>(k, v). (k, canon v)) (sort_key fst zs)) k = map_option canon (map_of zs k)" for zs
    by (simp add: map_of_map map_of_sort_key)
  then show ?thesis using assms by (auto simp: get_def) metis
qed

lemma get_distinct:
  "distinct (map fst kvs) \<Longrightarrow> get k (JObj kvs) = (case map_of kvs k of None \<Rightarrow> None
    | Some v \<Rightarrow> if v = JUndefined then None else Some v)"
proof (induction kvs)
  case (Cons p kvs)
  obtain l v where p: "p = (l, v)" by (cases p)
  show ?case
  proof (cases "l = k")
    case True
    with Cons.prems p have "map_of kvs k = None" by (auto simp: map_of_eq_None_iff)
    then have "map_of (filter (\<lambda>(k, v). v \<noteq> JUndefined) kvs) k = None"
      by (auto simp: map_of_eq_None_iff)
    with True p show ?thesis by (simp add: get_def)
  next
    case False
    with Cons p show ?thesis by (simp add: get_def)
  qed
qed (simp add: get_def)

lemma opt_json_simps [simp]:
  "opt_num x = JUndefined \<longleftrightarrow> x = None" "opt_num x = opt_num y \<longleftrightarrow> x = y" "canon (opt_num x) = opt_num x"
  "opt_bool b = JUndefined \<longleftrightarrow> b = None" "opt_bool b = opt_bool c \<longleftrightarrow> b = c" "canon (opt_bool b) = opt_bool b"
  by (auto simp: opt_num_def opt_bool_def split: option.splits)

lemma market_json_inj:
  assumes "canon (market_json m) = canon (market_json n)"
  shows "m = n"
proof -
  note g = canon_get[OF assms[unfolded market_json_def]]
  show ?thesis
    using g[of "''venue''"] g[of "''market''"] by (cases m, cases n) (simp add: get_def)
qed

lemma canon_lists: "(\<And>x y. canon (f x) = canon (f y) \<Longrightarrow> x = y) \<Longrightarrow>
    map canon (map f xs) = map canon (map f ys) \<Longrightarrow> xs = ys"
proof (induction xs arbitrary: ys)
  case (Cons x xs)
  then show ?case by (cases ys) auto
qed auto

lemma twap_json_inj:
  assumes "canon (twap_json t) = canon (twap_json u)"
  shows "t = u"
proof -
  note g = canon_get[OF assms[unfolded twap_json_def]]
  show ?thesis
    using g[of "''source''"] g[of "''windowMs''"] g[of "''everyMs''"] g[of "''minTicks''"]
    by (cases t, cases u) (simp add: get_def)
qed

fun stray_free :: "FeedConfig \<Rightarrow> bool" where
  "stray_free (TwapFeed b t stray) \<longleftrightarrow> stray = []"
| "stray_free (MarketFeed b m) \<longleftrightarrow> True"

lemma markets_json_inj: "map canon (map market_json xs) = map canon (map market_json ys) \<Longrightarrow> xs = ys"
  by (rule canon_lists[OF market_json_inj])

lemma base_keys: "map fst (base_fields b) = [''symbol'', ''quote'', ''feedId'', ''expo'', ''toleranceBps'', ''emaHalfLifeMs'']"
  by (simp add: base_fields_def)

lemma method_keys: "map fst (method_fields m) = MARKET_FIELDS"
  by (simp add: method_fields_def MARKET_FIELDS_def)

definition market_feed_json :: "FeedBase \<Rightarrow> PriceMethod \<Rightarrow> json" where
  "market_feed_json b m = JObj (base_fields b @ method_fields m)"

lemma market_feed_get:
  "get k (market_feed_json b m) = (case map_of (base_fields b @ method_fields m) k of None \<Rightarrow> None
    | Some v \<Rightarrow> if v = JUndefined then None else Some v)"
  unfolding market_feed_json_def
  by (rule get_distinct) (simp add: base_keys method_keys MARKET_FIELDS_def)

definition opt_given :: "json \<Rightarrow> json option" where
  "opt_given v = (if v = JUndefined then None else Some v)"

lemma opt_given_inj:
  "map_option canon (opt_given (opt_num x)) = map_option canon (opt_given (opt_num y)) \<longleftrightarrow> x = y"
  "map_option canon (opt_given (opt_bool a)) = map_option canon (opt_given (opt_bool b)) \<longleftrightarrow> a = b"
  by (auto simp: opt_given_def opt_num_def opt_bool_def split: option.splits)

lemma market_gets:
  "get ''symbol'' (market_feed_json b m) = Some (JStr (fb_symbol b))"
  "get ''quote'' (market_feed_json b m) = Some (JStr (fb_quote b))"
  "get ''feedId'' (market_feed_json b m) = Some (JStr (fb_feedId b))"
  "get ''expo'' (market_feed_json b m) = Some (JNum (fb_expo b))"
  "get ''toleranceBps'' (market_feed_json b m) = Some (JNum (fb_toleranceBps b))"
  "get ''emaHalfLifeMs'' (market_feed_json b m) = Some (JNum (fb_emaHalfLifeMs b))"
  "get ''method'' (market_feed_json b m) = Some (JStr (case pm_method m of Mid \<Rightarrow> ''mid'' | Vwap \<Rightarrow> ''vwap''))"
  "get ''windowMs'' (market_feed_json b m) = Some (JNum (pm_windowMs m))"
  "get ''maxQuoteAgeMs'' (market_feed_json b m) = Some (JNum (pm_maxQuoteAgeMs m))"
  "get ''maxSpreadBps'' (market_feed_json b m) = Some (JNum (pm_maxSpreadBps m))"
  "get ''minVenues'' (market_feed_json b m) = Some (JNum (pm_minVenues m))"
  "get ''markets'' (market_feed_json b m) = Some (JArr (map market_json (pm_markets m)))"
  "get ''maxBookAgeMs'' (market_feed_json b m) = opt_given (opt_num (pm_maxBookAgeMs m))"
  "get ''minTopNotional'' (market_feed_json b m) = opt_given (opt_num (pm_minTopNotional m))"
  "get ''maxDeviationBps'' (market_feed_json b m) = opt_given (opt_num (pm_maxDeviationBps m))"
  "get ''vwapClampToBook'' (market_feed_json b m) = opt_given (opt_bool (pm_vwapClampToBook m))"
  "get ''tradeBookToleranceMs'' (market_feed_json b m) = opt_given (opt_num (pm_tradeBookToleranceMs m))"
  "get ''tradeBookSlackPct'' (market_feed_json b m) = opt_given (opt_num (pm_tradeBookSlackPct m))"
  "get ''vwapMinWindowNotional'' (market_feed_json b m) = opt_given (opt_num (pm_vwapMinWindowNotional m))"
  "get ''twap'' (market_feed_json b m) = None"
  by (simp_all add: market_feed_get base_fields_def method_fields_def opt_given_def)

lemma market_feed_inj:
  assumes "canon (market_feed_json b m) = canon (market_feed_json c n)"
  shows "b = c \<and> m = n"
proof -
  have g: "map_option canon (get k (market_feed_json b m)) = map_option canon (get k (market_feed_json c n))" for k
    using canon_get[OF assms[unfolded market_feed_json_def], of k] by (simp only: market_feed_json_def)
  have base: "fb_symbol b = fb_symbol c" "fb_quote b = fb_quote c" "fb_feedId b = fb_feedId c" "fb_expo b = fb_expo c"
    "fb_toleranceBps b = fb_toleranceBps c" "fb_emaHalfLifeMs b = fb_emaHalfLifeMs c"
    using g[of "''symbol''"] g[of "''quote''"] g[of "''feedId''"] g[of "''expo''"] g[of "''toleranceBps''"]
      g[of "''emaHalfLifeMs''"] by (simp_all only: market_gets option.map canon.simps option.inject json.inject)
  have nums: "pm_windowMs m = pm_windowMs n" "pm_maxQuoteAgeMs m = pm_maxQuoteAgeMs n"
    "pm_maxSpreadBps m = pm_maxSpreadBps n" "pm_minVenues m = pm_minVenues n"
    using g[of "''windowMs''"] g[of "''maxQuoteAgeMs''"] g[of "''maxSpreadBps''"] g[of "''minVenues''"]
    by (simp_all only: market_gets option.map canon.simps option.inject json.inject)
  have opts: "pm_maxBookAgeMs m = pm_maxBookAgeMs n" "pm_minTopNotional m = pm_minTopNotional n"
    "pm_maxDeviationBps m = pm_maxDeviationBps n" "pm_vwapClampToBook m = pm_vwapClampToBook n"
    "pm_tradeBookToleranceMs m = pm_tradeBookToleranceMs n" "pm_tradeBookSlackPct m = pm_tradeBookSlackPct n"
    "pm_vwapMinWindowNotional m = pm_vwapMinWindowNotional n"
    using g[of "''maxBookAgeMs''"] g[of "''minTopNotional''"] g[of "''maxDeviationBps''"] g[of "''vwapClampToBook''"]
      g[of "''tradeBookToleranceMs''"] g[of "''tradeBookSlackPct''"] g[of "''vwapMinWindowNotional''"]
    by (simp_all only: market_gets opt_given_inj)
  have rule: "pm_method m = pm_method n"
    using g[of "''method''"]
    by (cases "pm_method m"; cases "pm_method n") (simp_all add: market_gets)
  have "pm_markets m = pm_markets n"
    using g[of "''markets''"] by (intro markets_json_inj) (simp only: market_gets option.map canon.simps option.inject json.inject)
  with base nums opts rule show ?thesis
    by (intro conjI FeedBase.equality PriceMethod.equality) simp_all
qed

definition twap_feed_json :: "FeedBase \<Rightarrow> TwapSpec \<Rightarrow> json" where
  "twap_feed_json b t = JObj (base_fields b @ [(''twap'', twap_json t)])"

lemma twap_gets:
  "get ''symbol'' (twap_feed_json b t) = Some (JStr (fb_symbol b))"
  "get ''quote'' (twap_feed_json b t) = Some (JStr (fb_quote b))"
  "get ''feedId'' (twap_feed_json b t) = Some (JStr (fb_feedId b))"
  "get ''expo'' (twap_feed_json b t) = Some (JNum (fb_expo b))"
  "get ''toleranceBps'' (twap_feed_json b t) = Some (JNum (fb_toleranceBps b))"
  "get ''emaHalfLifeMs'' (twap_feed_json b t) = Some (JNum (fb_emaHalfLifeMs b))"
  "get ''twap'' (twap_feed_json b t) = Some (twap_json t)"
  by (simp_all add: twap_feed_json_def base_fields_def twap_json_def get_def)

lemmas json_field_eq = option.map canon.simps option.inject json.inject

lemma twap_feed_inj:
  assumes "canon (twap_feed_json b t) = canon (twap_feed_json c u)"
  shows "b = c \<and> t = u"
proof -
  have g: "map_option canon (get k (twap_feed_json b t)) = map_option canon (get k (twap_feed_json c u))" for k
    using canon_get[OF assms[unfolded twap_feed_json_def], of k] by (simp only: twap_feed_json_def)
  have "fb_symbol b = fb_symbol c" "fb_quote b = fb_quote c" "fb_feedId b = fb_feedId c" "fb_expo b = fb_expo c"
    "fb_toleranceBps b = fb_toleranceBps c" "fb_emaHalfLifeMs b = fb_emaHalfLifeMs c"
    using g[of "''symbol''"] g[of "''quote''"] g[of "''feedId''"] g[of "''expo''"] g[of "''toleranceBps''"]
      g[of "''emaHalfLifeMs''"] by (simp_all only: twap_gets json_field_eq)
  moreover have "t = u"
    using g[of "''twap''"] by (intro twap_json_inj) (simp only: twap_gets option.map option.inject)
  ultimately show ?thesis by (intro conjI FeedBase.equality) simp_all
qed

lemma feed_json_inj:
  assumes "canon (feed_json f) = canon (feed_json g)" "stray_free f" "stray_free g"
  shows "f = g"
proof -
  have kinds: "canon (market_feed_json b m) \<noteq> canon (twap_feed_json c t)" for b m c t
  proof
    assume "canon (market_feed_json b m) = canon (twap_feed_json c t)"
    then have "map_option canon (get ''twap'' (market_feed_json b m)) = map_option canon (get ''twap'' (twap_feed_json c t))"
      unfolding market_feed_json_def twap_feed_json_def by (rule canon_get)
    then show False by (simp only: market_gets twap_gets option.map option.distinct)
  qed
  have market: "feed_json (MarketFeed b m) = market_feed_json b m" for b m
    by (simp only: feed_json.simps market_feed_json_def)
  have twap: "feed_json (TwapFeed b t []) = twap_feed_json b t" for b t
    by (simp only: feed_json.simps twap_feed_json_def list.map append_Nil2)
  show ?thesis
  proof (cases f)
    case f: (MarketFeed b m)
    show ?thesis
    proof (cases g)
      case (MarketFeed c n)
      with assms(1) f market market_feed_inj[of b m c n] show ?thesis by metis
    next
      case (TwapFeed c t stray)
      with assms f market twap kinds[of b m c t] show ?thesis by (metis stray_free.simps(1))
    qed
  next
    case f: (TwapFeed b t stray)
    with assms have f': "f = TwapFeed b t []" by simp
    show ?thesis
    proof (cases g)
      case (MarketFeed c n)
      with assms f' market twap kinds[of c n b t] show ?thesis by metis
    next
      case g: (TwapFeed c u stray')
      with assms have "g = TwapFeed c u []" by simp
      with assms(1) f' twap twap_feed_inj[of b t c u] show ?thesis by metis
    qed
  qed
qed

lemma feeds_json_inj:
  "map canon (map feed_json fs) = map canon (map feed_json gs) \<Longrightarrow> list_all stray_free fs \<Longrightarrow> list_all stray_free gs \<Longrightarrow> fs = gs"
proof (induction fs arbitrary: gs)
  case (Cons f fs)
  then obtain g gs' where g: "gs = g # gs'" by (cases gs) auto
  with Cons.prems have "f = g" by (intro feed_json_inj) simp_all
  with Cons g show ?case by simp
qed simp

lemma config_gets:
  "get ''version'' (config_json c) = Some (JNum (c_version c))"
  "get ''committee'' (config_json c) = Some (JStr (c_committee c))"
  "get ''publisherSetTypeHash'' (config_json c) = Some (JStr (c_publisherSetTypeHash c))"
  "get ''activationTickMs'' (config_json c) = Some (JStr (c_activationTickMs c))"
  "get ''tickPeriodMs'' (config_json c) = Some (JNum (c_tickPeriodMs c))"
  "get ''observationDeadlineMs'' (config_json c) = Some (JNum (c_observationDeadlineMs c))"
  "get ''maxSigningLagMs'' (config_json c) = Some (JNum (c_maxSigningLagMs c))"
  "get ''feeds'' (config_json c) = Some (JArr (map feed_json (c_feeds c)))"
  by (simp_all add: config_json_def get_def)

lemma config_json_inj:
  assumes "canon (config_json c) = canon (config_json d)" "list_all stray_free (c_feeds c)" "list_all stray_free (c_feeds d)"
  shows "c = d"
proof -
  have g: "map_option canon (get k (config_json c)) = map_option canon (get k (config_json d))" for k
    using canon_get[OF assms(1)[unfolded config_json_def], of k] by (simp only: config_json_def)
  have "c_version c = c_version d" "c_committee c = c_committee d" "c_publisherSetTypeHash c = c_publisherSetTypeHash d"
    "c_activationTickMs c = c_activationTickMs d" "c_tickPeriodMs c = c_tickPeriodMs d"
    "c_observationDeadlineMs c = c_observationDeadlineMs d" "c_maxSigningLagMs c = c_maxSigningLagMs d"
    using g[of "''version''"] g[of "''committee''"] g[of "''publisherSetTypeHash''"] g[of "''activationTickMs''"]
      g[of "''tickPeriodMs''"] g[of "''observationDeadlineMs''"] g[of "''maxSigningLagMs''"]
    by (simp_all only: config_gets json_field_eq)
  moreover have "c_feeds c = c_feeds d"
    using g[of "''feeds''"] assms(2,3) by (intro feeds_json_inj) (simp_all only: config_gets json_field_eq)
  ultimately show ?thesis by (intro CommitteeConfig.equality) simp_all
qed

text \<open>The extra fields of a TWAP feed are those of a market feed.\<close>

fun stray_typed :: "FeedConfig \<Rightarrow> bool" where
  "stray_typed (TwapFeed b t stray) \<longleftrightarrow> set stray \<subseteq> set MARKET_FIELDS"
| "stray_typed (MarketFeed b m) \<longleftrightarrow> True"

lemma canonical_config_inj:
  "canonicalJson (config_json c) = Inr s \<Longrightarrow> canonicalJson (config_json d) = Inr s \<Longrightarrow>
   list_all stray_free (c_feeds c) \<Longrightarrow> list_all stray_free (c_feeds d) \<Longrightarrow> c = d"
  using canonicalJson_unambiguous[of "config_json c" s "config_json d" s "[]" "[]"]
  by (intro config_json_inj) simp_all

section \<open>What validation guarantees\<close>

definition feed_hash :: "crypto \<Rightarrow> FeedConfig \<Rightarrow> bytes" where
  "feed_hash C f = ckbHash C [DOMAIN_FEED, text_bytes (feed_symbol f)]"

text \<open>A market feed survives the loss of one venue and needs at least two.\<close>

definition method_sound :: "PriceMethod \<Rightarrow> bool" where
  "method_sound m \<longleftrightarrow> 0 < pm_windowMs m \<and> 0 < pm_maxQuoteAgeMs m \<and> 0 < pm_maxSpreadBps m \<and>
    2 \<le> pm_minVenues m \<and> pm_minVenues m < int (card (mc_venue ` set (pm_markets m))) \<and>
    distinct (map mc_venue (pm_markets m)) \<and>
    (pm_tradeBookToleranceMs m = None \<longleftrightarrow> pm_tradeBookSlackPct m = None)"

text \<open>A TWAP averages a market feed of the same config over whole ticks.\<close>

definition twap_sound :: "CommitteeConfig \<Rightarrow> FeedBase \<Rightarrow> TwapSpec \<Rightarrow> bool" where
  "twap_sound config b t \<longleftrightarrow>
    (\<exists>c m. MarketFeed c m \<in> set (c_feeds config) \<and> fb_symbol c = tw_source t \<and>
      fb_quote c = fb_quote b \<and> fb_expo c = fb_expo b) \<and>
    0 < tw_minTicks t \<and> 0 < tw_everyMs t \<and> tw_windowMs t \<le> 3600000 \<and>
    c_tickPeriodMs config dvd tw_windowMs t \<and> c_tickPeriodMs config dvd tw_everyMs t \<and>
    tw_minTicks t * c_tickPeriodMs config \<le> tw_windowMs t"

fun feed_sound :: "CommitteeConfig \<Rightarrow> FeedConfig \<Rightarrow> bool" where
  "feed_sound config (MarketFeed b m) \<longleftrightarrow> method_sound m \<and> fb_quote b = last_segment (fb_symbol b)"
| "feed_sound config (TwapFeed b t stray) \<longleftrightarrow> twap_sound config b t \<and> set stray \<inter> set MARKET_FIELDS = {}"

definition config_sound :: "crypto \<Rightarrow> CommitteeConfig \<Rightarrow> bool" where
  "config_sound C config \<longleftrightarrow>
    0 < c_version config \<and> 0 < c_maxSigningLagMs config \<and>
    0 < c_observationDeadlineMs config \<and> c_observationDeadlineMs config < c_tickPeriodMs config \<and>
    c_tickPeriodMs config dvd decimal_value (c_activationTickMs config) \<and>
    c_feeds config \<noteq> [] \<and> length (c_feeds config) \<le> 255 \<and>
    map feed_id (c_feeds config) = map (\<lambda>f. bytesToHex (feed_hash C f)) (c_feeds config) \<and>
    ascending_by (<) (map (feed_hash C) (c_feeds config)) \<and>
    list_all (feed_sound config) (c_feeds config)"

lemma positive_Nil [simp]: "positive v = [] \<longleftrightarrow> 0 < v \<and> v \<le> 2 ^ 53 - 1"
  by (auto simp: positive_def is_safe_integer_def)

lemma problem_Nil [simp]: "problem b msg = [] \<longleftrightarrow> \<not> b"
  by (simp add: problem_def)

lemma decimal_value_nonneg: "list_all is_digit s \<Longrightarrow> 0 \<le> decimal_value s"
proof (induction s rule: rev_induct)
  case (snoc c s)
  then have "48 \<le> (of_char c :: nat)" by (simp add: is_digit_def less_eq_char_def)
  with snoc show ?case by (simp add: decimal_value_snoc)
qed (simp add: decimal_value_def)

lemma multiple_dvd: "0 < a \<Longrightarrow> 0 < b \<Longrightarrow> \<not> not_multiple a b \<longleftrightarrow> b dvd a"
  by (auto simp: not_multiple_def big_rem_nonneg mod_eq_0_iff_dvd)

lemma checkMethod_Nil: "checkMethod m = [] \<Longrightarrow> method_sound m"
proof -
  assume m: "checkMethod m = []"
  then have "distinct (map mc_venue (pm_markets m))"
    by (simp add: checkMethod_def card_distinct)
  with m show ?thesis
    using distinct_card[of "map mc_venue (pm_markets m)"]
    by (simp add: checkMethod_def method_sound_def)
qed

lemma checkTwap_Nil:
  assumes "checkTwap config b t stray = []" "0 < c_tickPeriodMs config"
  shows "twap_sound config b t \<and> set stray \<inter> set MARKET_FIELDS = {}"
proof -
  from assms(1) obtain source where source: "find (\<lambda>f. feed_symbol f = tw_source t) (c_feeds config) = Some source"
      "\<not> isTwapFeed source" "fb_quote b = fb_quote (feed_base source)" "fb_expo b = fb_expo (feed_base source)"
    by (auto simp: checkTwap_def split: option.splits if_splits)
  then obtain c m where m: "source = MarketFeed c m" by (cases source) auto
  from source(1) have "source \<in> set (c_feeds config)" "feed_symbol source = tw_source t"
    by (auto simp: find_Some_iff)
  with m source(3,4) have "\<exists>c m. MarketFeed c m \<in> set (c_feeds config) \<and> fb_symbol c = tw_source t \<and>
      fb_quote c = fb_quote b \<and> fb_expo c = fb_expo b" by (intro exI[of _ c] exI[of _ m]) simp
  moreover have "0 < tw_minTicks t" "0 < tw_everyMs t" "0 < tw_windowMs t" "tw_windowMs t \<le> 3600000"
    "\<not> not_multiple (tw_windowMs t) (c_tickPeriodMs config)" "\<not> not_multiple (tw_everyMs t) (c_tickPeriodMs config)"
    "\<not> exceeds_quotient (tw_minTicks t) (tw_windowMs t) (c_tickPeriodMs config)"
    and stray: "\<forall>field \<in> set MARKET_FIELDS. field \<notin> set stray"
    using assms(1) unfolding checkTwap_def by simp_all
  ultimately have "twap_sound config b t"
    using assms(2) by (simp add: twap_sound_def multiple_dvd exceeds_quotient_def not_less)
  with stray show ?thesis by blast
qed

lemma checkFeed_Nil:
  assumes "checkFeed C config i feed = Inr []" "0 < c_tickPeriodMs config"
  shows "feed_sound config feed" "feed_id feed = bytesToHex (feed_hash C feed)"
    and "i = 0 \<or> (\<exists>p q. hexToBytes (feed_id (c_feeds config ! (i - 1))) = Inr p \<and> hexToBytes (feed_id feed) = Inr q \<and> p < q)"
proof -
  show "feed_sound config feed"
    using assms(1) by (cases feed)
      (auto simp: checkFeed_def ebind_eq_Inr Let_def split: if_splits dest: checkMethod_Nil checkTwap_Nil[OF _ assms(2)])
  show "feed_id feed = bytesToHex (feed_hash C feed)"
    using assms(1) by (auto simp: checkFeed_def ebind_eq_Inr Let_def feedId_def feed_hash_def split: if_splits)
  show "i = 0 \<or> (\<exists>p q. hexToBytes (feed_id (c_feeds config ! (i - 1))) = Inr p \<and> hexToBytes (feed_id feed) = Inr q \<and> p < q)"
    using assms(1) by (auto simp: checkFeed_def ebind_eq_Inr Let_def compareBytes_neg not_le split: if_splits)
qed

lemma feed_checks_Nil:
  assumes "emap (\<lambda>(i, feed). checkFeed C config i feed) (enumerate 0 (c_feeds config)) = Inr fs" "concat fs = []"
    and "i < length (c_feeds config)"
  shows "checkFeed C config i (c_feeds config ! i) = Inr []"
proof -
  from assms(1) have all: "list_all2 (\<lambda>(i, feed) y. checkFeed C config i feed = Inr y) (enumerate 0 (c_feeds config)) fs"
    by (simp add: emap_eq_Inr case_prod_unfold)
  then have len: "length fs = length (c_feeds config)" by (auto dest: list_all2_lengthD)
  from all assms(3) have "checkFeed C config i (c_feeds config ! i) = Inr (fs ! i)"
    by (auto dest: list_all2_nthD2[where p = i] simp: len nth_enumerate_eq list_all2_conv_all_nth)
  moreover from assms(2,3) len have "fs ! i = []" by simp
  ultimately show ?thesis by simp
qed

lemma validate_Nil:
  assumes "validateCommitteeConfig C config = Inr []"
  shows "config_sound C config"
proof -
  from assms obtain fs where fs: "emap (\<lambda>(i, feed). checkFeed C config i feed) (enumerate 0 (c_feeds config)) = Inr fs" "concat fs = []"
    and basic: "0 < c_version config" "0 < c_tickPeriodMs config" "0 < c_observationDeadlineMs config"
      "0 < c_maxSigningLagMs config" "c_observationDeadlineMs config < c_tickPeriodMs config"
      "c_feeds config \<noteq> []" "length (c_feeds config) \<le> 255"
    and tick: "is_decimal (c_activationTickMs config)"
      "big_rem (decimal_value (c_activationTickMs config)) (c_tickPeriodMs config) = 0"
    by (auto simp: validateCommitteeConfig_def ebind_eq_Inr not_le split: if_splits)
  note feed = checkFeed_Nil[OF feed_checks_Nil[OF fs] basic(2)]
  have ids: "map feed_id (c_feeds config) = map (\<lambda>f. bytesToHex (feed_hash C f)) (c_feeds config)"
    using feed(2) by (intro nth_equalityI) simp_all
  have "ascending_by (<) (map (feed_hash C) (c_feeds config))"
    unfolding ascending_by_nth
  proof (intro allI impI)
    fix i assume "i < length (map (feed_hash C) (c_feeds config))"
    then have i: "i < length (c_feeds config)" "i - 1 < length (c_feeds config)" by simp_all
    from feed(3)[OF i(1)] feed(2)[OF i(1)] feed(2)[OF i(2)]
    show "i = 0 \<or> map (feed_hash C) (c_feeds config) ! (i - 1) < map (feed_hash C) (c_feeds config) ! i"
      using i by auto
  qed
  moreover have "c_tickPeriodMs config dvd decimal_value (c_activationTickMs config)"
    using tick decimal_value_nonneg basic(2) by (simp add: is_decimal_def big_rem_nonneg dvd_eq_mod_eq_0)
  moreover have "list_all (feed_sound config) (c_feeds config)"
    using feed(1) by (auto simp: list_all_iff in_set_conv_nth)
  ultimately show ?thesis using basic ids by (simp add: config_sound_def)
qed

lemma sound_stray_free:
  "config_sound C config \<Longrightarrow> list_all stray_typed (c_feeds config) \<Longrightarrow> list_all stray_free (c_feeds config)"
proof -
  have "feed_sound config f \<Longrightarrow> stray_typed f \<Longrightarrow> stray_free f" for f
    by (cases f) (auto simp: Int_absorb2)
  then show "config_sound C config \<Longrightarrow> list_all stray_typed (c_feeds config) \<Longrightarrow> list_all stray_free (c_feeds config)"
    by (auto simp: config_sound_def list_all_iff)
qed

lemma checkFeed_returns:
  "(\<exists>ps. checkFeed C config i feed = Inr ps) \<longleftrightarrow>
    i = 0 \<or> isHex (feed_id (c_feeds config ! (i - 1))) \<and> isHex (feed_id feed)"
  by (auto simp: checkFeed_def Let_def hexToBytes_def)

lemma emap_returns: "(\<exists>ys. emap f xs = Inr ys) \<longleftrightarrow> (\<forall>x \<in> set xs. \<exists>y. f x = Inr y)"
  by (induction xs) (auto simp: ebind_eq_Inr)

lemma adjacent_both:
  "(\<forall>i < length xs. i = 0 \<or> P (xs ! (i - 1)) \<and> P (xs ! i)) \<longleftrightarrow> length xs \<le> 1 \<or> list_all P xs"
  (is "?l \<longleftrightarrow> ?r")
proof
  assume l: ?l
  show ?r
  proof (cases "length xs \<le> 1")
    case False
    have "P (xs ! i)" if "i < length xs" for i
      using l[rule_format, of i] l[rule_format, of 1] that False by (cases i) auto
    then show ?thesis by (simp add: list_all_length)
  qed simp
qed (auto simp: list_all_length)

lemma feed_checks_return:
  "(\<exists>fs. emap (\<lambda>(i, feed). checkFeed C config i feed) (enumerate 0 (c_feeds config)) = Inr fs) \<longleftrightarrow>
    length (c_feeds config) \<le> 1 \<or> list_all (\<lambda>f. isHex (feed_id f)) (c_feeds config)"
proof -
  have set: "set (enumerate 0 xs) = (\<lambda>i. (i, xs ! i)) ` {..<length xs}" for xs :: "FeedConfig list"
    by (force simp: in_set_enumerate_eq)
  show ?thesis
    unfolding emap_returns set adjacent_both[symmetric] by (simp add: checkFeed_returns) (metis lessThan_iff)
qed

section \<open>Properties\<close>

text \<open>A market feed and its average over a minute.\<close>

definition demo_base :: "string \<Rightarrow> FeedBase" where
  "demo_base symbol = \<lparr>fb_symbol = symbol, fb_quote = ''USDT'', fb_feedId = feedId demo_crypto symbol, fb_expo = -8,
     fb_toleranceBps = 10, fb_emaHalfLifeMs = 60000\<rparr>"

definition demo_method :: PriceMethod where
  "demo_method = \<lparr>pm_method = Mid, pm_windowMs = 1000, pm_maxQuoteAgeMs = 5000, pm_maxBookAgeMs = None,
     pm_maxSpreadBps = 50, pm_minTopNotional = None, pm_maxDeviationBps = Some 100, pm_vwapClampToBook = None,
     pm_tradeBookToleranceMs = None, pm_tradeBookSlackPct = None, pm_vwapMinWindowNotional = None, pm_minVenues = 2,
     pm_markets = map (\<lambda>v. \<lparr>mc_venue = v, mc_market = ''CKB_USDT''\<rparr>) [''binance'', ''gate'', ''okx'']\<rparr>"

definition demo_twap :: TwapSpec where
  "demo_twap = \<lparr>tw_source = ''Crypto.CKB/USDT'', tw_windowMs = 60000, tw_everyMs = 60000, tw_minTicks = 2\<rparr>"

definition demo_config :: CommitteeConfig where
  "demo_config = \<lparr>c_version = 1, c_committee = ''demo'', c_publisherSetTypeHash = bytesToHex (replicate 32 9),
     c_activationTickMs = ''600000'', c_tickPeriodMs = 2000, c_observationDeadlineMs = 700, c_maxSigningLagMs = 5000,
     c_feeds = [TwapFeed (demo_base ''Crypto.CKB/USDT.TWAP60'') demo_twap [], MarketFeed (demo_base ''Crypto.CKB/USDT'') demo_method]\<rparr>"

lemma eq_char_of: "n < 256 \<Longrightarrow> c = char_of n \<longleftrightarrow> of_char c = n" for n :: nat
  using char_of_eq[of n c] by auto

lemma demo_feed_order:
  "compareBytes (ckbHash demo_crypto [DOMAIN_FEED, text_bytes ''Crypto.CKB/USDT.TWAP60''])
     (ckbHash demo_crypto [DOMAIN_FEED, text_bytes ''Crypto.CKB/USDT'']) < 0"
  by (simp add: demo_hash_def concatBytes_def DOMAIN_FEED_def text_bytes_def ckbHash_def blake_demo le_bytes_numeral)

lemma demo_method_checked: "checkMethod demo_method = []"
  by (simp add: checkMethod_def demo_method_def)

lemma demo_market_checked: "checkFeed demo_crypto demo_config 1 (MarketFeed (demo_base ''Crypto.CKB/USDT'') demo_method) = Inr []"
  using demo_feed_order
  by (simp add: checkFeed_def Let_def demo_method_checked demo_config_def demo_base_def last_segment_def feedId_def
      problem_def del: One_nat_def)

lemma demo_twap_checked: "checkFeed demo_crypto demo_config 0 (TwapFeed (demo_base ''Crypto.CKB/USDT.TWAP60'') demo_twap []) = Inr []"
  by (simp add: checkFeed_def Let_def demo_config_def demo_base_def demo_twap_def checkTwap_def feedId_def
      not_multiple_def exceeds_quotient_def big_rem_nonneg big_div_nonneg int_string_def digits_of.simps MARKET_FIELDS_def eq_char_of)

lemma demo_config_fields:
  "c_version demo_config = 1" "c_activationTickMs demo_config = ''600000''" "c_tickPeriodMs demo_config = 2000"
  "c_observationDeadlineMs demo_config = 700" "c_maxSigningLagMs demo_config = 5000"
  "c_feeds demo_config = [TwapFeed (demo_base ''Crypto.CKB/USDT.TWAP60'') demo_twap [],
     MarketFeed (demo_base ''Crypto.CKB/USDT'') demo_method]"
  by (simp_all add: demo_config_def)

lemma demo_activation: "is_decimal ''600000''" "decimal_value ''600000'' = 600000"
  by (simp_all add: is_decimal_def is_digit_def less_eq_char_def decimal_value_def)

lemma demo_config_valid: "validateCommitteeConfig demo_crypto demo_config = Inr []"
  using demo_market_checked demo_twap_checked
  by (simp add: validateCommitteeConfig_def demo_config_fields demo_activation big_rem_nonneg)

text \<open>Claim C19: a config that \<open>verifyCommitteeConfig\<close> accepts carries a quorum's signatures over its
  hash, and follows the rules: the observation deadline falls within the tick period, the activation is a
  tick boundary, the feeds are 1 to 255 in strictly ascending order of their ids, which are the hashes of
  their symbols, every market feed needs at least two distinct venues and survives the loss of one, and
  every TWAP feed averages a market feed of the same config over whole ticks of at most an hour.\<close>

theorem approved_config_sound:
  assumes "verifyCommitteeConfig C sc s = Inr True"
  shows "config_sound C (sc_config sc) \<and>
    (\<exists>hash. committeeConfigHash C (sc_config sc) = Inr hash \<and> quorum_signed C (sc_signatures sc) (HexStr hash) s)"
proof -
  from assms obtain hash where v: "validateCommitteeConfig C (sc_config sc) = Inr []"
    and h: "committeeConfigHash C (sc_config sc) = Inr hash" "verifyThreshold C (sc_signatures sc) (HexStr hash) s = Inr True"
    by (auto simp: verifyCommitteeConfig_def ebind_eq_Inr split: if_splits)
  then show ?thesis using validate_Nil[OF v] by (auto simp: verifyThreshold_quorum)
qed

lemma demo_config_hash: "\<exists>bs. committeeConfigHash demo_crypto demo_config = Inr (bytesToHex bs)"
proof -
  have "\<exists>t. canonicalJson (config_json demo_config) = Inr t"
    by (simp add: config_json_def demo_config_def demo_base_def demo_method_def demo_twap_def base_fields_def
        method_fields_def twap_json_def market_json_def opt_num_def opt_bool_def is_safe_integer_def)
  then show ?thesis by (auto simp: committeeConfigHash_def)
qed

theorem approved_config_sound_witness:
  "verifyCommitteeConfig demo_crypto \<lparr>sc_config = demo_config, sc_signatures = demo_bundle\<rparr> (demo_set 1) = Inr True \<and>
   config_sound demo_crypto demo_config"
proof -
  obtain bs where h: "committeeConfigHash demo_crypto demo_config = Inr (bytesToHex bs)" using demo_config_hash by blast
  have "verifyThreshold demo_crypto demo_bundle (HexStr (bytesToHex bs)) (demo_set 1) = Inr True"
    by (rule demo_bundle_accepted) simp
  with h have v: "verifyCommitteeConfig demo_crypto \<lparr>sc_config = demo_config, sc_signatures = demo_bundle\<rparr> (demo_set 1) = Inr True"
    by (simp add: verifyCommitteeConfig_def demo_config_valid)
  from approved_config_sound[OF this] v show ?thesis by simp
qed

text \<open>The text of a config ends with its version.\<close>

lemma config_text:
  assumes "canonicalJson (JArr (map feed_json (c_feeds c))) = Inr fs" "is_safe_integer (c_maxSigningLagMs c)"
     "is_safe_integer (c_observationDeadlineMs c)" "is_safe_integer (c_tickPeriodMs c)"
  shows "\<exists>p. \<forall>v. is_safe_integer v \<longrightarrow> canonicalJson (config_json (c\<lparr>c_version := v\<rparr>)) = Inr (p @ int_string v @ ''}'')"
proof -
  let ?f = "\<lambda>(k, v). json_string k @ CHR '':'' # v"
  have "canonicalJson (config_json (c\<lparr>c_version := v\<rparr>)) = Inr ((CHR ''{'' # join_comma (map ?f
     [(''activationTickMs'', json_string (c_activationTickMs c)), (''committee'', json_string (c_committee c)), (''feeds'', fs),
      (''maxSigningLagMs'', int_string (c_maxSigningLagMs c)), (''observationDeadlineMs'', int_string (c_observationDeadlineMs c)),
      (''publisherSetTypeHash'', json_string (c_publisherSetTypeHash c)), (''tickPeriodMs'', int_string (c_tickPeriodMs c))]) @
       CHR '','' # json_string ''version'' @ '':'') @ int_string v @ ''}'')"
    if "is_safe_integer v" for v
    using assms that by (simp add: config_json_def del: canonicalJson.simps(5))
  then show ?thesis by blast
qed

lemma demo_hash_last: "demo_hash (p @ text_bytes ''1}'') \<noteq> demo_hash (p @ text_bytes ''2}'')"
proof
  define h :: int where "h = foldl (\<lambda>h b. (h * 257 + uint b + 1) mod 2 ^ 61) 7 p"
  let ?v = "\<lambda>a. ((h * 257 + a) mod 2 ^ 61 * 257 + 126) mod 2 ^ 61"
  have *: "demo_hash (p @ text_bytes ''1}'') = le_bytes 32 (?v 50)" "demo_hash (p @ text_bytes ''2}'') = le_bytes 32 (?v 51)"
    by (simp_all add: demo_hash_def text_bytes_def h_def flip: take_bit_eq_mod)
      (simp_all add: take_bit_eq_mod ac_simps)
  have bound: "0 \<le> ?v a \<and> ?v a < 2 ^ (32 * 8)" for a
    using pos_mod_bound[of "2 ^ 61" "(h * 257 + a) mod 2 ^ 61 * 257 + 126"] by simp
  assume "demo_hash (p @ text_bytes ''1}'') = demo_hash (p @ text_bytes ''2}'')"
  then have "le_value (le_bytes 32 (?v 50)) = le_value (le_bytes 32 (?v 51))" unfolding * by simp
  then have "?v 50 = ?v 51" using bound by (simp only: le_value_le_bytes)
  then have "((h * 257 + 50) * 257 + 126) mod 2 ^ 61 = ((h * 257 + 51) * 257 + 126) mod 2 ^ 61"
    by (metis mod_add_left_eq mod_mult_left_eq)
  then have "2 ^ 61 dvd ((h * 257 + 50) * 257 + 126) - ((h * 257 + 51) * 257 + 126)"
    by (simp only: mod_eq_dvd_iff)
  then show False by (simp add: algebra_simps)
qed

text \<open>The hash of a config determines the config: two configs without problems and with the same
  hash are equal (and only equal ones have it), whatever the order of the fields of their JSON, if BLAKE2b does not confuse their two
  canonical texts. So the committee's signatures approve one set of rules.\<close>

theorem config_hash_binds:
  assumes "validateCommitteeConfig C c = Inr []" "validateCommitteeConfig C d = Inr []"
    and "canonicalJson (config_json c) = Inr s" "canonicalJson (config_json d) = Inr t"
    and "inj_on (blake2b C) {DOMAIN_COMMITTEE_CONFIG @ text_bytes s, DOMAIN_COMMITTEE_CONFIG @ text_bytes t}"
    and "list_all stray_typed (c_feeds c)" "list_all stray_typed (c_feeds d)"
  shows "committeeConfigHash C c = committeeConfigHash C d \<longleftrightarrow> c = d"
proof (intro iffI)
  assume "committeeConfigHash C c = committeeConfigHash C d"
  with assms(3,4) have "blake2b C (DOMAIN_COMMITTEE_CONFIG @ text_bytes s) = blake2b C (DOMAIN_COMMITTEE_CONFIG @ text_bytes t)"
    by (simp add: committeeConfigHash_def ckbHash_def concatBytes_def)
  from inj_onD[OF assms(5) this] have "s = t" by simp
  with assms show "c = d"
    by (intro canonical_config_inj sound_stray_free[OF validate_Nil]) simp_all
qed simp

lemma demo_version_2: "validateCommitteeConfig demo_crypto (demo_config\<lparr>c_version := 2\<rparr>) = Inr []"
proof -
  have "checkFeed demo_crypto (demo_config\<lparr>c_version := v\<rparr>) i f = checkFeed demo_crypto demo_config i f" for v i f
    by (cases f) (simp_all add: checkFeed_def checkTwap_def Let_def cong: if_cong)
  then show ?thesis
    using demo_market_checked demo_twap_checked
    by (simp add: validateCommitteeConfig_def demo_config_fields demo_activation big_rem_nonneg)
qed

theorem config_hash_binds_witness:
  "committeeConfigHash demo_crypto demo_config \<noteq> committeeConfigHash demo_crypto (demo_config\<lparr>c_version := 2\<rparr>)"
proof -
  have "\<exists>fs. canonicalJson (JArr (map feed_json (c_feeds demo_config))) = Inr fs"
    by (simp add: demo_config_def demo_base_def demo_method_def demo_twap_def base_fields_def
        method_fields_def twap_json_def market_json_def opt_num_def opt_bool_def is_safe_integer_def)
  then obtain p where p: "\<forall>v. is_safe_integer v \<longrightarrow> canonicalJson (config_json (demo_config\<lparr>c_version := v\<rparr>)) = Inr (p @ int_string v @ ''}'')"
    using config_text[of demo_config] by (auto simp: demo_config_fields is_safe_integer_def)
  have ver: "demo_config\<lparr>c_version := 1\<rparr> = demo_config" by (simp add: demo_config_def)
  have s: "canonicalJson (config_json demo_config) = Inr (p @ ''1}'')"
    "canonicalJson (config_json (demo_config\<lparr>c_version := 2\<rparr>)) = Inr (p @ ''2}'')"
    using p[rule_format, of 1] p[rule_format, of 2] unfolding ver
    by (simp_all add: is_safe_integer_def int_string_def digits_of.simps)
  have "text_bytes (p @ t) = text_bytes p @ text_bytes t" for t by (simp add: text_bytes_def)
  then have inj: "inj_on (blake2b demo_crypto) {DOMAIN_COMMITTEE_CONFIG @ text_bytes (p @ ''1}''), DOMAIN_COMMITTEE_CONFIG @ text_bytes (p @ ''2}'')}"
    using demo_hash_last[of "DOMAIN_COMMITTEE_CONFIG @ text_bytes p"] by (auto simp: blake_demo inj_on_def)
  have typed: "list_all stray_typed (c_feeds demo_config)" "list_all stray_typed (c_feeds (demo_config\<lparr>c_version := 2\<rparr>))"
    by (simp_all add: demo_config_fields)
  have "demo_config \<noteq> demo_config\<lparr>c_version := 2\<rparr>" by (simp add: demo_config_def)
  with config_hash_binds[OF demo_config_valid demo_version_2 s inj typed] show ?thesis by simp
qed

text \<open>When \<open>validateCommitteeConfig\<close> returns its list of problems rather than throwing, for a config whose numbers are
  integers: the activation is not a decimal or the tick period is not zero, and the feed ids are hex (a single one may be anything). So a config whose
  \<open>tickPeriodMs\<close> is 0 makes it throw, although it is a problem the function lists.\<close>

theorem validation_returns:
  "(\<exists>problems. validateCommitteeConfig C config = Inr problems) \<longleftrightarrow>
    \<not> (c_tickPeriodMs config = 0 \<and> is_decimal (c_activationTickMs config)) \<and>
    (length (c_feeds config) \<le> 1 \<or> list_all (\<lambda>f. isHex (feed_id f)) (c_feeds config))"
  unfolding feed_checks_return[symmetric, where C = C]
  by (auto simp: validateCommitteeConfig_def ebind_eq_Inr)

end
