(* ===== verification/Fixed_Point.thy ===== *)
theory Fixed_Point
  imports Committee_Config
begin

text \<open>
  \<open>apps/publisher/src/fixed.ts\<close>: prices with 18 decimals on \<open>bigint\<close>. Division truncates towards zero
  (\<open>big_div\<close>).

  Lemmas: \<open>median\<close> is the floor of the mean of the two middle values, so it lies between the extremes,
  does not depend on the order, and is moved out of a range only by half of its values; \<open>toExpo\<close> rounds
  to the nearest multiple.
\<close>

section \<open>The code\<close>

definition ONE :: int where
  "ONE = 10 ^ 18"

text \<open>\<open>text.trim()\<close>.\<close>

definition is_space :: "char \<Rightarrow> bool" where
  "is_space c \<longleftrightarrow> of_char c \<in> {9, 10, 11, 12, 13, 32, 160 :: nat}"

definition trim :: "string \<Rightarrow> string" where
  "trim s = rev (dropWhile is_space (rev (dropWhile is_space s)))"

text \<open>The match of \<open>/^(\d+)(?:\.(\d+))?$/\<close>: the integer part and the fraction, if any.\<close>

definition decimal_match :: "string \<Rightarrow> (string \<times> string) option" where
  "decimal_match t =
    (let whole = takeWhile is_digit t; rest = dropWhile is_digit t
     in if whole = [] then None
        else case rest of
          [] \<Rightarrow> Some (whole, [])
        | c # fraction \<Rightarrow> if c = CHR ''.'' \<and> is_decimal fraction then Some (whole, fraction) else None)"

definition pad_end :: "nat \<Rightarrow> char \<Rightarrow> string \<Rightarrow> string" where
  "pad_end n c s = s @ replicate (n - length s) c"

definition parseDecimal :: "string \<Rightarrow> int result" where
  "parseDecimal s =
    (case decimal_match (trim s) of
       None \<Rightarrow> Inl (Failure ''invalid decimal'')
     | Some (whole, fraction) \<Rightarrow>
         Inr (decimal_value whole * ONE + decimal_value (pad_end 18 (CHR ''0'') (take 18 fraction))))"

definition mul :: "int \<Rightarrow> int \<Rightarrow> int" where
  "mul a b = big_div (a * b) ONE"

definition div_fixed :: "int \<Rightarrow> int \<Rightarrow> int result" where
  "div_fixed a b = (if b = 0 then Inl (RangeError ''division by zero'') else Inr (big_div (a * ONE) b))"

definition abs_big :: "int \<Rightarrow> int" where
  "abs_big a = (if a < 0 then - a else a)"

definition median :: "int list \<Rightarrow> int result" where
  "median xs =
    (if length xs = 0 then Inl (RangeError ''median of nothing'')
     else
       let sorted = sort xs; mid = length sorted div 2
       in if length sorted mod 2 = 1 then Inr (sorted ! mid)
          else
            let sum = sorted ! (mid - 1) + sorted ! mid
            in Inr (if sum \<ge> 0 then big_div sum 2 else - (big_div (- sum + 1) 2)))"

definition toExpo :: "int \<Rightarrow> int \<Rightarrow> int" where
  "toExpo v expo =
    (let shift = 18 + expo
     in if shift < 0 then v * 10 ^ nat (- shift)
        else
          let divisor = 10 ^ nat shift; sign = (if v < 0 then -1 else 1)
          in sign * big_div (abs_big v * 2 + divisor) (2 * divisor))"

section \<open>The median\<close>

lemma abs_big [simp]: "abs_big a = \<bar>a\<bar>"
  by (simp add: abs_big_def)

text \<open>The value of the median, for any non-empty list.\<close>

definition median_of :: "int list \<Rightarrow> int" where
  "median_of xs = (sort xs ! ((length xs - 1) div 2) + sort xs ! (length xs div 2)) div 2"

lemma floor_half: "(if s \<ge> 0 then big_div s 2 else - (big_div (- s + 1) 2)) = s div 2" for s :: int
proof (cases "s \<ge> 0")
  case False
  then have "big_div (- s + 1) 2 = (- s + 1) div 2" by (intro big_div_nonneg) simp_all
  with False show ?thesis by simp
qed (simp add: big_div_nonneg)

lemma median_value: "xs \<noteq> [] \<Longrightarrow> median xs = Inr (median_of xs)"
proof (cases "even (length xs)")
  case True
  moreover assume "xs \<noteq> []"
  ultimately have "(length xs - 1) div 2 = length xs div 2 - 1" by (cases "length xs") auto
  with True \<open>xs \<noteq> []\<close> show ?thesis
    by (simp add: median_def median_of_def Let_def floor_half even_iff_mod_2_eq_zero)
next
  case False
  then have "(length xs - 1) div 2 = length xs div 2" by presburger
  with False show "xs \<noteq> [] \<Longrightarrow> ?thesis"
    by (simp add: median_def median_of_def Let_def odd_iff_mod_2_eq_one)
qed

lemma median_Nil [simp]: "median [] = Inl (RangeError ''median of nothing'')"
  by (simp add: median_def)

lemma median_eq_Inr: "median xs = Inr m \<longleftrightarrow> xs \<noteq> [] \<and> m = median_of xs"
  by (cases "xs = []") (auto simp: median_value)

lemma median_of_mset: "mset xs = mset ys \<Longrightarrow> median_of xs = median_of ys"
proof -
  assume *: "mset xs = mset ys"
  then have "sort xs = sort ys" by (intro properties_for_sort) simp_all
  moreover from * have "length xs = length ys" by (rule mset_eq_length)
  ultimately show ?thesis by (simp add: median_of_def)
qed

lemma sorted_nth_below:
  assumes "sorted s" "k < length s" "s ! k < (x :: int)"
  shows "k < length (filter (\<lambda>y. y < x) s)"
proof -
  have "filter (\<lambda>y. y < x) (take (Suc k) s) = take (Suc k) s"
  proof (rule filter_True, rule ballI)
    fix y assume "y \<in> set (take (Suc k) s)"
    then obtain i where "i \<le> k" "y = s ! i" using assms(2) by (auto simp: in_set_conv_nth less_Suc_eq_le)
    with assms show "y < x" using sorted_nth_mono[of s i k] by simp
  qed
  then have "length (filter (\<lambda>y. y < x) (take (Suc k) s)) = Suc k" using assms(2) by simp
  moreover have "length (filter (\<lambda>y. y < x) (take (Suc k) s)) \<le> length (filter (\<lambda>y. y < x) s)"
    by (metis append_take_drop_id filter_append le_add1 length_append)
  ultimately show ?thesis by simp
qed

lemma sorted_nth_above:
  assumes "sorted s" "k < length s" "(x :: int) < s ! k"
  shows "length s - k \<le> length (filter (\<lambda>y. x < y) s)"
proof -
  have "filter (\<lambda>y. x < y) (drop k s) = drop k s"
  proof (rule filter_True, rule ballI)
    fix y assume "y \<in> set (drop k s)"
    then obtain i where "i < length s - k" "y = drop k s ! i" by (auto simp: in_set_conv_nth)
    then have "k + i < length s" "y = s ! (k + i)" using assms(2) by simp_all
    with assms show "x < y" using sorted_nth_mono[of s k "k + i"] by simp
  qed
  then have "length (filter (\<lambda>y. x < y) (drop k s)) = length s - k" by simp
  moreover have "length (filter (\<lambda>y. x < y) (drop k s)) \<le> length (filter (\<lambda>y. x < y) s)"
    by (metis append_take_drop_id filter_append le_add2 length_append)
  ultimately show ?thesis by simp
qed

lemma length_filter_sort: "length (filter p (sort xs)) = length (filter p xs)"
  by (metis mset_filter mset_sort size_mset)

lemma length_filter_mono: "(\<And>x. x \<in> set xs \<Longrightarrow> p x \<Longrightarrow> q x) \<Longrightarrow> length (filter p xs) \<le> length (filter q xs)"
  by (induction xs) auto

text \<open>Only half of the values can move the median out of a range.\<close>

lemma median_of_robust:
  assumes "2 * length (filter (\<lambda>x. \<not> (lo \<le> x \<and> x \<le> hi)) xs) < length xs"
  shows "lo \<le> median_of xs \<and> median_of xs \<le> hi"
proof -
  let ?s = "sort xs" and ?n = "length xs"
  have n: "0 < ?n" using assms by (cases xs) simp_all
  have out: "length (filter (\<lambda>x. x < lo) ?s) \<le> length (filter (\<lambda>x. \<not> (lo \<le> x \<and> x \<le> hi)) xs)"
    "length (filter (\<lambda>x. hi < x) ?s) \<le> length (filter (\<lambda>x. \<not> (lo \<le> x \<and> x \<le> hi)) xs)"
    unfolding length_filter_sort by (rule length_filter_mono, simp)+
  have low: "lo \<le> ?s ! k" if "k < ?n" "?n \<le> 2 * k + 2" for k
    using sorted_nth_below[of ?s k lo] that out(1) assms by (force simp: not_le)
  have high: "?s ! k \<le> hi" if "k < ?n" "2 * k \<le> ?n" for k
    using sorted_nth_above[of ?s k hi] that out(2) assms by (force simp: not_le)
  have mid: "(?n - 1) div 2 < ?n" "?n \<le> 2 * ((?n - 1) div 2) + 2" "2 * ((?n - 1) div 2) \<le> ?n" "?n div 2 < ?n"
    "?n \<le> 2 * (?n div 2) + 2" "2 * (?n div 2) \<le> ?n"
    using n by presburger+
  have "lo \<le> ?s ! ((?n - 1) div 2)" "?s ! ((?n - 1) div 2) \<le> hi" "lo \<le> ?s ! (?n div 2)" "?s ! (?n div 2) \<le> hi"
    by (rule low[OF mid(1,2)], rule high[OF mid(1,3)], rule low[OF mid(4,5)], rule high[OF mid(4,6)])
  then have "(2 * lo) div 2 \<le> median_of xs" "median_of xs \<le> (2 * hi) div 2"
    unfolding median_of_def by (intro zdiv_mono1; simp)+
  then show ?thesis by simp
qed

lemma median_of_bounds:
  "xs \<noteq> [] \<Longrightarrow> (\<And>x. x \<in> set xs \<Longrightarrow> lo \<le> x \<and> x \<le> hi) \<Longrightarrow> lo \<le> median_of xs \<and> median_of xs \<le> hi"
  by (rule median_of_robust) (simp add: filter_False)

text \<open>The median is monotone in every value.\<close>

lemma length_filter_all2:
  "list_all2 (\<le>) xs (ys :: int list) \<Longrightarrow> length (filter (\<lambda>y. y < c) ys) \<le> length (filter (\<lambda>x. x < c) xs)"
  by (induction rule: list_all2_induct) auto

lemma sort_nth_mono:
  assumes "list_all2 (\<le>) xs (ys :: int list)" "k < length xs"
  shows "sort xs ! k \<le> sort ys ! k"
proof (rule ccontr)
  assume n: "\<not> sort xs ! k \<le> sort ys ! k"
  define c where "c = sort xs ! k"
  have len: "length ys = length xs" using assms(1) by (simp add: list_all2_lengthD)
  have "k < length (filter (\<lambda>y. y < c) (sort ys))"
    by (rule sorted_nth_below) (use n assms(2) len in \<open>simp_all add: c_def\<close>)
  also have "\<dots> \<le> length (filter (\<lambda>x. x < c) xs)"
    using length_filter_all2[OF assms(1)] by (simp add: length_filter_sort)
  finally have "k < length (filter (\<lambda>x. x < c) xs)" .
  moreover have "length (sort xs) - k \<le> length (filter (\<lambda>y. c - 1 < y) (sort xs))"
    by (rule sorted_nth_above) (use assms(2) in \<open>simp_all add: c_def\<close>)
  moreover have "length (filter (\<lambda>x. x < c) xs) + length (filter (\<lambda>y. c - 1 < y) xs) = length xs"
    by (induction xs) auto
  ultimately show False using assms(2) by (simp add: length_filter_sort)
qed

lemma median_of_mono:
  assumes "list_all2 (\<le>) xs (ys :: int list)" "xs \<noteq> []"
  shows "median_of xs \<le> median_of ys"
proof -
  have len: "length ys = length xs" "0 < length xs" using list_all2_lengthD[OF assms(1)] assms(2) by auto
  then have "(length xs - 1) div 2 < length xs" "length xs div 2 < length xs" by presburger+
  then have "sort xs ! ((length xs - 1) div 2) \<le> sort ys ! ((length xs - 1) div 2)" "sort xs ! (length xs div 2) \<le> sort ys ! (length xs div 2)"
    using sort_nth_mono[OF assms(1)] by auto
  then show ?thesis unfolding median_of_def len(1) by (intro zdiv_mono1) simp_all
qed

lemma median_of_nonneg: "xs \<noteq> [] \<Longrightarrow> (\<And>x. x \<in> set xs \<Longrightarrow> 0 \<le> x) \<Longrightarrow> 0 \<le> median_of xs"
  using median_of_bounds[of xs 0 "Max (set xs)"] by simp

section \<open>Rounding\<close>

lemma toExpo_scale: "18 + expo < 0 \<Longrightarrow> toExpo v expo = v * 10 ^ nat (- (18 + expo))"
  by (simp add: toExpo_def)

lemma toExpo_round:
  assumes "0 \<le> 18 + expo"
  shows "toExpo v expo = (if v < 0 then -1 else 1) * ((2 * \<bar>v\<bar> + 10 ^ nat (18 + expo)) div (2 * 10 ^ nat (18 + expo)))"
  using assms by (simp add: toExpo_def Let_def big_div_nonneg mult.commute)

lemma half_up:
  fixes a d :: int
  assumes "0 < d"
  shows "2 * \<bar>((2 * a + d) div (2 * d)) * d - a\<bar> \<le> d"
proof -
  define x m where "x = (2 * a + d) div (2 * d) * d" and "m = (2 * a + d) mod (2 * d)"
  have "(2 * a + d) div (2 * d) * (2 * d) + (2 * a + d) mod (2 * d) = 2 * a + d" by (rule div_mult_mod_eq)
  then have "2 * x + m = 2 * a + d" by (simp add: x_def m_def)
  moreover have "0 \<le> m" "m < 2 * d" using assms by (simp_all add: m_def)
  ultimately have "2 * (x - a) = d - m" "- d \<le> d - m" "d - m \<le> d" by simp_all
  then have "2 * \<bar>x - a\<bar> \<le> d" by (cases "x \<le> a") simp_all
  then show ?thesis by (simp only: x_def)
qed

lemma toExpo_zero [simp]: "toExpo 0 expo = 0"
  by (cases "18 + expo < 0") (simp_all add: toExpo_def Let_def big_div_nonneg)

lemma toExpo_nonneg:
  assumes "0 \<le> v"
  shows "0 \<le> toExpo v expo"
  using assms by (cases "18 + expo < 0") (simp_all add: toExpo_scale toExpo_round pos_imp_zdiv_nonneg_iff)

lemma toExpo_error: "0 \<le> 18 + expo \<Longrightarrow> 2 * \<bar>toExpo v expo * 10 ^ nat (18 + expo) - v\<bar> \<le> 10 ^ nat (18 + expo)"
  using half_up[of "10 ^ nat (18 + expo)" "\<bar>v\<bar>"]
  by (auto simp: toExpo_round abs_if algebra_simps split: if_splits)

section \<open>Parsing\<close>

lemma decimal_value_append: "decimal_value (s @ t) = decimal_value s * 10 ^ length t + decimal_value t"
  by (induction t rule: rev_induct) (simp_all add: decimal_value_snoc algebra_simps flip: append_assoc, simp add: decimal_value_def)

lemma decimal_value_bound: "list_all is_digit s \<Longrightarrow> decimal_value s < 10 ^ length s"
proof (induction s rule: rev_induct)
  case (snoc c s)
  then have "(of_char c :: nat) \<le> 57" by (simp add: is_digit_def less_eq_char_def)
  with snoc show ?case by (simp add: decimal_value_snoc)
qed (simp add: decimal_value_def)

lemma decimal_value_zeros [simp]: "decimal_value (replicate n (CHR ''0'')) = 0"
  by (induction n) (simp_all add: replicate_append_same[symmetric] decimal_value_snoc, simp add: decimal_value_def)

lemma digit_not_space: "is_digit c \<Longrightarrow> \<not> is_space c"
  by (auto simp: is_digit_def is_space_def less_eq_char_def)

lemma trim_id: "s \<noteq> [] \<Longrightarrow> \<not> is_space (hd s) \<Longrightarrow> \<not> is_space (last s) \<Longrightarrow> trim s = s"
proof -
  assume s: "s \<noteq> []" "\<not> is_space (hd s)" "\<not> is_space (last s)"
  then have "dropWhile is_space s = s" by (cases s) auto
  moreover from s have "dropWhile is_space (rev s) = rev s" by (cases s rule: rev_cases) auto
  ultimately show ?thesis by (simp add: trim_def)
qed

lemma decimal_match_point:
  assumes "is_decimal w" "is_decimal f"
  shows "decimal_match (w @ CHR ''.'' # f) = Some (w, f)"
proof -
  have "\<not> is_digit (CHR ''.'')" by (simp add: is_digit_def less_eq_char_def)
  with assms have "takeWhile is_digit (w @ CHR ''.'' # f) = w" "dropWhile is_digit (w @ CHR ''.'' # f) = CHR ''.'' # f"
    by (auto simp: is_decimal_def list_all_iff takeWhile_append dropWhile_append takeWhile_eq_all_conv[THEN iffD2])
  with assms show ?thesis by (simp add: decimal_match_def is_decimal_def)
qed

lemma parse_point:
  assumes "is_decimal w" "is_decimal f"
  shows "parseDecimal (w @ CHR ''.'' # f) =
    Inr (decimal_value w * ONE + decimal_value (pad_end 18 (CHR ''0'') (take 18 f)))"
proof -
  have "hd (w @ CHR ''.'' # f) = hd w" "last (w @ CHR ''.'' # f) = last f" using assms by (auto simp: is_decimal_def)
  moreover have "is_digit (hd w)" "is_digit (last f)" using assms by (auto simp: is_decimal_def list_all_iff)
  ultimately have "trim (w @ CHR ''.'' # f) = w @ CHR ''.'' # f"
    using digit_not_space by (intro trim_id) auto
  then show ?thesis by (simp add: parseDecimal_def decimal_match_point[OF assms])
qed

lemma pad_end_value: "decimal_value (pad_end n (CHR ''0'') s) = decimal_value s * 10 ^ (n - length s)"
  by (simp add: pad_end_def decimal_value_append)

text \<open>Eighteen decimals are kept, the rest is cut off.\<close>

lemma parse_truncates:
  assumes "is_decimal w" "is_decimal f"
  shows "\<exists>v. parseDecimal (w @ CHR ''.'' # f) = Inr v \<and>
    v * 10 ^ length f \<le> decimal_value (w @ f) * 10 ^ 18 \<and> decimal_value (w @ f) * 10 ^ 18 < (v + 1) * 10 ^ length f"
proof -
  define k where "k = length f"
  define a b c where "a = decimal_value w" and "b = decimal_value (take 18 f)" and "c = decimal_value (drop 18 f)"
  define v where "v = a * 10 ^ 18 + b * 10 ^ (18 - k)"
  have digits: "list_all is_digit (drop 18 f)"
    using assms(2) by (auto simp: is_decimal_def list_all_iff dest: in_set_dropD)
  have f: "decimal_value f = b * 10 ^ (k - 18) + c"
    using decimal_value_append[of "take 18 f" "drop 18 f"] by (simp add: b_def c_def k_def)
  have c: "0 \<le> c" "c < 10 ^ (k - 18)"
    using decimal_value_nonneg[OF digits] decimal_value_bound[OF digits] by (simp_all add: c_def k_def)
  have parse: "parseDecimal (w @ CHR ''.'' # f) = Inr v"
    using parse_point[OF assms] by (simp add: v_def a_def b_def ONE_def pad_end_value k_def min_def)
  have total: "decimal_value (w @ f) = a * 10 ^ k + (b * 10 ^ (k - 18) + c)"
    by (simp add: decimal_value_append f flip: a_def k_def)
  have "v * 10 ^ k \<le> decimal_value (w @ f) * 10 ^ 18 \<and> decimal_value (w @ f) * 10 ^ 18 < (v + 1) * 10 ^ k"
  proof (cases "k \<le> 18")
    case True
    then have "(10 :: int) ^ (18 - k) * 10 ^ k = 10 ^ 18" by (simp flip: power_add)
    then have e: "b * 10 ^ (18 - k) * 10 ^ k = b * 10 ^ 18" by (metis mult.assoc)
    moreover have "c = 0" "10 ^ (k - 18) = (1 :: int)" using True c by simp_all
    ultimately show ?thesis unfolding total v_def distrib_right by (auto simp: e)
  next
    case False
    then have "(k - 18) + 18 = k" by simp
    then have "(10 :: int) ^ (k - 18) * 10 ^ 18 = 10 ^ k" by (metis power_add)
    then have *: "b * 10 ^ (k - 18) * 10 ^ 18 = b * 10 ^ k" by (metis mult.assoc)
    have "c * 10 ^ 18 < 10 ^ k"
      using c(2) False by (metis \<open>10 ^ (k - 18) * 10 ^ 18 = 10 ^ k\<close> mult_strict_right_mono zero_less_numeral zero_less_power)
    moreover have "10 ^ (18 - k) = (1 :: int)" "0 \<le> c * 10 ^ 18" using False c(1) by simp_all
    ultimately show ?thesis unfolding total v_def distrib_right * by simp
  qed
  with parse show ?thesis by (auto simp: k_def)
qed

section \<open>Properties\<close>

text \<open>The median of any non-empty list exists, does not depend on the order, and stays in any
  range that more than half of its values lie in: half of the publishers (or venues) are needed to move it.\<close>

theorem median_robust:
  assumes "2 * length (filter (\<lambda>x. \<not> (lo \<le> x \<and> x \<le> hi)) xs) < length xs" and "mset ys = mset xs"
  shows "\<exists>m. median xs = Inr m \<and> median ys = Inr m \<and> lo \<le> m \<and> m \<le> hi"
proof -
  have "xs \<noteq> []" using assms(1) by auto
  moreover from this assms(2) have "ys \<noteq> []" by auto
  ultimately show ?thesis using median_of_robust[OF assms(1)] median_of_mset[OF assms(2)] by (simp add: median_value)
qed

theorem median_robust_witness: "\<exists>m. median [10, 900, 11] = Inr m \<and> median [900, 11, 10] = Inr m \<and> 10 \<le> m \<and> m \<le> 11"
  by (rule median_robust) simp_all

text \<open>\<open>toExpo\<close> converts a price to an integer at an exponent with an error of at most half a
  unit, and exactly when the exponent has more than 18 decimals.\<close>

theorem to_expo_nearest:
  "if 0 \<le> 18 + expo then 2 * \<bar>toExpo v expo * 10 ^ nat (18 + expo) - v\<bar> \<le> 10 ^ nat (18 + expo)
   else toExpo v expo = v * 10 ^ nat (- (18 + expo))"
  using toExpo_error toExpo_scale by simp

text \<open>\<open>parseDecimal\<close> reads a decimal with a fraction exactly, cut off after 18 decimals: no
  floating point is involved.\<close>

theorem parse_decimal_truncates:
  assumes "is_decimal w" "is_decimal f"
  shows "\<exists>v. parseDecimal (w @ CHR ''.'' # f) = Inr v \<and>
    v * 10 ^ length f \<le> decimal_value (w @ f) * 10 ^ 18 \<and> decimal_value (w @ f) * 10 ^ 18 < (v + 1) * 10 ^ length f"
  by (rule parse_truncates) (rule assms)+

theorem parse_decimal_truncates_witness:
  "\<exists>v. parseDecimal ''63012.5'' = Inr v \<and> v * 10 ^ 1 \<le> decimal_value ''630125'' * 10 ^ 18 \<and>
     decimal_value ''630125'' * 10 ^ 18 < (v + 1) * 10 ^ 1"
  using parse_decimal_truncates[of "''63012''" "''5''"]
  by (simp add: is_decimal_def is_digit_def less_eq_char_def)

end
