(* ===== verification/Aggregate.thy ===== *)
theory Aggregate
  imports Fixed_Point Observation Price_Update "HOL-Library.Product_Lexorder"
begin

text \<open>
  \<open>apps/publisher/src/aggregate.ts\<close> and \<open>leaderOrder.ts\<close>: the messages of a tick from the verified
  observations, and the order in which publishers lead it.

  Lemmas: the aggregate does not depend on the order of the observations, a price stays in the range of
  the honest observations, and the moving average between its last value and the new one; the leader
  order is a permutation of the publishers.
\<close>

section \<open>The code\<close>

record FeedState =
  fs_tickMs :: int
  fs_emaPrice :: int
  fs_emaConf :: int

definition emaTauMs :: "int \<Rightarrow> int" where
  "emaTauMs halfLifeMs = big_div (halfLifeMs * 1000000) 693147"

definition nextEma :: "int option \<Rightarrow> int \<Rightarrow> int \<Rightarrow> int \<Rightarrow> int result" where
  "nextEma previous v dtMs tauMs =
    (case previous of
       None \<Rightarrow> Inr v
     | Some p \<Rightarrow>
         if dtMs + tauMs = 0 then Inl (RangeError ''Division by zero'')
         else Inr (p + big_div ((v - p) * dtMs) (dtMs + tauMs)))"

definition feed_entries :: "hex \<Rightarrow> Observation list \<Rightarrow> ObservationEntry list" where
  "feed_entries feed observations = concat (map (\<lambda>ob. filter (\<lambda>e. oe_feedId e = feed) (o_entries ob)) observations)"

text \<open>One iteration of the loop over the feeds; \<open>None\<close> is \<open>continue\<close>.\<close>

definition aggregateFeed ::
  "FeedConfig \<Rightarrow> Observation list \<Rightarrow> int \<Rightarrow> int \<Rightarrow> (hex \<Rightarrow> FeedState option) \<Rightarrow> PriceMessage option result" where
  "aggregateFeed feed observations q tickMs state =
    (let entries = feed_entries (feed_id feed) observations
     in if int (length entries) < q then Inr None
        else
          ebind (median (map oe_price entries)) (\<lambda>price.
          ebind (median (map oe_conf entries)) (\<lambda>conf.
          let previous = state (feed_id feed);
              dt = (case previous of None \<Rightarrow> 0 | Some s \<Rightarrow> tickMs - fs_tickMs s);
              tau = emaTauMs (fb_emaHalfLifeMs (feed_base feed))
          in ebind (nextEma (map_option fs_emaPrice previous) price dt tau) (\<lambda>emaPrice.
             ebind (nextEma (map_option fs_emaConf previous) conf dt tau) (\<lambda>emaConf.
             ebind (median (map oe_sourceTimeMs entries)) (\<lambda>sourceTimeMs.
             Inr (Some \<lparr>m_feedId = feed_id feed, m_price = price, m_conf = conf,
               m_expo = fb_expo (feed_base feed),
               m_prevPublishTimeMs = (case previous of None \<Rightarrow> 0 | Some s \<Rightarrow> fs_tickMs s),
               m_emaPrice = emaPrice, m_emaConf = emaConf, m_sourceTimeMs = sourceTimeMs,
               m_numPublishers = int (length entries)\<rparr>)))))))"

definition aggregateMessages ::
  "CommitteeConfig \<Rightarrow> Observation list \<Rightarrow> int \<Rightarrow> int \<Rightarrow> (hex \<Rightarrow> FeedState option) \<Rightarrow> PriceMessage list result" where
  "aggregateMessages config observations q tickMs state =
    ebind (emap (\<lambda>feed. aggregateFeed feed observations q tickMs state) (c_feeds config)) (\<lambda>ms.
    Inr (List.map_filter (\<lambda>m. m) ms))"

definition withinTolerance :: "int \<Rightarrow> int \<Rightarrow> int \<Rightarrow> bool" where
  "withinTolerance aggregate own toleranceBps \<longleftrightarrow> abs_big (aggregate - own) * 10000 \<le> toleranceBps * abs_big own"

definition NO_ANCHOR :: hex where
  "NO_ANCHOR = ''0x'' @ replicate 64 (CHR ''0'')"

definition leader_key :: "crypto \<Rightarrow> int \<Rightarrow> bytes \<Rightarrow> int \<Rightarrow> hex" where
  "leader_key C tickMs anchor i =
    bytesToHex (ckbHash C [DOMAIN_LEADER_ORDER, le_bytes 8 (tickMs mod 2 ^ 64), anchor, [word_of_int i]])"

definition leaderOrder :: "crypto \<Rightarrow> int \<Rightarrow> hex \<Rightarrow> nat \<Rightarrow> int list result" where
  "leaderOrder C tickMs anchorHash n =
    ebind (hexToBytes anchorHash) (\<lambda>anchor.
    Inr (sort_key (\<lambda>i. (leader_key C tickMs anchor i, i)) (index_range n)))"

definition slotOpensAt :: "int \<Rightarrow> int \<Rightarrow> int \<Rightarrow> int" where
  "slotOpensAt tickMs rank observationDeadlineMs = tickMs + rank * observationDeadlineMs"

section \<open>The moving average\<close>

lemma big_div_bounds: "0 < b \<Longrightarrow> \<bar>big_div a b\<bar> * b \<le> \<bar>a\<bar>"
proof -
  assume b: "0 < b"
  have "\<bar>big_div a b\<bar> = \<bar>a\<bar> div b"
    using b by (cases "a = 0") (simp_all add: big_div_def abs_mult pos_imp_zdiv_nonneg_iff)
  moreover have "\<bar>a\<bar> div b * b \<le> \<bar>a\<bar>" using b by (metis minus_mod_eq_div_mult abs_ge_zero diff_le_eq le_add_same_cancel1 pos_mod_sign)
  ultimately show ?thesis by simp
qed

lemma big_div_sign: "0 < b \<Longrightarrow> (0 \<le> a \<longrightarrow> 0 \<le> big_div a b) \<and> (a \<le> 0 \<longrightarrow> big_div a b \<le> 0)"
  by (auto simp: big_div_def sgn_if pos_imp_zdiv_nonneg_iff)

text \<open>The average moves towards the new value and never past it.\<close>

lemma ema_step:
  assumes "0 \<le> dt" "0 < tau"
  shows "min p v \<le> p + big_div ((v - p) * dt) (dt + tau) \<and> p + big_div ((v - p) * dt) (dt + tau) \<le> max p v"
proof -
  let ?d = "big_div ((v - p) * dt) (dt + tau)"
  have pos: "0 < dt + tau" using assms by simp
  have "\<bar>?d\<bar> * (dt + tau) \<le> \<bar>v - p\<bar> * dt" using big_div_bounds[OF pos, of "(v - p) * dt"] assms by (simp add: abs_mult)
  also have "\<dots> \<le> \<bar>v - p\<bar> * (dt + tau)" using assms by (intro mult_left_mono) simp_all
  finally have bound: "\<bar>?d\<bar> \<le> \<bar>v - p\<bar>" using pos by simp
  show ?thesis
  proof (cases "p \<le> v")
    case True
    with assms have "0 \<le> ?d" using big_div_sign[OF pos] by simp
    with True bound show ?thesis by simp
  next
    case False
    with assms have "?d \<le> 0" using big_div_sign[OF pos] by (simp add: mult_nonpos_nonneg)
    with False bound show ?thesis by simp
  qed
qed

lemma nextEma_between:
  assumes "0 \<le> dt" "0 < tau"
  shows "\<exists>e. nextEma p v dt tau = Inr e \<and> (case p of None \<Rightarrow> e = v | Some q \<Rightarrow> min q v \<le> e \<and> e \<le> max q v)"
  using assms ema_step by (cases p) (simp_all add: nextEma_def)

lemma emaTau_pos: "0 < h \<Longrightarrow> 0 < emaTauMs h"
  by (simp add: emaTauMs_def big_div_nonneg pos_imp_zdiv_pos_iff)

section \<open>Aggregation\<close>

lemma feed_entries_mset: "mset obs = mset obs' \<Longrightarrow> mset (feed_entries f obs) = mset (feed_entries f obs')"
proof -
  have "mset (feed_entries f os) = (\<Sum>ob \<in># mset os. mset (filter (\<lambda>e. oe_feedId e = f) (o_entries ob)))" for os
    by (induction os) (simp_all add: feed_entries_def)
  then show "mset obs = mset obs' \<Longrightarrow> ?thesis" by simp
qed

lemma median_mset: "mset xs = mset ys \<Longrightarrow> median xs = median ys"
  by (metis median_value median_of_mset mset_zero_iff)

lemma aggregateFeed_mset:
  assumes "mset obs = mset obs'"
  shows "aggregateFeed feed obs q t st = aggregateFeed feed obs' q t st"
proof -
  note e = feed_entries_mset[OF assms, of "feed_id feed"]
  have "median (map g (feed_entries (feed_id feed) obs)) = median (map g (feed_entries (feed_id feed) obs'))" for g
    by (rule median_mset) (simp add: e)
  with mset_eq_length[OF e] show ?thesis by (simp add: aggregateFeed_def Let_def)
qed

lemma aggregate_message:
  assumes "aggregateMessages config obs q t st = Inr ms" "m \<in> set ms"
  obtains feed where "feed \<in> set (c_feeds config)" "aggregateFeed feed obs q t st = Inr (Some m)"
proof -
  from assms(1) obtain os where os: "emap (\<lambda>feed. aggregateFeed feed obs q t st) (c_feeds config) = Inr os"
      "ms = List.map_filter (\<lambda>m. m) os"
    by (auto simp: aggregateMessages_def ebind_eq_Inr)
  with assms(2) have "Some m \<in> set os" by (auto simp: List.map_filter_def)
  from emap_member[OF os(1) this] that show ?thesis by blast
qed

lemma aggregateFeed_Some:
  assumes "aggregateFeed feed obs q t st = Inr (Some m)"
  shows "m_feedId m = feed_id feed" "q \<le> int (length (feed_entries (feed_id feed) obs))"
    "feed_entries (feed_id feed) obs \<noteq> []"
    "m_price m = median_of (map oe_price (feed_entries (feed_id feed) obs))"
    "m_conf m = median_of (map oe_conf (feed_entries (feed_id feed) obs))"
    "m_sourceTimeMs m = median_of (map oe_sourceTimeMs (feed_entries (feed_id feed) obs))"
    "m_numPublishers m = int (length (feed_entries (feed_id feed) obs))"
    "m_prevPublishTimeMs m = (case st (feed_id feed) of None \<Rightarrow> 0 | Some s \<Rightarrow> fs_tickMs s)"
    "nextEma (map_option fs_emaPrice (st (feed_id feed))) (m_price m)
       (case st (feed_id feed) of None \<Rightarrow> 0 | Some s \<Rightarrow> t - fs_tickMs s) (emaTauMs (fb_emaHalfLifeMs (feed_base feed))) = Inr (m_emaPrice m)"
  using assms by (auto simp: aggregateFeed_def Let_def ebind_eq_Inr median_eq_Inr split: if_splits)

section \<open>The leader order\<close>

lemma NO_ANCHOR_bytes: "NO_ANCHOR = bytesToHex (replicate 32 0)"
  by code_simp

lemma leader_order_props:
  assumes "leaderOrder C t a n = Inr order"
  shows "distinct order" "set order = {0..<int n}" "length order = n"
  using assms by (auto simp: leaderOrder_def ebind_eq_Inr)

section \<open>Properties\<close>

text \<open>The entries of the observations that are honest, as one publisher gives at most one entry for a feed.\<close>

definition one_entry_each :: "Observation list \<Rightarrow> bool" where
  "one_entry_each obs \<longleftrightarrow> distinct (map o_publisherIndex obs) \<and>
    (\<forall>ob \<in> set obs. distinct (map oe_feedId (o_entries ob)))"

lemma one_match: "distinct (map g es) \<Longrightarrow> length (filter (\<lambda>e. g e = f) es) \<le> 1"
proof (induction es)
  case (Cons e es)
  then have "filter (\<lambda>e. g e = f) es = []" if "g e = f"
    using that by (auto simp: filter_empty_conv image_iff)
  with Cons show ?case by auto
qed simp

lemma entries_of_faulty:
  assumes "one_entry_each obs"
    and honest: "\<And>ob e. ob \<in> set obs \<Longrightarrow> o_publisherIndex ob \<notin> faulty \<Longrightarrow> e \<in> set (o_entries ob) \<Longrightarrow> oe_feedId e = f \<Longrightarrow> p e"
    and "finite faulty"
  shows "length (filter (\<lambda>e. \<not> p e) (feed_entries f obs)) \<le> card faulty"
  using assms
proof (induction obs arbitrary: faulty)
  case (Cons ob obs)
  let ?es = "filter (\<lambda>e. oe_feedId e = f) (o_entries ob)"
  have "length (filter (\<lambda>e. \<not> p e) ?es) \<le> (if o_publisherIndex ob \<in> faulty then 1 else 0)"
  proof (cases "o_publisherIndex ob \<in> faulty")
    case True
    from Cons.prems(1) have "distinct (map oe_feedId (o_entries ob))" by (simp add: one_entry_each_def)
    then have "length ?es \<le> 1" by (rule one_match)
    with True show ?thesis using le_trans[OF length_filter_le[of _ ?es]] by simp
  next
    case False
    with Cons.prems(2) show ?thesis by (auto simp: filter_empty_conv)
  qed
  moreover have "length (filter (\<lambda>e. \<not> p e) (feed_entries f obs)) \<le> card (faulty - {o_publisherIndex ob})"
  proof (rule Cons.IH)
    show "one_entry_each obs" using Cons.prems(1) by (simp add: one_entry_each_def)
    fix ob' e assume "ob' \<in> set obs" "o_publisherIndex ob' \<notin> faulty - {o_publisherIndex ob}" "e \<in> set (o_entries ob')" "oe_feedId e = f"
    moreover from this Cons.prems(1) have "o_publisherIndex ob' \<noteq> o_publisherIndex ob"
      by (auto simp: one_entry_each_def image_iff)
    ultimately show "p e" using Cons.prems(2) by auto
  qed (use Cons.prems in simp)
  moreover have "card (faulty - {o_publisherIndex ob}) + (if o_publisherIndex ob \<in> faulty then 1 else 0) = card faulty"
  proof (cases "o_publisherIndex ob \<in> faulty")
    case True
    with Cons.prems(3) have "Suc (card (faulty - {o_publisherIndex ob})) = card faulty" by (rule card_Suc_Diff1)
    with True show ?thesis by (simp only: if_True Suc_eq_plus1)
  qed simp
  ultimately show ?case by (simp add: feed_entries_def)
qed (simp add: feed_entries_def)

lemma faulty_minority:
  assumes "quorum s \<le> int k" "3 * card faulty < length (pubkeys s)"
  shows "2 * card faulty < k"
  using assms by (simp add: quorum_def)

lemma aggregate_robust:
  assumes "aggregateMessages config obs (quorum s) t st = Inr ms" "m \<in> set ms"
    and "one_entry_each obs" and "finite faulty" "3 * card faulty < length (pubkeys s)"
    and honest: "\<And>ob e. ob \<in> set obs \<Longrightarrow> o_publisherIndex ob \<notin> faulty \<Longrightarrow> e \<in> set (o_entries ob) \<Longrightarrow>
      oe_feedId e = m_feedId m \<Longrightarrow> lo \<le> oe_price e \<and> oe_price e \<le> hi"
  shows "lo \<le> m_price m \<and> m_price m \<le> hi \<and> quorum s \<le> m_numPublishers m"
proof -
  obtain feed where feed: "aggregateFeed feed obs (quorum s) t st = Inr (Some m)"
    using aggregate_message[OF assms(1,2)] by metis
  note m = aggregateFeed_Some[OF feed]
  let ?es = "feed_entries (m_feedId m) obs"
  have "length (filter (\<lambda>e. \<not> (lo \<le> oe_price e \<and> oe_price e \<le> hi)) ?es) \<le> card faulty"
    by (rule entries_of_faulty[OF assms(3) honest assms(4)])
  moreover have "2 * card faulty < length ?es" using m(1,2) assms(5) by (intro faulty_minority) simp_all
  ultimately have "2 * length (filter (\<lambda>x. \<not> (lo \<le> x \<and> x \<le> hi)) (map oe_price ?es)) < length (map oe_price ?es)"
    by (simp add: filter_map o_def)
  from median_of_robust[OF this] m show ?thesis by simp
qed

definition demo_observation :: "int \<Rightarrow> int \<Rightarrow> Observation" where
  "demo_observation i p = \<lparr>o_publisherSetTypeHash = bytesToHex (replicate 32 9), o_setIndex = 1, o_tickMs = 600000,
     o_configHash = bytesToHex (replicate 32 4), o_publisherIndex = i,
     o_entries = [\<lparr>oe_feedId = feedId demo_crypto ''Crypto.CKB/USDT'', oe_price = p, oe_conf = 3, oe_sourceTimeMs = 599999\<rparr>]\<rparr>"

text \<open>The second publisher reports a price far off.\<close>

definition demo_observations :: "Observation list" where
  "demo_observations = [demo_observation 0 500, demo_observation 1 900000, demo_observation 3 502]"

lemma demo_feed_ids:
  "feedId demo_crypto ''Crypto.CKB/USDT.TWAP60'' \<noteq> feedId demo_crypto ''Crypto.CKB/USDT''"
  using demo_feed_order by (auto simp: feedId_def compareBytes_neg)

lemma demo_aggregate:
  "\<exists>m. aggregateMessages demo_config demo_observations (quorum (demo_set 1)) 600000 (\<lambda>_. None) = Inr [m] \<and>
     m_feedId m = feedId demo_crypto ''Crypto.CKB/USDT''"
  using demo_feed_ids[symmetric]
  by (simp add: aggregateMessages_def aggregateFeed_def demo_config_fields demo_observations_def demo_observation_def
      feed_entries_def demo_base_def quorum_def median_def Let_def nextEma_def List.map_filter_def)

text \<open>Claim C10: what a tick publishes is robust: if fewer than a third of the publishers of the set are faulty,
  every message that \<open>aggregateMessages\<close> builds from observations of distinct publishers with the set's
  quorum has a price within the range of the honest observations of its feed, and it counts a quorum of
  publishers.\<close>

theorem aggregate_price_robust:
  assumes "aggregateMessages config obs (quorum s) t st = Inr ms" "m \<in> set ms"
    and "one_entry_each obs" and "finite faulty" "3 * card faulty < length (pubkeys s)"
    and honest: "\<And>ob e. ob \<in> set obs \<Longrightarrow> o_publisherIndex ob \<notin> faulty \<Longrightarrow> e \<in> set (o_entries ob) \<Longrightarrow>
      oe_feedId e = m_feedId m \<Longrightarrow> lo \<le> oe_price e \<and> oe_price e \<le> hi"
  shows "lo \<le> m_price m \<and> m_price m \<le> hi \<and> quorum s \<le> m_numPublishers m"
  using aggregate_robust[OF assms] by simp

theorem aggregate_price_robust_witness:
  "\<exists>m. aggregateMessages demo_config demo_observations (quorum (demo_set 1)) 600000 (\<lambda>_. None) = Inr [m] \<and>
     500 \<le> m_price m \<and> m_price m \<le> 502 \<and> 3 \<le> m_numPublishers m"
proof -
  obtain m where m: "aggregateMessages demo_config demo_observations (quorum (demo_set 1)) 600000 (\<lambda>_. None) = Inr [m]"
      "m_feedId m = feedId demo_crypto ''Crypto.CKB/USDT''"
    using demo_aggregate by blast
  have "500 \<le> m_price m \<and> m_price m \<le> 502 \<and> quorum (demo_set 1) \<le> m_numPublishers m"
    by (rule aggregate_price_robust[OF m(1), where faulty = "{1}"])
      (auto simp: one_entry_each_def demo_observations_def demo_observation_def)
  with m(1) show ?thesis by (simp add: demo_bundle_shape)
qed

text \<open>The messages do not depend on the order in which the observations arrived: every publisher
  that holds the same observations and the same finalized state derives the same messages.\<close>

theorem aggregate_order_independent:
  assumes "mset obs = mset obs'"
  shows "aggregateMessages config obs q t st = aggregateMessages config obs' q t st"
  by (simp add: aggregateMessages_def aggregateFeed_mset[OF assms])

theorem aggregate_order_independent_witness:
  "aggregateMessages demo_config demo_observations 3 600000 (\<lambda>_. None) =
   aggregateMessages demo_config (rev demo_observations) 3 600000 (\<lambda>_. None)"
  by (rule aggregate_order_independent) simp

text \<open>The moving average of a message lies between its last finalized value and the new price (and
  equals the price for a new feed), and the message names the time of that last value.\<close>

theorem aggregate_ema_bounded:
  assumes "aggregateMessages config obs q t st = Inr ms" "m \<in> set ms"
    and "\<And>feed. feed \<in> set (c_feeds config) \<Longrightarrow> 0 < fb_emaHalfLifeMs (feed_base feed)"
    and "case st (m_feedId m) of None \<Rightarrow> True | Some s \<Rightarrow> fs_tickMs s \<le> t"
  shows "case st (m_feedId m) of
      None \<Rightarrow> m_emaPrice m = m_price m \<and> m_prevPublishTimeMs m = 0
    | Some s \<Rightarrow> min (fs_emaPrice s) (m_price m) \<le> m_emaPrice m \<and> m_emaPrice m \<le> max (fs_emaPrice s) (m_price m) \<and>
        m_prevPublishTimeMs m = fs_tickMs s"
proof -
  obtain feed where f: "feed \<in> set (c_feeds config)" and feed: "aggregateFeed feed obs q t st = Inr (Some m)"
    by (rule aggregate_message[OF assms(1,2)])
  note m = aggregateFeed_Some[OF feed]
  have tau: "0 < emaTauMs (fb_emaHalfLifeMs (feed_base feed))" by (rule emaTau_pos) (rule assms(3)[OF f])
  show ?thesis
  proof (cases "st (m_feedId m)")
    case None
    with m(1,8,9) show ?thesis by (simp add: nextEma_def)
  next
    case (Some prev)
    with assms(4) have "0 \<le> t - fs_tickMs prev" by simp
    from nextEma_between[OF this tau, of "Some (fs_emaPrice prev)" "m_price m"] m(1,8,9) Some show ?thesis by auto
  qed
qed

theorem aggregate_ema_bounded_witness:
  "\<exists>m. aggregateMessages demo_config demo_observations 3 600000 (\<lambda>_. Some \<lparr>fs_tickMs = 598000, fs_emaPrice = 100, fs_emaConf = 5\<rparr>) = Inr [m] \<and>
     100 \<le> m_emaPrice m \<and> m_emaPrice m \<le> 502 \<and> m_prevPublishTimeMs m = 598000"
proof -
  let ?st = "\<lambda>_ :: hex. Some \<lparr>fs_tickMs = 598000, fs_emaPrice = 100, fs_emaConf = 5\<rparr>"
  have "\<exists>m. aggregateMessages demo_config demo_observations 3 600000 ?st = Inr [m] \<and> m_price m = 502"
    using demo_feed_ids[symmetric]
    by (simp add: aggregateMessages_def aggregateFeed_def demo_config_fields demo_observations_def demo_observation_def
        feed_entries_def demo_base_def median_def Let_def nextEma_def List.map_filter_def emaTauMs_def big_div_nonneg)
  then obtain m where m: "aggregateMessages demo_config demo_observations 3 600000 ?st = Inr [m]" "m_price m = 502" by blast
  have "0 < fb_emaHalfLifeMs (feed_base feed)" if "feed \<in> set (c_feeds demo_config)" for feed
    using that by (auto simp: demo_config_fields demo_base_def)
  from aggregate_ema_bounded[OF m(1) _ this, of m] m show ?thesis by auto
qed

text \<open>The leader order of a tick is a permutation of the publishers, so every publisher gets its
  slot, and it is the same for everyone who knows the anchor.\<close>

theorem leader_order_permutation:
  assumes "leaderOrder C t anchor n = Inr order"
  shows "mset order = mset (index_range n) \<and> sorted (map (\<lambda>i. (leader_key C t (hex_pairs (drop 2 anchor)) i, i)) order)"
  using assms by (auto simp: leaderOrder_def ebind_eq_Inr hexToBytes_def split: if_splits)

theorem leader_order_permutation_witness:
  "\<exists>order. leaderOrder demo_crypto 600000 NO_ANCHOR 4 = Inr order \<and> mset order = mset (index_range 4)"
proof -
  obtain order where order: "leaderOrder demo_crypto 600000 NO_ANCHOR 4 = Inr order"
    by (simp add: leaderOrder_def NO_ANCHOR_bytes)
  from leader_order_permutation[OF order] order show ?thesis by simp
qed

end
