(* ===== verification/Twap.thy ===== *)
theory Twap
  imports Aggregate
begin

text \<open>
  \<open>apps/publisher/src/twap.ts\<close>: the time-weighted average of a source feed's finalized prices over a window
  that ends two ticks before the boundary.

  Lemmas: the average lies between the prices of its window, the window holds only ticks that are two
  periods old, and the result depends on nothing outside the window, so two publishers that are synced
  through its end agree; the points of a feed are its entries in order; merging keeps the entries in order.
\<close>

section \<open>The code\<close>

record TwapPoint =
  tp_tickMs :: int
  tp_price :: int
  tp_conf :: int
  tp_expo :: "int option"

definition twapWindow :: "int \<Rightarrow> int \<Rightarrow> int \<Rightarrow> int \<times> int" where
  "twapWindow tickMs windowMs tickPeriodMs =
    (let to = tickMs - 2 * tickPeriodMs in (to - windowMs, to))"

text \<open>A TWAP feed with its base and its rule. \<open>tickMs % 0n\<close> throws; a valid config has positive periods.\<close>

fun twap_of :: "FeedConfig \<Rightarrow> (FeedBase \<times> TwapSpec) option" where
  "twap_of (TwapFeed b t stray) = Some (b, t)"
| "twap_of (MarketFeed b m) = None"

definition dueTwapFeeds :: "CommitteeConfig \<Rightarrow> int \<Rightarrow> (FeedBase \<times> TwapSpec) list result" where
  "dueTwapFeeds config tickMs =
    ebind (emap (\<lambda>(b, t).
        if tw_everyMs t = 0 then Inl (RangeError ''Division by zero'')
        else Inr (if big_rem tickMs (tw_everyMs t) = 0 then [(b, t)] else []))
      (List.map_filter twap_of (c_feeds config))) (\<lambda>fs. Inr (concat fs))"

definition twap_points :: "FeedBase \<Rightarrow> int \<times> int \<Rightarrow> TwapPoint list \<Rightarrow> TwapPoint list" where
  "twap_points b w points =
    filter (\<lambda>p. tp_tickMs p > fst w \<and> tp_tickMs p \<le> snd w \<and> (tp_expo p = None \<or> tp_expo p = Some (fb_expo b))) points"

definition computeTwap ::
  "FeedBase \<Rightarrow> TwapSpec \<Rightarrow> TwapPoint list \<Rightarrow> int \<Rightarrow> int \<Rightarrow> int option \<Rightarrow> ObservationEntry option result" where
  "computeTwap b t points tickMs tickPeriodMs latestFinalizedMs =
    (let w = twapWindow tickMs (tw_windowMs t) tickPeriodMs
     in if (case latestFinalizedMs of None \<Rightarrow> True | Some l \<Rightarrow> l < snd w) then Inr None
        else
          let window = twap_points b w points
          in if int (length window) < tw_minTicks t \<or> length window = 0 then Inr None
             else
               let count = int (length window);
                   price = big_div (foldl (\<lambda>s p. s + tp_price p) 0 window) count
               in if price \<le> 0 then Inr None
                  else
                    let meanConf = big_div (foldl (\<lambda>s p. s + tp_conf p) 0 window) count
                    in ebind (median (map tp_price window)) (\<lambda>mid.
                       ebind (median (map (\<lambda>p. abs_big (tp_price p - mid)) window)) (\<lambda>mad.
                       let newest = foldl (\<lambda>m p. if tp_tickMs p > m then tp_tickMs p else m) 0 window
                       in Inr (Some \<lparr>oe_feedId = fb_feedId b, oe_price = price,
                            oe_conf = (if meanConf > mad then meanConf else mad), oe_sourceTimeMs = newest\<rparr>))))"

text \<open>The comparator never answers 0, so the order of two entries of one feed is not determined; the
  entries of a tick have different feeds.\<close>

definition mergeEntries :: "ObservationEntry list \<Rightarrow> ObservationEntry list \<Rightarrow> ObservationEntry list" where
  "mergeEntries a b = sort_key (\<lambda>e. toLowerCase (oe_feedId e)) (a @ b)"

text \<open>A \<open>Map\<close> is the list of its entries in insertion order.\<close>

fun map_push :: "'k \<Rightarrow> 'v \<Rightarrow> ('k \<times> 'v list) list \<Rightarrow> ('k \<times> 'v list) list" where
  "map_push k v [] = [(k, [v])]"
| "map_push k v ((k', vs) # m) = (if k' = k then (k', vs @ [v]) # m else (k', vs) # map_push k v m)"

record FeedPoint =
  fp_feedId :: hex
  fp_price :: int
  fp_conf :: int
  fp_expo :: "int option"

definition pointsByFeed :: "(int \<times> FeedPoint list) list \<Rightarrow> (hex \<times> TwapPoint list) list" where
  "pointsByFeed updates =
    foldl (\<lambda>out (tick, entries).
      foldl (\<lambda>out e. map_push (toLowerCase (fp_feedId e))
          \<lparr>tp_tickMs = tick, tp_price = fp_price e, tp_conf = fp_conf e, tp_expo = fp_expo e\<rparr> out) out entries)
      [] updates"

section \<open>Lemmas\<close>

definition points_of :: "(hex \<times> TwapPoint list) list \<Rightarrow> hex \<Rightarrow> TwapPoint list" where
  "points_of m k = (case map_of m k of None \<Rightarrow> [] | Some ps \<Rightarrow> ps)"

lemma points_of_push: "points_of (map_push k v m) k' = (if k = k' then points_of m k' @ [v] else points_of m k')"
  by (induction k v m rule: map_push.induct) (auto simp: points_of_def)

lemma points_of_entries:
  "points_of (foldl (\<lambda>out e. map_push (toLowerCase (fp_feedId e))
      \<lparr>tp_tickMs = tick, tp_price = fp_price e, tp_conf = fp_conf e, tp_expo = fp_expo e\<rparr> out) m es) k =
    points_of m k @ map (\<lambda>e. \<lparr>tp_tickMs = tick, tp_price = fp_price e, tp_conf = fp_conf e, tp_expo = fp_expo e\<rparr>)
      (filter (\<lambda>e. toLowerCase (fp_feedId e) = k) es)"
  by (induction es arbitrary: m) (auto simp: points_of_push)

lemma points_of_updates:
  "points_of (foldl (\<lambda>out (tick, entries).
      foldl (\<lambda>out e. map_push (toLowerCase (fp_feedId e))
          \<lparr>tp_tickMs = tick, tp_price = fp_price e, tp_conf = fp_conf e, tp_expo = fp_expo e\<rparr> out) out entries)
      m updates) k =
    points_of m k @ concat (map (\<lambda>(tick, entries).
      map (\<lambda>e. \<lparr>tp_tickMs = tick, tp_price = fp_price e, tp_conf = fp_conf e, tp_expo = fp_expo e\<rparr>)
        (filter (\<lambda>e. toLowerCase (fp_feedId e) = k) entries)) updates)"
  by (induction updates arbitrary: m) (auto simp: points_of_entries)

lemma foldl_sum: "foldl (\<lambda>s p. s + f p) (a :: int) xs = a + sum_list (map f xs)"
  by (induction xs arbitrary: a) simp_all

lemma foldl_newest:
  "foldl (\<lambda>m p. if f p > m then f p else m) (a :: int) xs = fold max (map f xs) a"
  by (induction xs arbitrary: a) (auto simp: max_def)

lemma fold_max_Max: "fold max xs a = Max (insert a (set xs))" for a :: int
  using Max.set_eq_fold[of a xs] by simp

lemma sum_list_between:
  "(\<And>x. x \<in> set xs \<Longrightarrow> lo \<le> x \<and> x \<le> (hi :: int)) \<Longrightarrow> int (length xs) * lo \<le> sum_list xs \<and> sum_list xs \<le> int (length xs) * hi"
  by (induction xs) (force simp: algebra_simps)+

lemma mean_between:
  assumes "xs \<noteq> []" "\<And>x. x \<in> set xs \<Longrightarrow> lo \<le> x \<and> x \<le> (hi :: int)"
  shows "lo \<le> sum_list xs div int (length xs) \<and> sum_list xs div int (length xs) \<le> hi"
proof -
  let ?n = "int (length xs)"
  have n: "0 < ?n" using assms(1) by simp
  have s: "?n * lo \<le> sum_list xs" "sum_list xs \<le> ?n * hi" using sum_list_between[OF assms(2)] by auto
  have "?n * lo div ?n \<le> sum_list xs div ?n" "sum_list xs div ?n \<le> ?n * hi div ?n"
    using n s by (intro zdiv_mono1; simp)+
  with n show ?thesis by simp
qed

lemma big_div_truncates: "0 < b \<Longrightarrow> 0 < big_div a b \<Longrightarrow> big_div a b = a div b"
  by (cases "0 \<le> a") (use big_div_sign[of b a] big_div_nonneg[of a b] in auto)

lemma computeTwap_Some:
  assumes "computeTwap b t points tickMs p latest = Inr (Some e)"
  defines "w \<equiv> twapWindow tickMs (tw_windowMs t) p"
  defines "win \<equiv> twap_points b w points"
  shows "oe_feedId e = fb_feedId b" "win \<noteq> []" "tw_minTicks t \<le> int (length win)"
    "oe_price e = sum_list (map tp_price win) div int (length win)" "0 < oe_price e"
    "big_div (sum_list (map tp_conf win)) (int (length win)) \<le> oe_conf e"
    "median_of (map (\<lambda>q. \<bar>tp_price q - median_of (map tp_price win)\<bar>) win) \<le> oe_conf e"
    "oe_sourceTimeMs e = fold max (map tp_tickMs win) 0"
    "\<exists>l. latest = Some l \<and> snd w \<le> l"
proof -
  have neq: "(median (map tp_price win) = Inr m) = (win \<noteq> [] \<and> m = median_of (map tp_price win))"
    "(median (map (\<lambda>p. \<bar>tp_price p - k\<bar>) win) = Inr m) = (win \<noteq> [] \<and> m = median_of (map (\<lambda>p. \<bar>tp_price p - k\<bar>) win))" for m k
    by (simp_all add: median_eq_Inr)
  from assms(1) obtain l where l: "latest = Some l" "snd w \<le> l" and ok: "\<not> int (length win) < tw_minTicks t" "win \<noteq> []"
    and pos: "0 < big_div (sum_list (map tp_price win)) (int (length win))"
    and e: "e = \<lparr>oe_feedId = fb_feedId b, oe_price = big_div (sum_list (map tp_price win)) (int (length win)),
      oe_conf = max (big_div (sum_list (map tp_conf win)) (int (length win)))
        (median_of (map (\<lambda>q. \<bar>tp_price q - median_of (map tp_price win)\<bar>) win)),
      oe_sourceTimeMs = fold max (map tp_tickMs win) 0\<rparr>"
    by (auto simp: computeTwap_def Let_def foldl_sum foldl_newest neq ebind_eq_Inr max_def
        simp flip: w_def win_def split: option.splits if_splits)
  from pos ok have "big_div (sum_list (map tp_price win)) (int (length win)) = sum_list (map tp_price win) div int (length win)"
    by (intro big_div_truncates) simp_all
  with l ok pos e show "oe_feedId e = fb_feedId b" "win \<noteq> []" "tw_minTicks t \<le> int (length win)"
    "oe_price e = sum_list (map tp_price win) div int (length win)" "0 < oe_price e"
    "big_div (sum_list (map tp_conf win)) (int (length win)) \<le> oe_conf e"
    "median_of (map (\<lambda>q. \<bar>tp_price q - median_of (map tp_price win)\<bar>) win) \<le> oe_conf e"
    "oe_sourceTimeMs e = fold max (map tp_tickMs win) 0" "\<exists>l. latest = Some l \<and> snd w \<le> l"
    by simp_all
qed

lemma computeTwap_cong:
  assumes "twap_points b (twapWindow tickMs (tw_windowMs t) p) ps = twap_points b (twapWindow tickMs (tw_windowMs t) p) qs"
    and "tickMs - 2 * p \<le> l" "tickMs - 2 * p \<le> k"
  shows "computeTwap b t ps tickMs p (Some l) = computeTwap b t qs tickMs p (Some k)"
proof -
  have "snd (twapWindow tickMs (tw_windowMs t) p) = tickMs - 2 * p" by (simp add: twapWindow_def Let_def)
  with assms show ?thesis by (simp add: computeTwap_def Let_def)
qed

lemma entry_lower: "isHex (oe_feedId e) \<Longrightarrow> toLowerCase (oe_feedId e) = bytesToHex (entry_key e)"
  using entry_key_hex bytesToHex_hexToBytes by metis

lemma sorted_lower_ascending:
  assumes "sorted (map (\<lambda>e. toLowerCase (oe_feedId e)) es)" "list_all (\<lambda>e. isHex (oe_feedId e)) es"
    and "distinct (map entry_key es)"
  shows "ascending_by (<) (map entry_key es)"
proof -
  have "map (\<lambda>e. toLowerCase (oe_feedId e)) es = map bytesToHex (map entry_key es)"
    using assms(2) by (simp add: list_all_iff entry_lower)
  with assms(1) have "sorted_wrt (\<lambda>a b. bytesToHex a \<le> bytesToHex b) (map entry_key es)"
    by (metis sorted_map)
  then have "sorted (map entry_key es)"
    by (rule sorted_wrt_mono_rel[rotated]) (metis bytesToHex_less not_le)
  with assms(3) show ?thesis by (simp add: sorted_ascending)
qed

section \<open>Properties\<close>

text \<open>A TWAP entry is the floor of the mean of the prices of its window, so it lies between the lowest
  and the highest of them; its window holds at least \<open>minTicks\<close> ticks and none newer than two periods
  before the boundary, and its source time is one of them; its confidence covers the median absolute
  deviation of the prices. It is only computed when the history is finalized through the window's end.\<close>

theorem twap_entry_sound:
  assumes "computeTwap b t points tickMs p latest = Inr (Some e)"
    and "w = twap_points b (twapWindow tickMs (tw_windowMs t) p) points"
  shows "oe_price e = sum_list (map tp_price w) div int (length w) \<and> 0 < oe_price e \<and>
    Min (tp_price ` set w) \<le> oe_price e \<and> oe_price e \<le> Max (tp_price ` set w) \<and>
    tw_minTicks t \<le> int (length w) \<and>
    set (map tp_tickMs w) \<subseteq> {tickMs - 2 * p - tw_windowMs t <.. tickMs - 2 * p} \<and>
    oe_sourceTimeMs e \<in> insert 0 (tp_tickMs ` set w) \<and>
    median_of (map (\<lambda>q. \<bar>tp_price q - median_of (map tp_price w)\<bar>) w) \<le> oe_conf e \<and>
    (\<exists>l. latest = Some l \<and> tickMs - 2 * p \<le> l)"
proof -
  note r = computeTwap_Some[OF assms(1), folded assms(2)]
  have "Min (tp_price ` set w) \<le> sum_list (map tp_price w) div int (length (map tp_price w)) \<and>
      sum_list (map tp_price w) div int (length (map tp_price w)) \<le> Max (tp_price ` set w)"
    by (rule mean_between) (use r(2) in auto)
  moreover have "set (map tp_tickMs w) \<subseteq> {tickMs - 2 * p - tw_windowMs t <.. tickMs - 2 * p}"
    by (auto simp: assms(2) twap_points_def twapWindow_def Let_def)
  moreover have "oe_sourceTimeMs e \<in> insert 0 (tp_tickMs ` set w)"
    using Max_in[of "insert 0 (tp_tickMs ` set w)"] by (simp add: r(8) fold_max_Max)
  moreover have "\<exists>l. latest = Some l \<and> tickMs - 2 * p \<le> l" using r(9) by (simp add: twapWindow_def Let_def)
  ultimately show ?thesis using r(3,4,5,7) by simp
qed

definition demo_points :: "TwapPoint list" where
  "demo_points = map (\<lambda>(t, v). \<lparr>tp_tickMs = t, tp_price = v, tp_conf = 2, tp_expo = Some (-8)\<rparr>)
     [(592000, 500), (594000, 508), (596000, 511)]"

lemma demo_twap_value:
  "computeTwap (demo_base ''Crypto.CKB/USDT.TWAP60'') demo_twap demo_points 600000 2000 (Some 598000) =
    Inr (Some \<lparr>oe_feedId = feedId demo_crypto ''Crypto.CKB/USDT.TWAP60'', oe_price = 506, oe_conf = 3, oe_sourceTimeMs = 596000\<rparr>)"
  by (simp add: computeTwap_def twapWindow_def twap_points_def demo_points_def demo_twap_def demo_base_def
      median_def Let_def big_div_nonneg)

theorem twap_entry_sound_witness:
  "\<exists>e. computeTwap (demo_base ''Crypto.CKB/USDT.TWAP60'') demo_twap demo_points 600000 2000 (Some 598000) = Inr (Some e) \<and>
     0 < oe_price e \<and> oe_price e \<le> Max (tp_price ` set (twap_points (demo_base ''Crypto.CKB/USDT.TWAP60'') (536000, 596000) demo_points))"
  using twap_entry_sound[OF demo_twap_value refl] demo_twap_value
  by (simp add: twapWindow_def demo_twap_def)

text \<open>Publishers that are finalized through the window's end and hold the same ticks in the window
  compute the same TWAP entry, whatever else they hold: the committee can agree on it.\<close>

theorem twap_publishers_agree:
  assumes "twap_points b (twapWindow tickMs (tw_windowMs t) p) ps = twap_points b (twapWindow tickMs (tw_windowMs t) p) qs"
    and "tickMs - 2 * p \<le> l" "tickMs - 2 * p \<le> k"
  shows "computeTwap b t ps tickMs p (Some l) = computeTwap b t qs tickMs p (Some k)"
  by (rule computeTwap_cong) (rule assms)+

theorem twap_publishers_agree_witness:
  "computeTwap (demo_base ''Crypto.CKB/USDT.TWAP60'') demo_twap demo_points 600000 2000 (Some 596000) =
   computeTwap (demo_base ''Crypto.CKB/USDT.TWAP60'') demo_twap
     (demo_points @ [\<lparr>tp_tickMs = 598000, tp_price = 9, tp_conf = 2, tp_expo = Some (-8)\<rparr>]) 600000 2000 (Some 598000)"
  by (rule twap_publishers_agree) (simp_all add: twap_points_def twapWindow_def Let_def)

text \<open>Merging the market entries and the TWAP entries of a tick gives an observation the codec
  accepts: the same entries, in strictly ascending order of their feed ids, if the ids are hex and
  different.\<close>

theorem merged_entries_sorted:
  assumes "list_all (\<lambda>e. isHex (oe_feedId e)) (a @ b)" "distinct (map entry_key (a @ b))"
  shows "mset (mergeEntries a b) = mset (a @ b) \<and> assertSortedUnique (mergeEntries a b) = Inr ()"
proof -
  have hex: "list_all (\<lambda>e. isHex (oe_feedId e)) (mergeEntries a b)"
    using assms(1) by (auto simp: mergeEntries_def list_all_iff)
  have "mset (map entry_key (mergeEntries a b)) = mset (map entry_key (a @ b))" by (simp add: mergeEntries_def)
  then have "distinct (map entry_key (mergeEntries a b))" using assms(2) by (metis mset_eq_imp_distinct_iff)
  then have "ascending_by (<) (map entry_key (mergeEntries a b))"
    by (intro sorted_lower_ascending[OF _ hex]) (simp add: mergeEntries_def)
  then show ?thesis using hex by (simp add: assertSorted_iff) (simp add: mergeEntries_def)
qed

definition demo_entry :: "byte \<Rightarrow> ObservationEntry" where
  "demo_entry n = \<lparr>oe_feedId = bytesToHex (replicate 32 n), oe_price = 5, oe_conf = 1, oe_sourceTimeMs = 7\<rparr>"

theorem merged_entries_sorted_witness:
  "mset (mergeEntries [demo_entry 1, demo_entry 3] [demo_entry 2]) = {#demo_entry 1, demo_entry 2, demo_entry 3#} \<and>
   assertSortedUnique (mergeEntries [demo_entry 1, demo_entry 3] [demo_entry 2]) = Inr ()"
proof -
  have hex: "hexToBytes (oe_feedId (demo_entry n)) = Inr (replicate 32 n)" for n by (simp add: demo_entry_def)
  then have "isHex (oe_feedId (demo_entry n))" for n by (auto simp: isHex_iff)
  moreover from this hex have "entry_key (demo_entry n) = replicate 32 n" for n using entry_key_hex by (metis sum.inject(2))
  ultimately show ?thesis
    using merged_entries_sorted[of "[demo_entry 1, demo_entry 3]" "[demo_entry 2]"] by (simp add: add_mset_commute)
qed

text \<open>\<open>pointsByFeed\<close> files every entry of the finalized updates under the lower-case id of its feed,
  oldest first, and nothing else.\<close>

theorem points_by_feed_complete:
  "points_of (pointsByFeed updates) k = concat (map (\<lambda>(tick, entries).
      map (\<lambda>e. \<lparr>tp_tickMs = tick, tp_price = fp_price e, tp_conf = fp_conf e, tp_expo = fp_expo e\<rparr>)
        (filter (\<lambda>e. toLowerCase (fp_feedId e) = k) entries)) updates)"
  unfolding pointsByFeed_def points_of_updates by (simp add: points_of_def)

end
