(* ===== verification/Config_Schedule.thy ===== *)
theory Config_Schedule
  imports Committee_Config
begin

text \<open>
  \<open>apps/publisher/src/configSchedule.ts\<close> (the approved config versions and the one active at a tick) and
  \<open>scheduler.ts\<close> (the tick boundaries a node is driven on, and what fires at them).

  Lemmas: every schedule built by \<open>add\<close> holds sound, approved versions in strictly ascending order of
  version and activation; \<open>at\<close> is the latest activation; the next tick is a boundary of the config
  active at it, and no activation is skipped.
\<close>

section \<open>The schedule\<close>

record ActiveConfig =
  ac_config :: CommitteeConfig
  ac_hash :: hex

record ConfigSchedule =
  cs_typeHash :: hex
  cs_set :: PublisherSet
  cs_versions :: "ActiveConfig list"

definition new_schedule :: "hex \<Rightarrow> PublisherSet \<Rightarrow> ConfigSchedule" where
  "new_schedule publisherSetTypeHash s = \<lparr>cs_typeHash = publisherSetTypeHash, cs_set = s, cs_versions = []\<rparr>"

definition schedule_setIndex :: "ConfigSchedule \<Rightarrow> int" where
  "schedule_setIndex sch = setIndex (cs_set sch)"

text \<open>\<open>BigInt(config.activationTickMs)\<close>, of a config that passed validation.\<close>

definition activation :: "ActiveConfig \<Rightarrow> int" where
  "activation v = decimal_value (c_activationTickMs (ac_config v))"

abbreviation version_of :: "ActiveConfig \<Rightarrow> int" where
  "version_of v \<equiv> c_version (ac_config v)"

definition schedule_add :: "crypto \<Rightarrow> ConfigSchedule \<Rightarrow> SignedCommitteeConfig \<Rightarrow> (ConfigSchedule \<times> ActiveConfig) result" where
  "schedule_add C sch sc =
    (let config = sc_config sc
     in ebind (validateCommitteeConfig C config) (\<lambda>problems.
        if length problems > 0 then Inl (Failure ''invalid committee config'')
        else if toLowerCase (c_publisherSetTypeHash config) \<noteq> cs_typeHash sch
        then Inl (Failure ''config is for another committee'')
        else
          ebind (verifyCommitteeConfig C sc (cs_set sch)) (\<lambda>ok.
          if \<not> ok then Inl (Failure ''config lacks a quorum of valid signatures'')
          else
            ebind (committeeConfigHash C config) (\<lambda>hash.
            case find (\<lambda>v. version_of v = c_version config) (cs_versions sch) of
              Some existing \<Rightarrow>
                if ac_hash existing \<noteq> hash then Inl (Failure ''conflicting configs for version'')
                else Inr (sch, existing)
            | None \<Rightarrow>
                if cs_versions sch \<noteq> [] \<and>
                  (c_version config < version_of (last (cs_versions sch)) \<or>
                   decimal_value (c_activationTickMs config) \<le> activation (last (cs_versions sch)))
                then Inl (Failure ''config must follow in version and activation'')
                else
                  let entry = \<lparr>ac_config = config, ac_hash = hash\<rparr>
                  in Inr (sch\<lparr>cs_versions := cs_versions sch @ [entry]\<rparr>, entry)))))"

definition schedule_at :: "ConfigSchedule \<Rightarrow> int \<Rightarrow> ActiveConfig option" where
  "schedule_at sch tickMs = find (\<lambda>v. activation v \<le> tickMs) (rev (cs_versions sch))"

definition schedule_all :: "ConfigSchedule \<Rightarrow> ActiveConfig list" where
  "schedule_all sch = cs_versions sch"

section \<open>The scheduler\<close>

definition GRACE_MS :: int where "GRACE_MS = 100"
definition BACKUP_PREPARE_MS :: int where "BACKUP_PREPARE_MS = 100"

definition nextTick :: "ConfigSchedule \<Rightarrow> int \<Rightarrow> int result" where
  "nextTick sch now =
    (case (case schedule_at sch now of Some v \<Rightarrow> Some v
           | None \<Rightarrow> (case schedule_all sch of [] \<Rightarrow> None | v # _ \<Rightarrow> Some v)) of
       None \<Rightarrow> Inl (Failure ''no committee config'')
     | Some active \<Rightarrow>
         let period = c_tickPeriodMs (ac_config active)
         in if period = 0 then Inl (RangeError ''Division by zero'')
            else
              let nxt = big_div now period * period + period
              in Inr (case find (\<lambda>v. activation v > now) (schedule_all sch) of
                   Some upcoming \<Rightarrow> if activation upcoming < nxt then activation upcoming else nxt
                 | None \<Rightarrow> nxt))"

text \<open>What \<open>fire\<close> starts: calls of the node and the delay after which each runs. The state is the number
  of ticks fired.\<close>

datatype node_call = Observe int | MaybePropose int | RequestSync | Prune

definition fire_calls :: "ConfigSchedule \<Rightarrow> nat \<Rightarrow> int \<Rightarrow> (int \<times> node_call) list" where
  "fire_calls sch maxRank tickMs =
    (case schedule_at sch tickMs of
       None \<Rightarrow> []
     | Some active \<Rightarrow>
         let deadline = c_observationDeadlineMs (ac_config active)
         in (0, Observe tickMs) # (min GRACE_MS deadline, MaybePropose tickMs) #
            concat (map (\<lambda>rank. [(int rank * deadline, MaybePropose tickMs),
                                 (int rank * deadline + BACKUP_PREPARE_MS, MaybePropose tickMs)]) [1..<Suc maxRank]))"

definition fire :: "ConfigSchedule \<Rightarrow> nat \<Rightarrow> nat \<Rightarrow> nat \<Rightarrow> int \<Rightarrow> nat \<times> (int \<times> node_call) list" where
  "fire sch maxRank syncEveryTicks fired tickMs =
    (Suc fired, fire_calls sch maxRank tickMs @
      (if Suc fired mod syncEveryTicks = 0 then [(0, RequestSync), (0, Prune)] else []))"

section \<open>Invariant of the schedule\<close>

text \<open>Each version is a sound config, approved by a quorum under the hash it is held with.\<close>

definition approved :: "crypto \<Rightarrow> PublisherSet \<Rightarrow> ActiveConfig \<Rightarrow> bool" where
  "approved C s v \<longleftrightarrow> config_sound C (ac_config v) \<and> committeeConfigHash C (ac_config v) = Inr (ac_hash v) \<and>
    (\<exists>sigs. quorum_signed C sigs (HexStr (ac_hash v)) s)"

definition schedule_inv :: "crypto \<Rightarrow> ConfigSchedule \<Rightarrow> bool" where
  "schedule_inv C sch \<longleftrightarrow>
    sorted_wrt (\<lambda>v w. version_of v < version_of w \<and> activation v < activation w) (cs_versions sch) \<and>
    list_all (approved C (cs_set sch)) (cs_versions sch)"

lemma schedule_add_Inr:
  assumes "schedule_add C sch sc = Inr (sch', v)"
  obtains (held) "sch' = sch" "v \<in> set (cs_versions sch)" "version_of v = c_version (sc_config sc)"
      "committeeConfigHash C (sc_config sc) = Inr (ac_hash v)"
    | (appended) "sch' = sch\<lparr>cs_versions := cs_versions sch @ [v]\<rparr>" "ac_config v = sc_config sc"
      "approved C (cs_set sch) v" "version_of v \<notin> version_of ` set (cs_versions sch)"
      "cs_versions sch = [] \<or> version_of (last (cs_versions sch)) \<le> version_of v \<and> activation (last (cs_versions sch)) < activation v"
proof -
  from assms obtain hash where ok: "validateCommitteeConfig C (sc_config sc) = Inr []"
    and ver: "verifyCommitteeConfig C sc (cs_set sch) = Inr True" and hash: "committeeConfigHash C (sc_config sc) = Inr hash"
    by (auto simp: schedule_add_def Let_def ebind_eq_Inr split: if_splits)
  from ok ver hash have app: "approved C (cs_set sch) \<lparr>ac_config = sc_config sc, ac_hash = hash\<rparr>"
    by (auto simp: approved_def validate_Nil verifyCommitteeConfig_def verifyThreshold_quorum)
  show ?thesis
  proof (cases "find (\<lambda>v. version_of v = c_version (sc_config sc)) (cs_versions sch)")
    case None
    with assms ok ver hash have "v = \<lparr>ac_config = sc_config sc, ac_hash = hash\<rparr>"
        "sch' = sch\<lparr>cs_versions := cs_versions sch @ [v]\<rparr>"
        "cs_versions sch = [] \<or> version_of (last (cs_versions sch)) \<le> version_of v \<and> activation (last (cs_versions sch)) < activation v"
      by (auto simp: schedule_add_def Let_def activation_def split: if_splits)
    moreover from None have "c_version (sc_config sc) \<notin> version_of ` set (cs_versions sch)" by (auto simp: find_None_iff)
    ultimately show ?thesis using app by (intro appended) auto
  next
    case (Some w)
    with assms ok ver hash have "sch' = sch" "v = w" "ac_hash w = hash"
      by (auto simp: schedule_add_def Let_def split: if_splits)
    moreover from Some have "w \<in> set (cs_versions sch)" "version_of w = c_version (sc_config sc)"
      by (auto simp: find_Some_iff)
    ultimately show ?thesis using hash by (intro held) auto
  qed
qed

lemma sorted_wrt_last: "sorted_wrt P xs \<Longrightarrow> x \<in> set xs \<Longrightarrow> x = last xs \<or> P x (last xs)"
  by (cases xs rule: rev_cases) (auto simp: sorted_wrt_append)

lemma schedule_add_inv:
  assumes "schedule_add C sch sc = Inr (sch', v)" "schedule_inv C sch"
  shows "schedule_inv C sch'"
  using assms(1)
proof (cases rule: schedule_add_Inr)
  case held
  with assms(2) show ?thesis by simp
next
  case appended
  have "version_of w < version_of v \<and> activation w < activation v" if w: "w \<in> set (cs_versions sch)" for w
  proof -
    have last: "last (cs_versions sch) \<in> set (cs_versions sch)" using w by (intro last_in_set) auto
    with appended(4) have "version_of (last (cs_versions sch)) \<noteq> version_of v" by (metis image_eqI)
    moreover from assms(2) have "sorted_wrt (\<lambda>v w. version_of v < version_of w \<and> activation v < activation w) (cs_versions sch)"
      by (simp add: schedule_inv_def)
    from sorted_wrt_last[OF this w] have "w = last (cs_versions sch) \<or>
        version_of w < version_of (last (cs_versions sch)) \<and> activation w < activation (last (cs_versions sch))" .
    ultimately show ?thesis using appended(5) w by auto
  qed
  with assms(2) appended show ?thesis by (simp add: schedule_inv_def sorted_wrt_append)
qed

text \<open>The schedules a publisher can reach by adding signed configs, in any order and with any failures.\<close>

inductive schedule_reached :: "crypto \<Rightarrow> hex \<Rightarrow> PublisherSet \<Rightarrow> ConfigSchedule \<Rightarrow> bool" for C h s where
  start: "schedule_reached C h s (new_schedule h s)"
| add: "schedule_reached C h s sch \<Longrightarrow> schedule_add C sch sc = Inr (sch', v) \<Longrightarrow> schedule_reached C h s sch'"

lemma reached_inv: "schedule_reached C h s sch \<Longrightarrow> schedule_inv C sch \<and> cs_set sch = s"
proof (induction rule: schedule_reached.induct)
  case (add sch sc sch' v)
  from add.hyps(2) have "cs_set sch' = cs_set sch" by (cases rule: schedule_add_Inr) simp_all
  with add schedule_add_inv show ?case by metis
qed (simp add: schedule_inv_def new_schedule_def)

section \<open>The active config\<close>

lemma find_ascending:
  fixes f :: "'a \<Rightarrow> int"
  assumes "sorted_wrt (\<lambda>v w. f v < f w) xs"
  shows "find (\<lambda>v. f v \<le> t) (rev xs) = Some v \<longleftrightarrow> v \<in> set xs \<and> f v \<le> t \<and> (\<forall>w \<in> set xs. f w \<le> t \<longrightarrow> f w \<le> f v)"
  using assms
proof (induction xs rule: rev_induct)
  case (snoc x xs)
  have less: "\<forall>w \<in> set xs. f w < f x" using snoc.prems by (simp add: sorted_wrt_append)
  show ?case
  proof (cases "f x \<le> t")
    case True
    then have "find (\<lambda>v. f v \<le> t) (rev (xs @ [x])) = Some x" by simp
    moreover have "(\<forall>w \<in> set (xs @ [x]). f w \<le> t \<longrightarrow> f w \<le> f v) \<and> v \<in> set (xs @ [x]) \<longleftrightarrow> v = x"
      using True less by (auto dest: bspec)
    ultimately show ?thesis using True by auto
  next
    case False
    with snoc show ?thesis by (auto simp: sorted_wrt_append)
  qed
qed simp

lemma at_Some:
  assumes "schedule_inv C sch"
  shows "schedule_at sch t = Some v \<longleftrightarrow>
    v \<in> set (cs_versions sch) \<and> activation v \<le> t \<and> (\<forall>w \<in> set (cs_versions sch). activation w \<le> t \<longrightarrow> activation w \<le> activation v)"
  unfolding schedule_at_def
  by (rule find_ascending) (use assms in \<open>auto simp: schedule_inv_def elim: sorted_wrt_mono_rel[rotated]\<close>)

lemma at_None: "schedule_at sch t = None \<longleftrightarrow> (\<forall>v \<in> set (cs_versions sch). t < activation v)"
  by (auto simp: schedule_at_def find_None_iff not_le)

lemma approved_period: "approved C s v \<Longrightarrow> 0 < c_tickPeriodMs (ac_config v) \<and> c_tickPeriodMs (ac_config v) dvd activation v"
  by (auto simp: approved_def config_sound_def activation_def)

lemma find_first_above:
  fixes f :: "'a \<Rightarrow> int"
  assumes "sorted_wrt (\<lambda>v w. f v < f w) xs" "find (\<lambda>v. t < f v) xs = Some u" "w \<in> set xs" "t < f w"
  shows "f u \<le> f w"
  using assms by (induction xs) (auto split: if_splits)

lemma floor_next: "0 \<le> now \<Longrightarrow> 0 < p \<Longrightarrow> now < big_div now p * p + p \<and> p dvd big_div now p * p + p" for now p :: int
proof -
  assume a: "0 \<le> now" "0 < p"
  then have "big_div now p * p + p = now - now mod p + p" by (simp add: big_div_nonneg minus_mod_eq_div_mult)
  moreover have "now mod p < p" using a by simp
  ultimately show ?thesis by (simp add: dvd_add)
qed

text \<open>The next tick is later than now, no activation is skipped, and it is a boundary of its config.\<close>

lemma nextTick_boundary:
  assumes inv: "schedule_inv C sch" and "0 \<le> now" and "nextTick sch now = Inr t"
  shows "now < t \<and> (\<forall>v \<in> set (cs_versions sch). now < activation v \<longrightarrow> t \<le> activation v) \<and>
    (\<forall>v. schedule_at sch t = Some v \<longrightarrow> c_tickPeriodMs (ac_config v) dvd t)"
proof -
  from assms(3) obtain active where active: "(case schedule_at sch now of Some v \<Rightarrow> Some v
           | None \<Rightarrow> (case schedule_all sch of [] \<Rightarrow> None | v # _ \<Rightarrow> Some v)) = Some active"
    by (auto simp: nextTick_def split: option.splits)
  define p where "p = c_tickPeriodMs (ac_config active)"
  define nxt where "nxt = big_div now p * p + p"
  have mem: "active \<in> set (cs_versions sch)"
    using active at_Some[OF inv, of now active] by (auto simp: schedule_all_def split: option.splits list.splits)
  then have app: "approved C (cs_set sch) active" using inv by (auto simp: schedule_inv_def list_all_iff)
  have p: "0 < p" using approved_period[OF app] by (simp add: p_def)
  have nxt: "now < nxt" "p dvd nxt" using floor_next[OF assms(2) p] by (simp_all add: nxt_def)
  have asc: "sorted_wrt (\<lambda>v w. activation v < activation w) (cs_versions sch)"
    using inv by (auto simp: schedule_inv_def elim: sorted_wrt_mono_rel[rotated])
  have t: "t = (case find (\<lambda>v. activation v > now) (cs_versions sch) of
       Some upcoming \<Rightarrow> if activation upcoming < nxt then activation upcoming else nxt | None \<Rightarrow> nxt)"
    using assms(3)[unfolded nextTick_def active option.case Let_def, folded p_def, folded nxt_def] p
    by (simp add: schedule_all_def)
  have "now < t \<and> (\<forall>v \<in> set (cs_versions sch). now < activation v \<longrightarrow> t \<le> activation v)"
  proof (cases "find (\<lambda>v. now < activation v) (cs_versions sch)")
    case None
    with t nxt show ?thesis by (auto simp: find_None_iff)
  next
    case (Some u)
    then have "now < activation u" by (auto simp: find_Some_iff)
    moreover have "activation u \<le> activation v" if "v \<in> set (cs_versions sch)" "now < activation v" for v
      by (rule find_first_above[OF asc Some that])
    ultimately show ?thesis using t nxt(1) Some by (auto split: if_splits) (meson linorder_not_less order_trans)
  qed
  then have later: "now < t" "\<forall>v \<in> set (cs_versions sch). now < activation v \<longrightarrow> t \<le> activation v" by auto
  moreover have "c_tickPeriodMs (ac_config v) dvd t" if v: "schedule_at sch t = Some v" for v
  proof (cases "activation v = t")
    case True
    from v at_Some[OF inv] inv have "approved C (cs_set sch) v" by (auto simp: schedule_inv_def list_all_iff)
    with True show ?thesis using approved_period by blast
  next
    case False
    with v at_Some[OF inv, of t v] have m: "v \<in> set (cs_versions sch)" "activation v < t" by auto
    with later have "activation v \<le> now" by (meson leD not_le)
    with v later have "schedule_at sch now = Some v"
      unfolding at_Some[OF inv] by (meson dual_order.strict_trans1 less_imp_le order_trans)
    with active have "v = active" by simp
    moreover have "t = nxt"
    proof (rule ccontr)
      assume "t \<noteq> nxt"
      with t obtain u where u: "find (\<lambda>v. now < activation v) (cs_versions sch) = Some u" "t = activation u"
        by (auto split: option.splits if_splits)
      then have "u \<in> set (cs_versions sch)" by (auto simp: find_Some_iff)
      with v u at_Some[OF inv, of t v] have "activation u \<le> activation v" by auto
      with m u show False by simp
    qed
    ultimately show ?thesis using nxt by (simp add: p_def)
  qed
  ultimately show ?thesis by blast
qed

lemma reached_holds_approved:
  "schedule_reached C h s sch \<Longrightarrow> v \<in> set (cs_versions sch) \<Longrightarrow> approved C s v"
  using reached_inv[of C h s sch] by (auto simp: schedule_inv_def list_all_iff)

text \<open>A publisher holding one config.\<close>

lemma demo_schedule_add:
  "\<exists>hash. schedule_add demo_crypto (new_schedule (bytesToHex (replicate 32 9)) (demo_set 1))
      \<lparr>sc_config = demo_config, sc_signatures = demo_bundle\<rparr> =
    Inr (\<lparr>cs_typeHash = bytesToHex (replicate 32 9), cs_set = demo_set 1, cs_versions = [\<lparr>ac_config = demo_config, ac_hash = hash\<rparr>]\<rparr>,
      \<lparr>ac_config = demo_config, ac_hash = hash\<rparr>)"
proof -
  obtain bs where h: "committeeConfigHash demo_crypto demo_config = Inr (bytesToHex bs)" using demo_config_hash by blast
  have "verifyThreshold demo_crypto demo_bundle (HexStr (bytesToHex bs)) (demo_set 1) = Inr True"
    by (rule demo_bundle_accepted) simp
  with h have v: "verifyCommitteeConfig demo_crypto \<lparr>sc_config = demo_config, sc_signatures = demo_bundle\<rparr> (demo_set 1) = Inr True"
    by (simp add: verifyCommitteeConfig_def demo_config_valid)
  show ?thesis
    using v h by (simp add: schedule_add_def new_schedule_def demo_config_valid Let_def) (simp add: demo_config_def)
qed

lemma demo_schedule:
  "\<exists>hash. schedule_reached demo_crypto (bytesToHex (replicate 32 9)) (demo_set 1)
     \<lparr>cs_typeHash = bytesToHex (replicate 32 9), cs_set = demo_set 1, cs_versions = [\<lparr>ac_config = demo_config, ac_hash = hash\<rparr>]\<rparr>"
  using demo_schedule_add schedule_reached.add[OF schedule_reached.start] by blast

section \<open>Properties\<close>

text \<open>Whatever signed configs a publisher is given, its schedule holds only sound configs approved by
  a quorum of its set, in strictly ascending order of version and of activation; so \<open>at\<close> returns exactly
  the approved config with the latest activation up to the tick.\<close>

theorem schedule_at_latest:
  assumes "schedule_reached C h s sch"
  shows "(schedule_at sch t = Some v \<longleftrightarrow>
      v \<in> set (cs_versions sch) \<and> activation v \<le> t \<and>
      (\<forall>w \<in> set (cs_versions sch). activation w \<le> t \<longrightarrow> activation w \<le> activation v)) \<and>
    sorted_wrt (\<lambda>v w. version_of v < version_of w \<and> activation v < activation w) (cs_versions sch) \<and>
    list_all (approved C s) (cs_versions sch)"
  using at_Some reached_inv[OF assms] by (auto simp: schedule_inv_def)

theorem schedule_at_latest_witness:
  "\<exists>sch v. schedule_at sch 600000 = Some v \<and> ac_config v = demo_config \<and> list_all (approved demo_crypto (demo_set 1)) (cs_versions sch)"
proof -
  obtain hash where s: "schedule_reached demo_crypto (bytesToHex (replicate 32 9)) (demo_set 1)
     \<lparr>cs_typeHash = bytesToHex (replicate 32 9), cs_set = demo_set 1, cs_versions = [\<lparr>ac_config = demo_config, ac_hash = hash\<rparr>]\<rparr>"
    (is "schedule_reached _ _ _ ?sch") using demo_schedule by blast
  have "schedule_at ?sch 600000 = Some \<lparr>ac_config = demo_config, ac_hash = hash\<rparr>"
    using schedule_at_latest[OF s] by (simp add: activation_def demo_config_fields demo_activation)
  with schedule_at_latest[OF s] show ?thesis by (intro exI conjI) auto
qed

text \<open>The scheduler's next tick is in the future, skips no activation, and is a multiple of the period
  of the config that is active at it.\<close>

theorem next_tick_boundary:
  assumes "schedule_reached C h s sch" and "0 \<le> now" and "nextTick sch now = Inr t"
  shows "now < t \<and> (\<forall>v \<in> set (cs_versions sch). now < activation v \<longrightarrow> t \<le> activation v) \<and>
    (\<forall>v. schedule_at sch t = Some v \<longrightarrow> c_tickPeriodMs (ac_config v) dvd t)"
  using nextTick_boundary[OF _ assms(2,3)] reached_inv[OF assms(1)] by blast

theorem next_tick_boundary_witness:
  "\<exists>sch v. nextTick sch 600100 = Inr 602000 \<and> schedule_at sch 602000 = Some v \<and> 2000 dvd (602000 :: int) \<and>
     ac_config v = demo_config \<and> c_tickPeriodMs (ac_config v) dvd 602000"
proof -
  obtain hash where s: "schedule_reached demo_crypto (bytesToHex (replicate 32 9)) (demo_set 1)
     \<lparr>cs_typeHash = bytesToHex (replicate 32 9), cs_set = demo_set 1, cs_versions = [\<lparr>ac_config = demo_config, ac_hash = hash\<rparr>]\<rparr>"
    (is "schedule_reached _ _ _ ?sch") using demo_schedule by blast
  have at: "schedule_at ?sch t = Some \<lparr>ac_config = demo_config, ac_hash = hash\<rparr>" if "600000 \<le> t" for t
    using that by (simp add: schedule_at_def activation_def demo_config_fields demo_activation)
  have "nextTick ?sch 600100 = Inr 602000"
    by (simp add: nextTick_def at schedule_all_def activation_def demo_config_fields demo_activation big_div_nonneg Let_def)
  with next_tick_boundary[OF s _ this] at[of 602000] show ?thesis by (intro exI[of _ ?sch]) auto
qed

end
