(* ===== verification/Market_Data.thy ===== *)
theory Market_Data
  imports Fixed_Point
begin

text \<open>
  \<open>apps/publisher/src/marketData.ts\<close>: the latest quotes and trades of each market, with a bounded history.
  Times are the publisher's clock in whole milliseconds.

  Lemmas: the bounded history answers every query of a window within its retention exactly as the
  unbounded log of what was delivered would.
\<close>

section \<open>The code\<close>

record Quote =
  q_bid :: int
  q_ask :: int
  q_timeMs :: int
  q_bidSize :: "int option"
  q_askSize :: "int option"

record Trade =
  t_price :: int
  t_qty :: int
  t_timeMs :: int

record MarketData =
  md_quotes :: "string \<Rightarrow> Quote list option"
  md_trades :: "string \<Rightarrow> Trade list option"
  md_lastAlive :: "string \<Rightarrow> int option"
  md_retentionMs :: int

definition market_key :: "string \<Rightarrow> string \<Rightarrow> string" where
  "market_key venue market = venue @ [char_of (0 :: nat)] @ market"

definition new_market_data :: "int \<Rightarrow> MarketData" where
  "new_market_data retentionMs =
    \<lparr>md_quotes = Map.empty, md_trades = Map.empty, md_lastAlive = Map.empty, md_retentionMs = retentionMs\<rparr>"

definition md_alive :: "string \<Rightarrow> int \<Rightarrow> MarketData \<Rightarrow> MarketData" where
  "md_alive venue timeMs md =
    (if (case md_lastAlive md venue of None \<Rightarrow> 0 | Some t \<Rightarrow> t) < timeMs
     then md\<lparr>md_lastAlive := (md_lastAlive md)(venue \<mapsto> timeMs)\<rparr> else md)"

definition lastAliveMs :: "MarketData \<Rightarrow> string \<Rightarrow> int option" where
  "lastAliveMs md venue = md_lastAlive md venue"

text \<open>\<open>push\<close>: append, then drop from the front what is older than the retention.\<close>

definition history_push :: "('a \<Rightarrow> int) \<Rightarrow> int \<Rightarrow> (string \<Rightarrow> 'a list option) \<Rightarrow> string \<Rightarrow> 'a \<Rightarrow> (string \<Rightarrow> 'a list option)" where
  "history_push time retention m k item =
    (let l = (case m k of None \<Rightarrow> [] | Some xs \<Rightarrow> xs) @ [item];
         cutoff = time item - retention
     in m(k \<mapsto> dropWhile (\<lambda>x. time x < cutoff) l))"

definition md_quote :: "string \<Rightarrow> string \<Rightarrow> Quote \<Rightarrow> MarketData \<Rightarrow> MarketData" where
  "md_quote venue market q md =
    (if q_bid q \<le> 0 \<or> q_ask q < q_bid q then md
     else
       let md' = md_alive venue (q_timeMs q) md
       in md'\<lparr>md_quotes := history_push q_timeMs (md_retentionMs md') (md_quotes md') (market_key venue market) q\<rparr>)"

definition md_trade :: "string \<Rightarrow> string \<Rightarrow> Trade \<Rightarrow> MarketData \<Rightarrow> MarketData" where
  "md_trade venue market t md =
    (if t_price t \<le> 0 \<or> t_qty t \<le> 0 then md
     else
       let md' = md_alive venue (t_timeMs t) md
       in md'\<lparr>md_trades := history_push t_timeMs (md_retentionMs md') (md_trades md') (market_key venue market) t\<rparr>)"

definition history_of :: "(string \<Rightarrow> 'a list option) \<Rightarrow> string \<Rightarrow> 'a list" where
  "history_of m k = (case m k of None \<Rightarrow> [] | Some xs \<Rightarrow> xs)"

definition latestQuote :: "MarketData \<Rightarrow> string \<Rightarrow> string \<Rightarrow> int \<Rightarrow> Quote option" where
  "latestQuote md venue market atMs = find (\<lambda>q. q_timeMs q \<le> atMs) (rev (history_of (md_quotes md) (market_key venue market)))"

definition quotesIn :: "MarketData \<Rightarrow> string \<Rightarrow> string \<Rightarrow> int \<Rightarrow> int \<Rightarrow> Quote list" where
  "quotesIn md venue market fromMs toMs =
    filter (\<lambda>q. q_timeMs q > fromMs \<and> q_timeMs q \<le> toMs) (history_of (md_quotes md) (market_key venue market))"

definition tradesIn :: "MarketData \<Rightarrow> string \<Rightarrow> string \<Rightarrow> int \<Rightarrow> int \<Rightarrow> Trade list" where
  "tradesIn md venue market fromMs toMs =
    filter (\<lambda>t. t_timeMs t > fromMs \<and> t_timeMs t \<le> toMs) (history_of (md_trades md) (market_key venue market))"

section \<open>Refinement of the log of what was delivered\<close>

datatype delivery =
    Alive string int
  | QuoteIn string string Quote
  | TradeIn string string Trade

fun deliver :: "MarketData \<Rightarrow> delivery \<Rightarrow> MarketData" where
  "deliver md (Alive venue timeMs) = md_alive venue timeMs md"
| "deliver md (QuoteIn venue market q) = md_quote venue market q md"
| "deliver md (TradeIn venue market t) = md_trade venue market t md"

definition deliveries :: "int \<Rightarrow> delivery list \<Rightarrow> MarketData" where
  "deliveries retention ds = foldl deliver (new_market_data retention) ds"

text \<open>The unbounded log: the well-formed quotes (trades) of a market, in order of delivery.\<close>

fun quote_log :: "string \<Rightarrow> delivery list \<Rightarrow> Quote list" where
  "quote_log k [] = []"
| "quote_log k (QuoteIn venue market q # ds) =
    (if market_key venue market = k \<and> 0 < q_bid q \<and> q_bid q \<le> q_ask q then q # quote_log k ds else quote_log k ds)"
| "quote_log k (d # ds) = quote_log k ds"

fun trade_log :: "string \<Rightarrow> delivery list \<Rightarrow> Trade list" where
  "trade_log k [] = []"
| "trade_log k (TradeIn venue market t # ds) =
    (if market_key venue market = k \<and> 0 < t_price t \<and> 0 < t_qty t then t # trade_log k ds else trade_log k ds)"
| "trade_log k (d # ds) = trade_log k ds"

lemma quote_log_append: "quote_log k (ds @ es) = quote_log k ds @ quote_log k es"
  by (induction k ds rule: quote_log.induct) simp_all

lemma trade_log_append: "trade_log k (ds @ es) = trade_log k ds @ trade_log k es"
  by (induction k ds rule: trade_log.induct) simp_all

text \<open>A list is a history of a log if it is a suffix whose cut-off part is older than the retention.\<close>

definition suffix_of_log :: "('a \<Rightarrow> int) \<Rightarrow> int \<Rightarrow> 'a list \<Rightarrow> 'a list \<Rightarrow> bool" where
  "suffix_of_log time retention xs log \<longleftrightarrow>
    (\<exists>old. log = old @ xs \<and> (\<forall>x \<in> set old. \<exists>y \<in> set log. time x < time y - retention))"

lemma suffix_push:
  assumes "suffix_of_log time r (history_of m k) log"
  shows "suffix_of_log time r (history_of (history_push time r m k x) k) (log @ [x])"
proof -
  from assms obtain old where old: "log = old @ history_of m k" "\<forall>x \<in> set old. \<exists>y \<in> set log. time x < time y - r"
    by (auto simp: suffix_of_log_def)
  let ?l = "history_of m k @ [x]" and ?p = "\<lambda>y. time y < time x - r"
  have "history_of (history_push time r m k x) k = dropWhile ?p ?l"
    by (simp add: history_of_def history_push_def Let_def)
  moreover have "log @ [x] = (old @ takeWhile ?p ?l) @ dropWhile ?p ?l" using old(1) by simp
  moreover have "\<forall>y \<in> set (old @ takeWhile ?p ?l). \<exists>z \<in> set (log @ [x]). time y < time z - r"
    using old(2) by (auto dest: set_takeWhileD)
  ultimately show ?thesis unfolding suffix_of_log_def by metis
qed

lemma history_other: "k \<noteq> k' \<Longrightarrow> history_of (history_push time r m k x) k' = history_of m k'"
  by (simp add: history_of_def history_push_def Let_def)

lemma alive_frame [simp]:
  "md_quotes (md_alive v t md) = md_quotes md" "md_trades (md_alive v t md) = md_trades md"
  "md_retentionMs (md_alive v t md) = md_retentionMs md"
  by (simp_all add: md_alive_def)

definition follows_log :: "MarketData \<Rightarrow> int \<Rightarrow> delivery list \<Rightarrow> bool" where
  "follows_log md r ds \<longleftrightarrow> md_retentionMs md = r \<and>
    (\<forall>k. suffix_of_log q_timeMs r (history_of (md_quotes md) k) (quote_log k ds)) \<and>
    (\<forall>k. suffix_of_log t_timeMs r (history_of (md_trades md) k) (trade_log k ds))"

lemma deliver_follows:
  assumes "follows_log md r ds"
  shows "follows_log (deliver md d) r (ds @ [d])"
proof (cases d)
  case (Alive venue t)
  with assms show ?thesis by (simp add: follows_log_def quote_log_append trade_log_append)
next
  case (QuoteIn venue market q)
  show ?thesis
  proof (cases "0 < q_bid q \<and> q_bid q \<le> q_ask q")
    case True
    then have "md_quote venue market q md =
        (md_alive venue (q_timeMs q) md)\<lparr>md_quotes := history_push q_timeMs (md_retentionMs md) (md_quotes md) (market_key venue market) q\<rparr>"
      by (simp add: md_quote_def Let_def)
    with assms True QuoteIn show ?thesis
      by (auto simp: follows_log_def quote_log_append trade_log_append history_other intro!: suffix_push)
  qed (use assms QuoteIn in \<open>auto simp: follows_log_def quote_log_append trade_log_append md_quote_def\<close>)
next
  case (TradeIn venue market t)
  show ?thesis
  proof (cases "0 < t_price t \<and> 0 < t_qty t")
    case True
    then have "md_trade venue market t md =
        (md_alive venue (t_timeMs t) md)\<lparr>md_trades := history_push t_timeMs (md_retentionMs md) (md_trades md) (market_key venue market) t\<rparr>"
      by (simp add: md_trade_def Let_def)
    with assms True TradeIn show ?thesis
      by (auto simp: follows_log_def quote_log_append trade_log_append history_other intro!: suffix_push)
  qed (use assms TradeIn in \<open>auto simp: follows_log_def quote_log_append trade_log_append md_trade_def\<close>)
qed

lemma deliveries_follow: "follows_log (deliveries r ds) r ds"
proof (induction ds rule: rev_induct)
  case Nil
  show ?case by (simp add: follows_log_def deliveries_def new_market_data_def history_of_def suffix_of_log_def)
next
  case (snoc d ds)
  then show ?case using deliver_follows[of "deliveries r ds" r ds d] by (simp add: deliveries_def)
qed

text \<open>A query that starts within the retention of everything delivered sees the whole log.\<close>

definition within_retention :: "('a \<Rightarrow> int) \<Rightarrow> int \<Rightarrow> 'a list \<Rightarrow> int \<Rightarrow> bool" where
  "within_retention time r log fromMs \<longleftrightarrow> (\<forall>x \<in> set log. time x - r \<le> fromMs + 1)"

lemma window_of_log:
  assumes "suffix_of_log time r xs log" "within_retention time r log fromMs"
  shows "filter (\<lambda>x. time x > fromMs \<and> time x \<le> toMs) xs = filter (\<lambda>x. time x > fromMs \<and> time x \<le> toMs) log"
proof -
  from assms(1) obtain old where old: "log = old @ xs" "\<forall>x \<in> set old. \<exists>y \<in> set log. time x < time y - r"
    by (auto simp: suffix_of_log_def)
  have "\<not> fromMs < time x" if "x \<in> set old" for x
  proof -
    from old(2) that obtain y where "y \<in> set log" "time x < time y - r" by blast
    with assms(2) show ?thesis by (fastforce simp: within_retention_def)
  qed
  then show ?thesis by (auto simp: old(1) filter_empty_conv)
qed

lemma latest_of_log:
  assumes "suffix_of_log time r xs log" "find (\<lambda>x. time x \<le> at) (rev log) = Some q" "\<forall>x \<in> set log. time x - r \<le> time q"
  shows "find (\<lambda>x. time x \<le> at) (rev xs) = Some q"
proof -
  from assms(1) obtain old where old: "log = old @ xs" "\<forall>x \<in> set old. \<exists>y \<in> set log. time x < time y - r"
    by (auto simp: suffix_of_log_def)
  show ?thesis
  proof (cases "find (\<lambda>x. time x \<le> at) (rev xs)")
    case None
    with assms(2) old(1) have "find (\<lambda>x. time x \<le> at) (rev old) = Some q" by (simp add: find_append)
    then have "q \<in> set old" by (auto simp: find_Some_iff) (metis length_rev nth_mem set_rev)
    with old(2) assms(3) show ?thesis by fastforce
  next
    case (Some p)
    with assms(2) old(1) show ?thesis by (simp add: find_append)
  qed
qed

section \<open>Properties\<close>

text \<open>Claim C15: the bounded store answers as the unbounded log of deliveries would: the quotes and the trades of
  a window that starts within the retention of everything delivered for the market are exactly the
  well-formed ones delivered with a time in it, in order; and the latest quote is the log's, as long as
  that one is within the retention.\<close>

theorem market_data_refines_log:
  "(within_retention q_timeMs r (quote_log (market_key v m) ds) a \<longrightarrow>
      quotesIn (deliveries r ds) v m a b = filter (\<lambda>q. a < q_timeMs q \<and> q_timeMs q \<le> b) (quote_log (market_key v m) ds)) \<and>
    (within_retention t_timeMs r (trade_log (market_key v m) ds) a \<longrightarrow>
      tradesIn (deliveries r ds) v m a b = filter (\<lambda>t. a < t_timeMs t \<and> t_timeMs t \<le> b) (trade_log (market_key v m) ds)) \<and>
    (find (\<lambda>q. q_timeMs q \<le> c) (rev (quote_log (market_key v m) ds)) = Some q \<longrightarrow>
      (\<forall>x \<in> set (quote_log (market_key v m) ds). q_timeMs x - r \<le> q_timeMs q) \<longrightarrow>
      latestQuote (deliveries r ds) v m c = Some q)"
proof -
  have f: "suffix_of_log q_timeMs r (history_of (md_quotes (deliveries r ds)) k) (quote_log k ds)"
    "suffix_of_log t_timeMs r (history_of (md_trades (deliveries r ds)) k) (trade_log k ds)" for k
    using deliveries_follow[of r ds] by (auto simp: follows_log_def)
  show ?thesis
    using window_of_log[OF f(1)] window_of_log[OF f(2)] latest_of_log[OF f(1)]
    by (simp add: quotesIn_def tradesIn_def latestQuote_def)
qed

definition demo_quote :: "int \<Rightarrow> int \<Rightarrow> Quote" where
  "demo_quote b t = \<lparr>q_bid = b, q_ask = b + 2, q_timeMs = t, q_bidSize = None, q_askSize = None\<rparr>"

definition demo_deliveries :: "delivery list" where
  "demo_deliveries = [QuoteIn ''gate'' ''CKB'' (demo_quote 10 100), QuoteIn ''gate'' ''CKB'' (demo_quote 0 150),
     TradeIn ''gate'' ''CKB'' \<lparr>t_price = 11, t_qty = 3, t_timeMs = 180\<rparr>, Alive ''okx'' 190,
     QuoteIn ''gate'' ''CKB'' (demo_quote 12 240)]"

theorem market_data_refines_log_witness:
  "quotesIn (deliveries 100 demo_deliveries) ''gate'' ''CKB'' 150 300 = [demo_quote 12 240] \<and>
   tradesIn (deliveries 100 demo_deliveries) ''gate'' ''CKB'' 150 300 = [\<lparr>t_price = 11, t_qty = 3, t_timeMs = 180\<rparr>] \<and>
   latestQuote (deliveries 100 demo_deliveries) ''gate'' ''CKB'' 250 = Some (demo_quote 12 240)"
  using market_data_refines_log[where r = 100 and v = "''gate''" and m = "''CKB''" and ds = demo_deliveries and a = 150 and b = 300
      and c = 250 and q = "demo_quote 12 240"]
  by (simp add: demo_deliveries_def within_retention_def demo_quote_def)

end
