(* ===== verification/Methodology.thy ===== *)
theory Methodology
  imports Market_Data Observation
begin

text \<open>
  \<open>apps/publisher/src/methodology.ts\<close>: how a publisher prices a feed from its markets. Each step that
  divides or takes a median may throw, as in the source.

  Lemmas: the one-pass filter of trades against the book is the declarative filter, on time-sorted data;
  a combined price lies between the prices of the venues it keeps, of which there are enough and none
  deviates too far; the entries of a tick are the config's feeds in order, so the observation codec
  accepts them.
\<close>

section \<open>The code\<close>

definition SAMPLE_MS :: int where "SAMPLE_MS = 100"
definition DEFAULT_MAX_BOOK_AGE_MS :: int where "DEFAULT_MAX_BOOK_AGE_MS = 60000"

text \<open>\<open>REST_VENUES[venue]\<close> (\<open>sources/rest.ts\<close>).\<close>

definition is_rest_venue :: "string \<Rightarrow> bool" where
  "is_rest_venue venue \<longleftrightarrow> venue = ''mexc''"

record VenuePrice =
  vp_price :: int
  vp_halfSpread :: int
  vp_timeMs :: int
  vp_gap :: int

record AggregatePrice =
  ag_price :: int
  ag_conf :: int
  ag_sourceTimeMs :: int

text \<open>\<open>a / b\<close> on \<open>bigint\<close>.\<close>

definition big_divide :: "int \<Rightarrow> int \<Rightarrow> int result" where
  "big_divide a b = (if b = 0 then Inl (RangeError ''Division by zero'') else Inr (big_div a b))"

definition or_default :: "int option \<Rightarrow> int \<Rightarrow> int" where
  "or_default x d = (case x of None \<Rightarrow> d | Some v \<Rightarrow> v)"

definition spreadBps :: "Quote \<Rightarrow> int result" where
  "spreadBps q = big_divide ((q_ask q - q_bid q) * 20000) (q_ask q + q_bid q)"

definition too_thin :: "PriceMethod \<Rightarrow> Quote \<Rightarrow> bool" where
  "too_thin m q =
    (case (pm_minTopNotional m, q_bidSize q, q_askSize q) of
       (Some minTop, Some bidSize, Some askSize) \<Rightarrow>
         big_div (bidSize * q_bid q) ONE < minTop * ONE \<or> big_div (askSize * q_ask q) ONE < minTop * ONE
     | _ \<Rightarrow> False)"

definition usableQuote :: "MarketData \<Rightarrow> PriceMethod \<Rightarrow> MarketConfig \<Rightarrow> int \<Rightarrow> int \<Rightarrow> Quote option result" where
  "usableQuote md m market atMs tickMs =
    (case lastAliveMs md (mc_venue market) of
       None \<Rightarrow> Inr None
     | Some alive \<Rightarrow>
         if tickMs - alive > pm_maxQuoteAgeMs m then Inr None
         else
           case latestQuote md (mc_venue market) (mc_market market) atMs of
             None \<Rightarrow> Inr None
           | Some q \<Rightarrow>
               if atMs - q_timeMs q > or_default (pm_maxBookAgeMs m) DEFAULT_MAX_BOOK_AGE_MS then Inr None
               else
                 ebind (spreadBps q) (\<lambda>spread.
                 if spread > pm_maxSpreadBps m then Inr None
                 else if too_thin m q then Inr None
                 else Inr (Some q)))"

text \<open>\<open>tradesInsideBook\<close>: one pass with the index \<open>lo\<close> of the first quote later than the trade's time less the
  tolerance. \<open>advance_lo\<close> is the inner \<open>while\<close>, \<open>scan_book\<close> the inner \<open>for\<close>.\<close>

function advance_lo :: "Quote list \<Rightarrow> int \<Rightarrow> nat \<Rightarrow> nat" where
  "advance_lo quotes limit lo =
    (if lo < length quotes \<and> q_timeMs (quotes ! lo) \<le> limit then advance_lo quotes limit (Suc lo) else lo)"
  by pat_completeness auto
termination by (relation "measure (\<lambda>(quotes, limit, lo). length quotes - lo)") auto

declare advance_lo.simps [simp del]

definition inside_book :: "int \<Rightarrow> Trade \<Rightarrow> Quote \<Rightarrow> bool" where
  "inside_book slack t q \<longleftrightarrow> t_price t \<ge> q_bid q - slack \<and> t_price t \<le> q_ask q + slack"

function scan_book :: "Quote list \<Rightarrow> int \<Rightarrow> int \<Rightarrow> Trade \<Rightarrow> nat \<Rightarrow> bool \<Rightarrow> bool" where
  "scan_book quotes limit slack t j ok =
    (if \<not> ok \<and> j < length quotes \<and> q_timeMs (quotes ! j) \<le> limit
     then scan_book quotes limit slack t (Suc j) (inside_book slack t (quotes ! j)) else ok)"
  by pat_completeness auto
termination by (relation "measure (\<lambda>(quotes, limit, slack, t, j, ok). length quotes - j)") auto

declare scan_book.simps [simp del]

fun inside_loop :: "Quote list \<Rightarrow> int \<Rightarrow> int \<Rightarrow> nat \<Rightarrow> Trade list \<Rightarrow> Trade list" where
  "inside_loop quotes tolerance slack lo [] = []"
| "inside_loop quotes tolerance slack lo (t # ts) =
    (let lo' = advance_lo quotes (t_timeMs t - tolerance) lo;
         ok = lo' > 0 \<and> inside_book slack t (quotes ! (lo' - 1));
         ok' = scan_book quotes (t_timeMs t + tolerance) slack t lo' ok;
         rest = inside_loop quotes tolerance slack lo' ts
     in if ok' then t # rest else rest)"

definition tradesInsideBook :: "Trade list \<Rightarrow> Quote list \<Rightarrow> int \<Rightarrow> int \<Rightarrow> Trade list" where
  "tradesInsideBook trades quotes toleranceMs slack = inside_loop quotes toleranceMs slack 0 trades"

definition trade_volume :: "Trade list \<Rightarrow> int" where
  "trade_volume ts = foldl (\<lambda>s t. s + t_qty t) 0 ts"

definition trade_notional :: "Trade list \<Rightarrow> int" where
  "trade_notional ts = foldl (\<lambda>s t. s + t_price t * t_qty t) 0 ts"

definition half_spread :: "Quote \<Rightarrow> int" where
  "half_spread q = big_div (q_ask q - q_bid q) 2"

definition mid_price :: "Quote \<Rightarrow> int" where
  "mid_price q = big_div (q_bid q + q_ask q) 2"

text \<open>\<open>xs.slice(-1)\<close>\<close>

definition last_slice :: "'a list \<Rightarrow> 'a list" where
  "last_slice xs = (if xs = [] then [] else [last xs])"

text \<open>The book of a venue around its trade window, and the part of it the rule looks at.\<close>

definition vwap_book :: "MarketData \<Rightarrow> PriceMethod \<Rightarrow> MarketConfig \<Rightarrow> int \<Rightarrow> Quote list" where
  "vwap_book md m market tickMs =
    filter (\<lambda>q. q_ask q \<ge> q_bid q)
      (quotesIn md (mc_venue market) (mc_market market)
        (tickMs - pm_windowMs m - or_default (pm_tradeBookToleranceMs m) 0 - or_default (pm_maxBookAgeMs m) DEFAULT_MAX_BOOK_AGE_MS)
        tickMs)"

definition vwap_window :: "PriceMethod \<Rightarrow> int \<Rightarrow> Quote list \<Rightarrow> Quote list" where
  "vwap_window m tickMs book =
    (let inWindow = filter (\<lambda>q. q_timeMs q > tickMs - pm_windowMs m) book
     in if length inWindow > 0 then inWindow else last_slice book)"

definition clamped_trades ::
  "PriceMethod \<Rightarrow> MarketConfig \<Rightarrow> Trade list \<Rightarrow> Quote list \<Rightarrow> int option \<Rightarrow> Trade list" where
  "clamped_trades m market trades book halfSpread =
    (case (pm_tradeBookToleranceMs m, pm_tradeBookSlackPct m) of
       (Some tolerance, Some slackPct) \<Rightarrow>
         if \<not> is_rest_venue (mc_venue market) then
           (case halfSpread of
              None \<Rightarrow> []
            | Some h \<Rightarrow> tradesInsideBook trades book tolerance (big_div (h * slackPct) 100))
         else trades
     | _ \<Rightarrow> trades)"

definition clamp_price :: "int \<Rightarrow> int \<Rightarrow> int \<Rightarrow> int" where
  "clamp_price bid ask price = (if price < bid then bid else if price > ask then ask else price)"

definition clampedVwap ::
  "MarketData \<Rightarrow> PriceMethod \<Rightarrow> MarketConfig \<Rightarrow> int \<Rightarrow> Trade list \<Rightarrow> VenuePrice option result" where
  "clampedVwap md m market tickMs trades =
    (let book = vwap_book md m market tickMs;
         window = vwap_window m tickMs book
     in ebind (if length window > 0 then ebind (median (map half_spread window)) (\<lambda>h. Inr (Some h)) else Inr None) (\<lambda>halfSpread.
        let used = clamped_trades m market trades book halfSpread;
            volume = trade_volume used; notional = trade_notional used
        in if volume = 0 then Inr None
           else if (case pm_vwapMinWindowNotional m of None \<Rightarrow> False | Some floor \<Rightarrow> big_div notional ONE < floor * ONE)
           then Inr None
           else
             let price = big_div notional volume
             in if pm_vwapClampToBook m = Some True then
                  if length window = 0 then Inr None
                  else
                    ebind (median (map q_bid window)) (\<lambda>bid.
                    ebind (median (map q_ask window)) (\<lambda>ask.
                    let mid = big_div (bid + ask) 2
                    in Inr (Some \<lparr>vp_price = clamp_price bid ask price,
                         vp_halfSpread = or_default halfSpread 0, vp_timeMs = t_timeMs (last used),
                         vp_gap = abs_big (price - mid)\<rparr>)))
                else Inr (Some \<lparr>vp_price = price, vp_halfSpread = or_default halfSpread 0,
                       vp_timeMs = t_timeMs (last used), vp_gap = 0\<rparr>)))"

definition usesV2Vwap :: "PriceMethod \<Rightarrow> bool" where
  "usesV2Vwap m \<longleftrightarrow> pm_vwapClampToBook m \<noteq> None \<or> pm_tradeBookToleranceMs m \<noteq> None \<or> pm_vwapMinWindowNotional m \<noteq> None"

text \<open>The trades' price of a market; \<open>None\<close> means the rule falls through to the midpoints.\<close>

definition vwapPrice :: "MarketData \<Rightarrow> PriceMethod \<Rightarrow> MarketConfig \<Rightarrow> int \<Rightarrow> VenuePrice option result" where
  "vwapPrice md m market tickMs =
    (if pm_method m = Vwap then
       let trades = tradesIn md (mc_venue market) (mc_market market) (tickMs - pm_windowMs m) tickMs
       in if length trades > 0 \<and>
            (case lastAliveMs md (mc_venue market) of None \<Rightarrow> False | Some alive \<Rightarrow> tickMs - alive \<le> pm_maxQuoteAgeMs m)
          then
            if usesV2Vwap m then clampedVwap md m market tickMs trades
            else
              ebind (usableQuote md m market tickMs tickMs) (\<lambda>q.
              ebind (big_divide (trade_notional trades) (trade_volume trades)) (\<lambda>price.
              Inr (Some \<lparr>vp_price = price, vp_halfSpread = (case q of None \<Rightarrow> 0 | Some q \<Rightarrow> half_spread q),
                vp_timeMs = t_timeMs (last trades), vp_gap = 0\<rparr>)))
          else Inr None
     else Inr None)"

text \<open>\<open>for (let at = tickMs; at > tickMs - window; at -= SAMPLE_MS)\<close>\<close>

function sample_times :: "int \<Rightarrow> int \<Rightarrow> int list" where
  "sample_times low at = (if at > low then at # sample_times low (at - SAMPLE_MS) else [])"
  by pat_completeness auto
termination by (relation "measure (\<lambda>(low, at). nat (at - low))") (auto simp: SAMPLE_MS_def)

declare sample_times.simps [simp del]

definition midPrice :: "MarketData \<Rightarrow> PriceMethod \<Rightarrow> MarketConfig \<Rightarrow> int \<Rightarrow> VenuePrice option result" where
  "midPrice md m market tickMs =
    (let window = (if pm_method m = Mid then min (pm_windowMs m) (pm_maxQuoteAgeMs m) else pm_windowMs m)
     in ebind (emap (\<lambda>at. usableQuote md m market at tickMs) (sample_times (tickMs - window) tickMs)) (\<lambda>qs.
        let samples = List.map_filter (\<lambda>q. q) qs
        in if length samples = 0 then Inr None
           else
             ebind (median (map mid_price samples)) (\<lambda>price.
             ebind (median (map half_spread samples)) (\<lambda>halfSpread.
             Inr (Some \<lparr>vp_price = price, vp_halfSpread = halfSpread, vp_timeMs = q_timeMs (hd samples), vp_gap = 0\<rparr>)))))"

definition marketPrice :: "MarketData \<Rightarrow> PriceMethod \<Rightarrow> MarketConfig \<Rightarrow> int \<Rightarrow> VenuePrice option result" where
  "marketPrice md m market tickMs =
    ebind (vwapPrice md m market tickMs) (\<lambda>v.
    case v of Some p \<Rightarrow> Inr (Some p) | None \<Rightarrow> midPrice md m market tickMs)"

definition combine :: "PriceMethod \<Rightarrow> VenuePrice list \<Rightarrow> AggregatePrice option result" where
  "combine m venues =
    (if int (length venues) < pm_minVenues m then Inr None
     else
       ebind (case pm_maxDeviationBps m of
           None \<Rightarrow> Inr venues
         | Some bps \<Rightarrow>
             ebind (median (map vp_price venues)) (\<lambda>first.
             Inr (filter (\<lambda>v. abs_big (vp_price v - first) * 10000 \<le> bps * first) venues))) (\<lambda>kept.
       if pm_maxDeviationBps m \<noteq> None \<and> int (length kept) < pm_minVenues m then Inr None
       else
         ebind (median (map vp_price kept)) (\<lambda>price.
         ebind (median (map (\<lambda>v. abs_big (vp_price v - price)) kept)) (\<lambda>mad.
         ebind (median (map vp_halfSpread kept)) (\<lambda>halfSpread.
         ebind (median (map vp_gap kept)) (\<lambda>gap.
         ebind (median (map vp_timeMs kept)) (\<lambda>time.
         Inr (Some \<lparr>ag_price = price, ag_conf = foldl (\<lambda>a b. if a > b then a else b) mad [halfSpread, gap],
           ag_sourceTimeMs = time\<rparr>))))))))"

definition aggregate_feed :: "MarketData \<Rightarrow> PriceMethod \<Rightarrow> int \<Rightarrow> AggregatePrice option result" where
  "aggregate_feed md m tickMs =
    ebind (emap (\<lambda>market. marketPrice md m market tickMs) (pm_markets m)) (\<lambda>prices.
    combine m (filter (\<lambda>v. vp_price v > 0) (List.map_filter (\<lambda>v. v) prices)))"

fun observeFeed :: "MarketData \<Rightarrow> int \<Rightarrow> FeedConfig \<Rightarrow> ObservationEntry option result" where
  "observeFeed md tickMs (MarketFeed b m) =
    ebind (aggregate_feed md m tickMs) (\<lambda>r.
    case r of
      None \<Rightarrow> Inr None
    | Some a \<Rightarrow>
        let price = toExpo (ag_price a) (fb_expo b)
        in if price \<le> 0 then Inr None
           else Inr (Some \<lparr>oe_feedId = fb_feedId b, oe_price = price, oe_conf = toExpo (ag_conf a) (fb_expo b),
                  oe_sourceTimeMs = ag_sourceTimeMs a\<rparr>))"
| "observeFeed md tickMs (TwapFeed b t stray) = Inr None"

definition observeFeeds :: "CommitteeConfig \<Rightarrow> MarketData \<Rightarrow> int \<Rightarrow> ObservationEntry list result" where
  "observeFeeds config md tickMs =
    ebind (emap (observeFeed md tickMs) (marketFeeds (c_feeds config))) (\<lambda>es.
    Inr (List.map_filter (\<lambda>e. e) es))"

section \<open>Trades against the book\<close>

text \<open>What the filter means: some quote within the tolerance after the state in force, or that state itself.\<close>

definition in_force :: "Quote list \<Rightarrow> int \<Rightarrow> Quote option" where
  "in_force quotes atMs = find (\<lambda>q. q_timeMs q \<le> atMs) (rev quotes)"

definition near_book :: "Quote list \<Rightarrow> int \<Rightarrow> int \<Rightarrow> Trade \<Rightarrow> bool" where
  "near_book quotes tolerance slack t \<longleftrightarrow>
    (case in_force quotes (t_timeMs t - tolerance) of None \<Rightarrow> False | Some q \<Rightarrow> inside_book slack t q) \<or>
    (\<exists>q \<in> set quotes. t_timeMs t - tolerance < q_timeMs q \<and> q_timeMs q \<le> t_timeMs t + tolerance \<and> inside_book slack t q)"

lemma advance_lo_bounds:
  assumes "\<forall>j < lo. q_timeMs (quotes ! j) \<le> limit" "lo \<le> length quotes"
  shows "let k = advance_lo quotes limit lo in lo \<le> k \<and> k \<le> length quotes \<and> (\<forall>j < k. q_timeMs (quotes ! j) \<le> limit) \<and>
    (k < length quotes \<longrightarrow> limit < q_timeMs (quotes ! k))"
  using assms
proof (induction quotes limit lo rule: advance_lo.induct)
  case (1 quotes limit lo)
  show ?case
  proof (cases "lo < length quotes \<and> q_timeMs (quotes ! lo) \<le> limit")
    case True
    with 1 have "let k = advance_lo quotes limit (Suc lo) in Suc lo \<le> k \<and> k \<le> length quotes \<and> (\<forall>j < k. q_timeMs (quotes ! j) \<le> limit) \<and>
        (k < length quotes \<longrightarrow> limit < q_timeMs (quotes ! k))"
      by (auto simp: less_Suc_eq)
    with True show ?thesis by (subst advance_lo.simps) (simp add: Let_def)
  next
    case False
    with 1 show ?thesis by (subst advance_lo.simps) auto
  qed
qed

lemma sorted_prefix_length:
  assumes "sorted (map time xs)" "k \<le> length xs" "\<forall>j < k. time (xs ! j) \<le> limit"
    and "k < length xs \<longrightarrow> (limit :: int) < time (xs ! k)"
  shows "filter (\<lambda>x. time x \<le> limit) xs = take k xs" "filter (\<lambda>x. limit < time x) xs = drop k xs"
proof -
  have le: "\<forall>x \<in> set (take k xs). time x \<le> limit" using assms(2,3) by (auto simp: in_set_conv_nth)
  have gt: "limit < time x" if "x \<in> set (drop k xs)" for x
  proof -
    from that obtain i where i: "i < length xs - k" "x = drop k xs ! i" by (auto simp: in_set_conv_nth)
    with assms(2) have "x = xs ! (k + i)" "k + i < length xs" by simp_all
    with assms(4) sorted_nth_mono[OF assms(1), of k "k + i"] show ?thesis by simp
  qed
  have "xs = take k xs @ drop k xs" by simp
  then have "filter p xs = filter p (take k xs) @ filter p (drop k xs)" for p by (metis filter_append)
  moreover have "filter (\<lambda>x. time x \<le> limit) (drop k xs) = []" "filter (\<lambda>x. limit < time x) (take k xs) = []"
    using le gt by (force simp: filter_empty_conv)+
  moreover have "filter (\<lambda>x. time x \<le> limit) (take k xs) = take k xs" "filter (\<lambda>x. limit < time x) (drop k xs) = drop k xs"
    using le gt by auto
  ultimately show "filter (\<lambda>x. time x \<le> limit) xs = take k xs" "filter (\<lambda>x. limit < time x) xs = drop k xs" by simp_all
qed

lemma scan_book_iff:
  "scan_book quotes limit slack t j ok \<longleftrightarrow>
    ok \<or> (\<exists>q \<in> set (takeWhile (\<lambda>q. q_timeMs q \<le> limit) (drop j quotes)). inside_book slack t q)"
proof (induction quotes limit slack t j ok rule: scan_book.induct)
  case (1 quotes limit slack t j ok)
  show ?case
  proof (cases "\<not> ok \<and> j < length quotes \<and> q_timeMs (quotes ! j) \<le> limit")
    case True
    then have "drop j quotes = quotes ! j # drop (Suc j) quotes" by (simp add: Cons_nth_drop_Suc)
    with True 1 show ?thesis by (subst scan_book.simps) simp
  next
    case False
    then have "ok \<or> takeWhile (\<lambda>q. q_timeMs q \<le> limit) (drop j quotes) = []"
      by (cases "j < length quotes") (auto simp: Cons_nth_drop_Suc[symmetric])
    with False show ?thesis by (subst scan_book.simps) auto
  qed
qed

lemma sorted_takeWhile_filter: "sorted (map time xs) \<Longrightarrow> takeWhile (\<lambda>x. time x \<le> (limit :: int)) xs = filter (\<lambda>x. time x \<le> limit) xs"
proof (induction xs)
  case (Cons x xs)
  show ?case
  proof (cases "time x \<le> limit")
    case False
    with Cons.prems have "filter (\<lambda>x. time x \<le> limit) xs = []" by (force simp: filter_empty_conv)
    with False show ?thesis by simp
  qed (use Cons in simp)
qed simp

lemma find_rev_filter: "find p (rev xs) = (if filter p xs = [] then None else Some (last (filter p xs)))"
  by (induction xs rule: rev_induct) auto

lemma keep_iff:
  assumes "sorted (map q_timeMs quotes)" "k \<le> length quotes" "\<forall>j < k. q_timeMs (quotes ! j) \<le> t_timeMs t - tol"
    and "k < length quotes \<longrightarrow> t_timeMs t - tol < q_timeMs (quotes ! k)"
  shows "scan_book quotes (t_timeMs t + tol) slack t k (k > 0 \<and> inside_book slack t (quotes ! (k - 1))) \<longleftrightarrow> near_book quotes tol slack t"
proof -
  note parts = sorted_prefix_length[OF assms]
  have "in_force quotes (t_timeMs t - tol) = (if k = 0 then None else Some (quotes ! (k - 1)))"
    using assms(2) by (cases "k = 0") (auto simp: in_force_def find_rev_filter parts(1) last_conv_nth)
  moreover have "sorted (map q_timeMs (drop k quotes))" using assms(1) by (metis drop_map sorted_wrt_drop)
  then have "set (takeWhile (\<lambda>q. q_timeMs q \<le> t_timeMs t + tol) (drop k quotes)) =
      {q \<in> set quotes. t_timeMs t - tol < q_timeMs q \<and> q_timeMs q \<le> t_timeMs t + tol}"
    by (simp only: sorted_takeWhile_filter flip: parts(2)) auto
  ultimately show ?thesis by (auto simp: scan_book_iff near_book_def)
qed

lemma inside_loop_filter:
  assumes "sorted (map q_timeMs quotes)" "sorted (map t_timeMs ts)" "lo \<le> length quotes"
    and "\<forall>j < lo. \<forall>t \<in> set ts. q_timeMs (quotes ! j) \<le> t_timeMs t - tol"
  shows "inside_loop quotes tol slack lo ts = filter (near_book quotes tol slack) ts"
  using assms(2-)
proof (induction ts arbitrary: lo)
  case (Cons t ts)
  define k where "k = advance_lo quotes (t_timeMs t - tol) lo"
  have k: "k \<le> length quotes" "\<forall>j < k. q_timeMs (quotes ! j) \<le> t_timeMs t - tol"
    "k < length quotes \<longrightarrow> t_timeMs t - tol < q_timeMs (quotes ! k)"
    using advance_lo_bounds[of lo quotes "t_timeMs t - tol"] Cons.prems by (auto simp: k_def Let_def)
  have "inside_loop quotes tol slack k ts = filter (near_book quotes tol slack) ts"
    by (rule Cons.IH) (use Cons.prems k in \<open>force+\<close>)
  then show ?case using keep_iff[OF assms(1) k, of slack] by (simp add: Let_def flip: k_def)
qed simp

section \<open>Combining the venues\<close>

lemma combine_Some:
  assumes "combine m venues = Inr (Some a)"
  obtains kept first where "set kept \<subseteq> set venues" "kept \<noteq> []" "pm_minVenues m \<le> int (length kept)"
    "ag_price a = median_of (map vp_price kept)"
    "pm_maxDeviationBps m = None \<longrightarrow> kept = venues"
    "\<forall>bps. pm_maxDeviationBps m = Some bps \<longrightarrow> first = median_of (map vp_price venues) \<and>
       kept = filter (\<lambda>v. \<bar>vp_price v - first\<bar> * 10000 \<le> bps * first) venues"
    "median_of (map (\<lambda>v. \<bar>vp_price v - ag_price a\<bar>) kept) \<le> ag_conf a" "median_of (map vp_halfSpread kept) \<le> ag_conf a"
    "median_of (map vp_gap kept) \<le> ag_conf a" "ag_sourceTimeMs a = median_of (map vp_timeMs kept)"
  using assms by (auto simp: combine_def ebind_eq_Inr median_eq_Inr split: if_splits option.splits)

section \<open>The observation\<close>

lemma observeFeed_Some:
  "observeFeed md t feed = Inr (Some e) \<Longrightarrow> oe_feedId e = feed_id feed \<and> 0 < oe_price e \<and> \<not> isTwapFeed feed"
  by (cases "(md, t, feed)" rule: observeFeed.cases) (auto simp: ebind_eq_Inr Let_def split: option.splits if_splits)

lemma emap_filter_sorted:
  assumes "emap f xs = Inr os" "\<And>x e. f x = Inr (Some e) \<Longrightarrow> key' e = key x" "sorted_wrt (<) (map key xs)"
  shows "sorted_wrt (<) (map key' (List.map_filter (\<lambda>e. e) os))" "set (map key' (List.map_filter (\<lambda>e. e) os)) \<subseteq> key ` set xs"
proof -
  have "sorted_wrt (<) (map key' (List.map_filter (\<lambda>e. e) os)) \<and> set (map key' (List.map_filter (\<lambda>e. e) os)) \<subseteq> key ` set xs"
    using assms(1,3)
  proof (induction xs arbitrary: os)
    case (Cons x xs)
    then obtain o' os' where os: "os = o' # os'" "f x = Inr o'" "emap f xs = Inr os'" by (auto simp: ebind_eq_Inr)
    with Cons have IH: "sorted_wrt (<) (map key' (List.map_filter (\<lambda>e. e) os'))" "set (map key' (List.map_filter (\<lambda>e. e) os')) \<subseteq> key ` set xs"
      by auto
    show ?case
    proof (cases o')
      case None
      with os IH show ?thesis by (auto simp: List.map_filter_simps)
    next
      case (Some e)
      with os assms(2) have "key' e = key x" by simp
      with Some os IH Cons.prems show ?thesis by (auto simp: List.map_filter_simps)
    qed
  qed (simp add: List.map_filter_simps)
  then show "sorted_wrt (<) (map key' (List.map_filter (\<lambda>e. e) os))" "set (map key' (List.map_filter (\<lambda>e. e) os)) \<subseteq> key ` set xs"
    by simp_all
qed

lemma feed_hash_hex: "config_sound C config \<Longrightarrow> f \<in> set (c_feeds config) \<Longrightarrow> feed_id f = bytesToHex (feed_hash C f)"
  by (auto simp: config_sound_def)

lemma ascending_sorted_wrt: "ascending_by (<) xs \<longleftrightarrow> sorted_wrt (<) (xs :: 'a :: linorder list)"
  by (induction xs rule: induct_list012) (auto intro: less_trans)

lemma observe_feeds_sorted:
  assumes "config_sound C config" "observeFeeds config md t = Inr es"
  shows "list_all (\<lambda>e. isHex (oe_feedId e)) es" "sorted_wrt (<) (map entry_key es)"
    "set (map entry_key es) \<subseteq> feed_hash C ` set (marketFeeds (c_feeds config))" "list_all (\<lambda>e. 0 < oe_price e) es"
proof -
  from assms(2) obtain os where os: "emap (observeFeed md t) (marketFeeds (c_feeds config)) = Inr os"
      "es = List.map_filter (\<lambda>e. e) os"
    by (auto simp: observeFeeds_def ebind_eq_Inr)
  have from_feed: "\<exists>f \<in> set (marketFeeds (c_feeds config)). observeFeed md t f = Inr (Some e)" if "e \<in> set es" for e
    using that os(2) emap_member[OF os(1), of "Some e"] by (auto simp: List.map_filter_def)
  have id: "oe_feedId e = bytesToHex (feed_hash C f)" if "f \<in> set (marketFeeds (c_feeds config))" "observeFeed md t f = Inr (Some e)" for e f
    using that observeFeed_Some feed_hash_hex[OF assms(1)] by (auto simp: marketFeeds_def)
  have entry_key: "entry_key e = feed_hash C f" if "oe_feedId e = bytesToHex (feed_hash C f)" for e f
    using that entry_key_hex[of e] by (auto simp: isHex_iff)
  show "list_all (\<lambda>e. isHex (oe_feedId e)) es"
    using from_feed id by (fastforce simp: list_all_iff isHex_iff)
  show "list_all (\<lambda>e. 0 < oe_price e) es"
    using from_feed observeFeed_Some by (fastforce simp: list_all_iff)
  have "sorted_wrt (<) (map (feed_hash C) (c_feeds config))"
    using assms(1) by (simp add: config_sound_def ascending_sorted_wrt)
  then have sorted: "sorted_wrt (<) (map (feed_hash C) (marketFeeds (c_feeds config)))"
    by (simp add: marketFeeds_def sorted_wrt_map sorted_wrt_filter)
  let ?f = "\<lambda>f. if f \<in> set (marketFeeds (c_feeds config)) then observeFeed md t f else Inr None"
  have "emap ?f (marketFeeds (c_feeds config)) = emap (observeFeed md t) (marketFeeds (c_feeds config))"
    by (rule emap_cong) simp_all
  with os(1) have os': "emap ?f (marketFeeds (c_feeds config)) = Inr os" by simp
  have "\<And>f e. ?f f = Inr (Some e) \<Longrightarrow> entry_key e = feed_hash C f"
    using id entry_key by (auto split: if_splits)
  from emap_filter_sorted[of ?f, OF os' this sorted] os(2)
  show "sorted_wrt (<) (map entry_key es)" "set (map entry_key es) \<subseteq> feed_hash C ` set (marketFeeds (c_feeds config))"
    by simp_all
qed

section \<open>The clamp\<close>

lemma book_ordered: "q \<in> set (vwap_window m t (vwap_book md m market t)) \<Longrightarrow> q_bid q \<le> q_ask q"
proof -
  have "set (vwap_window m t book) \<subseteq> set book" for book
    by (auto simp: vwap_window_def last_slice_def Let_def)
  then show "q \<in> set (vwap_window m t (vwap_book md m market t)) \<Longrightarrow> ?thesis" by (fastforce simp: vwap_book_def)
qed

lemma clamped_in_book:
  assumes "clampedVwap md m market t trades = Inr (Some v)" "pm_vwapClampToBook m = Some True"
  defines "w \<equiv> vwap_window m t (vwap_book md m market t)"
  shows "w \<noteq> [] \<and> median_of (map q_bid w) \<le> vp_price v \<and> vp_price v \<le> median_of (map q_ask w)"
proof -
  have w: "w \<noteq> []" and price: "\<exists>p. vp_price v = clamp_price (median_of (map q_bid w)) (median_of (map q_ask w)) p"
    using assms(1) unfolding clampedVwap_def Let_def w_def[symmetric] assms(2)
    by (auto simp: ebind_eq_Inr median_eq_Inr split: if_split_asm)
  have "median_of (map q_bid w) \<le> median_of (map q_ask w)"
    using w book_ordered[of _ m t md market]
    by (intro median_of_mono) (auto simp: list.rel_map w_def intro!: list.rel_refl_strong)
  with w price show ?thesis by (auto simp: clamp_price_def)
qed

section \<open>Properties\<close>

text \<open>The one-pass filter of trades against the book is the declarative one: on trades and quotes in
  order of time it keeps, in order, exactly the trades whose price lies within the slack of the book state
  in force at the trade's time less the tolerance, or of a quote after that and within the tolerance.\<close>

theorem trades_inside_book_exact:
  assumes "sorted (map q_timeMs quotes)" "sorted (map t_timeMs trades)"
  shows "tradesInsideBook trades quotes tol slack = filter (near_book quotes tol slack) trades"
  unfolding tradesInsideBook_def by (rule inside_loop_filter[OF assms]) simp_all

definition demo_trade :: "int \<Rightarrow> int \<Rightarrow> Trade" where
  "demo_trade p t = \<lparr>t_price = p, t_qty = 1, t_timeMs = t\<rparr>"

theorem trades_inside_book_exact_witness:
  "tradesInsideBook [demo_trade 11 100, demo_trade 50 120, demo_trade 21 180] [demo_quote 10 90, demo_quote 20 170] 20 1 =
    [demo_trade 11 100, demo_trade 21 180]"
  using trades_inside_book_exact[of "[demo_quote 10 90, demo_quote 20 170]" "[demo_trade 11 100, demo_trade 50 120, demo_trade 21 180]" 20 1]
  by (simp add: near_book_def in_force_def inside_book_def demo_quote_def demo_trade_def)

text \<open>A feed's price comes from enough venues that agree: the venues kept are venues given, at least
  \<open>minVenues\<close> of them, none further from the first median than \<open>maxDeviationBps\<close>; the price is their
  median, so venues in the minority cannot move it out of the range of the others; and the confidence is
  never below the spread, the deviation or the clamp's gap.\<close>

theorem combined_price_sound:
  assumes "combine m venues = Inr (Some a)"
  shows "\<exists>kept. set kept \<subseteq> set venues \<and> pm_minVenues m \<le> int (length kept) \<and>
    (\<forall>bps. pm_maxDeviationBps m = Some bps \<longrightarrow>
      (\<forall>v \<in> set kept. \<bar>vp_price v - median_of (map vp_price venues)\<bar> * 10000 \<le> bps * median_of (map vp_price venues))) \<and>
    (\<forall>lo hi. 2 * length (filter (\<lambda>v. \<not> (lo \<le> vp_price v \<and> vp_price v \<le> hi)) kept) < length kept \<longrightarrow>
      lo \<le> ag_price a \<and> ag_price a \<le> hi) \<and>
    median_of (map (\<lambda>v. \<bar>vp_price v - ag_price a\<bar>) kept) \<le> ag_conf a \<and>
    median_of (map vp_halfSpread kept) \<le> ag_conf a \<and> median_of (map vp_gap kept) \<le> ag_conf a"
proof -
  obtain kept first where k: "set kept \<subseteq> set venues" "kept \<noteq> []" "pm_minVenues m \<le> int (length kept)"
    "ag_price a = median_of (map vp_price kept)"
    "\<forall>bps. pm_maxDeviationBps m = Some bps \<longrightarrow> first = median_of (map vp_price venues) \<and>
       kept = filter (\<lambda>v. \<bar>vp_price v - first\<bar> * 10000 \<le> bps * first) venues"
    "median_of (map (\<lambda>v. \<bar>vp_price v - ag_price a\<bar>) kept) \<le> ag_conf a" "median_of (map vp_halfSpread kept) \<le> ag_conf a"
    "median_of (map vp_gap kept) \<le> ag_conf a"
    by (rule combine_Some[OF assms]) blast
  have "lo \<le> ag_price a \<and> ag_price a \<le> hi"
    if "2 * length (filter (\<lambda>v. \<not> (lo \<le> vp_price v \<and> vp_price v \<le> hi)) kept) < length kept" for lo hi
    unfolding k(4) by (rule median_of_robust) (use that in \<open>simp add: filter_map o_def\<close>)
  with k show ?thesis by (intro exI[of _ kept]) auto
qed

definition demo_venue :: "int \<Rightarrow> VenuePrice" where
  "demo_venue p = \<lparr>vp_price = p, vp_halfSpread = 2, vp_timeMs = 9, vp_gap = 0\<rparr>"

lemma demo_combine: "combine demo_method [demo_venue 1000, demo_venue 1002, demo_venue 5000] =
    Inr (Some \<lparr>ag_price = 1001, ag_conf = 2, ag_sourceTimeMs = 9\<rparr>)"
  by (simp add: combine_def demo_method_def demo_venue_def median_def Let_def big_div_nonneg)

theorem combined_price_sound_witness:
  "\<exists>kept. set kept \<subseteq> {demo_venue 1000, demo_venue 1002, demo_venue 5000} \<and> 2 \<le> length kept \<and>
     combine demo_method [demo_venue 1000, demo_venue 1002, demo_venue 5000] = Inr (Some \<lparr>ag_price = 1001, ag_conf = 2, ag_sourceTimeMs = 9\<rparr>)"
  using combined_price_sound[OF demo_combine] demo_combine by (auto simp: demo_method_def)

text \<open>With \<open>vwapClampToBook\<close> a venue's trades can move its price at most to the edge of its own book:
  the price lies between the median bid and the median ask of the book's window.\<close>

theorem clamp_to_book:
  assumes "clampedVwap md m market t trades = Inr (Some v)" "pm_vwapClampToBook m = Some True"
  shows "median_of (map q_bid (vwap_window m t (vwap_book md m market t))) \<le> vp_price v \<and>
    vp_price v \<le> median_of (map q_ask (vwap_window m t (vwap_book md m market t)))"
  using clamped_in_book[OF assms] by blast

definition demo_clamp :: PriceMethod where
  "demo_clamp = demo_method\<lparr>pm_method := Vwap, pm_vwapClampToBook := Some True\<rparr>"

definition demo_gate :: MarketConfig where
  "demo_gate = \<lparr>mc_venue = ''gate'', mc_market = ''CKB''\<rparr>"

lemma demo_clamped: "\<exists>v. clampedVwap (deliveries 100000 [QuoteIn ''gate'' ''CKB'' (demo_quote 10 600)]) demo_clamp demo_gate 1000 [demo_trade 999 700] =
    Inr (Some v) \<and> vp_price v = 12"
  by (simp add: clampedVwap_def demo_clamp_def demo_method_def demo_gate_def demo_quote_def demo_trade_def deliveries_def
      new_market_data_def md_quote_def history_push_def history_of_def quotesIn_def vwap_book_def vwap_window_def or_default_def
      md_alive_def clamped_trades_def clamp_price_def trade_volume_def trade_notional_def median_def Let_def big_div_nonneg DEFAULT_MAX_BOOK_AGE_MS_def)

theorem clamp_to_book_witness:
  "\<exists>v. clampedVwap (deliveries 100000 [QuoteIn ''gate'' ''CKB'' (demo_quote 10 600)]) demo_clamp demo_gate 1000 [demo_trade 999 700] =
     Inr (Some v) \<and>
     median_of (map q_bid (vwap_window demo_clamp 1000 (vwap_book (deliveries 100000 [QuoteIn ''gate'' ''CKB'' (demo_quote 10 600)]) demo_clamp demo_gate 1000))) \<le> vp_price v"
proof -
  obtain v where v: "clampedVwap (deliveries 100000 [QuoteIn ''gate'' ''CKB'' (demo_quote 10 600)]) demo_clamp demo_gate 1000 [demo_trade 999 700] = Inr (Some v)"
    using demo_clamped by blast
  have "pm_vwapClampToBook demo_clamp = Some True" by (simp add: demo_clamp_def)
  from clamp_to_book[OF v this] v show ?thesis by blast
qed

text \<open>What a publisher observes for a config that follows the rules is always a well-formed
  observation: positive prices, entries of the config's market feeds, in strictly ascending order of their
  feed ids as the observation codec demands.\<close>

theorem observe_feeds_encodable:
  assumes "config_sound C config" "observeFeeds config md t = Inr es"
  shows "assertSortedUnique es = Inr () \<and> (\<lambda>e. oe_feedId e) ` set es \<subseteq> feed_id ` set (c_feeds config) \<and>
    0 \<notin> oe_price ` set es"
proof -
  note r = observe_feeds_sorted[OF assms]
  have "oe_feedId e \<in> feed_id ` set (c_feeds config)" if "e \<in> set es" for e
  proof -
    from that assms(2) obtain f where "f \<in> set (marketFeeds (c_feeds config))" "observeFeed md t f = Inr (Some e)"
      by (auto simp: observeFeeds_def ebind_eq_Inr List.map_filter_def dest!: emap_member)
    then show ?thesis using observeFeed_Some by (auto simp: marketFeeds_def)
  qed
  moreover have "assertSortedUnique es = Inr ()" using r(1,2) by (simp add: assertSorted_iff ascending_sorted_wrt)
  ultimately show ?thesis using r(4) by (auto simp: list_all_iff)
qed

theorem observe_feeds_encodable_witness:
  "\<exists>es. observeFeeds demo_config (new_market_data 300000) 600000 = Inr es \<and> assertSortedUnique es = Inr ()"
proof -
  have s: "sample_times 599000 600000 = map (\<lambda>i. 600000 - 100 * i) [0..9]"
    by (simp add: sample_times.simps SAMPLE_MS_def upto_rec1)
  have "observeFeeds demo_config (new_market_data 300000) 600000 = Inr []"
    by (simp add: observeFeeds_def demo_config_fields marketFeeds_def aggregate_feed_def marketPrice_def vwapPrice_def midPrice_def
        demo_method_def usableQuote_def lastAliveMs_def new_market_data_def s upto_rec1 List.map_filter_def combine_def Let_def)
  with observe_feeds_encodable[OF validate_Nil[OF demo_config_valid] this] show ?thesis by blast
qed

end
