(* ===== verification/Wire.thy ===== *)
theory Wire
  imports Observation
begin

text \<open>
  \<open>apps/publisher/src/wire.ts\<close>: the frames publishers exchange, the digest a proposer signs, and the
  authentication of a connection. Writing keeps the low bits of a number, so encoding never fails on a
  number; only decoding checks sizes.

  Lemmas: within the field sizes the frames are a \<open>codec\<close>; a hello is accepted exactly when it is signed
  by the key of the index it claims, over the server's challenge and key.
\<close>

section \<open>The code\<close>

record ChosenObservation =
  ch_index :: int
  ch_hash :: hex

record ProposalBody =
  pb_tickMs :: int
  pb_anchorTickMs :: int
  pb_anchorHash :: hex
  pb_prevTickMs :: int
  pb_chosen :: "ChosenObservation list"

record SignedProposal =
  sp_rank :: int
  sp_proposer :: int
  sp_body :: ProposalBody
  sp_signature :: hex

datatype PeerMessage =
    ObservationMsg SignedObservation
  | ProposalMsg SignedProposal
  | TickRequest int
  | SignatureMsg int hex hex
  | ObsRequest int "int list"
  | SyncRequest int
  | SyncResponse "bytes list"

text \<open>\<open>setUint16(0, v, true)\<close> and the like: the low bits, least significant byte first.\<close>

definition out_uint :: "nat \<Rightarrow> int \<Rightarrow> bytes" where
  "out_uint n v = le_bytes n (v mod 2 ^ (n * 8))"

definition DOMAIN_PROPOSAL :: bytes where "DOMAIN_PROPOSAL = text_bytes ''LEAN/PROPOSAL/V1''"

definition encodeChosen :: "ChosenObservation \<Rightarrow> bytes result" where
  "encodeChosen c = ebind (hexToBytes (ch_hash c)) (\<lambda>h. Inr (out_uint 1 (ch_index c) @ h))"

definition encodeBody :: "int \<Rightarrow> int \<Rightarrow> ProposalBody \<Rightarrow> bytes result" where
  "encodeBody rank proposer b =
    ebind (hexToBytes (pb_anchorHash b)) (\<lambda>anchor.
    ebind (emap encodeChosen (pb_chosen b)) (\<lambda>chosen.
    Inr (out_uint 1 rank @ out_uint 1 proposer @ out_uint 8 (pb_tickMs b) @ out_uint 8 (pb_anchorTickMs b) @ anchor @
      out_uint 8 (pb_prevTickMs b) @ out_uint 1 (int (length (pb_chosen b))) @ concat chosen)))"

definition proposalDigest :: "crypto \<Rightarrow> int \<Rightarrow> int \<Rightarrow> ProposalBody \<Rightarrow> hex result" where
  "proposalDigest C rank proposer body =
    ebind (encodeBody rank proposer body) (\<lambda>e. Inr (bytesToHex (ckbHash C [DOMAIN_PROPOSAL, e])))"

fun frame_type :: "PeerMessage \<Rightarrow> int" where
  "frame_type (ObservationMsg _) = 1"
| "frame_type (ProposalMsg _) = 2"
| "frame_type (SignatureMsg _ _ _) = 3"
| "frame_type (ObsRequest _ _) = 4"
| "frame_type (SyncRequest _) = 5"
| "frame_type (SyncResponse _) = 6"
| "frame_type (TickRequest _) = 7"

fun encodePayload :: "PeerMessage \<Rightarrow> bytes result" where
  "encodePayload (ObservationMsg so) = encodeSignedObservation so"
| "encodePayload (ProposalMsg p) =
    ebind (encodeBody (sp_rank p) (sp_proposer p) (sp_body p)) (\<lambda>body.
    ebind (hexToBytes (sp_signature p)) (\<lambda>sig. Inr (body @ sig)))"
| "encodePayload (TickRequest t) = Inr (out_uint 8 t)"
| "encodePayload (SignatureMsg t h sig) =
    ebind (hexToBytes h) (\<lambda>hb. ebind (hexToBytes sig) (\<lambda>sb. Inr (out_uint 8 t @ hb @ sb)))"
| "encodePayload (ObsRequest t indexes) =
    Inr (out_uint 8 t @ out_uint 1 (int (length indexes)) @ concat (map (out_uint 1) indexes))"
| "encodePayload (SyncRequest t) = Inr (out_uint 8 t)"
| "encodePayload (SyncResponse blobs) =
    Inr (out_uint 2 (int (length blobs)) @ concat (map (\<lambda>b. out_uint 4 (int (length b)) @ b) blobs))"

definition encodeMessage :: "PeerMessage \<Rightarrow> bytes result" where
  "encodeMessage m = ebind (encodePayload m) (\<lambda>p. Inr (out_uint 1 (frame_type m) @ p))"

text \<open>The class \<open>In\<close>: a reader whose errors are plain ones.\<close>

definition in_take :: "nat \<Rightarrow> bytes reading" where
  "in_take n r =
    (if rd_offset r + n > length (rd_data r) then Inl (Failure ''truncated frame'')
     else Inr (take n (drop (rd_offset r) (rd_data r)), r\<lparr>rd_offset := rd_offset r + n\<rparr>))"

definition in_uint :: "nat \<Rightarrow> int reading" where
  "in_uint n = rbind (in_take n) (\<lambda>bs. rret (le_value bs))"

definition in_hex :: "nat \<Rightarrow> hex reading" where
  "in_hex n = rbind (in_take n) (\<lambda>bs. rret (bytesToHex bs))"

definition in_rest :: "bytes reading" where
  "in_rest r = in_take (length (rd_data r) - rd_offset r) r"

definition in_end :: "unit reading" where
  "in_end r = (if rd_offset r \<noteq> length (rd_data r) then Inl (Failure ''trailing bytes in frame'') else Inr ((), r))"

definition readChosen :: "ChosenObservation reading" where
  "readChosen = rbind (in_uint 1) (\<lambda>i. rbind (in_hex 32) (\<lambda>h. rret \<lparr>ch_index = i, ch_hash = h\<rparr>))"

definition readProposal :: "PeerMessage reading" where
  "readProposal =
    rbind (in_uint 1) (\<lambda>rank.
    rbind (in_uint 1) (\<lambda>proposer.
    rbind (in_uint 8) (\<lambda>tick.
    rbind (in_uint 8) (\<lambda>anchorTick.
    rbind (in_hex 32) (\<lambda>anchorHash.
    rbind (in_uint 8) (\<lambda>prevTick.
    rbind (in_uint 1) (\<lambda>n.
    rbind (r_repeat (nat n) readChosen) (\<lambda>chosen.
    rbind (in_hex 65) (\<lambda>sig.
    rret (ProposalMsg \<lparr>sp_rank = rank, sp_proposer = proposer,
      sp_body = \<lparr>pb_tickMs = tick, pb_anchorTickMs = anchorTick, pb_anchorHash = anchorHash, pb_prevTickMs = prevTick,
        pb_chosen = chosen\<rparr>, sp_signature = sig\<rparr>))))))))))"

definition readSignatureMsg :: "PeerMessage reading" where
  "readSignatureMsg =
    rbind (in_uint 8) (\<lambda>t. rbind (in_hex 32) (\<lambda>h. rbind (in_hex 65) (\<lambda>sig. rret (SignatureMsg t h sig))))"

definition readObsRequest :: "PeerMessage reading" where
  "readObsRequest =
    rbind (in_uint 8) (\<lambda>t. rbind (in_uint 1) (\<lambda>n. rbind (r_repeat (nat n) (in_uint 1)) (\<lambda>is. rret (ObsRequest t is))))"

definition readBlob :: "bytes reading" where
  "readBlob = rbind (in_uint 4) (\<lambda>n. in_take (nat n))"

definition readSyncResponse :: "PeerMessage reading" where
  "readSyncResponse = rbind (in_uint 2) (\<lambda>n. rbind (r_repeat (nat n) readBlob) (\<lambda>bs. rret (SyncResponse bs)))"

definition readPayload :: "int \<Rightarrow> PeerMessage reading" where
  "readPayload type =
    (if type = 2 then readProposal
     else if type = 7 then rbind (in_uint 8) (\<lambda>t. rret (TickRequest t))
     else if type = 3 then readSignatureMsg
     else if type = 4 then readObsRequest
     else if type = 5 then rbind (in_uint 8) (\<lambda>t. rret (SyncRequest t))
     else if type = 6 then readSyncResponse
     else rlift (Inl (Failure ''unknown frame type'')))"

definition decodeMessage :: "bytes \<Rightarrow> PeerMessage result" where
  "decodeMessage data =
    run_reader (rbind (in_uint 1) (\<lambda>type.
      if type = 1 then
        rbind in_rest (\<lambda>bs. rbind (rlift (decodeSignedObservation (Raw bs))) (\<lambda>so. rret (ObservationMsg so)))
      else rbind (readPayload type) (\<lambda>m. rbind in_end (\<lambda>_. rret m)))) data ''frame''"

definition helloDigest :: "crypto \<Rightarrow> bytes \<Rightarrow> hex \<Rightarrow> int \<Rightarrow> hex result" where
  "helloDigest C challenge serverPubkey clientIndex =
    ebind (hexToBytes serverPubkey) (\<lambda>key.
    Inr (bytesToHex (ckbHash C [DOMAIN_PEER_HELLO, challenge, key, out_uint 1 clientIndex])))"

text \<open>The signer is an argument. \<open>out.set(signature, 1)\<close> throws if the signature does not fit.\<close>

definition answerHello :: "crypto \<Rightarrow> bytes \<Rightarrow> hex \<Rightarrow> int \<Rightarrow> (hex \<Rightarrow> hex result) \<Rightarrow> bytes result" where
  "answerHello C challenge serverPubkey selfIndex sign =
    ebind (helloDigest C challenge serverPubkey selfIndex) (\<lambda>digest.
    ebind (sign digest) (\<lambda>sig.
    ebind (hexToBytes sig) (\<lambda>bs.
    if length bs > 65 then Inl (RangeError ''offset is out of bounds'')
    else Inr (out_uint 1 selfIndex @ bs @ replicate (65 - length bs) 0))))"

definition checkHello :: "crypto \<Rightarrow> bytes \<Rightarrow> bytes \<Rightarrow> hex \<Rightarrow> PublisherSet \<Rightarrow> int option result" where
  "checkHello C answer challenge serverPubkey s =
    (if length answer \<noteq> 66 then Inr None
     else
       let index = uint (hd answer)
       in case at_index (pubkeys s) index of
            None \<Rightarrow> Inr None
          | Some key \<Rightarrow>
              if key = [] then Inr None
              else
                ebind (helloDigest C challenge serverPubkey index) (\<lambda>digest.
                ebind (recoverSigner C (HexStr digest) (HexStr (bytesToHex (tl answer)))) (\<lambda>recovered.
                Inr (if recovered = Some (toLowerCase key) then Some index else None))))"

section \<open>Reading what was written\<close>

lemma in_take_eq: "in_take n r = ecatch (r_bytes n r) (\<lambda>_. Inl (Failure ''truncated frame''))"
  by (simp add: in_take_def r_bytes_def Let_def)

lemma reads_catch: "reads rd bs x \<Longrightarrow> reads (\<lambda>r. ecatch (rd r) (h r)) bs x"
  by (simp add: reads_def)

lemma parses_catch: "parses rd P \<Longrightarrow> parses (\<lambda>r. ecatch (rd r) (\<lambda>_. Inl e)) P"
  by (simp add: parses_def)

lemma reads_in_take: "length bs = n \<Longrightarrow> reads (in_take n) bs bs"
  unfolding in_take_eq[abs_def] by (rule reads_catch) (rule reads_bytes)

lemma parses_in_take: "parses (in_take n) (\<lambda>bs x. x = bs \<and> length bs = n)"
  unfolding in_take_eq[abs_def] by (rule parses_catch) (rule parses_bytes)

lemma out_uint_bytes: "out_uint n v = int_bytes n v"
  by (simp add: out_uint_def int_bytes_def)

lemma length_out_uint [simp]: "length (out_uint n v) = n"
  by (simp add: out_uint_bytes)

definition fits :: "nat \<Rightarrow> int \<Rightarrow> bool" where
  "fits n v \<longleftrightarrow> 0 \<le> v \<and> v < 2 ^ (n * 8)"

lemma le_value_out: "fits n v \<Longrightarrow> le_value (out_uint n v) = v"
  by (simp add: fits_def out_uint_def le_value_le_bytes)

lemma reads_in_uint: "fits n v \<Longrightarrow> reads (in_uint n) (out_uint n v) v"
  unfolding in_uint_def
  by (rule reads_bind[where cs = "[]", simplified, OF reads_in_take reads_ret]) (simp_all add: le_value_out)

lemma reads_in_hex: "hexToFixed s n = Inr p \<Longrightarrow> reads (in_hex n) p (toLowerCase s)"
  unfolding in_hex_def
  by (rule reads_bind[where cs = "[]", simplified, OF reads_in_take reads_ret])
     (auto simp: hexToFixed_eq_Inr bytesToHex_hexToBytes)

lemma parses_in_uint: "parses (in_uint n) (\<lambda>bs v. fits n v \<and> bs = out_uint n v)"
  unfolding in_uint_def
proof (rule parses_mono[OF parses_bind[OF parses_in_take parses_ret]], clarify)
  fix bs :: bytes
  assume "n = length bs"
  with le_bytes_le_value[of bs] le_value_bounds[of bs]
  show "fits (length bs) (le_value bs) \<and> bs @ [] = out_uint (length bs) (le_value bs)"
    by (simp add: fits_def out_uint_def)
qed

lemma parses_in_hex: "parses (in_hex n) (\<lambda>bs s. hexToFixed s n = Inr bs \<and> toLowerCase s = s)"
  unfolding in_hex_def
  by (rule parses_mono[OF parses_bind[OF parses_in_take parses_ret]]) auto

lemma in_steps [reads_then]:
  "fits n v \<Longrightarrow> reads (h v) cs y \<Longrightarrow> reads (rbind (in_uint n) h) (out_uint n v @ cs) y"
  "hexToFixed s n = Inr p \<Longrightarrow> reads (g (toLowerCase s)) cs y \<Longrightarrow> reads (rbind (in_hex n) g) (p @ cs) y"
  by (rule reads_bind, rule reads_in_uint, assumption+) (rule reads_bind, rule reads_in_hex, assumption+)

lemma in_end_eq: "in_end r = ecatch (r_end r) (\<lambda>_. Inl (Failure ''trailing bytes in frame''))"
  by (simp add: in_end_def r_end_def)

lemma reads_in_end: "reads rd bs x \<Longrightarrow> rbind rd (\<lambda>m. rbind in_end (\<lambda>_. rret m)) (adv k (reader_of (p @ bs) w)) =
    Inr (x, adv (k + length bs) (reader_of (p @ bs) w))" if "length p = k"
  using that by (auto simp: reads_def rbind_def rret_def in_end_def rest_def reader_of_def adv_def)

section \<open>Frames within the field sizes\<close>

fun message_ok :: "PeerMessage \<Rightarrow> bool" where
  "message_ok (ObservationMsg so) \<longleftrightarrow> True"
| "message_ok (ProposalMsg p) \<longleftrightarrow>
    fits 1 (sp_rank p) \<and> fits 1 (sp_proposer p) \<and> fits 8 (pb_tickMs (sp_body p)) \<and> fits 8 (pb_anchorTickMs (sp_body p)) \<and>
    fits 8 (pb_prevTickMs (sp_body p)) \<and> fits 1 (int (length (pb_chosen (sp_body p)))) \<and>
    (\<exists>a. hexToFixed (pb_anchorHash (sp_body p)) 32 = Inr a) \<and> (\<exists>sig. hexToFixed (sp_signature p) 65 = Inr sig) \<and>
    (\<forall>c \<in> set (pb_chosen (sp_body p)). fits 1 (ch_index c) \<and> (\<exists>h. hexToFixed (ch_hash c) 32 = Inr h))"
| "message_ok (TickRequest t) \<longleftrightarrow> fits 8 t"
| "message_ok (SignatureMsg t h sig) \<longleftrightarrow> fits 8 t \<and> (\<exists>b. hexToFixed h 32 = Inr b) \<and> (\<exists>b. hexToFixed sig 65 = Inr b)"
| "message_ok (ObsRequest t is) \<longleftrightarrow> fits 8 t \<and> fits 1 (int (length is)) \<and> (\<forall>i \<in> set is. fits 1 i)"
| "message_ok (SyncRequest t) \<longleftrightarrow> fits 8 t"
| "message_ok (SyncResponse blobs) \<longleftrightarrow> fits 2 (int (length blobs)) \<and> (\<forall>b \<in> set blobs. fits 4 (int (length b)))"

definition norm_chosen :: "ChosenObservation \<Rightarrow> ChosenObservation" where
  "norm_chosen c = c\<lparr>ch_hash := toLowerCase (ch_hash c)\<rparr>"

definition norm_body :: "ProposalBody \<Rightarrow> ProposalBody" where
  "norm_body b = b\<lparr>pb_anchorHash := toLowerCase (pb_anchorHash b), pb_chosen := map norm_chosen (pb_chosen b)\<rparr>"

fun norm_frame :: "PeerMessage \<Rightarrow> PeerMessage" where
  "norm_frame (ObservationMsg so) = ObservationMsg (norm_signed so)"
| "norm_frame (ProposalMsg p) =
    ProposalMsg (p\<lparr>sp_body := norm_body (sp_body p), sp_signature := toLowerCase (sp_signature p)\<rparr>)"
| "norm_frame (SignatureMsg t h sig) = SignatureMsg t (toLowerCase h) (toLowerCase sig)"
| "norm_frame m = m"

lemma hexToFixed_bytes: "hexToFixed s n = Inr b \<Longrightarrow> hexToBytes s = Inr b"
  by (simp add: hexToFixed_eq_Inr)

lemma encodeChosen_fixed: "hexToFixed (ch_hash c) 32 = Inr h \<Longrightarrow> encodeChosen c = Inr (out_uint 1 (ch_index c) @ h)"
  by (simp add: encodeChosen_def hexToFixed_bytes)

lemma reads_chosen:
  assumes "fits 1 (ch_index c)" "hexToFixed (ch_hash c) 32 = Inr h"
  shows "reads readChosen (out_uint 1 (ch_index c) @ h) (norm_chosen c)"
proof -
  have "reads readChosen (out_uint 1 (ch_index c) @ h @ []) (norm_chosen c)"
    unfolding readChosen_def by (intro reads_then; (rule assms)?) (simp add: norm_chosen_def)
  then show ?thesis by simp
qed

lemma emap_chosen_reads:
  assumes "\<forall>c \<in> set cs. fits 1 (ch_index c) \<and> (\<exists>h. hexToFixed (ch_hash c) 32 = Inr h)"
  shows "\<exists>parts. emap encodeChosen cs = Inr parts \<and> list_all2 (\<lambda>p c. reads readChosen p c) parts (map norm_chosen cs)"
  using assms
proof (induction cs)
  case (Cons c cs)
  then obtain parts h where "emap encodeChosen cs = Inr parts" "list_all2 (\<lambda>p c. reads readChosen p c) parts (map norm_chosen cs)"
      "hexToFixed (ch_hash c) 32 = Inr h" by auto
  with Cons.prems show ?case by (auto simp: encodeChosen_fixed reads_chosen simp del: One_nat_def)
qed simp

lemma reads_proposal:
  assumes "message_ok (ProposalMsg p)"
  shows "\<exists>bs. encodePayload (ProposalMsg p) = Inr bs \<and> reads readProposal bs (norm_frame (ProposalMsg p))"
proof -
  from assms obtain a sig where *: "fits 1 (sp_rank p)" "fits 1 (sp_proposer p)" "fits 8 (pb_tickMs (sp_body p))"
    "fits 8 (pb_anchorTickMs (sp_body p))" "fits 8 (pb_prevTickMs (sp_body p))" "fits 1 (int (length (pb_chosen (sp_body p))))"
    "hexToFixed (pb_anchorHash (sp_body p)) 32 = Inr a" "hexToFixed (sp_signature p) 65 = Inr sig"
    by auto
  obtain parts where parts: "emap encodeChosen (pb_chosen (sp_body p)) = Inr parts"
      "list_all2 (\<lambda>q c. reads readChosen q c) parts (map norm_chosen (pb_chosen (sp_body p)))"
    using emap_chosen_reads assms by (metis message_ok.simps(2))
  let ?bs = "out_uint 1 (sp_rank p) @ out_uint 1 (sp_proposer p) @ out_uint 8 (pb_tickMs (sp_body p)) @
      out_uint 8 (pb_anchorTickMs (sp_body p)) @ a @ out_uint 8 (pb_prevTickMs (sp_body p)) @
      out_uint 1 (int (length (pb_chosen (sp_body p)))) @ concat parts @ sig @ []"
  have "reads readProposal ?bs (norm_frame (ProposalMsg p))"
    unfolding readProposal_def
    by (intro reads_then reads_bind[OF reads_repeat[OF parts(2)]]; (rule *)?) (simp_all add: norm_body_def)
  moreover have "encodePayload (ProposalMsg p) = Inr ?bs"
    using parts(1) * by (simp add: encodeBody_def hexToFixed_bytes)
  ultimately show ?thesis by blast
qed

lemma reads_uints: "(\<forall>i \<in> set is. fits n i) \<Longrightarrow> list_all2 (reads (in_uint n)) (map (out_uint n) is) is"
  by (simp add: list_all2_map1 list.rel_refl_strong reads_in_uint)

lemma reads_blob: "fits 4 (int (length b)) \<Longrightarrow> reads readBlob (out_uint 4 (int (length b)) @ b) b"
  unfolding readBlob_def by (rule reads_bind[OF reads_in_uint]) (simp_all add: reads_in_take)

lemma reads_payload:
  assumes "message_ok m" "encodePayload m = Inr bs" "frame_type m \<noteq> 1"
  shows "reads (readPayload (frame_type m)) bs (norm_frame m)"
proof (cases m)
  case (ProposalMsg p)
  with reads_proposal[of p] assms show ?thesis by (auto simp: readPayload_def simp del: encodePayload.simps)
next
  case (TickRequest t)
  with assms reads_bind[OF reads_in_uint[of 8 t] reads_ret] show ?thesis by (fastforce simp: readPayload_def)
next
  case (SyncRequest t)
  with assms reads_bind[OF reads_in_uint[of 8 t] reads_ret] show ?thesis by (fastforce simp: readPayload_def)
next
  case (SignatureMsg t h sig)
  with assms obtain hb sb where *: "fits 8 t" "hexToFixed h 32 = Inr hb" "hexToFixed sig 65 = Inr sb" by auto
  have "reads readSignatureMsg (out_uint 8 t @ hb @ sb @ []) (norm_frame m)"
    unfolding readSignatureMsg_def SignatureMsg by (intro reads_then; (rule *)?) simp
  with * SignatureMsg assms(2) show ?thesis by (simp add: readPayload_def hexToFixed_bytes)
next
  case (ObsRequest t indexes)
  with assms have *: "fits 8 t" "fits 1 (int (length indexes))" "list_all2 (reads (in_uint 1)) (map (out_uint 1) indexes) indexes"
    by (auto intro: reads_uints)
  have "reads readObsRequest (out_uint 8 t @ out_uint 1 (int (length indexes)) @ concat (map (out_uint 1) indexes) @ []) (norm_frame m)"
    unfolding readObsRequest_def ObsRequest by (intro reads_then reads_bind[OF reads_repeat[OF *(3)]]; (rule *)?) simp_all
  with ObsRequest assms(2) show ?thesis by (simp add: readPayload_def)
next
  case (SyncResponse blobs)
  then have *: "fits 2 (int (length blobs))" "list_all2 (reads readBlob) (map (\<lambda>b. out_uint 4 (int (length b)) @ b) blobs) blobs"
    using assms by (auto simp: list_all2_map1 intro!: list.rel_refl_strong reads_blob)
  have "reads readSyncResponse (out_uint 2 (int (length blobs)) @ concat (map (\<lambda>b. out_uint 4 (int (length b)) @ b) blobs) @ []) (norm_frame m)"
    unfolding readSyncResponse_def SyncResponse by (intro reads_then reads_bind[OF reads_repeat[OF *(2)]]; (rule *)?) simp_all
  with SyncResponse assms(2) show ?thesis by (simp add: readPayload_def)
qed (use assms in simp)

section \<open>Frames that are read\<close>

definition written :: "int \<Rightarrow> bytes \<Rightarrow> PeerMessage \<Rightarrow> bool" where
  "written type bs m \<longleftrightarrow> frame_type m = type \<and> encodePayload m = Inr bs \<and> message_ok m \<and> norm_frame m = m"

lemma parses_chosen:
  "parses readChosen (\<lambda>bs c. encodeChosen c = Inr bs \<and> fits 1 (ch_index c) \<and> (\<exists>h. hexToFixed (ch_hash c) 32 = Inr h) \<and> norm_chosen c = c)"
  unfolding readChosen_def
  by (rule parses_mono[OF parses_bind[OF parses_in_uint parses_bind[OF parses_in_hex parses_ret]]])
     (auto simp: encodeChosen_def hexToFixed_bytes norm_chosen_def)

lemma chosen_parts:
  "list_all2 (\<lambda>bs c. encodeChosen c = Inr bs \<and> fits 1 (ch_index c) \<and> (\<exists>h. hexToFixed (ch_hash c) 32 = Inr h) \<and> norm_chosen c = c) parts cs \<Longrightarrow>
   emap encodeChosen cs = Inr parts \<and> map norm_chosen cs = cs \<and>
   (\<forall>c \<in> set cs. fits 1 (ch_index c) \<and> (\<exists>h. hexToFixed (ch_hash c) 32 = Inr h))"
  by (induction rule: list_all2_induct) auto

lemma parses_proposal: "parses readProposal (written 2)"
  unfolding readProposal_def
proof (rule parses_mono[OF parses_bind[OF parses_in_uint parses_bind[OF parses_in_uint parses_bind[OF parses_in_uint
          parses_bind[OF parses_in_uint parses_bind[OF parses_in_hex parses_bind[OF parses_in_uint
          parses_bind[OF parses_in_uint parses_bind[OF parses_repeat[OF parses_chosen]
          parses_bind[OF parses_in_hex parses_ret]]]]]]]]]], clarify)
  fix rank proposer tick anchorTick a anchorHash prev n parts chosen sb sig
  assume *: "fits 1 rank" "fits 1 proposer" "fits 8 tick" "fits 8 anchorTick" "hexToFixed anchorHash 32 = Inr a"
      "toLowerCase anchorHash = anchorHash" "fits 8 prev" "fits 1 n" "hexToFixed sig 65 = Inr sb" "toLowerCase sig = sig"
    and len: "length chosen = nat n"
    and all: "list_all2 (\<lambda>bs c. encodeChosen c = Inr bs \<and> fits 1 (ch_index c) \<and> (\<exists>h. hexToFixed (ch_hash c) 32 = Inr h) \<and> norm_chosen c = c) parts chosen"
  have n: "n = int (length chosen)" using * len by (simp add: fits_def)
  from chosen_parts[OF all] *
  show "written 2 (out_uint 1 rank @ out_uint 1 proposer @ out_uint 8 tick @ out_uint 8 anchorTick @ a @ out_uint 8 prev @
      out_uint 1 n @ concat parts @ sb @ [])
    (ProposalMsg \<lparr>sp_rank = rank, sp_proposer = proposer, sp_body = \<lparr>pb_tickMs = tick, pb_anchorTickMs = anchorTick,
      pb_anchorHash = anchorHash, pb_prevTickMs = prev, pb_chosen = chosen\<rparr>, sp_signature = sig\<rparr>)"
    unfolding n by (auto simp: written_def encodeBody_def hexToFixed_bytes norm_body_def)
qed

lemma list_all2_uints: "list_all2 (\<lambda>bs v. fits n v \<and> bs = out_uint n v) parts xs \<Longrightarrow> parts = map (out_uint n) xs \<and> (\<forall>x \<in> set xs. fits n x)"
  by (induction rule: list_all2_induct) auto

lemma parses_obs_request: "parses readObsRequest (written 4)"
  unfolding readObsRequest_def
proof (rule parses_mono[OF parses_bind[OF parses_in_uint parses_bind[OF parses_in_uint
          parses_bind[OF parses_repeat[OF parses_in_uint] parses_ret]]]], clarify)
  fix t n parts xs
  assume *: "fits 8 t" "fits 1 n" "length xs = nat n" and all: "list_all2 (\<lambda>bs v. fits 1 v \<and> bs = out_uint 1 v) parts xs"
  from * have n: "n = int (length xs)" by (simp add: fits_def)
  from * list_all2_uints[OF all] show "written 4 (out_uint 8 t @ out_uint 1 n @ concat parts @ []) (ObsRequest t xs)"
    unfolding n by (simp add: written_def)
qed

lemma parses_blob: "parses readBlob (\<lambda>bs b. fits 4 (int (length b)) \<and> bs = out_uint 4 (int (length b)) @ b)"
  unfolding readBlob_def
  by (rule parses_mono[OF parses_bind[OF parses_in_uint parses_in_take]]) (auto simp: fits_def)

lemma list_all2_blobs: "list_all2 (\<lambda>bs b. fits 4 (int (length b)) \<and> bs = out_uint 4 (int (length b)) @ b) parts xs \<Longrightarrow>
    parts = map (\<lambda>b. out_uint 4 (int (length b)) @ b) xs \<and> (\<forall>b \<in> set xs. fits 4 (int (length b)))"
  by (induction rule: list_all2_induct) auto

lemma parses_sync_response: "parses readSyncResponse (written 6)"
  unfolding readSyncResponse_def
proof (rule parses_mono[OF parses_bind[OF parses_in_uint parses_bind[OF parses_repeat[OF parses_blob] parses_ret]]], clarify)
  fix n parts xs
  assume *: "fits 2 n" "length xs = nat n"
    and all: "list_all2 (\<lambda>bs b. fits 4 (int (length b)) \<and> bs = out_uint 4 (int (length b)) @ b) parts (xs :: bytes list)"
  from * have n: "n = int (length xs)" by (simp add: fits_def)
  from * list_all2_blobs[OF all] show "written 6 (out_uint 2 n @ concat parts @ []) (SyncResponse xs)"
    unfolding n by (simp add: written_def)
qed

lemma parses_signature_msg: "parses readSignatureMsg (written 3)"
  unfolding readSignatureMsg_def
  by (rule parses_mono[OF parses_bind[OF parses_in_uint parses_bind[OF parses_in_hex parses_bind[OF parses_in_hex parses_ret]]]])
     (auto simp: written_def hexToFixed_bytes)

lemma parses_tick:
  "parses (rbind (in_uint 8) (\<lambda>t. rret (TickRequest t))) (written 7)"
  "parses (rbind (in_uint 8) (\<lambda>t. rret (SyncRequest t))) (written 5)"
  by (rule parses_mono[OF parses_bind[OF parses_in_uint parses_ret]], auto simp: written_def)+

lemma parses_fail: "parses (rlift (Inl e)) P"
  by (simp add: parses_def rlift_def)

lemma parses_payload: "type \<noteq> 1 \<Longrightarrow> parses (readPayload type) (written type)"
  using parses_proposal parses_obs_request parses_sync_response parses_signature_msg parses_tick parses_fail
  by (auto simp: readPayload_def)

lemma type_fits: "fits 1 (frame_type m)"
  by (cases m) (simp_all add: fits_def)

lemma in_type: "in_uint 1 (reader_of (out_uint 1 t @ bs) w) = Inr (t, adv 1 (reader_of (out_uint 1 t @ bs) w))" if "fits 1 t"
  using reads_in_uint[OF that] by (auto simp: reads_def rest_def reader_of_def)

lemma decode_other:
  assumes "message_ok m" "encodePayload m = Inr bs" "frame_type m \<noteq> 1"
  shows "decodeMessage (out_uint 1 (frame_type m) @ bs) = Inr (norm_frame m)"
proof -
  have "rbind (readPayload (frame_type m)) (\<lambda>m. rbind in_end (\<lambda>_. rret m)) (adv 1 (reader_of (out_uint 1 (frame_type m) @ bs) ''frame'')) =
      Inr (norm_frame m, adv (1 + length bs) (reader_of (out_uint 1 (frame_type m) @ bs) ''frame''))"
    by (rule reads_in_end[OF _ reads_payload[OF assms]]) simp
  with assms(3) show ?thesis by (simp add: decodeMessage_def run_reader_def rbind_def[of "in_uint 1"] in_type[OF type_fits] del: One_nat_def)
qed

lemma in_rest_reader: "in_rest (adv 1 (reader_of (out_uint 1 t @ bs) w)) = Inr (bs, adv (1 + length bs) (reader_of (out_uint 1 t @ bs) w))"
  by (simp add: in_rest_def in_take_def reader_of_def adv_def)

lemma decode_observation_frame: "decodeMessage (out_uint 1 1 @ bs) = ebind (decodeSignedObservation (Raw bs)) (\<lambda>so. Inr (ObservationMsg so))"
proof -
  have f: "fits 1 1" by (simp add: fits_def)
  show ?thesis
    by (cases "decodeSignedObservation (Raw bs)")
      (simp_all add: decodeMessage_def run_reader_def rbind_def in_type[OF f] in_rest_reader rlift_def rret_def del: One_nat_def)
qed

lemma decode_split:
  assumes "decodeMessage data = Inr m"
  obtains t bs where "fits 1 t" "data = out_uint 1 t @ bs"
proof -
  from assms obtain t r where "in_uint 1 (reader_of data ''frame'') = Inr (t, r)"
    by (auto simp: decodeMessage_def run_reader_def rbind_def ebind_eq_Inr)
  with parses_in_uint[of 1] obtain b where "fits 1 t" "b = out_uint 1 t" "rest (reader_of data ''frame'') = b @ rest r"
    unfolding parses_def by blast
  then show ?thesis by (intro that[of t "rest r"]) (simp_all add: rest_def reader_of_def)
qed

lemma decode_payload:
  assumes "decodeMessage (out_uint 1 t @ bs) = Inr m" "fits 1 t" "t \<noteq> 1"
  shows "written t bs m"
proof -
  from assms(1,3) obtain r where r: "readPayload t (adv 1 (reader_of (out_uint 1 t @ bs) ''frame'')) = Inr (m, r)"
      "rd_offset r = length (rd_data r)"
    by (auto simp: decodeMessage_def run_reader_def rbind_def in_type[OF assms(2)] in_end_def rret_def ebind_eq_Inr simp del: One_nat_def split: if_splits)
  from parses_payload[OF assms(3)] r(1) obtain b where b: "written t b m"
      "rest (adv 1 (reader_of (out_uint 1 t @ bs) ''frame'')) = b @ rest r" unfolding parses_def by blast
  have "rest r = []" using r(2) by (simp add: rest_def)
  moreover have "rest (adv 1 (reader_of (out_uint 1 t @ bs) ''frame'')) = bs" by (simp add: rest_def reader_of_def adv_def)
  ultimately show ?thesis using b by simp
qed

text \<open>The frames are a message format in the sense of the codecs, within the sizes of their fields.\<close>

interpretation wire_codec: codec encodeMessage decodeMessage norm_frame message_ok
proof
  fix m bs
  assume ok: "message_ok m" and "encodeMessage m = Inr bs"
  then obtain p where p: "encodePayload m = Inr p" "bs = out_uint 1 (frame_type m) @ p"
    by (auto simp: encodeMessage_def ebind_eq_Inr)
  show "decodeMessage bs = Inr (norm_frame m)"
  proof (cases "frame_type m = 1")
    case True
    then obtain so where m: "m = ObservationMsg so" by (cases m) auto
    from signed_codec.dec_enc[of so p] p(1) m have "decodeSignedObservation (Raw p) = Inr (norm_signed so)" by simp
    with m p(2) decode_observation_frame[of p] show ?thesis by simp
  next
    case False
    from decode_other[OF ok p(1) False] p(2) show ?thesis by simp
  qed
next
  fix bs m
  assume d: "decodeMessage bs = Inr m"
  obtain t p where t: "fits 1 t" "bs = out_uint 1 t @ p" by (rule decode_split[OF d])
  have "encodeMessage m = Inr bs \<and> message_ok m"
  proof (cases "t = 1")
    case True
    with d t(2) have "ebind (decodeSignedObservation (Raw p)) (\<lambda>so. Inr (ObservationMsg so)) = Inr m"
      by (simp only: decode_observation_frame)
    then obtain so where "decodeSignedObservation (Raw p) = Inr so" "m = ObservationMsg so" by (auto simp: ebind_eq_Inr)
    with signed_codec.enc_dec[of p so] t True show ?thesis by (simp add: encodeMessage_def)
  next
    case False
    from decode_payload[OF _ t(1) False] d t(2) have "written t p m" by blast
    with t(2) show ?thesis by (simp add: written_def encodeMessage_def)
  qed
  then show "encodeMessage m = Inr bs" "message_ok m" by simp_all
qed

section \<open>Connections\<close>

lemma hello_digest_bytes:
  assumes "helloDigest C c key i = Inr d"
  shows "\<exists>h. hexToBytes d = Inr h"
  using assms by (auto simp: helloDigest_def ebind_eq_Inr)

lemma recover_hex: "hexToBytes d = Inr h \<Longrightarrow> recoverSigner C (HexStr d) sig = recoverSigner C (Raw h) sig"
proof -
  assume "hexToBytes d = Inr h"
  then have "toBytes (HexStr d) = toBytes (Raw h)" by simp
  then show ?thesis unfolding recoverSigner_def by (simp only:)
qed

section \<open>Properties\<close>

text \<open>Claim C29: a frame has exactly one reading: bytes decode to a message if and only if they are its encoding,
  its fields fit their sizes and its hex is lower-case; every other frame is refused.\<close>

theorem wire_roundtrip:
  "decodeMessage bs = Inr m \<longleftrightarrow> message_ok m \<and> encodeMessage m = Inr bs \<and> norm_frame m = m"
  by (rule wire_codec.dec_iff)

text \<open>A connection is authenticated as publisher \<open>i\<close> exactly when its answer is 66 bytes that start
  with \<open>i\<close>, \<open>i\<close> has a key in the set, and the rest is a signature over this server's challenge, this
  server's key and \<open>i\<close> that recovers to that key; so a hello cannot be replayed to another publisher or
  under another index.\<close>

theorem hello_authenticates:
  "checkHello C answer challenge serverKey s = Inr (Some i) \<longleftrightarrow>
    length answer = 66 \<and> i = uint (hd answer) \<and>
    (\<exists>key digest. at_index (pubkeys s) i = Some key \<and> key \<noteq> [] \<and> helloDigest C challenge serverKey i = Inr digest \<and>
      recoverSigner C (HexStr digest) (HexStr (bytesToHex (tl answer))) = Inr (Some (toLowerCase key)))"
  by (auto simp: checkHello_def Let_def ebind_eq_Inr split: option.splits if_splits)

end
