(* ===== verification/Stores.thy ===== *)
theory Stores
  imports Prelude
begin

text \<open>
  What the stores of the publisher and of the mirror have in common: deletion in batches, the check
  of the store format, and two contracts as locales. \<open>sign_guard\<close> is the promise of a table of
  signed digests: once a digest is granted for a tick no other is, until the tick is forgotten.
  \<open>first_write_log\<close> is the promise of a table of updates: the first row of a key stays until it is
  pruned, so what holds of every row when it is written holds of every row.
\<close>

section \<open>Deletion in batches\<close>

text \<open>\<open>DELETE ... WHERE rowid IN (SELECT rowid ... WHERE p LIMIT k)\<close>: the first \<open>k\<close> rows that satisfy \<open>p\<close>.\<close>

fun tbl_delete_limit :: "('r \<Rightarrow> bool) \<Rightarrow> nat \<Rightarrow> 'r list \<Rightarrow> 'r list" where
  "tbl_delete_limit p k [] = []"
| "tbl_delete_limit p k (r # rs) =
    (if p r \<and> 0 < k then tbl_delete_limit p (k - 1) rs else r # tbl_delete_limit p k rs)"

text \<open>The loop that deletes batches until one is not full; with a batch of 0 it would not end.\<close>

partial_function (option) delete_batches :: "('r \<Rightarrow> bool) \<Rightarrow> nat \<Rightarrow> nat \<Rightarrow> 'r list \<Rightarrow> (nat \<times> 'r list) option" where
  "delete_batches p batch removed rows =
    (let rows' = tbl_delete_limit p batch rows; n = length rows - length rows' in
     if n < batch then Some (removed + n, rows') else delete_batches p batch (removed + n) rows')"

lemma delete_limit_few:
  "length (filter p rows) \<le> k \<Longrightarrow> tbl_delete_limit p k rows = tbl_delete p rows"
  by (induction rows arbitrary: k) (auto simp: tbl_delete_def)

lemma delete_limit_full:
  "k \<le> length (filter p rows) \<Longrightarrow> length (tbl_delete_limit p k rows) + k = length rows \<and>
    length (filter p (tbl_delete_limit p k rows)) + k = length (filter p rows)"
proof (induction rows arbitrary: k)
  case (Cons r rows)
  show ?case
  proof (cases "p r \<and> 0 < k")
    case True
    then have "k - 1 \<le> length (filter p rows)" using Cons.prems by simp
    from Cons.IH[OF this] True show ?thesis by auto
  next
    case False
    then consider "\<not> p r" | "k = 0" by auto
    then show ?thesis
      by cases (use Cons.IH[of k] Cons.prems in auto)
  qed
qed simp

lemma delete_limit_rest: "tbl_delete p (tbl_delete_limit p k rows) = tbl_delete p rows"
  by (induction rows arbitrary: k) (auto simp: tbl_delete_def)

lemma delete_batches_all:
  assumes "0 < batch"
  shows "delete_batches p batch removed rows = Some (removed + length (filter p rows), tbl_delete p rows)"
proof (induction "length (filter p rows)" arbitrary: rows removed rule: less_induct)
  case less
  have part: "length (tbl_delete p rows) + length (filter p rows) = length rows"
    using sum_length_filter_compl[of p rows] by (simp add: tbl_delete_def)
  show ?case
  proof (cases "length (filter p rows) < batch")
    case True
    then have "tbl_delete_limit p batch rows = tbl_delete p rows" by (simp add: delete_limit_few)
    moreover have "length rows - length (tbl_delete p rows) = length (filter p rows)" using part by linarith
    ultimately show ?thesis
      using True by (subst delete_batches.simps) (simp add: Let_def)
  next
    case False
    let ?r = "tbl_delete_limit p batch rows"
    from False delete_limit_full[of batch p rows] have f: "length ?r + batch = length rows"
        "length (filter p ?r) + batch = length (filter p rows)"
      by auto
    then have "delete_batches p batch (removed + batch) ?r =
        Some (removed + batch + length (filter p ?r), tbl_delete p ?r)"
      by (intro less) (use assms in linarith)
    moreover have "length rows - length ?r = batch" using f(1) by linarith
    ultimately show ?thesis
      using f(2) by (subst delete_batches.simps) (simp add: Let_def delete_limit_rest)
  qed
qed

section \<open>Store format\<close>

definition STORE_FORMAT :: int where "STORE_FORMAT = 2"

text \<open>\<open>user_version\<close> and the number of rows of the data table in, the new \<open>user_version\<close> out.\<close>

definition checkStoreFormat :: "int \<Rightarrow> nat \<Rightarrow> int result" where
  "checkStoreFormat version rows =
    (if version = STORE_FORMAT then Inr version
     else if version = 0 \<and> rows = 0 then Inr STORE_FORMAT
     else Inl (Failure ''written by an older data format; start with a fresh data volume''))"

lemma store_format_checked: "checkStoreFormat v n = Inr v' \<Longrightarrow> v' = STORE_FORMAT \<and> (v = STORE_FORMAT \<or> n = 0)"
  by (auto simp: checkStoreFormat_def split: if_splits)

section \<open>The double-sign guard\<close>

text \<open>Every granted digest is the only one of its tick, and it is on record unless its tick is below the floor.\<close>

definition guarded :: "('s \<Rightarrow> int \<Rightarrow> 'h option) \<Rightarrow> 's \<Rightarrow> int \<Rightarrow> (int \<times> 'h) set \<Rightarrow> bool" where
  "guarded held s b G \<longleftrightarrow>
    (\<forall>t h. (t, h) \<in> G \<longrightarrow> (b \<le> t \<longrightarrow> held s t = Some h) \<and> (\<forall>h'. (t, h') \<in> G \<longrightarrow> h' = h))"

lemma guarded_unique: "guarded held s b G \<Longrightarrow> (t, h) \<in> G \<Longrightarrow> (t, h') \<in> G \<Longrightarrow> h = h'"
  unfolding guarded_def by metis

lemma guarded_empty [simp]: "guarded held s b {}"
  by (simp add: guarded_def)

locale sign_guard =
  fixes reserve :: "'s \<Rightarrow> int \<Rightarrow> 'h \<Rightarrow> bool \<times> 's"
    and held :: "'s \<Rightarrow> int \<Rightarrow> 'h option"
    and forget :: "'s \<Rightarrow> int \<Rightarrow> 's"
  assumes reserve_held: "held (snd (reserve s t h)) t' =
      (if t' = t then Some (case held s t of None \<Rightarrow> h | Some h' \<Rightarrow> h') else held s t')"
    and reserve_granted: "fst (reserve s t h) \<longleftrightarrow> held (snd (reserve s t h)) t = Some h"
    and forget_held: "held (forget s b) t = (if t < b then None else held s t)"
begin

lemma guarded_refuse: "guarded held s b G \<Longrightarrow> guarded held (snd (reserve s t h)) b G"
  by (auto simp: guarded_def reserve_held)

lemma guarded_grant:
  assumes "guarded held s b G" "fst (reserve s t h)" "b \<le> t"
  shows "guarded held (snd (reserve s t h)) b (insert (t, h) G)"
proof -
  have h: "held s t = None \<or> held s t = Some h"
    using assms(2) by (auto simp: reserve_granted reserve_held split: option.splits)
  then have "held (snd (reserve s t h)) t = Some h" by (auto simp: reserve_held)
  moreover have "h' = h" if "(t, h') \<in> G" for h'
    using assms(1,3) that h by (auto simp: guarded_def)
  ultimately show ?thesis
    using assms(1) by (fastforce simp: guarded_def reserve_held)
qed

lemma guarded_forget: "guarded held s b G \<Longrightarrow> guarded held (forget s c) (max b c) G"
  by (auto simp: guarded_def forget_held)

end

section \<open>A log whose first write wins\<close>

locale first_write_log =
  fixes save :: "'s \<Rightarrow> 'u \<Rightarrow> 'b \<Rightarrow> bool \<times> 's"
    and row_of :: "'s \<Rightarrow> 'k \<Rightarrow> 'b option"
    and key_of :: "'u \<Rightarrow> 'k"
    and drop_old :: "'s \<Rightarrow> int \<Rightarrow> 's"
    and is_old :: "int \<Rightarrow> 'k \<Rightarrow> bool"
  assumes save_row: "row_of (snd (save s u b)) k = (if k = key_of u \<and> row_of s k = None then Some b else row_of s k)"
    and save_new: "fst (save s u b) \<longleftrightarrow> row_of s (key_of u) = None"
    and drop_row: "row_of (drop_old s c) k = (if is_old c k then None else row_of s k)"
begin

lemma first_write_stays: "row_of s k = Some b \<Longrightarrow> row_of (snd (save s u b')) k = Some b"
  by (simp add: save_row)

lemma rows_good_save:
  assumes "\<And>k b. row_of s k = Some b \<Longrightarrow> good k b" "good (key_of u) b" "row_of (snd (save s u b)) k = Some b'"
  shows "good k b'"
  using assms by (auto simp: save_row split: if_splits)

lemma rows_good_drop:
  assumes "\<And>k b. row_of s k = Some b \<Longrightarrow> good k b" "row_of (drop_old s c) k = Some b"
  shows "good k b"
  using assms by (auto simp: drop_row split: if_splits)

end

end
