(* ===== verification/Publisher_Store.thy ===== *)
theory Publisher_Store
  imports Stores Price_Update Aggregate
begin

text \<open>
  \<open>apps/publisher/src/store.ts\<close> and \<open>retention.ts\<close>: the durable state of a publisher. Each SQLite table is
  a list of rows in insertion order; keys held as decimal text are integers here. Listeners of
  \<open>onFinalized\<close> are represented by what they are given, the list \<open>ps_published\<close>.

  Lemmas: the tables keep their primary keys; the store satisfies the two contracts of Stores
  (the double-sign guard and the log whose first write wins); the state of a feed is that of the
  latest finalized tick with the feed, whatever the order in which ticks were stored.
\<close>

section \<open>Tables\<close>

record SignedTick =
  sg_committee :: hex
  sg_tickMs :: int
  sg_headerHash :: hex

record FinalizedRow =
  fz_committee :: hex
  fz_tickMs :: int
  fz_blob :: bytes

record KeySetRow =
  ks_committee :: hex
  ks_setIndex :: int
  ks_pubkeys :: "hex list"

record FeedStateRow =
  fr_committee :: hex
  fr_feedId :: hex
  fr_state :: FeedState

record PublisherStore =
  ps_committee :: hex
  ps_signed :: "SignedTick list"
  ps_finalized :: "FinalizedRow list"
  ps_keySets :: "KeySetRow list"
  ps_feedState :: "FeedStateRow list"
  ps_published :: "(int \<times> bytes) list"

definition new_store :: "hex \<Rightarrow> PublisherStore" where
  "new_store committee = \<lparr>ps_committee = committee, ps_signed = [], ps_finalized = [], ps_keySets = [],
    ps_feedState = [], ps_published = []\<rparr>"

abbreviation signed_key :: "SignedTick \<Rightarrow> hex \<times> int" where
  "signed_key r \<equiv> (sg_committee r, sg_tickMs r)"

abbreviation finalized_key :: "FinalizedRow \<Rightarrow> hex \<times> int" where
  "finalized_key r \<equiv> (fz_committee r, fz_tickMs r)"

abbreviation key_set_key :: "KeySetRow \<Rightarrow> hex \<times> int" where
  "key_set_key r \<equiv> (ks_committee r, ks_setIndex r)"

abbreviation feed_state_key :: "FeedStateRow \<Rightarrow> hex \<times> hex" where
  "feed_state_key r \<equiv> (fr_committee r, fr_feedId r)"

section \<open>Operations\<close>

definition signed_hash :: "PublisherStore \<Rightarrow> int \<Rightarrow> hex option" where
  "signed_hash s tickMs = map_option sg_headerHash (tbl_find signed_key (ps_committee s, tickMs) (ps_signed s))"

definition reserveSignature :: "PublisherStore \<Rightarrow> int \<Rightarrow> hex \<Rightarrow> bool \<times> PublisherStore" where
  "reserveSignature s tickMs headerHash =
    (let s' = s\<lparr>ps_signed := tbl_insert_ignore signed_key
           \<lparr>sg_committee = ps_committee s, sg_tickMs = tickMs, sg_headerHash = headerHash\<rparr> (ps_signed s)\<rparr>
     in (signed_hash s' tickMs = Some headerHash, s'))"

definition saveKeySet :: "PublisherStore \<Rightarrow> PublisherSet \<Rightarrow> PublisherStore" where
  "saveKeySet s keys = s\<lparr>ps_keySets := tbl_insert_ignore key_set_key
    \<lparr>ks_committee = ps_committee s, ks_setIndex = setIndex keys, ks_pubkeys = pubkeys keys\<rparr> (ps_keySets s)\<rparr>"

definition keySet :: "PublisherStore \<Rightarrow> int \<Rightarrow> PublisherSet option" where
  "keySet s i = map_option (\<lambda>r. \<lparr>setIndex = i, pubkeys = ks_pubkeys r\<rparr>)
    (tbl_find key_set_key (ps_committee s, i) (ps_keySets s))"

definition finalized_row :: "PublisherStore \<Rightarrow> int \<Rightarrow> bytes option" where
  "finalized_row s tickMs = map_option fz_blob (tbl_find finalized_key (ps_committee s, tickMs) (ps_finalized s))"

definition hasFinalized :: "PublisherStore \<Rightarrow> int \<Rightarrow> bool" where
  "hasFinalized s tickMs \<longleftrightarrow> finalized_row s tickMs \<noteq> None"

definition feedState :: "PublisherStore \<Rightarrow> hex \<Rightarrow> FeedState option" where
  "feedState s fid = map_option fr_state (tbl_find feed_state_key (ps_committee s, fid) (ps_feedState s))"

text \<open>One iteration of the loop over the entries.\<close>

definition advance_feed :: "int \<Rightarrow> PublisherStore \<Rightarrow> PriceMessage \<Rightarrow> PublisherStore" where
  "advance_feed tick s m =
    (if (case feedState s (m_feedId m) of None \<Rightarrow> False | Some current \<Rightarrow> tick \<le> fs_tickMs current) then s
     else s\<lparr>ps_feedState := tbl_insert_replace feed_state_key
       \<lparr>fr_committee = ps_committee s, fr_feedId = m_feedId m,
        fr_state = \<lparr>fs_tickMs = tick, fs_emaPrice = m_emaPrice m, fs_emaConf = m_emaConf m\<rparr>\<rparr> (ps_feedState s)\<rparr>)"

text \<open>The transaction: the row, then the state of every feed; then the listeners.\<close>

definition saveFinalized :: "PublisherStore \<Rightarrow> PriceUpdate \<Rightarrow> bytes \<Rightarrow> bool \<times> PublisherStore" where
  "saveFinalized s update blob =
    (let tick = h_publishTimeMs (u_header update) in
     if hasFinalized s tick then (False, s)
     else
       let s1 = s\<lparr>ps_finalized := ps_finalized s @ [\<lparr>fz_committee = ps_committee s, fz_tickMs = tick, fz_blob = blob\<rparr>]\<rparr>;
           s2 = foldl (advance_feed tick) s1 (map e_message (u_entries update))
       in (True, s2\<lparr>ps_published := ps_published s2 @ [(tick, blob)]\<rparr>))"

definition own_rows :: "PublisherStore \<Rightarrow> FinalizedRow list" where
  "own_rows s = filter (\<lambda>r. fz_committee r = ps_committee s) (ps_finalized s)"

definition latestFinalizedTick :: "PublisherStore \<Rightarrow> int option" where
  "latestFinalizedTick s = map_option fz_tickMs (tbl_last_by fz_tickMs (own_rows s))"

definition finalizedAtOrBefore :: "PublisherStore \<Rightarrow> int \<Rightarrow> (int \<times> bytes) option" where
  "finalizedAtOrBefore s tickMs = map_option (\<lambda>r. (fz_tickMs r, fz_blob r))
    (tbl_last_by fz_tickMs (filter (\<lambda>r. fz_tickMs r \<le> tickMs) (own_rows s)))"

definition finalizedAt :: "PublisherStore \<Rightarrow> int \<Rightarrow> hex option" where
  "finalizedAt s tickMs = map_option bytesToHex (finalized_row s tickMs)"

definition finalizedBetween :: "PublisherStore \<Rightarrow> int \<Rightarrow> int \<Rightarrow> (int \<times> bytes) list" where
  "finalizedBetween s fromMs toMs = map (\<lambda>r. (fz_tickMs r, fz_blob r))
    (sort_key fz_tickMs (filter (\<lambda>r. fromMs < fz_tickMs r \<and> fz_tickMs r \<le> toMs) (own_rows s)))"

definition finalizedAfter :: "PublisherStore \<Rightarrow> int \<Rightarrow> nat \<Rightarrow> hex list" where
  "finalizedAfter s afterMs limit = map (\<lambda>r. bytesToHex (fz_blob r))
    (take limit (sort_key fz_tickMs (filter (\<lambda>r. afterMs < fz_tickMs r) (own_rows s))))"

text \<open>\<open>prune\<close> deletes in batches of 5,000; \<open>None\<close> would be a loop that does not end.\<close>

definition prune_batched :: "PublisherStore \<Rightarrow> int \<Rightarrow> nat \<Rightarrow> (nat \<times> PublisherStore) option" where
  "prune_batched s beforeMs batch =
    map_option (\<lambda>(removed, rows). (removed, s\<lparr>ps_finalized := rows,
        ps_signed := tbl_delete (\<lambda>r. sg_committee r = ps_committee s \<and> sg_tickMs r < beforeMs) (ps_signed s)\<rparr>))
      (delete_batches (\<lambda>r. fz_committee r = ps_committee s \<and> fz_tickMs r < beforeMs) batch 0 (ps_finalized s))"

definition PRUNE_BATCH :: nat where "PRUNE_BATCH = 5000"

definition store_prune :: "PublisherStore \<Rightarrow> int \<Rightarrow> (nat \<times> PublisherStore) option" where
  "store_prune s beforeMs = prune_batched s beforeMs PRUNE_BATCH"

text \<open>\<open>startPruning\<close>: the timer prunes what is older than the window, unless the window is 0 or less.\<close>

definition prune_run :: "PublisherStore \<Rightarrow> int \<Rightarrow> int \<Rightarrow> PublisherStore option" where
  "prune_run s windowMs now = (if windowMs \<le> 0 then Some s else map_option snd (store_prune s (now - windowMs)))"

section \<open>Pruning\<close>

text \<open>What is left after a prune, without the batches.\<close>

definition pruned :: "PublisherStore \<Rightarrow> int \<Rightarrow> PublisherStore" where
  "pruned s beforeMs = s\<lparr>
    ps_finalized := tbl_delete (\<lambda>r. fz_committee r = ps_committee s \<and> fz_tickMs r < beforeMs) (ps_finalized s),
    ps_signed := tbl_delete (\<lambda>r. sg_committee r = ps_committee s \<and> sg_tickMs r < beforeMs) (ps_signed s)\<rparr>"

lemma prune_batched_eq:
  "0 < batch \<Longrightarrow> prune_batched s beforeMs batch =
    Some (length (filter (\<lambda>r. fz_committee r = ps_committee s \<and> fz_tickMs r < beforeMs) (ps_finalized s)), pruned s beforeMs)"
  by (simp add: prune_batched_def delete_batches_all pruned_def)

lemma prune_run_eq: "prune_run s w now = Some (if w \<le> 0 then s else pruned s (now - w))"
  by (simp add: prune_run_def store_prune_def prune_batched_eq PRUNE_BATCH_def)

lemma pruned_simps [simp]:
  "ps_committee (pruned s b) = ps_committee s"
  "feedState (pruned s b) f = feedState s f"
  "keySet (pruned s b) i = keySet s i"
  by (simp_all add: pruned_def feedState_def keySet_def)

section \<open>The double-sign guard\<close>

lemma reserve_simps [simp]:
  "ps_committee (snd (reserveSignature s t h)) = ps_committee s"
  "ps_finalized (snd (reserveSignature s t h)) = ps_finalized s"
  "feedState (snd (reserveSignature s t h)) f = feedState s f"
  "keySet (snd (reserveSignature s t h)) i = keySet s i"
  by (simp_all add: reserveSignature_def Let_def feedState_def keySet_def)

interpretation publisher_guard: sign_guard reserveSignature signed_hash pruned
proof
  fix s t h t'
  show "signed_hash (snd (reserveSignature s t h)) t' =
      (if t' = t then Some (case signed_hash s t of None \<Rightarrow> h | Some h' \<Rightarrow> h') else signed_hash s t')"
    by (auto simp: reserveSignature_def Let_def signed_hash_def tbl_find_insert_ignore split: option.splits)
  show "fst (reserveSignature s t h) \<longleftrightarrow> signed_hash (snd (reserveSignature s t h)) t = Some h"
    by (simp add: reserveSignature_def Let_def)
next
  fix s b t
  show "signed_hash (pruned s b) t = (if t < b then None else signed_hash s t)"
  proof (cases "t < b")
    case True
    then have "tbl_find signed_key (ps_committee s, t)
        (tbl_delete (\<lambda>r. sg_committee r = ps_committee s \<and> sg_tickMs r < b) (ps_signed s)) = None"
      by (intro tbl_find_delete_gone) auto
    with True show ?thesis by (simp add: signed_hash_def pruned_def)
  next
    case False
    then have "tbl_find signed_key (ps_committee s, t)
        (tbl_delete (\<lambda>r. sg_committee r = ps_committee s \<and> sg_tickMs r < b) (ps_signed s)) =
        tbl_find signed_key (ps_committee s, t) (ps_signed s)"
      by (intro tbl_find_delete_keep) auto
    with False show ?thesis by (simp add: signed_hash_def pruned_def)
  qed
qed

section \<open>The log of finalized updates\<close>

lemma advance_simps [simp]:
  "ps_committee (advance_feed t s m) = ps_committee s"
  "ps_finalized (advance_feed t s m) = ps_finalized s"
  "ps_signed (advance_feed t s m) = ps_signed s"
  "ps_keySets (advance_feed t s m) = ps_keySets s"
  "ps_published (advance_feed t s m) = ps_published s"
  by (simp_all add: advance_feed_def)

lemma advance_all_simps [simp]:
  "ps_committee (foldl (advance_feed t) s ms) = ps_committee s"
  "ps_finalized (foldl (advance_feed t) s ms) = ps_finalized s"
  "ps_signed (foldl (advance_feed t) s ms) = ps_signed s"
  "ps_keySets (foldl (advance_feed t) s ms) = ps_keySets s"
  "ps_published (foldl (advance_feed t) s ms) = ps_published s"
  by (induction ms arbitrary: s) simp_all

abbreviation tick_of :: "PriceUpdate \<Rightarrow> int" where
  "tick_of u \<equiv> h_publishTimeMs (u_header u)"

lemma save_simps [simp]:
  "ps_committee (snd (saveFinalized s u b)) = ps_committee s"
  "ps_signed (snd (saveFinalized s u b)) = ps_signed s"
  "ps_keySets (snd (saveFinalized s u b)) = ps_keySets s"
  "keySet (snd (saveFinalized s u b)) i = keySet s i"
  "signed_hash (snd (saveFinalized s u b)) t = signed_hash s t"
  by (simp_all add: saveFinalized_def Let_def keySet_def signed_hash_def)

interpretation publisher_log: first_write_log saveFinalized finalized_row tick_of pruned "\<lambda>c t. t < c"
proof
  fix s u b k
  show "finalized_row (snd (saveFinalized s u b)) k =
      (if k = tick_of u \<and> finalized_row s k = None then Some b else finalized_row s k)"
    by (auto simp: saveFinalized_def Let_def finalized_row_def hasFinalized_def tbl_find_def find_append split: option.splits)
  show "fst (saveFinalized s u b) \<longleftrightarrow> finalized_row s (tick_of u) = None"
    by (simp add: saveFinalized_def Let_def hasFinalized_def)
next
  fix s c k
  show "finalized_row (pruned s c) k = (if k < c then None else finalized_row s k)"
  proof (cases "k < c")
    case True
    then have "tbl_find finalized_key (ps_committee s, k)
        (tbl_delete (\<lambda>r. fz_committee r = ps_committee s \<and> fz_tickMs r < c) (ps_finalized s)) = None"
      by (intro tbl_find_delete_gone) auto
    with True show ?thesis by (simp add: finalized_row_def pruned_def)
  next
    case False
    then have "tbl_find finalized_key (ps_committee s, k)
        (tbl_delete (\<lambda>r. fz_committee r = ps_committee s \<and> fz_tickMs r < c) (ps_finalized s)) =
        tbl_find finalized_key (ps_committee s, k) (ps_finalized s)"
      by (intro tbl_find_delete_keep) auto
    with False show ?thesis by (simp add: finalized_row_def pruned_def)
  qed
qed

lemma finalized_row_reserve [simp]: "finalized_row (snd (reserveSignature s t h)) k = finalized_row s k"
  by (simp add: finalized_row_def)

lemma hasFinalized_iff: "hasFinalized s t \<longleftrightarrow> t \<in> fz_tickMs ` set (own_rows s)"
  by (force simp: hasFinalized_def finalized_row_def own_rows_def tbl_find_None)

lemma hasFinalized_save [simp]: "hasFinalized (snd (saveFinalized s u b)) t \<longleftrightarrow> t = tick_of u \<or> hasFinalized s t"
  by (auto simp: hasFinalized_def publisher_log.save_row split: if_splits)

lemma latest_is_greatest:
  "latestFinalizedTick s = Some t \<longleftrightarrow> hasFinalized s t \<and> (\<forall>t'. hasFinalized s t' \<longrightarrow> t' \<le> t)"
proof
  assume "latestFinalizedTick s = Some t"
  then obtain r where "tbl_last_by fz_tickMs (own_rows s) = Some r" "t = fz_tickMs r"
    by (auto simp: latestFinalizedTick_def)
  with tbl_last_by_Some[of fz_tickMs "own_rows s" r]
  show "hasFinalized s t \<and> (\<forall>t'. hasFinalized s t' \<longrightarrow> t' \<le> t)" by (auto simp: hasFinalized_iff)
next
  assume a: "hasFinalized s t \<and> (\<forall>t'. hasFinalized s t' \<longrightarrow> t' \<le> t)"
  then have "own_rows s \<noteq> []" by (auto simp: hasFinalized_iff)
  then obtain r where r: "tbl_last_by fz_tickMs (own_rows s) = Some r"
    using tbl_last_by_None[of fz_tickMs "own_rows s"] by blast
  from tbl_last_by_Some[OF r] a have "fz_tickMs r = t" by (force simp: hasFinalized_iff)
  with r show "latestFinalizedTick s = Some t" by (simp add: latestFinalizedTick_def)
qed

lemma latest_None: "latestFinalizedTick s = None \<longleftrightarrow> (\<forall>t. \<not> hasFinalized s t)"
  by (auto simp: latestFinalizedTick_def hasFinalized_iff)

definition store_wf :: "PublisherStore \<Rightarrow> bool" where
  "store_wf s \<longleftrightarrow> tbl_wf signed_key (ps_signed s) \<and> tbl_wf finalized_key (ps_finalized s) \<and>
    tbl_wf key_set_key (ps_keySets s) \<and> tbl_wf feed_state_key (ps_feedState s)"

lemma wf_advance: "store_wf s \<Longrightarrow> store_wf (foldl (advance_feed t) s ms)"
proof (induction ms arbitrary: s)
  case (Cons m ms)
  then have "store_wf (advance_feed t s m)"
    by (auto simp: store_wf_def advance_feed_def)
  with Cons.IH show ?case by simp
qed simp

lemma store_wf_ops [intro]:
  "store_wf (new_store c)"
  "store_wf s \<Longrightarrow> store_wf (snd (reserveSignature s t h))"
  "store_wf s \<Longrightarrow> store_wf (saveKeySet s k)"
  "store_wf s \<Longrightarrow> store_wf (pruned s b)"
  "store_wf s \<Longrightarrow> store_wf (snd (saveFinalized s u bs))"
proof -
  show "store_wf (new_store c)" by (simp add: store_wf_def new_store_def)
  assume wf: "store_wf s"
  then show "store_wf (snd (reserveSignature s t h))" "store_wf (saveKeySet s k)" "store_wf (pruned s b)"
    by (auto simp: store_wf_def reserveSignature_def saveKeySet_def pruned_def Let_def)
  show "store_wf (snd (saveFinalized s u bs))"
  proof (cases "hasFinalized s (tick_of u)")
    case False
    let ?s = "s\<lparr>ps_finalized := ps_finalized s @ [\<lparr>fz_committee = ps_committee s, fz_tickMs = tick_of u, fz_blob = bs\<rparr>]\<rparr>"
    from False have "finalized_key \<lparr>fz_committee = ps_committee s, fz_tickMs = tick_of u, fz_blob = bs\<rparr> \<notin> finalized_key ` set (ps_finalized s)"
      by (simp add: hasFinalized_def finalized_row_def tbl_find_None)
    with wf have "store_wf ?s" by (auto simp: store_wf_def tbl_wf_def)
    from wf_advance[OF this] False show ?thesis
      by (simp add: saveFinalized_def Let_def store_wf_def)
  qed (use wf in \<open>simp add: saveFinalized_def\<close>)
qed

lemma own_row_found: "store_wf s \<Longrightarrow> r \<in> set (own_rows s) \<Longrightarrow> finalized_row s (fz_tickMs r) = Some (fz_blob r)"
proof -
  assume "store_wf s" "r \<in> set (own_rows s)"
  then have "tbl_find finalized_key (ps_committee s, fz_tickMs r) (ps_finalized s) = Some r"
    by (subst tbl_find_iff) (auto simp: store_wf_def own_rows_def)
  then show ?thesis by (simp add: finalized_row_def)
qed

lemma at_or_before_found:
  assumes "store_wf s" "finalizedAtOrBefore s t = Some (t', b)"
  shows "finalized_row s t' = Some b \<and> t' \<le> t \<and> (\<forall>k. k \<le> t \<longrightarrow> hasFinalized s k \<longrightarrow> k \<le> t')"
proof -
  from assms(2) obtain r where r: "tbl_last_by fz_tickMs (filter (\<lambda>r. fz_tickMs r \<le> t) (own_rows s)) = Some r"
      and t': "t' = fz_tickMs r" "b = fz_blob r"
    by (auto simp: finalizedAtOrBefore_def)
  from tbl_last_by_Some[OF r] have "r \<in> set (own_rows s)" "fz_tickMs r \<le> t"
      "\<forall>r' \<in> set (own_rows s). fz_tickMs r' \<le> t \<longrightarrow> fz_tickMs r' \<le> fz_tickMs r" by auto
  with own_row_found[OF assms(1)] t' show ?thesis by (auto simp: hasFinalized_iff)
qed

lemma between_found: "store_wf s \<Longrightarrow> (t, b) \<in> set (finalizedBetween s f l) \<Longrightarrow> finalized_row s t = Some b \<and> f < t \<and> t \<le> l"
  by (auto simp: finalizedBetween_def dest: own_row_found)

section \<open>Feed state\<close>

definition state_of :: "PriceUpdate \<Rightarrow> hex \<Rightarrow> FeedState option" where
  "state_of u f = map_option (\<lambda>m. \<lparr>fs_tickMs = tick_of u, fs_emaPrice = m_emaPrice m, fs_emaConf = m_emaConf m\<rparr>)
    (find (\<lambda>m. m_feedId m = f) (map e_message (u_entries u)))"

text \<open>The later of two states; the first wins a tie.\<close>

definition later_state :: "FeedState option \<Rightarrow> FeedState option \<Rightarrow> FeedState option" where
  "later_state a b = (case (a, b) of
      (Some c, Some d) \<Rightarrow> if fs_tickMs d \<le> fs_tickMs c then a else b
    | (None, _) \<Rightarrow> b
    | (_, None) \<Rightarrow> a)"

lemma feedState_advance:
  "feedState (advance_feed t s m) f = (if m_feedId m = f
    then later_state (feedState s f) (Some \<lparr>fs_tickMs = t, fs_emaPrice = m_emaPrice m, fs_emaConf = m_emaConf m\<rparr>)
    else feedState s f)"
  by (auto simp: advance_feed_def later_state_def feedState_def tbl_find_insert_replace split: option.splits)

lemma later_state_same: "fs_tickMs c = fs_tickMs d \<Longrightarrow> later_state (later_state a (Some c)) (Some d) = later_state a (Some c)"
  by (auto simp: later_state_def split: option.splits)

lemma feedState_advance_again:
  "feedState s f = later_state a (Some \<lparr>fs_tickMs = t, fs_emaPrice = p, fs_emaConf = c\<rparr>) \<Longrightarrow>
    feedState (foldl (advance_feed t) s ms) f = feedState s f"
  by (induction ms arbitrary: s) (simp_all add: feedState_advance later_state_same)

lemma feedState_advance_all:
  "feedState (foldl (advance_feed t) s ms) f = later_state (feedState s f)
    (map_option (\<lambda>m. \<lparr>fs_tickMs = t, fs_emaPrice = m_emaPrice m, fs_emaConf = m_emaConf m\<rparr>) (find (\<lambda>m. m_feedId m = f) ms))"
proof (induction ms arbitrary: s)
  case Nil
  show ?case by (simp add: later_state_def split: option.splits)
next
  case (Cons m ms)
  show ?case
  proof (cases "m_feedId m = f")
    case True
    then have "feedState (advance_feed t s m) f =
        later_state (feedState s f) (Some \<lparr>fs_tickMs = t, fs_emaPrice = m_emaPrice m, fs_emaConf = m_emaConf m\<rparr>)"
      by (simp add: feedState_advance)
    from feedState_advance_again[OF this] this True show ?thesis by simp
  qed (simp add: Cons.IH feedState_advance)
qed

lemma feedState_save:
  "feedState (snd (saveFinalized s u b)) f = (if hasFinalized s (tick_of u) then feedState s f
    else later_state (feedState s f) (state_of u f))"
proof -
  have published: "feedState (x\<lparr>ps_published := p\<rparr>) f = feedState x f"
      "feedState (x\<lparr>ps_finalized := q\<rparr>) f = feedState x f" for x p q
    by (simp_all add: feedState_def)
  show ?thesis
    by (simp add: saveFinalized_def Let_def published feedState_advance_all state_of_def)
qed

definition saves :: "PublisherStore \<Rightarrow> (PriceUpdate \<times> bytes) list \<Rightarrow> PublisherStore" where
  "saves s us = foldl (\<lambda>s (u, b). snd (saveFinalized s u b)) s us"

definition feed_states :: "(PriceUpdate \<times> bytes) list \<Rightarrow> hex \<Rightarrow> FeedState set" where
  "feed_states us f = {st. \<exists>(u, b) \<in> set us. state_of u f = Some st}"

definition newest :: "FeedState set \<Rightarrow> FeedState option \<Rightarrow> bool" where
  "newest S x \<longleftrightarrow> (case x of None \<Rightarrow> S = {} | Some st \<Rightarrow> st \<in> S \<and> (\<forall>st' \<in> S. fs_tickMs st' \<le> fs_tickMs st))"

lemma hasFinalized_new [simp]: "\<not> hasFinalized (new_store c) t"
  by (simp add: hasFinalized_iff own_rows_def new_store_def)

lemma hasFinalized_saves: "hasFinalized (saves s us) t \<longleftrightarrow> hasFinalized s t \<or> t \<in> (\<lambda>(u, b). tick_of u) ` set us"
  by (induction us arbitrary: s) (auto simp: saves_def)

lemma feed_states_snoc: "feed_states (us @ [(u, b)]) f = feed_states us f \<union> set_option (state_of u f)"
  by (auto simp: feed_states_def)

lemma newest_snoc:
  "newest S x \<Longrightarrow> newest (S \<union> set_option y) (later_state x y)"
  by (fastforce simp: newest_def later_state_def split: option.splits)

lemma feedState_saves:
  assumes "distinct (map (\<lambda>(u, b). tick_of u) us)"
  shows "newest (feed_states us f) (feedState (saves (new_store c) us) f)"
  using assms
proof (induction us rule: rev_induct)
  case Nil
  show ?case by (simp add: newest_def saves_def feed_states_def feedState_def new_store_def)
next
  case (snoc x us)
  obtain u b where x: "x = (u, b)" by (cases x)
  have "\<not> hasFinalized (saves (new_store c) us) (tick_of u)"
    using snoc.prems x by (auto simp: hasFinalized_saves)
  then have "feedState (saves (new_store c) (us @ [x])) f = later_state (feedState (saves (new_store c) us) f) (state_of u f)"
    by (simp add: saves_def x feedState_save)
  with newest_snoc[OF snoc.IH, of "state_of u f"] snoc.prems x show ?case by (simp add: feed_states_snoc)
qed

lemma state_of_tick: "state_of u f = Some st \<Longrightarrow> fs_tickMs st = tick_of u"
  by (auto simp: state_of_def)

lemma newest_unique:
  assumes "distinct (map (\<lambda>(u, b). tick_of u) us)" "newest (feed_states us f) x" "newest (feed_states us f) y"
  shows "x = y"
proof (cases x)
  case None
  with assms(2,3) show ?thesis by (auto simp: newest_def split: option.splits)
next
  case (Some st)
  with assms(2,3) obtain st' where y: "y = Some st'" by (auto simp: newest_def split: option.splits)
  with Some assms(2,3) have m: "st \<in> feed_states us f" "st' \<in> feed_states us f" "fs_tickMs st = fs_tickMs st'"
    by (auto simp: newest_def intro: antisym)
  then obtain u b u' b' where u: "(u, b) \<in> set us" "state_of u f = Some st" "(u', b') \<in> set us" "state_of u' f = Some st'"
    by (auto simp: feed_states_def)
  then have "tick_of u = tick_of u'" using m(3) by (simp add: state_of_tick[symmetric])
  with u assms(1) have "(u, b) = (u', b')"
    using inj_onD[of "\<lambda>(u, b). tick_of u" "set us" "(u, b)" "(u', b')"] by (simp add: distinct_map)
  with u Some y show ?thesis by simp
qed

section \<open>Properties\<close>

text \<open>The state of a feed (its last tick and moving averages) is that of the latest finalized tick with the
  feed, in whatever order the ticks reached the store: publishers that sync the same history in
  different orders derive the same values from it.\<close>

theorem feed_state_converges:
  assumes "distinct (map (\<lambda>(u, b). tick_of u) us)" and "mset vs = mset us"
  shows "newest (feed_states us f) (feedState (saves (new_store c) us) f) \<and>
    feedState (saves (new_store c) vs) f = feedState (saves (new_store c) us) f"
proof -
  have d: "distinct (map (\<lambda>(u, b). tick_of u) vs)"
    using assms by (metis mset_eq_imp_distinct_iff mset_map)
  have "feed_states vs f = feed_states us f"
    unfolding feed_states_def using mset_eq_setD[OF assms(2)] by simp
  then have "newest (feed_states us f) (feedState (saves (new_store c) vs) f)"
    using feedState_saves[OF d, of f c] by simp
  from newest_unique[OF assms(1) this feedState_saves[OF assms(1), of f c]]
  show ?thesis using feedState_saves[OF assms(1), of f c] by simp
qed

definition demo_update :: "int \<Rightarrow> PriceUpdate" where
  "demo_update t = \<lparr>
    u_header = \<lparr>h_publisherSetTypeHash = ''0x00'', h_setIndex = 0, h_publishTimeMs = t, h_tickPeriodMs = 1000,
      h_configHash = ''0x00'', h_leafCount = 1, h_merkleRoot = ''0x00''\<rparr>,
    u_signatures = [],
    u_entries = [\<lparr>e_message = \<lparr>m_feedId = ''0x01'', m_price = t, m_conf = 1, m_expo = 0, m_prevPublishTimeMs = 0,
      m_emaPrice = t, m_emaConf = 1, m_sourceTimeMs = t, m_numPublishers = 3\<rparr>, e_proof = []\<rparr>]\<rparr>"

theorem feed_state_converges_witness:
  "feedState (saves (new_store ''0xaa'') [(demo_update 2000, []), (demo_update 1000, [])]) ''0x01'' =
    feedState (saves (new_store ''0xaa'') [(demo_update 1000, []), (demo_update 2000, [])]) ''0x01''"
  using feed_state_converges[of "[(demo_update 1000, []), (demo_update 2000, [])]"
      "[(demo_update 2000, []), (demo_update 1000, [])]" "''0x01''" "''0xaa''"]
  by (simp add: demo_update_def)

text \<open>Claim C40: pruning returns, whatever the size of the batch (if it is not 0), and removes exactly the finalized
  updates and the signature records of this committee that are older than the bound, and counts the former; the rows
  of other committees in the same database, the key sets and the state of the feeds stay as they are.\<close>

theorem prune_exact:
  assumes "0 < batch"
  shows "\<exists>n s'. prune_batched s before batch = Some (n, s') \<and> n + length (ps_finalized s') = length (ps_finalized s) \<and>
    s' = s\<lparr>ps_finalized := filter (\<lambda>r. fz_committee r \<noteq> ps_committee s \<or> before \<le> fz_tickMs r) (ps_finalized s),
      ps_signed := filter (\<lambda>r. sg_committee r \<noteq> ps_committee s \<or> before \<le> sg_tickMs r) (ps_signed s)\<rparr> \<and>
    (\<forall>t. finalized_row s' t = (if t < before then None else finalized_row s t)) \<and>
    (\<forall>t. signed_hash s' t = (if t < before then None else signed_hash s t)) \<and>
    (\<forall>f. feedState s' f = feedState s f) \<and> (\<forall>i. keySet s' i = keySet s i)"
proof -
  let ?old = "\<lambda>r. fz_committee r = ps_committee s \<and> fz_tickMs r < before"
  have "length (filter ?old xs) + length (tbl_delete ?old xs) = length xs" for xs
    using sum_length_filter_compl[of ?old xs] by (simp add: tbl_delete_def)
  then have count: "length (filter ?old (ps_finalized s)) + length (ps_finalized (pruned s before)) = length (ps_finalized s)"
    by (simp add: pruned_def)
  have left: "pruned s before = s\<lparr>
      ps_finalized := filter (\<lambda>r. fz_committee r \<noteq> ps_committee s \<or> before \<le> fz_tickMs r) (ps_finalized s),
      ps_signed := filter (\<lambda>r. sg_committee r \<noteq> ps_committee s \<or> before \<le> sg_tickMs r) (ps_signed s)\<rparr>"
    by (simp add: pruned_def tbl_delete_def de_Morgan_conj not_less)
  show ?thesis
    by (intro exI conjI allI, rule prune_batched_eq[OF assms], rule count, rule left)
      (simp_all add: publisher_log.drop_row publisher_guard.forget_held)
qed

text \<open>A database that two committees share.\<close>

definition demo_shared :: PublisherStore where
  "demo_shared = (new_store ''0xaa'')\<lparr>
    ps_finalized := [\<lparr>fz_committee = ''0xaa'', fz_tickMs = 1, fz_blob = [1]\<rparr>, \<lparr>fz_committee = ''0xbb'', fz_tickMs = 2, fz_blob = [2]\<rparr>,
      \<lparr>fz_committee = ''0xaa'', fz_tickMs = 3, fz_blob = [3]\<rparr>, \<lparr>fz_committee = ''0xaa'', fz_tickMs = 5, fz_blob = [5]\<rparr>],
    ps_signed := [\<lparr>sg_committee = ''0xbb'', sg_tickMs = 1, sg_headerHash = ''0x01''\<rparr>, \<lparr>sg_committee = ''0xaa'', sg_tickMs = 1, sg_headerHash = ''0x02''\<rparr>]\<rparr>"

theorem prune_exact_witness:
  "\<exists>s'. prune_batched demo_shared 5 1 = Some (2, s') \<and>
    ps_finalized s' = [\<lparr>fz_committee = ''0xbb'', fz_tickMs = 2, fz_blob = [2]\<rparr>, \<lparr>fz_committee = ''0xaa'', fz_tickMs = 5, fz_blob = [5]\<rparr>] \<and>
    ps_signed s' = [\<lparr>sg_committee = ''0xbb'', sg_tickMs = 1, sg_headerHash = ''0x01''\<rparr>]"
proof -
  from prune_exact[of 1 demo_shared 5] obtain n s' where p: "prune_batched demo_shared 5 1 = Some (n, s')"
    "n + length (ps_finalized s') = length (ps_finalized demo_shared)"
    "s' = demo_shared\<lparr>ps_finalized := filter (\<lambda>r. fz_committee r \<noteq> ps_committee demo_shared \<or> 5 \<le> fz_tickMs r) (ps_finalized demo_shared),
      ps_signed := filter (\<lambda>r. sg_committee r \<noteq> ps_committee demo_shared \<or> 5 \<le> sg_tickMs r) (ps_signed demo_shared)\<rparr>"
    by auto
  then show ?thesis by (simp add: demo_shared_def new_store_def)
qed

end
