(* ===== verification/Effects.thy ===== *)
theory Effects
  imports Prelude
begin

text \<open>
  Handlers of a stateful object that may throw: a function from the state to a result and the new
  state. An exception keeps the changes made before it, as in JavaScript. The triple
  \<open>hoare P m Q E\<close> says that from a state in \<open>P\<close> the handler returns in \<open>Q\<close> or throws in \<open>E\<close>; its rules, in
  the collection \<open>hoare_rules\<close>, follow the combinators.
\<close>

named_theorems act_simps \<open>evaluation of handlers\<close>

type_synonym ('s, 'a) act = "'s \<Rightarrow> 'a result \<times> 's"

definition act_return :: "'a \<Rightarrow> ('s, 'a) act" where
  "act_return x s = (Inr x, s)"

definition act_throw :: "js_error \<Rightarrow> ('s, 'a) act" where
  "act_throw e s = (Inl e, s)"

definition act_bind :: "('s, 'a) act \<Rightarrow> ('a \<Rightarrow> ('s, 'b) act) \<Rightarrow> ('s, 'b) act" where
  "act_bind m f s = (case m s of (Inl e, s') \<Rightarrow> (Inl e, s') | (Inr x, s') \<Rightarrow> f x s')"

definition act_then :: "('s, 'a) act \<Rightarrow> ('s, 'b) act \<Rightarrow> ('s, 'b) act" where
  "act_then m k = act_bind m (\<lambda>_. k)"

definition act_get :: "('s \<Rightarrow> 'a) \<Rightarrow> ('s, 'a) act" where
  "act_get g s = (Inr (g s), s)"

definition act_modify :: "('s \<Rightarrow> 's) \<Rightarrow> ('s, unit) act" where
  "act_modify g s = (Inr (), g s)"

text \<open>A step of a part of the state that also returns a value.\<close>

definition act_update :: "('s \<Rightarrow> 'a \<times> 's) \<Rightarrow> ('s, 'a) act" where
  "act_update g s = (Inr (fst (g s)), snd (g s))"

text \<open>A pure computation that may throw.\<close>

definition act_lift :: "'a result \<Rightarrow> ('s, 'a) act" where
  "act_lift r s = (r, s)"

text \<open>\<open>for (const x of xs) body(x)\<close>.\<close>

fun act_each :: "('a \<Rightarrow> ('s, unit) act) \<Rightarrow> 'a list \<Rightarrow> ('s, unit) act" where
  "act_each f [] = act_return ()"
| "act_each f (x # xs) = act_then (f x) (act_each f xs)"

text \<open>\<open>try { m } catch (e) { h(e) }\<close>.\<close>

definition act_catch :: "('s, 'a) act \<Rightarrow> (js_error \<Rightarrow> ('s, 'a) act) \<Rightarrow> ('s, 'a) act" where
  "act_catch m h s = (case m s of (Inl e, s') \<Rightarrow> h e s' | (Inr x, s') \<Rightarrow> (Inr x, s'))"

definition hoare :: "('s \<Rightarrow> bool) \<Rightarrow> ('s, 'a) act \<Rightarrow> ('a \<Rightarrow> 's \<Rightarrow> bool) \<Rightarrow> ('s \<Rightarrow> bool) \<Rightarrow> bool" where
  "hoare P m Q E \<longleftrightarrow> (\<forall>s. P s \<longrightarrow> (case m s of (Inl e, s') \<Rightarrow> E s' | (Inr x, s') \<Rightarrow> Q x s'))"

text \<open>The handler keeps \<open>I\<close>, whether it returns or throws.\<close>

definition keeps :: "('s \<Rightarrow> bool) \<Rightarrow> ('s, 'a) act \<Rightarrow> bool" where
  "keeps I m \<longleftrightarrow> (\<forall>s. I s \<longrightarrow> I (snd (m s)))"

named_theorems hoare_rules \<open>proof rules of the handlers\<close>

lemma hoare_return [hoare_rules]: "(\<And>s. P s \<Longrightarrow> Q x s) \<Longrightarrow> hoare P (act_return x) Q E"
  by (simp add: hoare_def act_return_def)

lemma hoare_throw [hoare_rules]: "(\<And>s. P s \<Longrightarrow> E s) \<Longrightarrow> hoare P (act_throw e) Q E"
  by (simp add: hoare_def act_throw_def)

lemma hoare_bind: "hoare P m R E \<Longrightarrow> (\<And>x. hoare (R x) (f x) Q E) \<Longrightarrow> hoare P (act_bind m f) Q E"
  by (fastforce simp: hoare_def act_bind_def split: prod.splits sum.splits)

lemma hoare_pre: "hoare P m Q E \<Longrightarrow> (\<And>s. P' s \<Longrightarrow> P s) \<Longrightarrow> hoare P' m Q E"
  by (simp add: hoare_def)

lemma hoare_post: "hoare P m Q E \<Longrightarrow> (\<And>x s. Q x s \<Longrightarrow> Q' x s) \<Longrightarrow> (\<And>s. E s \<Longrightarrow> E' s) \<Longrightarrow> hoare P m Q' E'"
  by (fastforce simp: hoare_def split: prod.splits sum.splits)

lemma hoare_get_bind [hoare_rules]:
  "(\<And>x. hoare (\<lambda>s. P s \<and> g s = x) (f x) Q E) \<Longrightarrow> hoare P (act_bind (act_get g) f) Q E"
  by (simp add: hoare_def act_bind_def act_get_def)

lemma hoare_lift_bind [hoare_rules]:
  "(\<And>x. r = Inr x \<Longrightarrow> hoare P (f x) Q E) \<Longrightarrow> (\<And>s. P s \<Longrightarrow> E s) \<Longrightarrow> hoare P (act_bind (act_lift r) f) Q E"
  by (cases r) (simp_all add: hoare_def act_bind_def act_lift_def)

lemma hoare_modify: "(\<And>s. P s \<Longrightarrow> Q () (g s)) \<Longrightarrow> hoare P (act_modify g) Q E"
  by (simp add: hoare_def act_modify_def)

lemma hoare_update: "(\<And>s. P s \<Longrightarrow> Q (fst (g s)) (snd (g s))) \<Longrightarrow> hoare P (act_update g) Q E"
  by (simp add: hoare_def act_update_def)

lemma hoare_if [hoare_rules]:
  "(b \<Longrightarrow> hoare P m Q E) \<Longrightarrow> (\<not> b \<Longrightarrow> hoare P k Q E) \<Longrightarrow> hoare P (if b then m else k) Q E"
  by simp

lemma hoare_option [hoare_rules]:
  "(x = None \<Longrightarrow> hoare P m Q E) \<Longrightarrow> (\<And>y. x = Some y \<Longrightarrow> hoare P (f y) Q E) \<Longrightarrow>
    hoare P (case x of None \<Rightarrow> m | Some y \<Rightarrow> f y) Q E"
  by (cases x) simp_all

section \<open>Keeping an invariant\<close>

lemma keepsI: "(\<And>s. I s \<Longrightarrow> I (snd (m s))) \<Longrightarrow> keeps I m"
  by (simp add: keeps_def)

lemma keepsD: "keeps I m \<Longrightarrow> I s \<Longrightarrow> I (snd (m s))"
  by (simp add: keeps_def)

lemma result_cases: "I (snd r) \<longleftrightarrow> (case r of (Inl e, s') \<Rightarrow> I s' | (Inr x, s') \<Rightarrow> I s')"
  by (cases r; cases "fst r") auto

lemma keeps_hoare: "keeps I m \<longleftrightarrow> hoare I m (\<lambda>_. I) I"
  by (simp add: keeps_def hoare_def result_cases)

named_theorems keeps_rules \<open>rules for keeping an invariant\<close>

lemma keeps_return [keeps_rules]: "keeps I (act_return x)"
  by (rule keepsI) (simp add: act_return_def)

lemma keeps_throw [keeps_rules]: "keeps I (act_throw e)"
  by (rule keepsI) (simp add: act_throw_def)

lemma keeps_get [keeps_rules]: "keeps I (act_get g)"
  by (rule keepsI) (simp add: act_get_def)

lemma keeps_lift [keeps_rules]: "keeps I (act_lift r)"
  by (rule keepsI) (simp add: act_lift_def)

lemma keeps_modify: "(\<And>s. I s \<Longrightarrow> I (g s)) \<Longrightarrow> keeps I (act_modify g)"
  by (rule keepsI) (simp add: act_modify_def)

lemma keeps_update: "(\<And>s. I s \<Longrightarrow> I (snd (g s))) \<Longrightarrow> keeps I (act_update g)"
  by (rule keepsI) (simp add: act_update_def)

lemma keeps_bind [keeps_rules]: "keeps I m \<Longrightarrow> (\<And>x. keeps I (f x)) \<Longrightarrow> keeps I (act_bind m f)"
  unfolding keeps_hoare by (rule hoare_bind)

lemma keeps_then [keeps_rules]: "keeps I m \<Longrightarrow> keeps I k \<Longrightarrow> keeps I (act_then m k)"
  unfolding act_then_def by (rule keeps_bind)

lemma keeps_if [keeps_rules]: "(b \<Longrightarrow> keeps I m) \<Longrightarrow> (\<not> b \<Longrightarrow> keeps I k) \<Longrightarrow> keeps I (if b then m else k)"
  by simp

lemma keeps_option [keeps_rules]:
  "(x = None \<Longrightarrow> keeps I m) \<Longrightarrow> (\<And>y. x = Some y \<Longrightarrow> keeps I (f y)) \<Longrightarrow> keeps I (case x of None \<Rightarrow> m | Some y \<Rightarrow> f y)"
  by (cases x) simp_all

lemma keeps_each [keeps_rules]: "(\<And>x. x \<in> set xs \<Longrightarrow> keeps I (f x)) \<Longrightarrow> keeps I (act_each f xs)"
  by (induction xs) (auto intro: keeps_rules)

lemma keeps_catch [keeps_rules]: "keeps I m \<Longrightarrow> (\<And>e. keeps I (h e)) \<Longrightarrow> keeps I (act_catch m h)"
proof (rule keepsI)
  fix s
  assume m: "keeps I m" "\<And>e. keeps I (h e)" and "I s"
  obtain r s' where r: "m s = (r, s')" by (cases "m s")
  with keepsD[OF m(1) \<open>I s\<close>] have "I s'" by simp
  with m(2) r show "I (snd (act_catch m h s))" by (cases r) (auto simp: act_catch_def dest: keepsD)
qed

lemma keeps_conj: "keeps I m \<Longrightarrow> keeps J m \<Longrightarrow> keeps (\<lambda>s. I s \<and> J s) m"
  by (rule keepsI) (blast dest: keepsD)

lemma hoare_then_keeps [hoare_rules]: "keeps P m \<Longrightarrow> hoare P k Q E \<Longrightarrow> (\<And>s. P s \<Longrightarrow> E s) \<Longrightarrow> hoare P (act_then m k) Q E"
  unfolding act_then_def keeps_hoare by (rule hoare_bind[where R = "\<lambda>_. P"]) (rule hoare_post)

text \<open>Evaluation.\<close>

lemma act_eval [act_simps]:
  "act_return x s = (Inr x, s)"
  "act_throw e s = (Inl e, s)"
  "act_get v s = (Inr (v s), s)"
  "act_modify g s = (Inr (), g s)"
  "act_update u s = (Inr (fst (u s)), snd (u s))"
  "act_lift r s = (r, s)"
  "act_then l k s = (case l s of (Inl e, s') \<Rightarrow> (Inl e, s') | (Inr x, s') \<Rightarrow> k s')"
  "act_bind m f s = (case m s of (Inl e, s') \<Rightarrow> (Inl e, s') | (Inr x, s') \<Rightarrow> f x s')"
  by (simp_all add: act_return_def act_throw_def act_get_def act_modify_def act_update_def act_lift_def
      act_bind_def act_then_def)

end
