(* ===== verification/Publisher_Node.thy ===== *)
theory Publisher_Node
  imports Publisher_Store Effects Twap Config_Schedule Methodology Wire "HOL-Library.AList"
begin

text \<open>
  \<open>apps/publisher/src/node.ts\<close>: the protocol a publisher runs for every tick. Each method of
  \<open>PublisherNode\<close> is a handler on the record \<open>Node\<close>; an \<open>await\<close> of the signer ends the handler, and
  what remains to be done is a stack of \<open>task\<close>s that any later step may resume, so other handlers can
  run in between, as the event loop of JavaScript allows. A \<open>Map\<close> is the list of its entries in
  insertion order. What the node sends, signs and logs is the list \<open>nd_effects\<close>; the details of a log
  line are dropped. The clock, the config schedule and the market data are the environment \<open>Env\<close> of a
  step; the signer is the function \<open>no_sign\<close>.

  The properties of the node are in Node_Safety.
\<close>

section \<open>Data\<close>

record Derived =
  dv_header :: PriceUpdateHeader
  dv_entries :: "UpdateEntry list"
  dv_headerHash :: hex

record Anchor =
  an_tickMs :: int
  an_hash :: hex

record TickState =
  tk_observations :: "(int \<times> SignedObservation) list"
  tk_own :: "Observation option"
  tk_anchor :: "Anchor option"
  tk_best :: "SignedProposal option"
  tk_proposedRanks :: "int list"
  tk_requestedTick :: bool
  tk_pending :: "(int \<times> SignedProposal) list"
  tk_derived :: "(hex \<times> Derived) list"
  tk_signatures :: "(hex \<times> (int \<times> hex) list) list"
  tk_finalized :: bool
  tk_sharedWith :: "int list"

record NodeOptions =
  no_index :: int
  no_sign :: "hex \<Rightarrow> hex result"
  no_publisherSetTypeHash :: hex
  no_publisherSet :: PublisherSetData
  no_skewMs :: "int option"

record Env =
  ev_now :: int
  ev_schedule :: ConfigSchedule
  ev_marketData :: MarketData

text \<open>What is left of a handler after an \<open>await\<close>: the call of the signer that has to return first.\<close>

datatype task =
    ObserveSigned int hex "ObservationEntry list"
  | ProposeSigned int int ProposalBody
  | HeaderSigned int hex
  | DrainPending int "(int \<times> SignedProposal) list"

datatype node_effect =
    Broadcast bytes
  | SendTo int bytes
  | SignObservation hex
  | SignProposal hex
  | SignHeader int hex
  | Observed int "ObservationEntry list"
  | Logged string

record Node =
  nd_store :: PublisherStore
  nd_ticks :: "(int \<times> TickState) list"
  nd_effects :: "node_effect list"
  nd_tasks :: "task list list"

definition new_node :: "PublisherStore \<Rightarrow> Node" where
  "new_node store = \<lparr>nd_store = store, nd_ticks = [], nd_effects = [], nd_tasks = []\<rparr>"

definition new_tick :: TickState where
  "new_tick = \<lparr>tk_observations = [], tk_own = None, tk_anchor = None, tk_best = None, tk_proposedRanks = [],
    tk_requestedTick = False, tk_pending = [], tk_derived = [], tk_signatures = [], tk_finalized = False,
    tk_sharedWith = []\<rparr>"

definition SYNC_BATCH :: nat where "SYNC_BATCH = 200"

definition n_publishers :: "NodeOptions \<Rightarrow> nat" where
  "n_publishers opts = length (pubkeys (currentSet (no_publisherSet opts)))"

definition node_quorum :: "NodeOptions \<Rightarrow> int" where
  "node_quorum opts = quorum (currentSet (no_publisherSet opts))"

definition maxRank :: "NodeOptions \<Rightarrow> int" where
  "maxRank opts = int (n_publishers opts) - node_quorum opts"

text \<open>\<open>Set.add\<close> on the list of the elements of a set.\<close>

definition set_add :: "'a \<Rightarrow> 'a list \<Rightarrow> 'a list" where
  "set_add x xs = (if x \<in> set xs then xs else xs @ [x])"

section \<open>State of a tick\<close>

definition tick_of_node :: "int \<Rightarrow> Node \<Rightarrow> TickState" where
  "tick_of_node t nd = (case map_of (nd_ticks nd) t of Some st \<Rightarrow> st | None \<Rightarrow> new_tick)"

text \<open>\<open>this.tick(t)\<close>, created if absent.\<close>

definition tick :: "int \<Rightarrow> (Node, TickState) act" where
  "tick t = act_update (\<lambda>nd. (tick_of_node t nd, nd\<lparr>nd_ticks := AList.update t (tick_of_node t nd) (nd_ticks nd)\<rparr>))"

definition set_tick :: "int \<Rightarrow> (TickState \<Rightarrow> TickState) \<Rightarrow> (Node, unit) act" where
  "set_tick t g = act_modify (\<lambda>nd. nd\<lparr>nd_ticks := AList.update t (g (tick_of_node t nd)) (nd_ticks nd)\<rparr>)"

definition emit :: "node_effect \<Rightarrow> (Node, unit) act" where
  "emit x = act_modify (\<lambda>nd. nd\<lparr>nd_effects := nd_effects nd @ [x]\<rparr>)"

definition send_frame :: "int \<Rightarrow> PeerMessage \<Rightarrow> (Node, unit) act" where
  "send_frame to m = act_bind (act_lift (encodeMessage m)) (\<lambda>frame. emit (SendTo to frame))"

definition broadcast_frame :: "PeerMessage \<Rightarrow> (Node, unit) act" where
  "broadcast_frame m = act_bind (act_lift (encodeMessage m)) (\<lambda>frame. emit (Broadcast frame))"

definition hex_buffer :: "hex \<Rightarrow> bytes" where
  "hex_buffer h = hex_pairs (drop 2 h)"

section \<open>Anchor, leaders, history\<close>

definition anchorHashOf :: "crypto \<Rightarrow> bytes \<Rightarrow> hex result" where
  "anchorHashOf C blob =
    ebind (decodePriceUpdateHeader (Raw (take HEADER_LEN blob))) (\<lambda>h. priceUpdateSigningHash C h)"

definition anchor_in :: "crypto \<Rightarrow> Env \<Rightarrow> PublisherStore \<Rightarrow> int \<Rightarrow> Anchor result" where
  "anchor_in C e store tickMs =
    (case (case schedule_at (ev_schedule e) tickMs of
        None \<Rightarrow> None
      | Some active \<Rightarrow> finalizedAtOrBefore store (tickMs - 2 * c_tickPeriodMs (ac_config active))) of
      None \<Rightarrow> Inr \<lparr>an_tickMs = 0, an_hash = NO_ANCHOR\<rparr>
    | Some (t, blob) \<Rightarrow> ebind (anchorHashOf C blob) (\<lambda>h. Inr \<lparr>an_tickMs = t, an_hash = h\<rparr>))"

definition anchor :: "crypto \<Rightarrow> Env \<Rightarrow> int \<Rightarrow> (Node, Anchor) act" where
  "anchor C e tickMs =
    act_bind (tick tickMs) (\<lambda>st.
    case tk_anchor st of
      Some a \<Rightarrow> act_return a
    | None \<Rightarrow>
        act_bind (act_get nd_store) (\<lambda>store.
        act_lift (anchor_in C e store tickMs)))"

definition leaders :: "crypto \<Rightarrow> NodeOptions \<Rightarrow> Env \<Rightarrow> int \<Rightarrow> (Node, int list) act" where
  "leaders C opts e tickMs =
    act_bind (anchor C e tickMs) (\<lambda>a.
    act_bind (act_lift (leaderOrder C tickMs (an_hash a) (n_publishers opts))) (\<lambda>order.
    act_return (take (nat (maxRank opts + 1)) order)))"

definition passed_in :: "PublisherStore \<Rightarrow> int \<Rightarrow> bool" where
  "passed_in store tickMs \<longleftrightarrow>
    (case latestFinalizedTick store of None \<Rightarrow> False | Some latest \<Rightarrow> tickMs \<le> latest \<and> \<not> hasFinalized store tickMs)"

definition passed :: "int \<Rightarrow> (Node, bool) act" where
  "passed tickMs = act_get (\<lambda>nd. passed_in (nd_store nd) tickMs)"

definition latest_or_0 :: "PublisherStore \<Rightarrow> int" where
  "latest_or_0 store = (case latestFinalizedTick store of None \<Rightarrow> 0 | Some t \<Rightarrow> t)"

definition requestSync :: "int option \<Rightarrow> (Node, unit) act" where
  "requestSync to =
    act_bind (act_get (\<lambda>nd. latest_or_0 (nd_store nd))) (\<lambda>after.
    case to of
      None \<Rightarrow> broadcast_frame (SyncRequest after)
    | Some i \<Rightarrow> send_frame i (SyncRequest after))"

text \<open>A peer is still working on a tick that is finalized here: it gets the update, once.\<close>

definition shareFinalized :: "NodeOptions \<Rightarrow> int \<Rightarrow> int \<Rightarrow> (Node, unit) act" where
  "shareFinalized opts to tickMs =
    act_bind (tick tickMs) (\<lambda>st.
    if to = no_index opts \<or> to \<in> set (tk_sharedWith st) then act_return ()
    else
      act_bind (act_get (\<lambda>nd. finalizedAt (nd_store nd) tickMs)) (\<lambda>blob.
      case blob of
        None \<Rightarrow> act_return ()
      | Some h \<Rightarrow>
          act_then (set_tick tickMs (\<lambda>st. st\<lparr>tk_sharedWith := set_add to (tk_sharedWith st)\<rparr>))
            (send_frame to (SyncResponse [hex_buffer h]))))"

section \<open>TWAP entries\<close>

definition decode_points :: "(int \<times> bytes) \<Rightarrow> (int \<times> FeedPoint list) result" where
  "decode_points row =
    ebind (decodePriceUpdate (Raw (snd row))) (\<lambda>u.
    Inr (fst row, map (\<lambda>en. let m = e_message en in
      \<lparr>fp_feedId = m_feedId m, fp_price = m_price m, fp_conf = m_conf m, fp_expo = Some (m_expo m)\<rparr>) (u_entries u)))"

definition twapEntries :: "CommitteeConfig \<Rightarrow> int \<Rightarrow> PublisherStore \<Rightarrow> ObservationEntry list result" where
  "twapEntries config tickMs store =
    ebind (dueTwapFeeds config tickMs) (\<lambda>due.
    if due = [] then Inr []
    else
      let widest = Max (set (map (\<lambda>(b, t). tw_windowMs t) due));
          w = twapWindow tickMs widest (c_tickPeriodMs config)
      in ebind (emap decode_points (finalizedBetween store (fst w) (snd w))) (\<lambda>updates.
         let points = pointsByFeed updates;
             latest = latestFinalizedTick store;
             bySymbol = map_of (rev (map (\<lambda>f. (fb_symbol (feed_base f), toLowerCase (feed_id f))) (c_feeds config)))
         in ebind (emap (\<lambda>(b, t).
              let source = (case bySymbol (tw_source t) of None \<Rightarrow> [] | Some i \<Rightarrow> i);
                  ps = (case map_of points source of None \<Rightarrow> [] | Some ps \<Rightarrow> ps)
              in computeTwap b t ps tickMs (c_tickPeriodMs config) latest) due) (\<lambda>es.
            Inr (List.map_filter (\<lambda>e. e) es))))"

section \<open>Finalizing\<close>

definition tryFinalize :: "NodeOptions \<Rightarrow> int \<Rightarrow> hex \<Rightarrow> (Node, unit) act" where
  "tryFinalize opts tickMs headerHash =
    act_bind (tick tickMs) (\<lambda>st.
    case map_of (tk_derived st) headerHash of
      None \<Rightarrow> act_return ()
    | Some derived \<Rightarrow>
        case map_of (tk_signatures st) headerHash of
          None \<Rightarrow> act_return ()
        | Some sigs \<Rightarrow>
            act_bind (passed tickMs) (\<lambda>gone.
            if tk_finalized st \<or> int (length sigs) < node_quorum opts \<or> gone then act_return ()
            else
              act_bind (act_lift (toSignatureBundle
                  (map (\<lambda>(i, sig). \<lparr>publisherIndex = i, signature = sig\<rparr>) sigs))) (\<lambda>all_sigs.
              let bundle = take (nat (node_quorum opts)) all_sigs;
                  update = \<lparr>u_header = dv_header derived, u_signatures = bundle, u_entries = dv_entries derived\<rparr>
              in act_then (set_tick tickMs (\<lambda>st. st\<lparr>tk_finalized := True\<rparr>))
                  (act_bind (act_lift (encodePriceUpdate update)) (\<lambda>blob.
                   act_bind (act_update (\<lambda>nd. let r = saveFinalized (nd_store nd) update blob in
                      (fst r, nd\<lparr>nd_store := snd r\<rparr>))) (\<lambda>_.
                   emit (Logged ''finalized'')))))))"

definition onSignature :: "crypto \<Rightarrow> NodeOptions \<Rightarrow> int \<Rightarrow> int \<Rightarrow> hex \<Rightarrow> hex \<Rightarrow> (Node, unit) act" where
  "onSignature C opts from tickMs headerHash sig =
    (case at_index (pubkeys (currentSet (no_publisherSet opts))) from of
      None \<Rightarrow> act_return ()
    | Some key \<Rightarrow>
        if key = [] then act_return ()
        else act_bind (act_lift (recoverSigner C (HexStr headerHash) (HexStr sig))) (\<lambda>signer.
          if signer \<noteq> Some (toLowerCase key) then act_return ()
          else
            act_bind (tick tickMs) (\<lambda>st.
            if tk_finalized st then shareFinalized opts from tickMs
            else
              act_then (set_tick tickMs (\<lambda>st. st\<lparr>tk_signatures := AList.update headerHash
                  (AList.update from sig (case map_of (tk_signatures st) headerHash of None \<Rightarrow> [] | Some m \<Rightarrow> m))
                  (tk_signatures st)\<rparr>))
                (tryFinalize opts tickMs headerHash))))"

text \<open>The checks of a finalized update that a peer sent; \<open>proven\<close> covers every entry.\<close>

definition entries_proven :: "crypto \<Rightarrow> PriceUpdate \<Rightarrow> bool result" where
  "entries_proven C u =
    (if int (length (u_entries u)) \<noteq> h_leafCount (u_header u) then Inr False
     else eall (\<lambda>en.
        ebind (encodePriceMessage (e_message en)) (\<lambda>m.
        ebind (leafHash C (Raw m)) (\<lambda>leaf.
        verifyProof C (HexStr (h_merkleRoot (u_header u))) (HexStr leaf) (map HexStr (e_proof en))))) (u_entries u))"

definition set_for_update :: "NodeOptions \<Rightarrow> PublisherStore \<Rightarrow> int \<Rightarrow> PublisherSet option" where
  "set_for_update opts store i =
    (let current = currentSet (no_publisherSet opts) in
     if i = setIndex current then Some current
     else if i < setIndex current then keySet store i else None)"

definition acceptFinalized :: "crypto \<Rightarrow> NodeOptions \<Rightarrow> bytes \<Rightarrow> (Node, unit) act" where
  "acceptFinalized C opts blob =
    act_bind (act_lift (decodePriceUpdate (Raw blob))) (\<lambda>update.
    let header = u_header update in
    if h_publisherSetTypeHash header \<noteq> no_publisherSetTypeHash opts then act_return ()
    else
      act_bind (act_get (\<lambda>nd. set_for_update opts (nd_store nd) (h_setIndex header))) (\<lambda>known.
      case known of
        None \<Rightarrow> act_return ()
      | Some s \<Rightarrow>
          act_bind (act_lift (ebind (priceUpdateSigningHash C header) (\<lambda>digest.
            verifyThreshold C (u_signatures update) (HexStr digest) s))) (\<lambda>verified.
          if \<not> verified then emit (Logged ''finalized.bad_signatures'')
          else
            act_bind (act_lift (entries_proven C update)) (\<lambda>proven.
            if \<not> proven then emit (Logged ''finalized.bad_entries'')
            else
              act_bind (act_update (\<lambda>nd. let r = saveFinalized (nd_store nd) update blob in
                  (fst r, nd\<lparr>nd_store := snd r\<rparr>))) (\<lambda>stored.
              if stored then
                act_bind (tick (h_publishTimeMs header)) (\<lambda>_.
                set_tick (h_publishTimeMs header) (\<lambda>st. st\<lparr>tk_finalized := True\<rparr>))
              else act_return ())))))"

section \<open>Proposals\<close>

definition derive ::
  "crypto \<Rightarrow> NodeOptions \<Rightarrow> PublisherStore \<Rightarrow> int \<Rightarrow> ActiveConfig \<Rightarrow> Observation list \<Rightarrow> Derived option result" where
  "derive C opts store tickMs active observations =
    ebind (aggregateMessages (ac_config active) observations (node_quorum opts) tickMs (feedState store)) (\<lambda>messages.
    if messages = [] then Inr None
    else
      ebind (assemblePriceUpdate C \<lparr>i_publisherSetTypeHash = no_publisherSetTypeHash opts,
          i_setIndex = setIndex (currentSet (no_publisherSet opts)), i_publishTimeMs = tickMs,
          i_tickPeriodMs = c_tickPeriodMs (ac_config active), i_configHash = ac_hash active,
          i_messages = messages\<rparr>) (\<lambda>(header, entries).
      ebind (priceUpdateSigningHash C header) (\<lambda>h.
      Inr (Some \<lparr>dv_header = header, dv_entries = entries, dv_headerHash = h\<rparr>))))"

text \<open>Ends a handler without another task.\<close>

definition finish :: "(Node, unit) act \<Rightarrow> (Node, task list) act" where
  "finish m = act_bind m (\<lambda>_. act_return [])"

definition reject :: "string \<Rightarrow> (Node, task list) act" where
  "reject reason = finish (emit (Logged reason))"

text \<open>The own price of a feed against the derived one; \<open>None\<close> if every feed is within tolerance.\<close>

fun outside_tolerance :: "CommitteeConfig \<Rightarrow> Observation \<Rightarrow> UpdateEntry list \<Rightarrow> bool result" where
  "outside_tolerance config own [] = Inr False"
| "outside_tolerance config own (en # ens) =
    (let m = e_message en;
         mine = find (\<lambda>e. oe_feedId e = m_feedId m) (o_entries own)
     in ebind (of_option (TypeError ''undefined'') (find (\<lambda>f. feed_id f = m_feedId m) (c_feeds config))) (\<lambda>f.
        if (case mine of None \<Rightarrow> False
            | Some e \<Rightarrow> \<not> withinTolerance (m_price m) (oe_price e) (fb_toleranceBps (feed_base f)))
        then Inr True else outside_tolerance config own ens))"

text \<open>The last part of \<open>onProposal\<close>: tolerance, double-sign guard, signature.\<close>

definition sign_derived :: "NodeOptions \<Rightarrow> int \<Rightarrow> ActiveConfig \<Rightarrow> Derived \<Rightarrow> (Node, task list) act" where
  "sign_derived opts tickMs active derived =
    act_bind (tick tickMs) (\<lambda>st.
    act_bind (act_lift (case tk_own st of
        None \<Rightarrow> Inr False
      | Some own \<Rightarrow> outside_tolerance (ac_config active) own (dv_entries derived))) (\<lambda>outside.
    if outside then reject ''outside tolerance''
    else
      act_bind (act_update (\<lambda>nd. let r = reserveSignature (nd_store nd) tickMs (dv_headerHash derived) in
          (fst r, nd\<lparr>nd_store := snd r\<rparr>))) (\<lambda>granted.
      if \<not> granted then reject ''already signed a different header''
      else
        act_then (emit (SignHeader tickMs (dv_headerHash derived)))
          (act_return [HeaderSigned tickMs (dv_headerHash derived)]))))"

text \<open>The part of \<open>onProposal\<close> that runs once every chosen observation is here.\<close>

definition derive_chosen ::
  "crypto \<Rightarrow> NodeOptions \<Rightarrow> ActiveConfig \<Rightarrow> ProposalBody \<Rightarrow> SignedObservation list \<Rightarrow> (Node, task list) act" where
  "derive_chosen C opts active body observations =
    (let tickMs = pb_tickMs body in
     act_bind (act_lift (eall (\<lambda>(c, so).
         ebind (observationSigningHash C (so_observation so)) (\<lambda>h. Inr (h = ch_hash c))) (zip (pb_chosen body) observations))) (\<lambda>same.
     if \<not> same then reject ''observation hash mismatch''
     else
       act_bind (act_get nd_store) (\<lambda>store.
       act_bind (act_lift (derive C opts store tickMs active (map so_observation observations))) (\<lambda>d.
       case d of
         None \<Rightarrow> reject ''no feed reached quorum''
       | Some derived \<Rightarrow>
           act_then (set_tick tickMs (\<lambda>st. st\<lparr>tk_derived := AList.update (dv_headerHash derived) derived (tk_derived st)\<rparr>))
           (act_then (tryFinalize opts tickMs (dv_headerHash derived))
             (sign_derived opts tickMs active derived))))))"

text \<open>The part after the leader and the windows were checked: history, the choice of observations, what is missing.\<close>

definition consider_chosen ::
  "crypto \<Rightarrow> NodeOptions \<Rightarrow> ActiveConfig \<Rightarrow> int \<Rightarrow> SignedProposal \<Rightarrow> (Node, task list) act" where
  "consider_chosen C opts active from proposal =
    (let body = sp_body proposal; tickMs = pb_tickMs body; indexes = map ch_index (pb_chosen body) in
     act_bind (act_get (\<lambda>nd. latest_or_0 (nd_store nd))) (\<lambda>myPrev.
     if pb_prevTickMs body > myPrev then
       act_then (requestSync (Some from)) (reject ''behind on history; syncing'')
     else if pb_prevTickMs body < myPrev then reject ''proposer behind on history''
     else if int (length indexes) < node_quorum opts \<or>
         list_ex (\<lambda>k. indexes ! k \<ge> int (n_publishers opts) \<or> (k > 0 \<and> indexes ! k \<le> indexes ! (k - 1)))
           [0..<length indexes]
     then reject ''invalid observation set''
     else
       act_then (set_tick tickMs (\<lambda>st.
           if (case tk_best st of None \<Rightarrow> True | Some b \<Rightarrow> sp_rank proposal < sp_rank b)
           then st\<lparr>tk_best := Some proposal\<rparr> else st))
       (act_bind (tick tickMs) (\<lambda>st.
        let missing = filter (\<lambda>i. map_of (tk_observations st) i = None) indexes in
        if missing \<noteq> [] then
          act_then (set_tick tickMs (\<lambda>st. st\<lparr>tk_pending := tk_pending st @ [(from, proposal)]\<rparr>))
          (act_then (send_frame from (ObsRequest tickMs missing))
          (act_then (if sp_proposer proposal \<noteq> from then send_frame (sp_proposer proposal) (ObsRequest tickMs missing)
                     else act_return ())
            (act_return [])))
        else derive_chosen C opts active body
          (List.map_filter (\<lambda>i. map_of (tk_observations st) i) indexes)))))"

text \<open>\<open>from\<close> delivered the proposal, \<open>sp_proposer\<close> signed it.\<close>

definition onProposal ::
  "crypto \<Rightarrow> NodeOptions \<Rightarrow> Env \<Rightarrow> int \<Rightarrow> SignedProposal \<Rightarrow> (Node, task list) act" where
  "onProposal C opts e from proposal =
    (let body = sp_body proposal; tickMs = pb_tickMs body; rank = sp_rank proposal; proposer = sp_proposer proposal in
     case schedule_at (ev_schedule e) tickMs of
       None \<Rightarrow> reject ''no active config''
     | Some active \<Rightarrow>
         act_bind (tick tickMs) (\<lambda>st.
         if tk_finalized st then finish (shareFinalized opts from tickMs)
         else act_bind (passed tickMs) (\<lambda>gone.
         if gone then act_return []
         else act_bind (anchor C e tickMs) (\<lambda>a.
         if pb_anchorTickMs body > an_tickMs a then
           act_then (requestSync (Some from)) (reject ''behind on anchor; syncing'')
         else if pb_anchorTickMs body \<noteq> an_tickMs a \<or> pb_anchorHash body \<noteq> an_hash a then reject ''anchor mismatch''
         else if rank > maxRank opts then reject ''not the leader for this rank''
         else act_bind (leaders C opts e tickMs) (\<lambda>ls.
         if at_index ls rank \<noteq> Some proposer then reject ''not the leader for this rank''
         else case at_index (pubkeys (currentSet (no_publisherSet opts))) proposer of
           None \<Rightarrow> reject ''bad proposal signature''
         | Some key \<Rightarrow>
             if key = [] then reject ''bad proposal signature''
             else act_bind (act_lift (ebind (proposalDigest C rank proposer body) (\<lambda>digest.
                 recoverSigner C (HexStr digest) (HexStr (sp_signature proposal))))) (\<lambda>signer.
             if signer \<noteq> Some (toLowerCase key) then reject ''bad proposal signature''
             else if ev_now e + (case no_skewMs opts of None \<Rightarrow> 50 | Some s \<Rightarrow> s)
                 < slotOpensAt tickMs rank (c_observationDeadlineMs (ac_config active))
             then reject ''slot not open''
             else if tickMs < ev_now e - c_maxSigningLagMs (ac_config active) \<or>
                 tickMs > ev_now e + c_tickPeriodMs (ac_config active)
             then reject ''outside signing window''
             else consider_chosen C opts active from proposal))))))"

text \<open>After the signer returned the header signature.\<close>

definition header_signed :: "crypto \<Rightarrow> NodeOptions \<Rightarrow> int \<Rightarrow> hex \<Rightarrow> (Node, task list) act" where
  "header_signed C opts tickMs headerHash =
    act_bind (act_lift (no_sign opts headerHash)) (\<lambda>sig.
    act_then (broadcast_frame (SignatureMsg tickMs headerHash sig))
      (finish (onSignature C opts (no_index opts) tickMs headerHash sig)))"

definition ownBody :: "crypto \<Rightarrow> NodeOptions \<Rightarrow> Env \<Rightarrow> int \<Rightarrow> (Node, ProposalBody option) act" where
  "ownBody C opts e tickMs =
    act_bind (tick tickMs) (\<lambda>st.
    if int (length (tk_observations st)) < node_quorum opts then act_return None
    else
      act_bind (anchor C e tickMs) (\<lambda>a.
      act_bind (act_lift (emap (\<lambda>(i, so). ebind (observationSigningHash C (so_observation so)) (\<lambda>h.
          Inr \<lparr>ch_index = i, ch_hash = h\<rparr>)) (sort_key fst (tk_observations st)))) (\<lambda>chosen.
      act_bind (act_get (\<lambda>nd. latest_or_0 (nd_store nd))) (\<lambda>prev.
      act_return (Some \<lparr>pb_tickMs = tickMs, pb_anchorTickMs = an_tickMs a, pb_anchorHash = an_hash a,
        pb_prevTickMs = prev, pb_chosen = chosen\<rparr>)))))"

definition maybePropose :: "crypto \<Rightarrow> NodeOptions \<Rightarrow> Env \<Rightarrow> int \<Rightarrow> (Node, task list) act" where
  "maybePropose C opts e tickMs =
    act_bind (tick tickMs) (\<lambda>st.
    case schedule_at (ev_schedule e) tickMs of
      None \<Rightarrow> act_return []
    | Some active \<Rightarrow>
        act_bind (passed tickMs) (\<lambda>gone.
        if tk_finalized st \<or> gone then act_return []
        else act_bind (leaders C opts e tickMs) (\<lambda>ls.
        let rank = index_of (no_index opts) ls in
        if rank < 0 \<or> rank \<in> set (tk_proposedRanks st) then act_return []
        else if ev_now e < slotOpensAt tickMs rank (c_observationDeadlineMs (ac_config active)) then act_return []
        else if rank > 0 \<and> \<not> tk_requestedTick st \<and> tk_best st = None then
          finish (act_then (set_tick tickMs (\<lambda>st. st\<lparr>tk_requestedTick := True\<rparr>)) (broadcast_frame (TickRequest tickMs)))
        else
          act_bind (case tk_best st of Some p \<Rightarrow> act_return (Some (sp_body p)) | None \<Rightarrow> ownBody C opts e tickMs) (\<lambda>b.
          case b of
            None \<Rightarrow> reject ''propose.no_quorum''
          | Some body \<Rightarrow>
              act_then (set_tick tickMs (\<lambda>st. st\<lparr>tk_proposedRanks := set_add rank (tk_proposedRanks st)\<rparr>))
              (act_bind (act_lift (proposalDigest C rank (no_index opts) body)) (\<lambda>digest.
               act_then (emit (SignProposal digest)) (act_return [ProposeSigned tickMs rank body])))))))"

definition propose_signed :: "crypto \<Rightarrow> NodeOptions \<Rightarrow> Env \<Rightarrow> int \<Rightarrow> int \<Rightarrow> ProposalBody \<Rightarrow> (Node, task list) act" where
  "propose_signed C opts e tickMs rank body =
    act_bind (act_lift (ebind (proposalDigest C rank (no_index opts) body) (no_sign opts))) (\<lambda>sig.
    let proposal = \<lparr>sp_rank = rank, sp_proposer = no_index opts, sp_body = body, sp_signature = sig\<rparr> in
    act_then (broadcast_frame (ProposalMsg proposal)) (onProposal C opts e (no_index opts) proposal))"

definition proposeEarly :: "crypto \<Rightarrow> NodeOptions \<Rightarrow> Env \<Rightarrow> int \<Rightarrow> (Node, task list) act" where
  "proposeEarly C opts e tickMs =
    act_bind (tick tickMs) (\<lambda>st.
    if length (tk_observations st) \<noteq> n_publishers opts then act_return []
    else act_bind (leaders C opts e tickMs) (\<lambda>ls.
      if at_index ls 0 = Some (no_index opts) then maybePropose C opts e tickMs else act_return []))"

section \<open>Observations\<close>

text \<open>The loop over the pending proposals: each is awaited, then the next; at the end \<open>proposeEarly\<close>.\<close>

fun drain_pending :: "crypto \<Rightarrow> NodeOptions \<Rightarrow> Env \<Rightarrow> int \<Rightarrow> (int \<times> SignedProposal) list \<Rightarrow> (Node, task list) act" where
  "drain_pending C opts e tickMs [] = proposeEarly C opts e tickMs"
| "drain_pending C opts e tickMs ((from, p) # ps) =
    act_bind (onProposal C opts e from p) (\<lambda>ts. act_return (ts @ [DrainPending tickMs ps]))"

definition acceptable :: "crypto \<Rightarrow> NodeOptions \<Rightarrow> Env \<Rightarrow> SignedObservation \<Rightarrow> int \<Rightarrow> bool result" where
  "acceptable C opts e so tickMs =
    (let ob = so_observation so in
     if o_tickMs ob = tickMs \<and> o_publisherSetTypeHash ob = no_publisherSetTypeHash opts \<and>
        Some (o_configHash ob) = map_option ac_hash (schedule_at (ev_schedule e) tickMs)
     then verifyObservation C so (currentSet (no_publisherSet opts)) else Inr False)"

definition onObservation :: "crypto \<Rightarrow> NodeOptions \<Rightarrow> Env \<Rightarrow> int \<Rightarrow> SignedObservation \<Rightarrow> (Node, task list) act" where
  "onObservation C opts e from so =
    (let ob = so_observation so; tickMs = o_tickMs ob in
     act_bind (act_lift (acceptable C opts e so tickMs)) (\<lambda>ok.
     if \<not> ok then act_return []
     else act_bind (tick tickMs) (\<lambda>st.
       case map_of (tk_observations st) (o_publisherIndex ob) of
         Some existing \<Rightarrow>
           act_bind (act_lift (observationSigningHash C (so_observation existing))) (\<lambda>a.
           act_bind (act_lift (observationSigningHash C ob)) (\<lambda>b.
           if a \<noteq> b then reject ''peer.equivocating_observation'' else act_return []))
       | None \<Rightarrow>
           act_then (set_tick tickMs (\<lambda>st. st\<lparr>
               tk_observations := AList.update (o_publisherIndex ob) so (tk_observations st), tk_pending := []\<rparr>))
             (drain_pending C opts e tickMs (tk_pending st)))))"

definition own_observation :: "NodeOptions \<Rightarrow> int \<Rightarrow> hex \<Rightarrow> ObservationEntry list \<Rightarrow> Observation" where
  "own_observation opts tickMs configHash entries =
    \<lparr>o_publisherSetTypeHash = no_publisherSetTypeHash opts,
     o_setIndex = setIndex (currentSet (no_publisherSet opts)), o_tickMs = tickMs,
     o_configHash = configHash, o_publisherIndex = no_index opts, o_entries = entries\<rparr>"

definition observe :: "crypto \<Rightarrow> NodeOptions \<Rightarrow> Env \<Rightarrow> int \<Rightarrow> (Node, task list) act" where
  "observe C opts e tickMs =
    (case schedule_at (ev_schedule e) tickMs of
       None \<Rightarrow> act_return []
     | Some active \<Rightarrow>
         if isPaused (no_publisherSet opts) then act_return []
         else
           act_bind (act_lift (observeFeeds (ac_config active) (ev_marketData e) tickMs)) (\<lambda>market.
           act_bind (act_get nd_store) (\<lambda>store.
           act_bind (act_lift (twapEntries (ac_config active) tickMs store)) (\<lambda>twaps.
           let entries = mergeEntries market twaps
           in act_then (emit (Observed tickMs entries))
             (if entries = [] then reject ''observe.empty''
              else act_bind (act_lift (observationSigningHash C (own_observation opts tickMs (ac_hash active) entries))) (\<lambda>digest.
                act_then (emit (SignObservation digest)) (act_return [ObserveSigned tickMs (ac_hash active) entries])))))))"

definition observe_signed ::
  "crypto \<Rightarrow> NodeOptions \<Rightarrow> Env \<Rightarrow> int \<Rightarrow> hex \<Rightarrow> ObservationEntry list \<Rightarrow> (Node, task list) act" where
  "observe_signed C opts e tickMs configHash entries =
    (let ob = own_observation opts tickMs configHash entries in
     act_bind (act_lift (observationSigningHash C ob)) (\<lambda>digest.
     act_bind (act_lift (no_sign opts digest)) (\<lambda>sig.
     let so = \<lparr>so_observation = ob, so_signature = sig\<rparr> in
     act_bind (tick tickMs) (\<lambda>_.
     act_then (set_tick tickMs (\<lambda>st. st\<lparr>tk_own := Some ob,
         tk_observations := AList.update (no_index opts) so (tk_observations st)\<rparr>))
     (act_then (broadcast_frame (ObservationMsg so)) (proposeEarly C opts e tickMs))))))"

section \<open>Messages and memory\<close>

definition tick_requested :: "int \<Rightarrow> int \<Rightarrow> (Node, unit) act" where
  "tick_requested from tickMs =
    act_bind (act_get (\<lambda>nd. map_of (nd_ticks nd) tickMs)) (\<lambda>found.
    case found of
      None \<Rightarrow> act_return ()
    | Some st \<Rightarrow>
        act_then (act_each (\<lambda>(i, so). send_frame from (ObservationMsg so)) (tk_observations st))
          (case tk_best st of None \<Rightarrow> act_return () | Some p \<Rightarrow> send_frame from (ProposalMsg p)))"

definition observations_requested :: "int \<Rightarrow> int \<Rightarrow> int list \<Rightarrow> (Node, unit) act" where
  "observations_requested from tickMs indexes =
    act_each (\<lambda>i.
      act_bind (act_get (\<lambda>nd. case map_of (nd_ticks nd) tickMs of None \<Rightarrow> None
                              | Some st \<Rightarrow> map_of (tk_observations st) i)) (\<lambda>found.
      case found of None \<Rightarrow> act_return () | Some so \<Rightarrow> send_frame from (ObservationMsg so))) indexes"

definition sync_requested :: "int \<Rightarrow> int \<Rightarrow> (Node, unit) act" where
  "sync_requested from after =
    act_bind (act_get (\<lambda>nd. map hex_buffer (finalizedAfter (nd_store nd) after SYNC_BATCH))) (\<lambda>blobs.
    send_frame from (SyncResponse blobs))"

fun handle_message :: "crypto \<Rightarrow> NodeOptions \<Rightarrow> Env \<Rightarrow> int \<Rightarrow> PeerMessage \<Rightarrow> (Node, task list) act" where
  "handle_message C opts e from (ObservationMsg so) = onObservation C opts e from so"
| "handle_message C opts e from (ProposalMsg p) = onProposal C opts e from p"
| "handle_message C opts e from (TickRequest t) = finish (tick_requested from t)"
| "handle_message C opts e from (SignatureMsg t h sig) = finish (onSignature C opts from t h sig)"
| "handle_message C opts e from (ObsRequest t is) = finish (observations_requested from t is)"
| "handle_message C opts e from (SyncRequest after) = finish (sync_requested from after)"
| "handle_message C opts e from (SyncResponse blobs) = finish (act_each (acceptFinalized C opts) blobs)"

definition receive :: "crypto \<Rightarrow> NodeOptions \<Rightarrow> Env \<Rightarrow> int \<Rightarrow> bytes \<Rightarrow> (Node, task list) act" where
  "receive C opts e from frame =
    (case decodeMessage frame of
       Inl _ \<Rightarrow> reject ''peer.bad_frame''
     | Inr m \<Rightarrow> act_catch (handle_message C opts e from m) (\<lambda>_. reject ''peer.error''))"

definition prune_ticks :: "Env \<Rightarrow> int \<Rightarrow> (Node, unit) act" where
  "prune_ticks e keepMs = act_modify (\<lambda>nd.
    nd\<lparr>nd_ticks := filter (\<lambda>(t, st). \<not> t < ev_now e - keepMs) (nd_ticks nd)\<rparr>)"

fun run_task :: "crypto \<Rightarrow> NodeOptions \<Rightarrow> Env \<Rightarrow> task \<Rightarrow> (Node, task list) act" where
  "run_task C opts e (ObserveSigned t h entries) = observe_signed C opts e t h entries"
| "run_task C opts e (ProposeSigned t rank body) = propose_signed C opts e t rank body"
| "run_task C opts e (HeaderSigned t h) = header_signed C opts t h"
| "run_task C opts e (DrainPending t ps) = drain_pending C opts e t ps"

section \<open>Steps of a node\<close>

text \<open>
  What can happen to a node: a frame from an authenticated peer, the calls of the scheduler, the end
  of an \<open>await\<close> (of any suspended handler), the timer that prunes the store, and a key set recorded
  in the store. \<open>Restart\<close> is a crash between two handlers: the store survives, the memory does not (the record
  of effects is not part of the program).
\<close>

datatype node_input =
    Receive int bytes
  | Observe int
  | MaybePropose int
  | RequestSync
  | PruneTicks int
  | Resume nat
  | PruneStore int
  | SaveKeySet PublisherSet
  | Restart

definition suspend :: "task list \<Rightarrow> Node \<Rightarrow> Node" where
  "suspend ts nd = (if ts = [] then nd else nd\<lparr>nd_tasks := nd_tasks nd @ [ts]\<rparr>)"

text \<open>Runs a handler; an exception ends it and its continuation.\<close>

definition run_handler :: "(Node, task list) act \<Rightarrow> task list \<Rightarrow> Node \<Rightarrow> Node" where
  "run_handler m later nd =
    (case m nd of (Inl _, nd') \<Rightarrow> nd' | (Inr ts, nd') \<Rightarrow> suspend (ts @ later) nd')"

definition resume :: "crypto \<Rightarrow> NodeOptions \<Rightarrow> Env \<Rightarrow> nat \<Rightarrow> Node \<Rightarrow> Node" where
  "resume C opts e i nd =
    (if i < length (nd_tasks nd) then
       let nd' = nd\<lparr>nd_tasks := take i (nd_tasks nd) @ drop (Suc i) (nd_tasks nd)\<rparr> in
       case nd_tasks nd ! i of [] \<Rightarrow> nd' | t # ts \<Rightarrow> run_handler (run_task C opts e t) ts nd'
     else nd)"

fun node_step :: "crypto \<Rightarrow> NodeOptions \<Rightarrow> Env \<Rightarrow> node_input \<Rightarrow> Node \<Rightarrow> Node" where
  "node_step C opts e (Receive from frame) nd = run_handler (receive C opts e from frame) [] nd"
| "node_step C opts e (Observe t) nd = run_handler (observe C opts e t) [] nd"
| "node_step C opts e (MaybePropose t) nd = run_handler (maybePropose C opts e t) [] nd"
| "node_step C opts e RequestSync nd = run_handler (finish (requestSync None)) [] nd"
| "node_step C opts e (PruneTicks keepMs) nd = run_handler (finish (prune_ticks e keepMs)) [] nd"
| "node_step C opts e (Resume i) nd = resume C opts e i nd"
| "node_step C opts e (PruneStore windowMs) nd =
    (case prune_run (nd_store nd) windowMs (ev_now e) of Some s \<Rightarrow> nd\<lparr>nd_store := s\<rparr> | None \<Rightarrow> nd)"
| "node_step C opts e (SaveKeySet s) nd = nd\<lparr>nd_store := saveKeySet (nd_store nd) s\<rparr>"
| "node_step C opts e Restart nd = nd\<lparr>nd_ticks := [], nd_tasks := []\<rparr>"

fun node_run :: "crypto \<Rightarrow> NodeOptions \<Rightarrow> (Env \<times> node_input) list \<Rightarrow> Node \<Rightarrow> Node" where
  "node_run C opts [] nd = nd"
| "node_run C opts ((e, i) # es) nd = node_run C opts es (node_step C opts e i nd)"

end
