(* ===== verification/Node_Demo.thy ===== *)
theory Node_Demo
  imports Publisher_Node Verify
begin

text \<open>
  A run of a committee of one publisher, step by step: it gets its observation of a tick back from a
  peer, proposes, signs the header and finalizes. The properties of Node_Safety are applied to it.
\<close>

definition solo_data :: PublisherSetData where
  "solo_data = demo_committee\<lparr>currentSet := \<lparr>setIndex = 1, pubkeys = [demo_key 1]\<rparr>\<rparr>"

definition solo :: NodeOptions where
  "solo = \<lparr>no_index = 0, no_sign = (\<lambda>_. Inr (demo_signature 1)), no_publisherSetTypeHash = bytesToHex (replicate 32 9),
     no_publisherSet = solo_data, no_skewMs = None\<rparr>"

definition solo_active :: ActiveConfig where
  "solo_active = \<lparr>ac_config = demo_config, ac_hash = bytesToHex (replicate 32 4)\<rparr>"

definition solo_env :: Env where
  "solo_env = \<lparr>ev_now = 600000,
     ev_schedule = \<lparr>cs_typeHash = bytesToHex (replicate 32 9), cs_set = currentSet solo_data, cs_versions = [solo_active]\<rparr>,
     ev_marketData = new_market_data 300000\<rparr>"

definition solo_signed :: SignedObservation where
  "solo_signed = \<lparr>so_observation = demo_observation 0 500, so_signature = demo_signature 1\<rparr>"

lemma solo_simps [simp]:
  "no_index solo = 0" "no_sign solo x = Inr (demo_signature 1)" "no_publisherSetTypeHash solo = bytesToHex (replicate 32 9)"
  "no_publisherSet solo = solo_data" "no_skewMs solo = None"
  "currentSet solo_data = \<lparr>setIndex = 1, pubkeys = [demo_key 1]\<rparr>"
  "n_publishers solo = 1" "node_quorum solo = 1" "maxRank solo = 0"
  "ev_now solo_env = 600000" "ac_config solo_active = demo_config" "ac_hash solo_active = bytesToHex (replicate 32 4)"
  by (simp_all add: solo_def solo_data_def n_publishers_def node_quorum_def quorum_def maxRank_def solo_env_def solo_active_def)

lemma solo_schedule [simp]: "schedule_at (ev_schedule solo_env) 600000 = Some solo_active"
  by (simp add: schedule_at_def solo_env_def activation_def solo_active_def demo_config_fields demo_activation)

lemma solo_encodes: "\<exists>bs. encodeObservation (demo_observation 0 500) = Inr bs"
proof -
  have "\<exists>b. run_writer (writeObservationEntry \<lparr>oe_feedId = feedId demo_crypto ''Crypto.CKB/USDT'',
      oe_price = 500, oe_conf = 3, oe_sourceTimeMs = 599999\<rparr>) = Inr b"
    by (simp add: writeOEntry_iff int_ranges feedId_def)
  then show ?thesis
    by (auto simp: encodeObservation_iff observation_body_def demo_observation_def int_ranges list_all2_Cons1)
qed

lemma solo_norm [simp]: "norm_signed solo_signed = solo_signed"
  by (simp add: norm_signed_def norm_observation_def norm_oentry_def solo_signed_def demo_observation_def feedId_def demo_signature_def)

lemma solo_digest: "\<exists>d. observationSigningHash demo_crypto (demo_observation 0 500) = Inr (bytesToHex d)"
  using solo_encodes by (auto simp: observationSigningHash_def)

lemma solo_recover [simp]:
  "recoverSigner demo_crypto (HexStr (bytesToHex d)) (HexStr (demo_signature n)) = Inr (Some (demo_key n))"
  using recover_hex[of "bytesToHex d" d demo_crypto "HexStr (demo_signature n)"] by (simp add: demo_recover)

lemma solo_key [simp]: "hexToBytes (demo_key n) = Inr (2 # n # replicate 31 0)" "toLowerCase (demo_key n) = demo_key n"
  by (simp_all add: demo_key_def)

lemma bytesToHex_not_Nil [simp]: "bytesToHex bs \<noteq> []"
  by (simp add: bytesToHex_def)

lemma solo_not_Nil [simp]: "demo_key n \<noteq> []" "demo_signature n \<noteq> []"
  by (simp_all add: demo_key_def demo_signature_def)

lemma solo_verified: "verifyObservation demo_crypto solo_signed \<lparr>setIndex = 1, pubkeys = [demo_key 1]\<rparr> = Inr True"
  using solo_digest by (auto simp: verifyObservation_def solo_signed_def Let_def demo_observation_def at_index_def)

lemma solo_frame: "\<exists>frame. decodeMessage frame = Inr (ObservationMsg solo_signed) \<and> encodeMessage (ObservationMsg solo_signed) = Inr frame"
proof -
  have "\<exists>p. encodeSignedObservation solo_signed = Inr p"
    using solo_encodes by (auto simp: encodeSignedObservation_def solo_signed_def demo_signature_def SIGNATURE_LEN_def)
  then obtain frame where e: "encodeMessage (ObservationMsg solo_signed) = Inr frame"
    by (auto simp: encodeMessage_def)
  from wire_codec.dec_enc[OF _ this] have "decodeMessage frame = Inr (ObservationMsg solo_signed)" by simp
  with e show ?thesis by blast
qed

definition solo_body :: "hex \<Rightarrow> ProposalBody" where
  "solo_body od = \<lparr>pb_tickMs = 600000, pb_anchorTickMs = 0, pb_anchorHash = NO_ANCHOR, pb_prevTickMs = 0,
     pb_chosen = [\<lparr>ch_index = 0, ch_hash = od\<rparr>]\<rparr>"

lemma solo_leader [simp]: "leaderOrder demo_crypto 600000 NO_ANCHOR (Suc 0) = Inr [0]"
  by (simp add: leaderOrder_def NO_ANCHOR_bytes index_range_def)

definition empty_store :: PublisherStore where
  "empty_store = new_store (bytesToHex (replicate 32 9))"

lemma empty_store_simps [simp]:
  "finalizedAtOrBefore empty_store t = None" "latestFinalizedTick empty_store = None"
  "latest_or_0 empty_store = 0" "passed_in empty_store t = False" "feedState empty_store = (\<lambda>_. None)"
  by (auto simp: empty_store_def new_store_def finalizedAtOrBefore_def latestFinalizedTick_def own_rows_def tbl_last_by_def
      latest_or_0_def passed_in_def feedState_def)

definition solo_tick :: TickState where
  "solo_tick = new_tick\<lparr>tk_observations := [(0, solo_signed)], tk_proposedRanks := [0]\<rparr>"

lemma solo_anchor [simp]: "anchor_in C solo_env empty_store 600000 = Inr \<lparr>an_tickMs = 0, an_hash = NO_ANCHOR\<rparr>"
  by (simp add: anchor_in_def)

lemmas run_simps = act_simps tick_def set_tick_def emit_def anchor_def leaders_def passed_def tick_of_node_def
  run_handler_def suspend_def finish_def reject_def Let_def broadcast_frame_def send_frame_def

lemma solo_step1:
  assumes f: "decodeMessage frame = Inr (ObservationMsg solo_signed)"
    and od: "observationSigningHash demo_crypto (demo_observation 0 500) = Inr od"
    and pd: "proposalDigest demo_crypto 0 0 (solo_body od) = Inr pd"
  shows "node_step demo_crypto solo solo_env (Receive 0 frame) (new_node empty_store) =
    \<lparr>nd_store = empty_store, nd_ticks = [(600000, solo_tick)], nd_effects = [SignProposal pd],
     nd_tasks = [[ProposeSigned 600000 0 (solo_body od)]]\<rparr>"
proof -
  have so: "so_observation solo_signed = demo_observation 0 500" by (simp add: solo_signed_def)
  have ob: "o_tickMs (demo_observation 0 500) = 600000" "o_publisherIndex (demo_observation 0 500) = 0"
      "o_publisherSetTypeHash (demo_observation 0 500) = bytesToHex (replicate 32 9)"
      "o_configHash (demo_observation 0 500) = bytesToHex (replicate 32 4)"
    by (simp_all add: demo_observation_def)
  show ?thesis
    by (simp add: receive_def f act_catch_def onObservation_def so ob acceptable_def solo_verified run_simps
        new_node_def new_tick_def proposeEarly_def maybePropose_def at_index_def index_of_def slotOpensAt_def
        demo_config_fields ownBody_def od solo_body_def[symmetric] pd set_add_def solo_tick_def)
qed

definition solo_message :: PriceMessage where
  "solo_message = \<lparr>m_feedId = feedId demo_crypto ''Crypto.CKB/USDT'', m_price = 500, m_conf = 3, m_expo = -8,
     m_prevPublishTimeMs = 0, m_emaPrice = 500, m_emaConf = 3, m_sourceTimeMs = 599999, m_numPublishers = 1\<rparr>"

definition solo_input :: UnsignedUpdateInput where
  "solo_input = \<lparr>i_publisherSetTypeHash = bytesToHex (replicate 32 9), i_setIndex = 1, i_publishTimeMs = 600000,
     i_tickPeriodMs = 2000, i_configHash = bytesToHex (replicate 32 4), i_messages = [solo_message]\<rparr>"

lemma solo_aggregated:
  "aggregateMessages demo_config [demo_observation 0 500] 1 600000 (\<lambda>_. None) = Inr [solo_message]"
  using demo_feed_ids[symmetric]
  by (simp add: aggregateMessages_def aggregateFeed_def demo_config_fields demo_observation_def feed_entries_def
      demo_base_def median_def Let_def nextEma_def List.map_filter_def solo_message_def)

lemma solo_encodable [simp]: "encodable solo_message"
  by (simp add: encodable_def encodeMessage_iff solo_message_def int_ranges feedId_def)

lemma solo_assembled:
  obtains header entries hb where "assemblePriceUpdate demo_crypto solo_input = Inr (header, entries)"
    "priceUpdateSigningHash demo_crypto header = Inr (bytesToHex hb)"
    "\<forall>sigs. (\<exists>sb. encodeSignatureBundle sigs = Inr sb) \<longrightarrow>
      (\<exists>bs. encodePriceUpdate \<lparr>u_header = header, u_signatures = sigs, u_entries = entries\<rparr> = Inr bs)"
proof -
  obtain header entries where a: "assemblePriceUpdate demo_crypto solo_input = Inr (header, entries)"
    using assemble_total[of solo_input demo_crypto] by (auto simp: solo_input_def)
  have fits: "input_fits solo_input" by (simp add: input_fits_def solo_input_def int_ranges)
  have enc: "\<exists>h bs. encodePriceUpdateHeader header = Inr h \<and>
      encodePriceUpdate \<lparr>u_header = header, u_signatures = sigs, u_entries = entries\<rparr> = Inr bs"
    if "encodeSignatureBundle sigs = Inr sb" for sigs sb
    by (rule assembled_encodes[OF a demo_hash32 fits that])
  have "\<exists>sb. encodeSignatureBundle demo_bundle = Inr sb"
    using accepted_bundle_encodes[OF demo_bundle_verified] by simp
  then obtain h where "encodePriceUpdateHeader header = Inr h" using enc by blast
  then have "priceUpdateSigningHash demo_crypto header = Inr (bytesToHex (ckbHash demo_crypto [DOMAIN_PRICE_UPDATE, h]))"
    by (simp add: priceUpdateSigningHash_def)
  with a show ?thesis by (rule that) (use enc in blast)
qed

definition solo_proposal :: "hex \<Rightarrow> SignedProposal" where
  "solo_proposal od = \<lparr>sp_rank = 0, sp_proposer = 0, sp_body = solo_body od, sp_signature = demo_signature 1\<rparr>"

lemma solo_proposal_simps [simp]:
  "pb_tickMs (solo_body od) = 600000" "pb_anchorTickMs (solo_body od) = 0" "pb_anchorHash (solo_body od) = NO_ANCHOR"
  "pb_prevTickMs (solo_body od) = 0" "pb_chosen (solo_body od) = [\<lparr>ch_index = 0, ch_hash = od\<rparr>]"
  "sp_rank (solo_proposal od) = 0" "sp_proposer (solo_proposal od) = 0" "sp_body (solo_proposal od) = solo_body od"
  "sp_signature (solo_proposal od) = demo_signature 1"
  by (simp_all add: solo_body_def solo_proposal_def)

lemma solo_step2:
  assumes a: "assemblePriceUpdate demo_crypto solo_input = Inr (header, entries)"
    and h: "priceUpdateSigningHash demo_crypto header = Inr hh"
    and od: "observationSigningHash demo_crypto (demo_observation 0 500) = Inr od"
    and pd: "proposalDigest demo_crypto 0 0 (solo_body od) = Inr (bytesToHex pd)"
    and pf: "encodeMessage (ProposalMsg (solo_proposal od)) = Inr pf"
    and d: "d = \<lparr>dv_header = header, dv_entries = entries, dv_headerHash = hh\<rparr>"
  shows "\<exists>signed_store. reserveSignature empty_store 600000 hh = (True, signed_store) \<and>
    node_step demo_crypto solo solo_env (Resume 0) \<lparr>nd_store = empty_store, nd_ticks = [(600000, solo_tick)],
      nd_effects = [SignProposal pd'], nd_tasks = [[ProposeSigned 600000 0 (solo_body od)]]\<rparr> =
    \<lparr>nd_store = signed_store,
     nd_ticks = [(600000, solo_tick\<lparr>tk_best := Some (solo_proposal od), tk_derived := [(hh, d)]\<rparr>)],
     nd_effects = [SignProposal pd', Broadcast pf, SignHeader 600000 hh],
     nd_tasks = [[HeaderSigned 600000 hh]]\<rparr>"
proof -
  obtain r signed_store where s: "reserveSignature empty_store 600000 hh = (r, signed_store)" by force
  have r: "r = True"
    using publisher_guard.reserve_granted[of empty_store 600000 hh] publisher_guard.reserve_held[of empty_store 600000 hh 600000] s
    by (simp add: empty_store_def new_store_def signed_hash_def)
  have der: "derive demo_crypto solo empty_store 600000 solo_active [demo_observation 0 500] = Inr (Some d)"
    using a h by (simp add: derive_def solo_aggregated solo_input_def[symmetric] demo_config_fields d)
  have so: "so_observation solo_signed = demo_observation 0 500" by (simp add: solo_signed_def)
  show ?thesis
    by (rule exI[of _ signed_store])
      (simp add: resume_def propose_signed_def pd solo_proposal_def[symmetric] pf onProposal_def run_simps s r
        solo_tick_def new_tick_def at_index_def slotOpensAt_def demo_config_fields consider_chosen_def List.map_filter_def
        derive_chosen_def so od der tryFinalize_def sign_derived_def d od)
qed

lemma solo_not_passed: "passed_in (snd (reserveSignature empty_store t h)) k = False"
  by (simp add: passed_in_def latestFinalizedTick_def own_rows_def empty_store_def new_store_def tbl_last_by_def)

lemma solo_step3:
  assumes sf: "encodeMessage (SignatureMsg 600000 (bytesToHex hb) (demo_signature 1)) = Inr sf"
    and enc: "encodePriceUpdate \<lparr>u_header = dv_header d, u_signatures = [\<lparr>publisherIndex = 0, signature = demo_signature 1\<rparr>],
      u_entries = dv_entries d\<rparr> = Inr blob"
    and st: "st = snd (reserveSignature empty_store 600000 (bytesToHex hb))"
  shows "\<exists>nd. node_step demo_crypto solo solo_env (Resume 0) \<lparr>nd_store = st,
     nd_ticks = [(600000, solo_tick\<lparr>tk_best := best, tk_derived := [(bytesToHex hb, d)]\<rparr>)],
     nd_effects = eff, nd_tasks = [[HeaderSigned 600000 (bytesToHex hb)]]\<rparr> = nd \<and>
    nd_store nd = snd (saveFinalized st \<lparr>u_header = dv_header d,
      u_signatures = [\<lparr>publisherIndex = 0, signature = demo_signature 1\<rparr>], u_entries = dv_entries d\<rparr> blob) \<and>
    nd_effects nd = eff @ [Broadcast sf, Logged ''finalized'']"
  by (simp add: resume_def header_signed_def run_simps sf onSignature_def at_index_def solo_tick_def new_tick_def
      tryFinalize_def solo_not_passed[of 600000 "bytesToHex hb" 600000, folded st] toSignatureBundle_def enc)

text \<open>The run: what is left is one signed header and the update, finalized.\<close>

lemma solo_run:
  "\<exists>frame hh blob. let nd = node_run demo_crypto solo [(solo_env, Receive 0 frame), (solo_env, Resume 0), (solo_env, Resume 0)]
      (new_node empty_store) in
    decodeMessage frame = Inr (ObservationMsg solo_signed) \<and> (\<forall>t es. Observed t es \<notin> set (nd_effects nd)) \<and>
    {(t, h). SignHeader t h \<in> set (nd_effects nd)} = {(600000, hh)} \<and> finalized_row (nd_store nd) 600000 = Some blob \<and>
    (\<exists>u. decodePriceUpdate (Raw blob) = Inr u \<and> priceUpdateSigningHash demo_crypto (u_header u) = Inr hh \<and>
      h_publisherSetTypeHash (u_header u) = bytesToHex (replicate 32 9) \<and> h_setIndex (u_header u) = 1)"
proof -
  obtain frame where f: "decodeMessage frame = Inr (ObservationMsg solo_signed)" using solo_frame by blast
  obtain od where od: "observationSigningHash demo_crypto (demo_observation 0 500) = Inr (bytesToHex od)" using solo_digest by blast
  obtain header entries hb where a: "assemblePriceUpdate demo_crypto solo_input = Inr (header, entries)"
      and h: "priceUpdateSigningHash demo_crypto header = Inr (bytesToHex hb)"
      and enc: "\<forall>sigs. (\<exists>sb. encodeSignatureBundle sigs = Inr sb) \<longrightarrow>
        (\<exists>bs. encodePriceUpdate \<lparr>u_header = header, u_signatures = sigs, u_entries = entries\<rparr> = Inr bs)"
    by (rule solo_assembled)
  let ?od = "bytesToHex od" and ?hh = "bytesToHex hb"
  let ?sigs = "[\<lparr>publisherIndex = 0, signature = demo_signature 1\<rparr>]"
  let ?d = "\<lparr>dv_header = header, dv_entries = entries, dv_headerHash = ?hh\<rparr>"
  have sig: "hexToBytes (demo_signature 1) = Inr ((2 # 1 # replicate 31 0) @ replicate 32 0)"
    by (simp add: demo_signature_def)
  have anchor: "\<exists>b. hexToBytes NO_ANCHOR = Inr b" by (simp add: NO_ANCHOR_bytes)
  obtain pd where pd: "proposalDigest demo_crypto 0 0 (solo_body ?od) = Inr (bytesToHex pd)"
    using anchor by (auto simp: proposalDigest_def encodeBody_def encodeChosen_def)
  obtain pf where pf: "encodeMessage (ProposalMsg (solo_proposal ?od)) = Inr pf"
    using anchor sig by (auto simp: encodeMessage_def encodeBody_def encodeChosen_def)
  obtain sf where sf: "encodeMessage (SignatureMsg 600000 ?hh (demo_signature 1)) = Inr sf"
    using sig by (auto simp: encodeMessage_def)
  have "\<exists>sb. encodeSignatureBundle ?sigs = Inr sb"
    using sig by (auto simp: encodeSignatureBundle_iff int_ranges list_all2_Cons1 writeSignature_iff hexToFixed_eq_Inr SIGNATURE_LEN_def)
  with enc obtain blob where blob: "encodePriceUpdate \<lparr>u_header = header, u_signatures = ?sigs, u_entries = entries\<rparr> = Inr blob"
    by blast
  note s1 = solo_step1[OF f od pd]
  from solo_step2[OF a h od pd pf refl, of "bytesToHex pd"] obtain st where st: "reserveSignature empty_store 600000 ?hh = (True, st)"
    and s2: "node_step demo_crypto solo solo_env (Resume 0) \<lparr>nd_store = empty_store, nd_ticks = [(600000, solo_tick)],
      nd_effects = [SignProposal (bytesToHex pd)], nd_tasks = [[ProposeSigned 600000 0 (solo_body ?od)]]\<rparr> =
    \<lparr>nd_store = st,
     nd_ticks = [(600000, solo_tick\<lparr>tk_best := Some (solo_proposal ?od), tk_derived := [(?hh, ?d)]\<rparr>)],
     nd_effects = [SignProposal (bytesToHex pd), Broadcast pf, SignHeader 600000 ?hh],
     nd_tasks = [[HeaderSigned 600000 ?hh]]\<rparr>" by blast
  have st': "st = snd (reserveSignature empty_store 600000 ?hh)" using st by simp
  have row: "finalized_row (snd (saveFinalized st \<lparr>u_header = header, u_signatures = ?sigs, u_entries = entries\<rparr> blob)) 600000 = Some blob"
  proof -
    have "h_publishTimeMs header = 600000"
      using a by (rule assemble_sorted) (simp add: solo_input_def)
    moreover have "finalized_row st 600000 = None"
      unfolding st' by (simp add: finalized_row_def empty_store_def new_store_def)
    ultimately show ?thesis by (simp add: publisher_log.save_row)
  qed
  let ?u = "\<lparr>u_header = header, u_signatures = ?sigs, u_entries = entries\<rparr>"
  have count: "h_leafCount header \<noteq> 0"
    using a by (rule assemble_sorted) (simp only: length_0_conv of_nat_eq_0_iff not_False_eq_True)
  have "decodePriceUpdate (Raw blob) = Inr (norm_update ?u)"
    by (rule update_codec.dec_enc[OF _ blob]) (simp add: count)
  moreover have "priceUpdateSigningHash demo_crypto (norm_header header) = Inr ?hh"
    by (rule signingHash_norm[OF h count])
  moreover have "h_publisherSetTypeHash header = bytesToHex (replicate 32 9) \<and> h_setIndex header = 1"
    using a by (rule assemble_sorted) (simp add: solo_input_def)
  ultimately have decoded: "\<exists>u. decodePriceUpdate (Raw blob) = Inr u \<and> priceUpdateSigningHash demo_crypto (u_header u) = Inr ?hh \<and>
      h_publisherSetTypeHash (u_header u) = bytesToHex (replicate 32 9) \<and> h_setIndex (u_header u) = 1"
    by (intro exI[of _ "norm_update ?u"]) (simp add: norm_update_def norm_header_def)
  from solo_step3[OF sf, of ?d blob st "Some (solo_proposal ?od)" "[SignProposal (bytesToHex pd), Broadcast pf, SignHeader 600000 ?hh]"] blob st' row
  show ?thesis
    by (intro exI[of _ frame] exI[of _ ?hh] exI[of _ blob]) (use decoded f in \<open>auto simp: s1 s2 simp del: node_step.simps\<close>)
qed

end
