(* ===== verification/Node_Safety.thy ===== *)
theory Node_Safety
  imports Node_Demo
begin

text \<open>
  What a publisher node never does, whatever frames its peers send, however its handlers interleave
  and whenever its timers fire. One invariant, \<open>node_inv\<close>, ties the store, the memory of the ticks and
  the record of what was signed; every handler keeps it. It gives: no two headers signed for a tick;
  every header signed is the aggregate of a quorum of observations; every finalized update in the
  store is proven. The last section is about several nodes: their stores agree.
\<close>

section \<open>The invariant\<close>

text \<open>The headers the node asked its signer to sign.\<close>

definition signed_headers :: "Node \<Rightarrow> (int \<times> hex) set" where
  "signed_headers nd = {(t, h). SignHeader t h \<in> set (nd_effects nd)}"

definition header_signature :: "crypto \<Rightarrow> NodeOptions \<Rightarrow> hex \<Rightarrow> int \<Rightarrow> hex \<Rightarrow> bool" where
  "header_signature C opts h i sig \<longleftrightarrow>
    (\<exists>key. at_index (pubkeys (currentSet (no_publisherSet opts))) i = Some key \<and>
      recoverSigner C (HexStr h) (HexStr sig) = Inr (Some (toLowerCase key)))"

text \<open>What the node measured itself: the entries that \<open>observe\<close> took from the market data for a tick.\<close>

definition measured :: "Node \<Rightarrow> (int \<times> ObservationEntry list) set" where
  "measured nd = {(t, es). Observed t es \<in> set (nd_effects nd)}"

text \<open>
  An observation in memory is encodable and either the node's own, with entries \<open>M\<close> that it measured for
  the tick, or one of the observations \<open>V\<close> that peers sent, with a signature of the publisher that it names.
\<close>

definition observation_good ::
  "crypto \<Rightarrow> NodeOptions \<Rightarrow> (int \<times> ObservationEntry list) set \<Rightarrow> SignedObservation set \<Rightarrow> int \<Rightarrow> int \<Rightarrow>
    SignedObservation \<Rightarrow> bool" where
  "observation_good C opts M V t i so \<longleftrightarrow>
    o_tickMs (so_observation so) = t \<and> o_publisherIndex (so_observation so) = i \<and>
    (\<exists>bs. encodeObservation (so_observation so) = Inr bs) \<and>
    (i = no_index opts \<and> (t, o_entries (so_observation so)) \<in> M \<or>
     so \<in> V \<and> verifyObservation C so (currentSet (no_publisherSet opts)) = Inr True)"

definition derived_good :: "crypto \<Rightarrow> NodeOptions \<Rightarrow> int \<Rightarrow> Derived \<Rightarrow> bool" where
  "derived_good C opts t d \<longleftrightarrow>
    (\<exists>inp. assemblePriceUpdate C inp = Inr (dv_header d, dv_entries d) \<and>
      i_publisherSetTypeHash inp = no_publisherSetTypeHash opts \<and> i_publishTimeMs inp = t \<and>
      i_setIndex inp = setIndex (currentSet (no_publisherSet opts)) \<and>
      priceUpdateSigningHash C (dv_header d) = Inr (dv_headerHash d))"

definition tick_good ::
  "crypto \<Rightarrow> NodeOptions \<Rightarrow> (int \<times> ObservationEntry list) set \<Rightarrow> SignedObservation set \<Rightarrow>
    int \<Rightarrow> TickState \<Rightarrow> bool" where
  "tick_good C opts M V t st \<longleftrightarrow>
    (\<forall>i so. map_of (tk_observations st) i = Some so \<longrightarrow> observation_good C opts M V t i so) \<and>
    (\<forall>h d. map_of (tk_derived st) h = Some d \<longrightarrow> derived_good C opts t d \<and> dv_headerHash d = h) \<and>
    (\<forall>h m. map_of (tk_signatures st) h = Some m \<longrightarrow> distinct (map fst m) \<and>
      (\<forall>(i, sig) \<in> set m. header_signature C opts h i sig))"

text \<open>A header worth signing: the aggregate of observations of a quorum of distinct publishers for its tick.\<close>

definition chosen_good ::
  "crypto \<Rightarrow> NodeOptions \<Rightarrow> (int \<times> ObservationEntry list) set \<Rightarrow> SignedObservation set \<Rightarrow>
    int \<Rightarrow> SignedObservation list \<Rightarrow> bool" where
  "chosen_good C opts M V t sos \<longleftrightarrow>
    node_quorum opts \<le> int (length sos) \<and>
    distinct (map (\<lambda>so. o_publisherIndex (so_observation so)) sos) \<and>
    (\<forall>so \<in> set sos. observation_good C opts M V t (o_publisherIndex (so_observation so)) so)"

definition justified ::
  "crypto \<Rightarrow> NodeOptions \<Rightarrow> (int \<times> ObservationEntry list) set \<Rightarrow> SignedObservation set \<Rightarrow>
    int \<Rightarrow> hex \<Rightarrow> bool" where
  "justified C opts M V t h \<longleftrightarrow>
    (\<exists>active store sos d. chosen_good C opts M V t sos \<and>
      derive C opts store t active (map so_observation sos) = Inr (Some d) \<and> dv_headerHash d = h)"

text \<open>A finalized update: a quorum signed its header and every entry is proven against it.\<close>

definition update_proven :: "crypto \<Rightarrow> PublisherSet \<Rightarrow> PriceUpdate \<Rightarrow> bool" where
  "update_proven C s u \<longleftrightarrow>
    (\<exists>digest. priceUpdateSigningHash C (u_header u) = Inr digest \<and>
      verifyThreshold C (u_signatures u) (HexStr digest) s = Inr True) \<and>
    entries_proven C u = Inr True"

definition row_good :: "crypto \<Rightarrow> NodeOptions \<Rightarrow> PublisherSet set \<Rightarrow> int \<Rightarrow> bytes \<Rightarrow> bool" where
  "row_good C opts K t blob \<longleftrightarrow>
    (\<exists>u s. decodePriceUpdate (Raw blob) = Inr u \<and> tick_of u = t \<and>
      h_setIndex (u_header u) = setIndex s \<and>
      toLowerCase (h_publisherSetTypeHash (u_header u)) = toLowerCase (no_publisherSetTypeHash opts) \<and>
      (s = currentSet (no_publisherSet opts) \<or> s \<in> K) \<and> update_proven C s u)"

text \<open>The continuation of \<open>observe\<close> publishes what was measured.\<close>

fun task_good :: "(int \<times> ObservationEntry list) set \<Rightarrow> task \<Rightarrow> bool" where
  "task_good M (ObserveSigned t h entries) \<longleftrightarrow> (t, entries) \<in> M"
| "task_good M _ \<longleftrightarrow> True"

definition node_inv ::
  "crypto \<Rightarrow> NodeOptions \<Rightarrow> PublisherSet set \<Rightarrow> (int \<times> ObservationEntry list) set \<Rightarrow> SignedObservation set \<Rightarrow> int \<Rightarrow>
    Node \<Rightarrow> bool" where
  "node_inv C opts K M V b nd \<longleftrightarrow>
    M \<subseteq> measured nd \<and> (\<forall>ts \<in> set (nd_tasks nd). \<forall>tsk \<in> set ts. task_good M tsk) \<and>
    store_wf (nd_store nd) \<and>
    guarded signed_hash (nd_store nd) b (signed_headers nd) \<and>
    (\<forall>(t, h) \<in> signed_headers nd. justified C opts M V t h) \<and>
    (\<forall>t st. map_of (nd_ticks nd) t = Some st \<longrightarrow> tick_good C opts M V t st) \<and>
    (\<forall>t blob. finalized_row (nd_store nd) t = Some blob \<longrightarrow> row_good C opts K t blob) \<and>
    (\<forall>i s. keySet (nd_store nd) i = Some s \<longrightarrow> s \<in> K)"

section \<open>The primitives keep it\<close>

lemma tick_good_new [simp]: "tick_good C opts M V t new_tick"
  by (simp add: tick_good_def new_tick_def)

lemma tick_of_node_good: "node_inv C opts K M V b nd \<Longrightarrow> tick_good C opts M V t (tick_of_node t nd)"
  by (auto simp: node_inv_def tick_of_node_def split: option.splits)

lemma signed_headers_upd [simp]:
  "signed_headers (nd\<lparr>nd_ticks := x\<rparr>) = signed_headers nd"
  "signed_headers (nd\<lparr>nd_store := y\<rparr>) = signed_headers nd"
  "signed_headers (nd\<lparr>nd_tasks := z\<rparr>) = signed_headers nd"
  by (simp_all add: signed_headers_def)

lemma measured_upd [simp]:
  "measured (nd\<lparr>nd_ticks := x\<rparr>) = measured nd"
  "measured (nd\<lparr>nd_store := y\<rparr>) = measured nd"
  "measured (nd\<lparr>nd_tasks := z\<rparr>) = measured nd"
  by (simp_all add: measured_def)

text \<open>The record of effects only grows.\<close>

lemma measured_grows [intro]: "M \<subseteq> measured nd \<Longrightarrow> M \<subseteq> measured (nd\<lparr>nd_effects := nd_effects nd @ xs\<rparr>)"
  by (auto simp: measured_def)

lemma measured_emits [simp]:
  "(\<And>t es. x \<noteq> Observed t es) \<Longrightarrow> measured (nd\<lparr>nd_effects := nd_effects nd @ [x]\<rparr>) = measured nd"
  by (auto simp: measured_def)

text \<open>What was measured later does not make an observation, a header or a task bad.\<close>

lemma observation_good_mono:
  "observation_good C opts M V t i so \<Longrightarrow> M \<subseteq> N \<Longrightarrow> observation_good C opts N V t i so"
  by (auto simp: observation_good_def)

lemma tick_good_mono: "tick_good C opts M V t st \<Longrightarrow> M \<subseteq> N \<Longrightarrow> tick_good C opts N V t st"
  unfolding tick_good_def by (blast intro: observation_good_mono)

lemma justified_mono: "justified C opts M V t h \<Longrightarrow> M \<subseteq> N \<Longrightarrow> justified C opts N V t h"
  unfolding justified_def chosen_good_def by (blast intro: observation_good_mono)

lemma task_good_mono: "task_good M tsk \<Longrightarrow> M \<subseteq> N \<Longrightarrow> task_good N tsk"
  by (cases tsk) auto

lemma inv_measured:
  assumes nd: "node_inv C opts K M V b nd"
  shows "node_inv C opts K (measured nd) V b nd"
proof -
  have M: "M \<subseteq> measured nd" using nd by (simp add: node_inv_def)
  have "justified C opts (measured nd) V t h" if "(t, h) \<in> signed_headers nd" for t h
    using nd that justified_mono[OF _ M] by (auto simp: node_inv_def)
  moreover have "tick_good C opts (measured nd) V t st" if "map_of (nd_ticks nd) t = Some st" for t st
    using nd that tick_good_mono[OF _ M] by (simp add: node_inv_def)
  moreover have "task_good (measured nd) tsk" if "ts \<in> set (nd_tasks nd)" "tsk \<in> set ts" for ts tsk
    using nd that task_good_mono[OF _ M] unfolding node_inv_def by blast
  ultimately show ?thesis using nd by (auto simp: node_inv_def)
qed

lemma inv_set_tick:
  "node_inv C opts K M V b nd \<Longrightarrow> tick_good C opts M V t st \<Longrightarrow>
    node_inv C opts K M V b (nd\<lparr>nd_ticks := AList.update t st (nd_ticks nd)\<rparr>)"
  by (simp add: node_inv_def update_conv')

lemma tick_bind:
  assumes "\<And>st. tick_good C opts M V t st \<Longrightarrow> keeps (node_inv C opts K M V b) (f st)"
  shows "keeps (node_inv C opts K M V b) (act_bind (tick t) f)"
proof (rule keepsI)
  fix nd
  assume nd: "node_inv C opts K M V b nd"
  let ?nd = "nd\<lparr>nd_ticks := AList.update t (tick_of_node t nd) (nd_ticks nd)\<rparr>"
  have "node_inv C opts K M V b ?nd" by (rule inv_set_tick[OF nd tick_of_node_good[OF nd]])
  from keepsD[OF assms[OF tick_of_node_good[OF nd]] this]
  show "node_inv C opts K M V b (snd (act_bind (tick t) f nd))" by (simp add: tick_def act_simps)
qed

lemma set_tick_keeps:
  assumes "\<And>st. tick_good C opts M V t st \<Longrightarrow> tick_good C opts M V t (g st)"
  shows "keeps (node_inv C opts K M V b) (set_tick t g)"
  unfolding set_tick_def
  by (rule keeps_modify) (intro inv_set_tick assms tick_of_node_good)

lemma set_tick_harmless:
  assumes "\<And>st. tk_observations (g st) = tk_observations st \<and> tk_derived (g st) = tk_derived st \<and>
    tk_signatures (g st) = tk_signatures st"
  shows "keeps (node_inv C opts K M V b) (set_tick t g)"
  by (rule set_tick_keeps) (simp add: tick_good_def assms)

lemma emit_keeps: "(\<And>t h. x \<noteq> SignHeader t h) \<Longrightarrow> keeps (node_inv C opts K M V b) (emit x)"
  unfolding emit_def
proof (rule keeps_modify)
  fix nd
  assume x: "\<And>t h. x \<noteq> SignHeader t h" and nd: "node_inv C opts K M V b nd"
  then have "signed_headers (nd\<lparr>nd_effects := nd_effects nd @ [x]\<rparr>) = signed_headers nd"
    by (auto simp: signed_headers_def)
  moreover have "M \<subseteq> measured (nd\<lparr>nd_effects := nd_effects nd @ [x]\<rparr>)"
    using nd by (intro measured_grows) (simp add: node_inv_def)
  ultimately show "node_inv C opts K M V b (nd\<lparr>nd_effects := nd_effects nd @ [x]\<rparr>)"
    using nd by (simp add: node_inv_def)
qed

lemma get_bind:
  "(\<And>x nd. I nd \<Longrightarrow> x = g nd \<Longrightarrow> keeps I (f x)) \<Longrightarrow> keeps I (act_bind (act_get g) f)"
  by (rule keepsI) (simp add: act_simps keepsD)

lemma lift_bind:
  "(\<And>x. r = Inr x \<Longrightarrow> keeps I (f x)) \<Longrightarrow> keeps I (act_bind (act_lift r) f)"
  by (rule keepsI) (auto simp: act_simps split: sum.splits dest: keepsD)

lemma save_keeps:
  assumes "row_good C opts K (tick_of u) blob"
  shows "keeps (node_inv C opts K M V b) (act_update (\<lambda>nd. let r = saveFinalized (nd_store nd) u blob in
    (fst r, nd\<lparr>nd_store := snd r\<rparr>)))"
proof (rule keeps_update)
  fix nd
  assume nd: "node_inv C opts K M V b nd"
  let ?s = "snd (saveFinalized (nd_store nd) u blob)"
  have "row_good C opts K t bl" if "finalized_row ?s t = Some bl" for t bl
    by (rule publisher_log.rows_good_save[of "nd_store nd"]) (use nd assms that in \<open>auto simp: node_inv_def\<close>)
  moreover have "guarded signed_hash ?s b (signed_headers nd)"
    using nd by (simp add: node_inv_def guarded_def)
  moreover have "store_wf ?s" using nd by (auto simp: node_inv_def)
  ultimately show "node_inv C opts K M V b (snd (let r = saveFinalized (nd_store nd) u blob in (fst r, nd\<lparr>nd_store := snd r\<rparr>)))"
    using nd by (simp add: node_inv_def Let_def)
qed

text \<open>The guard, then the signature: the only place where a header is signed.\<close>

lemma reserve_and_sign:
  assumes "b \<le> t" "justified C opts M V t h"
  shows "keeps (node_inv C opts K M V b) (act_bind (act_update (\<lambda>nd. let r = reserveSignature (nd_store nd) t h in
      (fst r, nd\<lparr>nd_store := snd r\<rparr>))) (\<lambda>granted.
    if \<not> granted then reject w
    else act_then (emit (SignHeader t h)) (act_return ts)))"
proof (rule keepsI)
  fix nd
  assume nd: "node_inv C opts K M V b nd"
  let ?s = "snd (reserveSignature (nd_store nd) t h)"
  have store: "store_wf ?s" "keySet ?s = keySet (nd_store nd)" "finalized_row ?s = finalized_row (nd_store nd)"
    using nd by (auto simp: node_inv_def)
  show "node_inv C opts K M V b (snd (act_bind (act_update (\<lambda>nd. let r = reserveSignature (nd_store nd) t h in
      (fst r, nd\<lparr>nd_store := snd r\<rparr>))) (\<lambda>granted.
    if \<not> granted then reject w
    else act_then (emit (SignHeader t h)) (act_return ts)) nd))"
  proof (cases "fst (reserveSignature (nd_store nd) t h)")
    case True
    let ?nd = "nd\<lparr>nd_store := ?s, nd_effects := nd_effects nd @ [SignHeader t h]\<rparr>"
    have "signed_headers ?nd = insert (t, h) (signed_headers nd)" by (auto simp: signed_headers_def)
    moreover have "guarded signed_hash ?s b (insert (t, h) (signed_headers nd))"
      using nd True assms(1) by (intro publisher_guard.guarded_grant) (auto simp: node_inv_def)
    moreover have "M \<subseteq> measured ?nd" using nd by (auto simp: node_inv_def measured_def)
    ultimately have "node_inv C opts K M V b ?nd" using nd store assms(2) by (simp add: node_inv_def)
    with True show ?thesis by (simp add: act_simps Let_def emit_def)
  next
    case False
    have "guarded signed_hash ?s b (signed_headers nd)"
      using nd by (intro publisher_guard.guarded_refuse) (simp add: node_inv_def)
    then have "node_inv C opts K M V b (nd\<lparr>nd_store := ?s\<rparr>)" using nd store by (simp add: node_inv_def)
    from keepsD[OF emit_keeps[of "Logged w"] this] False
    show ?thesis by (simp add: act_simps Let_def reject_def finish_def emit_def)
  qed
qed

lemma keeps_prod: "(\<And>a c. x = (a, c) \<Longrightarrow> keeps I (f a c)) \<Longrightarrow> keeps I (case x of (a, c) \<Rightarrow> f a c)"
  by (cases x) simp

lemmas node_intros = tick_bind get_bind lift_bind keeps_prod keeps_rules

section \<open>The handlers that only send\<close>

lemma send_keeps: "keeps (node_inv C opts K M V b) (send_frame to m)"
  unfolding send_frame_def by (intro lift_bind emit_keeps) simp

lemma broadcast_keeps: "keeps (node_inv C opts K M V b) (broadcast_frame m)"
  unfolding broadcast_frame_def by (intro lift_bind emit_keeps) simp

lemma anchor_keeps: "keeps (node_inv C opts K M V b) (anchor C e t)"
  unfolding anchor_def by (intro node_intros)

lemma leaders_keeps: "keeps (node_inv C opts K M V b) (leaders C opts e t)"
  unfolding leaders_def by (intro anchor_keeps node_intros)

lemma passed_keeps: "keeps I (passed t)"
  unfolding passed_def by (intro node_intros)

lemma requestSync_keeps: "keeps (node_inv C opts K M V b) (requestSync to)"
  unfolding requestSync_def by (intro node_intros send_keeps broadcast_keeps)

lemma share_keeps: "keeps (node_inv C opts K M V b) (shareFinalized opts to t)"
  unfolding shareFinalized_def by (intro node_intros send_keeps set_tick_harmless) simp_all

lemma finish_keeps: "keeps I m \<Longrightarrow> keeps I (finish m)"
  unfolding finish_def by (intro keeps_bind keeps_return)

lemma reject_keeps: "keeps (node_inv C opts K M V b) (reject w)"
  unfolding reject_def by (intro finish_keeps emit_keeps) simp

lemmas node_keeps = send_keeps broadcast_keeps anchor_keeps leaders_keeps passed_keeps requestSync_keeps share_keeps
  finish_keeps reject_keeps

section \<open>Finalizing\<close>

definition options_ok :: "NodeOptions \<Rightarrow> bool" where
  "options_ok opts \<longleftrightarrow> isValidPublisherSetData (no_publisherSet opts) = Inr True"

lemma options_key:
  assumes "options_ok opts" "at_index (pubkeys (currentSet (no_publisherSet opts))) i = Some key"
  obtains bs where "hexToBytes key = Inr bs"
  using valid_hex_set[OF valid_data_sets(1)] assms at_index_in_set[OF assms(2)]
  by (auto simp: options_ok_def hex_set_def list_all_iff isHex_iff)

lemma signature_of_header:
  assumes "options_ok opts" "header_signature C opts h i sig" "toBytes (HexStr h) = Inr hash"
  shows "signature_of C hash (currentSet (no_publisherSet opts)) i sig"
proof -
  from assms(2) obtain key where key: "at_index (pubkeys (currentSet (no_publisherSet opts))) i = Some key"
      "recoverSigner C (HexStr h) (HexStr sig) = Inr (Some (toLowerCase key))"
    by (auto simp: header_signature_def)
  obtain bs where "hexToBytes key = Inr bs" by (rule options_key[OF assms(1) key(1)])
  moreover have "recoverSigner C (Raw hash) (HexStr sig) = recoverSigner C (HexStr h) (HexStr sig)"
    using assms(3) by (simp add: recover_hex)
  ultimately show ?thesis
    using key hexToBytes_toLowerCase unfolding signature_of_def by auto
qed

lemma entries_proven_iff:
  "entries_proven C u = Inr True \<longleftrightarrow> int (length (u_entries u)) = h_leafCount (u_header u) \<and>
    (\<forall>en \<in> set (u_entries u). \<exists>m leaf. encodePriceMessage (e_message en) = Inr m \<and> leafHash C (Raw m) = Inr leaf \<and>
      verifyProof C (HexStr (h_merkleRoot (u_header u))) (HexStr leaf) (map HexStr (e_proof en)) = Inr True)"
  by (auto simp: entries_proven_def eall_True ebind_eq_Inr)

lemma update_proven_norm:
  assumes "update_proven C s u" "h_leafCount (u_header u) \<noteq> 0"
  shows "update_proven C s (norm_update u)"
proof -
  from assms(1) obtain digest where d: "priceUpdateSigningHash C (u_header u) = Inr digest"
      "verifyThreshold C (u_signatures u) (HexStr digest) s = Inr True" and e: "entries_proven C u = Inr True"
    by (auto simp: update_proven_def)
  have "encodePriceMessage (e_message (norm_entry en)) = Inr m" if "encodePriceMessage (e_message en) = Inr m" for en m
    using message_codec.enc_norm[OF _ that] by (simp add: norm_entry_def)
  moreover have "verifyProof C (HexStr (h_merkleRoot (u_header (norm_update u)))) leaf (map HexStr (e_proof (norm_entry en))) = Inr True"
    if "verifyProof C (HexStr (h_merkleRoot (u_header u))) leaf (map HexStr (e_proof en)) = Inr True" for en leaf
    using verifyProof_lower[OF that] by (simp add: norm_update_def norm_header_def norm_entry_def)
  ultimately have "entries_proven C (norm_update u) = Inr True"
    using e unfolding entries_proven_iff by (fastforce simp: norm_update_def norm_header_def)
  then show ?thesis
    using signingHash_norm[OF d(1) assms(2)] verifyThreshold_lower[OF d(2)]
    by (auto simp: update_proven_def norm_update_def)
qed

lemma local_row_good:
  assumes d: "derived_good C opts t d" and signed: "verifyThreshold C sigs (HexStr (dv_headerHash d)) (currentSet (no_publisherSet opts)) = Inr True"
    and bytes: "encodePriceUpdate \<lparr>u_header = dv_header d, u_signatures = sigs, u_entries = dv_entries d\<rparr> = Inr blob"
  shows "row_good C opts K t blob \<and> h_publishTimeMs (dv_header d) = t"
proof -
  let ?u = "\<lparr>u_header = dv_header d, u_signatures = sigs, u_entries = dv_entries d\<rparr>"
  from d obtain inp where a: "assemblePriceUpdate C inp = Inr (dv_header d, dv_entries d)"
      and i: "i_publisherSetTypeHash inp = no_publisherSetTypeHash opts" "i_publishTimeMs inp = t"
      "i_setIndex inp = setIndex (currentSet (no_publisherSet opts))"
      and h: "priceUpdateSigningHash C (dv_header d) = Inr (dv_headerHash d)"
    by (auto simp: derived_good_def)
  have nz: "h_leafCount (dv_header d) \<noteq> 0"
    using a by (rule assemble_sorted) (simp only: length_0_conv of_nat_eq_0_iff not_False_eq_True)
  have "h_leafCount (dv_header d) = int (length (dv_entries d)) \<and>
      h_publishTimeMs (dv_header d) = t \<and> h_setIndex (dv_header d) = setIndex (currentSet (no_publisherSet opts)) \<and>
      h_publisherSetTypeHash (dv_header d) = no_publisherSetTypeHash opts"
    using a by (rule assemble_sorted) (simp add: i)
  with nz have header: "h_leafCount (dv_header d) = int (length (dv_entries d)) \<and> h_leafCount (dv_header d) \<noteq> 0 \<and>
      h_publishTimeMs (dv_header d) = t \<and> h_setIndex (dv_header d) = setIndex (currentSet (no_publisherSet opts)) \<and>
      h_publisherSetTypeHash (dv_header d) = no_publisherSetTypeHash opts"
    by simp
  have "update_proven C (currentSet (no_publisherSet opts)) ?u"
    using h signed header assemble_entry_verifies[OF a]
    unfolding update_proven_def entries_proven_iff by fastforce
  then have "update_proven C (currentSet (no_publisherSet opts)) (norm_update ?u)"
    by (rule update_proven_norm) (simp add: nz)
  moreover have "decodePriceUpdate (Raw blob) = Inr (norm_update ?u)"
    by (rule update_codec.dec_enc[OF _ bytes]) (simp add: nz)
  ultimately show ?thesis
    using header unfolding row_good_def by (auto simp: norm_update_def norm_header_def)
qed

lemma sliced_bundle_verifies:
  assumes "toSignatureBundle all_sigs = Inr b" "toBytes digest = Inr hash" "quorum s \<le> int (length all_sigs)"
    and "\<forall>e \<in> set all_sigs. signature_of C hash s (publisherIndex e) (signature e)"
  shows "verifyThreshold C (take (nat (quorum s)) b) digest s = Inr True"
proof -
  let ?t = "take (nat (quorum s)) b"
  have b: "distinct (map publisherIndex all_sigs)" "b = sort_key publisherIndex all_sigs"
    using assms(1) by (simp_all add: toSignatureBundle_iff)
  have "mset (map publisherIndex b) = mset (map publisherIndex all_sigs)" using b(2) by simp
  with b(1) have "distinct (map publisherIndex b)" by (metis mset_eq_imp_distinct_iff)
  moreover have "sorted (map publisherIndex b)" using b(2) by simp
  ultimately have t: "distinct (map publisherIndex ?t)" "sorted (map publisherIndex ?t)"
    by (simp_all add: take_map[symmetric] distinct_take sorted_wrt_take)
  have "set ?t \<subseteq> set all_sigs" using b(2) set_take_subset[of _ b] by auto
  then have "\<forall>e \<in> set ?t. signature_of C hash s (publisherIndex e) (signature e)" using assms(4) by auto
  moreover have "quorum s \<le> int (length ?t)"
    using assms(3) b(2) by (simp add: quorum_def)
  ultimately have "verifyThreshold C (sort_key publisherIndex ?t) digest s = Inr True"
    using bundle_verifies[OF assms(2) t(1)] by blast
  then show ?thesis using t(2) by (simp add: sort_key_id_if_sorted)
qed

lemma signing_hash_bytes: "priceUpdateSigningHash C hdr = Inr h \<Longrightarrow> \<exists>hash. toBytes (HexStr h) = Inr hash"
  by (auto simp: priceUpdateSigningHash_def ebind_eq_Inr)

lemma tick_good_signature:
  "tick_good C opts M V t st \<Longrightarrow> map_of (tk_signatures st) h = Some m \<Longrightarrow> (i, sig) \<in> set m \<Longrightarrow> header_signature C opts h i sig"
  unfolding tick_good_def by fastforce

lemma finalized_good:
  assumes ok: "options_ok opts" and st: "tick_good C opts M V t st"
    and d: "map_of (tk_derived st) h = Some d" and sigs: "map_of (tk_signatures st) h = Some sigs"
    and q: "node_quorum opts \<le> int (length sigs)"
    and b: "toSignatureBundle (map (\<lambda>(i, sig). \<lparr>publisherIndex = i, signature = sig\<rparr>) sigs) = Inr b"
    and blob: "encodePriceUpdate \<lparr>u_header = dv_header d, u_signatures = take (nat (node_quorum opts)) b, u_entries = dv_entries d\<rparr> = Inr blob"
  shows "row_good C opts K (h_publishTimeMs (dv_header d)) blob"
proof -
  let ?all = "map (\<lambda>(i, sig). \<lparr>publisherIndex = i, signature = sig\<rparr>) sigs"
  from st d have good: "derived_good C opts t d" "dv_headerHash d = h" by (auto simp: tick_good_def)
  then obtain hash where hash: "toBytes (HexStr h) = Inr hash"
    using signing_hash_bytes unfolding derived_good_def by metis
  have "\<forall>e \<in> set ?all. signature_of C hash (currentSet (no_publisherSet opts)) (publisherIndex e) (signature e)"
    using signature_of_header[OF ok tick_good_signature[OF st sigs] hash] by auto
  then have "verifyThreshold C (take (nat (node_quorum opts)) b) (HexStr h) (currentSet (no_publisherSet opts)) = Inr True"
    using sliced_bundle_verifies[OF b hash] q by (simp add: node_quorum_def)
  then show ?thesis using local_row_good[OF good(1) _ blob] good(2) by metis
qed

lemma tryFinalize_keeps:
  assumes ok: "options_ok opts"
  shows "keeps (node_inv C opts K M V b) (tryFinalize opts t h)"
  unfolding tryFinalize_def Let_def
  by (intro tick_bind keeps_option keeps_return keeps_bind[OF passed_keeps] keeps_if lift_bind keeps_then keeps_bind
      set_tick_harmless save_keeps[unfolded Let_def] emit_keeps) (auto intro: finalized_good[OF ok])

lemma onSignature_keeps:
  assumes ok: "options_ok opts"
  shows "keeps (node_inv C opts K M V b) (onSignature C opts from t h sig)"
  unfolding onSignature_def
proof (intro keeps_option keeps_return keeps_if lift_bind tick_bind share_keeps keeps_then tryFinalize_keeps[OF ok] set_tick_keeps)
  fix key signer st st'
  assume key: "at_index (pubkeys (currentSet (no_publisherSet opts))) from = Some key"
    and r: "recoverSigner C (HexStr h) (HexStr sig) = Inr signer" "\<not> signer \<noteq> Some (toLowerCase key)"
    and st': "tick_good C opts M V t st'"
  let ?m = "case map_of (tk_signatures st') h of None \<Rightarrow> [] | Some m \<Rightarrow> m"
  have "header_signature C opts h from sig" using key r by (auto simp: header_signature_def)
  moreover have "distinct (map fst ?m)" "\<forall>(i, s) \<in> set ?m. header_signature C opts h i s"
    using st' by (cases "map_of (tk_signatures st') h"; fastforce simp: tick_good_def)+
  ultimately have m: "distinct (map fst (AList.update from sig ?m))"
      "\<forall>(i, s) \<in> set (AList.update from sig ?m). header_signature C opts h i s"
    using subsetD[OF alist_update_subset[of "from" sig ?m]] by (blast intro: distinct_update, blast)
  show "tick_good C opts M V t (st'\<lparr>tk_signatures := AList.update h (AList.update from sig ?m) (tk_signatures st')\<rparr>)"
    using st' m by (auto simp: tick_good_def update_conv' split: if_splits)
qed

lemma known_set:
  assumes "node_inv C opts K M V b nd" "set_for_update opts (nd_store nd) i = Some s"
  shows "setIndex s = i \<and> (s = currentSet (no_publisherSet opts) \<or> s \<in> K)"
  using assms by (auto simp: set_for_update_def Let_def node_inv_def keySet_def split: if_splits)

lemma accepted_good:
  assumes "decodePriceUpdate (Raw blob) = Inr u" "h_publisherSetTypeHash (u_header u) = no_publisherSetTypeHash opts"
    and "node_inv C opts K M V b nd" "set_for_update opts (nd_store nd) (h_setIndex (u_header u)) = Some s"
    and "ebind (priceUpdateSigningHash C (u_header u)) (\<lambda>digest. verifyThreshold C (u_signatures u) (HexStr digest) s) = Inr True"
    and "entries_proven C u = Inr True"
  shows "row_good C opts K (tick_of u) blob"
proof -
  have k: "setIndex s = h_setIndex (u_header u)" "s = currentSet (no_publisherSet opts) \<or> s \<in> K"
    using known_set[OF assms(3,4)] by simp_all
  have "update_proven C s u" using assms(5,6) by (auto simp: update_proven_def ebind_eq_Inr)
  with assms(1,2) k show ?thesis unfolding row_good_def by metis
qed

lemma accept_keeps: "keeps (node_inv C opts K M V b) (acceptFinalized C opts blob)"
  unfolding acceptFinalized_def Let_def
  by (intro lift_bind keeps_if keeps_return get_bind keeps_option emit_keeps keeps_bind[OF save_keeps[unfolded Let_def]]
      tick_bind set_tick_harmless)
    (auto intro: accepted_good[OF _ _ _ sym])

section \<open>Observations and proposals\<close>

lemma tolerance_keeps:
  assumes "b \<le> t" "justified C opts M V t (dv_headerHash d)"
  shows "keeps (node_inv C opts K M V b) (sign_derived opts t active d)"
  unfolding sign_derived_def Let_def
  by (intro tick_bind lift_bind keeps_if reject_keeps reserve_and_sign[unfolded Let_def] assms)

lemma derive_good:
  assumes "derive C opts store t active obs = Inr (Some d)"
  shows "derived_good C opts t d"
  using assms unfolding derive_def derived_good_def
  by (auto simp: ebind_eq_Inr split: if_splits prod.splits)

lemma map_filter_found:
  assumes "filter (\<lambda>i. f i = None) xs = []"
  shows "List.map_filter f xs = map (\<lambda>i. the (f i)) xs"
  using assms by (induction xs) (auto simp: List.map_filter_def split: if_splits)

lemma chosen_sound:
  assumes st: "tick_good C opts M V t st" and q: "node_quorum opts \<le> int (length is)"
    and asc: "\<not> list_ex (\<lambda>k. is ! k \<ge> int (n_publishers opts) \<or> (k > 0 \<and> is ! k \<le> is ! (k - 1))) [0..<length is]"
    and all: "filter (\<lambda>i. map_of (tk_observations st) i = None) is = []"
  shows "chosen_good C opts M V t (List.map_filter (\<lambda>i. map_of (tk_observations st) i) is)"
proof -
  have found: "observation_good C opts M V t i (the (map_of (tk_observations st) i))" if "i \<in> set is" for i
    using that st all by (auto simp: tick_good_def filter_empty_conv)
  then have idx: "o_publisherIndex (so_observation (the (map_of (tk_observations st) i))) = i" if "i \<in> set is" for i
    using that by (simp add: observation_good_def)
  have "ascending_by (<) is"
    using asc by (auto simp: ascending_by_nth list_ex_iff)
  then have "distinct is" by (intro ascending_by_distinct) (auto simp: transp_def irreflp_def)
  moreover have "map (\<lambda>so. o_publisherIndex (so_observation so)) (map (\<lambda>i. the (map_of (tk_observations st) i)) is) = is"
    using idx by (simp add: map_idI)
  ultimately have "chosen_good C opts M V t (map (\<lambda>i. the (map_of (tk_observations st) i)) is)"
    using q found idx unfolding chosen_good_def by auto
  then show ?thesis by (simp add: map_filter_found[OF all])
qed

lemma derive_chosen_keeps:
  assumes ok: "options_ok opts" and "b \<le> pb_tickMs body" and chosen: "chosen_good C opts M V (pb_tickMs body) sos"
  shows "keeps (node_inv C opts K M V b) (derive_chosen C opts active body sos)"
  unfolding derive_chosen_def Let_def
proof (intro lift_bind keeps_if reject_keeps get_bind keeps_option keeps_then tryFinalize_keeps[OF ok] set_tick_keeps
    tolerance_keeps[OF assms(2)])
  fix same store nd d' d st
  assume d: "derive C opts store (pb_tickMs body) active (map so_observation sos) = Inr d'" "d' = Some d"
  then show "justified C opts M V (pb_tickMs body) (dv_headerHash d)"
    using chosen unfolding justified_def by blast
  show "tick_good C opts M V (pb_tickMs body) (st\<lparr>tk_derived := AList.update (dv_headerHash d) d (tk_derived st)\<rparr>)"
    if "tick_good C opts M V (pb_tickMs body) st"
    using that derive_good d by (auto simp: tick_good_def update_conv' split: if_splits)
qed

lemma consider_keeps:
  assumes ok: "options_ok opts" and "b \<le> pb_tickMs (sp_body p)"
  shows "keeps (node_inv C opts K M V b) (consider_chosen C opts active fr p)"
  unfolding consider_chosen_def Let_def
proof (intro get_bind keeps_if keeps_then requestSync_keeps reject_keeps set_tick_harmless tick_bind send_keeps keeps_return
    derive_chosen_keeps[OF ok assms(2)])
  fix x nd st
  let ?is = "map ch_index (pb_chosen (sp_body p))"
  assume "\<not> (int (length ?is) < node_quorum opts \<or>
      list_ex (\<lambda>k. ?is ! k \<ge> int (n_publishers opts) \<or> (k > 0 \<and> ?is ! k \<le> ?is ! (k - 1))) [0..<length ?is])"
    and "tick_good C opts M V (pb_tickMs (sp_body p)) st"
    and "\<not> filter (\<lambda>i. map_of (tk_observations st) i = None) ?is \<noteq> []"
  then show "chosen_good C opts M V (pb_tickMs (sp_body p)) (List.map_filter (map_of (tk_observations st)) ?is)"
    by (intro chosen_sound) auto
qed simp_all

text \<open>No config lets the node sign a tick below the floor.\<close>

definition floor_ok :: "Env \<Rightarrow> int \<Rightarrow> bool" where
  "floor_ok e b \<longleftrightarrow> (\<forall>t active. schedule_at (ev_schedule e) t = Some active \<longrightarrow>
    b \<le> ev_now e - c_maxSigningLagMs (ac_config active))"

lemma onProposal_keeps:
  assumes ok: "options_ok opts" and "floor_ok e b"
  shows "keeps (node_inv C opts K M V b) (onProposal C opts e fr p)"
  unfolding onProposal_def Let_def
  by (intro keeps_option reject_keeps tick_bind keeps_if finish_keeps share_keeps keeps_bind[OF passed_keeps]
      keeps_bind[OF anchor_keeps] keeps_bind[OF leaders_keeps] keeps_return keeps_then requestSync_keeps lift_bind
      consider_keeps[OF ok])
    (use assms(2) in \<open>fastforce simp: floor_ok_def\<close>)

lemma header_signed_keeps:
  assumes ok: "options_ok opts"
  shows "keeps (node_inv C opts K M V b) (header_signed C opts t h)"
  unfolding header_signed_def by (intro lift_bind keeps_then broadcast_keeps finish_keeps onSignature_keeps[OF ok])

lemma ownBody_keeps: "keeps (node_inv C opts K M V b) (ownBody C opts e t)"
  unfolding ownBody_def by (intro tick_bind keeps_if keeps_return keeps_bind[OF anchor_keeps] lift_bind get_bind)

lemma maybePropose_keeps: "keeps (node_inv C opts K M V b) (maybePropose C opts e t)"
  unfolding maybePropose_def Let_def
  by (intro tick_bind keeps_option keeps_return keeps_bind[OF passed_keeps] keeps_if keeps_bind[OF leaders_keeps]
      finish_keeps keeps_then set_tick_harmless broadcast_keeps keeps_bind[OF ownBody_keeps] keeps_bind lift_bind reject_keeps
      ownBody_keeps emit_keeps) simp_all

lemma proposeEarly_keeps: "keeps (node_inv C opts K M V b) (proposeEarly C opts e t)"
  unfolding proposeEarly_def
  by (intro tick_bind keeps_if keeps_return keeps_bind[OF leaders_keeps] maybePropose_keeps)

lemma observation_keeps:
  assumes "observation_good C opts M V t i so"
    and "\<And>st. tk_derived (g st) = tk_derived st \<and> tk_signatures (g st) = tk_signatures st \<and>
      tk_observations (g st) = AList.update i so (tk_observations st)"
  shows "keeps (node_inv C opts K M V b) (set_tick t g)"
  by (rule set_tick_keeps) (use assms in \<open>auto simp: tick_good_def update_conv' split: if_splits\<close>)

lemma signing_hash_encodes: "observationSigningHash C ob = Inr h \<Longrightarrow> \<exists>bs. encodeObservation ob = Inr bs"
  by (auto simp: observationSigningHash_def ebind_eq_Inr)

lemma verified_encodes: "verifyObservation C so s = Inr True \<Longrightarrow> \<exists>bs. encodeObservation (so_observation so) = Inr bs"
  by (auto simp: verifyObservation_def Let_def ebind_eq_Inr observationSigningHash_def split: option.splits if_splits)


lemma propose_signed_keeps:
  assumes ok: "options_ok opts" and fl: "floor_ok e b"
  shows "keeps (node_inv C opts K M V b) (propose_signed C opts e t rank body)"
  unfolding propose_signed_def Let_def
  by (intro lift_bind keeps_then broadcast_keeps onProposal_keeps[OF ok fl])

lemma drain_keeps:
  assumes ok: "options_ok opts" and fl: "floor_ok e b"
  shows "keeps (node_inv C opts K M V b) (drain_pending C opts e t ps)"
  by (cases ps) (auto intro!: proposeEarly_keeps keeps_bind[OF onProposal_keeps[OF ok fl]] keeps_return)

lemma onObservation_keeps:
  assumes ok: "options_ok opts" and fl: "floor_ok e b" and seen: "so \<in> V"
  shows "keeps (node_inv C opts K M V b) (onObservation C opts e fr so)"
  unfolding onObservation_def Let_def
proof (intro lift_bind keeps_if keeps_return tick_bind keeps_option keeps_then drain_keeps[OF ok fl] reject_keeps)
  fix okay st
  assume "acceptable C opts e so (o_tickMs (so_observation so)) = Inr okay" "\<not> \<not> okay"
  then have "verifyObservation C so (currentSet (no_publisherSet opts)) = Inr True"
    by (auto simp: acceptable_def Let_def split: if_splits)
  then have "observation_good C opts M V (o_tickMs (so_observation so)) (o_publisherIndex (so_observation so)) so"
    using verified_encodes seen by (simp add: observation_good_def)
  then show "keeps (node_inv C opts K M V b) (set_tick (o_tickMs (so_observation so)) (\<lambda>st. st\<lparr>tk_observations :=
      AList.update (o_publisherIndex (so_observation so)) so (tk_observations st), tk_pending := []\<rparr>))"
    by (rule observation_keeps) simp
qed

lemma observe_keeps: "keeps (node_inv C opts K M V b) (observe C opts e t)"
  unfolding observe_def Let_def
  by (intro keeps_option keeps_return keeps_if lift_bind get_bind keeps_then emit_keeps reject_keeps) simp_all

lemma observe_signed_keeps:
  assumes own: "(t, entries) \<in> M"
  shows "keeps (node_inv C opts K M V b) (observe_signed C opts e t h entries)"
  unfolding observe_signed_def Let_def
proof (intro lift_bind tick_bind keeps_then broadcast_keeps proposeEarly_keeps)
  fix digest sig
  let ?so = "\<lparr>so_observation = own_observation opts t h entries, so_signature = sig\<rparr>"
  assume "observationSigningHash C (own_observation opts t h entries) = Inr digest"
  then have "observation_good C opts M V t (no_index opts) ?so"
    using signing_hash_encodes own by (auto simp: observation_good_def own_observation_def)
  then show "keeps (node_inv C opts K M V b) (set_tick t (\<lambda>st. st\<lparr>tk_own := Some (own_observation opts t h entries),
      tk_observations := AList.update (no_index opts) ?so (tk_observations st)\<rparr>))"
    by (rule observation_keeps) simp
qed

lemma handle_keeps:
  assumes ok: "options_ok opts" and fl: "floor_ok e b" and seen: "\<And>so. m = ObservationMsg so \<Longrightarrow> so \<in> V"
  shows "keeps (node_inv C opts K M V b) (handle_message C opts e fr m)"
proof (cases m)
  case (TickRequest t)
  then show ?thesis
    by (simp add: tick_requested_def)
      (intro finish_keeps get_bind keeps_option keeps_return keeps_then keeps_each keeps_prod send_keeps)
next
  case (ObsRequest t xs)
  then show ?thesis
    by (simp add: observations_requested_def)
      (intro finish_keeps keeps_each get_bind keeps_option keeps_return send_keeps)
next
  case (SyncRequest after)
  then show ?thesis
    by (simp add: sync_requested_def) (intro finish_keeps get_bind send_keeps)
next
  case (SyncResponse blobs)
  then show ?thesis by (simp) (intro finish_keeps keeps_each accept_keeps)
qed (simp_all add: onObservation_keeps[OF ok fl seen] onProposal_keeps[OF ok fl] finish_keeps onSignature_keeps[OF ok])

lemma receive_keeps:
  assumes ok: "options_ok opts" and fl: "floor_ok e b"
    and seen: "\<And>so. decodeMessage frame = Inr (ObservationMsg so) \<Longrightarrow> so \<in> V"
  shows "keeps (node_inv C opts K M V b) (receive C opts e fr frame)"
  unfolding receive_def
  by (cases "decodeMessage frame") (simp_all add: reject_keeps keeps_catch handle_keeps[OF ok fl] seen)

lemma run_task_keeps:
  assumes ok: "options_ok opts" and fl: "floor_ok e b" and "task_good M tsk"
  shows "keeps (node_inv C opts K M V b) (run_task C opts e tsk)"
  using assms(3)
  by (cases tsk) (simp_all add: observe_signed_keeps propose_signed_keeps[OF ok fl] header_signed_keeps[OF ok] drain_keeps[OF ok fl])

section \<open>The tasks that handlers leave\<close>

text \<open>Only \<open>observe\<close> leaves an observation to be signed, and it has recorded its entries.\<close>

definition yields :: "('a \<Rightarrow> bool) \<Rightarrow> ('s, 'a) act \<Rightarrow> bool" where
  "yields P m \<longleftrightarrow> (\<forall>s x s'. m s = (Inr x, s') \<longrightarrow> P x)"

named_theorems yields_rules \<open>rules for what a handler returns\<close>

lemma yields_return [yields_rules]: "P x \<Longrightarrow> yields P (act_return x)"
  by (simp add: yields_def act_return_def)

lemma yields_bind [yields_rules]: "(\<And>x. yields P (f x)) \<Longrightarrow> yields P (act_bind m f)"
  by (simp add: yields_def act_bind_def split: prod.splits sum.splits)

lemma yields_bind_from: "yields Q m \<Longrightarrow> (\<And>x. Q x \<Longrightarrow> yields P (f x)) \<Longrightarrow> yields P (act_bind m f)"
  by (simp add: yields_def act_bind_def split: prod.splits sum.splits) blast

lemma yields_then [yields_rules]: "yields P k \<Longrightarrow> yields P (act_then m k)"
  unfolding act_then_def by (rule yields_bind)

lemma yields_if [yields_rules]: "yields P m \<Longrightarrow> yields P k \<Longrightarrow> yields P (if b then m else k)"
  by simp

lemma yields_option [yields_rules]:
  "yields P m \<Longrightarrow> (\<And>y. yields P (f y)) \<Longrightarrow> yields P (case x of None \<Rightarrow> m | Some y \<Rightarrow> f y)"
  by (cases x) simp_all

lemma yields_catch [yields_rules]: "yields P m \<Longrightarrow> (\<And>e. yields P (h e)) \<Longrightarrow> yields P (act_catch m h)"
  by (auto simp: yields_def act_catch_def split: prod.splits sum.splits)

abbreviation plain :: "task list \<Rightarrow> bool" where
  "plain \<equiv> list_all (task_good {})"

lemma finish_plain [yields_rules]: "yields plain (finish m)"
  unfolding finish_def by (intro yields_rules) simp

lemma reject_plain [yields_rules]: "yields plain (reject w)"
  unfolding reject_def by (intro yields_rules)

lemma derive_chosen_plain: "yields plain (derive_chosen C opts active body sos)"
  unfolding derive_chosen_def sign_derived_def Let_def by (intro yields_rules) simp

lemma onProposal_plain: "yields plain (onProposal C opts e fr p)"
  unfolding onProposal_def consider_chosen_def Let_def by (intro yields_rules derive_chosen_plain) simp_all

lemma maybePropose_plain: "yields plain (maybePropose C opts e t)"
  unfolding maybePropose_def Let_def by (intro yields_rules) simp_all

lemma proposeEarly_plain: "yields plain (proposeEarly C opts e t)"
  unfolding proposeEarly_def by (intro yields_rules maybePropose_plain) simp_all

lemma drain_plain: "yields plain (drain_pending C opts e t ps)"
proof (cases ps)
  case (Cons q qs)
  then show ?thesis by (cases q) (auto intro!: yields_bind_from[OF onProposal_plain] yields_return)
qed (simp add: proposeEarly_plain)

lemma onObservation_plain: "yields plain (onObservation C opts e fr so)"
  unfolding onObservation_def Let_def by (intro yields_rules drain_plain) simp_all

lemma receive_plain: "yields plain (receive C opts e fr frame)"
proof (cases "decodeMessage frame")
  case (Inr m)
  have "yields plain (handle_message C opts e fr m)"
    by (cases m) (simp_all add: onObservation_plain onProposal_plain finish_plain)
  with Inr show ?thesis by (simp add: receive_def yields_catch reject_plain)
qed (simp add: receive_def reject_plain)

lemma run_task_plain: "yields plain (run_task C opts e tsk)"
proof (cases tsk)
  case (ObserveSigned t h entries)
  then show ?thesis by (simp add: observe_signed_def Let_def) (intro yields_rules proposeEarly_plain)
next
  case (ProposeSigned t rank body)
  then show ?thesis by (simp add: propose_signed_def Let_def) (intro yields_rules onProposal_plain)
next
  case (HeaderSigned t h)
  then show ?thesis by (simp add: header_signed_def) (intro yields_rules)
qed (simp add: drain_plain)

lemma plain_good: "plain ts \<Longrightarrow> list_all (task_good M) ts"
  by (auto simp: list_all_iff intro: task_good_mono)

lemma observe_leaves:
  "observe C opts e t nd = (Inr ts, nd') \<Longrightarrow> list_all (task_good (measured nd')) ts"
  by (auto simp: observe_def act_simps emit_def reject_def finish_def Let_def measured_def
      split: option.splits sum.splits if_splits)

lemma run_handler_inv:
  assumes m: "keeps (node_inv C opts K M V b) m" "node_inv C opts K M V b nd"
    and tasks: "\<And>ts nd'. m nd = (Inr ts, nd') \<Longrightarrow> list_all (task_good (measured nd')) ts" "list_all (task_good M) later"
  shows "node_inv C opts K (measured (run_handler m later nd)) V b (run_handler m later nd)"
proof -
  obtain r nd' where r: "m nd = (r, nd')" by (cases "m nd")
  have I: "node_inv C opts K M V b nd'" using keepsD[OF m] r by simp
  then have inv: "node_inv C opts K (measured nd') V b nd'" by (rule inv_measured)
  have M: "M \<subseteq> measured nd'" using I by (simp add: node_inv_def)
  show ?thesis
  proof (cases r)
    case (Inr ts)
    have "list_all (task_good (measured nd')) (ts @ later)"
      using tasks(1)[of ts nd'] tasks(2) r Inr task_good_mono[OF _ M] by (auto simp: list_all_iff)
    then have "node_inv C opts K (measured (suspend (ts @ later) nd')) V b (suspend (ts @ later) nd')"
      using inv by (auto simp: suspend_def node_inv_def list_all_iff)
    then show ?thesis using r Inr by (simp add: run_handler_def)
  qed (use r inv in \<open>simp add: run_handler_def\<close>)
qed

lemma plain_handler_inv:
  assumes "keeps (node_inv C opts K M V b) m" "node_inv C opts K M V b nd" "yields plain m" "list_all (task_good M) later"
  shows "node_inv C opts K (measured (run_handler m later nd)) V b (run_handler m later nd)"
  using run_handler_inv[OF assms(1,2) _ assms(4)] assms(3) plain_good by (auto simp: yields_def)

lemma inv_fewer_tasks:
  "node_inv C opts K M V b nd \<Longrightarrow> set ts \<subseteq> set (nd_tasks nd) \<Longrightarrow> node_inv C opts K M V b (nd\<lparr>nd_tasks := ts\<rparr>)"
  by (auto simp: node_inv_def)

lemma resume_inv:
  assumes ok: "options_ok opts" and fl: "floor_ok e b" and nd: "node_inv C opts K (measured nd) V b nd"
  shows "node_inv C opts K (measured (resume C opts e i nd)) V b (resume C opts e i nd)"
proof (cases "i < length (nd_tasks nd)")
  case True
  let ?nd = "nd\<lparr>nd_tasks := take i (nd_tasks nd) @ drop (Suc i) (nd_tasks nd)\<rparr>"
  have fewer: "node_inv C opts K (measured nd) V b ?nd"
    by (rule inv_fewer_tasks[OF nd]) (auto dest: in_set_takeD in_set_dropD)
  show ?thesis
  proof (cases "nd_tasks nd ! i")
    case Nil
    with True fewer show ?thesis by (simp add: resume_def Let_def)
  next
    case (Cons tsk ts)
    then have "tsk # ts \<in> set (nd_tasks nd)" using True by (metis nth_mem)
    then have "\<forall>x \<in> set (tsk # ts). task_good (measured nd) x" using nd unfolding node_inv_def by blast
    then have g: "task_good (measured nd) tsk" "list_all (task_good (measured nd)) ts"
      by (simp_all add: list_all_iff)
    show ?thesis
      using plain_handler_inv[OF run_task_keeps[OF ok fl g(1)] fewer run_task_plain g(2)] True Cons
      by (simp add: resume_def Let_def)
  qed
qed (use nd in \<open>simp add: resume_def\<close>)

section \<open>Runs\<close>

text \<open>
  The store of a publisher is pruned on a timer; the guard survives it because no config lets a node
  sign a tick older than its \<open>maxSigningLagMs\<close>. \<open>run_ok L now es\<close>: the clock does not run backwards, no
  config in force has a longer lag than \<open>L\<close>, and the retention window is off or at least \<open>L\<close>.
\<close>

definition lags_ok :: "int \<Rightarrow> ConfigSchedule \<Rightarrow> bool" where
  "lags_ok L sch \<longleftrightarrow> list_all (\<lambda>v. c_maxSigningLagMs (ac_config v) \<le> L) (cs_versions sch)"

fun run_ok :: "int \<Rightarrow> int \<Rightarrow> (Env \<times> node_input) list \<Rightarrow> bool" where
  "run_ok L now [] \<longleftrightarrow> True"
| "run_ok L now ((e, i) # es) \<longleftrightarrow> now \<le> ev_now e \<and> lags_ok L (ev_schedule e) \<and>
    (case i of PruneStore w \<Rightarrow> w \<le> 0 \<or> L \<le> w | _ \<Rightarrow> True) \<and> run_ok L (ev_now e) es"

text \<open>The key sets that the publisher records along the run.\<close>

fun key_sets_of :: "(Env \<times> node_input) list \<Rightarrow> PublisherSet set" where
  "key_sets_of [] = {}"
| "key_sets_of ((e, i) # es) = (case i of SaveKeySet s \<Rightarrow> {s} | _ \<Rightarrow> {}) \<union> key_sets_of es"

text \<open>The observations that peers sent along the run, good or bad.\<close>

definition received_observations :: "(Env \<times> node_input) list \<Rightarrow> SignedObservation set" where
  "received_observations es =
    {so. \<exists>e from frame. (e, Receive from frame) \<in> set es \<and> decodeMessage frame = Inr (ObservationMsg so)}"

fun last_clock :: "int \<Rightarrow> (Env \<times> node_input) list \<Rightarrow> int" where
  "last_clock now [] = now"
| "last_clock now ((e, i) # es) = last_clock (ev_now e) es"

lemma lags_floor: "lags_ok L (ev_schedule e) \<Longrightarrow> floor_ok e (ev_now e - L)"
  unfolding floor_ok_def
proof (intro allI impI)
  fix t active
  assume l: "lags_ok L (ev_schedule e)" and "schedule_at (ev_schedule e) t = Some active"
  then have "active \<in> set (rev (cs_versions (ev_schedule e)))"
    unfolding schedule_at_def find_Some_iff by (metis nth_mem)
  with l show "ev_now e - L \<le> ev_now e - c_maxSigningLagMs (ac_config active)"
    by (auto simp: lags_ok_def list_all_iff)
qed

lemma inv_raise_floor: "node_inv C opts K M V b nd \<Longrightarrow> b \<le> b' \<Longrightarrow> node_inv C opts K M V b' nd"
  by (fastforce simp: node_inv_def guarded_def)

lemma inv_more_sets: "node_inv C opts K M V b nd \<Longrightarrow> K \<subseteq> K' \<Longrightarrow> node_inv C opts K' M V b nd"
  unfolding node_inv_def row_good_def by (intro conjI) (blast+)

lemma inv_prune_store:
  assumes "node_inv C opts K M V b nd" "c \<le> b"
  shows "node_inv C opts K M V b (nd\<lparr>nd_store := pruned (nd_store nd) c\<rparr>)"
proof -
  have "guarded signed_hash (pruned (nd_store nd) c) (max b c) (signed_headers nd)"
    using assms(1) by (intro publisher_guard.guarded_forget) (simp add: node_inv_def)
  moreover have "row_good C opts K t bl" if "finalized_row (pruned (nd_store nd) c) t = Some bl" for t bl
    by (rule publisher_log.rows_good_drop[OF _ that]) (use assms(1) in \<open>simp add: node_inv_def\<close>)
  ultimately show ?thesis using assms by (auto simp: node_inv_def max_absorb1)
qed

lemma keySet_save:
  "keySet (saveKeySet s k) i = (if i = setIndex k \<and> keySet s i = None then Some k else keySet s i)"
  by (auto simp: keySet_def saveKeySet_def tbl_find_insert_ignore split: option.splits)

lemma saveKeySet_simps [simp]:
  "signed_hash (saveKeySet s k) = signed_hash s" "finalized_row (saveKeySet s k) = finalized_row s"
  by (auto simp: saveKeySet_def signed_hash_def finalized_row_def)

lemma prune_ticks_keeps: "keeps (node_inv C opts K M V b) (prune_ticks e k)"
  unfolding prune_ticks_def
proof (rule keeps_modify)
  fix nd
  assume nd: "node_inv C opts K M V b nd"
  have kept: "map_of (filter (\<lambda>(t, st). \<not> t < c) xs) t = Some st \<Longrightarrow> map_of xs t = Some st" for c xs t and st :: TickState
    by (induction xs) (auto split: if_splits dest: map_of_SomeD)
  have "tick_good C opts M V t st" if "map_of (filter (\<lambda>(t, st). \<not> t < ev_now e - k) (nd_ticks nd)) t = Some st" for t st
    using kept[OF that] nd by (simp add: node_inv_def)
  with nd show "node_inv C opts K M V b (nd\<lparr>nd_ticks := filter (\<lambda>(t, st). \<not> t < ev_now e - k) (nd_ticks nd)\<rparr>)"
    by (simp add: node_inv_def)
qed

lemma step_inv:
  assumes ok: "options_ok opts" and fl: "floor_ok e b" and nd: "node_inv C opts K (measured nd) V b nd"
    and prune: "\<And>w. i = PruneStore w \<Longrightarrow> w \<le> 0 \<or> ev_now e - w \<le> b"
    and sets: "\<And>s. i = SaveKeySet s \<Longrightarrow> s \<in> K"
    and seen: "\<And>from frame so. i = Receive from frame \<Longrightarrow> decodeMessage frame = Inr (ObservationMsg so) \<Longrightarrow> so \<in> V"
  shows "node_inv C opts K (measured (node_step C opts e i nd)) V b (node_step C opts e i nd)"
proof (cases i)
  case (Receive fr frame)
  then show ?thesis
    by (simp add: plain_handler_inv[OF receive_keeps[OF ok fl] nd receive_plain] seen)
next
  case (Observe t)
  then show ?thesis by (simp add: run_handler_inv[OF observe_keeps nd observe_leaves])
next
  case (PruneStore w)
  with prune[of w] nd show ?thesis by (auto simp: prune_run_eq intro: inv_prune_store)
next
  case (SaveKeySet s)
  with sets[of s] nd show ?thesis by (auto simp: node_inv_def guarded_def keySet_save split: if_splits)
next
  case Restart
  with nd show ?thesis by (simp add: node_inv_def)
qed (simp_all add: plain_handler_inv[OF _ nd] maybePropose_keeps maybePropose_plain finish_keeps finish_plain
    prune_ticks_keeps requestSync_keeps resume_inv[OF ok fl nd])

lemma run_inv:
  assumes ok: "options_ok opts"
  shows "run_ok L now es \<Longrightarrow> node_inv C opts K (measured nd) V (now - L) nd \<Longrightarrow> key_sets_of es \<subseteq> K \<Longrightarrow>
    received_observations es \<subseteq> V \<Longrightarrow>
    node_inv C opts K (measured (node_run C opts es nd)) V (last_clock now es - L) (node_run C opts es nd)"
proof (induction es arbitrary: now nd)
  case (Cons x es)
  obtain e i where x: "x = (e, i)" by (cases x)
  have "node_inv C opts K (measured nd) V (ev_now e - L) nd"
    by (rule inv_raise_floor[OF Cons.prems(2)]) (use Cons.prems(1) x in simp)
  then have "node_inv C opts K (measured (node_step C opts e i nd)) V (ev_now e - L) (node_step C opts e i nd)"
  proof (rule step_inv[OF ok, rotated])
    show "floor_ok e (ev_now e - L)" using Cons.prems(1) x by (simp add: lags_floor)
    show "w \<le> 0 \<or> ev_now e - w \<le> ev_now e - L" if "i = PruneStore w" for w
      using Cons.prems(1) x that by simp
    show "s \<in> K" if "i = SaveKeySet s" for s using Cons.prems(3) x that by simp
    show "so \<in> V" if "i = Receive from frame" "decodeMessage frame = Inr (ObservationMsg so)" for "from" frame so
      using Cons.prems(4) x that by (auto simp: received_observations_def)
  qed
  moreover have "received_observations es \<subseteq> V" using Cons.prems(4) by (auto simp: received_observations_def)
  ultimately show ?case using Cons.IH[of "ev_now e"] Cons.prems x by simp
qed simp

text \<open>What a node may find in its store when it starts: an earlier run's updates, proven, and its key sets.\<close>

definition store_good :: "crypto \<Rightarrow> NodeOptions \<Rightarrow> PublisherSet set \<Rightarrow> PublisherStore \<Rightarrow> bool" where
  "store_good C opts K s \<longleftrightarrow> store_wf s \<and>
    (\<forall>t blob. finalized_row s t = Some blob \<longrightarrow> row_good C opts K t blob) \<and>
    (\<forall>i k. keySet s i = Some k \<longrightarrow> k \<in> K)"

lemma store_good_new [simp]: "store_good C opts K (new_store c)"
  by (auto simp: store_good_def finalized_row_def keySet_def new_store_def store_wf_def)

lemma inv_new_node: "store_good C opts K s \<Longrightarrow> node_inv C opts K (measured (new_node s)) V b (new_node s)"
  by (simp add: node_inv_def store_good_def new_node_def signed_headers_def)

lemma started_inv:
  assumes "options_ok opts" "run_ok L now es" "store_good C opts K s"
  shows "node_inv C opts (K \<union> key_sets_of es) (measured (node_run C opts es (new_node s))) (received_observations es)
    (last_clock now es - L) (node_run C opts es (new_node s))"
  using run_inv[OF assms(1,2) inv_more_sets[OF inv_new_node[OF assms(3)]], of "K \<union> key_sets_of es"] by simp

section \<open>What is signed\<close>

lemma encoded_distinct: "encodeObservation ob = Inr bs \<Longrightarrow> distinct (map oe_feedId (o_entries ob))"
proof -
  assume "encodeObservation ob = Inr bs"
  then have "ascending_by (<) (map entry_key (o_entries ob))" by (simp add: encodeObservation_iff)
  then have "distinct (map entry_key (o_entries ob))"
    by (intro ascending_by_distinct) (auto simp: transp_def irreflp_def)
  then show ?thesis by (auto simp: distinct_map inj_on_def entry_key_def)
qed

lemma chosen_one_entry: "chosen_good C opts M V t sos \<Longrightarrow> one_entry_each (map so_observation sos)"
  by (auto simp: chosen_good_def one_entry_each_def comp_def observation_good_def intro: encoded_distinct)

lemma derive_messages:
  assumes "derive C opts store t active obs = Inr (Some d)" "en \<in> set (dv_entries d)"
  shows "\<exists>ms. aggregateMessages (ac_config active) obs (node_quorum opts) t (feedState store) = Inr ms \<and> e_message en \<in> set ms"
proof -
  from assms(1) obtain ms where ms: "aggregateMessages (ac_config active) obs (node_quorum opts) t (feedState store) = Inr ms"
      and a: "assemblePriceUpdate C \<lparr>i_publisherSetTypeHash = no_publisherSetTypeHash opts,
          i_setIndex = setIndex (currentSet (no_publisherSet opts)), i_publishTimeMs = t,
          i_tickPeriodMs = c_tickPeriodMs (ac_config active), i_configHash = ac_hash active,
          i_messages = ms\<rparr> = Inr (dv_header d, dv_entries d)"
    unfolding derive_def by (auto simp: ebind_eq_Inr split: if_splits prod.splits)
  have "set (map e_message (dv_entries d)) = set ms" unfolding assemble_order(1)[OF a] by simp
  with ms assms(2) show ?thesis by auto
qed

lemma justified_robust:
  assumes "justified C opts M V t h"
    and faulty: "finite faulty" "3 * card faulty < n_publishers opts"
    and honest: "\<And>so e. observation_good C opts M V t (o_publisherIndex (so_observation so)) so \<Longrightarrow>
      o_publisherIndex (so_observation so) \<notin> faulty \<Longrightarrow> e \<in> set (o_entries (so_observation so)) \<Longrightarrow> oe_feedId e = f \<Longrightarrow>
      lo \<le> oe_price e \<and> oe_price e \<le> hi"
  shows "\<exists>d. derived_good C opts t d \<and> dv_headerHash d = h \<and>
    (\<forall>en \<in> set (dv_entries d). m_feedId (e_message en) = f \<longrightarrow>
      lo \<le> m_price (e_message en) \<and> m_price (e_message en) \<le> hi \<and> node_quorum opts \<le> m_numPublishers (e_message en))"
proof -
  from assms(1) obtain active store sos d where chosen: "chosen_good C opts M V t sos"
      and d: "derive C opts store t active (map so_observation sos) = Inr (Some d)" "dv_headerHash d = h"
    unfolding justified_def by blast
  have "lo \<le> m_price (e_message en) \<and> m_price (e_message en) \<le> hi \<and> node_quorum opts \<le> m_numPublishers (e_message en)"
    if en: "en \<in> set (dv_entries d)" "m_feedId (e_message en) = f" for en
  proof -
    from derive_messages[OF d(1) en(1)] obtain ms where ms: "aggregateMessages (ac_config active) (map so_observation sos)
        (quorum (currentSet (no_publisherSet opts))) t (feedState store) = Inr ms" "e_message en \<in> set ms"
      unfolding node_quorum_def by blast
    have "lo \<le> m_price (e_message en) \<and> m_price (e_message en) \<le> hi \<and>
        quorum (currentSet (no_publisherSet opts)) \<le> m_numPublishers (e_message en)"
    proof (rule aggregate_robust[OF ms chosen_one_entry[OF chosen] faulty(1)])
      show "3 * card faulty < length (pubkeys (currentSet (no_publisherSet opts)))"
        using faulty(2) by (simp add: n_publishers_def)
      fix ob e
      assume "ob \<in> set (map so_observation sos)" "o_publisherIndex ob \<notin> faulty" "e \<in> set (o_entries ob)"
        "oe_feedId e = m_feedId (e_message en)"
      then show "lo \<le> oe_price e \<and> oe_price e \<le> hi"
        using honest en(2) chosen by (auto simp: chosen_good_def)
    qed
    then show ?thesis by (simp add: node_quorum_def)
  qed
  with derive_good[OF d(1)] d(2) show ?thesis by blast
qed

section \<open>Several nodes\<close>

text \<open>Two proven updates of one set for one tick, when every honest signer signs one header per tick.\<close>

lemma proven_agree:
  assumes "update_proven C s u" "update_proven C s v" "tick_of u = tick_of v"
    and F: "F \<subseteq> {0..<int (length (pubkeys s))}" "3 * card F \<le> length (pubkeys s)"
    and signed: "\<And>i x digest hash. i \<in> {0..<int (length (pubkeys s))} - F \<Longrightarrow> x \<in> {u, v} \<Longrightarrow>
      priceUpdateSigningHash C (u_header x) = Inr digest \<Longrightarrow> toBytes (HexStr digest) = Inr hash \<Longrightarrow> signs C hash s i \<Longrightarrow>
      (tick_of x, digest) \<in> G i"
    and once: "\<And>i. i \<in> {0..<int (length (pubkeys s))} - F \<Longrightarrow> inj_on fst (G i)"
  shows "priceUpdateSigningHash C (u_header u) = priceUpdateSigningHash C (u_header v)"
proof -
  let ?members = "{0..<int (length (pubkeys s))}"
  from assms(1,2) obtain d1 d2 where d: "priceUpdateSigningHash C (u_header u) = Inr d1"
      "verifyThreshold C (u_signatures u) (HexStr d1) s = Inr True"
      "priceUpdateSigningHash C (u_header v) = Inr d2" "verifyThreshold C (u_signatures v) (HexStr d2) s = Inr True"
    by (auto simp: update_proven_def)
  obtain h1 h2 where h: "toBytes (HexStr d1) = Inr h1" "toBytes (HexStr d2) = Inr h2"
    using signing_hash_bytes[OF d(1)] signing_hash_bytes[OF d(3)] by blast
  note A = accepted_signers[OF h(1) d(2)] and B = accepted_signers[OF h(2) d(4)]
  have "\<exists>p \<in> publisherIndex ` set (u_signatures u) \<inter> publisherIndex ` set (u_signatures v). p \<notin> F"
    using A(2) B(2) F by (intro publisher_quorum.honest_member[OF A(1) B(1)]) auto
  then obtain i where i: "i \<in> publisherIndex ` set (u_signatures u)" "i \<in> publisherIndex ` set (u_signatures v)" "i \<notin> F" by blast
  then have mem: "i \<in> ?members - F" using A(1) by blast
  have "(tick_of u, d1) \<in> G i" by (rule signed[OF mem _ d(1) h(1) A(3)[OF i(1)]]) simp
  moreover have "(tick_of v, d2) \<in> G i" by (rule signed[OF mem _ d(3) h(2) B(3)[OF i(2)]]) simp
  ultimately have "d1 = d2" using inj_onD[OF once[OF mem]] assms(3) by fastforce
  with d show ?thesis by simp
qed

text \<open>Decoded headers with one signing digest are equal, if the two encodings that are hashed do not collide.\<close>

lemma decoded_header:
  assumes "decodePriceUpdate (Raw x) = Inr u"
  shows "h_leafCount (u_header u) \<noteq> 0 \<and> norm_header (u_header u) = u_header u"
proof -
  have nz: "h_leafCount (u_header u) \<noteq> 0" using update_codec.dec_ok[OF assms] by simp
  have "norm_update u = u"
    using update_codec.dec_enc[OF _ update_codec.enc_dec[OF assms]] nz assms by simp
  then have "norm_header (u_header u) = u_header u" by (metis PriceUpdate.select_convs(1) norm_update_def)
  with nz show ?thesis by simp
qed

lemma same_digest_same_header:
  assumes "decodePriceUpdate (Raw x) = Inr u" "decodePriceUpdate (Raw y) = Inr v"
    and "priceUpdateSigningHash C (u_header u) = Inr d" "priceUpdateSigningHash C (u_header v) = Inr d"
    and injective: "\<And>hu hv. encodePriceUpdateHeader (u_header u) = Inr hu \<Longrightarrow> encodePriceUpdateHeader (u_header v) = Inr hv \<Longrightarrow>
      ckbHash C [DOMAIN_PRICE_UPDATE, hu] = ckbHash C [DOMAIN_PRICE_UPDATE, hv] \<Longrightarrow> hu = hv"
  shows "u_header u = u_header v"
proof -
  from assms(3,4) obtain hu hv where e: "encodePriceUpdateHeader (u_header u) = Inr hu" "encodePriceUpdateHeader (u_header v) = Inr hv"
      "bytesToHex (ckbHash C [DOMAIN_PRICE_UPDATE, hu]) = bytesToHex (ckbHash C [DOMAIN_PRICE_UPDATE, hv])"
    by (auto simp: priceUpdateSigningHash_def ebind_eq_Inr)
  have "hu = hv" by (rule injective[OF e(1,2)]) (use e(3) in \<open>simp only: bytesToHex_inject\<close>)
  then have "norm_header (u_header u) = norm_header (u_header v)"
    using header_codec.enc_inj[OF _ _ e(1)] e(2) decoded_header[OF assms(1)] decoded_header[OF assms(2)] by blast
  then show ?thesis using decoded_header[OF assms(1)] decoded_header[OF assms(2)] by metis
qed

lemma run_signs_once:
  assumes "options_ok opts" "run_ok L now es" "store_good C opts K s"
  shows "inj_on fst (signed_headers (node_run C opts es (new_node s)))"
  using started_inv[OF assms] guarded_unique unfolding node_inv_def inj_on_def by fastforce

section \<open>Accepting updates\<close>

text \<open>A blob that a peer offers for a tick: a proven update of the committee, of a key set that the node knows.\<close>

definition offers :: "crypto \<Rightarrow> NodeOptions \<Rightarrow> PublisherStore \<Rightarrow> int \<Rightarrow> bytes \<Rightarrow> bool" where
  "offers C opts store t blob \<longleftrightarrow>
    (\<exists>u s. decodePriceUpdate (Raw blob) = Inr u \<and> tick_of u = t \<and>
      h_publisherSetTypeHash (u_header u) = no_publisherSetTypeHash opts \<and>
      set_for_update opts store (h_setIndex (u_header u)) = Some s \<and> update_proven C s u)"

definition decodes :: "bytes \<Rightarrow> bool" where
  "decodes blob \<longleftrightarrow> (\<exists>u. decodePriceUpdate (Raw blob) = Inr u)"

text \<open>The checks of a blob that decodes do not throw, so it does not end the loop over the response.\<close>

lemma signedBy_total:
  assumes "hexToBytes (signature e) = Inr raw" "hexToBytes key = Inr k"
  shows "\<exists>b. signedBy C digest e key = Inr b"
  using assms by (auto simp: signedBy_def recoverSigner_def split: option.splits)

lemma decoded_signature:
  assumes "decodePriceUpdate (Raw blob) = Inr u" "e \<in> set (u_signatures u)"
  obtains raw where "hexToBytes (signature e) = Inr raw"
proof -
  from update_codec.enc_dec[OF assms(1)] obtain sb where "encodeSignatureBundle (u_signatures u) = Inr sb"
    by (auto simp: encodeUpdate_iff)
  with assms(2) that show thesis
    by (fastforce simp: encodeSignatureBundle_iff list_all2_conv_all_nth in_set_conv_nth writeSignature_iff hexToFixed_eq_Inr)
qed

lemma decoded_threshold_total:
  assumes u: "decodePriceUpdate (Raw blob) = Inr u" and s: "hex_set s"
  shows "\<exists>b. ebind (priceUpdateSigningHash C (u_header u)) (\<lambda>digest. verifyThreshold C (u_signatures u) (HexStr digest) s) = Inr b"
proof -
  from update_codec.enc_dec[OF u] obtain hb where "encodePriceUpdateHeader (u_header u) = Inr hb"
    by (auto simp: encodeUpdate_iff)
  then obtain d where d: "priceUpdateSigningHash C (u_header u) = Inr (bytesToHex d)"
    by (simp add: priceUpdateSigningHash_def)
  have key: "\<exists>bs. hexToBytes k = Inr bs" if "at_index (pubkeys s) i = Some k" for i k
    using s at_index_in_set[OF that] by (auto simp: hex_set_def list_all_iff isHex_iff)
  have one: "\<exists>b. (if \<not> (i = 0 \<or> publisherIndex e > publisherIndex (u_signatures u ! (i - 1))) then Inr False
      else case at_index (pubkeys s) (publisherIndex e) of
        None \<Rightarrow> Inr False | Some k \<Rightarrow> signedBy C d e k) = Inr b" if e: "e \<in> set (u_signatures u)" for i e
  proof -
    obtain raw where "hexToBytes (signature e) = Inr raw" by (rule decoded_signature[OF u e])
    then have "\<exists>b. signedBy C d e k = Inr b" if "at_index (pubkeys s) j = Some k" for j k
      using key[OF that] signedBy_total by blast
    then show ?thesis by (auto split: option.splits)
  qed
  let ?check = "\<lambda>(i, e). if \<not> (i = 0 \<or> publisherIndex e > publisherIndex (u_signatures u ! (i - 1))) then Inr False
      else case at_index (pubkeys s) (publisherIndex e) of
        None \<Rightarrow> Inr False | Some k \<Rightarrow> signedBy C d e k"
  have "\<exists>b. eall ?check (enumerate 0 (u_signatures u)) = Inr b"
  proof (rule eall_total)
    fix x
    assume "x \<in> set (enumerate 0 (u_signatures u))"
    then have "fst x < length (u_signatures u)" "u_signatures u ! fst x = snd x"
      by (simp_all only: in_set_enumerate_eq add_0_right diff_zero)
    then have "snd x \<in> set (u_signatures u)" using nth_mem by metis
    from one[OF this, of "fst x"] show "\<exists>b. ?check x = Inr b" by (simp only: case_prod_beta)
  qed
  then have "\<exists>b. verifyThreshold C (u_signatures u) (HexStr (bytesToHex d)) s = Inr b"
    by (auto simp: verifyThreshold_def simp del: eall.simps)
  with d show ?thesis by simp
qed

lemma decoded_entries_total:
  assumes u: "decodePriceUpdate (Raw blob) = Inr u"
  shows "\<exists>b. entries_proven C u = Inr b"
proof -
  from update_codec.enc_dec[OF u] obtain hb where "encodePriceUpdateHeader (u_header u) = Inr hb"
    by (auto simp: encodeUpdate_iff)
  then obtain root where root: "toBytes (HexStr (h_merkleRoot (u_header u))) = Inr root"
    by (auto simp: encodeHeader_iff hexToFixed_eq_Inr)
  have one: "\<exists>b. ebind (encodePriceMessage (e_message en)) (\<lambda>m. ebind (leafHash C (Raw m)) (\<lambda>leaf.
      verifyProof C (HexStr (h_merkleRoot (u_header u))) (HexStr leaf) (map HexStr (e_proof en)))) = Inr b"
    if en: "en \<in> set (u_entries u)" for en
  proof -
    from update_codec.enc_dec[OF u] obtain parts where
      "list_all2 (\<lambda>e p. run_writer (writeEntry e) = Inr p) (u_entries u) parts"
      by (auto simp: encodeUpdate_iff encodeEntries_iff)
    with en obtain m where m: "encodePriceMessage (e_message en) = Inr m"
      by (auto simp: list_all2_conv_all_nth in_set_conv_nth writeEntry_iff)
    show ?thesis
      using verifyProof_bytes[OF root _ list_all2_mono[OF decoded_proof(1)[OF u en]]] by (simp add: m leafHash_def)
  qed
  then show ?thesis unfolding entries_proven_def by (auto intro: eall_total)
qed

text \<open>What the response to a sync leaves in the store: a row is never replaced, and a new one is the blob.\<close>

definition after_blob :: "crypto \<Rightarrow> NodeOptions \<Rightarrow> bytes \<Rightarrow> PublisherStore \<Rightarrow> PublisherStore \<Rightarrow> bool" where
  "after_blob C opts blob store store' \<longleftrightarrow> set_for_update opts store' = set_for_update opts store \<and>
    (\<forall>t. finalized_row store' t =
      (if finalized_row store t = None \<and> offers C opts store t blob then Some blob else finalized_row store t))"

lemma after_blob_same: "(\<And>t. \<not> offers C opts store t blob) \<Longrightarrow> after_blob C opts blob store store"
  by (simp add: after_blob_def)

lemma accept_decoded:
  assumes d: "decodes blob" and known: "\<And>i s. set_for_update opts (nd_store nd) i = Some s \<Longrightarrow> hex_set s"
  shows "\<exists>nd'. acceptFinalized C opts blob nd = (Inr (), nd') \<and> after_blob C opts blob (nd_store nd) (nd_store nd')"
proof -
  from d obtain u where u: "decodePriceUpdate (Raw blob) = Inr u" by (auto simp: decodes_def)
  note run = acceptFinalized_def act_simps Let_def tick_def set_tick_def emit_def
  show ?thesis
  proof (cases "h_publisherSetTypeHash (u_header u) = no_publisherSetTypeHash opts")
    case own: True
    show ?thesis
    proof (cases "set_for_update opts (nd_store nd) (h_setIndex (u_header u))")
      case None
      with u own show ?thesis by (auto simp: run offers_def intro: after_blob_same)
    next
      case (Some s)
      then obtain v p where v: "ebind (priceUpdateSigningHash C (u_header u)) (\<lambda>digest.
            verifyThreshold C (u_signatures u) (HexStr digest) s) = Inr v" "entries_proven C u = Inr p"
        using decoded_threshold_total[OF u known] decoded_entries_total[OF u] by metis
      have proven: "update_proven C s u \<longleftrightarrow> v \<and> p"
        using v by (auto simp: update_proven_def ebind_eq_Inr)
      have offers: "offers C opts (nd_store nd) t blob \<longleftrightarrow> t = tick_of u \<and> v \<and> p" for t
        using u own Some proven by (auto simp: offers_def)
      have "after_blob C opts blob (nd_store nd) (snd (saveFinalized (nd_store nd) u blob))" if "v" "p"
        using that offers publisher_log.save_row[of "nd_store nd" u blob]
        by (auto simp: after_blob_def set_for_update_def fun_eq_iff Let_def)
      moreover have "after_blob C opts blob (nd_store nd) (nd_store nd)" if "\<not> (v \<and> p)"
        using that offers by (intro after_blob_same) simp
      ultimately show ?thesis using u own Some v by (cases v; cases p) (simp_all add: run)
    qed
  qed (use u in \<open>auto simp: run offers_def intro: after_blob_same\<close>)
qed

lemma accept_undecodable: "\<not> decodes blob \<Longrightarrow> \<exists>e. acceptFinalized C opts blob nd = (Inl e, nd)"
  by (cases "decodePriceUpdate (Raw blob)") (auto simp: decodes_def acceptFinalized_def act_simps)

lemma each_accepted:
  assumes "\<And>i s. set_for_update opts (nd_store nd) i = Some s \<Longrightarrow> hex_set s"
  shows "finalized_row (nd_store (snd (act_each (acceptFinalized C opts) blobs nd))) t =
    (case finalized_row (nd_store nd) t of Some y \<Rightarrow> Some y
     | None \<Rightarrow> find (offers C opts (nd_store nd) t) (takeWhile decodes blobs))"
  using assms
proof (induction blobs arbitrary: nd)
  case Nil
  then show ?case by (simp add: act_simps split: option.splits)
next
  case (Cons blob blobs)
  show ?case
  proof (cases "decodes blob")
    case True
    obtain nd' where nd':
        "acceptFinalized C opts blob nd = (Inr (), nd')" "after_blob C opts blob (nd_store nd) (nd_store nd')"
      using accept_decoded[OF True, of opts nd C] Cons.prems by blast
    then have same: "set_for_update opts (nd_store nd') = set_for_update opts (nd_store nd)" by (simp add: after_blob_def)
    then have "offers C opts (nd_store nd') = offers C opts (nd_store nd)" by (simp add: offers_def fun_eq_iff)
    then show ?thesis
      using Cons.IH[of nd'] Cons.prems nd' same True by (auto simp: act_simps after_blob_def split: option.splits)
  next
    case False
    with accept_undecodable[of blob C opts nd] show ?thesis by (auto simp: act_simps split: option.splits)
  qed
qed

lemma sync_response_store:
  assumes "decodeMessage frame = Inr (SyncResponse blobs)"
  shows "nd_store (node_step C opts e (Receive i frame) nd) = nd_store (snd (act_each (acceptFinalized C opts) blobs nd))"
  by (simp add: receive_def assms run_handler_def suspend_def act_catch_def finish_def reject_def emit_def act_simps
      split: prod.splits sum.splits)

section \<open>Properties\<close>

text \<open>The run of Node_Demo satisfies the hypotheses of the properties below.\<close>

definition solo_events :: "bytes \<Rightarrow> (Env \<times> node_input) list" where
  "solo_events frame = [(solo_env, Receive 0 frame), (solo_env, Resume 0), (solo_env, Resume 0)]"

lemma solo_ok: "options_ok solo" "run_ok 5000 600000 (solo_events frame)" "store_good demo_crypto solo {} empty_store"
    "key_sets_of (solo_events frame) = {}"
proof -
  show "options_ok solo"
    by (simp add: options_ok_def isValidPublisherSetData_def solo_data_def demo_committee_def isValidPublisherSet_def
        js_and_def js_not_def asIntN_def GOVERNANCE_PAUSED_def MAX_PUBLISHERS_def)
  show "run_ok 5000 600000 (solo_events frame)"
    by (simp add: solo_events_def lags_ok_def solo_env_def demo_config_fields)
qed (simp_all add: empty_store_def solo_events_def)

lemma solo_outcome:
  obtains frame h blob u where "decodeMessage frame = Inr (ObservationMsg solo_signed)"
    "\<forall>t es. Observed t es \<notin> set (nd_effects (node_run demo_crypto solo (solo_events frame) (new_node empty_store)))"
    "signed_headers (node_run demo_crypto solo (solo_events frame) (new_node empty_store)) = {(600000, h)}"
    "finalized_row (nd_store (node_run demo_crypto solo (solo_events frame) (new_node empty_store))) 600000 = Some blob"
    "decodePriceUpdate (Raw blob) = Inr u" "priceUpdateSigningHash demo_crypto (u_header u) = Inr h"
    "h_publisherSetTypeHash (u_header u) = bytesToHex (replicate 32 9)" "h_setIndex (u_header u) = 1"
    "update_proven demo_crypto (currentSet solo_data) u" "tick_of u = 600000"
proof -
  from solo_run obtain frame h blob u where f: "decodeMessage frame = Inr (ObservationMsg solo_signed)"
    "\<forall>t es. Observed t es \<notin> set (nd_effects (node_run demo_crypto solo (solo_events frame) (new_node empty_store)))"
    and s: "signed_headers (node_run demo_crypto solo (solo_events frame) (new_node empty_store)) = {(600000, h)}"
    "finalized_row (nd_store (node_run demo_crypto solo (solo_events frame) (new_node empty_store))) 600000 = Some blob"
    "decodePriceUpdate (Raw blob) = Inr u" "priceUpdateSigningHash demo_crypto (u_header u) = Inr h"
    "h_publisherSetTypeHash (u_header u) = bytesToHex (replicate 32 9)" "h_setIndex (u_header u) = 1"
    unfolding Let_def signed_headers_def[symmetric] solo_events_def[symmetric] by (elim exE conjE) (rule that)
  have "row_good demo_crypto solo {} 600000 blob"
    using started_inv[OF solo_ok(1-3), of frame] s(2) solo_ok(4)[of frame] by (simp add: node_inv_def)
  then have "update_proven demo_crypto (currentSet solo_data) u" "tick_of u = 600000"
    using s(3) by (auto simp: row_good_def)
  with f s show ?thesis by (rule that)
qed

text \<open>Claim C1: a publisher never signs two headers for one tick: in whatever order frames, timers, restarts and the
  ends of its \<open>await\<close>s come, and although the store is pruned, as long as the clock does not run backwards
  and the retention window covers the longest signing lag of the configs in force.\<close>

theorem no_double_signing:
  assumes "options_ok opts" "run_ok L now es" "store_good C opts K s"
    and "(t, h) \<in> signed_headers (node_run C opts es (new_node s))"
  shows "(t, h') \<in> signed_headers (node_run C opts es (new_node s)) \<longleftrightarrow> h' = h"
  using inj_onD[OF run_signs_once[OF assms(1-3)], of "(t, h')" "(t, h)"] assms(4) by auto

theorem no_double_signing_witness:
  "\<exists>frame h. (600000, h) \<in> signed_headers (node_run demo_crypto solo (solo_events frame) (new_node empty_store)) \<and>
    (600000, CHR ''x'' # h) \<notin> signed_headers (node_run demo_crypto solo (solo_events frame) (new_node empty_store))"
proof -
  obtain frame h where "(600000, h) \<in> signed_headers (node_run demo_crypto solo (solo_events frame) (new_node empty_store))"
    using solo_outcome by (metis insertI1)
  with no_double_signing[OF solo_ok(1-3) this, of "CHR ''x'' # h"] show ?thesis by (metis not_Cons_self)
qed

text \<open>Claim C6: what a publisher signs is robust: if fewer than a third of the publishers are faulty, and for the tick
  every honest price of a feed lies between \<open>lo\<close> and \<open>hi\<close>, those that the node itself measured (unless it is
  faulty) as well as those it received in observations that verify as signed by an honest publisher, then
  the signed header is assembled from messages whose price of the feed is between \<open>lo\<close> and \<open>hi\<close>, each
  counting a quorum of publishers. The run is one whose clock does not run backwards and whose retention
  window covers the longest signing lag.\<close>

theorem signed_header_robust:
  assumes "options_ok opts" "run_ok L now es" "store_good C opts K s"
    and "(t, h) \<in> signed_headers (node_run C opts es (new_node s))"
    and "finite faulty" "3 * card faulty < n_publishers opts"
    and own: "\<And>entries e. Observed t entries \<in> set (nd_effects (node_run C opts es (new_node s))) \<Longrightarrow>
      no_index opts \<notin> faulty \<Longrightarrow> e \<in> set entries \<Longrightarrow> oe_feedId e = f \<Longrightarrow> lo \<le> oe_price e \<and> oe_price e \<le> hi"
    and peers: "\<And>so e. so \<in> received_observations es \<Longrightarrow>
      verifyObservation C so (currentSet (no_publisherSet opts)) = Inr True \<Longrightarrow> o_tickMs (so_observation so) = t \<Longrightarrow>
      o_publisherIndex (so_observation so) \<notin> faulty \<Longrightarrow> e \<in> set (o_entries (so_observation so)) \<Longrightarrow> oe_feedId e = f \<Longrightarrow>
      lo \<le> oe_price e \<and> oe_price e \<le> hi"
  shows "\<exists>d. derived_good C opts t d \<and> dv_headerHash d = h \<and>
    (\<forall>en \<in> set (dv_entries d). m_feedId (e_message en) = f \<longrightarrow>
      lo \<le> m_price (e_message en) \<and> m_price (e_message en) \<le> hi \<and> node_quorum opts \<le> m_numPublishers (e_message en))"
proof -
  let ?nd = "node_run C opts es (new_node s)"
  have "justified C opts (measured ?nd) (received_observations es) t h"
    using started_inv[OF assms(1-3)] assms(4) unfolding node_inv_def by blast
  then show ?thesis
  proof (rule justified_robust[OF _ assms(5,6)])
    fix so e
    assume so: "observation_good C opts (measured ?nd) (received_observations es) t (o_publisherIndex (so_observation so)) so"
      "o_publisherIndex (so_observation so) \<notin> faulty" "e \<in> set (o_entries (so_observation so))" "oe_feedId e = f"
    then show "lo \<le> oe_price e \<and> oe_price e \<le> hi"
      using own[of "o_entries (so_observation so)" e] peers[of so e] by (auto simp: observation_good_def measured_def)
  qed
qed

theorem signed_header_robust_witness:
  "\<exists>frame d. (600000, dv_headerHash d) \<in> signed_headers (node_run demo_crypto solo (solo_events frame) (new_node empty_store)) \<and>
    derived_good demo_crypto solo 600000 d \<and>
    (\<forall>en \<in> set (dv_entries d). m_feedId (e_message en) = feedId demo_crypto ''Crypto.CKB/USDT'' \<longrightarrow>
      m_price (e_message en) = 500 \<and> 1 \<le> m_numPublishers (e_message en))"
proof -
  obtain frame h where s: "(600000, h) \<in> signed_headers (node_run demo_crypto solo (solo_events frame) (new_node empty_store))"
      "decodeMessage frame = Inr (ObservationMsg solo_signed)"
      "\<forall>t es. Observed t es \<notin> set (nd_effects (node_run demo_crypto solo (solo_events frame) (new_node empty_store)))"
    using solo_outcome by (metis insertI1)
  have only: "so = solo_signed" if "so \<in> received_observations (solo_events frame)" for so
    using that s(2) by (auto simp: received_observations_def solo_events_def)
  have "500 \<le> oe_price e \<and> oe_price e \<le> 500"
    if "so \<in> received_observations (solo_events frame)" "e \<in> set (o_entries (so_observation so))" for so e
    using that(2) unfolding only[OF that(1)] by (simp add: solo_signed_def demo_observation_def)
  then have "\<exists>d. derived_good demo_crypto solo 600000 d \<and> dv_headerHash d = h \<and>
    (\<forall>en \<in> set (dv_entries d). m_feedId (e_message en) = feedId demo_crypto ''Crypto.CKB/USDT'' \<longrightarrow>
      500 \<le> m_price (e_message en) \<and> m_price (e_message en) \<le> 500 \<and> node_quorum solo \<le> m_numPublishers (e_message en))"
    using s(3) by (intro signed_header_robust[OF solo_ok(1-3) s(1), of "{}"]) auto
  with s(1) show ?thesis by fastforce
qed

text \<open>Claim C5: every finalized update in a publisher's store is genuine: it decodes to an update of the committee
  for its tick, signed by a quorum of the current key set or of one this publisher recorded, with every
  entry proven against the signed header; whether it was finalized here or came from a peer.\<close>

theorem finalized_updates_proven:
  assumes "options_ok opts" "run_ok L now es" "store_good C opts K s"
    and "finalized_row (nd_store (node_run C opts es (new_node s))) t = Some blob"
  shows "row_good C opts (K \<union> key_sets_of es) t blob"
  using started_inv[OF assms(1-3)] assms(4) by (simp add: node_inv_def)

theorem finalized_updates_proven_witness:
  "\<exists>frame blob. finalized_row (nd_store (node_run demo_crypto solo (solo_events frame) (new_node empty_store))) 600000 = Some blob \<and>
    row_good demo_crypto solo {} 600000 blob"
proof -
  obtain frame blob where "finalized_row (nd_store (node_run demo_crypto solo (solo_events frame) (new_node empty_store))) 600000 = Some blob"
    using solo_outcome by metis
  with finalized_updates_proven[OF solo_ok(1-3) this] show ?thesis by (auto simp: solo_ok(4))
qed

text \<open>Claim C2: the stores of publishers agree: if at most a third of the members of a key set is faulty and a signature
  of an honest member on one of two headers exists only if its node signed that header, then two updates
  that any two nodes hold for the same tick, and that both name the index of this key set, have the same
  header, provided the hash does not collide on the encodings of the two. The nodes may meanwhile run with
  later key sets, as long as each index names one key set for all of them; their clocks do not run backwards
  and their retention windows cover the longest signing lag. Two updates that name different key sets are
  not covered: around a rotation the old and the new set can each sign a tick.\<close>

theorem stores_agree:
  fixes optsOf :: "int \<Rightarrow> NodeOptions"
  assumes runs: "\<And>i. options_ok (optsOf i) \<and> run_ok L now (es i) \<and> store_good C (optsOf i) K (st i)"
    and rows: "finalized_row (nd_store (node_run C (optsOf a) (es a) (new_node (st a)))) t = Some x"
      "finalized_row (nd_store (node_run C (optsOf b) (es b) (new_node (st b)))) t = Some y"
      "decodePriceUpdate (Raw x) = Inr u" "decodePriceUpdate (Raw y) = Inr v"
    and one_set: "\<And>k. k \<in> K \<union> key_sets_of (es a) \<union> key_sets_of (es b) \<union>
        {currentSet (no_publisherSet (optsOf a)), currentSet (no_publisherSet (optsOf b))} \<Longrightarrow>
      setIndex k = setIndex s \<Longrightarrow> k = s"
    and index: "h_setIndex (u_header u) = setIndex s" "h_setIndex (u_header v) = setIndex s"
    and faulty: "F \<subseteq> {0..<int (length (pubkeys s))}" "3 * card F \<le> length (pubkeys s)"
    and unforgeable: "\<And>i w digest hash. i \<in> {0..<int (length (pubkeys s))} - F \<Longrightarrow> w \<in> {u, v} \<Longrightarrow>
      priceUpdateSigningHash C (u_header w) = Inr digest \<Longrightarrow> toBytes (HexStr digest) = Inr hash \<Longrightarrow> signs C hash s i \<Longrightarrow>
      (tick_of w, digest) \<in> signed_headers (node_run C (optsOf i) (es i) (new_node (st i)))"
    and injective: "\<And>hu hv. encodePriceUpdateHeader (u_header u) = Inr hu \<Longrightarrow> encodePriceUpdateHeader (u_header v) = Inr hv \<Longrightarrow>
      ckbHash C [DOMAIN_PRICE_UPDATE, hu] = ckbHash C [DOMAIN_PRICE_UPDATE, hv] \<Longrightarrow> hu = hv"
  shows "u_header u = u_header v"
proof -
  have row: "update_proven C s w \<and> tick_of w = t"
    if z: "finalized_row (nd_store (node_run C (optsOf i) (es i) (new_node (st i)))) t = Some z" "i \<in> {a, b}"
      "decodePriceUpdate (Raw z) = Inr w" "h_setIndex (u_header w) = setIndex s" for i z w
  proof -
    have "row_good C (optsOf i) (K \<union> key_sets_of (es i)) t z"
      using started_inv[of "optsOf i" L now "es i" C K "st i"] runs z(1) by (simp add: node_inv_def)
    then obtain k where k: "tick_of w = t" "setIndex s = setIndex k"
        "k = currentSet (no_publisherSet (optsOf i)) \<or> k \<in> K \<union> key_sets_of (es i)" "update_proven C k w"
      using z(3,4) by (auto simp: row_good_def)
    have "k \<in> K \<union> key_sets_of (es a) \<union> key_sets_of (es b) \<union>
        {currentSet (no_publisherSet (optsOf a)), currentSet (no_publisherSet (optsOf b))}"
      using k(3) z(2) by blast
    then have "k = s" by (rule one_set) (simp only: k(2))
    with k show ?thesis by simp
  qed
  have u: "update_proven C s u \<and> tick_of u = t" by (rule row[OF rows(1) _ rows(3) index(1)]) simp
  have v: "update_proven C s v \<and> tick_of v = t" by (rule row[OF rows(2) _ rows(4) index(2)]) simp
  have "priceUpdateSigningHash C (u_header u) = priceUpdateSigningHash C (u_header v)"
  proof (rule proven_agree[OF _ _ _ faulty, where G = "\<lambda>i. signed_headers (node_run C (optsOf i) (es i) (new_node (st i)))"])
    show "(tick_of w, digest) \<in> signed_headers (node_run C (optsOf i) (es i) (new_node (st i)))"
      if "i \<in> {0..<int (length (pubkeys s))} - F" "w \<in> {u, v}" "priceUpdateSigningHash C (u_header w) = Inr digest"
        "toBytes (HexStr digest) = Inr hash" "signs C hash s i" for i w digest hash
      by (rule unforgeable[OF that])
    show "inj_on fst (signed_headers (node_run C (optsOf i) (es i) (new_node (st i))))" for i
      using run_signs_once runs by blast
  qed (use u v in simp_all)
  moreover obtain d where d: "priceUpdateSigningHash C (u_header u) = Inr d" using u by (auto simp: update_proven_def)
  ultimately have "priceUpdateSigningHash C (u_header v) = Inr d" by simp
  with d show ?thesis by (rule same_digest_same_header[OF rows(3,4) _ _ injective])
qed

text \<open>A second node, which got the update of the first from a peer.\<close>

definition synced :: "bytes \<Rightarrow> Node" where
  "synced frame = node_run demo_crypto solo [(solo_env, Receive 1 frame)] (new_node empty_store)"

lemma solo_known: "set_for_update solo (nd_store (new_node empty_store)) i = Some s \<Longrightarrow> hex_set s"
  by (auto simp: set_for_update_def Let_def keySet_def new_node_def empty_store_def new_store_def hex_set_def isHex_iff
      split: if_splits)

lemma solo_response:
  assumes "\<forall>blob \<in> set blobs. length blob < 2 ^ 18" "length blobs \<le> 2"
  obtains frame where "decodeMessage frame = Inr (SyncResponse blobs)"
proof -
  have "message_ok (SyncResponse blobs)" using assms by (auto simp: fits_def)
  moreover obtain frame where "encodeMessage (SyncResponse blobs) = Inr frame" by (simp add: encodeMessage_def)
  ultimately have "decodeMessage frame = Inr (SyncResponse blobs)" using wire_codec.dec_enc by fastforce
  then show thesis by (rule that)
qed

lemma solo_synced:
  assumes "decodePriceUpdate (Raw blob) = Inr u" "h_publisherSetTypeHash (u_header u) = bytesToHex (replicate 32 9)"
    "h_setIndex (u_header u) = 1" "update_proven demo_crypto (currentSet solo_data) u" "tick_of u = 600000"
  shows "\<exists>frame. decodeMessage frame = Inr (SyncResponse [blob]) \<and> finalized_row (nd_store (synced frame)) 600000 = Some blob"
proof -
  from assms(1) have "encodePriceUpdate u = Inr blob" by (rule update_codec.enc_dec)
  then have "message_ok (SyncResponse [blob])" using update_length_bound[of u blob] by (simp add: fits_def)
  moreover obtain frame where "encodeMessage (SyncResponse [blob]) = Inr frame" by (simp add: encodeMessage_def)
  ultimately have f: "decodeMessage frame = Inr (SyncResponse [blob])" using wire_codec.dec_enc by fastforce
  have known: "set_for_update solo (nd_store (new_node empty_store)) (h_setIndex (u_header u)) = Some (currentSet solo_data)"
    by (simp add: set_for_update_def assms(3))
  have "finalized_row (nd_store (new_node empty_store)) 600000 = None"
    by (simp add: new_node_def finalized_row_def empty_store_def new_store_def)
  moreover have "offers demo_crypto solo (nd_store (new_node empty_store)) 600000 blob"
    using assms known by (auto simp: offers_def)
  moreover have "decodes blob" using assms(1) by (auto simp: decodes_def)
  ultimately have "finalized_row (nd_store (synced frame)) 600000 = Some blob"
    using each_accepted[OF solo_known, where C = demo_crypto and blobs = "[blob]" and t = 600000]
    by (simp add: synced_def sync_response_store[OF f] del: node_step.simps act_each.simps)
  with f show ?thesis by blast
qed

theorem stores_agree_witness:
  "\<exists>f g x y u v. finalized_row (nd_store (node_run demo_crypto solo (solo_events f) (new_node empty_store))) 600000 = Some x \<and>
    finalized_row (nd_store (synced g)) 600000 = Some y \<and> decodePriceUpdate (Raw x) = Inr u \<and> decodePriceUpdate (Raw y) = Inr v \<and>
    u_header u = u_header v"
proof -
  obtain f h x u where s: "signed_headers (node_run demo_crypto solo (solo_events f) (new_node empty_store)) = {(600000, h)}"
    "finalized_row (nd_store (node_run demo_crypto solo (solo_events f) (new_node empty_store))) 600000 = Some x"
    "decodePriceUpdate (Raw x) = Inr u" "priceUpdateSigningHash demo_crypto (u_header u) = Inr h"
    "h_publisherSetTypeHash (u_header u) = bytesToHex (replicate 32 9)"
    "h_setIndex (u_header u) = 1" "update_proven demo_crypto (currentSet solo_data) u" "tick_of u = 600000"
    by (rule solo_outcome)
  from solo_synced[OF s(3,5-8)] obtain g where g: "finalized_row (nd_store (synced g)) 600000 = Some x" by blast
  let ?es = "\<lambda>i :: int. if i = 0 then solo_events f else [(solo_env, Receive 1 g)]"
  have agree: "u_header u = u_header u"
  proof (rule stores_agree[where optsOf = "\<lambda>_. solo" and es = ?es and st = "\<lambda>_. empty_store" and
        s = "currentSet solo_data" and L = 5000 and now = 600000 and K = "{}" and F = "{}" and a = 0 and b = 1])
    show "options_ok solo \<and> run_ok 5000 600000 (?es i) \<and> store_good demo_crypto solo {} empty_store" for i
      using solo_ok by (simp add: lags_ok_def solo_env_def demo_config_fields)
    show "finalized_row (nd_store (node_run demo_crypto solo (?es 1) (new_node empty_store))) 600000 = Some x"
      using g by (simp add: synced_def del: node_step.simps)
  qed (use s solo_ok in \<open>simp_all del: node_step.simps\<close>)
  show ?thesis
    by (intro exI conjI) (rule s(2), rule g, rule s(3), rule s(3), rule agree)
qed

text \<open>Claim C21: a node that is behind catches up from any peer: after a response with any number of blobs, the row of
  a tick is what it was if there was one, and otherwise the first blob of the response that is a proven
  update of the committee for the tick, of a key set that the node knows; but a blob that does not decode
  ends the loop, so only the blobs before it count. The key sets that the node knows have keys in hex,
  as every set that the publisher records was read from a valid cell.\<close>

theorem sync_response_stored:
  assumes "decodeMessage frame = Inr (SyncResponse blobs)"
    and "\<And>i s. set_for_update opts (nd_store nd) i = Some s \<Longrightarrow> hex_set s"
  shows "finalized_row (nd_store (node_step C opts e (Receive i frame) nd)) t =
    (case finalized_row (nd_store nd) t of
       Some y \<Rightarrow> Some y
     | None \<Rightarrow> find (offers C opts (nd_store nd) t) (takeWhile decodes blobs))"
  using each_accepted[OF assms(2)] sync_response_store[OF assms(1)] by simp

theorem sync_response_stored_witness:
  "\<exists>f g blob. decodeMessage f = Inr (SyncResponse [blob, []]) \<and> decodeMessage g = Inr (SyncResponse [[], blob]) \<and>
    finalized_row (nd_store (node_step demo_crypto solo solo_env (Receive 1 f) (new_node empty_store))) 600000 = Some blob \<and>
    finalized_row (nd_store (node_step demo_crypto solo solo_env (Receive 1 g) (new_node empty_store))) 600000 = None"
proof -
  obtain blob u where s: "decodePriceUpdate (Raw blob) = Inr u"
    "h_publisherSetTypeHash (u_header u) = bytesToHex (replicate 32 9)" "h_setIndex (u_header u) = 1"
    "update_proven demo_crypto (currentSet solo_data) u" "tick_of u = 600000"
    by (rule solo_outcome)
  have len: "length blob < 2 ^ 18" by (rule update_length_bound[OF update_codec.enc_dec[OF s(1)]])
  obtain f where f: "decodeMessage f = Inr (SyncResponse [blob, []])"
    by (rule solo_response[of "[blob, []]"]) (use len in simp_all)
  obtain g where g: "decodeMessage g = Inr (SyncResponse [[], blob])"
    by (rule solo_response[of "[[], blob]"]) (use len in simp_all)
  note fg = f g
  have "finalized_row (nd_store (new_node empty_store)) 600000 = None"
    by (simp add: new_node_def finalized_row_def empty_store_def new_store_def)
  moreover have "offers demo_crypto solo (nd_store (new_node empty_store)) 600000 blob"
    using s by (auto simp: offers_def set_for_update_def)
  moreover have "decodes blob" "\<not> decodes []"
    using s(1) update_codec.enc_dec[of "[]"] by (auto simp: decodes_def encodeUpdate_iff encodeHeader_iff hexToFixed_eq_Inr)
  ultimately have "finalized_row (nd_store (node_step demo_crypto solo solo_env (Receive 1 f) (new_node empty_store))) 600000 = Some blob"
    "finalized_row (nd_store (node_step demo_crypto solo solo_env (Receive 1 g) (new_node empty_store))) 600000 = None"
    using sync_response_stored[OF fg(1) solo_known, where C = demo_crypto and e = solo_env and i = 1 and t = 600000]
      sync_response_stored[OF fg(2) solo_known, where C = demo_crypto and e = solo_env and i = 1 and t = 600000]
    by (simp_all del: node_step.simps)
  with fg show ?thesis by blast
qed

end
