(* ===== verification/Mirror_Store.thy ===== *)
theory Mirror_Store
  imports Stores Price_Update
begin

text \<open>
  \<open>apps/mirror/src/store.ts\<close> and \<open>retention.ts\<close>: what a mirror keeps. Each SQLite table is a list of rows in
  insertion order, as in Publisher_Store; SQL leaves the order of equal keys open, here it is that of
  insertion. Times are below 2^63, the range of an SQLite INTEGER.

  Lemmas: the skip scan lists every distinct value once; the store refines an archive, a list of
  updates with one update per committee and tick, in which pruning forgets what is old: every
  query of the API is a query of the archive; the evidence of an equivocation is complete and never
  false.
\<close>

section \<open>Tables\<close>

datatype InsertResult = NewUpdate | Duplicate | Equivocated

record StoredUpdate =
  su_committee :: hex
  su_tickMs :: int
  su_blob :: bytes

record EquivocationRow =
  eq_committee :: hex
  eq_tickMs :: int
  eq_headerHash :: hex
  eq_blob :: bytes
  eq_receivedMs :: int

record Equivocation =
  ev_committee :: hex
  ev_tickMs :: int
  ev_headerHash :: hex
  ev_blob :: hex
  ev_receivedMs :: int

record UpdateRow =
  up_committee :: hex
  up_tickMs :: int
  up_headerHash :: hex
  up_blob :: bytes
  up_receivedMs :: int

record FeedTickRow =
  ft_feedId :: hex
  ft_committee :: hex
  ft_tickMs :: int

record FeedSummary =
  fd_feedId :: hex
  fd_committee :: hex
  fd_latestTickMs :: int

record MirrorStore =
  ms_updates :: "UpdateRow list"
  ms_feedTicks :: "FeedTickRow list"
  ms_equivocations :: "EquivocationRow list"

definition new_mirror :: MirrorStore where
  "new_mirror = \<lparr>ms_updates = [], ms_feedTicks = [], ms_equivocations = []\<rparr>"

abbreviation update_key :: "UpdateRow \<Rightarrow> hex \<times> int" where
  "update_key r \<equiv> (up_committee r, up_tickMs r)"

abbreviation feed_tick_key :: "FeedTickRow \<Rightarrow> hex \<times> hex \<times> int" where
  "feed_tick_key r \<equiv> (ft_feedId r, ft_committee r, ft_tickMs r)"

abbreviation evidence_key :: "EquivocationRow \<Rightarrow> hex \<times> int \<times> hex" where
  "evidence_key r \<equiv> (eq_committee r, eq_tickMs r, eq_headerHash r)"

definition toStored :: "UpdateRow \<Rightarrow> StoredUpdate" where
  "toStored row = \<lparr>su_committee = up_committee row, su_tickMs = up_tickMs row, su_blob = up_blob row\<rparr>"

section \<open>Operations\<close>

definition evidence_of :: "UpdateRow \<Rightarrow> EquivocationRow" where
  "evidence_of r = \<lparr>eq_committee = up_committee r, eq_tickMs = up_tickMs r, eq_headerHash = up_headerHash r,
    eq_blob = up_blob r, eq_receivedMs = up_receivedMs r\<rparr>"

definition index_feeds :: "UpdateRow \<Rightarrow> UpdateEntry list \<Rightarrow> FeedTickRow list \<Rightarrow> FeedTickRow list" where
  "index_feeds row ents ticks = foldl (\<lambda>ticks en. tbl_insert_ignore feed_tick_key
      \<lparr>ft_feedId = toLowerCase (m_feedId (e_message en)), ft_committee = up_committee row, ft_tickMs = up_tickMs row\<rparr> ticks)
    ticks ents"

text \<open>\<open>insert\<close>, after the row was built from the update. A row with the key and another header is evidence.\<close>

definition insert_row :: "MirrorStore \<Rightarrow> UpdateRow \<Rightarrow> UpdateEntry list \<Rightarrow> InsertResult \<times> MirrorStore" where
  "insert_row s row ents =
    (case tbl_find update_key (update_key row) (ms_updates s) of
      Some existing \<Rightarrow>
        if up_headerHash existing = up_headerHash row then (Duplicate, s)
        else
          let kept = tbl_insert_ignore evidence_key (evidence_of existing) (ms_equivocations s);
              added = tbl_insert_ignore evidence_key (evidence_of row) kept
          in (if length kept < length added then Equivocated else Duplicate, s\<lparr>ms_equivocations := added\<rparr>)
    | None \<Rightarrow> (NewUpdate, s\<lparr>ms_updates := ms_updates s @ [row], ms_feedTicks := index_feeds row ents (ms_feedTicks s)\<rparr>))"

definition row_of_update :: "crypto \<Rightarrow> PriceUpdate \<Rightarrow> bytes \<Rightarrow> int \<Rightarrow> UpdateRow result" where
  "row_of_update C update blob receivedMs =
    ebind (priceUpdateSigningHash C (u_header update)) (\<lambda>headerHash.
    Inr \<lparr>up_committee = toLowerCase (h_publisherSetTypeHash (u_header update)),
      up_tickMs = h_publishTimeMs (u_header update), up_headerHash = headerHash, up_blob = blob,
      up_receivedMs = receivedMs\<rparr>)"

definition mirror_insert :: "crypto \<Rightarrow> MirrorStore \<Rightarrow> PriceUpdate \<Rightarrow> bytes \<Rightarrow> int \<Rightarrow> (InsertResult \<times> MirrorStore) result" where
  "mirror_insert C s update blob receivedMs =
    ebind (row_of_update C update blob receivedMs) (\<lambda>row. Inr (insert_row s row (u_entries update)))"

definition latestTick :: "MirrorStore \<Rightarrow> hex \<Rightarrow> int option" where
  "latestTick s committee = map_option up_tickMs
    (tbl_last_by up_tickMs (filter (\<lambda>r. up_committee r = toLowerCase committee) (ms_updates s)))"

text \<open>\<open>committee ? ["AND f.committee = ?", ...] : ["", []]\<close>: an empty text asks for no committee in particular.\<close>

definition asked_committee :: "hex option \<Rightarrow> hex \<Rightarrow> bool" where
  "asked_committee committee c \<longleftrightarrow> (case committee of None \<Rightarrow> True | Some k \<Rightarrow> k = [] \<or> c = toLowerCase k)"

text \<open>\<open>feed_ticks f JOIN updates u ON u.committee = f.committee AND u.tick_ms = f.tick_ms WHERE ...\<close>.\<close>

definition feed_join :: "MirrorStore \<Rightarrow> hex \<Rightarrow> hex option \<Rightarrow> (int \<Rightarrow> bool) \<Rightarrow> UpdateRow list" where
  "feed_join s fid committee when =
    concat (map (\<lambda>f. filter (\<lambda>u. up_committee u = ft_committee f \<and> up_tickMs u = ft_tickMs f) (ms_updates s))
      (filter (\<lambda>f. ft_feedId f = toLowerCase fid \<and>
          asked_committee committee (ft_committee f) \<and> when (ft_tickMs f))
        (ms_feedTicks s)))"

text \<open>\<open>LIMIT n\<close>: a negative \<open>n\<close> is no limit.\<close>

definition sql_limit :: "int \<Rightarrow> 'r list \<Rightarrow> 'r list" where
  "sql_limit n rows = (if n < 0 then rows else take (nat n) rows)"

lemma set_sql_limit: "set (sql_limit n rows) \<subseteq> set rows"
  by (auto simp: sql_limit_def dest: in_set_takeD)

definition latest :: "MirrorStore \<Rightarrow> hex \<Rightarrow> hex option \<Rightarrow> StoredUpdate option" where
  "latest s fid committee = map_option toStored (tbl_last_by up_tickMs (feed_join s fid committee (\<lambda>t. True)))"

definition atOrAfter :: "MirrorStore \<Rightarrow> hex \<Rightarrow> int \<Rightarrow> hex option \<Rightarrow> StoredUpdate option" where
  "atOrAfter s fid tickMs committee =
    map_option toStored (tbl_first_by up_tickMs (feed_join s fid committee (\<lambda>t. tickMs \<le> t)))"

definition range_of :: "MirrorStore \<Rightarrow> hex \<Rightarrow> int \<Rightarrow> int \<Rightarrow> int \<Rightarrow> hex option \<Rightarrow> StoredUpdate list" where
  "range_of s fid fromMs toMs limit committee =
    map toStored (sql_limit limit (sort_key up_tickMs (feed_join s fid committee (\<lambda>t. fromMs \<le> t \<and> t \<le> toMs))))"

definition feeds_of :: "MirrorStore \<Rightarrow> FeedSummary list" where
  "feeds_of s = map (\<lambda>(f, c). \<lparr>fd_feedId = f, fd_committee = c,
      fd_latestTickMs = Max (ft_tickMs ` {r \<in> set (ms_feedTicks s). ft_feedId r = f \<and> ft_committee r = c})\<rparr>)
    (sort_key fst (remdups (map (\<lambda>r. (ft_feedId r, ft_committee r)) (ms_feedTicks s))))"

definition equivocations :: "MirrorStore \<Rightarrow> int \<Rightarrow> Equivocation list" where
  "equivocations s limit = map (\<lambda>r. \<lparr>ev_committee = eq_committee r, ev_tickMs = eq_tickMs r,
      ev_headerHash = eq_headerHash r, ev_blob = bytesToHex (eq_blob r), ev_receivedMs = eq_receivedMs r\<rparr>)
    (sql_limit limit (sort_key (\<lambda>r. - eq_tickMs r) (sort_key eq_receivedMs (ms_equivocations s))))"

section \<open>Skip scans\<close>

text \<open>\<open>SELECT col FROM ... WHERE col > v ORDER BY col LIMIT 1\<close>.\<close>

definition next_value :: "('r \<Rightarrow> hex) \<Rightarrow> 'r list \<Rightarrow> hex \<Rightarrow> hex option" where
  "next_value col rows v = map_option col (tbl_first_by col (filter (\<lambda>r. v < col r) rows))"

lemma next_value_Some:
  assumes "next_value col rows v = Some w"
  shows "v < w \<and> w \<in> col ` set rows \<and> (\<forall>r \<in> set rows. v < col r \<longrightarrow> w \<le> col r)"
proof -
  from assms obtain r where "tbl_first_by col (filter (\<lambda>r. v < col r) rows) = Some r" "w = col r"
    by (auto simp: next_value_def)
  with tbl_first_by_Some[of col "filter (\<lambda>r. v < col r) rows" r] show ?thesis by auto
qed

lemma next_value_None: "next_value col rows v = None \<longleftrightarrow> (\<forall>r \<in> set rows. \<not> v < col r)"
  by (simp add: next_value_def filter_empty_conv)

lemma next_value_less:
  assumes "next_value col rows v = Some w"
  shows "length (filter (\<lambda>r. w < col r) rows) < length (filter (\<lambda>r. v < col r) rows)"
proof -
  have w: "v < w" "w \<in> col ` set rows" using next_value_Some[OF assms] by auto
  then have "filter (\<lambda>r. w < col r) rows = filter (\<lambda>r. w < col r) (filter (\<lambda>r. v < col r) rows)"
    unfolding filter_filter by (intro filter_cong) auto
  moreover have "\<exists>r \<in> set (filter (\<lambda>r. v < col r) rows). \<not> w < col r" using w by auto
  ultimately show ?thesis by (metis length_filter_less)
qed

text \<open>\<open>distinct(sql)\<close>.\<close>

function skip_scan :: "('r \<Rightarrow> hex) \<Rightarrow> 'r list \<Rightarrow> hex \<Rightarrow> hex list" where
  "skip_scan col rows v = (case next_value col rows v of None \<Rightarrow> [] | Some w \<Rightarrow> w # skip_scan col rows w)"
  by pat_completeness auto
termination
  by (relation "measure (\<lambda>(col, rows, v). length (filter (\<lambda>r. v < col r) rows))") (auto dest: next_value_less)

declare skip_scan.simps [simp del]

lemma skip_scan_set: "set (skip_scan col rows v) = {w \<in> col ` set rows. v < w}"
proof (induction col rows v rule: skip_scan.induct)
  case (1 col rows v)
  show ?case
  proof (cases "next_value col rows v")
    case None
    then have "skip_scan col rows v = []" by (subst skip_scan.simps) simp
    with None show ?thesis by (auto simp: next_value_None)
  next
    case (Some w)
    from next_value_Some[OF this] have "{x \<in> col ` set rows. v < x} = insert w {x \<in> col ` set rows. w < x}"
      by force
    with 1[OF Some] Some show ?thesis by (subst skip_scan.simps) simp
  qed
qed

lemma skip_scan_sorted: "sorted_wrt (<) (skip_scan col rows v)"
proof (induction col rows v rule: skip_scan.induct)
  case (1 col rows v)
  then show ?case
    by (subst skip_scan.simps) (auto split: option.splits simp: skip_scan_set)
qed

section \<open>Pruning\<close>

text \<open>The first loop of \<open>prune\<close>: every committee, in batches. \<open>None\<close> would be a loop that does not end.\<close>

fun prune_updates :: "hex list \<Rightarrow> int \<Rightarrow> nat \<Rightarrow> nat \<Rightarrow> UpdateRow list \<Rightarrow> (nat \<times> UpdateRow list) option" where
  "prune_updates [] beforeMs batch removed rows = Some (removed, rows)"
| "prune_updates (c # cs) beforeMs batch removed rows =
    (case delete_batches (\<lambda>r. up_committee r = c \<and> up_tickMs r < beforeMs) batch removed rows of
      None \<Rightarrow> None
    | Some (removed', rows') \<Rightarrow> prune_updates cs beforeMs batch removed' rows')"

text \<open>The inner loop over the committees of a feed deletes while it scans.\<close>

definition drop_ticks :: "hex \<Rightarrow> hex \<Rightarrow> int \<Rightarrow> FeedTickRow list \<Rightarrow> FeedTickRow list" where
  "drop_ticks fid c beforeMs = tbl_delete (\<lambda>r. ft_feedId r = fid \<and> ft_committee r = c \<and> ft_tickMs r < beforeMs)"

definition next_committee :: "hex \<Rightarrow> hex \<Rightarrow> FeedTickRow list \<Rightarrow> hex option" where
  "next_committee fid c ticks = next_value ft_committee (filter (\<lambda>r. ft_feedId r = fid) ticks) c"

lemma drop_ticks_shrinks: "length (filter p (drop_ticks fid c b ticks)) \<le> length (filter p ticks)"
proof -
  have "filter p (drop_ticks fid c b ticks) = drop_ticks fid c b (filter p ticks)"
    by (simp add: drop_ticks_def tbl_delete_def conj_commute)
  moreover have "length (drop_ticks fid c b (filter p ticks)) \<le> length (filter p ticks)"
    unfolding drop_ticks_def tbl_delete_def by (rule length_filter_le)
  ultimately show ?thesis by simp
qed

function prune_feed :: "hex \<Rightarrow> hex \<Rightarrow> int \<Rightarrow> FeedTickRow list \<Rightarrow> FeedTickRow list" where
  "prune_feed fid v beforeMs ticks =
    (case next_committee fid v ticks of
      None \<Rightarrow> ticks
    | Some c \<Rightarrow> prune_feed fid c beforeMs (drop_ticks fid c beforeMs ticks))"
  by pat_completeness auto
termination
proof (relation "measure (\<lambda>(fid, v, beforeMs, ticks). length (filter (\<lambda>r. v < ft_committee r) (filter (\<lambda>r. ft_feedId r = fid) ticks)))")
  fix fid v beforeMs ticks c
  assume "next_committee fid v ticks = Some c"
  then have "length (filter (\<lambda>r. c < ft_committee r) (filter (\<lambda>r. ft_feedId r = fid) ticks)) <
      length (filter (\<lambda>r. v < ft_committee r) (filter (\<lambda>r. ft_feedId r = fid) ticks))"
    unfolding next_committee_def by (rule next_value_less)
  then show "((fid, c, beforeMs, drop_ticks fid c beforeMs ticks), fid, v, beforeMs, ticks) \<in>
      measure (\<lambda>(fid, v, beforeMs, ticks). length (filter (\<lambda>r. v < ft_committee r) (filter (\<lambda>r. ft_feedId r = fid) ticks)))"
    using drop_ticks_shrinks[of "\<lambda>r. ft_feedId r = fid \<and> c < ft_committee r" fid c beforeMs ticks] by simp
qed simp

declare prune_feed.simps [simp del]

definition mirror_prune_batched :: "MirrorStore \<Rightarrow> int \<Rightarrow> nat \<Rightarrow> (nat \<times> MirrorStore) option" where
  "mirror_prune_batched s beforeMs batch =
    (case prune_updates (skip_scan up_committee (ms_updates s) []) beforeMs batch 0 (ms_updates s) of
      None \<Rightarrow> None
    | Some (removed, rows) \<Rightarrow> Some (removed, s\<lparr>ms_updates := rows,
        ms_feedTicks := foldl (\<lambda>ticks fid. prune_feed fid [] beforeMs ticks) (ms_feedTicks s)
          (skip_scan ft_feedId (ms_feedTicks s) [])\<rparr>))"

definition MIRROR_PRUNE_BATCH :: nat where "MIRROR_PRUNE_BATCH = 5000"

definition mirror_prune :: "MirrorStore \<Rightarrow> int \<Rightarrow> (nat \<times> MirrorStore) option" where
  "mirror_prune s beforeMs = mirror_prune_batched s beforeMs MIRROR_PRUNE_BATCH"

definition mirror_prune_run :: "MirrorStore \<Rightarrow> int \<Rightarrow> int \<Rightarrow> MirrorStore option" where
  "mirror_prune_run s windowMs now =
    (if windowMs \<le> 0 then Some s else map_option snd (mirror_prune s (now - windowMs)))"

text \<open>What is left after a prune, without scans and batches.\<close>

definition mirror_pruned :: "MirrorStore \<Rightarrow> int \<Rightarrow> MirrorStore" where
  "mirror_pruned s beforeMs = s\<lparr>ms_updates := tbl_delete (\<lambda>r. up_tickMs r < beforeMs) (ms_updates s),
    ms_feedTicks := tbl_delete (\<lambda>r. ft_tickMs r < beforeMs) (ms_feedTicks s)\<rparr>"

definition mirror_named :: "MirrorStore \<Rightarrow> bool" where
  "mirror_named s \<longleftrightarrow> (\<forall>r \<in> set (ms_updates s). up_committee r \<noteq> []) \<and>
    (\<forall>r \<in> set (ms_feedTicks s). ft_feedId r \<noteq> [] \<and> ft_committee r \<noteq> [])"

lemma Nil_less [simp]: "([] :: string) < s \<longleftrightarrow> s \<noteq> []"
  by (cases s) simp_all

lemma delete_delete: "tbl_delete p (tbl_delete q rows) = tbl_delete (\<lambda>r. q r \<or> p r) rows"
  by (simp add: tbl_delete_def)

lemma delete_cong: "(\<And>r. r \<in> set rows \<Longrightarrow> p r \<longleftrightarrow> q r) \<Longrightarrow> tbl_delete p rows = tbl_delete q rows"
  unfolding tbl_delete_def by (intro filter_cong) auto

lemma delete_length: "length (filter p rows) + length (tbl_delete p rows) = length rows"
  using sum_length_filter_compl[of p rows] by (simp add: tbl_delete_def)

lemma prune_updates_all:
  assumes "0 < batch"
  shows "\<exists>n. prune_updates cs b batch removed rows =
      Some (n, tbl_delete (\<lambda>r. up_committee r \<in> set cs \<and> up_tickMs r < b) rows) \<and>
    n + length (tbl_delete (\<lambda>r. up_committee r \<in> set cs \<and> up_tickMs r < b) rows) = removed + length rows"
proof (induction cs arbitrary: removed rows)
  case (Cons c cs)
  let ?p = "\<lambda>r. up_committee r = c \<and> up_tickMs r < b"
  have "tbl_delete (\<lambda>r. up_committee r \<in> set cs \<and> up_tickMs r < b) (tbl_delete ?p rows) =
      tbl_delete (\<lambda>r. up_committee r \<in> set (c # cs) \<and> up_tickMs r < b) rows"
    unfolding delete_delete by (intro delete_cong) auto
  with Cons.IH[of "removed + length (filter ?p rows)" "tbl_delete ?p rows"] delete_length[of ?p rows]
  show ?case by (auto simp: delete_batches_all[OF assms])
qed (simp add: tbl_delete_def)

lemma prune_feed_all:
  "prune_feed fid v b ticks = tbl_delete (\<lambda>r. ft_feedId r = fid \<and> v < ft_committee r \<and> ft_tickMs r < b) ticks"
proof (induction fid v b ticks rule: prune_feed.induct)
  case (1 fid v b ticks)
  show ?case
  proof (cases "next_committee fid v ticks")
    case None
    then have "\<not> (ft_feedId r = fid \<and> v < ft_committee r \<and> ft_tickMs r < b)" if "r \<in> set ticks" for r
      using that by (auto simp: next_committee_def next_value_None)
    then have "tbl_delete (\<lambda>r. ft_feedId r = fid \<and> v < ft_committee r \<and> ft_tickMs r < b) ticks = ticks"
      by (auto simp: tbl_delete_def filter_id_conv)
    with None show ?thesis by (subst prune_feed.simps) simp
  next
    case (Some c)
    have c: "v < c" "\<And>r. r \<in> set ticks \<Longrightarrow> ft_feedId r = fid \<Longrightarrow> v < ft_committee r \<Longrightarrow> c \<le> ft_committee r"
      using next_value_Some[OF Some[unfolded next_committee_def]] by auto
    have "prune_feed fid v b ticks =
        tbl_delete (\<lambda>r. ft_feedId r = fid \<and> c < ft_committee r \<and> ft_tickMs r < b) (drop_ticks fid c b ticks)"
      using 1[OF Some] Some by (subst prune_feed.simps) simp
    also have "\<dots> = tbl_delete (\<lambda>r. ft_feedId r = fid \<and> v < ft_committee r \<and> ft_tickMs r < b) ticks"
      unfolding drop_ticks_def delete_delete
    proof (rule delete_cong)
      fix r
      assume r: "r \<in> set ticks"
      show "ft_feedId r = fid \<and> ft_committee r = c \<and> ft_tickMs r < b \<or>
          ft_feedId r = fid \<and> c < ft_committee r \<and> ft_tickMs r < b \<longleftrightarrow>
        ft_feedId r = fid \<and> v < ft_committee r \<and> ft_tickMs r < b"
        using c(1) c(2)[OF r] by (auto dest: order.strict_trans)
    qed
    finally show ?thesis .
  qed
qed

lemma prune_feeds_all:
  "foldl (\<lambda>ticks fid. prune_feed fid [] b ticks) ticks fids =
    tbl_delete (\<lambda>r. ft_feedId r \<in> set fids \<and> ft_committee r \<noteq> [] \<and> ft_tickMs r < b) ticks"
proof (induction fids arbitrary: ticks)
  case (Cons fid fids)
  show ?case
    unfolding foldl_Cons Cons.IH unfolding prune_feed_all delete_delete
    by (intro delete_cong) auto
qed (simp add: tbl_delete_def)

lemma mirror_prune_eq:
  assumes "0 < batch" "mirror_named s"
  shows "\<exists>n. mirror_prune_batched s b batch = Some (n, mirror_pruned s b) \<and>
    n + length (ms_updates (mirror_pruned s b)) = length (ms_updates s)"
proof -
  have ups: "tbl_delete (\<lambda>r. up_committee r \<in> set (skip_scan up_committee (ms_updates s) []) \<and> up_tickMs r < b) (ms_updates s) =
      tbl_delete (\<lambda>r. up_tickMs r < b) (ms_updates s)"
    using assms(2) by (intro delete_cong) (auto simp: skip_scan_set mirror_named_def)
  have ticks: "tbl_delete (\<lambda>r. ft_feedId r \<in> set (skip_scan ft_feedId (ms_feedTicks s) []) \<and> ft_committee r \<noteq> [] \<and> ft_tickMs r < b)
      (ms_feedTicks s) = tbl_delete (\<lambda>r. ft_tickMs r < b) (ms_feedTicks s)"
    using assms(2) by (intro delete_cong) (auto simp: skip_scan_set mirror_named_def)
  show ?thesis
    using prune_updates_all[OF assms(1), of "skip_scan up_committee (ms_updates s) []" b 0 "ms_updates s"]
    unfolding ups mirror_prune_batched_def prune_feeds_all ticks
    by (auto simp: mirror_pruned_def)
qed

section \<open>The log of updates\<close>

definition committee_tick :: "PriceUpdate \<Rightarrow> hex \<times> int" where
  "committee_tick u = (toLowerCase (h_publisherSetTypeHash (u_header u)), h_publishTimeMs (u_header u))"

definition update_row :: "PriceUpdate \<Rightarrow> hex \<times> bytes \<times> int \<Rightarrow> UpdateRow" where
  "update_row u = (\<lambda>(headerHash, blob, receivedMs). \<lparr>up_committee = fst (committee_tick u), up_tickMs = snd (committee_tick u),
    up_headerHash = headerHash, up_blob = blob, up_receivedMs = receivedMs\<rparr>)"

definition mirror_save :: "MirrorStore \<Rightarrow> PriceUpdate \<Rightarrow> hex \<times> bytes \<times> int \<Rightarrow> bool \<times> MirrorStore" where
  "mirror_save s u d = map_prod (\<lambda>r. r = NewUpdate) id (insert_row s (update_row u d) (u_entries u))"

definition mirror_row :: "MirrorStore \<Rightarrow> hex \<times> int \<Rightarrow> (hex \<times> bytes \<times> int) option" where
  "mirror_row s k = map_option (\<lambda>r. (up_headerHash r, up_blob r, up_receivedMs r)) (tbl_find update_key k (ms_updates s))"

lemma update_row_key [simp]:
  "up_committee (update_row u d) = fst (committee_tick u)"
  "up_tickMs (update_row u d) = snd (committee_tick u)"
  by (cases d; simp add: update_row_def)+

lemma update_row_data [simp]: "(up_headerHash (update_row u d), up_blob (update_row u d), up_receivedMs (update_row u d)) = d"
  by (cases d) (simp add: update_row_def)

interpretation mirror_log: first_write_log mirror_save mirror_row committee_tick mirror_pruned "\<lambda>c k. snd k < c"
proof
  fix s u b k
  show "mirror_row (snd (mirror_save s u b)) k =
      (if k = committee_tick u \<and> mirror_row s k = None then Some b else mirror_row s k)"
    using update_row_data[of u b]
    by (auto simp: mirror_save_def insert_row_def mirror_row_def tbl_find_def find_append Let_def split: option.splits)
  show "fst (mirror_save s u b) \<longleftrightarrow> mirror_row s (committee_tick u) = None"
    by (auto simp: mirror_save_def insert_row_def mirror_row_def Let_def split: option.splits)
next
  fix s c k
  show "mirror_row (mirror_pruned s c) k = (if snd k < c then None else mirror_row s k)"
  proof (cases "snd k < c")
    case True
    then have "tbl_find update_key k (tbl_delete (\<lambda>r. up_tickMs r < c) (ms_updates s)) = None"
      by (intro tbl_find_delete_gone) auto
    with True show ?thesis by (simp add: mirror_row_def mirror_pruned_def)
  next
    case False
    then have "tbl_find update_key k (tbl_delete (\<lambda>r. up_tickMs r < c) (ms_updates s)) = tbl_find update_key k (ms_updates s)"
      by (intro tbl_find_delete_keep) auto
    with False show ?thesis by (simp add: mirror_row_def mirror_pruned_def)
  qed
qed

section \<open>The archive the store implements\<close>

type_synonym archive = "(PriceUpdate \<times> hex \<times> bytes \<times> int) list"

abbreviation archived :: "PriceUpdate \<times> hex \<times> bytes \<times> int \<Rightarrow> UpdateRow" where
  "archived \<equiv> \<lambda>(u, d). update_row u d"

definition archive_insert :: "archive \<Rightarrow> PriceUpdate \<Rightarrow> hex \<times> bytes \<times> int \<Rightarrow> archive" where
  "archive_insert A u d = (if committee_tick u \<in> committee_tick ` fst ` set A then A else A @ [(u, d)])"

definition archive_prune :: "archive \<Rightarrow> int \<Rightarrow> archive" where
  "archive_prune A beforeMs = filter (\<lambda>(u, d). beforeMs \<le> h_publishTimeMs (u_header u)) A"

text \<open>The archived updates with a feed, of one committee or of any, at the ticks asked for.\<close>

definition has_feed :: "PriceUpdate \<Rightarrow> hex \<Rightarrow> bool" where
  "has_feed u f \<longleftrightarrow> list_ex (\<lambda>en. toLowerCase (m_feedId (e_message en)) = toLowerCase f) (u_entries u)"

definition archive_feed :: "archive \<Rightarrow> hex \<Rightarrow> hex option \<Rightarrow> (int \<Rightarrow> bool) \<Rightarrow> archive" where
  "archive_feed A f c when = filter (\<lambda>(u, d). has_feed u f \<and>
    asked_committee c (fst (committee_tick u)) \<and> when (snd (committee_tick u))) A"

definition tick_row :: "PriceUpdate \<Rightarrow> UpdateEntry \<Rightarrow> FeedTickRow" where
  "tick_row u en = \<lparr>ft_feedId = toLowerCase (m_feedId (e_message en)), ft_committee = fst (committee_tick u),
    ft_tickMs = snd (committee_tick u)\<rparr>"

definition named :: "PriceUpdate \<Rightarrow> bool" where
  "named u \<longleftrightarrow> fst (committee_tick u) \<noteq> [] \<and> list_all (\<lambda>en. toLowerCase (m_feedId (e_message en)) \<noteq> []) (u_entries u)"

definition implements :: "MirrorStore \<Rightarrow> archive \<Rightarrow> bool" where
  "implements s A \<longleftrightarrow> ms_updates s = map archived A \<and> distinct (map (committee_tick \<circ> fst) A) \<and>
    distinct (ms_feedTicks s) \<and> set (ms_feedTicks s) = (\<Union>(u, d) \<in> set A. tick_row u ` set (u_entries u)) \<and>
    (\<forall>(u, d) \<in> set A. named u)"

lemma feed_tick_eqI:
  "ft_feedId r = ft_feedId r' \<Longrightarrow> ft_committee r = ft_committee r' \<Longrightarrow> ft_tickMs r = ft_tickMs r' \<Longrightarrow> r = (r' :: FeedTickRow)"
  by (cases r; cases r') simp

lemma find_feed_tick: "tbl_find feed_tick_key (feed_tick_key r) ticks = None \<longleftrightarrow> r \<notin> set ticks"
  by (auto simp: tbl_find_None image_iff dest: feed_tick_eqI)

lemma insert_feed_tick:
  "set (tbl_insert_ignore feed_tick_key r ticks) = insert r (set ticks)"
  "distinct ticks \<Longrightarrow> distinct (tbl_insert_ignore feed_tick_key r ticks)"
  unfolding tbl_insert_ignore_def find_feed_tick by auto

lemma index_feeds_set:
  "set (index_feeds (update_row u d) ents ticks) = set ticks \<union> tick_row u ` set ents"
  "distinct ticks \<Longrightarrow> distinct (index_feeds (update_row u d) ents ticks)"
proof -
  show "set (index_feeds (update_row u d) ents ticks) = set ticks \<union> tick_row u ` set ents"
    by (induction ents arbitrary: ticks) (simp_all add: index_feeds_def insert_feed_tick tick_row_def)
  show "distinct ticks \<Longrightarrow> distinct (index_feeds (update_row u d) ents ticks)"
    by (induction ents arbitrary: ticks) (simp_all add: index_feeds_def insert_feed_tick)
qed

lemma implements_key: "implements s A \<Longrightarrow> tbl_find update_key k (ms_updates s) = None \<longleftrightarrow> k \<notin> committee_tick ` fst ` set A"
  by (force simp: tbl_find_None implements_def image_iff)

lemma implements_insert:
  assumes "implements s A" "named u"
  shows "implements (snd (insert_row s (update_row u d) (u_entries u))) (archive_insert A u d)"
proof (cases "committee_tick u \<in> committee_tick ` fst ` set A")
  case True
  then obtain r where "tbl_find update_key (committee_tick u) (ms_updates s) = Some r"
    using implements_key[OF assms(1), of "committee_tick u"] by auto
  then have "ms_updates (snd (insert_row s (update_row u d) (u_entries u))) = ms_updates s"
      "ms_feedTicks (snd (insert_row s (update_row u d) (u_entries u))) = ms_feedTicks s"
    by (simp_all add: insert_row_def Let_def)
  with True assms(1) show ?thesis by (simp add: implements_def archive_insert_def)
next
  case False
  then have "tbl_find update_key (committee_tick u) (ms_updates s) = None"
    using implements_key[OF assms(1)] by blast
  with False assms show ?thesis
    by (auto simp: implements_def archive_insert_def insert_row_def index_feeds_set image_iff)
qed

lemma implements_named: "implements s A \<Longrightarrow> mirror_named s"
proof -
  assume i: "implements s A"
  have "up_committee r \<noteq> []" if r: "r \<in> set (ms_updates s)" for r
  proof -
    from r i obtain u d where "(u, d) \<in> set A" "r = update_row u d" by (auto simp: implements_def)
    with i show ?thesis by (cases d) (auto simp: implements_def named_def update_row_def)
  qed
  with i show ?thesis by (fastforce simp: mirror_named_def implements_def tick_row_def named_def list_all_iff)
qed

lemma implements_prune: "implements s A \<Longrightarrow> implements (mirror_pruned s b) (archive_prune A b)"
proof -
  assume i: "implements s A"
  have ups: "tbl_delete (\<lambda>r. up_tickMs r < b) (map archived A) = map archived (archive_prune A b)"
    by (auto simp: tbl_delete_def archive_prune_def filter_map o_def update_row_def committee_tick_def split_beta
        intro!: arg_cong[where f = "map _"] filter_cong)
  have "distinct (map (committee_tick \<circ> fst) (archive_prune A b))"
    using i by (simp add: implements_def archive_prune_def distinct_map_filter)
  moreover have "distinct (tbl_delete (\<lambda>r. ft_tickMs r < b) (ms_feedTicks s))"
    using i by (simp add: implements_def tbl_delete_def)
  moreover have "set (tbl_delete (\<lambda>r. ft_tickMs r < b) (ms_feedTicks s)) =
      (\<Union>(u, d) \<in> set (archive_prune A b). tick_row u ` set (u_entries u))"
    using i by (auto simp: implements_def archive_prune_def tick_row_def committee_tick_def)
  moreover have "\<forall>(u, d) \<in> set (archive_prune A b). named u"
    using i by (auto simp: implements_def archive_prune_def)
  ultimately show ?thesis
    using i by (simp add: implements_def mirror_pruned_def ups)
qed

section \<open>The queries\<close>

lemma concat_singletons: "(\<And>x. x \<in> set xs \<Longrightarrow> f x = [g x]) \<Longrightarrow> concat (map f xs) = map g xs"
  by (induction xs) auto

lemma filter_by_key: "distinct (map k xs) \<Longrightarrow> x \<in> set xs \<Longrightarrow> filter (\<lambda>y. k y = k x) xs = [x]"
  by (induction xs) (auto simp: filter_empty_conv image_iff)

lemma implements_wf: "implements s A \<Longrightarrow> tbl_wf update_key (ms_updates s)"
proof -
  have "map update_key (map archived A) = map (committee_tick \<circ> fst) A" by (induction A) auto
  then show "implements s A \<Longrightarrow> tbl_wf update_key (ms_updates s)"
    by (simp only: implements_def tbl_wf_def)
qed

lemma implements_ticks:
  "implements s A \<Longrightarrow> t \<in> set (ms_feedTicks s) \<longleftrightarrow> (\<exists>u d en. (u, d) \<in> set A \<and> en \<in> set (u_entries u) \<and> t = tick_row u en)"
  unfolding implements_def by blast

lemma implements_row: "implements s A \<Longrightarrow> (u, d) \<in> set A \<Longrightarrow> update_row u d \<in> set (ms_updates s)"
  using imageI[of "(u, d)" "set A" archived] by (simp add: implements_def)

text \<open>The update a feed tick joins, and the feed ticks a query selects.\<close>

definition joined_row :: "MirrorStore \<Rightarrow> FeedTickRow \<Rightarrow> UpdateRow" where
  "joined_row s t = hd (filter (\<lambda>u. up_committee u = ft_committee t \<and> up_tickMs u = ft_tickMs t) (ms_updates s))"

definition selected_ticks :: "MirrorStore \<Rightarrow> hex \<Rightarrow> hex option \<Rightarrow> (int \<Rightarrow> bool) \<Rightarrow> FeedTickRow list" where
  "selected_ticks s f c when = filter (\<lambda>t. ft_feedId t = toLowerCase f \<and>
     asked_committee c (ft_committee t) \<and> when (ft_tickMs t)) (ms_feedTicks s)"

lemma joined_row:
  assumes i: "implements s A" and t: "t \<in> set (ms_feedTicks s)"
  shows "filter (\<lambda>u. up_committee u = ft_committee t \<and> up_tickMs u = ft_tickMs t) (ms_updates s) = [joined_row s t] \<and>
    joined_row s t \<in> set (ms_updates s) \<and> update_key (joined_row s t) = (ft_committee t, ft_tickMs t)"
proof -
  have keys: "distinct (map update_key (ms_updates s))" using implements_wf[OF i] by (simp only: tbl_wf_def)
  from t i obtain u d where u: "(u, d) \<in> set A" "ft_committee t = fst (committee_tick u)" "ft_tickMs t = snd (committee_tick u)"
    unfolding implements_ticks[OF i] by (auto simp: tick_row_def)
  let ?r = "update_row u d"
  have r: "?r \<in> set (ms_updates s)" using implements_row[OF i u(1)] .
  have k: "update_key ?r = (ft_committee t, ft_tickMs t)" by (simp add: u(2,3))
  then have "filter (\<lambda>u. up_committee u = ft_committee t \<and> up_tickMs u = ft_tickMs t) (ms_updates s) = [?r]"
    using filter_by_key[OF keys r] by simp
  with r k show ?thesis by (auto simp: joined_row_def)
qed

lemma joined_tick_row:
  assumes i: "implements s A" and u: "(u, d) \<in> set A" "en \<in> set (u_entries u)"
  shows "joined_row s (tick_row u en) = update_row u d"
proof -
  have t: "tick_row u en \<in> set (ms_feedTicks s)" unfolding implements_ticks[OF i] using u by blast
  have "update_row u d \<in> set (ms_updates s)" using implements_row[OF i u(1)] .
  moreover have "joined_row s (tick_row u en) \<in> set (ms_updates s)" using joined_row[OF i t] by (rule conjunct2[THEN conjunct1])
  moreover have "update_key (joined_row s (tick_row u en)) = update_key (update_row u d)"
    using joined_row[OF i t, THEN conjunct2, THEN conjunct2] by (simp add: tick_row_def)
  moreover have "inj_on update_key (set (ms_updates s))" using implements_wf[OF i] by (simp only: tbl_wf_def distinct_map)
  ultimately show ?thesis by (meson inj_onD)
qed

lemma feed_join_rows: "implements s A \<Longrightarrow> feed_join s f c when = map (joined_row s) (selected_ticks s f c when)"
  unfolding feed_join_def selected_ticks_def using joined_row by (intro concat_singletons) auto

lemma distinct_feed_join:
  assumes i: "implements s A"
  shows "distinct (feed_join s f c when)"
proof -
  have "distinct (selected_ticks s f c when)" using i by (simp add: implements_def selected_ticks_def)
  moreover have "inj_on (joined_row s) (set (selected_ticks s f c when))"
  proof (rule inj_onI)
    fix x y
    assume xy: "x \<in> set (selected_ticks s f c when)" "y \<in> set (selected_ticks s f c when)" "joined_row s x = joined_row s y"
    then have "x \<in> set (ms_feedTicks s)" "y \<in> set (ms_feedTicks s)" by (simp_all add: selected_ticks_def)
    from joined_row[OF i this(1)] joined_row[OF i this(2)] xy show "x = y"
      by (auto simp: selected_ticks_def intro: feed_tick_eqI)
  qed
  ultimately show ?thesis by (simp add: feed_join_rows[OF i] distinct_map)
qed

lemma selected_ticks_archive:
  assumes i: "implements s A"
  shows "t \<in> set (selected_ticks s f c when) \<longleftrightarrow> (\<exists>u d en. (u, d) \<in> set (archive_feed A f c when) \<and> en \<in> set (u_entries u) \<and>
    toLowerCase (m_feedId (e_message en)) = toLowerCase f \<and> t = tick_row u en)"
proof -
  have sel: "ft_feedId (tick_row u en) = toLowerCase (m_feedId (e_message en))"
      "ft_committee (tick_row u en) = fst (committee_tick u)" "ft_tickMs (tick_row u en) = snd (committee_tick u)" for u en
    by (simp_all add: tick_row_def)
  have "has_feed u f" if "en \<in> set (u_entries u)" "toLowerCase (m_feedId (e_message en)) = toLowerCase f" for u en
    using that by (auto simp: has_feed_def list_ex_iff)
  then show ?thesis
    unfolding selected_ticks_def set_filter mem_Collect_eq implements_ticks[OF i] archive_feed_def split_beta
    by (intro iffI; elim exE conjE; hypsubst; simp only: sel fst_conv; blast)
qed

lemma feed_join_archive:
  assumes i: "implements s A"
  shows "mset (feed_join s f c when) = mset (map archived (archive_feed A f c when))"
proof -
  have row: "joined_row s (tick_row u en) = archived (u, d)" if "(u, d) \<in> set (archive_feed A f c when)" "en \<in> set (u_entries u)" for u d en
    using joined_tick_row[OF i, of u d en] that by (simp add: archive_feed_def)
  have "distinct (map update_key (ms_updates s))" using implements_wf[OF i] by (simp only: tbl_wf_def)
  then have "distinct (ms_updates s)" by (simp only: distinct_map)
  with i have "distinct (map archived (archive_feed A f c when))"
    by (simp add: implements_def archive_feed_def distinct_map_filter)
  moreover have "set (feed_join s f c when) = set (map archived (archive_feed A f c when))"
  proof (intro equalityI subsetI)
    fix x
    assume "x \<in> set (feed_join s f c when)"
    then obtain t where "x = joined_row s t" "t \<in> set (selected_ticks s f c when)" unfolding feed_join_rows[OF i] set_map by (rule imageE)
    then obtain u d en where u: "(u, d) \<in> set (archive_feed A f c when)" "en \<in> set (u_entries u)" "x = joined_row s (tick_row u en)"
      unfolding selected_ticks_archive[OF i] by blast
    then have "x = archived (u, d)" using row by simp
    then show "x \<in> set (map archived (archive_feed A f c when))" unfolding set_map using u(1) by (rule image_eqI)
  next
    fix x
    assume "x \<in> set (map archived (archive_feed A f c when))"
    then obtain u d where u: "(u, d) \<in> set (archive_feed A f c when)" "x = archived (u, d)" by auto
    then obtain en where en: "en \<in> set (u_entries u)" "toLowerCase (m_feedId (e_message en)) = toLowerCase f"
      by (auto simp: archive_feed_def has_feed_def list_ex_iff)
    with u(1) have "tick_row u en \<in> set (selected_ticks s f c when)" unfolding selected_ticks_archive[OF i] by blast
    moreover have "x = joined_row s (tick_row u en)" using row[OF u(1) en(1)] u(2) by simp
    ultimately show "x \<in> set (feed_join s f c when)" unfolding feed_join_rows[OF i] by simp
  qed
  ultimately show ?thesis using distinct_feed_join[OF i] by (simp only: set_eq_iff_mset_eq_distinct)
qed

lemma feed_join_set: "implements s A \<Longrightarrow> set (feed_join s f c when) = archived ` set (archive_feed A f c when)"
  using feed_join_archive[of s A f c "when", THEN mset_eq_setD] by simp

text \<open>What a query answers with, as an archived update.\<close>

definition answer :: "PriceUpdate \<times> hex \<times> bytes \<times> int \<Rightarrow> StoredUpdate" where
  "answer = (\<lambda>(u, h, blob, r). \<lparr>su_committee = fst (committee_tick u), su_tickMs = snd (committee_tick u), su_blob = blob\<rparr>)"

lemma toStored_archived [simp]: "toStored (archived x) = answer x"
  by (cases x) (simp add: toStored_def answer_def update_row_def)

lemma tick_archived [simp]: "up_tickMs (archived x) = snd (committee_tick (fst x))" "su_tickMs (answer x) = snd (committee_tick (fst x))"
  by (cases x; simp add: answer_def)+

definition newest_answer :: "archive \<Rightarrow> StoredUpdate option \<Rightarrow> bool" where
  "newest_answer A x \<longleftrightarrow> (case x of None \<Rightarrow> A = []
    | Some st \<Rightarrow> list_ex (\<lambda>a. answer a = st) A \<and> list_all (\<lambda>a. su_tickMs (answer a) \<le> su_tickMs st) A)"

definition oldest_answer :: "archive \<Rightarrow> StoredUpdate option \<Rightarrow> bool" where
  "oldest_answer A x \<longleftrightarrow> (case x of None \<Rightarrow> A = []
    | Some st \<Rightarrow> list_ex (\<lambda>a. answer a = st) A \<and> list_all (\<lambda>a. su_tickMs st \<le> su_tickMs (answer a)) A)"

lemma latest_newest: "implements s A \<Longrightarrow> newest_answer (archive_feed A f c (\<lambda>t. True)) (latest s f c)"
proof (cases "tbl_last_by up_tickMs (feed_join s f c (\<lambda>t. True))")
  case None
  assume i: "implements s A"
  from None have "set (feed_join s f c (\<lambda>t. True)) = {}" by simp
  with feed_join_set[OF i, of f c "\<lambda>t. True"] None show ?thesis by (simp add: newest_answer_def latest_def tbl_last_by_def)
next
  case (Some r)
  assume i: "implements s A"
  from tbl_last_by_Some[OF Some] feed_join_set[OF i, of f c "\<lambda>t. True"]
  obtain x where "x \<in> set (archive_feed A f c (\<lambda>t. True))" "r = archived x"
      "\<forall>y \<in> set (archive_feed A f c (\<lambda>t. True)). up_tickMs (archived y) \<le> up_tickMs r" by auto
  with Some show ?thesis by (auto simp: newest_answer_def latest_def list_ex_iff list_all_iff simp del: split_paired_All)
qed

lemma at_or_after_oldest: "implements s A \<Longrightarrow> oldest_answer (archive_feed A f c (\<lambda>k. t \<le> k)) (atOrAfter s f t c)"
proof (cases "tbl_first_by up_tickMs (feed_join s f c (\<lambda>k. t \<le> k))")
  case None
  assume i: "implements s A"
  from None have "set (feed_join s f c (\<lambda>k. t \<le> k)) = {}" by simp
  with feed_join_set[OF i, of f c "\<lambda>k. t \<le> k"] None show ?thesis by (simp add: oldest_answer_def atOrAfter_def tbl_first_by_def)
next
  case (Some r)
  assume i: "implements s A"
  from tbl_first_by_Some[OF Some] feed_join_set[OF i, of f c "\<lambda>k. t \<le> k"]
  obtain x where "x \<in> set (archive_feed A f c (\<lambda>k. t \<le> k))" "r = archived x"
      "\<forall>y \<in> set (archive_feed A f c (\<lambda>k. t \<le> k)). up_tickMs r \<le> up_tickMs (archived y)" by auto
  with Some show ?thesis by (auto simp: oldest_answer_def atOrAfter_def list_ex_iff list_all_iff simp del: split_paired_All)
qed

lemma range_sorted: "sorted (map su_tickMs (range_of s f a b n c))"
proof -
  have "su_tickMs \<circ> toStored = up_tickMs" by (simp add: toStored_def fun_eq_iff)
  then have "map su_tickMs (range_of s f a b n c) = sql_limit n (map up_tickMs (sort_key up_tickMs (feed_join s f c (\<lambda>t. a \<le> t \<and> t \<le> b))))"
    by (simp add: range_of_def sql_limit_def take_map)
  then show ?thesis by (simp add: sql_limit_def sorted_wrt_take)
qed

text \<open>A limit takes the first updates of the whole range.\<close>

lemma range_limit: "range_of s f a b n c = sql_limit n (range_of s f a b (- 1) c)"
  by (simp add: range_of_def sql_limit_def take_map)

lemma range_all:
  assumes "implements s A" "n < 0 \<or> int (length A) \<le> n"
  shows "mset (range_of s f a b n c) = mset (map answer (archive_feed A f c (\<lambda>t. a \<le> t \<and> t \<le> b)))"
proof -
  let ?w = "\<lambda>t. a \<le> t \<and> t \<le> b"
  have m: "mset (feed_join s f c ?w) = mset (map archived (archive_feed A f c ?w))" by (rule feed_join_archive[OF assms(1)])
  have "length (archive_feed A f c ?w) \<le> length A" by (simp add: archive_feed_def)
  with arg_cong[OF m, of size] assms(2) have "n < 0 \<or> int (length (feed_join s f c ?w)) \<le> n" by auto
  then have "mset (range_of s f a b n c) = image_mset toStored (mset (feed_join s f c ?w))"
    by (auto simp: range_of_def sql_limit_def)
  also have "\<dots> = mset (map answer (archive_feed A f c ?w))"
    unfolding m by (simp add: multiset.map_comp o_def)
  finally show ?thesis .
qed

section \<open>Runs\<close>

datatype mirror_op = StoreUpdate PriceUpdate bytes int | PruneBefore int

definition mirror_step :: "crypto \<Rightarrow> MirrorStore option \<Rightarrow> mirror_op \<Rightarrow> MirrorStore option" where
  "mirror_step C so op = (case so of None \<Rightarrow> None | Some s \<Rightarrow> (case op of
      StoreUpdate u blob r \<Rightarrow> (case mirror_insert C s u blob r of Inl e \<Rightarrow> Some s | Inr (_, s') \<Rightarrow> Some s')
    | PruneBefore b \<Rightarrow> map_option snd (mirror_prune s b)))"

definition mirror_run :: "crypto \<Rightarrow> mirror_op list \<Rightarrow> MirrorStore option" where
  "mirror_run C ops = foldl (mirror_step C) (Some new_mirror) ops"

definition archive_step :: "crypto \<Rightarrow> archive \<Rightarrow> mirror_op \<Rightarrow> archive" where
  "archive_step C A op = (case op of
      StoreUpdate u blob r \<Rightarrow> (case priceUpdateSigningHash C (u_header u) of Inl e \<Rightarrow> A | Inr h \<Rightarrow> archive_insert A u (h, blob, r))
    | PruneBefore b \<Rightarrow> archive_prune A b)"

definition archive_run :: "crypto \<Rightarrow> mirror_op list \<Rightarrow> archive" where
  "archive_run C ops = foldl (archive_step C) [] ops"

fun feeds_named :: "mirror_op \<Rightarrow> bool" where
  "feeds_named (StoreUpdate u blob r) \<longleftrightarrow> list_all (\<lambda>en. m_feedId (e_message en) \<noteq> []) (u_entries u)"
| "feeds_named (PruneBefore b) \<longleftrightarrow> True"

lemma toLowerCase_Nil [simp]: "toLowerCase s = [] \<longleftrightarrow> s = []"
  by (simp add: toLowerCase_def)

lemma row_of_update_eq: "row_of_update C u blob r = ebind (priceUpdateSigningHash C (u_header u)) (\<lambda>h. Inr (update_row u (h, blob, r)))"
  by (cases "priceUpdateSigningHash C (u_header u)") (simp_all add: row_of_update_def update_row_def committee_tick_def)

lemma hashed_named: "priceUpdateSigningHash C h = Inr x \<Longrightarrow> h_publisherSetTypeHash h \<noteq> []"
  by (auto simp: priceUpdateSigningHash_def ebind_eq_Inr encodeHeader_iff hexToFixed_eq_Inr hexToBytes_def isHex_def split: if_splits)

lemma step_implements:
  assumes "implements s A" "feeds_named op"
  shows "\<exists>s'. mirror_step C (Some s) op = Some s' \<and> implements s' (archive_step C A op)"
proof (cases op)
  case (StoreUpdate u blob r)
  show ?thesis
  proof (cases "priceUpdateSigningHash C (u_header u)")
    case (Inl e)
    then show ?thesis
      using assms(1) StoreUpdate by (simp add: mirror_step_def mirror_insert_def row_of_update_eq archive_step_def)
  next
    case (Inr h)
    have "named u"
      using assms(2) StoreUpdate hashed_named[OF Inr] by (simp add: named_def committee_tick_def)
    from implements_insert[OF assms(1) this, of "(h, blob, r)"] Inr StoreUpdate show ?thesis
      by (simp add: mirror_step_def mirror_insert_def row_of_update_eq archive_step_def split_beta)
  qed
next
  case (PruneBefore b)
  have "0 < MIRROR_PRUNE_BATCH" by (simp add: MIRROR_PRUNE_BATCH_def)
  from mirror_prune_eq[OF this implements_named[OF assms(1)], of b] PruneBefore implements_prune[OF assms(1), of b]
  show ?thesis by (auto simp: mirror_step_def archive_step_def mirror_prune_def)
qed

lemma run_implements:
  "list_all feeds_named ops \<Longrightarrow> \<exists>s. mirror_run C ops = Some s \<and> implements s (archive_run C ops)"
proof (induction ops rule: rev_induct)
  case Nil
  show ?case by (simp add: mirror_run_def archive_run_def implements_def new_mirror_def)
next
  case (snoc op ops)
  then obtain s where "mirror_run C ops = Some s" "implements s (archive_run C ops)" by auto
  with step_implements[of s "archive_run C ops" op C] snoc.prems show ?case
    by (simp add: mirror_run_def archive_run_def)
qed

section \<open>Evidence of equivocation\<close>

text \<open>The headers a run stored or refused, per committee and tick.\<close>

definition seen_headers :: "crypto \<Rightarrow> mirror_op list \<Rightarrow> (hex \<times> int) \<Rightarrow> hex set" where
  "seen_headers C ops k = {h. \<exists>u blob r. StoreUpdate u blob r \<in> set ops \<and> committee_tick u = k \<and>
    priceUpdateSigningHash C (u_header u) = Inr h}"

definition evidence :: "MirrorStore \<Rightarrow> (hex \<times> int) \<Rightarrow> hex set" where
  "evidence s k = {h. (fst k, snd k, h) \<in> evidence_key ` set (ms_equivocations s)}"

definition canonical :: "MirrorStore \<Rightarrow> (hex \<times> int) \<Rightarrow> hex option" where
  "canonical s k = map_option fst (mirror_row s k)"

definition pruned_at :: "mirror_op list \<Rightarrow> int \<Rightarrow> bool" where
  "pruned_at ops t \<longleftrightarrow> (\<exists>b. PruneBefore b \<in> set ops \<and> t < b)"

lemma insert_evidence: "evidence_key ` set (tbl_insert_ignore evidence_key r rows) = insert (evidence_key r) (evidence_key ` set rows)"
  by (auto simp: tbl_insert_ignore_def tbl_find_None)

lemma canonical_insert:
  "canonical (snd (insert_row s (update_row u (h, blob, r)) (u_entries u))) k =
    (if k = committee_tick u \<and> canonical s k = None then Some h else canonical s k)"
  using mirror_log.save_row[of s u "(h, blob, r)" k] by (auto simp: canonical_def mirror_save_def)

lemma evidence_insert:
  "evidence (snd (insert_row s (update_row u (h, blob, r)) (u_entries u))) k = evidence s k \<union>
    (if k = committee_tick u then (case canonical s k of None \<Rightarrow> {} | Some h' \<Rightarrow> if h' = h then {} else {h', h}) else {})"
proof (cases "tbl_find update_key (committee_tick u) (ms_updates s)")
  case None
  then show ?thesis by (auto simp: evidence_def insert_row_def canonical_def mirror_row_def)
next
  case (Some x)
  have key: "update_key x = committee_tick u" using tbl_find_Some[OF Some] by simp
  then have fs: "up_committee x = fst (committee_tick u)" "up_tickMs x = snd (committee_tick u)"
    by (metis fst_conv) (metis key snd_conv)
  then have ek: "evidence_key (evidence_of x) = (fst (committee_tick u), snd (committee_tick u), up_headerHash x)"
      "evidence_key (evidence_of (update_row u (h, blob, r))) = (fst (committee_tick u), snd (committee_tick u), h)"
    by (auto simp: evidence_of_def update_row_def)
  have h: "up_headerHash (update_row u (h, blob, r)) = h" by (simp add: update_row_def)
  show ?thesis
  proof (cases "up_headerHash x = h")
    case True
    with Some show ?thesis by (simp add: evidence_def insert_row_def canonical_def mirror_row_def h)
  next
    case False
    let ?s = "snd (insert_row s (update_row u (h, blob, r)) (u_entries u))"
    have "evidence_key ` set (ms_equivocations ?s) =
        {(fst (committee_tick u), snd (committee_tick u), h), (fst (committee_tick u), snd (committee_tick u), up_headerHash x)} \<union>
          evidence_key ` set (ms_equivocations s)"
      using False Some by (simp add: insert_row_def h Let_def insert_evidence ek)
    note eqs = this
    show ?thesis
    proof (cases "k = committee_tick u")
      case True
      with False Some eqs show ?thesis
        by (auto simp: evidence_def canonical_def mirror_row_def)
    next
      case other: False
      with eqs show ?thesis by (auto simp: evidence_def prod_eq_iff)
    qed
  qed
qed

lemma seen_snoc:
  "seen_headers C (ops @ [op]) k = seen_headers C ops k \<union> (case op of
      StoreUpdate u blob r \<Rightarrow> if committee_tick u = k then (case priceUpdateSigningHash C (u_header u) of Inl e \<Rightarrow> {} | Inr h \<Rightarrow> {h}) else {}
    | PruneBefore b \<Rightarrow> {})"
  by (cases op) (auto simp: seen_headers_def split: sum.splits)

text \<open>Evidence is never false; while the tick is not pruned it is complete.\<close>

definition evidence_sound :: "hex set \<Rightarrow> hex set \<Rightarrow> bool" where
  "evidence_sound E H \<longleftrightarrow> (\<forall>h \<in> E. h \<in> H \<and> (\<exists>h' \<in> H. h' \<noteq> h))"

definition evidence_complete :: "hex option \<Rightarrow> hex set \<Rightarrow> hex set \<Rightarrow> bool" where
  "evidence_complete c E H \<longleftrightarrow> (case c of None \<Rightarrow> H = {} | Some h \<Rightarrow> h \<in> H) \<and>
    (\<forall>h \<in> H. \<forall>h' \<in> H. h \<noteq> h' \<longrightarrow> h \<in> E)"

lemma evidence_step:
  fixes h :: hex and E H :: "hex set"
  assumes "evidence_sound E H" "set_option c \<subseteq> H" "P \<longrightarrow> evidence_complete c E H"
  defines "c' \<equiv> (if c = None then Some h else c)"
    and "E' \<equiv> E \<union> (case c of None \<Rightarrow> {} | Some h' \<Rightarrow> if h' = h then {} else {h', h})"
  shows "evidence_sound E' (insert h H) \<and> set_option c' \<subseteq> insert h H \<and> (P \<longrightarrow> evidence_complete c' E' (insert h H))"
proof (cases c)
  case None
  then show ?thesis
    using assms(1-3) by (auto simp: c'_def E'_def evidence_sound_def evidence_complete_def)
next
  case (Some a)
  have "evidence_sound E' (insert h H)"
    using assms(1,2) Some unfolding E'_def evidence_sound_def by (cases "a = h") auto
  moreover have "evidence_complete c' E' (insert h H)" if P
  proof (cases "a = h")
    case True
    then have "insert h H = H" "E' = E" "c' = c" using assms(2) Some by (auto simp: E'_def c'_def)
    with that assms(3) show ?thesis by simp
  next
    case False
    with that assms(2,3) Some show ?thesis
      unfolding E'_def c'_def evidence_complete_def by auto
  qed
  ultimately show ?thesis using assms(2) Some by (auto simp: c'_def)
qed

lemma run_evidence:
  assumes "list_all feeds_named ops" "mirror_run C ops = Some s"
  shows "evidence_sound (evidence s k) (seen_headers C ops k) \<and> set_option (canonical s k) \<subseteq> seen_headers C ops k \<and>
    (\<not> pruned_at ops (snd k) \<longrightarrow> evidence_complete (canonical s k) (evidence s k) (seen_headers C ops k))"
  using assms
proof (induction ops arbitrary: s rule: rev_induct)
  case Nil
  then have "s = new_mirror" by (simp add: mirror_run_def)
  then show ?case
    by (simp add: new_mirror_def evidence_sound_def evidence_complete_def evidence_def canonical_def
        mirror_row_def seen_headers_def)
next
  case (snoc op ops)
  from run_implements[of ops C] snoc.prems(1) obtain s0 where
    s0: "mirror_run C ops = Some s0" "implements s0 (archive_run C ops)" by auto
  note IH = snoc.IH[OF _ s0(1)]
  have s: "mirror_step C (Some s0) op = Some s" using snoc.prems(2) s0(1) by (simp add: mirror_run_def)
  show ?case
  proof (cases op)
    case (PruneBefore b)
    have "0 < MIRROR_PRUNE_BATCH" by (simp add: MIRROR_PRUNE_BATCH_def)
    from mirror_prune_eq[OF this implements_named[OF s0(2)], of b] s PruneBefore have "s = mirror_pruned s0 b"
      by (auto simp: mirror_step_def mirror_prune_def)
    then have "evidence s k = evidence s0 k" "canonical s k = (if snd k < b then None else canonical s0 k)"
      by (simp_all add: evidence_def canonical_def mirror_log.drop_row) (simp add: mirror_pruned_def)
    with IH snoc.prems(1) PruneBefore show ?thesis
      by (auto simp: seen_snoc pruned_at_def)
  next
    case (StoreUpdate u blob r)
    have pr: "pruned_at (ops @ [op]) t = pruned_at ops t" for t using StoreUpdate by (auto simp: pruned_at_def)
    show ?thesis
    proof (cases "priceUpdateSigningHash C (u_header u)")
      case (Inl e)
      with s StoreUpdate have "s = s0" by (simp add: mirror_step_def mirror_insert_def row_of_update_eq)
      with IH snoc.prems(1) Inl StoreUpdate pr show ?thesis by (simp add: seen_snoc)
    next
      case (Inr h)
      with s StoreUpdate have s': "s = snd (insert_row s0 (update_row u (h, blob, r)) (u_entries u))"
        by (simp add: mirror_step_def mirror_insert_def row_of_update_eq split_beta)
      show ?thesis
      proof (cases "k = committee_tick u")
        case True
        have seen: "seen_headers C (ops @ [op]) k = insert h (seen_headers C ops k)"
          using True Inr StoreUpdate by (simp add: seen_snoc)
        have IH': "evidence_sound (evidence s0 k) (seen_headers C ops k)" "set_option (canonical s0 k) \<subseteq> seen_headers C ops k"
            "\<not> pruned_at ops (snd k) \<longrightarrow> evidence_complete (canonical s0 k) (evidence s0 k) (seen_headers C ops k)"
          using IH snoc.prems(1) by simp_all
        show ?thesis
          using evidence_step[OF IH', of h]
          unfolding s' canonical_insert evidence_insert seen pr by (simp only: True simp_thms if_True) blast
      next
        case False
        then have "committee_tick u \<noteq> k" by simp
        with IH snoc.prems(1) False StoreUpdate
        show ?thesis unfolding s' canonical_insert evidence_insert pr by (simp add: seen_snoc)
      qed
    qed
  qed
qed

text \<open>The blobs on record, canonical or evidence, are those the run was given with these headers.\<close>

definition was_given :: "crypto \<Rightarrow> mirror_op list \<Rightarrow> (hex \<times> int) \<Rightarrow> hex \<Rightarrow> bytes \<Rightarrow> bool" where
  "was_given C ops k h blob \<longleftrightarrow> (\<exists>u r. StoreUpdate u blob r \<in> set ops \<and> committee_tick u = k \<and>
    priceUpdateSigningHash C (u_header u) = Inr h)"

definition blobs_given :: "crypto \<Rightarrow> mirror_op list \<Rightarrow> MirrorStore \<Rightarrow> bool" where
  "blobs_given C ops s \<longleftrightarrow> (\<forall>r \<in> set (ms_updates s). was_given C ops (update_key r) (up_headerHash r) (up_blob r)) \<and>
    (\<forall>r \<in> set (ms_equivocations s). was_given C ops (eq_committee r, eq_tickMs r) (eq_headerHash r) (eq_blob r))"

lemma given_snoc: "was_given C ops k h blob \<Longrightarrow> was_given C (ops @ [op]) k h blob"
  unfolding was_given_def set_append by blast

lemma blobs_given_snoc: "blobs_given C ops s \<Longrightarrow> blobs_given C (ops @ [op]) s"
  unfolding blobs_given_def using given_snoc by blast

lemma blobs_given_insert:
  assumes "blobs_given C ops s" "was_given C ops (update_key row) (up_headerHash row) (up_blob row)"
  shows "blobs_given C ops (snd (insert_row s row ents))"
proof (cases "tbl_find update_key (update_key row) (ms_updates s)")
  case None
  with assms show ?thesis by (simp add: insert_row_def blobs_given_def)
next
  case (Some x)
  have "x \<in> set (ms_updates s)" using tbl_find_Some[OF Some] by simp
  with assms(1) have "was_given C ops (update_key x) (up_headerHash x) (up_blob x)" by (simp add: blobs_given_def)
  moreover have "set (tbl_insert_ignore evidence_key r rows) \<subseteq> insert r (set rows)" for r rows
    by (auto simp: tbl_insert_ignore_def)
  then have "set (tbl_insert_ignore evidence_key (evidence_of row) (tbl_insert_ignore evidence_key (evidence_of x) (ms_equivocations s)))
      \<subseteq> insert (evidence_of row) (insert (evidence_of x) (set (ms_equivocations s)))"
    by (meson insert_mono order_trans)
  ultimately show ?thesis
    using assms Some by (auto simp: insert_row_def blobs_given_def Let_def evidence_of_def dest!: subsetD)
qed

lemma run_blobs:
  assumes "list_all feeds_named ops" "mirror_run C ops = Some s"
  shows "blobs_given C ops s"
  using assms
proof (induction ops arbitrary: s rule: rev_induct)
  case Nil
  then have "s = new_mirror" by (simp add: mirror_run_def)
  then show ?case by (simp add: blobs_given_def new_mirror_def)
next
  case (snoc op ops)
  from run_implements[of ops C] snoc.prems(1) obtain s0 where
    s0: "mirror_run C ops = Some s0" "implements s0 (archive_run C ops)" by auto
  have IH: "blobs_given C (ops @ [op]) s0" using snoc.IH[OF _ s0(1)] snoc.prems(1) by (simp add: blobs_given_snoc)
  have s: "mirror_step C (Some s0) op = Some s" using snoc.prems(2) s0(1) by (simp add: mirror_run_def)
  show ?case
  proof (cases op)
    case (PruneBefore b)
    have "0 < MIRROR_PRUNE_BATCH" by (simp add: MIRROR_PRUNE_BATCH_def)
    from mirror_prune_eq[OF this implements_named[OF s0(2)], of b] s PruneBefore have "s = mirror_pruned s0 b"
      by (auto simp: mirror_step_def mirror_prune_def)
    with IH show ?thesis by (simp add: blobs_given_def mirror_pruned_def)
  next
    case (StoreUpdate u blob r)
    show ?thesis
    proof (cases "priceUpdateSigningHash C (u_header u)")
      case (Inl e)
      with s StoreUpdate have "s = s0" by (simp add: mirror_step_def mirror_insert_def row_of_update_eq)
      with IH show ?thesis by simp
    next
      case (Inr h)
      with s StoreUpdate have "s = snd (insert_row s0 (update_row u (h, blob, r)) (u_entries u))"
        by (simp add: mirror_step_def mirror_insert_def row_of_update_eq split_beta)
      moreover have "was_given C (ops @ [op]) (committee_tick u) h blob"
        using Inr StoreUpdate by (auto simp: was_given_def)
      ultimately show ?thesis
        using blobs_given_insert[OF IH, of "update_row u (h, blob, r)" "u_entries u"]
        by (simp add: update_row_def)
    qed
  qed
qed

section \<open>Properties\<close>

text \<open>Claim C11: the mirror's store refines an archive: a list with the first update stored for each committee
  and tick, from which pruning drops what is old. Storing and pruning always return; the newest
  update of a feed, the first one at or after a tick and a range of ticks are the archive's, whatever
  the committee asked for; a range is in the order of the ticks, and with a limit it is as many of its
  first updates.\<close>

theorem mirror_refines_archive:
  assumes "list_all feeds_named ops"
  shows "\<exists>s. mirror_run C ops = Some s \<and>
    newest_answer (archive_feed (archive_run C ops) f c (\<lambda>t. True)) (latest s f c) \<and>
    oldest_answer (archive_feed (archive_run C ops) f c (\<lambda>t. from_t \<le> t)) (atOrAfter s f from_t c) \<and>
    sorted (map su_tickMs (range_of s f from_t to_t limit c)) \<and>
    mset (range_of s f from_t to_t (int (length (archive_run C ops))) c) =
      mset (map answer (archive_feed (archive_run C ops) f c (\<lambda>t. from_t \<le> t \<and> t \<le> to_t))) \<and>
    mset (range_of s f from_t to_t (- 1) c) =
      mset (map answer (archive_feed (archive_run C ops) f c (\<lambda>t. from_t \<le> t \<and> t \<le> to_t))) \<and>
    range_of s f from_t to_t limit c = sql_limit limit (range_of s f from_t to_t (- 1) c)"
proof -
  obtain s where "mirror_run C ops = Some s" and i: "implements s (archive_run C ops)"
    using run_implements[OF assms] by blast
  then show ?thesis
    by (intro exI[of _ s] conjI latest_newest[OF i] at_or_after_oldest[OF i] range_sorted range_limit range_all[OF i]) simp_all
qed

definition demo_stored :: "hex \<Rightarrow> mirror_op" where
  "demo_stored root = StoreUpdate \<lparr>u_header = demo_header\<lparr>h_merkleRoot := root\<rparr>, u_signatures = [],
    u_entries = [\<lparr>e_message = demo_message 1, e_proof = []\<rparr>]\<rparr> [1, 2] 5"

lemma demo_header_hashed: "\<exists>h. priceUpdateSigningHash demo_crypto demo_header = Inr h"
proof -
  have "\<exists>e. encodePriceUpdateHeader demo_header = Inr e" by (simp add: encodeHeader_iff demo_header_def int_ranges)
  then show ?thesis by (auto simp: priceUpdateSigningHash_def)
qed

lemma demo_stored_named [simp]: "feeds_named (demo_stored root)"
  by (simp add: demo_stored_def demo_message_def bytesToHex_def)

theorem mirror_refines_archive_witness:
  "\<exists>s x. mirror_run demo_crypto [demo_stored (h_merkleRoot demo_header), PruneBefore 3] = Some s \<and>
    range_of s (m_feedId (demo_message 1)) 0 (h_publishTimeMs demo_header) 1 (Some []) = [x] \<and> su_blob x = [1, 2]"
proof -
  let ?ops = "[demo_stored (h_merkleRoot demo_header), PruneBefore 3]"
  obtain h where h: "priceUpdateSigningHash demo_crypto demo_header = Inr h" using demo_header_hashed by blast
  have late: "3 \<le> h_publishTimeMs demo_header" by (simp add: demo_header_def)
  have a: "archive_feed (archive_run demo_crypto ?ops) (m_feedId (demo_message 1)) (Some [])
      (\<lambda>t. 0 \<le> t \<and> t \<le> h_publishTimeMs demo_header) =
    [(\<lparr>u_header = demo_header, u_signatures = [], u_entries = [\<lparr>e_message = demo_message 1, e_proof = []\<rparr>]\<rparr>, h, [1, 2], 5)]"
    using h late by (simp add: archive_run_def archive_step_def demo_stored_def archive_insert_def archive_prune_def
        archive_feed_def asked_committee_def has_feed_def committee_tick_def)
  obtain s where s: "mirror_run demo_crypto ?ops = Some s"
      "mset (range_of s (m_feedId (demo_message 1)) 0 (h_publishTimeMs demo_header) (- 1) (Some [])) = mset (map answer
        (archive_feed (archive_run demo_crypto ?ops) (m_feedId (demo_message 1)) (Some []) (\<lambda>t. 0 \<le> t \<and> t \<le> h_publishTimeMs demo_header)))"
      "range_of s (m_feedId (demo_message 1)) 0 (h_publishTimeMs demo_header) 1 (Some []) =
        sql_limit 1 (range_of s (m_feedId (demo_message 1)) 0 (h_publishTimeMs demo_header) (- 1) (Some []))"
    using mirror_refines_archive[of ?ops demo_crypto "m_feedId (demo_message 1)" "Some []" 0 "h_publishTimeMs demo_header" 1] by auto
  then show ?thesis unfolding a by (auto simp: sql_limit_def answer_def)
qed

text \<open>Claim C12: evidence of equivocation. A header is on record as evidence only if another valid header was stored
  for its committee and tick, and while that tick is not pruned every such header is, the first one
  included, each with a blob that was stored for it.\<close>

theorem equivocation_evidence:
  assumes "list_all feeds_named ops" "mirror_run C ops = Some s"
  shows "evidence s k \<subseteq> {h \<in> seen_headers C ops k. seen_headers C ops k - {h} \<noteq> {}} \<and>
    (pruned_at ops (snd k) \<or> evidence s k = {h \<in> seen_headers C ops k. seen_headers C ops k - {h} \<noteq> {}}) \<and>
    blobs_given C ops s"
  using run_evidence[OF assms, of k] run_blobs[OF assms]
  by (auto simp: evidence_sound_def evidence_complete_def)

theorem equivocation_evidence_witness:
  "\<exists>s. mirror_run demo_crypto [demo_stored (h_merkleRoot demo_header), demo_stored (bytesToHex (replicate 32 7))] = Some s \<and>
    blobs_given demo_crypto [demo_stored (h_merkleRoot demo_header), demo_stored (bytesToHex (replicate 32 7))] s"
proof -
  let ?ops = "[demo_stored (h_merkleRoot demo_header), demo_stored (bytesToHex (replicate 32 7))]"
  obtain s where s: "mirror_run demo_crypto ?ops = Some s" using run_implements[of ?ops demo_crypto] by auto
  have "list_all feeds_named ?ops" by simp
  from equivocation_evidence[OF this s] s show ?thesis by blast
qed

end
