(* ===== verification/Mirror_Committee.thy ===== *)
theory Mirror_Committee
  imports Verify "HOL-Library.AList"
begin

text \<open>
  \<open>apps/mirror/src/committee.ts\<close> and \<open>chain.ts\<close>: the publisher sets a mirror knows over time and the
  verification of a finalized update against them. \<open>Number\<close> of a 64-bit time is the integer itself (times
  are below 2^53). Lemmas: what \<open>verify\<close> accepts; a retirement bound never moves up; along a history of the
  committee cell, what a mirror accepts from the current or previous set, a client with the cell's data
  accepts too.
\<close>

section \<open>State\<close>

record KnownSet =
  kn_set :: PublisherSet
  kn_retiredAtMs :: "int option"

record MirrorCommittee =
  mc_typeHash :: hex
  mc_sets :: "(int \<times> KnownSet) list"
  mc_currentIndex :: "int option"
  mc_paused :: bool

definition new_committee :: "hex \<Rightarrow> MirrorCommittee" where
  "new_committee publisherSetTypeHash =
    \<lparr>mc_typeHash = toLowerCase publisherSetTypeHash, mc_sets = [], mc_currentIndex = None, mc_paused = False\<rparr>"

section \<open>Reading the committee cell\<close>

text \<open>\<open>fetchCommitteeData\<close>: the \<open>output_data\<close> of the live cells, none if the node answered with an error.\<close>

definition fetchCommitteeData :: "hex list option \<Rightarrow> PublisherSetData result" where
  "fetchCommitteeData cells = (case cells of
      None \<Rightarrow> Inl (Failure ''get_cells failed'')
    | Some objects \<Rightarrow>
        if length objects \<noteq> 1 then Inl (Failure ''expected one committee cell'')
        else decodePublisherSetData (HexStr (objects ! 0)))"

section \<open>Observing\<close>

text \<open>One iteration of the loop over the known sets.\<close>

definition retire :: "int \<Rightarrow> PublisherSetData \<Rightarrow> int \<Rightarrow> KnownSet \<Rightarrow> KnownSet" where
  "retire now data i known =
    (let index = setIndex (currentSet data) in
     if i = index then known
     else
       let bound =
         (if i = index - 1 then
            (case previousOf data of
              None \<Rightarrow> 0
            | Some p \<Rightarrow> if setIndex (previousSet p) = i then untilMs p else 0)
          else (case kn_retiredAtMs known of None \<Rightarrow> now | Some b \<Rightarrow> b))
       in if (case kn_retiredAtMs known of None \<Rightarrow> True | Some b \<Rightarrow> bound < b)
          then known\<lparr>kn_retiredAtMs := Some bound\<rparr> else known)"

definition observe_committee :: "int \<Rightarrow> PublisherSetData \<Rightarrow> MirrorCommittee \<Rightarrow> MirrorCommittee" where
  "observe_committee now data mc =
    (let index = setIndex (currentSet data) in
     if (case mc_currentIndex mc of None \<Rightarrow> False | Some c \<Rightarrow> index < c) then mc
     else
       let changed = (mc_currentIndex mc \<noteq> Some index);
           paused = (js_and (governanceFlags data) GOVERNANCE_PAUSED \<noteq> 0);
           retired = map (\<lambda>(i, known). (i, retire now data i known)) (mc_sets mc);
           learned = (case previousOf data of
               None \<Rightarrow> retired
             | Some p \<Rightarrow>
                 if map_of retired (setIndex (previousSet p)) = None
                 then AList.update (setIndex (previousSet p)) \<lparr>kn_set = previousSet p, kn_retiredAtMs = Some (untilMs p)\<rparr> retired
                 else retired)
       in if changed
          then mc\<lparr>mc_paused := paused, mc_currentIndex := Some index,
                  mc_sets := AList.update index \<lparr>kn_set = currentSet data, kn_retiredAtMs = None\<rparr> learned\<rparr>
          else mc\<lparr>mc_paused := paused, mc_sets := learned\<rparr>)"

definition committee_ready :: "MirrorCommittee \<Rightarrow> bool" where
  "committee_ready mc \<longleftrightarrow> mc_currentIndex mc \<noteq> None"

text \<open>\<open>refresh\<close>: a read that throws changes nothing.\<close>

definition refresh_committee :: "int \<Rightarrow> PublisherSetData result \<Rightarrow> MirrorCommittee \<Rightarrow> MirrorCommittee result" where
  "refresh_committee now source mc = ebind source (\<lambda>data. Inr (observe_committee now data mc))"

section \<open>Verifying\<close>

definition mirror_verify :: "crypto \<Rightarrow> MirrorCommittee \<Rightarrow> bytes_like \<Rightarrow> PriceUpdate result" where
  "mirror_verify C mc blob =
    ebind (decodePriceUpdate blob) (\<lambda>update.
    let header = u_header update in
    if toLowerCase (h_publisherSetTypeHash header) \<noteq> mc_typeHash mc then Inl (Failure ''another committee'')
    else if mc_paused mc then Inl (Failure ''committee is paused'')
    else case map_of (mc_sets mc) (h_setIndex header) of
      None \<Rightarrow> Inl (Failure ''unknown set index'')
    | Some known \<Rightarrow>
        if (case kn_retiredAtMs known of None \<Rightarrow> False | Some b \<Rightarrow> b \<le> h_publishTimeMs header)
        then Inl (Failure ''signed by a retired set after its retirement'')
        else if int (length (u_entries update)) \<noteq> h_leafCount header then Inl (Failure ''not a complete update'')
        else if length (remdups (map (\<lambda>en. toLowerCase (m_feedId (e_message en))) (u_entries update))) \<noteq> length (u_entries update)
        then Inl (Failure ''duplicate feed'')
        else
          ebind (efold (\<lambda>_ entry.
              ebind (encodePriceMessage (e_message entry)) (\<lambda>m.
              ebind (leafHash C (Raw m)) (\<lambda>leaf.
              ebind (verifyProof C (HexStr (h_merkleRoot header)) (HexStr leaf) (map HexStr (e_proof entry))) (\<lambda>proven.
              ensure proven (Failure ''bad proof''))))) () (u_entries update)) (\<lambda>_.
          ebind (priceUpdateSigningHash C header) (\<lambda>digest.
          ebind (verifyThreshold C (u_signatures update) (HexStr digest) (kn_set known)) (\<lambda>signed.
          if \<not> signed then Inl (Failure ''no quorum'') else Inr update))))"

section \<open>What is accepted\<close>

definition entry_proven :: "crypto \<Rightarrow> hex \<Rightarrow> UpdateEntry \<Rightarrow> bool" where
  "entry_proven C root en \<longleftrightarrow> (\<exists>m leaf. encodePriceMessage (e_message en) = Inr m \<and> leafHash C (Raw m) = Inr leaf \<and>
    verifyProof C (HexStr root) (HexStr leaf) (map HexStr (e_proof en)) = Inr True)"

definition may_sign :: "MirrorCommittee \<Rightarrow> int \<Rightarrow> int \<Rightarrow> PublisherSet option" where
  "may_sign mc i t = (case map_of (mc_sets mc) i of
      None \<Rightarrow> None
    | Some known \<Rightarrow> (case kn_retiredAtMs known of
        None \<Rightarrow> Some (kn_set known)
      | Some b \<Rightarrow> if t < b then Some (kn_set known) else None))"

lemma efold_unit: "efold (\<lambda>_ x. f x) () xs = Inr u \<longleftrightarrow> (\<forall>x \<in> set xs. f x = Inr ())"
  by (induction xs) (auto simp: ebind_eq_Inr)

lemma remdups_length: "length (remdups (map f xs)) = length xs \<longleftrightarrow> distinct (map f xs)"
  by (metis card_distinct distinct_card length_map length_remdups_card_conv)

lemma mirror_verify_iff:
  "mirror_verify C mc blob = Inr u \<longleftrightarrow>
    decodePriceUpdate blob = Inr u \<and>
    toLowerCase (h_publisherSetTypeHash (u_header u)) = mc_typeHash mc \<and> \<not> mc_paused mc \<and>
    int (length (u_entries u)) = h_leafCount (u_header u) \<and>
    distinct (map (\<lambda>en. toLowerCase (m_feedId (e_message en))) (u_entries u)) \<and>
    (\<forall>en \<in> set (u_entries u). entry_proven C (h_merkleRoot (u_header u)) en) \<and>
    (\<exists>s digest. may_sign mc (h_setIndex (u_header u)) (h_publishTimeMs (u_header u)) = Some s \<and>
      priceUpdateSigningHash C (u_header u) = Inr digest \<and>
      verifyThreshold C (u_signatures u) (HexStr digest) s = Inr True)"
proof (cases "decodePriceUpdate blob")
  case (Inr w)
  have entries: "efold (\<lambda>_ entry.
      ebind (encodePriceMessage (e_message entry)) (\<lambda>m.
      ebind (leafHash C (Raw m)) (\<lambda>leaf.
      ebind (verifyProof C (HexStr root) (HexStr leaf) (map HexStr (e_proof entry))) (\<lambda>proven.
      ensure proven (Failure ''bad proof''))))) () es = Inr x \<longleftrightarrow> (\<forall>en \<in> set es. entry_proven C root en)" for es root x
    unfolding efold_unit entry_proven_def by (auto simp: ebind_eq_Inr ex_bool_eq)
  show ?thesis
    unfolding mirror_verify_def may_sign_def Let_def remdups_length Inr ebind_simps
    by (auto simp: ebind_eq_Inr entries ex_bool_eq split: option.splits if_splits)
qed (simp add: mirror_verify_def)

section \<open>Retirement\<close>

text \<open>Every known set is the current one or older than it; the current one is not retired.\<close>

definition sets_known :: "MirrorCommittee \<Rightarrow> bool" where
  "sets_known mc \<longleftrightarrow> (case mc_currentIndex mc of
      None \<Rightarrow> mc_sets mc = []
    | Some c \<Rightarrow> (\<exists>s. map_of (mc_sets mc) c = Some \<lparr>kn_set = s, kn_retiredAtMs = None\<rparr>) \<and>
        (\<forall>i k. map_of (mc_sets mc) i = Some k \<longrightarrow> i \<le> c \<and> (i < c \<longrightarrow> kn_retiredAtMs k \<noteq> None)))"

definition valid_data :: "PublisherSetData \<Rightarrow> bool" where
  "valid_data d \<longleftrightarrow> isValidPublisherSetData d = Inr True"

lemma valid_previous: "valid_data d \<Longrightarrow> previousOf d = Some p \<Longrightarrow> setIndex (previousSet p) = setIndex (currentSet d) - 1"
  by (auto simp: valid_data_def isValidPublisherSetData_def ebind_eq_Inr split: if_splits option.splits)

lemma map_of_retire: "map_of (map (\<lambda>(i, k). (i, f i k)) xs) i = map_option (f i) (map_of xs i)"
  by (induction xs) auto

text \<open>The known sets after an observation that is not stale.\<close>

lemma observed_sets:
  assumes "\<not> (case mc_currentIndex mc of None \<Rightarrow> False | Some c \<Rightarrow> setIndex (currentSet d) < c)" "valid_data d"
  shows "map_of (mc_sets (observe_committee now d mc)) i =
    (if i = setIndex (currentSet d) \<and> mc_currentIndex mc \<noteq> Some i then Some \<lparr>kn_set = currentSet d, kn_retiredAtMs = None\<rparr>
     else case map_of (mc_sets mc) i of
        Some k \<Rightarrow> Some (retire now d i k)
      | None \<Rightarrow> (case previousOf d of
          Some p \<Rightarrow> if setIndex (previousSet p) = i then Some \<lparr>kn_set = previousSet p, kn_retiredAtMs = Some (untilMs p)\<rparr> else None
        | None \<Rightarrow> None))"
proof -
  have "map_of (AList.update j x xs) i = (if i = j then Some x else map_of xs i)" for j :: int and x and xs :: "(int \<times> KnownSet) list"
    by (simp add: update_conv')
  with assms show ?thesis
    using valid_previous[OF assms(2)]
    by (auto simp: observe_committee_def Let_def map_of_retire split: option.splits)
qed

lemma observe_index:
  "\<not> (case mc_currentIndex mc of None \<Rightarrow> False | Some c \<Rightarrow> setIndex (currentSet d) < c) \<Longrightarrow>
    mc_currentIndex (observe_committee now d mc) = Some (setIndex (currentSet d)) \<and>
    mc_paused (observe_committee now d mc) = isPaused d \<and> mc_typeHash (observe_committee now d mc) = mc_typeHash mc"
  by (auto simp: observe_committee_def Let_def isPaused_def)

lemma retire_set [simp]: "kn_set (retire now d i k) = kn_set k"
  by (simp add: retire_def Let_def)

lemma retire_current [simp]: "retire now d (setIndex (currentSet d)) k = k"
  by (simp add: retire_def)

lemma retire_bound: "i \<noteq> setIndex (currentSet d) \<Longrightarrow> \<exists>b. kn_retiredAtMs (retire now d i k) = Some b"
  by (cases "kn_retiredAtMs k") (auto simp: retire_def Let_def)

lemma retire_earlier: "kn_retiredAtMs k = Some b \<Longrightarrow> \<exists>b' \<le> b. kn_retiredAtMs (retire now d i k) = Some b'"
  by (auto simp: retire_def Let_def)

lemma retire_previous:
  assumes "i = setIndex (currentSet d) - 1"
  shows "\<exists>b. kn_retiredAtMs (retire now d i k) = Some b \<and>
    b \<le> (case previousOf d of None \<Rightarrow> 0 | Some p \<Rightarrow> if setIndex (previousSet p) = i then untilMs p else 0)"
  using assms by (cases "kn_retiredAtMs k") (auto simp: retire_def Let_def split: option.splits)

lemma known_observe:
  assumes "sets_known mc" "valid_data d"
  shows "sets_known (observe_committee now d mc)"
proof (cases "case mc_currentIndex mc of None \<Rightarrow> False | Some c \<Rightarrow> setIndex (currentSet d) < c")
  case True
  then show ?thesis using assms(1) by (simp add: observe_committee_def Let_def)
next
  case False
  note obs = observed_sets[OF False assms(2), of now] observe_index[OF False, of now]
  let ?c = "setIndex (currentSet d)"
  have "map_of (mc_sets mc) ?c = Some k \<Longrightarrow> mc_currentIndex mc = Some ?c" for k
    using assms(1) False by (auto simp: sets_known_def split: option.splits) force
  then have "\<exists>s. map_of (mc_sets (observe_committee now d mc)) ?c = Some \<lparr>kn_set = s, kn_retiredAtMs = None\<rparr>"
    unfolding obs(1) using assms(1) by (cases "mc_currentIndex mc = Some ?c") (auto simp: sets_known_def)
  moreover have "i \<le> ?c \<and> (i < ?c \<longrightarrow> kn_retiredAtMs k \<noteq> None)"
    if k: "map_of (mc_sets (observe_committee now d mc)) i = Some k" for i k
  proof (cases "map_of (mc_sets mc) i")
    case None
    with k valid_previous[OF assms(2)] show ?thesis
      unfolding obs(1) by (auto split: if_splits option.splits)
  next
    case (Some k0)
    with assms(1) False have "i \<le> ?c" by (auto simp: sets_known_def split: option.splits) force
    with k Some retire_bound[of i d now k0] show ?thesis
      unfolding obs(1) by (auto split: if_splits)
  qed
  ultimately show ?thesis using obs(2) by (simp add: sets_known_def)
qed

lemma observe_earlier:
  assumes "sets_known mc" "valid_data d" "map_of (mc_sets mc) i = Some k" "kn_retiredAtMs k = Some b"
  shows "\<exists>k' b'. map_of (mc_sets (observe_committee now d mc)) i = Some k' \<and> kn_set k' = kn_set k \<and>
    kn_retiredAtMs k' = Some b' \<and> b' \<le> b"
proof (cases "case mc_currentIndex mc of None \<Rightarrow> False | Some c \<Rightarrow> setIndex (currentSet d) < c")
  case True
  then show ?thesis using assms by (simp add: observe_committee_def Let_def)
next
  case False
  have "i \<noteq> setIndex (currentSet d)"
    using assms(1,3,4) False by (auto simp: sets_known_def split: option.splits) force+
  with observed_sets[OF False assms(2), of now i] assms(3) retire_earlier[OF assms(4), of now d i]
  show ?thesis by auto
qed

definition observe_all :: "(int \<times> PublisherSetData) list \<Rightarrow> MirrorCommittee \<Rightarrow> MirrorCommittee" where
  "observe_all ds mc = foldl (\<lambda>mc (now, d). observe_committee now d mc) mc ds"

lemma known_new [simp]: "sets_known (new_committee h)"
  by (simp add: sets_known_def new_committee_def)

lemma known_observe_all: "sets_known mc \<Longrightarrow> list_all (valid_data \<circ> snd) ds \<Longrightarrow> sets_known (observe_all ds mc)"
  by (induction ds arbitrary: mc) (auto simp: observe_all_def known_observe)

lemma observe_all_earlier:
  assumes "sets_known mc" "list_all (valid_data \<circ> snd) ds" "map_of (mc_sets mc) i = Some k" "kn_retiredAtMs k = Some b"
  shows "\<exists>k' b'. map_of (mc_sets (observe_all ds mc)) i = Some k' \<and> kn_set k' = kn_set k \<and>
    kn_retiredAtMs k' = Some b' \<and> b' \<le> b"
  using assms
proof (induction ds arbitrary: mc k b)
  case Nil
  then show ?case by (simp add: observe_all_def)
next
  case (Cons x ds)
  obtain now d where x: "x = (now, d)" by (cases x)
  with Cons.prems(2) have d: "valid_data d" by simp
  from observe_earlier[OF Cons.prems(1) d Cons.prems(3,4), of now] obtain k' b' where
    k': "map_of (mc_sets (observe_committee now d mc)) i = Some k'" "kn_set k' = kn_set k" "kn_retiredAtMs k' = Some b'" "b' \<le> b"
    by blast
  from Cons.IH[OF known_observe[OF Cons.prems(1) d] _ k'(1,3)] Cons.prems(2) k'(2,4) show ?case
    by (force simp: observe_all_def x)
qed

section \<open>Following the committee cell\<close>

text \<open>The mirror reads valid states of the cell along a history of governance transitions; it may miss some.\<close>

inductive follows :: "hex \<Rightarrow> PublisherSetData \<Rightarrow> MirrorCommittee \<Rightarrow> bool" where
  first_read: "valid_data d \<Longrightarrow> follows committee d (observe_committee now d (new_committee committee))"
| next_read: "follows committee d mc \<Longrightarrow> history d n d' \<Longrightarrow> follows committee d' (observe_committee now d' mc)"

definition mirrors_data :: "hex \<Rightarrow> PublisherSetData \<Rightarrow> MirrorCommittee \<Rightarrow> bool" where
  "mirrors_data committee d mc \<longleftrightarrow>
    valid_data d \<and> mc_typeHash mc = toLowerCase committee \<and> mc_paused mc = isPaused d \<and>
    mc_currentIndex mc = Some (setIndex (currentSet d)) \<and>
    map_of (mc_sets mc) (setIndex (currentSet d)) = Some \<lparr>kn_set = currentSet d, kn_retiredAtMs = None\<rparr> \<and>
    (\<forall>i k. map_of (mc_sets mc) i = Some k \<longrightarrow> i \<le> setIndex (currentSet d)) \<and>
    (\<forall>k. map_of (mc_sets mc) (setIndex (currentSet d) - 1) = Some k \<longrightarrow> (\<exists>b. kn_retiredAtMs k = Some b \<and>
      (case previousOf d of None \<Rightarrow> b \<le> 0 | Some p \<Rightarrow> kn_set k = previousSet p \<and> b \<le> untilMs p)))"

lemma mirrors_first:
  assumes "valid_data d"
  shows "mirrors_data committee d (observe_committee now d (new_committee committee))"
proof -
  have n: "\<not> (case mc_currentIndex (new_committee committee) of None \<Rightarrow> False | Some c \<Rightarrow> setIndex (currentSet d) < c)"
    by (simp add: new_committee_def)
  show ?thesis
    using observed_sets[OF n assms, of now] observe_index[OF n, of now] valid_previous[OF assms] assms
    by (auto simp: mirrors_data_def new_committee_def split: option.splits if_splits)
qed

lemma previous_kept:
  assumes "history d n d'" "setIndex (currentSet d') = setIndex (currentSet d)" "previousOf d' = Some p'"
  shows "\<exists>p. previousOf d = Some p \<and> previousSet p = previousSet p'"
proof -
  have v: "valid_data d" "valid_data d'" using history_valid_start[OF assms(1)] history_valid[OF assms(1)] by (auto simp: valid_data_def)
  have "setIndex (previousSet p') = setIndex (currentSet d) - 1" using valid_previous[OF v(2) assms(3)] assms(2) by simp
  moreover from this have "trusted_set d' (setIndex (currentSet d) - 1) = Some (previousSet p')"
    using assms(2,3) by (simp add: trusted_set_def)
  then have "trusted_set d (setIndex (currentSet d) - 1) = Some (previousSet p')"
    by (rule history_trusted[OF assms(1), rotated]) simp
  ultimately show ?thesis by (auto simp: trusted_set_def split: option.splits if_splits)
qed

lemma current_becomes_previous:
  assumes "history d n d'" "setIndex (currentSet d') = setIndex (currentSet d) + 1" "previousOf d' = Some p'"
  shows "previousSet p' = currentSet d"
proof -
  have "valid_data d'" using history_valid[OF assms(1)] by (simp add: valid_data_def)
  from valid_previous[OF this assms(3)] have "trusted_set d' (setIndex (currentSet d)) = Some (previousSet p')"
    using assms(2,3) by (simp add: trusted_set_def)
  from history_trusted[OF assms(1) order_refl this] show ?thesis by (simp add: trusted_set_def)
qed

lemma current_kept:
  assumes "history d n d'" "setIndex (currentSet d') = setIndex (currentSet d)"
  shows "currentSet d' = currentSet d"
proof -
  have "trusted_set d' (setIndex (currentSet d)) = Some (currentSet d')" using assms(2) by (simp add: trusted_set_def)
  from history_trusted[OF assms(1) order_refl this] show ?thesis by (simp add: trusted_set_def)
qed

lemma mirrors_next:
  assumes m: "mirrors_data committee d mc" and h: "history d n d'"
  shows "mirrors_data committee d' (observe_committee now d' mc)"
proof -
  have v: "valid_data d'" using history_valid[OF h] by (simp add: valid_data_def)
  have ix: "setIndex (currentSet d) \<le> setIndex (currentSet d')" using history_index[OF h] by simp
  then have n: "\<not> (case mc_currentIndex mc of None \<Rightarrow> False | Some c \<Rightarrow> setIndex (currentSet d') < c)"
    using m by (simp add: mirrors_data_def)
  note obs = observed_sets[OF n v, of now] observe_index[OF n, of now]
  let ?c = "setIndex (currentSet d)" and ?c' = "setIndex (currentSet d')"
  have old: "i \<le> ?c" if "map_of (mc_sets mc) i = Some k" for i k using m that by (auto simp: mirrors_data_def)
  have cur: "map_of (mc_sets mc) ?c = Some \<lparr>kn_set = currentSet d, kn_retiredAtMs = None\<rparr>" "mc_currentIndex mc = Some ?c"
    using m by (auto simp: mirrors_data_def)
  have "map_of (mc_sets (observe_committee now d' mc)) ?c' = Some \<lparr>kn_set = currentSet d', kn_retiredAtMs = None\<rparr>"
    unfolding obs(1) using cur current_kept[OF h] by (cases "?c' = ?c") (auto simp: retire_def)
  moreover have "i \<le> ?c'" if "map_of (mc_sets (observe_committee now d' mc)) i = Some k" for i k
    using that old[of i] ix valid_previous[OF v] unfolding obs(1) by (auto split: if_splits option.splits)
  moreover have "\<exists>b. kn_retiredAtMs k = Some b \<and>
      (case previousOf d' of None \<Rightarrow> b \<le> 0 | Some p \<Rightarrow> kn_set k = previousSet p \<and> b \<le> untilMs p)"
    if k: "map_of (mc_sets (observe_committee now d' mc)) (?c' - 1) = Some k" for k
  proof (cases "map_of (mc_sets mc) (?c' - 1)")
    case None
    with k show ?thesis unfolding obs(1) by (auto split: if_splits option.splits)
  next
    case (Some k0)
    from old[OF Some] ix consider "?c' = ?c" | "?c' = ?c + 1" by force
    then have "kn_set k0 = previousSet p'" if "previousOf d' = Some p'" for p'
    proof cases
      case 1
      with previous_kept[OF h 1 that] m Some show ?thesis by (auto simp: mirrors_data_def)
    next
      case 2
      with current_becomes_previous[OF h 2 that] cur Some show ?thesis by auto
    qed
    moreover have "k = retire now d' (?c' - 1) k0" using k Some unfolding obs(1) by (auto split: if_splits)
    moreover obtain b where "kn_retiredAtMs (retire now d' (?c' - 1) k0) = Some b"
        "b \<le> (case previousOf d' of None \<Rightarrow> 0 | Some p \<Rightarrow> if setIndex (previousSet p) = ?c' - 1 then untilMs p else 0)"
      using retire_previous[of "?c' - 1" d' now k0] by blast
    ultimately show ?thesis using valid_previous[OF v] by (auto split: option.splits)
  qed
  ultimately show ?thesis
    using m v obs(2) by (simp add: mirrors_data_def)
qed

lemma follows_mirrors: "follows committee d mc \<Longrightarrow> mirrors_data committee d mc"
  by (induction rule: follows.induct) (auto intro: mirrors_first mirrors_next)

lemma may_sign_setFor:
  assumes "mirrors_data committee d mc" "may_sign mc i t = Some s" "setIndex (currentSet d) - 1 \<le> i" "0 \<le> t"
  shows "setFor d i t = Some s"
proof -
  from assms(2) obtain k where k: "map_of (mc_sets mc) i = Some k" "s = kn_set k"
      "\<And>b. kn_retiredAtMs k = Some b \<Longrightarrow> t < b"
    by (auto simp: may_sign_def split: option.splits if_splits)
  with assms(1,3) consider "i = setIndex (currentSet d)" | "i = setIndex (currentSet d) - 1"
    by (force simp: mirrors_data_def)
  then show ?thesis
  proof cases
    case 1
    with k assms(1) show ?thesis by (simp add: mirrors_data_def setFor_def)
  next
    case 2
    with k(1) assms(1) obtain b where b: "kn_retiredAtMs k = Some b"
        "case previousOf d of None \<Rightarrow> b \<le> 0 | Some p \<Rightarrow> kn_set k = previousSet p \<and> b \<le> untilMs p"
      by (auto simp: mirrors_data_def)
    from k(3)[OF b(1)] b(2) assms(4) obtain p where p: "previousOf d = Some p" "kn_set k = previousSet p" "t < untilMs p"
      by (auto split: option.splits)
    moreover have "setIndex (previousSet p) = i"
      using valid_previous[OF _ p(1)] assms(1) 2 by (simp add: mirrors_data_def)
    ultimately show ?thesis using k(2) 2 by (simp add: setFor_def)
  qed
qed

lemma decoded_time:
  assumes "decodePriceUpdate blob = Inr u"
  shows "0 \<le> h_publishTimeMs (u_header u)"
proof -
  from assms obtain bs where "decodePriceUpdate (Raw bs) = Inr u" by (auto simp: decodePriceUpdate_def ebind_eq_Inr)
  from update_codec.enc_dec[OF this] show ?thesis
    by (auto simp: encodeUpdate_iff encodeHeader_iff is_u64_def)
qed

lemma accepted_entry:
  assumes "mirrors_data committee d mc" "mirror_verify C mc blob = Inr u" "setIndex (currentSet d) - 1 \<le> h_setIndex (u_header u)"
    and "en \<in> set (u_entries u)"
  shows "verifyPriceUpdate C (Blob blob) (m_feedId (e_message en)) committee d =
    Inr \<lparr>v_header = u_header u, v_message = e_message en\<rparr>"
proof -
  note v = assms(2)[unfolded mirror_verify_iff]
  from v obtain s digest where sd: "may_sign mc (h_setIndex (u_header u)) (h_publishTimeMs (u_header u)) = Some s"
      "priceUpdateSigningHash C (u_header u) = Inr digest" "verifyThreshold C (u_signatures u) (HexStr digest) s = Inr True"
    by blast
  have "setFor d (h_setIndex (u_header u)) (h_publishTimeMs (u_header u)) = Some s"
    by (rule may_sign_setFor[OF assms(1) sd(1) assms(3)]) (use v decoded_time in blast)
  moreover have "entry_proven C (h_merkleRoot (u_header u)) en" using v assms(4) by blast
  moreover have "toLowerCase (h_publisherSetTypeHash (u_header u)) = toLowerCase committee" "\<not> isPaused d"
    using v assms(1) by (auto simp: mirrors_data_def)
  ultimately have "entry_accepted C u en committee d"
    using sd(2,3) unfolding entry_accepted_def entry_proven_def by blast
  moreover have "filter (\<lambda>e. toLowerCase (m_feedId (e_message e)) = toLowerCase (m_feedId (e_message en))) (u_entries u) = [en]"
    using v assms(4) by (intro filter_distinct_key) auto
  ultimately show ?thesis
    using v unfolding verifyPriceUpdate_iff by (intro exI[of _ u] exI[of _ en]) simp
qed

text \<open>A set older than the previous one is no longer trusted by the cell.\<close>

lemma refused_entry:
  assumes m: "mirrors_data committee d mc" and v: "mirror_verify C mc blob = Inr u"
    and old: "h_setIndex (u_header u) < setIndex (currentSet d) - 1" and en: "en \<in> set (u_entries u)"
  shows "verifyPriceUpdate C (Blob blob) (m_feedId (e_message en)) committee d = Inl (VerifyError BadSetIndex)"
proof -
  note v = v[unfolded mirror_verify_iff]
  have "setFor d (h_setIndex (u_header u)) t = None" for t
    using valid_previous[of d] m old by (auto simp: setFor_def mirrors_data_def split: option.splits)
  moreover have "entry_proven C (h_merkleRoot (u_header u)) en" using v en by blast
  moreover have "toLowerCase (h_publisherSetTypeHash (u_header u)) = toLowerCase committee" "\<not> isPaused d"
    using v m by (auto simp: mirrors_data_def)
  moreover have "filter (\<lambda>e. toLowerCase (m_feedId (e_message e)) = toLowerCase (m_feedId (e_message en))) (u_entries u) = [en]"
    using v en by (intro filter_distinct_key) auto
  moreover have "decodePriceUpdate blob = Inr u" using v by blast
  ultimately show ?thesis
    by (auto simp: verifyPriceUpdate_def verifyEntry_def entry_proven_def at_index_def isPaused_def Let_def)
qed

section \<open>Assembled updates are accepted\<close>

lemma assembled_accepted:
  assumes a: "assemblePriceUpdate C inp = Inr (header, entries)"
    and bytes: "encodePriceUpdate \<lparr>u_header = header, u_signatures = sigs, u_entries = entries\<rparr> = Inr bs"
    and mc: "mc_typeHash mc = toLowerCase (i_publisherSetTypeHash inp)" "\<not> mc_paused mc"
      "may_sign mc (i_setIndex inp) (i_publishTimeMs inp) = Some s"
    and signed: "priceUpdateSigningHash C header = Inr digest" "verifyThreshold C sigs (HexStr digest) s = Inr True"
  shows "mirror_verify C mc (Raw bs) = Inr (norm_update \<lparr>u_header = header, u_signatures = sigs, u_entries = entries\<rparr>)"
proof -
  let ?u = "\<lparr>u_header = header, u_signatures = sigs, u_entries = entries\<rparr>"
  have hd: "h_leafCount header \<noteq> 0 \<and> int (length entries) = h_leafCount header \<and>
      h_publisherSetTypeHash header = i_publisherSetTypeHash inp \<and> h_setIndex header = i_setIndex inp \<and>
      h_publishTimeMs header = i_publishTimeMs inp"
    using a by (rule assemble_sorted) (simp only: length_0_conv of_nat_eq_0_iff not_False_eq_True simp_thms)
  have "decodePriceUpdate (Raw bs) = Inr (norm_update ?u)"
    by (rule update_codec.dec_enc[OF _ bytes]) (simp add: hd)
  moreover have "entry_proven C (toLowerCase (h_merkleRoot header)) (norm_entry en)" if en: "en \<in> set entries" for en
  proof -
    from assemble_entry_verifies[OF a en, of 0] obtain m leaf where
      *: "encodePriceMessage (e_message en) = Inr m" "leafHash C (Raw m) = Inr leaf"
        "verifyProof C (HexStr (h_merkleRoot header)) (HexStr leaf) (map HexStr (e_proof en)) = Inr True" by blast
    have "encodePriceMessage (e_message (norm_entry en)) = Inr m"
      using message_codec.enc_norm[OF _ *(1)] by (simp add: norm_entry_def)
    with * verifyProof_lower[OF *(3)] show ?thesis by (auto simp: entry_proven_def norm_entry_def)
  qed
  moreover have "priceUpdateSigningHash C (norm_header header) = Inr digest"
    using signingHash_norm[OF signed(1)] hd by simp
  moreover have "verifyThreshold C (u_signatures (norm_update ?u)) (HexStr digest) s = Inr True"
    using verifyThreshold_lower[OF signed(2)] by (simp add: norm_update_def)
  moreover have "distinct (map (\<lambda>en. toLowerCase (m_feedId (e_message (norm_entry en)))) entries)"
    using assemble_order(2)[OF a] by (simp add: norm_entry_def norm_message_def)
  ultimately show ?thesis
    unfolding mirror_verify_iff using hd mc by (auto simp: norm_update_def norm_header_def comp_def)
qed

text \<open>A blob a mirror of the rotated committee accepts from the previous set, for the witnesses.\<close>

definition demo_mirror :: MirrorCommittee where
  "demo_mirror = observe_committee 20 demo_rotated (observe_committee 10 demo_committee (new_committee (i_publisherSetTypeHash demo_single)))"

lemma demo_follows: "follows (i_publisherSetTypeHash demo_single) demo_rotated demo_mirror"
  unfolding demo_mirror_def
  using follows.next_read[OF follows.first_read demo_history] demo_valid(1) by (simp add: valid_data_def)

lemma demo_accepted:
  "\<exists>bs u. mirror_verify demo_crypto demo_mirror (Raw bs) = Inr u \<and> h_setIndex (u_header u) = 1 \<and> map e_message (u_entries u) = [demo_message 1] \<and>
    h_publishTimeMs (u_header u) = 2000"
proof -
  obtain header entries where a: "assemblePriceUpdate demo_crypto demo_single = Inr (header, entries)"
    using assemble_total[of demo_single demo_crypto] by (auto simp: demo_single_def)
  have fits: "input_fits demo_single" by (simp add: input_fits_def demo_single_def demo_input_def int_ranges)
  obtain eb where "encodeSignatureBundle [] = Inr eb" by (simp add: encodeSignatureBundle_iff is_u8_def)
  from assembled_encodes[OF a demo_hash32 fits this] obtain h where "encodePriceUpdateHeader header = Inr h"
    by blast
  from demo_signed[OF this] obtain digest where
    d: "priceUpdateSigningHash demo_crypto header = Inr digest"
      "verifyThreshold demo_crypto demo_bundle (HexStr digest) (demo_set 1) = Inr True" by blast
  obtain sb where "encodeSignatureBundle demo_bundle = Inr sb"
    using accepted_bundle_encodes[OF d(2)] by auto
  from assembled_encodes[OF a demo_hash32 fits this] obtain bs where
    bs: "encodePriceUpdate \<lparr>u_header = header, u_signatures = demo_bundle, u_entries = entries\<rparr> = Inr bs" by blast
  have sets: "map_of (mc_sets demo_mirror) 1 = Some \<lparr>kn_set = demo_set 1, kn_retiredAtMs = Some 9000\<rparr>"
    by (simp add: demo_mirror_def observe_committee_def new_committee_def demo_committee_def demo_rotated_def retire_def)
  have "may_sign demo_mirror (i_setIndex demo_single) (i_publishTimeMs demo_single) = Some (demo_set 1)"
    using sets by (simp add: may_sign_def demo_single_def demo_input_def)
  moreover have "mc_typeHash demo_mirror = toLowerCase (i_publisherSetTypeHash demo_single)" "\<not> mc_paused demo_mirror"
    using follows_mirrors[OF demo_follows] demo_setFor(2) by (simp_all add: mirrors_data_def)
  ultimately have "mirror_verify demo_crypto demo_mirror (Raw bs) =
      Inr (norm_update \<lparr>u_header = header, u_signatures = demo_bundle, u_entries = entries\<rparr>)"
    using assembled_accepted[OF a bs _ _ _ d] by blast
  moreover have "h_setIndex header = 1 \<and> h_publishTimeMs header = 2000"
    using a by (rule assemble_sorted) (simp add: demo_single_def demo_input_def)
  moreover have "map e_message entries = [demo_message 1]" using assemble_order(1)[OF a] by (simp add: demo_single_def)
  ultimately show ?thesis
    by (intro exI[of _ bs] exI[of _ "norm_update \<lparr>u_header = header, u_signatures = demo_bundle, u_entries = entries\<rparr>"])
      (auto simp: norm_update_def norm_header_def norm_entry_def)
qed

section \<open>Properties\<close>

text \<open>Claim C23: a publisher set that was retired stays retired. Whatever states of the committee cell the mirror reads
  later, in whatever order, the set keeps its keys and its retirement bound only moves down, so that an
  update signed by it at or after the bound is refused for good; a revoked set signs nothing any more.\<close>

theorem retired_sets_stay_retired:
  assumes "sets_known mc" "list_all (valid_data \<circ> snd) ds"
    and "map_of (mc_sets mc) i = Some k" "kn_retiredAtMs k = Some b"
    and "mirror_verify C (observe_all ds mc) blob = Inr u" "h_setIndex (u_header u) = i"
  shows "h_publishTimeMs (u_header u) < b \<and> 0 < b"
proof -
  obtain k' b' where "map_of (mc_sets (observe_all ds mc)) i = Some k'" "kn_retiredAtMs k' = Some b'" "b' \<le> b"
    using observe_all_earlier[OF assms(1-4)] by blast
  moreover obtain s where "may_sign (observe_all ds mc) i (h_publishTimeMs (u_header u)) = Some s"
    using assms(5,6) by (auto simp: mirror_verify_iff)
  moreover have "0 \<le> h_publishTimeMs (u_header u)"
    using assms(5) decoded_time by (auto simp: mirror_verify_iff)
  ultimately show ?thesis by (auto simp: may_sign_def split: if_splits)
qed

theorem retired_sets_stay_retired_witness:
  "\<exists>bs u. mirror_verify demo_crypto (observe_all [(30, demo_rotated)] demo_mirror) (Raw bs) = Inr u \<and>
    h_publishTimeMs (u_header u) < 9000"
proof -
  have same: "observe_all [(30, demo_rotated)] demo_mirror = demo_mirror"
    by (simp add: observe_all_def demo_mirror_def observe_committee_def new_committee_def demo_committee_def demo_rotated_def retire_def
        js_and_def asIntN_def)
  obtain bs u where b: "mirror_verify demo_crypto demo_mirror (Raw bs) = Inr u" "h_setIndex (u_header u) = 1"
    using demo_accepted by blast
  have v: "valid_data demo_rotated" "valid_data demo_committee" using demo_valid by (simp_all add: valid_data_def)
  have "sets_known demo_mirror" unfolding demo_mirror_def by (intro known_observe known_new v)
  moreover have "map_of (mc_sets demo_mirror) 1 = Some \<lparr>kn_set = demo_set 1, kn_retiredAtMs = Some 9000\<rparr>"
    by (simp add: demo_mirror_def observe_committee_def new_committee_def demo_committee_def demo_rotated_def retire_def)
  ultimately have "h_publishTimeMs (u_header u) < 9000"
    using retired_sets_stay_retired[of demo_mirror "[(30, demo_rotated)]" 1 _ 9000 demo_crypto "Raw bs" u] b v same by simp
  with b same show ?thesis by auto
qed

text \<open>Claim C13: what a mirror serves a client can verify, unless it is signed by an older set. While a mirror
  follows the committee cell along its governance history, every entry of every update that it accepts
  from the current or the previous set is accepted by \<open>verifyPriceUpdate\<close> with the data of that cell, and
  is the entry's message; the entries of an update from an older set, which the mirror still verifies
  against the keys it remembers, are refused by \<open>verifyPriceUpdate\<close> for their set index, and for no other reason.\<close>

theorem served_updates_verifiable:
  assumes "follows committee d mc" "mirror_verify C mc blob = Inr u" "en \<in> set (u_entries u)"
  shows "verifyPriceUpdate C (Blob blob) (m_feedId (e_message en)) committee d =
    (if setIndex (currentSet d) - 1 \<le> h_setIndex (u_header u)
     then Inr \<lparr>v_header = u_header u, v_message = e_message en\<rparr>
     else Inl (VerifyError BadSetIndex))"
  using accepted_entry[OF follows_mirrors[OF assms(1)] assms(2) _ assms(3)]
    refused_entry[OF follows_mirrors[OF assms(1)] assms(2) _ assms(3)] by simp

theorem served_updates_verifiable_witness:
  "\<exists>bs feed v. verifyPriceUpdate demo_crypto (Blob (Raw bs)) feed (i_publisherSetTypeHash demo_single) demo_rotated = Inr v"
proof -
  obtain bs u where b: "mirror_verify demo_crypto demo_mirror (Raw bs) = Inr u" "h_setIndex (u_header u) = 1"
      "map e_message (u_entries u) = [demo_message 1]"
    using demo_accepted by metis
  have "setIndex (currentSet demo_rotated) = 2" by (simp add: demo_rotated_def)
  then have
    "\<forall>en \<in> set (u_entries u). verifyPriceUpdate demo_crypto (Blob (Raw bs)) (m_feedId (e_message en))
      (i_publisherSetTypeHash demo_single) demo_rotated = Inr \<lparr>v_header = u_header u, v_message = e_message en\<rparr>"
    using served_updates_verifiable[OF demo_follows b(1)] b(2) by simp
  with b(3) show ?thesis by (cases "u_entries u") auto
qed

end
