(* ===== verification/Mirror_Ingest.thy ===== *)
theory Mirror_Ingest
  imports Mirror_Store Mirror_Committee Publisher_Store
begin

text \<open>
  \<open>apps/mirror/src/ingest.ts\<close>: verifying and storing blobs, and following one publisher. The awaited HTTP
  request splits \<open>backfill\<close> into the step that sends it and the step that handles its response, so that frames
  of the live stream come in between; a step returns what the source asks the network for. Lemmas: a valid
  blob is stored and never displaces another; backfilling from a publisher whose updates verify ends with all
  of them stored; a publisher that answers with full pages of invalid blobs keeps the loop running.
\<close>

section \<open>Ingesting a blob\<close>

record Ingestor =
  ig_store :: MirrorStore
  ig_told :: "(PriceUpdate \<times> bytes) list"

datatype IngestResult = Invalid | Ingested InsertResult

definition ingest :: "crypto \<Rightarrow> MirrorCommittee \<Rightarrow> int \<Rightarrow> hex \<Rightarrow> Ingestor \<Rightarrow> ((IngestResult \<times> int option) \<times> Ingestor) result" where
  "ingest C committee now blobHex ig =
    ebind (hexToBytes blobHex) (\<lambda>blob.
    case mirror_verify C committee (Raw blob) of
      Inl e \<Rightarrow> Inr ((Invalid, None), ig)
    | Inr update \<Rightarrow>
        ebind (mirror_insert C (ig_store ig) update blob now) (\<lambda>(r, store).
        Inr ((Ingested r, Some (h_publishTimeMs (u_header update))),
          ig\<lparr>ig_store := store, ig_told := (if r = NewUpdate then ig_told ig @ [(update, blob)] else ig_told ig)\<rparr>)))"

section \<open>A publisher as a source\<close>

definition PAGE :: nat where "PAGE = 500"
definition MAX_RETRY_MS :: int where "MAX_RETRY_MS = 10000"

record PublisherSource =
  src_cursor :: int
  src_syncing :: bool
  src_connected :: bool
  src_retryMs :: int
  src_stopped :: bool

definition new_source :: "MirrorStore \<Rightarrow> hex \<Rightarrow> PublisherSource" where
  "new_source store committee = \<lparr>src_cursor = (case latestTick store committee of None \<Rightarrow> 0 | Some t \<Rightarrow> t),
    src_syncing = False, src_connected = False, src_retryMs = 500, src_stopped = False\<rparr>"

type_synonym following = "Ingestor \<times> PublisherSource"

definition accept :: "crypto \<Rightarrow> MirrorCommittee \<Rightarrow> int \<Rightarrow> hex \<Rightarrow> following \<Rightarrow> following result" where
  "accept C committee now blob = (\<lambda>(ig, src).
    ebind (ingest C committee now blob ig) (\<lambda>((_, tickMs), ig').
    Inr (ig', (case tickMs of
        None \<Rightarrow> src
      | Some t \<Rightarrow> if t > src_cursor src then src\<lparr>src_cursor := t\<rparr> else src))))"

text \<open>\<open>for (const blob of blobs) this.accept(blob)\<close>: whether the loop ran to its end, and the state it left.\<close>

fun accept_all :: "crypto \<Rightarrow> MirrorCommittee \<Rightarrow> int \<Rightarrow> hex list \<Rightarrow> following \<Rightarrow> bool \<times> following" where
  "accept_all C committee now [] st = (True, st)"
| "accept_all C committee now (blob # blobs) st =
    (case accept C committee now blob st of
      Inl e \<Rightarrow> (False, st)
    | Inr st' \<Rightarrow> accept_all C committee now blobs st')"

datatype source_effect = FetchAfter int | OpenSocket | ConnectIn int

definition backfill_start :: "PublisherSource \<Rightarrow> PublisherSource \<times> source_effect list" where
  "backfill_start src = (if src_syncing src then (src, [])
    else (src\<lparr>src_syncing := True\<rparr>, [FetchAfter (src_cursor src)]))"

text \<open>The response to the request; \<open>None\<close> is a failed or refused one.\<close>

definition backfill_page ::
  "crypto \<Rightarrow> MirrorCommittee \<Rightarrow> int \<Rightarrow> hex list option \<Rightarrow> following \<Rightarrow> following \<times> source_effect list" where
  "backfill_page C committee now response = (\<lambda>(ig, src). case response of
      None \<Rightarrow> ((ig, src\<lparr>src_syncing := False\<rparr>), [])
    | Some blobs \<Rightarrow>
        (let (done, ig', src') = accept_all C committee now blobs (ig, src) in
         if \<not> done \<or> length blobs < PAGE then ((ig', src'\<lparr>src_syncing := False\<rparr>), [])
         else ((ig', src'), [FetchAfter (src_cursor src')])))"

definition connect :: "PublisherSource \<Rightarrow> source_effect list" where
  "connect src = (if src_stopped src then [] else [OpenSocket])"

definition start_source :: "PublisherSource \<Rightarrow> PublisherSource \<times> source_effect list" where
  "start_source src = (let (src', fx) = backfill_start src in (src', fx @ connect src'))"

definition socket_open :: "PublisherSource \<Rightarrow> PublisherSource \<times> source_effect list" where
  "socket_open src = backfill_start (src\<lparr>src_connected := True, src_retryMs := 500\<rparr>)"

text \<open>A frame of the stream; \<open>None\<close> is one that is not the JSON of a blob.\<close>

definition socket_message :: "crypto \<Rightarrow> MirrorCommittee \<Rightarrow> int \<Rightarrow> hex option \<Rightarrow> following \<Rightarrow> following" where
  "socket_message C committee now frame st = (case frame of
      None \<Rightarrow> st
    | Some blob \<Rightarrow> (case accept C committee now blob st of Inl e \<Rightarrow> st | Inr st' \<Rightarrow> st'))"

definition socket_close :: "PublisherSource \<Rightarrow> PublisherSource \<times> source_effect list" where
  "socket_close src =
    (let src1 = src\<lparr>src_connected := False\<rparr> in
     if src_stopped src1 then (src1, [])
     else (src1\<lparr>src_retryMs := min (src_retryMs src1 * 2) MAX_RETRY_MS\<rparr>, [ConnectIn (src_retryMs src1)]))"

definition stop_source :: "PublisherSource \<Rightarrow> PublisherSource" where
  "stop_source src = src\<lparr>src_stopped := True\<rparr>"

datatype source_event =
    BackfillTimer | PageArrived "hex list option" | SocketOpened | FrameArrived "hex option" | SocketClosed
  | ConnectTimer | SourceStopped

fun source_step :: "crypto \<Rightarrow> MirrorCommittee \<Rightarrow> int \<Rightarrow> source_event \<Rightarrow> following \<Rightarrow> following \<times> source_effect list" where
  "source_step C mc now BackfillTimer (ig, src) = map_prod (Pair ig) id (backfill_start src)"
| "source_step C mc now (PageArrived response) st = backfill_page C mc now response st"
| "source_step C mc now SocketOpened (ig, src) = map_prod (Pair ig) id (socket_open src)"
| "source_step C mc now (FrameArrived frame) st = (socket_message C mc now frame st, [])"
| "source_step C mc now SocketClosed (ig, src) = map_prod (Pair ig) id (socket_close src)"
| "source_step C mc now ConnectTimer (ig, src) = ((ig, src), connect src)"
| "source_step C mc now SourceStopped (ig, src) = ((ig, stop_source src), [])"

text \<open>The loop of \<open>backfill\<close> against a publisher that answers, while no frame comes in between.\<close>

partial_function (option) backfill ::
  "crypto \<Rightarrow> MirrorCommittee \<Rightarrow> int \<Rightarrow> (int \<Rightarrow> hex list) \<Rightarrow> following \<Rightarrow> following option" where
  "backfill C committee now serve st =
    (let blobs = serve (src_cursor (snd st)); (done, st') = accept_all C committee now blobs st in
     if \<not> done \<or> length blobs < PAGE then Some st' else backfill C committee now serve st')"

section \<open>Ingesting\<close>

lemma ingest_row: "ingest C mc now (bytesToHex blob) ig = (case mirror_verify C mc (Raw blob) of
      Inl e \<Rightarrow> Inr ((Invalid, None), ig)
    | Inr u \<Rightarrow> ebind (mirror_insert C (ig_store ig) u blob now) (\<lambda>(r, store).
        Inr ((Ingested r, Some (h_publishTimeMs (u_header u))),
          ig\<lparr>ig_store := store, ig_told := (if r = NewUpdate then ig_told ig @ [(u, blob)] else ig_told ig)\<rparr>)))"
  by (simp add: ingest_def)

text \<open>A valid blob: its key is stored, and what was stored stays.\<close>

definition grows :: "Ingestor \<Rightarrow> Ingestor \<Rightarrow> bool" where
  "grows ig ig' \<longleftrightarrow> (\<forall>k d. mirror_row (ig_store ig) k = Some d \<longrightarrow> mirror_row (ig_store ig') k = Some d)"

lemma grows_refl [simp]: "grows ig ig"
  by (simp add: grows_def)

lemma grows_trans: "grows a b \<Longrightarrow> grows b c \<Longrightarrow> grows a c"
  by (simp add: grows_def)

lemma insert_total:
  assumes "priceUpdateSigningHash C (u_header u) = Inr h"
  shows "\<exists>r. mirror_insert C s u blob now = Inr (r, snd (mirror_save s u (h, blob, now)))"
  using assms by (auto simp: mirror_insert_def row_of_update_eq mirror_save_def) (metis prod.collapse)

lemma accept_valid:
  assumes "mirror_verify C mc (Raw blob) = Inr u"
  shows "\<exists>ig'. accept C mc now (bytesToHex blob) (ig, src) =
      Inr (ig', src\<lparr>src_cursor := max (src_cursor src) (h_publishTimeMs (u_header u))\<rparr>) \<and>
    mirror_row (ig_store ig') (committee_tick u) \<noteq> None \<and> grows ig ig'"
proof -
  obtain h where h: "priceUpdateSigningHash C (u_header u) = Inr h" using assms by (auto simp: mirror_verify_iff)
  obtain r where r: "mirror_insert C (ig_store ig) u blob now = Inr (r, snd (mirror_save (ig_store ig) u (h, blob, now)))"
    using insert_total[OF h] by blast
  let ?s = "snd (mirror_save (ig_store ig) u (h, blob, now))"
  have "mirror_row ?s (committee_tick u) \<noteq> None" by (simp add: mirror_log.save_row)
  moreover have "mirror_row ?s k = Some d" if "mirror_row (ig_store ig) k = Some d" for k d
    using that by (simp add: mirror_log.save_row)
  ultimately show ?thesis
    using r assms by (auto simp: accept_def ingest_row grows_def max_def)
qed

lemma verified_key: "mirror_verify C mc blob = Inr u \<Longrightarrow> committee_tick u = (mc_typeHash mc, h_publishTimeMs (u_header u))"
  by (simp add: mirror_verify_iff committee_tick_def)

text \<open>A page of valid rows.\<close>

definition row_valid :: "crypto \<Rightarrow> MirrorCommittee \<Rightarrow> FinalizedRow \<Rightarrow> bool" where
  "row_valid C mc r \<longleftrightarrow> (case mirror_verify C mc (Raw (fz_blob r)) of
      Inl e \<Rightarrow> False | Inr u \<Rightarrow> h_publishTimeMs (u_header u) = fz_tickMs r)"

definition row_stored :: "MirrorCommittee \<Rightarrow> Ingestor \<Rightarrow> FinalizedRow \<Rightarrow> bool" where
  "row_stored mc ig r \<longleftrightarrow> mirror_row (ig_store ig) (mc_typeHash mc, fz_tickMs r) \<noteq> None"

lemma stored_grows: "row_stored mc ig r \<Longrightarrow> grows ig ig' \<Longrightarrow> row_stored mc ig' r"
  by (auto simp: row_stored_def grows_def)

lemma accept_page:
  assumes "\<forall>r \<in> set rows. row_valid C mc r"
  shows "\<exists>ig'. accept_all C mc now (map (\<lambda>r. bytesToHex (fz_blob r)) rows) (ig, src) =
      (True, ig', src\<lparr>src_cursor := foldl max (src_cursor src) (map fz_tickMs rows)\<rparr>) \<and>
    (\<forall>r \<in> set rows. row_stored mc ig' r) \<and> grows ig ig'"
  using assms
proof (induction rows arbitrary: ig src)
  case (Cons r rows)
  then obtain u where u: "mirror_verify C mc (Raw (fz_blob r)) = Inr u" "h_publishTimeMs (u_header u) = fz_tickMs r"
    by (auto simp: row_valid_def split: sum.splits)
  from accept_valid[OF u(1), of now ig src] obtain ig1 where
    a: "accept C mc now (bytesToHex (fz_blob r)) (ig, src) = Inr (ig1, src\<lparr>src_cursor := max (src_cursor src) (fz_tickMs r)\<rparr>)"
      "mirror_row (ig_store ig1) (committee_tick u) \<noteq> None" "grows ig ig1"
    using u(2) by auto
  from Cons.IH[of ig1 "src\<lparr>src_cursor := max (src_cursor src) (fz_tickMs r)\<rparr>"] Cons.prems obtain ig2 where
    b: "accept_all C mc now (map (\<lambda>r. bytesToHex (fz_blob r)) rows) (ig1, src\<lparr>src_cursor := max (src_cursor src) (fz_tickMs r)\<rparr>) =
      (True, ig2, src\<lparr>src_cursor := foldl max (max (src_cursor src) (fz_tickMs r)) (map fz_tickMs rows)\<rparr>)"
      "\<forall>r \<in> set rows. row_stored mc ig2 r" "grows ig1 ig2"
    by auto
  have "row_stored mc ig1 r" using a(2) verified_key[OF u(1)] u(2) by (simp add: row_stored_def)
  with a b show ?case by (auto intro: grows_trans stored_grows)
qed simp

section \<open>Catching up\<close>

lemma foldl_max_Max: "foldl max c ts = Max (insert c (set ts))" for c :: int
proof -
  have "(\<lambda>x s. max s x) = (max :: int \<Rightarrow> int \<Rightarrow> int)" by (intro ext) (rule max.commute)
  then show ?thesis using Max.set_eq_fold[of c ts] by (simp add: foldl_conv_fold)
qed

lemma foldl_max: "sorted (c # ts) \<Longrightarrow> foldl max c ts = last (c # ts)" for c :: int
  by (induction ts arbitrary: c) (auto simp: max_def)

text \<open>The rows a publisher serves after a cursor, page by page.\<close>

definition rows_after :: "PublisherStore \<Rightarrow> int \<Rightarrow> FinalizedRow list" where
  "rows_after ps c = sort_key fz_tickMs (filter (\<lambda>r. c < fz_tickMs r) (own_rows ps))"

lemma finalizedAfter_rows: "finalizedAfter ps c n = map (\<lambda>r. bytesToHex (fz_blob r)) (take n (rows_after ps c))"
  by (simp add: finalizedAfter_def rows_after_def)

lemma rows_after_set: "set (rows_after ps c) = {r \<in> set (own_rows ps). c < fz_tickMs r}"
  by (auto simp: rows_after_def)

lemma own_ticks_distinct: "store_wf ps \<Longrightarrow> distinct (map fz_tickMs (own_rows ps))"
proof -
  assume "store_wf ps"
  then have "distinct (map finalized_key (ps_finalized ps))" by (simp add: store_wf_def tbl_wf_def)
  then have "distinct (map finalized_key (own_rows ps))" by (simp add: own_rows_def distinct_map_filter)
  moreover have "map finalized_key (own_rows ps) = map (Pair (ps_committee ps)) (map fz_tickMs (own_rows ps))"
    by (simp add: own_rows_def)
  ultimately show ?thesis by (metis distinct_map)
qed

lemma rows_after_sorted:
  assumes "store_wf ps"
  shows "sorted_wrt (<) (map fz_tickMs (rows_after ps c))"
proof -
  have "mset (map fz_tickMs (rows_after ps c)) = mset (map fz_tickMs (filter (\<lambda>r. c < fz_tickMs r) (own_rows ps)))"
    by (simp add: rows_after_def)
  moreover have "distinct (map fz_tickMs (filter (\<lambda>r. c < fz_tickMs r) (own_rows ps)))"
    using own_ticks_distinct[OF assms] by (simp add: distinct_map_filter)
  ultimately have "distinct (map fz_tickMs (rows_after ps c))" by (metis mset_eq_imp_distinct_iff)
  then show ?thesis by (simp add: rows_after_def strict_sorted_iff)
qed

lemma page_split:
  assumes "store_wf ps" "n \<le> length (rows_after ps c)" "0 < n"
  defines "c' \<equiv> foldl max c (map fz_tickMs (take n (rows_after ps c)))"
  shows "rows_after ps c' = drop n (rows_after ps c) \<and> c \<le> c'"
proof -
  let ?R = "rows_after ps c"
  have s: "sorted_wrt (<) (map fz_tickMs ?R)" by (rule rows_after_sorted[OF assms(1)])
  then have st: "sorted_wrt (<) (map fz_tickMs (take n ?R) @ map fz_tickMs (drop n ?R))"
    by (simp flip: map_append)
  have above: "\<forall>r \<in> set ?R. c < fz_tickMs r" by (simp add: rows_after_set)
  then have "\<forall>r \<in> set (take n ?R). c < fz_tickMs r" by (meson in_set_takeD)
  moreover have "sorted (map fz_tickMs (take n ?R))"
    using st by (simp add: sorted_wrt_append strict_sorted_imp_sorted)
  ultimately have whole: "sorted (c # map fz_tickMs (take n ?R))" by (auto intro: less_imp_le)
  have ne: "take n ?R \<noteq> []" using assms(2,3) by auto
  have last_in: "last (take n ?R) \<in> set (take n ?R)" using ne by simp
  have c': "c' = fz_tickMs (last (take n ?R))" "c \<le> c'"
  proof -
    show c': "c' = fz_tickMs (last (take n ?R))" unfolding c'_def foldl_max[OF whole] using ne by (simp add: last_map)
    show "c \<le> c'" unfolding c' using above in_set_takeD[OF last_in] by (auto intro: less_imp_le)
  qed
  have le: "fz_tickMs r \<le> c'" if "r \<in> set (take n ?R)" for r
    using sorted_last_max[OF \<open>sorted (map fz_tickMs (take n ?R))\<close>, of "fz_tickMs r"] that ne
    by (simp add: c'(1) last_map)
  have gt: "c' < fz_tickMs r" if "r \<in> set (drop n ?R)" for r
    using st that last_in unfolding sorted_wrt_append c'(1) by auto
  have "rows_after ps c' = sort_key fz_tickMs (filter (\<lambda>r. c' < fz_tickMs r) (filter (\<lambda>r. c < fz_tickMs r) (own_rows ps)))"
    using c'(2) unfolding rows_after_def filter_filter
    by (intro arg_cong[where f = "sort_key fz_tickMs"] filter_cong) auto
  also have "\<dots> = filter (\<lambda>r. c' < fz_tickMs r) ?R" by (simp add: rows_after_def filter_sort)
  also have "\<dots> = filter (\<lambda>r. c' < fz_tickMs r) (take n ?R) @ filter (\<lambda>r. c' < fz_tickMs r) (drop n ?R)"
    by (metis append_take_drop_id filter_append)
  also have "filter (\<lambda>r. c' < fz_tickMs r) (take n ?R) = []" using le by (force simp: filter_empty_conv)
  also have "filter (\<lambda>r. c' < fz_tickMs r) (drop n ?R) = drop n ?R" using gt by (simp add: filter_id_conv)
  finally show ?thesis using c'(2) by simp
qed

lemma backfill_catches_up:
  assumes wf: "store_wf ps" and valid: "\<forall>r \<in> set (own_rows ps). row_valid C mc r"
  shows "\<exists>ig' src'. backfill C mc now (\<lambda>after. finalizedAfter ps after PAGE) (ig, src) = Some (ig', src') \<and>
    (\<forall>r \<in> set (own_rows ps). src_cursor src < fz_tickMs r \<longrightarrow> row_stored mc ig' r) \<and> grows ig ig' \<and>
    (\<forall>r \<in> set (own_rows ps). fz_tickMs r \<le> src_cursor src')"
proof (induction "length (rows_after ps (src_cursor src))" arbitrary: ig src rule: less_induct)
  case less
  let ?R = "rows_after ps (src_cursor src)"
  have "\<forall>r \<in> set (take PAGE ?R). row_valid C mc r"
    using valid by (auto simp: rows_after_set dest!: in_set_takeD)
  from accept_page[OF this, of now ig src] obtain ig1 where
    page: "accept_all C mc now (finalizedAfter ps (src_cursor src) PAGE) (ig, src) =
        (True, ig1, src\<lparr>src_cursor := foldl max (src_cursor src) (map fz_tickMs (take PAGE ?R))\<rparr>)"
      "\<forall>r \<in> set (take PAGE ?R). row_stored mc ig1 r" "grows ig ig1"
    by (auto simp: finalizedAfter_rows)
  let ?src = "src\<lparr>src_cursor := foldl max (src_cursor src) (map fz_tickMs (take PAGE ?R))\<rparr>"
  show ?case
  proof (cases "length ?R < PAGE")
    case True
    then have "backfill C mc now (\<lambda>after. finalizedAfter ps after PAGE) (ig, src) = Some (ig1, ?src)"
      using page(1) by (subst backfill.simps) (simp add: finalizedAfter_rows)
    moreover have "fz_tickMs r \<le> src_cursor ?src" if "r \<in> set (own_rows ps)" for r
      using that True by (cases "src_cursor src < fz_tickMs r") (auto simp: foldl_max_Max rows_after_set Max_ge_iff)
    ultimately show ?thesis using page True by (auto simp: rows_after_set)
  next
    case False
    then have len: "length (finalizedAfter ps (src_cursor src) PAGE) = PAGE" by (simp add: finalizedAfter_rows)
    from False page_split[OF wf, of PAGE "src_cursor src"]
    have split: "rows_after ps (src_cursor ?src) = drop PAGE ?R" "src_cursor src \<le> src_cursor ?src"
      by (simp_all add: PAGE_def)
    then have "length (rows_after ps (src_cursor ?src)) < length ?R" using False by (simp add: PAGE_def)
    from less[OF this, of ig1] obtain ig2 src2 where
      rec: "backfill C mc now (\<lambda>after. finalizedAfter ps after PAGE) (ig1, ?src) = Some (ig2, src2)"
        "\<forall>r \<in> set (own_rows ps). src_cursor ?src < fz_tickMs r \<longrightarrow> row_stored mc ig2 r" "grows ig1 ig2"
        "\<forall>r \<in> set (own_rows ps). fz_tickMs r \<le> src_cursor src2"
      by blast
    have "backfill C mc now (\<lambda>after. finalizedAfter ps after PAGE) (ig, src) = Some (ig2, src2)"
      using page(1) len rec(1) by (subst backfill.simps) simp
    moreover have "row_stored mc ig2 r" if r: "r \<in> set (own_rows ps)" "src_cursor src < fz_tickMs r" for r
    proof (cases "src_cursor ?src < fz_tickMs r")
      case False
      then have "r \<notin> set (drop PAGE ?R)" using split(1) by (simp add: rows_after_set flip: split(1))
      moreover have "r \<in> set ?R" using r by (simp add: rows_after_set)
      ultimately have "r \<in> set (take PAGE ?R)" by (metis Un_iff append_take_drop_id set_append)
      with page(2) rec(3) show ?thesis by (blast intro: stored_grows)
    qed (use rec(2) r in blast)
    moreover have "grows ig ig2" using page(3) rec(3) by (rule grows_trans)
    ultimately show ?thesis using rec(4) by blast
  qed
qed

section \<open>A publisher that lies\<close>

text \<open>A blob that is hex and does not verify leaves everything as it was, the cursor too.\<close>

definition refused :: "crypto \<Rightarrow> MirrorCommittee \<Rightarrow> hex \<Rightarrow> bool" where
  "refused C mc blob \<longleftrightarrow> (\<exists>bs e. hexToBytes blob = Inr bs \<and> mirror_verify C mc (Raw bs) = Inl e)"

lemma accept_refused: "refused C mc blob \<Longrightarrow> accept C mc now blob st = Inr st"
  by (cases st) (auto simp: refused_def accept_def ingest_def)

lemma accept_all_refused: "\<forall>b \<in> set blobs. refused C mc b \<Longrightarrow> accept_all C mc now blobs st = (True, st)"
  by (induction blobs) (auto simp: accept_refused)

text \<open>Full pages of refused blobs: the loop never ends, and it asks for the same page again and again.\<close>

lemma backfill_never_ends:
  assumes "\<forall>c. PAGE \<le> length (serve c) \<and> (\<forall>b \<in> set (serve c). refused C mc b)"
  shows "backfill C mc now serve st = None"
proof (rule ccontr)
  assume "backfill C mc now serve st \<noteq> None"
  then obtain y where y: "backfill C mc now serve st = Some y" by blast
  then have "\<not> (\<forall>c. PAGE \<le> length (serve c) \<and> (\<forall>b \<in> set (serve c). refused C mc b))"
  proof (induction rule: backfill.raw_induct)
    case (1 bf C committee now serve st y)
    show ?case
    proof
      assume bad: "\<forall>c. PAGE \<le> length (serve c) \<and> (\<forall>b \<in> set (serve c). refused C committee b)"
      then have "accept_all C committee now (serve (src_cursor (snd st))) st = (True, st)"
        by (intro accept_all_refused) blast
      moreover have "\<not> length (serve (src_cursor (snd st))) < PAGE" using bad by (simp add: not_less)
      ultimately have "bf C committee now serve st = Some y" using 1(2) by (simp add: Let_def)
      with 1 bad show False by blast
    qed
  qed (rule y)
  with assms show False by blast
qed

section \<open>Retrying\<close>

definition retry_ok :: "PublisherSource \<Rightarrow> bool" where
  "retry_ok src \<longleftrightarrow> 500 \<le> src_retryMs src \<and> src_retryMs src \<le> MAX_RETRY_MS"

lemma accept_source: "accept C mc now blob st = Inr st' \<Longrightarrow> \<exists>c \<ge> src_cursor (snd st). snd st' = (snd st)\<lparr>src_cursor := c\<rparr>"
proof -
  obtain ig src where st: "st = (ig, src)" by (cases st)
  assume "accept C mc now blob st = Inr st'"
  then obtain r t ig' where "st' = (ig', (case t of None \<Rightarrow> src | Some t \<Rightarrow> if t > src_cursor src then src\<lparr>src_cursor := t\<rparr> else src))"
    by (auto simp: accept_def ebind_eq_Inr st)
  then show ?thesis
    by (intro exI[of _ "case t of None \<Rightarrow> src_cursor src | Some t \<Rightarrow> max t (src_cursor src)"])
      (auto simp: st max_def split: option.splits)
qed

lemma accept_all_source:
  "accept_all C mc now blobs st = (b, st') \<Longrightarrow> \<exists>c \<ge> src_cursor (snd st). snd st' = (snd st)\<lparr>src_cursor := c\<rparr>"
proof (induction blobs arbitrary: st)
  case (Cons blob blobs)
  show ?case
  proof (cases "accept C mc now blob st")
    case (Inl e)
    with Cons.prems show ?thesis by (auto intro: exI[of _ "src_cursor (snd st)"])
  next
    case (Inr st1)
    from accept_source[OF this] obtain c1 where c1: "c1 \<ge> src_cursor (snd st)" "snd st1 = (snd st)\<lparr>src_cursor := c1\<rparr>" by blast
    from Cons.IH[of st1] Cons.prems Inr obtain c where "c \<ge> src_cursor (snd st1)" "snd st' = (snd st1)\<lparr>src_cursor := c\<rparr>" by auto
    with c1 show ?thesis by (auto intro!: exI[of _ c])
  qed
qed (auto intro: exI[of _ "src_cursor (snd st)"])

section \<open>Properties\<close>

text \<open>Claim C22: a mirror catches up with an honest publisher. Paging through \<open>finalizedAfter\<close> of a publisher whose
  stored updates all verify ends, whatever the number of pages; then every update newer than the
  cursor is stored (its tick has a row), no row was displaced, and the cursor has reached them all.\<close>

theorem mirror_catches_up:
  assumes "store_wf ps" and "list_all (row_valid C mc) (own_rows ps)"
  shows "\<exists>ig' src'. backfill C mc now (\<lambda>after. finalizedAfter ps after PAGE) (ig, src) = Some (ig', src') \<and>
    list_all (row_stored mc ig') (rows_after ps (src_cursor src)) \<and> grows ig ig' \<and>
    list_all (\<lambda>r. fz_tickMs r \<le> src_cursor src') (own_rows ps)"
  using backfill_catches_up[OF assms(1), of C mc now ig src] assms(2)
  by (simp add: list_all_iff rows_after_set) blast

theorem mirror_catches_up_witness:
  "\<exists>bs ig' src'. backfill demo_crypto demo_mirror 5 (\<lambda>after. finalizedAfter ((new_store ''0xaa'')\<lparr>ps_finalized :=
        [\<lparr>fz_committee = ''0xaa'', fz_tickMs = 2000, fz_blob = bs\<rparr>]\<rparr>) after PAGE)
      (\<lparr>ig_store = new_mirror, ig_told = []\<rparr>, new_source new_mirror ''0xaa'') = Some (ig', src') \<and>
    mirror_row (ig_store ig') (mc_typeHash demo_mirror, 2000) \<noteq> None \<and> 2000 \<le> src_cursor src'"
proof -
  obtain bs u where b: "mirror_verify demo_crypto demo_mirror (Raw bs) = Inr u" "h_publishTimeMs (u_header u) = 2000"
    using demo_accepted by blast
  let ?r = "\<lparr>fz_committee = ''0xaa'', fz_tickMs = 2000, fz_blob = bs\<rparr>"
  let ?ps = "(new_store ''0xaa'')\<lparr>ps_finalized := [?r]\<rparr>"
  have "store_wf ?ps" by (simp add: store_wf_def new_store_def tbl_wf_def)
  moreover have "list_all (row_valid demo_crypto demo_mirror) (own_rows ?ps)"
    using b by (simp add: own_rows_def new_store_def row_valid_def)
  ultimately obtain ig' src' where c:
    "backfill demo_crypto demo_mirror 5 (\<lambda>after. finalizedAfter ?ps after PAGE)
      (\<lparr>ig_store = new_mirror, ig_told = []\<rparr>, new_source new_mirror ''0xaa'') = Some (ig', src')"
    "list_all (row_stored demo_mirror ig') (rows_after ?ps (src_cursor (new_source new_mirror ''0xaa'')))"
    "list_all (\<lambda>r. fz_tickMs r \<le> src_cursor src') (own_rows ?ps)"
    using mirror_catches_up[of ?ps demo_crypto demo_mirror 5 "\<lparr>ig_store = new_mirror, ig_told = []\<rparr>"
        "new_source new_mirror ''0xaa''"] by blast
  have "rows_after ?ps (src_cursor (new_source new_mirror ''0xaa'')) = [?r]"
    by (simp add: rows_after_def own_rows_def new_store_def new_source_def latestTick_def new_mirror_def tbl_last_by_def)
  with c(2) have "row_stored demo_mirror ig' ?r" by (simp only: list.pred_inject(2))
  moreover have "2000 \<le> src_cursor src'" using c(3) by (simp add: own_rows_def new_store_def)
  ultimately show ?thesis
    using c(1) by (intro exI[of _ bs] exI[of _ ig'] exI[of _ src'] conjI) (simp_all only: row_stored_def FinalizedRow.simps not_False_eq_True)
qed

end
