(* ===== verification/Mirror_Client.thy ===== *)
theory Mirror_Client
  imports Mirror_Committee Committee_Config
begin

text \<open>
  \<open>packages/sdk/src/mirror/format.ts\<close> and \<open>client.ts\<close>: the JSON a mirror serves, and the client that trusts no
  mirror. An HTTP exchange is an argument, a function from a base URL, a path and its parameters to a
  reply; a stream is a state machine on the events of its socket. Lemmas: whatever a mirror answers, a price the
  client returns was asked for and is verified; what an honest mirror serves passes these checks; the
  client takes the first definitive answer of its mirrors.
\<close>

section \<open>The wire format\<close>

record MirrorPriceJson =
  pj_feedId :: hex
  pj_price :: string
  pj_conf :: string
  pj_expo :: int
  pj_emaPrice :: string
  pj_emaConf :: string
  pj_prevPublishTimeMs :: string
  pj_sourceTimeMs :: string
  pj_numPublishers :: int

record MirrorUpdateJson =
  uj_committee :: hex
  uj_publishTimeMs :: string
  uj_blob :: hex
  uj_prices :: "MirrorPriceJson list"

record MirrorPrice =
  mp_message :: PriceMessage
  mp_committee :: hex
  mp_publishTimeMs :: int

record MirrorUpdate =
  mu_committee :: hex
  mu_publishTimeMs :: int
  mu_blob :: hex
  mu_prices :: "MirrorPrice list"

definition toFeedId :: "crypto \<Rightarrow> string \<Rightarrow> hex" where
  "toFeedId C idOrSymbol =
    (if isHex idOrSymbol \<and> length idOrSymbol = 66 then toLowerCase idOrSymbol else feedId C idOrSymbol)"

definition price_json :: "PriceMessage \<Rightarrow> MirrorPriceJson" where
  "price_json m = \<lparr>pj_feedId = m_feedId m, pj_price = int_string (m_price m), pj_conf = int_string (m_conf m),
    pj_expo = m_expo m, pj_emaPrice = int_string (m_emaPrice m), pj_emaConf = int_string (m_emaConf m),
    pj_prevPublishTimeMs = int_string (m_prevPublishTimeMs m), pj_sourceTimeMs = int_string (m_sourceTimeMs m),
    pj_numPublishers = m_numPublishers m\<rparr>"

definition mirrorUpdateJson :: "PriceUpdate \<Rightarrow> hex list \<Rightarrow> MirrorUpdateJson result" where
  "mirrorUpdateJson update feedIds =
    ebind (selectFeeds update feedIds) (\<lambda>selected.
    ebind (encodePriceUpdate selected) (\<lambda>bytes.
    Inr \<lparr>uj_committee = toLowerCase (h_publisherSetTypeHash (u_header update)),
      uj_publishTimeMs = int_string (h_publishTimeMs (u_header update)), uj_blob = bytesToHex bytes,
      uj_prices = map (\<lambda>en. price_json (e_message en)) (u_entries selected)\<rparr>))"

definition parseMirrorUpdate :: "MirrorUpdateJson \<Rightarrow> MirrorUpdate result" where
  "parseMirrorUpdate json =
    ebind (decodePriceUpdate (HexStr (uj_blob json))) (\<lambda>update.
    let committee = toLowerCase (h_publisherSetTypeHash (u_header update));
        t = h_publishTimeMs (u_header update)
    in Inr \<lparr>mu_committee = committee, mu_publishTimeMs = t, mu_blob = uj_blob json,
         mu_prices = map (\<lambda>en. \<lparr>mp_message = e_message en, mp_committee = committee, mp_publishTimeMs = t\<rparr>) (u_entries update)\<rparr>)"

section \<open>The client\<close>

type_synonym committees = "(hex \<times> PublisherSetData) list"

record MirrorClientOptions =
  mo_urls :: "string list"
  mo_apiKey :: "string option"
  mo_committees :: "committees option"

definition strip_slashes :: "string \<Rightarrow> string" where
  "strip_slashes u = rev (dropWhile (\<lambda>c. c = CHR ''/'') (rev u))"

definition new_client :: "MirrorClientOptions \<Rightarrow> MirrorClientOptions result" where
  "new_client options =
    (if mo_urls options = [] then Inl (MirrorError ''MirrorClient needs at least one URL'' None)
     else Inr (options\<lparr>mo_urls := map strip_slashes (mo_urls options)\<rparr>))"

text \<open>\<open>checked\<close>: decode, check it answers the request, verify when committees are configured.\<close>

definition client_checked :: "crypto \<Rightarrow> committees option \<Rightarrow> MirrorUpdateJson \<Rightarrow> hex list \<Rightarrow> MirrorUpdate result" where
  "client_checked C committees json requested =
    ebind (parseMirrorUpdate json) (\<lambda>update.
    if list_ex (\<lambda>p. toLowerCase (m_feedId (mp_message p)) \<notin> set requested) (mu_prices update)
    then Inl (MirrorError ''mirror returned a feed that was not requested'' None)
    else case committees of
      None \<Rightarrow> Inr update
    | Some cs \<Rightarrow>
        (case find (\<lambda>(hash, _). toLowerCase hash = mu_committee update) cs of
          None \<Rightarrow> Inl (MirrorError ''update from an unexpected committee'' None)
        | Some (hash, data) \<Rightarrow>
            ebind (efold (\<lambda>_ p. ebind (verifyPriceUpdate C (Blob (HexStr (mu_blob update))) (m_feedId (mp_message p)) hash data)
                (\<lambda>_. Inr ())) () (mu_prices update)) (\<lambda>_.
            Inr update)))"

text \<open>One HTTP exchange: a JSON body, a status that is not a success, or an exception (a timeout, a network
  error, a body that is not JSON); the caller's signal may have been aborted by then.\<close>

datatype 'a reply = Body 'a | Refused int | Thrown js_error bool

fun get_from :: "string \<Rightarrow> 'a reply list \<Rightarrow> js_error \<Rightarrow> 'a result" where
  "get_from path [] lastError = Inl lastError"
| "get_from path (Body body # replies) lastError = Inr body"
| "get_from path (Refused status # replies) lastError =
    (if status < 500 \<and> status \<noteq> 429 then Inl (MirrorError path (Some status))
     else get_from path replies (MirrorError path (Some status)))"
| "get_from path (Thrown e aborted # replies) lastError =
    (if aborted then Inl e else get_from path replies e)"

type_synonym params = "(string \<times> string) list"
type_synonym 'a exchange = "string \<Rightarrow> string \<Rightarrow> params \<Rightarrow> 'a reply"

definition client_get :: "MirrorClientOptions \<Rightarrow> 'a exchange \<Rightarrow> string \<Rightarrow> params \<Rightarrow> 'a result" where
  "client_get options fetch path params =
    get_from path (map (\<lambda>base. fetch base path params) (mo_urls options)) (MirrorError ''undefined'' None)"

definition committee_param :: "hex option \<Rightarrow> params" where
  "committee_param committee = (case committee of None \<Rightarrow> [] | Some c \<Rightarrow> if c = [] then [] else [(''committee'', c)])"

definition client_updates ::
  "crypto \<Rightarrow> MirrorClientOptions \<Rightarrow> MirrorUpdateJson list exchange \<Rightarrow> string \<Rightarrow> string list \<Rightarrow> params \<Rightarrow> hex option \<Rightarrow>
    MirrorUpdate list result" where
  "client_updates C options fetch path feeds params committee =
    (let ids = map (toFeedId C) feeds;
         query = params @ [(''ids'', join_comma ids)] @ committee_param committee
     in ebind (client_get options fetch path query) (\<lambda>updates.
        emap (\<lambda>json. client_checked C (mo_committees options) json ids) updates))"

definition client_latest ::
  "crypto \<Rightarrow> MirrorClientOptions \<Rightarrow> MirrorUpdateJson list exchange \<Rightarrow> string list \<Rightarrow> hex option \<Rightarrow> MirrorUpdate list result" where
  "client_latest C options fetch feeds committee = client_updates C options fetch ''/v1/updates/latest'' feeds [] committee"

definition client_at ::
  "crypto \<Rightarrow> MirrorClientOptions \<Rightarrow> MirrorUpdateJson list exchange \<Rightarrow> int \<Rightarrow> string list \<Rightarrow> hex option \<Rightarrow> MirrorUpdate list result" where
  "client_at C options fetch timeMs feeds committee =
    client_updates C options fetch ''/v1/updates/at'' feeds [(''t'', int_string timeMs)] committee"

definition client_range ::
  "crypto \<Rightarrow> MirrorClientOptions \<Rightarrow> MirrorUpdateJson list exchange \<Rightarrow> string \<Rightarrow> int \<Rightarrow> int \<Rightarrow> int option \<Rightarrow> hex option \<Rightarrow>
    MirrorPrice list result" where
  "client_range C options fetch feed fromMs toMs limit committee =
    (let params = [(''id'', toFeedId C feed), (''from'', int_string fromMs), (''to'', int_string toMs)] @
           (case limit of None \<Rightarrow> [] | Some n \<Rightarrow> [(''limit'', int_string n)]) @ committee_param committee
     in ebind (client_get options fetch ''/v1/updates/range'' params) (\<lambda>updates.
        ebind (emap (\<lambda>json. client_checked C (mo_committees options) json [toFeedId C feed]) updates) (\<lambda>us.
        Inr (concat (map mu_prices us)))))"

section \<open>Streams\<close>

record MirrorStream =
  st_closed :: bool
  st_attempt :: nat

datatype stream_effect =
    Connect string | Deliver MirrorUpdate | OnError js_error | ReopenIn int | CloseSocket

definition stream_open :: "MirrorClientOptions \<Rightarrow> MirrorStream \<Rightarrow> stream_effect list" where
  "stream_open options s = (if st_closed s then [] else [Connect (mo_urls options ! (st_attempt s mod length (mo_urls options)))])"

definition stream_opened :: "MirrorStream \<Rightarrow> MirrorStream" where
  "stream_opened s = s\<lparr>st_attempt := 0\<rparr>"

text \<open>A frame: the JSON of an update, or text that does not parse.\<close>

definition stream_message :: "crypto \<Rightarrow> MirrorClientOptions \<Rightarrow> hex list \<Rightarrow> MirrorUpdateJson result \<Rightarrow> stream_effect list" where
  "stream_message C options ids frame =
    (case ebind frame (\<lambda>json. client_checked C (mo_committees options) json ids) of
      Inl e \<Rightarrow> [OnError e]
    | Inr update \<Rightarrow> [Deliver update])"

definition stream_closed :: "MirrorStream \<Rightarrow> MirrorStream \<times> stream_effect list" where
  "stream_closed s = (if st_closed s then (s, [])
    else (let a = st_attempt s + 1 in (s\<lparr>st_attempt := a\<rparr>, [ReopenIn (min (500 * 2 ^ min a 5) 10000)])))"

definition stream_close :: "MirrorStream \<Rightarrow> MirrorStream \<times> stream_effect list" where
  "stream_close s = (s\<lparr>st_closed := True\<rparr>, [CloseSocket])"

text \<open>A connection that was opened starts the count of attempts anew, so whatever URL it had, the next is the second: a
  second mirror that accepts and drops connections keeps the stream from the others.\<close>

lemma stream_returns_to_second:
  assumes "\<not> st_closed s"
  shows "stream_open options (fst (stream_closed (stream_opened s))) = [Connect (mo_urls options ! (1 mod length (mo_urls options)))]"
  using assms by (simp add: stream_open_def stream_closed_def stream_opened_def Let_def)

section \<open>Feeds\<close>

record MirrorFeed =
  mf_feedId :: hex
  mf_committee :: hex
  mf_latestTickMs :: int

text \<open>\<open>feeds\<close>: each time as \<open>BigInt\<close> reads it, which throws for one that is no integer.\<close>

definition client_feeds :: "MirrorClientOptions \<Rightarrow> (hex \<times> hex \<times> int result) list exchange \<Rightarrow> MirrorFeed list result" where
  "client_feeds options fetch =
    ebind (client_get options fetch ''/v1/feeds'' []) (\<lambda>feeds.
    emap (\<lambda>(feed, committee, latestTick). ebind latestTick (\<lambda>t.
      Inr \<lparr>mf_feedId = feed, mf_committee = committee, mf_latestTickMs = t\<rparr>)) feeds)"

section \<open>Failing over\<close>

fun retryable :: "'a reply \<Rightarrow> bool" where
  "retryable (Body b) \<longleftrightarrow> False"
| "retryable (Refused status) \<longleftrightarrow> 500 \<le> status \<or> status = 429"
| "retryable (Thrown e aborted) \<longleftrightarrow> \<not> aborted"

fun definitive :: "string \<Rightarrow> 'a reply \<Rightarrow> 'a result" where
  "definitive path (Body b) = Inr b"
| "definitive path (Refused status) = Inl (MirrorError path (Some status))"
| "definitive path (Thrown e aborted) = Inl e"

lemma get_from_first:
  "get_from path replies e = (case dropWhile retryable replies of
      r # _ \<Rightarrow> definitive path r
    | [] \<Rightarrow> (case rev replies of r # _ \<Rightarrow> definitive path r | [] \<Rightarrow> Inl e))"
proof (induction path replies e rule: get_from.induct)
  case (3 path status replies e)
  then show ?case by (cases replies rule: rev_cases) (auto split: list.splits)
next
  case (4 path e aborted replies e')
  then show ?case by (cases replies rule: rev_cases) (auto split: list.splits)
qed auto

section \<open>What the client returns is verified\<close>

definition price_verified :: "crypto \<Rightarrow> committees \<Rightarrow> hex \<Rightarrow> MirrorPrice \<Rightarrow> bool" where
  "price_verified C cs blob p \<longleftrightarrow> (\<exists>hash data v. (hash, data) \<in> set cs \<and> toLowerCase hash = mp_committee p \<and>
    verifyPriceUpdate C (Blob (HexStr blob)) (m_feedId (mp_message p)) hash data = Inr v \<and>
    v_message v = mp_message p \<and> h_publishTimeMs (v_header v) = mp_publishTimeMs p)"

lemma checked_price:
  assumes "client_checked C (Some cs) json requested = Inr mu" "p \<in> set (mu_prices mu)"
  shows "toLowerCase (m_feedId (mp_message p)) \<in> set requested \<and> price_verified C cs (mu_blob mu) p"
proof -
  from assms(1) have parsed: "parseMirrorUpdate json = Inr mu"
    by (auto simp: client_checked_def ebind_eq_Inr split: if_splits option.splits)
  then obtain u where u: "decodePriceUpdate (HexStr (mu_blob mu)) = Inr u"
      "mu_committee mu = toLowerCase (h_publisherSetTypeHash (u_header u))"
      "mu_prices mu = map (\<lambda>en. \<lparr>mp_message = e_message en, mp_committee = mu_committee mu,
         mp_publishTimeMs = h_publishTimeMs (u_header u)\<rparr>) (u_entries u)"
    by (auto simp: parseMirrorUpdate_def ebind_eq_Inr Let_def)
  then obtain en where en: "en \<in> set (u_entries u)" "mp_message p = e_message en" "mp_committee p = mu_committee mu"
      "mp_publishTimeMs p = h_publishTimeMs (u_header u)"
    using assms(2) by auto
  from assms(1) parsed have wanted: "toLowerCase (m_feedId (mp_message p)) \<in> set requested"
    using assms(2) by (auto simp: client_checked_def list_ex_iff split: if_splits)
  from assms(1) parsed obtain hash data where find: "find (\<lambda>(hash, _). toLowerCase hash = mu_committee mu) cs = Some (hash, data)"
      and all: "efold (\<lambda>_ p. ebind (verifyPriceUpdate C (Blob (HexStr (mu_blob mu))) (m_feedId (mp_message p)) hash data)
        (\<lambda>_. Inr ())) () (mu_prices mu) = Inr ()"
    by (auto simp: client_checked_def ebind_eq_Inr split: if_splits option.splits)
  have hash: "(hash, data) \<in> set cs" "toLowerCase hash = mu_committee mu"
    using find by (auto simp: find_Some_iff) (metis nth_mem)
  from all assms(2) obtain v where v: "verifyPriceUpdate C (Blob (HexStr (mu_blob mu))) (m_feedId (mp_message p)) hash data = Inr v"
    unfolding efold_unit by (auto simp: ebind_eq_Inr)
  then obtain e where "filter (\<lambda>e. toLowerCase (m_feedId (e_message e)) = toLowerCase (m_feedId (mp_message p))) (u_entries u) = [e]"
      "v = \<lparr>v_header = u_header u, v_message = e_message e\<rparr>"
    using u(1) by (auto simp: verifyPriceUpdate_iff simp del: filter_eq_Cons_iff decodeInput.simps)
  moreover have "en \<in> set (filter (\<lambda>e. toLowerCase (m_feedId (e_message e)) = toLowerCase (m_feedId (mp_message p))) (u_entries u))"
    using en by simp
  ultimately have "v_message v = mp_message p" "h_publishTimeMs (v_header v) = mp_publishTimeMs p"
    using en by simp_all
  with wanted hash v en(3) show ?thesis unfolding price_verified_def by metis
qed

section \<open>What an honest mirror serves is accepted\<close>

lemma selected_encodes:
  assumes d: "decodePriceUpdate blob = Inr u" and s: "selectFeeds u ids = Inr sel"
  shows "\<exists>bs. encodePriceUpdate sel = Inr bs \<and> decodePriceUpdate (Raw bs) = Inr sel"
proof -
  from d obtain raw where "decodePriceUpdate (Raw raw) = Inr u" by (auto simp: decodePriceUpdate_def ebind_eq_Inr)
  from this[unfolded update_codec.dec_iff] have u: "h_leafCount (u_header u) \<noteq> 0" "encodePriceUpdate u = Inr raw" "norm_update u = u"
    by auto
  define es where "es = filter (\<lambda>e. toLowerCase (m_feedId (e_message e)) \<in> set (map toLowerCase ids)) (u_entries u)"
  have sel: "sel = u\<lparr>u_entries := es\<rparr>" "es \<noteq> []"
    using s by (auto simp: selectFeeds_def Let_def es_def split: if_splits)
  from u(2) obtain h sb parts where e: "encodePriceUpdateHeader (u_header u) = Inr h" "encodeSignatureBundle (u_signatures u) = Inr sb"
      "is_u8 (int (length (u_entries u)))" "list_all2 (\<lambda>e p. run_writer (writeEntry e) = Inr p) (u_entries u) parts"
    by (auto simp: encodeUpdate_iff encodeEntries_iff)
  have "\<exists>ps. list_all2 (\<lambda>e p. run_writer (writeEntry e) = Inr p) es ps"
    by (rule exists_list_all2) (use e(4) in \<open>auto simp: es_def list_all2_conv_all_nth in_set_conv_nth\<close>)
  moreover have "length es \<le> length (u_entries u)" by (simp add: es_def)
  then have "is_u8 (int (length es))" using e(3) by (simp add: is_u8_def)
  ultimately obtain eb where "encodeEntries es = Inr eb" by (auto simp: encodeEntries_iff)
  with e(1,2) sel have enc: "encodePriceUpdate sel = Inr (h @ sb @ eb)" by (auto simp: encodeUpdate_iff)
  have "norm_entry en = en" if "en \<in> set (u_entries u)" for en
    using arg_cong[OF u(3), of u_entries] that by (auto simp: norm_update_def map_idI dest: map_eq_conv[THEN iffD1, of norm_entry _ id, simplified])
  then have "map norm_entry es = es" by (auto simp: es_def intro: map_idI)
  then have "norm_update sel = sel" using u(3) sel(1) by (cases u) (simp add: norm_update_def)
  then show ?thesis using enc update_codec.dec_iff u(1) sel(1) by auto
qed

lemma json_blob:
  assumes "decodePriceUpdate blob = Inr u" "mirrorUpdateJson u ids = Inr json"
  shows "\<exists>sel. selectFeeds u ids = Inr sel \<and> decodePriceUpdate (HexStr (uj_blob json)) = Inr sel"
proof -
  from assms(2) obtain sel bytes where s: "selectFeeds u ids = Inr sel" "encodePriceUpdate sel = Inr bytes" "uj_blob json = bytesToHex bytes"
    by (auto simp: mirrorUpdateJson_def ebind_eq_Inr)
  from selected_encodes[OF assms(1) s(1)] s(2) have "decodePriceUpdate (Raw bytes) = Inr sel" by auto
  with s show ?thesis by (simp add: decodePriceUpdate_def)
qed

lemma select_facts:
  "selectFeeds u ids = Inr sel \<Longrightarrow> sel = u\<lparr>u_entries := filter (\<lambda>e. toLowerCase (m_feedId (e_message e)) \<in> set (map toLowerCase ids)) (u_entries u)\<rparr>"
  by (auto simp: selectFeeds_def Let_def split: if_splits)

lemma entry_accepted_entries [simp]: "entry_accepted C (u\<lparr>u_entries := es\<rparr>) en committee d = entry_accepted C u en committee d"
  by (simp add: entry_accepted_def)

lemma served_verifies:
  assumes m: "mirrors_data committee d mc" "mirror_verify C mc blob = Inr u" "setIndex (currentSet d) - 1 \<le> h_setIndex (u_header u)"
    and sel: "selectFeeds u ids = Inr sel" and b: "decodePriceUpdate b' = Inr sel" and en: "en \<in> set (u_entries sel)"
  shows "\<exists>v. verifyPriceUpdate C (Blob b') (m_feedId (e_message en)) committee d = Inr v"
proof -
  have dec: "decodePriceUpdate blob = Inr u" and dist: "distinct (map (\<lambda>en. toLowerCase (m_feedId (e_message en))) (u_entries u))"
    using m(2) by (auto simp: mirror_verify_iff)
  have enu: "en \<in> set (u_entries u)" using en select_facts[OF sel] by simp
  from accepted_entry[OF m enu] obtain e where
    "filter (\<lambda>e. toLowerCase (m_feedId (e_message e)) = toLowerCase (m_feedId (e_message en))) (u_entries u) = [e]"
      "entry_accepted C u e committee d"
    using dec by (auto simp: verifyPriceUpdate_iff simp del: filter_eq_Cons_iff decodeInput.simps)
  with filter_distinct_key[OF dist enu] have "entry_accepted C u en committee d" by simp
  then have "entry_accepted C sel en committee d" by (subst select_facts[OF sel]) simp
  moreover have "distinct (map (\<lambda>en. toLowerCase (m_feedId (e_message en))) (u_entries sel))"
    using dist by (subst select_facts[OF sel]) (simp add: distinct_map_filter)
  from filter_distinct_key[OF this en]
  have "filter (\<lambda>e. toLowerCase (m_feedId (e_message e)) = toLowerCase (m_feedId (e_message en))) (u_entries sel) = [en]" by simp
  ultimately show ?thesis
    unfolding verifyPriceUpdate_iff using b by (intro exI) auto
qed

lemma find_single [simp]: "find P [x] = (if P x then Some x else None)"
  by simp

lemma served_selection:
  assumes m: "mirrors_data committee d mc" "mirror_verify C mc blob = Inr u" "setIndex (currentSet d) - 1 \<le> h_setIndex (u_header u)"
    and ids: "list_all (\<lambda>i. toLowerCase i = i) ids" and json: "mirrorUpdateJson u ids = Inr json"
  shows "\<exists>mu. client_checked C (Some [(committee, d)]) json ids = Inr mu \<and>
    mu_publishTimeMs mu = h_publishTimeMs (u_header u) \<and>
    map mp_message (mu_prices mu) = filter (\<lambda>m. toLowerCase (m_feedId m) \<in> set ids) (map e_message (u_entries u))"
proof -
  have dec: "decodePriceUpdate blob = Inr u" and hash: "toLowerCase (h_publisherSetTypeHash (u_header u)) = toLowerCase committee"
    using m(1,2) by (auto simp: mirror_verify_iff mirrors_data_def)
  obtain sel where sel: "selectFeeds u ids = Inr sel" and b: "decodePriceUpdate (HexStr (uj_blob json)) = Inr sel"
    using json_blob[OF dec json] by blast
  have low: "map toLowerCase ids = ids" using ids by (auto simp: list_all_iff intro: map_idI)
  note S = select_facts[OF sel, unfolded low]
  let ?mu = "\<lparr>mu_committee = toLowerCase committee, mu_publishTimeMs = h_publishTimeMs (u_header u), mu_blob = uj_blob json,
    mu_prices = map (\<lambda>en. \<lparr>mp_message = e_message en, mp_committee = toLowerCase committee,
      mp_publishTimeMs = h_publishTimeMs (u_header u)\<rparr>) (u_entries sel)\<rparr>"
  have parsed: "parseMirrorUpdate json = Inr ?mu"
    using b hash by (simp add: parseMirrorUpdate_def Let_def) (simp add: S)
  have "\<not> list_ex (\<lambda>p. toLowerCase (m_feedId (mp_message p)) \<notin> set ids) (mu_prices ?mu)"
    by (auto simp: list_ex_iff) (auto simp: S)
  moreover have "efold (\<lambda>_ p. ebind (verifyPriceUpdate C (Blob (HexStr (uj_blob json))) (m_feedId (mp_message p)) committee d)
      (\<lambda>_. Inr ())) () (mu_prices ?mu) = Inr ()"
    unfolding efold_unit using served_verifies[OF m sel b] by (auto simp: ebind_eq_Inr)
  ultimately have "client_checked C (Some [(committee, d)]) json ids = Inr ?mu"
    using parsed by (simp add: client_checked_def)
  moreover have "map mp_message (mu_prices ?mu) = filter (\<lambda>m. toLowerCase (m_feedId m) \<in> set ids) (map e_message (u_entries u))"
    by (simp add: filter_map comp_def) (simp add: S)
  ultimately show ?thesis by (intro exI[of _ ?mu]) simp
qed

text \<open>The blob of the demo mirror, served and read back.\<close>

definition demo_feed :: hex where "demo_feed = m_feedId (demo_message 1)"

lemma demo_feed [simp]: "toFeedId C demo_feed = demo_feed" "toLowerCase demo_feed = demo_feed"
proof -
  have "length (bytesToHex (1 # replicate 31 0)) = 66" by (simp add: bytesToHex_def byte_hex_def length_concat sum_list_replicate)
  then show "toFeedId C demo_feed = demo_feed" "toLowerCase demo_feed = demo_feed"
    by (simp_all add: toFeedId_def demo_feed_def demo_message_def)
qed

lemma demo_served:
  "\<exists>bs u json. mirror_verify demo_crypto demo_mirror (Raw bs) = Inr u \<and> h_setIndex (u_header u) = 1 \<and>
    mirrorUpdateJson u [demo_feed] = Inr json"
proof -
  obtain bs u where b: "mirror_verify demo_crypto demo_mirror (Raw bs) = Inr u" "h_setIndex (u_header u) = 1"
      "map e_message (u_entries u) = [demo_message 1]"
    using demo_accepted by metis
  then obtain en where "u_entries u = [en]" "e_message en = demo_message 1" by (cases "u_entries u") auto
  then have "selectFeeds u [demo_feed] = Inr (u\<lparr>u_entries := [en]\<rparr>)"
    by (simp add: selectFeeds_def flip: demo_feed_def)
  moreover have "decodePriceUpdate (Raw bs) = Inr u" using b(1) by (simp add: mirror_verify_iff)
  ultimately have "\<exists>json. mirrorUpdateJson u [demo_feed] = Inr json"
    using selected_encodes[of "Raw bs" u "[demo_feed]"] by (auto simp: mirrorUpdateJson_def)
  with b show ?thesis by blast
qed

lemma demo_rotated_index: "setIndex (currentSet demo_rotated) = 2"
  by (simp add: demo_rotated_def)

section \<open>Properties\<close>

text \<open>Claim C14: a client that has the committee data trusts no mirror. Whatever the mirrors answer, and however the
  client fails over, every price it returns was asked for, is the message of an entry of the blob it comes
  with, and \<open>verifyPriceUpdate\<close> accepts it with the data of its committee.\<close>

theorem client_prices_verified:
  assumes "client_updates C options fetch path feeds params committee = Inr updates"
    and "mo_committees options = Some cs"
  shows "list_all (\<lambda>mu. list_all (\<lambda>p. toLowerCase (m_feedId (mp_message p)) \<in> toFeedId C ` set feeds \<and>
    price_verified C cs (mu_blob mu) p) (mu_prices mu)) updates"
proof -
  from assms(1) obtain jsons where "emap (\<lambda>json. client_checked C (mo_committees options) json (map (toFeedId C) feeds)) jsons = Inr updates"
    by (auto simp: client_updates_def Let_def ebind_eq_Inr)
  then have "\<exists>json. client_checked C (Some cs) json (map (toFeedId C) feeds) = Inr mu" if "mu \<in> set updates" for mu
    using emap_member that assms(2) by fastforce
  then show ?thesis
    unfolding list_all_iff using checked_price by (metis image_set)
qed

theorem client_prices_verified_witness:
  "\<exists>json mu. client_updates demo_crypto \<lparr>mo_urls = [''http://m''], mo_apiKey = None,
      mo_committees = Some [(i_publisherSetTypeHash demo_single, demo_rotated)]\<rparr> (\<lambda>_ _ _. Body [json])
      ''/v1/updates/latest'' [demo_feed] [] None = Inr [mu] \<and>
    list_all (price_verified demo_crypto [(i_publisherSetTypeHash demo_single, demo_rotated)] (mu_blob mu)) (mu_prices mu)"
proof -
  let ?cs = "[(i_publisherSetTypeHash demo_single, demo_rotated)]"
  obtain bs u json where b: "mirror_verify demo_crypto demo_mirror (Raw bs) = Inr u" "h_setIndex (u_header u) = 1"
      "mirrorUpdateJson u [demo_feed] = Inr json"
    using demo_served by blast
  with served_selection[OF follows_mirrors[OF demo_follows] b(1), of "[demo_feed]" json] obtain mu where
    mu: "client_checked demo_crypto (Some ?cs) json [demo_feed] = Inr mu" by (auto simp: demo_rotated_index)
  let ?o = "\<lparr>mo_urls = [''http://m''], mo_apiKey = None, mo_committees = Some ?cs\<rparr>"
  have run: "client_updates demo_crypto ?o (\<lambda>_ _ _. Body [json]) ''/v1/updates/latest'' [demo_feed] [] None = Inr [mu]"
    using mu by (simp add: client_updates_def client_get_def Let_def)
  from client_prices_verified[OF this, of ?cs] have
    "list_all (price_verified demo_crypto ?cs (mu_blob mu)) (mu_prices mu)" by (simp add: list_all_iff)
  with run show ?thesis by blast
qed

text \<open>What an honest mirror serves passes the client's checks. Of an update the mirror accepted while it
  follows the committee cell, it serves the requested feeds; a client with the cell's data accepts this
  answer and gets exactly the messages of these feeds.\<close>

theorem served_selection_accepted:
  assumes "follows committee d mc" "mirror_verify C mc blob = Inr u" "setIndex (currentSet d) - 1 \<le> h_setIndex (u_header u)"
    and "mirrorUpdateJson u (map (toFeedId C) feeds) = Inr json"
  shows "\<exists>mu. client_checked C (Some [(committee, d)]) json (map (toFeedId C) feeds) = Inr mu \<and>
    mu_publishTimeMs mu = h_publishTimeMs (u_header u) \<and>
    map mp_message (mu_prices mu) =
      filter (\<lambda>m. toLowerCase (m_feedId m) \<in> toFeedId C ` set feeds) (map e_message (u_entries u))"
proof -
  have "list_all (\<lambda>i. toLowerCase i = i) (map (toFeedId C) feeds)"
    by (auto simp: list_all_iff toFeedId_def feedId_def)
  from served_selection[OF follows_mirrors[OF assms(1)] assms(2,3) this assms(4)] show ?thesis by simp
qed

theorem served_selection_accepted_witness:
  "\<exists>json mu. client_checked demo_crypto (Some [(i_publisherSetTypeHash demo_single, demo_rotated)]) json [demo_feed] = Inr mu"
proof -
  obtain bs u json where b: "mirror_verify demo_crypto demo_mirror (Raw bs) = Inr u" "h_setIndex (u_header u) = 1"
      "mirrorUpdateJson u [demo_feed] = Inr json"
    using demo_served by blast
  with served_selection_accepted[OF demo_follows b(1), of "[demo_feed]" json] show ?thesis
    by (auto simp: demo_rotated_index)
qed

end
