(* ===== verification/Rate_Limit.thy ===== *)
theory Rate_Limit
  imports Prelude Complex_Main "HOL-Library.AList"
begin

text \<open>
  \<open>apps/mirror/src/rateLimit.ts\<close>: token buckets per client. Tokens are rationals (a double's rounding is not
  modelled); \<open>None\<close> is a field that is missing, so that the arithmetic on it is \<open>NaN\<close>. Lemmas: a client is granted
  no more than its burst plus its rate times the elapsed time, if its bucket is full after a minute; without
  that proviso the sweep hands out more; a name every JavaScript object inherits is taken for an API key.
\<close>

section \<open>Limits and buckets\<close>

record Limit =
  lim_rps :: "rat option"
  lim_burst :: "rat option"
  lim_maxStreams :: "rat option"

record RateLimitConfig =
  rc_anonymous :: Limit
  rc_keys :: "(string \<times> Limit) list option"

definition DEFAULT_RATE_LIMIT :: RateLimitConfig where
  "DEFAULT_RATE_LIMIT = \<lparr>rc_anonymous = \<lparr>lim_rps = Some 10, lim_burst = Some 20, lim_maxStreams = Some 2\<rparr>, rc_keys = None\<rparr>"

record Bucket =
  bk_tokens :: "rat option"
  bk_updatedMs :: int
  bk_streams :: int

type_synonym buckets = "(string \<times> Bucket) list"

text \<open>\<open>keys?.[apiKey]\<close> reads a property of an object: its own, or one it inherits (\<open>OBJECT_PROTOTYPE\<close>), a function without these fields.\<close>

definition no_limit :: Limit where
  "no_limit = \<lparr>lim_rps = None, lim_burst = None, lim_maxStreams = None\<rparr>"

definition read_property :: "(string \<times> Limit) list \<Rightarrow> string \<Rightarrow> Limit option" where
  "read_property keys k = (case map_of keys k of
      Some l \<Rightarrow> Some l
    | None \<Rightarrow> if k \<in> set OBJECT_PROTOTYPE then Some no_limit else None)"

definition identify :: "RateLimitConfig \<Rightarrow> string \<Rightarrow> string option \<Rightarrow> (string \<times> Limit) option" where
  "identify config ip apiKey = (case apiKey of
      None \<Rightarrow> Some (''ip:'' @ ip, rc_anonymous config)
    | Some k \<Rightarrow> (case rc_keys config of
        None \<Rightarrow> None
      | Some keys \<Rightarrow> map_option (\<lambda>l. (''key:'' @ k, l)) (read_property keys k)))"

section \<open>Operations\<close>

text \<open>\<open>Math.min(limit.burst, bucket.tokens + ((now - bucket.updatedMs) / 1000) * limit.rps)\<close>.\<close>

definition refill :: "Limit \<Rightarrow> int \<Rightarrow> Bucket \<Rightarrow> rat option" where
  "refill limit now bucket = (case (lim_burst limit, bk_tokens bucket, lim_rps limit) of
      (Some burst, Some tokens, Some rps) \<Rightarrow> Some (min burst (tokens + of_int (now - bk_updatedMs bucket) / 1000 * rps))
    | _ \<Rightarrow> None)"

definition bucket_of :: "int \<Rightarrow> string \<Rightarrow> Limit \<Rightarrow> buckets \<Rightarrow> Bucket" where
  "bucket_of now client limit bs =
    (let b = (case map_of bs client of
           None \<Rightarrow> \<lparr>bk_tokens = lim_burst limit, bk_updatedMs = now, bk_streams = 0\<rparr>
         | Some b \<Rightarrow> b)
     in b\<lparr>bk_tokens := refill limit now b, bk_updatedMs := now\<rparr>)"

text \<open>What \<open>take\<close> returns: 0, a number of seconds, \<open>Infinity\<close> or \<open>NaN\<close>.\<close>

datatype wait = Granted | Seconds int | Forever | NotANumber

fun must_wait :: "wait \<Rightarrow> bool" where
  "must_wait Granted \<longleftrightarrow> False"
| "must_wait (Seconds n) \<longleftrightarrow> 0 < n"
| "must_wait Forever \<longleftrightarrow> True"
| "must_wait NotANumber \<longleftrightarrow> False"

definition take_token :: "int \<Rightarrow> string \<Rightarrow> Limit \<Rightarrow> buckets \<Rightarrow> wait \<times> buckets" where
  "take_token now client limit bs =
    (let b = bucket_of now client limit bs in
     case bk_tokens b of
       Some tokens \<Rightarrow>
         if 1 \<le> tokens then (Granted, AList.update client (b\<lparr>bk_tokens := Some (tokens - 1)\<rparr>) bs)
         else ((case lim_rps limit of
             Some rps \<Rightarrow> if rps = 0 then Forever else Seconds \<lceil>(1 - tokens) / rps\<rceil>
           | None \<Rightarrow> NotANumber), AList.update client b bs)
     | None \<Rightarrow> (NotANumber, AList.update client b bs))"

definition openStream :: "int \<Rightarrow> string \<Rightarrow> Limit \<Rightarrow> buckets \<Rightarrow> bool \<times> buckets" where
  "openStream now client limit bs =
    (let b = bucket_of now client limit bs in
     if (case lim_maxStreams limit of None \<Rightarrow> False | Some m \<Rightarrow> m \<le> of_int (bk_streams b))
     then (False, AList.update client b bs)
     else (True, AList.update client (b\<lparr>bk_streams := bk_streams b + 1\<rparr>) bs))"

definition closeStream :: "string \<Rightarrow> buckets \<Rightarrow> buckets" where
  "closeStream client bs = (case map_of bs client of
      None \<Rightarrow> bs
    | Some b \<Rightarrow> AList.update client (b\<lparr>bk_streams := max 0 (bk_streams b - 1)\<rparr>) bs)"

definition sweep :: "int \<Rightarrow> buckets \<Rightarrow> buckets" where
  "sweep now bs = filter (\<lambda>(client, b). \<not> (bk_streams b = 0 \<and> now - bk_updatedMs b > 60000)) bs"

section \<open>Runs\<close>

datatype limiter_op = TakeToken string Limit | OpenStream string Limit | CloseStream string | Sweep

fun limiter_step :: "int \<Rightarrow> limiter_op \<Rightarrow> buckets \<Rightarrow> wait option \<times> buckets" where
  "limiter_step now (TakeToken client limit) bs = map_prod Some id (take_token now client limit bs)"
| "limiter_step now (OpenStream client limit) bs = (None, snd (openStream now client limit bs))"
| "limiter_step now (CloseStream client) bs = (None, closeStream client bs)"
| "limiter_step now Sweep bs = (None, sweep now bs)"

text \<open>How many tokens a run grants a client.\<close>

fun granted :: "string \<Rightarrow> (int \<times> limiter_op) list \<Rightarrow> buckets \<Rightarrow> nat" where
  "granted client [] bs = 0"
| "granted client ((now, x) # ops) bs =
    (case x of TakeToken c l \<Rightarrow> if c = client \<and> fst (limiter_step now x bs) = Some Granted then 1 else 0 | _ \<Rightarrow> 0) +
    granted client ops (snd (limiter_step now x bs))"

fun uses_limit :: "string \<Rightarrow> Limit \<Rightarrow> limiter_op \<Rightarrow> bool" where
  "uses_limit client limit (TakeToken c l) \<longleftrightarrow> c = client \<longrightarrow> l = limit"
| "uses_limit client limit (OpenStream c l) \<longleftrightarrow> c = client \<longrightarrow> l = limit"
| "uses_limit client limit (CloseStream c) \<longleftrightarrow> True"
| "uses_limit client limit Sweep \<longleftrightarrow> True"

section \<open>The tokens a client has\<close>

text \<open>What a client could take at a time: a client without a bucket has the whole burst.\<close>

definition available :: "rat \<Rightarrow> rat \<Rightarrow> int \<Rightarrow> Bucket option \<Rightarrow> rat" where
  "available burst rps now b = (case b of
      None \<Rightarrow> burst
    | Some k \<Rightarrow> min burst (the (bk_tokens k) + of_int (now - bk_updatedMs k) / 1000 * rps))"

definition bucket_ok :: "rat \<Rightarrow> int \<Rightarrow> Bucket option \<Rightarrow> bool" where
  "bucket_ok burst now b \<longleftrightarrow> (case b of None \<Rightarrow> True
    | Some k \<Rightarrow> (\<exists>t \<ge> 0. bk_tokens k = Some t) \<and> bk_updatedMs k \<le> now)"

lemma available_later:
  assumes "now \<le> later" "0 \<le> rps"
  shows "available burst rps later b \<le> available burst rps now b + rps * of_int (later - now) / 1000"
proof (cases b)
  case None
  have "0 \<le> rps * of_int (later - now) / 1000" using assms by simp
  then show ?thesis by (simp add: available_def None)
next
  case (Some k)
  let ?x = "the (bk_tokens k)"
  have "0 \<le> rps * of_int (later - now) / 1000" using assms by simp
  moreover have "?x + of_int (later - bk_updatedMs k) / 1000 * rps =
      (?x + of_int (now - bk_updatedMs k) / 1000 * rps) + rps * of_int (later - now) / 1000"
    by (simp add: field_simps)
  ultimately show ?thesis unfolding available_def Some option.simps by linarith
qed

definition limit_is :: "Limit \<Rightarrow> rat \<Rightarrow> rat \<Rightarrow> bool" where
  "limit_is limit burst rps \<longleftrightarrow> lim_burst limit = Some burst \<and> lim_rps limit = Some rps \<and> 0 \<le> burst \<and> 0 \<le> rps"

lemma available_bounds:
  assumes "bucket_ok burst now b" "0 \<le> burst" "0 \<le> rps"
  shows "0 \<le> available burst rps now b \<and> available burst rps now b \<le> burst"
  using assms by (auto simp: available_def bucket_ok_def split: option.splits)

lemma bucket_of_tokens:
  assumes "limit_is limit burst rps" "bucket_ok burst now (map_of bs c)"
  shows "bk_tokens (bucket_of now c limit bs) = Some (available burst rps now (map_of bs c)) \<and>
    bk_updatedMs (bucket_of now c limit bs) = now"
  using assms by (auto simp: bucket_of_def Let_def refill_def available_def bucket_ok_def limit_is_def split: option.splits)

lemma available_now: "available burst rps now (Some \<lparr>bk_tokens = Some t, bk_updatedMs = now, bk_streams = n\<rparr>) = min burst t"
  by (simp add: available_def)

lemma map_of_update: "map_of (AList.update k v xs) k' = (if k' = k then Some v else map_of xs k')"
  by (simp add: update_conv')

definition limiter_ok :: "string \<Rightarrow> rat \<Rightarrow> int \<Rightarrow> buckets \<Rightarrow> bool" where
  "limiter_ok c burst now bs \<longleftrightarrow> distinct (map fst bs) \<and> bucket_ok burst now (map_of bs c)"

lemma take_step:
  assumes "limit_is limit burst rps" "limiter_ok c burst now bs" "x = TakeToken c limit"
  defines "bs' \<equiv> snd (limiter_step now x bs)"
  shows "limiter_ok c burst now bs' \<and> available burst rps now (map_of bs' c) +
      (if fst (limiter_step now x bs) = Some Granted then 1 else 0) = available burst rps now (map_of bs c)"
proof -
  let ?b = "bucket_of now c limit bs" and ?a = "available burst rps now (map_of bs c)"
  from assms(2) have ok: "distinct (map fst bs)" "bucket_ok burst now (map_of bs c)" by (auto simp: limiter_ok_def)
  have l: "lim_rps limit = Some rps" "0 \<le> burst" "0 \<le> rps" using assms(1) by (auto simp: limit_is_def)
  have t: "bk_tokens ?b = Some ?a" "bk_updatedMs ?b = now" using bucket_of_tokens[OF assms(1) ok(2)] by auto
  have a: "0 \<le> ?a" "?a \<le> burst" using available_bounds[OF ok(2) l(2,3)] by auto
  show ?thesis
  proof (cases "1 \<le> ?a")
    case True
    then have "limiter_step now x bs = (Some Granted, AList.update c (?b\<lparr>bk_tokens := Some (?a - 1)\<rparr>) bs)"
      by (simp add: assms(3) take_token_def Let_def t)
    with True t a show ?thesis
      using ok(1) by (simp add: bs'_def limiter_ok_def bucket_ok_def map_of_update distinct_update available_def)
  next
    case False
    then have "snd (limiter_step now x bs) = AList.update c ?b bs" "fst (limiter_step now x bs) \<noteq> Some Granted"
      by (simp_all add: assms(3) take_token_def Let_def t l(1))
    with t a show ?thesis
      using ok(1) by (simp add: bs'_def limiter_ok_def bucket_ok_def map_of_update distinct_update available_def)
  qed
qed

lemma map_of_filter_keys:
  "distinct (map fst xs) \<Longrightarrow> map_of (filter (\<lambda>(k, v). P k v) xs) k = (case map_of xs k of None \<Rightarrow> None | Some v \<Rightarrow> if P k v then Some v else None)"
proof (induction xs)
  case (Cons x xs)
  obtain k' v where x: "x = (k', v)" by (cases x)
  have "map_of xs k' = None" using Cons.prems by (simp add: x map_of_eq_None_iff)
  with Cons show ?case by (auto simp: x split: option.splits)
qed simp

lemma sweep_step:
  assumes "limit_is limit burst rps" "limiter_ok c burst now bs" "burst \<le> 60 * rps"
  shows "limiter_ok c burst now (sweep now bs) \<and> available burst rps now (map_of (sweep now bs) c) = available burst rps now (map_of bs c)"
proof (cases "map_of bs c")
  case None
  with assms(2) show ?thesis
    by (auto simp: sweep_def limiter_ok_def map_of_filter_keys distinct_map_filter bucket_ok_def)
next
  case (Some k)
  from assms(2) Some obtain t where t: "bk_tokens k = Some t" "0 \<le> t" by (auto simp: limiter_ok_def bucket_ok_def)
  have "available burst rps now (Some k) = burst" if "now - bk_updatedMs k > 60000"
  proof -
    have "60 \<le> of_int (now - bk_updatedMs k) / (1000 :: rat)"
      using that by (simp add: pos_le_divide_eq)
    then have "60 * rps \<le> of_int (now - bk_updatedMs k) / 1000 * rps"
      using assms(1) by (intro mult_right_mono) (auto simp: limit_is_def)
    with assms(3) t show ?thesis by (simp add: available_def)
  qed
  with Some assms(2) show ?thesis
    by (auto simp: sweep_def limiter_ok_def map_of_filter_keys distinct_map_filter bucket_ok_def available_def)
qed

lemma limiter_step_available:
  assumes "limit_is limit burst rps" "limiter_ok c burst now bs" "burst \<le> 60 * rps" "uses_limit c limit x"
  defines "bs' \<equiv> snd (limiter_step now x bs)"
  shows "limiter_ok c burst now bs' \<and> available burst rps now (map_of bs' c) +
      (case x of TakeToken c' l \<Rightarrow> if c' = c \<and> fst (limiter_step now x bs) = Some Granted then 1 else 0 | _ \<Rightarrow> 0)
    = available burst rps now (map_of bs c)"
proof (cases x)
  case (TakeToken c' l)
  show ?thesis
  proof (cases "c' = c")
    case True
    with TakeToken assms(4) have "x = TakeToken c limit" by simp
    from take_step[OF assms(1,2) this] TakeToken True show ?thesis by (simp add: bs'_def)
  next
    case False
    then have "map_of bs' c = map_of bs c" "distinct (map fst bs')"
      using TakeToken assms(2)
      by (auto simp: bs'_def take_token_def Let_def map_of_update limiter_ok_def distinct_update split: option.splits)
    with assms(2) False TakeToken show ?thesis by (simp add: limiter_ok_def)
  qed
next
  case (OpenStream c' l)
  show ?thesis
  proof (cases "c' = c")
    case True
    with OpenStream assms(4) have l: "l = limit" by simp
    have ok: "bucket_ok burst now (map_of bs c)" using assms(2) by (simp add: limiter_ok_def)
    have t: "bk_tokens (bucket_of now c limit bs) = Some (available burst rps now (map_of bs c))"
        "bk_updatedMs (bucket_of now c limit bs) = now" using bucket_of_tokens[OF assms(1) ok] by auto
    have a: "0 \<le> available burst rps now (map_of bs c)" "available burst rps now (map_of bs c) \<le> burst"
      using available_bounds[OF ok] assms(1) by (auto simp: limit_is_def)
    show ?thesis
      using OpenStream True l t a assms(2)
      by (auto simp: bs'_def openStream_def Let_def map_of_update limiter_ok_def distinct_update bucket_ok_def available_def
          split: option.splits if_splits)
  next
    case False
    then have "map_of bs' c = map_of bs c" "distinct (map fst bs')"
      using OpenStream assms(2)
      by (auto simp: bs'_def openStream_def Let_def map_of_update limiter_ok_def distinct_update split: option.splits)
    with assms(2) OpenStream show ?thesis by (simp add: limiter_ok_def)
  qed
next
  case (CloseStream c')
  then show ?thesis
    using assms(2)
    by (auto simp: bs'_def closeStream_def map_of_update limiter_ok_def distinct_update bucket_ok_def available_def
        simp del: map_of_eq_Some_iff split: option.splits)
next
  case Sweep
  with sweep_step[OF assms(1-3)] show ?thesis by (simp add: bs'_def)
qed

lemma granted_bound:
  assumes "limit_is limit burst rps" "burst \<le> 60 * rps" "list_all (uses_limit c limit \<circ> snd) ops"
    and "sorted (now # map fst ops)" "list_all (\<lambda>x. fst x \<le> until) ops" "now \<le> until" "limiter_ok c burst now bs"
  shows "of_nat (granted c ops bs) \<le> available burst rps now (map_of bs c) + rps * of_int (until - now) / 1000"
  using assms(3-7)
proof (induction ops arbitrary: now bs)
  case Nil
  have "0 \<le> rps * of_int (until - now) / 1000" using assms(1) Nil by (simp add: limit_is_def)
  moreover have "0 \<le> available burst rps now (map_of bs c)"
    using available_bounds Nil assms(1) by (auto simp: limiter_ok_def limit_is_def)
  ultimately show ?case by simp
next
  case (Cons y ops)
  obtain t x where y: "y = (t, x)" by (cases y)
  with Cons.prems have t: "now \<le> t" "t \<le> until" by auto
  let ?bs = "snd (limiter_step t x bs)"
  have ok: "limiter_ok c burst t bs"
    using Cons.prems(5) t(1) by (auto simp: limiter_ok_def bucket_ok_def simp del: map_of_eq_Some_iff split: option.splits)
  have u: "uses_limit c limit x" using Cons.prems(1) y by simp
  note step = limiter_step_available[OF assms(1) ok assms(2) u]
  have "of_nat (granted c ops ?bs) \<le> available burst rps t (map_of ?bs c) + rps * of_int (until - t) / 1000"
    using Cons.prems y t step by (intro Cons.IH) auto
  moreover have "available burst rps t (map_of bs c) \<le> available burst rps now (map_of bs c) + rps * of_int (t - now) / 1000"
    using available_later[OF t(1), of rps burst "map_of bs c"] assms(1) by (simp add: limit_is_def)
  moreover have "rps * of_int (until - now) / 1000 = rps * of_int (until - t) / 1000 + rps * of_int (t - now) / 1000"
    by (simp add: field_simps)
  moreover have "(of_nat (granted c (y # ops) bs) :: rat) =
      (case x of TakeToken c' l \<Rightarrow> if c' = c \<and> fst (limiter_step t x bs) = Some Granted then 1 else 0 | _ \<Rightarrow> 0) + of_nat (granted c ops ?bs)"
    by (cases x) (auto simp: y)
  ultimately show ?case using step by linarith
qed

section \<open>Properties\<close>

text \<open>The rate limit holds. In any run of the limiter, with any other clients, openings, closings and sweeps,
  a client is granted at most its burst plus its rate times the time since the run began, if its bucket is
  full after a minute (the defaults are).\<close>

theorem rate_limited:
  assumes "limit_is limit burst rps" "burst \<le> 60 * rps" "list_all (uses_limit c limit \<circ> snd) ops"
    and "sorted (start # map fst ops)" "list_all (\<lambda>x. fst x \<le> until) ops" "start \<le> until"
  shows "of_nat (granted c ops []) \<le> burst + rps * of_int (until - start) / 1000"
proof -
  have "limiter_ok c burst start []" by (simp add: limiter_ok_def bucket_ok_def)
  from granted_bound[OF assms this] show ?thesis by (simp add: available_def)
qed

definition default_limit :: Limit where "default_limit = rc_anonymous DEFAULT_RATE_LIMIT"

theorem rate_limited_witness:
  "rat_of_nat (granted ''ip:a'' [(0, TakeToken ''ip:a'' default_limit), (70000, Sweep), (70000, TakeToken ''ip:a'' default_limit)] [])
    \<le> 20 + 10 * of_int 70000 / 1000"
  using rate_limited[of default_limit 20 10 "''ip:a''" "[(0, TakeToken ''ip:a'' default_limit), (70000, Sweep), (70000, TakeToken ''ip:a'' default_limit)]" 0 70000]
  by (simp add: limit_is_def default_limit_def DEFAULT_RATE_LIMIT_def)

text \<open>The sweep forgets a bucket that is idle for a minute even if it is not full, and the client starts with a full
  one: with a burst of 2 and 1/100 requests a second, four are granted in a minute.\<close>

lemma sweep_forgets_debt:
  defines "l \<equiv> \<lparr>lim_rps = Some (1 / 100), lim_burst = Some 2, lim_maxStreams = None\<rparr>"
  shows "granted ''k'' [(0, TakeToken ''k'' l), (0, TakeToken ''k'' l), (60001, Sweep),
    (60001, TakeToken ''k'' l), (60001, TakeToken ''k'' l)] [] = 4"
  by (simp add: l_def take_token_def bucket_of_def refill_def sweep_def)

text \<open>Where keys are configured, the name of an inherited property is an API key without any limit.\<close>

lemma inherited_key_unlimited:
  assumes "rc_keys config = Some keys" "map_of keys ''constructor'' = None"
  shows "identify config ip (Some ''constructor'') = Some (''key:constructor'', no_limit) \<and>
    \<not> must_wait (fst (take_token now ''key:constructor'' no_limit bs)) \<and>
    fst (openStream now ''key:constructor'' no_limit bs)"
  using assms
  by (simp add: identify_def read_property_def OBJECT_PROTOTYPE_def take_token_def bucket_of_def Let_def refill_def
      no_limit_def openStream_def)

end
