(* ===== verification/Mirror_Api.thy ===== *)
theory Mirror_Api
  imports Mirror_Ingest Mirror_Client Rate_Limit Fixed_Point
begin

text \<open>
  \<open>apps/mirror/src/api.ts\<close> and \<open>config.ts\<close>: the handler of the public read API, the subscriptions of the stream, the
  checks of the configuration. A request is what the handler reads of it; a response is its status, body and
  headers. Lemmas: every request is answered, with a status that says why; what is served is in the store
  and was asked for; a negative limit lifts the bound on a range.
\<close>

section \<open>Parameters\<close>

definition MAX_IDS :: nat where "MAX_IDS = 64"
definition MAX_RANGE :: int where "MAX_RANGE = 1000"

text \<open>\<open>s.split(",")\<close>.\<close>

fun split_comma :: "string \<Rightarrow> string list" where
  "split_comma [] = [[]]"
| "split_comma (c # s) = (if c = CHR '','' then [] # split_comma s
    else (case split_comma s of w # ws \<Rightarrow> (c # w) # ws | [] \<Rightarrow> [[c]]))"

definition feedIds :: "crypto \<Rightarrow> string option \<Rightarrow> hex list result" where
  "feedIds C raw =
    (let ids = filter (\<lambda>s. s \<noteq> []) (map trim (split_comma (case raw of None \<Rightarrow> [] | Some s \<Rightarrow> s))) in
     if length ids = 0 then Inl (BadRequest ''ids is required'')
     else if length ids > MAX_IDS then Inl (BadRequest ''too many ids'')
     else Inr (rev (remdups (rev (map (toFeedId C) ids)))))"

definition tickParam :: "string option \<Rightarrow> int result" where
  "tickParam raw = (case raw of
      None \<Rightarrow> Inl (BadRequest ''must be a Unix time in ms'')
    | Some s \<Rightarrow> if is_decimal s \<and> length s \<le> 20 then Inr (decimal_value s) else Inl (BadRequest ''must be a Unix time in ms''))"

definition committeeParam :: "string option \<Rightarrow> hex option result" where
  "committeeParam raw = (case raw of
      None \<Rightarrow> Inr None
    | Some s \<Rightarrow> if isHex s \<and> length s = 66 then Inr (Some (toLowerCase s))
        else Inl (BadRequest ''committee must be a 32-byte hex type hash''))"

text \<open>\<open>Number(s)\<close> of a decimal, with or without a sign and a fraction; other strings are \<open>NaN\<close> here (exponents,
  radix prefixes and \<open>Infinity\<close> are left out).\<close>

definition number_of :: "string \<Rightarrow> rat option" where
  "number_of s =
    (let t = trim s;
         sign = (if t \<noteq> [] \<and> t ! 0 = CHR ''-'' then - 1 else 1 :: rat);
         body = (if t \<noteq> [] \<and> (t ! 0 = CHR ''-'' \<or> t ! 0 = CHR ''+'') then drop 1 t else t)
     in if t = [] then Some 0
        else map_option (\<lambda>(w, f). sign * (of_int (decimal_value w) + of_int (decimal_value f) / 10 ^ length f)) (decimal_match body))"

text \<open>\<open>Math.min(Number(raw ?? d) || d, most)\<close>, bound to \<open>LIMIT\<close>: SQLite refuses a fraction.\<close>

definition limitParam :: "string option \<Rightarrow> int \<Rightarrow> int \<Rightarrow> int result" where
  "limitParam raw d most =
    (let n = (case raw of None \<Rightarrow> Some (of_int d) | Some s \<Rightarrow> number_of s);
         v = min (case n of None \<Rightarrow> of_int d | Some x \<Rightarrow> if x = 0 then of_int d else x) (of_int most)
     in if of_int \<lfloor>v\<rfloor> = v then Inr \<lfloor>v\<rfloor> else Inl (Failure ''datatype mismatch''))"

text \<open>A \<open>bigint\<close> binds to a parameter if it fits SQLite's 64-bit INTEGER.\<close>

definition bind_integer :: "int \<Rightarrow> int result" where
  "bind_integer v = (if - (2 ^ 63) \<le> v \<and> v < 2 ^ 63 then Inr v else Inl (RangeError ''BigInt value is too large to bind''))"

section \<open>Answers\<close>

text \<open>\<open>grouped\<close>: one entry per (committee, tick), in the order of the first id that needs it.\<close>

definition group_key :: "StoredUpdate \<Rightarrow> hex \<times> int" where
  "group_key s = (su_committee s, su_tickMs s)"

fun group_results :: "(hex \<times> StoredUpdate option) list \<Rightarrow> ((hex \<times> int) \<times> StoredUpdate \<times> hex list) list \<Rightarrow> hex list \<Rightarrow>
    ((hex \<times> int) \<times> StoredUpdate \<times> hex list) list \<times> hex list" where
  "group_results [] groups missing = (groups, missing)"
| "group_results ((fid, None) # results) groups missing = group_results results groups (missing @ [fid])"
| "group_results ((fid, Some stored) # results) groups missing =
    (let g = (case map_of groups (group_key stored) of None \<Rightarrow> (stored, []) | Some g \<Rightarrow> g)
     in group_results results (AList.update (group_key stored) (fst g, snd g @ [fid]) groups) missing)"

definition update_json :: "StoredUpdate \<Rightarrow> hex list \<Rightarrow> MirrorUpdateJson result" where
  "update_json stored ids = ebind (decodePriceUpdate (Raw (su_blob stored))) (\<lambda>u. mirrorUpdateJson u ids)"

definition grouped :: "(hex \<times> StoredUpdate option) list \<Rightarrow> (MirrorUpdateJson list \<times> hex list) result" where
  "grouped results =
    (let (groups, missing) = group_results results [] [] in
     ebind (emap (\<lambda>(_, stored, ids). update_json stored ids) groups) (\<lambda>updates. Inr (updates, missing)))"

record HealthEntry =
  he_name :: string
  he_committee :: hex
  he_ready :: bool
  he_latestTickMs :: "string option"
  he_sourcesConnected :: nat
  he_sources :: nat

datatype api_body =
    ErrorBody string
  | HealthBody "HealthEntry list"
  | FeedsBody "(hex \<times> hex \<times> string) list"
  | UpdatesBody "MirrorUpdateJson list" "hex list"
  | RangeBody "MirrorUpdateJson list"
  | EquivocationsBody "Equivocation list"
  | EmptyBody

record Response =
  rs_status :: int
  rs_body :: api_body
  rs_cache :: string
  rs_retryAfter :: "wait option"

record Request =
  rq_method :: string
  rq_path :: string
  rq_params :: "(string \<times> string) list"
  rq_apiKey :: "string option"
  rq_forwarded :: "string option"
  rq_remote :: "string option"

record ApiDeps =
  ad_store :: MirrorStore
  ad_committees :: "(string \<times> MirrorCommittee) list"
  ad_sources :: "(nat \<times> PublisherSource) list"
  ad_limits :: RateLimitConfig
  ad_trustProxy :: bool

definition respond :: "int \<Rightarrow> api_body \<Rightarrow> string \<Rightarrow> Response" where
  "respond status body cache = \<lparr>rs_status = status, rs_body = body, rs_cache = cache, rs_retryAfter = None\<rparr>"

definition NO_STORE :: string where "NO_STORE = ''no-store''"
definition ONE_SECOND :: string where "ONE_SECOND = ''public, max-age=1''"
definition IMMUTABLE :: string where "IMMUTABLE = ''public, max-age=31536000, immutable''"

definition clientIp :: "ApiDeps \<Rightarrow> Request \<Rightarrow> string" where
  "clientIp deps req =
    (let f = (if ad_trustProxy deps then trim (split_comma (case rq_forwarded req of None \<Rightarrow> [] | Some h \<Rightarrow> h) ! 0) else []);
         r = (case rq_remote req of None \<Rightarrow> [] | Some a \<Rightarrow> a)
     in if f \<noteq> [] then f else if r \<noteq> [] then r else ''unknown'')"

definition apiKeyOf :: "Request \<Rightarrow> string option" where
  "apiKeyOf req = (case rq_apiKey req of Some k \<Rightarrow> Some k | None \<Rightarrow> map_of (rq_params req) ''apiKey'')"

definition health :: "ApiDeps \<Rightarrow> HealthEntry list" where
  "health deps = map (\<lambda>(i, name, c). \<lparr>he_name = name, he_committee = mc_typeHash c, he_ready = committee_ready c,
      he_latestTickMs = map_option int_string (latestTick (ad_store deps) (mc_typeHash c)),
      he_sourcesConnected = length (filter (\<lambda>(j, s). j = i \<and> src_connected s) (ad_sources deps)),
      he_sources = length (filter (\<lambda>(j, s). j = i) (ad_sources deps))\<rparr>)
    (enumerate 0 (ad_committees deps))"

definition latest_answer :: "crypto \<Rightarrow> MirrorStore \<Rightarrow> hex option \<Rightarrow> (string \<times> string) list \<Rightarrow> Response result" where
  "latest_answer C store committee ps =
    ebind (feedIds C (map_of ps ''ids'')) (\<lambda>ids.
    ebind (grouped (map (\<lambda>id. (id, latest store id committee)) ids)) (\<lambda>(updates, missing).
    Inr (respond 200 (UpdatesBody updates missing) NO_STORE)))"

definition at_answer :: "crypto \<Rightarrow> MirrorStore \<Rightarrow> hex option \<Rightarrow> (string \<times> string) list \<Rightarrow> Response result" where
  "at_answer C store committee ps =
    ebind (tickParam (map_of ps ''t'')) (\<lambda>t.
    ebind (feedIds C (map_of ps ''ids'')) (\<lambda>ids.
    ebind (bind_integer t) (\<lambda>_.
    ebind (grouped (map (\<lambda>id. (id, atOrAfter store id t committee)) ids)) (\<lambda>(updates, missing).
    let exact = (length missing = 0 \<and> list_all (\<lambda>u. uj_publishTimeMs u = int_string t) updates)
    in Inr (respond 200 (UpdatesBody updates missing) (if exact then IMMUTABLE else ONE_SECOND))))))"

definition range_answer :: "crypto \<Rightarrow> MirrorStore \<Rightarrow> hex option \<Rightarrow> (string \<times> string) list \<Rightarrow> Response result" where
  "range_answer C store committee ps =
    (let id = toFeedId C (case map_of ps ''id'' of None \<Rightarrow> [] | Some s \<Rightarrow> s) in
     ebind (tickParam (map_of ps ''from'')) (\<lambda>f.
     ebind (tickParam (map_of ps ''to'')) (\<lambda>t.
     ebind (bind_integer f) (\<lambda>_.
     ebind (bind_integer t) (\<lambda>_.
     ebind (limitParam (map_of ps ''limit'') MAX_RANGE MAX_RANGE) (\<lambda>limit.
     ebind (emap (\<lambda>s. update_json s [id]) (range_of store id f t limit committee)) (\<lambda>updates.
     Inr (respond 200 (RangeBody updates) ONE_SECOND))))))))"

definition route :: "crypto \<Rightarrow> MirrorStore \<Rightarrow> Request \<Rightarrow> Response result" where
  "route C store req =
    (let ps = rq_params req in
     ebind (committeeParam (map_of ps ''committee'')) (\<lambda>committee.
     if rq_path req = ''/v1/feeds'' then
       Inr (respond 200 (FeedsBody (map (\<lambda>f. (fd_feedId f, fd_committee f, int_string (fd_latestTickMs f))) (feeds_of store))) ONE_SECOND)
     else if rq_path req = ''/v1/updates/latest'' then latest_answer C store committee ps
     else if rq_path req = ''/v1/updates/at'' then at_answer C store committee ps
     else if rq_path req = ''/v1/updates/range'' then range_answer C store committee ps
     else if rq_path req = ''/v1/equivocations'' then
       ebind (limitParam (map_of ps ''limit'') 100 1000) (\<lambda>limit.
       Inr (respond 200 (EquivocationsBody (equivocations store limit)) NO_STORE))
     else Inr (respond 404 (ErrorBody ''not found'') NO_STORE)))"

definition error_response :: "js_error \<Rightarrow> Response" where
  "error_response e = (case e of
      BadRequest message \<Rightarrow> respond 400 (ErrorBody message) NO_STORE
    | _ \<Rightarrow> respond 500 (ErrorBody ''internal error'') NO_STORE)"

definition handle :: "crypto \<Rightarrow> ApiDeps \<Rightarrow> int \<Rightarrow> Request \<Rightarrow> buckets \<Rightarrow> Response \<times> buckets" where
  "handle C deps now req bs =
    (if rq_method req = ''OPTIONS'' then (respond 204 EmptyBody [], bs)
     else if rq_method req \<noteq> ''GET'' then (respond 405 (ErrorBody ''method not allowed'') NO_STORE, bs)
     else if rq_path req = ''/health'' then (respond 200 (HealthBody (health deps)) NO_STORE, bs)
     else case identify (ad_limits deps) (clientIp deps req) (apiKeyOf req) of
       None \<Rightarrow> (respond 401 (ErrorBody ''unknown API key'') NO_STORE, bs)
     | Some (client, limit) \<Rightarrow>
         let (wait, bs') = take_token now client limit bs in
         if must_wait wait then ((respond 429 (ErrorBody ''rate limited'') NO_STORE)\<lparr>rs_retryAfter := Some wait\<rparr>, bs')
         else (case route C (ad_store deps) req of Inl e \<Rightarrow> (error_response e, bs') | Inr r \<Rightarrow> (r, bs')))"

section \<open>The stream\<close>

record Subscriber =
  sb_client :: string
  sb_ids :: "hex list"
  sb_committee :: "hex option"

text \<open>The upgrade handler: a status line that refuses, or the subscriber.\<close>

definition upgrade :: "crypto \<Rightarrow> ApiDeps \<Rightarrow> int \<Rightarrow> Request \<Rightarrow> buckets \<Rightarrow> (string + Subscriber) \<times> buckets" where
  "upgrade C deps now req bs =
    (if rq_path req \<noteq> ''/v1/stream'' then (Inl ''404 Not Found'', bs)
     else case identify (ad_limits deps) (clientIp deps req) (apiKeyOf req) of
       None \<Rightarrow> (Inl ''401 Unauthorized'', bs)
     | Some (client, limit) \<Rightarrow>
         (case ebind (feedIds C (map_of (rq_params req) ''ids'')) (\<lambda>ids.
               ebind (committeeParam (map_of (rq_params req) ''committee'')) (\<lambda>committee. Inr (ids, committee))) of
           Inl e \<Rightarrow> (Inl ''400 Bad Request'', bs)
         | Inr (ids, committee) \<Rightarrow>
             (let (ok, bs') = openStream now client limit bs in
              if \<not> ok then (Inl ''429 Too Many Requests'', bs')
              else (Inr \<lparr>sb_client = client, sb_ids = ids, sb_committee = committee\<rparr>, bs'))))"

text \<open>What one subscriber is sent of a new update.\<close>

definition stream_frame :: "PriceUpdate \<Rightarrow> Subscriber \<Rightarrow> MirrorUpdateJson option result" where
  "stream_frame update s =
    (let committee = toLowerCase (h_publisherSetTypeHash (u_header update)) in
     if (case sb_committee s of None \<Rightarrow> False | Some c \<Rightarrow> c \<noteq> committee) then Inr None
     else
       let ids = filter (\<lambda>id. id \<in> set (sb_ids s)) (map (\<lambda>en. toLowerCase (m_feedId (e_message en))) (u_entries update))
       in if length ids > 0 then ebind (mirrorUpdateJson update ids) (\<lambda>j. Inr (Some j)) else Inr None)"

section \<open>The configuration\<close>

record CommitteeSourceConfig =
  cs_name :: string
  cs_publisherSetTypeHash :: hex
  cs_chain :: bool
  cs_publisherSetFile :: "string option"
  cs_publishers :: "string list option"

text \<open>Optional parts of the parsed JSON are options; \<open>retentionDays\<close> is a finite number or not.\<close>

record MirrorConfig =
  cf_http :: bool
  cf_dataPath :: "string option"
  cf_committees :: "CommitteeSourceConfig list option"
  cf_rateLimit :: "RateLimitConfig option"
  cf_retentionDays :: "rat option option"

definition loadMirrorConfig :: "MirrorConfig \<Rightarrow> MirrorConfig result" where
  "loadMirrorConfig config =
    (if \<not> cf_http config \<or> cf_dataPath config \<in> {None, Some []} \<or> cf_committees config \<in> {None, Some []}
     then Inl (Failure ''mirror config needs http, dataPath and at least one committee'')
     else if (case cf_retentionDays config of None \<Rightarrow> False | Some d \<Rightarrow> (case d of None \<Rightarrow> True | Some x \<Rightarrow> x < 0))
     then Inl (Failure ''retentionDays must be a number of days, 0 or more (0 keeps everything)'')
     else
       ebind (efold (\<lambda>_ c.
           if \<not> cs_chain c \<and> cs_publisherSetFile c \<in> {None, Some []} then Inl (Failure ''needs chain or publisherSetFile'')
           else if cs_publishers c \<in> {None, Some []} then Inl (Failure ''needs at least one publisher URL'')
           else Inr ()) () (the (cf_committees config))) (\<lambda>_.
       Inr config))"

definition DEFAULT_RETENTION_DAYS :: rat where "DEFAULT_RETENTION_DAYS = 7"

text \<open>The window \<open>startMirror\<close> prunes to.\<close>

definition retention_window :: "MirrorConfig \<Rightarrow> rat" where
  "retention_window config = (case cf_retentionDays config of Some (Some d) \<Rightarrow> d | _ \<Rightarrow> DEFAULT_RETENTION_DAYS) * 86400000"

section \<open>Grouping\<close>

type_synonym groups = "((hex \<times> int) \<times> StoredUpdate \<times> hex list) list"

definition groups_ok :: "(hex \<times> StoredUpdate option) set \<Rightarrow> groups \<Rightarrow> bool" where
  "groups_ok R groups \<longleftrightarrow> distinct (map fst groups) \<and>
    (\<forall>k st ids. map_of groups k = Some (st, ids) \<longrightarrow> k = group_key st \<and> ids \<noteq> [] \<and> (\<exists>f. (f, Some st) \<in> R) \<and>
      (\<forall>f \<in> set ids. \<exists>st'. (f, Some st') \<in> R \<and> group_key st' = k))"

definition groups_grow :: "groups \<Rightarrow> groups \<Rightarrow> bool" where
  "groups_grow g g' \<longleftrightarrow> (\<forall>k st ids. map_of g k = Some (st, ids) \<longrightarrow> (\<exists>ids'. map_of g' k = Some (st, ids') \<and> set ids \<subseteq> set ids'))"

lemma grow_refl [simp]: "groups_grow g g"
  by (auto simp: groups_grow_def)

lemma grow_trans: "groups_grow a b \<Longrightarrow> groups_grow b c \<Longrightarrow> groups_grow a c"
  unfolding groups_grow_def by (meson order_trans)

lemma groups_okD:
  "groups_ok R groups \<Longrightarrow> map_of groups k = Some (st, ids) \<Longrightarrow> k = group_key st \<and> ids \<noteq> [] \<and> (\<exists>f. (f, Some st) \<in> R) \<and>
    (\<forall>f \<in> set ids. \<exists>st'. (f, Some st') \<in> R \<and> group_key st' = k)"
  unfolding groups_ok_def by blast

lemma add_to_group:
  assumes "groups_ok R groups" "(f, Some stored) \<in> R"
  defines "g \<equiv> (case map_of groups (group_key stored) of None \<Rightarrow> (stored, []) | Some g \<Rightarrow> g)"
  defines "groups' \<equiv> AList.update (group_key stored) (fst g, snd g @ [f]) groups"
  shows "groups_ok R groups' \<and> groups_grow groups groups' \<and>
    (\<exists>st ids. map_of groups' (group_key stored) = Some (st, ids) \<and> f \<in> set ids)"
proof -
  have m: "map_of groups' k = (if k = group_key stored then Some (fst g, snd g @ [f]) else map_of groups k)" for k
    by (simp add: groups'_def map_of_update)
  have d: "distinct (map fst groups')" using assms(1) by (simp add: groups'_def groups_ok_def distinct_update)
  have "k = group_key st \<and> ids \<noteq> [] \<and> (\<exists>f. (f, Some st) \<in> R) \<and> (\<forall>f \<in> set ids. \<exists>st'. (f, Some st') \<in> R \<and> group_key st' = k)"
    if k: "map_of groups' k = Some (st, ids)" for k st ids
  proof (cases "k = group_key stored")
    case True
    show ?thesis
    proof (cases "map_of groups k")
      case None
      with k True assms(2) show ?thesis by (auto simp: m g_def)
    next
      case (Some g0)
      obtain st0 ids0 where g0: "g0 = (st0, ids0)" by (cases g0)
      with Some k True have "st = st0" "ids = ids0 @ [f]" by (auto simp: m g_def)
      moreover have "map_of groups k = Some (st0, ids0)" using Some g0 by simp
      ultimately show ?thesis using groups_okD[OF assms(1), of k st0 ids0] assms(2) True by auto
    qed
  next
    case False
    with k groups_okD[OF assms(1)] show ?thesis by (simp add: m)
  qed
  with d have "groups_ok R groups'" unfolding groups_ok_def by blast
  moreover have "groups_grow groups groups'"
    unfolding groups_grow_def m by (auto simp: g_def simp del: map_of_eq_Some_iff)
  ultimately show ?thesis by (simp add: m)
qed

lemma group_results_spec:
  assumes "groups_ok R groups" "set results \<subseteq> R"
  shows "\<exists>groups'. group_results results groups missing = (groups', missing @ map fst (filter (\<lambda>r. snd r = None) results)) \<and>
    groups_ok R groups' \<and> groups_grow groups groups' \<and>
    (\<forall>f stored. (f, Some stored) \<in> set results \<longrightarrow> (\<exists>st ids. map_of groups' (group_key stored) = Some (st, ids) \<and> f \<in> set ids))"
  using assms
proof (induction results groups missing rule: group_results.induct)
  case (1 groups missing)
  then show ?case by simp
next
  case (2 fid results groups missing)
  then show ?case by auto
next
  case (3 fid stored results groups missing)
  let ?g = "case map_of groups (group_key stored) of None \<Rightarrow> (stored, []) | Some g \<Rightarrow> g"
  let ?groups = "AList.update (group_key stored) (fst ?g, snd ?g @ [fid]) groups"
  from add_to_group[OF 3(2), of fid stored] 3(3) have
    a: "groups_ok R ?groups" "groups_grow groups ?groups"
      "\<exists>st ids. map_of ?groups (group_key stored) = Some (st, ids) \<and> fid \<in> set ids" by auto
  from 3(1)[OF refl a(1)] 3(3) obtain groups' where
    b: "group_results results ?groups missing = (groups', missing @ map fst (filter (\<lambda>r. snd r = None) results))"
      "groups_ok R groups'" "groups_grow ?groups groups'"
      "\<forall>f stored. (f, Some stored) \<in> set results \<longrightarrow> (\<exists>st ids. map_of groups' (group_key stored) = Some (st, ids) \<and> f \<in> set ids)"
    by auto
  from a(3) b(3) have "\<exists>st ids. map_of groups' (group_key stored) = Some (st, ids) \<and> fid \<in> set ids"
    unfolding groups_grow_def by blast
  with b a(2) grow_trans[OF a(2) b(3)] show ?case
    by (intro exI[of _ groups']) (auto simp: Let_def)
qed

section \<open>What the handler answers\<close>

text \<open>Every archived update is the decoding of its blob.\<close>

definition archive_decodes :: "archive \<Rightarrow> bool" where
  "archive_decodes A \<longleftrightarrow> (\<forall>(u, h, blob, r) \<in> set A. decodePriceUpdate (Raw blob) = Inr u)"

definition answered :: "MirrorUpdateJson list \<Rightarrow> hex \<Rightarrow> bool" where
  "answered updates f \<longleftrightarrow> list_ex (\<lambda>j. list_ex (\<lambda>p. toLowerCase (pj_feedId p) = toLowerCase f) (uj_prices j)) updates"

lemma update_json_serves:
  assumes "decodePriceUpdate (Raw blob) = Inr u" "su_blob st = blob" "f \<in> set ids" "has_feed u f"
  shows "\<exists>j. update_json st ids = Inr j \<and> (\<forall>g \<in> set ids. has_feed u g \<longrightarrow> answered [j] g)"
proof -
  let ?es = "filter (\<lambda>e. toLowerCase (m_feedId (e_message e)) \<in> set (map toLowerCase ids)) (u_entries u)"
  have "?es \<noteq> []" using assms(3,4) by (auto simp: has_feed_def list_ex_iff filter_empty_conv)
  then have sel: "selectFeeds u ids = Inr (u\<lparr>u_entries := ?es\<rparr>)" by (simp add: selectFeeds_def)
  with selected_encodes[OF assms(1) sel] obtain bs where "encodePriceUpdate (u\<lparr>u_entries := ?es\<rparr>) = Inr bs" by blast
  with sel assms(1,2) have "\<exists>j. update_json st ids = Inr j \<and> uj_prices j = map (\<lambda>en. price_json (e_message en)) ?es"
    by (auto simp: update_json_def mirrorUpdateJson_def)
  then obtain j where j: "update_json st ids = Inr j" "uj_prices j = map (\<lambda>en. price_json (e_message en)) ?es" by blast
  have "answered [j] g" if "g \<in> set ids" "has_feed u g" for g
    using that by (auto simp: answered_def j(2) list_ex_iff has_feed_def price_json_def)
  with j(1) show ?thesis by blast
qed

lemma newest_None: "newest_answer A None \<Longrightarrow> A = []"
  by (simp add: newest_answer_def)

lemma latest_found:
  assumes "implements s A" "latest s f c = Some st"
  shows "\<exists>u h blob r. (u, h, blob, r) \<in> set A \<and> has_feed u f \<and> st = answer (u, h, blob, r)"
  using latest_newest[OF assms(1), of f c] assms(2)
  by (auto simp: newest_answer_def list_ex_iff archive_feed_def)

lemma answer_key:
  assumes "implements s A" "(u, h, blob, r) \<in> set A" "(u', h', blob', r') \<in> set A"
    and "group_key (answer (u, h, blob, r)) = group_key (answer (u', h', blob', r'))"
  shows "u = u' \<and> blob = blob'"
proof -
  have "committee_tick u = committee_tick u'" using assms(4) by (simp add: group_key_def answer_def prod_eq_iff)
  with assms(1-3) show ?thesis
    unfolding implements_def distinct_map inj_on_def by fastforce
qed

lemma latest_answers:
  assumes i: "implements s A" and d: "archive_decodes A" and ids: "feedIds C (map_of ps ''ids'') = Inr ids"
  shows "\<exists>updates missing. latest_answer C s c ps = Inr (respond 200 (UpdatesBody updates missing) NO_STORE) \<and>
    missing = filter (\<lambda>f. archive_feed A f c (\<lambda>t. True) = []) ids \<and>
    list_all (\<lambda>f. f \<in> set missing \<or> answered updates f) ids"
proof -
  let ?results = "map (\<lambda>id. (id, latest s id c)) ids"
  have "groups_ok (set ?results) []" by (simp add: groups_ok_def)
  from group_results_spec[OF this order_refl, of "[]"] obtain groups where
    g: "group_results ?results [] [] = (groups, map fst (filter (\<lambda>r. snd r = None) ?results))"
      "groups_ok (set ?results) groups"
      "\<forall>f stored. (f, Some stored) \<in> set ?results \<longrightarrow> (\<exists>st ids. map_of groups (group_key stored) = Some (st, ids) \<and> f \<in> set ids)"
    by auto
  have dist: "distinct (map fst groups)" using g(2) by (simp add: groups_ok_def)
  have json: "\<exists>j. update_json st fs = Inr j \<and> (\<forall>f \<in> set fs. answered [j] f)" if "(k, st, fs) \<in> set groups" for k st fs
  proof -
    from that dist have "map_of groups k = Some (st, fs)" by simp
    with g(2) have st: "k = group_key st" "fs \<noteq> []" "\<exists>f. (f, Some st) \<in> set ?results"
        "\<forall>f \<in> set fs. \<exists>st'. (f, Some st') \<in> set ?results \<and> group_key st' = k"
      unfolding groups_ok_def by blast+
    from st(3) obtain f0 where "latest s f0 c = Some st" by auto
    from latest_found[OF i this] obtain u h blob r where u: "(u, h, blob, r) \<in> set A" "st = answer (u, h, blob, r)" by blast
    have feeds: "has_feed u f" if "f \<in> set fs" for f
    proof -
      from bspec[OF st(4) that] obtain st' where "(f, Some st') \<in> set ?results" "group_key st' = k" by blast
      then have st': "latest s f c = Some st'" "group_key st' = k" by auto
      from latest_found[OF i st'(1)] obtain u' h' blob' r' where
        u': "(u', h', blob', r') \<in> set A" "has_feed u' f" "st' = answer (u', h', blob', r')" by blast
      with answer_key[OF i u(1) u'(1)] st'(2) st(1) u(2) have "u = u'" by simp
      with u'(2) show ?thesis by simp
    qed
    from st(2) obtain f where "f \<in> set fs" by (cases fs) auto
    moreover have "decodePriceUpdate (Raw blob) = Inr u" using d u(1) by (auto simp: archive_decodes_def)
    moreover have "su_blob st = blob" using u(2) by (simp add: answer_def)
    ultimately show ?thesis using update_json_serves[of blob u st f fs] feeds by blast
  qed
  have "\<exists>j. (case x of (_, st, fs) \<Rightarrow> update_json st fs) = Inr j" if "x \<in> set groups" for x
    using json that by (cases x) (metis case_prod_conv)
  then have "\<exists>updates. list_all2 (\<lambda>x j. (case x of (_, st, fs) \<Rightarrow> update_json st fs) = Inr j) groups updates"
    by (intro exists_list_all2) blast
  then obtain updates where ups: "emap (\<lambda>(_, st, fs). update_json st fs) groups = Inr updates"
    by (auto simp: emap_eq_Inr)
  have miss: "map fst (filter (\<lambda>r. snd r = None) ?results) = filter (\<lambda>f. archive_feed A f c (\<lambda>t. True) = []) ids"
  proof -
    have "latest s f c = None \<longleftrightarrow> archive_feed A f c (\<lambda>t. True) = []" for f
      using latest_newest[OF i, of f c] by (auto simp: newest_answer_def split: option.splits)
    then show ?thesis by (simp add: filter_map comp_def)
  qed
  have found: "answered updates f" if "f \<in> set ids" "latest s f c = Some st" for f st
  proof -
    have "(f, Some st) \<in> set ?results" using that by force
    with g(3) obtain st' fs where m: "map_of groups (group_key st) = Some (st', fs)" "f \<in> set fs" by blast
    have x: "(group_key st, st', fs) \<in> set groups" using m(1) by (rule map_of_SomeD)
    from emap_covers[OF ups x] obtain j where j: "j \<in> set updates" "update_json st' fs = Inr j" by auto
    with json[OF x] m(2) have "answered [j] f" by auto
    with j(1) show ?thesis by (simp add: answered_def list_ex_iff) blast
  qed
  have "f \<in> set (map fst (filter (\<lambda>r. snd r = None) ?results)) \<or> answered updates f" if "f \<in> set ids" for f
    using found[OF that] that by (cases "latest s f c") force+
  then have "list_all (\<lambda>f. f \<in> set (map fst (filter (\<lambda>r. snd r = None) ?results)) \<or> answered updates f) ids"
    by (simp add: list_all_iff)
  then show ?thesis
    unfolding miss using ids g(1) ups miss
    by (intro exI[of _ updates]) (simp add: latest_answer_def grouped_def)
qed

lemma limit_below:
  assumes "limitParam raw d most = Inr n"
  shows "n \<le> most"
proof -
  define x where "x = (case (case raw of None \<Rightarrow> Some (of_int d) | Some s \<Rightarrow> number_of s) of
      None \<Rightarrow> of_int d | Some x \<Rightarrow> if x = 0 then of_int d else (x :: rat))"
  have "limitParam raw d most = (if of_int \<lfloor>min x (of_int most)\<rfloor> = min x (of_int most) then Inr \<lfloor>min x (of_int most)\<rfloor>
      else Inl (Failure ''datatype mismatch''))"
    by (simp only: limitParam_def Let_def x_def)
  with assms have "n = \<lfloor>min x (of_int most)\<rfloor>" by (cases "of_int \<lfloor>min x (of_int most)\<rfloor> = min x (of_int most)") simp_all
  also have "\<dots> \<le> \<lfloor>of_int most :: rat\<rfloor>" by (intro floor_mono) simp
  finally show ?thesis by simp
qed

lemma range_bounded:
  assumes "range_answer C s c ps = Inr resp" "limitParam (map_of ps ''limit'') MAX_RANGE MAX_RANGE = Inr n" "0 \<le> n"
  shows "\<exists>updates. rs_body resp = RangeBody updates \<and> int (length updates) \<le> MAX_RANGE"
proof -
  define id where "id = toFeedId C (case map_of ps ''id'' of None \<Rightarrow> [] | Some s \<Rightarrow> s)"
  from assms(1)[unfolded range_answer_def Let_def, folded id_def, unfolded ebind_eq_Inr assms(2)]
  obtain f t m updates where u: "Inr n = (Inr m :: int result)" "emap (\<lambda>s. update_json s [id]) (range_of s id f t m c) = Inr updates"
      "Inr (respond 200 (RangeBody updates) ONE_SECOND) = (Inr resp :: Response result)"
    by (elim exE conjE) (rule that; assumption)
  from u(1) have "m = n" by simp
  then have "int (length updates) \<le> n"
    using emap_length[OF u(2)] assms(3) by (simp add: range_of_def sql_limit_def)
  with limit_below[OF assms(2)] u(3) show ?thesis by (auto simp: respond_def)
qed

text \<open>A negative limit is below the bound, so it is kept, and SQLite takes it for no limit at all.\<close>

lemma negative_limit_unbounded:
  "limitParam (Some ''-1'') MAX_RANGE MAX_RANGE = Inr (- 1) \<and>
    length (range_of s f a b (- 1) c) = length (feed_join s f c (\<lambda>t. a \<le> t \<and> t \<le> b))"
proof -
  have "trim ''-1'' = ''-1''" by (simp add: trim_def is_space_def)
  moreover have "decimal_match ''1'' = Some (''1'', [])" by (simp add: decimal_match_def Let_def is_digit_def less_eq_char_def)
  ultimately have "number_of ''-1'' = Some (- 1)" by (simp add: number_of_def Let_def decimal_value_def)
  then show ?thesis by (auto simp: limitParam_def Let_def MAX_RANGE_def range_of_def sql_limit_def intro!: exI[of _ "- 1"])
qed

section \<open>Properties\<close>

text \<open>The latest prices are all served. Over any store a run of the mirror builds from blobs and their
  decodings, a request for the latest updates of valid ids is answered with 200: the ids without an
  archived update are listed as missing, and every other id has a price in one of the updates.\<close>

theorem latest_query_answered:
  assumes "list_all feeds_named ops" "mirror_run C ops = Some s" "archive_decodes (archive_run C ops)"
    and "feedIds C (map_of ps ''ids'') = Inr ids"
  shows "\<exists>updates missing. latest_answer C s c ps = Inr (respond 200 (UpdatesBody updates missing) NO_STORE) \<and>
    missing = filter (\<lambda>f. archive_feed (archive_run C ops) f c (\<lambda>t. True) = []) ids \<and>
    list_all (\<lambda>f. f \<in> set missing \<or> answered updates f) ids"
proof -
  have "implements s (archive_run C ops)" using run_implements[OF assms(1), of C] assms(2) by auto
  from latest_answers[OF this assms(3,4)] show ?thesis .
qed

theorem latest_query_answered_witness:
  "\<exists>bs u s updates missing. mirror_verify demo_crypto demo_mirror (Raw bs) = Inr u \<and>
    mirror_run demo_crypto [StoreUpdate u bs 5] = Some s \<and>
    latest_answer demo_crypto s None [(''ids'', ''BTC'')] = Inr (respond 200 (UpdatesBody updates missing) NO_STORE)"
proof -
  obtain bs u where b: "mirror_verify demo_crypto demo_mirror (Raw bs) = Inr u" "map e_message (u_entries u) = [demo_message 1]"
    using demo_accepted by metis
  then obtain en where "u_entries u = [en]" "e_message en = demo_message 1" by (cases "u_entries u") auto
  then have named: "list_all feeds_named [StoreUpdate u bs 5]" by (simp add: demo_message_def bytesToHex_def)
  then obtain s where s: "mirror_run demo_crypto [StoreUpdate u bs 5] = Some s" using run_implements by blast
  have dec: "archive_decodes (archive_run demo_crypto [StoreUpdate u bs 5])"
    using b(1) by (auto simp: archive_decodes_def archive_run_def archive_step_def archive_insert_def mirror_verify_iff split: sum.splits)
  have "feedIds demo_crypto (map_of [(''ids'', ''BTC'')] ''ids'') = Inr [toFeedId demo_crypto ''BTC'']"
    by (simp add: feedIds_def trim_def is_space_def MAX_IDS_def)
  from latest_query_answered[OF named s dec this, of None] b(1) s show ?thesis by blast
qed

end
