(* ===== verification/Signing.thy ===== *)
theory Signing
  imports Price_Update Observation Fixed_Point
begin

text \<open>
  \<open>packages/sdk/src/publisher/sign.ts\<close> and \<open>apps/publisher/src/keySigner.ts\<close>: what a publisher signs
  and with what key. The curve comes from \<open>@noble/curves\<close> and the KMS client from \<open>@aws-sdk\<close>, which
  are not part of the repository: they are the records \<open>secp\<close> and \<open>Kms\<close>, arguments of the definitions.

  \<^item> \<open>sec_getPublicKey key\<close> is \<open>secp256k1.getPublicKey(key, true)\<close>, \<open>None\<close> where it throws;
  \<^item> \<open>sec_sign digest key\<close> is \<open>secp256k1.sign(digest, key, { lowS: true })\<close> as its compact bytes and
    its recovery id;
  \<^item> \<open>sec_fromDER raw\<close> is \<open>Signature.fromDER(raw)\<close> and \<open>sec_normalizeS raw\<close> is \<open>normalizeS()\<close>, both in
    compact form;
  \<^item> \<open>sec_compress point\<close> is \<open>ProjectivePoint.fromHex(point).toRawBytes(true)\<close>.

  The lemmas show that what a signer returns is what \<open>recoverSigner\<close> accepts, with either backend;
  \<open>secp_ok\<close> is the documented behaviour of the curve they rest on.
\<close>

section \<open>The code\<close>

record secp =
  sec_getPublicKey :: "bytes \<Rightarrow> bytes option"
  sec_sign :: "bytes \<Rightarrow> bytes \<Rightarrow> (bytes \<times> nat) option"
  sec_fromDER :: "bytes \<Rightarrow> bytes option"
  sec_normalizeS :: "bytes \<Rightarrow> bytes"
  sec_compress :: "bytes \<Rightarrow> bytes option"

definition publicKeyOf :: "secp \<Rightarrow> hex \<Rightarrow> hex result" where
  "publicKeyOf S privateKey =
    ebind (hexToFixed privateKey 32) (\<lambda>key.
    ebind (of_option (Failure ''invalid private key'') (sec_getPublicKey S key)) (\<lambda>pk.
    Inr (bytesToHex pk)))"

definition signDigest :: "secp \<Rightarrow> bytes_like \<Rightarrow> hex \<Rightarrow> hex result" where
  "signDigest S digest privateKey =
    ebind (toBytes digest) (\<lambda>d.
    ebind (hexToFixed privateKey 32) (\<lambda>key.
    ebind (of_option (Failure ''invalid private key'') (sec_sign S d key)) (\<lambda>(raw, recovery).
    Inr (bytesToHex (concatBytes [raw, [word_of_nat recovery]])))))"

definition sign_as :: "secp \<Rightarrow> hex result \<Rightarrow> hex \<Rightarrow> int \<Rightarrow> IndexedSignature result" where
  "sign_as S digest privateKey i =
    ebind digest (\<lambda>d.
    ebind (signDigest S (HexStr d) privateKey) (\<lambda>s.
    Inr \<lparr>publisherIndex = i, signature = s\<rparr>))"

definition signPriceUpdateHeader :: "crypto \<Rightarrow> secp \<Rightarrow> PriceUpdateHeader \<Rightarrow> hex \<Rightarrow> int \<Rightarrow> IndexedSignature result" where
  "signPriceUpdateHeader C S header privateKey i = sign_as S (priceUpdateSigningHash C header) privateKey i"

definition sdk_signGovernance ::
  "crypto \<Rightarrow> secp \<Rightarrow> PublisherSetData \<Rightarrow> PublisherSetData \<Rightarrow> int \<Rightarrow> hex \<Rightarrow> hex \<Rightarrow> int \<Rightarrow> IndexedSignature result" where
  "sdk_signGovernance C S current following operation committeeTypeHash privateKey i =
    sign_as S (publisherSetUpdateHash C current following operation committeeTypeHash) privateKey i"

definition sdk_signProofOfPossession ::
  "crypto \<Rightarrow> secp \<Rightarrow> PublisherSetData \<Rightarrow> hex \<Rightarrow> hex \<Rightarrow> int \<Rightarrow> IndexedSignature result" where
  "sdk_signProofOfPossession C S following committeeTypeHash privateKey i =
    sign_as S (publisherSetPopHash C following committeeTypeHash) privateKey i"

definition signObservation :: "crypto \<Rightarrow> secp \<Rightarrow> Observation \<Rightarrow> hex \<Rightarrow> SignedObservation result" where
  "signObservation C S observation privateKey =
    ebind (observationSigningHash C observation) (\<lambda>d.
    ebind (signDigest S (HexStr d) privateKey) (\<lambda>s.
    Inr \<lparr>so_observation = observation, so_signature = s\<rparr>))"

definition signCommitteeConfig :: "crypto \<Rightarrow> secp \<Rightarrow> CommitteeConfig \<Rightarrow> hex \<Rightarrow> int \<Rightarrow> IndexedSignature result" where
  "signCommitteeConfig C S config privateKey i = sign_as S (committeeConfigHash C config) privateKey i"

text \<open>The recovery ids are tried in turn; one that does not recover a key is skipped.\<close>

fun try_recoveries :: "crypto \<Rightarrow> bytes \<Rightarrow> bytes \<Rightarrow> hex \<Rightarrow> nat list \<Rightarrow> hex result" where
  "try_recoveries C normalized hash publicKey [] = Inl (Failure ''signature does not match the expected public key'')"
| "try_recoveries C normalized hash publicKey (recovery # others) =
    (case sec_recover C normalized recovery hash of
      None \<Rightarrow> try_recoveries C normalized hash publicKey others
    | Some key \<Rightarrow>
        if bytesToHex key = toLowerCase publicKey
        then Inr (bytesToHex (concatBytes [normalized, [word_of_nat recovery]]))
        else try_recoveries C normalized hash publicKey others)"

definition parse_signature :: "crypto \<Rightarrow> secp \<Rightarrow> bytes \<Rightarrow> bytes result" where
  "parse_signature C S raw =
    (if length raw = 64 then
       (if sec_fromCompact C raw then Inr raw else Inl (Failure ''invalid signature''))
     else of_option (Failure ''invalid signature'') (sec_fromDER S raw))"

definition toRecoverableSignature :: "crypto \<Rightarrow> secp \<Rightarrow> bytes_like \<Rightarrow> bytes_like \<Rightarrow> hex \<Rightarrow> hex result" where
  "toRecoverableSignature C S sig digest publicKey =
    ebind (toBytes sig) (\<lambda>raw.
    ebind (parse_signature C S raw) (\<lambda>parsed.
    ebind (toBytes digest) (\<lambda>hash.
    try_recoveries C (sec_normalizeS S parsed) hash publicKey [0, 1])))"

definition compressPublicKey :: "secp \<Rightarrow> bytes_like \<Rightarrow> hex result" where
  "compressPublicKey S key =
    ebind (toBytes key) (\<lambda>bs.
    let bs = (if length bs > 65 then drop (length bs - 65) bs else bs) in
    ebind (of_option (Failure ''invalid point'') (sec_compress S bs)) (\<lambda>pk.
    Inr (bytesToHex pk)))"

subsection \<open>Key signers\<close>

record KeySigner =
  ks_publicKey :: hex
  ks_sign :: "hex \<Rightarrow> hex result"

text \<open>The key file is its text.\<close>

definition fileKeySigner :: "secp \<Rightarrow> string \<Rightarrow> KeySigner result" where
  "fileKeySigner S file =
    (let key = toLowerCase (trim file) in
     if \<not> isHex key \<or> length key \<noteq> 66 then Inl (Failure ''key file must contain a 32-byte 0x-hex private key'')
     else ebind (publicKeyOf S key) (\<lambda>pk.
       Inr \<lparr>ks_publicKey = pk, ks_sign = (\<lambda>digest. signDigest S (HexStr digest) key)\<rparr>))"

text \<open>What \<open>send\<close> answers to the two commands; a field of an answer may be absent.\<close>

record Kms =
  kms_GetPublicKey :: "bytes option result"
  kms_Sign :: "bytes \<Rightarrow> bytes option result"

definition kms_signer_sign :: "crypto \<Rightarrow> secp \<Rightarrow> Kms \<Rightarrow> hex \<Rightarrow> hex \<Rightarrow> hex result" where
  "kms_signer_sign C S kms publicKey digest =
    ebind (hexToBytes digest) (\<lambda>message.
    ebind (kms_Sign kms message) (\<lambda>answer.
    ebind (of_option (Failure ''KMS returned no signature'') answer) (\<lambda>sig.
    toRecoverableSignature C S (Raw sig) (HexStr digest) publicKey)))"

definition awsKmsSigner :: "crypto \<Rightarrow> secp \<Rightarrow> Kms \<Rightarrow> KeySigner result" where
  "awsKmsSigner C S kms =
    ebind (kms_GetPublicKey kms) (\<lambda>answer.
    ebind (of_option (Failure ''KMS returned no public key'') answer) (\<lambda>key.
    ebind (compressPublicKey S (Raw key)) (\<lambda>pk.
    Inr \<lparr>ks_publicKey = pk, ks_sign = kms_signer_sign C S kms pk\<rparr>)))"

datatype KeyConfig = KeyFile string | AwsKms string "string option"

text \<open>\<open>readFile\<close> and \<open>kms\<close> stand for the file system and the KMS client of a key.\<close>

definition createKeySigner ::
  "crypto \<Rightarrow> secp \<Rightarrow> (string \<Rightarrow> string result) \<Rightarrow> (string \<Rightarrow> string option \<Rightarrow> Kms) \<Rightarrow> KeyConfig \<Rightarrow> KeySigner result" where
  "createKeySigner C S readFile kms config = (case config of
      AwsKms keyId region \<Rightarrow> awsKmsSigner C S (kms keyId region)
    | KeyFile path \<Rightarrow> ebind (readFile path) (fileKeySigner S))"

section \<open>Signatures recover\<close>

text \<open>
  The documented behaviour of the curve: a valid key signs every 32-byte digest, the signature is in
  low-S form and recovers to the public key, and normalizing gives the low-S form.
\<close>

definition secp_ok :: "crypto \<Rightarrow> secp \<Rightarrow> bool" where
  "secp_ok C S \<longleftrightarrow>
    (\<forall>key pk d. sec_getPublicKey S key = Some pk \<and> length d = 32 \<longrightarrow>
      (\<exists>raw recovery. sec_sign S d key = Some (raw, recovery) \<and> length raw = 64 \<and> recovery \<le> 3 \<and>
        sec_fromCompact C raw \<and> \<not> sec_hasHighS C raw \<and> sec_recover C raw recovery d = Some pk)) \<and>
    (\<forall>raw. let s = sec_normalizeS S raw in length s = 64 \<and> sec_fromCompact C s \<and> \<not> sec_hasHighS C s)"

lemma secp_sign:
  "secp_ok C S \<Longrightarrow> sec_getPublicKey S key = Some pk \<Longrightarrow> length d = 32 \<Longrightarrow>
    \<exists>raw recovery. sec_sign S d key = Some (raw, recovery) \<and> length raw = 64 \<and> recovery \<le> 3 \<and>
      sec_fromCompact C raw \<and> \<not> sec_hasHighS C raw \<and> sec_recover C raw recovery d = Some pk"
  by (simp add: secp_ok_def)

lemma secp_normal:
  "secp_ok C S \<Longrightarrow> length (sec_normalizeS S raw) = 64 \<and> sec_fromCompact C (sec_normalizeS S raw) \<and>
    \<not> sec_hasHighS C (sec_normalizeS S raw)"
  by (simp add: secp_ok_def Let_def)

lemma unat_recovery: "n \<le> 3 \<Longrightarrow> unat (word_of_nat n :: byte) = n"
  by (simp add: unat_of_nat)

lemma recover_signature:
  assumes "length raw = 64" "recovery \<le> 3" "sec_fromCompact C raw" "\<not> sec_hasHighS C raw"
    and "sec_recover C raw recovery d = Some pk"
  shows "recoverSigner C (Raw d) (HexStr (bytesToHex (concatBytes [raw, [word_of_nat recovery]]))) = Inr (Some (bytesToHex pk))"
proof -
  have "\<not> 3 < (word_of_nat recovery :: byte)"
    using unat_recovery[OF assms(2)] assms(2) by (simp add: word_less_nat_alt)
  then show ?thesis
    using assms by (simp add: recoverSigner_def concatBytes_def SIGNATURE_LEN_def nth_append unat_recovery)
qed

lemma recoverSigner_raw: "toBytes digest = Inr d \<Longrightarrow> recoverSigner C digest sig = recoverSigner C (Raw d) sig"
  by (simp add: recoverSigner_def cong: if_cong)

text \<open>A signer that works: it signs every 32-byte digest, and the signature recovers to its key.\<close>

definition signer_ok :: "crypto \<Rightarrow> KeySigner \<Rightarrow> bool" where
  "signer_ok C ks \<longleftrightarrow> (\<forall>d. length d = 32 \<longrightarrow> (\<exists>s. ks_sign ks (bytesToHex d) = Inr s \<and>
    recoverSigner C (Raw d) (HexStr s) = Inr (Some (ks_publicKey ks))))"

lemma signed_digest:
  assumes "secp_ok C S" "publicKeyOf S privateKey = Inr pk" "length d = 32" "toBytes digest = Inr d"
  obtains s where "signDigest S digest privateKey = Inr s" "recoverSigner C (Raw d) (HexStr s) = Inr (Some pk)"
proof -
  from assms(2) obtain key pkb where key: "hexToFixed privateKey 32 = Inr key" "sec_getPublicKey S key = Some pkb"
    "pk = bytesToHex pkb" by (auto simp: publicKeyOf_def ebind_eq_Inr)
  from secp_sign[OF assms(1) key(2) assms(3)] obtain raw recovery where s: "sec_sign S d key = Some (raw, recovery)"
    "length raw = 64" "recovery \<le> 3" "sec_fromCompact C raw" "\<not> sec_hasHighS C raw" "sec_recover C raw recovery d = Some pkb"
    by blast
  have "signDigest S digest privateKey = Inr (bytesToHex (concatBytes [raw, [word_of_nat recovery]]))"
    by (simp add: signDigest_def assms(4) key s)
  from that[OF this] recover_signature[OF s(2-6)] show thesis by (simp add: key(3))
qed

lemma file_signer_ok:
  assumes "secp_ok C S" "fileKeySigner S file = Inr ks"
  shows "signer_ok C ks"
proof -
  from assms(2) obtain pk where pk: "publicKeyOf S (toLowerCase (trim file)) = Inr pk"
    "ks = \<lparr>ks_publicKey = pk, ks_sign = (\<lambda>digest. signDigest S (HexStr digest) (toLowerCase (trim file)))\<rparr>"
    by (auto simp: fileKeySigner_def Let_def ebind_eq_Inr split: if_splits)
  show ?thesis
    unfolding signer_ok_def
    using signed_digest[OF assms(1) pk(1), of _ "HexStr (bytesToHex d)" for d] by (fastforce simp: pk(2))
qed

lemma try_recoveries_sound:
  assumes "secp_ok C S" "try_recoveries C (sec_normalizeS S parsed) d pk rs = Inr s" "\<forall>r \<in> set rs. r \<le> 3"
  shows "recoverSigner C (Raw d) (HexStr s) = Inr (Some (toLowerCase pk))"
  using assms(2,3)
proof (induction rs)
  case (Cons r rs)
  show ?case
  proof (cases "\<exists>key. sec_recover C (sec_normalizeS S parsed) r d = Some key \<and> bytesToHex key = toLowerCase pk")
    case True
    then obtain key where key: "sec_recover C (sec_normalizeS S parsed) r d = Some key" "bytesToHex key = toLowerCase pk"
      by blast
    then show ?thesis
      using Cons.prems recover_signature[OF _ _ _ _ key(1)] secp_normal[OF assms(1), of parsed] by simp
  next
    case False
    then have "try_recoveries C (sec_normalizeS S parsed) d pk rs = Inr s"
      using Cons.prems(1) by (auto split: option.splits if_splits)
    with Cons show ?thesis by simp
  qed
qed simp

lemma recoverable_sound:
  assumes "secp_ok C S" "toRecoverableSignature C S sig digest pk = Inr s" "toBytes digest = Inr d"
  shows "recoverSigner C (Raw d) (HexStr s) = Inr (Some (toLowerCase pk))"
proof -
  obtain parsed where "try_recoveries C (sec_normalizeS S parsed) d pk [0, 1] = Inr s"
    using assms(2,3) unfolding toRecoverableSignature_def ebind_eq_Inr by fastforce
  from try_recoveries_sound[OF assms(1) this] show ?thesis by simp
qed

lemma kms_signer_sound:
  assumes "secp_ok C S" "awsKmsSigner C S kms = Inr ks" "ks_sign ks digest = Inr s" "hexToBytes digest = Inr d"
  shows "recoverSigner C (Raw d) (HexStr s) = Inr (Some (ks_publicKey ks))"
proof -
  from assms(2) obtain pk where pk: "ks = \<lparr>ks_publicKey = bytesToHex pk, ks_sign = kms_signer_sign C S kms (bytesToHex pk)\<rparr>"
    by (auto simp: awsKmsSigner_def compressPublicKey_def ebind_eq_Inr Let_def)
  with assms(3) have "\<exists>sig. toRecoverableSignature C S (Raw sig) (HexStr digest) (bytesToHex pk) = Inr s"
    by (auto simp: kms_signer_sign_def ebind_eq_Inr)
  with recoverable_sound[OF assms(1), where digest = "HexStr digest" and d = d and pk = "bytesToHex pk"] assms(4)
  show ?thesis by (auto simp: pk)
qed

text \<open>A stand-in for the curve that goes with \<open>demo_crypto\<close>: a signature starts with its signer's key.\<close>

definition demo_public :: "bytes \<Rightarrow> bytes" where
  "demo_public key = 2 # key ! 0 # replicate 31 0"

definition demo_secp :: secp where
  "demo_secp = \<lparr>sec_getPublicKey = (\<lambda>key. Some (demo_public key)),
     sec_sign = (\<lambda>d key. Some (demo_public key @ replicate 31 0, 0)),
     sec_fromDER = (\<lambda>raw. Some (take 64 (raw @ replicate 64 0))), sec_normalizeS = (\<lambda>raw. take 64 (raw @ replicate 64 0)),
     sec_compress = (\<lambda>point. Some (take 33 (point @ replicate 33 0)))\<rparr>"

lemma demo_secp_ok: "secp_ok demo_crypto demo_secp"
  by (simp add: secp_ok_def demo_secp_def demo_crypto_def demo_public_def Let_def min_def)

definition demo_signer :: "byte \<Rightarrow> KeySigner" where
  "demo_signer n = \<lparr>ks_publicKey = demo_key n,
     ks_sign = (\<lambda>digest. signDigest demo_secp (HexStr digest) (bytesToHex (n # replicate 31 0)))\<rparr>"

lemma trim_bytesToHex: "trim (bytesToHex bs) = bytesToHex bs"
proof (rule trim_id)
  have "\<not> is_space (hex_digit n)" if "n < 16" for n using that by (simp add: is_space_def of_char_hex_digit)
  then have "\<forall>c \<in> set (concat (map byte_hex bs)). \<not> is_space c" by (auto simp: byte_hex_def)
  moreover have "\<not> is_space (CHR ''0'')" "\<not> is_space (CHR ''x'')" by (simp_all add: is_space_def)
  ultimately have "\<forall>c \<in> set (bytesToHex bs). \<not> is_space c" by (auto simp: bytesToHex_def)
  moreover have "bytesToHex bs \<noteq> []" by (simp add: bytesToHex_def)
  ultimately show "\<not> is_space (hd (bytesToHex bs))" "\<not> is_space (last (bytesToHex bs))" by auto
qed (simp add: bytesToHex_def)

lemma demo_signer_file: "fileKeySigner demo_secp (bytesToHex (n # replicate 31 0)) = Inr (demo_signer n)"
  by (simp add: fileKeySigner_def trim_bytesToHex Let_def publicKeyOf_def demo_signer_def demo_secp_def demo_public_def
      demo_key_def) (simp add: bytesToHex_def byte_hex_def length_concat sum_list_replicate)

lemma demo_signer_ok: "signer_ok demo_crypto (demo_signer n)"
  by (rule file_signer_ok[OF demo_secp_ok demo_signer_file])

section \<open>Properties\<close>

text \<open>Claim C27: a signature that a key signer returns, with the key in a file or in a KMS, whatever the KMS answers, is
  one that the verifiers recover to the signer's public key; a wrong or foreign signature is an error of the
  signer. It rests on the documented behaviour of the curve only.\<close>

theorem key_signer_sound:
  assumes "secp_ok C S" "createKeySigner C S readFile kms config = Inr ks"
    and "ks_sign ks digest = Inr s" "hexToFixed digest 32 = Inr d"
  shows "recoverSigner C (HexStr digest) (HexStr s) = Inr (Some (ks_publicKey ks))"
proof -
  have d: "hexToBytes digest = Inr d" "length d = 32" using assms(4) by (simp_all add: hexToFixed_eq_Inr)
  have "recoverSigner C (Raw d) (HexStr s) = Inr (Some (ks_publicKey ks))"
  proof (cases config)
    case (AwsKms keyId region)
    then show ?thesis using assms d kms_signer_sound[OF assms(1) _ assms(3) d(1)] by (simp add: createKeySigner_def)
  next
    case (KeyFile path)
    then obtain content where "fileKeySigner S content = Inr ks"
      using assms(2) by (auto simp: createKeySigner_def ebind_eq_Inr)
    then obtain pk where pk: "publicKeyOf S (toLowerCase (trim content)) = Inr pk"
      "ks = \<lparr>ks_publicKey = pk, ks_sign = (\<lambda>digest. signDigest S (HexStr digest) (toLowerCase (trim content)))\<rparr>"
      by (auto simp: fileKeySigner_def Let_def ebind_eq_Inr split: if_splits)
    from signed_digest[OF assms(1) pk(1) d(2), of "HexStr digest"] assms(3) d(1) show ?thesis
      by (auto simp: pk(2))
  qed
  then show ?thesis using recoverSigner_raw[of "HexStr digest" d] d(1) by simp
qed

theorem key_signer_sound_witness:
  "\<exists>s. ks_sign (demo_signer 7) (bytesToHex (replicate 32 5)) = Inr s \<and>
    recoverSigner demo_crypto (HexStr (bytesToHex (replicate 32 5))) (HexStr s) = Inr (Some (demo_key 7))"
proof -
  have "createKeySigner demo_crypto demo_secp (\<lambda>path. Inr (bytesToHex (7 # replicate 31 0))) (\<lambda>i r. undefined) (KeyFile [])
      = Inr (demo_signer 7)" by (simp add: createKeySigner_def demo_signer_file)
  note * = key_signer_sound[OF demo_secp_ok this]
  have "length (replicate 32 (5 :: byte)) = 32" by simp
  with demo_signer_ok[of 7] obtain s where s: "ks_sign (demo_signer 7) (bytesToHex (replicate 32 5)) = Inr s"
    unfolding signer_ok_def by blast
  from *[OF s, of "replicate 32 5"] s show ?thesis by (simp add: demo_signer_def)
qed

end
