(* ===== verification/Governance.thy ===== *)
theory Governance
  imports Signing "HOL-Library.AList"
begin

text \<open>
  \<open>apps/publisher/src/governance.ts\<close>: what the operators of a committee run to change it. \<open>nextState\<close>
  builds the state an operation leads to, each operator signs it (\<open>signGovernance\<close>,
  \<open>signProofOfPossession\<close>), the coordinator merges the signatures and \<open>governanceStatus\<close> says whether
  the operation can be sent. Messages drop the values interpolated into them.

  The lemmas show that \<open>nextState\<close> builds valid states with the keys asked for, what a ready status
  means in terms of the checks of the contract, and that the parts of enough operators always make
  one.
\<close>

section \<open>The code\<close>

definition lower_hex_digit :: "char \<Rightarrow> bool" where
  "lower_hex_digit c \<longleftrightarrow> hex_value c \<noteq> None \<and> lower_char c = c"

text \<open>\<open>/^0x0[23][0-9a-f]{64}$/\<close> and \<open>/^0x[0-9a-f]{64}$/\<close>\<close>

definition COMPRESSED_KEY :: "string \<Rightarrow> bool" where
  "COMPRESSED_KEY s \<longleftrightarrow> length s = 68 \<and> take 3 s = ''0x0'' \<and> s ! 3 \<in> {CHR ''2'', CHR ''3''} \<and>
    list_all lower_hex_digit (drop 4 s)"

definition HASH :: "string \<Rightarrow> bool" where
  "HASH s \<longleftrightarrow> length s = 66 \<and> take 2 s = ''0x'' \<and> list_all lower_hex_digit (drop 2 s)"

definition OPERATIONS :: "(string \<times> int) list" where
  "OPERATIONS = [(''rotate'', OP_ROTATE), (''rotate-revoke'', OP_ROTATE_REVOKE), (''pause'', OP_PAUSE),
    (''unpause'', OP_UNPAUSE), (''revoke-previous'', OP_REVOKE_PREVIOUS)]"

text \<open>\<open>OPERATIONS[name]\<close>: a code, or a member the object inherits, which is not \<open>undefined\<close> either.\<close>

datatype operation_code = OpCode int | Inherited

definition parseOperation :: "string option \<Rightarrow> operation_code result" where
  "parseOperation nm =
    (let n = (case nm of None \<Rightarrow> [] | Some s \<Rightarrow> s) in
     case map_of OPERATIONS n of
       Some op \<Rightarrow> Inr (OpCode op)
     | None \<Rightarrow> if n \<in> set OBJECT_PROTOTYPE then Inr Inherited else Inl (Failure ''--op must be one of the operations''))"

definition operationName :: "int \<Rightarrow> string" where
  "operationName op = (case find (\<lambda>(_, v). v = op) OPERATIONS of Some (n, _) \<Rightarrow> n | None \<Rightarrow> ''op '' @ int_string op)"

definition parseCommitteeHash :: "string option \<Rightarrow> hex result" where
  "parseCommitteeHash v =
    (let hash = map_option (\<lambda>s. toLowerCase (trim s)) v in
     case hash of
       None \<Rightarrow> Inl (Failure ''the committee type hash (0x + 64 hex) is required: pass --committee or --operator'')
     | Some h \<Rightarrow> if HASH h then Inr h
         else Inl (Failure ''the committee type hash (0x + 64 hex) is required: pass --committee or --operator''))"

record NextStateOptions =
  ns_add :: "string list option"
  ns_remove :: "string list option"
  ns_untilMs :: "int option"
  ns_nowMs :: "int option"

definition or_empty :: "'a list option \<Rightarrow> 'a list" where
  "or_empty x = (case x of None \<Rightarrow> [] | Some xs \<Rightarrow> xs)"

definition norm_key :: "string \<Rightarrow> hex result" where
  "norm_key k =
    (let key = toLowerCase (trim k) in
     if COMPRESSED_KEY key then Inr key else Inl (Failure ''not a compressed secp256k1 public key''))"

definition remove_key :: "hex list \<Rightarrow> hex \<Rightarrow> hex list result" where
  "remove_key keys k =
    (if k \<in> set keys then Inr (filter (\<lambda>x. x \<noteq> k) keys) else Inl (Failure ''cannot remove: not in the current set''))"

definition add_key :: "hex list \<Rightarrow> hex \<Rightarrow> hex list result" where
  "add_key keys k = (if k \<in> set keys then Inl (Failure ''cannot add: already in the set'') else Inr (keys @ [k]))"

definition rotatedKeys :: "PublisherSetData \<Rightarrow> string list \<Rightarrow> string list \<Rightarrow> hex list result" where
  "rotatedKeys current added removed =
    (let keys = js_set (map toLowerCase (pubkeys (currentSet current))) in
     ebind (emap norm_key removed) (\<lambda>rs.
     ebind (efold remove_key keys rs) (\<lambda>keys.
     ebind (emap norm_key added) (\<lambda>as.
     ebind (efold add_key keys as) (\<lambda>keys.
     if length keys = 0 \<or> length keys > 9 then Inl (Failure ''the next set needs 1 to 9 distinct keys'')
     else Inr (sort keys))))))"

definition build_state :: "int \<Rightarrow> PublisherSetData \<Rightarrow> int \<Rightarrow> NextStateOptions \<Rightarrow> PublisherSetData result" where
  "build_state now current operation options =
    (let base = current\<lparr>governanceNonce := governanceNonce current + 1\<rparr> in
     if operation = OP_ROTATE \<or> operation = OP_ROTATE_REVOKE then
       ebind (rotatedKeys current (or_empty (ns_add options)) (or_empty (ns_remove options))) (\<lambda>keys.
       let rotated = base\<lparr>currentSet := \<lparr>setIndex = setIndex (currentSet current) + 1, pubkeys = keys\<rparr>, previousOf := None\<rparr> in
       if operation = OP_ROTATE then
         (case ns_untilMs options of
            None \<Rightarrow> Inl (Failure ''a routine rotation needs the new set's first tick (--until-ms)'')
          | Some untilTick \<Rightarrow>
              if untilTick > (case ns_nowMs options of None \<Rightarrow> now | Some t \<Rightarrow> t) + MAX_UNTIL_AHEAD_MS
              then Inl (Failure ''--until-ms is more than an hour ahead'')
              else Inr (rotated\<lparr>previousOf := Some \<lparr>previousSet = currentSet current, untilMs = untilTick\<rparr>\<rparr>))
       else Inr rotated)
     else if operation = OP_PAUSE then
       Inr (base\<lparr>governanceFlags := js_or (governanceFlags current) GOVERNANCE_PAUSED\<rparr>)
     else if operation = OP_UNPAUSE then
       Inr (base\<lparr>governanceFlags := js_and (governanceFlags current) (js_not GOVERNANCE_PAUSED)\<rparr>)
     else if operation = OP_REVOKE_PREVIOUS then Inr (base\<lparr>previousOf := None\<rparr>)
     else Inl (Failure ''unknown operation''))"

definition nextState :: "int \<Rightarrow> PublisherSetData \<Rightarrow> int \<Rightarrow> NextStateOptions \<Rightarrow> PublisherSetData result" where
  "nextState now current operation options =
    ebind (build_state now current operation options) (\<lambda>following.
    case transitionError current following operation of
      Some why \<Rightarrow> Inl (Failure why)
    | None \<Rightarrow> Inr following)"

record SetSummary =
  ss_setIndex :: int
  ss_governanceNonce :: string
  ss_paused :: bool
  ss_minRotationIntervalS :: string
  ss_publishers :: nat
  ss_quorum :: int
  ss_pubkeys :: "(nat \<times> hex \<times> bool) list"
  ss_previous :: "(int \<times> string \<times> nat) option"

text \<open>\<open>self\<close> is falsy when absent or empty.\<close>

definition describeSet :: "PublisherSetData \<Rightarrow> hex option \<Rightarrow> SetSummary" where
  "describeSet d self = \<lparr>ss_setIndex = setIndex (currentSet d), ss_governanceNonce = int_string (governanceNonce d),
    ss_paused = (js_and (governanceFlags d) GOVERNANCE_PAUSED \<noteq> 0),
    ss_minRotationIntervalS = int_string (minRotationIntervalS d), ss_publishers = length (pubkeys (currentSet d)),
    ss_quorum = quorum (currentSet d),
    ss_pubkeys = map (\<lambda>(i, k). (i, k, self = Some k \<and> k \<noteq> [])) (enumerate 0 (pubkeys (currentSet d))),
    ss_previous = map_option (\<lambda>p. (setIndex (previousSet p), int_string (untilMs p), length (pubkeys (previousSet p))))
      (previousOf d)\<rparr>"

text \<open>The texts \<open>before \<rightarrow> after\<close> are the pair of both sides.\<close>

record SetDiff =
  sd_operation :: string
  sd_added :: "hex list"
  sd_removed :: "hex list"
  sd_setIndex :: "int \<times> int"
  sd_quorum :: "(int \<times> nat) \<times> (int \<times> nat)"
  sd_paused :: "bool \<times> bool"
  sd_previous :: "(int \<times> int) option"

definition diffSets :: "PublisherSetData \<Rightarrow> PublisherSetData \<Rightarrow> int \<Rightarrow> SetDiff" where
  "diffSets current following operation =
    (let b = currentSet current; a = currentSet following in
     \<lparr>sd_operation = operationName operation,
      sd_added = filter (\<lambda>k. k \<notin> set (pubkeys b)) (pubkeys a),
      sd_removed = filter (\<lambda>k. k \<notin> set (pubkeys a)) (pubkeys b),
      sd_setIndex = (setIndex b, setIndex a),
      sd_quorum = ((quorum b, length (pubkeys b)), (quorum a, length (pubkeys a))),
      sd_paused = (js_and (governanceFlags current) GOVERNANCE_PAUSED \<noteq> 0, js_and (governanceFlags following) GOVERNANCE_PAUSED \<noteq> 0),
      sd_previous = map_option (\<lambda>p. (setIndex (previousSet p), untilMs p)) (previousOf following)\<rparr>)"

definition signGovernance ::
  "crypto \<Rightarrow> PublisherSetData \<Rightarrow> PublisherSetData \<Rightarrow> int \<Rightarrow> hex \<Rightarrow> KeySigner \<Rightarrow> IndexedSignature result" where
  "signGovernance C current following operation committee signer =
    (case transitionError current following operation of
      Some why \<Rightarrow> Inl (Failure why)
    | None \<Rightarrow>
        let i = index_of (ks_publicKey signer) (pubkeys (currentSet current)) in
        if i < 0 then Inl (Failure ''this key is not in the current set, so it cannot authorize governance'')
        else ebind (publisherSetUpdateHash C current following operation committee) (\<lambda>digest.
          ebind (ks_sign signer digest) (\<lambda>s. Inr \<lparr>publisherIndex = i, signature = s\<rparr>)))"

definition signProofOfPossession :: "crypto \<Rightarrow> PublisherSetData \<Rightarrow> hex \<Rightarrow> KeySigner \<Rightarrow> IndexedSignature result" where
  "signProofOfPossession C following committee signer =
    (let i = index_of (ks_publicKey signer) (pubkeys (currentSet following)) in
     if i < 0 then Inl (Failure ''this key is not in the next set'')
     else ebind (publisherSetPopHash C following committee) (\<lambda>digest.
       ebind (ks_sign signer digest) (\<lambda>s. Inr \<lparr>publisherIndex = i, signature = s\<rparr>)))"

text \<open>One step of the loop over the parts; the \<open>Map\<close> keeps one signature per index.\<close>

definition merge_signature ::
  "(int \<times> IndexedSignature) list \<Rightarrow> IndexedSignature \<Rightarrow> (int \<times> IndexedSignature) list result" where
  "merge_signature byIndex s =
    (if (case map_of byIndex (publisherIndex s) of
          None \<Rightarrow> False | Some seen \<Rightarrow> toLowerCase (signature seen) \<noteq> toLowerCase (signature s))
     then Inl (Failure ''conflicting signatures for publisher'')
     else Inr (AList.update (publisherIndex s) s byIndex))"

definition mergeSignatures :: "IndexedSignature list list \<Rightarrow> SignatureBundle result" where
  "mergeSignatures parts =
    ebind (efold merge_signature [] (concat parts)) (\<lambda>byIndex. toSignatureBundle (map snd byIndex))"

record GovernanceStatus =
  gs_operation :: string
  gs_ready :: bool
  gs_have :: nat
  gs_need :: int
  gs_valid :: bool
  gs_signers :: nat
  gs_pop :: "(nat \<times> nat \<times> bool \<times> hex list) option"

text \<open>\<open>recoverSigner(...)?.toLowerCase() === pubkeys[i]?.toLowerCase()\<close>: two \<open>undefined\<close>s are equal.\<close>

definition counts_as_valid :: "crypto \<Rightarrow> hex \<Rightarrow> PublisherSet \<Rightarrow> IndexedSignature \<Rightarrow> bool result" where
  "counts_as_valid C digest s entry =
    ebind (recoverSigner C (HexStr digest) (HexStr (signature entry))) (\<lambda>key.
    Inr (map_option toLowerCase key = map_option toLowerCase (at_index (pubkeys s) (publisherIndex entry))))"

definition pop_proven :: "crypto \<Rightarrow> PublisherSetData \<Rightarrow> int \<Rightarrow> hex \<Rightarrow> IndexedSignature list \<Rightarrow> bool result" where
  "pop_proven C following operation committee pop =
    (if \<not> needsProofOfPossession operation then Inr True
     else if length pop \<noteq> length (pubkeys (currentSet following)) then Inr False
     else ebind (toSignatureBundle pop) (\<lambda>b.
       ebind (publisherSetPopHash C following committee) (\<lambda>digest.
       verifyAll C b (HexStr digest) (currentSet following))))"

definition governanceStatus ::
  "crypto \<Rightarrow> PublisherSetData \<Rightarrow> PublisherSetData \<Rightarrow> int \<Rightarrow> hex \<Rightarrow> IndexedSignature list \<Rightarrow> IndexedSignature list \<Rightarrow>
    GovernanceStatus result" where
  "governanceStatus C current following operation committee authorization pop =
    (case transitionError current following operation of
      Some why \<Rightarrow> Inl (Failure why)
    | None \<Rightarrow>
        ebind (publisherSetUpdateHash C current following operation committee) (\<lambda>authDigest.
        ebind (emap (counts_as_valid C authDigest (currentSet current)) authorization) (\<lambda>validAuth.
        ebind (toSignatureBundle authorization) (\<lambda>b.
        ebind (verifyThreshold C b (HexStr authDigest) (currentSet current)) (\<lambda>authorized.
        ebind (pop_proven C following operation committee pop) (\<lambda>proven.
        Inr \<lparr>gs_operation = operationName operation, gs_ready = (authorized \<and> proven),
          gs_have = length authorization, gs_need = quorum (currentSet current), gs_valid = authorized,
          gs_signers = length (filter (\<lambda>v. v) validAuth),
          gs_pop = (if needsProofOfPossession operation
            then Some (length pop, length (pubkeys (currentSet following)), proven,
              map snd (filter (\<lambda>(i, k). int i \<notin> publisherIndex ` set pop) (enumerate 0 (pubkeys (currentSet following)))))
            else None)\<rparr>))))))"

section \<open>Keys of the next set\<close>

text \<open>A compressed key in lower case.\<close>

definition publisher_key :: "hex \<Rightarrow> bool" where
  "publisher_key k \<longleftrightarrow> (\<exists>bs. k = bytesToHex bs \<and> length bs = 33 \<and> (bs ! 0 = 2 \<or> bs ! 0 = 3))"

lemma compressed_key:
  assumes "COMPRESSED_KEY k"
  shows "publisher_key k"
proof -
  have len: "length k = 68" and pre: "take 3 k = ''0x0''" and third: "k ! 3 \<in> {CHR ''2'', CHR ''3''}"
    and digits: "list_all lower_hex_digit (drop 4 k)"
    using assms by (auto simp: COMPRESSED_KEY_def)
  have k: "k = ''0x0'' @ k ! 3 # drop 4 k"
    using len pre id_take_nth_drop[of 3 k] by simp
  define c r where "c = k ! 3" and "r = drop 4 k"
  have k: "k = ''0x0'' @ c # r" and len: "length r = 64" using k len by (simp_all add: c_def r_def)
  have c: "c = CHR ''2'' \<or> c = CHR ''3''" and r: "list_all lower_hex_digit r" using third digits by (auto simp: c_def r_def)
  have hexc: "hex_value c \<noteq> None" "lower_char c = c" using c by (auto simp: hex_value_def lower_char_def)
  have zero: "hex_value (CHR ''0'') = Some 0" "lower_char (CHR ''0'') = CHR ''0''" "lower_char (CHR ''x'') = CHR ''x''"
    by (simp_all add: hex_value_def lower_char_def)
  have "isHex k" using r hexc zero len by (auto simp: k isHex_def lower_hex_digit_def list_all_iff)
  then have bs: "hexToBytes k = Inr (hex_pairs (CHR ''0'' # c # r))" by (simp add: hexToBytes_def k)
  have "toLowerCase k = k"
    using r hexc zero by (auto simp: k toLowerCase_def lower_hex_digit_def list_all_iff intro: map_idI)
  with bytesToHex_hexToBytes[OF bs] have "k = bytesToHex (hex_pairs (CHR ''0'' # c # r))" by simp
  moreover from this have "length k = 2 + 2 * length (hex_pairs (CHR ''0'' # c # r))"
    by (metis bytesToHex_def length_append length_hex_body One_nat_def Suc_1 list.size(3,4) add_Suc_right add_0_right)
  then have "length (hex_pairs (CHR ''0'' # c # r)) = 33" using k len by simp
  moreover have "hex_pairs (CHR ''0'' # c # r) ! 0 = 2 \<or> hex_pairs (CHR ''0'' # c # r) ! 0 = 3"
    using c by (auto simp: hex_value_def)
  ultimately show ?thesis unfolding publisher_key_def by blast
qed

lemma valid_set_of_keys:
  assumes "sorted (pubkeys s)" "distinct (pubkeys s)" "\<forall>k \<in> set (pubkeys s). publisher_key k"
    and "0 < length (pubkeys s)" "length (pubkeys s) \<le> 9"
  shows "isValidPublisherSet s = Inr True"
proof -
  have "\<exists>bss. list_all2 (\<lambda>k bs. k = bytesToHex bs \<and> length bs = 33 \<and> (bs ! 0 = 2 \<or> bs ! 0 = 3)) (pubkeys s) bss"
    using assms(3) by (intro exists_list_all2) (simp add: publisher_key_def)
  then obtain bss where all: "list_all2 (\<lambda>k bs. k = bytesToHex bs \<and> length bs = 33 \<and> (bs ! 0 = 2 \<or> bs ! 0 = 3)) (pubkeys s) bss" ..
  then have keys: "emap (\<lambda>key. hexToFixed key 33) (pubkeys s) = Inr bss" "length bss = length (pubkeys s)"
    by (auto simp: emap_eq_Inr elim: list_all2_mono dest: list_all2_lengthD)
  have nth: "pubkeys s ! i = bytesToHex (bss ! i) \<and> (bss ! i ! 0 = 2 \<or> bss ! i ! 0 = 3)" if "i < length bss" for i
    using list_all2_nthD2[OF all that] by simp
  have "ascending_by (<) (pubkeys s)" using assms(1,2) by (simp add: sorted_ascending)
  then have less: "i = 0 \<or> bss ! (i - 1) < bss ! i" if "i < length bss" for i
    using that nth[of i] nth[of "i - 1"] keys(2) unfolding ascending_by_nth by (metis bytesToHex_less less_imp_diff_less)
  have "bss \<noteq> []" using assms(4) keys(2) by auto
  then show ?thesis
    using assms(5) nth less by (auto simp: isValidPublisherSet_def keys MAX_PUBLISHERS_def list_all_iff compareBytes_neg)
qed

lemma keys_of_valid_set:
  assumes "isValidPublisherSet s = Inr True" "k \<in> set (pubkeys s)"
  shows "publisher_key (toLowerCase k)"
proof -
  obtain bss where bss: "list_all2 (\<lambda>k bs. hexToFixed k 33 = Inr bs) (pubkeys s) bss"
    "\<forall>i < length bss. bss ! i ! 0 = 2 \<or> bss ! i ! 0 = 3"
    using assms(1) by (auto simp: isValidPublisherSet_def ebind_eq_Inr emap_eq_Inr list_all_iff)
  from assms(2) obtain i where i: "i < length (pubkeys s)" "k = pubkeys s ! i" by (auto simp: in_set_conv_nth)
  with bss(1) have len: "i < length bss" and bs: "hexToFixed k 33 = Inr (bss ! i)"
    using list_all2_nthD[OF bss(1)] by (auto dest: list_all2_lengthD)
  from bs have "hexToBytes k = Inr (bss ! i)" "length (bss ! i) = 33" by (simp_all add: hexToFixed_eq_Inr)
  with bytesToHex_hexToBytes[of k "bss ! i"] bss(2) len show ?thesis unfolding publisher_key_def by metis
qed

lemma remove_keys:
  "efold remove_key keys rs = Inr keys' \<Longrightarrow> set keys' = set keys - set rs \<and> (distinct keys \<longrightarrow> distinct keys')"
  by (induction rs arbitrary: keys) (fastforce simp: remove_key_def ebind_eq_Inr split: if_splits)+

lemma add_keys:
  "efold add_key keys as = Inr keys' \<Longrightarrow> set keys' = set keys \<union> set as \<and> (distinct keys \<longrightarrow> distinct keys')"
  by (induction as arbitrary: keys) (fastforce simp: add_key_def ebind_eq_Inr split: if_splits)+

lemma norm_keys:
  assumes "emap norm_key ks = Inr ks'"
  shows "set ks' = (\<lambda>k. toLowerCase (trim k)) ` set ks" "\<forall>k \<in> set ks'. publisher_key k"
proof -
  have "list_all2 (\<lambda>k k'. k' = toLowerCase (trim k) \<and> COMPRESSED_KEY k') ks ks'"
    using assms by (auto simp: emap_eq_Inr norm_key_def Let_def elim!: list_all2_mono split: if_splits)
  then have "ks' = map (\<lambda>k. toLowerCase (trim k)) ks \<and> (\<forall>k \<in> set ks'. COMPRESSED_KEY k)"
    by (induction rule: list_all2_induct) auto
  then show "set ks' = (\<lambda>k. toLowerCase (trim k)) ` set ks" "\<forall>k \<in> set ks'. publisher_key k"
    by (auto intro: compressed_key)
qed

text \<open>The keys of the next set: those of the current one, less those removed, with those added.\<close>

definition keys_after :: "PublisherSetData \<Rightarrow> string list \<Rightarrow> string list \<Rightarrow> hex set" where
  "keys_after d added removed = toLowerCase ` set (pubkeys (currentSet d)) -
    (\<lambda>k. toLowerCase (trim k)) ` set removed \<union> (\<lambda>k. toLowerCase (trim k)) ` set added"

lemma rotated_keys:
  assumes "isValidPublisherSet (currentSet d) = Inr True" "rotatedKeys d added removed = Inr ks" "pubkeys s = ks"
  shows "isValidPublisherSet s = Inr True" "set ks = keys_after d added removed"
proof -
  from assms(2) obtain rs keys as keys' where
    rs: "emap norm_key removed = Inr rs" "efold remove_key (js_set (map toLowerCase (pubkeys (currentSet d)))) rs = Inr keys"
    and as: "emap norm_key added = Inr as" "efold add_key keys as = Inr keys'"
    and ks: "ks = sort keys'" "\<not> (length keys' = 0 \<or> length keys' > 9)"
    by (auto simp: rotatedKeys_def Let_def ebind_eq_Inr split: if_splits)
  from remove_keys[OF rs(2)] add_keys[OF as(2)] norm_keys[OF rs(1)] norm_keys[OF as(1)]
  have set: "set ks = keys_after d added removed" and dist: "distinct ks"
    by (auto simp: ks keys_after_def)
  have "\<forall>k \<in> set ks. publisher_key k"
    using remove_keys[OF rs(2)] add_keys[OF as(2)] norm_keys(2)[OF as(1)] keys_of_valid_set[OF assms(1)]
    by (auto simp: ks)
  with dist ks show "isValidPublisherSet s = Inr True" by (intro valid_set_of_keys) (auto simp: assms(3))
  show "set ks = keys_after d added removed" by (rule set)
qed

section \<open>The next state\<close>

lemma js_paused_flag: "x AND NOT 2 = 0 \<Longrightarrow> x = 0 \<or> x = (2 :: int)"
proof -
  assume zero: "x AND NOT 2 = 0"
  have two: "bit (2 :: int) n \<longleftrightarrow> n = 1" for n using bit_exp_iff[of 1 n, where 'a = int] by auto
  have only: "bit x n \<Longrightarrow> n = 1" for n
  proof -
    have "\<not> bit (x AND NOT 2) n" unfolding zero by simp
    then show "bit x n \<Longrightarrow> n = 1" unfolding bit_and_iff bit_not_iff two by simp
  qed
  show ?thesis
  proof (cases "bit x 1")
    case True
    have "bit x n = bit (2 :: int) n" for n using True only[of n] two[of n] by blast
    then show ?thesis by (simp add: bit_eq_iff)
  next
    case False
    have "bit x n = bit (0 :: int) n" for n using False only[of n] by (metis bit_0_eq bot_apply bot_bool_def)
    then show ?thesis by (simp add: bit_eq_iff)
  qed
qed

lemma flags_after:
  assumes "js_and f (js_not GOVERNANCE_PAUSED) = 0"
  shows "js_and (js_or f GOVERNANCE_PAUSED) (js_not GOVERNANCE_PAUSED) = 0"
    "js_and (js_and f (js_not GOVERNANCE_PAUSED)) (js_not GOVERNANCE_PAUSED) = 0"
proof -
  have c: "asIntN 32 2 = 2" "asIntN 32 (- 3) = - 3" by (simp_all add: asIntN_def)
  have "asIntN 32 f AND NOT 2 = 0" using assms by (simp add: js_and_def js_not_def GOVERNANCE_PAUSED_def c)
  then have "asIntN 32 f = 0 \<or> asIntN 32 f = 2" by (rule js_paused_flag)
  then have "asIntN 32 f OR 2 = 2" by auto
  then show "js_and (js_or f GOVERNANCE_PAUSED) (js_not GOVERNANCE_PAUSED) = 0"
    by (simp add: js_or_def js_and_def js_not_def GOVERNANCE_PAUSED_def c)
  show "js_and (js_and f (js_not GOVERNANCE_PAUSED)) (js_not GOVERNANCE_PAUSED) = 0"
    unfolding assms by (simp add: js_and_def asIntN_def)
qed

lemma valid_data_flags: "isValidPublisherSetData d = Inr True \<Longrightarrow> 0 < minRotationIntervalS d \<and>
    js_and (governanceFlags d) (js_not GOVERNANCE_PAUSED) = 0"
  by (auto simp: isValidPublisherSetData_def ebind_eq_Inr split: if_splits)

lemma valid_dataI:
  assumes "isValidPublisherSet (currentSet d) = Inr True" "0 < minRotationIntervalS d"
    and "js_and (governanceFlags d) (js_not GOVERNANCE_PAUSED) = 0"
    and "case previousOf d of None \<Rightarrow> True | Some p \<Rightarrow> isValidPublisherSet (previousSet p) = Inr True \<and> 0 < untilMs p \<and>
      setIndex (previousSet p) + 1 = setIndex (currentSet d)"
  shows "isValidPublisherSetData d = Inr True"
  using assms by (auto simp: isValidPublisherSetData_def split: option.splits)

lemma valid_data_previous: "isValidPublisherSetData d = Inr True \<Longrightarrow> previousOf d = Some p \<Longrightarrow>
    isValidPublisherSet (previousSet p) = Inr True \<and> 0 < untilMs p \<and> setIndex (previousSet p) + 1 = setIndex (currentSet d)"
  by (auto simp: isValidPublisherSetData_def ebind_eq_Inr split: if_splits)

lemma build_state_cases:
  assumes "build_state now d operation opts = Inr d'"
  obtains
    (rotate) ks p where "operation = OP_ROTATE" "rotatedKeys d (or_empty (ns_add opts)) (or_empty (ns_remove opts)) = Inr ks"
      "currentSet d' = \<lparr>setIndex = setIndex (currentSet d) + 1, pubkeys = ks\<rparr>" "previousOf d' = Some p"
      "previousSet p = currentSet d" "ns_untilMs opts = Some (untilMs p)"
      "untilMs p \<le> (case ns_nowMs opts of None \<Rightarrow> now | Some t \<Rightarrow> t) + MAX_UNTIL_AHEAD_MS"
      "governanceFlags d' = governanceFlags d" "minRotationIntervalS d' = minRotationIntervalS d"
  | (revoke_all) ks where "operation = OP_ROTATE_REVOKE"
      "rotatedKeys d (or_empty (ns_add opts)) (or_empty (ns_remove opts)) = Inr ks"
      "currentSet d' = \<lparr>setIndex = setIndex (currentSet d) + 1, pubkeys = ks\<rparr>" "previousOf d' = None"
      "governanceFlags d' = governanceFlags d" "minRotationIntervalS d' = minRotationIntervalS d"
  | (flags) "operation \<notin> {OP_ROTATE, OP_ROTATE_REVOKE}" "currentSet d' = currentSet d" "previousOf d' = previousOf d \<or> previousOf d' = None"
      "governanceFlags d' \<in> {governanceFlags d, js_or (governanceFlags d) GOVERNANCE_PAUSED,
        js_and (governanceFlags d) (js_not GOVERNANCE_PAUSED)}" "minRotationIntervalS d' = minRotationIntervalS d"
proof -
  consider "operation = OP_ROTATE" | "operation = OP_ROTATE_REVOKE" | "operation \<notin> {OP_ROTATE, OP_ROTATE_REVOKE}" by blast
  then show thesis
  proof cases
    case 1
    with assms obtain ks t where ks: "rotatedKeys d (or_empty (ns_add opts)) (or_empty (ns_remove opts)) = Inr ks"
      and t: "ns_untilMs opts = Some t" "\<not> t > (case ns_nowMs opts of None \<Rightarrow> now | Some t \<Rightarrow> t) + MAX_UNTIL_AHEAD_MS"
      by (auto simp: build_state_def Let_def ebind_eq_Inr simp del: not_less split: option.splits if_splits)
    with 1 assms have "d' = d\<lparr>governanceNonce := governanceNonce d + 1,
        currentSet := \<lparr>setIndex = setIndex (currentSet d) + 1, pubkeys = ks\<rparr>,
        previousOf := Some \<lparr>previousSet = currentSet d, untilMs = t\<rparr>\<rparr>"
      by (simp add: build_state_def Let_def)
    with 1 ks t show thesis by (intro rotate[of ks "\<lparr>previousSet = currentSet d, untilMs = t\<rparr>"]) simp_all
  next
    case 2
    then have "operation \<noteq> OP_ROTATE" by (simp add: protocol_constants)
    with 2 show thesis using assms revoke_all by (auto simp: build_state_def Let_def ebind_eq_Inr)
  next
    case 3
    then show thesis using assms flags by (auto simp: build_state_def Let_def split: if_splits)
  qed
qed

lemma next_state_valid:
  assumes "isValidPublisherSetData d = Inr True" "build_state now d operation opts = Inr d'"
    and "\<And>t. operation = OP_ROTATE \<Longrightarrow> ns_untilMs opts = Some t \<Longrightarrow> 0 < t"
  shows "isValidPublisherSetData d' = Inr True"
  using assms(2)
proof (cases rule: build_state_cases)
  case (rotate ks p)
  note v = valid_data_sets(1)[OF assms(1)] valid_data_flags[OF assms(1)]
  show ?thesis
    using rotated_keys(1)[OF v(1) rotate(2), of "currentSet d'"] rotate v assms(3) by (intro valid_dataI) auto
next
  case (revoke_all ks)
  note v = valid_data_sets(1)[OF assms(1)] valid_data_flags[OF assms(1)]
  show ?thesis
    using rotated_keys(1)[OF v(1) revoke_all(2), of "currentSet d'"] revoke_all v by (intro valid_dataI) auto
next
  case flags
  note v = valid_data_sets(1)[OF assms(1)] valid_data_flags[OF assms(1)] valid_data_previous[OF assms(1)]
  show ?thesis
    using flags v flags_after[of "governanceFlags d"] by (intro valid_dataI) (auto split: option.splits)
qed

lemma next_state_built:
  "nextState now d operation opts = Inr d' \<longleftrightarrow>
    build_state now d operation opts = Inr d' \<and> transitionError d d' operation = None"
  by (auto simp: nextState_def ebind_eq_Inr split: option.splits)

section \<open>Approvals\<close>

text \<open>Every key of the set signed the digest, in the order of the indexes.\<close>

definition fully_signed :: "crypto \<Rightarrow> SignatureBundle \<Rightarrow> bytes_like \<Rightarrow> PublisherSet \<Rightarrow> bool" where
  "fully_signed C sigs digest s \<longleftrightarrow> (\<exists>hash. toBytes digest = Inr hash \<and>
    map publisherIndex sigs = index_range (length (pubkeys s)) \<and>
    (\<forall>e \<in> set sigs. signature_of C hash s (publisherIndex e) (signature e)))"

lemma map_index_range: "map f xs = index_range n \<longleftrightarrow> length xs = n \<and> (\<forall>i < length xs. f (xs ! i) = int i)"
proof
  assume m: "map f xs = index_range n"
  then have len: "length xs = n" by (metis index_range_simps(1) length_map)
  have "f (xs ! i) = int i" if "i < length xs" for i
    using arg_cong[OF m, of "\<lambda>ys. ys ! i"] that len by (simp add: index_range_def)
  with len show "length xs = n \<and> (\<forall>i < length xs. f (xs ! i) = int i)" by simp
next
  assume "length xs = n \<and> (\<forall>i < length xs. f (xs ! i) = int i)"
  then show "map f xs = index_range n" by (intro nth_equalityI) (auto simp: index_range_def)
qed

lemma verifyAll_fully_signed: "verifyAll C sigs digest s = Inr True \<longleftrightarrow> fully_signed C sigs digest s"
proof (cases "toBytes digest")
  case (Inl e)
  then show ?thesis by (simp add: verifyAll_def fully_signed_def)
next
  case (Inr hash)
  let ?n = "length (pubkeys s)"
  have step: "signedBy C hash e (pubkeys s ! i) = Inr True \<longleftrightarrow> signature_of C hash s (int i) (signature e)"
    if "i < ?n" for i e
    using that by (auto simp: signature_of_def signedBy_True at_index_def)
  have "verifyAll C sigs digest s = Inr True \<longleftrightarrow> length sigs = ?n \<and> (\<forall>i < length sigs.
      (if publisherIndex (sigs ! i) \<noteq> int i then Inr False else signedBy C hash (sigs ! i) (pubkeys s ! i)) = Inr True)"
    by (simp add: verifyAll_def Inr eall_enumerate)
  also have "\<dots> \<longleftrightarrow> length sigs = ?n \<and> (\<forall>i < length sigs. publisherIndex (sigs ! i) = int i) \<and>
      (\<forall>i < length sigs. signature_of C hash s (publisherIndex (sigs ! i)) (signature (sigs ! i)))"
  proof -
    have "(if publisherIndex (sigs ! i) \<noteq> int i then Inr False else signedBy C hash (sigs ! i) (pubkeys s ! i)) = Inr True \<longleftrightarrow>
        publisherIndex (sigs ! i) = int i \<and> signature_of C hash s (publisherIndex (sigs ! i)) (signature (sigs ! i))"
      if "i < ?n" for i
      using step[OF that, of "sigs ! i"] by (cases "publisherIndex (sigs ! i) = int i") simp_all
    then have "(\<forall>i < length sigs. (if publisherIndex (sigs ! i) \<noteq> int i then Inr False
          else signedBy C hash (sigs ! i) (pubkeys s ! i)) = Inr True) \<longleftrightarrow>
        (\<forall>i < length sigs. publisherIndex (sigs ! i) = int i \<and>
          signature_of C hash s (publisherIndex (sigs ! i)) (signature (sigs ! i)))" if "length sigs = ?n"
      by (intro all_cong) (simp only: that)
    then show ?thesis by blast
  qed
  also have "\<dots> \<longleftrightarrow> map publisherIndex sigs = index_range ?n \<and>
      (\<forall>e \<in> set sigs. signature_of C hash s (publisherIndex e) (signature e))"
  proof -
    show ?thesis unfolding all_set_conv_all_nth map_index_range by blast
  qed
  finally show ?thesis by (simp add: fully_signed_def Inr)
qed

text \<open>What the merge holds after the entries of \<open>A\<close>: one signature per index.\<close>

definition merged :: "(int \<times> IndexedSignature) list \<Rightarrow> IndexedSignature set \<Rightarrow> bool" where
  "merged m A \<longleftrightarrow> distinct (map fst m) \<and> (\<forall>i s. map_of m i = Some s \<longleftrightarrow> s \<in> A \<and> publisherIndex s = i)"

lemma merge_step:
  assumes "merged m A" "inj_on publisherIndex (insert e A)"
  shows "\<exists>m'. merge_signature m e = Inr m' \<and> merged m' (insert e A)"
proof -
  have same: "s = e" if "map_of m (publisherIndex e) = Some s" for s
    using that assms by (auto simp: merged_def inj_on_def)
  then have "merge_signature m e = Inr (AList.update (publisherIndex e) e m)"
    by (auto simp: merge_signature_def split: option.splits)
  moreover have "merged (AList.update (publisherIndex e) e m) (insert e A)"
    using assms by (auto simp: merged_def distinct_update update_conv' inj_on_def)
  ultimately show ?thesis by blast
qed

lemma merge_all:
  "merged m A \<Longrightarrow> inj_on publisherIndex (A \<union> set es) \<Longrightarrow>
    \<exists>m'. efold merge_signature m es = Inr m' \<and> merged m' (A \<union> set es)"
proof (induction es arbitrary: m A)
  case (Cons e es)
  have "inj_on publisherIndex (insert e A)" by (rule inj_on_subset[OF Cons.prems(2)]) auto
  from merge_step[OF Cons.prems(1) this] obtain m' where m': "merge_signature m e = Inr m'" "merged m' (insert e A)" by blast
  moreover have "inj_on publisherIndex (insert e A \<union> set es)" using Cons.prems(2) by simp
  ultimately show ?case using Cons.IH[OF m'(2)] by simp
qed auto

lemma mergeSignatures_merges:
  assumes "inj_on publisherIndex A" "set (concat parts) = A"
  obtains b where "mergeSignatures parts = Inr b" "set b = A" "distinct (map publisherIndex b)" "sorted (map publisherIndex b)"
proof -
  have "merged [] {}" by (simp add: merged_def)
  from merge_all[OF this, of "concat parts"] obtain m where m: "efold merge_signature [] (concat parts) = Inr m" "merged m A"
    using assms by auto
  have "snd ` set m = ran (map_of m)" using m(2) by (auto simp: merged_def ran_distinct)
  then have vals: "set (map snd m) = A" using m(2) by (auto simp: merged_def ran_def)
  have "\<forall>(i, s) \<in> set m. publisherIndex s = i" using m(2) by (auto simp: merged_def)
  then have "map publisherIndex (map snd m) = map fst m" by (auto simp: list.map_comp comp_def intro: map_cong)
  then have d: "distinct (map publisherIndex (map snd m))" using m(2) unfolding merged_def by (simp only:)
  then have b: "mergeSignatures parts = Inr (sort_key publisherIndex (map snd m))"
    by (simp add: mergeSignatures_def m(1) toSignatureBundle_iff)
  have "mset (map publisherIndex (sort_key publisherIndex (map snd m))) = mset (map publisherIndex (map snd m))"
    by (simp only: mset_map mset_sort)
  then have "distinct (map publisherIndex (sort_key publisherIndex (map snd m)))" using d by (metis mset_eq_imp_distinct_iff)
  with that[OF b] vals show thesis by simp
qed

text \<open>The digests are 32 bytes in hex.\<close>

lemma governance_digests:
  "publisherSetUpdateHash C d d' operation committee = Inr digest \<Longrightarrow> hash32 C \<Longrightarrow> \<exists>h. digest = bytesToHex h \<and> length h = 32"
  "publisherSetPopHash C d' committee = Inr digest \<Longrightarrow> hash32 C \<Longrightarrow> \<exists>h. digest = bytesToHex h \<and> length h = 32"
  by (auto simp: publisherSetUpdateHash_def publisherSetPopHash_def ebind_eq_Inr)

lemma signer_signs:
  assumes "signer_ok C ks" "ks_publicKey ks \<in> set (pubkeys s)" "hex_set s" "length h = 32"
  shows "\<exists>x. ks_sign ks (bytesToHex h) = Inr x \<and> signature_of C h s (index_of (ks_publicKey ks) (pubkeys s)) x"
proof -
  from assms(1,4) obtain x where x: "ks_sign ks (bytesToHex h) = Inr x"
    "recoverSigner C (Raw h) (HexStr x) = Inr (Some (ks_publicKey ks))"
    unfolding signer_ok_def by blast
  moreover from assms(2,3) obtain bs where "hexToBytes (ks_publicKey ks) = Inr bs"
    unfolding hex_set_def list_all_iff isHex_iff by blast
  ultimately show ?thesis using at_index_of[OF assms(2)] unfolding signature_of_def by blast
qed

text \<open>Operators whose keys are distinct members of a set sign at distinct indexes.\<close>

lemma operators_sign:
  assumes "\<forall>ks \<in> set As. signer_ok C ks \<and> ks_publicKey ks \<in> set (pubkeys s)" "hex_set s" "length h = 32"
    and "distinct (map ks_publicKey As)"
    and step: "\<And>ks. ks \<in> set As \<Longrightarrow> f ks = ebind (ks_sign ks (bytesToHex h)) (\<lambda>x.
      Inr \<lparr>publisherIndex = index_of (ks_publicKey ks) (pubkeys s), signature = x\<rparr>)"
  obtains es where "emap f As = Inr es" "length es = length As"
    "map publisherIndex es = map (\<lambda>ks. index_of (ks_publicKey ks) (pubkeys s)) As" "distinct (map publisherIndex es)"
    "\<forall>e \<in> set es. signature_of C h s (publisherIndex e) (signature e)"
proof -
  have "\<exists>es. list_all2 (\<lambda>ks e. f ks = Inr e \<and> publisherIndex e = index_of (ks_publicKey ks) (pubkeys s) \<and>
      signature_of C h s (publisherIndex e) (signature e)) As es"
  proof (rule exists_list_all2)
    fix ks assume ks: "ks \<in> set As"
    then obtain x where "ks_sign ks (bytesToHex h) = Inr x" "signature_of C h s (index_of (ks_publicKey ks) (pubkeys s)) x"
      using signer_signs[of C ks s h] assms(1-3) by blast
    then show "\<exists>e. f ks = Inr e \<and> publisherIndex e = index_of (ks_publicKey ks) (pubkeys s) \<and>
        signature_of C h s (publisherIndex e) (signature e)"
      by (simp add: step[OF ks])
  qed
  then obtain es where es: "list_all2 (\<lambda>ks e. f ks = Inr e \<and> publisherIndex e = index_of (ks_publicKey ks) (pubkeys s) \<and>
      signature_of C h s (publisherIndex e) (signature e)) As es" ..
  then have idx: "map publisherIndex es = map (\<lambda>ks. index_of (ks_publicKey ks) (pubkeys s)) As"
    by (induction rule: list_all2_induct) auto
  have "distinct (map (\<lambda>ks. index_of (ks_publicKey ks) (pubkeys s)) As)"
    using assms(1,4) by (auto simp: distinct_map inj_on_def index_of_inject)
  moreover have "emap f As = Inr es" using es by (auto simp: emap_eq_Inr elim: list_all2_mono)
  moreover have "\<forall>e \<in> set es. signature_of C h s (publisherIndex e) (signature e)"
    using es by (induction rule: list_all2_induct) auto
  ultimately show thesis using that[of es] idx es by (simp add: list_all2_lengthD)
qed

text \<open>The status of an operation with merged parts of enough operators.\<close>

lemma sorted_bundle: "sorted (map publisherIndex b) \<Longrightarrow> sort_key publisherIndex b = b"
  by (rule sort_key_id_if_sorted)

lemma counted: "\<exists>vs. emap (counts_as_valid C digest s) es = Inr vs"
  if "\<forall>e \<in> set es. signature_of C h s (publisherIndex e) (signature e)" "toBytes (HexStr digest) = Inr h"
  using that(1)
proof (induction es)
  case (Cons e es)
  then have "\<exists>r. recoverSigner C (HexStr digest) (HexStr (signature e)) = Inr (Some r)"
    unfolding recoverSigner_raw[OF that(2)] signature_of_def by force
  with Cons show ?case by (auto simp: counts_as_valid_def)
qed simp

lemma ready_status:
  assumes "transitionError d d' operation = None" "publisherSetUpdateHash C d d' operation committee = Inr (bytesToHex h)"
    and "publisherSetPopHash C d' committee = Inr (bytesToHex h')"
    and a: "sorted (map publisherIndex a)" "distinct (map publisherIndex a)" "quorum (currentSet d) \<le> int (length a)"
      "\<forall>e \<in> set a. signature_of C h (currentSet d) (publisherIndex e) (signature e)"
    and p: "map publisherIndex p = index_range (length (pubkeys (currentSet d')))"
      "\<forall>e \<in> set p. signature_of C h' (currentSet d') (publisherIndex e) (signature e)"
  shows "\<exists>st. governanceStatus C d d' operation committee a p = Inr st \<and> gs_ready st"
proof -
  have dig: "toBytes (HexStr (bytesToHex h)) = Inr h" "toBytes (HexStr (bytesToHex h')) = Inr h'" by simp_all
  note v = bundle_verifies[OF dig(1) a(2-4)]
  have ps: "distinct (map publisherIndex p)" "sorted (map publisherIndex p)"
    unfolding p(1) by simp (simp add: index_range_def sorted_map)
  then have pb: "toSignatureBundle p = Inr p" by (simp add: toSignatureBundle_iff sorted_bundle)
  have "fully_signed C p (HexStr (bytesToHex h')) (currentSet d')" using p dig(2) unfolding fully_signed_def by blast
  then have "verifyAll C p (HexStr (bytesToHex h')) (currentSet d') = Inr True" by (simp add: verifyAll_fully_signed)
  moreover have "length p = length (pubkeys (currentSet d'))" using arg_cong[OF p(1), of length] by simp
  ultimately have "pop_proven C d' operation committee p = Inr True"
    by (simp add: pop_proven_def pb assms(3))
  moreover obtain vs where "emap (counts_as_valid C (bytesToHex h) (currentSet d)) a = Inr vs"
    using counted[OF a(4), of "bytesToHex h"] by auto
  ultimately show ?thesis using v by (simp add: governanceStatus_def assms(1,2))
qed

lemma valid_set_distinct: "isValidPublisherSet s = Inr True \<Longrightarrow> distinct (pubkeys s)"
proof -
  assume "isValidPublisherSet s = Inr True"
  then obtain bss where bss: "emap (\<lambda>key. hexToFixed key 33) (pubkeys s) = Inr bss"
    "\<forall>i < length bss. i = 0 \<or> bss ! (i - 1) < bss ! i"
    by (auto simp: isValidPublisherSet_def ebind_eq_Inr list_all_iff compareBytes_neg)
  then have "ascending_by (<) bss" by (simp add: ascending_by_nth)
  then have "distinct bss" by (rule ascending_by_distinct[rotated 2]) auto
  moreover have "bss = map (\<lambda>k. hex_pairs (drop 2 k)) (pubkeys s)"
    using bss(1) unfolding emap_eq_Inr
    by (induction rule: list_all2_induct) (auto simp: hexToFixed_eq_Inr hexToBytes_def split: if_splits)
  ultimately show "distinct (pubkeys s)" by (simp add: distinct_map)
qed

lemma same_length: "distinct (map f xs) \<Longrightarrow> distinct (map f ys) \<Longrightarrow> set xs = set ys \<Longrightarrow> length xs = length ys"
  unfolding distinct_map using distinct_card[of xs] distinct_card[of ys] by simp

text \<open>As many distinct indexes of a set as it has keys are all of them.\<close>

lemma full_indexes:
  assumes "distinct (map publisherIndex p)" "sorted (map publisherIndex p)" "length p = length (pubkeys s)"
    and "\<forall>e \<in> set p. signature_of C h s (publisherIndex e) (signature e)"
  shows "map publisherIndex p = index_range (length (pubkeys s))"
proof (rule sorted_distinct_set_unique)
  have "publisherIndex ` set p \<subseteq> {0..<int (length (pubkeys s))}"
    using assms(4) by (auto simp: signature_of_def at_index_Some)
  moreover have "card (publisherIndex ` set p) = length p" using assms(1) by (metis distinct_card length_map list.set_map)
  ultimately have "publisherIndex ` set p = {0..<int (length (pubkeys s))}"
    using assms(3) by (intro card_subset_eq) auto
  then show "set (map publisherIndex p) = set (index_range (length (pubkeys s)))" by simp
  show "sorted (index_range (length (pubkeys s)))" by (simp add: index_range_def sorted_map)
qed (use assms in simp_all)

lemma governance_digest_exists:
  assumes "hexToFixed committee 32 = Inr c" "encodePublisherSetData d = Inr e" "encodePublisherSetData d' = Inr e'"
  shows "publisherSetUpdateHash C d d' operation committee = Inr (bytesToHex (ckbHash C [DOMAIN_SET_UPDATE, c,
      [word_of_int operation], ckbHash C [DOMAIN_SET_STATE, e], ckbHash C [DOMAIN_SET_STATE, e']]))"
    "publisherSetPopHash C d' committee = Inr (bytesToHex (ckbHash C [DOMAIN_SET_POP, c, ckbHash C [DOMAIN_SET_STATE, e']]))"
  using assms by (simp_all add: publisherSetUpdateHash_def publisherSetPopHash_def publisherSetStateHash_def)

text \<open>What is hashed for an approval.\<close>

definition approval_texts :: "crypto \<Rightarrow> PublisherSetData \<Rightarrow> PublisherSetData \<Rightarrow> int \<Rightarrow> hex \<Rightarrow> bytes set" where
  "approval_texts C d d' operation committee =
    (case (hexToFixed committee 32, encodePublisherSetData d, encodePublisherSetData d') of
      (Inr c, Inr e, Inr e') \<Rightarrow> {concatBytes [DOMAIN_SET_UPDATE, c, [word_of_int operation], ckbHash C [DOMAIN_SET_STATE, e],
          ckbHash C [DOMAIN_SET_STATE, e']], concatBytes [DOMAIN_SET_STATE, e], concatBytes [DOMAIN_SET_STATE, e']}
    | _ \<Rightarrow> {})"

text \<open>An approval cannot be replayed. The digest a quorum signs determines the committee cell, the operation
  and both states, as long as BLAKE2b does not confuse the texts hashed for two of them.\<close>

lemma approval_binds:
  assumes "publisherSetUpdateHash C d1 d1' op1 c1 = Inr digest" "publisherSetUpdateHash C d2 d2' op2 c2 = Inr digest"
    and "list_all (\<lambda>d. isValidPublisherSetData d = Inr True) [d1, d1', d2, d2']"
    and "0 \<le> op1" "op1 < 256" "0 \<le> op2" "op2 < 256" "hash32 C"
    and "inj_on (blake2b C) (approval_texts C d1 d1' op1 c1 \<union> approval_texts C d2 d2' op2 c2)"
  shows "toLowerCase c1 = toLowerCase c2 \<and> op1 = op2 \<and> norm_data d1 = norm_data d2 \<and> norm_data d1' = norm_data d2'"
proof -
  obtain k1 e1 f1 where a1: "hexToFixed c1 32 = Inr k1" "encodePublisherSetData d1 = Inr e1" "encodePublisherSetData d1' = Inr f1"
    using assms(1) by (auto simp: publisherSetUpdateHash_def publisherSetStateHash_def ebind_eq_Inr)
  obtain k2 e2 f2 where a2: "hexToFixed c2 32 = Inr k2" "encodePublisherSetData d2 = Inr e2" "encodePublisherSetData d2' = Inr f2"
    using assms(2) by (auto simp: publisherSetUpdateHash_def publisherSetStateHash_def ebind_eq_Inr)
  let ?h = "\<lambda>e. ckbHash C [DOMAIN_SET_STATE, e]"
  let ?t = "\<lambda>k op e f. concatBytes [DOMAIN_SET_UPDATE, k, [word_of_int op], ?h e, ?h f]"
  have texts: "approval_texts C d1 d1' op1 c1 = {?t k1 op1 e1 f1, concatBytes [DOMAIN_SET_STATE, e1], concatBytes [DOMAIN_SET_STATE, f1]}"
    "approval_texts C d2 d2' op2 c2 = {?t k2 op2 e2 f2, concatBytes [DOMAIN_SET_STATE, e2], concatBytes [DOMAIN_SET_STATE, f2]}"
    by (simp_all add: approval_texts_def a1 a2)
  have "bytesToHex (blake2b C (?t k1 op1 e1 f1)) = bytesToHex (blake2b C (?t k2 op2 e2 f2))"
    using assms(1,2) unfolding governance_digest_exists(1)[OF a1] governance_digest_exists(1)[OF a2] ckbHash_def by simp
  then have "blake2b C (?t k1 op1 e1 f1) = blake2b C (?t k2 op2 e2 f2)" by (simp only: bytesToHex_inject)
  from inj_onD[OF assms(9) this] have eq: "?t k1 op1 e1 f1 = ?t k2 op2 e2 f2" by (simp add: texts)
  have len: "length k1 = 32" "length k2 = 32" using a1(1) a2(1) by (simp_all add: hexToFixed_eq_Inr)
  from eq have "k1 = k2 \<and> (word_of_int op1 :: byte) = word_of_int op2 \<and> ?h e1 = ?h e2 \<and> ?h f1 = ?h f2"
    using len assms(8) by (simp add: concatBytes_def append_eq_append_conv)
  then have k: "k1 = k2" and op: "(word_of_int op1 :: byte) = word_of_int op2" and h: "?h e1 = ?h e2" "?h f1 = ?h f2" by simp_all
  have "concatBytes [DOMAIN_SET_STATE, e1] = concatBytes [DOMAIN_SET_STATE, e2]"
    by (rule inj_onD[OF assms(9)]) (use h(1) in \<open>simp_all add: texts ckbHash_def\<close>)
  moreover have "concatBytes [DOMAIN_SET_STATE, f1] = concatBytes [DOMAIN_SET_STATE, f2]"
    by (rule inj_onD[OF assms(9)]) (use h(2) in \<open>simp_all add: texts ckbHash_def\<close>)
  ultimately have ef: "e1 = e2" "f1 = f2" by (simp_all add: concatBytes_def)
  have "norm_data d1 = norm_data d2" "norm_data d1' = norm_data d2'"
    using set_codec.enc_inj[of d1 d2 e1] set_codec.enc_inj[of d1' d2' f1] a1 a2 ef assms(3) by simp_all
  moreover have "toLowerCase c1 = toLowerCase c2"
    using a1(1) a2(1) k hexToBytes_same_iff[of c1 k1 c2 k2] by (simp add: hexToFixed_eq_Inr)
  moreover have "op1 = op2"
    using op assms(4-7) by (simp add: word_of_int_eq_iff take_bit_eq_mod)
  ultimately show ?thesis by simp
qed

section \<open>Findings\<close>

text \<open>
  \<open>governanceStatus\<close> counts an entry that names no key of the set and recovers to none as a valid
  signer: both sides of its comparison are \<open>undefined\<close>. Only the number it reports is affected.
\<close>

lemma stranger_counts_as_valid:
  "counts_as_valid C digest s \<lparr>publisherIndex = int (length (pubkeys s)), signature = ''0x''\<rparr> = Inr True"
  by (simp add: counts_as_valid_def recoverSigner_def hexToBytes_def isHex_def SIGNATURE_LEN_def at_index_def)

text \<open>An inherited name is not refused, though it is no operation.\<close>

lemma inherited_operation_accepted: "parseOperation (Some ''constructor'') = Inr Inherited"
  by (simp add: parseOperation_def OPERATIONS_def OBJECT_PROTOTYPE_def)

section \<open>Properties\<close>

lemma valid_switch_tick: "isValidPublisherSetData d = Inr True \<Longrightarrow> previousOf d = Some p \<Longrightarrow> 0 < untilMs p"
  by (auto simp: isValidPublisherSetData_def ebind_eq_Inr split: if_splits)

text \<open>Claim C25: what \<open>nextState\<close> returns from a valid state passes the contract's transition rules; it is also a valid
  state, so that the two make one step of a history, unless it is a routine rotation whose switch tick
  \<open>--until-ms\<close> is not positive: then, and only then, it is not a valid state. A rotation has exactly the keys of
  the current set less the removed ones and with the added ones, and a routine one keeps the current set
  for the ticks before its switch tick, which is at most an hour ahead.\<close>

theorem next_state_is_a_step:
  assumes "isValidPublisherSetData d = Inr True" "nextState now d operation opts = Inr d'"
  shows "transitionError d d' operation = None \<and>
    (history d 1 d' \<longleftrightarrow> \<not> (operation = OP_ROTATE \<and> (\<exists>t. ns_untilMs opts = Some t \<and> t \<le> 0))) \<and>
    (operation \<in> {OP_ROTATE, OP_ROTATE_REVOKE} \<longrightarrow>
      set (pubkeys (currentSet d')) = keys_after d (or_empty (ns_add opts)) (or_empty (ns_remove opts))) \<and>
    (operation = OP_ROTATE \<longrightarrow> (\<exists>t. ns_untilMs opts = Some t \<and>
      previousOf d' = Some \<lparr>previousSet = currentSet d, untilMs = t\<rparr> \<and>
      t \<le> (case ns_nowMs opts of None \<Rightarrow> now | Some n \<Rightarrow> n) + 3600000))"
proof -
  have built: "build_state now d operation opts = Inr d'" and ok: "transitionError d d' operation = None"
    using assms(2) by (simp_all add: next_state_built)
  have h: "history d 1 d'" if "\<And>t. operation = OP_ROTATE \<Longrightarrow> ns_untilMs opts = Some t \<Longrightarrow> 0 < t"
    using history.step[OF history.start[OF assms(1)] next_state_valid[OF assms(1) built that] ok] by simp
  from built show ?thesis
  proof (cases rule: build_state_cases)
    case (rotate ks p)
    have "history d 1 d' \<longleftrightarrow> \<not> (\<exists>t. ns_untilMs opts = Some t \<and> t \<le> 0)"
      using h valid_switch_tick[OF history_valid[of d 1 d']] rotate by force
    with rotated_keys(2)[OF valid_data_sets(1)[OF assms(1)] rotate(2), of "currentSet d'"] rotate ok show ?thesis
      by (auto simp: protocol_constants intro: PreviousSet.equality)
  next
    case (revoke_all ks)
    from rotated_keys(2)[OF valid_data_sets(1)[OF assms(1)] revoke_all(2), of "currentSet d'"] revoke_all h ok show ?thesis
      by (auto simp: protocol_constants)
  next
    case flags
    with h ok show ?thesis by auto
  qed
qed

text \<open>A rotation of the committee of the examples, signed by its operators.\<close>

definition demo_rotation :: NextStateOptions where
  "demo_rotation = \<lparr>ns_add = None, ns_remove = None, ns_untilMs = Some 9000, ns_nowMs = Some 8000\<rparr>"

lemma demo_key_less: "demo_key m < demo_key n \<longleftrightarrow> m < n"
  by (simp add: demo_key_def bytesToHex_less Cons_less_Cons)

lemma demo_rotated_keys: "rotatedKeys demo_committee [] [] = Inr [demo_key 1, demo_key 2, demo_key 3, demo_key 4]"
proof -
  have low: "toLowerCase (demo_key n) = demo_key n" for n by (simp add: demo_key_def)
  have eq: "demo_key m = demo_key n \<longleftrightarrow> m = n" for m n by (simp add: demo_key_def)
  have "sorted [demo_key 1, demo_key 2, demo_key 3, demo_key 4]" by (simp add: order_le_less demo_key_less)
  then have "sort [demo_key 1, demo_key 2, demo_key 3, demo_key 4] = [demo_key 1, demo_key 2, demo_key 3, demo_key 4]"
    by (rule sort_key_id_if_sorted[of "\<lambda>x. x", simplified])
  then show ?thesis
    by (simp add: rotatedKeys_def demo_committee_def low eq js_set_def)
qed

lemma demo_next_state: "nextState 0 demo_committee OP_ROTATE demo_rotation = Inr demo_rotated"
proof -
  have "build_state 0 demo_committee OP_ROTATE demo_rotation = Inr demo_rotated"
    using demo_rotated_keys by (simp add: build_state_def demo_rotation_def or_empty_def Let_def MAX_UNTIL_AHEAD_MS_def demo_rotated_def
        demo_committee_def demo_set_def)
  moreover have "transitionError demo_committee demo_rotated OP_ROTATE = None"
    by (simp add: transitionError_def demo_committee_def demo_rotated_def sameSet_def)
  ultimately show ?thesis by (simp add: next_state_built)
qed

text \<open>The switch tick 0, which the command line accepts: \<open>nextState\<close> returns it, and the state is not valid.\<close>

definition demo_no_switch :: NextStateOptions where
  "demo_no_switch = demo_rotation\<lparr>ns_untilMs := Some 0\<rparr>"

lemma zero_switch_tick_accepted:
  "nextState 0 demo_committee OP_ROTATE demo_no_switch =
    Inr (demo_rotated\<lparr>previousOf := Some \<lparr>previousSet = currentSet demo_committee, untilMs = 0\<rparr>\<rparr>)"
  using demo_rotated_keys
  by (simp add: nextState_def build_state_def demo_no_switch_def demo_rotation_def or_empty_def Let_def MAX_UNTIL_AHEAD_MS_def
      transitionError_def demo_committee_def demo_rotated_def demo_set_def sameSet_def)

theorem next_state_is_a_step_witness:
  "history demo_committee 1 demo_rotated \<and> set (pubkeys (currentSet demo_rotated)) = keys_after demo_committee [] [] \<and>
    \<not> history demo_committee 1 (demo_rotated\<lparr>previousOf := Some \<lparr>previousSet = currentSet demo_committee, untilMs = 0\<rparr>\<rparr>)"
  using next_state_is_a_step[OF demo_valid(1) demo_next_state] next_state_is_a_step[OF demo_valid(1) zero_switch_tick_accepted]
  by (simp add: demo_rotation_def demo_no_switch_def or_empty_def)

text \<open>What \<open>ready\<close> means. A status is ready exactly when the authorization, sorted, is a bundle of a quorum of
  distinct members of the current set over the digest of the operation, and, for a rotation, every key
  of the next set has signed the proof of possession; a status exists only for an allowed transition.\<close>

theorem ready_status_accepted:
  assumes "governanceStatus C d d' operation committee auth pop = Inr st"
  shows "transitionError d d' operation = None \<and> (gs_ready st \<longleftrightarrow>
    (\<exists>digest. publisherSetUpdateHash C d d' operation committee = Inr digest \<and>
      quorum_signed C (sort_key publisherIndex auth) (HexStr digest) (currentSet d)) \<and>
    (needsProofOfPossession operation \<longrightarrow> (\<exists>digest. publisherSetPopHash C d' committee = Inr digest \<and>
      fully_signed C (sort_key publisherIndex pop) (HexStr digest) (currentSet d'))))"
proof -
  have ok: "transitionError d d' operation = None"
    using assms by (auto simp: governanceStatus_def split: option.splits)
  with assms obtain digest b authorized proven where
    u: "publisherSetUpdateHash C d d' operation committee = Inr digest" "toSignatureBundle auth = Inr b"
      "verifyThreshold C b (HexStr digest) (currentSet d) = Inr authorized"
    and p: "pop_proven C d' operation committee pop = Inr proven" and st: "gs_ready st = (authorized \<and> proven)"
    by (auto simp: governanceStatus_def ebind_eq_Inr)
  have "authorized \<longleftrightarrow> quorum_signed C (sort_key publisherIndex auth) (HexStr digest) (currentSet d)"
    using u(2,3) verifyThreshold_quorum[of C b "HexStr digest" "currentSet d"]
    by (auto simp: toSignatureBundle_iff)
  moreover have "proven \<longleftrightarrow> (needsProofOfPossession operation \<longrightarrow> (\<exists>digest. publisherSetPopHash C d' committee = Inr digest \<and>
      fully_signed C (sort_key publisherIndex pop) (HexStr digest) (currentSet d')))"
  proof (cases "needsProofOfPossession operation \<and> length pop = length (pubkeys (currentSet d'))")
    case True
    with p obtain b digest where "toSignatureBundle pop = Inr b" "publisherSetPopHash C d' committee = Inr digest"
      "verifyAll C b (HexStr digest) (currentSet d') = Inr proven"
      by (auto simp: pop_proven_def ebind_eq_Inr)
    with True show ?thesis using verifyAll_fully_signed[of C b "HexStr digest" "currentSet d'"]
      by (auto simp: toSignatureBundle_iff)
  next
    case False
    have "length pop = length (pubkeys (currentSet d'))"
      if "fully_signed C (sort_key publisherIndex pop) (HexStr digest) (currentSet d')" for digest
      using that by (auto simp: fully_signed_def map_index_range)
    with False p show ?thesis by (auto simp: pop_proven_def split: if_splits)
  qed
  ultimately show ?thesis using ok u(1) st by auto
qed

lemma demo_encodes: "\<exists>bs. encodePublisherSetData demo_committee = Inr bs" "\<exists>bs. encodePublisherSetData demo_rotated = Inr bs"
  by (simp_all add: encodePublisherSetData_def demo_rotated_def demo_committee_def writeSet_def writePrevious_def
      is_u8_def is_u32_def is_u64_def PUBLISHER_SET_VERSION_def)

definition demo_signers :: "KeySigner list" where
  "demo_signers = map demo_signer [1, 2, 3, 4]"

lemma demo_signers_keys: "map ks_publicKey demo_signers = map demo_key [1, 2, 3, 4]" "\<forall>ks \<in> set demo_signers. signer_ok demo_crypto ks"
  "distinct (map ks_publicKey demo_signers)"
  using demo_signer_ok by (auto simp: demo_signers_def demo_signer_def demo_key_def)

text \<open>However the parts of a quorum and of all next keys are merged, the status is ready.\<close>

lemma merged_parts_ready:
  assumes "transitionError d d' operation = None" "isValidPublisherSet (currentSet d') = Inr True"
    and hash: "publisherSetUpdateHash C d d' operation committee = Inr (bytesToHex h)"
      "publisherSetPopHash C d' committee = Inr (bytesToHex h')"
    and es: "distinct (map publisherIndex es)" "\<forall>e \<in> set es. signature_of C h (currentSet d) (publisherIndex e) (signature e)"
      "quorum (currentSet d) \<le> int (length es)"
    and fs: "distinct (map publisherIndex fs)" "\<forall>e \<in> set fs. signature_of C h' (currentSet d') (publisherIndex e) (signature e)"
      "length fs = length (pubkeys (currentSet d'))"
    and parts: "set (concat parts) = set es" "set (concat parts') = set fs"
  shows "\<exists>a p st. mergeSignatures parts = Inr a \<and> mergeSignatures parts' = Inr p \<and>
    governanceStatus C d d' operation committee a p = Inr st \<and> gs_ready st"
proof -
  obtain a where a: "mergeSignatures parts = Inr a" "set a = set es" "distinct (map publisherIndex a)" "sorted (map publisherIndex a)"
    by (rule mergeSignatures_merges[OF _ parts(1)]) (use es(1) in \<open>simp_all add: distinct_map\<close>)
  obtain p where p: "mergeSignatures parts' = Inr p" "set p = set fs" "distinct (map publisherIndex p)" "sorted (map publisherIndex p)"
    by (rule mergeSignatures_merges[OF _ parts(2)]) (use fs(1) in \<open>simp_all add: distinct_map\<close>)
  have la: "length a = length es" by (rule same_length[OF a(3) es(1) a(2)])
  have n: "length p = length (pubkeys (currentSet d'))" using same_length[OF p(3) fs(1) p(2)] fs(3) by simp
  have "\<forall>e \<in> set p. signature_of C h' (currentSet d') (publisherIndex e) (signature e)" using fs(2) p(2) by simp
  note idx = full_indexes[OF p(3,4) n this]
  show ?thesis
    using ready_status[OF assms(1) hash a(4,3) _ _ idx] a p es(2,3) fs(2) la by auto
qed

lemma operator_parts:
  assumes "transitionError d d' operation = None" and hash: "publisherSetUpdateHash C d d' operation committee = Inr (bytesToHex h)"
      "publisherSetPopHash C d' committee = Inr (bytesToHex h')"
  shows "ks_publicKey ks \<in> set (pubkeys (currentSet d)) \<Longrightarrow> signGovernance C d d' operation committee ks =
      ebind (ks_sign ks (bytesToHex h)) (\<lambda>x. Inr \<lparr>publisherIndex = index_of (ks_publicKey ks) (pubkeys (currentSet d)), signature = x\<rparr>)"
    and "ks_publicKey ks \<in> set (pubkeys (currentSet d')) \<Longrightarrow> signProofOfPossession C d' committee ks =
      ebind (ks_sign ks (bytesToHex h')) (\<lambda>x. Inr \<lparr>publisherIndex = index_of (ks_publicKey ks) (pubkeys (currentSet d')), signature = x\<rparr>)"
  using assms index_of_bounds by (fastforce simp: signGovernance_def signProofOfPossession_def Let_def)+

text \<open>Claim C26: working operators make an operation ready. For a state \<open>nextState\<close> built, whenever a quorum of the
  current set signs with \<open>signGovernance\<close> and every key of the next set with \<open>signProofOfPossession\<close>, no
  signing fails, and in whatever order and however often their parts are merged, the merges succeed and
  the status is ready.\<close>

theorem operators_make_ready:
  assumes "isValidPublisherSetData d = Inr True" "nextState now d operation opts = Inr d'"
    and "case ns_untilMs opts of None \<Rightarrow> True | Some t \<Rightarrow> 0 < t"
    and "hash32 C" "publisherSetUpdateHash C d d' operation committee = Inr digest"
      "publisherSetPopHash C d' committee = Inr digest'"
    and "\<forall>ks \<in> set As \<union> set Bs. signer_ok C ks"
    and "distinct (map ks_publicKey As)" "ks_publicKey ` set As \<subseteq> set (pubkeys (currentSet d))"
      "quorum (currentSet d) \<le> int (length As)"
    and "distinct (map ks_publicKey Bs)" "ks_publicKey ` set Bs = set (pubkeys (currentSet d'))"
  shows "\<exists>as ps. emap (signGovernance C d d' operation committee) As = Inr as \<and>
    emap (signProofOfPossession C d' committee) Bs = Inr ps \<and>
    (\<forall>parts parts'. set (concat parts) = set as \<and> set (concat parts') = set ps \<longrightarrow>
      (\<exists>a p st. mergeSignatures parts = Inr a \<and> mergeSignatures parts' = Inr p \<and>
        governanceStatus C d d' operation committee a p = Inr st \<and> gs_ready st))"
proof -
  have built: "build_state now d operation opts = Inr d'" and ok: "transitionError d d' operation = None"
    using assms(2) by (simp_all add: next_state_built)
  have "isValidPublisherSetData d' = Inr True"
    by (rule next_state_valid[OF assms(1) built]) (use assms(3) in auto)
  note valid = valid_data_sets(1)[OF assms(1)] valid_data_sets(1)[OF this]
  note hex = valid_hex_set[OF valid(1)] valid_hex_set[OF valid(2)]
  from governance_digests(1)[OF assms(5,4)] obtain h where h: "digest = bytesToHex h" "length h = 32" by blast
  from governance_digests(2)[OF assms(6,4)] obtain h' where h': "digest' = bytesToHex h'" "length h' = 32" by blast
  note hash = assms(5)[unfolded h(1)] assms(6)[unfolded h'(1)]
  have as: "\<forall>ks \<in> set As. signer_ok C ks \<and> ks_publicKey ks \<in> set (pubkeys (currentSet d))" using assms(7,9) by auto
  have bs: "\<forall>ks \<in> set Bs. signer_ok C ks \<and> ks_publicKey ks \<in> set (pubkeys (currentSet d'))" using assms(7,12) by auto
  obtain es where
    es: "emap (signGovernance C d d' operation committee) As = Inr es" "length es = length As"
      "distinct (map publisherIndex es)" "\<forall>e \<in> set es. signature_of C h (currentSet d) (publisherIndex e) (signature e)"
    by (rule operators_sign[OF as hex(1) h(2) assms(8) operator_parts(1)[OF ok hash]]) (use as in auto)
  obtain fs where
    fs: "emap (signProofOfPossession C d' committee) Bs = Inr fs" "length fs = length Bs"
      "distinct (map publisherIndex fs)" "\<forall>e \<in> set fs. signature_of C h' (currentSet d') (publisherIndex e) (signature e)"
    by (rule operators_sign[OF bs hex(2) h'(2) assms(11) operator_parts(2)[OF ok hash]]) (use bs in auto)
  have "length Bs = card (set (pubkeys (currentSet d')))" using assms(11,12) by (metis distinct_card length_map list.set_map)
  then have "length fs = length (pubkeys (currentSet d'))" using valid_set_distinct[OF valid(2)] fs(2) by (simp add: distinct_card)
  moreover have "quorum (currentSet d) \<le> int (length es)" using assms(10) es(2) by simp
  ultimately show ?thesis
    using merged_parts_ready[OF ok valid(2) hash es(3,4) _ fs(3,4)] es(1) fs(1) by blast
qed

theorem operators_make_ready_witness:
  "\<exists>as ps digest committee. emap (signGovernance demo_crypto demo_committee demo_rotated OP_ROTATE committee) demo_signers = Inr as \<and>
    emap (signProofOfPossession demo_crypto demo_rotated committee) demo_signers = Inr ps \<and>
    (\<exists>a p st. mergeSignatures [as, as] = Inr a \<and> mergeSignatures [rev ps] = Inr p \<and>
      governanceStatus demo_crypto demo_committee demo_rotated OP_ROTATE committee a p = Inr st \<and> gs_ready st)"
proof -
  define committee where "committee = bytesToHex (replicate 32 9)"
  have "hexToFixed committee 32 = Inr (replicate 32 9)" by (simp add: committee_def)
  then obtain digest digest' where dig: "publisherSetUpdateHash demo_crypto demo_committee demo_rotated OP_ROTATE committee = Inr digest"
    "publisherSetPopHash demo_crypto demo_rotated committee = Inr digest'"
    using demo_encodes governance_digest_exists by metis
  have un: "case ns_untilMs demo_rotation of None \<Rightarrow> True | Some t \<Rightarrow> 0 < t" by (simp add: demo_rotation_def)
  have keys: "pubkeys (currentSet demo_committee) = map ks_publicKey demo_signers"
    "pubkeys (currentSet demo_rotated) = map ks_publicKey demo_signers"
    by (simp_all add: demo_signers_keys(1) demo_committee_def demo_rotated_def del: list.map)
  have ok: "\<forall>ks \<in> set demo_signers \<union> set demo_signers. signer_ok demo_crypto ks" using demo_signers_keys(2) by simp
  have "ks_publicKey ` set demo_signers \<subseteq> set (pubkeys (currentSet demo_committee))"
    "quorum (currentSet demo_committee) \<le> int (length demo_signers)"
    "ks_publicKey ` set demo_signers = set (pubkeys (currentSet demo_rotated))"
    by (simp_all add: keys quorum_def) (simp add: demo_signers_def)
  from operators_make_ready[OF demo_valid(1) demo_next_state un demo_hash32 dig ok demo_signers_keys(3) this(1,2) demo_signers_keys(3) this(3)]
  obtain as ps where "emap (signGovernance demo_crypto demo_committee demo_rotated OP_ROTATE committee) demo_signers = Inr as"
    "emap (signProofOfPossession demo_crypto demo_rotated committee) demo_signers = Inr ps"
    and all: "\<forall>parts parts'. set (concat parts) = set as \<and> set (concat parts') = set ps \<longrightarrow>
      (\<exists>a p st. mergeSignatures parts = Inr a \<and> mergeSignatures parts' = Inr p \<and>
        governanceStatus demo_crypto demo_committee demo_rotated OP_ROTATE committee a p = Inr st \<and> gs_ready st)" by blast
  moreover have "set (concat [as, as]) = set as" "set (concat [rev ps]) = set ps" by simp_all
  ultimately show ?thesis by blast
qed

definition demo_pop :: SignatureBundle where
  "demo_pop = [\<lparr>publisherIndex = 0, signature = demo_signature 1\<rparr>, \<lparr>publisherIndex = 1, signature = demo_signature 2\<rparr>,
     \<lparr>publisherIndex = 2, signature = demo_signature 3\<rparr>, \<lparr>publisherIndex = 3, signature = demo_signature 4\<rparr>]"

lemma demo_pop_signed:
  "\<forall>e \<in> set demo_pop. signature_of demo_crypto hash (demo_set k) (publisherIndex e) (signature e)"
  by (auto simp: demo_pop_def at_index_def intro!: demo_signature_of)

theorem ready_status_accepted_witness:
  "\<exists>committee st digest. governanceStatus demo_crypto demo_committee demo_rotated OP_ROTATE committee demo_bundle demo_pop = Inr st \<and>
    gs_ready st \<and> quorum_signed demo_crypto (sort_key publisherIndex demo_bundle) (HexStr digest) (demo_set 1)"
proof -
  define committee where "committee = bytesToHex (replicate 32 9)"
  have c: "hexToFixed committee 32 = Inr (replicate 32 9)" by (simp add: committee_def)
  obtain e e' where e: "encodePublisherSetData demo_committee = Inr e" "encodePublisherSetData demo_rotated = Inr e'"
    using demo_encodes by blast
  note dig = governance_digest_exists[OF c e, where C = demo_crypto]
  have ok: "transitionError demo_committee demo_rotated OP_ROTATE = None"
    using demo_next_state by (simp add: next_state_built)
  have sets: "currentSet demo_committee = demo_set 1" "currentSet demo_rotated = demo_set 2"
    by (simp_all add: demo_committee_def demo_rotated_def)
  have b: "sorted (map publisherIndex demo_bundle)" "distinct (map publisherIndex demo_bundle)"
    "quorum (currentSet demo_committee) \<le> int (length demo_bundle)"
    "map publisherIndex demo_pop = index_range (length (pubkeys (currentSet demo_rotated)))"
    by (simp_all add: demo_bundle_def demo_pop_def sets quorum_def index_range_def upt_rec)
  from ready_status[OF ok dig b(1-3) demo_bundle_signed[of _ 1, folded sets] b(4) demo_pop_signed[of _ 2, folded sets]]
  obtain st where st: "governanceStatus demo_crypto demo_committee demo_rotated OP_ROTATE committee demo_bundle demo_pop = Inr st" "gs_ready st"
    by blast
  from ready_status_accepted[OF st(1)] st show ?thesis unfolding sets by blast
qed

end
