(* ===== verification/Watchdog.thy ===== *)
theory Watchdog
  imports Mirror_Api
begin

text \<open>
  \<open>apps/watchdog/src\<close>: \<open>checks.ts\<close> turns the health answers of publishers and of the mirror into check
  results, \<open>alerts.ts\<close> decides what to send, and \<open>main.ts\<close> reads the configuration and runs the rounds.
  An HTTP answer is an argument (\<open>Inl\<close> when the request or its JSON fails), an alert is a constructor
  instead of a text with an icon, and the texts of errors are dropped. Telegram and the timer are not
  modelled.

  The lemmas follow one key through any run of rounds: its state counts its consecutive failures, and
  messages are sent exactly on the changes and reminders the policy asks for.
\<close>

section \<open>Checks\<close>

record CheckResult =
  cr_key :: string
  cr_ok :: bool
  cr_detail :: string

record Target =
  tg_name :: string
  tg_url :: string
  tg_maxLagMs :: int

datatype lag = Lag rat | Infinite | NotNumber

definition age :: "string option \<Rightarrow> int \<Rightarrow> lag" where
  "age tickMs now = (case tickMs of
      None \<Rightarrow> Infinite
    | Some s \<Rightarrow> if s = [] then Infinite
        else (case number_of s of None \<Rightarrow> NotNumber | Some t \<Rightarrow> Lag (of_int now - t)))"

fun recent :: "lag \<Rightarrow> int \<Rightarrow> bool" where
  "recent (Lag x) limit \<longleftrightarrow> x \<le> of_int limit"
| "recent Infinite limit \<longleftrightarrow> False"
| "recent NotNumber limit \<longleftrightarrow> False"

text \<open>\<open>Math.round\<close> rounds a half up.\<close>

fun seconds :: "lag \<Rightarrow> string" where
  "seconds (Lag x) = int_string \<lfloor>x / 1000 + 1 / 2\<rfloor> @ '' s''"
| "seconds Infinite = ''never''"
| "seconds NotNumber = ''never''"

definition checkPublisher :: "Target \<Rightarrow> int \<Rightarrow> string option result \<Rightarrow> CheckResult" where
  "checkPublisher target now reading = (let key = ''publisher:'' @ tg_name target in
    case reading of
      Inl e \<Rightarrow> \<lparr>cr_key = key, cr_ok = False, cr_detail = ''unreachable''\<rparr>
    | Inr latestFinalizedTickMs \<Rightarrow>
        let l = age latestFinalizedTickMs now in
        \<lparr>cr_key = key, cr_ok = recent l (tg_maxLagMs target), cr_detail = ''last finalized '' @ seconds l @ '' ago''\<rparr>)"

definition check_committee :: "(string \<times> int) list \<Rightarrow> int \<Rightarrow> HealthEntry \<Rightarrow> CheckResult" where
  "check_committee maxLagMs now c =
    (let l = age (he_latestTickMs c) now;
         limit = (case map_of maxLagMs (he_name c) of None \<Rightarrow> 60000 | Some m \<Rightarrow> m)
     in \<lparr>cr_key = ''mirror:'' @ he_name c, cr_ok = recent l limit,
          cr_detail = ''latest tick '' @ seconds l @ '' old, '' @ int_string (int (he_sourcesConnected c)) @ ''/'' @
            int_string (int (he_sources c)) @ '' publishers connected''\<rparr>)"

text \<open>The two requests, \<open>/health\<close> and \<open>/v1/equivocations?limit=1000\<close>; either failing makes the mirror unreachable.\<close>

definition checkMirror ::
  "string \<Rightarrow> (string \<times> int) list \<Rightarrow> int \<Rightarrow> HealthEntry list result \<Rightarrow> Equivocation list result \<Rightarrow> CheckResult list \<times> int" where
  "checkMirror url maxLagMs now healthAnswer equivocationAnswer =
    (case ebind healthAnswer (\<lambda>cs. ebind equivocationAnswer (\<lambda>es. Inr (cs, es))) of
      Inl e \<Rightarrow> ([\<lparr>cr_key = ''mirror:reachable'', cr_ok = False, cr_detail = url @ '' unreachable''\<rparr>], - 1)
    | Inr (cs, es) \<Rightarrow>
        (\<lparr>cr_key = ''mirror:reachable'', cr_ok = True, cr_detail = url\<rparr> # map (check_committee maxLagMs now) cs,
         int (length es)))"

section \<open>Alerts\<close>

record AlertPolicy =
  pl_remindEveryMs :: int
  pl_failuresBeforeAlert :: int

definition DEFAULT_POLICY :: AlertPolicy where
  "DEFAULT_POLICY = \<lparr>pl_remindEveryMs = 3600000, pl_failuresBeforeAlert = 2\<rparr>"

record KeyState =
  ky_failures :: int
  ky_alerted :: bool
  ky_lastAlertMs :: int
  ky_detail :: string

record AlertState =
  al_states :: "(string \<times> KeyState) list"
  al_equivocations :: "int option"

datatype alert = Recovered string string | Failing string string | StillFailing string string | NewEquivocations int

definition new_alerts :: AlertState where
  "new_alerts = \<lparr>al_states = [], al_equivocations = None\<rparr>"

definition key_state :: "AlertState \<Rightarrow> string \<Rightarrow> KeyState" where
  "key_state st k = (case map_of (al_states st) k of
      None \<Rightarrow> \<lparr>ky_failures = 0, ky_alerted = False, ky_lastAlertMs = 0, ky_detail = []\<rparr>
    | Some s \<Rightarrow> s)"

definition next_key_state :: "AlertPolicy \<Rightarrow> int \<Rightarrow> CheckResult \<Rightarrow> KeyState \<Rightarrow> alert list \<times> KeyState" where
  "next_key_state policy now r s0 =
    (let s = s0\<lparr>ky_detail := cr_detail r\<rparr> in
     if cr_ok r then
       (if ky_alerted s then [Recovered (cr_key r) (cr_detail r)] else [], s\<lparr>ky_failures := 0, ky_alerted := False\<rparr>)
     else
       let s = s\<lparr>ky_failures := ky_failures s + 1\<rparr> in
       if \<not> ky_alerted s \<and> ky_failures s \<ge> pl_failuresBeforeAlert policy then
         ([Failing (cr_key r) (cr_detail r)], s\<lparr>ky_alerted := True, ky_lastAlertMs := now\<rparr>)
       else if ky_alerted s \<and> now - ky_lastAlertMs s \<ge> pl_remindEveryMs policy then
         ([StillFailing (cr_key r) (cr_detail r)], s\<lparr>ky_lastAlertMs := now\<rparr>)
       else ([], s))"

definition update_result :: "AlertPolicy \<Rightarrow> int \<Rightarrow> alert list \<times> AlertState \<Rightarrow> CheckResult \<Rightarrow> alert list \<times> AlertState" where
  "update_result policy now acc r =
    (let (messages, st) = acc; (new, s) = next_key_state policy now r (key_state st (cr_key r))
     in (messages @ new, st\<lparr>al_states := AList.update (cr_key r) s (al_states st)\<rparr>))"

definition update_alerts :: "AlertPolicy \<Rightarrow> CheckResult list \<Rightarrow> int \<Rightarrow> int \<Rightarrow> AlertState \<Rightarrow> alert list \<times> AlertState" where
  "update_alerts policy results found now st =
    (let (messages, st) = foldl (update_result policy now) ([], st) results in
     if found \<ge> 0 then
       (messages @ (case al_equivocations st of
            None \<Rightarrow> []
          | Some n \<Rightarrow> if found > n then [NewEquivocations (found - n)] else []),
        st\<lparr>al_equivocations := Some found\<rparr>)
     else (messages, st))"

text \<open>The lines of the daily summary: alerted, key and detail, and the number of equivocations, if known.\<close>

definition summary :: "AlertState \<Rightarrow> (bool \<times> string \<times> string) list \<times> int option" where
  "summary st = (map (\<lambda>(key, s). (ky_alerted s, key, ky_detail s)) (al_states st), al_equivocations st)"

section \<open>Configuration and rounds\<close>

definition index_char :: "char \<Rightarrow> string \<Rightarrow> int" where
  "index_char c s = index_of c s"

definition pair_of :: "string \<Rightarrow> (string \<times> string) result" where
  "pair_of p =
    (let i = index_char (CHR ''='') p in
     if i < 1 then Inl (Failure ''expected name=value'')
     else Inr (take (nat i) p, drop (nat i + 1) p))"

definition pairs :: "string option \<Rightarrow> (string \<times> string) list result" where
  "pairs raw = emap pair_of (filter (\<lambda>p. p \<noteq> []) (map trim (split_comma (case raw of None \<Rightarrow> [] | Some s \<Rightarrow> s))))"

text \<open>One round; the summary is due once a day, in the configured hour.\<close>

definition watch_round ::
  "AlertPolicy \<Rightarrow> CheckResult list \<Rightarrow> (CheckResult list \<times> int) option \<Rightarrow> int \<Rightarrow> AlertState \<Rightarrow> alert list \<times> AlertState" where
  "watch_round policy publisherResults mirror now st =
    (case mirror of
      None \<Rightarrow> update_alerts policy publisherResults (- 1) now st
    | Some (results, found) \<Rightarrow> update_alerts policy (publisherResults @ results) found now st)"

definition summary_due :: "int \<Rightarrow> int \<Rightarrow> int \<Rightarrow> int \<Rightarrow> bool" where
  "summary_due summaryHour hour day lastSummaryDay \<longleftrightarrow> hour = summaryHour \<and> day \<noteq> lastSummaryDay"

section \<open>Runs\<close>

type_synonym watch_rounds = "(CheckResult list \<times> int \<times> int) list"

text \<open>A run of rounds (results, equivocations, time) from the start, with the sent_log of the messages sent.\<close>

definition watch_step :: "AlertPolicy \<Rightarrow> AlertState \<times> (int \<times> alert) list \<Rightarrow> CheckResult list \<times> int \<times> int \<Rightarrow>
    AlertState \<times> (int \<times> alert) list" where
  "watch_step policy acc rnd = (let (st, sent_log) = acc; (results, found, now) = rnd;
      (messages, st') = update_alerts policy results found now st in (st', sent_log @ map (Pair now) messages))"

definition watch_run :: "AlertPolicy \<Rightarrow> watch_rounds \<Rightarrow> AlertState \<times> (int \<times> alert) list" where
  "watch_run policy rounds = foldl (watch_step policy) (new_alerts, []) rounds"

fun about :: "string \<Rightarrow> alert \<Rightarrow> bool" where
  "about k (Recovered k' d) \<longleftrightarrow> k' = k"
| "about k (Failing k' d) \<longleftrightarrow> k' = k"
| "about k (StillFailing k' d) \<longleftrightarrow> k' = k"
| "about k (NewEquivocations n) \<longleftrightarrow> False"

text \<open>The number of consecutive failures a key ends with, and when a message about it was sent last.\<close>

definition streak :: "string \<Rightarrow> CheckResult list \<Rightarrow> nat" where
  "streak k results = length (takeWhile (\<lambda>r. \<not> cr_ok r) (rev (filter (\<lambda>r. cr_key r = k) results)))"

definition failing_rounds :: "string \<Rightarrow> watch_rounds \<Rightarrow> nat" where
  "failing_rounds k rounds = streak k (concat (map fst rounds))"

definition last_sent :: "string \<Rightarrow> (int \<times> alert) list \<Rightarrow> int" where
  "last_sent k sent_log = fst (last (filter (\<lambda>(t, m). about k m) sent_log))"

text \<open>What the policy asks for, from the length of the failing streak and the time of the last message.\<close>

definition expected :: "AlertPolicy \<Rightarrow> nat \<Rightarrow> int \<Rightarrow> int \<Rightarrow> CheckResult \<Rightarrow> alert list" where
  "expected policy n sent now r =
    (if cr_ok r then (if int n \<ge> pl_failuresBeforeAlert policy then [Recovered (cr_key r) (cr_detail r)] else [])
     else if int n + 1 = pl_failuresBeforeAlert policy then [Failing (cr_key r) (cr_detail r)]
     else if int n + 1 > pl_failuresBeforeAlert policy \<and> now - sent \<ge> pl_remindEveryMs policy
       then [StillFailing (cr_key r) (cr_detail r)] else [])"

lemma streak_snoc: "streak k (rs @ [r]) = (if cr_key r = k then if cr_ok r then 0 else streak k rs + 1 else streak k rs)"
  by (simp add: streak_def)

definition tracks :: "AlertPolicy \<Rightarrow> CheckResult list \<Rightarrow> (int \<times> alert) list \<Rightarrow> AlertState \<Rightarrow> bool" where
  "tracks policy rs sent_log st \<longleftrightarrow> (\<forall>k. ky_failures (key_state st k) = int (streak k rs) \<and>
    (ky_alerted (key_state st k) \<longleftrightarrow> int (streak k rs) \<ge> pl_failuresBeforeAlert policy) \<and>
    (ky_alerted (key_state st k) \<longrightarrow> filter (\<lambda>(t, m). about k m) sent_log \<noteq> [] \<and> ky_lastAlertMs (key_state st k) = last_sent k sent_log))"

lemma tracksD:
  assumes "tracks policy rs sent_log st"
  shows "ky_failures (key_state st k) = int (streak k rs)"
    "ky_alerted (key_state st k) \<longleftrightarrow> int (streak k rs) \<ge> pl_failuresBeforeAlert policy"
    "ky_alerted (key_state st k) \<Longrightarrow> filter (\<lambda>(t, m). about k m) sent_log \<noteq> [] \<and> ky_lastAlertMs (key_state st k) = last_sent k sent_log"
  using assms by (simp_all add: tracks_def)

lemma key_state_update [simp]:
  "key_state (st\<lparr>al_states := AList.update k s (al_states st)\<rparr>) k' = (if k' = k then s else key_state st k')"
  by (simp add: key_state_def update_conv')

lemma key_state_equivocations [simp]: "key_state (st\<lparr>al_equivocations := e\<rparr>) k = key_state st k"
  by (simp add: key_state_def)

lemma next_key_state_expected:
  assumes "tracks policy rs sent_log st" "1 \<le> pl_failuresBeforeAlert policy"
  shows "fst (next_key_state policy now r (key_state st (cr_key r))) =
    expected policy (streak (cr_key r) rs) (last_sent (cr_key r) sent_log) now r"
  using tracksD[OF assms(1), of "cr_key r"] assms(2)
  by (auto simp: next_key_state_def expected_def Let_def)

lemma expected_about: "m \<in> set (expected policy n sent now r) \<Longrightarrow> about k m \<longleftrightarrow> cr_key r = k"
  by (auto simp: expected_def split: if_splits)

lemma tracks_result:
  assumes "tracks policy rs sent_log st" "1 \<le> pl_failuresBeforeAlert policy"
    and "update_result policy now (ms, st) r = (ms', st')"
  shows "ms' = ms @ expected policy (streak (cr_key r) rs) (last_sent (cr_key r) sent_log) now r"
    "tracks policy (rs @ [r]) (sent_log @ map (Pair now) (expected policy (streak (cr_key r) rs) (last_sent (cr_key r) sent_log) now r)) st'"
proof -
  let ?k = "cr_key r" and ?new = "expected policy (streak (cr_key r) rs) (last_sent (cr_key r) sent_log) now r"
  obtain s where s: "next_key_state policy now r (key_state st ?k) = (?new, s)"
    using next_key_state_expected[OF assms(1,2)] by (metis prod.collapse)
  with assms(3) show "ms' = ms @ ?new" by (simp add: update_result_def)
  have st': "st' = st\<lparr>al_states := AList.update ?k s (al_states st)\<rparr>" using assms(3) s by (simp add: update_result_def)
  note t = tracksD[OF assms(1)]
  have other: "filter (\<lambda>(t, m). about k m) (map (Pair now) ?new) = []" if "k \<noteq> ?k" for k
    using expected_about[of _ policy "streak ?k rs" "last_sent ?k sent_log" now r k] that by (auto simp: filter_empty_conv)
  show "tracks policy (rs @ [r]) (sent_log @ map (Pair now) ?new) st'"
    unfolding tracks_def
  proof
    fix k
    show "ky_failures (key_state st' k) = int (streak k (rs @ [r])) \<and>
      (ky_alerted (key_state st' k) \<longleftrightarrow> int (streak k (rs @ [r])) \<ge> pl_failuresBeforeAlert policy) \<and>
      (ky_alerted (key_state st' k) \<longrightarrow> filter (\<lambda>(t, m). about k m) (sent_log @ map (Pair now) ?new) \<noteq> [] \<and>
        ky_lastAlertMs (key_state st' k) = last_sent k (sent_log @ map (Pair now) ?new))"
    proof (cases "k = ?k")
      case False
      with t[of k] other[of k] show ?thesis by (simp add: st' streak_snoc last_sent_def)
    next
      case True
      with s t[of ?k] assms(2) show ?thesis
        by (auto simp: st' streak_snoc next_key_state_def expected_def last_sent_def Let_def split: if_splits)
    qed
  qed
qed

lemma tracks_more:
  "tracks policy rs sent_log st \<Longrightarrow> \<forall>(t, m) \<in> set extra. \<forall>k. \<not> about k m \<Longrightarrow> tracks policy rs (sent_log @ extra) st"
proof -
  assume t: "tracks policy rs sent_log st" and e: "\<forall>(t, m) \<in> set extra. \<forall>k. \<not> about k m"
  from e have "filter (\<lambda>(t, m). about k m) extra = []" for k by (auto simp: filter_empty_conv)
  with t show ?thesis by (simp add: tracks_def last_sent_def)
qed

lemma round_results:
  assumes "tracks policy rs sent_log st" "1 \<le> pl_failuresBeforeAlert policy"
    and "foldl (update_result policy now) (ms, st) results = (ms', st')"
  shows "\<exists>new. ms' = ms @ new \<and> tracks policy (rs @ results) (sent_log @ map (Pair now) new) st' \<and>
    (\<forall>k. k \<notin> cr_key ` set results \<longrightarrow> filter (about k) new = []) \<and>
    (distinct (map cr_key results) \<longrightarrow> (\<forall>r \<in> set results. filter (about (cr_key r)) new =
      expected policy (streak (cr_key r) rs) (last_sent (cr_key r) sent_log) now r))"
  using assms(1,3)
proof (induction results arbitrary: rs sent_log st ms)
  case Nil
  then show ?case by simp
next
  case (Cons r results)
  obtain ms1 st1 where step: "update_result policy now (ms, st) r = (ms1, st1)" by fastforce
  let ?e = "expected policy (streak (cr_key r) rs) (last_sent (cr_key r) sent_log) now r"
  note t = tracks_result[OF Cons.prems(1) assms(2) step]
  have f: "foldl (update_result policy now) (ms1, st1) results = (ms', st')" using Cons.prems(2) step by simp
  from Cons.IH[OF t(2) f] obtain new where
    new: "ms' = ms1 @ new" "tracks policy ((rs @ [r]) @ results) ((sent_log @ map (Pair now) ?e) @ map (Pair now) new) st'"
    and none: "\<forall>k. k \<notin> cr_key ` set results \<longrightarrow> filter (about k) new = []"
    and each: "distinct (map cr_key results) \<longrightarrow> (\<forall>x \<in> set results. filter (about (cr_key x)) new =
      expected policy (streak (cr_key x) (rs @ [r])) (last_sent (cr_key x) (sent_log @ map (Pair now) ?e)) now x)"
    by (elim exE conjE) (rule that; assumption)
  have mine: "filter (about k) ?e = (if k = cr_key r then ?e else [])" for k
    using expected_about[of _ policy "streak (cr_key r) rs" "last_sent (cr_key r) sent_log" now r k]
    by (auto simp: filter_empty_conv filter_id_conv)
  have same: "last_sent k (sent_log @ map (Pair now) ?e) = last_sent k sent_log" if "k \<noteq> cr_key r" for k
  proof -
    have "filter (\<lambda>(t, m). about k m) (map (Pair now) ?e) = []"
      using mine[of k] that by (auto simp: filter_empty_conv)
    then show ?thesis by (simp add: last_sent_def)
  qed
  have "filter (about (cr_key x)) (?e @ new) =
      expected policy (streak (cr_key x) rs) (last_sent (cr_key x) sent_log) now x"
    if "distinct (map cr_key (r # results))" "x \<in> set (r # results)" for x
  proof (cases "x = r")
    case True
    with that none show ?thesis by (simp add: mine)
  next
    case False
    with that have x: "x \<in> set results" by simp
    moreover from x that(1) have "cr_key x \<noteq> cr_key r" by (metis distinct.simps(2) image_eqI list.set_map list.simps(9))
    ultimately have "x \<in> set results" "cr_key x \<noteq> cr_key r" .
    with each that same[of "cr_key x"] show ?thesis by (simp add: mine streak_snoc)
  qed
  moreover have "filter (about k) (?e @ new) = []" if "k \<notin> cr_key ` set (r # results)" for k
    using that none by (simp add: mine)
  ultimately show ?case using new t(1) by (intro exI[of _ "?e @ new"]) simp
qed

lemma round_alerts:
  assumes "tracks policy rs sent_log st" "1 \<le> pl_failuresBeforeAlert policy"
    and "update_alerts policy results found now st = (ms, st')"
  shows "tracks policy (rs @ results) (sent_log @ map (Pair now) ms) st'"
    "distinct (map cr_key results) \<Longrightarrow> r \<in> set results \<Longrightarrow> filter (about (cr_key r)) ms =
      expected policy (streak (cr_key r) rs) (last_sent (cr_key r) sent_log) now r"
proof -
  obtain ms1 st1 where f: "foldl (update_result policy now) ([], st) results = (ms1, st1)" by fastforce
  from round_results[OF assms(1,2) f] have t: "tracks policy (rs @ results) (sent_log @ map (Pair now) ms1) st1"
    and each: "distinct (map cr_key results) \<Longrightarrow> r \<in> set results \<Longrightarrow> filter (about (cr_key r)) ms1 =
      expected policy (streak (cr_key r) rs) (last_sent (cr_key r) sent_log) now r" for r by auto
  from assms(3) f obtain extra where ms: "ms = ms1 @ extra" "\<forall>m \<in> set extra. \<forall>k. \<not> about k m"
    and st': "st' = st1 \<or> st' = st1\<lparr>al_equivocations := Some found\<rparr>"
    by (auto simp: update_alerts_def split: if_splits option.splits)
  have none: "filter (about k) extra = []" for k using ms(2) by (auto simp: filter_empty_conv)
  have "tracks policy (rs @ results) ((sent_log @ map (Pair now) ms1) @ map (Pair now) extra) st1"
    using ms(2) by (intro tracks_more[OF t]) auto
  moreover have "tracks policy xs l (st1\<lparr>al_equivocations := e\<rparr>) = tracks policy xs l st1" for xs l e
    by (simp add: tracks_def)
  ultimately show "tracks policy (rs @ results) (sent_log @ map (Pair now) ms) st'" using st' ms(1) by auto
  show "distinct (map cr_key results) \<Longrightarrow> r \<in> set results \<Longrightarrow> filter (about (cr_key r)) ms =
      expected policy (streak (cr_key r) rs) (last_sent (cr_key r) sent_log) now r"
    using each none by (simp add: ms(1))
qed

lemma run_tracks:
  assumes "1 \<le> pl_failuresBeforeAlert policy"
  shows "tracks policy (concat (map fst rounds)) (snd (watch_run policy rounds)) (fst (watch_run policy rounds))"
proof (induction rounds rule: rev_induct)
  case Nil
  show ?case using assms by (simp add: watch_run_def tracks_def new_alerts_def key_state_def streak_def)
next
  case (snoc rnd rounds)
  obtain results found now where rnd: "rnd = (results, found, now)" by (cases rnd)
  obtain ms st' where u: "update_alerts policy results found now (fst (watch_run policy rounds)) = (ms, st')" by fastforce
  have "watch_run policy (rounds @ [rnd]) = (st', snd (watch_run policy rounds) @ map (Pair now) ms)"
    using u by (simp add: watch_run_def watch_step_def rnd split_beta)
  with round_alerts(1)[OF snoc assms u] show ?case by (simp add: rnd)
qed

section \<open>The mirror's health\<close>

text \<open>On an answer of the mirror's own API, a committee is in order exactly when its latest tick is recent.\<close>

lemma is_digit_not_sign: "is_digit c \<Longrightarrow> c \<noteq> CHR ''-'' \<and> c \<noteq> CHR ''+''"
  by (auto simp: is_digit_def less_eq_char_def)

lemma number_of_int_string: "0 \<le> n \<Longrightarrow> number_of (int_string n) = Some (of_int n)"
proof -
  assume n: "0 \<le> n"
  define s where "s = digits_of (nat n)"
  have d: "list_all is_digit s" "decimal_value s = n" "s \<noteq> []" using digits_of_props[of "nat n"] n by (auto simp: s_def)
  then have "is_digit (hd s)" "is_digit (last s)" by (simp_all add: list_all_iff)
  then have t: "trim s = s" using d(3) by (intro trim_id) (simp_all add: digit_not_space)
  have "is_digit (s ! 0)" using d by (simp add: list_all_length)
  then have sign: "s ! 0 \<noteq> CHR ''-''" "s ! 0 \<noteq> CHR ''+''" using is_digit_not_sign by auto
  have "takeWhile is_digit s = s" "dropWhile is_digit s = []" using d(1) by (simp_all add: list_all_iff)
  with d(3) have "decimal_match s = Some (s, [])" unfolding decimal_match_def Let_def by (simp only:) simp
  then have "number_of s = Some (of_int n)"
    using d t sign by (simp add: number_of_def Let_def decimal_value_def)
  with n show ?thesis by (simp add: int_string_def s_def)
qed

lemma mirror_committee_ok:
  assumes "c \<in> set (health deps)" "he_latestTickMs c = map_option int_string t" "t \<noteq> None \<longrightarrow> 0 \<le> the t"
  shows "cr_ok (check_committee maxLagMs now c) \<longleftrightarrow>
    (\<exists>x. t = Some x \<and> now - x \<le> (case map_of maxLagMs (he_name c) of None \<Rightarrow> 60000 | Some m \<Rightarrow> m))"
proof (cases t)
  case (Some x)
  have "int_string x \<noteq> []" using assms(3) Some digits_of_props[of "nat x"] by (auto simp: int_string_def)
  then show ?thesis using assms Some number_of_int_string[of x]
    by (simp add: check_committee_def age_def Let_def) (metis of_int_diff of_int_le_iff)
qed (use assms in \<open>simp add: check_committee_def age_def Let_def\<close>)

section \<open>Findings\<close>

text \<open>
  The mirror is asked for at most 1000 pieces of evidence, so once it has that many, new ones are
  never reported: the number found stays the same.
\<close>

lemma equivocations_saturate:
  assumes "al_equivocations st = Some 1000"
  shows "\<not> (\<exists>n. NewEquivocations n \<in> set (fst (watch_round policy [] (Some (checkMirror url maxLagMs now (Inr [])
    (Inr (equivocations store 1000)))) now st)))"
proof -
  have "length (equivocations store 1000) \<le> 1000" by (simp add: equivocations_def sql_limit_def)
  then have "\<not> int (length (equivocations store 1000)) > 1000" by simp
  moreover have "al_equivocations (snd (update_result policy now ([], st) r)) = al_equivocations st"
    "\<not> (\<exists>n. NewEquivocations n \<in> set (fst (update_result policy now ([], st) r)))" for r
    by (auto simp: update_result_def next_key_state_def Let_def split_beta split: if_splits)
  ultimately show ?thesis using assms
    by (auto simp: watch_round_def checkMirror_def update_alerts_def split_beta)
qed

section \<open>Properties\<close>

text \<open>Alerts follow the failing streaks. In any run of rounds, the next round sends about a key exactly this:
  an alert when the failure is the one that completes the streak of \<open>failuresBeforeAlert\<close>, a reminder
  when the streak is longer and the last message about the key is \<open>remindEveryMs\<close> old, a recovery when a
  success ends a streak that was alerted, and nothing otherwise.\<close>

theorem alerts_follow_streaks:
  assumes "1 \<le> pl_failuresBeforeAlert policy" "watch_run policy rounds = (st, sent_log)"
    and "distinct (map cr_key results)" "r \<in> set results"
  shows "filter (about (cr_key r)) (fst (update_alerts policy results found now st)) =
    expected policy (failing_rounds (cr_key r) rounds) (last_sent (cr_key r) sent_log) now r"
proof -
  have "tracks policy (concat (map fst rounds)) sent_log st" using run_tracks[OF assms(1), of rounds] assms(2) by simp
  moreover obtain ms st' where "update_alerts policy results found now st = (ms, st')" by fastforce
  ultimately show ?thesis
    using round_alerts(2)[OF _ assms(1) _ assms(3,4)] by (simp add: failing_rounds_def)
qed

definition demo_check :: "bool \<Rightarrow> CheckResult" where
  "demo_check b = \<lparr>cr_key = ''publisher:majors'', cr_ok = b, cr_detail = []\<rparr>"

theorem alerts_follow_streaks_witness:
  "filter (about ''publisher:majors'') (fst (update_alerts DEFAULT_POLICY [demo_check False] (- 1) 60
      (fst (watch_run DEFAULT_POLICY [([demo_check True], - 1, 0), ([demo_check False], - 1, 30)])))) =
    [Failing ''publisher:majors'' []]"
proof -
  have "1 \<le> pl_failuresBeforeAlert DEFAULT_POLICY" "distinct (map cr_key [demo_check False])" by (simp_all add: DEFAULT_POLICY_def)
  from alerts_follow_streaks[OF this(1) _ this(2), of _ _ _ "demo_check False"
      , of "[([demo_check True], - 1, 0), ([demo_check False], - 1, 30)]"]
  have "filter (about ''publisher:majors'') (fst (update_alerts DEFAULT_POLICY [demo_check False] (- 1) 60
      (fst (watch_run DEFAULT_POLICY [([demo_check True], - 1, 0), ([demo_check False], - 1, 30)])))) =
    expected DEFAULT_POLICY (failing_rounds ''publisher:majors'' [([demo_check True], - 1, 0), ([demo_check False], - 1, 30)])
      (last_sent ''publisher:majors'' (snd (watch_run DEFAULT_POLICY [([demo_check True], - 1, 0), ([demo_check False], - 1, 30)]))) 60
      (demo_check False)"
    by (simp add: demo_check_def)
  then show ?thesis by (simp add: expected_def failing_rounds_def streak_def demo_check_def DEFAULT_POLICY_def)
qed

end
