(* ===== verification/Deployment.thy ===== *)
theory Deployment
  imports Verify
begin

text \<open>
  \<open>packages/sdk/src/presets/deployment.ts\<close>, \<open>types.ts\<close> and \<open>ckb/scripts.ts\<close>: deployment records, their
  resolution into the view the transaction builders use, and the type scripts of the two cells. A record is
  typed as \<open>DeploymentRecord\<close> says: JSON of another shape is not modelled. Lemmas: a resolved deployment
  has a well-formed, current and unretired code for every contract, and knows the code of all its committees.
\<close>

section \<open>Scripts and cells\<close>

record Script =
  sc_codeHash :: hex
  sc_hashType :: string
  sc_args :: hex

record OutPoint =
  op_txHash :: hex
  op_index :: int

record CellDepInfo =
  dep_outPoint :: OutPoint
  dep_depType :: string

section \<open>Records\<close>

datatype ContractName = PriceFeedType | PublisherSetType | AlwaysSuccessLock

record CodeRef =
  code_codeHash :: hex
  code_hashType :: string
  code_cellDep :: CellDepInfo
  code_version :: "int option"

record CommitteeRef =
  cm_typeScript :: Script
  cm_typeHash :: hex

record LeanOracleDeployment =
  dp_network :: string
  dp_priceFeedType :: CodeRef
  dp_publisherSetType :: CodeRef
  dp_alwaysSuccessLock :: "CodeRef option"
  dp_contractVersions :: "ContractName \<Rightarrow> (int \<times> CodeRef) list option"
  dp_committees :: "(string \<times> CommitteeRef) list"

record CodeVersionRecord =
  cv_codeHash :: hex
  cv_hashType :: string
  cv_cellDep :: CellDepInfo
  cv_bytes :: int
  cv_capacity :: string
  cv_deployedAt :: string
  cv_retired :: "(hex \<times> string) option"

record RotationRecord =
  ro_setIndex :: int
  ro_publishers :: int
  ro_txHash :: hex
  ro_at :: string

record CommitteeRecord = CommitteeRef +
  cm_codeVersion :: int
  cm_createdTx :: hex
  cm_createdAt :: string
  cm_publishers :: int
  cm_rotations :: "RotationRecord list"

text \<open>The entry of a contract: every version with the number of the current one, or a resolved code.\<close>

datatype contract_entry = Versions "int option" "(int \<times> CodeVersionRecord) list" | Resolved CodeRef

record 'c raw_deployment =
  rw_network :: "string option"
  rw_contracts :: "ContractName \<Rightarrow> contract_entry option"
  rw_committees :: "(string \<times> 'c) list"

section \<open>Resolution\<close>

definition isHex32 :: "string \<Rightarrow> bool" where
  "isHex32 value \<longleftrightarrow> isHex value \<and> length value = 66"

definition CONTRACTS :: "ContractName list" where
  "CONTRACTS = [PriceFeedType, PublisherSetType, AlwaysSuccessLock]"

text \<open>\<open>CONTRACTS\<close> are all names, so what is checked along the list holds of every contract.\<close>

instantiation ContractName :: enum
begin

definition enum_ContractName :: "ContractName list" where
  "enum_class.enum = CONTRACTS"

definition enum_all_ContractName :: "(ContractName \<Rightarrow> bool) \<Rightarrow> bool" where
  "enum_class.enum_all P \<longleftrightarrow> list_all P CONTRACTS"

definition enum_ex_ContractName :: "(ContractName \<Rightarrow> bool) \<Rightarrow> bool" where
  "enum_class.enum_ex P \<longleftrightarrow> list_ex P CONTRACTS"

instance
proof
  have "c \<in> set CONTRACTS" for c by (cases c) (simp_all add: CONTRACTS_def)
  then have all: "set CONTRACTS = UNIV" by blast
  then show "(UNIV :: ContractName set) = set enum_class.enum" by (simp add: enum_ContractName_def)
  show "distinct (enum_class.enum :: ContractName list)" by (simp add: enum_ContractName_def CONTRACTS_def)
  show "enum_class.enum_all P \<longleftrightarrow> Ball UNIV P" "enum_class.enum_ex P \<longleftrightarrow> Bex UNIV P" for P :: "ContractName \<Rightarrow> bool"
    by (simp_all add: enum_all_ContractName_def enum_ex_ContractName_def list_all_iff list_ex_iff all)
qed

end

lemma contracts_all: "set CONTRACTS = UNIV"
  by (simp add: UNIV_enum enum_ContractName_def)

definition OPTIONAL :: "ContractName list" where
  "OPTIONAL = [AlwaysSuccessLock]"

definition checkCode :: "CodeRef option \<Rightarrow> CodeRef result" where
  "checkCode c = (case c of
      None \<Rightarrow> Inl (TypeError ''deployment: invalid'')
    | Some c \<Rightarrow>
        if \<not> isHex32 (code_codeHash c) \<or> code_hashType c \<noteq> ''data2'' \<or>
           \<not> isHex32 (op_txHash (dep_outPoint (code_cellDep c)))
        then Inl (TypeError ''deployment: invalid'') else Inr c)"

definition version_ref :: "int \<Rightarrow> CodeVersionRecord \<Rightarrow> CodeRef" where
  "version_ref n v = \<lparr>code_codeHash = cv_codeHash v, code_hashType = cv_hashType v, code_cellDep = cv_cellDep v,
    code_version = Some n\<rparr>"

definition resolve_versions :: "(int \<times> CodeVersionRecord) list \<Rightarrow> (int \<times> CodeRef) list result" where
  "resolve_versions vs = emap (\<lambda>(n, v). ebind (checkCode (Some (version_ref n v))) (\<lambda>c. Inr (n, c)))
    (filter (\<lambda>(n, v). cv_retired v = None) vs)"

text \<open>One turn of the loop over the contracts: the current code and all versions, or none for an absent optional one.\<close>

definition resolve_contract ::
  "ContractName \<Rightarrow> contract_entry option \<Rightarrow> (CodeRef \<times> (int \<times> CodeRef) list) option result" where
  "resolve_contract name entry =
    (if entry = None \<and> name \<in> set OPTIONAL then Inr None
     else case entry of
       Some (Versions current vs) \<Rightarrow>
         ebind (resolve_versions vs) (\<lambda>versions.
         case map_of versions (case current of None \<Rightarrow> - 1 | Some n \<Rightarrow> n) of
           None \<Rightarrow> Inl (TypeError ''deployment: no current version'')
         | Some code \<Rightarrow> Inr (Some (code, versions)))
     | Some (Resolved code) \<Rightarrow>
         ebind (checkCode (Some code)) (\<lambda>code.
         Inr (Some (code, [(case code_version code of None \<Rightarrow> 1 | Some n \<Rightarrow> n, code)])))
     | None \<Rightarrow> ebind (checkCode None) (\<lambda>code. Inr (Some (code, [(1, code)]))))"

definition resolve_committee ::
  "hex set \<Rightarrow> string \<times> 'a CommitteeRef_scheme \<Rightarrow> (string \<times> CommitteeRef) result" where
  "resolve_committee setCodeHashes c =
    (if \<not> isHex32 (cm_typeHash (snd c)) \<or> toLowerCase (sc_codeHash (cm_typeScript (snd c))) \<notin> setCodeHashes
     then Inl (TypeError ''deployment: invalid committee'')
     else Inr (fst c, \<lparr>cm_typeScript = cm_typeScript (snd c), cm_typeHash = cm_typeHash (snd c)\<rparr>))"

definition parseDeployment :: "'a CommitteeRef_scheme raw_deployment \<Rightarrow> LeanOracleDeployment result" where
  "parseDeployment raw =
    (case rw_network raw of
      None \<Rightarrow> Inl (TypeError ''deployment: invalid network'')
    | Some network \<Rightarrow>
        if network \<notin> {''devnet'', ''testnet'', ''mainnet''} then Inl (TypeError ''deployment: invalid network'')
        else
          ebind (resolve_contract PriceFeedType (rw_contracts raw PriceFeedType)) (\<lambda>pf.
          ebind (resolve_contract PublisherSetType (rw_contracts raw PublisherSetType)) (\<lambda>ps.
          ebind (resolve_contract AlwaysSuccessLock (rw_contracts raw AlwaysSuccessLock)) (\<lambda>al.
          ebind (emap (resolve_committee ((\<lambda>(n, c). toLowerCase (code_codeHash c)) ` set (snd (the ps)))) (rw_committees raw)) (\<lambda>committees.
          Inr \<lparr>dp_network = network, dp_priceFeedType = fst (the pf), dp_publisherSetType = fst (the ps),
            dp_alwaysSuccessLock = map_option fst al,
            dp_contractVersions = (\<lambda>name. case name of PriceFeedType \<Rightarrow> map_option snd pf
              | PublisherSetType \<Rightarrow> map_option snd ps | AlwaysSuccessLock \<Rightarrow> map_option snd al),
            dp_committees = committees\<rparr>)))))"

text \<open>\<open>deployment.contracts[contract]\<close>.\<close>

definition contract_code :: "LeanOracleDeployment \<Rightarrow> ContractName \<Rightarrow> CodeRef option" where
  "contract_code d name = (case name of PriceFeedType \<Rightarrow> Some (dp_priceFeedType d)
    | PublisherSetType \<Rightarrow> Some (dp_publisherSetType d) | AlwaysSuccessLock \<Rightarrow> dp_alwaysSuccessLock d)"

definition all_codes :: "LeanOracleDeployment \<Rightarrow> ContractName \<Rightarrow> CodeRef list" where
  "all_codes d name = (case dp_contractVersions d name of
      Some vs \<Rightarrow> map snd vs
    | None \<Rightarrow> (case contract_code d name of None \<Rightarrow> [] | Some c \<Rightarrow> [c]))"

definition findCodeRef :: "LeanOracleDeployment \<Rightarrow> ContractName \<Rightarrow> hex \<Rightarrow> CodeRef option" where
  "findCodeRef d contract codeHash =
    List.find (\<lambda>c. toLowerCase (code_codeHash c) = toLowerCase codeHash) (all_codes d contract)"

definition codeRefFor :: "LeanOracleDeployment \<Rightarrow> ContractName \<Rightarrow> hex \<Rightarrow> CodeRef result" where
  "codeRefFor d contract codeHash = (case findCodeRef d contract codeHash of
      None \<Rightarrow> Inl (Failure ''code is not in this deployment'') | Some c \<Rightarrow> Inr c)"

section \<open>Type scripts\<close>

definition publisherSetTypeScript :: "LeanOracleDeployment \<Rightarrow> hex \<Rightarrow> Script result" where
  "publisherSetTypeScript d typeId =
    ebind (hexToFixed typeId 32) (\<lambda>ti.
    Inr \<lparr>sc_codeHash = code_codeHash (dp_publisherSetType d), sc_hashType = code_hashType (dp_publisherSetType d),
      sc_args = bytesToHex ti\<rparr>)"

definition priceFeedTypeScript :: "LeanOracleDeployment \<Rightarrow> hex \<Rightarrow> hex \<Rightarrow> Script result" where
  "priceFeedTypeScript d feed typeId =
    ebind (hexToFixed feed 32) (\<lambda>fd.
    ebind (hexToFixed typeId 32) (\<lambda>ti.
    Inr \<lparr>sc_codeHash = code_codeHash (dp_priceFeedType d), sc_hashType = code_hashType (dp_priceFeedType d),
      sc_args = bytesToHex (concatBytes [fd, ti])\<rparr>))"

section \<open>A resolved deployment\<close>

definition code_ok :: "CodeRef \<Rightarrow> bool" where
  "code_ok c \<longleftrightarrow> isHex32 (code_codeHash c) \<and> code_hashType c = ''data2'' \<and>
    isHex32 (op_txHash (dep_outPoint (code_cellDep c)))"

lemma checkCode_iff [simp]: "checkCode c = Inr c' \<longleftrightarrow> c = Some c' \<and> code_ok c'"
  by (auto simp: checkCode_def code_ok_def split: option.splits if_splits)

text \<open>What the entry of a contract offers: the codes that are not retired.\<close>

fun offers :: "contract_entry \<Rightarrow> CodeRef \<Rightarrow> bool" where
  "offers (Versions current vs) c \<longleftrightarrow> (\<exists>(n, v) \<in> set vs. cv_retired v = None \<and> c = version_ref n v)"
| "offers (Resolved code) c \<longleftrightarrow> c = code"

lemma resolve_versions_sound:
  "resolve_versions vs = Inr versions \<Longrightarrow> (n, c) \<in> set versions \<Longrightarrow>
    code_ok c \<and> (\<exists>v. (n, v) \<in> set vs \<and> cv_retired v = None \<and> c = version_ref n v)"
  by (fastforce simp: resolve_versions_def ebind_eq_Inr dest: emap_member split: prod.splits)

lemma resolve_contract_sound:
  assumes "resolve_contract name entry = Inr (Some (code, versions))"
  shows "code \<in> snd ` set versions"
    and "c \<in> snd ` set versions \<Longrightarrow> code_ok c \<and> (\<exists>e. entry = Some e \<and> offers e c)"
proof -
  have "code \<in> snd ` set versions \<and> (\<forall>c \<in> snd ` set versions. code_ok c \<and> (\<exists>e. entry = Some e \<and> offers e c))"
  proof (cases entry)
    case None
    then show ?thesis using assms by (auto simp: resolve_contract_def ebind_eq_Inr split: if_splits)
  next
    case (Some e)
    show ?thesis
    proof (cases e)
      case (Versions current vs)
      then obtain n where r: "resolve_versions vs = Inr versions" "map_of versions n = Some code"
        using assms Some by (auto simp: resolve_contract_def ebind_eq_Inr split: option.splits)
      then have "code \<in> snd ` set versions" by (force dest: map_of_SomeD)
      moreover have "code_ok c \<and> offers e c" if "c \<in> snd ` set versions" for c
        using resolve_versions_sound[OF r(1)] that by (fastforce simp: Versions)
      ultimately show ?thesis using Some by auto
    next
      case (Resolved code')
      then show ?thesis using assms Some by (auto simp: resolve_contract_def ebind_eq_Inr)
    qed
  qed
  then show "code \<in> snd ` set versions"
    and "c \<in> snd ` set versions \<Longrightarrow> code_ok c \<and> (\<exists>e. entry = Some e \<and> offers e c)" by auto
qed

lemma resolve_required: "resolve_contract name entry = Inr r \<Longrightarrow> name \<notin> set OPTIONAL \<Longrightarrow> \<exists>p. r = Some p"
  by (auto simp: resolve_contract_def ebind_eq_Inr split: if_splits option.splits contract_entry.splits)

lemma parse_Inr:
  assumes "parseDeployment raw = Inr d"
  shows "\<exists>network pf vf ps vs al committees.
    rw_network raw = Some network \<and> network \<in> {''devnet'', ''testnet'', ''mainnet''} \<and>
    resolve_contract PriceFeedType (rw_contracts raw PriceFeedType) = Inr (Some (pf, vf)) \<and>
    resolve_contract PublisherSetType (rw_contracts raw PublisherSetType) = Inr (Some (ps, vs)) \<and>
    resolve_contract AlwaysSuccessLock (rw_contracts raw AlwaysSuccessLock) = Inr al \<and>
    emap (resolve_committee ((\<lambda>(n, c). toLowerCase (code_codeHash c)) ` set vs)) (rw_committees raw) = Inr committees \<and>
    d = \<lparr>dp_network = network, dp_priceFeedType = pf, dp_publisherSetType = ps, dp_alwaysSuccessLock = map_option fst al,
      dp_contractVersions = (\<lambda>name. case name of PriceFeedType \<Rightarrow> Some vf | PublisherSetType \<Rightarrow> Some vs
        | AlwaysSuccessLock \<Rightarrow> map_option snd al), dp_committees = committees\<rparr>"
proof -
  obtain network where n: "rw_network raw = Some network" "network \<in> {''devnet'', ''testnet'', ''mainnet''}"
    using assms unfolding parseDeployment_def by (auto split: option.splits if_splits)
  obtain pf ps al committees where
    r: "resolve_contract PriceFeedType (rw_contracts raw PriceFeedType) = Inr pf"
      "resolve_contract PublisherSetType (rw_contracts raw PublisherSetType) = Inr ps"
      "resolve_contract AlwaysSuccessLock (rw_contracts raw AlwaysSuccessLock) = Inr al"
      "emap (resolve_committee ((\<lambda>(n, c). toLowerCase (code_codeHash c)) ` set (snd (the ps)))) (rw_committees raw) = Inr committees"
    and d: "d = \<lparr>dp_network = network, dp_priceFeedType = fst (the pf), dp_publisherSetType = fst (the ps),
            dp_alwaysSuccessLock = map_option fst al,
            dp_contractVersions = (\<lambda>name. case name of PriceFeedType \<Rightarrow> map_option snd pf
              | PublisherSetType \<Rightarrow> map_option snd ps | AlwaysSuccessLock \<Rightarrow> map_option snd al),
            dp_committees = committees\<rparr>"
    using assms n(1) unfolding parseDeployment_def
    by (auto simp: ebind_eq_Inr simp del: insert_iff split: if_splits)
  obtain pf' ps' where p: "pf = Some pf'" "ps = Some ps'"
    using resolve_required[OF r(1)] resolve_required[OF r(2)] by (auto simp: OPTIONAL_def)
  obtain a b a' b' where "pf' = (a, b)" "ps' = (a', b')" by (cases pf', cases ps') auto
  then show ?thesis using n r d p by simp
qed

lemma findCodeRef_Some:
  "findCodeRef d contract h = Some c \<Longrightarrow> c \<in> set (all_codes d contract) \<and> toLowerCase (code_codeHash c) = toLowerCase h"
  by (auto simp: findCodeRef_def find_Some_iff)

lemma findCodeRef_exists:
  "c \<in> set (all_codes d contract) \<Longrightarrow> toLowerCase (code_codeHash c) = toLowerCase h \<Longrightarrow> \<exists>c'. findCodeRef d contract h = Some c'"
  by (cases "findCodeRef d contract h") (auto simp: findCodeRef_def find_None_iff)

lemma codeRefFor_Inr: "codeRefFor d contract h = Inr c \<longleftrightarrow> findCodeRef d contract h = Some c"
  by (auto simp: codeRefFor_def split: option.splits)

lemma resolve_committee_Inr:
  "resolve_committee H c = Inr (name, ref) \<longleftrightarrow> isHex32 (cm_typeHash (snd c)) \<and>
    toLowerCase (sc_codeHash (cm_typeScript (snd c))) \<in> H \<and> name = fst c \<and>
    ref = \<lparr>cm_typeScript = cm_typeScript (snd c), cm_typeHash = cm_typeHash (snd c)\<rparr>"
  by (auto simp: resolve_committee_def)

section \<open>A concrete record\<close>

definition demo_id :: "byte \<Rightarrow> hex" where
  "demo_id b = bytesToHex (replicate 32 b)"

lemma demo_id [simp]: "isHex32 (demo_id b)" "toLowerCase (demo_id b) = demo_id b" "hexToFixed (demo_id b) 32 = Inr (replicate 32 b)"
  by (simp_all add: demo_id_def isHex32_def) (simp add: bytesToHex_def del: map_replicate)

definition demo_version :: "byte \<Rightarrow> (hex \<times> string) option \<Rightarrow> CodeVersionRecord" where
  "demo_version b retired = \<lparr>cv_codeHash = demo_id b, cv_hashType = ''data2'',
    cv_cellDep = \<lparr>dep_outPoint = \<lparr>op_txHash = demo_id b, op_index = 0\<rparr>, dep_depType = ''code''\<rparr>,
    cv_bytes = 1, cv_capacity = ''1'', cv_deployedAt = [], cv_retired = retired\<rparr>"

definition demo_record :: "CommitteeRef raw_deployment" where
  "demo_record = \<lparr>rw_network = Some ''testnet'',
    rw_contracts = (\<lambda>name. case name of
        PriceFeedType \<Rightarrow> Some (Versions (Some 2) [(1, demo_version 1 (Some ([], []))), (2, demo_version 2 None)])
      | PublisherSetType \<Rightarrow> Some (Versions (Some 1) [(1, demo_version 3 None)])
      | AlwaysSuccessLock \<Rightarrow> None),
    rw_committees = [(''majors'', \<lparr>cm_typeScript = \<lparr>sc_codeHash = demo_id 3, sc_hashType = ''data2'', sc_args = demo_id 9\<rparr>,
      cm_typeHash = demo_id 8\<rparr>)]\<rparr>"

definition demo_code :: "byte \<Rightarrow> int \<Rightarrow> CodeRef" where
  "demo_code b n = version_ref n (demo_version b None)"

definition demo_deployment :: LeanOracleDeployment where
  "demo_deployment = \<lparr>dp_network = ''testnet'', dp_priceFeedType = demo_code 2 2, dp_publisherSetType = demo_code 3 1,
    dp_alwaysSuccessLock = None,
    dp_contractVersions = (\<lambda>name. case name of PriceFeedType \<Rightarrow> Some [(2, demo_code 2 2)]
      | PublisherSetType \<Rightarrow> Some [(1, demo_code 3 1)] | AlwaysSuccessLock \<Rightarrow> None),
    dp_committees = rw_committees demo_record\<rparr>"

lemma demo_parses: "parseDeployment demo_record = Inr demo_deployment"
  by (simp add: parseDeployment_def demo_record_def resolve_contract_def resolve_versions_def checkCode_def OPTIONAL_def
      resolve_committee_def demo_deployment_def demo_code_def version_ref_def demo_version_def cong: ContractName.case_cong)

section \<open>Properties\<close>

lemma parsed_deployment_facts:
  assumes "parseDeployment raw = Inr d"
  shows "\<forall>contract. \<forall>c \<in> set (all_codes d contract). code_ok c \<and> (\<exists>e. rw_contracts raw contract = Some e \<and> offers e c)"
    and "\<forall>contract c. contract_code d contract = Some c \<longrightarrow> c \<in> set (all_codes d contract)"
    and "\<forall>(name, committee) \<in> set (dp_committees d). isHex32 (cm_typeHash committee) \<and>
      (\<exists>c. codeRefFor d PublisherSetType (sc_codeHash (cm_typeScript committee)) = Inr c \<and> code_ok c)"
proof -
  obtain network pf vf ps vs al committees where
    p: "resolve_contract PriceFeedType (rw_contracts raw PriceFeedType) = Inr (Some (pf, vf))"
      "resolve_contract PublisherSetType (rw_contracts raw PublisherSetType) = Inr (Some (ps, vs))"
      "resolve_contract AlwaysSuccessLock (rw_contracts raw AlwaysSuccessLock) = Inr al"
      "emap (resolve_committee ((\<lambda>(n, c). toLowerCase (code_codeHash c)) ` set vs)) (rw_committees raw) = Inr committees"
      and d: "d = \<lparr>dp_network = network, dp_priceFeedType = pf, dp_publisherSetType = ps, dp_alwaysSuccessLock = map_option fst al,
      dp_contractVersions = (\<lambda>name. case name of PriceFeedType \<Rightarrow> Some vf | PublisherSetType \<Rightarrow> Some vs
        | AlwaysSuccessLock \<Rightarrow> map_option snd al), dp_committees = committees\<rparr>"
    using parse_Inr[OF assms] by blast
  show codes: "\<forall>contract. \<forall>c \<in> set (all_codes d contract). code_ok c \<and> (\<exists>e. rw_contracts raw contract = Some e \<and> offers e c)"
  proof (intro allI ballI)
    fix contract c assume c: "c \<in> set (all_codes d contract)"
    show "code_ok c \<and> (\<exists>e. rw_contracts raw contract = Some e \<and> offers e c)"
    proof (cases contract)
      case AlwaysSuccessLock
      with c obtain code versions where "al = Some (code, versions)" "c \<in> snd ` set versions"
        by (cases al) (force simp: all_codes_def d contract_code_def)+
      then show ?thesis using resolve_contract_sound(2) p(3) AlwaysSuccessLock by blast
    qed (use c resolve_contract_sound(2)[OF p(1)] resolve_contract_sound(2)[OF p(2)] in \<open>auto simp: all_codes_def d\<close>)
  qed
  show "\<forall>contract c. contract_code d contract = Some c \<longrightarrow> c \<in> set (all_codes d contract)"
    using resolve_contract_sound(1)[OF p(1)] resolve_contract_sound(1)[OF p(2)] resolve_contract_sound(1) p(3)
    by (auto simp: contract_code_def all_codes_def d split: ContractName.splits)
  show "\<forall>(name, committee) \<in> set (dp_committees d). isHex32 (cm_typeHash committee) \<and>
      (\<exists>c. codeRefFor d PublisherSetType (sc_codeHash (cm_typeScript committee)) = Inr c \<and> code_ok c)"
  proof (clarify)
    fix name committee assume "(name, committee) \<in> set (dp_committees d)"
    then have "(name, committee) \<in> set committees" by (simp add: d)
    from emap_member[OF p(4) this] obtain n c where c: "isHex32 (cm_typeHash committee)" "(n, c) \<in> set vs"
        "toLowerCase (code_codeHash c) = toLowerCase (sc_codeHash (cm_typeScript committee))"
      by (auto simp: resolve_committee_Inr)
    then have "c \<in> set (all_codes d PublisherSetType)" by (force simp: all_codes_def d)
    then obtain c' where "findCodeRef d PublisherSetType (sc_codeHash (cm_typeScript committee)) = Some c'"
      using findCodeRef_exists c(3) by blast
    then show "isHex32 (cm_typeHash committee) \<and>
      (\<exists>c. codeRefFor d PublisherSetType (sc_codeHash (cm_typeScript committee)) = Inr c \<and> code_ok c)"
      using c(1) codes findCodeRef_Some[of d PublisherSetType _ c'] by (auto simp: codeRefFor_Inr)
  qed
qed

text \<open>A deployment that parses has, for each contract, well-formed codes only, none of them retired in
  the record, with the current one among them; each of its committees has a 32 byte type hash and a code that
  is a version of \<open>publisherSetType\<close>, so \<open>codeRefFor\<close> finds it.\<close>

theorem parsed_deployment_sound:
  assumes "parseDeployment raw = Inr d"
  shows "(\<forall>contract. \<forall>c \<in> set (all_codes d contract). code_ok c \<and> (\<exists>e. rw_contracts raw contract = Some e \<and> offers e c)) \<and>
    (\<forall>contract c. contract_code d contract = Some c \<longrightarrow> c \<in> set (all_codes d contract)) \<and>
    (\<forall>(name, committee) \<in> set (dp_committees d). isHex32 (cm_typeHash committee) \<and>
      (\<exists>c. codeRefFor d PublisherSetType (sc_codeHash (cm_typeScript committee)) = Inr c \<and> code_ok c))"
  using parsed_deployment_facts[OF assms] by blast

theorem parsed_deployment_sound_witness:
  "\<exists>c. codeRefFor demo_deployment PublisherSetType (demo_id 3) = Inr c \<and> code_ok c"
  using parsed_deployment_sound[OF demo_parses] by (simp add: demo_deployment_def demo_record_def)

end
