(* ===== verification/Chain.thy ===== *)
theory Chain
  imports Deployment
begin

text \<open>
  \<open>packages/sdk/src/ckb/cells.ts\<close>, \<open>ckb/typeId.ts\<close>, \<open>tx/common.ts\<close> and \<open>tx/cellCapacity.ts\<close>: reading committee and
  feed cells, and the pieces the transaction builders share. The library \<open>@ckb-ccc/core\<close> is not part of
  the repository: what the code uses of it is the record \<open>ccc\<close>, an argument of every definition that uses
  it, over a type \<open>'tx\<close> of transactions; \<open>ccc_ok\<close> names the documented behaviour of its methods, read back
  through \<open>lib_view\<close>. The chain and the signer are the records \<open>Client\<close> and \<open>Signer\<close>: what their searches
  yield, in order.
\<close>

section \<open>The library and the chain\<close>

record CellOutput =
  co_capacity :: int
  co_lock :: Script
  co_type :: "Script option"

record Cell =
  cl_outPoint :: OutPoint
  cl_cellOutput :: CellOutput
  cl_outputData :: hex

record CellInput =
  ci_previousOutput :: OutPoint
  ci_since :: int

record WitnessArgs =
  wa_lock :: "hex option"
  wa_inputType :: "hex option"
  wa_outputType :: "hex option"

text \<open>What a transaction holds: its arrays; \<open>addCellDeps\<close> keeps no dep twice, so they are a set.\<close>

record tx_view =
  vw_inputs :: "CellInput list"
  vw_outputs :: "(CellOutput \<times> hex) list"
  vw_cellDeps :: "CellDepInfo set"
  vw_headerDeps :: "hex list"
  vw_witnesses :: "nat \<Rightarrow> WitnessArgs option"

record 'tx ccc =
  lib_scriptHash :: "Script \<Rightarrow> hex"
  lib_inputBytes :: "CellInput \<Rightarrow> bytes"
  lib_occupiedSize :: "CellOutput \<Rightarrow> int"
  lib_fixedPointFrom :: "int \<Rightarrow> int"
  lib_empty :: 'tx
  lib_addInput :: "'tx \<Rightarrow> CellInput \<Rightarrow> 'tx"
  lib_addCell :: "'tx \<Rightarrow> Cell \<Rightarrow> 'tx"
  lib_addOutput :: "'tx \<Rightarrow> CellOutput \<Rightarrow> hex \<Rightarrow> 'tx"
  lib_addCellDep :: "'tx \<Rightarrow> CellDepInfo \<Rightarrow> 'tx"
  lib_addHeaderDep :: "'tx \<Rightarrow> hex \<Rightarrow> 'tx"
  lib_setWitnessArgs :: "'tx \<Rightarrow> nat \<Rightarrow> WitnessArgs \<Rightarrow> 'tx"
  lib_inputsCapacity :: "'tx \<Rightarrow> int"
  lib_view :: "'tx \<Rightarrow> tx_view"

record Client =
  ch_cellsByType :: "Script \<Rightarrow> Cell list"
  ch_cellsByPrefix :: "Script \<Rightarrow> Cell list"
  ch_cellsByLock :: "Script \<Rightarrow> Cell list"
  ch_tip :: "int \<times> hex"
  ch_feeRate :: int

record 'tx Signer =
  sg_client :: Client
  sg_script :: Script
  sg_plainCells :: "Cell list"
  sg_preparedFee :: "'tx \<Rightarrow> int \<Rightarrow> int"

text \<open>
  The documented behaviour of the library: the methods append to the arrays (a new output with a capacity
  is kept as given), an input added with its cell counts its capacity, and \<open>fixedPointFrom\<close> counts CKB in
  shannons.
\<close>

definition ccc_ok :: "'tx ccc \<Rightarrow> bool" where
  "ccc_ok K \<longleftrightarrow>
    lib_view K (lib_empty K) = \<lparr>vw_inputs = [], vw_outputs = [], vw_cellDeps = {}, vw_headerDeps = [], vw_witnesses = (\<lambda>_. None)\<rparr> \<and>
    (\<forall>t i. lib_view K (lib_addInput K t i) = (lib_view K t)\<lparr>vw_inputs := vw_inputs (lib_view K t) @ [i]\<rparr>) \<and>
    (\<forall>t c. lib_view K (lib_addCell K t c) =
      (lib_view K t)\<lparr>vw_inputs := vw_inputs (lib_view K t) @ [\<lparr>ci_previousOutput = cl_outPoint c, ci_since = 0\<rparr>]\<rparr>) \<and>
    (\<forall>t out d. 0 < co_capacity out \<longrightarrow>
      lib_view K (lib_addOutput K t out d) = (lib_view K t)\<lparr>vw_outputs := vw_outputs (lib_view K t) @ [(out, d)]\<rparr>) \<and>
    (\<forall>t d. lib_view K (lib_addCellDep K t d) = (lib_view K t)\<lparr>vw_cellDeps := insert d (vw_cellDeps (lib_view K t))\<rparr>) \<and>
    (\<forall>t h. lib_view K (lib_addHeaderDep K t h) = (lib_view K t)\<lparr>vw_headerDeps := vw_headerDeps (lib_view K t) @ [h]\<rparr>) \<and>
    (\<forall>t i w. lib_view K (lib_setWitnessArgs K t i w) = (lib_view K t)\<lparr>vw_witnesses := (vw_witnesses (lib_view K t))(i := Some w)\<rparr>) \<and>
    (\<forall>t c. lib_inputsCapacity K (lib_addCell K t c) = lib_inputsCapacity K t + co_capacity (cl_cellOutput c)) \<and>
    (\<forall>t out d. lib_inputsCapacity K (lib_addOutput K t out d) = lib_inputsCapacity K t) \<and>
    (\<forall>n. lib_fixedPointFrom K n = n * 10 ^ 8) \<and>
    (\<forall>out. 0 < lib_occupiedSize K out)"

lemma ccc_views:
  assumes "ccc_ok K"
  shows "lib_view K (lib_empty K) = \<lparr>vw_inputs = [], vw_outputs = [], vw_cellDeps = {}, vw_headerDeps = [], vw_witnesses = (\<lambda>_. None)\<rparr>"
    and "lib_view K (lib_addInput K t i) = (lib_view K t)\<lparr>vw_inputs := vw_inputs (lib_view K t) @ [i]\<rparr>"
    and "lib_view K (lib_addCell K t c) =
      (lib_view K t)\<lparr>vw_inputs := vw_inputs (lib_view K t) @ [\<lparr>ci_previousOutput = cl_outPoint c, ci_since = 0\<rparr>]\<rparr>"
    and "0 < co_capacity out \<Longrightarrow>
      lib_view K (lib_addOutput K t out d) = (lib_view K t)\<lparr>vw_outputs := vw_outputs (lib_view K t) @ [(out, d)]\<rparr>"
    and "lib_view K (lib_addCellDep K t dp) = (lib_view K t)\<lparr>vw_cellDeps := insert dp (vw_cellDeps (lib_view K t))\<rparr>"
    and "lib_view K (lib_addHeaderDep K t h) = (lib_view K t)\<lparr>vw_headerDeps := vw_headerDeps (lib_view K t) @ [h]\<rparr>"
    and "lib_view K (lib_setWitnessArgs K t n w) = (lib_view K t)\<lparr>vw_witnesses := (vw_witnesses (lib_view K t))(n := Some w)\<rparr>"
  using assms by (simp_all add: ccc_ok_def)

lemma ccc_capacities:
  assumes "ccc_ok K"
  shows "lib_inputsCapacity K (lib_addCell K t c) = lib_inputsCapacity K t + co_capacity (cl_cellOutput c)"
    and "lib_inputsCapacity K (lib_addOutput K t out d) = lib_inputsCapacity K t"
    and "lib_fixedPointFrom K n = n * 10 ^ 8"
    and "0 < lib_occupiedSize K out"
  using assms by (simp_all add: ccc_ok_def)

text \<open>Every cell on chain occupies some capacity.\<close>

definition cells_funded :: "Client \<Rightarrow> bool" where
  "cells_funded client \<longleftrightarrow> (\<forall>s. \<forall>c \<in> set (ch_cellsByType client s). 0 < co_capacity (cl_cellOutput c))"

lemma cells_fundedD: "cells_funded client \<Longrightarrow> ch_cellsByType client s = [c] \<Longrightarrow> 0 < co_capacity (cl_cellOutput c)"
  by (auto simp: cells_funded_def dest: spec[of _ s])

section \<open>Shared pieces of the builders\<close>

text \<open>The length of a hex string of whole bytes.\<close>

definition data_len :: "hex \<Rightarrow> int" where
  "data_len dataHex = (int (length dataHex) - 2) div 2"

definition occupiedCapacity :: "'tx ccc \<Rightarrow> Script \<Rightarrow> Script option \<Rightarrow> hex \<Rightarrow> int" where
  "occupiedCapacity K lock type dataHex =
    lib_fixedPointFrom K (lib_occupiedSize K \<lparr>co_capacity = 0, co_lock = lock, co_type = type\<rparr> + data_len dataHex)"

definition computeTypeId :: "crypto \<Rightarrow> 'tx ccc \<Rightarrow> CellInput \<Rightarrow> int \<Rightarrow> hex result" where
  "computeTypeId C K firstInput outputIndex = typeIdSeed C (HexStr (bytesToHex (lib_inputBytes K firstInput))) outputIndex"

definition plainInputOf :: "'tx Signer \<Rightarrow> CellInput result" where
  "plainInputOf signer =
    (case List.find (\<lambda>c. co_type (cl_cellOutput c) = None \<and> cl_outputData c = ''0x'')
        (ch_cellsByLock (sg_client signer) (sg_script signer)) of
      None \<Rightarrow> Inl (Failure ''signer has no plain cell to fund the transaction'')
    | Some c \<Rightarrow> Inr \<lparr>ci_previousOutput = cl_outPoint c, ci_since = 0\<rparr>)"

definition setInputType :: "'tx ccc \<Rightarrow> 'tx \<Rightarrow> nat \<Rightarrow> bytes \<Rightarrow> 'tx" where
  "setInputType K tx index inputType =
    (let witness = (case vw_witnesses (lib_view K tx) index of
        None \<Rightarrow> \<lparr>wa_lock = None, wa_inputType = None, wa_outputType = None\<rparr> | Some w \<Rightarrow> w)
     in lib_setWitnessArgs K tx index (witness\<lparr>wa_inputType := Some (bytesToHex inputType)\<rparr>))"

text \<open>\<open>setUint32(0, value, true)\<close> keeps the low 32 bits.\<close>

definition u32le :: "int \<Rightarrow> bytes" where
  "u32le n = le_bytes 4 (n mod 2 ^ 32)"

section \<open>Reading cells\<close>

record 'd LiveCell =
  lv_data :: 'd
  lv_cell :: Cell
  lv_outPoint :: OutPoint
  lv_cellDep :: CellDepInfo
  lv_typeHash :: hex

definition live :: "'tx ccc \<Rightarrow> Cell \<Rightarrow> 'd \<Rightarrow> 'd LiveCell result" where
  "live K c d = (case co_type (cl_cellOutput c) of
      None \<Rightarrow> Inl (TypeError ''undefined'')
    | Some type \<Rightarrow> Inr \<lparr>lv_data = d, lv_cell = c, lv_outPoint = cl_outPoint c,
        lv_cellDep = \<lparr>dep_outPoint = cl_outPoint c, dep_depType = ''code''\<rparr>, lv_typeHash = lib_scriptHash K type\<rparr>)"

fun only_loop :: "Cell option \<Rightarrow> Cell list \<Rightarrow> Cell option result" where
  "only_loop found [] = Inr found"
| "only_loop found (c # cs) =
    (if found \<noteq> None then Inl (Failure ''more than one live cell has this Type ID type script'') else only_loop (Some c) cs)"

definition only_cell :: "Client \<Rightarrow> Script \<Rightarrow> Cell option result" where
  "only_cell client script = only_loop None (ch_cellsByType client script)"

definition live_cell :: "'tx ccc \<Rightarrow> (bytes_like \<Rightarrow> 'd result) \<Rightarrow> Cell option \<Rightarrow> 'd LiveCell option result" where
  "live_cell K decode cell = (case cell of
      None \<Rightarrow> Inr None
    | Some c \<Rightarrow> ebind (decode (HexStr (cl_outputData c))) (\<lambda>d. ebind (live K c d) (\<lambda>l. Inr (Some l))))"

definition findCommitteeCell :: "'tx ccc \<Rightarrow> Client \<Rightarrow> Script \<Rightarrow> PublisherSetData LiveCell option result" where
  "findCommitteeCell K client typeScript =
    ebind (only_cell client typeScript) (live_cell K decodePublisherSetData)"

definition getFeedCell :: "'tx ccc \<Rightarrow> Client \<Rightarrow> Script \<Rightarrow> PriceFeedData LiveCell option result" where
  "getFeedCell K client typeScript = ebind (only_cell client typeScript) (live_cell K decodePriceFeedData)"

text \<open>One cell of the prefix search: kept when it is a feed cell of the committee, skipped when reading it throws.\<close>

definition feed_cell_of :: "'tx ccc \<Rightarrow> hex \<Rightarrow> Cell \<Rightarrow> PriceFeedData LiveCell list" where
  "feed_cell_of K committeeTypeHash c =
    (case ebind (decodePriceFeedData (HexStr (cl_outputData c))) (\<lambda>d.
        if toLowerCase (f_publisherSetTypeHash d) = toLowerCase committeeTypeHash
        then ebind (live K c d) (\<lambda>l. Inr [l]) else Inr []) of
      Inl e \<Rightarrow> [] | Inr ls \<Rightarrow> ls)"

definition findFeedCells ::
  "'tx ccc \<Rightarrow> Client \<Rightarrow> LeanOracleDeployment \<Rightarrow> hex \<Rightarrow> hex \<Rightarrow> PriceFeedData LiveCell list" where
  "findFeedCells K client d feed committeeTypeHash =
    concat (map (\<lambda>code. concat (map (feed_cell_of K committeeTypeHash)
        (ch_cellsByPrefix client \<lparr>sc_codeHash = code_codeHash code, sc_hashType = code_hashType code, sc_args = feed\<rparr>)))
      (all_codes d PriceFeedType))"

section \<open>Laws\<close>

lemma only_loop_Inr: "only_loop found cs = Inr r \<longleftrightarrow> (cs = [] \<and> r = found) \<or> (\<exists>c. cs = [c] \<and> found = None \<and> r = Some c)"
proof (cases cs)
  case (Cons c cs')
  then show ?thesis by (cases cs') auto
qed auto

lemma only_cell_Some: "only_cell client script = Inr (Some c) \<longleftrightarrow> ch_cellsByType client script = [c]"
  by (auto simp: only_cell_def only_loop_Inr)

lemma live_Inr: "live K c d = Inr l \<Longrightarrow> lv_data l = d \<and> lv_cell l = c \<and> (\<exists>type. co_type (cl_cellOutput c) = Some type \<and>
    lv_typeHash l = lib_scriptHash K type) \<and> lv_outPoint l = cl_outPoint c \<and>
    lv_cellDep l = \<lparr>dep_outPoint = cl_outPoint c, dep_depType = ''code''\<rparr>"
  by (auto simp: live_def split: option.splits)

lemma live_cell_Some: "live_cell K decode cell = Inr (Some l) \<longleftrightarrow>
    (\<exists>c d. cell = Some c \<and> decode (HexStr (cl_outputData c)) = Inr d \<and> live K c d = Inr l)"
  by (auto simp: live_cell_def ebind_eq_Inr split: option.splits)

lemmas found_cell = findCommitteeCell_def getFeedCell_def ebind_eq_Inr live_cell_Some only_cell_Some

lemma findCommitteeCell_Some:
  assumes "findCommitteeCell K client script = Inr (Some l)"
  shows "decodePublisherSetData (HexStr (cl_outputData (lv_cell l))) = Inr (lv_data l)"
    and "ch_cellsByType client script = [lv_cell l]"
    and "lv_outPoint l = cl_outPoint (lv_cell l)"
  using assms by (auto simp: found_cell dest: live_Inr)

lemma getFeedCell_Some:
  assumes "getFeedCell K client script = Inr (Some l)"
  shows "decodePriceFeedData (HexStr (cl_outputData (lv_cell l))) = Inr (lv_data l)"
    and "ch_cellsByType client script = [lv_cell l]"
    and "lv_outPoint l = cl_outPoint (lv_cell l)"
    and "\<exists>type. co_type (cl_cellOutput (lv_cell l)) = Some type"
  using assms by (auto simp: found_cell dest: live_Inr)

lemma findFeedCells_iff:
  "l \<in> set (findFeedCells K client d feed committee) \<longleftrightarrow>
    (\<exists>code \<in> set (all_codes d PriceFeedType). \<exists>c \<in> set (ch_cellsByPrefix client
        \<lparr>sc_codeHash = code_codeHash code, sc_hashType = code_hashType code, sc_args = feed\<rparr>).
      \<exists>data. decodePriceFeedData (HexStr (cl_outputData c)) = Inr data \<and>
        toLowerCase (f_publisherSetTypeHash data) = toLowerCase committee \<and> live K c data = Inr l)"
proof -
  have "l \<in> set (feed_cell_of K committee c) \<longleftrightarrow> (\<exists>data. decodePriceFeedData (HexStr (cl_outputData c)) = Inr data \<and>
        toLowerCase (f_publisherSetTypeHash data) = toLowerCase committee \<and> live K c data = Inr l)" for c
    by (cases "decodePriceFeedData (HexStr (cl_outputData c))"; cases "live K c (projr (decodePriceFeedData (HexStr (cl_outputData c))))")
      (auto simp: feed_cell_of_def)
  then show ?thesis by (simp add: findFeedCells_def)
qed

lemma occupiedCapacity_pos: "ccc_ok K \<Longrightarrow> 0 \<le> data_len dataHex \<Longrightarrow> 0 < occupiedCapacity K lock type dataHex"
  using ccc_capacities(4) by (fastforce simp: occupiedCapacity_def ccc_capacities(3) intro: add_pos_nonneg)

lemma data_len_bytesToHex [simp]: "data_len (bytesToHex bs) = int (length bs)"
  by (simp add: data_len_def bytesToHex_def)

lemma setInputType_view:
  assumes "ccc_ok K"
  shows "\<exists>w. lib_view K (setInputType K tx n bs) = (lib_view K tx)\<lparr>vw_witnesses := (vw_witnesses (lib_view K tx))(n := Some w)\<rparr> \<and>
    wa_inputType w = Some (bytesToHex bs)"
  by (auto simp: setInputType_def Let_def ccc_views[OF assms])

section \<open>A concrete library\<close>

text \<open>A transaction is its view and the capacity of its inputs.\<close>

definition demo_empty :: tx_view where
  "demo_empty = \<lparr>vw_inputs = [], vw_outputs = [], vw_cellDeps = {}, vw_headerDeps = [], vw_witnesses = (\<lambda>_. None)\<rparr>"

definition demo_ccc :: "(tx_view \<times> int) ccc" where
  "demo_ccc = \<lparr>lib_scriptHash = (\<lambda>s. sc_args s), lib_inputBytes = (\<lambda>i. [1]),
    lib_occupiedSize = (\<lambda>out. 61), lib_fixedPointFrom = (\<lambda>n. n * 10 ^ 8), lib_empty = (demo_empty, 0),
    lib_addInput = (\<lambda>(t, n) i. (t\<lparr>vw_inputs := vw_inputs t @ [i]\<rparr>, n)),
    lib_addCell = (\<lambda>(t, n) c. (t\<lparr>vw_inputs := vw_inputs t @ [\<lparr>ci_previousOutput = cl_outPoint c, ci_since = 0\<rparr>]\<rparr>,
      n + co_capacity (cl_cellOutput c))),
    lib_addOutput = (\<lambda>(t, n) out d. (t\<lparr>vw_outputs := vw_outputs t @ [(out, d)]\<rparr>, n)),
    lib_addCellDep = (\<lambda>(t, n) d. (t\<lparr>vw_cellDeps := insert d (vw_cellDeps t)\<rparr>, n)),
    lib_addHeaderDep = (\<lambda>(t, n) h. (t\<lparr>vw_headerDeps := vw_headerDeps t @ [h]\<rparr>, n)),
    lib_setWitnessArgs = (\<lambda>(t, n) i w. (t\<lparr>vw_witnesses := (vw_witnesses t)(i := Some w)\<rparr>, n)),
    lib_inputsCapacity = snd, lib_view = fst\<rparr>"

lemma demo_ccc_ok: "ccc_ok demo_ccc"
  by (simp add: ccc_ok_def demo_ccc_def demo_empty_def split: prod.splits)

end
