(* ===== verification/Fees.thy ===== *)
theory Fees
  imports Chain
begin

text \<open>
  \<open>packages/sdk/src/tx/fees.ts\<close>: adding fee inputs and change to a draft. The loop recurses on the cells
  left to try, so it ends. Lemmas: it adds the fewest of the largest plain cells that suffice, a completed
  transaction is balanced and spends nothing twice, and the shortfall is what the plain cells lack.
\<close>

record CompleteFeeOptions =
  fo_feeRate :: "int option"
  fo_changeLock :: "Script option"
  fo_leftoverToFee :: bool

datatype 'tx CompleteFeeResult = FeeOk 'tx int nat bool | Insufficient 'tx int nat int

definition outputsCapacity :: "'tx ccc \<Rightarrow> 'tx \<Rightarrow> int" where
  "outputsCapacity K tx = (\<Sum>(out, d) \<leftarrow> vw_outputs (lib_view K tx). co_capacity out)"

definition fuel_cells :: "'tx ccc \<Rightarrow> 'tx Signer \<Rightarrow> 'tx \<Rightarrow> Cell list" where
  "fuel_cells K signer tx =
    (let used = ci_previousOutput ` set (vw_inputs (lib_view K tx))
     in sort_key (\<lambda>c. - co_capacity (cl_cellOutput c)) (filter (\<lambda>c. cl_outPoint c \<notin> used) (sg_plainCells signer)))"

definition change_output :: "Script \<Rightarrow> int \<Rightarrow> CellOutput" where
  "change_output lock c = \<lparr>co_capacity = c, co_lock = lock, co_type = None\<rparr>"

definition withChange :: "'tx ccc \<Rightarrow> Script \<Rightarrow> int \<Rightarrow> 'tx \<Rightarrow> 'tx" where
  "withChange K lock c draft = lib_addOutput K draft (change_output lock c) ''0x''"

fun fee_loop :: "'tx ccc \<Rightarrow> ('tx \<Rightarrow> int) \<Rightarrow> Script \<Rightarrow> int \<Rightarrow> bool \<Rightarrow> Cell list \<Rightarrow> nat \<Rightarrow> int \<Rightarrow> 'tx \<Rightarrow>
    'tx CompleteFeeResult" where
  "fee_loop K feeOf lock minChange leftoverToFee fuel inputsAdded net tx =
    (let feeWithChange = feeOf (withChange K lock minChange tx) in
     if net \<ge> feeWithChange + minChange then
       FeeOk (withChange K lock (net - feeWithChange) tx) feeWithChange inputsAdded True
     else if leftoverToFee \<and> net \<ge> feeOf tx then FeeOk tx net inputsAdded False
     else (case fuel of
         [] \<Rightarrow> Insufficient tx feeWithChange inputsAdded (feeWithChange + minChange - net)
       | c # cs \<Rightarrow> fee_loop K feeOf lock minChange leftoverToFee cs (inputsAdded + 1)
           (net + co_capacity (cl_cellOutput c)) (lib_addCell K tx c)))"

declare fee_loop.simps [simp del]

definition fee_rate :: "CompleteFeeOptions \<Rightarrow> 'tx Signer \<Rightarrow> int" where
  "fee_rate options signer = (case fo_feeRate options of None \<Rightarrow> ch_feeRate (sg_client signer) | Some r \<Rightarrow> r)"

definition change_lock :: "CompleteFeeOptions \<Rightarrow> 'tx Signer \<Rightarrow> Script" where
  "change_lock options signer = (case fo_changeLock options of None \<Rightarrow> sg_script signer | Some l \<Rightarrow> l)"

text \<open>The fee of the copy the signer prepares.\<close>

definition fee_of :: "'tx Signer \<Rightarrow> CompleteFeeOptions \<Rightarrow> 'tx \<Rightarrow> int" where
  "fee_of signer options draft = sg_preparedFee signer draft (fee_rate options signer)"

definition completeFee :: "'tx ccc \<Rightarrow> 'tx \<Rightarrow> 'tx Signer \<Rightarrow> CompleteFeeOptions \<Rightarrow> 'tx CompleteFeeResult" where
  "completeFee K tx signer options =
    (let lock = change_lock options signer;
         minChange = occupiedCapacity K lock None ''0x''
     in fee_loop K (fee_of signer options) lock minChange (fo_leftoverToFee options) (fuel_cells K signer tx) 0
          (lib_inputsCapacity K tx - outputsCapacity K tx) tx)"

definition completeFeeAndChange :: "'tx ccc \<Rightarrow> 'tx \<Rightarrow> 'tx Signer \<Rightarrow> CompleteFeeOptions \<Rightarrow> 'tx result" where
  "completeFeeAndChange K tx signer options = (case completeFee K tx signer options of
      FeeOk t fee n changed \<Rightarrow> Inr t
    | Insufficient t fee n shortfall \<Rightarrow> Inl (Failure ''insufficient capacity''))"

section \<open>The number of cells added\<close>

text \<open>The draft with the first cells added, what it has left over, and whether that suffices.\<close>

definition funded :: "'tx ccc \<Rightarrow> 'tx \<Rightarrow> Cell list \<Rightarrow> 'tx" where
  "funded K tx cells = foldl (lib_addCell K) tx cells"

definition funds :: "Cell list \<Rightarrow> int" where
  "funds cells = (\<Sum>c \<leftarrow> cells. co_capacity (cl_cellOutput c))"

definition enough :: "'tx ccc \<Rightarrow> ('tx \<Rightarrow> int) \<Rightarrow> Script \<Rightarrow> int \<Rightarrow> bool \<Rightarrow> int \<Rightarrow> 'tx \<Rightarrow> bool" where
  "enough K feeOf lock minChange leftoverToFee net tx \<longleftrightarrow>
    net \<ge> feeOf (withChange K lock minChange tx) + minChange \<or> leftoverToFee \<and> net \<ge> feeOf tx"

text \<open>The result once no further cell is added.\<close>

definition settled :: "'tx ccc \<Rightarrow> ('tx \<Rightarrow> int) \<Rightarrow> Script \<Rightarrow> int \<Rightarrow> bool \<Rightarrow> nat \<Rightarrow> int \<Rightarrow> 'tx \<Rightarrow> 'tx CompleteFeeResult" where
  "settled K feeOf lock minChange leftoverToFee n net tx =
    (let feeWithChange = feeOf (withChange K lock minChange tx) in
     if net \<ge> feeWithChange + minChange then FeeOk (withChange K lock (net - feeWithChange) tx) feeWithChange n True
     else if leftoverToFee \<and> net \<ge> feeOf tx then FeeOk tx net n False
     else Insufficient tx feeWithChange n (feeWithChange + minChange - net))"

lemma funded_simps [simp]: "funded K tx [] = tx" "funded K tx (c # cs) = funded K (lib_addCell K tx c) cs"
  by (simp_all add: funded_def)

lemma funds_simps [simp]: "funds [] = 0" "funds (c # cs) = co_capacity (cl_cellOutput c) + funds cs"
  by (simp_all add: funds_def)

lemma fee_loop_settles:
  "\<exists>k \<le> length fuel.
    fee_loop K feeOf lock minChange l fuel n net tx =
      settled K feeOf lock minChange l (n + k) (net + funds (take k fuel)) (funded K tx (take k fuel)) \<and>
    (\<forall>j < k. \<not> enough K feeOf lock minChange l (net + funds (take j fuel)) (funded K tx (take j fuel))) \<and>
    (k < length fuel \<longrightarrow> enough K feeOf lock minChange l (net + funds (take k fuel)) (funded K tx (take k fuel)))"
proof (induction fuel arbitrary: n net tx)
  case Nil
  show ?case by (simp add: fee_loop.simps settled_def Let_def)
next
  case (Cons c cs)
  show ?case
  proof (cases "enough K feeOf lock minChange l net tx")
    case True
    then show ?thesis
      by (intro exI[of _ 0]) (auto simp: fee_loop.simps[of _ _ _ _ _ "c # cs"] settled_def enough_def Let_def)
  next
    case False
    let ?net = "net + co_capacity (cl_cellOutput c)" and ?tx = "lib_addCell K tx c"
    obtain k where k: "k \<le> length cs"
        "fee_loop K feeOf lock minChange l cs (n + 1) ?net ?tx =
          settled K feeOf lock minChange l (n + 1 + k) (?net + funds (take k cs)) (funded K ?tx (take k cs))"
        "\<forall>j < k. \<not> enough K feeOf lock minChange l (?net + funds (take j cs)) (funded K ?tx (take j cs))"
        "k < length cs \<longrightarrow> enough K feeOf lock minChange l (?net + funds (take k cs)) (funded K ?tx (take k cs))"
      using Cons.IH[of "n + 1" ?net ?tx] by blast
    have "fee_loop K feeOf lock minChange l (c # cs) n net tx = fee_loop K feeOf lock minChange l cs (n + 1) ?net ?tx"
      by (subst fee_loop.simps) (use False in \<open>auto simp: enough_def Let_def\<close>)
    moreover have "\<not> enough K feeOf lock minChange l (net + funds (take j (c # cs))) (funded K tx (take j (c # cs)))" if "j < Suc k" for j
      using that False k(3) by (cases j) (auto simp: ac_simps)
    ultimately show ?thesis
      using k by (intro exI[of _ "Suc k"]) (simp add: ac_simps)
  qed
qed

section \<open>What completion keeps\<close>

lemma funded_facts:
  assumes "ccc_ok K"
  shows "lib_view K (funded K tx cs) = (lib_view K tx)\<lparr>vw_inputs := vw_inputs (lib_view K tx) @
      map (\<lambda>c. \<lparr>ci_previousOutput = cl_outPoint c, ci_since = 0\<rparr>) cs\<rparr>"
    and "lib_inputsCapacity K (funded K tx cs) = lib_inputsCapacity K tx + funds cs"
    and "outputsCapacity K (funded K tx cs) = outputsCapacity K tx"
proof -
  show v: "lib_view K (funded K tx cs) = (lib_view K tx)\<lparr>vw_inputs := vw_inputs (lib_view K tx) @
      map (\<lambda>c. \<lparr>ci_previousOutput = cl_outPoint c, ci_since = 0\<rparr>) cs\<rparr>"
    by (induction cs arbitrary: tx) (simp_all add: ccc_views(3)[OF assms])
  show "lib_inputsCapacity K (funded K tx cs) = lib_inputsCapacity K tx + funds cs"
    by (induction cs arbitrary: tx) (simp_all add: ccc_capacities(1)[OF assms])
  show "outputsCapacity K (funded K tx cs) = outputsCapacity K tx" by (simp add: outputsCapacity_def v)
qed

lemma withChange_facts:
  assumes "ccc_ok K" "0 < c"
  shows "lib_view K (withChange K lock c tx) = (lib_view K tx)\<lparr>vw_outputs := vw_outputs (lib_view K tx) @ [(change_output lock c, ''0x'')]\<rparr>"
    and "lib_inputsCapacity K (withChange K lock c tx) = lib_inputsCapacity K tx"
    and "outputsCapacity K (withChange K lock c tx) = outputsCapacity K tx + c"
  using assms(2) by (simp_all add: withChange_def change_output_def ccc_views[OF assms(1)] ccc_capacities[OF assms(1)] outputsCapacity_def)

lemma settled_ok:
  "settled K feeOf lock minChange l n net tx = FeeOk t fee k changed \<longleftrightarrow>
    k = n \<and> (changed \<and> fee = feeOf (withChange K lock minChange tx) \<and> fee + minChange \<le> net \<and> t = withChange K lock (net - fee) tx \<or>
      \<not> changed \<and> \<not> feeOf (withChange K lock minChange tx) + minChange \<le> net \<and> l \<and> fee = net \<and> feeOf tx \<le> net \<and> t = tx)"
  by (auto simp: settled_def Let_def)

lemma completeFee_settles:
  obtains k where "k \<le> length (fuel_cells K signer tx)"
    and "completeFee K tx signer options =
      settled K (fee_of signer options) (change_lock options signer) (occupiedCapacity K (change_lock options signer) None ''0x'')
        (fo_leftoverToFee options) k
        (lib_inputsCapacity K tx - outputsCapacity K tx + funds (take k (fuel_cells K signer tx)))
        (funded K tx (take k (fuel_cells K signer tx)))"
  using fee_loop_settles[of "fuel_cells K signer tx" K "fee_of signer options" "change_lock options signer"
      "occupiedCapacity K (change_lock options signer) None ''0x''" "fo_leftoverToFee options" 0
      "lib_inputsCapacity K tx - outputsCapacity K tx" tx]
  unfolding completeFee_def Let_def by auto

lemma distinct_fuel:
  assumes "distinct (map ci_previousOutput (vw_inputs (lib_view K tx)))" "distinct (map cl_outPoint (sg_plainCells signer))"
  shows "distinct (map ci_previousOutput (vw_inputs (lib_view K tx)) @ map cl_outPoint (take k (fuel_cells K signer tx)))"
proof -
  have "distinct (map cl_outPoint (fuel_cells K signer tx))"
    using assms(2) by (simp add: fuel_cells_def distinct_map inj_on_def)
  then have "distinct (map cl_outPoint (take k (fuel_cells K signer tx)))" by (simp add: take_map[symmetric])
  moreover have "cl_outPoint c \<notin> ci_previousOutput ` set (vw_inputs (lib_view K tx))" if "c \<in> set (take k (fuel_cells K signer tx))" for c
    using in_set_takeD[OF that] by (auto simp: fuel_cells_def)
  then have "set (map ci_previousOutput (vw_inputs (lib_view K tx))) \<inter> set (map cl_outPoint (take k (fuel_cells K signer tx))) = {}"
    by (simp add: disjoint_iff image_iff) metis
  ultimately show ?thesis using assms(1) unfolding distinct_append by blast
qed

section \<open>A concrete signer\<close>

definition demo_lock :: Script where
  "demo_lock = \<lparr>sc_codeHash = demo_id 7, sc_hashType = ''type'', sc_args = demo_id 7\<rparr>"

definition demo_plain :: Cell where
  "demo_plain = \<lparr>cl_outPoint = \<lparr>op_txHash = demo_id 6, op_index = 0\<rparr>,
    cl_cellOutput = \<lparr>co_capacity = 10000000000, co_lock = demo_lock, co_type = None\<rparr>, cl_outputData = ''0x''\<rparr>"

definition demo_client :: Client where
  "demo_client = \<lparr>ch_cellsByType = (\<lambda>s. []), ch_cellsByPrefix = (\<lambda>s. []), ch_cellsByLock = (\<lambda>s. [demo_plain]),
    ch_tip = (1000, demo_id 5), ch_feeRate = 1000\<rparr>"

definition demo_fee_signer :: "(tx_view \<times> int) Signer" where
  "demo_fee_signer = \<lparr>sg_client = demo_client, sg_script = demo_lock, sg_plainCells = [demo_plain], sg_preparedFee = (\<lambda>t r. r)\<rparr>"

definition demo_options :: CompleteFeeOptions where
  "demo_options = \<lparr>fo_feeRate = None, fo_changeLock = None, fo_leftoverToFee = False\<rparr>"

lemma demo_completed:
  "completeFee demo_ccc (demo_empty, 0) demo_fee_signer demo_options =
    FeeOk (demo_empty\<lparr>vw_inputs := [\<lparr>ci_previousOutput = cl_outPoint demo_plain, ci_since = 0\<rparr>],
      vw_outputs := [(change_output demo_lock 9999999000, ''0x'')]\<rparr>, 10000000000) 1000 1 True"
  by (simp add: completeFee_def fee_loop.simps Let_def fuel_cells_def demo_ccc_def demo_empty_def demo_fee_signer_def demo_options_def
      demo_client_def change_lock_def fee_of_def fee_rate_def occupiedCapacity_def withChange_def outputsCapacity_def
      change_output_def data_len_def demo_plain_def)

section \<open>Properties\<close>

text \<open>The greedy loop adds the fewest of the largest plain cells that suffice, and reports a shortfall
  exactly when all of them do not suffice.\<close>

theorem fee_completion_minimal:
  fixes K :: "'tx ccc" and tx :: 'tx and signer :: "'tx Signer" and options :: CompleteFeeOptions
  defines "fuel \<equiv> fuel_cells K signer tx"
    and "lock \<equiv> change_lock options signer"
    and "feeOf \<equiv> fee_of signer options"
    and "l \<equiv> fo_leftoverToFee options"
    and "net \<equiv> lib_inputsCapacity K tx - outputsCapacity K tx"
  defines "minChange \<equiv> occupiedCapacity K lock None ''0x''"
  defines "suffices k \<equiv> enough K feeOf lock minChange l (net + funds (take k fuel)) (funded K tx (take k fuel))"
  shows "completeFee K tx signer options =
    (let n = (case List.find suffices [0..<length fuel] of Some k \<Rightarrow> k | None \<Rightarrow> length fuel)
     in settled K feeOf lock minChange l n (net + funds (take n fuel)) (funded K tx (take n fuel)))"
proof -
  obtain k where k: "k \<le> length fuel" "completeFee K tx signer options =
      settled K feeOf lock minChange l k (net + funds (take k fuel)) (funded K tx (take k fuel))"
    "\<forall>j < k. \<not> suffices j" "k < length fuel \<longrightarrow> suffices k"
    using fee_loop_settles[of fuel K feeOf lock minChange l 0 net tx]
    unfolding completeFee_def Let_def suffices_def fuel_def lock_def feeOf_def l_def net_def minChange_def add_0 by blast
  have "(case List.find suffices [0..<length fuel] of Some k \<Rightarrow> k | None \<Rightarrow> length fuel) = k"
  proof (cases "k = length fuel")
    case True
    then have "List.find suffices [0..<length fuel] = None" using k(3) by (auto simp: find_None_iff)
    then show ?thesis using True by simp
  next
    case False
    then have "k < length fuel" using k(1) by simp
    then have "List.find suffices [0..<length fuel] = Some k"
      using k(3,4) by (auto simp: find_Some_iff intro!: exI[of _ k])
    then show ?thesis by simp
  qed
  then show ?thesis using k(2) by simp
qed

lemma completed_transaction_facts:
  fixes tx :: 'tx
  assumes "completeFee K tx signer options = FeeOk t fee n changed" and "ccc_ok K"
    and "\<And>draft c c'. fee_of signer options (withChange K lock c draft) = fee_of signer options (withChange K lock c' draft)"
    and "distinct (map ci_previousOutput (vw_inputs (lib_view K tx)))" and "distinct (map cl_outPoint (sg_plainCells signer))"
    and "lock = change_lock options signer"
  shows "lib_inputsCapacity K t = outputsCapacity K t + fee"
    and "fee_of signer options t \<le> fee"
    and "\<exists>c \<ge> occupiedCapacity K lock None ''0x''. vw_outputs (lib_view K t) =
      vw_outputs (lib_view K tx) @ (if changed then [(change_output lock c, ''0x'')] else [])"
    and "distinct (map ci_previousOutput (vw_inputs (lib_view K t)))"
    and "\<exists>cells. set cells \<subseteq> set (sg_plainCells signer) \<and> length cells = n \<and> vw_inputs (lib_view K t) =
      vw_inputs (lib_view K tx) @ map (\<lambda>c. \<lparr>ci_previousOutput = cl_outPoint c, ci_since = 0\<rparr>) cells"
proof -
  let ?fuel = "fuel_cells K signer tx" and ?min = "occupiedCapacity K lock None ''0x''"
  obtain k where k: "k \<le> length ?fuel" "completeFee K tx signer options =
      settled K (fee_of signer options) lock ?min (fo_leftoverToFee options) k
        (lib_inputsCapacity K tx - outputsCapacity K tx + funds (take k ?fuel)) (funded K tx (take k ?fuel))"
    using completeFee_settles[of K signer tx options] assms(6) by metis
  let ?net = "lib_inputsCapacity K tx - outputsCapacity K tx + funds (take k ?fuel)" and ?tx = "funded K tx (take k ?fuel)"
  have pos: "0 < ?min" using occupiedCapacity_pos[OF assms(2)] by (simp add: data_len_def)
  have n: "n = k" and r: "changed \<and> fee = fee_of signer options (withChange K lock ?min ?tx) \<and> fee + ?min \<le> ?net \<and>
      t = withChange K lock (?net - fee) ?tx \<or> \<not> changed \<and> fee = ?net \<and> fee_of signer options ?tx \<le> ?net \<and> t = ?tx"
    using assms(1) unfolding k(2) settled_ok by blast+
  note fd = funded_facts[OF assms(2), of tx "take k ?fuel"]
  have ch: "lib_view K t = (lib_view K ?tx)\<lparr>vw_outputs := vw_outputs (lib_view K tx) @
      (if changed then [(change_output lock (?net - fee), ''0x'')] else [])\<rparr>"
    "lib_inputsCapacity K t = lib_inputsCapacity K ?tx" "outputsCapacity K t = outputsCapacity K tx + (if changed then ?net - fee else 0)"
    using r pos withChange_facts[OF assms(2), of "?net - fee" lock ?tx] fd by auto
  show "lib_inputsCapacity K t = outputsCapacity K t + fee" using ch r fd by auto
  show "fee_of signer options t \<le> fee" using r assms(3)[of "?net - fee" ?tx ?min] by auto
  show "\<exists>c \<ge> ?min. vw_outputs (lib_view K t) = vw_outputs (lib_view K tx) @ (if changed then [(change_output lock c, ''0x'')] else [])"
    using arg_cong[OF ch(1), of vw_outputs] r by (cases changed) (auto intro: exI[of _ "?net - fee"])
  have ins: "vw_inputs (lib_view K t) = vw_inputs (lib_view K tx) @
      map (\<lambda>c. \<lparr>ci_previousOutput = cl_outPoint c, ci_since = 0\<rparr>) (take k ?fuel)"
    by (simp add: ch fd)
  show "distinct (map ci_previousOutput (vw_inputs (lib_view K t)))"
    using distinct_fuel[OF assms(4,5), of k] by (simp add: ins o_def)
  show "\<exists>cells. set cells \<subseteq> set (sg_plainCells signer) \<and> length cells = n \<and> vw_inputs (lib_view K t) =
      vw_inputs (lib_view K tx) @ map (\<lambda>c. \<lparr>ci_previousOutput = cl_outPoint c, ci_since = 0\<rparr>) cells"
    using k(1) n ins set_take_subset[of k ?fuel] by (intro exI[of _ "take k ?fuel"]) (auto simp: fuel_cells_def)
qed

text \<open>Claim C28: a completed transaction is balanced: its inputs hold exactly its outputs and the fee. The fee
  covers what the prepared transaction needs, the change output, if any, holds at least its occupied capacity, the outputs of the
  draft are kept, and every input added is a plain cell of the signer that the transaction does not spend twice. (The fee
  of a prepared transaction depends on its size, so not on the capacity of an output.)\<close>

theorem completed_transaction_balanced:
  fixes tx :: 'tx
  assumes "completeFee K tx signer options = FeeOk t fee n changed" and "ccc_ok K"
    and "\<And>draft c c'. fee_of signer options (withChange K lock c draft) = fee_of signer options (withChange K lock c' draft)"
    and "distinct (map ci_previousOutput (vw_inputs (lib_view K tx)))" and "distinct (map cl_outPoint (sg_plainCells signer))"
    and "lock = change_lock options signer"
  shows "(lib_inputsCapacity K t = outputsCapacity K t + fee) \<and>
    (fee_of signer options t \<le> fee) \<and>
    (\<exists>c \<ge> occupiedCapacity K lock None ''0x''. vw_outputs (lib_view K t) =
      vw_outputs (lib_view K tx) @ (if changed then [(change_output lock c, ''0x'')] else [])) \<and>
    (distinct (map ci_previousOutput (vw_inputs (lib_view K t)))) \<and>
    (\<exists>cells. set cells \<subseteq> set (sg_plainCells signer) \<and> length cells = n \<and> vw_inputs (lib_view K t) =
      vw_inputs (lib_view K tx) @ map (\<lambda>c. \<lparr>ci_previousOutput = cl_outPoint c, ci_since = 0\<rparr>) cells)"
  using completed_transaction_facts[OF assms] by blast

theorem completed_transaction_balanced_witness:
  "\<exists>t. completeFee demo_ccc (demo_empty, 0) demo_fee_signer demo_options = FeeOk t 1000 1 True \<and>
    lib_inputsCapacity demo_ccc t = outputsCapacity demo_ccc t + 1000"
  using completed_transaction_balanced[OF demo_completed demo_ccc_ok _ _ _ refl] demo_completed
  by (simp add: fee_of_def demo_fee_signer_def demo_ccc_def demo_empty_def)

end
