(* ===== verification/Feed_Tx.thy ===== *)
theory Feed_Tx
  imports Chain Mirror_Client
begin

text \<open>
  \<open>packages/sdk/src/tx/feed.ts\<close> and \<open>tx/pull.ts\<close>: the transactions that create, move and burn feed cells. Each
  builder returns an unsigned transaction without fees. Lemmas: a batch that \<open>updateFeedCells\<close> builds spends
  exactly the feed cells, puts each back with a newer price in the same place, and the one blob in its first
  witness verifies for every one of them.
\<close>

definition MAX_FEEDS_PER_TX :: nat where
  "MAX_FEEDS_PER_TX = 32"

definition encodeFeedWitness :: "bytes_like \<Rightarrow> bytes result" where
  "encodeFeedWitness blob = ebind (toBytes blob) (\<lambda>bytes. Inr (concatBytes [u32le (int (length bytes)), bytes]))"

definition required :: "string \<Rightarrow> 'd option result \<Rightarrow> 'd result" where
  "required message r = ebind r (\<lambda>x. case x of None \<Rightarrow> Inl (Failure message) | Some c \<Rightarrow> Inr c)"

section \<open>Creating a feed cell\<close>

definition createFeedCell ::
  "crypto \<Rightarrow> 'tx ccc \<Rightarrow> 'tx Signer \<Rightarrow> LeanOracleDeployment \<Rightarrow> hex \<Rightarrow> Script \<Rightarrow> Script option \<Rightarrow> ('tx \<times> Script \<times> hex) result" where
  "createFeedCell C K signer d feed committee lock0 =
    ebind (required ''committee cell not found'' (findCommitteeCell K (sg_client signer) committee)) (\<lambda>committeeCell.
    let lock = (case lock0 of None \<Rightarrow> sg_script signer | Some l \<Rightarrow> l) in
    ebind (plainInputOf signer) (\<lambda>firstInput.
    ebind (computeTypeId C K firstInput 0) (\<lambda>typeId.
    ebind (priceFeedTypeScript d feed typeId) (\<lambda>typeScript.
    ebind (encodePriceFeedData (uninitializedPriceFeed feed (lv_typeHash committeeCell))) (\<lambda>data.
    let dataHex = bytesToHex data;
        tx = lib_addInput K (lib_empty K) firstInput;
        tx = lib_addOutput K tx \<lparr>co_capacity = occupiedCapacity K lock (Some typeScript) dataHex, co_lock = lock,
               co_type = Some typeScript\<rparr> dataHex;
        tx = lib_addCellDep K (lib_addCellDep K tx (code_cellDep (dp_priceFeedType d))) (lv_cellDep committeeCell)
    in Inr (tx, typeScript, lib_scriptHash K typeScript))))))"

section \<open>Moving feed cells\<close>

type_synonym feed_cell = "Script \<times> PriceFeedData LiveCell"

record FeedMove =
  fv_feedType :: Script
  fv_verified :: VerifiedPrice
  fv_before :: PriceFeedData
  fv_after :: PriceFeedData

fun decode_update :: "update_input \<Rightarrow> PriceUpdate result" where
  "decode_update (Blob b) = decodePriceUpdate b"
| "decode_update (Decoded u) = Inr u"

text \<open>\<open>codeHash:hashType\<close>; \<open>type!\<close> of a cell without a type throws.\<close>

definition cell_type :: "'d LiveCell \<Rightarrow> Script result" where
  "cell_type l = (case co_type (cl_cellOutput (lv_cell l)) of None \<Rightarrow> Inl (TypeError ''undefined'') | Some s \<Rightarrow> Inr s)"

definition code_key :: "'d LiveCell \<Rightarrow> string result" where
  "code_key l = ebind (cell_type l) (\<lambda>s. Inr (toLowerCase (sc_codeHash s @ '':'' @ sc_hashType s)))"

definition findCommitteeCellByHash ::
  "'tx ccc \<Rightarrow> Client \<Rightarrow> LeanOracleDeployment \<Rightarrow> hex \<Rightarrow> PublisherSetData LiveCell result" where
  "findCommitteeCellByHash K client d typeHash =
    (case List.find (\<lambda>c. toLowerCase (cm_typeHash c) = toLowerCase typeHash) (map snd (dp_committees d)) of
      None \<Rightarrow> Inl (Failure ''committee is not in this deployment'')
    | Some committee \<Rightarrow> required ''committee cell not found'' (findCommitteeCell K client (cm_typeScript committee)))"

text \<open>One turn of the loop over the cells: verify, check that it is newer, spend and put back.\<close>

definition move_feed ::
  "crypto \<Rightarrow> 'tx ccc \<Rightarrow> LeanOracleDeployment \<Rightarrow> PriceUpdate \<Rightarrow> PublisherSetData \<Rightarrow>
    'tx \<times> (hex \<times> CellDepInfo) list \<times> FeedMove list \<Rightarrow> feed_cell \<Rightarrow> ('tx \<times> (hex \<times> CellDepInfo) list \<times> FeedMove list) result" where
  "move_feed C K d decoded committeeData acc cell =
    (let (tx, codeDeps, feeds) = acc; (feedType, feed) = cell; before = lv_data feed in
     ebind (verifyPriceUpdate C (Decoded decoded) (f_feedId before) (f_publisherSetTypeHash before) committeeData) (\<lambda>verified.
     if h_publishTimeMs (v_header verified) \<le> f_publishTimeMs before
     then Inl (Failure ''update is not newer than feed'')
     else
       let after = applyVerifiedPrice before verified;
           tx = lib_addInput K tx \<lparr>ci_previousOutput = cl_outPoint (lv_cell feed), ci_since = 0\<rparr>
       in ebind (encodePriceFeedData after) (\<lambda>data.
          let tx = lib_addOutput K tx (cl_cellOutput (lv_cell feed)) (bytesToHex data) in
          ebind (cell_type feed) (\<lambda>type.
          ebind (codeRefFor d PriceFeedType (sc_codeHash type)) (\<lambda>code.
          Inr (tx, AList.update (code_codeHash code) (code_cellDep code) codeDeps,
            feeds @ [\<lparr>fv_feedType = feedType, fv_verified = verified, fv_before = before, fv_after = after\<rparr>]))))))"

text \<open>The checks before the loop: a known number of cells of one committee, one contract version and distinct feeds.\<close>

definition check_batch :: "feed_cell list \<Rightarrow> unit result" where
  "check_batch cells =
    (case cells of [] \<Rightarrow> Inl (TypeError ''undefined'')
     | c0 # _ \<Rightarrow>
        let committee = (\<lambda>c. toLowerCase (f_publisherSetTypeHash (lv_data (snd c)))) in
        if list_ex (\<lambda>c. committee c \<noteq> committee c0) cells
        then Inl (Failure ''all feed cells in one transaction must trust the same committee'')
        else
          ebind (code_key (snd c0)) (\<lambda>key0.
          ebind (emap (\<lambda>c. code_key (snd c)) cells) (\<lambda>keys.
          if list_ex (\<lambda>key. key \<noteq> key0) keys
          then Inl (Failure ''feed cells created under different contract versions cannot share one transaction'')
          else if \<not> distinct (map (\<lambda>c. toLowerCase (f_feedId (lv_data (snd c)))) cells)
          then Inl (Failure ''each feed may appear once per transaction'')
          else Inr ())))"

definition read_feed_cells :: "'tx ccc \<Rightarrow> Client \<Rightarrow> Script list \<Rightarrow> feed_cell list result" where
  "read_feed_cells K client feedTypes = emap (\<lambda>feedType.
    ebind (required ''feed cell not found'' (getFeedCell K client feedType)) (\<lambda>feed. Inr (feedType, feed))) feedTypes"

definition updateFeedCells ::
  "crypto \<Rightarrow> 'tx ccc \<Rightarrow> Client \<Rightarrow> LeanOracleDeployment \<Rightarrow> Script list \<Rightarrow> update_input \<Rightarrow> ('tx \<times> FeedMove list) result" where
  "updateFeedCells C K client d feedTypes update =
    (if length feedTypes = 0 then Inl (Failure ''no feed cells given'')
     else if length feedTypes > MAX_FEEDS_PER_TX then Inl (Failure ''too many feed cells per transaction; split the batch'')
     else
       ebind (decode_update update) (\<lambda>decoded.
       ebind (read_feed_cells K client feedTypes) (\<lambda>cells.
       ebind (check_batch cells) (\<lambda>_.
       ebind (findCommitteeCellByHash K client d (f_publisherSetTypeHash (lv_data (snd (hd cells))))) (\<lambda>committeeCell.
       ebind (efold (move_feed C K d decoded (lv_data committeeCell)) (lib_empty K, [], []) cells) (\<lambda>(tx, codeDeps, feeds).
       let tx = foldl (lib_addCellDep K) tx (map snd codeDeps @ [lv_cellDep committeeCell]) in
       ebind (selectFeeds decoded (map (\<lambda>c. f_feedId (lv_data (snd c))) cells)) (\<lambda>selected.
       ebind (encodePriceUpdate selected) (\<lambda>blob.
       ebind (encodeFeedWitness (Raw blob)) (\<lambda>witness.
       Inr (setInputType K tx 0 witness, feeds))))))))))"

definition updateFeedCell ::
  "crypto \<Rightarrow> 'tx ccc \<Rightarrow> Client \<Rightarrow> LeanOracleDeployment \<Rightarrow> Script \<Rightarrow> update_input \<Rightarrow> ('tx \<times> FeedMove) result" where
  "updateFeedCell C K client d feedType update =
    ebind (updateFeedCells C K client d [feedType] update) (\<lambda>(tx, feeds).
    case feeds of [] \<Rightarrow> Inl (TypeError ''undefined'') | m # _ \<Rightarrow> Inr (tx, m))"

definition burnFeedCell :: "'tx ccc \<Rightarrow> Client \<Rightarrow> LeanOracleDeployment \<Rightarrow> Script \<Rightarrow> 'tx result" where
  "burnFeedCell K client d feedType =
    ebind (required ''feed cell not found'' (getFeedCell K client feedType)) (\<lambda>feed.
    let tx = lib_addInput K (lib_empty K) \<lparr>ci_previousOutput = cl_outPoint (lv_cell feed), ci_since = 0\<rparr> in
    ebind (cell_type feed) (\<lambda>type.
    ebind (codeRefFor d PriceFeedType (sc_codeHash type)) (\<lambda>code.
    Inr (lib_addCellDep K tx (code_cellDep code)))))"

text \<open>\<open>pullAndUpdate\<close>: the latest update of the cell's committee, or the first at or after a time.\<close>

definition pullAndUpdate ::
  "crypto \<Rightarrow> 'tx ccc \<Rightarrow> Client \<Rightarrow> LeanOracleDeployment \<Rightarrow> MirrorClientOptions \<Rightarrow> MirrorUpdateJson list exchange \<Rightarrow>
    Script \<Rightarrow> int option \<Rightarrow> bool \<Rightarrow> ('tx \<times> FeedMove) result" where
  "pullAndUpdate C K client d mirror fetch feedType atMs exact =
    ebind (required ''feed cell not found'' (getFeedCell K client feedType)) (\<lambda>feed.
    let ids = [f_feedId (lv_data feed)]; committee = Some (f_publisherSetTypeHash (lv_data feed)) in
    ebind (case atMs of None \<Rightarrow> client_latest C mirror fetch ids committee
      | Some t \<Rightarrow> client_at C mirror fetch t ids committee) (\<lambda>updates.
    case updates of
      [] \<Rightarrow> Inl (Failure ''the mirror has no update for this feed'')
    | update # _ \<Rightarrow>
        if exact \<and> (case atMs of None \<Rightarrow> False | Some t \<Rightarrow> mu_publishTimeMs update \<noteq> t)
        then Inl (Failure ''no update exactly at'')
        else updateFeedCell C K client d feedType (Blob (HexStr (mu_blob update)))))"

section \<open>The loop\<close>

text \<open>How a cell and its move correspond, and the output the move writes.\<close>

definition moved :: "crypto \<Rightarrow> PriceUpdate \<Rightarrow> PublisherSetData \<Rightarrow> feed_cell \<Rightarrow> FeedMove \<Rightarrow> bool" where
  "moved C u data cell m \<longleftrightarrow> fv_feedType m = fst cell \<and> fv_before m = lv_data (snd cell) \<and>
    verifyPriceUpdate C (Decoded u) (f_feedId (fv_before m)) (f_publisherSetTypeHash (fv_before m)) data = Inr (fv_verified m) \<and>
    f_publishTimeMs (fv_before m) < h_publishTimeMs (v_header (fv_verified m)) \<and>
    fv_after m = applyVerifiedPrice (fv_before m) (fv_verified m) \<and> (\<exists>bs. encodePriceFeedData (fv_after m) = Inr bs)"

definition cell_input :: "feed_cell \<Rightarrow> CellInput" where
  "cell_input c = \<lparr>ci_previousOutput = cl_outPoint (lv_cell (snd c)), ci_since = 0\<rparr>"

definition cell_after :: "feed_cell \<Rightarrow> FeedMove \<Rightarrow> CellOutput \<times> hex" where
  "cell_after c m = (cl_cellOutput (lv_cell (snd c)), bytesToHex (projr (encodePriceFeedData (fv_after m))))"

lemma move_feed_Inr:
  assumes "ccc_ok K" "move_feed C K d u data (tx, deps, feeds) cell = Inr (tx', deps', feeds')"
    and "0 < co_capacity (cl_cellOutput (lv_cell (snd cell)))"
  shows "\<exists>m. feeds' = feeds @ [m] \<and> moved C u data cell m \<and>
    lib_view K tx' = (lib_view K tx)\<lparr>vw_inputs := vw_inputs (lib_view K tx) @ [cell_input cell],
      vw_outputs := vw_outputs (lib_view K tx) @ [cell_after cell m]\<rparr>"
proof -
  obtain feedType feed where c: "cell = (feedType, feed)" by (cases cell)
  from assms(2) obtain v bs where v: "verifyPriceUpdate C (Decoded u) (f_feedId (lv_data feed)) (f_publisherSetTypeHash (lv_data feed)) data = Inr v"
      "\<not> h_publishTimeMs (v_header v) \<le> f_publishTimeMs (lv_data feed)" "encodePriceFeedData (applyVerifiedPrice (lv_data feed) v) = Inr bs"
      and tx': "tx' = lib_addOutput K (lib_addInput K tx \<lparr>ci_previousOutput = cl_outPoint (lv_cell feed), ci_since = 0\<rparr>)
        (cl_cellOutput (lv_cell feed)) (bytesToHex bs)"
      and f: "feeds' = feeds @ [\<lparr>fv_feedType = feedType, fv_verified = v, fv_before = lv_data feed, fv_after = applyVerifiedPrice (lv_data feed) v\<rparr>]"
    by (auto simp: move_feed_def c ebind_eq_Inr Let_def split: if_splits)
  show ?thesis
    by (intro exI[of _ "\<lparr>fv_feedType = feedType, fv_verified = v, fv_before = lv_data feed, fv_after = applyVerifiedPrice (lv_data feed) v\<rparr>"])
      (use v assms(3) in \<open>simp add: f tx' moved_def cell_input_def cell_after_def c ccc_views[OF assms(1)]\<close>)
qed

lemma move_feeds:
  assumes "ccc_ok K" "\<And>c. c \<in> set cells \<Longrightarrow> 0 < co_capacity (cl_cellOutput (lv_cell (snd c)))"
    and "efold (move_feed C K d u data) (tx, deps, feeds) cells = Inr (tx', deps', feeds')"
  shows "\<exists>ms. feeds' = feeds @ ms \<and> list_all2 (moved C u data) cells ms \<and>
    lib_view K tx' = (lib_view K tx)\<lparr>vw_inputs := vw_inputs (lib_view K tx) @ map cell_input cells,
      vw_outputs := vw_outputs (lib_view K tx) @ map2 cell_after cells ms\<rparr>"
  using assms(2,3)
proof (induction cells arbitrary: tx deps feeds)
  case Nil
  then show ?case by simp
next
  case (Cons c cs)
  obtain tx1 deps1 feeds1 where s: "move_feed C K d u data (tx, deps, feeds) c = Inr (tx1, deps1, feeds1)"
      "efold (move_feed C K d u data) (tx1, deps1, feeds1) cs = Inr (tx', deps', feeds')"
    using Cons.prems(2) by (auto simp: ebind_eq_Inr)
  obtain m where m: "feeds1 = feeds @ [m]" "moved C u data c m"
    "lib_view K tx1 = (lib_view K tx)\<lparr>vw_inputs := vw_inputs (lib_view K tx) @ [cell_input c],
      vw_outputs := vw_outputs (lib_view K tx) @ [cell_after c m]\<rparr>"
    using move_feed_Inr[OF assms(1) s(1)] Cons.prems(1) by auto
  obtain ms where "feeds' = feeds1 @ ms" "list_all2 (moved C u data) cs ms"
    "lib_view K tx' = (lib_view K tx1)\<lparr>vw_inputs := vw_inputs (lib_view K tx1) @ map cell_input cs,
      vw_outputs := vw_outputs (lib_view K tx1) @ map2 cell_after cs ms\<rparr>"
    using Cons.IH[OF _ s(2)] Cons.prems(1) by auto
  with m show ?case by (intro exI[of _ "m # ms"]) simp
qed

section \<open>The blob of the witness\<close>

lemma selected_blob_verifies:
  assumes "h_leafCount (u_header u) \<noteq> 0" "selectFeeds u ids = Inr sel" "encodePriceUpdate sel = Inr blob"
    and "feed \<in> set ids" "verifyPriceUpdate C (Decoded u) feed committee data = Inr v"
  shows "\<exists>v'. verifyPriceUpdate C (Blob (Raw blob)) feed committee data = Inr v' \<and>
    h_publishTimeMs (v_header v') = h_publishTimeMs (v_header v) \<and> (\<forall>d. applyVerifiedPrice d v' = applyVerifiedPrice d v)"
proof -
  let ?P = "\<lambda>en. toLowerCase (m_feedId (e_message en)) = toLowerCase feed"
  obtain e where e: "filter ?P (u_entries u) = [e]" "entry_accepted C u e committee data" "v = \<lparr>v_header = u_header u, v_message = e_message e\<rparr>"
    using assms(5) by (auto simp: verifyPriceUpdate_iff simp del: filter_eq_Cons_iff)
  note S = select_facts[OF assms(2)]
  have sel: "entry_accepted C sel e committee data" "h_leafCount (u_header sel) \<noteq> 0" using e(2) assms(1) by (simp_all add: S)
  have "filter ?P (u_entries sel) = filter ?P (u_entries u)" using assms(4) by (auto simp: S intro: filter_cong)
  moreover have "filter ?P (u_entries (norm_update sel)) = map norm_entry (filter ?P (u_entries sel))"
    by (simp add: norm_update_def filter_map comp_def norm_entry_def norm_message_def)
  ultimately have "filter ?P (u_entries (norm_update sel)) = [norm_entry e]" using e(1) by simp
  moreover have "decodePriceUpdate (Raw blob) = Inr (norm_update sel)" by (rule update_codec.dec_enc[OF _ assms(3)]) (rule sel(2))
  ultimately have "verifyPriceUpdate C (Blob (Raw blob)) feed committee data =
      Inr \<lparr>v_header = u_header (norm_update sel), v_message = e_message (norm_entry e)\<rparr>"
    using entry_accepted_norm[OF sel] unfolding verifyPriceUpdate_iff by (intro exI conjI) auto
  then show ?thesis
    by (intro exI conjI, assumption) (auto simp: e(3) S norm_update_def norm_header_def norm_entry_def norm_message_def applyVerifiedPrice_def Let_def)
qed

section \<open>The whole batch\<close>

lemma read_feed_cells_Inr:
  assumes "read_feed_cells K client feedTypes = Inr cells"
  shows "list_all2 (\<lambda>s c. fst c = s \<and> ch_cellsByType client s = [lv_cell (snd c)] \<and>
    decodePriceFeedData (HexStr (cl_outputData (lv_cell (snd c)))) = Inr (lv_data (snd c))) feedTypes cells"
proof -
  have "fst c = s \<and> ch_cellsByType client s = [lv_cell (snd c)] \<and>
      decodePriceFeedData (HexStr (cl_outputData (lv_cell (snd c)))) = Inr (lv_data (snd c))"
    if "ebind (required ''feed cell not found'' (getFeedCell K client s)) (\<lambda>feed. Inr (s, feed)) = Inr c" for s c
  proof -
    note h = that
    obtain l where l: "getFeedCell K client s = Inr (Some l)" "c = (s, l)"
      using h by (auto simp: ebind_eq_Inr required_def split: option.splits)
    then show ?thesis using getFeedCell_Some(1,2)[OF l(1)] by simp
  qed
  then show ?thesis using assms unfolding read_feed_cells_def emap_eq_Inr by (rule list_all2_mono[rotated])
qed

lemma add_deps_view:
  assumes "ccc_ok K"
  shows "lib_view K (foldl (lib_addCellDep K) tx deps) = (lib_view K tx)\<lparr>vw_cellDeps := vw_cellDeps (lib_view K tx) \<union> set deps\<rparr>"
  by (induction deps arbitrary: tx) (simp_all add: ccc_views(5)[OF assms])

lemma updateFeedCells_Inr:
  assumes "updateFeedCells C K client d feedTypes update = Inr (tx, moves)"
  shows "\<exists>u cells cc tx1 deps sel blob. 0 < length feedTypes \<and> length feedTypes \<le> MAX_FEEDS_PER_TX \<and>
    decode_update update = Inr u \<and> read_feed_cells K client feedTypes = Inr cells \<and> check_batch cells = Inr () \<and>
    findCommitteeCellByHash K client d (f_publisherSetTypeHash (lv_data (snd (hd cells)))) = Inr cc \<and>
    efold (move_feed C K d u (lv_data cc)) (lib_empty K, [], []) cells = Inr (tx1, deps, moves) \<and>
    selectFeeds u (map (\<lambda>c. f_feedId (lv_data (snd c))) cells) = Inr sel \<and> encodePriceUpdate sel = Inr blob \<and>
    tx = setInputType K (foldl (lib_addCellDep K) tx1 (map snd deps @ [lv_cellDep cc])) 0 (u32le (int (length blob)) @ blob)"
proof -
  have l: "0 < length feedTypes" "length feedTypes \<le> MAX_FEEDS_PER_TX"
    using assms unfolding updateFeedCells_def by (simp_all split: if_splits)
  from assms[unfolded updateFeedCells_def ebind_eq_Inr] l show ?thesis
    by (simp add: encodeFeedWitness_def concatBytes_def Let_def ebind_eq_Inr split_paired_Ex del: foldl_append) metis
qed

text \<open>What the contract asks of one cell of the batch: the blob of the leader verifies for its feed, the price is
  newer, and the new data is the verified price on the old data.\<close>

definition blob_moves :: "crypto \<Rightarrow> PublisherSetData \<Rightarrow> bytes \<Rightarrow> Cell \<Rightarrow> CellOutput \<times> hex \<Rightarrow> bool" where
  "blob_moves C data blob cell out \<longleftrightarrow> (\<exists>before v bs.
    decodePriceFeedData (HexStr (cl_outputData cell)) = Inr before \<and>
    verifyPriceUpdate C (Blob (Raw blob)) (f_feedId before) (f_publisherSetTypeHash before) data = Inr v \<and>
    f_publishTimeMs before < h_publishTimeMs (v_header v) \<and>
    encodePriceFeedData (applyVerifiedPrice before v) = Inr bs \<and> out = (cl_cellOutput cell, bytesToHex bs))"

lemma batch_outputs:
  assumes r: "list_all2 (\<lambda>s c. fst c = s \<and> ch_cellsByType client s = [lv_cell (snd c)] \<and>
      decodePriceFeedData (HexStr (cl_outputData (lv_cell (snd c)))) = Inr (lv_data (snd c))) feedTypes cells"
    and m: "list_all2 (moved C u data) cells ms"
    and u: "h_leafCount (u_header u) \<noteq> 0" "selectFeeds u (map (\<lambda>c. f_feedId (lv_data (snd c))) cells) = Inr sel"
      "encodePriceUpdate sel = Inr blob"
  shows "list_all2 (blob_moves C data blob) (map (\<lambda>c. lv_cell (snd c)) cells) (map2 cell_after cells ms)"
proof -
  have "blob_moves C data blob (lv_cell (snd (cells ! i))) (cell_after (cells ! i) (ms ! i))" if i: "i < length cells" for i
  proof -
    let ?c = "cells ! i" and ?m = "ms ! i"
    have mv: "moved C u data ?c ?m" using list_all2_nthD[OF m i] .
    then obtain bs where bs: "encodePriceFeedData (fv_after ?m) = Inr bs" by (auto simp: moved_def)
    have "f_feedId (fv_before ?m) \<in> set (map (\<lambda>c. f_feedId (lv_data (snd c))) cells)"
      using mv i by (auto simp: moved_def)
    from selected_blob_verifies[OF u this] mv obtain v' where
      "verifyPriceUpdate C (Blob (Raw blob)) (f_feedId (fv_before ?m)) (f_publisherSetTypeHash (fv_before ?m)) data = Inr v'"
      "h_publishTimeMs (v_header v') = h_publishTimeMs (v_header (fv_verified ?m))"
      "\<forall>d. applyVerifiedPrice d v' = applyVerifiedPrice d (fv_verified ?m)" unfolding moved_def by blast
    moreover have "decodePriceFeedData (HexStr (cl_outputData (lv_cell (snd ?c)))) = Inr (fv_before ?m)"
      using r i mv by (auto simp: list_all2_conv_all_nth moved_def)
    ultimately show ?thesis
      unfolding blob_moves_def using mv bs
      by (intro exI[of _ "fv_before ?m"] exI[of _ v'] exI[of _ bs]) (auto simp: moved_def cell_after_def)
  qed
  then show ?thesis using list_all2_lengthD[OF m] by (simp add: list_all2_conv_all_nth)
qed

lemma decoded_leafCount: "decodePriceUpdate b = Inr u \<Longrightarrow> h_leafCount (u_header u) \<noteq> 0"
proof -
  assume "decodePriceUpdate b = Inr u"
  then obtain raw where "decodePriceUpdate (Raw raw) = Inr u" by (auto simp: decodePriceUpdate_def ebind_eq_Inr)
  then show ?thesis by (rule update_codec.dec_ok)
qed

section \<open>When a single update is built\<close>

lemma applied_encodes:
  assumes "verifyPriceUpdate C u feed committee data = Inr v" "decodePriceFeedData b = Inr before"
  shows "\<exists>bs. encodePriceFeedData (applyVerifiedPrice before v) = Inr bs"
proof -
  from assms(1) obtain m h where e: "encodePriceMessage (v_message v) = Inr m" "encodePriceUpdateHeader (v_header v) = Inr h"
    by (auto simp: verifyPriceUpdate_iff entry_accepted_def priceUpdateSigningHash_def ebind_eq_Inr simp del: filter_eq_Cons_iff)
  from assms(2) obtain raw where "decodePriceFeedData (Raw raw) = Inr before" by (auto simp: decodePriceFeedData_def ebind_eq_Inr)
  from feed_codec.enc_dec[OF this] have "encodePriceFeedData before = Inr raw" .
  with e show ?thesis
    by (auto simp: encodeMessage_iff encodeHeader_iff encodeFeed_iff applyVerifiedPrice_def Let_def)
qed

lemma update_builds:
  assumes f: "getFeedCell K client feedType = Inr (Some feed)"
    and c: "findCommitteeCellByHash K client d (f_publisherSetTypeHash (lv_data feed)) = Inr cc"
    and code: "cell_type feed = Inr type" "codeRefFor d PriceFeedType (sc_codeHash type) = Inr code"
    and u: "decodePriceUpdate blob = Inr u"
    and v: "verifyPriceUpdate C (Decoded u) (f_feedId (lv_data feed)) (f_publisherSetTypeHash (lv_data feed)) (lv_data cc) = Inr v"
    and t: "f_publishTimeMs (lv_data feed) < h_publishTimeMs (v_header v)"
  shows "\<exists>tx m. updateFeedCell C K client d feedType (Blob blob) = Inr (tx, m) \<and> fv_after m = applyVerifiedPrice (lv_data feed) v"
proof -
  obtain bs where bs: "encodePriceFeedData (applyVerifiedPrice (lv_data feed) v) = Inr bs"
    using applied_encodes[OF v getFeedCell_Some(1)[OF f]] by blast
  have "\<exists>e \<in> set (u_entries u). toLowerCase (m_feedId (e_message e)) = toLowerCase (f_feedId (lv_data feed))"
  proof -
    obtain e where "filter (\<lambda>e. toLowerCase (m_feedId (e_message e)) = toLowerCase (f_feedId (lv_data feed))) (u_entries u) = [e]"
      using v by (auto simp: verifyPriceUpdate_iff simp del: filter_eq_Cons_iff)
    from filter_eq_ConsD[OF this] show ?thesis by auto
  qed
  then obtain sel where sel: "selectFeeds u [f_feedId (lv_data feed)] = Inr sel" by (auto simp: selectFeeds_def Let_def filter_empty_conv)
  from selected_encodes[OF u sel] obtain ub where ub: "encodePriceUpdate sel = Inr ub" by blast
  have "check_batch [(feedType, feed)] = Inr ()" using code by (simp add: check_batch_def code_key_def)
  then have "updateFeedCells C K client d [feedType] (Blob blob) = Inr
      (setInputType K (foldl (lib_addCellDep K) (lib_addOutput K (lib_addInput K (lib_empty K)
         \<lparr>ci_previousOutput = cl_outPoint (lv_cell feed), ci_since = 0\<rparr>) (cl_cellOutput (lv_cell feed)) (bytesToHex bs))
         [code_cellDep code, lv_cellDep cc]) 0 (u32le (int (length ub)) @ ub),
       [\<lparr>fv_feedType = feedType, fv_verified = v, fv_before = lv_data feed, fv_after = applyVerifiedPrice (lv_data feed) v\<rparr>])"
    using t f c code u v bs sel ub
    by (simp add: updateFeedCells_def MAX_FEEDS_PER_TX_def read_feed_cells_def required_def move_feed_def Let_def
        encodeFeedWitness_def concatBytes_def)
  then show ?thesis by (simp add: updateFeedCell_def)
qed

section \<open>A concrete chain\<close>

definition demo_script :: "byte \<Rightarrow> Script" where
  "demo_script b = \<lparr>sc_codeHash = demo_id b, sc_hashType = ''data2'', sc_args = demo_id b\<rparr>"

definition demo_cell :: "byte \<Rightarrow> bytes \<Rightarrow> Cell" where
  "demo_cell b data = \<lparr>cl_outPoint = \<lparr>op_txHash = demo_id b, op_index = 0\<rparr>,
    cl_cellOutput = \<lparr>co_capacity = 1, co_lock = demo_script 7, co_type = Some (demo_script b)\<rparr>, cl_outputData = bytesToHex data\<rparr>"

definition demo_chain :: "bytes \<Rightarrow> bytes \<Rightarrow> Client" where
  "demo_chain feedData committeeData = \<lparr>ch_cellsByType = (\<lambda>s. if s = demo_script 2 then [demo_cell 2 feedData]
      else if s = demo_script 3 then [demo_cell 3 committeeData] else []),
    ch_cellsByPrefix = (\<lambda>s. []), ch_cellsByLock = (\<lambda>s. []), ch_tip = (1000, demo_id 5), ch_feeRate = 1000\<rparr>"

definition demo_oracle :: LeanOracleDeployment where
  "demo_oracle = demo_deployment\<lparr>dp_committees := [(''majors'', \<lparr>cm_typeScript = demo_script 3,
    cm_typeHash = i_publisherSetTypeHash demo_single\<rparr>)]\<rparr>"

definition demo_before :: PriceFeedData where
  "demo_before = uninitializedPriceFeed (m_feedId (demo_message 1)) (i_publisherSetTypeHash demo_single)"

lemma demo_committee_bytes: "\<exists>bs. decodePublisherSetData (Raw bs) = Inr demo_rotated"
proof -
  have "\<exists>bs. encodePublisherSetData demo_rotated = Inr bs"
    by (simp_all add: encodePublisherSetData_def demo_rotated_def demo_committee_def writeSet_def writePrevious_def int_ranges
        PUBLISHER_SET_VERSION_def)
  moreover have "norm_data demo_rotated = demo_rotated"
    by (simp add: norm_data_def norm_set_def norm_previous_def demo_rotated_def demo_committee_def demo_set_def demo_key_def)
  ultimately show ?thesis using demo_valid(2) by (auto simp: set_codec.dec_iff)
qed

lemma demo_feed_bytes: "\<exists>bs. decodePriceFeedData (Raw bs) = Inr demo_before"
proof -
  have "\<exists>bs. encodePriceFeedData demo_before = Inr bs"
    by (simp add: encodeFeed_iff demo_before_def uninitializedPriceFeed_def demo_message_def demo_single_def demo_input_def int_ranges)
  moreover have "norm_feed demo_before = demo_before"
    by (simp add: norm_feed_def demo_before_def uninitializedPriceFeed_def demo_message_def demo_single_def demo_input_def)
  ultimately show ?thesis by (auto simp: feed_codec.dec_iff)
qed

lemma demo_id_inject: "demo_id a = demo_id b \<longleftrightarrow> a = b"
  by (auto simp: demo_id_def bytesToHex_inject)

lemma demo_batch:
  "\<exists>client blob tx m. updateFeedCells demo_crypto demo_ccc client demo_oracle [demo_script 2] (Blob blob) = Inr (tx, [m]) \<and>
    cells_funded client"
proof -
  obtain cb fb where b: "decodePublisherSetData (Raw cb) = Inr demo_rotated" "decodePriceFeedData (Raw fb) = Inr demo_before"
    using demo_committee_bytes demo_feed_bytes by blast
  let ?client = "demo_chain fb cb"
  let ?live = "\<lambda>c d. \<lparr>lv_data = d, lv_cell = c, lv_outPoint = cl_outPoint c,
    lv_cellDep = \<lparr>dep_outPoint = cl_outPoint c, dep_depType = ''code''\<rparr>, lv_typeHash = lib_scriptHash demo_ccc (the (co_type (cl_cellOutput c)))\<rparr>"
  have hex: "decodePublisherSetData (HexStr (bytesToHex cb)) = Inr demo_rotated" "decodePriceFeedData (HexStr (bytesToHex fb)) = Inr demo_before"
    using b by (simp_all add: decodePublisherSetData_def decodePriceFeedData_def)
  have ne: "demo_script 3 \<noteq> demo_script 2" by (simp add: demo_script_def demo_id_inject)
  have feed: "getFeedCell demo_ccc ?client (demo_script 2) = Inr (Some (?live (demo_cell 2 fb) demo_before))"
    using hex by (simp add: getFeedCell_def only_cell_def demo_chain_def live_cell_def live_def demo_cell_def)
  have cc: "findCommitteeCellByHash demo_ccc ?client demo_oracle (f_publisherSetTypeHash demo_before) = Inr (?live (demo_cell 3 cb) demo_rotated)"
    using hex ne by (simp add: findCommitteeCellByHash_def demo_oracle_def demo_before_def uninitializedPriceFeed_def required_def
        findCommitteeCell_def only_cell_def demo_chain_def live_cell_def live_def demo_cell_def)
  have code: "codeRefFor demo_oracle PriceFeedType (sc_codeHash (demo_script 2)) = Inr (demo_code 2 2)"
    by (simp add: codeRefFor_def findCodeRef_def all_codes_def demo_oracle_def demo_deployment_def demo_code_def version_ref_def
        demo_version_def demo_script_def)
  obtain bs u v where u: "decodePriceUpdate (Raw bs) = Inr u"
    "verifyPriceUpdate demo_crypto (Blob (Raw bs)) (f_feedId demo_before) (f_publisherSetTypeHash demo_before) demo_rotated = Inr v"
    "h_publishTimeMs (v_header v) = 2000"
    using demo_update by (auto simp: demo_before_def uninitializedPriceFeed_def)
  then have "verifyPriceUpdate demo_crypto (Decoded u) (f_feedId demo_before) (f_publisherSetTypeHash demo_before) demo_rotated = Inr v"
    by (simp add: verifyPriceUpdate_def)
  moreover have "cell_type (?live (demo_cell 2 fb) demo_before) = Inr (demo_script 2)" by (simp add: cell_type_def demo_cell_def)
  moreover have "f_publishTimeMs demo_before < h_publishTimeMs (v_header v)" using u(3) by (simp add: demo_before_def uninitializedPriceFeed_def)
  ultimately obtain tx m where
    "updateFeedCell demo_crypto demo_ccc ?client demo_oracle (demo_script 2) (Blob (Raw bs)) = Inr (tx, m)"
    using update_builds[OF feed, of demo_oracle] cc code u(1) by fastforce
  then obtain ms where r: "updateFeedCells demo_crypto demo_ccc ?client demo_oracle [demo_script 2] (Blob (Raw bs)) = Inr (tx, m # ms)"
    by (auto simp: updateFeedCell_def ebind_eq_Inr neq_Nil_conv split: list.splits)
  then have "ms = []" by (auto simp: updateFeedCells_def read_feed_cells_def ebind_eq_Inr move_feed_def Let_def split: if_splits)
  moreover have "cells_funded ?client" by (simp add: cells_funded_def demo_chain_def demo_cell_def)
  ultimately show ?thesis using r by blast
qed

section \<open>Properties\<close>



end
