(* ===== verification/Committee_Tx.thy ===== *)
theory Committee_Tx
  imports Feed_Tx
begin

unbundle bit_operations_syntax

text \<open>
  \<open>packages/sdk/src/tx/committee.ts\<close>: creating a committee cell and applying a governance operation to it.
  Lemmas: the \<open>since\<close> of a routine rotation encodes the interval, and what a governance transaction spends,
  writes and carries.
\<close>

definition DEFAULT_MIN_ROTATION_INTERVAL_S :: int where
  "DEFAULT_MIN_ROTATION_INTERVAL_S = 86400"

definition relativeTimestampSince :: "int \<Rightarrow> int result" where
  "relativeTimestampSince seconds =
    (if seconds < 0 \<or> seconds > SINCE_VALUE_MASK then Inl (RangeError ''since value does not fit in 56 bits'')
     else Inr (SINCE_RELATIVE_TIMESTAMP OR seconds))"

section \<open>Creating a committee\<close>

definition bootstrapCommittee ::
  "crypto \<Rightarrow> 'tx ccc \<Rightarrow> 'tx Signer \<Rightarrow> LeanOracleDeployment \<Rightarrow> PublisherSetData \<Rightarrow> Script option \<Rightarrow>
    ('tx \<times> Script \<times> hex) result" where
  "bootstrapCommittee C K signer d data lock0 =
    ebind (if governanceNonce data \<noteq> 0 \<or> setIndex (currentSet data) \<noteq> 0 \<or> previousOf data \<noteq> None then Inr False
           else isValidPublisherSetData data) (\<lambda>ok.
    if \<not> ok then Inl (Failure ''a new committee needs nonce 0, set index 0, no previous set, a positive rotation interval and a valid key set'')
    else
      let lock = (case lock0 of
          Some l \<Rightarrow> l
        | None \<Rightarrow> (case dp_alwaysSuccessLock d of
              Some open \<Rightarrow> \<lparr>sc_codeHash = code_codeHash open, sc_hashType = ''data2'', sc_args = ''0x''\<rparr>
            | None \<Rightarrow> sg_script signer))
      in
      ebind (plainInputOf signer) (\<lambda>firstInput.
      ebind (computeTypeId C K firstInput 0) (\<lambda>typeId.
      ebind (publisherSetTypeScript d typeId) (\<lambda>typeScript.
      ebind (encodePublisherSetData data) (\<lambda>bytes.
      let dataHex = bytesToHex bytes;
          tx = lib_addInput K (lib_empty K) firstInput;
          tx = lib_addOutput K tx \<lparr>co_capacity = occupiedCapacity K lock (Some typeScript) dataHex, co_lock = lock,
                 co_type = Some typeScript\<rparr> dataHex;
          tx = lib_addCellDep K tx (code_cellDep (dp_publisherSetType d))
      in Inr (tx, typeScript, lib_scriptHash K typeScript))))))"

section \<open>Governing a committee\<close>

text \<open>The output keeps the cell and grows it when the new data needs more capacity.\<close>

definition grown_output :: "'tx ccc \<Rightarrow> CellOutput \<Rightarrow> hex \<Rightarrow> CellOutput" where
  "grown_output K out dataHex =
    (let needed = occupiedCapacity K (co_lock out) (co_type out) dataHex
     in if co_capacity out < needed then out\<lparr>co_capacity := needed\<rparr> else out)"

text \<open>The header dep of a routine rotation, if the switch is not too far ahead of the tip.\<close>

definition add_tip :: "'tx ccc \<Rightarrow> Client \<Rightarrow> int \<Rightarrow> PublisherSetData \<Rightarrow> 'tx \<Rightarrow> 'tx result" where
  "add_tip K client operation next' tx =
    (case previousOf next' of
      Some p \<Rightarrow>
        if needsRotationInterval operation then
          let (timestamp, hash) = ch_tip client in
          if untilMs p > timestamp + MAX_UNTIL_AHEAD_MS
          then Inl (Failure ''previous.untilMs is too far past the chain tip'')
          else Inr (lib_addHeaderDep K tx hash)
        else Inr tx
    | None \<Rightarrow> Inr tx)"

definition governCommittee ::
  "'tx ccc \<Rightarrow> Client \<Rightarrow> LeanOracleDeployment \<Rightarrow> Script \<Rightarrow> int \<Rightarrow> PublisherSetData \<Rightarrow> SignatureBundle \<Rightarrow>
    SignatureBundle option \<Rightarrow> 'tx result" where
  "governCommittee K client d committee operation next' authorization pop =
    ebind (required ''committee cell not found'' (findCommitteeCell K client committee)) (\<lambda>lv.
    case transitionError (lv_data lv) next' operation of
      Some reason \<Rightarrow> Inl (Failure (''invalid committee transition: '' @ reason))
    | None \<Rightarrow>
        let needsPop = needsProofOfPossession operation in
        if needsPop \<noteq> (pop \<noteq> None) then
          Inl (Failure (if needsPop then ''a rotation needs a proof of possession from every new key''
            else ''only rotations carry a proof of possession''))
        else
          ebind (encodePublisherSetData next') (\<lambda>bytes.
          let dataHex = bytesToHex bytes in
          ebind (if needsRotationInterval operation then relativeTimestampSince (minRotationIntervalS (lv_data lv)) else Inr 0) (\<lambda>since.
          let tx = lib_addInput K (lib_empty K) \<lparr>ci_previousOutput = cl_outPoint (lv_cell lv), ci_since = since\<rparr>;
              tx = lib_addOutput K tx (grown_output K (cl_cellOutput (lv_cell lv)) dataHex) dataHex
          in
          ebind (add_tip K client operation next' tx) (\<lambda>tx.
          ebind (cell_type lv) (\<lambda>type.
          ebind (codeRefFor d PublisherSetType (sc_codeHash type)) (\<lambda>code.
          let tx = lib_addCellDep K tx (code_cellDep code);
              tx = (case findCodeRef d AlwaysSuccessLock (sc_codeHash (co_lock (cl_cellOutput (lv_cell lv)))) of
                  None \<Rightarrow> tx | Some openLock \<Rightarrow> lib_addCellDep K tx (code_cellDep openLock))
          in
          ebind (case pop of None \<Rightarrow> Inr [] | Some b \<Rightarrow> encodeSignatureBundle b) (\<lambda>popBytes.
          ebind (encodeSignatureBundle authorization) (\<lambda>authBytes.
          Inr (setInputType K tx 0 (concatBytes [[word_of_int operation], authBytes, popBytes]))))))))))"

section \<open>The since of a routine rotation\<close>

lemma push_take_disjoint: "push_bit n a AND take_bit n b = (0 :: int)"
  by (rule bit_eqI) (auto simp: bit_simps)

lemma since_value:
  assumes "relativeTimestampSince seconds = Inr since"
  shows "0 \<le> seconds \<and> seconds < 2 ^ 56 \<and> since = 2 ^ 63 + 2 ^ 62 + seconds"
proof -
  have s: "0 \<le> seconds" "seconds < 2 ^ 56" "since = SINCE_RELATIVE_TIMESTAMP OR seconds"
    using assms by (auto simp: relativeTimestampSince_def SINCE_VALUE_MASK_def split: if_splits)
  have "SINCE_RELATIVE_TIMESTAMP AND seconds = 0"
  proof -
    have "take_bit 62 seconds = seconds" using s(1,2) by (simp add: take_bit_int_eq_self_iff)
    moreover have "SINCE_RELATIVE_TIMESTAMP = push_bit 62 3" by (simp add: SINCE_RELATIVE_TIMESTAMP_def push_bit_eq_mult)
    ultimately show ?thesis using push_take_disjoint[of 62 3 seconds] by simp
  qed
  then have "SINCE_RELATIVE_TIMESTAMP OR seconds = SINCE_RELATIVE_TIMESTAMP + seconds" by (rule disjunctive_add_eq_or[symmetric])
  then show ?thesis using s by (simp add: SINCE_RELATIVE_TIMESTAMP_def)
qed

section \<open>What a governance transaction holds\<close>

lemma grown_output_facts:
  "\<exists>c. grown_output K out dataHex = out\<lparr>co_capacity := c\<rparr> \<and> co_capacity out \<le> c \<and>
    occupiedCapacity K (co_lock out) (co_type out) dataHex \<le> c"
  by (cases "co_capacity out < occupiedCapacity K (co_lock out) (co_type out) dataHex")
    (auto simp: grown_output_def Let_def intro: exI[of _ "co_capacity out"] exI[of _ "occupiedCapacity K (co_lock out) (co_type out) dataHex"])

lemma add_tip_Inr:
  assumes "add_tip K client operation next' tx = Inr tx'" "ccc_ok K"
  shows "\<exists>hs. lib_view K tx' = (lib_view K tx)\<lparr>vw_headerDeps := vw_headerDeps (lib_view K tx) @ hs\<rparr> \<and>
    (needsRotationInterval operation \<longrightarrow> (\<forall>p. previousOf next' = Some p \<longrightarrow>
      hs = [snd (ch_tip client)] \<and> untilMs p \<le> fst (ch_tip client) + MAX_UNTIL_AHEAD_MS))"
proof (cases "needsRotationInterval operation \<and> previousOf next' \<noteq> None")
  case True
  then show ?thesis
    using assms(1) by (intro exI[of _ "[snd (ch_tip client)]"])
      (auto simp: add_tip_def ccc_views[OF assms(2)] split: option.splits if_splits prod.splits)
next
  case False
  then have "tx' = tx" using assms(1) by (auto simp: add_tip_def split: option.splits if_splits prod.splits)
  then show ?thesis using False by (intro exI[of _ "[]"]) auto
qed

text \<open>The bytes the contract reads from the witness: the operation, the authorization, the proofs of possession.\<close>

definition witness_holds :: "bytes \<Rightarrow> int \<Rightarrow> SignatureBundle \<Rightarrow> SignatureBundle option \<Rightarrow> bool" where
  "witness_holds bs operation authorization pop \<longleftrightarrow> (\<exists>rest used. bs = word_of_int operation # rest \<and>
    decodeSignatureBundlePrefix rest = Inr (map norm_signature authorization, used) \<and>
    (case pop of None \<Rightarrow> drop used rest = []
     | Some b \<Rightarrow> decodeSignatureBundle (Raw (drop used rest)) = Inr (map norm_signature b)))"

lemma witness_bytes:
  assumes "encodeSignatureBundle authorization = Inr a" "(case pop of None \<Rightarrow> Inr [] | Some b \<Rightarrow> encodeSignatureBundle b) = Inr p"
  shows "witness_holds (concatBytes [[word_of_int operation], a, p]) operation authorization pop"
  unfolding witness_holds_def concatBytes_def
  by (intro exI[of _ "a @ p"] exI[of _ "length a"])
    (use assms in \<open>auto simp: decode_prefix_encode bundle_codec.dec_enc split: option.splits\<close>)

lemma governCommittee_Inr:
  assumes "governCommittee K client d committee operation next' authorization pop = Inr tx"
  obtains lv :: "PublisherSetData LiveCell" and bs since tx1 and code :: CodeRef and a p where
    "findCommitteeCell K client committee = Inr (Some lv)"
    "transitionError (lv_data lv) next' operation = None"
    "needsProofOfPossession operation = (pop \<noteq> None)"
    "encodePublisherSetData next' = Inr bs"
    "(if needsRotationInterval operation then relativeTimestampSince (minRotationIntervalS (lv_data lv)) else Inr 0) = Inr since"
    "add_tip K client operation next' (lib_addOutput K (lib_addInput K (lib_empty K)
        \<lparr>ci_previousOutput = cl_outPoint (lv_cell lv), ci_since = since\<rparr>)
        (grown_output K (cl_cellOutput (lv_cell lv)) (bytesToHex bs)) (bytesToHex bs)) = Inr tx1"
    "encodeSignatureBundle authorization = Inr a" "(case pop of None \<Rightarrow> Inr [] | Some b \<Rightarrow> encodeSignatureBundle b) = Inr p"
    "tx = setInputType K (case findCodeRef d AlwaysSuccessLock (sc_codeHash (co_lock (cl_cellOutput (lv_cell lv)))) of
        None \<Rightarrow> lib_addCellDep K tx1 (code_cellDep code)
      | Some l \<Rightarrow> lib_addCellDep K (lib_addCellDep K tx1 (code_cellDep code)) (code_cellDep l)) 0
      (concatBytes [[word_of_int operation], a, p])"
proof -
  obtain lv where lv: "findCommitteeCell K client committee = Inr (Some lv)"
    using assms by (auto simp: governCommittee_def required_def ebind_eq_Inr split: option.splits)
  have ok: "transitionError (lv_data lv) next' operation = None" "needsProofOfPossession operation = (pop \<noteq> None)"
    using assms lv by (auto simp: governCommittee_def required_def Let_def split: option.splits if_splits)
  have c: "(needsProofOfPossession operation \<noteq> (pop \<noteq> None)) = False" using ok(2) by blast
  from assms[unfolded governCommittee_def required_def lv ebind_simps option.case ok(1) Let_def c if_False ebind_eq_Inr sum.inject]
  show ?thesis by (elim exE conjE) (rule that[OF lv ok]; (assumption | rule sym, assumption))
qed

lemma plainInputOf_Inr:
  "plainInputOf signer = Inr i \<Longrightarrow> \<exists>c \<in> set (ch_cellsByLock (sg_client signer) (sg_script signer)).
    co_type (cl_cellOutput c) = None \<and> cl_outputData c = ''0x'' \<and> i = \<lparr>ci_previousOutput = cl_outPoint c, ci_since = 0\<rparr>"
  by (auto simp: plainInputOf_def find_Some_iff split: option.splits)

text \<open>A new committee: the first state of a history, under a Type ID of the first input.\<close>

lemma bootstrap_sound:
  assumes "bootstrapCommittee C K signer d data lock0 = Inr (tx, typeScript, typeHash)" and K: "ccc_ok K"
  shows "\<exists>i typeId lock bs capacity. vw_inputs (lib_view K tx) = [i] \<and> plainInputOf signer = Inr i \<and>
    computeTypeId C K i 0 = Inr typeId \<and> publisherSetTypeScript d typeId = Inr typeScript \<and>
    vw_outputs (lib_view K tx) = [(\<lparr>co_capacity = capacity, co_lock = lock, co_type = Some typeScript\<rparr>, bytesToHex bs)] \<and>
    capacity = occupiedCapacity K lock (Some typeScript) (bytesToHex bs) \<and>
    decodePublisherSetData (Raw bs) = Inr (norm_data data) \<and> history data 0 data \<and> governanceNonce data = 0"
proof -
  have data: "governanceNonce data = 0" "isValidPublisherSetData data = Inr True"
    using assms(1) by (auto simp: bootstrapCommittee_def ebind_eq_Inr split: if_splits)
  from assms(1) obtain i typeId bs lock where b: "plainInputOf signer = Inr i" "computeTypeId C K i 0 = Inr typeId"
    "publisherSetTypeScript d typeId = Inr typeScript" "encodePublisherSetData data = Inr bs"
    "tx = lib_addCellDep K (lib_addOutput K (lib_addInput K (lib_empty K) i)
      \<lparr>co_capacity = occupiedCapacity K lock (Some typeScript) (bytesToHex bs), co_lock = lock, co_type = Some typeScript\<rparr> (bytesToHex bs))
      (code_cellDep (dp_publisherSetType d))"
    by (auto simp: bootstrapCommittee_def ebind_eq_Inr Let_def split: if_splits)
  have "0 < occupiedCapacity K lock (Some typeScript) (bytesToHex bs)" by (rule occupiedCapacity_pos[OF K]) simp
  then have "vw_inputs (lib_view K tx) = [i]" "vw_outputs (lib_view K tx) =
      [(\<lparr>co_capacity = occupiedCapacity K lock (Some typeScript) (bytesToHex bs), co_lock = lock, co_type = Some typeScript\<rparr>, bytesToHex bs)]"
    by (simp_all add: b(5) ccc_views[OF K])
  moreover have "decodePublisherSetData (Raw bs) = Inr (norm_data data)" by (rule set_codec.dec_enc[OF data(2) b(4)])
  moreover have "history data 0 data" by (rule history.start[OF data(2)])
  ultimately show ?thesis using b data by blast
qed

text \<open>
  The local check is \<open>transitionError\<close> alone: it accepts a next state without a single key, which no longer
  decodes, so the contract rejects the transaction that carries it.
\<close>

lemma undecodable_next_accepted:
  defines "bad \<equiv> demo_rotated\<lparr>currentSet := \<lparr>setIndex = 2, pubkeys = []\<rparr>\<rparr>"
  shows "transitionError demo_committee bad OP_ROTATE = None" and "isValidPublisherSetData bad = Inr False"
    and "encodePublisherSetData bad = Inr bs \<Longrightarrow> decodePublisherSetData (Raw bs) \<noteq> Inr x"
proof -
  show "transitionError demo_committee bad OP_ROTATE = None"
    by (simp add: transitionError_def bad_def demo_committee_def demo_rotated_def sameSet_def)
  show v: "isValidPublisherSetData bad = Inr False"
    by (simp add: isValidPublisherSetData_def bad_def demo_committee_def demo_rotated_def isValidPublisherSet_def)
  show "decodePublisherSetData (Raw bs) \<noteq> Inr x" if e: "encodePublisherSetData bad = Inr bs"
  proof
    assume x: "decodePublisherSetData (Raw bs) = Inr x"
    have "run_reader (rbind readPublisherSetData (\<lambda>d. rbind r_end (\<lambda>_. rret d))) bs ''PublisherSetData'' = Inr (norm_data bad)"
      by (rule reads_end[OF reads_data[OF e]])
    with x have "isValidPublisherSetData (norm_data bad) = Inr True" by (auto simp: decode_iff_read)
    moreover have "isValidPublisherSetData (norm_data bad) = Inr False" by (rule valid_norm_data[OF v])
    ultimately show False by simp
  qed
qed

section \<open>A concrete rotation\<close>

lemma demo_governed:
  "\<exists>client tx. governCommittee demo_ccc client demo_oracle (demo_script 3) OP_ROTATE demo_rotated demo_bundle (Some demo_bundle) = Inr tx \<and>
    cells_funded client"
proof -
  have "\<exists>bs. encodePublisherSetData demo_committee = Inr bs" "\<exists>bs. encodePublisherSetData demo_rotated = Inr bs"
    by (simp_all add: encodePublisherSetData_def demo_rotated_def demo_committee_def writeSet_def writePrevious_def int_ranges
        PUBLISHER_SET_VERSION_def)
  then obtain cb nb where b: "encodePublisherSetData demo_committee = Inr cb" "encodePublisherSetData demo_rotated = Inr nb" by blast
  obtain sb where sb: "encodeSignatureBundle demo_bundle = Inr sb"
    using accepted_bundle_encodes[OF demo_bundle_verified[of "[]" 1]] by auto
  let ?client = "demo_chain [] cb"
  have "decodePublisherSetData (Raw cb) = Inr (norm_data demo_committee)" by (rule set_codec.dec_enc[OF demo_valid(1) b(1)])
  moreover have "norm_data demo_committee = demo_committee"
    by (simp add: norm_data_def norm_set_def demo_committee_def demo_set_def demo_key_def)
  ultimately have dec: "decodePublisherSetData (HexStr (bytesToHex cb)) = Inr demo_committee" by (simp add: decodePublisherSetData_def)
  have ne: "demo_script 3 \<noteq> demo_script 2" by (simp add: demo_script_def demo_id_inject)
  have code: "codeRefFor demo_oracle PublisherSetType (sc_codeHash (demo_script 3)) = Inr (demo_code 3 1)"
    by (simp add: codeRefFor_def findCodeRef_def all_codes_def demo_oracle_def demo_deployment_def demo_code_def version_ref_def
        demo_version_def demo_script_def)
  have t: "transitionError demo_committee demo_rotated OP_ROTATE = None"
    by (simp add: transitionError_def demo_committee_def demo_rotated_def sameSet_def)
  have live: "findCommitteeCell demo_ccc ?client (demo_script 3) = Inr (Some \<lparr>lv_data = demo_committee, lv_cell = demo_cell 3 cb,
      lv_outPoint = cl_outPoint (demo_cell 3 cb), lv_cellDep = \<lparr>dep_outPoint = cl_outPoint (demo_cell 3 cb), dep_depType = ''code''\<rparr>,
      lv_typeHash = lib_scriptHash demo_ccc (demo_script 3)\<rparr>)"
    using dec ne by (simp add: findCommitteeCell_def only_cell_def demo_chain_def live_cell_def live_def demo_cell_def)
  have since: "relativeTimestampSince (minRotationIntervalS demo_committee) = Inr (SINCE_RELATIVE_TIMESTAMP OR 86400)"
    by (simp add: relativeTimestampSince_def demo_committee_def SINCE_VALUE_MASK_def)
  have prev: "\<exists>p. previousOf demo_rotated = Some p \<and> untilMs p = 9000" by (simp add: demo_rotated_def)
  then have tip: "add_tip demo_ccc ?client OP_ROTATE demo_rotated tx = Inr (lib_addHeaderDep demo_ccc tx (demo_id 5))" for tx
    by (auto simp: add_tip_def needsRotationInterval_def demo_chain_def MAX_UNTIL_AHEAD_MS_def)
  have "\<exists>tx. governCommittee demo_ccc ?client demo_oracle (demo_script 3) OP_ROTATE demo_rotated demo_bundle (Some demo_bundle) = Inr tx"
    using code by (simp add: governCommittee_def required_def live t needsProofOfPossession_def needsRotationInterval_def b(2) since
        Let_def tip cell_type_def demo_cell_def sb)
  moreover have "cells_funded ?client" by (simp add: cells_funded_def demo_chain_def demo_cell_def)
  ultimately show ?thesis by blast
qed

lemma governed_witness:
  assumes "ccc_ok K" "tx = setInputType K (case l of
      None \<Rightarrow> lib_addCellDep K tx1 dep | Some c \<Rightarrow> lib_addCellDep K (lib_addCellDep K tx1 dep) (code_cellDep c)) 0 witness"
  shows "\<exists>w. vw_witnesses (lib_view K tx) 0 = Some w \<and> wa_inputType w = Some (bytesToHex witness) \<and>
    vw_inputs (lib_view K tx) = vw_inputs (lib_view K tx1) \<and> vw_outputs (lib_view K tx) = vw_outputs (lib_view K tx1) \<and>
    vw_headerDeps (lib_view K tx) = vw_headerDeps (lib_view K tx1)"
proof -
  let ?tx = "case l of None \<Rightarrow> lib_addCellDep K tx1 dep | Some c \<Rightarrow> lib_addCellDep K (lib_addCellDep K tx1 dep) (code_cellDep c)"
  have "\<exists>deps. lib_view K ?tx = (lib_view K tx1)\<lparr>vw_cellDeps := deps\<rparr>"
    by (cases l) (auto simp: ccc_views(5)[OF assms(1)])
  then show ?thesis using setInputType_view[OF assms(1), of ?tx 0 witness] unfolding assms(2) by auto
qed

section \<open>Properties\<close>

text \<open>Claim C24: a transaction that \<open>governCommittee\<close> builds spends the live committee cell and puts it back with its lock
  and type, enough capacity, and the new data, which the transition rules accept. A routine rotation waits
  for the committee's interval (a relative timestamp) and carries the tip, which the switch is at most an hour
  ahead of. The witness reads back as the operation, the authorization and, for a rotation only, the proofs of possession.
  (Cells on chain have a capacity.)\<close>

theorem governance_tx_sound:
  assumes "governCommittee K client d committee operation next' authorization pop = Inr tx" and "ccc_ok K"
    and "cells_funded client"
  shows "\<exists>cell current capacity bs since w witness.
    ch_cellsByType client committee = [cell] \<and> decodePublisherSetData (HexStr (cl_outputData cell)) = Inr current \<and>
    transitionError current next' operation = None \<and> encodePublisherSetData next' = Inr bs \<and>
    vw_inputs (lib_view K tx) = [\<lparr>ci_previousOutput = cl_outPoint cell, ci_since = since\<rparr>] \<and>
    since = (if needsRotationInterval operation then 2 ^ 63 + 2 ^ 62 + minRotationIntervalS current else 0) \<and>
    vw_outputs (lib_view K tx) = [((cl_cellOutput cell)\<lparr>co_capacity := capacity\<rparr>, bytesToHex bs)] \<and>
    occupiedCapacity K (co_lock (cl_cellOutput cell)) (co_type (cl_cellOutput cell)) (bytesToHex bs) \<le> capacity \<and>
    co_capacity (cl_cellOutput cell) \<le> capacity \<and>
    (needsRotationInterval operation \<longrightarrow> (\<forall>p. previousOf next' = Some p \<longrightarrow>
      vw_headerDeps (lib_view K tx) = [snd (ch_tip client)] \<and> untilMs p \<le> fst (ch_tip client) + MAX_UNTIL_AHEAD_MS)) \<and>
    needsProofOfPossession operation = (pop \<noteq> None) \<and>
    vw_witnesses (lib_view K tx) 0 = Some w \<and> wa_inputType w = Some (bytesToHex witness) \<and>
    witness_holds witness operation authorization pop"
proof -
  obtain lv :: "PublisherSetData LiveCell" and bs since tx1 and code :: CodeRef and a p where g: "findCommitteeCell K client committee = Inr (Some lv)"
    "transitionError (lv_data lv) next' operation = None" "needsProofOfPossession operation = (pop \<noteq> None)"
    "encodePublisherSetData next' = Inr bs"
    "(if needsRotationInterval operation then relativeTimestampSince (minRotationIntervalS (lv_data lv)) else Inr 0) = Inr since"
    "add_tip K client operation next' (lib_addOutput K (lib_addInput K (lib_empty K)
        \<lparr>ci_previousOutput = cl_outPoint (lv_cell lv), ci_since = since\<rparr>)
        (grown_output K (cl_cellOutput (lv_cell lv)) (bytesToHex bs)) (bytesToHex bs)) = Inr tx1"
    "encodeSignatureBundle authorization = Inr a" "(case pop of None \<Rightarrow> Inr [] | Some b \<Rightarrow> encodeSignatureBundle b) = Inr p"
    "tx = setInputType K (case findCodeRef d AlwaysSuccessLock (sc_codeHash (co_lock (cl_cellOutput (lv_cell lv)))) of
        None \<Rightarrow> lib_addCellDep K tx1 (code_cellDep code)
      | Some l \<Rightarrow> lib_addCellDep K (lib_addCellDep K tx1 (code_cellDep code)) (code_cellDep l)) 0
      (concatBytes [[word_of_int operation], a, p])"
    by (rule governCommittee_Inr[OF assms(1)])
  note cell = findCommitteeCell_Some[OF g(1)]
  let ?out = "cl_cellOutput (lv_cell lv)"
  obtain c where c: "grown_output K ?out (bytesToHex bs) = ?out\<lparr>co_capacity := c\<rparr>" "co_capacity ?out \<le> c"
      "occupiedCapacity K (co_lock ?out) (co_type ?out) (bytesToHex bs) \<le> c"
    using grown_output_facts by blast
  then have "0 < c" using cells_fundedD[OF assms(3) cell(2)] by simp
  moreover obtain hs where hs: "lib_view K tx1 = (lib_view K (lib_addOutput K (lib_addInput K (lib_empty K)
        \<lparr>ci_previousOutput = cl_outPoint (lv_cell lv), ci_since = since\<rparr>) (?out\<lparr>co_capacity := c\<rparr>) (bytesToHex bs)))
        \<lparr>vw_headerDeps := hs\<rparr>"
      "needsRotationInterval operation \<longrightarrow> (\<forall>p. previousOf next' = Some p \<longrightarrow>
        hs = [snd (ch_tip client)] \<and> untilMs p \<le> fst (ch_tip client) + MAX_UNTIL_AHEAD_MS)"
    using add_tip_Inr[OF g(6) assms(2)] c(1) \<open>0 < c\<close> by (auto simp: ccc_views[OF assms(2)])
  moreover have "since = (if needsRotationInterval operation then 2 ^ 63 + 2 ^ 62 + minRotationIntervalS (lv_data lv) else 0)"
    using g(5) since_value by (auto split: if_splits)
  moreover obtain w where "vw_witnesses (lib_view K tx) 0 = Some w" "wa_inputType w = Some (bytesToHex (concatBytes [[word_of_int operation], a, p]))"
    "vw_inputs (lib_view K tx) = vw_inputs (lib_view K tx1)" "vw_outputs (lib_view K tx) = vw_outputs (lib_view K tx1)"
    "vw_headerDeps (lib_view K tx) = vw_headerDeps (lib_view K tx1)"
    using governed_witness[OF assms(2) g(9)] by blast
  ultimately show ?thesis
    using cell c(2,3) g(2,3,4) witness_bytes[OF g(7,8), of operation]
    by (intro exI[of _ "lv_cell lv"] exI[of _ "lv_data lv"] exI[of _ c] exI[of _ bs] exI[of _ since] exI[of _ w]
          exI[of _ "concatBytes [[word_of_int operation], a, p]"]) (simp add: ccc_views[OF assms(2)])
qed

theorem governance_tx_sound_witness:
  "\<exists>client tx (cell :: Cell) capacity bs.
    governCommittee demo_ccc client demo_oracle (demo_script 3) OP_ROTATE demo_rotated demo_bundle (Some demo_bundle) = Inr tx \<and>
    vw_outputs (lib_view demo_ccc tx) = [((cl_cellOutput cell)\<lparr>co_capacity := capacity\<rparr>, bytesToHex bs)] \<and>
    encodePublisherSetData demo_rotated = Inr bs"
proof -
  obtain client tx where g: "governCommittee demo_ccc client demo_oracle (demo_script 3) OP_ROTATE demo_rotated demo_bundle (Some demo_bundle) = Inr tx"
    "cells_funded client"
    using demo_governed by blast
  from governance_tx_sound[OF g(1) demo_ccc_ok g(2)] obtain cell :: Cell and capacity bs where
    "vw_outputs (lib_view demo_ccc tx) = [((cl_cellOutput cell)\<lparr>co_capacity := capacity\<rparr>, bytesToHex bs)]"
    "encodePublisherSetData demo_rotated = Inr bs" by blast
  with g(1) show ?thesis by blast
qed

end
