(* ===== verification/Oracle_Client.thy ===== *)
theory Oracle_Client
  imports Committee_Tx Fees
begin

text \<open>
  \<open>packages/sdk/src/client/LeanOracleClient.ts\<close>, \<open>client/presets.ts\<close>, \<open>presets/networks.ts\<close> and \<open>presets/feeds.ts\<close>: the
  object that knows its network, caches committee data and reads verified prices. The chain as it is at the
  call, the replies of the mirrors and the clock are arguments. Lemmas: every price the client returns through its own
  mirror client is verified against committee data it read from the chain; and what it does not check: which of the cached committees
  a mirror answers for, and the time of an answer.
\<close>

section \<open>Presets\<close>

record FeedInfo =
  fi_symbol :: string
  fi_feedId :: hex
  fi_expo :: int
  fi_committee :: string

definition preset_feed :: "crypto \<Rightarrow> string \<Rightarrow> int \<Rightarrow> string \<Rightarrow> FeedInfo" where
  "preset_feed C symbol expo committee =
    \<lparr>fi_symbol = symbol, fi_feedId = feedId C symbol, fi_expo = expo, fi_committee = committee\<rparr>"

definition SPOT :: "crypto \<Rightarrow> FeedInfo list" where
  "SPOT C =
    concat (map (\<lambda>base. map (\<lambda>quote. preset_feed C (''Crypto.'' @ base @ ''/'' @ quote) (- 8) ''majors'') [''USD'', ''USDT'', ''USDC''])
      [''BTC'', ''ETH'', ''SOL'']) @
    [preset_feed C ''Crypto.USDT/USD'' (- 8) ''majors'',
     preset_feed C ''Crypto.CKB/USDT'' (- 10) ''majors'',
     preset_feed C ''Crypto.CKB/USDC'' (- 10) ''majors'']"

definition FEEDS :: "crypto \<Rightarrow> FeedInfo list" where
  "FEEDS C = SPOT C @ map (\<lambda>f. preset_feed C (fi_symbol f @ ''.TWAP60'') (fi_expo f) (fi_committee f)) (SPOT C)"

definition feedBySymbol :: "crypto \<Rightarrow> string \<Rightarrow> FeedInfo option" where
  "feedBySymbol C symbol = List.find (\<lambda>f. fi_symbol f = symbol) (FEEDS C)"

record LeanOracleNetworkPreset =
  np_name :: string
  np_ckbRpcUrl :: string
  np_mirrorUrls :: "string list"
  np_deployment :: "LeanOracleDeployment option"

definition requireDeployment :: "LeanOracleNetworkPreset \<Rightarrow> LeanOracleDeployment result" where
  "requireDeployment preset = (case np_deployment preset of
      None \<Rightarrow> Inl (Failure ''Lean Oracle is not deployed on this network yet'') | Some d \<Rightarrow> Inr d)"

text \<open>\<open>merge\<close>: a preset with the overrides given.\<close>

definition merge_preset :: "LeanOracleNetworkPreset \<Rightarrow> string option \<Rightarrow> string list option \<Rightarrow> LeanOracleNetworkPreset" where
  "merge_preset base ckbRpcUrl mirrorUrls = base\<lparr>
    np_ckbRpcUrl := (case ckbRpcUrl of None \<Rightarrow> np_ckbRpcUrl base | Some u \<Rightarrow> u),
    np_mirrorUrls := (case mirrorUrls of None \<Rightarrow> np_mirrorUrls base | Some us \<Rightarrow> us)\<rparr>"

section \<open>The client\<close>

text \<open>The \<open>mirror\<close> option: URLs, or a client of the caller's, used as it is.\<close>

datatype mirror_option = MirrorUrls "string list" | MirrorReady MirrorClientOptions

datatype oracle_mirror = Own MirrorClientOptions | Ready MirrorClientOptions

record OracleClient =
  oc_network :: LeanOracleNetworkPreset
  oc_deployment :: LeanOracleDeployment
  oc_mirror :: "oracle_mirror option"
  oc_committeeCacheMs :: "int option"
  oc_committeeData :: "(hex \<times> PublisherSetData \<times> int) list"

definition new_oracle_client ::
  "LeanOracleNetworkPreset \<Rightarrow> mirror_option option \<Rightarrow> string option \<Rightarrow> int option \<Rightarrow> OracleClient result" where
  "new_oracle_client network mirror apiKey cacheMs =
    ebind (requireDeployment network) (\<lambda>d.
    let urls = (case mirror of Some (MirrorUrls us) \<Rightarrow> us | _ \<Rightarrow> np_mirrorUrls network) in
    ebind (case mirror of
        Some (MirrorReady m) \<Rightarrow> Inr (Some (Ready m))
      | _ \<Rightarrow> if length urls > 0
          then ebind (new_client \<lparr>mo_urls = urls, mo_apiKey = apiKey, mo_committees = Some []\<rparr>) (\<lambda>m. Inr (Some (Own m)))
          else Inr None) (\<lambda>m.
    Inr \<lparr>oc_network = network, oc_deployment = d, oc_mirror = m, oc_committeeCacheMs = cacheMs, oc_committeeData = []\<rparr>))"

definition committee_ref :: "OracleClient \<Rightarrow> string \<Rightarrow> CommitteeRef result" where
  "committee_ref st name = (case map_of (dp_committees (oc_deployment st)) name of
      None \<Rightarrow> Inl (Failure ''unknown committee'') | Some c \<Rightarrow> Inr c)"

definition getCommittee ::
  "'tx ccc \<Rightarrow> Client \<Rightarrow> int \<Rightarrow> OracleClient \<Rightarrow> string \<Rightarrow> (PublisherSetData LiveCell \<times> OracleClient) result" where
  "getCommittee K client now st name =
    ebind (committee_ref st name) (\<lambda>committee.
    ebind (required ''committee has no live cell'' (findCommitteeCell K client (cm_typeScript committee))) (\<lambda>cell.
    Inr (cell, st\<lparr>oc_committeeData := AList.update (toLowerCase (lv_typeHash cell)) (lv_data cell, now) (oc_committeeData st)\<rparr>)))"

text \<open>\<open>verifiable\<close>: the committee's data is read again when it is not cached or older than the limit.\<close>

definition verifiable :: "'tx ccc \<Rightarrow> Client \<Rightarrow> int \<Rightarrow> OracleClient \<Rightarrow> string \<Rightarrow> (hex \<times> OracleClient) result" where
  "verifiable K client now st name =
    ebind (committee_ref st name) (\<lambda>committee.
    let typeHash = toLowerCase (cm_typeHash committee);
        stale = (case map_of (oc_committeeData st) typeHash of
            None \<Rightarrow> True
          | Some (data, atMs) \<Rightarrow> now - atMs > (case oc_committeeCacheMs st of None \<Rightarrow> 30000 | Some n \<Rightarrow> n))
    in if stale then ebind (getCommittee K client now st name) (\<lambda>(cell, st'). Inr (typeHash, st')) else Inr (typeHash, st))"

definition requireMirror :: "OracleClient \<Rightarrow> oracle_mirror result" where
  "requireMirror st = (case oc_mirror st of None \<Rightarrow> Inl (Failure ''no mirror configured'') | Some m \<Rightarrow> Inr m)"

text \<open>The options the mirror client works with: the client's own reads the committees cached at the call.\<close>

definition cached_committees :: "OracleClient \<Rightarrow> committees" where
  "cached_committees st = map (\<lambda>(h, data, atMs). (h, data)) (oc_committeeData st)"

fun mirror_options :: "OracleClient \<Rightarrow> oracle_mirror \<Rightarrow> MirrorClientOptions" where
  "mirror_options st (Own m) = m\<lparr>mo_committees := Some (cached_committees st)\<rparr>"
| "mirror_options st (Ready m) = m"

definition latestPrices ::
  "crypto \<Rightarrow> 'tx ccc \<Rightarrow> Client \<Rightarrow> int \<Rightarrow> MirrorUpdateJson list exchange \<Rightarrow> OracleClient \<Rightarrow> string list \<Rightarrow> string \<Rightarrow>
    (MirrorPrice list \<times> OracleClient) result" where
  "latestPrices C K client now fetch st feeds committee =
    ebind (requireMirror st) (\<lambda>m.
    ebind (verifiable K client now st committee) (\<lambda>(hash, st').
    ebind (client_latest C (mirror_options st' m) fetch feeds (Some hash)) (\<lambda>updates.
    Inr (concat (map mu_prices updates), st'))))"

definition pricesAt ::
  "crypto \<Rightarrow> 'tx ccc \<Rightarrow> Client \<Rightarrow> int \<Rightarrow> MirrorUpdateJson list exchange \<Rightarrow> OracleClient \<Rightarrow> int \<Rightarrow> string list \<Rightarrow> string \<Rightarrow>
    (MirrorUpdate list \<times> OracleClient) result" where
  "pricesAt C K client now fetch st timeMs feeds committee =
    ebind (requireMirror st) (\<lambda>m.
    ebind (verifiable K client now st committee) (\<lambda>(hash, st').
    ebind (client_at C (mirror_options st' m) fetch timeMs feeds (Some hash)) (\<lambda>updates.
    Inr (updates, st'))))"

definition committee_name :: "OracleClient \<Rightarrow> PriceFeedData LiveCell \<Rightarrow> string option" where
  "committee_name st feed = map_option fst (List.find
    (\<lambda>(name, c). toLowerCase (cm_typeHash c) = toLowerCase (f_publisherSetTypeHash (lv_data feed))) (dp_committees (oc_deployment st)))"

definition client_isFeedPriceTrusted ::
  "'tx ccc \<Rightarrow> Client \<Rightarrow> int \<Rightarrow> OracleClient \<Rightarrow> PriceFeedData LiveCell \<Rightarrow> (bool \<times> OracleClient) result" where
  "client_isFeedPriceTrusted K client now st feed = (case committee_name st feed of
      None \<Rightarrow> Inr (False, st)
    | Some name \<Rightarrow> if name = [] then Inr (False, st)
        else ebind (getCommittee K client now st name) (\<lambda>(cell, st').
          Inr (isFeedPriceTrusted (lv_data feed) (lv_data cell), st')))"

definition client_pullAndUpdate ::
  "crypto \<Rightarrow> 'tx ccc \<Rightarrow> Client \<Rightarrow> int \<Rightarrow> MirrorUpdateJson list exchange \<Rightarrow> OracleClient \<Rightarrow> Script \<Rightarrow> int option \<Rightarrow> bool \<Rightarrow>
    (('tx \<times> FeedMove) \<times> OracleClient) result" where
  "client_pullAndUpdate C K client now fetch st feedType atMs exact =
    ebind (required ''feed cell not found'' (getFeedCell K client feedType)) (\<lambda>feed.
    ebind (case committee_name st feed of
        None \<Rightarrow> Inr st
      | Some name \<Rightarrow> if name = [] then Inr st else ebind (verifiable K client now st name) (\<lambda>(hash, st'). Inr st')) (\<lambda>st'.
    ebind (requireMirror st') (\<lambda>m.
    ebind (pullAndUpdate C K client (oc_deployment st') (mirror_options st' m) fetch feedType atMs exact) (\<lambda>r.
    Inr (r, st')))))"

text \<open>The methods that pass the client's deployment on.\<close>

definition client_createFeedCell ::
  "crypto \<Rightarrow> 'tx ccc \<Rightarrow> OracleClient \<Rightarrow> 'tx Signer \<Rightarrow> string \<Rightarrow> string \<Rightarrow> Script option \<Rightarrow> ('tx \<times> Script \<times> hex) result" where
  "client_createFeedCell C K st signer feed committee lock =
    ebind (committee_ref st committee) (\<lambda>c.
    createFeedCell C K signer (oc_deployment st) (toFeedId C feed) (cm_typeScript c) lock)"

definition client_findFeedCells ::
  "crypto \<Rightarrow> 'tx ccc \<Rightarrow> Client \<Rightarrow> OracleClient \<Rightarrow> string \<Rightarrow> string \<Rightarrow> PriceFeedData LiveCell list result" where
  "client_findFeedCells C K client st feed committee =
    ebind (committee_ref st committee) (\<lambda>c.
    Inr (findFeedCells K client (oc_deployment st) (toFeedId C feed) (cm_typeHash c)))"

section \<open>The cache holds what was read\<close>

text \<open>Committee data read from the chain: a live committee cell some client saw at some time.\<close>

definition read_from :: "'tx ccc \<Rightarrow> (Client \<times> int) set \<Rightarrow> hex \<times> PublisherSetData \<times> int \<Rightarrow> bool" where
  "read_from K seen = (\<lambda>(h, data, atMs). \<exists>client script lv. (client, atMs) \<in> seen \<and>
    findCommitteeCell K client script = Inr (Some lv) \<and> h = toLowerCase (lv_typeHash lv) \<and> data = lv_data lv)"

definition cache_ok :: "'tx ccc \<Rightarrow> (Client \<times> int) set \<Rightarrow> OracleClient \<Rightarrow> bool" where
  "cache_ok K seen st \<longleftrightarrow> (\<forall>e \<in> set (oc_committeeData st). read_from K seen e)"

lemma cache_ok_mono: "cache_ok K seen st \<Longrightarrow> seen \<subseteq> seen' \<Longrightarrow> cache_ok K seen' st"
  by (fastforce simp: cache_ok_def read_from_def)

lemma new_client_cache: "new_oracle_client network mirror apiKey cacheMs = Inr st \<Longrightarrow> cache_ok K seen st"
  by (auto simp: new_oracle_client_def ebind_eq_Inr Let_def cache_ok_def)

lemma getCommittee_cache:
  assumes "getCommittee K client now st name = Inr (cell, st')" "cache_ok K seen st"
  shows "cache_ok K (insert (client, now) seen) st' \<and> oc_mirror st' = oc_mirror st \<and> oc_deployment st' = oc_deployment st"
proof -
  from assms(1) obtain c :: CommitteeRef where c: "findCommitteeCell K client (cm_typeScript c) = Inr (Some cell)"
      "st' = st\<lparr>oc_committeeData := AList.update (toLowerCase (lv_typeHash cell)) (lv_data cell, now) (oc_committeeData st)\<rparr>"
    by (auto simp: getCommittee_def required_def ebind_eq_Inr split: option.splits)
  have "read_from K (insert (client, now) seen) e" if "e \<in> set (oc_committeeData st')" for e
  proof (cases "e \<in> set (oc_committeeData st)")
    case True
    then show ?thesis using cache_ok_mono[OF assms(2), of "insert (client, now) seen"] by (auto simp: cache_ok_def)
  next
    case False
    then have "e = (toLowerCase (lv_typeHash cell), lv_data cell, now)"
      using that c(2) alist_update_subset[of "toLowerCase (lv_typeHash cell)" "(lv_data cell, now)" "oc_committeeData st"] by auto
    then show ?thesis using c(1) by (auto simp: read_from_def)
  qed
  then show ?thesis by (auto simp: cache_ok_def c(2))
qed

lemma verifiable_cache:
  assumes "verifiable K client now st name = Inr (hash, st')" "cache_ok K seen st"
  shows "cache_ok K (insert (client, now) seen) st' \<and> oc_mirror st' = oc_mirror st"
proof (cases "st' = st")
  case True
  then show ?thesis using cache_ok_mono[OF assms(2), of "insert (client, now) seen"] by auto
next
  case False
  then obtain cell where "getCommittee K client now st name = Inr (cell, st')"
    using assms(1) by (auto simp: verifiable_def ebind_eq_Inr Let_def split: if_splits)
  then show ?thesis using getCommittee_cache assms(2) by blast
qed

text \<open>After \<open>verifiable\<close> the committee's data is at most as old as the limit, if its cell carries the recorded type hash.\<close>

definition cache_limit :: "OracleClient \<Rightarrow> int" where
  "cache_limit st = (case oc_committeeCacheMs st of None \<Rightarrow> 30000 | Some n \<Rightarrow> n)"

lemma verifiable_fresh:
  assumes "verifiable K client now st name = Inr (hash, st')" and "0 \<le> cache_limit st"
    and "\<And>c lv. committee_ref st name = Inr c \<Longrightarrow> findCommitteeCell K client (cm_typeScript c) = Inr (Some lv) \<Longrightarrow>
      toLowerCase (lv_typeHash lv) = toLowerCase (cm_typeHash c)"
  shows "\<exists>data atMs. map_of (oc_committeeData st') hash = Some (data, atMs) \<and> now - atMs \<le> cache_limit st"
proof -
  obtain c where c: "committee_ref st name = Inr c" "hash = toLowerCase (cm_typeHash c)"
    using assms(1) by (auto simp: verifiable_def ebind_eq_Inr Let_def split: if_splits)
  show ?thesis
  proof (cases "\<exists>data atMs. map_of (oc_committeeData st) hash = Some (data, atMs) \<and> now - atMs \<le> cache_limit st")
    case True
    then have "st' = st" using assms(1) c by (auto simp: verifiable_def cache_limit_def)
    with True show ?thesis by simp
  next
    case False
    then obtain cell where "getCommittee K client now st name = Inr (cell, st')"
      using assms(1) c by (auto simp: verifiable_def ebind_eq_Inr Let_def cache_limit_def split: if_splits option.splits)
    then have "findCommitteeCell K client (cm_typeScript c) = Inr (Some cell)"
      "st' = st\<lparr>oc_committeeData := AList.update (toLowerCase (lv_typeHash cell)) (lv_data cell, now) (oc_committeeData st)\<rparr>"
      using c(1) by (auto simp: getCommittee_def required_def ebind_eq_Inr split: option.splits)
    then show ?thesis using assms(2) assms(3)[OF c(1)] c(2) by (simp add: update_conv')
  qed
qed

section \<open>What is not checked\<close>

text \<open>
  A query names its committee, and the option promises only updates of this one; but an answer with another committee's
  update passes when that committee is cached, whatever its age: the check looks for the committee of the
  update, not of the query.
\<close>

lemma other_committee_accepted:
  assumes "client_checked C (Some [(other, data')]) json ids = Inr mu" and "toLowerCase asked \<noteq> toLowerCase other"
  shows "client_checked C (Some [(asked, data), (other, data')]) json ids = Inr mu"
proof -
  have "parseMirrorUpdate json = Inr mu" "toLowerCase other = mu_committee mu"
    using assms(1) by (auto simp: client_checked_def ebind_eq_Inr split: if_splits option.splits)
  then show ?thesis using assms by (auto simp: client_checked_def)
qed

text \<open>Nor is the time of an answer checked against the time asked for: the reply to \<open>at\<close> is accepted at any time.\<close>

lemma any_time_accepted:
  assumes "client_latest C options (\<lambda>_ _ _. Body jsons) feeds committee = Inr updates" and "mo_urls options \<noteq> []"
  shows "client_at C options (\<lambda>_ _ _. Body jsons) timeMs feeds committee = Inr updates"
proof -
  obtain u us where "mo_urls options = u # us" using assms(2) by (cases "mo_urls options") auto
  then show ?thesis using assms(1) by (simp add: client_latest_def client_at_def client_updates_def client_get_def Let_def)
qed

section \<open>The presets\<close>

lemma presets_distinct: "distinct (map fi_symbol (FEEDS C))" "length (FEEDS C) = 24"
  by (simp_all add: FEEDS_def SPOT_def preset_feed_def)

lemma feedBySymbol_complete: "f \<in> set (FEEDS C) \<Longrightarrow> feedBySymbol C (fi_symbol f) = Some f"
proof -
  assume "f \<in> set (FEEDS C)"
  then obtain i where i: "i < length (FEEDS C)" "FEEDS C ! i = f" by (auto simp: in_set_conv_nth)
  have "fi_symbol (FEEDS C ! j) \<noteq> fi_symbol f" if "j < i" for j
    using presets_distinct(1)[of C] that i by (auto simp: distinct_conv_nth)
  with i show ?thesis by (auto simp: feedBySymbol_def find_Some_iff intro!: exI[of _ i])
qed

section \<open>Properties\<close>

text \<open>Every price that the client returns through a mirror client of its own was asked for and
  \<open>verifyPriceUpdate\<close> accepts it with committee data that the client itself read from a live committee cell.\<close>

theorem facade_prices_verified:
  assumes "latestPrices C K client now fetch st feeds committee = Inr (prices, st')"
    and "oc_mirror st = Some (Own m)" and "cache_ok K seen st"
  shows "list_all (\<lambda>p. toLowerCase (m_feedId (mp_message p)) \<in> toFeedId C ` set feeds \<and>
    (\<exists>blob hash data atMs v. (hash, data, atMs) \<in> set (oc_committeeData st') \<and>
      read_from K (insert (client, now) seen) (hash, data, atMs) \<and> toLowerCase hash = mp_committee p \<and>
      verifyPriceUpdate C (Blob (HexStr blob)) (m_feedId (mp_message p)) hash data = Inr v \<and>
      v_message v = mp_message p \<and> h_publishTimeMs (v_header v) = mp_publishTimeMs p)) prices"
  unfolding list_all_iff
proof
  fix p assume p0: "p \<in> set prices"
  from assms(1,2) obtain hash updates where u: "verifiable K client now st committee = Inr (hash, st')"
    "client_latest C (mirror_options st' (Own m)) fetch feeds (Some hash) = Inr updates" "prices = concat (map mu_prices updates)"
    by (auto simp: latestPrices_def requireMirror_def ebind_eq_Inr)
  have ok: "cache_ok K (insert (client, now) seen) st'" using verifiable_cache[OF u(1) assms(3)] by simp
  obtain jsons where "emap (\<lambda>json. client_checked C (Some (cached_committees st')) json (map (toFeedId C) feeds)) jsons = Inr updates"
    using u(2) by (auto simp: client_latest_def client_updates_def Let_def ebind_eq_Inr)
  moreover obtain mu where mu: "mu \<in> set updates" "p \<in> set (mu_prices mu)" using u(3) p0 by auto
  ultimately obtain json where "client_checked C (Some (cached_committees st')) json (map (toFeedId C) feeds) = Inr mu"
    using emap_member by fastforce
  from checked_price[OF this mu(2)] have p: "toLowerCase (m_feedId (mp_message p)) \<in> toFeedId C ` set feeds"
    "price_verified C (cached_committees st') (mu_blob mu) p" by simp_all
  then obtain hash' data atMs v where v: "(hash', data, atMs) \<in> set (oc_committeeData st')" "toLowerCase hash' = mp_committee p"
    "verifyPriceUpdate C (Blob (HexStr (mu_blob mu))) (m_feedId (mp_message p)) hash' data = Inr v"
    "v_message v = mp_message p" "h_publishTimeMs (v_header v) = mp_publishTimeMs p"
    by (auto simp: price_verified_def cached_committees_def)
  moreover have "read_from K (insert (client, now) seen) (hash', data, atMs)" using ok v(1) by (simp add: cache_ok_def)
  ultimately show "toLowerCase (m_feedId (mp_message p)) \<in> toFeedId C ` set feeds \<and>
    (\<exists>blob hash data atMs v. (hash, data, atMs) \<in> set (oc_committeeData st') \<and>
      read_from K (insert (client, now) seen) (hash, data, atMs) \<and> toLowerCase hash = mp_committee p \<and>
      verifyPriceUpdate C (Blob (HexStr blob)) (m_feedId (mp_message p)) hash data = Inr v \<and>
      v_message v = mp_message p \<and> h_publishTimeMs (v_header v) = mp_publishTimeMs p)"
    using p(1) by blast
qed

text \<open>The library whose script hash is the type hash of the demo committee, and a client without a cache.\<close>

definition hashed_ccc :: "(tx_view \<times> int) ccc" where
  "hashed_ccc = demo_ccc\<lparr>lib_scriptHash := (\<lambda>s. i_publisherSetTypeHash demo_single)\<rparr>"

definition demo_facade :: OracleClient where
  "demo_facade = \<lparr>oc_network = \<lparr>np_name = ''testnet'', np_ckbRpcUrl = [], np_mirrorUrls = [], np_deployment = Some demo_oracle\<rparr>,
    oc_deployment = demo_oracle, oc_mirror = Some (Own \<lparr>mo_urls = [''http://m''], mo_apiKey = None, mo_committees = Some []\<rparr>),
    oc_committeeCacheMs = None, oc_committeeData = []\<rparr>"

lemma demo_latest:
  "\<exists>client json prices st'. latestPrices demo_crypto hashed_ccc client 0 (\<lambda>_ _ _. Body [json]) demo_facade [demo_feed] ''majors'' =
    Inr (prices, st') \<and> prices \<noteq> []"
proof -
  let ?hash = "i_publisherSetTypeHash demo_single"
  obtain cb where "decodePublisherSetData (Raw cb) = Inr demo_rotated" using demo_committee_bytes by blast
  then have dec: "decodePublisherSetData (HexStr (bytesToHex cb)) = Inr demo_rotated" by (simp add: decodePublisherSetData_def)
  have ne: "demo_script 3 \<noteq> demo_script 2" by (simp add: demo_script_def demo_id_inject)
  have low: "toLowerCase ?hash = ?hash" by (simp add: demo_single_def demo_input_def)
  have live: "findCommitteeCell hashed_ccc (demo_chain [] cb) (demo_script 3) = Inr (Some \<lparr>lv_data = demo_rotated, lv_cell = demo_cell 3 cb,
      lv_outPoint = cl_outPoint (demo_cell 3 cb), lv_cellDep = \<lparr>dep_outPoint = cl_outPoint (demo_cell 3 cb), dep_depType = ''code''\<rparr>,
      lv_typeHash = ?hash\<rparr>)"
    using dec ne by (simp add: findCommitteeCell_def only_cell_def demo_chain_def live_cell_def live_def demo_cell_def hashed_ccc_def)
  have ref: "committee_ref demo_facade ''majors'' = Inr \<lparr>cm_typeScript = demo_script 3, cm_typeHash = ?hash\<rparr>"
    by (simp add: committee_ref_def demo_facade_def demo_oracle_def)
  have empty: "oc_committeeData demo_facade = []" by (simp add: demo_facade_def)
  obtain st' where st': "verifiable hashed_ccc (demo_chain [] cb) 0 demo_facade ''majors'' = Inr (?hash, st')"
    "cached_committees st' = [(?hash, demo_rotated)]"
    using empty by (simp add: verifiable_def getCommittee_def ref required_def live low cached_committees_def)
  obtain bs u json where b: "mirror_verify demo_crypto demo_mirror (Raw bs) = Inr u" "h_setIndex (u_header u) = 1"
      "mirrorUpdateJson u [demo_feed] = Inr json"
    using demo_served by blast
  with served_selection[OF follows_mirrors[OF demo_follows] b(1), of "[demo_feed]" json] obtain mu where
    mu: "client_checked demo_crypto (Some [(?hash, demo_rotated)]) json [demo_feed] = Inr mu"
      "map mp_message (mu_prices mu) = filter (\<lambda>m. toLowerCase (m_feedId m) \<in> set [demo_feed]) (map e_message (u_entries u))"
    by (auto simp: demo_rotated_index)
  have "\<exists>en \<in> set (u_entries u). toLowerCase (m_feedId (e_message en)) = demo_feed"
    using b(3) by (auto simp: mirrorUpdateJson_def selectFeeds_def ebind_eq_Inr Let_def filter_empty_conv split: if_splits)
  then have "map mp_message (mu_prices mu) \<noteq> []" unfolding mu(2) by (auto simp: filter_empty_conv)
  then have "mu_prices mu \<noteq> []" by auto
  moreover have "latestPrices demo_crypto hashed_ccc (demo_chain [] cb) 0 (\<lambda>_ _ _. Body [json]) demo_facade [demo_feed] ''majors'' =
      Inr (mu_prices mu, st')"
    using mu(1) st' by (simp add: latestPrices_def requireMirror_def demo_facade_def client_latest_def client_updates_def client_get_def Let_def)
  ultimately show ?thesis by blast
qed

theorem facade_prices_verified_witness:
  "\<exists>client json prices st'. prices \<noteq> [] \<and>
    latestPrices demo_crypto hashed_ccc client 0 (\<lambda>_ _ _. Body [json]) demo_facade [demo_feed] ''majors'' = Inr (prices, st') \<and>
    list_all (\<lambda>p. \<exists>blob hash data v. verifyPriceUpdate demo_crypto (Blob (HexStr blob)) (m_feedId (mp_message p)) hash data = Inr v \<and>
      v_message v = mp_message p) prices"
proof -
  obtain client json prices st' where r: "latestPrices demo_crypto hashed_ccc client 0 (\<lambda>_ _ _. Body [json]) demo_facade [demo_feed] ''majors'' =
    Inr (prices, st')" "prices \<noteq> []"
    using demo_latest by blast
  have m: "oc_mirror demo_facade = Some (Own \<lparr>mo_urls = [''http://m''], mo_apiKey = None, mo_committees = Some []\<rparr>)"
    and "cache_ok hashed_ccc {} demo_facade"
    by (simp_all add: demo_facade_def cache_ok_def)
  from facade_prices_verified[OF r(1) this] have
    "list_all (\<lambda>p. \<exists>blob hash data v. verifyPriceUpdate demo_crypto (Blob (HexStr blob)) (m_feedId (mp_message p)) hash data = Inr v \<and>
      v_message v = mp_message p) prices"
    by (rule list.pred_mono_strong) blast
  with r show ?thesis by blast
qed

end
