(* ===== verification/Record_Store.thy ===== *)
theory Record_Store
  imports Deployment "HOL-Library.Sublist" "HOL-Library.AList"
begin

text \<open>
  \<open>apps/deploy/src/record.ts\<close>: the deployment record on disk and its operations. The file is \<open>None\<close> while it does
  not exist; an operation that throws leaves it as it was (it is written last, by a rename). Lemmas: in any run of
  operations the history only grows, no code version or committee is lost or exchanged, every version and
  committee is in the history, the current version is the newest, and the SDK can read what is written.
\<close>

section \<open>The record\<close>

datatype HistoryDetail =
    DeployedCode ContractName int hex
  | DeployedCommittee string hex int
  | Governed string string "(string \<times> string) list"
  | RetiredCode ContractName int
  | RetiredCommittee string hex string

record HistoryEntry =
  hi_txHash :: hex
  hi_at :: string
  hi_detail :: HistoryDetail

record RetiredCommitteeRecord = CommitteeRecord +
  rc_name :: string
  rc_retiredAt :: string
  rc_reason :: string

record ContractVersions =
  cn_current :: int
  cn_versions :: "(int \<times> CodeVersionRecord) list"

record DeploymentRecord =
  dr_network :: string
  dr_contracts :: "ContractName \<Rightarrow> ContractVersions option"
  dr_committees :: "(string \<times> CommitteeRecord) list"
  dr_retiredCommittees :: "RetiredCommitteeRecord list"
  dr_history :: "HistoryEntry list"

definition emptyDeploymentRecord :: "string \<Rightarrow> DeploymentRecord" where
  "emptyDeploymentRecord network = \<lparr>dr_network = network, dr_contracts = (\<lambda>_. None), dr_committees = [],
    dr_retiredCommittees = [], dr_history = []\<rparr>"

text \<open>The record as \<open>parseDeployment\<close> reads it.\<close>

definition as_raw :: "DeploymentRecord \<Rightarrow> CommitteeRecord raw_deployment" where
  "as_raw r = \<lparr>rw_network = Some (dr_network r),
    rw_contracts = (\<lambda>name. map_option (\<lambda>e. Versions (Some (cn_current e)) (cn_versions e)) (dr_contracts r name)),
    rw_committees = dr_committees r\<rparr>"

section \<open>The store\<close>

type_synonym record_file = "DeploymentRecord option"

definition read_record :: "string \<Rightarrow> record_file \<Rightarrow> DeploymentRecord result" where
  "read_record network f = (case f of
      None \<Rightarrow> Inr (emptyDeploymentRecord network)
    | Some r \<Rightarrow> if dr_network r \<noteq> network then Inl (Failure ''the record is for another network'') else Inr r)"

definition has_core :: "DeploymentRecord \<Rightarrow> bool" where
  "has_core r \<longleftrightarrow> dr_contracts r PriceFeedType \<noteq> None \<and> dr_contracts r PublisherSetType \<noteq> None"

definition record_deployment :: "string \<Rightarrow> record_file \<Rightarrow> LeanOracleDeployment result" where
  "record_deployment network f =
    ebind (read_record network f) (\<lambda>r.
    if \<not> has_core r then Inl (Failure ''no contracts; run deploy:code first'') else parseDeployment (as_raw r))"

definition current_code :: "string \<Rightarrow> record_file \<Rightarrow> ContractName \<Rightarrow> (int \<times> CodeVersionRecord option) option result" where
  "current_code network f contract =
    ebind (read_record network f) (\<lambda>r.
    Inr (map_option (\<lambda>e. (cn_current e, map_of (cn_versions e) (cn_current e))) (dr_contracts r contract)))"

definition current_retired :: "ContractVersions \<Rightarrow> bool" where
  "current_retired e \<longleftrightarrow> (case map_of (cn_versions e) (cn_current e) of None \<Rightarrow> False | Some v \<Rightarrow> cv_retired v \<noteq> None)"

definition midMigration :: "DeploymentRecord \<Rightarrow> bool" where
  "midMigration r \<longleftrightarrow> list_ex (\<lambda>name. case dr_contracts r name of None \<Rightarrow> False | Some e \<Rightarrow> current_retired e) CONTRACTS"

definition update_record ::
  "string \<Rightarrow> (DeploymentRecord \<Rightarrow> ('a \<times> DeploymentRecord) result) \<Rightarrow> record_file \<Rightarrow> ('a \<times> record_file) result" where
  "update_record network change f =
    ebind (read_record network f) (\<lambda>r.
    ebind (change r) (\<lambda>(x, r').
    ebind (if has_core r' \<and> \<not> midMigration r' then ebind (parseDeployment (as_raw r')) (\<lambda>_. Inr ()) else Inr ()) (\<lambda>_.
    Inr (x, Some r'))))"

definition log_entry :: "hex \<Rightarrow> string \<Rightarrow> HistoryDetail \<Rightarrow> DeploymentRecord \<Rightarrow> DeploymentRecord" where
  "log_entry txHash at detail r = r\<lparr>dr_history := dr_history r @ [\<lparr>hi_txHash = txHash, hi_at = at, hi_detail = detail\<rparr>]\<rparr>"

definition next_version :: "(int \<times> CodeVersionRecord) list \<Rightarrow> int" where
  "next_version vs = Max (insert 0 (fst ` set vs)) + 1"

definition appendCodeVersion :: "ContractName \<Rightarrow> CodeVersionRecord \<Rightarrow> hex \<Rightarrow> DeploymentRecord \<Rightarrow> (int \<times> DeploymentRecord) result" where
  "appendCodeVersion contract code txHash r =
    (let entry = (case dr_contracts r contract of None \<Rightarrow> \<lparr>cn_current = 0, cn_versions = []\<rparr> | Some e \<Rightarrow> e);
         version = next_version (cn_versions entry);
         entry = entry\<lparr>cn_versions := cn_versions entry @ [(version, code)], cn_current := version\<rparr>
     in Inr (version, log_entry txHash (cv_deployedAt code) (DeployedCode contract version (cv_codeHash code))
          (r\<lparr>dr_contracts := (dr_contracts r)(contract := Some entry)\<rparr>)))"

definition addCommittee :: "string \<Rightarrow> CommitteeRecord \<Rightarrow> DeploymentRecord \<Rightarrow> (unit \<times> DeploymentRecord) result" where
  "addCommittee name committee r =
    (if map_of (dr_committees r) name \<noteq> None then Inl (Failure ''committee already exists'')
     else Inr ((), log_entry (cm_createdTx committee) (cm_createdAt committee)
       (DeployedCommittee name (cm_typeHash committee) (cm_publishers committee))
       (r\<lparr>dr_committees := AList.update name committee (dr_committees r)\<rparr>)))"

definition addRotation :: "string \<Rightarrow> RotationRecord \<Rightarrow> DeploymentRecord \<Rightarrow> (unit \<times> DeploymentRecord) result" where
  "addRotation name rotation r = (case map_of (dr_committees r) name of
      None \<Rightarrow> Inl (Failure ''unknown committee'')
    | Some c \<Rightarrow> Inr ((), r\<lparr>dr_committees := AList.update name (c\<lparr>cm_rotations := cm_rotations c @ [rotation]\<rparr>) (dr_committees r)\<rparr>))"

definition addGovernance :: "string \<Rightarrow> string \<Rightarrow> hex \<Rightarrow> string \<Rightarrow> (string \<times> string) list \<Rightarrow> DeploymentRecord \<Rightarrow>
    (unit \<times> DeploymentRecord) result" where
  "addGovernance name operation txHash at detail r = (case map_of (dr_committees r) name of
      None \<Rightarrow> Inl (Failure ''unknown committee'')
    | Some c \<Rightarrow> Inr ((), log_entry txHash at (Governed name operation detail) r))"

definition retireCode :: "ContractName \<Rightarrow> int \<Rightarrow> hex \<Rightarrow> string \<Rightarrow> bool \<Rightarrow> DeploymentRecord \<Rightarrow> (unit \<times> DeploymentRecord) result" where
  "retireCode contract version txHash at allowCurrent r = (case dr_contracts r contract of
      None \<Rightarrow> Inl (Failure ''version is not in the record'')
    | Some e \<Rightarrow> (case map_of (cn_versions e) version of
          None \<Rightarrow> Inl (Failure ''version is not in the record'')
        | Some code \<Rightarrow>
            if cn_current e = version \<and> \<not> allowCurrent then Inl (Failure ''version is current; deploy a newer version first'')
            else Inr ((), log_entry txHash at (RetiredCode contract version)
              (r\<lparr>dr_contracts := (dr_contracts r)(contract :=
                Some (e\<lparr>cn_versions := AList.update version (code\<lparr>cv_retired := Some (txHash, at)\<rparr>) (cn_versions e)\<rparr>))\<rparr>))))"

definition retired_committee :: "CommitteeRecord \<Rightarrow> string \<Rightarrow> string \<Rightarrow> string \<Rightarrow> RetiredCommitteeRecord" where
  "retired_committee c name at reason = CommitteeRecord.extend (CommitteeRecord.truncate c)
     (RetiredCommitteeRecord.fields name at reason)"

definition retireCommittee :: "string \<Rightarrow> string \<Rightarrow> string \<Rightarrow> DeploymentRecord \<Rightarrow> (unit \<times> DeploymentRecord) result" where
  "retireCommittee name reason at r = (case map_of (dr_committees r) name of
      None \<Rightarrow> Inl (Failure ''unknown committee'')
    | Some c \<Rightarrow> Inr ((), log_entry (cm_createdTx c) at (RetiredCommittee name (cm_typeHash c) reason)
        (r\<lparr>dr_committees := AList.delete name (dr_committees r),
           dr_retiredCommittees := dr_retiredCommittees r @ [retired_committee c name at reason]\<rparr>)))"

section \<open>Runs\<close>

datatype record_op =
    AppendCode ContractName CodeVersionRecord hex
  | AddCommittee string CommitteeRecord
  | AddRotation string RotationRecord
  | AddGovernance string string hex string "(string \<times> string) list"
  | RetireCode ContractName int hex string bool
  | RetireCommittee string string string

definition forget :: "('a \<times> 'b) result \<Rightarrow> (unit \<times> 'b) result" where
  "forget x = ebind x (\<lambda>(_, r). Inr ((), r))"

fun change_of :: "record_op \<Rightarrow> DeploymentRecord \<Rightarrow> (unit \<times> DeploymentRecord) result" where
  "change_of (AppendCode contract code txHash) r = forget (appendCodeVersion contract code txHash r)"
| "change_of (AddCommittee name c) r = addCommittee name c r"
| "change_of (AddRotation name ro) r = addRotation name ro r"
| "change_of (AddGovernance name operation txHash at detail) r = addGovernance name operation txHash at detail r"
| "change_of (RetireCode contract n txHash at allow) r = retireCode contract n txHash at allow r"
| "change_of (RetireCommittee name reason at) r = retireCommittee name reason at r"

definition record_step :: "string \<Rightarrow> record_file \<Rightarrow> record_op \<Rightarrow> record_file" where
  "record_step network f operation = (case update_record network (change_of operation) f of
      Inl e \<Rightarrow> f | Inr p \<Rightarrow> snd p)"

definition record_run :: "string \<Rightarrow> record_op list \<Rightarrow> record_file \<Rightarrow> record_file" where
  "record_run network ops f = foldl (record_step network) f ops"

definition contents :: "string \<Rightarrow> record_file \<Rightarrow> DeploymentRecord" where
  "contents network f = (case f of None \<Rightarrow> emptyDeploymentRecord network | Some r \<Rightarrow> r)"

section \<open>Nothing is lost\<close>

definition same_code :: "CodeVersionRecord \<Rightarrow> CodeVersionRecord \<Rightarrow> bool" where
  "same_code v v' \<longleftrightarrow> v'\<lparr>cv_retired := cv_retired v\<rparr> = v \<and> (cv_retired v \<noteq> None \<longrightarrow> cv_retired v' \<noteq> None)"

definition committee_kept :: "CommitteeRecord \<Rightarrow> CommitteeRecord \<Rightarrow> bool" where
  "committee_kept c c' \<longleftrightarrow> c'\<lparr>cm_rotations := cm_rotations c\<rparr> = c \<and> prefix (cm_rotations c) (cm_rotations c')"

definition versions_kept :: "DeploymentRecord \<Rightarrow> DeploymentRecord \<Rightarrow> bool" where
  "versions_kept r r' \<longleftrightarrow> (\<forall>contract e n v. dr_contracts r contract = Some e \<longrightarrow> (n, v) \<in> set (cn_versions e) \<longrightarrow>
    (\<exists>e' v'. dr_contracts r' contract = Some e' \<and> (n, v') \<in> set (cn_versions e') \<and> same_code v v'))"

definition committees_kept :: "DeploymentRecord \<Rightarrow> DeploymentRecord \<Rightarrow> bool" where
  "committees_kept r r' \<longleftrightarrow> (\<forall>name c. map_of (dr_committees r) name = Some c \<longrightarrow>
    (\<exists>c'. map_of (dr_committees r') name = Some c' \<and> committee_kept c c') \<or>
    (\<exists>rc \<in> set (dr_retiredCommittees r'). rc_name rc = name \<and> committee_kept c (CommitteeRecord.truncate rc)))"

definition grows_to :: "DeploymentRecord \<Rightarrow> DeploymentRecord \<Rightarrow> bool" where
  "grows_to r r' \<longleftrightarrow> prefix (dr_history r) (dr_history r') \<and> prefix (dr_retiredCommittees r) (dr_retiredCommittees r') \<and>
    versions_kept r r' \<and> committees_kept r r'"

lemma same_code_refl [simp]: "same_code v v"
  by (simp add: same_code_def)

lemma same_code_trans: "same_code v v' \<Longrightarrow> same_code v' v'' \<Longrightarrow> same_code v v''"
  by (cases v; cases v'; cases v'') (auto simp: same_code_def)

lemma committee_kept_refl [simp]: "committee_kept c c"
  by (simp add: committee_kept_def)

lemma committee_kept_trans: "committee_kept c c' \<Longrightarrow> committee_kept c' c'' \<Longrightarrow> committee_kept c c''"
  by (cases c; cases c'; cases c'') (auto simp: committee_kept_def intro: prefix_order.trans)

lemma versions_kept_trans: "versions_kept r r' \<Longrightarrow> versions_kept r' r'' \<Longrightarrow> versions_kept r r''"
  unfolding versions_kept_def by (meson same_code_trans)

lemma committees_kept_trans:
  assumes "committees_kept r r'" "committees_kept r' r''" "prefix (dr_retiredCommittees r') (dr_retiredCommittees r'')"
  shows "committees_kept r r''"
  unfolding committees_kept_def
proof (intro allI impI)
  fix name c assume "map_of (dr_committees r) name = Some c"
  with assms(1) consider c' where "map_of (dr_committees r') name = Some c'" "committee_kept c c'"
    | rc where "rc \<in> set (dr_retiredCommittees r')" "rc_name rc = name" "committee_kept c (CommitteeRecord.truncate rc)"
    unfolding committees_kept_def by blast
  then show "(\<exists>c'. map_of (dr_committees r'') name = Some c' \<and> committee_kept c c') \<or>
    (\<exists>rc \<in> set (dr_retiredCommittees r''). rc_name rc = name \<and> committee_kept c (CommitteeRecord.truncate rc))"
  proof cases
    case 1
    then show ?thesis using assms(2) committee_kept_trans unfolding committees_kept_def by blast
  next
    case 2
    then show ?thesis using set_mono_prefix[OF assms(3)] by blast
  qed
qed

lemma grows_to_refl: "grows_to r r"
  by (auto simp: grows_to_def versions_kept_def committees_kept_def)

lemma grows_to_trans: "grows_to r r' \<Longrightarrow> grows_to r' r'' \<Longrightarrow> grows_to r r''"
  unfolding grows_to_def by (meson prefix_order.trans versions_kept_trans committees_kept_trans)

lemma log_entry_fields [simp]:
  "dr_network (log_entry t a d r) = dr_network r" "dr_contracts (log_entry t a d r) = dr_contracts r"
  "dr_committees (log_entry t a d r) = dr_committees r" "dr_retiredCommittees (log_entry t a d r) = dr_retiredCommittees r"
  "dr_history (log_entry t a d r) = dr_history r @ [\<lparr>hi_txHash = t, hi_at = a, hi_detail = d\<rparr>]"
  by (simp_all add: log_entry_def)

lemma truncate_retired: "CommitteeRecord.truncate (retired_committee c name at reason) = c" "rc_name (retired_committee c name at reason) = name"
  by (cases c; simp add: retired_committee_def CommitteeRecord.defs RetiredCommitteeRecord.defs)+

lemma set_update_entry: "(k, v) \<in> set al \<Longrightarrow> (k, v) \<in> set (AList.update j w al) \<or> k = j \<and> (j, w) \<in> set (AList.update j w al)"
  by (induction al) auto

lemma update_member [simp]: "(j, w) \<in> set (AList.update j w al)"
  by (induction al) auto

lemma same_contracts: "dr_contracts r' = dr_contracts r \<Longrightarrow> versions_kept r r'"
  unfolding versions_kept_def using same_code_refl by metis

lemma same_committees: "dr_committees r' = dr_committees r \<Longrightarrow> committees_kept r r'"
  unfolding committees_kept_def using committee_kept_refl by metis

lemma change_grows:
  assumes "change_of operation r = Inr (x, r')" and d: "\<And>contract e. dr_contracts r contract = Some e \<Longrightarrow> distinct (map fst (cn_versions e))"
  shows "grows_to r r' \<and> dr_network r' = dr_network r"
proof (cases operation)
  case (AppendCode contract code txHash)
  then show ?thesis using assms(1)
    by (auto simp: appendCodeVersion_def forget_def Let_def grows_to_def versions_kept_def committees_kept_def split: option.splits)
      (metis same_code_refl)+
next
  case (AddCommittee name c)
  then show ?thesis using assms(1)
    by (auto simp: addCommittee_def grows_to_def committees_kept_def update_conv' split: if_splits intro!: same_contracts)
next
  case (AddRotation name ro)
  then show ?thesis using assms(1)
    by (auto simp: addRotation_def grows_to_def committees_kept_def update_conv' committee_kept_def split: option.splits intro!: same_contracts)
next
  case (AddGovernance name op txHash at detail)
  then show ?thesis using assms(1)
    by (auto simp: addGovernance_def grows_to_def split: option.splits intro!: same_contracts same_committees)
next
  case (RetireCode contract n txHash at allow)
  then obtain e code where e: "dr_contracts r contract = Some e" "map_of (cn_versions e) n = Some code"
      "r' = log_entry txHash at (RetiredCode contract n) (r\<lparr>dr_contracts := (dr_contracts r)(contract :=
        Some (e\<lparr>cn_versions := AList.update n (code\<lparr>cv_retired := Some (txHash, at)\<rparr>) (cn_versions e)\<rparr>))\<rparr>)"
    using assms(1) by (auto simp: retireCode_def split: option.splits if_splits)
  have "\<exists>v'. (k, v') \<in> set (AList.update n (code\<lparr>cv_retired := Some (txHash, at)\<rparr>) (cn_versions e)) \<and> same_code v v'"
    if "(k, v) \<in> set (cn_versions e)" for k v
  proof (cases "k = n")
    case True
    then have "v = code" using map_of_is_SomeI[OF d[OF e(1)] that] e(2) by simp
    then have "same_code v (code\<lparr>cv_retired := Some (txHash, at)\<rparr>)" by (simp add: same_code_def)
    then show ?thesis using True by (intro exI[of _ "code\<lparr>cv_retired := Some (txHash, at)\<rparr>"]) simp
  next
    case False
    then show ?thesis using set_update_entry[OF that, of n "code\<lparr>cv_retired := Some (txHash, at)\<rparr>"] by auto
  qed
  then have "versions_kept r r'" unfolding versions_kept_def using e(1,3) same_code_refl by (auto simp: e(3))
  then show ?thesis using e(3) by (auto simp: grows_to_def intro!: same_committees)
next
  case (RetireCommittee name reason at)
  then show ?thesis using assms(1)
    by (auto simp: retireCommittee_def grows_to_def committees_kept_def delete_conv' truncate_retired split: option.splits intro!: same_contracts)
qed

text \<open>Only the note of a retirement is ever replaced: retiring a version again overwrites it.\<close>

lemma retirement_overwritten:
  assumes "dr_contracts r contract = Some e" "map_of (cn_versions e) n = Some code" "cv_retired code = Some (t, a)"
  shows "\<exists>r' e' code'. retireCode contract n t' a' True r = Inr ((), r') \<and> dr_contracts r' contract = Some e' \<and>
    map_of (cn_versions e') n = Some code' \<and> cv_retired code' = Some (t', a')"
  using assms by (simp add: retireCode_def update_conv')

section \<open>Every entry is in the history\<close>

definition logged :: "DeploymentRecord \<Rightarrow> HistoryDetail \<Rightarrow> bool" where
  "logged r d \<longleftrightarrow> d \<in> hi_detail ` set (dr_history r)"

definition contract_ok :: "DeploymentRecord \<Rightarrow> ContractName \<Rightarrow> ContractVersions \<Rightarrow> bool" where
  "contract_ok r contract e \<longleftrightarrow> cn_versions e \<noteq> [] \<and> sorted_wrt (<) (0 # map fst (cn_versions e)) \<and>
    cn_current e = last (map fst (cn_versions e)) \<and>
    list_all (\<lambda>(n, v). logged r (DeployedCode contract n (cv_codeHash v))) (cn_versions e)"

definition readable :: "DeploymentRecord \<Rightarrow> bool" where
  "readable r \<longleftrightarrow> (has_core r \<longrightarrow> \<not> midMigration r \<longrightarrow> (\<exists>d. parseDeployment (as_raw r) = Inr d))"

definition record_ok :: "string \<Rightarrow> DeploymentRecord \<Rightarrow> bool" where
  "record_ok network r \<longleftrightarrow> dr_network r = network \<and>
    (\<forall>contract e. dr_contracts r contract = Some e \<longrightarrow> contract_ok r contract e) \<and>
    (\<forall>name c. map_of (dr_committees r) name = Some c \<longrightarrow> logged r (DeployedCommittee name (cm_typeHash c) (cm_publishers c))) \<and>
    list_all (\<lambda>rc. logged r (DeployedCommittee (rc_name rc) (cm_typeHash rc) (cm_publishers rc)) \<and>
      logged r (RetiredCommittee (rc_name rc) (cm_typeHash rc) (rc_reason rc))) (dr_retiredCommittees r)"

lemma logged_log_entry [simp]: "logged (log_entry t a d r) x \<longleftrightarrow> logged r x \<or> x = d"
  by (auto simp: logged_def)

lemma logged_fields [simp]:
  "logged (r\<lparr>dr_contracts := cs\<rparr>) x = logged r x" "logged (r\<lparr>dr_committees := ms\<rparr>) x = logged r x"
  "logged (r\<lparr>dr_committees := ms, dr_retiredCommittees := rs\<rparr>) x = logged r x"
  by (simp_all add: logged_def)

lemma logged_mono: "prefix (dr_history r) (dr_history r') \<Longrightarrow> logged r x \<Longrightarrow> logged r' x"
  by (auto simp: logged_def dest: set_mono_prefix)

lemma contract_ok_distinct: "contract_ok r contract e \<Longrightarrow> distinct (map fst (cn_versions e))"
  by (simp add: contract_ok_def strict_sorted_iff)

lemma next_version_greater: "n \<in> insert 0 (fst ` set vs) \<Longrightarrow> n < next_version vs"
  unfolding next_version_def by (meson Max_ge finite_imageI finite_insert finite_set le_imp_less_Suc zle_add1_eq_le less_add_one order_le_less_trans)

lemma contract_ok_append:
  assumes "e = \<lparr>cn_current = 0, cn_versions = []\<rparr> \<or> contract_ok r contract e"
    and "logged r' (DeployedCode contract (next_version (cn_versions e)) (cv_codeHash code))"
    and "\<And>x. logged r x \<Longrightarrow> logged r' x"
  shows "contract_ok r' contract (e\<lparr>cn_versions := cn_versions e @ [(next_version (cn_versions e), code)],
    cn_current := next_version (cn_versions e)\<rparr>)"
proof -
  have "sorted_wrt (<) (0 # map fst (cn_versions e))" "list_all (\<lambda>(n, v). logged r (DeployedCode contract n (cv_codeHash v))) (cn_versions e)"
    using assms(1) by (auto simp: contract_ok_def)
  moreover from this(2) have "list_all (\<lambda>(n, v). logged r' (DeployedCode contract n (cv_codeHash v))) (cn_versions e)"
    by (rule list.pred_mono_strong) (use assms(3) in auto)
  moreover have "n < next_version (cn_versions e)" if "n \<in> set (0 # map fst (cn_versions e))" for n
    using next_version_greater that by auto
  ultimately show ?thesis using assms(2) by (auto simp: contract_ok_def sorted_wrt_append)
qed

lemma contract_ok_retire:
  assumes "contract_ok r contract e" "map_of (cn_versions e) n = Some code" and "\<And>x. logged r x \<Longrightarrow> logged r' x"
  shows "contract_ok r' contract (e\<lparr>cn_versions := AList.update n (code\<lparr>cv_retired := x\<rparr>) (cn_versions e)\<rparr>)"
proof -
  have keys: "map fst (AList.update n (code\<lparr>cv_retired := x\<rparr>) (cn_versions e)) = map fst (cn_versions e)"
    using assms(2) by (simp add: update_keys) (metis map_of_SomeD fst_conv image_eqI)
  have "logged r' (DeployedCode contract k (cv_codeHash v))"
    if m: "(k, v) \<in> set (AList.update n (code\<lparr>cv_retired := x\<rparr>) (cn_versions e))" for k v
  proof -
    have "\<exists>v0. (k, v0) \<in> set (cn_versions e) \<and> cv_codeHash v = cv_codeHash v0"
      using subsetD[OF alist_update_subset m] map_of_SomeD[OF assms(2)] by auto
    then show ?thesis using assms(1,3) by (auto simp: contract_ok_def list_all_iff)
  qed
  then show ?thesis using assms(1) keys by (auto simp: contract_ok_def list_all_iff)
qed

lemma change_ok:
  assumes "change_of operation r = Inr (x, r')" and ok: "record_ok network r"
  shows "record_ok network r'"
proof -
  have g: "prefix (dr_history r) (dr_history r')" "dr_network r' = network"
    using change_grows[OF assms(1)] ok by (auto simp: record_ok_def grows_to_def dest: contract_ok_distinct)
  note mono = logged_mono[OF g(1)]
  have kept: "contract_ok r' contract e" if "contract_ok r contract e" for contract e
    using that mono by (auto simp: contract_ok_def list_all_iff)
  have cs: "contract_ok r' contract e" if c: "dr_contracts r' contract = Some e" for contract e
  proof (cases operation)
    case (AppendCode contract' code txHash)
    let ?e = "case dr_contracts r contract' of None \<Rightarrow> \<lparr>cn_current = 0, cn_versions = []\<rparr> | Some e \<Rightarrow> e"
    have r': "r' = log_entry txHash (cv_deployedAt code) (DeployedCode contract' (next_version (cn_versions ?e)) (cv_codeHash code))
        (r\<lparr>dr_contracts := (dr_contracts r)(contract' \<mapsto> ?e\<lparr>cn_versions := cn_versions ?e @ [(next_version (cn_versions ?e), code)],
          cn_current := next_version (cn_versions ?e)\<rparr>)\<rparr>)"
      using assms(1) AppendCode by (simp add: appendCodeVersion_def forget_def Let_def)
    have "?e = \<lparr>cn_current = 0, cn_versions = []\<rparr> \<or> contract_ok r contract' ?e"
      using ok by (auto simp: record_ok_def split: option.splits)
    from contract_ok_append[OF this _ mono, of code] have "contract_ok r' contract' (?e\<lparr>cn_versions := cn_versions ?e @
        [(next_version (cn_versions ?e), code)], cn_current := next_version (cn_versions ?e)\<rparr>)" by (simp add: r')
    then show ?thesis using c ok kept by (cases "contract = contract'") (auto simp: r' record_ok_def)
  next
    case (RetireCode contract' n txHash at allow)
    then obtain e0 code where e0: "dr_contracts r contract' = Some e0" "map_of (cn_versions e0) n = Some code"
      "r' = log_entry txHash at (RetiredCode contract' n) (r\<lparr>dr_contracts := (dr_contracts r)(contract' :=
        Some (e0\<lparr>cn_versions := AList.update n (code\<lparr>cv_retired := Some (txHash, at)\<rparr>) (cn_versions e0)\<rparr>))\<rparr>)"
      using assms(1) by (auto simp: retireCode_def split: option.splits if_splits)
    have "contract_ok r contract' e0" using ok e0(1) by (auto simp: record_ok_def)
    from contract_ok_retire[OF this e0(2) mono, of "Some (txHash, at)"] show ?thesis
      using c ok kept by (cases "contract = contract'") (auto simp: e0(3) record_ok_def)
  qed (use assms(1) c ok kept in \<open>auto simp: addCommittee_def addRotation_def addGovernance_def retireCommittee_def record_ok_def
      split: option.splits if_splits\<close>)
  have ms: "logged r' (DeployedCommittee name (cm_typeHash c) (cm_publishers c))" if c: "map_of (dr_committees r') name = Some c" for name c
    using assms(1) c ok
    by (cases operation) (auto simp: appendCodeVersion_def forget_def Let_def retireCode_def addCommittee_def addRotation_def addGovernance_def
        retireCommittee_def record_ok_def update_conv' delete_conv' split: option.splits if_splits)
  have rs: "list_all (\<lambda>rc. logged r' (DeployedCommittee (rc_name rc) (cm_typeHash rc) (cm_publishers rc)) \<and>
      logged r' (RetiredCommittee (rc_name rc) (cm_typeHash rc) (rc_reason rc))) (dr_retiredCommittees r')"
    using assms(1) ok
    by (cases operation) (auto simp: appendCodeVersion_def forget_def Let_def retireCode_def addCommittee_def addRotation_def addGovernance_def
        retireCommittee_def record_ok_def list_all_iff retired_committee_def CommitteeRecord.defs RetiredCommitteeRecord.defs
        split: option.splits if_splits)
  show ?thesis using g(2) cs ms rs by (auto simp: record_ok_def)
qed

section \<open>Every run\<close>

lemma empty_ok: "record_ok network (emptyDeploymentRecord network)" "readable (emptyDeploymentRecord network)"
  by (simp_all add: record_ok_def emptyDeploymentRecord_def readable_def has_core_def)

lemma step_ok:
  assumes ok: "record_ok network (contents network f)" "readable (contents network f)"
  shows "record_ok network (contents network (record_step network f operation)) \<and>
    readable (contents network (record_step network f operation)) \<and>
    grows_to (contents network f) (contents network (record_step network f operation))"
proof (cases "update_record network (change_of operation) f")
  case (Inl e)
  then show ?thesis using ok grows_to_refl by (simp add: record_step_def)
next
  case (Inr p)
  have r: "read_record network f = Inr (contents network f)"
    using ok(1) by (auto simp: read_record_def contents_def record_ok_def split: option.splits)
  from Inr r obtain x r' where c: "change_of operation (contents network f) = Inr (x, r')"
      "has_core r' \<and> \<not> midMigration r' \<longrightarrow> (\<exists>d. parseDeployment (as_raw r') = Inr d)" "p = (x, Some r')"
    by (auto simp: update_record_def ebind_eq_Inr split: if_splits)
  have "contents network (record_step network f operation) = r'"
    using Inr c(3) by (simp add: record_step_def contents_def)
  moreover have "distinct (map fst (cn_versions e))" if "dr_contracts (contents network f) contract = Some e" for contract e
    using ok(1) that contract_ok_distinct unfolding record_ok_def by blast
  ultimately show ?thesis using change_ok[OF c(1) ok(1)] change_grows[OF c(1)] c(2) by (simp add: readable_def)
qed

lemma run_ok:
  "record_ok network (contents network f) \<Longrightarrow> readable (contents network f) \<Longrightarrow>
    record_ok network (contents network (record_run network ops f)) \<and>
    readable (contents network (record_run network ops f)) \<and>
    grows_to (contents network f) (contents network (record_run network ops f))"
proof (induction ops arbitrary: f)
  case Nil
  then show ?case by (simp add: record_run_def grows_to_refl)
next
  case (Cons operation ops)
  note s = step_ok[OF Cons.prems, of operation]
  from s Cons.IH[of "record_step network f operation"] show ?case
    by (auto simp: record_run_def intro: grows_to_trans)
qed

section \<open>Properties\<close>

text \<open>Starting without a file, after any operations, in any order and failing or not, the record holds in its
  history every code version and committee it has ever held; the current version of a contract is its newest
  one; and unless a current version is retired, the SDK reads the record. Whatever follows, the history is only
  appended to, no version changes its code, and no committee disappears except into the list of retired ones.\<close>

theorem record_append_only:
  "record_ok network (contents network (record_run network ops None)) \<and>
   readable (contents network (record_run network ops None)) \<and>
   grows_to (contents network (record_run network ops None)) (contents network (record_run network (ops @ later) None))"
proof -
  have ok: "record_ok network (contents network (record_run network ops None))"
      "readable (contents network (record_run network ops None))"
    using run_ok[of network None ops] empty_ok by (auto simp: contents_def)
  have "record_run network (ops @ later) None = record_run network later (record_run network ops None)"
    by (simp add: record_run_def)
  then show ?thesis using run_ok[of network "record_run network ops None" later] ok by simp
qed

end
