(* ===== verification/Shadow.thy ===== *)
theory Shadow
  imports Methodology Config_Schedule Publisher_Store Publisher_Node
begin

text \<open>
  \<open>apps/publisher/src/shadow.ts\<close>: an operator outside the committee compares its prices with the signed ones of a
  mirror and keeps them as history. The reply of the mirror is an argument (\<open>Inl\<close> when the request or its JSON
  fails), the timers and the status page are not modelled. Lemmas: the statistics count what was compared; a
  signed update that is kept has its header verified, but not its entries.
\<close>

section \<open>Statistics\<close>

datatype deviation = Bps int | InfiniteBps

record FeedStats =
  fs_symbol :: string
  fs_compared :: int
  fs_withinTolerance :: int
  fs_missedByUs :: int
  fs_missedByCommittee :: int
  fs_maxDeviationBps :: deviation
  fs_lastDeviationBps :: "deviation option"

fun max_deviation :: "deviation \<Rightarrow> deviation \<Rightarrow> deviation" where
  "max_deviation (Bps a) (Bps b) = Bps (max a b)"
| "max_deviation _ _ = InfiniteBps"

fun within :: "deviation \<Rightarrow> int \<Rightarrow> bool" where
  "within (Bps a) tolerance \<longleftrightarrow> a \<le> tolerance"
| "within InfiniteBps tolerance \<longleftrightarrow> False"

definition deviationBps :: "int \<Rightarrow> int \<Rightarrow> deviation" where
  "deviationBps own reference =
    (if reference \<le> 0 then InfiniteBps
     else
       let diff = (if own > reference then own - reference else reference - own)
       in Bps (big_div (diff * 10000 + reference - 1) reference))"

definition new_stats :: "string \<Rightarrow> FeedStats" where
  "new_stats symbol = \<lparr>fs_symbol = symbol, fs_compared = 0, fs_withinTolerance = 0, fs_missedByUs = 0,
    fs_missedByCommittee = 0, fs_maxDeviationBps = Bps 0, fs_lastDeviationBps = None\<rparr>"

text \<open>One feed of a comparison, by the two prices.\<close>

definition compare_feed :: "int \<Rightarrow> int option \<Rightarrow> int option \<Rightarrow> FeedStats \<Rightarrow> FeedStats" where
  "compare_feed toleranceBps mine theirs s =
    (case (mine, theirs) of
      (None, None) \<Rightarrow> s
    | (None, Some _) \<Rightarrow> s\<lparr>fs_missedByUs := fs_missedByUs s + 1\<rparr>
    | (Some _, None) \<Rightarrow> s\<lparr>fs_missedByCommittee := fs_missedByCommittee s + 1\<rparr>
    | (Some m, Some t) \<Rightarrow>
        let dev = deviationBps m t;
            s = s\<lparr>fs_compared := fs_compared s + 1, fs_lastDeviationBps := Some dev,
                  fs_maxDeviationBps := max_deviation (fs_maxDeviationBps s) dev\<rparr>
        in if within dev toleranceBps then s\<lparr>fs_withinTolerance := fs_withinTolerance s + 1\<rparr> else s)"

section \<open>The reference prices\<close>

text \<open>\<open>BigInt(s)\<close> of a decimal, with or without a sign; a radix prefix is left out.\<close>

definition parse_bigint :: "string \<Rightarrow> int result" where
  "parse_bigint s =
    (let t = trim s;
         negative = (t \<noteq> [] \<and> t ! 0 = CHR ''-'');
         body = (if t \<noteq> [] \<and> (t ! 0 = CHR ''-'' \<or> t ! 0 = CHR ''+'') then drop 1 t else t)
     in if t = [] then Inr 0
        else if is_decimal body then Inr (if negative then - decimal_value body else decimal_value body)
        else Inl (Failure ''Cannot convert to a BigInt''))"

record ReferenceUpdate =
  ru_publishTimeMs :: string
  ru_blob :: "hex option"
  ru_prices :: "(hex \<times> string) list"

record ShadowOptions =
  so_schedule :: ConfigSchedule
  so_publisherSetTypeHash :: hex
  so_set :: "PublisherSet option"

record ShadowRunner =
  sh_stats :: "(hex \<times> FeedStats) list"
  sh_store :: "PublisherStore option"

text \<open>\<open>keep\<close>: the body of its \<open>try\<close>, and the whole method; a caught exception leaves the store.\<close>

definition kept :: "crypto \<Rightarrow> hex \<Rightarrow> PublisherSet \<Rightarrow> hex \<Rightarrow> PublisherStore \<Rightarrow> PublisherStore result" where
  "kept C committee s blobHex store =
    ebind (hexToBytes blobHex) (\<lambda>blob.
    ebind (decodePriceUpdate (Raw blob)) (\<lambda>update.
    if toLowerCase (h_publisherSetTypeHash (u_header update)) \<noteq> toLowerCase committee \<or>
       h_setIndex (u_header update) \<noteq> setIndex s
    then Inr store
    else
      ebind (priceUpdateSigningHash C (u_header update)) (\<lambda>digest.
      ebind (verifyThreshold C (u_signatures update) (HexStr digest) s) (\<lambda>signed.
      Inr (if \<not> signed then store else snd (saveFinalized store update blob))))))"

definition keep :: "crypto \<Rightarrow> ShadowOptions \<Rightarrow> hex \<Rightarrow> PublisherStore option \<Rightarrow> PublisherStore option" where
  "keep C o' blobHex store0 =
    (case (store0, so_set o') of
      (Some store, Some s) \<Rightarrow> (case kept C (so_publisherSetTypeHash o') s blobHex store of
          Inl e \<Rightarrow> Some store | Inr store' \<Rightarrow> Some store')
    | _ \<Rightarrow> store0)"

definition add_price :: "(hex \<times> int) list \<Rightarrow> hex \<times> string \<Rightarrow> (hex \<times> int) list result" where
  "add_price out p = ebind (parse_bigint (snd p)) (\<lambda>v. Inr (AList.update (toLowerCase (fst p)) v out))"

text \<open>The loop over the updates of a reply: an exception leaves what was kept before it.\<close>

fun reference_loop :: "crypto \<Rightarrow> ShadowOptions \<Rightarrow> int \<Rightarrow> ReferenceUpdate list \<Rightarrow> (hex \<times> int) list \<Rightarrow> PublisherStore option \<Rightarrow>
    (hex \<times> int) list result \<times> PublisherStore option" where
  "reference_loop C o' tickMs [] out store = (Inr out, store)"
| "reference_loop C o' tickMs (u # us) out store =
    (case parse_bigint (ru_publishTimeMs u) of
      Inl e \<Rightarrow> (Inl e, store)
    | Inr t \<Rightarrow>
        if t \<noteq> tickMs then reference_loop C o' tickMs us out store
        else (case efold add_price out (ru_prices u) of
            Inl e \<Rightarrow> (Inl e, store)
          | Inr out' \<Rightarrow> reference_loop C o' tickMs us out'
              (case ru_blob u of None \<Rightarrow> store | Some b \<Rightarrow> if b = [] then store else keep C o' b store)))"

definition fetchReference :: "crypto \<Rightarrow> ShadowOptions \<Rightarrow> int \<Rightarrow> ReferenceUpdate list result \<Rightarrow> PublisherStore option \<Rightarrow>
    (hex \<times> int) list result \<times> PublisherStore option" where
  "fetchReference C o' tickMs reply store = (case reply of
      Inl e \<Rightarrow> (Inl e, store) | Inr updates \<Rightarrow> reference_loop C o' tickMs updates [] store)"

section \<open>Ticks\<close>

record ShadowFeed =
  sf_feedId :: hex
  sf_symbol :: string
  sf_toleranceBps :: int

definition shadow_feeds :: "CommitteeConfig \<Rightarrow> ShadowFeed list" where
  "shadow_feeds config = map (\<lambda>f. \<lparr>sf_feedId = toLowerCase (fb_feedId (feed_base f)), sf_symbol = fb_symbol (feed_base f),
    sf_toleranceBps = fb_toleranceBps (feed_base f)\<rparr>) (c_feeds config)"

text \<open>The observation at a tick and the feeds to compare later; none without an active configuration.\<close>

definition shadow_tick :: "ShadowOptions \<Rightarrow> MarketData \<Rightarrow> int \<Rightarrow> (ObservationEntry list \<times> ShadowFeed list) option result" where
  "shadow_tick o' md tickMs = (case schedule_at (so_schedule o') tickMs of
      None \<Rightarrow> Inr None
    | Some active \<Rightarrow> ebind (observeFeeds (ac_config active) md tickMs) (\<lambda>own.
        Inr (Some (own, shadow_feeds (ac_config active)))))"

definition own_prices :: "ObservationEntry list \<Rightarrow> (hex \<times> int) list" where
  "own_prices own = foldl (\<lambda>m e. AList.update (toLowerCase (oe_feedId e)) (oe_price e) m) [] own"

definition compare_one :: "(hex \<times> int) list \<Rightarrow> (hex \<times> int) list \<Rightarrow> (hex \<times> FeedStats) list \<Rightarrow> ShadowFeed \<Rightarrow> (hex \<times> FeedStats) list" where
  "compare_one ours reference stats f =
    (let s = (case map_of stats (sf_feedId f) of None \<Rightarrow> new_stats (sf_symbol f) | Some s \<Rightarrow> s)
     in AList.update (sf_feedId f)
          (compare_feed (sf_toleranceBps f) (map_of ours (sf_feedId f)) (map_of reference (sf_feedId f)) s) stats)"

definition shadow_compare :: "crypto \<Rightarrow> ShadowOptions \<Rightarrow> int \<Rightarrow> ObservationEntry list \<Rightarrow> ShadowFeed list \<Rightarrow>
    ReferenceUpdate list result \<Rightarrow> ShadowRunner \<Rightarrow> ShadowRunner" where
  "shadow_compare C o' tickMs own feeds reply sh =
    (case fetchReference C o' tickMs reply (sh_store sh) of
      (Inl e, store) \<Rightarrow> sh\<lparr>sh_store := store\<rparr>
    | (Inr reference, store) \<Rightarrow> sh\<lparr>sh_stats := foldl (compare_one (own_prices own) reference) (sh_stats sh) feeds, sh_store := store\<rparr>)"

definition shadow_report :: "ShadowRunner \<Rightarrow> FeedStats list" where
  "shadow_report sh = map snd (sh_stats sh)"

section \<open>What the statistics mean\<close>

definition compare_run :: "int \<Rightarrow> string \<Rightarrow> (int option \<times> int option) list \<Rightarrow> FeedStats" where
  "compare_run toleranceBps symbol prices = foldl (\<lambda>s (m, t). compare_feed toleranceBps m t s) (new_stats symbol) prices"

definition both :: "(int option \<times> int option) list \<Rightarrow> (int \<times> int) list" where
  "both prices = [(m, t). (Some m, Some t) \<leftarrow> prices]"

lemma compare_run_snoc:
  "compare_run tol symbol (prices @ [p]) = compare_feed tol (fst p) (snd p) (compare_run tol symbol prices)"
  by (simp add: compare_run_def case_prod_beta)

lemma both_snoc: "both (prices @ [p]) = both prices @ (case p of (Some m, Some t) \<Rightarrow> [(m, t)] | _ \<Rightarrow> [])"
  by (auto simp: both_def split: prod.splits option.splits)

lemma shadow_counts:
  "fs_compared (compare_run tol symbol prices) = int (length (both prices)) \<and>
   fs_withinTolerance (compare_run tol symbol prices) = int (length (filter (\<lambda>(m, t). within (deviationBps m t) tol) (both prices))) \<and>
   fs_missedByUs (compare_run tol symbol prices) = int (length (filter (\<lambda>(m, t). m = None \<and> t \<noteq> None) prices)) \<and>
   fs_missedByCommittee (compare_run tol symbol prices) = int (length (filter (\<lambda>(m, t). m \<noteq> None \<and> t = None) prices))"
proof (induction prices rule: rev_induct)
  case Nil
  show ?case by (simp add: compare_run_def new_stats_def both_def)
next
  case (snoc p prices)
  then show ?case
    unfolding compare_run_snoc both_snoc
    by (cases p) (auto simp: compare_feed_def Let_def split: option.splits)
qed

lemma shadow_worst:
  "fs_maxDeviationBps (compare_run tol symbol prices) =
    foldl (\<lambda>worst (m, t). max_deviation worst (deviationBps m t)) (Bps 0) (both prices)"
proof (induction prices rule: rev_induct)
  case Nil
  show ?case by (simp add: compare_run_def new_stats_def both_def)
next
  case (snoc p prices)
  then show ?case
    unfolding compare_run_snoc both_snoc
    by (cases p) (auto simp: compare_feed_def Let_def split: option.splits)
qed

lemma div_less_int_iff:
  fixes a b c :: int
  assumes "0 < c"
  shows "a div c < b \<longleftrightarrow> a < b * c"
proof
  assume "a div c < b"
  then have "(a div c + 1) * c \<le> b * c" using assms by (intro mult_right_mono) auto
  moreover have "a < (a div c + 1) * c"
    using pos_mod_bound [OF assms, of a] div_mult_mod_eq [of a c] by (simp only: distrib_right mult_1_left)
  ultimately show "a < b * c" by linarith
next
  assume *: "a < b * c"
  show "a div c < b"
  proof (rule ccontr)
    assume "\<not> a div c < b"
    then have "b * c \<le> a div c * c" using assms by (intro mult_right_mono) auto
    with * show False
      using pos_mod_sign [OF assms, of a] div_mult_mod_eq [of a c] by linarith
  qed
qed

text \<open>A deviation is the smallest number of basis points of the reference that covers the difference.\<close>

lemma within_deviation:
  assumes "0 < reference"
  shows "within (deviationBps own reference) tol \<longleftrightarrow> \<bar>own - reference\<bar> * 10000 \<le> tol * reference"
proof -
  define n where "n = \<bar>own - reference\<bar> * 10000"
  have "0 \<le> n" by (simp add: n_def)
  have "(n + reference - 1) div reference < tol + 1 \<longleftrightarrow> n + reference - 1 < (tol + 1) * reference"
    by (rule div_less_int_iff [OF assms])
  also have "\<dots> \<longleftrightarrow> n \<le> tol * reference" by (simp add: distrib_right) linarith
  finally have *: "(n + reference - 1) div reference \<le> tol \<longleftrightarrow> n \<le> tol * reference" by linarith
  have "deviationBps own reference = Bps (big_div (n + reference - 1) reference)"
    using assms unfolding deviationBps_def Let_def n_def by (simp add: abs_if)
  also have "big_div (n + reference - 1) reference = (n + reference - 1) div reference"
    by (rule big_div_nonneg) (use assms \<open>0 \<le> n\<close> in auto)
  finally show ?thesis using * by (simp add: n_def)
qed

text \<open>The publishers own rule measures the difference against its own price.\<close>

lemma shadow_tolerance_differs:
  "within (deviationBps 100 111) 1000 \<and> \<not> withinTolerance 111 100 1000"
  by code_simp

section \<open>What is kept\<close>

lemma reference_prices_free:
  "fst (reference_loop C o' tickMs us out store) = fst (reference_loop C o' tickMs us out store')"
proof (induction us arbitrary: out store store')
  case (Cons u us)
  obtain r where r: "r = parse_bigint (ru_publishTimeMs u)" by simp
  obtain q where q: "q = efold add_price out (ru_prices u)" by simp
  show ?case unfolding reference_loop.simps r[symmetric] q[symmetric]
    by (cases r; cases q)
      (simp_all only: sum.case fst_conv split: if_split, safe intro!: Cons.IH)
qed simp

lemma kept_iff:
  "kept C committee s blobHex store = Inr store' \<and> store' \<noteq> store \<longleftrightarrow>
    (\<exists>blob u digest. hexToBytes blobHex = Inr blob \<and> decodePriceUpdate (Raw blob) = Inr u \<and>
      toLowerCase (h_publisherSetTypeHash (u_header u)) = toLowerCase committee \<and>
      h_setIndex (u_header u) = setIndex s \<and> priceUpdateSigningHash C (u_header u) = Inr digest \<and>
      verifyThreshold C (u_signatures u) (HexStr digest) s = Inr True \<and>
      store' = snd (saveFinalized store u blob) \<and> store' \<noteq> store)"
  (is "?l = ?r")
proof
  assume ?l
  then show ?r
    unfolding kept_def ebind_eq_Inr by (elim conjE exE; simp only: ebind_eq_Inr sum.inject split: if_splits; blast)
next
  assume ?r
  then show ?l unfolding kept_def by (elim conjE exE) (simp only: ebind_simps simp_thms if_False if_True)
qed

text \<open>The entries of the update are not looked at: any update with a signed header is stored.\<close>

lemma keep_changes_iff:
  "keep C o' blobHex (Some store) = Some store' \<and> store' \<noteq> store \<longleftrightarrow>
    (\<exists>s blob u digest. so_set o' = Some s \<and> hexToBytes blobHex = Inr blob \<and> decodePriceUpdate (Raw blob) = Inr u \<and>
      toLowerCase (h_publisherSetTypeHash (u_header u)) = toLowerCase (so_publisherSetTypeHash o') \<and>
      h_setIndex (u_header u) = setIndex s \<and> priceUpdateSigningHash C (u_header u) = Inr digest \<and>
      verifyThreshold C (u_signatures u) (HexStr digest) s = Inr True \<and>
      store' = snd (saveFinalized store u blob) \<and> store' \<noteq> store)"
proof (cases "so_set o'")
  case None
  then show ?thesis by (auto simp: keep_def)
next
  case (Some s)
  have "keep C o' blobHex (Some store) = Some store' \<and> store' \<noteq> store \<longleftrightarrow>
      kept C (so_publisherSetTypeHash o') s blobHex store = Inr store' \<and> store' \<noteq> store"
    using Some by (auto simp: keep_def split: sum.splits)
  then show ?thesis unfolding kept_iff using Some by simp
qed

end
