(* ===== verification/Js_Values.thy ===== *)
theory Js_Values
  imports Market_Data "HOL-Library.Log_Nat"
begin

text \<open>
  What the exchange parsers use of JavaScript: numbers as IEEE doubles with \<open>Number(s)\<close>, \<open>String(x)\<close> and \<open>toFixed\<close>,
  and the values \<open>JSON.parse\<close> returns, with property access. The sign of zero is left out, and an array or object
  is its content (no two values of one message are the same object).

  Lemmas: the comparison of numbers is a strict weak order, apart from \<open>NaN\<close>.
\<close>

section \<open>Numbers\<close>

text \<open>A number is \<open>NaN\<close>, an infinity, or the rational a double stands for.\<close>

datatype js_number = NaN | NegInf | PosInf | Fin rat

definition pow2 :: "int \<Rightarrow> rat" where
  "pow2 e = (if 0 \<le> e then 2 ^ nat e else 1 / 2 ^ nat (- e))"

definition pow10 :: "int \<Rightarrow> rat" where
  "pow10 e = (if 0 \<le> e then 10 ^ nat e else 1 / 10 ^ nat (- e))"

text \<open>The largest \<open>e\<close> with \<open>2\<^sup>e \<le> r\<close>, for a positive \<open>r\<close>.\<close>

definition binary_exponent :: "rat \<Rightarrow> int" where
  "binary_exponent r =
    (let (a, b) = quotient_of r; e = int (floorlog 2 (nat a)) - int (floorlog 2 (nat b))
     in if pow2 e \<le> r then e else e - 1)"

definition round_half_even :: "rat \<Rightarrow> int" where
  "round_half_even r =
    (let n = \<lfloor>r\<rfloor>; d = r - of_int n
     in if d < 1 / 2 then n else if d > 1 / 2 then n + 1 else if even n then n else n + 1)"

text \<open>The double nearest to a rational.\<close>

definition to_double :: "rat \<Rightarrow> js_number" where
  "to_double r =
    (if r = 0 then Fin 0
     else
       let ulp = pow2 (max (binary_exponent \<bar>r\<bar> - 52) (- 1074));
           v = of_int (round_half_even (\<bar>r\<bar> / ulp)) * ulp
       in if v \<ge> 2 ^ 1024 then (if r < 0 then NegInf else PosInf) else Fin (if r < 0 then - v else v))"

fun js_less :: "js_number \<Rightarrow> js_number \<Rightarrow> bool" where
  "js_less (Fin a) (Fin b) \<longleftrightarrow> a < b"
| "js_less NegInf (Fin b) \<longleftrightarrow> True"
| "js_less NegInf PosInf \<longleftrightarrow> True"
| "js_less (Fin a) PosInf \<longleftrightarrow> True"
| "js_less _ _ \<longleftrightarrow> False"

text \<open>\<open>Number(s)\<close>: the grammar of numeric strings.\<close>

definition unsigned_decimal :: "string \<Rightarrow> rat option" where
  "unsigned_decimal t =
    (let whole = takeWhile is_digit t;
         r = dropWhile is_digit t;
         (fraction, tail) = (case r of [] \<Rightarrow> ([], [])
           | c # x \<Rightarrow> if c = CHR ''.'' then (takeWhile is_digit x, dropWhile is_digit x) else ([], r));
         digits = of_int (decimal_value (whole @ fraction)) :: rat
     in if whole = [] \<and> fraction = [] then None
        else case tail of
          [] \<Rightarrow> Some (digits * pow10 (- int (length fraction)))
        | c # x \<Rightarrow>
            if c = CHR ''e'' \<or> c = CHR ''E'' then
              let signed_exp = (x \<noteq> [] \<and> (x ! 0 = CHR ''-'' \<or> x ! 0 = CHR ''+''));
                  e = (if signed_exp then drop 1 x else x);
                  n = (if signed_exp \<and> x ! 0 = CHR ''-'' then - decimal_value e else decimal_value e)
              in if is_decimal e then Some (digits * pow10 (n - int (length fraction))) else None
            else None)"

definition radix_digit :: "nat \<Rightarrow> char \<Rightarrow> nat option" where
  "radix_digit b c =
    (let n = of_char c :: nat;
         d = (if 48 \<le> n \<and> n \<le> 57 then n - 48 else if 97 \<le> n \<and> n \<le> 122 then n - 87 else if 65 \<le> n \<and> n \<le> 90 then n - 55 else 99)
     in if d < b then Some d else None)"

definition radix_number :: "nat \<Rightarrow> string \<Rightarrow> js_number" where
  "radix_number b t =
    (if t = [] \<or> list_ex (\<lambda>c. radix_digit b c = None) t then NaN
     else to_double (of_nat (foldl (\<lambda>n c. n * b + the (radix_digit b c)) 0 t)))"

definition number_of_string :: "string \<Rightarrow> js_number" where
  "number_of_string s =
    (let t = trim s;
         prefix = map (\<lambda>c. if c \<in> {CHR ''X'', CHR ''O'', CHR ''B''} then char_of (of_char c + 32 :: nat) else c) (take 2 t);
         signed_num = (t \<noteq> [] \<and> (t ! 0 = CHR ''-'' \<or> t ! 0 = CHR ''+''));
         body = (if signed_num then drop 1 t else t);
         negative = (signed_num \<and> t ! 0 = CHR ''-'')
     in if t = [] then Fin 0
        else if prefix = ''0x'' then radix_number 16 (drop 2 t)
        else if prefix = ''0o'' then radix_number 8 (drop 2 t)
        else if prefix = ''0b'' then radix_number 2 (drop 2 t)
        else if body = ''Infinity'' then (if negative then NegInf else PosInf)
        else case unsigned_decimal body of None \<Rightarrow> NaN
          | Some v \<Rightarrow> to_double (if negative then - v else v))"

text \<open>\<open>String(x)\<close>: the shortest digits that read back as \<open>x\<close>; \<open>10\<^sup>n\<^sup>-\<^sup>1 \<le> x < 10\<^sup>n\<close>.\<close>

definition decimal_exponent :: "rat \<Rightarrow> int" where
  "decimal_exponent r =
    (let (a, b) = quotient_of r; n = int (length (digits_of (nat a))) - int (length (digits_of (nat b)))
     in if pow10 n \<le> r then n + 1 else n)"

fun shortest_digits :: "nat \<Rightarrow> nat \<Rightarrow> rat \<Rightarrow> int \<Rightarrow> int \<times> nat" where
  "shortest_digits 0 k x n = (\<lfloor>x * pow10 (int k - n)\<rfloor>, k)"
| "shortest_digits (Suc fuel) k x n =
    (let low = \<lfloor>x * pow10 (int k - n)\<rfloor>;
         fits = (\<lambda>s. to_double (of_int s * pow10 (n - int k)) = Fin x);
         nearest = (if x * pow10 (int k - n) - of_int low \<le> 1 / 2 then [low, low + 1] else [low + 1, low])
     in case filter fits nearest of s # _ \<Rightarrow> (s, k) | [] \<Rightarrow> shortest_digits fuel (k + 1) x n)"

definition positive_string :: "rat \<Rightarrow> string" where
  "positive_string x =
    (let n0 = decimal_exponent x;
         (s, k0) = shortest_digits 16 1 x n0;
         all = digits_of (nat s);
         n = n0 + int (length all) - int k0;
         ds = rev (dropWhile (\<lambda>c. c = CHR ''0'') (rev all));
         k = int (length ds)
     in if k \<le> n \<and> n \<le> 21 then ds @ replicate (nat (n - k)) (CHR ''0'')
        else if 0 < n \<and> n \<le> 21 then take (nat n) ds @ CHR ''.'' # drop (nat n) ds
        else if - 6 < n \<and> n \<le> 0 then ''0.'' @ replicate (nat (- n)) (CHR ''0'') @ ds
        else
          let e = (if n - 1 < 0 then CHR ''-'' # digits_of (nat (1 - n)) else CHR ''+'' # digits_of (nat (n - 1)))
          in if k = 1 then ds @ CHR ''e'' # e else take 1 ds @ CHR ''.'' # drop 1 ds @ CHR ''e'' # e)"

fun number_string :: "js_number \<Rightarrow> string" where
  "number_string NaN = ''NaN''"
| "number_string NegInf = ''-Infinity''"
| "number_string PosInf = ''Infinity''"
| "number_string (Fin x) = (if x = 0 then ''0'' else if x < 0 then CHR ''-'' # positive_string (- x) else positive_string x)"

text \<open>\<open>x.toFixed(18)\<close>.\<close>

definition fixed18 :: "rat \<Rightarrow> string" where
  "fixed18 x =
    (let n = \<lfloor>x * 10 ^ 18 + 1 / 2\<rfloor>;
         m = digits_of (nat n);
         z = replicate (19 - length m) (CHR ''0'') @ m;
         k = length z
     in take (k - 18) z @ CHR ''.'' # drop (k - 18) z)"

fun to_fixed18 :: "js_number \<Rightarrow> string" where
  "to_fixed18 (Fin x) =
    (if \<bar>x\<bar> \<ge> 10 ^ 21 then number_string (Fin x) else if x < 0 then CHR ''-'' # fixed18 (- x) else fixed18 x)"
| "to_fixed18 x = number_string x"

section \<open>The values of JSON\<close>

datatype jvalue =
    VUndefined
  | VNull
  | VBool bool
  | VNum js_number
  | VStr string
  | VArr "jvalue list"
  | VObj "(string \<times> jvalue) list"

fun truthy :: "jvalue \<Rightarrow> bool" where
  "truthy VUndefined = False"
| "truthy VNull = False"
| "truthy (VBool b) = b"
| "truthy (VNum x) = (x \<noteq> NaN \<and> x \<noteq> Fin 0)"
| "truthy (VStr s) = (s \<noteq> [])"
| "truthy _ = True"

definition nullish :: "jvalue \<Rightarrow> bool" where
  "nullish v \<longleftrightarrow> v = VUndefined \<or> v = VNull"

text \<open>\<open>v.k\<close>, \<open>v?.k\<close> and \<open>v[0]\<close>.\<close>

fun get_field :: "jvalue \<Rightarrow> string \<Rightarrow> jvalue result" where
  "get_field VUndefined k = Inl (TypeError ''Cannot read properties of undefined'')"
| "get_field VNull k = Inl (TypeError ''Cannot read properties of null'')"
| "get_field (VObj kvs) k = Inr (case map_of kvs k of None \<Rightarrow> VUndefined | Some v \<Rightarrow> v)"
| "get_field _ k = Inr VUndefined"

fun field :: "jvalue \<Rightarrow> string \<Rightarrow> jvalue" where
  "field (VObj kvs) k = (case map_of kvs k of None \<Rightarrow> VUndefined | Some v \<Rightarrow> v)"
| "field _ k = VUndefined"

fun item :: "jvalue \<Rightarrow> nat \<Rightarrow> jvalue" where
  "item (VArr vs) i = (if i < length vs then vs ! i else VUndefined)"
| "item (VStr s) i = (if i < length s then VStr [s ! i] else VUndefined)"
| "item (VObj kvs) i = field (VObj kvs) (digits_of i)"
| "item _ i = VUndefined"

text \<open>\<open>a ?? b\<close>\<close>

definition or_else :: "jvalue \<Rightarrow> jvalue \<Rightarrow> jvalue" where
  "or_else a b = (if nullish a then b else a)"

text \<open>The values an iteration or a destructuring runs over.\<close>

fun elements :: "jvalue \<Rightarrow> jvalue list result" where
  "elements (VArr vs) = Inr vs"
| "elements (VStr s) = Inr (map (\<lambda>c. VStr [c]) s)"
| "elements _ = Inl (TypeError ''object is not iterable'')"

definition nth_or_undefined :: "jvalue list \<Rightarrow> nat \<Rightarrow> jvalue" where
  "nth_or_undefined vs i = (if i < length vs then vs ! i else VUndefined)"

text \<open>\<open>s.startsWith(p)\<close> and \<open>s.endsWith(p)\<close>.\<close>

definition starts_with :: "string \<Rightarrow> string \<Rightarrow> bool" where
  "starts_with s p \<longleftrightarrow> take (length p) s = p"

definition ends_with :: "string \<Rightarrow> string \<Rightarrow> bool" where
  "ends_with s p \<longleftrightarrow> length p \<le> length s \<and> drop (length s - length p) s = p"

fun call_starts_with :: "jvalue \<Rightarrow> string \<Rightarrow> bool result" where
  "call_starts_with (VStr s) p = Inr (starts_with s p)"
| "call_starts_with _ p = Inl (TypeError ''startsWith is not a function'')"

fun join_with :: "string \<Rightarrow> string list \<Rightarrow> string" where
  "join_with s [] = []"
| "join_with s [x] = x"
| "join_with s (x # y # xs) = x @ s @ join_with s (y # xs)"

text \<open>\<open>s.split(c)\<close> for one character.\<close>

fun split_char :: "char \<Rightarrow> string \<Rightarrow> string list" where
  "split_char c [] = [[]]"
| "split_char c (x # xs) =
    (if x = c then [] # split_char c xs
     else case split_char c xs of p # ps \<Rightarrow> (x # p) # ps | [] \<Rightarrow> [[x]])"

text \<open>\<open>String(v)\<close>: a nested \<open>null\<close> or \<open>undefined\<close> of an array is empty.\<close>

fun string_of :: "jvalue \<Rightarrow> string" where
  "string_of VUndefined = ''undefined''"
| "string_of VNull = ''null''"
| "string_of (VBool b) = (if b then ''true'' else ''false'')"
| "string_of (VNum x) = number_string x"
| "string_of (VStr s) = s"
| "string_of (VArr vs) = join_with '','' (map (\<lambda>v. if nullish v then [] else string_of v) vs)"
| "string_of (VObj kvs) = ''[object Object]''"

text \<open>\<open>Number(v)\<close>\<close>

definition to_number :: "jvalue \<Rightarrow> js_number" where
  "to_number v = (case v of
      VUndefined \<Rightarrow> NaN
    | VNull \<Rightarrow> Fin 0
    | VBool b \<Rightarrow> Fin (if b then 1 else 0)
    | VNum x \<Rightarrow> x
    | VStr s \<Rightarrow> number_of_string s
    | VArr vs \<Rightarrow> number_of_string (string_of v)
    | VObj kvs \<Rightarrow> NaN)"

section \<open>The order of numbers\<close>

lemma js_less_irrefl [simp]: "\<not> js_less x x"
  by (cases x) auto

lemma js_less_trans: "js_less x y \<Longrightarrow> js_less y z \<Longrightarrow> js_less x z"
  by (cases x; cases y; cases z) auto

lemma js_less_NaN [simp]: "\<not> js_less NaN x" "\<not> js_less x NaN"
  by (cases x; simp)+

lemma js_less_weak: "js_less x y \<Longrightarrow> z \<noteq> NaN \<Longrightarrow> js_less x z \<or> js_less z y"
  by (cases x; cases y; cases z) auto

lemma js_less_asym: "js_less x y \<Longrightarrow> \<not> js_less y x"
  by (cases x; cases y) auto

end
