(* ===== verification/Venues.thy ===== *)
theory Venues
  imports Js_Values "HOL-Library.AList"
begin

text \<open>
  \<open>apps/publisher/src/sources/venues.ts\<close>: the address, the subscriptions and the parser of each exchange. A parser
  gets the parsed message; it may throw (\<open>Inl\<close>), and Coinbase's keeps an order book per market, which is a state
  argument. KuCoin's address needs a token, whose reply is an argument.

  Lemmas: the best prices that \<open>TopOfBook\<close> maintains incrementally are those of a scan of the whole book, and the book
  is the map of the last size per price.
\<close>

section \<open>Events\<close>

datatype VenueEvent =
    QuoteEv (ev_market: jvalue) jvalue jvalue jvalue jvalue
  | TradeEv (ev_market: jvalue) jvalue jvalue

definition arr :: "jvalue \<Rightarrow> jvalue list" where
  "arr v = (case v of VArr vs \<Rightarrow> vs | _ \<Rightarrow> [])"

text \<open>The events built from the fields of an object \<open>d\<close>.\<close>

definition quote_event :: "jvalue \<Rightarrow> jvalue \<Rightarrow> string \<Rightarrow> string \<Rightarrow> string \<Rightarrow> string \<Rightarrow> VenueEvent result" where
  "quote_event market d bid ask bidSize askSize =
    (if nullish d then Inl (TypeError ''Cannot read properties of undefined'')
     else Inr (QuoteEv market (field d bid) (field d ask) (field d bidSize) (field d askSize)))"

definition trade_event :: "jvalue \<Rightarrow> jvalue \<Rightarrow> string \<Rightarrow> string \<Rightarrow> VenueEvent result" where
  "trade_event market d price qty =
    (if nullish d then Inl (TypeError ''Cannot read properties of undefined'')
     else Inr (TradeEv market (field d price) (field d qty)))"

definition one :: "VenueEvent result \<Rightarrow> VenueEvent list result" where
  "one e = ebind e (\<lambda>x. Inr [x])"

text \<open>The first level of a side of a book, as \<open>[price, size]\<close>, if both sides have one.\<close>

definition level_quote :: "jvalue \<Rightarrow> jvalue \<Rightarrow> jvalue \<Rightarrow> VenueEvent list" where
  "level_quote market bids asks =
    (let bid = item bids 0; ask = item asks 0
     in if truthy bid \<and> truthy ask then [QuoteEv market (item bid 0) (item ask 0) (item bid 1) (item ask 1)] else [])"

section \<open>Parsers\<close>

definition binance_parse :: "jvalue \<Rightarrow> VenueEvent list result" where
  "binance_parse m =
    (let d = field m ''data'' in
     if \<not> truthy d then Inr []
     else if (case field m ''stream'' of VStr s \<Rightarrow> ends_with s ''@bookTicker'' | _ \<Rightarrow> False)
     then one (quote_event (field d ''s'') d ''b'' ''a'' ''B'' ''A'')
     else if field d ''e'' = VStr ''aggTrade'' then one (trade_event (field d ''s'') d ''p'' ''q'')
     else Inr [])"

definition kraken_parse :: "jvalue \<Rightarrow> VenueEvent list result" where
  "kraken_parse m =
    (if field m ''channel'' = VStr ''ticker''
     then emap (\<lambda>d. quote_event (field d ''symbol'') d ''bid'' ''ask'' ''bid_qty'' ''ask_qty'') (arr (field m ''data''))
     else if field m ''channel'' = VStr ''trade''
     then emap (\<lambda>d. trade_event (field d ''symbol'') d ''price'' ''qty'') (arr (field m ''data''))
     else Inr [])"

definition bitstamp_parse :: "jvalue \<Rightarrow> VenueEvent list result" where
  "bitstamp_parse m =
    (let channel = or_else (field m ''channel'') (VStr []);
         event = field m ''event'';
         slice = (\<lambda>p. VStr (drop (length p) (case channel of VStr s \<Rightarrow> s | _ \<Rightarrow> [])));
         called = (\<lambda>e p. if event = VStr e then call_starts_with channel p else Inr False)
     in ebind (called ''data'' ''order_book_'') (\<lambda>book.
        if book then
          Inr (level_quote (slice ''order_book_'') (field (field m ''data'') ''bids'') (field (field m ''data'') ''asks''))
        else ebind (called ''trade'' ''live_trades_'') (\<lambda>trade.
          if trade then
            let d = field m ''data'' in
            if nullish d then Inl (TypeError ''Cannot read properties of undefined'')
            else Inr [TradeEv (slice ''live_trades_'') (or_else (field d ''price_str'') (field d ''price''))
              (or_else (field d ''amount_str'') (field d ''amount''))]
          else Inr [])))"

definition okx_parse :: "jvalue \<Rightarrow> VenueEvent list result" where
  "okx_parse m =
    (let channel = field (field m ''arg'') ''channel'' in
     if channel = VStr ''tickers''
     then emap (\<lambda>d. quote_event (field d ''instId'') d ''bidPx'' ''askPx'' ''bidSz'' ''askSz'') (arr (field m ''data''))
     else if channel = VStr ''trades''
     then emap (\<lambda>d. trade_event (field d ''instId'') d ''px'' ''sz'') (arr (field m ''data''))
     else Inr [])"

definition bybit_parse :: "jvalue \<Rightarrow> VenueEvent list result" where
  "bybit_parse m =
    (let topic = or_else (field m ''topic'') (VStr []); d = field m ''data'' in
     ebind (call_starts_with topic ''orderbook.1.'') (\<lambda>book.
     if book then Inr (level_quote (field d ''s'') (field d ''b'') (field d ''a''))
     else ebind (call_starts_with topic ''publicTrade.'') (\<lambda>trade.
       if trade then emap (\<lambda>d. trade_event (field d ''s'') d ''p'' ''v'') (arr d) else Inr [])))"

definition gate_parse :: "jvalue \<Rightarrow> VenueEvent list result" where
  "gate_parse m =
    (let r = field m ''result'' in
     if field m ''event'' \<noteq> VStr ''update'' then Inr []
     else if field m ''channel'' = VStr ''spot.book_ticker'' then one (quote_event (field r ''s'') r ''b'' ''a'' ''B'' ''A'')
     else if field m ''channel'' = VStr ''spot.trades'' then one (trade_event (field r ''currency_pair'') r ''price'' ''amount'')
     else Inr [])"

definition bitget_parse :: "jvalue \<Rightarrow> VenueEvent list result" where
  "bitget_parse m =
    (let instId = field (field m ''arg'') ''instId''; channel = field (field m ''arg'') ''channel'' in
     if channel = VStr ''ticker''
     then emap (\<lambda>d. quote_event instId d ''bidPr'' ''askPr'' ''bidSz'' ''askSz'') (arr (field m ''data''))
     else if channel = VStr ''trade'' then emap (\<lambda>d. trade_event instId d ''price'' ''size'') (arr (field m ''data''))
     else Inr [])"

definition upbit_parse :: "jvalue \<Rightarrow> VenueEvent list result" where
  "upbit_parse m =
    (if field m ''type'' = VStr ''orderbook'' then
       let u = item (field m ''orderbook_units'') 0 in
       if truthy u then one (quote_event (field m ''code'') u ''bid_price'' ''ask_price'' ''bid_size'' ''ask_size'') else Inr []
     else if field m ''type'' = VStr ''trade'' then one (trade_event (field m ''code'') m ''trade_price'' ''trade_volume'')
     else Inr [])"

definition kucoin_parse :: "jvalue \<Rightarrow> VenueEvent list result" where
  "kucoin_parse m =
    (if field m ''type'' \<noteq> VStr ''message'' then Inr []
     else
       let parts = split_char (CHR '':'') (string_of (or_else (field m ''topic'') (VStr [])));
           market = VStr (if length parts > 1 then parts ! 1 else []);
           d = field m ''data''
       in if field m ''subject'' = VStr ''trade.ticker''
          then one (quote_event market d ''bestBid'' ''bestAsk'' ''bestBidSize'' ''bestAskSize'')
          else if field m ''subject'' = VStr ''trade.l3match''
          then one (trade_event (or_else (field d ''symbol'') market) d ''price'' ''size'')
          else Inr [])"

section \<open>The top of a book\<close>

datatype side = Buy | Sell

record TopOfBook =
  tb_bids :: "(jvalue \<times> jvalue) list"
  tb_asks :: "(jvalue \<times> jvalue) list"
  tb_bestBid :: jvalue
  tb_bestAsk :: jvalue

definition new_book :: TopOfBook where
  "new_book = \<lparr>tb_bids = [], tb_asks = [], tb_bestBid = VUndefined, tb_bestAsk = VUndefined\<rparr>"

fun beats :: "side \<Rightarrow> jvalue \<Rightarrow> jvalue \<Rightarrow> bool" where
  "beats Buy a b \<longleftrightarrow> js_less (to_number b) (to_number a)"
| "beats Sell a b \<longleftrightarrow> js_less (to_number a) (to_number b)"

definition better :: "side \<Rightarrow> jvalue \<Rightarrow> jvalue \<Rightarrow> bool" where
  "better side a b \<longleftrightarrow> b = VUndefined \<or> beats side a b"

definition scan :: "side \<Rightarrow> (jvalue \<times> jvalue) list \<Rightarrow> jvalue" where
  "scan side levels = foldl (\<lambda>best price. if better side price best then price else best) VUndefined (map fst levels)"

definition has_size :: "jvalue \<Rightarrow> bool" where
  "has_size sz \<longleftrightarrow> js_less (Fin 0) (to_number sz)"

text \<open>The loop over the levels of a snapshot; it stops where a level is not iterable.\<close>

fun load_levels :: "jvalue list \<Rightarrow> (jvalue \<times> jvalue) list \<Rightarrow> js_error option \<times> (jvalue \<times> jvalue) list" where
  "load_levels [] levels = (None, levels)"
| "load_levels (l # ls) levels =
    (case elements l of
      Inl e \<Rightarrow> (Some e, levels)
    | Inr xs \<Rightarrow>
        let price = nth_or_undefined xs 0; sz = nth_or_undefined xs 1
        in load_levels ls (if has_size sz then AList.update price sz levels else levels))"

definition snapshot :: "jvalue list \<Rightarrow> jvalue list \<Rightarrow> TopOfBook \<Rightarrow> js_error option \<times> TopOfBook" where
  "snapshot bids asks t =
    (case load_levels bids [] of
      (Some e, bs) \<Rightarrow> (Some e, t\<lparr>tb_bids := bs, tb_asks := []\<rparr>)
    | (None, bs) \<Rightarrow>
        (case load_levels asks [] of
          (Some e, as) \<Rightarrow> (Some e, t\<lparr>tb_bids := bs, tb_asks := as\<rparr>)
        | (None, as) \<Rightarrow>
            (None, \<lparr>tb_bids = bs, tb_asks = as, tb_bestBid = scan Buy bs, tb_bestAsk = scan Sell as\<rparr>)))"

definition change_side :: "side \<Rightarrow> jvalue \<Rightarrow> jvalue \<Rightarrow> (jvalue \<times> jvalue) list \<times> jvalue \<Rightarrow> (jvalue \<times> jvalue) list \<times> jvalue" where
  "change_side side price sz = (\<lambda>(levels, best).
    if has_size sz then (AList.update price sz levels, if better side price best then price else best)
    else
      let rest = AList.delete price levels
      in (rest, if price = best then scan side rest else best))"

definition change :: "side \<Rightarrow> jvalue \<Rightarrow> jvalue \<Rightarrow> TopOfBook \<Rightarrow> TopOfBook" where
  "change side price sz t =
    (case side of
      Buy \<Rightarrow> let (b, best) = change_side Buy price sz (tb_bids t, tb_bestBid t) in t\<lparr>tb_bids := b, tb_bestBid := best\<rparr>
    | Sell \<Rightarrow> let (b, best) = change_side Sell price sz (tb_asks t, tb_bestAsk t) in t\<lparr>tb_asks := b, tb_bestAsk := best\<rparr>)"

text \<open>\<open>top()\<close>: bid, ask, and their sizes.\<close>

definition level_size :: "(jvalue \<times> jvalue) list \<Rightarrow> jvalue \<Rightarrow> jvalue" where
  "level_size levels price = (case map_of levels price of None \<Rightarrow> VUndefined | Some s \<Rightarrow> s)"

definition top_of :: "TopOfBook \<Rightarrow> (jvalue \<times> jvalue \<times> jvalue \<times> jvalue) option" where
  "top_of t =
    (if tb_bestBid t = VUndefined \<or> tb_bestAsk t = VUndefined then None
     else Some (tb_bestBid t, tb_bestAsk t, level_size (tb_bids t) (tb_bestBid t), level_size (tb_asks t) (tb_bestAsk t)))"

section \<open>Coinbase\<close>

type_synonym books = "(jvalue \<times> TopOfBook) list"

definition book_of :: "books \<Rightarrow> jvalue \<Rightarrow> TopOfBook" where
  "book_of books market = (case map_of books market of None \<Rightarrow> new_book | Some t \<Rightarrow> t)"

definition coinbase_quote :: "books \<Rightarrow> jvalue \<Rightarrow> VenueEvent list" where
  "coinbase_quote books market = (case Option.bind (map_of books market) top_of of
      None \<Rightarrow> [] | Some (bid, ask, bidSize, askSize) \<Rightarrow> [QuoteEv market bid ask bidSize askSize])"

fun apply_changes :: "jvalue \<Rightarrow> jvalue list \<Rightarrow> books \<Rightarrow> js_error option \<times> books" where
  "apply_changes market [] books = (None, books)"
| "apply_changes market (c # cs) books =
    (case elements c of
      Inl e \<Rightarrow> (Some e, books)
    | Inr xs \<Rightarrow>
        let side = (if nth_or_undefined xs 0 = VStr ''buy'' then Buy else Sell)
        in apply_changes market cs
             (AList.update market (change side (nth_or_undefined xs 1) (nth_or_undefined xs 2) (book_of books market)) books))"

definition coinbase_parse :: "books \<Rightarrow> jvalue \<Rightarrow> VenueEvent list result \<times> books" where
  "coinbase_parse books m =
    (let market = field m ''product_id'' in
     if field m ''type'' = VStr ''snapshot'' then
       (case snapshot (arr (field m ''bids'')) (arr (field m ''asks'')) (book_of books market) of
          (Some e, t) \<Rightarrow> (Inl e, AList.update market t books)
        | (None, t) \<Rightarrow> let books' = AList.update market t books in (Inr (coinbase_quote books' market), books'))
     else if field m ''type'' = VStr ''l2update'' then
       (case apply_changes market (arr (field m ''changes'')) books of
          (Some e, books') \<Rightarrow> (Inl e, books')
        | (None, books') \<Rightarrow> (Inr (coinbase_quote books' market), books'))
     else if field m ''type'' = VStr ''ticker'' \<and> truthy (field m ''last_size'')
     then (Inr [TradeEv market (field m ''price'') (field m ''last_size'')], books)
     else (Inr [], books))"

section \<open>Addresses, subscriptions and pings\<close>

record VenueSpec =
  vs_venue :: string
  vs_url :: "string list \<Rightarrow> int \<Rightarrow> jvalue result \<Rightarrow> string result"
  vs_subscribe :: "string list \<Rightarrow> int \<Rightarrow> jvalue list"
  vs_parse :: "books \<Rightarrow> jvalue \<Rightarrow> VenueEvent list result \<times> books"
  vs_ping :: "(int \<times> (int \<Rightarrow> jvalue)) option"

definition stateless :: "(jvalue \<Rightarrow> VenueEvent list result) \<Rightarrow> books \<Rightarrow> jvalue \<Rightarrow> VenueEvent list result \<times> books" where
  "stateless parse books m = (parse m, books)"

definition strs :: "string list \<Rightarrow> jvalue" where
  "strs xs = VArr (map VStr xs)"

definition binance :: VenueSpec where
  "binance = \<lparr>vs_venue = ''binance'',
    vs_url = (\<lambda>markets now token. Inr (''wss://data-stream.binance.vision/stream?streams='' @ join_with ''/''
      (concat (map (\<lambda>m. [toLowerCase m @ ''@bookTicker'', toLowerCase m @ ''@aggTrade'']) markets)))),
    vs_subscribe = (\<lambda>markets now. []), vs_parse = stateless binance_parse, vs_ping = None\<rparr>"

definition coinbase :: VenueSpec where
  "coinbase = \<lparr>vs_venue = ''coinbase'', vs_url = (\<lambda>markets now token. Inr ''wss://ws-feed.exchange.coinbase.com''),
    vs_subscribe = (\<lambda>markets now. [VObj [(''type'', VStr ''subscribe''), (''product_ids'', strs markets),
      (''channels'', strs [''level2_batch'', ''ticker''])]]),
    vs_parse = coinbase_parse, vs_ping = None\<rparr>"

definition kraken :: VenueSpec where
  "kraken = \<lparr>vs_venue = ''kraken'', vs_url = (\<lambda>markets now token. Inr ''wss://ws.kraken.com/v2''),
    vs_subscribe = (\<lambda>markets now.
      [VObj [(''method'', VStr ''subscribe''), (''params'', VObj [(''channel'', VStr ''ticker''), (''symbol'', strs markets),
         (''event_trigger'', VStr ''bbo'')])],
       VObj [(''method'', VStr ''subscribe''), (''params'', VObj [(''channel'', VStr ''trade''), (''symbol'', strs markets)])]]),
    vs_parse = stateless kraken_parse, vs_ping = Some (30000, \<lambda>now. VObj [(''method'', VStr ''ping'')])\<rparr>"

definition bitstamp :: VenueSpec where
  "bitstamp = \<lparr>vs_venue = ''bitstamp'', vs_url = (\<lambda>markets now token. Inr ''wss://ws.bitstamp.net''),
    vs_subscribe = (\<lambda>markets now. concat (map (\<lambda>m.
      [VObj [(''event'', VStr ''bts:subscribe''), (''data'', VObj [(''channel'', VStr (''order_book_'' @ m))])],
       VObj [(''event'', VStr ''bts:subscribe''), (''data'', VObj [(''channel'', VStr (''live_trades_'' @ m))])]]) markets)),
    vs_parse = stateless bitstamp_parse, vs_ping = None\<rparr>"

definition okx :: VenueSpec where
  "okx = \<lparr>vs_venue = ''okx'', vs_url = (\<lambda>markets now token. Inr ''wss://ws.okx.com:8443/ws/v5/public''),
    vs_subscribe = (\<lambda>markets now. [VObj [(''op'', VStr ''subscribe''), (''args'', VArr (concat (map (\<lambda>m.
      [VObj [(''channel'', VStr ''tickers''), (''instId'', VStr m)],
       VObj [(''channel'', VStr ''trades''), (''instId'', VStr m)]]) markets)))]]),
    vs_parse = stateless okx_parse, vs_ping = Some (25000, \<lambda>now. VStr ''ping'')\<rparr>"

text \<open>Bybit: at most ten topics per request.\<close>

fun chunks :: "nat \<Rightarrow> 'a list \<Rightarrow> 'a list list" where
  "chunks n xs = (if xs = [] \<or> n = 0 then [] else take n xs # chunks n (drop n xs))"

declare chunks.simps [simp del]

definition bybit :: VenueSpec where
  "bybit = \<lparr>vs_venue = ''bybit'', vs_url = (\<lambda>markets now token. Inr ''wss://stream.bybit.com/v5/public/spot''),
    vs_subscribe = (\<lambda>markets now. map (\<lambda>topics. VObj [(''op'', VStr ''subscribe''), (''args'', strs topics)])
      (chunks 10 (concat (map (\<lambda>m. [''orderbook.1.'' @ m, ''publicTrade.'' @ m]) markets)))),
    vs_parse = stateless bybit_parse, vs_ping = Some (20000, \<lambda>now. VObj [(''op'', VStr ''ping'')])\<rparr>"

definition gate :: VenueSpec where
  "gate = \<lparr>vs_venue = ''gate'', vs_url = (\<lambda>markets now token. Inr ''wss://api.gateio.ws/ws/v4/''),
    vs_subscribe = (\<lambda>markets now.
      let time = VNum (Fin (of_int (now div 1000))) in
      map (\<lambda>channel. VObj [(''time'', time), (''channel'', VStr channel), (''event'', VStr ''subscribe''), (''payload'', strs markets)])
        [''spot.book_ticker'', ''spot.trades'']),
    vs_parse = stateless gate_parse, vs_ping = Some (20000, \<lambda>now. VObj [(''channel'', VStr ''spot.ping'')])\<rparr>"

definition bitget :: VenueSpec where
  "bitget = \<lparr>vs_venue = ''bitget'', vs_url = (\<lambda>markets now token. Inr ''wss://ws.bitget.com/v2/ws/public''),
    vs_subscribe = (\<lambda>markets now. [VObj [(''op'', VStr ''subscribe''), (''args'', VArr (concat (map (\<lambda>m.
      [VObj [(''instType'', VStr ''SPOT''), (''channel'', VStr ''ticker''), (''instId'', VStr m)],
       VObj [(''instType'', VStr ''SPOT''), (''channel'', VStr ''trade''), (''instId'', VStr m)]]) markets)))]]),
    vs_parse = stateless bitget_parse, vs_ping = Some (30000, \<lambda>now. VStr ''ping'')\<rparr>"

definition upbit :: VenueSpec where
  "upbit = \<lparr>vs_venue = ''upbit'', vs_url = (\<lambda>markets now token. Inr ''wss://api.upbit.com/websocket/v1''),
    vs_subscribe = (\<lambda>markets now. [VArr [VObj [(''ticket'', VStr ''lean-oracle'')],
      VObj [(''type'', VStr ''orderbook''), (''codes'', strs markets)],
      VObj [(''type'', VStr ''trade''), (''codes'', strs markets)]]]),
    vs_parse = stateless upbit_parse, vs_ping = None\<rparr>"

text \<open>KuCoin's address, from the reply to the token request (\<open>Inl\<close> when the request fails).\<close>

definition kucoin_url :: "string list \<Rightarrow> int \<Rightarrow> jvalue result \<Rightarrow> string result" where
  "kucoin_url markets now reply =
    ebind reply (\<lambda>body.
    ebind (get_field body ''data'') (\<lambda>d.
    ebind (if nullish d then Inr VUndefined
           else ebind (get_field d ''instanceServers'') (\<lambda>servers.
             if nullish servers then Inl (TypeError ''Cannot read properties of undefined'') else Inr (item servers 0))) (\<lambda>server.
    if \<not> truthy d \<or> \<not> truthy server then Inl (Failure ''kucoin: no websocket token'')
    else Inr (string_of (field server ''endpoint'') @ ''?token='' @ string_of (field d ''token'') @ ''&connectId='' @ int_string now))))"

definition kucoin :: VenueSpec where
  "kucoin = \<lparr>vs_venue = ''kucoin'', vs_url = kucoin_url,
    vs_subscribe = (\<lambda>markets now.
      [VObj [(''id'', VStr (int_string now @ ''1'')), (''type'', VStr ''subscribe''),
         (''topic'', VStr (''/market/ticker:'' @ join_with '','' markets)), (''response'', VBool True)],
       VObj [(''id'', VStr (int_string now @ ''2'')), (''type'', VStr ''subscribe''),
         (''topic'', VStr (''/market/match:'' @ join_with '','' markets)), (''response'', VBool True)]]),
    vs_parse = stateless kucoin_parse,
    vs_ping = Some (18000, \<lambda>now. VObj [(''id'', VStr (int_string now)), (''type'', VStr ''ping'')])\<rparr>"

definition VENUES :: "(string \<times> VenueSpec) list" where
  "VENUES = map (\<lambda>spec. (vs_venue spec, spec)) [binance, coinbase, kraken, bitstamp, okx, bybit, gate, bitget, upbit, kucoin]"

section \<open>The maintained best prices are those of the book\<close>

definition numeric :: "jvalue \<Rightarrow> bool" where
  "numeric v \<longleftrightarrow> to_number v \<noteq> NaN"

lemma numeric_defined: "numeric v \<Longrightarrow> v \<noteq> VUndefined"
  by (auto simp: numeric_def to_number_def)

lemma beats_trans: "beats side a b \<Longrightarrow> beats side b c \<Longrightarrow> beats side a c"
  by (cases side) (auto intro: js_less_trans)

lemma beats_weak: "beats side a b \<Longrightarrow> numeric c \<Longrightarrow> beats side a c \<or> beats side c b"
  unfolding numeric_def by (cases side; simp; drule (1) js_less_weak; blast)

lemma beats_irrefl [simp]: "\<not> beats side a a"
  by (cases side) auto

definition best_of :: "side \<Rightarrow> jvalue list \<Rightarrow> jvalue" where
  "best_of side prices = foldl (\<lambda>best price. if better side price best then price else best) VUndefined prices"

lemma scan_best_of: "scan side levels = best_of side (map fst levels)"
  by (simp add: scan_def best_of_def)

lemma best_of_snoc:
  "best_of side (ps @ [p]) = (if better side p (best_of side ps) then p else best_of side ps)"
  by (simp add: best_of_def)

lemma best_of_Nil [simp]: "best_of side [] = VUndefined"
  by (simp add: best_of_def)

lemma best_of_max:
  assumes "\<forall>p \<in> set ps. numeric p"
  shows "if ps = [] then best_of side ps = VUndefined
         else best_of side ps \<in> set ps \<and> (\<forall>p \<in> set ps. \<not> beats side p (best_of side ps))"
  using assms
proof (induction ps rule: rev_induct)
  case (snoc p ps)
  then show ?case
    unfolding best_of_snoc better_def
    by (cases "ps = []") (auto dest: numeric_defined beats_trans)
qed simp

lemma best_of_VUndefined:
  assumes "\<forall>p \<in> set ps. numeric p"
  shows "best_of side ps = VUndefined \<longleftrightarrow> ps = []"
  using best_of_max [OF assms, of side] assms by (auto dest: numeric_defined split: if_splits)

lemma best_of_removeAll:
  assumes "\<forall>p \<in> set ps. numeric p" "x \<noteq> best_of side ps"
  shows "best_of side (removeAll x ps) = best_of side ps"
  using assms
proof (induction ps rule: rev_induct)
  case (snoc p ps)
  let ?b = "best_of side ps"
  show ?case
  proof (cases "better side p ?b")
    case True
    have "better side p (best_of side (removeAll x ps))"
    proof (cases "removeAll x ps = []")
      case False
      then have "best_of side (removeAll x ps) \<in> set ps" "ps \<noteq> []"
        using best_of_max [of "removeAll x ps" side] snoc.prems(1) by auto
      moreover have "beats side p ?b" "\<forall>q \<in> set ps. \<not> beats side q ?b"
        using True best_of_max [of ps side] snoc.prems(1) \<open>ps \<noteq> []\<close> numeric_defined
        by (auto simp: better_def)
      ultimately show ?thesis using beats_weak snoc.prems(1) unfolding better_def by fastforce
    qed (simp add: better_def)
    with True snoc.prems(2) show ?thesis by (simp add: best_of_snoc)
  next
    case False
    with snoc show ?thesis by (auto simp: best_of_snoc)
  qed
qed simp

text \<open>One side of a book: its prices are numbers, and the best one is that of a scan.\<close>

definition side_ok :: "side \<Rightarrow> (jvalue \<times> jvalue) list \<Rightarrow> jvalue \<Rightarrow> bool" where
  "side_ok side levels best \<longleftrightarrow> (\<forall>p \<in> fst ` set levels. numeric p) \<and> best = scan side levels"

lemma update_numeric:
  assumes "numeric p" "\<forall>q \<in> fst ` set levels. numeric q"
  shows "\<forall>q \<in> fst ` set (AList.update p sz levels). numeric q"
  using assms by (simp add: AList.dom_update)

lemma change_side_ok:
  assumes "side_ok side levels best" "numeric price"
  shows "case change_side side price sz (levels, best) of (levels', best') \<Rightarrow> side_ok side levels' best'"
proof -
  have n: "\<forall>p \<in> set (map fst levels). numeric p" and b: "best = best_of side (map fst levels)"
    using assms(1) by (auto simp: side_ok_def scan_best_of)
  show ?thesis
  proof (cases "has_size sz")
    case True
    have "(if better side price best then price else best) = best_of side (map fst (AList.update price sz levels))"
    proof (cases "price \<in> fst ` set levels")
      case True
      then have "map fst levels \<noteq> []" by auto
      with True best_of_max [OF n, of side] have "\<not> beats side price best" "best \<in> set (map fst levels)"
        unfolding b by (auto simp: image_iff)
      then have "\<not> better side price best" using n numeric_defined unfolding better_def by blast
      with True show ?thesis by (simp add: AList.update_keys b)
    next
      case False
      then show ?thesis by (simp add: AList.update_keys best_of_snoc b)
    qed
    moreover have "change_side side price sz (levels, best) = (AList.update price sz levels, if better side price best then price else best)"
      using True by (simp add: change_side_def)
    moreover have "\<forall>q \<in> fst ` set (AList.update price sz levels). numeric q"
      using assms by (intro update_numeric) (simp_all add: side_ok_def)
    ultimately show ?thesis by (simp only: side_ok_def scan_best_of prod.case simp_thms)
  next
    case False
    have "(if price = best then scan side (AList.delete price levels) else best) = scan side (AList.delete price levels)"
      using best_of_removeAll [OF n, of price side] by (simp add: scan_best_of AList.delete_keys b)
    then show ?thesis
      using False assms unfolding change_side_def side_ok_def
      by (auto simp: Let_def AList.delete_eq)
  qed
qed

lemma load_levels_ok:
  assumes "\<forall>(p, sz) \<in> set ls. numeric p" "\<forall>p \<in> fst ` set levels. numeric p"
  shows "load_levels (map (\<lambda>(p, sz). VArr [p, sz]) ls) levels =
      (None, foldl (\<lambda>l (p, sz). if has_size sz then AList.update p sz l else l) levels ls) \<and>
    (\<forall>p \<in> fst ` set (foldl (\<lambda>l (p, sz). if has_size sz then AList.update p sz l else l) levels ls). numeric p)"
  using assms
proof (induction ls arbitrary: levels)
  case (Cons l ls)
  obtain p sz where l: "l = (p, sz)" by (cases l)
  define levels' where "levels' = (if has_size sz then AList.update p sz levels else levels)"
  have "numeric p" using Cons.prems(1) l by simp
  then have "\<forall>q \<in> fst ` set levels'. numeric q"
    using Cons.prems(2) update_numeric [of p levels sz] unfolding levels'_def by presburger
  moreover have "\<forall>(p, sz) \<in> set ls. numeric p" using Cons.prems(1) by simp
  moreover have "load_levels (map (\<lambda>(p, sz). VArr [p, sz]) (l # ls)) levels = load_levels (map (\<lambda>(p, sz). VArr [p, sz]) ls) levels'"
    by (simp add: l nth_or_undefined_def levels'_def)
  moreover have "foldl (\<lambda>l (p, sz). if has_size sz then AList.update p sz l else l) levels (l # ls) =
      foldl (\<lambda>l (p, sz). if has_size sz then AList.update p sz l else l) levels' ls"
    by (simp add: l levels'_def)
  ultimately show ?case using Cons.IH [of levels'] by presburger
qed simp

text \<open>Operations on a book, and the map of sizes each side should hold.\<close>

datatype book_op = Snapshot "(jvalue \<times> jvalue) list" "(jvalue \<times> jvalue) list" | Change side jvalue jvalue

fun apply_op :: "TopOfBook \<Rightarrow> book_op \<Rightarrow> TopOfBook" where
  "apply_op t (Snapshot bids asks) = snd (snapshot (map (\<lambda>(p, sz). VArr [p, sz]) bids) (map (\<lambda>(p, sz). VArr [p, sz]) asks) t)"
| "apply_op t (Change side p sz) = change side p sz t"

fun op_numeric :: "book_op \<Rightarrow> bool" where
  "op_numeric (Snapshot bids asks) \<longleftrightarrow> (\<forall>(p, sz) \<in> set (bids @ asks). numeric p)"
| "op_numeric (Change side p sz) \<longleftrightarrow> numeric p"

fun side_levels :: "side \<Rightarrow> TopOfBook \<Rightarrow> (jvalue \<times> jvalue) list" where
  "side_levels Buy t = tb_bids t"
| "side_levels Sell t = tb_asks t"

fun side_best :: "side \<Rightarrow> TopOfBook \<Rightarrow> jvalue" where
  "side_best Buy t = tb_bestBid t"
| "side_best Sell t = tb_bestAsk t"

definition set_level :: "(jvalue \<Rightarrow> jvalue option) \<Rightarrow> jvalue \<times> jvalue \<Rightarrow> (jvalue \<Rightarrow> jvalue option)" where
  "set_level m = (\<lambda>(p, sz). if has_size sz then m(p \<mapsto> sz) else m)"

fun sizes_after :: "side \<Rightarrow> (jvalue \<Rightarrow> jvalue option) \<Rightarrow> book_op \<Rightarrow> (jvalue \<Rightarrow> jvalue option)" where
  "sizes_after side m (Snapshot bids asks) = foldl set_level Map.empty (case side of Buy \<Rightarrow> bids | Sell \<Rightarrow> asks)"
| "sizes_after side m (Change side' p sz) =
    (if side' \<noteq> side then m else if has_size sz then m(p \<mapsto> sz) else m(p := None))"

lemma map_of_loaded:
  "map_of (foldl (\<lambda>l (p, sz). if has_size sz then AList.update p sz l else l) levels ls) = foldl set_level (map_of levels) ls"
  by (induction ls arbitrary: levels) (auto simp: set_level_def AList.update_conv')

lemma snapshot_numeric:
  assumes "op_numeric (Snapshot bids asks)"
  shows "side_ok side (side_levels side (apply_op t (Snapshot bids asks))) (side_best side (apply_op t (Snapshot bids asks))) \<and>
    map_of (side_levels side (apply_op t (Snapshot bids asks))) = sizes_after side m (Snapshot bids asks)"
proof -
  have "\<forall>(p, sz) \<in> set bids. numeric p" "\<forall>(p, sz) \<in> set asks. numeric p" using assms by auto
  from this [THEN load_levels_ok, of "[]"] show ?thesis
    by (cases side) (auto simp: snapshot_def side_ok_def map_of_loaded)
qed

lemma op_preserves:
  assumes "side_ok side (side_levels side t) (side_best side t)" "op_numeric op"
  shows "side_ok side (side_levels side (apply_op t op)) (side_best side (apply_op t op)) \<and>
    map_of (side_levels side (apply_op t op)) = sizes_after side (map_of (side_levels side t)) op"
proof (cases op)
  case (Snapshot bids asks)
  with snapshot_numeric assms(2) show ?thesis by blast
next
  case (Change side' p sz)
  have m: "map_of (fst (change_side s p sz (l, b))) = (if has_size sz then (map_of l)(p \<mapsto> sz) else (map_of l)(p := None))" for s l b
    by (simp add: change_side_def Let_def AList.update_conv' AList.delete_conv')
  show ?thesis
    using change_side_ok [OF assms(1), of p sz] m assms Change
    by (cases side; cases side') (auto simp: change_def Let_def case_prod_beta)
qed

lemma ops_preserve:
  assumes "\<forall>op \<in> set ops. op_numeric op"
  shows "side_ok side (side_levels side (foldl apply_op new_book ops)) (side_best side (foldl apply_op new_book ops)) \<and>
    map_of (side_levels side (foldl apply_op new_book ops)) = foldl (sizes_after side) Map.empty ops"
  using assms
proof (induction ops rule: rev_induct)
  case Nil
  show ?case by (cases side) (simp_all add: new_book_def side_ok_def scan_best_of)
next
  case (snoc op ops)
  with op_preserves [of side "foldl apply_op new_book ops" op] show ?case by simp
qed

text \<open>What \<open>side_ok\<close> says of the best price.\<close>

lemma side_ok_best:
  assumes "side_ok side levels best"
  shows "if best = VUndefined then map_of levels = Map.empty
         else map_of levels best = Some (level_size levels best) \<and> (\<forall>p \<in> dom (map_of levels). \<not> beats side p best)"
proof -
  have n: "\<forall>p \<in> set (map fst levels). numeric p" and b: "best = best_of side (map fst levels)"
    using assms by (auto simp: side_ok_def scan_best_of)
  show ?thesis
  proof (cases "levels = []")
    case True
    then show ?thesis by (simp add: b)
  next
    case False
    with best_of_max [OF n, of side] have *: "best \<in> fst ` set levels" "\<forall>p \<in> fst ` set levels. \<not> beats side p best"
      by (auto simp: b)
    then obtain sz where "map_of levels best = Some sz" by (meson map_of_eq_None_iff not_None_eq)
    with * n show ?thesis
      using numeric_defined by (auto simp: level_size_def dom_map_of_conv_image_fst)
  qed
qed

text \<open>Claim C30: after any snapshots and changes whose prices are numbers, the order book of a market holds the last
  has_size size of every price, and \<open>top\<close> returns a price of each side with its size that no other price of the side
  beats, or nothing when a side is empty: the best prices kept incrementally are never stale.\<close>

theorem top_of_book_exact:
  assumes "\<forall>op \<in> set ops. op_numeric op"
  shows "(let t = foldl apply_op new_book ops;
              bids = foldl (sizes_after Buy) Map.empty ops;
              asks = foldl (sizes_after Sell) Map.empty ops
          in map_of (tb_bids t) = bids \<and> map_of (tb_asks t) = asks \<and>
             (case top_of t of
               None \<Rightarrow> bids = Map.empty \<or> asks = Map.empty
             | Some (bid, ask, bidSize, askSize) \<Rightarrow>
                 bids bid = Some bidSize \<and> asks ask = Some askSize \<and>
                 (\<forall>p \<in> dom bids. \<not> js_less (to_number bid) (to_number p)) \<and>
                 (\<forall>p \<in> dom asks. \<not> js_less (to_number p) (to_number ask))))"
proof -
  note buy = ops_preserve [OF assms, of Buy] and sell = ops_preserve [OF assms, of Sell]
  show ?thesis
    using buy sell side_ok_best [OF buy [THEN conjunct1]] side_ok_best [OF sell [THEN conjunct1]]
    by (auto simp: Let_def top_of_def split: if_splits)
qed

definition demo_book_ops :: "book_op list" where
  "demo_book_ops =
    [Snapshot [(VNum (Fin 10), VNum (Fin 1)), (VNum (Fin 9), VNum (Fin 1))] [(VNum (Fin 11), VNum (Fin 1))],
     Change Buy (VNum (Fin (21 / 2))) (VNum (Fin 2)), Change Buy (VNum (Fin (21 / 2))) (VNum (Fin 0))]"

lemma top_of_book_exact_witness:
  "map_of (tb_bids (foldl apply_op new_book demo_book_ops)) = foldl (sizes_after Buy) Map.empty demo_book_ops \<and>
   top_of (foldl apply_op new_book demo_book_ops) = Some (VNum (Fin 10), VNum (Fin 11), VNum (Fin 1), VNum (Fin 1))"
proof -
  have "\<forall>op \<in> set demo_book_ops. op_numeric op" by code_simp
  moreover have "top_of (foldl apply_op new_book demo_book_ops) = Some (VNum (Fin 10), VNum (Fin 11), VNum (Fin 1), VNum (Fin 1))"
    by code_simp
  ultimately show ?thesis using top_of_book_exact [of demo_book_ops] unfolding Let_def by blast
qed

end
