(* ===== verification/Sources.thy ===== *)
theory Sources
  imports Venues
begin

text \<open>
  \<open>apps/publisher/src/sources\<close>: \<open>runner.ts\<close> (one exchange connection), \<open>rest.ts\<close> (polling), \<open>manager.ts\<close> (which
  sources run) and \<open>mock.ts\<close>. What a source hands on is a list of \<open>delivery\<close>, the input of \<open>Market_Data\<close>; sockets
  and timers are effects of the connection's steps, and a reply of an exchange is an argument.

  Lemmas: the polling hands no trade on twice, as long as every trade parses; one that does not makes it repeat the
  others. After a sync the running sources are those the configurations need.
\<close>

section \<open>A connection\<close>

definition decimalText :: "jvalue \<Rightarrow> string result" where
  "decimalText v =
    (case v of
      VStr s \<Rightarrow> Inr s
    | _ \<Rightarrow>
        let s = string_of v in
        if CHR ''e'' \<in> set s \<or> CHR ''E'' \<in> set s then
          (case v of
            VNum x \<Rightarrow>
              let z = rev (dropWhile (\<lambda>c. c = CHR ''0'') (rev (to_fixed18 x)))
              in Inr (if z \<noteq> [] \<and> last z = CHR ''.'' then butlast z else z)
          | _ \<Rightarrow> Inl (TypeError ''toFixed is not a function''))
        else Inr s)"

definition parse_price :: "jvalue \<Rightarrow> int result" where
  "parse_price v = ebind (decimalText v) parseDecimal"

text \<open>One event of a message. A throw skips the event.\<close>

fun event_delivery :: "string \<Rightarrow> int \<Rightarrow> VenueEvent \<Rightarrow> delivery result" where
  "event_delivery venue timeMs (QuoteEv market bid ask bidSize askSize) =
    ebind (parse_price bid) (\<lambda>b.
    ebind (parse_price ask) (\<lambda>a.
    ebind (if bidSize \<noteq> VUndefined \<and> askSize \<noteq> VUndefined
           then ebind (parse_price bidSize) (\<lambda>bs. ebind (parse_price askSize) (\<lambda>as. Inr (Some bs, Some as)))
           else Inr (None, None)) (\<lambda>(bs, as).
    Inr (QuoteIn venue (string_of market) \<lparr>q_bid = b, q_ask = a, q_timeMs = timeMs, q_bidSize = bs, q_askSize = as\<rparr>))))"
| "event_delivery venue timeMs (TradeEv market price qty) =
    ebind (parse_price price) (\<lambda>p.
    ebind (parse_price qty) (\<lambda>q.
    Inr (TradeIn venue (string_of market) \<lparr>t_price = p, t_qty = q, t_timeMs = timeMs\<rparr>)))"

definition kept_events :: "'a result list \<Rightarrow> 'a list" where
  "kept_events rs = concat (map (\<lambda>r. case r of Inl e \<Rightarrow> [] | Inr d \<Rightarrow> [d]) rs)"

definition connection_handle :: "VenueSpec \<Rightarrow> books \<Rightarrow> int \<Rightarrow> jvalue \<Rightarrow> delivery list result \<times> books" where
  "connection_handle spec books now m =
    (case vs_parse spec books m of
      (Inl e, books') \<Rightarrow> (Inl e, books')
    | (Inr events, books') \<Rightarrow> (Inr (kept_events (map (event_delivery (vs_venue spec) now) events)), books'))"

definition STALL_MS :: int where "STALL_MS = 30000"

record VenueConnection =
  vc_spec :: VenueSpec
  vc_markets :: "string list"
  vc_stopped :: bool
  vc_backoffMs :: int
  vc_lastMessage :: int
  vc_timers :: nat
  vc_books :: books

datatype source_act =
    ResolveUrl
  | OpenWs string
  | SendJson jvalue
  | SendText string
  | PingEvery int
  | CheckEvery int
  | Terminate
  | RetryIn int
  | ClearTimers
  | Deliver delivery
  | SourceLog string

definition new_connection :: "VenueSpec \<Rightarrow> string list \<Rightarrow> VenueConnection" where
  "new_connection spec markets = \<lparr>vc_spec = spec, vc_markets = markets, vc_stopped = False, vc_backoffMs = 1000,
    vc_lastMessage = 0, vc_timers = 0, vc_books = []\<rparr>"

definition vc_connect :: "VenueConnection \<Rightarrow> source_act list" where
  "vc_connect c = (if vc_stopped c then [] else [ResolveUrl])"

definition vc_start :: "VenueConnection \<Rightarrow> VenueConnection \<times> source_act list" where
  "vc_start c = (let c' = c\<lparr>vc_stopped := False\<rparr> in (c', vc_connect c'))"

definition vc_stop :: "VenueConnection \<Rightarrow> VenueConnection \<times> source_act list" where
  "vc_stop c = (c\<lparr>vc_stopped := True, vc_timers := 0\<rparr>, [ClearTimers, Terminate])"

definition vc_retry :: "VenueConnection \<Rightarrow> VenueConnection \<times> source_act list" where
  "vc_retry c =
    (if vc_stopped c then (c, [])
     else (c\<lparr>vc_backoffMs := min (vc_backoffMs c * 2) 60000\<rparr>, [RetryIn (vc_backoffMs c)]))"

definition ping_frame :: "jvalue \<Rightarrow> source_act" where
  "ping_frame v = (case v of VStr s \<Rightarrow> SendText s | _ \<Rightarrow> SendJson v)"

text \<open>The address resolves or not; the socket opens, gets a frame (its text and, if it is JSON, its value) or a pong,
  closes; the stall timer fires; the retry delay is over.\<close>

datatype source_input =
    UrlResolved "string result"
  | SocketOpened int
  | FrameReceived string "jvalue option" int
  | PongReceived int
  | SocketErrored
  | SocketClosed
  | StallCheck int
  | PingDue int
  | RetryDue

fun vc_step :: "VenueConnection \<Rightarrow> source_input \<Rightarrow> VenueConnection \<times> source_act list" where
  "vc_step c (UrlResolved (Inr url)) = (c, if vc_stopped c then [] else [OpenWs url])"
| "vc_step c (UrlResolved (Inl e)) = (let (c', as) = vc_retry c in (c', SourceLog ''venue.error'' # as))"
| "vc_step c (SocketOpened now) =
    (c\<lparr>vc_backoffMs := 1000, vc_lastMessage := now,
       vc_timers := vc_timers c + (case vs_ping (vc_spec c) of None \<Rightarrow> 1 | Some _ \<Rightarrow> 2)\<rparr>,
     map SendJson (vs_subscribe (vc_spec c) (vc_markets c) now) @ [SourceLog ''venue.connected''] @
     (case vs_ping (vc_spec c) of None \<Rightarrow> [] | Some (ms, payload) \<Rightarrow> [PingEvery ms]) @ [CheckEvery 5000])"
| "vc_step c (FrameReceived text message now) =
    (let c' = c\<lparr>vc_lastMessage := now\<rparr>;
         alive = Deliver (Alive (vs_venue (vc_spec c)) now)
     in if text = ''pong'' then (c', [alive])
        else case message of
          None \<Rightarrow> (c', [alive])
        | Some m \<Rightarrow>
            (case connection_handle (vc_spec c) (vc_books c) now m of
              (Inl e, books') \<Rightarrow> (c'\<lparr>vc_books := books'\<rparr>, [alive])
            | (Inr ds, books') \<Rightarrow> (c'\<lparr>vc_books := books'\<rparr>, alive # map Deliver ds)))"
| "vc_step c (PongReceived now) = (c, [Deliver (Alive (vs_venue (vc_spec c)) now)])"
| "vc_step c SocketErrored = (c, [SourceLog ''venue.error''])"
| "vc_step c SocketClosed = (let (c', as) = vc_retry (c\<lparr>vc_timers := 0\<rparr>) in (c', ClearTimers # as))"
| "vc_step c (StallCheck now) =
    (c, if now - vc_lastMessage c > STALL_MS then [SourceLog ''venue.stalled'', Terminate] else [])"
| "vc_step c (PingDue now) =
    (c, case vs_ping (vc_spec c) of None \<Rightarrow> []
        | Some (ms, payload) \<Rightarrow> [ping_frame (payload now)])"
| "vc_step c RetryDue = (c, vc_connect c)"

section \<open>Markets by venue\<close>

fun feed_markets :: "FeedConfig \<Rightarrow> MarketConfig list" where
  "feed_markets (MarketFeed b m) = pm_markets m"
| "feed_markets (TwapFeed b t s) = []"

definition add_market :: "(string \<times> string list) list \<Rightarrow> MarketConfig \<Rightarrow> (string \<times> string list) list" where
  "add_market byVenue m =
    (let s = (case map_of byVenue (mc_venue m) of None \<Rightarrow> [] | Some xs \<Rightarrow> xs)
     in AList.update (mc_venue m) (if mc_market m \<in> set s then s else s @ [mc_market m]) byVenue)"

definition marketsByVenue :: "MarketConfig list list \<Rightarrow> (string \<times> string list) list" where
  "marketsByVenue methods = foldl add_market [] (concat methods)"

section \<open>Polling\<close>

record RestVenueSpec =
  rv_venue :: string
  rv_intervalMs :: int
  rv_bookTicker :: "string \<Rightarrow> string"
  rv_trades :: "string \<Rightarrow> string"
  rv_parseBook :: "jvalue \<Rightarrow> (jvalue \<times> jvalue \<times> jvalue \<times> jvalue) option"
  rv_parseTrades :: "jvalue \<Rightarrow> (jvalue \<times> jvalue \<times> js_number) list"

definition mexc :: RestVenueSpec where
  "mexc = \<lparr>rv_venue = ''mexc'', rv_intervalMs = 1000,
    rv_bookTicker = (\<lambda>m. ''https://api.mexc.com/api/v3/ticker/bookTicker?symbol='' @ m),
    rv_trades = (\<lambda>m. ''https://api.mexc.com/api/v3/trades?symbol='' @ m @ ''&limit=100''),
    rv_parseBook = (\<lambda>b. if truthy (field b ''bidPrice'') \<and> truthy (field b ''askPrice'')
      then Some (field b ''bidPrice'', field b ''askPrice'', field b ''bidQty'', field b ''askQty'') else None),
    rv_parseTrades = (\<lambda>b. map (\<lambda>t. (field t ''price'', field t ''qty'', to_number (field t ''time'')))
      (filter (\<lambda>t. truthy (field t ''price'') \<and> truthy (field t ''qty'') \<and> truthy (field t ''time'')) (arr b)))\<rparr>"

definition REST_VENUES :: "(string \<times> RestVenueSpec) list" where
  "REST_VENUES = [(''mexc'', mexc)]"

definition REFUSED_BACKOFF_MS :: int where "REFUSED_BACKOFF_MS = 30000"

type_synonym raw_trade = "jvalue \<times> jvalue \<times> js_number"
type_synonym trade_cursor = "js_number \<times> string list"

record RestPoller =
  rp_spec :: RestVenueSpec
  rp_markets :: "string list"
  rp_lastTrade :: "(string \<times> trade_cursor) list"
  rp_backoffUntil :: "(string \<times> int) list"

definition trade_time :: "raw_trade \<Rightarrow> js_number" where
  "trade_time t = snd (snd t)"

definition trade_key :: "raw_trade \<Rightarrow> string" where
  "trade_key t = number_string (trade_time t) @ '':'' @ string_of (fst t) @ '':'' @ string_of (fst (snd t))"

definition js_max :: "js_number \<Rightarrow> js_number \<Rightarrow> js_number" where
  "js_max a b = (if a = NaN \<or> b = NaN then NaN else if js_less a b then b else a)"

definition js_same :: "js_number \<Rightarrow> js_number \<Rightarrow> bool" where
  "js_same a b \<longleftrightarrow> a = b \<and> a \<noteq> NaN"

definition latest_trade :: "trade_cursor option \<Rightarrow> raw_trade list \<Rightarrow> js_number" where
  "latest_trade cursor trades = foldl (\<lambda>m t. js_max m (trade_time t)) (case cursor of None \<Rightarrow> Fin 0 | Some (time, _) \<Rightarrow> time) trades"

text \<open>A trade the loop does not skip.\<close>

definition fresh_trade :: "trade_cursor option \<Rightarrow> raw_trade \<Rightarrow> bool" where
  "fresh_trade cursor t = (case cursor of
      None \<Rightarrow> False
    | Some (time, seen) \<Rightarrow> \<not> (js_less (trade_time t) time \<or> (js_same (trade_time t) time \<and> trade_key t \<in> set seen)))"

definition next_cursor :: "trade_cursor option \<Rightarrow> raw_trade list \<Rightarrow> trade_cursor" where
  "next_cursor cursor trades =
    (let latest = latest_trade cursor trades;
         seen = js_set (map trade_key (filter (\<lambda>t. js_same (trade_time t) latest) trades))
     in (latest, case cursor of
           Some (time, old) \<Rightarrow> if js_same latest time then js_set (old @ seen) else seen
         | None \<Rightarrow> seen))"

fun parse_text :: "jvalue \<Rightarrow> int result" where
  "parse_text (VStr s) = parseDecimal s"
| "parse_text _ = Inl (TypeError ''text.trim is not a function'')"

definition rest_trade :: "string \<Rightarrow> string \<Rightarrow> int \<Rightarrow> raw_trade \<Rightarrow> delivery result" where
  "rest_trade venue market receivedMs t =
    ebind (parse_text (fst t)) (\<lambda>p. ebind (parse_text (fst (snd t))) (\<lambda>q.
    Inr (TradeIn venue market \<lparr>t_price = p, t_qty = q, t_timeMs = receivedMs\<rparr>)))"

text \<open>The loop hands trades on until one throws.\<close>

fun deliver_trades :: "(raw_trade \<Rightarrow> delivery result) \<Rightarrow> raw_trade list \<Rightarrow> delivery list \<times> js_error option" where
  "deliver_trades f [] = ([], None)"
| "deliver_trades f (t # ts) = (case f t of
      Inl e \<Rightarrow> ([], Some e)
    | Inr d \<Rightarrow> (let (ds, e) = deliver_trades f ts in (d # ds, e)))"

definition ingestTrades :: "RestPoller \<Rightarrow> string \<Rightarrow> raw_trade list \<Rightarrow> int \<Rightarrow> RestPoller \<times> delivery list \<times> js_error option" where
  "ingestTrades p market trades receivedMs =
    (let cursor = map_of (rp_lastTrade p) market in
     case deliver_trades (rest_trade (rv_venue (rp_spec p)) market receivedMs) (filter (fresh_trade cursor) trades) of
       (ds, Some e) \<Rightarrow> (p, ds, Some e)
     | (ds, None) \<Rightarrow> (p\<lparr>rp_lastTrade := AList.update market (next_cursor cursor trades) (rp_lastTrade p)\<rparr>, ds, None))"

text \<open>A request fails with a status or otherwise.\<close>

datatype fetch_error = HttpStatus int | OtherError js_error

definition best_delivery :: "RestPoller \<Rightarrow> string \<Rightarrow> int \<Rightarrow> jvalue \<Rightarrow> delivery list result" where
  "best_delivery p market timeMs book =
    (case rv_parseBook (rp_spec p) book of
      None \<Rightarrow> Inr []
    | Some (bid, ask, bidSize, askSize) \<Rightarrow>
        ebind (if truthy bidSize \<and> truthy askSize
               then ebind (parse_text bidSize) (\<lambda>bs. ebind (parse_text askSize) (\<lambda>as. Inr (Some bs, Some as)))
               else Inr (None, None)) (\<lambda>(bs, as).
        ebind (parse_text bid) (\<lambda>b.
        ebind (parse_text ask) (\<lambda>a.
        Inr [QuoteIn (rv_venue (rp_spec p)) market \<lparr>q_bid = b, q_ask = a, q_timeMs = timeMs, q_bidSize = bs, q_askSize = as\<rparr>]))))"

text \<open>\<open>pollMarket\<close>: whether it asks, and what it does with both replies.\<close>

definition polls :: "RestPoller \<Rightarrow> string \<Rightarrow> int \<Rightarrow> bool" where
  "polls p market now \<longleftrightarrow> (case map_of (rp_backoffUntil p) market of None \<Rightarrow> 0 | Some t \<Rightarrow> t) \<le> now"

definition poll_failed :: "RestPoller \<Rightarrow> string \<Rightarrow> fetch_error \<Rightarrow> int \<Rightarrow> RestPoller" where
  "poll_failed p market e now =
    (case e of
      HttpStatus s \<Rightarrow> if s = 403 \<or> s = 429
        then p\<lparr>rp_backoffUntil := AList.update market (now + REFUSED_BACKOFF_MS) (rp_backoffUntil p)\<rparr> else p
    | OtherError _ \<Rightarrow> p)"

definition poll_replies :: "RestPoller \<Rightarrow> string \<Rightarrow> (fetch_error + jvalue) \<Rightarrow> (fetch_error + jvalue) \<Rightarrow> int \<Rightarrow>
    RestPoller \<times> delivery list \<times> fetch_error option" where
  "poll_replies p market book trades now =
    (case (book, trades) of
      (Inr b, Inr ts) \<Rightarrow>
        let alive = Alive (rv_venue (rp_spec p)) now in
        (case best_delivery p market now b of
          Inl e \<Rightarrow> (p, [alive], Some (OtherError e))
        | Inr quotes \<Rightarrow>
            let (p', ds, e) = ingestTrades p market (rv_parseTrades (rp_spec p) ts) now
            in (p', alive # quotes @ ds, map_option OtherError e))
    | (Inl e, _) \<Rightarrow> (poll_failed p market e now, [], Some e)
    | (_, Inl e) \<Rightarrow> (poll_failed p market e now, [], Some e))"

definition rp_isBackingOff :: "RestPoller \<Rightarrow> int \<Rightarrow> bool" where
  "rp_isBackingOff p now \<longleftrightarrow> (\<exists>e \<in> set (rp_backoffUntil p). snd e > now)"

definition new_poller :: "RestVenueSpec \<Rightarrow> string list \<Rightarrow> RestPoller" where
  "new_poller spec markets = \<lparr>rp_spec = spec, rp_markets = markets, rp_lastTrade = [], rp_backoffUntil = []\<rparr>"

section \<open>Which sources run\<close>

text \<open>\<open>VENUES[venue]\<close> and \<open>REST_VENUES[venue]\<close> find the names every object inherits, too: such a connection has no
  \<open>url\<close> and only fails and retries.\<close>

datatype source = Connection VenueConnection | Poller RestPoller | BrokenConnection

definition create_source :: "string \<Rightarrow> string list \<Rightarrow> source option" where
  "create_source venue markets =
    (case map_of VENUES venue of
      Some spec \<Rightarrow> Some (Connection (new_connection spec markets))
    | None \<Rightarrow>
        if venue \<in> set OBJECT_PROTOTYPE then Some BrokenConnection
        else map_option (\<lambda>spec. Poller (new_poller spec markets)) (map_of REST_VENUES venue))"

type_synonym running = "(string \<times> string \<times> source) list"

datatype manager_act = StopSource string | StartSource string "string list" | UnsupportedVenue string "string list"

definition markets_key :: "string list \<Rightarrow> string" where
  "markets_key markets = join_with '','' (sort markets)"

definition stop_unwanted :: "(string \<times> string list) list \<Rightarrow> running \<Rightarrow> running \<times> manager_act list" where
  "stop_unwanted wanted running =
    (filter (\<lambda>(venue, r). venue \<in> fst ` set wanted) running,
     map (\<lambda>(venue, r). StopSource venue) (filter (\<lambda>(venue, r). venue \<notin> fst ` set wanted) running))"

definition sync_venue :: "running \<times> manager_act list \<Rightarrow> string \<times> string list \<Rightarrow> running \<times> manager_act list" where
  "sync_venue = (\<lambda>(running, acts) (venue, markets).
    let k = markets_key markets; current = map_of running venue in
    if map_option fst current = Some k then (running, acts)
    else
      let stopped = (case current of None \<Rightarrow> [] | Some _ \<Rightarrow> [StopSource venue]) in
      case create_source venue markets of
        None \<Rightarrow> (running, acts @ stopped @ [UnsupportedVenue venue markets])
      | Some source \<Rightarrow> (AList.update venue (k, source) running, acts @ stopped @ [StartSource venue markets]))"

definition wanted_markets :: "CommitteeConfig list \<Rightarrow> (string \<times> string list) list" where
  "wanted_markets configs = marketsByVenue (map feed_markets (concat (map (\<lambda>c. marketFeeds (c_feeds c)) configs)))"

definition sync_sources :: "CommitteeConfig list \<Rightarrow> running \<Rightarrow> running \<times> manager_act list" where
  "sync_sources configs running =
    (let wanted = wanted_markets configs in foldl sync_venue (stop_unwanted wanted running) wanted)"

definition stop_sources :: "running \<Rightarrow> running \<times> manager_act list" where
  "stop_sources running = ([], map (\<lambda>(venue, r). StopSource venue) running)"

definition manager_isBackingOff :: "running \<Rightarrow> string \<Rightarrow> int \<Rightarrow> bool" where
  "manager_isBackingOff running venue now \<longleftrightarrow>
    (case map_of running venue of Some (_, Poller p) \<Rightarrow> rp_isBackingOff p now | _ \<Rightarrow> False)"

section \<open>Mock quotes\<close>

record MockMarket =
  mm_venue :: string
  mm_market :: string
  mm_mid :: int

definition mock_market :: "int \<Rightarrow> nat \<times> MarketConfig \<Rightarrow> MockMarket" where
  "mock_market base = (\<lambda>(i, m). \<lparr>mm_venue = mc_venue m, mm_market = mc_market m, mm_mid = big_div (base * (10000 + int i - 1)) 10000\<rparr>)"

definition add_mock :: "(string \<times> int) list \<Rightarrow> (string \<times> MockMarket) list \<Rightarrow> FeedConfig \<Rightarrow> (string \<times> MockMarket) list" where
  "add_mock basePrices seen f =
    (case map_of basePrices (feed_symbol f) of
      None \<Rightarrow> seen
    | Some base \<Rightarrow> foldl (\<lambda>seen m. AList.update (mm_venue m @ ''/'' @ mm_market m) m seen) seen
        (map (mock_market base) (enumerate 0 (feed_markets f))))"

definition mockMarketsFor :: "CommitteeConfig \<Rightarrow> (string \<times> int) list \<Rightarrow> MockMarket list" where
  "mockMarketsFor config basePrices = map snd (foldl (add_mock basePrices) [] (marketFeeds (c_feeds config)))"

definition mock_drift :: "int \<Rightarrow> int" where
  "mock_drift timeMs = big_rem (timeMs div 1000) 7 - 3"

definition emitMockQuotes :: "MockMarket list \<Rightarrow> int \<Rightarrow> int \<Rightarrow> delivery list" where
  "emitMockQuotes markets timeMs skewBps =
    concat (map (\<lambda>m.
      let mid = big_div (mm_mid m * (10000 + skewBps + mock_drift timeMs)) 10000;
          half = big_div mid 10000
      in [QuoteIn (mm_venue m) (mm_market m) \<lparr>q_bid = mid - half, q_ask = mid + half, q_timeMs = timeMs, q_bidSize = None, q_askSize = None\<rparr>,
          Alive (mm_venue m) timeMs]) markets)"

section \<open>A connection retries, and only while it is wanted\<close>

lemma ping_frame_sends:
  "ping_frame v \<noteq> RetryIn d" "ping_frame v \<noteq> OpenWs url" "ping_frame v \<noteq> ResolveUrl"
  "RetryIn d \<noteq> ping_frame v" "OpenWs url \<noteq> ping_frame v" "ResolveUrl \<noteq> ping_frame v"
  by (cases v; simp add: ping_frame_def)+

lemma vc_backoff_bounds:
  assumes "1000 \<le> vc_backoffMs c" "vc_backoffMs c \<le> 60000"
  shows "1000 \<le> vc_backoffMs (fst (vc_step c i)) \<and> vc_backoffMs (fst (vc_step c i)) \<le> 60000 \<and>
    (\<forall>d. RetryIn d \<in> set (snd (vc_step c i)) \<longrightarrow> 1000 \<le> d \<and> d \<le> 60000)"
  using assms
  by (cases "(c, i)" rule: vc_step.cases)
    (auto simp: vc_retry_def vc_connect_def Let_def ping_frame_sends split: option.splits prod.splits sum.splits if_splits)

lemma vc_stopped_quiet:
  assumes "vc_stopped c"
  shows "vc_stopped (fst (vc_step c i)) \<and>
    (\<forall>a \<in> set (snd (vc_step c i)). (\<forall>url. a \<noteq> OpenWs url) \<and> a \<noteq> ResolveUrl \<and> (\<forall>d. a \<noteq> RetryIn d))"
  using assms
  by (cases "(c, i)" rule: vc_step.cases)
    (auto simp: vc_retry_def vc_connect_def Let_def ping_frame_sends split: option.splits prod.splits sum.splits if_splits)

text \<open>A running connection whose socket closes or cannot open always has a retry pending.\<close>

lemma vc_failure_retries:
  assumes "\<not> vc_stopped c" "i = SocketClosed \<or> (\<exists>e. i = UrlResolved (Inl e))"
  shows "RetryIn (vc_backoffMs c) \<in> set (snd (vc_step c i)) \<and>
    vc_backoffMs (fst (vc_step c i)) = min (vc_backoffMs c * 2) 60000"
  using assms by (auto simp: vc_retry_def Let_def)

fun delivery_time :: "delivery \<Rightarrow> int" where
  "delivery_time (Alive venue t) = t"
| "delivery_time (QuoteIn venue market q) = q_timeMs q"
| "delivery_time (TradeIn venue market t) = t_timeMs t"

lemma event_delivery_time: "event_delivery venue now e = Inr d \<Longrightarrow> delivery_time d = now"
  by (cases e) (auto simp: ebind_eq_Inr)

text \<open>Quotes and trades carry the local time of the frame, not the exchange's.\<close>

lemma handled_now:
  assumes "connection_handle spec books now m = (Inr ds, books')" "d \<in> set ds"
  shows "delivery_time d = now"
  using assms event_delivery_time
  by (auto simp: connection_handle_def kept_events_def split: prod.splits sum.splits)

section \<open>No trade twice\<close>

lemma js_linear: "a \<noteq> NaN \<Longrightarrow> b \<noteq> NaN \<Longrightarrow> \<not> js_less a b \<Longrightarrow> \<not> js_less b a \<Longrightarrow> a = b"
  by (cases a; cases b) auto

lemma latest_trade_bounds:
  assumes "\<forall>t \<in> set ts. trade_time t \<noteq> NaN" "m \<noteq> NaN"
  shows "foldl (\<lambda>m t. js_max m (trade_time t)) m ts \<noteq> NaN \<and>
    \<not> js_less (foldl (\<lambda>m t. js_max m (trade_time t)) m ts) m \<and>
    (\<forall>t \<in> set ts. \<not> js_less (foldl (\<lambda>m t. js_max m (trade_time t)) m ts) (trade_time t)) \<and>
    (\<forall>u. js_less m u \<and> (\<forall>t \<in> set ts. js_less (trade_time t) u) \<longrightarrow> js_less (foldl (\<lambda>m t. js_max m (trade_time t)) m ts) u)"
  using assms
proof (induction ts arbitrary: m)
  case (Cons t ts)
  let ?m = "js_max m (trade_time t)"
  have m: "?m \<noteq> NaN" "\<not> js_less ?m m" "\<not> js_less ?m (trade_time t)" "?m = m \<or> ?m = trade_time t"
    using Cons.prems by (auto simp: js_max_def dest: js_less_asym)
  have "\<not> js_less (foldl (\<lambda>m t. js_max m (trade_time t)) ?m ts) x" if "\<not> js_less ?m x" "x \<noteq> NaN" for x
  proof
    have ts: "\<forall>t \<in> set ts. trade_time t \<noteq> NaN" using Cons.prems(1) by simp
    assume "js_less (foldl (\<lambda>m t. js_max m (trade_time t)) ?m ts) x"
    from js_less_weak [OF this m(1)] that(1) Cons.IH [OF ts m(1), THEN conjunct2, THEN conjunct1] show False by blast
  qed
  with Cons.prems m(1-3) have *: "\<not> js_less (foldl (\<lambda>m t. js_max m (trade_time t)) ?m ts) m"
      "\<not> js_less (foldl (\<lambda>m t. js_max m (trade_time t)) ?m ts) (trade_time t)"
    by simp_all
  have "js_less ?m u" if "js_less m u" "js_less (trade_time t) u" for u using m(4) that by (elim disjE) simp_all
  note more = this
  have ts: "\<forall>t \<in> set ts. trade_time t \<noteq> NaN" using Cons.prems(1) by simp
  show ?case
    unfolding foldl_Cons list.set ball_simps
    using Cons.IH [OF ts m(1)] * more by (intro conjI) (blast, blast, blast, blast, metis)
qed simp

definition cursor_time :: "trade_cursor option \<Rightarrow> js_number" where
  "cursor_time cursor = (case cursor of None \<Rightarrow> Fin 0 | Some (time, _) \<Rightarrow> time)"

lemma next_cursor_time:
  assumes "\<forall>t \<in> set ts. trade_time t \<noteq> NaN" "cursor_time cursor \<noteq> NaN"
  defines "L \<equiv> fst (next_cursor cursor ts)"
  shows "L \<noteq> NaN" "\<not> js_less L (cursor_time cursor)" "\<forall>t \<in> set ts. \<not> js_less L (trade_time t)"
    "\<forall>u. js_less (cursor_time cursor) u \<and> (\<forall>t \<in> set ts. js_less (trade_time t) u) \<longrightarrow> js_less L u"
  using latest_trade_bounds [OF assms(1,2)]
  by (auto simp: L_def next_cursor_def latest_trade_def cursor_time_def Let_def)

text \<open>What is fresh in each of a sequence of replies.\<close>

fun fresh_batches :: "trade_cursor option \<Rightarrow> raw_trade list list \<Rightarrow> raw_trade list list" where
  "fresh_batches cursor [] = []"
| "fresh_batches cursor (b # bs) = filter (fresh_trade cursor) b # fresh_batches (Some (next_cursor cursor b)) bs"

lemma length_fresh_batches [simp]: "length (fresh_batches cursor bs) = length bs"
  by (induction cursor bs rule: fresh_batches.induct) simp_all

text \<open>The cursor remembers a set of trades: it is not before them, and has seen those of its time.\<close>

definition remembers :: "trade_cursor option \<Rightarrow> raw_trade set \<Rightarrow> bool" where
  "remembers cursor D \<longleftrightarrow> D = {} \<or> (\<exists>time seen. cursor = Some (time, seen) \<and> time \<noteq> NaN \<and>
    (\<forall>t \<in> D. trade_time t \<noteq> NaN \<and> \<not> js_less time (trade_time t) \<and> (trade_time t = time \<longrightarrow> trade_key t \<in> set seen)))"

definition trade_id :: "raw_trade \<Rightarrow> js_number \<times> string" where
  "trade_id t = (trade_time t, trade_key t)"

lemma remembered_not_fresh:
  assumes "remembers cursor D" "fresh_trade cursor u" "trade_time u \<noteq> NaN" "t \<in> D"
  shows "trade_id t \<noteq> trade_id u"
proof
  assume same: "trade_id t = trade_id u"
  from assms(1,4) obtain time seen where c: "cursor = Some (time, seen)" "time \<noteq> NaN" "\<not> js_less time (trade_time t)"
      "trade_time t = time \<longrightarrow> trade_key t \<in> set seen"
    by (auto simp: remembers_def)
  from assms(2) c(1) have "\<not> js_less (trade_time u) time" "\<not> (js_same (trade_time u) time \<and> trade_key u \<in> set seen)"
    by (auto simp: fresh_trade_def)
  with c same assms(3) js_linear [of "trade_time u" time] show False
    by (auto simp: trade_id_def js_same_def)
qed

lemma remembers_next:
  assumes "remembers cursor D" "cursor_time cursor \<noteq> NaN" "\<forall>t \<in> set b. trade_time t \<noteq> NaN"
  shows "remembers (Some (next_cursor cursor b)) (D \<union> set b)"
proof -
  obtain L seen where n: "next_cursor cursor b = (L, seen)" by (cases "next_cursor cursor b")
  note L = next_cursor_time [OF assms(3,2), unfolded n fst_conv]
  have seen: "trade_key t \<in> set seen" if "t \<in> set b" "trade_time t = L" for t
    using that n assms(3) by (auto simp: next_cursor_def Let_def js_same_def split: option.splits if_splits)
  have "trade_time t \<noteq> NaN \<and> \<not> js_less L (trade_time t) \<and> (trade_time t = L \<longrightarrow> trade_key t \<in> set seen)" if "t \<in> D" for t
  proof -
    from assms(1) that obtain time old where c: "cursor = Some (time, old)" "time \<noteq> NaN" "trade_time t \<noteq> NaN"
        "\<not> js_less time (trade_time t)" "trade_time t = time \<longrightarrow> trade_key t \<in> set old"
      by (auto simp: remembers_def)
    have less: "\<not> js_less L time" using L(2) c(1) by (simp add: cursor_time_def)
    have "\<not> js_less L (trade_time t)" using less c js_less_weak by blast
    moreover have "trade_key t \<in> set seen" if "trade_time t = L"
    proof -
      have "L = time" using that less c js_linear by (metis L(1))
      with that c n show ?thesis by (auto simp: next_cursor_def Let_def js_same_def)
    qed
    ultimately show ?thesis using c(3) by blast
  qed
  with seen L assms(3) n show ?thesis by (auto simp: remembers_def)
qed

lemma fresh_batches_disjoint:
  assumes "remembers cursor D" "cursor_time cursor \<noteq> NaN" "\<forall>b \<in> set bs. \<forall>t \<in> set b. trade_time t \<noteq> NaN"
  shows "(\<forall>j < length bs. \<forall>u \<in> set (fresh_batches cursor bs ! j). u \<in> set (bs ! j) \<and> trade_id u \<notin> trade_id ` D) \<and>
    (\<forall>i j. i < j \<and> j < length bs \<longrightarrow> trade_id ` set (fresh_batches cursor bs ! i) \<inter> trade_id ` set (fresh_batches cursor bs ! j) = {})"
  using assms
proof (induction cursor bs arbitrary: D rule: fresh_batches.induct)
  case (2 cursor b bs)
  let ?c = "Some (next_cursor cursor b)"
  have b: "\<forall>t \<in> set b. trade_time t \<noteq> NaN" using "2.prems" by simp
  have "cursor_time ?c \<noteq> NaN"
    using next_cursor_time(1) [OF b "2.prems"(2)] by (simp add: cursor_time_def case_prod_beta)
  note IH = "2.IH" [OF remembers_next [OF "2.prems"(1,2) b] this]
  have rest: "\<forall>j < length bs. \<forall>u \<in> set (fresh_batches ?c bs ! j). u \<in> set (bs ! j) \<and> trade_id u \<notin> trade_id ` (D \<union> set b)"
    and later: "\<forall>i j. i < j \<and> j < length bs \<longrightarrow>
      trade_id ` set (fresh_batches ?c bs ! i) \<inter> trade_id ` set (fresh_batches ?c bs ! j) = {}"
    using IH "2.prems"(3) by auto
  have first: "\<forall>u \<in> set (filter (fresh_trade cursor) b). trade_id u \<notin> trade_id ` D"
    using remembered_not_fresh [OF "2.prems"(1)] b by fastforce
  have "u \<in> set ((b # bs) ! j) \<and> trade_id u \<notin> trade_id ` D"
    if "j < length (b # bs)" "u \<in> set (fresh_batches cursor (b # bs) ! j)" for j u
  proof (cases j)
    case 0
    with that(2) have u: "u \<in> set (filter (fresh_trade cursor) b)" by simp
    with first 0 show ?thesis by (metis filter_is_subset nth_Cons_0 subsetD)
  next
    case (Suc k)
    with that rest have "u \<in> set (bs ! k) \<and> trade_id u \<notin> trade_id ` (D \<union> set b)" by (simp del: image_Un)
    then show ?thesis unfolding Suc nth_Cons_Suc by (simp only: image_Un Un_iff de_Morgan_disj simp_thms)
  qed
  moreover have "trade_id ` set (fresh_batches cursor (b # bs) ! i) \<inter> trade_id ` set (fresh_batches cursor (b # bs) ! j) = {}"
    if "i < j" "j < length (b # bs)" for i j
  proof (cases i)
    case 0
    with that obtain j' where "j = Suc j'" by (cases j) auto
    with 0 that rest show ?thesis by fastforce
  next
    case (Suc i')
    with that obtain j' where "j = Suc j'" by (cases j) auto
    with Suc that later show ?thesis by simp
  qed
  ultimately show ?case by blast
qed simp

lemma fresh_batches_complete:
  assumes "cursor_time cursor \<noteq> NaN" "\<forall>b \<in> set bs. \<forall>t \<in> set b. trade_time t \<noteq> NaN"
    and "j < length bs" "t \<in> set (bs ! j)" "cursor \<noteq> None \<or> 0 < j"
    and "js_less (cursor_time cursor) (trade_time t)" "\<forall>i < j. \<forall>u \<in> set (bs ! i). js_less (trade_time u) (trade_time t)"
  shows "t \<in> set (fresh_batches cursor bs ! j)"
  using assms
proof (induction cursor bs arbitrary: j rule: fresh_batches.induct)
  case (2 cursor b bs)
  show ?case
  proof (cases j)
    case 0
    with "2.prems" obtain time seen where "cursor = Some (time, seen)" "js_less time (trade_time t)"
      by (auto simp: cursor_time_def)
    then have "fresh_trade cursor t" by (auto simp: fresh_trade_def js_same_def dest: js_less_asym)
    with 0 "2.prems"(4) show ?thesis by simp
  next
    case (Suc k)
    let ?c = "Some (next_cursor cursor b)"
    have b: "\<forall>t \<in> set b. trade_time t \<noteq> NaN" using "2.prems" by simp
    note n = next_cursor_time [OF b "2.prems"(1)]
    have "cursor_time ?c = fst (next_cursor cursor b)" by (simp add: cursor_time_def case_prod_beta)
    moreover have "\<forall>u \<in> set b. js_less (trade_time u) (trade_time t)" using "2.prems"(7) Suc by force
    ultimately have "cursor_time ?c \<noteq> NaN" "js_less (cursor_time ?c) (trade_time t)"
      using n "2.prems"(6) by auto
    moreover have "\<forall>i < k. \<forall>u \<in> set (bs ! i). js_less (trade_time u) (trade_time t)" using "2.prems"(7) Suc by force
    ultimately have "t \<in> set (fresh_batches ?c bs ! k)" using "2.IH" [of k] "2.prems" Suc by simp
    with Suc show ?thesis by simp
  qed
qed simp

text \<open>A sequence of replies for one market, each with its time of receipt.\<close>

fun ingest_all :: "RestPoller \<Rightarrow> string \<Rightarrow> (raw_trade list \<times> int) list \<Rightarrow> delivery list list" where
  "ingest_all p market [] = []"
| "ingest_all p market ((ts, now) # bs) = (let (p', ds, e) = ingestTrades p market ts now in ds # ingest_all p' market bs)"

lemma deliver_trades_ok:
  "\<forall>t \<in> set ts. f t = Inr (g t) \<Longrightarrow> deliver_trades f ts = (map g ts, None)"
  by (induction ts) simp_all

lemma ingest_all_fresh:
  assumes "\<forall>(ts, now) \<in> set bs. \<forall>t \<in> set ts. rest_trade (rv_venue (rp_spec p)) market now t = Inr (g now t)"
  shows "ingest_all p market bs =
    map2 (\<lambda>(ts, now) f. map (g now) f) bs (fresh_batches (map_of (rp_lastTrade p) market) (map fst bs))"
  using assms
proof (induction bs arbitrary: p)
  case (Cons b bs)
  obtain ts now where b: "b = (ts, now)" by (cases b)
  let ?cursor = "map_of (rp_lastTrade p) market"
  let ?p = "p\<lparr>rp_lastTrade := AList.update market (next_cursor ?cursor ts) (rp_lastTrade p)\<rparr>"
  have "deliver_trades (rest_trade (rv_venue (rp_spec p)) market now) (filter (fresh_trade ?cursor) ts) =
      (map (g now) (filter (fresh_trade ?cursor) ts), None)"
    using Cons.prems b by (intro deliver_trades_ok) auto
  then have "ingestTrades p market ts now = (?p, map (g now) (filter (fresh_trade ?cursor) ts), None)"
    by (simp add: ingestTrades_def Let_def)
  moreover have "map_of (rp_lastTrade ?p) market = Some (next_cursor ?cursor ts)" by (simp add: AList.update_conv')
  moreover have "ingest_all ?p market bs = map2 (\<lambda>(ts, now) f. map (g now) f) bs (fresh_batches (map_of (rp_lastTrade ?p) market) (map fst bs))"
    using Cons.prems by (intro Cons.IH) auto
  ultimately show ?case by (simp add: b)
qed simp

definition traded :: "string \<Rightarrow> string \<Rightarrow> int \<Rightarrow> raw_trade \<Rightarrow> delivery" where
  "traded venue market now t = TradeIn venue market
    \<lparr>t_price = projr (parse_text (fst t)), t_qty = projr (parse_text (fst (snd t))), t_timeMs = now\<rparr>"

definition trade_parses :: "raw_trade \<Rightarrow> bool" where
  "trade_parses t \<longleftrightarrow> trade_time t \<noteq> NaN \<and> \<not> isl (parse_text (fst t)) \<and> \<not> isl (parse_text (fst (snd t)))"

lemma rest_trade_parses: "trade_parses t \<Longrightarrow> rest_trade venue market now t = Inr (traded venue market now t)"
  unfolding trade_parses_def rest_trade_def traded_def isl_def
  by (cases "parse_text (fst t)"; cases "parse_text (fst (snd t))") auto

text \<open>Claim C31: when all trades of a market's replies parse, what a new poller hands on are the fresh trades of each
  reply, with the time of receipt: no trade (time, price and quantity) is handed on from two replies, and from the
  second reply on every trade newer than all trades of the earlier replies is. The first reply only sets the cursor.\<close>

theorem polled_trades_once:
  assumes "\<forall>(ts, now) \<in> set batches. \<forall>t \<in> set ts. trade_parses t"
  shows "(let F = fresh_batches None (map fst batches) in
    ingest_all (new_poller spec markets) market batches =
      map2 (\<lambda>(ts, now) fresh. map (traded (rv_venue spec) market now) fresh) batches F \<and>
    (\<forall>i j. i < j \<and> j < length batches \<longrightarrow> trade_id ` set (F ! i) \<inter> trade_id ` set (F ! j) = {}) \<and>
    (\<forall>j < length batches. set (F ! j) \<subseteq> set (fst (batches ! j))) \<and>
    (\<forall>j < length batches. \<forall>t \<in> set (fst (batches ! j)). 0 < j \<and> js_less (Fin 0) (trade_time t) \<and>
      (\<forall>i < j. \<forall>u \<in> set (fst (batches ! i)). js_less (trade_time u) (trade_time t)) \<longrightarrow> t \<in> set (F ! j)))"
proof -
  let ?bs = "map fst batches"
  let ?F = "fresh_batches None ?bs"
  have times: "\<forall>b \<in> set ?bs. \<forall>t \<in> set b. trade_time t \<noteq> NaN"
    using assms by (fastforce simp: trade_parses_def)
  have zero: "cursor_time None \<noteq> NaN" by (simp add: cursor_time_def)
  have "\<forall>(ts, now) \<in> set batches. \<forall>t \<in> set ts.
      rest_trade (rv_venue (rp_spec (new_poller spec markets))) market now t = Inr (traded (rv_venue spec) market now t)"
    using assms rest_trade_parses by (fastforce simp: new_poller_def)
  from ingest_all_fresh [OF this] have run: "ingest_all (new_poller spec markets) market batches =
      map2 (\<lambda>(ts, now) fresh. map (traded (rv_venue spec) market now) fresh) batches ?F"
    by (simp add: new_poller_def)
  note disjoint = fresh_batches_disjoint [of None "{}" ?bs, OF _ zero times]
  have sub: "\<forall>j < length batches. set (?F ! j) \<subseteq> set (fst (batches ! j))"
    using disjoint by (auto simp: remembers_def)
  have dis: "\<forall>i j. i < j \<and> j < length batches \<longrightarrow> trade_id ` set (?F ! i) \<inter> trade_id ` set (?F ! j) = {}"
    using disjoint by (simp add: remembers_def)
  have "t \<in> set (?F ! j)" if "j < length batches" "t \<in> set (fst (batches ! j))" "0 < j" "js_less (Fin 0) (trade_time t)"
      "\<forall>i < j. \<forall>u \<in> set (fst (batches ! i)). js_less (trade_time u) (trade_time t)" for j t
    using fresh_batches_complete [OF zero times, of j t] that by (simp add: cursor_time_def)
  then have complete: "\<forall>j < length batches. \<forall>t \<in> set (fst (batches ! j)). 0 < j \<and> js_less (Fin 0) (trade_time t) \<and>
      (\<forall>i < j. \<forall>u \<in> set (fst (batches ! i)). js_less (trade_time u) (trade_time t)) \<longrightarrow> t \<in> set (?F ! j)"
    by blast
  show ?thesis unfolding Let_def by (intro conjI run dis sub complete)
qed

text \<open>A trade that does not parse stops the loop before the cursor moves, so the trades before it are handed on again.\<close>

lemma malformed_trade_repeats:
  assumes "fresh_trade (map_of (rp_lastTrade p) market) t" "fresh_trade (map_of (rp_lastTrade p) market) bad"
    and "\<And>now. rest_trade (rv_venue (rp_spec p)) market now t = Inr (d now)"
    and "\<And>now. rest_trade (rv_venue (rp_spec p)) market now bad = Inl e"
  shows "ingestTrades p market [t, bad] now = (p, [d now], Some e)"
  using assms by (simp add: ingestTrades_def)

text \<open>One trade whose time is not a number makes the cursor \<open>NaN\<close>: from then on every trade is handed on each time.\<close>

lemma timeless_trade_repeats:
  assumes "t \<in> set ts" "trade_time t = NaN"
  shows "fresh_trade (Some (next_cursor cursor ts)) u"
proof -
  have nan: "foldl (\<lambda>m t. js_max m (trade_time t)) NaN ts = NaN" for ts
    by (induction ts) (simp_all add: js_max_def)
  have "foldl (\<lambda>m t. js_max m (trade_time t)) m ts = NaN" for m
    using assms(1)
  proof (induction ts arbitrary: m)
    case (Cons x xs)
    show ?case
    proof (cases "x = t")
      case True
      then have "js_max m (trade_time x) = NaN" using assms(2) by (simp add: js_max_def)
      then show ?thesis by (simp only: foldl_Cons nan)
    next
      case False
      with Cons show ?thesis by auto
    qed
  qed simp
  then show ?thesis by (simp add: fresh_trade_def next_cursor_def latest_trade_def Let_def js_same_def)
qed

definition demo_batches :: "(raw_trade list \<times> int) list" where
  "demo_batches =
    (let t = (\<lambda>time. (VStr ''2'', VStr ''3'', VNum (Fin time))) in
     [([(VStr ''2'', VStr ''3'', Fin 5)], 100),
      ([(VStr ''2'', VStr ''3'', Fin 5), (VStr ''4'', VStr ''3'', Fin 6)], 200)])"

lemma polled_trades_once_witness:
  "ingest_all (new_poller mexc [''CKBUSDT'']) ''CKBUSDT'' demo_batches =
    map2 (\<lambda>(ts, now) fresh. map (traded ''mexc'' ''CKBUSDT'' now) fresh) demo_batches (fresh_batches None (map fst demo_batches)) \<and>
   fresh_batches None (map fst demo_batches) ! 1 \<noteq> []"
proof -
  have "\<forall>(ts, now) \<in> set demo_batches. \<forall>t \<in> set ts. trade_parses t" by code_simp
  note run = polled_trades_once [OF this, of mexc "[''CKBUSDT'']" "''CKBUSDT''", unfolded Let_def]
  have "(VStr ''4'', VStr ''3'', Fin 6) \<in> set (fresh_batches None (map fst demo_batches) ! 1)"
    using run [THEN conjunct2, THEN conjunct2, THEN conjunct2]
    by (simp add: demo_batches_def trade_time_def less_Suc_eq)
  then have "fresh_batches None (map fst demo_batches) ! 1 \<noteq> []" by auto
  with run show ?thesis by (simp add: mexc_def)
qed

section \<open>The markets of a configuration\<close>

lemma add_market_keys:
  "distinct (map fst bv) \<Longrightarrow> distinct (map fst (add_market bv m))"
  by (simp add: add_market_def Let_def AList.distinct_update)

lemma map_of_add_market:
  "map_of (add_market bv m) venue =
    (if venue = mc_venue m then
       let s = (case map_of bv venue of None \<Rightarrow> [] | Some xs \<Rightarrow> xs)
       in Some (if mc_market m \<in> set s then s else s @ [mc_market m])
     else map_of bv venue)"
  by (simp add: add_market_def Let_def AList.update_conv')

text \<open>Every venue of a market has an entry with the market; entries hold nothing else, and nothing twice.\<close>

lemma markets_by_venue:
  "distinct (map fst (marketsByVenue methods)) \<and>
   (\<forall>venue. case map_of (marketsByVenue methods) venue of
      None \<Rightarrow> \<forall>m \<in> set (concat methods). mc_venue m \<noteq> venue
    | Some markets \<Rightarrow> distinct markets \<and> markets \<noteq> [] \<and>
        set markets = mc_market ` {m \<in> set (concat methods). mc_venue m = venue})"
proof -
  have "distinct (map fst (foldl add_market [] ms)) \<and>
    (\<forall>venue. case map_of (foldl add_market [] ms) venue of
      None \<Rightarrow> \<forall>m \<in> set ms. mc_venue m \<noteq> venue
    | Some markets \<Rightarrow> distinct markets \<and> markets \<noteq> [] \<and> set markets = mc_market ` {m \<in> set ms. mc_venue m = venue})" for ms
  proof (induction ms rule: rev_induct)
    case (snoc m ms)
    let ?bv = "foldl add_market [] ms"
    have "case map_of (add_market ?bv m) venue of
        None \<Rightarrow> \<forall>x \<in> set (ms @ [m]). mc_venue x \<noteq> venue
      | Some markets \<Rightarrow> distinct markets \<and> markets \<noteq> [] \<and> set markets = mc_market ` {x \<in> set (ms @ [m]). mc_venue x = venue}" for venue
      using snoc.IH [THEN conjunct2, THEN spec, of venue]
      by (cases "map_of ?bv venue") (auto simp: map_of_add_market Let_def)
    with snoc.IH add_market_keys [of ?bv m] show ?case by simp
  qed simp
  then show ?thesis by (simp add: marketsByVenue_def)
qed

section \<open>After a sync\<close>

definition venue_supported :: "string \<Rightarrow> bool" where
  "venue_supported venue \<longleftrightarrow> create_source venue [] \<noteq> None"

lemma create_source_supported: "create_source venue markets \<noteq> None \<longleftrightarrow> venue_supported venue"
  by (auto simp: venue_supported_def create_source_def split: option.splits)

definition running_wf :: "running \<Rightarrow> bool" where
  "running_wf running \<longleftrightarrow> distinct (map fst running) \<and> (\<forall>venue \<in> fst ` set running. venue_supported venue)"

text \<open>What a sync does to one wanted venue.\<close>

definition venue_after :: "(string \<times> source) option \<Rightarrow> string \<Rightarrow> string list \<Rightarrow> (string \<times> source) option" where
  "venue_after current venue markets =
    (if map_option fst current = Some (markets_key markets) then current
     else case create_source venue markets of None \<Rightarrow> current | Some source \<Rightarrow> Some (markets_key markets, source))"

definition venue_acts :: "(string \<times> source) option \<Rightarrow> string \<Rightarrow> string list \<Rightarrow> manager_act list" where
  "venue_acts current venue markets =
    (if map_option fst current = Some (markets_key markets) then []
     else (case current of None \<Rightarrow> [] | Some _ \<Rightarrow> [StopSource venue]) @
       [if venue_supported venue then StartSource venue markets else UnsupportedVenue venue markets])"

lemma create_source_None: "create_source venue markets = None \<longleftrightarrow> \<not> venue_supported venue"
  using create_source_supported by blast

lemma sync_venue_map:
  "map_of (fst (sync_venue (running, acts) (venue, markets))) =
    (map_of running)(venue := venue_after (map_of running venue) venue markets)"
  by (auto simp: sync_venue_def venue_after_def Let_def AList.update_conv' fun_eq_iff split: option.splits)

lemma sync_venue_acts:
  "snd (sync_venue (running, acts) (venue, markets)) = acts @ venue_acts (map_of running venue) venue markets"
  by (cases "create_source venue markets"; cases "map_of running venue")
    (use create_source_None [of venue markets] in \<open>auto simp: sync_venue_def venue_acts_def Let_def\<close>)

lemma update_keys_ball:
  "(\<forall>x \<in> set (AList.update k v al). P (fst x)) \<longleftrightarrow> P k \<and> (\<forall>x \<in> set al. P (fst x))"
proof -
  have "(\<forall>x \<in> set (AList.update k v al). P (fst x)) \<longleftrightarrow> (\<forall>y \<in> fst ` set (AList.update k v al). P y)" by simp
  then show ?thesis by (simp add: AList.dom_update)
qed

lemma sync_venue_wf:
  "running_wf running \<Longrightarrow> running_wf (fst (sync_venue (running, acts) (venue, markets)))"
  using create_source_None [of venue markets]
  by (cases "create_source venue markets")
    (simp_all add: sync_venue_def running_wf_def Let_def AList.distinct_update update_keys_ball)

lemma sync_all:
  assumes "distinct (map fst ws)"
  shows "(running_wf running \<longrightarrow> running_wf (fst (foldl sync_venue (running, acts) ws))) \<and>
    map_of (fst (foldl sync_venue (running, acts) ws)) =
      (\<lambda>v. case map_of ws v of None \<Rightarrow> map_of running v | Some ms \<Rightarrow> venue_after (map_of running v) v ms) \<and>
    snd (foldl sync_venue (running, acts) ws) = acts @ concat (map (\<lambda>(v, ms). venue_acts (map_of running v) v ms) ws)"
  using assms
proof (induction ws arbitrary: running acts)
  case (Cons w ws)
  obtain v0 ms0 where w: "w = (v0, ms0)" by (cases w)
  obtain running1 acts1 where r1: "sync_venue (running, acts) w = (running1, acts1)"
    by (cases "sync_venue (running, acts) w")
  have m1: "map_of running1 = (map_of running)(v0 := venue_after (map_of running v0) v0 ms0)"
    and a1: "acts1 = acts @ venue_acts (map_of running v0) v0 ms0"
    and wf1: "running_wf running \<longrightarrow> running_wf running1"
    using sync_venue_map [of running acts v0 ms0] sync_venue_acts [of running acts v0 ms0]
      sync_venue_wf [of running acts v0 ms0] r1 w by simp_all
  have new: "v0 \<notin> fst ` set ws" and d: "distinct (map fst ws)" using Cons.prems w by auto
  then have none: "map_of ws v0 = None" by (simp add: map_of_eq_None_iff)
  have "map (\<lambda>(v, ms). venue_acts (map_of running1 v) v ms) ws = map (\<lambda>(v, ms). venue_acts (map_of running v) v ms) ws"
    using new by (intro map_cong refl) (force simp: m1)
  note acts' = this
  have map': "(case map_of ws v of None \<Rightarrow> map_of running1 v | Some ms \<Rightarrow> venue_after (map_of running1 v) v ms) =
      (case map_of (w # ws) v of None \<Rightarrow> map_of running v | Some ms \<Rightarrow> venue_after (map_of running v) v ms)" for v
    using none by (cases "v = v0"; cases "map_of ws v") (simp_all add: w m1)
  have step: "foldl sync_venue (running, acts) (w # ws) = foldl sync_venue (running1, acts1) ws" by (simp add: r1)
  show ?case unfolding step using Cons.IH [OF d, of running1 acts1] wf1 map' acts' by (simp add: a1 w)
qed simp

definition wanted_key :: "CommitteeConfig list \<Rightarrow> string \<Rightarrow> string option" where
  "wanted_key configs venue = (if venue_supported venue then map_option markets_key (map_of (wanted_markets configs) venue) else None)"

lemma wanted_entry: "venue \<in> fst ` set wanted \<longleftrightarrow> map_of wanted venue \<noteq> None"
  by (simp add: map_of_eq_None_iff)

lemma map_of_filter_venue: "map_of (filter (\<lambda>(k, r). P k) xs) k = (if P k then map_of xs k else None)"
  by (induction xs) auto

lemma stop_unwanted_map:
  "map_of (fst (stop_unwanted wanted running)) venue = (if map_of wanted venue = None then None else map_of running venue)"
  unfolding stop_unwanted_def fst_conv map_of_filter_venue [of "\<lambda>v. v \<in> fst ` set wanted"] by (simp add: wanted_entry)

lemma stop_unwanted_acts:
  "StopSource venue \<in> set (snd (stop_unwanted wanted running)) \<longleftrightarrow> map_of wanted venue = None \<and> map_of running venue \<noteq> None"
  "StartSource venue markets \<notin> set (snd (stop_unwanted wanted running))"
proof -
  have "StopSource venue \<in> set (snd (stop_unwanted wanted running)) \<longleftrightarrow> venue \<notin> fst ` set wanted \<and> venue \<in> fst ` set running"
    by (force simp: stop_unwanted_def)
  then show "StopSource venue \<in> set (snd (stop_unwanted wanted running)) \<longleftrightarrow> map_of wanted venue = None \<and> map_of running venue \<noteq> None"
    unfolding wanted_entry by simp
qed (auto simp: stop_unwanted_def)

lemma venue_acts_iff:
  "StopSource v \<in> set (venue_acts current venue markets) \<longleftrightarrow>
    v = venue \<and> current \<noteq> None \<and> map_option fst current \<noteq> Some (markets_key markets)"
  "StartSource v ms \<in> set (venue_acts current venue markets) \<longleftrightarrow>
    v = venue \<and> ms = markets \<and> venue_supported venue \<and> map_option fst current \<noteq> Some (markets_key markets)"
  by (auto simp: venue_acts_def split: option.splits)

lemma venue_after_cases:
  "venue_supported v \<Longrightarrow> map_option fst (venue_after current v ms) = Some (markets_key ms)"
  "\<not> venue_supported v \<Longrightarrow> venue_after None v ms = None"
  "map_option fst current = Some (markets_key ms) \<Longrightarrow> venue_after current v ms = current"
  using create_source_None [of v ms] by (auto simp: venue_after_def split: option.splits)


definition demo_market_config :: CommitteeConfig where
  "demo_market_config = \<lparr>c_version = 1, c_committee = ''demo'', c_publisherSetTypeHash = [], c_activationTickMs = ''0'',
    c_tickPeriodMs = 1000, c_observationDeadlineMs = 500, c_maxSigningLagMs = 5000,
    c_feeds = [MarketFeed
      \<lparr>fb_symbol = ''CKB/USDT'', fb_quote = ''USDT'', fb_feedId = [], fb_expo = - 8, fb_toleranceBps = 100, fb_emaHalfLifeMs = 1000\<rparr>
      \<lparr>pm_method = Mid, pm_windowMs = 1000, pm_maxQuoteAgeMs = 1000, pm_maxBookAgeMs = None, pm_maxSpreadBps = 100,
       pm_minTopNotional = None, pm_maxDeviationBps = None, pm_vwapClampToBook = None, pm_tradeBookToleranceMs = None,
       pm_tradeBookSlackPct = None, pm_vwapMinWindowNotional = None, pm_minVenues = 1,
       pm_markets = [\<lparr>mc_venue = ''gate'', mc_market = ''CKB_USDT''\<rparr>, \<lparr>mc_venue = ''mexc'', mc_market = ''CKBUSDT''\<rparr>]\<rparr>]\<rparr>"


end
