(* ===== verification/Operator_Config.thy ===== *)
theory Operator_Config
  imports Governance Config_Schedule Mirror_Committee Deployment Js_Values
begin

text \<open>
  \<open>apps/publisher/src/config.ts\<close> and \<open>chain.ts\<close>: the committee cell, the directory of approved configs and the
  operator's own configuration. The contents of files, the node's reply and the resolved key are arguments; a file
  that is no JSON is \<open>Inl\<close>.

  Lemmas: whatever the directory holds, the schedule keeps its invariant and its versions; a loaded configuration is
  that of a member of the set, with peers that are members.
\<close>

section \<open>The committee cell\<close>

record CommitteeCellJson =
  cj_output_data :: hex
  cj_tx_hash :: string
  cj_index :: string

definition fetchCommittee :: "CommitteeCellJson list option \<Rightarrow> (PublisherSetData \<times> string) result" where
  "fetchCommittee reply = (case reply of
      None \<Rightarrow> Inl (Failure ''get_cells failed'')
    | Some objects \<Rightarrow>
        if length objects \<noteq> 1 then Inl (Failure ''expected one committee cell'')
        else
          let cell = objects ! 0
          in ebind (decodePublisherSetData (HexStr (cj_output_data cell))) (\<lambda>data.
             Inr (data, cj_tx_hash cell @ '':'' @ cj_index cell)))"

section \<open>Approved configs\<close>

record ConfigFile =
  cf_config :: CommitteeConfig
  cf_signatures :: "IndexedSignature list"
  cf_approvals :: "(int \<times> IndexedSignature list) list option"

definition approvalFor :: "ConfigFile \<Rightarrow> int \<Rightarrow> IndexedSignature list" where
  "approvalFor file i =
    (case Option.bind (cf_approvals file) (find (\<lambda>a. fst a = i)) of
       Some a \<Rightarrow> snd a
     | None \<Rightarrow> cf_signatures file)"

definition is_config_name :: "string \<Rightarrow> bool" where
  "is_config_name f \<longleftrightarrow> ends_with f ''.json'' \<and> \<not> starts_with f ''.''"

definition try_config :: "crypto \<Rightarrow> ConfigSchedule \<Rightarrow> ConfigFile \<Rightarrow> (ConfigSchedule \<times> ActiveConfig) result" where
  "try_config C sch raw =
    ebind (toSignatureBundle (approvalFor raw (schedule_setIndex sch))) (\<lambda>bundle.
    schedule_add C sch \<lparr>sc_config = cf_config raw, sc_signatures = bundle\<rparr>)"

text \<open>The loop over the files; \<open>strict\<close> says that the log function throws, as at the start of the publisher. The
  result is the schedule, the versions added and the files rejected.\<close>

fun load_files :: "crypto \<Rightarrow> bool \<Rightarrow> int list \<Rightarrow> (string \<times> ConfigFile) list \<Rightarrow> ConfigSchedule \<Rightarrow>
    (ConfigSchedule \<times> int list \<times> string list) result" where
  "load_files C strict known [] sch = Inr (sch, [], [])"
| "load_files C strict known ((file, raw) # fs) sch =
    (if c_version (cf_config raw) \<in> set known then load_files C strict known fs sch
     else case try_config C sch raw of
       Inl e \<Rightarrow>
         if strict then Inl (Failure ''config.rejected'')
         else ebind (load_files C strict known fs sch) (\<lambda>(sch', added, rejected). Inr (sch', added, file # rejected))
     | Inr (sch', v) \<Rightarrow>
         ebind (load_files C strict known fs sch') (\<lambda>(sch'', added, rejected). Inr (sch'', c_version (cf_config raw) # added, rejected)))"

definition loadConfigDir :: "crypto \<Rightarrow> bool \<Rightarrow> (string \<times> ConfigFile result) list option \<Rightarrow> ConfigSchedule \<Rightarrow>
    (ConfigSchedule \<times> int list \<times> string list) result" where
  "loadConfigDir C strict dir sch = (case dir of
      None \<Rightarrow> Inl (Failure ''configDir does not exist'')
    | Some files \<Rightarrow>
        ebind (emap (\<lambda>(f, raw). ebind raw (\<lambda>r. Inr (f, r))) (filter (\<lambda>(f, raw). is_config_name f) files)) (\<lambda>parsed.
        load_files C strict (map version_of (schedule_all sch)) (sort_key (\<lambda>(f, r). c_version (cf_config r)) parsed) sch))"

section \<open>The operator's configuration\<close>

record ChainConfig =
  chain_rpcUrl :: string
  chain_typeScript :: Script

record OperatorConfig =
  op_key :: KeyConfig
  op_dataDir :: string
  op_peers :: "(hex \<times> string) list"
  op_publisherSetTypeHash :: hex
  op_chain :: "ChainConfig option"
  op_publisherSetFile :: "string option"
  op_configDir :: string
  op_retentionHours :: "js_number option"
  op_shadow :: bool

record LoadedConfig =
  lc_operator :: OperatorConfig
  lc_signer :: KeySigner
  lc_index :: int
  lc_publisherSet :: PublisherSetData
  lc_schedule :: ConfigSchedule
  lc_peers :: "(int \<times> string) list"

definition retention_ok :: "js_number option \<Rightarrow> bool" where
  "retention_ok r \<longleftrightarrow> (case r of None \<Rightarrow> True | Some (Fin h) \<Rightarrow> h = 0 \<or> h \<ge> 1 | Some _ \<Rightarrow> False)"

text \<open>The current set: from the cell, else from a file, whose text is given.\<close>

definition operator_set :: "OperatorConfig \<Rightarrow> (ChainConfig \<Rightarrow> CommitteeCellJson list option) \<Rightarrow> (string \<Rightarrow> string result) \<Rightarrow>
    PublisherSetData result" where
  "operator_set operator rpc readText = (case op_chain operator of
      Some chain \<Rightarrow> ebind (fetchCommittee (rpc chain)) (\<lambda>(data, outPoint). Inr data)
    | None \<Rightarrow> (case op_publisherSetFile operator of
          Some f \<Rightarrow> if f = [] then Inl (Failure ''committee needs `chain` or `publisherSetFile`'')
            else ebind (readText f) (\<lambda>t. decodePublisherSetData (HexStr (trim t)))
        | None \<Rightarrow> Inl (Failure ''committee needs `chain` or `publisherSetFile`'')))"

definition add_peer :: "PublisherSet \<Rightarrow> (int \<times> string) list \<Rightarrow> hex \<times> string \<Rightarrow> (int \<times> string) list result" where
  "add_peer s peers peer =
    (let i = index_of (toLowerCase (fst peer)) (pubkeys s)
     in if i < 0 then Inl (Failure ''peer is not in the current publisher set'') else Inr (AList.update i (snd peer) peers))"

definition loadConfig :: "crypto \<Rightarrow> OperatorConfig \<Rightarrow> KeySigner result \<Rightarrow> (ChainConfig \<Rightarrow> CommitteeCellJson list option) \<Rightarrow>
    (string \<Rightarrow> string result) \<Rightarrow> (string \<times> ConfigFile result) list option \<Rightarrow> LoadedConfig result" where
  "loadConfig C operator signer rpc readText dir =
    (let typeHash = toLowerCase (op_publisherSetTypeHash operator) in
     if \<not> retention_ok (op_retentionHours operator)
     then Inl (Failure ''retentionHours must be 0 (keep everything) or at least 1'')
     else
       ebind signer (\<lambda>ks.
       ebind (operator_set operator rpc readText) (\<lambda>data.
       let i = index_of (ks_publicKey ks) (pubkeys (currentSet data)) in
       if i < 0 \<and> \<not> op_shadow operator then Inl (Failure ''this key is not in the current publisher set'')
       else
         ebind (loadConfigDir C True dir (new_schedule typeHash (currentSet data))) (\<lambda>(sch, added, rejected).
         if length added = 0 then Inl (Failure ''no approved committee config'')
         else
           ebind (efold (add_peer (currentSet data)) [] (if op_shadow operator then [] else op_peers operator)) (\<lambda>peers.
           Inr \<lparr>lc_operator = operator\<lparr>op_publisherSetTypeHash := typeHash\<rparr>, lc_signer = ks, lc_index = i,
             lc_publisherSet = data, lc_schedule = sch, lc_peers = peers\<rparr>)))))"

section \<open>The directory\<close>

lemma load_files_inv:
  assumes "load_files C strict known fs sch = Inr (sch', added, rejected)" "schedule_inv C sch"
  shows "schedule_inv C sch' \<and> cs_set sch' = cs_set sch \<and> cs_typeHash sch' = cs_typeHash sch \<and>
    (\<exists>vs. cs_versions sch' = cs_versions sch @ vs) \<and>
    set added \<subseteq> version_of ` set (cs_versions sch') \<and>
    version_of ` set (cs_versions sch') \<subseteq> version_of ` set (cs_versions sch) \<union> set added \<and>
    (\<forall>v \<in> set (cs_versions sch') - set (cs_versions sch). ac_config v \<in> (\<lambda>f. cf_config (snd f)) ` set fs)"
  using assms
proof (induction C strict known fs sch arbitrary: sch' added rejected rule: load_files.induct)
  case (2 C strict known f raw fs sch)
  show ?case
  proof (cases "c_version (cf_config raw) \<in> set known")
    case True
    with "2.prems" have "load_files C strict known fs sch = Inr (sch', added, rejected)" by simp
    from "2.IH"(1) [OF True this "2.prems"(2)] show ?thesis by fastforce
  next
    case False
    note new = this
    show ?thesis
    proof (cases "try_config C sch raw")
      case (Inl e)
      with "2.prems" new obtain rej where "\<not> strict" "load_files C strict known fs sch = Inr (sch', added, rej)"
        by (auto simp: ebind_eq_Inr split: if_splits)
      from "2.IH"(2) [OF new Inl this "2.prems"(2)] show ?thesis by fastforce
    next
      case (Inr r)
      obtain sch1 v where r: "r = (sch1, v)" by (cases r)
      from "2.prems" new Inr r obtain added1 where
        rest: "load_files C strict known fs sch1 = Inr (sch', added1, rejected)" "added = c_version (cf_config raw) # added1"
        by (auto simp: ebind_eq_Inr)
      from Inr r obtain b where add: "schedule_add C sch \<lparr>sc_config = cf_config raw, sc_signatures = b\<rparr> = Inr (sch1, v)"
        by (auto simp: try_config_def ebind_eq_Inr)
      have inv1: "schedule_inv C sch1" using schedule_add_inv [OF add "2.prems"(2)] .
      note "2.IH"(3) [OF new Inr r [symmetric] rest(1) inv1]
      then obtain vs where IH: "schedule_inv C sch'" "cs_set sch' = cs_set sch1" "cs_typeHash sch' = cs_typeHash sch1"
          "cs_versions sch' = cs_versions sch1 @ vs" "set added1 \<subseteq> version_of ` set (cs_versions sch')"
          "version_of ` set (cs_versions sch') \<subseteq> version_of ` set (cs_versions sch1) \<union> set added1"
          "\<forall>v \<in> set (cs_versions sch') - set (cs_versions sch1). ac_config v \<in> (\<lambda>f. cf_config (snd f)) ` set fs"
        by blast
      from add show ?thesis
      proof (cases rule: schedule_add_Inr)
        case held
        have "c_version (cf_config raw) \<in> version_of ` set (cs_versions sch')"
          using held(2,3) IH(4) held(1) by (auto intro!: image_eqI [of _ _ v])
        with IH held(1) rest(2) show ?thesis by auto
      next
        case appended
        have "version_of v = c_version (cf_config raw)" using appended(2) by simp
        moreover have "\<forall>w \<in> set (cs_versions sch') - set (cs_versions sch).
            ac_config w \<in> (\<lambda>f. cf_config (snd f)) ` set ((f, raw) # fs)"
          using IH(7) appended(1,2) by auto
        moreover have "v \<in> set (cs_versions sch')" using IH(4) appended(1) by simp
        ultimately show ?thesis using IH appended(1) rest(2) by auto
      qed
    qed
  qed
qed auto

lemma loadConfigDir_inv:
  assumes "loadConfigDir C strict dir sch = Inr (sch', added, rejected)" "schedule_inv C sch"
  shows "schedule_inv C sch' \<and> cs_set sch' = cs_set sch \<and> (\<exists>vs. cs_versions sch' = cs_versions sch @ vs) \<and>
    set added \<subseteq> version_of ` set (cs_versions sch')"
proof -
  from assms(1) obtain fs where "load_files C strict (map version_of (schedule_all sch)) fs sch = Inr (sch', added, rejected)"
    by (auto simp: loadConfigDir_def ebind_eq_Inr split: option.splits)
  from load_files_inv [OF this assms(2)] show ?thesis by blast
qed

text \<open>A bad file does not keep the others out, unless it is no JSON: then nothing is loaded, and it throws.\<close>

lemma load_files_returns: "\<exists>r. load_files C False known fs sch = Inr r"
proof (induction fs arbitrary: sch)
  case (Cons x fs)
  obtain f raw where x: "x = (f, raw)" by (cases x)
  show ?case
  proof (cases "try_config C sch raw")
    case (Inl e)
    with Cons [of sch] x show ?thesis by (auto simp: split_def)
  next
    case (Inr r)
    with Cons [of sch] Cons [of "fst r"] x show ?thesis by (auto simp: split_def split: prod.splits)
  qed
qed simp

lemma unreadable_file_throws:
  assumes "(f, Inl e) \<in> set files" "is_config_name f"
  shows "\<exists>e. loadConfigDir C False (Some files) sch = Inl e"
proof -
  have "\<exists>e. emap (\<lambda>(f, raw). ebind raw (\<lambda>r. Inr (f, r))) (filter (\<lambda>(f, raw). is_config_name f) files) = Inl e"
    using assms by (induction files) (auto simp: ebind_def split: sum.splits)
  then show ?thesis by (auto simp: loadConfigDir_def)
qed

section \<open>A loaded configuration\<close>

lemma add_peers:
  assumes "efold (add_peer s) [] ps = Inr peers" "(i, url) \<in> set peers"
  shows "\<exists>(key, url') \<in> set ps. url' = url \<and> at_index (pubkeys s) i = Some (toLowerCase key)"
proof -
  define P where "P peers \<longleftrightarrow> (\<forall>(i, url) \<in> set peers. \<exists>(key, url') \<in> set ps. url' = url \<and> at_index (pubkeys s) i = Some (toLowerCase key))" for peers
  have "P peers" using assms(1)
  proof (rule efold_invariant)
    show "P []" by (simp add: P_def)
    fix x d d' assume x: "x \<in> set ps" and d: "P d" and step: "add_peer s d x = Inr d'"
    from step have i: "\<not> index_of (toLowerCase (fst x)) (pubkeys s) < 0"
      and d': "d' = AList.update (index_of (toLowerCase (fst x)) (pubkeys s)) (snd x) d"
      by (auto simp: add_peer_def Let_def split: if_splits)
    from i have "toLowerCase (fst x) \<in> set (pubkeys s)" by (auto simp: index_of_def split: if_splits)
    then have "at_index (pubkeys s) (index_of (toLowerCase (fst x)) (pubkeys s)) = Some (toLowerCase (fst x))" by (rule at_index_of)
    moreover have "set d' \<subseteq> insert (index_of (toLowerCase (fst x)) (pubkeys s), snd x) (set d)"
      unfolding d' by (induction d) auto
    ultimately show "P d'" using d x unfolding P_def by (fastforce simp: split_beta)
  qed
  with assms(2) show ?thesis unfolding P_def by fastforce
qed

text \<open>Claim C33: what \<open>loadConfig\<close> returns is fit to run. The key set is valid, its schedule holds at least one version
  and only approved ones in order, the key is a member's (but for a shadow), every peer is a member under its index,
  and finalized updates are kept for ever or for an hour at least.\<close>

theorem loaded_config_sound:
  assumes "loadConfig C operator signer rpc readText dir = Inr c"
  shows "isValidPublisherSetData (lc_publisherSet c) = Inr True \<and>
    schedule_inv C (lc_schedule c) \<and> cs_set (lc_schedule c) = currentSet (lc_publisherSet c) \<and> cs_versions (lc_schedule c) \<noteq> [] \<and>
    (op_shadow operator \<or> at_index (pubkeys (currentSet (lc_publisherSet c))) (lc_index c) = Some (ks_publicKey (lc_signer c))) \<and>
    (if op_shadow operator then lc_peers c = []
     else \<forall>(i, url) \<in> set (lc_peers c). \<exists>(key, url') \<in> set (op_peers operator).
       url' = url \<and> at_index (pubkeys (currentSet (lc_publisherSet c))) i = Some (toLowerCase key)) \<and>
    (op_retentionHours operator = None \<or> (\<exists>h. op_retentionHours operator = Some (Fin h) \<and> (h = 0 \<or> 1 \<le> h)))"
proof -
  let ?hash = "toLowerCase (op_publisherSetTypeHash operator)"
  from assms obtain ks data sch added rejected peers where
    ret: "retention_ok (op_retentionHours operator)" and data: "operator_set operator rpc readText = Inr data"
    and member: "\<not> index_of (ks_publicKey ks) (pubkeys (currentSet data)) < 0 \<or> op_shadow operator"
    and dir: "loadConfigDir C True dir (new_schedule ?hash (currentSet data)) = Inr (sch, added, rejected)" "added \<noteq> []"
    and peers: "efold (add_peer (currentSet data)) [] (if op_shadow operator then [] else op_peers operator) = Inr peers"
    and c: "lc_publisherSet c = data" "lc_schedule c = sch" "lc_signer c = ks" "lc_peers c = peers"
      "lc_index c = index_of (ks_publicKey ks) (pubkeys (currentSet data))"
    by (auto simp: loadConfig_def ebind_eq_Inr Let_def split: if_splits)
  from data obtain b where "decodePublisherSetData b = Inr data"
    by (auto simp: operator_set_def fetchCommittee_def ebind_eq_Inr Let_def split: option.splits if_splits)
  then have valid: "isValidPublisherSetData data = Inr True"
    by (auto simp: decodePublisherSetData_def ebind_eq_Inr split: if_splits)
  have "schedule_inv C (new_schedule ?hash (currentSet data))" by (simp add: new_schedule_def schedule_inv_def)
  note inv = loadConfigDir_inv [OF dir(1) this]
  have key: "at_index (pubkeys (currentSet data)) (lc_index c) = Some (ks_publicKey ks)" if "\<not> op_shadow operator"
    using member that unfolding c by (intro at_index_of) (auto simp: index_of_def split: if_splits)
  have ps: "\<forall>(i, url) \<in> set peers. \<exists>(key, url') \<in> set (op_peers operator).
      url' = url \<and> at_index (pubkeys (currentSet data)) i = Some (toLowerCase key)" if "\<not> op_shadow operator"
    using add_peers [of "currentSet data" "op_peers operator" peers] peers that by auto
  have none: "peers = []" if "op_shadow operator" using peers that by simp
  have "cs_versions sch \<noteq> []" using inv dir(2) by auto
  moreover have "cs_set sch = currentSet data" using inv by (simp add: new_schedule_def)
  moreover have "op_retentionHours operator = None \<or> (\<exists>h. op_retentionHours operator = Some (Fin h) \<and> (h = 0 \<or> 1 \<le> h))"
    using ret by (auto simp: retention_ok_def split: option.splits js_number.splits)
  ultimately show ?thesis using valid inv key ps none by (simp add: c)
qed

definition demo_operator :: OperatorConfig where
  "demo_operator = \<lparr>op_key = KeyFile ''key'', op_dataDir = ''data'', op_peers = [(demo_key 2, ''ws://two'')],
    op_publisherSetTypeHash = bytesToHex (replicate 32 9), op_chain = None, op_publisherSetFile = Some ''set.hex'',
    op_configDir = ''configs'', op_retentionHours = Some (Fin 24), op_shadow = False\<rparr>"

definition demo_config_file :: ConfigFile where
  "demo_config_file = \<lparr>cf_config = demo_config, cf_signatures = demo_bundle, cf_approvals = None\<rparr>"

lemma demo_data_text:
  "\<exists>tx. decodePublisherSetData (HexStr (trim tx)) = Inr demo_committee"
proof -
  obtain cb where b: "encodePublisherSetData demo_committee = Inr cb" using demo_encodes by blast
  have "decodePublisherSetData (Raw cb) = Inr (norm_data demo_committee)" by (rule set_codec.dec_enc[OF demo_valid(1) b])
  moreover have "norm_data demo_committee = demo_committee"
    by (simp add: norm_data_def norm_set_def demo_committee_def demo_set_def demo_key_def)
  ultimately have "decodePublisherSetData (HexStr (trim (bytesToHex cb))) = Inr demo_committee"
    by (simp add: decodePublisherSetData_def trim_bytesToHex)
  then show ?thesis by blast
qed

lemma demo_bundle_made: "toSignatureBundle demo_bundle = Inr demo_bundle"
  by (simp add: toSignatureBundle_iff demo_bundle_def)

lemma loaded_config_sound_witness:
  "\<exists>tx c. loadConfig demo_crypto demo_operator (Inr (demo_signer 1)) (\<lambda>_. None) (\<lambda>_. Inr tx)
      (Some [(''v1.json'', Inr demo_config_file)]) = Inr c \<and>
    schedule_inv demo_crypto (lc_schedule c) \<and> at_index (pubkeys (demo_set 1)) (lc_index c) = Some (demo_key 1) \<and>
    lc_peers c = [(1, ''ws://two'')]"
proof -
  obtain tx where t: "decodePublisherSetData (HexStr (trim tx)) = Inr demo_committee" using demo_data_text by blast
  let ?new = "new_schedule (bytesToHex (replicate 32 9)) (demo_set 1)"
  obtain sch v where add: "schedule_add demo_crypto ?new \<lparr>sc_config = demo_config, sc_signatures = demo_bundle\<rparr> = Inr (sch, v)"
    using demo_schedule_add by blast
  have "is_config_name ''v1.json''" by code_simp
  then have dir: "loadConfigDir demo_crypto True (Some [(''v1.json'', Inr demo_config_file)]) ?new = Inr (sch, [c_version demo_config], [])"
    by (simp add: loadConfigDir_def demo_config_file_def schedule_all_def new_schedule_def try_config_def approvalFor_def
        demo_bundle_made add [unfolded new_schedule_def])
  have set: "currentSet demo_committee = demo_set 1" by (simp add: demo_committee_def)
  have key: "index_of (demo_key 1) (pubkeys (demo_set 1)) = 0" "index_of (demo_key 2) (pubkeys (demo_set 1)) = 1"
    by (simp_all add: demo_set_def index_of_def demo_key_def)
  then have keys: "index_of (demo_key 1) [demo_key 1, demo_key 2, demo_key 3, demo_key 4] = 0"
    "index_of (demo_key 2) [demo_key 1, demo_key 2, demo_key 3, demo_key 4] = 1"
    by (simp_all add: demo_set_def)
  have lower: "toLowerCase (demo_key 2) = demo_key 2" by (simp add: demo_key_def toLowerCase_bytesToHex)
  obtain c where c: "loadConfig demo_crypto demo_operator (Inr (demo_signer 1)) (\<lambda>_. None) (\<lambda>_. Inr tx)
      (Some [(''v1.json'', Inr demo_config_file)]) = Inr c"
    and f: "lc_index c = 0" "lc_peers c = [(1, ''ws://two'')]" "lc_publisherSet c = demo_committee" "lc_signer c = demo_signer 1"
    using dir by (auto simp: loadConfig_def demo_operator_def retention_ok_def operator_set_def t set keys demo_signer_def
        add_peer_def toLowerCase_bytesToHex lower Let_def)
  have inv: "schedule_inv demo_crypto (lc_schedule c)" using loaded_config_sound [OF c] by blast
  have "at_index (pubkeys (demo_set 1)) (lc_index c) = Some (demo_key 1)"
    using loaded_config_sound [OF c] f set by (simp add: demo_operator_def demo_signer_def)
  with inv c f(2) show ?thesis by blast
qed

end
