(* ===== verification/Operator_Commands.thy ===== *)
theory Operator_Commands
  imports Operator_Config Sources
begin

text \<open>
  \<open>apps/publisher/src/main.ts\<close>: the operator's commands (\<open>sign-config\<close>, the governance commands) and the wiring of
  the running publisher that is not in a component of its own (the committee watch, the pick-up of new configs, the
  markets whose depth is recorded). Files, the node and the KMS are the \<open>world\<close> a command runs in; the result of a
  command is what it prints or writes. Option parsing is Node's, so the parsed \<open>values\<close> are the argument.

  Lemmas: what \<open>next-set\<close> prints is read back by the commands that sign it; approvals of the operators of a set,
  recorded with \<open>add-approval\<close>, make the publishers of that set take the config.
\<close>

section \<open>Reading\<close>

record cli_values =
  v_config :: "string option"
  v_file :: "string option"
  v_set :: "string option"
  v_next :: "string option"
  v_key :: "string option"
  v_operator :: "string option"
  v_add :: "string list option"
  v_remove :: "string list option"
  v_authorization :: "string option"
  v_pop :: "string option"
  v_op :: "string option"
  v_committee :: "string option"
  v_untilMs :: "string option"

text \<open>An option is truthy when it is there and not empty.\<close>

definition given :: "string option \<Rightarrow> bool" where
  "given v \<longleftrightarrow> v \<noteq> None \<and> v \<noteq> Some []"

datatype SignatureFile = OneSignature IndexedSignature | SignatureArray "IndexedSignature list" | SignatureObject "IndexedSignature list"

datatype ConfigJson = BareConfig CommitteeConfig | FullConfig ConfigFile

record world =
  w_text :: "string \<Rightarrow> string result"
  w_signatures :: "string \<Rightarrow> SignatureFile result"
  w_configFile :: "string \<Rightarrow> ConfigFile result"
  w_operator :: "string \<Rightarrow> OperatorConfig result"
  w_rpc :: "ChainConfig \<Rightarrow> CommitteeCellJson list option"
  w_kms :: "string \<Rightarrow> string option \<Rightarrow> Kms"
  w_now :: int

definition encodeSet :: "PublisherSetData \<Rightarrow> hex result" where
  "encodeSet d = ebind (encodePublisherSetData d) (\<lambda>bs. Inr (bytesToHex bs))"

definition readSetFile :: "string \<Rightarrow> PublisherSetData result" where
  "readSetFile t = decodePublisherSetData (HexStr (trim t))"

definition readSignatures :: "SignatureFile \<Rightarrow> IndexedSignature list" where
  "readSignatures raw = (case raw of OneSignature s \<Rightarrow> [s] | SignatureArray ss \<Rightarrow> ss | SignatureObject ss \<Rightarrow> ss)"

definition signerFrom :: "crypto \<Rightarrow> secp \<Rightarrow> world \<Rightarrow> cli_values \<Rightarrow> KeySigner result" where
  "signerFrom C S w v =
    (if given (v_key v) then ebind (w_text w (the (v_key v))) (fileKeySigner S)
     else if given (v_operator v) then
       ebind (w_operator w (the (v_operator v))) (\<lambda>operator. createKeySigner C S (w_text w) (w_kms w) (op_key operator))
     else Inl (Failure ''pass --key <file> or --operator <publisher.json>''))"

definition committeeFrom :: "world \<Rightarrow> cli_values \<Rightarrow> hex result" where
  "committeeFrom w v =
    (if given (v_committee v) then parseCommitteeHash (v_committee v)
     else if given (v_operator v) then
       ebind (w_operator w (the (v_operator v))) (\<lambda>operator. parseCommitteeHash (Some (op_publisherSetTypeHash operator)))
     else parseCommitteeHash None)"

text \<open>The file at a path, read as a set, and as signatures.\<close>

definition set_at :: "world \<Rightarrow> string option \<Rightarrow> PublisherSetData result" where
  "set_at w path = ebind (w_text w (the path)) readSetFile"

definition signatures_at :: "world \<Rightarrow> string \<Rightarrow> IndexedSignature list result" where
  "signatures_at w path = ebind (w_signatures w path) (\<lambda>raw. Inr (readSignatures raw))"

section \<open>Approving a config\<close>

definition signed_config :: "ConfigJson \<Rightarrow> CommitteeConfig" where
  "signed_config raw = (case raw of BareConfig c \<Rightarrow> c | FullConfig f \<Rightarrow> cf_config f)"

text \<open>\<open>heard\<close> are the venue and market of the quotes of the time of the probe.\<close>

definition probeMarkets :: "CommitteeConfig \<Rightarrow> (string \<times> string) list \<Rightarrow> string list" where
  "probeMarkets config quotes =
    (let heard = set (map (\<lambda>(venue, market). venue @ '' '' @ market) quotes)
     in concat (map (\<lambda>feed. map (\<lambda>m. feed_symbol feed @ '': '' @ mc_venue m @ '' '' @ mc_market m)
          (filter (\<lambda>m. mc_venue m @ '' '' @ mc_market m \<notin> heard) (feed_markets feed))) (marketFeeds (c_feeds config))))"

text \<open>\<open>sign-config\<close>, of the contents of the config, key and set files. The probe only warns.\<close>

definition signConfig :: "crypto \<Rightarrow> secp \<Rightarrow> ConfigJson \<Rightarrow> string \<Rightarrow> string \<Rightarrow> (hex \<times> IndexedSignature) result" where
  "signConfig C S raw keyText setText =
    (let config = signed_config raw; key = trim keyText in
     ebind (validateCommitteeConfig C config) (\<lambda>problems.
     if length problems > 0 then Inl (Failure ''refusing to sign an invalid config'')
     else
       ebind (readSetFile setText) (\<lambda>d.
       ebind (publicKeyOf S key) (\<lambda>pk.
       let i = index_of pk (pubkeys (currentSet d)) in
       if i < 0 then Inl (Failure ''key is not in the publisher set'')
       else
         ebind (signCommitteeConfig C S config key i) (\<lambda>sig.
         ebind (committeeConfigHash C config) (\<lambda>hash.
         Inr (hash, sig)))))))"

definition addApproval :: "crypto \<Rightarrow> ConfigFile \<Rightarrow> PublisherSetData \<Rightarrow> IndexedSignature list list \<Rightarrow> ConfigFile result" where
  "addApproval C f d parts =
    ebind (mergeSignatures parts) (\<lambda>sigs.
    ebind (verifyCommitteeConfig C \<lparr>sc_config = cf_config f, sc_signatures = sigs\<rparr> (currentSet d)) (\<lambda>ok.
    if \<not> ok then Inl (Failure ''these signatures are not a quorum of the set for the config'')
    else
      let i = setIndex (currentSet d)
      in Inr (f\<lparr>cf_approvals := Some (filter (\<lambda>a. fst a \<noteq> i) (or_empty (cf_approvals f)) @ [(i, sigs)])\<rparr>)))"

section \<open>The commands\<close>

datatype command_output =
    FetchedSet SetSummary hex
  | ShownSet SetSummary
  | NextSet SetDiff hex
  | Authorization SetDiff hex IndexedSignature
  | Possession IndexedSignature
  | Merged SignatureBundle
  | ApprovalRecorded string ConfigFile
  | StatusShown GovernanceStatus

text \<open>An operation that is an inherited member is compared with numbers only, and equals none of them.\<close>

definition op_number :: "operation_code \<Rightarrow> int" where
  "op_number operation = (case operation of OpCode n \<Rightarrow> n | Inherited \<Rightarrow> - 1)"

definition fetch_set :: "world \<Rightarrow> cli_values \<Rightarrow> command_output result" where
  "fetch_set w v =
    (if \<not> given (v_operator v) then Inl (Failure ''fetch-set requires --operator <publisher.json>'')
     else
       ebind (w_operator w (the (v_operator v))) (\<lambda>operator.
       case op_chain operator of
         None \<Rightarrow> Inl (Failure ''the operator config has no committee.chain'')
       | Some chain \<Rightarrow>
           ebind (fetchCommittee (w_rpc w chain)) (\<lambda>(d, outPoint).
           ebind (encodeSet d) (\<lambda>h. Inr (FetchedSet (describeSet d None) h)))))"

definition show_set :: "secp \<Rightarrow> world \<Rightarrow> cli_values \<Rightarrow> command_output result" where
  "show_set S w v =
    (if \<not> given (v_set v) then Inl (Failure ''show-set requires --set'')
     else
       ebind (if given (v_key v) then ebind (w_text w (the (v_key v))) (\<lambda>t. ebind (fileKeySigner S t) (\<lambda>ks. Inr (Some (ks_publicKey ks))))
              else Inr None) (\<lambda>self.
       ebind (set_at w (v_set v)) (\<lambda>d. Inr (ShownSet (describeSet d self)))))"

definition next_set :: "world \<Rightarrow> cli_values \<Rightarrow> command_output result" where
  "next_set w v =
    (if \<not> given (v_set v) then Inl (Failure ''next-set requires --set'')
     else
       ebind (set_at w (v_set v)) (\<lambda>current.
       ebind (parseOperation (v_op v)) (\<lambda>operation.
       let raw = v_untilMs v in
       if (case raw of None \<Rightarrow> False | Some r \<Rightarrow> \<not> is_decimal r)
       then Inl (Failure ''--until-ms must be a tick in milliseconds (an integer)'')
       else
         let op = op_number operation in
         ebind (nextState (w_now w) current op
           \<lparr>ns_add = v_add v, ns_remove = v_remove v, ns_untilMs = map_option decimal_value raw, ns_nowMs = None\<rparr>) (\<lambda>following.
         ebind (encodeSet following) (\<lambda>h. Inr (NextSet (diffSets current following op) h))))))"

definition sign_governance :: "crypto \<Rightarrow> secp \<Rightarrow> world \<Rightarrow> cli_values \<Rightarrow> command_output result" where
  "sign_governance C S w v =
    (if \<not> given (v_set v) \<or> \<not> given (v_next v) then Inl (Failure ''sign-governance requires --set, --next and --op'')
     else
       ebind (set_at w (v_set v)) (\<lambda>current.
       ebind (set_at w (v_next v)) (\<lambda>following.
       ebind (parseOperation (v_op v)) (\<lambda>operation.
       ebind (committeeFrom w v) (\<lambda>committee.
       ebind (signerFrom C S w v) (\<lambda>signer.
       let op = op_number operation in
       ebind (signGovernance C current following op committee signer) (\<lambda>sig.
       Inr (Authorization (diffSets current following op) committee sig))))))))"

definition sign_pop :: "crypto \<Rightarrow> secp \<Rightarrow> world \<Rightarrow> cli_values \<Rightarrow> command_output result" where
  "sign_pop C S w v =
    (if \<not> given (v_next v) then Inl (Failure ''sign-pop requires --next'')
     else
       ebind (set_at w (v_next v)) (\<lambda>following.
       ebind (committeeFrom w v) (\<lambda>committee.
       ebind (signerFrom C S w v) (\<lambda>signer.
       ebind (signProofOfPossession C following committee signer) (\<lambda>sig. Inr (Possession sig))))))"

definition merge_signatures :: "world \<Rightarrow> string list \<Rightarrow> command_output result" where
  "merge_signatures w positionals =
    (if length positionals = 0 then Inl (Failure ''merge-signatures needs one or more signature files'')
     else ebind (emap (signatures_at w) positionals) (\<lambda>parts. ebind (mergeSignatures parts) (\<lambda>sigs. Inr (Merged sigs))))"

definition add_approval :: "crypto \<Rightarrow> world \<Rightarrow> cli_values \<Rightarrow> string list \<Rightarrow> command_output result" where
  "add_approval C w v positionals =
    (if \<not> given (v_file v) \<or> \<not> given (v_set v) \<or> length positionals = 0
     then Inl (Failure ''add-approval requires --file, --set and signature files'')
     else
       ebind (set_at w (v_set v)) (\<lambda>d.
       ebind (w_configFile w (the (v_file v))) (\<lambda>f.
       ebind (emap (signatures_at w) positionals) (\<lambda>parts.
       ebind (addApproval C f d parts) (\<lambda>f'. Inr (ApprovalRecorded (the (v_file v)) f'))))))"

definition governance_status :: "crypto \<Rightarrow> world \<Rightarrow> cli_values \<Rightarrow> command_output result" where
  "governance_status C w v =
    (if \<not> given (v_set v) \<or> \<not> given (v_next v) then Inl (Failure ''governance-status requires --set, --next and --op'')
     else
       ebind (if given (v_authorization v) then signatures_at w (the (v_authorization v)) else Inr []) (\<lambda>auth.
       ebind (if given (v_pop v) then signatures_at w (the (v_pop v)) else Inr []) (\<lambda>pop.
       ebind (set_at w (v_set v)) (\<lambda>current.
       ebind (set_at w (v_next v)) (\<lambda>following.
       ebind (parseOperation (v_op v)) (\<lambda>operation.
       ebind (committeeFrom w v) (\<lambda>committee.
       ebind (governanceStatus C current following (op_number operation) committee auth pop) (\<lambda>st.
       Inr (StatusShown st)))))))))"

text \<open>\<open>governance\<close>; any other command returns without output.\<close>

definition governance :: "crypto \<Rightarrow> secp \<Rightarrow> world \<Rightarrow> string \<Rightarrow> cli_values \<Rightarrow> string list \<Rightarrow> command_output option result" where
  "governance C S w command v positionals =
    (let shown = (\<lambda>r. ebind r (\<lambda>x. Inr (Some x))) in
     if command = ''fetch-set'' then shown (fetch_set w v)
     else if command = ''show-set'' then shown (show_set S w v)
     else if command = ''next-set'' then shown (next_set w v)
     else if command = ''sign-governance'' then shown (sign_governance C S w v)
     else if command = ''sign-pop'' then shown (sign_pop C S w v)
     else if command = ''merge-signatures'' then shown (merge_signatures w positionals)
     else if command = ''add-approval'' then shown (add_approval C w v positionals)
     else if command = ''governance-status'' then shown (governance_status C w v)
     else Inr None)"

text \<open>\<open>keygen\<close>, of 32 random bytes, and \<open>pubkey\<close>.\<close>

definition keygen :: "secp \<Rightarrow> bytes \<Rightarrow> (hex \<times> hex) result" where
  "keygen S random = (let key = bytesToHex random in ebind (publicKeyOf S key) (\<lambda>pk. Inr (key, pk)))"

definition pubkey :: "secp \<Rightarrow> string \<Rightarrow> hex result" where
  "pubkey S keyText = publicKeyOf S (trim keyText)"

section \<open>The running publisher\<close>

text \<open>One read of the committee cell: a change stops the publisher with code 3.\<close>

datatype committee_poll = SameCommittee | ReadFailed | CommitteeChanged int int

definition poll_committee :: "hex \<Rightarrow> CommitteeCellJson list option \<Rightarrow> committee_poll" where
  "poll_committee current reply =
    (case ebind (fetchCommittee reply) (\<lambda>(d, outPoint). ebind (encodeSet d) (\<lambda>h. Inr (d, h))) of
       Inl _ \<Rightarrow> ReadFailed
     | Inr (d, h) \<Rightarrow> if h \<noteq> current then CommitteeChanged (setIndex (currentSet d)) (governanceFlags d) else SameCommittee)"

text \<open>The timer of \<open>startSources\<close>: newly approved versions, and their markets.\<close>

definition pick_up_configs :: "crypto \<Rightarrow> (string \<times> ConfigFile result) list option \<Rightarrow> ConfigSchedule \<times> running \<Rightarrow>
    ((ConfigSchedule \<times> running) \<times> manager_act list) result" where
  "pick_up_configs C dir = (\<lambda>(sch, sources).
    ebind (loadConfigDir C False dir sch) (\<lambda>(sch', added, rejected).
    if length added > 0 then
      (let (sources', acts) = sync_sources (map ac_config (schedule_all sch')) sources in Inr ((sch', sources'), acts))
    else Inr ((sch', sources), [])))"

text \<open>The markets whose depth the recorder snapshots: those of the listed feeds, each once.\<close>

definition depth_markets :: "ConfigSchedule \<Rightarrow> string list \<Rightarrow> (string \<times> string) list" where
  "depth_markets sch depthFeeds =
    (let depth = concat (map (\<lambda>v. concat (map (\<lambda>f. map (\<lambda>m. (mc_venue m, mc_market m)) (feed_markets f))
           (filter (\<lambda>f. feed_symbol f \<in> set depthFeeds) (marketFeeds (c_feeds (ac_config v)))))) (schedule_all sch))
     in map snd (foldl (\<lambda>m d. AList.update (fst d @ '':'' @ snd d) d m) [] depth))"

text \<open>Which source events the recorder gets besides the log.\<close>

definition recorded_event :: "string \<Rightarrow> bool" where
  "recorded_event event \<longleftrightarrow> starts_with event ''venue.'' \<or> starts_with event ''source.''"

section \<open>What the commands print is read back\<close>

lemma readSet_encodeSet:
  assumes "isValidPublisherSetData d = Inr True" "encodeSet d = Inr h"
  shows "readSetFile h = Inr (norm_data d)"
proof -
  from assms(2) obtain bs where bs: "encodePublisherSetData d = Inr bs" "h = bytesToHex bs"
    by (auto simp: encodeSet_def ebind_eq_Inr)
  with set_codec.dec_enc [OF assms(1) bs(1)] show ?thesis
    by (simp add: readSetFile_def trim_bytesToHex decodePublisherSetData_def)
qed

lemma readSet_valid: "readSetFile t = Inr d \<Longrightarrow> isValidPublisherSetData d = Inr True"
  by (auto simp: readSetFile_def decodePublisherSetData_def ebind_eq_Inr split: if_splits)

text \<open>The state \<open>next-set\<close> prints is the one the signing commands read, up to the case of its keys.\<close>

lemma printed_set_read:
  assumes "next_set w v = Inr (NextSet diff h)" "\<forall>r. v_untilMs v = Some r \<longrightarrow> 0 < decimal_value r"
  shows "\<exists>d d'. set_at w (v_set v) = Inr d \<and> Publisher_Set.history d 1 d' \<and> readSetFile h = Inr (norm_data d')"
proof -
  from assms(1) obtain d op d' opts where d: "set_at w (v_set v) = Inr d" "nextState (w_now w) d op opts = Inr d'"
    "encodeSet d' = Inr h" "ns_untilMs opts = map_option decimal_value (v_untilMs v)"
    by (fastforce simp: next_set_def ebind_eq_Inr Let_def split: if_splits)
  have valid: "isValidPublisherSetData d = Inr True"
    using d(1) readSet_valid by (auto simp: set_at_def ebind_eq_Inr)
  from d(2) have "transitionError d d' op = None" and built: "build_state (w_now w) d op opts = Inr d'"
    by (simp_all add: next_state_built)
  moreover have valid': "isValidPublisherSetData d' = Inr True"
    by (rule next_state_valid [OF valid built]) (use assms(2) d(4) in auto)
  ultimately have "Publisher_Set.history d 1 d'" using Publisher_Set.history.step [OF Publisher_Set.history.start [OF valid] valid'] by simp
  with readSet_encodeSet [OF valid' d(3)] d(1) show ?thesis by blast
qed

section \<open>Approvals\<close>

lemma approvalFor_added:
  assumes "addApproval C f d parts = Inr f'"
  shows "approvalFor f' j = (if j = setIndex (currentSet d) then snd (last (or_empty (cf_approvals f'))) else approvalFor f j)"
proof -
  have other: "find (\<lambda>a. fst a = j) (filter (\<lambda>a. fst a \<noteq> i) xs @ [(i, sigs)]) = find (\<lambda>a. fst a = j) xs" if "j \<noteq> i" for i sigs and xs :: "(int \<times> IndexedSignature list) list"
    using that by (induction xs) auto
  have own: "find (\<lambda>a. fst a = i) (filter (\<lambda>a. fst a \<noteq> i) xs @ [(i, sigs)]) = Some (i, sigs)" for i sigs and xs :: "(int \<times> IndexedSignature list) list"
    by (induction xs) auto
  from assms obtain sigs where f': "f' = f\<lparr>cf_approvals := Some (filter (\<lambda>a. fst a \<noteq> setIndex (currentSet d)) (or_empty (cf_approvals f)) @
      [(setIndex (currentSet d), sigs)])\<rparr>"
    by (auto simp: addApproval_def ebind_eq_Inr Let_def split: if_splits)
  show ?thesis
  proof (cases "j = setIndex (currentSet d)")
    case True
    then show ?thesis by (simp add: f' approvalFor_def own or_empty_def)
  next
    case False
    from other [OF False] False show ?thesis by (cases "cf_approvals f") (simp_all add: f' approvalFor_def or_empty_def split: option.split)
  qed
qed

text \<open>Each operator's signature of the config, when the config is valid and the keys are members'.\<close>

lemma operators_approve:
  assumes "secp_ok C S" "hash32 C" "readSetFile setText = Inr d" "validateCommitteeConfig C (signed_config raw) = Inr []"
    and "committeeConfigHash C (signed_config raw) = Inr hash"
    and ops: "\<forall>(k, pk) \<in> set ops. publicKeyOf S (trim k) = Inr pk \<and> pk \<in> set (pubkeys (currentSet d))" "distinct (map snd ops)"
  obtains es h where "emap (\<lambda>(k, pk). signConfig C S raw k setText) ops = Inr (map (Pair hash) es)" "hash = bytesToHex h"
    "length es = length ops" "distinct (map publisherIndex es)"
    "\<forall>e \<in> set es. signature_of C h (currentSet d) (publisherIndex e) (signature e)"
proof -
  let ?s = "currentSet d"
  let ?ks = "\<lambda>(k, pk). \<lparr>ks_publicKey = pk, ks_sign = (\<lambda>digest. signDigest S (HexStr digest) (trim k))\<rparr>"
  let ?f = "\<lambda>ks. ebind (ks_sign ks hash) (\<lambda>x. Inr \<lparr>publisherIndex = index_of (ks_publicKey ks) (pubkeys ?s), signature = x\<rparr>)"
  from assms(2,5) obtain h where h: "hash = bytesToHex h" "length h = 32"
    by (auto simp: committeeConfigHash_def ebind_eq_Inr)
  have "isValidPublisherSet ?s = Inr True" using readSet_valid [OF assms(3)] valid_data_sets(1) by blast
  then have hex: "hex_set ?s" by (rule valid_hex_set)
  have "signer_ok C (?ks p) \<and> ks_publicKey (?ks p) \<in> set (pubkeys ?s)" if "p \<in> set ops" for p
  proof -
    have pk: "publicKeyOf S (trim (fst p)) = Inr (snd p)" "snd p \<in> set (pubkeys ?s)" using ops(1) that by auto
    have "\<exists>s. signDigest S (HexStr (bytesToHex x)) (trim (fst p)) = Inr s \<and> recoverSigner C (Raw x) (HexStr s) = Inr (Some (snd p))"
      if "length x = 32" for x
      using signed_digest [OF assms(1) pk(1) that, of "HexStr (bytesToHex x)"] by auto
    with pk(2) show ?thesis by (cases p) (simp add: signer_ok_def)
  qed
  then have members: "\<forall>ks \<in> set (map ?ks ops). signer_ok C ks \<and> ks_publicKey ks \<in> set (pubkeys ?s)" by auto
  have distinct_keys: "distinct (map ks_publicKey (map ?ks ops))" using ops(2) by (simp add: comp_def case_prod_unfold)
  obtain es where es: "emap ?f (map ?ks ops) = Inr es" "length es = length (map ?ks ops)" "distinct (map publisherIndex es)"
    "\<forall>e \<in> set es. signature_of C h ?s (publisherIndex e) (signature e)"
    by (rule operators_sign [OF members hex h(2) distinct_keys, of ?f]) (simp_all add: h(1))
  have signed: "signConfig C S raw (fst p) setText = Inr (hash, e)" if "p \<in> set ops" "?f (?ks p) = Inr e" for p e
  proof -
    have pk: "publicKeyOf S (trim (fst p)) = Inr (snd p)" "\<not> index_of (snd p) (pubkeys ?s) < 0"
      using ops(1) that(1) by (auto simp: index_of_def)
    with that(2) assms(3-5) show ?thesis
      by (cases p) (auto simp: signConfig_def signCommitteeConfig_def sign_as_def ebind_eq_Inr Let_def)
  qed
  have "list_all2 (\<lambda>p e. ?f (?ks p) = Inr e) ops es" using es(1) by (simp add: emap_eq_Inr list_all2_map1)
  then have "list_all2 (\<lambda>p e. signConfig C S raw (fst p) setText = Inr (hash, e)) ops es"
    by (rule list.rel_mono_strong) (rule signed)
  then have "emap (\<lambda>(k, pk). signConfig C S raw k setText) ops = Inr (map (Pair hash) es)"
    by (simp add: emap_eq_Inr list_all2_map2 case_prod_unfold)
  then show thesis using that h(1) es(2-4) by simp
qed

text \<open>A valid config with a quorum follows the versions of a schedule of its committee.\<close>

lemma schedule_add_follows:
  assumes "validateCommitteeConfig C config = Inr []" "committeeConfigHash C config = Inr hash"
    and "verifyThreshold C sigs (HexStr hash) (cs_set sch) = Inr True" "cs_typeHash sch = toLowerCase (c_publisherSetTypeHash config)"
    and "\<forall>v \<in> set (cs_versions sch). version_of v < c_version config \<and> activation v < decimal_value (c_activationTickMs config)"
  shows "schedule_add C sch \<lparr>sc_config = config, sc_signatures = sigs\<rparr> =
    Inr (sch\<lparr>cs_versions := cs_versions sch @ [\<lparr>ac_config = config, ac_hash = hash\<rparr>]\<rparr>, \<lparr>ac_config = config, ac_hash = hash\<rparr>)"
proof -
  have "find (\<lambda>v. version_of v = c_version config) (cs_versions sch) = None"
    using assms(5) by (auto simp: find_None_iff)
  moreover have "\<not> (cs_versions sch \<noteq> [] \<and> (c_version config < version_of (last (cs_versions sch)) \<or>
      decimal_value (c_activationTickMs config) \<le> activation (last (cs_versions sch))))"
    using assms(5) last_in_set [of "cs_versions sch"] by fastforce
  ultimately show ?thesis
    using assms(1-4) by (simp add: schedule_add_def verifyCommitteeConfig_def Let_def)
qed

text \<open>What \<open>add-approval\<close> records of a quorum's signatures, merged in any way, is taken by every schedule that may.\<close>

lemma merged_approval_loads:
  assumes config: "validateCommitteeConfig C (cf_config f) = Inr []" "committeeConfigHash C (cf_config f) = Inr (bytesToHex h)"
    and es: "distinct (map publisherIndex es)" "\<forall>e \<in> set es. signature_of C h (currentSet d) (publisherIndex e) (signature e)"
      "quorum (currentSet d) \<le> int (length es)"
    and parts: "set (concat parts) = set es"
  shows "\<exists>f'. addApproval C f d parts = Inr f' \<and> (\<forall>sch. cs_set sch = currentSet d \<longrightarrow>
    cs_typeHash sch = toLowerCase (c_publisherSetTypeHash (cf_config f)) \<longrightarrow>
    (\<forall>v \<in> set (cs_versions sch). version_of v < c_version (cf_config f) \<and>
      activation v < decimal_value (c_activationTickMs (cf_config f))) \<longrightarrow>
    (\<exists>v. try_config C sch f' = Inr (sch\<lparr>cs_versions := cs_versions sch @ [v]\<rparr>, v) \<and> ac_config v = cf_config f))"
proof -
  obtain b where b: "mergeSignatures parts = Inr b" "set b = set es" "distinct (map publisherIndex b)" "sorted (map publisherIndex b)"
    by (rule mergeSignatures_merges [of "set es" parts]) (use es(1) parts in \<open>auto simp: distinct_map\<close>)
  have "length b = length es" by (rule same_length [OF b(3) es(1) b(2)])
  then have "quorum (currentSet d) \<le> int (length b)" using es(3) by simp
  from bundle_verifies [OF _ b(3) this, of "HexStr (bytesToHex h)" h C] es(2) b(2,4)
  have t: "toSignatureBundle b = Inr b" "verifyThreshold C b (HexStr (bytesToHex h)) (currentSet d) = Inr True"
    by (simp_all add: sorted_bundle)
  let ?f = "f\<lparr>cf_approvals := Some (filter (\<lambda>a. fst a \<noteq> setIndex (currentSet d)) (or_empty (cf_approvals f)) @
      [(setIndex (currentSet d), b)])\<rparr>"
  have add: "addApproval C f d parts = Inr ?f"
    using config t by (simp add: addApproval_def b(1) verifyCommitteeConfig_def Let_def)
  have "approvalFor ?f (setIndex (currentSet d)) = b" by (subst approvalFor_added [OF add]) (simp add: or_empty_def)
  then have "try_config C sch ?f = schedule_add C sch \<lparr>sc_config = cf_config f, sc_signatures = b\<rparr>" if "cs_set sch = currentSet d" for sch
    using that t(1) by (simp add: try_config_def schedule_setIndex_def)
  with schedule_add_follows [of C "cf_config f" "bytesToHex h" b] config t(2)
  have "\<exists>v. try_config C sch ?f = Inr (sch\<lparr>cs_versions := cs_versions sch @ [v]\<rparr>, v) \<and> ac_config v = cf_config f"
    if "cs_set sch = currentSet d" "cs_typeHash sch = toLowerCase (c_publisherSetTypeHash (cf_config f))"
      "\<forall>v \<in> set (cs_versions sch). version_of v < c_version (cf_config f) \<and>
        activation v < decimal_value (c_activationTickMs (cf_config f))" for sch
    using that by simp
  with add show ?thesis by blast
qed

section \<open>Properties\<close>

text \<open>Claim C34: approving a config works. When the operators of a quorum run \<open>sign-config\<close> on a valid config, none
  of them is refused, and in whatever order and however often their outputs are merged, \<open>add-approval\<close>
  records them in the config's file, where every publisher of the set whose schedule the config follows takes it; the
  approvals of other sets stay as they were.\<close>

theorem recorded_approval_loads:
  assumes "secp_ok C S" "hash32 C" "readSetFile setText = Inr d" "validateCommitteeConfig C (signed_config raw) = Inr []"
    and "committeeConfigHash C (signed_config raw) = Inr hash" "cf_config f = signed_config raw"
    and "\<forall>(k, pk) \<in> set ops. publicKeyOf S (trim k) = Inr pk \<and> pk \<in> set (pubkeys (currentSet d))" "distinct (map snd ops)"
    and "quorum (currentSet d) \<le> int (length ops)"
  shows "\<exists>outs. emap (\<lambda>(k, pk). signConfig C S raw k setText) ops = Inr outs \<and>
    (\<forall>parts. set (concat parts) = set (map snd outs) \<longrightarrow> (\<exists>f'. addApproval C f d parts = Inr f' \<and>
      (\<forall>j. j \<noteq> setIndex (currentSet d) \<longrightarrow> approvalFor f' j = approvalFor f j) \<and>
      (\<forall>sch. cs_set sch = currentSet d \<longrightarrow> cs_typeHash sch = toLowerCase (c_publisherSetTypeHash (cf_config f)) \<longrightarrow>
        (\<forall>v \<in> set (cs_versions sch). version_of v < c_version (cf_config f) \<and>
          activation v < decimal_value (c_activationTickMs (cf_config f))) \<longrightarrow>
        (\<exists>v. try_config C sch f' = Inr (sch\<lparr>cs_versions := cs_versions sch @ [v]\<rparr>, v) \<and> ac_config v = cf_config f))))"
proof -
  from operators_approve [OF assms(1-5,7,8)] obtain es h where
    outs: "emap (\<lambda>(k, pk). signConfig C S raw k setText) ops = Inr (map (Pair hash) es)" and h: "hash = bytesToHex h"
    and es: "length es = length ops" "distinct (map publisherIndex es)"
      "\<forall>e \<in> set es. signature_of C h (currentSet d) (publisherIndex e) (signature e)" by blast
  have config: "validateCommitteeConfig C (cf_config f) = Inr []" "committeeConfigHash C (cf_config f) = Inr (bytesToHex h)"
    and n: "quorum (currentSet d) \<le> int (length es)"
    using assms(4-6,9) es(1) h by simp_all
  have "approvalFor f' j = approvalFor f j" if "addApproval C f d parts = Inr f'" "j \<noteq> setIndex (currentSet d)" for f' parts j
    using approvalFor_added [OF that(1)] that(2) by simp
  moreover have "set (map snd (map (Pair hash) es)) = set es" by (simp add: comp_def)
  ultimately show ?thesis using outs merged_approval_loads [OF config es(2,3) n] by metis
qed

text \<open>Three of the four operators of the examples approve the config of the examples.\<close>

definition demo_ops :: "(string \<times> hex) list" where
  "demo_ops = map (\<lambda>n. (bytesToHex (n # replicate 31 0), demo_key n)) [1, 2, 3]"

definition demo_unsigned :: ConfigFile where
  "demo_unsigned = \<lparr>cf_config = demo_config, cf_signatures = [], cf_approvals = None\<rparr>"

lemma demo_ops_keys:
  "\<forall>(k, pk) \<in> set demo_ops. publicKeyOf demo_secp (trim k) = Inr pk \<and> pk \<in> set (pubkeys (currentSet demo_committee))"
  "distinct (map snd demo_ops)"
  by (auto simp: demo_ops_def trim_bytesToHex publicKeyOf_def demo_secp_def demo_public_def demo_key_def demo_committee_def demo_set_def)

theorem recorded_approval_loads_witness:
  "\<exists>tx outs f' sch v. emap (\<lambda>(k, pk). signConfig demo_crypto demo_secp (BareConfig demo_config) k tx) demo_ops = Inr outs \<and>
    addApproval demo_crypto demo_unsigned demo_committee [map snd outs] = Inr f' \<and>
    try_config demo_crypto (new_schedule (bytesToHex (replicate 32 9)) (demo_set 1)) f' = Inr (sch, v) \<and> ac_config v = demo_config"
proof -
  from demo_data_text obtain tx where tx: "readSetFile tx = Inr demo_committee" by (auto simp: readSetFile_def)
  obtain bs where h: "committeeConfigHash demo_crypto demo_config = Inr (bytesToHex bs)" using demo_config_hash by blast
  have "quorum (currentSet demo_committee) \<le> int (length demo_ops)"
    by (simp add: demo_committee_def demo_ops_def demo_set_def quorum_def big_div_nonneg)
  from recorded_approval_loads [OF demo_secp_ok demo_hash32 tx _ _ _ demo_ops_keys this, of "BareConfig demo_config" "bytesToHex bs" demo_unsigned]
  obtain outs where outs: "emap (\<lambda>(k, pk). signConfig demo_crypto demo_secp (BareConfig demo_config) k tx) demo_ops = Inr outs"
    and all: "\<forall>parts. set (concat parts) = set (map snd outs) \<longrightarrow> (\<exists>f'. addApproval demo_crypto demo_unsigned demo_committee parts = Inr f' \<and>
      (\<forall>j. j \<noteq> setIndex (currentSet demo_committee) \<longrightarrow> approvalFor f' j = approvalFor demo_unsigned j) \<and>
      (\<forall>sch. cs_set sch = currentSet demo_committee \<longrightarrow> cs_typeHash sch = toLowerCase (c_publisherSetTypeHash (cf_config demo_unsigned)) \<longrightarrow>
        (\<forall>v \<in> set (cs_versions sch). version_of v < c_version (cf_config demo_unsigned) \<and>
          activation v < decimal_value (c_activationTickMs (cf_config demo_unsigned))) \<longrightarrow>
        (\<exists>v. try_config demo_crypto sch f' = Inr (sch\<lparr>cs_versions := cs_versions sch @ [v]\<rparr>, v) \<and> ac_config v = cf_config demo_unsigned)))"
    by (auto simp: signed_config_def demo_config_valid h demo_unsigned_def)
  let ?new = "new_schedule (bytesToHex (replicate 32 9)) (demo_set 1)"
  have "set (concat [map snd outs]) = set (map snd outs)" by simp
  with all obtain f' where f': "addApproval demo_crypto demo_unsigned demo_committee [map snd outs] = Inr f'"
    and loads: "\<forall>sch. cs_set sch = currentSet demo_committee \<longrightarrow> cs_typeHash sch = toLowerCase (c_publisherSetTypeHash (cf_config demo_unsigned)) \<longrightarrow>
        (\<forall>v \<in> set (cs_versions sch). version_of v < c_version (cf_config demo_unsigned) \<and>
          activation v < decimal_value (c_activationTickMs (cf_config demo_unsigned))) \<longrightarrow>
        (\<exists>v. try_config demo_crypto sch f' = Inr (sch\<lparr>cs_versions := cs_versions sch @ [v]\<rparr>, v) \<and> ac_config v = cf_config demo_unsigned)"
    by blast
  have new: "cs_set ?new = currentSet demo_committee" "cs_typeHash ?new = toLowerCase (c_publisherSetTypeHash (cf_config demo_unsigned))"
    "cs_versions ?new = []"
    by (simp_all add: new_schedule_def demo_committee_def demo_unsigned_def demo_config_def)
  have "\<exists>v. try_config demo_crypto ?new f' = Inr (?new\<lparr>cs_versions := cs_versions ?new @ [v]\<rparr>, v) \<and> ac_config v = cf_config demo_unsigned"
    by (rule loads [THEN spec, THEN mp, THEN mp, THEN mp]) (simp_all only: new list.set ball_empty)
  then obtain v where "try_config demo_crypto ?new f' = Inr (?new\<lparr>cs_versions := cs_versions ?new @ [v]\<rparr>, v)" "ac_config v = demo_config"
    by (auto simp: demo_unsigned_def)
  with outs f' show ?thesis by blast
qed

end
