(* ===== verification/Transport.thy ===== *)
theory Transport
  imports Wire Signing Publisher_Node
begin

text \<open>
  How publishers reach each other: \<open>apps/publisher/src/transport.ts\<close> (the hub of one process) and \<open>wsTransport.ts\<close>
  (connections with a challenge). Sockets, timers and random bytes are the environment: a connection is the
  sequence of what happens on it, and each step says what the transport does.

  Lemmas: the handler gets a frame under an index only from a connection that proved that index before; an honest
  publisher's frames arrive unchanged, in order and under its index; the pause before a connection is dialed again
  grows to ten seconds and no further.
\<close>

section \<open>The hub\<close>

text \<open>The registered handlers, the indexes that are down, and the deliveries queued with \<open>setImmediate\<close>, which run
  in their order. A delivery keeps the handler it was queued for.\<close>

record Hub =
  hub_handlers :: "int list"
  hub_down :: "int set"
  hub_queue :: "(int \<times> int \<times> bytes) list"

definition new_hub :: Hub where
  "new_hub = \<lparr>hub_handlers = [], hub_down = {}, hub_queue = []\<rparr>"

definition hub_deliver :: "int \<Rightarrow> int \<Rightarrow> bytes \<Rightarrow> Hub \<Rightarrow> Hub" where
  "hub_deliver src dest frame h =
    (if src \<in> hub_down h \<or> dest \<in> hub_down h then h
     else if dest \<notin> set (hub_handlers h) then h
     else h\<lparr>hub_queue := hub_queue h @ [(src, dest, frame)]\<rparr>)"

definition hub_broadcast :: "int \<Rightarrow> bytes \<Rightarrow> Hub \<Rightarrow> Hub" where
  "hub_broadcast self frame h = foldl (\<lambda>h dest. if dest \<noteq> self then hub_deliver self dest frame h else h) h (hub_handlers h)"

definition hub_onFrame :: "int \<Rightarrow> Hub \<Rightarrow> Hub" where
  "hub_onFrame self h = (if self \<in> set (hub_handlers h) then h else h\<lparr>hub_handlers := hub_handlers h @ [self]\<rparr>)"

definition hub_close :: "int \<Rightarrow> Hub \<Rightarrow> Hub" where
  "hub_close self h = h\<lparr>hub_handlers := removeAll self (hub_handlers h)\<rparr>"

definition setDown :: "int \<Rightarrow> bool \<Rightarrow> Hub \<Rightarrow> Hub" where
  "setDown i isDown h = h\<lparr>hub_down := (if isDown then insert i (hub_down h) else hub_down h - {i})\<rparr>"

text \<open>\<open>pending\<close> is the length of the queue; one immediate runs the first delivery.\<close>

definition hub_run :: "Hub \<Rightarrow> (int \<times> int \<times> bytes) option \<times> Hub" where
  "hub_run h = (case hub_queue h of [] \<Rightarrow> (None, h) | d # ds \<Rightarrow> (Some d, h\<lparr>hub_queue := ds\<rparr>))"

section \<open>Inbound connections\<close>

definition HELLO_TIMEOUT_MS :: int where "HELLO_TIMEOUT_MS = 5000"

text \<open>What the server keeps of a connection, and what a message on it does.\<close>

record Inbound =
  in_challenge :: bytes
  in_from :: "int option"

datatype inbound_act = Handle int bytes | BadHello

definition accept_socket :: "bytes \<Rightarrow> Inbound" where
  "accept_socket challenge = \<lparr>in_challenge = challenge, in_from = None\<rparr>"

definition on_message :: "crypto \<Rightarrow> hex \<Rightarrow> PublisherSet \<Rightarrow> Inbound \<Rightarrow> bytes \<Rightarrow> (Inbound \<times> inbound_act list) result" where
  "on_message C publicKey s c data =
    (case in_from c of
       None \<Rightarrow>
         ebind (checkHello C data (in_challenge c) publicKey s) (\<lambda>sender.
         Inr (c\<lparr>in_from := sender\<rparr>, if sender = None then [BadHello] else []))
     | Some sender \<Rightarrow> Inr (c, [Handle sender data]))"

text \<open>At the timeout the socket is terminated unless the peer has authenticated.\<close>

definition on_hello_timeout :: "Inbound \<Rightarrow> bool" where
  "on_hello_timeout c \<longleftrightarrow> in_from c = None"

fun on_messages :: "crypto \<Rightarrow> hex \<Rightarrow> PublisherSet \<Rightarrow> Inbound \<Rightarrow> bytes list \<Rightarrow> (Inbound \<times> inbound_act list) result" where
  "on_messages C publicKey s c [] = Inr (c, [])"
| "on_messages C publicKey s c (m # ms) =
    ebind (on_message C publicKey s c m) (\<lambda>(c', acts).
    if BadHello \<in> set acts then Inr (c', acts)
    else ebind (on_messages C publicKey s c' ms) (\<lambda>(c'', acts'). Inr (c'', acts @ acts')))"

section \<open>Outbound connections\<close>

text \<open>The connection to a peer: its socket's state, whether our answer is sent, and the pause before the next dial.\<close>

record Outbound =
  ob_url :: string
  ob_open :: bool
  ob_ready :: bool
  ob_delayMs :: int

record WsTransport =
  wt_selfIndex :: int
  wt_set :: PublisherSet
  wt_outbound :: "(int \<times> Outbound) list"
  wt_closed :: bool

definition dial :: "int \<Rightarrow> string \<Rightarrow> int \<Rightarrow> WsTransport \<Rightarrow> WsTransport" where
  "dial i url delayMs t =
    (if wt_closed t then t
     else t\<lparr>wt_outbound := AList.update i \<lparr>ob_url = url, ob_open = False, ob_ready = False, ob_delayMs = delayMs\<rparr> (wt_outbound t)\<rparr>)"

definition new_transport :: "int \<Rightarrow> PublisherSet \<Rightarrow> (int \<times> string) list \<Rightarrow> WsTransport" where
  "new_transport selfIndex s peers =
    foldl (\<lambda>t (i, url). if i \<noteq> selfIndex then dial i url 500 t else t)
      \<lparr>wt_selfIndex = selfIndex, wt_set = s, wt_outbound = [], wt_closed = False\<rparr> peers"

definition set_peer :: "int \<Rightarrow> (Outbound \<Rightarrow> Outbound) \<Rightarrow> WsTransport \<Rightarrow> WsTransport" where
  "set_peer i f t = (case map_of (wt_outbound t) i of None \<Rightarrow> t | Some p \<Rightarrow> t\<lparr>wt_outbound := AList.update i (f p) (wt_outbound t)\<rparr>)"

text \<open>The first message of a peer is its challenge; the answer is what goes to the socket.\<close>

definition on_challenge :: "crypto \<Rightarrow> KeySigner \<Rightarrow> int \<Rightarrow> bytes \<Rightarrow> WsTransport \<Rightarrow> (bytes \<times> WsTransport) result" where
  "on_challenge C signer i data t =
    ebind (of_option (TypeError ''no key'') (at_index (pubkeys (wt_set t)) i)) (\<lambda>serverKey.
    ebind (answerHello C data serverKey (wt_selfIndex t) (ks_sign signer)) (\<lambda>answer.
    Inr (answer, set_peer i (\<lambda>p. p\<lparr>ob_ready := True\<rparr>) t)))"

text \<open>A closed socket: dialed again after the pause, unless the transport is closed.\<close>

definition on_close :: "int \<Rightarrow> WsTransport \<Rightarrow> WsTransport \<times> (int \<times> string \<times> int) option" where
  "on_close i t =
    (let t' = set_peer i (\<lambda>p. p\<lparr>ob_open := False, ob_ready := False\<rparr>) t in
     if wt_closed t then (t', None)
     else (t', map_option (\<lambda>p. (ob_delayMs p, ob_url p, min (ob_delayMs p * 2) 10000)) (map_of (wt_outbound t) i)))"

datatype send_act = ToSelf bytes | ToSocket int bytes

definition usable :: "WsTransport \<Rightarrow> int \<Rightarrow> bool" where
  "usable t i \<longleftrightarrow> (case map_of (wt_outbound t) i of None \<Rightarrow> False | Some p \<Rightarrow> ob_ready p \<and> ob_open p)"

definition ws_send :: "int \<Rightarrow> bytes \<Rightarrow> WsTransport \<Rightarrow> send_act list" where
  "ws_send dest frame t =
    (if dest = wt_selfIndex t then [ToSelf frame] else if usable t dest then [ToSocket dest frame] else [])"

definition ws_broadcast :: "bytes \<Rightarrow> WsTransport \<Rightarrow> send_act list" where
  "ws_broadcast frame t = concat (map (\<lambda>i. ws_send i frame t) (map fst (wt_outbound t)))"

definition connectedPeers :: "WsTransport \<Rightarrow> int list" where
  "connectedPeers t = map fst (filter (\<lambda>(i, p). ob_ready p \<and> ob_open p) (wt_outbound t))"

definition ws_close :: "WsTransport \<Rightarrow> WsTransport" where
  "ws_close t = t\<lparr>wt_closed := True\<rparr>"

section \<open>The hub delivers\<close>

lemma hub_deliver_simps [simp]:
  "hub_handlers (hub_deliver src dest frame h) = hub_handlers h" "hub_down (hub_deliver src dest frame h) = hub_down h"
  by (simp_all add: hub_deliver_def)

lemma hub_fold:
  "src \<notin> hub_down h \<Longrightarrow> set ds \<subseteq> set (hub_handlers h) \<Longrightarrow>
    hub_queue (foldl (\<lambda>h dest. if dest \<noteq> src then hub_deliver src dest frame h else h) h ds) =
      hub_queue h @ map (\<lambda>dest. (src, dest, frame)) (filter (\<lambda>dest. dest \<noteq> src \<and> dest \<notin> hub_down h) ds)"
  by (induction ds arbitrary: h) (auto simp: hub_deliver_def)

text \<open>A broadcast of a publisher that is up is queued once for every other registered publisher that is up.\<close>

lemma hub_broadcast_queue:
  "hub_queue (hub_broadcast self frame h) = hub_queue h @
    (if self \<in> hub_down h then [] else map (\<lambda>dest. (self, dest, frame)) (filter (\<lambda>dest. dest \<noteq> self \<and> dest \<notin> hub_down h) (hub_handlers h)))"
proof (cases "self \<in> hub_down h")
  case True
  then have "foldl (\<lambda>h dest. if dest \<noteq> self then hub_deliver self dest frame h else h) h ds = h" for ds
    by (induction ds) (auto simp: hub_deliver_def)
  with True show ?thesis by (simp add: hub_broadcast_def)
qed (simp add: hub_broadcast_def hub_fold)

section \<open>What a connection hands on\<close>

text \<open>After the hello every message is handed on under the index it proved.\<close>

lemma authenticated_messages:
  "in_from c = Some i \<Longrightarrow> on_messages C publicKey s c ms = Inr (c, map (Handle i) ms)"
  by (induction ms) (simp_all add: on_message_def)

text \<open>A first message either is a hello, after which everything is handed on, or ends the connection.\<close>

lemma connection_messages:
  "on_messages C publicKey s (accept_socket challenge) (m # ms) =
    ebind (checkHello C m challenge publicKey s) (\<lambda>sender. case sender of
      None \<Rightarrow> Inr (accept_socket challenge, [BadHello])
    | Some i \<Rightarrow> Inr ((accept_socket challenge)\<lparr>in_from := Some i\<rparr>, map (Handle i) ms))"
  by (cases "checkHello C m challenge publicKey s") (auto simp: on_message_def accept_socket_def authenticated_messages split: option.splits)

declare on_messages.simps(2) [simp del]

lemma recoverSigner_returns: "\<exists>r. recoverSigner C digest (HexStr (bytesToHex sig)) = Inr r"
  by (auto simp: recoverSigner_def split: sum.splits option.splits)

text \<open>The check of a hello never throws, whatever is sent.\<close>

lemma checkHello_returns:
  assumes "hexToBytes publicKey = Inr key"
  shows "\<exists>r. checkHello C m challenge publicKey s = Inr r"
proof -
  have "\<exists>r. ebind (helloDigest C challenge publicKey i) (\<lambda>digest.
      ebind (recoverSigner C (HexStr digest) (HexStr (bytesToHex (tl m)))) (\<lambda>recovered. Inr (g recovered))) = Inr r" for i and g :: "hex option \<Rightarrow> int option"
    using assms recoverSigner_returns [of C _ "tl m"] by (simp add: helloDigest_def) (metis ebind_simps(2))
  then show ?thesis by (simp add: checkHello_def Let_def split: option.splits)
qed

lemma connection_returns:
  assumes "hexToBytes publicKey = Inr key"
  shows "\<exists>r. on_messages C publicKey s (accept_socket challenge) ms = Inr r"
proof (cases ms)
  case (Cons m ms')
  from checkHello_returns [OF assms] obtain r where "checkHello C m challenge publicKey s = Inr r" by blast
  with Cons show ?thesis by (simp add: connection_messages split: option.splits)
qed simp

section \<open>Dialing\<close>

definition peer_ok :: "Outbound \<Rightarrow> bool" where
  "peer_ok p \<longleftrightarrow> 500 \<le> ob_delayMs p \<and> ob_delayMs p \<le> 10000"

definition transport_ok :: "WsTransport \<Rightarrow> bool" where
  "transport_ok t \<longleftrightarrow> (\<forall>(i, p) \<in> set (wt_outbound t). i \<noteq> wt_selfIndex t \<and> peer_ok p)"

lemma dial_ok: "transport_ok t \<Longrightarrow> i \<noteq> wt_selfIndex t \<Longrightarrow> 500 \<le> d \<Longrightarrow> d \<le> 10000 \<Longrightarrow> transport_ok (dial i url d t)"
  using alist_update_subset [of i _ "wt_outbound t"] by (fastforce simp: dial_def transport_ok_def peer_ok_def)

lemma set_peer_ok: "transport_ok t \<Longrightarrow> (\<And>p. peer_ok p \<Longrightarrow> peer_ok (f p)) \<Longrightarrow> transport_ok (set_peer i f t)"
  unfolding set_peer_def transport_ok_def using alist_update_subset [of i _ "wt_outbound t"]
  by (fastforce split: option.splits dest: map_of_SomeD)

lemma new_transport_ok: "transport_ok (new_transport self s peers)"
proof -
  have "transport_ok (foldl (\<lambda>t (i, url). if i \<noteq> self then dial i url 500 t else t) t peers)"
    if "transport_ok t" "wt_selfIndex t = self" for t
    using that
  proof (induction peers arbitrary: t)
    case (Cons p ps)
    have "wt_selfIndex (dial i url d t) = wt_selfIndex t" for i url d by (simp add: dial_def)
    moreover have "transport_ok (dial i url 500 t)" if "i \<noteq> self" for i url
      using dial_ok [of t i 500 url] Cons.prems that by simp
    ultimately show ?case using Cons.IH Cons.prems by (cases p) (simp split: if_splits)
  qed simp
  then show ?thesis by (simp add: new_transport_def transport_ok_def)
qed

text \<open>The pause before a connection is dialed again stays between half a second and ten seconds.\<close>

lemma redial_bounds:
  assumes "transport_ok t" "on_close i t = (t', Some (wait, url, following))"
  shows "500 \<le> wait \<and> wait \<le> 10000 \<and> wait \<le> following \<and> following \<le> 10000 \<and> transport_ok t' \<and>
    transport_ok (dial i url following t')"
proof -
  from assms(2) obtain p where p: "map_of (wt_outbound t) i = Some p" "wait = ob_delayMs p" "following = min (ob_delayMs p * 2) 10000"
    and t': "t' = set_peer i (\<lambda>p. p\<lparr>ob_open := False, ob_ready := False\<rparr>) t"
    by (auto simp: on_close_def Let_def split: if_splits)
  from assms(1) map_of_SomeD [OF p(1)] have ok: "500 \<le> ob_delayMs p" "ob_delayMs p \<le> 10000" "i \<noteq> wt_selfIndex t"
    by (auto simp: transport_ok_def peer_ok_def)
  have "transport_ok t'" unfolding t' by (rule set_peer_ok [OF assms(1)]) (simp add: peer_ok_def)
  moreover have "wt_selfIndex t' = wt_selfIndex t" by (simp add: t' set_peer_def split: option.splits)
  ultimately show ?thesis using ok p(2,3) dial_ok [of t' i following url] by auto
qed

text \<open>Frames go to a peer only over a connection that is open and has answered the challenge.\<close>

lemma broadcast_connected:
  "transport_ok t \<Longrightarrow> distinct (map fst (wt_outbound t)) \<Longrightarrow> ws_broadcast frame t = map (\<lambda>i. ToSocket i frame) (connectedPeers t)"
proof -
  assume ok: "transport_ok t" and d: "distinct (map fst (wt_outbound t))"
  have "concat (map (\<lambda>i. ws_send i frame t) (map fst ps)) =
      map (\<lambda>i. ToSocket i frame) (map fst (filter (\<lambda>(i, p). ob_ready p \<and> ob_open p) ps))"
    if "set ps \<subseteq> set (wt_outbound t)" for ps
    using that
  proof (induction ps)
    case (Cons p ps)
    then have "map_of (wt_outbound t) (fst p) = Some (snd p)" "fst p \<noteq> wt_selfIndex t"
      using ok d by (auto simp: transport_ok_def map_of_eq_Some_iff)
    with Cons show ?case by (auto simp: ws_send_def usable_def)
  qed simp
  then show ?thesis by (simp add: ws_broadcast_def connectedPeers_def)
qed

section \<open>Honest peers\<close>

text \<open>A working signer's signature is 65 bytes, and its key is printed in lower case.\<close>

lemma recovered_shape:
  assumes "recoverSigner C digest (HexStr x) = Inr (Some pk)"
  shows "\<exists>raw. hexToBytes x = Inr raw \<and> length raw = 65 \<and> recoverSigner C digest (HexStr (bytesToHex raw)) = Inr (Some pk) \<and>
    toLowerCase pk = pk \<and> pk \<noteq> []"
proof -
  from assms obtain raw where raw: "hexToBytes x = Inr raw" "length raw = 65"
    by (auto simp: recoverSigner_def SIGNATURE_LEN_def ebind_eq_Inr split: if_splits)
  with assms have "recoverSigner C digest (HexStr (bytesToHex raw)) = Inr (Some pk)" by (simp add: recoverSigner_def)
  moreover from assms obtain bs where "pk = bytesToHex bs"
    by (cases "toBytes digest") (auto simp: recoverSigner_def ebind_eq_Inr split: if_splits option.splits)
  moreover have "bytesToHex bs \<noteq> []" for bs by (simp add: bytesToHex_def)
  ultimately show ?thesis using raw toLowerCase_bytesToHex by metis
qed

lemma honest_hello:
  assumes "hash32 C" "signer_ok C client" "at_index (pubkeys s) i = Some (ks_publicKey client)" "i < 256"
    and "hexToBytes serverKey = Inr key"
  obtains answer where "answerHello C challenge serverKey i (ks_sign client) = Inr answer"
    "checkHello C answer challenge serverKey s = Inr (Some i)"
proof -
  let ?d = "ckbHash C [DOMAIN_PEER_HELLO, challenge, key, out_uint 1 i]"
  have h: "helloDigest C challenge serverKey i = Inr (bytesToHex ?d)" using assms(5) by (simp add: helloDigest_def)
  from assms(1,2) obtain x where x: "ks_sign client (bytesToHex ?d) = Inr x"
    "recoverSigner C (Raw ?d) (HexStr x) = Inr (Some (ks_publicKey client))"
    unfolding signer_ok_def by (metis length_ckbHash)
  from recovered_shape [OF x(2)] obtain raw where raw: "hexToBytes x = Inr raw" "length raw = 65"
    "recoverSigner C (Raw ?d) (HexStr (bytesToHex raw)) = Inr (Some (ks_publicKey client))"
    "toLowerCase (ks_publicKey client) = ks_publicKey client" "ks_publicKey client \<noteq> []" by blast
  have i: "0 \<le> i" using assms(3) by (auto simp: at_index_def split: if_splits)
  have one: "out_uint 1 i = [word_of_int i]" using i assms(4) by (simp add: out_uint_def)
  have "answerHello C challenge serverKey i (ks_sign client) = Inr (out_uint 1 i @ raw)"
    using x(1) raw(1,2) by (simp add: answerHello_def h del: One_nat_def)
  moreover have "checkHello C (out_uint 1 i @ raw) challenge serverKey s = Inr (Some i)"
    using i assms(3,4) raw recoverSigner_raw [of "HexStr (bytesToHex ?d)" ?d C "HexStr (bytesToHex raw)"]
    by (simp add: checkHello_def one h uint_word_of_int del: One_nat_def)
  ultimately show thesis using that by blast
qed

text \<open>What an honest publisher sends after its answer reaches the handler unchanged, in order, under its index.\<close>

lemma honest_frames_arrive:
  assumes "hash32 C" "signer_ok C client" "at_index (pubkeys s) i = Some (ks_publicKey client)" "i < 256"
    and "hexToBytes serverKey = Inr key"
  shows "\<exists>answer c. answerHello C challenge serverKey i (ks_sign client) = Inr answer \<and>
    on_messages C serverKey s (accept_socket challenge) (answer # frames) = Inr (c, map (Handle i) frames)"
proof -
  from honest_hello [OF assms] obtain answer where "answerHello C challenge serverKey i (ks_sign client) = Inr answer"
    "checkHello C answer challenge serverKey s = Inr (Some i)" by blast
  then show ?thesis by (auto simp: connection_messages)
qed

section \<open>Properties\<close>

text \<open>Claim C35: who a frame comes from. Whatever is sent on a connection, a frame is handed on under an index only if
  the first message on that connection was 66 bytes with a signature, by the key the set has at that index, over the
  challenge of this very connection, this server's key and that index; then everything after it is handed on, in
  order, unchanged, under this index and no other.\<close>

theorem frames_authenticated:
  assumes "on_messages C publicKey s (accept_socket challenge) ms = Inr (c, acts)" "Handle i frame \<in> set acts"
  shows "\<exists>hello frames key digest. ms = hello # frames \<and> frame \<in> set frames \<and> acts = map (Handle i) frames \<and>
    length hello = 66 \<and> i = uint (hd hello) \<and> at_index (pubkeys s) i = Some key \<and>
    helloDigest C challenge publicKey i = Inr digest \<and>
    recoverSigner C (HexStr digest) (HexStr (bytesToHex (tl hello))) = Inr (Some (toLowerCase key))"
proof -
  from assms obtain m ms' where ms: "ms = m # ms'" by (cases ms) auto
  with assms(1) obtain sender where sender: "checkHello C m challenge publicKey s = Inr sender"
    by (auto simp: connection_messages ebind_eq_Inr)
  with assms ms have "sender = Some i" and acts: "acts = map (Handle i) ms'"
    by (auto simp: connection_messages split: option.splits)
  with sender have "length m = 66 \<and> i = uint (hd m) \<and> (\<exists>key digest. at_index (pubkeys s) i = Some key \<and>
      helloDigest C challenge publicKey i = Inr digest \<and>
      recoverSigner C (HexStr digest) (HexStr (bytesToHex (tl m))) = Inr (Some (toLowerCase key)))"
    by (auto simp: checkHello_def Let_def ebind_eq_Inr split: option.splits if_splits)
  with ms acts assms(2) show ?thesis by auto
qed

theorem frames_authenticated_witness:
  "\<exists>hello frames. [7, 8] \<in> set frames \<and> length hello = 66 \<and> uint (hd hello) = (0 :: int) \<and>
    on_messages demo_crypto (demo_key 2) (demo_set 1) (accept_socket (replicate 32 5)) (hello # frames) =
      Inr (\<lparr>in_challenge = replicate 32 5, in_from = Some 0\<rparr>, map (Handle 0) frames)"
proof -
  have key: "at_index (pubkeys (demo_set 1)) 0 = Some (ks_publicKey (demo_signer 1))"
    by (simp add: demo_set_def demo_signer_def at_index_def)
  have server: "hexToBytes (demo_key 2) = Inr (2 # 2 # replicate 31 0)" by (simp add: demo_key_def)
  from honest_frames_arrive [OF demo_hash32 demo_signer_ok key _ server, of "replicate 32 5" "[[7, 8]]"] obtain hello c where
    run: "on_messages demo_crypto (demo_key 2) (demo_set 1) (accept_socket (replicate 32 5)) [hello, [7, 8]] = Inr (c, [Handle 0 [7, 8]])"
    by auto
  then have "c = (accept_socket (replicate 32 5))\<lparr>in_from := Some 0\<rparr>"
    by (auto simp: connection_messages ebind_eq_Inr split: option.splits)
  then have "c = \<lparr>in_challenge = replicate 32 5, in_from = Some 0\<rparr>" by (simp add: accept_socket_def)
  with run frames_authenticated [OF run, of 0 "[7, 8]"] show ?thesis
    by (intro exI [of _ hello] exI [of _ "[[7, 8]]"]) auto
qed

end
