(* ===== verification/Recorder.thy ===== *)
theory Recorder
  imports Market_Data Sources Observation "HOL-Library.Sublist"
begin

text \<open>
  \<open>apps/publisher/src/recorder.ts\<close>: the tap that writes what the sources deliver into one file per hour. The file
  system and the gzip stream are the environment: each write is given what the directory holds, whether the streams
  could be created and how many bytes the stream then has queued. The text of a line is the record itself.

  Lemmas: whatever happens to the files, the market data behind the tap is what it would be without it; every event
  of an active recorder is written or counted as dropped; the cap deletes the oldest files and no more than it needs.
\<close>

section \<open>Hours\<close>

text \<open>\<open>new Date(ms).toISOString()\<close>: the proleptic Gregorian calendar, with a signed six-digit year outside 0 to 9999.\<close>

definition civil_date :: "int \<Rightarrow> int \<times> int \<times> int" where
  "civil_date days =
    (let z = days + 719468; era = z div 146097; doe = z mod 146097;
         yoe = (doe - doe div 1460 + doe div 36524 - doe div 146096) div 365;
         doy = doe - (365 * yoe + yoe div 4 - yoe div 100); mp = (5 * doy + 2) div 153;
         month = (if mp < 10 then mp + 3 else mp - 9)
     in (yoe + era * 400 + (if month \<le> 2 then 1 else 0), month, doy - (153 * mp + 2) div 5 + 1))"

definition pad_digits :: "nat \<Rightarrow> int \<Rightarrow> string" where
  "pad_digits n v = (let t = int_string v in replicate (n - length t) CHR ''0'' @ t)"

definition iso_year :: "int \<Rightarrow> string" where
  "iso_year y = (if 0 \<le> y \<and> y \<le> 9999 then pad_digits 4 y
    else (if y < 0 then ''-'' else ''+'') @ pad_digits 6 \<bar>y\<bar>)"

definition iso_hour :: "int \<Rightarrow> string" where
  "iso_hour ms = (let (y, m, d) = civil_date (ms div 86400000)
    in iso_year y @ ''-'' @ pad_digits 2 m @ ''-'' @ pad_digits 2 d @ ''T'' @ pad_digits 2 (ms div 3600000 mod 24))"

text \<open>The name of the hour: the first thirteen characters, without \<open>-\<close> and \<open>T\<close>. \<open>toISOString\<close> throws outside of its
  range; a time that is no number is replaced by the time of the clock.\<close>

definition hour_of :: "int \<Rightarrow> string result" where
  "hour_of ms = (if \<bar>ms\<bar> > 8640000000000000 then Inl (RangeError ''Invalid time value'')
    else Inr (filter (\<lambda>c. c \<noteq> CHR ''-'' \<and> c \<noteq> CHR ''T'') (take 13 (iso_hour ms))))"

definition recording_name :: "string \<Rightarrow> string" where
  "recording_name hour = ''rec-'' @ hour @ ''.ndjson.gz''"

text \<open>\<open>/^rec-\d{10}\.ndjson\.gz$/\<close>\<close>

definition is_recording :: "string \<Rightarrow> bool" where
  "is_recording f \<longleftrightarrow> length f = 24 \<and> take 4 f = ''rec-'' \<and> list_all is_digit (take 10 (drop 4 f)) \<and> drop 14 f = ''.ndjson.gz''"

section \<open>The cap\<close>

fun delete_until :: "int \<Rightarrow> int \<Rightarrow> (string \<times> int) list \<Rightarrow> (string \<times> int) list" where
  "delete_until maxBytes held [] = []"
| "delete_until maxBytes held (f # fs) = (if held \<le> maxBytes then [] else f # delete_until maxBytes (held - snd f) fs)"

text \<open>The files deleted, of a directory given as names and sizes.\<close>

definition enforceCap :: "int \<Rightarrow> (string \<times> int) list \<Rightarrow> (string \<times> int) list" where
  "enforceCap maxBytes dir =
    (let files = sort_key fst (filter (\<lambda>f. is_recording (fst f)) dir)
     in delete_until maxBytes (sum_list (map snd files)) files)"

section \<open>The recorder\<close>

definition HIGH_WATER_BYTES :: int where "HIGH_WATER_BYTES = 4 * 1024 ^ 2"
definition DEFAULT_RECORD_MAX_BYTES :: int where "DEFAULT_RECORD_MAX_BYTES = 2 * 1024 ^ 3"
definition DEPTH_REFUSED_BACKOFF_MS :: int where "DEPTH_REFUSED_BACKOFF_MS = 10 * 60000"

datatype recorded =
    Delivered delivery
  | TickRecord int int "ObservationEntry list"
  | EventRecord int string
  | DepthRecord int string string "(string \<times> string) list" "(string \<times> string) list"

fun recorded_ms :: "recorded \<Rightarrow> int" where
  "recorded_ms (Delivered d) = delivery_time d"
| "recorded_ms (TickRecord ms tickMs entries) = ms"
| "recorded_ms (EventRecord ms event) = ms"
| "recorded_ms (DepthRecord ms venue market bids asks) = ms"

record Recorder =
  rc_maxBytes :: int
  rc_hour :: string
  rc_gzip :: bool
  rc_blocked :: bool
  rc_dropped :: nat
  rc_failed :: bool
  rc_closed :: bool
  rc_depthBackoff :: "(string \<times> int) list"

definition new_recorder :: "int option \<Rightarrow> Recorder" where
  "new_recorder maxBytes = \<lparr>rc_maxBytes = (case maxBytes of None \<Rightarrow> DEFAULT_RECORD_MAX_BYTES | Some m \<Rightarrow> m), rc_hour = [],
    rc_gzip = False, rc_blocked = False, rc_dropped = 0, rc_failed = False, rc_closed = False, rc_depthBackoff = []\<rparr>"

definition rc_active :: "Recorder \<Rightarrow> bool" where
  "rc_active r \<longleftrightarrow> \<not> rc_failed r \<and> \<not> rc_closed r"

text \<open>What one write meets: the directory, whether the streams are created, and the bytes queued after it.\<close>

record disk =
  dk_dir :: "(string \<times> int) list result"
  dk_create :: "unit result"
  dk_queued :: "int result"

datatype rec_act = EndFile | DeleteFile string | OpenFile string | WriteLine recorded | FailedLog

text \<open>\<open>stream\<close>: the acts so far are kept when it throws. The result says whether there is a stream.\<close>

definition rec_stream :: "disk \<Rightarrow> int \<Rightarrow> Recorder \<Rightarrow> (Recorder \<times> rec_act list) \<times> bool result" where
  "rec_stream dk ms r =
    (case hour_of ms of
       Inl e \<Rightarrow> ((r, []), Inl e)
     | Inr hour \<Rightarrow>
         if hour = rc_hour r \<and> rc_gzip r then ((r, []), Inr True)
         else if hour < rc_hour r then ((r, []), Inr (rc_gzip r))
         else
           let ended = (if rc_gzip r then [EndFile] else []); r1 = r\<lparr>rc_hour := hour\<rparr> in
           case dk_dir dk of
             Inl e \<Rightarrow> ((r1, ended), Inl e)
           | Inr dir \<Rightarrow>
               let freed = ended @ map (\<lambda>f. DeleteFile (fst f)) (enforceCap (rc_maxBytes r) dir) in
               case dk_create dk of
                 Inl e \<Rightarrow> ((r1, freed), Inl e)
               | Inr _ \<Rightarrow> ((r1\<lparr>rc_gzip := True, rc_blocked := False\<rparr>, freed @ [OpenFile (recording_name hour)]), Inr True))"

definition rec_fail :: "Recorder \<times> rec_act list \<Rightarrow> Recorder \<times> rec_act list" where
  "rec_fail ra = (if rc_failed (fst ra) then ra else ((fst ra)\<lparr>rc_failed := True\<rparr>, snd ra @ [FailedLog]))"

definition rec_write :: "disk \<Rightarrow> recorded \<Rightarrow> Recorder \<Rightarrow> Recorder \<times> rec_act list" where
  "rec_write dk rec r =
    (if rc_failed r \<or> rc_closed r then (r, [])
     else
       case rec_stream dk (recorded_ms rec) r of
         (ra, Inl e) \<Rightarrow> rec_fail ra
       | ((r', acts), Inr streaming) \<Rightarrow>
           if \<not> streaming then (r', acts)
           else if rc_blocked r' then (r'\<lparr>rc_dropped := rc_dropped r' + 1\<rparr>, acts)
           else
             case dk_queued dk of
               Inl e \<Rightarrow> rec_fail (r', acts)
             | Inr queued \<Rightarrow> (r'\<lparr>rc_blocked := HIGH_WATER_BYTES < queued\<rparr>, acts @ [WriteLine rec]))"

text \<open>The stream has drained.\<close>

definition rec_drained :: "Recorder \<Rightarrow> Recorder" where
  "rec_drained r = r\<lparr>rc_blocked := False\<rparr>"

text \<open>The tap: the market data gets the event first.\<close>

definition rec_deliver :: "disk \<Rightarrow> delivery \<Rightarrow> MarketData \<times> Recorder \<Rightarrow> (MarketData \<times> Recorder) \<times> rec_act list" where
  "rec_deliver dk d = (\<lambda>(md, r). let (r', acts) = rec_write dk (Delivered d) r in ((deliver md d, r'), acts))"

definition rec_close :: "Recorder \<Rightarrow> Recorder \<times> rec_act list" where
  "rec_close r =
    (if rc_gzip r then (r\<lparr>rc_closed := True, rc_gzip := False, rc_hour := []\<rparr>, [EndFile]) else (r\<lparr>rc_closed := True\<rparr>, []))"

subsection \<open>Depth\<close>

definition DEPTH_VENUES :: "string list" where
  "DEPTH_VENUES = [''binance'', ''gate'', ''bitget'', ''kucoin'', ''mexc'']"

definition depth_url :: "string \<Rightarrow> string \<Rightarrow> string" where
  "depth_url venue m =
    (if venue = ''binance'' then ''https://api.binance.com/api/v3/depth?symbol='' @ m @ ''&limit=500''
     else if venue = ''gate'' then ''https://api.gateio.ws/api/v4/spot/order_book?currency_pair='' @ m @ ''&limit=200''
     else if venue = ''bitget'' then ''https://api.bitget.com/api/v2/spot/market/orderbook?symbol='' @ m @ ''&type=step0&limit=150''
     else if venue = ''kucoin'' then ''https://api.kucoin.com/api/v1/market/orderbook/level2_100?symbol='' @ m
     else ''https://api.mexc.com/api/v3/depth?symbol='' @ m @ ''&limit=500'')"

definition depth_due :: "Recorder \<Rightarrow> bool \<Rightarrow> int \<Rightarrow> string \<Rightarrow> string \<Rightarrow> bool" where
  "depth_due r backingOff now venue market \<longleftrightarrow> venue \<in> set DEPTH_VENUES \<and> \<not> rc_failed r \<and> \<not> rc_closed r \<and> \<not> backingOff \<and>
    \<not> (case map_of (rc_depthBackoff r) (venue @ '':'' @ market) of None \<Rightarrow> 0 | Some t \<Rightarrow> t) > now"

text \<open>What the request of a snapshot gives: the book, a body without one, or an error with its HTTP status.\<close>

datatype depth_reply = Book "(string \<times> string) list" "(string \<times> string) list" | NoBook | DepthFailed "int option"

definition snapshot_reply :: "disk \<Rightarrow> int \<Rightarrow> string \<Rightarrow> string \<Rightarrow> depth_reply \<Rightarrow> Recorder \<Rightarrow> Recorder \<times> rec_act list" where
  "snapshot_reply dk now venue market reply r =
    (case reply of
       Book bids asks \<Rightarrow> rec_write dk (DepthRecord now venue market bids asks) r
     | NoBook \<Rightarrow> (r, [])
     | DepthFailed status \<Rightarrow>
         (if status \<in> {Some 403, Some 429}
          then r\<lparr>rc_depthBackoff := AList.update (venue @ '':'' @ market) (now + DEPTH_REFUSED_BACKOFF_MS) (rc_depthBackoff r)\<rparr>
          else r, []))"

section \<open>What the recorder keeps\<close>

definition sizes :: "(string \<times> int) list \<Rightarrow> int" where
  "sizes files = sum_list (map snd files)"

text \<open>The files deleted come first; what is left is within the cap, and without the last deletion it was not.\<close>

lemma delete_until_exact:
  "\<exists>kept. files = delete_until maxBytes (sizes files) files @ kept \<and> (sizes kept \<le> maxBytes \<or> kept = []) \<and>
    (\<forall>ds d. delete_until maxBytes (sizes files) files = ds @ [d] \<longrightarrow> maxBytes < sizes (d # kept))"
proof (induction files)
  case (Cons f fs)
  show ?case
  proof (cases "sizes (f # fs) \<le> maxBytes")
    case False
    from Cons.IH obtain kept where IH: "fs = delete_until maxBytes (sizes fs) fs @ kept" "sizes kept \<le> maxBytes \<or> kept = []"
      "\<forall>ds d. delete_until maxBytes (sizes fs) fs = ds @ [d] \<longrightarrow> maxBytes < sizes (d # kept)" by blast
    have step: "delete_until maxBytes (sizes (f # fs)) (f # fs) = f # delete_until maxBytes (sizes fs) fs"
      using False by (simp add: sizes_def)
    have "maxBytes < sizes (d # kept)" if "f # delete_until maxBytes (sizes fs) fs = ds @ [d]" for ds d
    proof (cases ds)
      case Nil
      with that have "d = f" "delete_until maxBytes (sizes fs) fs = []" by auto
      with IH(1) False show ?thesis by simp
    next
      case (Cons x xs)
      with that have "delete_until maxBytes (sizes fs) fs = xs @ [d]" by simp
      with IH(3) show ?thesis by blast
    qed
    with IH step show ?thesis by (intro exI [of _ kept]) auto
  qed (simp add: sizes_def)
qed (simp add: sizes_def)

lemma cap_enforced:
  "\<exists>kept. sort_key fst (filter (\<lambda>f. is_recording (fst f)) dir) = enforceCap maxBytes dir @ kept \<and>
    (sizes kept \<le> maxBytes \<or> kept = []) \<and>
    (\<forall>ds d. enforceCap maxBytes dir = ds @ [d] \<longrightarrow> maxBytes < sizes (d # kept))"
  using delete_until_exact [of "sort_key fst (filter (\<lambda>f. is_recording (fst f)) dir)" maxBytes]
  by (simp add: enforceCap_def sizes_def Let_def)

lemma only_recordings_deleted: "f \<in> set (enforceCap maxBytes dir) \<Longrightarrow> f \<in> set dir \<and> is_recording (fst f)"
proof -
  assume f: "f \<in> set (enforceCap maxBytes dir)"
  obtain kept where "sort_key fst (filter (\<lambda>f. is_recording (fst f)) dir) = enforceCap maxBytes dir @ kept"
    using cap_enforced by blast
  then have "set (enforceCap maxBytes dir) \<subseteq> {f \<in> set dir. is_recording (fst f)}"
    by (metis set_sort set_filter set_append Un_upper1)
  with f show ?thesis by blast
qed

text \<open>While it is active, a recorder that has started an hour has a stream.\<close>

definition rec_inv :: "Recorder \<Rightarrow> bool" where
  "rec_inv r \<longleftrightarrow> (rc_active r \<longrightarrow> rc_gzip r \<or> rc_hour r = [])"

lemma rec_stream_open:
  assumes "rec_inv r" "rc_active r" "rec_stream dk ms r = ((r', acts), Inr streaming)"
  shows "streaming \<and> rc_gzip r' \<and> rc_dropped r' = rc_dropped r \<and> rc_failed r' = rc_failed r \<and> rc_closed r' = rc_closed r \<and>
    WriteLine x \<notin> set acts"
  using assms by (auto simp: rec_stream_def rec_inv_def Let_def split: sum.splits if_splits)

lemma rec_stream_keeps:
  assumes "rec_stream dk ms r = ((r', acts), res)"
  shows "rc_dropped r' = rc_dropped r \<and> rc_failed r' = rc_failed r \<and> rc_closed r' = rc_closed r"
  using assms by (auto simp: rec_stream_def Let_def split: sum.splits if_splits)

text \<open>The lines an act list writes.\<close>

fun lines_of :: "rec_act list \<Rightarrow> recorded list" where
  "lines_of [] = []"
| "lines_of (WriteLine x # acts) = x # lines_of acts"
| "lines_of (a # acts) = lines_of acts"

lemma lines_of_append [simp]: "lines_of (xs @ ys) = lines_of xs @ lines_of ys"
  by (induction xs rule: lines_of.induct) auto

lemma lines_of_none: "(\<And>x. WriteLine x \<notin> set acts) \<Longrightarrow> lines_of acts = []"
  by (induction acts rule: lines_of.induct) auto

text \<open>A write of an active recorder writes the event, counts it as dropped, or turns recording off.\<close>

lemma rec_write_accounts:
  assumes "rec_inv r" "rc_active r" "rec_write dk x r = (r', acts)"
  shows "rec_inv r' \<and> rc_closed r' = rc_closed r \<and>
    (rc_failed r' \<or>
     lines_of acts = [x] \<and> rc_dropped r' = rc_dropped r \<or>
     lines_of acts = [] \<and> rc_dropped r' = Suc (rc_dropped r))"
proof -
  obtain r1 a1 res where s: "rec_stream dk (recorded_ms x) r = ((r1, a1), res)" by (metis surj_pair)
  note keeps = rec_stream_keeps [OF s]
  show ?thesis
  proof (cases res)
    case (Inl e)
    with assms s keeps show ?thesis
      by (auto simp: rec_write_def rec_fail_def rec_inv_def rc_active_def split: if_splits)
  next
    case (Inr streaming)
    with rec_stream_open [OF assms(1,2), of dk "recorded_ms x" r1 a1 streaming] s
    have o: "streaming" "rc_gzip r1" "\<And>y. WriteLine y \<notin> set a1" by auto
    with lines_of_none have none: "lines_of a1 = []" by blast
    have "rec_write dk x r = (if rc_blocked r1 then (r1\<lparr>rc_dropped := rc_dropped r1 + 1\<rparr>, a1)
        else case dk_queued dk of Inl e \<Rightarrow> rec_fail (r1, a1)
          | Inr queued \<Rightarrow> (r1\<lparr>rc_blocked := HIGH_WATER_BYTES < queued\<rparr>, a1 @ [WriteLine x]))"
      using assms(2) s Inr o(1) by (simp add: rec_write_def rc_active_def)
    with assms(3) o(2) keeps none show ?thesis
      by (auto simp: rec_fail_def rec_inv_def split: if_splits sum.splits)
  qed
qed

text \<open>A run: events, each with what the disk does, and the drains in between.\<close>

datatype rec_step = Record disk recorded | Drained

fun rec_run :: "rec_step list \<Rightarrow> Recorder \<Rightarrow> Recorder \<times> rec_act list" where
  "rec_run [] r = (r, [])"
| "rec_run (Record dk x # steps) r =
    (let (r', acts) = rec_write dk x r; (r'', acts') = rec_run steps r' in (r'', acts @ acts'))"
| "rec_run (Drained # steps) r = rec_run steps (rec_drained r)"

fun events_of :: "rec_step list \<Rightarrow> recorded list" where
  "events_of [] = []"
| "events_of (Record dk x # steps) = x # events_of steps"
| "events_of (Drained # steps) = events_of steps"

lemma failed_stays: "rc_failed r \<Longrightarrow> rec_run steps r = (r', acts) \<Longrightarrow> rc_failed r'"
proof (induction steps arbitrary: r r' acts)
  case (Cons step steps)
  show ?case
  proof (cases step)
    case (Record dk x)
    obtain r2 a2 where run: "rec_run steps r = (r2, a2)" by (metis surj_pair)
    have "rec_write dk x r = (r, [])" using Cons.prems(1) by (simp add: rec_write_def)
    with Cons.prems(2) run have "r' = r2" by (simp add: Record)
    with Cons.IH [OF Cons.prems(1) run] show ?thesis by simp
  next
    case Drained
    with Cons.prems Cons.IH [of "rec_drained r" r' acts] show ?thesis by (simp add: rec_drained_def)
  qed
qed simp

lemma run_accounts:
  "rec_inv r \<Longrightarrow> rc_active r \<Longrightarrow> rec_run steps r = (r', acts) \<Longrightarrow> \<not> rc_failed r' \<Longrightarrow>
    subseq (lines_of acts) (events_of steps) \<and> length (lines_of acts) + rc_dropped r' = length (events_of steps) + rc_dropped r"
proof (induction steps arbitrary: r r' acts)
  case (Cons step steps)
  show ?case
  proof (cases step)
    case (Record dk x)
    obtain r1 a1 where w: "rec_write dk x r = (r1, a1)" by (metis surj_pair)
    obtain r2 a2 where run: "rec_run steps r1 = (r2, a2)" by (metis surj_pair)
    with Cons.prems(3) w have r': "r' = r2" "acts = a1 @ a2" by (simp_all add: Record)
    from rec_write_accounts [OF Cons.prems(1,2) w] have a: "rec_inv r1" "rc_closed r1 = rc_closed r"
      "rc_failed r1 \<or> lines_of a1 = [x] \<and> rc_dropped r1 = rc_dropped r \<or> lines_of a1 = [] \<and> rc_dropped r1 = Suc (rc_dropped r)"
      by auto
    have ok: "\<not> rc_failed r1" using failed_stays [OF _ run] Cons.prems(4) r'(1) by blast
    with a(2) Cons.prems(2) have "rc_active r1" by (simp add: rc_active_def)
    from Cons.IH [OF a(1) this run] Cons.prems(4) r'(1)
    have IH: "subseq (lines_of a2) (events_of steps)" "length (lines_of a2) + rc_dropped r2 = length (events_of steps) + rc_dropped r1"
      by auto
    from a(3) ok consider "lines_of a1 = [x]" "rc_dropped r1 = rc_dropped r" | "lines_of a1 = []" "rc_dropped r1 = Suc (rc_dropped r)"
      by blast
    then show ?thesis by cases (use IH in \<open>auto simp: Record r'\<close>)
  next
    case Drained
    with Cons.prems Cons.IH [of "rec_drained r" r' acts] show ?thesis by (simp add: rec_drained_def rec_inv_def rc_active_def)
  qed
qed simp

text \<open>The market data behind the tap.\<close>

lemma tap_transparent:
  "fst (foldl (\<lambda>s (dk, d). fst (rec_deliver dk d s)) (md, r) ds) = foldl deliver md (map snd ds)"
proof (induction ds arbitrary: md r)
  case (Cons x xs)
  then show ?case by (cases x) (auto simp: rec_deliver_def split: prod.splits)
qed simp

section \<open>Properties\<close>

text \<open>Claim C36: nothing the recorder is given disappears unseen. From its start, for any events, disks and drains, as long
  as recording has not been turned off, the lines written are events in their order, and lines and dropped events
  together are as many as the events.\<close>

theorem recording_accounted:
  assumes "rec_run steps (new_recorder maxBytes) = (r, acts)" "\<not> rc_failed r"
  shows "subseq (lines_of acts) (events_of steps) \<and> length (lines_of acts) + rc_dropped r = length (events_of steps)"
  using run_accounts [OF _ _ assms] by (simp add: rec_inv_def rc_active_def new_recorder_def)

definition demo_disk :: "int \<Rightarrow> disk" where
  "demo_disk queued = \<lparr>dk_dir = Inr [], dk_create = Inr (), dk_queued = Inr queued\<rparr>"

definition demo_alive :: "int \<Rightarrow> recorded" where
  "demo_alive t = Delivered (Alive ''gate'' t)"

text \<open>The queue is over its bound after the first event, so the second is dropped; then it drains.\<close>

theorem recording_accounted_witness:
  "\<exists>r acts. rec_run [Record (demo_disk 5000000) (demo_alive 1), Record (demo_disk 0) (demo_alive 2), Drained,
      Record (demo_disk 0) (demo_alive 3)] (new_recorder None) = (r, acts) \<and>
    lines_of acts = [demo_alive 1, demo_alive 3] \<and> rc_dropped r = 1 \<and> length (lines_of acts) + rc_dropped r = 3"
proof -
  let ?steps = "[Record (demo_disk 5000000) (demo_alive 1), Record (demo_disk 0) (demo_alive 2), Drained,
      Record (demo_disk 0) (demo_alive 3)]"
  obtain r acts where run: "rec_run ?steps (new_recorder None) = (r, acts)" by (metis surj_pair)
  have hour: "hour_of 1 = Inr ''1970010100''" "hour_of 2 = Inr ''1970010100''" "hour_of 3 = Inr ''1970010100''" by code_simp+
  have "(''1970010100'' :: string) > []" by simp
  with run hour have facts: "\<not> rc_failed r" "lines_of acts = [demo_alive 1, demo_alive 3]" "rc_dropped r = 1"
    by (auto simp: rec_write_def rec_stream_def new_recorder_def demo_disk_def demo_alive_def enforceCap_def rec_drained_def
        HIGH_WATER_BYTES_def Let_def)
  with run recording_accounted [OF run] show ?thesis by auto
qed

end
