(* ===== verification/Deploy_Actions.thy ===== *)
theory Deploy_Actions
  imports Fees Committee_Tx Record_Store Governance
begin

text \<open>
  \<open>apps/deploy/src/actions.ts\<close>, with the checks of \<open>main.ts\<close> and \<open>context.ts\<close>: the actions on a deployment. An action
  runs on the record file and the transactions sent so far, and ends with a result or an error, keeping what it did
  until then. The environment holds the binaries, the checksums, the config, the clock and the chain, whose cells
  depend on what was sent. Building the contracts and writing the SDK's presets are left out.

  Lemmas: a dry run changes nothing; what a finished action has sent is in the history of the record, which only
  grows; a transaction whose confirmation is not seen is sent but not recorded.
\<close>

section \<open>The environment\<close>

record CommitteeIntent =
  it_pubkeys :: "hex list"
  it_networkId :: "hex option"
  it_minRotationIntervalS :: "int option"

record 'tx deploy_env =
  dx_network :: string
  dx_broadcast :: bool
  dx_feeRate :: "int option"
  dx_committees :: "(string \<times> CommitteeIntent) list"
  dx_binary :: "ContractName \<Rightarrow> bytes result"
  dx_checksums :: "(string \<times> hex) list"
  dx_hashCkb :: "bytes \<Rightarrow> hex"
  dx_now :: string
  dx_signer :: "'tx list \<Rightarrow> 'tx Signer"
  dx_live :: "'tx list \<Rightarrow> OutPoint \<Rightarrow> bool"
  dx_genesis :: "hex result"
  dx_submit :: "'tx \<Rightarrow> hex result"
  dx_confirm :: "hex \<Rightarrow> unit result"

record 'tx deploy_state =
  ds_record :: record_file
  ds_sent :: "'tx list"

type_synonym ('tx, 'a) action = "'tx deploy_state \<Rightarrow> 'tx deploy_state \<times> 'a result"

definition deploy_bind :: "('tx, 'a) action \<Rightarrow> ('a \<Rightarrow> ('tx, 'b) action) \<Rightarrow> ('tx, 'b) action" where
  "deploy_bind m f s = (case m s of (s', Inl e) \<Rightarrow> (s', Inl e) | (s', Inr x) \<Rightarrow> f x s')"

definition act_try :: "('tx deploy_state \<Rightarrow> 'a result) \<Rightarrow> ('tx, 'a) action" where
  "act_try f s = (s, f s)"

definition act_ret :: "'a \<Rightarrow> ('tx, 'a) action" where
  "act_ret x s = (s, Inr x)"

text \<open>One change of the record file; a change that throws leaves it.\<close>

definition act_change :: "'tx deploy_env \<Rightarrow> (DeploymentRecord \<Rightarrow> ('a \<times> DeploymentRecord) result) \<Rightarrow> ('tx, 'a) action" where
  "act_change X change s = (case update_record (dx_network X) change (ds_record s) of
      Inl e \<Rightarrow> (s, Inl e)
    | Inr (x, f) \<Rightarrow> (s\<lparr>ds_record := f\<rparr>, Inr x))"

definition fee_options :: "'tx deploy_env \<Rightarrow> CompleteFeeOptions" where
  "fee_options X = \<lparr>fo_feeRate = dx_feeRate X, fo_changeLock = None, fo_leftoverToFee = False\<rparr>"

text \<open>\<open>send\<close>: complete the fee; on a dry run that is all.\<close>

definition send_tx :: "'tx ccc \<Rightarrow> 'tx deploy_env \<Rightarrow> 'tx \<Rightarrow> ('tx, hex option) action" where
  "send_tx K X tx s = (case completeFee K tx (dx_signer X (ds_sent s)) (fee_options X) of
      Insufficient t fee n shortfall \<Rightarrow> (s, Inl (Failure ''the deployer needs more''))
    | FeeOk t fee n changed \<Rightarrow>
        if \<not> dx_broadcast X then (s, Inr None)
        else (case dx_submit X t of
            Inl e \<Rightarrow> (s, Inl e)
          | Inr hash \<Rightarrow>
              let s' = s\<lparr>ds_sent := ds_sent s @ [t]\<rparr> in
              (case dx_confirm X hash of Inl e \<Rightarrow> (s', Inl e) | Inr _ \<Rightarrow> (s', Inr (Some hash)))))"

section \<open>Code\<close>

definition BINARY_NAMES :: "ContractName \<Rightarrow> string" where
  "BINARY_NAMES c = (case c of PriceFeedType \<Rightarrow> ''price_feed_type'' | PublisherSetType \<Rightarrow> ''publisher_set_type''
    | AlwaysSuccessLock \<Rightarrow> ''always_success_lock'')"

definition canonicalHash :: "'tx deploy_env \<Rightarrow> ContractName \<Rightarrow> hex option" where
  "canonicalHash X c = map_of (rev (dx_checksums X)) (BINARY_NAMES c)"

text \<open>Whether the current version is this code and its cell is live; an entry without its current version throws.\<close>

definition code_unchanged :: "'tx deploy_env \<Rightarrow> ContractName \<Rightarrow> hex \<Rightarrow> 'tx deploy_state \<Rightarrow> bool result" where
  "code_unchanged X c codeHash s =
    ebind (current_code (dx_network X) (ds_record s) c) (\<lambda>current. case current of
      None \<Rightarrow> Inr False
    | Some (version, None) \<Rightarrow> Inl (TypeError ''undefined'')
    | Some (version, Some code) \<Rightarrow>
        Inr (cv_codeHash code = codeHash \<and> dx_live X (ds_sent s) (dep_outPoint (cv_cellDep code))))"

definition code_record :: "'tx deploy_env \<Rightarrow> hex \<Rightarrow> hex \<Rightarrow> bytes \<Rightarrow> int \<Rightarrow> CodeVersionRecord" where
  "code_record X codeHash txHash binary capacity =
    \<lparr>cv_codeHash = codeHash, cv_hashType = ''data2'',
     cv_cellDep = \<lparr>dep_outPoint = \<lparr>op_txHash = txHash, op_index = 0\<rparr>, dep_depType = ''code''\<rparr>,
     cv_bytes = int (length binary), cv_capacity = int_string capacity, cv_deployedAt = dx_now X, cv_retired = None\<rparr>"

definition deploy_contract :: "'tx ccc \<Rightarrow> 'tx deploy_env \<Rightarrow> ContractName \<Rightarrow> ('tx, unit) action" where
  "deploy_contract K X c =
    deploy_bind (act_try (\<lambda>s. dx_binary X c)) (\<lambda>binary.
    let codeHash = dx_hashCkb X binary in
    if dx_network X \<noteq> ''devnet'' \<and> canonicalHash X c \<noteq> Some codeHash
    then act_try (\<lambda>s. Inl (Failure ''binary is not the reproducible build''))
    else
      deploy_bind (act_try (code_unchanged X c codeHash)) (\<lambda>unchanged.
      if unchanged then act_ret ()
      else
        let dataHex = bytesToHex binary in
        deploy_bind (act_try (\<lambda>s. Inr (sg_script (dx_signer X (ds_sent s))))) (\<lambda>lock.
        let capacity = occupiedCapacity K lock None dataHex;
            tx = lib_addOutput K (lib_empty K) \<lparr>co_capacity = capacity, co_lock = lock, co_type = None\<rparr> dataHex in
        deploy_bind (send_tx K X tx) (\<lambda>sent. case sent of
          None \<Rightarrow> act_ret ()
        | Some txHash \<Rightarrow>
            deploy_bind (act_change X (appendCodeVersion c (code_record X codeHash txHash binary capacity) txHash)) (\<lambda>version.
            act_ret ())))))"

fun deploy_contracts :: "'tx ccc \<Rightarrow> 'tx deploy_env \<Rightarrow> ContractName list \<Rightarrow> ('tx, unit) action" where
  "deploy_contracts K X [] = act_ret ()"
| "deploy_contracts K X (c # cs) = deploy_bind (deploy_contract K X c) (\<lambda>_. deploy_contracts K X cs)"

definition deployCode :: "'tx ccc \<Rightarrow> 'tx deploy_env \<Rightarrow> ('tx, unit) action" where
  "deployCode K X = deploy_contracts K X CONTRACTS"

text \<open>The committees of the record that run on a version; only those of \<open>publisherSetType\<close> are looked for.\<close>

definition code_users :: "ContractName \<Rightarrow> int \<Rightarrow> DeploymentRecord \<Rightarrow> string list" where
  "code_users contract version r =
    (if contract = PublisherSetType then map fst (filter (\<lambda>(n, c). cm_codeVersion c = version) (dr_committees r)) else [])"

definition retirable :: "'tx deploy_env \<Rightarrow> ContractName \<Rightarrow> int \<Rightarrow> bool \<Rightarrow> 'tx deploy_state \<Rightarrow> CodeVersionRecord result" where
  "retirable X contract version allowCurrent s =
    ebind (read_record (dx_network X) (ds_record s)) (\<lambda>r.
    case Option.bind (dr_contracts r contract) (\<lambda>e. map_option (\<lambda>code. (e, code)) (map_of (cn_versions e) version)) of
      None \<Rightarrow> Inl (Failure ''version is not in the record'')
    | Some (e, code) \<Rightarrow>
        if cv_retired code \<noteq> None then Inl (Failure ''version is already retired'')
        else if cn_current e = version \<and> \<not> allowCurrent then Inl (Failure ''version is current; deploy a newer version first'')
        else if code_users contract version r \<noteq> [] then Inl (Failure ''committees use this version; retire them first'')
        else if \<not> dx_live X (ds_sent s) (dep_outPoint (cv_cellDep code)) then Inl (Failure ''code cell is not live'')
        else Inr code)"

definition retire_code :: "'tx ccc \<Rightarrow> 'tx deploy_env \<Rightarrow> ContractName \<Rightarrow> int \<Rightarrow> bool \<Rightarrow> ('tx, unit) action" where
  "retire_code K X contract version allowCurrent =
    deploy_bind (act_try (retirable X contract version allowCurrent)) (\<lambda>code.
    let tx = lib_addInput K (lib_empty K) \<lparr>ci_previousOutput = dep_outPoint (cv_cellDep code), ci_since = 0\<rparr> in
    deploy_bind (send_tx K X tx) (\<lambda>sent. case sent of
      None \<Rightarrow> act_ret ()
    | Some txHash \<Rightarrow> act_change X (retireCode contract version txHash (dx_now X) allowCurrent)))"

section \<open>Committees\<close>

definition intended_committee :: "CommitteeIntent \<Rightarrow> hex \<Rightarrow> PublisherSetData" where
  "intended_committee intent networkId' =
    \<lparr>networkId = networkId', governanceNonce = 0, governanceFlags = 0,
     minRotationIntervalS = (case it_minRotationIntervalS intent of None \<Rightarrow> DEFAULT_MIN_ROTATION_INTERVAL_S | Some n \<Rightarrow> n),
     currentSet = \<lparr>setIndex = 0, pubkeys = sort (js_set (map toLowerCase (it_pubkeys intent)))\<rparr>, previousOf = None\<rparr>"

text \<open>The checks before the transaction, and the transaction with its type script and hash.\<close>

definition committee_tx :: "crypto \<Rightarrow> 'tx ccc \<Rightarrow> 'tx deploy_env \<Rightarrow> string \<Rightarrow> 'tx deploy_state \<Rightarrow> (nat \<times> 'tx \<times> Script \<times> hex) result" where
  "committee_tx C K X name s = (case map_of (dx_committees X) name of
      None \<Rightarrow> Inl (Failure ''no such committee in the config'')
    | Some intent \<Rightarrow>
        ebind (read_record (dx_network X) (ds_record s)) (\<lambda>r.
        if map_of (dr_committees r) name \<noteq> None then Inl (Failure ''committee already exists'')
        else
          ebind (record_deployment (dx_network X) (ds_record s)) (\<lambda>d.
          ebind (case it_networkId intent of Some n \<Rightarrow> Inr n | None \<Rightarrow> dx_genesis X) (\<lambda>networkId'.
          let data = intended_committee intent networkId' in
          ebind (isValidPublisherSetData data) (\<lambda>ok.
          if \<not> ok then Inl (Failure ''needs 1 to 9 distinct compressed public keys and a positive minRotationIntervalS'')
          else
            ebind (bootstrapCommittee C K (dx_signer X (ds_sent s)) d data None) (\<lambda>(tx, typeScript, typeHash).
            Inr (length (pubkeys (currentSet data)), tx, typeScript, typeHash)))))))"

definition committee_record :: "'tx deploy_env \<Rightarrow> nat \<Rightarrow> Script \<Rightarrow> hex \<Rightarrow> int \<Rightarrow> hex \<Rightarrow> CommitteeRecord" where
  "committee_record X publishers typeScript typeHash codeVersion txHash =
    \<lparr>cm_typeScript = typeScript, cm_typeHash = typeHash, cm_codeVersion = codeVersion, cm_createdTx = txHash,
     cm_createdAt = dx_now X, cm_publishers = int publishers, cm_rotations = []\<rparr>"

definition deployCommittee :: "crypto \<Rightarrow> 'tx ccc \<Rightarrow> 'tx deploy_env \<Rightarrow> string \<Rightarrow> ('tx, unit) action" where
  "deployCommittee C K X name =
    deploy_bind (act_try (committee_tx C K X name)) (\<lambda>(publishers, tx, typeScript, typeHash).
    deploy_bind (send_tx K X tx) (\<lambda>sent. case sent of
      None \<Rightarrow> act_ret ()
    | Some txHash \<Rightarrow>
        deploy_bind (act_try (\<lambda>s. current_code (dx_network X) (ds_record s) PublisherSetType)) (\<lambda>current. case current of
          None \<Rightarrow> act_try (\<lambda>s. Inl (TypeError ''undefined''))
        | Some (version, _) \<Rightarrow> act_change X (addCommittee name (committee_record X publishers typeScript typeHash version txHash)))))"

definition retire_committee :: "'tx deploy_env \<Rightarrow> string \<Rightarrow> string \<Rightarrow> ('tx, unit) action" where
  "retire_committee X name reason =
    deploy_bind (act_try (\<lambda>s. ebind (read_record (dx_network X) (ds_record s)) (\<lambda>r.
      if map_of (dr_committees r) name = None then Inl (Failure ''unknown committee'') else Inr ()))) (\<lambda>_.
    if \<not> dx_broadcast X then act_ret () else act_change X (retireCommittee name reason (dx_now X)))"

text \<open>The files of an operation are their contents; \<open>popSigs\<close> is absent without \<open>--pop\<close>. \<open>OPERATIONS\<close> is the same
  table as the publisher's.\<close>

definition governed_tx :: "'tx ccc \<Rightarrow> 'tx deploy_env \<Rightarrow> string \<Rightarrow> string \<Rightarrow> string \<Rightarrow> IndexedSignature list \<Rightarrow>
    IndexedSignature list option \<Rightarrow> 'tx deploy_state \<Rightarrow> (int \<times> PublisherSetData \<times> 'tx) result" where
  "governed_tx K X name opName nextText auth popSigs s = (case map_of OPERATIONS opName of
      None \<Rightarrow> Inl (Failure ''--op must be one of the operations'')
    | Some operation \<Rightarrow>
        ebind (record_deployment (dx_network X) (ds_record s)) (\<lambda>d.
        case map_of (dp_committees d) name of
          None \<Rightarrow> Inl (Failure ''unknown committee'')
        | Some committee \<Rightarrow>
            ebind (decodePublisherSetData (HexStr (trim nextText))) (\<lambda>following.
            if needsProofOfPossession operation \<and> popSigs = None then Inl (Failure ''requires --pop'')
            else
              ebind (toSignatureBundle auth) (\<lambda>authorization.
              ebind (if needsProofOfPossession operation then ebind (toSignatureBundle (the popSigs)) (\<lambda>b. Inr (Some b)) else Inr None) (\<lambda>pop.
              ebind (governCommittee K (sg_client (dx_signer X (ds_sent s))) d (cm_typeScript committee) operation following authorization pop)
                (\<lambda>tx. Inr (operation, following, tx)))))))"

definition governed_detail :: "PublisherSetData \<Rightarrow> (string \<times> string) list" where
  "governed_detail following =
    [(''setIndex'', int_string (setIndex (currentSet following))),
     (''paused'', if js_and (governanceFlags following) 2 \<noteq> 0 then ''true'' else ''false''),
     (''previous'', case previousOf following of None \<Rightarrow> ''null'' | Some p \<Rightarrow> int_string (setIndex (previousSet p)))]"

definition govern :: "'tx ccc \<Rightarrow> 'tx deploy_env \<Rightarrow> string \<Rightarrow> string \<Rightarrow> string \<Rightarrow> IndexedSignature list \<Rightarrow>
    IndexedSignature list option \<Rightarrow> ('tx, unit) action" where
  "govern K X name opName nextText auth popSigs =
    deploy_bind (act_try (governed_tx K X name opName nextText auth popSigs)) (\<lambda>(operation, following, tx).
    deploy_bind (send_tx K X tx) (\<lambda>sent. case sent of
      None \<Rightarrow> act_ret ()
    | Some txHash \<Rightarrow>
        deploy_bind (if needsProofOfPossession operation
          then act_change X (addRotation name \<lparr>ro_setIndex = setIndex (currentSet following),
            ro_publishers = int (length (pubkeys (currentSet following))), ro_txHash = txHash, ro_at = dx_now X\<rparr>)
          else act_ret ()) (\<lambda>_.
        act_change X (addGovernance name opName txHash (dx_now X) (governed_detail following)))))"

section \<open>The command line\<close>

datatype deploy_action =
    DeployCodeAction
  | DeployCommitteeAction string
  | GovernAction string string string "IndexedSignature list" "IndexedSignature list option"
  | RetireCommitteeAction string string
  | RetireCodeAction ContractName int bool

fun run_action :: "crypto \<Rightarrow> 'tx ccc \<Rightarrow> 'tx deploy_env \<Rightarrow> deploy_action \<Rightarrow> ('tx, unit) action" where
  "run_action C K X DeployCodeAction = deployCode K X"
| "run_action C K X (DeployCommitteeAction name) = deployCommittee C K X name"
| "run_action C K X (GovernAction name opName nextText auth popSigs) = govern K X name opName nextText auth popSigs"
| "run_action C K X (RetireCommitteeAction name reason) = retire_committee X name reason"
| "run_action C K X (RetireCodeAction contract version allowCurrent) = retire_code K X contract version allowCurrent"

text \<open>\<open>loadConfig\<close> and \<open>deployerKey\<close>, of the config file's network and of the key given or read.\<close>

definition check_network :: "string \<Rightarrow> string \<Rightarrow> unit result" where
  "check_network network configured =
    (if network \<notin> {''devnet'', ''testnet'', ''mainnet''} then Inl (Failure ''unknown network'')
     else if configured \<noteq> network then Inl (Failure ''the config is for another network'') else Inr ())"

definition deployerKey :: "string option \<Rightarrow> string option \<Rightarrow> hex result" where
  "deployerKey inline fileText =
    (let key = (case inline of Some k \<Rightarrow> Some k | None \<Rightarrow> map_option trim fileText) in
     case key of
       None \<Rightarrow> Inl (Failure ''set the deployer key'')
     | Some k \<Rightarrow> if length k = 66 \<and> take 2 k = ''0x'' \<and> list_all (\<lambda>c. hex_value c \<noteq> None) (drop 2 k) then Inr k
         else Inl (Failure ''set the deployer key''))"

definition broadcasting :: "bool \<Rightarrow> string option \<Rightarrow> bool" where
  "broadcasting flag env \<longleftrightarrow> flag \<or> env = Some ''true''"

section \<open>Dry runs\<close>

definition inert :: "('tx, 'a) action \<Rightarrow> bool" where
  "inert m \<longleftrightarrow> (\<forall>s. fst (m s) = s)"

lemma inert_try [simp]: "inert (act_try f)"
  by (simp add: inert_def act_try_def)

lemma inert_ret [simp]: "inert (act_ret x)"
  by (simp add: inert_def act_ret_def)

lemma inert_bind: "inert m \<Longrightarrow> (\<And>x. (\<exists>s. snd (m s) = Inr x) \<Longrightarrow> inert (f x)) \<Longrightarrow> inert (deploy_bind m f)"
  unfolding inert_def deploy_bind_def by (smt (verit) fst_conv snd_conv prod.collapse sum.case_eq_if case_prod_beta sum.collapse)

text \<open>On a dry run nothing is sent, so no continuation gets a hash.\<close>

lemma dry_send: "\<not> dx_broadcast X \<Longrightarrow> fst (send_tx K X tx s) = s \<and> snd (send_tx K X tx s) \<noteq> Inr (Some h)"
  by (simp add: send_tx_def split: CompleteFeeResult.splits)

lemma inert_send: "\<not> dx_broadcast X \<Longrightarrow> inert (f None) \<Longrightarrow> inert (deploy_bind (send_tx K X tx) f)"
proof (rule inert_bind)
  assume dry: "\<not> dx_broadcast X" and none: "inert (f None)"
  show "inert (send_tx K X tx)" using dry_send [OF dry] by (simp add: inert_def)
  show "inert (f x)" if "\<exists>s. snd (send_tx K X tx s) = Inr x" for x
    using that dry_send [OF dry] none by (cases x) auto
qed

lemma dry_run:
  assumes "\<not> dx_broadcast X"
  shows "inert (run_action C K X a)"
proof -
  have "inert (deploy_contract K X c)" for c
    unfolding deploy_contract_def Let_def using assms
    by (intro inert_bind inert_try) (auto intro!: inert_bind inert_send)
  then have "inert (deploy_contracts K X cs)" for cs by (induction cs) (auto intro!: inert_bind)
  then show ?thesis
    using assms
    by (cases a) (auto simp: deployCode_def deployCommittee_def govern_def retire_committee_def retire_code_def Let_def
        intro!: inert_bind inert_send)
qed

section \<open>What is sent is recorded\<close>

definition held :: "'tx deploy_env \<Rightarrow> 'tx deploy_state \<Rightarrow> DeploymentRecord" where
  "held X s = contents (dx_network X) (ds_record s)"

definition state_ok :: "'tx deploy_env \<Rightarrow> 'tx deploy_state \<Rightarrow> bool" where
  "state_ok X s \<longleftrightarrow> record_ok (dx_network X) (held X s) \<and> readable (held X s)"

definition has_hash :: "DeploymentRecord \<Rightarrow> hex \<Rightarrow> bool" where
  "has_hash r h \<longleftrightarrow> h \<in> hi_txHash ` set (dr_history r)"

definition goes_on :: "'tx deploy_env \<Rightarrow> 'tx deploy_state \<Rightarrow> 'tx deploy_state \<Rightarrow> bool" where
  "goes_on X s s' \<longleftrightarrow> state_ok X s' \<and> grows_to (held X s) (held X s') \<and>
    (\<exists>ts. ds_sent s' = ds_sent s @ ts \<and> (\<forall>t \<in> set ts. \<exists>h. dx_submit X t = Inr h \<and> has_hash (held X s') h))"

definition recording :: "'tx deploy_env \<Rightarrow> ('tx, 'a) action \<Rightarrow> bool" where
  "recording X m \<longleftrightarrow> (\<forall>s s' x. state_ok X s \<longrightarrow> m s = (s', Inr x) \<longrightarrow> goes_on X s s')"

lemma has_hash_grows: "grows_to r r' \<Longrightarrow> has_hash r h \<Longrightarrow> has_hash r' h"
  by (auto simp: grows_to_def has_hash_def dest: set_mono_prefix)

lemma goes_on_refl: "state_ok X s \<Longrightarrow> goes_on X s s"
  by (simp add: goes_on_def grows_to_refl)

lemma goes_on_trans: "goes_on X s s' \<Longrightarrow> goes_on X s' s'' \<Longrightarrow> goes_on X s s''"
proof -
  assume a: "goes_on X s s'" and b: "goes_on X s' s''"
  from a obtain ts where ts: "ds_sent s' = ds_sent s @ ts" "\<forall>t \<in> set ts. \<exists>h. dx_submit X t = Inr h \<and> has_hash (held X s') h"
    and g: "grows_to (held X s) (held X s')" unfolding goes_on_def by blast
  from b obtain us where us: "ds_sent s'' = ds_sent s' @ us" "\<forall>t \<in> set us. \<exists>h. dx_submit X t = Inr h \<and> has_hash (held X s'') h"
    and g': "grows_to (held X s') (held X s'')" "state_ok X s''" unfolding goes_on_def by blast
  have "\<forall>t \<in> set (ts @ us). \<exists>h. dx_submit X t = Inr h \<and> has_hash (held X s'') h"
    using ts(2) us(2) has_hash_grows [OF g'(1)] by (metis Un_iff set_append)
  then show ?thesis using ts(1) us(1) g g' grows_to_trans unfolding goes_on_def by (metis append.assoc)
qed

lemma deploy_bind_Inr: "deploy_bind m f s = (s', Inr y) \<longleftrightarrow> (\<exists>s1 x. m s = (s1, Inr x) \<and> f x s1 = (s', Inr y))"
  by (auto simp: deploy_bind_def split: prod.splits sum.splits)

lemma recording_try [simp]: "recording X (act_try f)"
  by (simp add: recording_def act_try_def goes_on_refl)

lemma recording_ret [simp]: "recording X (act_ret x)"
  by (simp add: recording_def act_ret_def goes_on_refl)

lemma recording_bind: "recording X m \<Longrightarrow> (\<And>x. recording X (f x)) \<Longrightarrow> recording X (deploy_bind m f)"
  unfolding recording_def deploy_bind_Inr by (meson goes_on_def goes_on_trans)

text \<open>A change of the record that succeeds, given as one of the record's operations.\<close>

lemma change_follows:
  assumes "state_ok X s" "act_change X change s = (s', Inr x)" and op: "\<And>r. forget (change r) = change_of operation r"
  shows "goes_on X s s' \<and> ds_sent s' = ds_sent s \<and> change (held X s) = Inr (x, held X s')"
proof -
  let ?n = "dx_network X"
  from assms(2) obtain f where u: "update_record ?n change (ds_record s) = Inr (x, f)" "s' = s\<lparr>ds_record := f\<rparr>"
    by (auto simp: act_change_def split: sum.splits)
  have read: "read_record ?n (ds_record s) = Inr (held X s)"
    using assms(1) by (auto simp: state_ok_def held_def read_record_def contents_def record_ok_def split: option.splits)
  from u(1) read obtain r' where c: "change (held X s) = Inr (x, r')" "f = Some r'"
    by (auto simp: update_record_def ebind_eq_Inr)
  have "update_record ?n (change_of operation) (ds_record s) = Inr ((), f)"
    using u(1) read c unfolding op [symmetric] by (auto simp: update_record_def ebind_eq_Inr forget_def)
  then have "record_step ?n (ds_record s) operation = f" by (simp add: record_step_def)
  with step_ok [of ?n "ds_record s" operation] assms(1) u(2) have "goes_on X s s'"
    by (simp add: goes_on_def state_ok_def held_def)
  with u(2) c show ?thesis by (simp add: held_def contents_def)
qed

lemma forget_unit [simp]: "forget (y :: (unit \<times> 'b) result) = y"
  by (cases y) (auto simp: forget_def)

lemma recording_change: "(\<And>r. forget (change r) = change_of operation r) \<Longrightarrow> recording X (act_change X change)"
  by (metis recording_def change_follows)

text \<open>A sent transaction is recorded when what follows puts its hash into the history.\<close>

lemma recording_send:
  assumes "recording X (f None)" and rec: "\<And>h. recording X (f (Some h))"
    and hash: "\<And>h s s' x. state_ok X s \<Longrightarrow> f (Some h) s = (s', Inr x) \<Longrightarrow> has_hash (held X s') h"
  shows "recording X (deploy_bind (send_tx K X tx) f)"
  unfolding recording_def
proof (intro allI impI)
  fix s s' x assume ok: "state_ok X s" and run: "deploy_bind (send_tx K X tx) f s = (s', Inr x)"
  from run obtain s1 sent where send: "send_tx K X tx s = (s1, Inr sent)" and go: "f sent s1 = (s', Inr x)"
    by (auto simp: deploy_bind_Inr)
  have "held X s1 = held X s" using send
    by (auto simp: send_tx_def held_def Let_def split: CompleteFeeResult.splits sum.splits if_splits)
  then have ok1: "state_ok X s1" and grow: "grows_to (held X s) (held X s1)" using ok grows_to_refl by (simp_all add: state_ok_def)
  show "goes_on X s s'"
  proof (cases sent)
    case None
    then have "s1 = s" using send by (auto simp: send_tx_def Let_def split: CompleteFeeResult.splits sum.splits if_splits)
    with None go ok assms(1) show ?thesis unfolding recording_def by blast
  next
    case (Some h)
    then obtain t where t: "ds_sent s1 = ds_sent s @ [t]" "dx_submit X t = Inr h"
      using send by (auto simp: send_tx_def Let_def split: CompleteFeeResult.splits sum.splits if_splits)
    from rec [of h] ok1 go Some have "goes_on X s1 s'" unfolding recording_def by blast
    with t hash [OF ok1, of h s' x] go Some grow show ?thesis
      unfolding goes_on_def by (auto intro: grows_to_trans)
  qed
qed

lemma history_hash [simp]: "has_hash (log_entry h at detail r) h"
  by (simp add: has_hash_def)

lemma changed_hash:
  "appendCodeVersion c code h r = Inr (n, r') \<Longrightarrow> has_hash r' h"
  "addCommittee name cm r = Inr ((), r') \<Longrightarrow> has_hash r' (cm_createdTx cm)"
  "addGovernance name operation h at detail r = Inr ((), r') \<Longrightarrow> has_hash r' h"
  "retireCode contract version h at allow r = Inr ((), r') \<Longrightarrow> has_hash r' h"
  by (auto simp: appendCodeVersion_def addCommittee_def addGovernance_def retireCode_def Let_def split: option.splits if_splits)

lemma recorded_changes:
  "recording X (act_change X (appendCodeVersion c code h))" "recording X (act_change X (addCommittee name cm))"
  "recording X (act_change X (addRotation name ro))" "recording X (act_change X (addGovernance name operation h at detail))"
  "recording X (act_change X (retireCode contract version h at allow))" "recording X (act_change X (retireCommittee name reason at))"
  by (rule recording_change [where operation = "AppendCode c code h"] recording_change [where operation = "AddCommittee name cm"]
      recording_change [where operation = "AddRotation name ro"] recording_change [where operation = "AddGovernance name operation h at detail"]
      recording_change [where operation = "RetireCode contract version h at allow"]
      recording_change [where operation = "RetireCommittee name reason at"], simp)+

lemma hashed_change:
  assumes "state_ok X s" "act_change X change s = (s', Inr x)" "\<And>r. forget (change r) = change_of operation r"
    and "\<And>r y r'. change r = Inr (y, r') \<Longrightarrow> has_hash r' h"
  shows "has_hash (held X s') h"
  using change_follows [OF assms(1-3)] assms(4) by blast

lemma recording_try_bind: "(\<And>x. recording X (f x)) \<Longrightarrow> recording X (deploy_bind (act_try g) f)"
  by (rule recording_bind) simp_all

lemma recording_deploy_contract: "recording X (deploy_contract K X c)"
proof -
  have "recording X (deploy_bind (act_change X (appendCodeVersion c code h)) (\<lambda>_. act_ret ()))" for code h
    by (rule recording_bind) (simp_all add: recorded_changes)
  moreover have "has_hash (held X s') h"
    if "state_ok X s" "deploy_bind (act_change X (appendCodeVersion c code h)) (\<lambda>_. act_ret ()) s = (s', Inr ())" for code h s s'
  proof -
    from that(2) obtain n where "act_change X (appendCodeVersion c code h) s = (s', Inr n)"
      by (auto simp: deploy_bind_Inr act_ret_def)
    from hashed_change [OF that(1) this, of "AppendCode c code h" h] changed_hash(1) show ?thesis by auto
  qed
  ultimately show ?thesis
    unfolding deploy_contract_def Let_def by (auto intro!: recording_try_bind recording_send)
qed

lemma recording_deployCommittee: "recording X (deployCommittee C K X name)"
proof -
  let ?rest = "\<lambda>h publishers typeScript typeHash. deploy_bind (act_try (\<lambda>s. current_code (dx_network X) (ds_record s) PublisherSetType)) (\<lambda>current. case current of
          None \<Rightarrow> act_try (\<lambda>s. Inl (TypeError ''undefined''))
        | Some (version, _) \<Rightarrow> act_change X (addCommittee name (committee_record X publishers typeScript typeHash version h)))"
  have "recording X (?rest h n ts th)" for h n ts th
    by (auto intro!: recording_bind simp: recorded_changes split: option.splits)
  moreover have "has_hash (held X s') h" if "state_ok X s" "?rest h n ts th s = (s', Inr x)" for h n ts th s s' x
  proof -
    from that(2) obtain version where "act_change X (addCommittee name (committee_record X n ts th version h)) s = (s', Inr x)"
      by (auto simp: deploy_bind_Inr act_try_def split: option.splits prod.splits)
    from hashed_change [OF that(1) this, of "AddCommittee name (committee_record X n ts th version h)" h]
      changed_hash(2) [of name "committee_record X n ts th version h"] show ?thesis by (auto simp: committee_record_def)
  qed
  ultimately show ?thesis
    unfolding deployCommittee_def by (auto intro!: recording_try_bind recording_send)
qed

lemma recording_govern: "recording X (govern K X name opName nextText auth popSigs)"
proof -
  let ?rest = "\<lambda>h operation following. deploy_bind (if needsProofOfPossession operation
          then act_change X (addRotation name \<lparr>ro_setIndex = setIndex (currentSet following),
            ro_publishers = int (length (pubkeys (currentSet following))), ro_txHash = h, ro_at = dx_now X\<rparr>)
          else act_ret ()) (\<lambda>_.
        act_change X (addGovernance name opName h (dx_now X) (governed_detail following)))"
  have first: "recording X (if needsProofOfPossession operation then act_change X (addRotation name ro) else act_ret ())" for operation ro
    by (simp add: recorded_changes)
  have "recording X (?rest h operation following)" for h operation following
    by (rule recording_bind [OF first]) (simp add: recorded_changes)
  moreover have "has_hash (held X s') h" if "state_ok X s" "?rest h operation following s = (s', Inr x)" for h operation following s s' x
  proof -
    from that(2) obtain s1 where s1: "(if needsProofOfPossession operation
          then act_change X (addRotation name \<lparr>ro_setIndex = setIndex (currentSet following),
            ro_publishers = int (length (pubkeys (currentSet following))), ro_txHash = h, ro_at = dx_now X\<rparr>)
          else act_ret ()) s = (s1, Inr ())" "act_change X (addGovernance name opName h (dx_now X) (governed_detail following)) s1 = (s', Inr x)"
      by (auto simp: deploy_bind_Inr)
    from first that(1) s1(1) have "state_ok X s1" unfolding recording_def goes_on_def by blast
    from hashed_change [OF this s1(2), of "AddGovernance name opName h (dx_now X) (governed_detail following)" h] changed_hash(3)
    show ?thesis by auto
  qed
  ultimately show ?thesis
    unfolding govern_def by (auto intro!: recording_try_bind recording_send)
qed

lemma recording_retire_code: "recording X (retire_code K X contract version allowCurrent)"
proof -
  have "has_hash (held X s') h" if "state_ok X s" "act_change X (retireCode contract version h at allowCurrent) s = (s', Inr x)" for h at s s' x
    using hashed_change [OF that, of "RetireCode contract version h at allowCurrent" h] changed_hash(4) by auto
  then show ?thesis
    unfolding retire_code_def Let_def by (auto intro!: recording_try_bind recording_send simp: recorded_changes)
qed

lemma recording_actions: "recording X (run_action C K X a)"
proof (cases a)
  case DeployCodeAction
  have "recording X (deploy_contracts K X cs)" for cs
    by (induction cs) (auto intro!: recording_bind recording_deploy_contract)
  with DeployCodeAction show ?thesis by (simp add: deployCode_def)
next
  case (RetireCommitteeAction name reason)
  then show ?thesis by (auto simp: retire_committee_def recorded_changes intro!: recording_bind)
qed (simp_all add: recording_deployCommittee recording_govern recording_retire_code)

text \<open>A transaction that is sent, but whose confirmation is not seen in time, is not in the record.\<close>

lemma unconfirmed_unrecorded:
  assumes "dx_broadcast X" "completeFee K tx (dx_signer X (ds_sent s)) (fee_options X) = FeeOk t fee n changed"
    and "dx_submit X t = Inr hash" "dx_confirm X hash = Inl e"
  shows "deploy_bind (send_tx K X tx) f s = (s\<lparr>ds_sent := ds_sent s @ [t]\<rparr>, Inl e)"
  using assms by (simp add: deploy_bind_def send_tx_def)

text \<open>The cells of the committees are locked with the code of \<open>alwaysSuccessLock\<close>, whose users are not looked for.\<close>

lemma lock_users_unchecked: "code_users AlwaysSuccessLock version r = []"
  by (simp add: code_users_def)

section \<open>Properties\<close>

text \<open>Claim C37: the record follows the chain. From a sound record, whatever the environment does, an action that finishes
  leaves a sound record that has only grown, with the hash of every transaction the action sent in its history; and without
  the broadcast flag an action, whether it finishes or fails, changes no record and sends nothing. The two parts of an action
  that touch neither record nor chain, building the contracts and writing the presets of the SDK, are not in the model.\<close>

theorem actions_recorded:
  assumes "record_ok (dx_network X) (contents (dx_network X) (ds_record s))" "readable (contents (dx_network X) (ds_record s))"
    and "run_action C K X a s = (s', r)"
  shows "(r = Inr () \<longrightarrow>
      record_ok (dx_network X) (contents (dx_network X) (ds_record s')) \<and> readable (contents (dx_network X) (ds_record s')) \<and>
      grows_to (contents (dx_network X) (ds_record s)) (contents (dx_network X) (ds_record s')) \<and>
      (\<exists>ts. ds_sent s' = ds_sent s @ ts \<and> (\<forall>t \<in> set ts. \<exists>h. dx_submit X t = Inr h \<and>
        h \<in> hi_txHash ` set (dr_history (contents (dx_network X) (ds_record s')))))) \<and>
    (\<not> dx_broadcast X \<longrightarrow> s' = s)"
proof -
  have "state_ok X s" using assms(1,2) by (simp add: state_ok_def held_def)
  with recording_actions [of X C K a] assms(3) have f: "goes_on X s s'" if "r = Inr ()"
    using that unfolding recording_def by blast
  have "s' = s" if "\<not> dx_broadcast X"
    using dry_run [OF that, of C K a] assms(3) unfolding inert_def by (metis fst_conv)
  with f show ?thesis by (auto simp: goes_on_def state_ok_def held_def has_hash_def)
qed

text \<open>Deploying the code on a development network, from no record: three transactions, three versions.\<close>

definition demo_deploy :: "(tx_view \<times> int) deploy_env" where
  "demo_deploy = \<lparr>dx_network = ''devnet'', dx_broadcast = True, dx_feeRate = Some 1000, dx_committees = [],
    dx_binary = (\<lambda>c. Inr [1]), dx_checksums = [], dx_hashCkb = (\<lambda>b. demo_id 3), dx_now = ''2026'',
    dx_signer = (\<lambda>sent. demo_fee_signer\<lparr>sg_plainCells :=
      [demo_plain\<lparr>cl_cellOutput := \<lparr>co_capacity = 1000000000000, co_lock = demo_lock, co_type = None\<rparr>\<rparr>]\<rparr>), dx_live = (\<lambda>sent p. True), dx_genesis = Inl (Failure ''offline''),
    dx_submit = (\<lambda>t. Inr (demo_id 8)), dx_confirm = (\<lambda>h. Inr ())\<rparr>"

definition demo_new :: "(tx_view \<times> int) deploy_state" where
  "demo_new = \<lparr>ds_record = None, ds_sent = []\<rparr>"

lemma demo_send:
  "\<exists>t. send_tx demo_ccc demo_deploy (lib_addOutput demo_ccc (lib_empty demo_ccc)
      \<lparr>co_capacity = occupiedCapacity demo_ccc demo_lock None ''0x01'', co_lock = demo_lock, co_type = None\<rparr> ''0x01'') s =
    (s\<lparr>ds_sent := ds_sent s @ [t]\<rparr>, Inr (Some (demo_id 8)))"
  by (simp add: send_tx_def completeFee_def fee_loop.simps Let_def fuel_cells_def demo_ccc_def demo_empty_def demo_fee_signer_def
      demo_deploy_def fee_options_def demo_client_def change_lock_def fee_of_def fee_rate_def occupiedCapacity_def withChange_def
      outputsCapacity_def change_output_def data_len_def demo_plain_def) (intro exI, rule refl)

definition demo_code_version :: CodeVersionRecord where
  "demo_code_version = code_record demo_deploy (demo_id 3) (demo_id 8) [1] 6200000000"

lemma demo_deploy_contract:
  assumes "code_unchanged demo_deploy c (demo_id 3) s = Inr False"
    and "update_record ''devnet'' (appendCodeVersion c demo_code_version (demo_id 8)) (ds_record s) = Inr (n, f)"
  shows "\<exists>t. deploy_contract demo_ccc demo_deploy c s = (\<lparr>ds_record = f, ds_sent = ds_sent s @ [t]\<rparr>, Inr ())"
proof -
  from demo_send [of s] obtain t where "send_tx demo_ccc demo_deploy (lib_addOutput demo_ccc (lib_empty demo_ccc)
      \<lparr>co_capacity = occupiedCapacity demo_ccc demo_lock None ''0x01'', co_lock = demo_lock, co_type = None\<rparr> ''0x01'') s =
    (s\<lparr>ds_sent := ds_sent s @ [t]\<rparr>, Inr (Some (demo_id 8)))" ..
  moreover have "bytesToHex [1] = ''0x01''" by code_simp
  moreover have "occupiedCapacity demo_ccc demo_lock None ''0x01'' = 6200000000"
    by (simp add: occupiedCapacity_def demo_ccc_def data_len_def)
  moreover have "dx_binary demo_deploy c = Inr [1]" "dx_hashCkb demo_deploy [1] = demo_id 3" "dx_network demo_deploy = ''devnet''"
    "sg_script (dx_signer demo_deploy x) = demo_lock" for x
    by (simp_all add: demo_deploy_def demo_fee_signer_def)
  ultimately show ?thesis using assms
    by (intro exI [of _ t]) (simp add: deploy_contract_def deploy_bind_def act_try_def act_ret_def act_change_def demo_code_version_def Let_def)
qed

text \<open>The record after the first contracts.\<close>

definition demo_contracts :: "ContractName list \<Rightarrow> HistoryEntry list \<Rightarrow> DeploymentRecord" where
  "demo_contracts cs hs = (emptyDeploymentRecord ''devnet'')\<lparr>dr_contracts :=
    (\<lambda>c. if c \<in> set cs then Some \<lparr>cn_current = 1, cn_versions = [(1, demo_code_version)]\<rparr> else None), dr_history := hs\<rparr>"

definition demo_logged_code :: "ContractName \<Rightarrow> HistoryEntry" where
  "demo_logged_code c = \<lparr>hi_txHash = demo_id 8, hi_at = ''2026'', hi_detail = DeployedCode c 1 (demo_id 3)\<rparr>"

lemma demo_append:
  assumes "c \<notin> set cs"
  shows "appendCodeVersion c demo_code_version (demo_id 8) (demo_contracts cs hs) = Inr (1, demo_contracts (c # cs) (hs @ [demo_logged_code c]))"
proof -
  have "dr_contracts (demo_contracts cs hs) c = None" using assms by (simp add: demo_contracts_def)
  moreover have "(dr_contracts (demo_contracts cs hs))(c := Some \<lparr>cn_current = 1, cn_versions = [(1, demo_code_version)]\<rparr>) =
      dr_contracts (demo_contracts (c # cs) hs')" for hs' by (auto simp: demo_contracts_def)
  ultimately show ?thesis
    by (simp add: appendCodeVersion_def next_version_def Let_def log_entry_def demo_logged_code_def demo_code_version_def code_record_def demo_deploy_def)
      (simp add: demo_contracts_def emptyDeploymentRecord_def fun_eq_iff)
qed

lemma demo_contracts_parse:
  assumes "{PriceFeedType, PublisherSetType} \<subseteq> set cs"
  shows "\<exists>d. parseDeployment (as_raw (demo_contracts cs hs)) = Inr d"
proof -
  have "isHex32 (demo_id n)" for n by (simp add: demo_id)
  then have chk: "checkCode (Some (version_ref 1 demo_code_version)) = Inr (version_ref 1 demo_code_version)"
    by (simp add: checkCode_def version_ref_def demo_code_version_def code_record_def)
  have "cv_retired demo_code_version = None" by (simp add: demo_code_version_def code_record_def)
  then have code: "resolve_contract c (Some (Versions (Some 1) [(1, demo_code_version)])) =
      Inr (Some (version_ref 1 demo_code_version, [(1, version_ref 1 demo_code_version)]))" for c
    by (simp add: resolve_contract_def resolve_versions_def chk)
  have "\<exists>al. resolve_contract AlwaysSuccessLock (rw_contracts (as_raw (demo_contracts cs hs)) AlwaysSuccessLock) = Inr al"
    using code by (simp add: as_raw_def demo_contracts_def) (simp add: resolve_contract_def OPTIONAL_def)
  then show ?thesis
    using assms code by (auto simp: parseDeployment_def as_raw_def demo_contracts_def emptyDeploymentRecord_def)
qed

lemma demo_step:
  assumes "c \<notin> set cs" "ds_record s = (if cs = [] then None else Some (demo_contracts cs hs))" "cs = [] \<longrightarrow> hs = []"
    and "cs \<in> {[], [PriceFeedType], [PublisherSetType, PriceFeedType]}" "c = CONTRACTS ! length cs"
  shows "\<exists>t. deploy_contract demo_ccc demo_deploy c s =
    (\<lparr>ds_record = Some (demo_contracts (c # cs) (hs @ [demo_logged_code c])), ds_sent = ds_sent s @ [t]\<rparr>, Inr ())"
proof -
  have read: "read_record ''devnet'' (ds_record s) = Inr (demo_contracts cs hs)"
    using assms(2,3) by (auto simp: read_record_def demo_contracts_def emptyDeploymentRecord_def)
  have new: "has_core (demo_contracts (c # cs) hs') \<Longrightarrow> \<exists>d. parseDeployment (as_raw (demo_contracts (c # cs) hs')) = Inr d" for hs'
    by (rule demo_contracts_parse) (auto simp: has_core_def demo_contracts_def split: if_splits)
  have "update_record ''devnet'' (appendCodeVersion c demo_code_version (demo_id 8)) (ds_record s) =
      Inr (1, Some (demo_contracts (c # cs) (hs @ [demo_logged_code c])))"
    using new by (auto simp: update_record_def read demo_append [OF assms(1)] ebind_eq_Inr)
  moreover have "code_unchanged demo_deploy c (demo_id 3) s = Inr False"
    using assms(1) by (simp add: code_unchanged_def current_code_def demo_deploy_def read) (simp add: demo_contracts_def)
  ultimately show ?thesis using demo_deploy_contract by blast
qed

theorem actions_recorded_witness:
  "\<exists>s. run_action demo_crypto demo_ccc demo_deploy DeployCodeAction demo_new = (s, Inr ()) \<and> length (ds_sent s) = 3 \<and>
    (\<forall>t \<in> set (ds_sent s). demo_id 8 \<in> hi_txHash ` set (dr_history (contents ''devnet'' (ds_record s))))"
proof -
  from demo_step [of PriceFeedType "[]" demo_new "[]"] obtain t1 where 1: "deploy_contract demo_ccc demo_deploy PriceFeedType demo_new =
      (\<lparr>ds_record = Some (demo_contracts [PriceFeedType] [demo_logged_code PriceFeedType]), ds_sent = [t1]\<rparr>, Inr ())"
    by (auto simp: demo_new_def CONTRACTS_def)
  from demo_step [of PublisherSetType "[PriceFeedType]" "\<lparr>ds_record = Some (demo_contracts [PriceFeedType] [demo_logged_code PriceFeedType]), ds_sent = [t1]\<rparr>"
      "[demo_logged_code PriceFeedType]"]
  obtain r2 t2 where 2: "deploy_contract demo_ccc demo_deploy PublisherSetType
      \<lparr>ds_record = Some (demo_contracts [PriceFeedType] [demo_logged_code PriceFeedType]), ds_sent = [t1]\<rparr> =
      (\<lparr>ds_record = Some (demo_contracts [PublisherSetType, PriceFeedType] [demo_logged_code PriceFeedType, demo_logged_code PublisherSetType]), ds_sent = [t1, t2]\<rparr>, Inr ())"
    by (auto simp: CONTRACTS_def)
  from demo_step [of AlwaysSuccessLock "[PublisherSetType, PriceFeedType]" "\<lparr>ds_record = Some (demo_contracts [PublisherSetType, PriceFeedType]
      [demo_logged_code PriceFeedType, demo_logged_code PublisherSetType]), ds_sent = [t1, t2]\<rparr>" "[demo_logged_code PriceFeedType, demo_logged_code PublisherSetType]"]
  obtain f t3 where 3: "deploy_contract demo_ccc demo_deploy AlwaysSuccessLock
      \<lparr>ds_record = Some (demo_contracts [PublisherSetType, PriceFeedType] [demo_logged_code PriceFeedType, demo_logged_code PublisherSetType]), ds_sent = [t1, t2]\<rparr> =
      (\<lparr>ds_record = f, ds_sent = [t1, t2, t3]\<rparr>, Inr ())"
    by (auto simp: CONTRACTS_def)
  from 1 2 3 have run: "run_action demo_crypto demo_ccc demo_deploy DeployCodeAction demo_new =
      (\<lparr>ds_record = f, ds_sent = [t1, t2, t3]\<rparr>, Inr ())"
    by (simp add: deployCode_def CONTRACTS_def deploy_bind_def act_ret_def)
  have ok: "record_ok (dx_network demo_deploy) (contents (dx_network demo_deploy) (ds_record demo_new))"
    "readable (contents (dx_network demo_deploy) (ds_record demo_new))"
    using empty_ok by (simp_all add: contents_def demo_new_def)
  from actions_recorded [OF ok run] obtain ts where ts: "[t1, t2, t3] = ts"
    "\<forall>t \<in> set ts. \<exists>h. dx_submit demo_deploy t = Inr h \<and> h \<in> hi_txHash ` set (dr_history (contents (dx_network demo_deploy) f))"
    by (auto simp: demo_new_def)
  then have "\<forall>t \<in> set [t1, t2, t3]. demo_id 8 \<in> hi_txHash ` set (dr_history (contents ''devnet'' f))"
    by (auto simp: demo_deploy_def)
  with run show ?thesis by (intro exI [of _ "\<lparr>ds_record = f, ds_sent = [t1, t2, t3]\<rparr>"]) simp
qed

end
