(* ===== verification/Deploy_Checks.thy ===== *)
theory Deploy_Checks
  imports Deploy_Actions
begin

text \<open>
  The checks around a deployment, which change nothing: \<open>validate\<close> and the presets of \<open>apps/deploy/src/actions.ts\<close>,
  \<open>scripts/check-deployment-matches-code.mjs\<close>, and the error codes of \<open>packages/sdk/src/errors.ts\<close> with those of the
  contracts (\<open>contracts/common/src/errors.rs\<close>). The lines of \<open>validate\<close> keep their result and a shortened text.

  Lemmas: a passed preflight leaves the first steps of a committee's deployment nothing to refuse; after a deployment
  of the code the check of a release passes; the two tables of error codes agree.
\<close>

section \<open>Preflight\<close>

type_synonym check_line = "bool \<times> string"

text \<open>The context, once the config was read: the environment if the key is good, and the address of the signer.\<close>

definition context_lines :: "unit result \<Rightarrow> ('tx deploy_env \<times> unit result) result \<Rightarrow> check_line list \<times> 'tx deploy_env option" where
  "context_lines configured context' = (case configured of
      Inl e \<Rightarrow> ([(False, ''config'')], None)
    | Inr _ \<Rightarrow> (case context' of
          Inl e \<Rightarrow> ([(True, ''config''), (False, ''deployer key'')], None)
        | Inr (X, address) \<Rightarrow> ([(True, ''config''), (\<not> isl address, ''deployer key'')], Some X)))"

definition committee_lines :: "'tx deploy_env \<Rightarrow> string \<Rightarrow> string option \<Rightarrow> DeploymentRecord \<Rightarrow> check_line list" where
  "committee_lines X target name r =
    [(has_core r, ''contracts deployed'')] @
    (if target = ''deploy:committee'' then [(dr_contracts r AlwaysSuccessLock \<noteq> None, ''alwaysSuccessLock deployed'')] else []) @
    (case name of
       None \<Rightarrow> [(False, ''--name is required'')]
     | Some n \<Rightarrow> if n = [] then [(False, ''--name is required'')] else
         let intent = map_of (dx_committees X) n in
         [(intent \<noteq> None, ''committee in config'')] @
         (if target = ''deploy:committee''
          then [(map_of (dr_committees r) n = None, ''committee not deployed yet''),
            (case intent of None \<Rightarrow> False | Some i \<Rightarrow> 1 \<le> length (it_pubkeys i) \<and> length (it_pubkeys i) \<le> 9, ''1 to 9 public keys'')]
          else []))"

definition balance_line :: "int result \<Rightarrow> check_line" where
  "balance_line have = (case have of Inl e \<Rightarrow> (False, ''RPC'') | Inr b \<Rightarrow> (b > 0, ''balance''))"

text \<open>Reading a record of another network throws.\<close>

definition target_lines :: "'tx deploy_env \<Rightarrow> string \<Rightarrow> string option \<Rightarrow> (ContractName \<Rightarrow> bool) \<Rightarrow> record_file \<Rightarrow> check_line list result" where
  "target_lines X target name binary f =
    (let code = (if target = ''deploy:code'' then map (\<lambda>c. (binary c, ''binary'')) CONTRACTS else []) in
     if target = ''deploy:committee'' \<or> target = ''govern:committee''
     then ebind (read_record (dx_network X) f) (\<lambda>r. Inr (code @ committee_lines X target name r))
     else Inr code)"

definition validate :: "unit result \<Rightarrow> ('tx deploy_env \<times> unit result) result \<Rightarrow> string \<Rightarrow> string option \<Rightarrow>
    (ContractName \<Rightarrow> bool) \<Rightarrow> record_file \<Rightarrow> int result \<Rightarrow> (check_line list \<times> bool) result" where
  "validate configured context' target name binary f have =
    (let (first, ctx) = context_lines configured context' in
     ebind (case ctx of
         None \<Rightarrow> Inr first
       | Some X \<Rightarrow> ebind (target_lines X target name binary f) (\<lambda>lines. Inr (first @ lines @ [balance_line have])))
       (\<lambda>lines. Inr (lines, list_all fst lines)))"

text \<open>A passed preflight of a committee's deployment: its first steps, up to reading the deployment, refuse nothing.\<close>

lemma preflight_sufficient:
  assumes "validate configured (Inr (X, address)) ''deploy:committee'' (Some name) binary f have = Inr (lines, True)"
    and "ds_record s = f"
  shows "\<exists>intent r b. map_of (dx_committees X) name = Some intent \<and> read_record (dx_network X) f = Inr r \<and> have = Inr b \<and> 0 < b \<and>
    dr_contracts r AlwaysSuccessLock \<noteq> None \<and>
    committee_tx C K X name s =
      ebind (parseDeployment (as_raw r)) (\<lambda>d.
      ebind (case it_networkId intent of Some n \<Rightarrow> Inr n | None \<Rightarrow> dx_genesis X) (\<lambda>networkId'.
      let data = intended_committee intent networkId' in
      ebind (isValidPublisherSetData data) (\<lambda>ok.
      if \<not> ok then Inl (Failure ''needs 1 to 9 distinct compressed public keys and a positive minRotationIntervalS'')
      else
        ebind (bootstrapCommittee C K (dx_signer X (ds_sent s)) d data None) (\<lambda>(tx, typeScript, typeHash).
        Inr (length (pubkeys (currentSet data)), tx, typeScript, typeHash)))))"
proof -
  from assms(1) obtain r where r: "read_record (dx_network X) f = Inr r"
    and lines: "list_all fst (committee_lines X ''deploy:committee'' (Some name) r)" "fst (balance_line have)"
    by (auto simp: validate_def context_lines_def target_lines_def ebind_eq_Inr split: sum.splits)
  from lines(1) obtain intent where i: "map_of (dx_committees X) name = Some intent" "map_of (dr_committees r) name = None"
    "has_core r" "dr_contracts r AlwaysSuccessLock \<noteq> None"
    by (auto simp: committee_lines_def Let_def split: if_splits option.splits)
  from lines(2) obtain b where b: "have = Inr b" "0 < b" by (auto simp: balance_line_def split: sum.splits)
  have "record_deployment (dx_network X) f = parseDeployment (as_raw r)" using r i(3) by (simp add: record_deployment_def)
  with i r b assms(2) show ?thesis by (simp add: committee_tx_def)
qed

section \<open>Presets\<close>

text \<open>\<open>syncPresets\<close>: the records of the public networks whose files exist; a file that is no JSON throws.\<close>

definition syncPresets :: "(string \<Rightarrow> DeploymentRecord result option) \<Rightarrow> (string \<times> DeploymentRecord) list result" where
  "syncPresets files = ebind (emap (\<lambda>network. case files network of
       None \<Rightarrow> Inr [] | Some file \<Rightarrow> ebind file (\<lambda>r. Inr [(network, r)])) [''testnet'', ''mainnet''])
     (\<lambda>rows. Inr (concat rows))"

text \<open>\<open>publishToSdk\<close>: what is written, if anything.\<close>

definition publishToSdk :: "'tx deploy_env \<Rightarrow> (string \<Rightarrow> DeploymentRecord result option) \<Rightarrow> 'tx deploy_state \<Rightarrow>
    (string \<times> DeploymentRecord) list option result" where
  "publishToSdk X files s =
    (if dx_network X = ''devnet'' then Inr None
     else case record_deployment (dx_network X) (ds_record s) of
         Inl e \<Rightarrow> Inr None
       | Inr d \<Rightarrow> ebind (syncPresets files) (\<lambda>records. Inr (Some records)))"

lemma published_records:
  assumes "publishToSdk X files s = Inr (Some records)"
  shows "dx_network X \<noteq> ''devnet'' \<and> (\<exists>d. record_deployment (dx_network X) (ds_record s) = Inr d) \<and>
    (\<forall>network r. map_of records network = Some r \<longleftrightarrow> network \<in> {''testnet'', ''mainnet''} \<and> files network = Some (Inr r))"
  using assms
  by (auto simp: publishToSdk_def syncPresets_def ebind_eq_Inr split: if_splits sum.splits option.splits)

section \<open>The release check\<close>

text \<open>The code hash a network runs, in lower case; what the source builds, of the lines of \<open>checksums.txt\<close>.\<close>

definition deployed_hash :: "DeploymentRecord \<Rightarrow> ContractName \<Rightarrow> hex option" where
  "deployed_hash r c = Option.bind (dr_contracts r c) (\<lambda>e. map_option (\<lambda>v. toLowerCase (cv_codeHash v)) (map_of (cn_versions e) (cn_current e)))"

definition built_hash :: "(string \<times> hex) list \<Rightarrow> ContractName \<Rightarrow> hex option" where
  "built_hash checksums c = map_of (rev (map (\<lambda>(name, hash). (name, toLowerCase hash)) checksums)) (BINARY_NAMES c)"

definition matches_code :: "DeploymentRecord \<Rightarrow> (string \<times> hex) list \<Rightarrow> bool" where
  "matches_code r checksums \<longleftrightarrow> list_all (\<lambda>c. deployed_hash r c = built_hash checksums c) CONTRACTS"

lemma built_canonical: "built_hash (dx_checksums X) c = map_option toLowerCase (canonicalHash X c)"
proof -
  have "map_of (map (\<lambda>(name, hash). (name, toLowerCase hash)) xs) n = map_option toLowerCase (map_of xs n)" for xs and n :: string
    by (induction xs) auto
  then show ?thesis by (simp add: built_hash_def canonicalHash_def rev_map)
qed

lemma contents_read: "read_record network f = Inr r \<Longrightarrow> contents network f = r"
  by (auto simp: read_record_def contents_def split: option.splits if_splits)

text \<open>Appending a version makes it the current one, and leaves the other contracts.\<close>

lemma appended_current:
  assumes "act_change X (appendCodeVersion c code txHash) s = (s', Inr version)"
  shows "deployed_hash (held X s') c = Some (toLowerCase (cv_codeHash code)) \<and> (c' \<noteq> c \<longrightarrow> deployed_hash (held X s') c' = deployed_hash (held X s) c')"
proof -
  let ?n = "dx_network X"
  from assms obtain f where f: "update_record ?n (appendCodeVersion c code txHash) (ds_record s) = Inr (version, f)" "s' = s\<lparr>ds_record := f\<rparr>"
    by (auto simp: act_change_def split: sum.splits)
  then obtain r r' where r: "read_record ?n (ds_record s) = Inr r" "appendCodeVersion c code txHash r = Inr (version, r')" "f = Some r'"
    by (auto simp: update_record_def ebind_eq_Inr)
  define e where "e = (case dr_contracts r c of None \<Rightarrow> \<lparr>cn_current = 0, cn_versions = []\<rparr> | Some e \<Rightarrow> e)"
  have r': "dr_contracts r' = (dr_contracts r)(c \<mapsto> e\<lparr>cn_versions := cn_versions e @ [(next_version (cn_versions e), code)],
      cn_current := next_version (cn_versions e)\<rparr>)"
    using r(2) by (auto simp: appendCodeVersion_def Let_def e_def log_entry_def)
  have "map_of (cn_versions e) (next_version (cn_versions e)) = None"
    using next_version_greater [of "next_version (cn_versions e)" "cn_versions e"] by (auto simp: map_of_eq_None_iff)
  then show ?thesis
    using contents_read [OF r(1)] f(2) r(3) by (simp add: held_def contents_def deployed_hash_def r' map_add_Some_iff)
qed

lemma code_is_current:
  assumes "code_unchanged X c codeHash s = Inr True"
  obtains version code where "current_code (dx_network X) (ds_record s) c = Inr (Some (version, Some code))" "cv_codeHash code = codeHash"
proof -
  from assms obtain current where current: "current_code (dx_network X) (ds_record s) c = Inr current"
    by (auto simp: code_unchanged_def ebind_eq_Inr)
  with assms obtain entry where "current = Some entry" by (cases current) (auto simp: code_unchanged_def)
  moreover obtain version code where "entry = (version, code)" by (cases entry)
  ultimately show thesis using assms current that by (cases code) (auto simp: code_unchanged_def)
qed

lemma deployed_contract:
  assumes "deploy_contract K X c s = (s', Inr ())" "dx_broadcast X" "dx_network X \<noteq> ''devnet''"
  shows "deployed_hash (held X s') c = built_hash (dx_checksums X) c \<and> (c' \<noteq> c \<longrightarrow> deployed_hash (held X s') c' = deployed_hash (held X s) c')"
proof -
  from assms(1,3) obtain binary unchanged where b: "dx_binary X c = Inr binary" "canonicalHash X c = Some (dx_hashCkb X binary)"
    "code_unchanged X c (dx_hashCkb X binary) s = Inr unchanged"
    by (auto simp: deploy_contract_def deploy_bind_Inr act_try_def Let_def split: if_splits)
  have built: "built_hash (dx_checksums X) c = Some (toLowerCase (dx_hashCkb X binary))" by (simp add: built_canonical b(2))
  show ?thesis
  proof (cases unchanged)
    case True
    with assms(1) b have "s' = s" by (auto simp: deploy_contract_def deploy_bind_def act_try_def act_ret_def Let_def split: if_splits)
    moreover from b(3) True have "code_unchanged X c (dx_hashCkb X binary) s = Inr True" by simp
    then obtain version code where "current_code (dx_network X) (ds_record s) c = Inr (Some (version, Some code))"
      "cv_codeHash code = dx_hashCkb X binary" by (rule code_is_current)
    moreover from this(1) obtain r e where "read_record (dx_network X) (ds_record s) = Inr r" "dr_contracts r c = Some e"
      "map_of (cn_versions e) (cn_current e) = Some code"
      by (auto simp: current_code_def ebind_eq_Inr)
    ultimately show ?thesis using contents_read by (simp add: built held_def deployed_hash_def)
  next
    case False
    let ?tx = "lib_addOutput K (lib_empty K) \<lparr>co_capacity = occupiedCapacity K (sg_script (dx_signer X (ds_sent s))) None (bytesToHex binary),
      co_lock = sg_script (dx_signer X (ds_sent s)), co_type = None\<rparr> (bytesToHex binary)"
    from assms(1,3) b False obtain s1 sent where sent: "send_tx K X ?tx s = (s1, Inr sent)"
      and after: "(case sent of None \<Rightarrow> act_ret () | Some txHash \<Rightarrow>
         deploy_bind (act_change X (appendCodeVersion c (code_record X (dx_hashCkb X binary) txHash binary
           (occupiedCapacity K (sg_script (dx_signer X (ds_sent s))) None (bytesToHex binary))) txHash)) (\<lambda>version. act_ret ())) s1 = (s', Inr ())"
      by (auto simp: deploy_contract_def deploy_bind_Inr act_try_def Let_def split: if_splits)
    from sent assms(2) obtain txHash where txHash: "sent = Some txHash" "ds_record s1 = ds_record s"
      by (auto simp: send_tx_def Let_def split: CompleteFeeResult.splits sum.splits if_splits)
    with after obtain version where "act_change X (appendCodeVersion c (code_record X (dx_hashCkb X binary) txHash binary
        (occupiedCapacity K (sg_script (dx_signer X (ds_sent s))) None (bytesToHex binary))) txHash) s1 = (s', Inr version)"
      by (auto simp: deploy_bind_Inr act_ret_def)
    from appended_current [OF this, of c'] txHash(2) show ?thesis by (simp add: built held_def code_record_def)
  qed
qed

lemma deployed_contracts:
  assumes "deploy_contracts K X cs s = (s', Inr ())" "dx_broadcast X" "dx_network X \<noteq> ''devnet''"
  shows "c \<in> set cs \<or> deployed_hash (held X s) c = built_hash (dx_checksums X) c \<Longrightarrow> deployed_hash (held X s') c = built_hash (dx_checksums X) c"
  using assms(1)
proof (induction cs arbitrary: s)
  case (Cons d cs)
  from Cons.prems(2) obtain s1 where s1: "deploy_contract K X d s = (s1, Inr ())" "deploy_contracts K X cs s1 = (s', Inr ())"
    by (auto simp: deploy_bind_Inr)
  from deployed_contract [OF s1(1) assms(2,3)] Cons.prems(1)
  have "c \<in> set cs \<or> deployed_hash (held X s1) c = built_hash (dx_checksums X) c" by (cases "c = d") auto
  with Cons.IH s1(2) show ?case by blast
qed (simp add: act_ret_def)

section \<open>Error codes\<close>

definition CONTRACT_ERRORS :: "(int \<times> string) list" where
  "CONTRACT_ERRORS = [(-1, ''ENCODING''), (-2, ''SYSCALL''), (11, ''INVALID_SCRIPT_GROUP''), (12, ''CONFIG_MUTATED''),
    (14, ''TYPE_ID_INVALID''), (60, ''PUBLISHER_SET_MALFORMED''), (61, ''PUBLISHER_SET_CONTINUITY''), (62, ''PUBLISHER_SET_AUTH''),
    (63, ''PUBLISHER_SET_POP''), (64, ''PUBLISHER_SET_OPERATION''), (65, ''PUBLISHER_SET_INTERVAL''), (66, ''PUBLISHER_SET_CELL''),
    (67, ''PUBLISHER_SET_UNTIL''), (80, ''FEED_DATA_MALFORMED''), (81, ''FEED_ID_MISMATCH''), (82, ''FEED_CREATION_NONZERO''),
    (83, ''FEED_NOT_FORWARD''), (84, ''FEED_WITNESS_MALFORMED''), (85, ''FEED_SET_DEP''), (86, ''UPDATE_MALFORMED''),
    (87, ''UPDATE_FEED_NOT_FOUND''), (88, ''UPDATE_PROOF''), (89, ''UPDATE_SET''), (90, ''UPDATE_SIGNATURE''), (91, ''UPDATE_MISMATCH''),
    (92, ''FEED_LEADER'')]"

definition contractErrorName :: "int \<Rightarrow> string option" where
  "contractErrorName code = map_of CONTRACT_ERRORS code"

text \<open>The constants of the contracts, without their prefix, in their order.\<close>

definition rust_errors :: "(string \<times> int) list" where
  "rust_errors = [(''ENCODING'', -1), (''SYSCALL'', -2), (''INVALID_SCRIPT_GROUP'', 11), (''CONFIG_MUTATED'', 12), (''TYPE_ID_INVALID'', 14),
    (''PUBLISHER_SET_MALFORMED'', 60), (''PUBLISHER_SET_CONTINUITY'', 61), (''PUBLISHER_SET_AUTH'', 62), (''PUBLISHER_SET_POP'', 63),
    (''PUBLISHER_SET_OPERATION'', 64), (''FEED_DATA_MALFORMED'', 80), (''FEED_ID_MISMATCH'', 81), (''FEED_CREATION_NONZERO'', 82),
    (''FEED_NOT_FORWARD'', 83), (''FEED_WITNESS_MALFORMED'', 84), (''FEED_SET_DEP'', 85), (''UPDATE_MALFORMED'', 86),
    (''UPDATE_FEED_NOT_FOUND'', 87), (''UPDATE_PROOF'', 88), (''UPDATE_SET'', 89), (''UPDATE_SIGNATURE'', 90), (''UPDATE_MISMATCH'', 91),
    (''PUBLISHER_SET_INTERVAL'', 65), (''PUBLISHER_SET_CELL'', 66), (''PUBLISHER_SET_UNTIL'', 67), (''FEED_LEADER'', 92)]"

text \<open>The SDK's name of a code is the contracts' constant of that value: the tables agree, and no code has two names.\<close>

lemma error_codes_agree: "contractErrorName code = Some name \<longleftrightarrow> map_of rust_errors name = Some code"
proof -
  have distinct: "distinct (map fst CONTRACT_ERRORS)" "distinct (map fst rust_errors)" by code_simp+
  have "set CONTRACT_ERRORS = (\<lambda>(n, c). (c, n)) ` set rust_errors" unfolding CONTRACT_ERRORS_def rust_errors_def by auto
  then have "(code, name) \<in> set CONTRACT_ERRORS \<longleftrightarrow> (name, code) \<in> set rust_errors" by force
  with distinct show ?thesis by (simp add: contractErrorName_def)
qed

section \<open>Properties\<close>

text \<open>Claim C38: after a deployment of the code on a public network that ended without an error and was broadcast, the release
  check passes: the network runs, contract by contract, what the checksums say the source builds.\<close>

theorem deployed_code_matches:
  assumes "deployCode K X s = (s', Inr ())" "dx_broadcast X" "dx_network X \<noteq> ''devnet''"
  shows "matches_code (contents (dx_network X) (ds_record s')) (dx_checksums X)"
  using deployed_contracts [OF assms(1) [unfolded deployCode_def] assms(2,3)]
  by (simp add: matches_code_def held_def list_all_iff contracts_all)

definition demo_release :: "(tx_view \<times> int) deploy_env" where
  "demo_release = demo_deploy\<lparr>dx_network := ''testnet'', dx_checksums :=
     [(''price_feed_type'', demo_id 3), (''publisher_set_type'', demo_id 3), (''always_success_lock'', demo_id 3)]\<rparr>"

definition demo_released :: "(tx_view \<times> int) deploy_state" where
  "demo_released = \<lparr>ds_record = Some ((demo_contracts CONTRACTS [])\<lparr>dr_network := ''testnet''\<rparr>), ds_sent = []\<rparr>"

theorem deployed_code_matches_witness:
  "matches_code (contents ''testnet'' (ds_record demo_released)) (dx_checksums demo_release)"
proof -
  have "deploy_contract demo_ccc demo_release c demo_released = (demo_released, Inr ())" for c
    by (cases c) (simp_all add: deploy_contract_def deploy_bind_def act_try_def act_ret_def demo_release_def demo_deploy_def demo_released_def
        canonicalHash_def BINARY_NAMES_def code_unchanged_def current_code_def read_record_def demo_contracts_def CONTRACTS_def
        demo_code_version_def code_record_def Let_def)
  then have "deployCode demo_ccc demo_release demo_released = (demo_released, Inr ())"
    by (simp add: deployCode_def CONTRACTS_def deploy_bind_def act_ret_def)
  from deployed_code_matches [OF this] show ?thesis by (simp add: demo_release_def demo_deploy_def)
qed

end
