(* ===== verification/Twap_Replay.thy ===== *)
theory Twap_Replay
  imports Recorder Methodology Twap
begin

text \<open>
  \<open>apps/publisher/scripts/twap-replay.mjs\<close>: what a 60 s average would have been over a recording, from the prices
  recorded for every tick. The hours to measure are a predicate; moves are kept in hundredths of a basis point, the
  report's percentages and quantiles (floating point) are left out.

  Lemmas: the 70 s of prices the script keeps give the averages of the whole recording.
\<close>

section \<open>The script\<close>

definition TWAP_KEEP_MS :: int where "TWAP_KEEP_MS = 70000"

text \<open>\<open>twapOf\<close>: a 60 s rule for every feed that has none of its own, by the id of its source.\<close>

fun twap_rule :: "int \<Rightarrow> FeedConfig \<Rightarrow> (hex \<times> FeedBase \<times> TwapSpec) list" where
  "twap_rule minTicks (MarketFeed b m) = [(fb_feedId b, b\<lparr>fb_symbol := fb_symbol b @ ''.TWAP60''\<rparr>,
     \<lparr>tw_source = fb_symbol b, tw_windowMs = 60000, tw_everyMs = 60000, tw_minTicks = minTicks\<rparr>)]"
| "twap_rule minTicks (TwapFeed b t stray) = []"

definition twapOf :: "int \<Rightarrow> CommitteeConfig \<Rightarrow> (hex \<times> FeedBase \<times> TwapSpec) list" where
  "twapOf minTicks config =
    foldl (\<lambda>m (k, v). AList.update k v m) [] (concat (map (twap_rule minTicks) (c_feeds config)))"

record TwapStats =
  ts_boundaries :: nat
  ts_void :: nat
  ts_spotSteps :: "int list"
  ts_twapSteps :: "int list"
  ts_spotVsTwap :: "int list"

record TwapReplay =
  tr_history :: "hex \<Rightarrow> TwapPoint list option"
  tr_stats :: "(string \<times> TwapStats) list"
  tr_last :: "(hex \<times> int \<times> int) list"
  tr_latest :: "int option"

definition new_twap_replay :: TwapReplay where
  "new_twap_replay = \<lparr>tr_history = (\<lambda>_. None), tr_stats = [], tr_last = [], tr_latest = None\<rparr>"

text \<open>\<open>bps\<close>, times a hundred.\<close>

definition bps100 :: "int \<Rightarrow> int \<Rightarrow> int result" where
  "bps100 a b = big_divide (abs_big (a - b) * 1000000) b"

definition boundary_twap :: "TwapReplay \<Rightarrow> int \<Rightarrow> hex \<times> FeedBase \<times> TwapSpec \<Rightarrow> ObservationEntry option result" where
  "boundary_twap st tickMs = (\<lambda>(feed, b, t). computeTwap b t (history_of (tr_history st) feed) tickMs 1000 (tr_latest st))"

text \<open>The moves since the previous boundary, when both boundaries had a price and an average.\<close>

definition moves :: "TwapReplay \<Rightarrow> hex \<Rightarrow> ObservationEntry option \<Rightarrow> ObservationEntry \<Rightarrow> TwapStats \<Rightarrow> TwapStats result" where
  "moves st feed spot out s =
    ebind (case spot of
        None \<Rightarrow> Inr s
      | Some e \<Rightarrow> ebind (bps100 (oe_price e) (oe_price out)) (\<lambda>x. Inr (s\<lparr>ts_spotVsTwap := ts_spotVsTwap s @ [x]\<rparr>))) (\<lambda>s.
    case (map_of (tr_last st) feed, spot) of
      (Some (oldSpot, oldTwap), Some e) \<Rightarrow>
        ebind (bps100 (oe_price e) oldSpot) (\<lambda>x.
        ebind (bps100 (oe_price out) oldTwap) (\<lambda>y.
        Inr (s\<lparr>ts_spotSteps := ts_spotSteps s @ [x], ts_twapSteps := ts_twapSteps s @ [y]\<rparr>)))
    | _ \<Rightarrow> Inr s)"

definition measure_boundary :: "ObservationEntry list \<Rightarrow> int \<Rightarrow> TwapReplay \<Rightarrow> hex \<times> FeedBase \<times> TwapSpec \<Rightarrow> TwapReplay result" where
  "measure_boundary entries tickMs st rule =
    (let (feed, b, t) = rule;
         s = (case map_of (tr_stats st) (fb_symbol b) of
             None \<Rightarrow> \<lparr>ts_boundaries = 0, ts_void = 0, ts_spotSteps = [], ts_twapSteps = [], ts_spotVsTwap = []\<rparr> | Some s \<Rightarrow> s);
         s = s\<lparr>ts_boundaries := ts_boundaries s + 1\<rparr>;
         spot = find (\<lambda>e. oe_feedId e = feed) entries
     in ebind (boundary_twap st tickMs rule) (\<lambda>out. case out of
          None \<Rightarrow> Inr (st\<lparr>tr_stats := AList.update (fb_symbol b) (s\<lparr>ts_void := ts_void s + 1\<rparr>) (tr_stats st),
            tr_last := AList.delete feed (tr_last st)\<rparr>)
        | Some e \<Rightarrow> ebind (moves st feed spot e s) (\<lambda>s. Inr (st\<lparr>tr_stats := AList.update (fb_symbol b) s (tr_stats st),
            tr_last := (case spot of None \<Rightarrow> tr_last st
              | Some x \<Rightarrow> AList.update feed (oe_price x, oe_price e) (tr_last st))\<rparr>))))"

definition keep_point :: "int \<Rightarrow> TwapReplay \<Rightarrow> ObservationEntry \<Rightarrow> TwapReplay" where
  "keep_point tickMs st e = st\<lparr>tr_history := history_push tp_tickMs TWAP_KEEP_MS (tr_history st) (oe_feedId e)
     \<lparr>tp_tickMs = tickMs, tp_price = oe_price e, tp_conf = oe_conf e, tp_expo = None\<rparr>\<rparr>"

text \<open>\<open>onTick\<close>: the boundary first, then the tick's own prices.\<close>

definition on_tick :: "(int \<Rightarrow> bool) \<Rightarrow> (hex \<times> FeedBase \<times> TwapSpec) list \<Rightarrow> TwapReplay \<Rightarrow> int \<times> ObservationEntry list \<Rightarrow> TwapReplay result" where
  "on_tick measured rules st = (\<lambda>(tickMs, entries).
    ebind (if big_rem tickMs 60000 = 0 \<and> measured tickMs then efold (measure_boundary entries tickMs) st rules else Inr st) (\<lambda>st.
    Inr ((foldl (keep_point tickMs) st entries)\<lparr>tr_latest := Some tickMs\<rparr>)))"

fun tick_of_record :: "recorded \<Rightarrow> (int \<times> ObservationEntry list) list" where
  "tick_of_record (TickRecord ms tickMs entries) = [(tickMs, entries)]"
| "tick_of_record r = []"

definition twap_replay :: "(int \<Rightarrow> bool) \<Rightarrow> int \<Rightarrow> CommitteeConfig \<Rightarrow> recorded list \<Rightarrow> TwapReplay result" where
  "twap_replay measured minTicks config records =
    efold (on_tick measured (twapOf minTicks config)) new_twap_replay (concat (map tick_of_record records))"

section \<open>What is kept\<close>

text \<open>All prices recorded for a feed.\<close>

definition recorded_points :: "hex \<Rightarrow> (int \<times> ObservationEntry list) list \<Rightarrow> TwapPoint list" where
  "recorded_points feed ticks = concat (map (\<lambda>(tickMs, entries).
     map (\<lambda>e. \<lparr>tp_tickMs = tickMs, tp_price = oe_price e, tp_conf = oe_conf e, tp_expo = None\<rparr>)
       (filter (\<lambda>e. oe_feedId e = feed) entries)) ticks)"

lemma kept_points:
  assumes "\<forall>k. suffix_of_log tp_tickMs TWAP_KEEP_MS (history_of (tr_history st) k) (lg k)"
  shows "suffix_of_log tp_tickMs TWAP_KEEP_MS (history_of (tr_history (foldl (keep_point tickMs) st entries)) feed)
    (lg feed @ recorded_points feed [(tickMs, entries)])"
  using assms
proof (induction entries arbitrary: st lg)
  case (Cons e entries)
  let ?p = "\<lparr>tp_tickMs = tickMs, tp_price = oe_price e, tp_conf = oe_conf e, tp_expo = None\<rparr>"
  have "suffix_of_log tp_tickMs TWAP_KEEP_MS (history_of (tr_history (keep_point tickMs st e)) k) (lg k @ (if k = oe_feedId e then [?p] else []))" for k
    using Cons.prems suffix_push [of tp_tickMs TWAP_KEEP_MS "tr_history st" k "lg k" ?p]
    by (cases "k = oe_feedId e") (simp_all add: keep_point_def history_other)
  from Cons.IH [of "keep_point tickMs st e" "\<lambda>k. lg k @ (if k = oe_feedId e then [?p] else [])"] this
  show ?case by (simp add: recorded_points_def split: if_splits)
qed (simp add: recorded_points_def)

lemma measure_keeps:
  assumes "measure_boundary entries tickMs st rule = Inr st'"
  shows "tr_history st' = tr_history st \<and> tr_latest st' = tr_latest st"
proof -
  obtain feed b t where rule: "rule = (feed, b, t)" by (cases rule)
  from assms obtain out where out: "boundary_twap st tickMs rule = Inr out"
    by (auto simp: measure_boundary_def rule Let_def ebind_eq_Inr)
  show ?thesis
    using assms by (cases out) (auto simp: measure_boundary_def out[unfolded rule] rule Let_def ebind_eq_Inr)
qed

lemma measures_keep: "efold (measure_boundary entries tickMs) st rules = Inr st' \<Longrightarrow> tr_history st' = tr_history st \<and> tr_latest st' = tr_latest st"
proof (induction rules arbitrary: st)
  case (Cons r rules)
  from Cons.prems obtain st1 where "measure_boundary entries tickMs st r = Inr st1" "efold (measure_boundary entries tickMs) st1 rules = Inr st'"
    by (auto simp: ebind_eq_Inr)
  with measure_keeps Cons.IH show ?case by metis
qed simp

lemma run_keeps:
  "efold (on_tick measured rules) new_twap_replay ticks = Inr st \<Longrightarrow>
    suffix_of_log tp_tickMs TWAP_KEEP_MS (history_of (tr_history st) feed) (recorded_points feed ticks) \<and>
    tr_latest st = (if ticks = [] then None else Some (fst (last ticks)))"
proof (induction ticks arbitrary: st feed rule: rev_induct)
  case Nil
  then show ?case by (auto simp: new_twap_replay_def history_of_def suffix_of_log_def recorded_points_def)
next
  case (snoc tick ticks)
  obtain tickMs entries where t: "tick = (tickMs, entries)" by (cases tick)
  from snoc.prems obtain st1 where st1: "efold (on_tick measured rules) new_twap_replay ticks = Inr st1" "on_tick measured rules st1 tick = Inr st"
    by (auto simp: efold_append ebind_eq_Inr)
  from st1(2) obtain st2 where st2: "st = (foldl (keep_point tickMs) st2 entries)\<lparr>tr_latest := Some tickMs\<rparr>"
    "st2 = st1 \<or> efold (measure_boundary entries tickMs) st1 rules = Inr st2"
    by (auto simp: on_tick_def t ebind_eq_Inr split: if_splits)
  from st2(2) have "tr_history st2 = tr_history st1" using measures_keep by metis
  with kept_points [of st2 "\<lambda>k. recorded_points k ticks" tickMs entries feed] snoc.IH [OF st1(1)] st2(1)
  show ?case by (simp add: t recorded_points_def)
qed

section \<open>Properties\<close>

text \<open>Keeping 70 s is enough: after ticks that are not later than a boundary, the average the script computes at the
  boundary is the one over every price recorded for the feed.\<close>

theorem twap_replay_complete:
  assumes "efold (on_tick measured rules) new_twap_replay ticks = Inr st"
    and "\<forall>tick \<in> set ticks. fst tick \<le> tickMs" and "tw_windowMs t = 60000"
  shows "boundary_twap st tickMs (feed, b, t) =
    computeTwap b t (recorded_points feed ticks) tickMs 1000 (if ticks = [] then None else Some (fst (last ticks)))"
proof -
  let ?w = "twapWindow tickMs (tw_windowMs t) 1000"
  note kept = run_keeps [OF assms(1), of feed]
  have "tp_tickMs p \<le> tickMs" if "p \<in> set (recorded_points feed ticks)" for p
    using that assms(2) by (auto simp: recorded_points_def)
  then have "within_retention tp_tickMs TWAP_KEEP_MS (recorded_points feed ticks) (fst ?w)"
    by (fastforce simp: within_retention_def twapWindow_def TWAP_KEEP_MS_def assms(3) Let_def)
  from window_of_log [OF _ this, of "history_of (tr_history st) feed" "snd ?w"] kept
  have "filter (\<lambda>p. fst ?w < tp_tickMs p \<and> tp_tickMs p \<le> snd ?w) (history_of (tr_history st) feed) =
      filter (\<lambda>p. fst ?w < tp_tickMs p \<and> tp_tickMs p \<le> snd ?w) (recorded_points feed ticks)" by simp
  from arg_cong [OF this, of "filter (\<lambda>p. tp_expo p = None \<or> tp_expo p = Some (fb_expo b))"]
  have "twap_points b ?w (history_of (tr_history st) feed) = twap_points b ?w (recorded_points feed ticks)"
    by (simp add: twap_points_def conj_assoc)
  with kept show ?thesis by (simp add: boundary_twap_def computeTwap_def Let_def)
qed

definition demo_spot :: "int \<Rightarrow> ObservationEntry" where
  "demo_spot price = \<lparr>oe_feedId = ''0x01'', oe_price = price, oe_conf = 3, oe_sourceTimeMs = 900\<rparr>"

theorem twap_replay_complete_witness:
  "\<exists>st. efold (on_tick (\<lambda>_. True) (twapOf 1 demo_config)) new_twap_replay [(1000, [demo_spot 500]), (59000, [demo_spot 700])] = Inr st \<and>
    boundary_twap st 60000 (''0x01'', demo_base ''Crypto.CKB/USDT'', demo_twap\<lparr>tw_minTicks := 1\<rparr>) =
      Inr (Some \<lparr>oe_feedId = fb_feedId (demo_base ''Crypto.CKB/USDT''), oe_price = 500, oe_conf = 3, oe_sourceTimeMs = 1000\<rparr>)"
proof -
  let ?ticks = "[(1000, [demo_spot 500]), (59000, [demo_spot 700])]"
  obtain st where st: "efold (on_tick (\<lambda>_. True) (twapOf 1 demo_config)) new_twap_replay ?ticks = Inr st"
    by (simp add: on_tick_def big_rem_nonneg)
  have "tw_windowMs (demo_twap\<lparr>tw_minTicks := 1\<rparr>) = 60000" by (simp add: demo_twap_def)
  from twap_replay_complete [OF st _ this, of 60000] st show ?thesis
    by (simp add: recorded_points_def demo_spot_def computeTwap_def twapWindow_def twap_points_def demo_twap_def demo_base_def median_def
        abs_big_def big_div_nonneg Let_def)
qed

end
