(* ===== verification/Resolver.thy ===== *)
theory Resolver
  imports Prelude
begin

text \<open>
  \<open>apps/publisher/src/net/resolver.ts\<close>: DNS over HTTPS with a cache. The replies of the resolver, and the clock when
  a query starts and when it is answered, are arguments: between the two other queries may change the cache.

  Lemmas: what the cache gives out is an answer whose time to live has not passed, with a floor of 30 s and a ceiling
  of 300 s; a lookup gives addresses of the family it was asked for.
\<close>

section \<open>DohResolver\<close>

record Address =
  ad_address :: string
  ad_family :: int

record Answer =
  an_addresses :: "Address list"
  an_expiresAt :: int

text \<open>A row of the \<open>Answer\<close> of a reply; the reply need not have one, and the request may fail.\<close>

record dns_row =
  dn_type :: int
  dn_data :: string
  dn_ttl :: int

type_synonym dns_reply = "dns_row list option result"

definition found_rows :: "int \<Rightarrow> int \<Rightarrow> dns_row list option \<Rightarrow> (Address \<times> int) list" where
  "found_rows family code reply = map (\<lambda>a. (\<lparr>ad_address = dn_data a, ad_family = family\<rparr>, dn_ttl a))
     (filter (\<lambda>a. dn_type a = code) (case reply of None \<Rightarrow> [] | Some rows \<Rightarrow> rows))"

text \<open>A failing \<open>AAAA\<close> query counts as an empty one.\<close>

definition found_addresses :: "dns_reply \<Rightarrow> dns_reply \<Rightarrow> (Address \<times> int) list result" where
  "found_addresses v4 v6 =
    ebind v4 (\<lambda>a. Inr (found_rows 4 1 a @ (case v6 of Inl e \<Rightarrow> [] | Inr aaaa \<Rightarrow> found_rows 6 28 aaaa)))"

definition cached_addresses :: "int \<Rightarrow> string \<Rightarrow> (string \<times> Answer) list \<Rightarrow> Address list option" where
  "cached_addresses now hostname cache = (case map_of cache hostname of
      None \<Rightarrow> None
    | Some a \<Rightarrow> if an_expiresAt a > now then Some (an_addresses a) else None)"

definition answer_until :: "int \<Rightarrow> (Address \<times> int) list \<Rightarrow> int" where
  "answer_until now found = now + max (foldl min 300 (map snd found)) 30 * 1000"

definition answer_host :: "string \<Rightarrow> dns_reply \<Rightarrow> dns_reply \<Rightarrow> int \<Rightarrow> (string \<times> Answer) list \<Rightarrow>
    (string \<times> Answer) list \<times> Address list result" where
  "answer_host hostname v4 v6 now cache = (case found_addresses v4 v6 of
      Inl e \<Rightarrow> (cache, Inl e)
    | Inr found \<Rightarrow>
        if length found = 0 then (cache, Inl (Failure ''DoH: no address''))
        else
          (let addresses = map fst found
           in (AList.update hostname \<lparr>an_addresses = addresses, an_expiresAt = answer_until now found\<rparr> cache, Inr addresses)))"

text \<open>\<open>resolve\<close>: the cache when it is asked, the replies if it has to query, and the cache and clock when they are in.\<close>

definition resolve_host :: "string \<Rightarrow> int \<Rightarrow> (string \<times> Answer) list \<Rightarrow> dns_reply \<Rightarrow> dns_reply \<Rightarrow> int \<Rightarrow> (string \<times> Answer) list \<Rightarrow>
    (string \<times> Answer) list \<times> Address list result" where
  "resolve_host hostname asked cache v4 v6 now later = (case cached_addresses asked hostname cache of
      Some addresses \<Rightarrow> (later, Inr addresses)
    | None \<Rightarrow> answer_host hostname v4 v6 now later)"

text \<open>The \<open>LookupFunction\<close>: \<open>family\<close> is that of the options when they are an object.\<close>

datatype lookup_reply = AllAddresses "Address list" | OneAddress string int | NotFound

definition lookup_answer :: "int option \<Rightarrow> bool \<Rightarrow> Address list result \<Rightarrow> lookup_reply" where
  "lookup_answer family every resolved = (case resolved of
      Inl e \<Rightarrow> NotFound
    | Inr addresses \<Rightarrow>
        let usable = (if family = Some 4 \<or> family = Some 6 then filter (\<lambda>a. Some (ad_family a) = family) addresses else addresses) in
        case usable of
          [] \<Rightarrow> NotFound
        | a # _ \<Rightarrow> if every then AllAddresses usable else OneAddress (ad_address a) (ad_family a))"

record DnsConfig =
  dns_mode :: string
  dns_dohUrl :: "string option"
  dns_timeoutMs :: "int option"

definition exchangeLookup :: "DnsConfig option \<Rightarrow> (string \<times> int) option" where
  "exchangeLookup config = (case config of
      None \<Rightarrow> None
    | Some c \<Rightarrow>
        if dns_mode c = ''doh''
        then Some (case dns_dohUrl c of None \<Rightarrow> ''https://1.1.1.1/dns-query'' | Some u \<Rightarrow> u, case dns_timeoutMs c of None \<Rightarrow> 5000 | Some t \<Rightarrow> t)
        else None)"

text \<open>\<open>httpsGetJson\<close>, of the status (if any) and the parsed body.\<close>

definition httpsGetJson :: "(int option \<times> 'json result) result \<Rightarrow> 'json result" where
  "httpsGetJson response =
    ebind response (\<lambda>(status, body).
    if (case status of None \<Rightarrow> 500 | Some s \<Rightarrow> s) \<ge> 400 then Inl (Failure ''HTTP status'') else body)"

section \<open>The cache\<close>

type_synonym dns_query = "string \<times> dns_reply \<times> dns_reply \<times> int"

definition dns_run :: "dns_query list \<Rightarrow> (string \<times> Answer) list" where
  "dns_run queries = foldl (\<lambda>cache (hostname, v4, v6, now). fst (answer_host hostname v4 v6 now cache)) [] queries"

definition came_from :: "dns_query list \<Rightarrow> string \<Rightarrow> Answer \<Rightarrow> bool" where
  "came_from queries hostname a \<longleftrightarrow> (\<exists>v4 v6 now found. (hostname, v4, v6, now) \<in> set queries \<and> found_addresses v4 v6 = Inr found \<and>
    found \<noteq> [] \<and> a = \<lparr>an_addresses = map fst found, an_expiresAt = answer_until now found\<rparr>)"

lemma came_from_more: "came_from queries hostname a \<Longrightarrow> came_from (queries @ more_queries) hostname a"
  by (auto simp: came_from_def)

lemma answered_entry:
  assumes "map_of (fst (answer_host h v4 v6 now cache)) hostname = Some a"
  shows "map_of cache hostname = Some a \<or> came_from [(h, v4, v6, now)] hostname a"
  using assms
  by (auto simp: answer_host_def came_from_def update_conv' Let_def split: sum.splits if_splits)

lemma run_entries: "map_of (dns_run queries) hostname = Some a \<Longrightarrow> came_from queries hostname a"
proof (induction queries rule: rev_induct)
  case (snoc q queries)
  obtain h v4 v6 now where q: "q = (h, v4, v6, now)" by (cases q)
  from snoc.prems answered_entry have "map_of (dns_run queries) hostname = Some a \<or> came_from [q] hostname a"
    by (simp add: dns_run_def q)
  then show ?case using snoc.IH came_from_more by (auto simp: came_from_def)
qed (simp add: dns_run_def)

lemma foldl_min_le: "foldl min m xs \<le> m \<and> (\<forall>x \<in> set xs. foldl min m xs \<le> x)" for m :: int
  by (induction xs arbitrary: m) (auto, fastforce+)

lemma until_bounds:
  "answer_until now found \<le> now + 300000"
  "(a, ttl) \<in> set found \<Longrightarrow> answer_until now found \<le> now + 1000 * max ttl 30"
  using foldl_min_le [of 300 "map snd found"] by (force simp: answer_until_def max_def)+

section \<open>Properties\<close>

text \<open>An address from the cache was in a resolver's answer for that host, less than 300 s before and,
  beyond the floor of 30 s, within the time to live of every address of that answer.\<close>

theorem dns_answer_fresh:
  assumes "cached_addresses asked hostname (dns_run queries) = Some addresses"
  shows "addresses \<noteq> [] \<and> (\<exists>v4 v6 now found. (hostname, v4, v6, now) \<in> set queries \<and> found_addresses v4 v6 = Inr found \<and>
    addresses = map fst found \<and> asked < now + 300000 \<and> (\<forall>(a, ttl) \<in> set found. asked < now + 1000 * max ttl 30))"
proof -
  from assms obtain a where a: "map_of (dns_run queries) hostname = Some a" "an_expiresAt a > asked" "an_addresses a = addresses"
    by (auto simp: cached_addresses_def split: option.splits if_splits)
  from run_entries [OF a(1)] obtain v4 v6 now found where f: "(hostname, v4, v6, now) \<in> set queries"
    "found_addresses v4 v6 = Inr found" "found \<noteq> []" "a = \<lparr>an_addresses = map fst found, an_expiresAt = answer_until now found\<rparr>"
    by (auto simp: came_from_def)
  have "asked < answer_until now found" "addresses = map fst found" using a f(4) by simp_all
  with f(1-3) until_bounds(1) [of now found] until_bounds(2) [of _ _ found now] show ?thesis by fastforce
qed

text \<open>A lookup gives only addresses that were resolved, and of the family asked for.\<close>

lemma lookup_family:
  assumes family: "family = Some 4 \<or> family = Some 6"
    and "lookup_answer family every (Inr addresses) = reply"
  shows "(case reply of
      AllAddresses found \<Rightarrow> found \<noteq> [] \<and> set found = {a \<in> set addresses. Some (ad_family a) = family}
    | OneAddress address f \<Rightarrow> \<lparr>ad_address = address, ad_family = f\<rparr> \<in> set addresses \<and> Some f = family
    | NotFound \<Rightarrow> (\<forall>a \<in> set addresses. Some (ad_family a) \<noteq> family))"
proof (cases "filter (\<lambda>a. Some (ad_family a) = family) addresses")
  case Nil
  with assms show ?thesis by (auto simp: lookup_answer_def filter_empty_conv)
next
  case (Cons a as)
  have "set (a # as) = {a \<in> set addresses. Some (ad_family a) = family}" using arg_cong [OF Cons, of set] by simp
  moreover from this have "a \<in> set addresses \<and> Some (ad_family a) = family" by auto
  moreover have "reply = (if every then AllAddresses (a # as) else OneAddress (ad_address a) (ad_family a))"
    using assms Cons by (simp add: lookup_answer_def)
  ultimately show ?thesis by (cases a) (simp split: if_splits)
qed

definition demo_dns :: dns_query where
  "demo_dns = (''api.gate.io'', Inr (Some [\<lparr>dn_type = 5, dn_data = ''cdn'', dn_ttl = 5\<rparr>, \<lparr>dn_type = 1, dn_data = ''1.2.3.4'', dn_ttl = 60\<rparr>]),
     Inl (Failure ''timeout''), 1000)"

theorem dns_answer_fresh_witness:
  "cached_addresses 60999 ''api.gate.io'' (dns_run [demo_dns]) = Some [\<lparr>ad_address = ''1.2.3.4'', ad_family = 4\<rparr>] \<and>
    cached_addresses 61000 ''api.gate.io'' (dns_run [demo_dns]) = None \<and> (60999 :: int) < 1000 + 300000"
proof -
  have "cached_addresses 60999 ''api.gate.io'' (dns_run [demo_dns]) = Some [\<lparr>ad_address = ''1.2.3.4'', ad_family = 4\<rparr>]"
    "cached_addresses 61000 ''api.gate.io'' (dns_run [demo_dns]) = None"
    by (simp_all add: cached_addresses_def dns_run_def demo_dns_def answer_host_def found_addresses_def found_rows_def answer_until_def Let_def)
  with dns_answer_fresh [OF this(1)] show ?thesis by (auto simp: demo_dns_def)
qed

end
