(* ===== verification/Spec2Isabelle.thy ===== *)
theory Spec2Isabelle
  imports Merkle Publisher_Set Verify Observation Committee_Config Fixed_Point Aggregate Twap Config_Schedule
    Market_Data Methodology Wire Publisher_Store Publisher_Node Node_Safety
    Mirror_Store Mirror_Committee Mirror_Ingest Mirror_Client Rate_Limit Mirror_Api Signing Governance Watchdog 
    Deployment Chain Fees Feed_Tx Committee_Tx Oracle_Client Record_Store Shadow Sources Operator_Config Operator_Commands
    Transport Publisher_Api Recorder Deploy_Checks Replay Twap_Replay Resolver
begin

text \<open>
  \<^bold>\<open>The program.\<close> Lean Oracle is a price oracle for CKB. The publishers of a committee connect to exchanges,
  price feeds from what these deliver, exchange signed observations, and for every tick agree on one header: a
  Merkle root over the prices of the tick, signed by a quorum. A mirror collects and serves these updates; a client
  or a feed cell on the chain verifies a price against the committee cell alone, trusting neither mirror nor
  publisher. The committee cell holds the public keys and is changed by signed governance operations. Around this
  are a watchdog, a shadow runner, a recorder with its replay, and the tools that deploy contracts and committees.
  The TypeScript of the SDK (\<open>packages/sdk/src\<close>), of the publisher, the mirror, the watchdog and the deployment
  tool (\<open>apps\<close>) is modelled; the contracts, the web site and the tests are not.

  \<^bold>\<open>How to read the model.\<close> A TypeScript interface or class is a \<open>record\<close>, a union a \<open>datatype\<close>, a function a
  definition of the same name (a suffix or a field prefix where HOL has the name already). A \<open>throw\<close> is \<open>Inl\<close> of a
  \<open>js_error\<close>, whose messages leave out interpolated values; \<open>result\<close> is the sum type, \<open>ebind\<close> its sequencing. A method
  of a stateful object takes the state and returns the new one; a handler that may throw after having changed
  something is a value of the handler type of Effects, which keeps these changes. An \<open>await\<close> ends a step: the code
  before and after it are two definitions, so that other steps may come between. Hex is \<open>string\<close>, a \<open>Uint8Array\<close> a
  list of \<open>8 word\<close>; \<open>bigint\<close> and whole \<open>number\<close>s are \<open>int\<close>, whose division truncates as in JavaScript (\<open>big_div\<close>);
  numbers that come from exchanges are IEEE doubles with NaN and infinities (Js_Values); token buckets are \<open>rat\<close>.
  Byte lengths, integer widths and wrap-around of the wire formats are those of the code's readers and writers.
  SQL tables are lists of rows in insertion order; a \<open>Map\<close> is an association list where its order matters.

  What is not under \<open>src/\<close> is an argument: BLAKE2b, SHA-256 and secp256k1 (\<open>crypto\<close>; \<open>Kms\<close> and key files for
  signing), the CKB library (\<open>ccc\<close>, \<open>Client\<close>, \<open>Signer\<close>), and what the environment answers: HTTP and DNS replies, file
  contents, disks, clocks, sockets, timers, random bytes. Laws of these that a property needs are hypotheses in its
  statement (a hash without collisions on the inputs at hand, a recovery that returns the key that signed), and each
  property with hypotheses is applied to a concrete instance by its witness.

  \<^bold>\<open>Shared theories.\<close> Prelude: exceptions, optional values, tables, sorted lists. Bytes, Codec: hex, the little-endian
  reader and writer; the locale \<open>codec\<close> (encode, decode, what is well formed) gives round trips and injectivity, and
  is interpreted on every wire format. Effects: handlers with exceptions and a triple \<open>hoare P m Q E\<close> with its rules.
  Stores: deletion in batches, and two contracts as locales: \<open>sign_guard\<close> (at most one signature per tick) and
  \<open>first_write_log\<close> (the first row of a key stays), interpreted on the stores of publisher and mirror. Merkle has the
  locales \<open>sorted_pair_tree\<close> and \<open>sealed_tree\<close> of the tree over any node function; Signatures has \<open>quorum_system\<close>, the
  intersection of quorums, interpreted on the quorum of a key set.

  \<^bold>\<open>Protocol\<close> (\<open>packages/sdk/src/protocol\<close>). Hashing (\<open>hash.ts\<close>, \<open>constants.ts\<close>), Merkle (\<open>merkle.ts\<close>), Publisher_Set
  (\<open>publisherSet.ts\<close>: the committee cell, its format, \<open>transitionError\<close>), Signatures (\<open>signatures.ts\<close>), Price_Update
  (\<open>priceUpdate.ts\<close>), Verify (\<open>verify.ts\<close>, \<open>priceFeed.ts\<close>), Observation (\<open>observation.ts\<close>), Committee_Config
  (\<open>committeeConfig.ts\<close>: canonical JSON, validation, approval). The lemmas: every format decodes exactly what it
  encodes; a proof verifies for the leaves of the tree and, short of a collision, for nothing else; \<open>verifyThreshold\<close>
  accepts exactly a quorum of valid signatures in ascending order; any two accepted bundles share a publisher;
  a price that verifies is one the committee's quorum committed to; along any history of accepted transitions the
  nonce counts them, the set index never falls, and a key set that lost its trust never gets it back.

  \<^bold>\<open>Publisher\<close> (\<open>apps/publisher/src\<close>). Prices: Js_Values and Venues (\<open>sources/venues.ts\<close>), Sources (\<open>runner.ts\<close>,
  \<open>rest.ts\<close>, \<open>manager.ts\<close>, \<open>mock.ts\<close>), Resolver (\<open>net/resolver.ts\<close>), Fixed_Point (\<open>fixed.ts\<close>), Market_Data
  (\<open>marketData.ts\<close>), Methodology (\<open>methodology.ts\<close>), Twap (\<open>twap.ts\<close>), Aggregate (\<open>aggregate.ts\<close>, \<open>leaderOrder.ts\<close>):
  the book kept incrementally is the book of all changes; a poller hands on no trade twice; the bounded history
  answers as the unbounded log; with fewer than a third of faulty publishers a price lies in the honest range.
  Agreement: Config_Schedule (\<open>configSchedule.ts\<close>, \<open>scheduler.ts\<close>), Wire (\<open>wire.ts\<close>), Publisher_Store (\<open>store.ts\<close>,
  \<open>retention.ts\<close>), Publisher_Node (\<open>node.ts\<close>, every handler and timer as a step), Node_Safety (the invariant
  \<open>node_inv\<close> over all steps, whatever frames arrive and however the steps interleave, across restarts and pruning:
  no publisher signs two headers for a tick; what it signs is derived from what it measured and what it received
  signed; what a store holds as finalized is signed by a quorum and proven; with at most a third of a key set faulty,
  the updates that this set signed for a tick have one header in all stores) and Node_Demo (a run the invariant is applied to). Operation: Signing (\<open>keySigner.ts\<close>
  and the SDK's \<open>publisher/sign.ts\<close>), Governance (\<open>governance.ts\<close>), Operator_Config (\<open>config.ts\<close>, \<open>chain.ts\<close>),
  Operator_Commands (\<open>main.ts\<close>), Transport (\<open>transport.ts\<close>, \<open>wsTransport.ts\<close>), Publisher_Api (\<open>api.ts\<close>), Recorder
  (\<open>recorder.ts\<close>), Shadow (\<open>shadow.ts\<close>), Replay and Twap_Replay (\<open>scripts/replay.mjs\<close>,
  \<open>scripts/twap-replay.mjs\<close>).

  \<^bold>\<open>Mirror, client and watchdog.\<close> Mirror_Store (\<open>apps/mirror/src/store.ts\<close>, \<open>retention.ts\<close>), Mirror_Committee
  (\<open>committee.ts\<close>, \<open>chain.ts\<close>), Mirror_Ingest (\<open>ingest.ts\<close>), Rate_Limit (\<open>rateLimit.ts\<close>), Mirror_Api (\<open>api.ts\<close>,
  \<open>config.ts\<close>), Mirror_Client (the SDK's \<open>mirror\<close>), Watchdog (\<open>apps/watchdog/src\<close>). The store refines an archive of
  the first update of every tick; conflicting headers are kept as evidence; what the mirror verifies from
  the current or the previous key set, a client accepts; a backfill from an honest publisher returns with everything; a client's prices are verified.

  \<^bold>\<open>Chain and deployment.\<close> Deployment (\<open>presets/deployment.ts\<close>; the contracts are an instance of the class \<open>enum\<close>), Chain (\<open>ckb\<close>, \<open>tx/common.ts\<close>, \<open>tx/cellCapacity.ts\<close>),
  Fees (\<open>tx/fees.ts\<close>), Feed_Tx (\<open>tx/feed.ts\<close>, \<open>tx/pull.ts\<close>), Committee_Tx (\<open>tx/committee.ts\<close>), Oracle_Client
  (\<open>client\<close>, \<open>presets\<close>), Record_Store (\<open>apps/deploy/src/record.ts\<close>), Deploy_Actions (\<open>actions.ts\<close>, \<open>context.ts\<close>),
  Deploy_Checks (\<open>validate\<close>, the presets, the release check, the SDK's error codes against those of the contracts).
  Transactions are balanced and spend what they say; the record of a deployment loses nothing, and after a deployment
  without errors it knows every transaction sent.

  \<^bold>\<open>Loops.\<close> Loops over lists are folds or structural recursion; others have a measure (Merkle levels, book scans,
  sample times, the skip scan and the pruning of the mirror's SQL). The two loops that need not end are
  \<open>partial_function (option)\<close>: \<open>delete_batches\<close>, proved to return for a positive batch, and the mirror's \<open>backfill\<close>,
  proved to return from an honest publisher (from another it may run for ever). Only the fee loop has a bound that is
  not in the code's text: it recurses on the signer's cells, one of which each round consumes, and the library's
  answer "no more cells" is the end of this list. No other fuel is used.

  \<^bold>\<open>Choices and limits.\<close> Ticks a mirror or publisher binds into SQL are below \<open>2 ^ 63\<close>; beyond, the query throws
  (modelled). Rows that SQL leaves in no order come in insertion order. JavaScript's sort is stable. A socket that was
  terminated hands on no more frames. The numbers of a committee config are integers; a config with fractions is
  outside the model (Committee_Config says what the code does with it). Values of JSON have the types the code declares for them, except where the
  code checks these or the parsers of Venues, which take any JSON.

  \<^bold>\<open>Not modelled.\<close> The wiring of processes: \<open>run\<close> and \<open>runShadow\<close> of the publisher's \<open>main.ts\<close>, \<open>mirror.ts\<close>, the main
  programs and the Telegram message, \<open>ckb/client.ts\<close>: they construct objects, start timers and servers, and print; what
  these call is modelled. The depth snapshots' parsers of the recorder and \<open>skew\<close> of the replay, and \<open>scripts/t6.mjs\<close>,
  \<open>probe-venues.mjs\<close>, \<open>local-committee.mjs\<close>: statistics in floating point over recordings, and
  set-up of processes. \<open>deployments.generated.ts\<close>, which a tool writes from data (its reader is Deployment). The web
  site and its generator, which only present. The Rust contracts, which are another program; the SDK's rules they
  must agree with (\<open>transitionError\<close>, the formats, verification) are modelled on the side of the SDK. Times spent,
  memory, process exit, logs, the text of messages.
\<close>

end
